(* ===== verification/Prelude.thy ===== *)
theory Prelude
  imports Main "HOL-Library.Word"
begin

text \<open>
  Shared vocabulary of the development: the machine integer types of the C code, the
  little-endian byte accessors that every wire and flash format of the program uses,
  wrap-around counters, and the generic lemmas on lists and words that the component
  theories need.  Unsigned C integers are \<open>w word\<close> where the code combines
  or wraps them; lengths and indices are \<open>nat\<close>, with the 16-bit wrap-around
  written out (\<open>inc16\<close>, \<open>dec16\<close>) where the code
  increments or decrements them.
\<close>

unbundle bit_operations_syntax

named_theorems codec_simps \<open>facts that evaluate codec tokens\<close>
named_theorems frame_simps \<open>facts that evaluate frame field packing and unpacking\<close>

type_synonym u8 = "8 word"
type_synonym u16 = "16 word"
type_synonym u32 = "32 word"

section \<open>Counters\<close>

definition inc16 :: "nat \<Rightarrow> nat" where
  "inc16 n = (n + 1) mod 65536"

definition dec16 :: "nat \<Rightarrow> nat" where
  "dec16 n = (n + 65535) mod 65536"

lemma inc16_small [simp]: "n < 65535 \<Longrightarrow> inc16 n = Suc n"
  by (simp add: inc16_def)

lemma dec16_pos [simp]: "0 < n \<Longrightarrow> n < 65536 \<Longrightarrow> dec16 n = n - 1"
proof -
  assume "0 < n" "n < 65536"
  then have "n + 65535 = (n - 1) + 65536" by simp
  then have "dec16 n = ((n - 1) + 65536) mod 65536" by (simp only: dec16_def)
  also have "\<dots> = (n - 1) mod 65536" by (rule mod_add_self2)
  also have "\<dots> = n - 1" using \<open>n < 65536\<close> by simp
  finally show "dec16 n = n - 1" .
qed

section \<open>Lists\<close>

lemma drop_nth_Cons: "i < length xs \<Longrightarrow> drop i xs = xs ! i # drop (Suc i) xs"
  by (simp add: Cons_nth_drop_Suc)

lemma take_extend: "take (i + n) xs = take i xs @ take n (drop i xs)"
  by (simp add: take_add)

lemma take_all_of_le: "length xs \<le> i \<Longrightarrow> take i xs = xs"
  by simp

lemma replicate_eq_take_drop:
  assumes "i + n \<le> length xs" and "\<And>j. j < n \<Longrightarrow> xs ! (i + j) = c"
  shows "take n (drop i xs) = replicate n c"
  using assms by (intro nth_equalityI) auto

section \<open>Words\<close>

lemma mask8: "(0xFF :: 'a::len word) = mask 8"
  by (simp add: mask_numeral)

lemma xor_cancel_right: "x XOR z = y XOR z \<longleftrightarrow> x = (y :: 'a::len word)"
proof
  assume "x XOR z = y XOR z"
  then have "(x XOR z) XOR z = (y XOR z) XOR z" by simp
  then show "x = y" by (simp add: xor.assoc)
qed simp

lemma xor_cancel_left: "z XOR x = z XOR y \<longleftrightarrow> x = (y :: 'a::len word)"
  using xor_cancel_right [of x z y] by (simp add: xor.commute)

lemma unat_of_nat_u8: "n < 256 \<Longrightarrow> unat (of_nat n :: u8) = n"
  by (simp add: unat_of_nat)

lemma unat_u8_less: "unat (x :: u8) < 256"
  using unsigned_less [of x] by simp

lemma unat_u32_less: "unat (x :: u32) < 4294967296"
  using unsigned_less [of x] by simp

lemma of_nat_le_127: "n < 128 \<Longrightarrow> (of_nat n :: u8) \<le> 0x7F"
  by (simp add: word_le_nat_alt unat_of_nat_u8)

lemma high_token_all:
  "list_all (\<lambda>n. \<not> ((0x80 OR of_nat n) :: u8) \<le> 0x7F
     \<and> unat ((0x80 OR of_nat n) AND 0x7F :: u8) = n
     \<and> (n < 64 \<longrightarrow> ((0x80 OR of_nat n) :: u8) \<le> 0xBF
        \<and> unat ((0x80 OR of_nat n) AND 0x3F :: u8) = n)) [0..<128]"
  by code_simp

lemma high_token:
  assumes "n < 128"
  shows "\<not> ((0x80 OR of_nat n) :: u8) \<le> 0x7F"
    and "unat ((0x80 OR of_nat n) AND 0x7F :: u8) = n"
  using high_token_all assms unfolding list_all_iff by auto

lemma high_token_index:
  assumes "n < 64"
  shows "((0x80 OR of_nat n) :: u8) \<le> 0xBF" and "unat ((0x80 OR of_nat n) AND 0x3F :: u8) = n"
  using high_token_all assms unfolding list_all_iff by auto

section \<open>Linked lists\<close>

text \<open>\<open>chain nxt p rs\<close>: following \<open>nxt\<close> from \<open>p\<close> visits exactly \<open>rs\<close>.\<close>

fun chain :: "('r \<Rightarrow> 'r option) \<Rightarrow> 'r option \<Rightarrow> 'r list \<Rightarrow> bool" where
  "chain nxt p [] \<longleftrightarrow> p = None"
| "chain nxt p (r # rs) \<longleftrightarrow> p = Some r \<and> chain nxt (nxt r) rs"

lemma chain_unique: "chain nxt p xs \<Longrightarrow> chain nxt p ys \<Longrightarrow> xs = ys"
proof (induction xs arbitrary: p ys)
  case Nil
  then show ?case by (cases ys) auto
next
  case (Cons x xs)
  then show ?case by (cases ys) auto
qed

end
