(* ===== verification/Codec_Base.thy ===== *)
theory Codec_Base
  imports Prelude
begin

text \<open>
  What the four COMM v1 codecs share: the call shape
  \<open>int8_t codec_x(input_len, p_input, p_output_len, p_output, limit_len)\<close>,
  the literal-run flush that codec_lzss.c and codec_dict.c inline three times each, and two
  interfaces.  The locale \<open>token_stream\<close> is the contract between a codec's encoder
  and decoder and the meaning of its token stream; the locale
  \<open>block_codec\<close> is the contract between a codec and comm_v1.c.
\<close>

section \<open>The call shape\<close>

text \<open>
  The result of one call: the returned value, the value left in
  \<open>*p_output_len\<close> (\<open>None\<close> when the pointer is NULL) and the
  bytes stored to \<open>p_output\<close>, from its first byte on.  The caller owns as many
  output bytes as the capacity it passed in \<open>*p_output_len\<close>; a call that stores
  past them has \<open>length (io_buf r)\<close> above the capacity.
\<close>

record codec_io =
  io_ret :: int
  io_len :: "nat option"
  io_buf :: "u8 list"

text \<open>
  Arguments in the model's order: the input (\<open>None\<close> for a NULL pointer, else the
  \<open>input_len\<close> bytes), \<open>*p_output_len\<close> (\<open>None\<close> for a
  NULL pointer), whether \<open>p_output\<close> is non-NULL, and \<open>limit_len\<close>.
\<close>

type_synonym codec_fn = "u8 list option \<Rightarrow> nat option \<Rightarrow> bool \<Rightarrow> nat \<Rightarrow> codec_io"

text \<open>The bytes a caller reads back: \<open>*p_output_len\<close> bytes of \<open>p_output\<close>.\<close>

definition io_payload :: "codec_io \<Rightarrow> u8 list" where
  "io_payload r = (case io_len r of None \<Rightarrow> [] | Some n \<Rightarrow> take n (io_buf r))"

text \<open>A NULL \<open>p_output_len\<close>: nothing is written, 0 is returned.\<close>

definition codec_null :: codec_io where
  "codec_null = \<lparr>io_ret = 0, io_len = None, io_buf = []\<rparr>"

text \<open>Return 0 with \<open>*p_output_len = 0\<close>, after storing the bytes \<open>w\<close>.\<close>

definition codec_fail :: "u8 list \<Rightarrow> codec_io" where
  "codec_fail w = \<lparr>io_ret = 0, io_len = Some 0, io_buf = w\<rparr>"

definition codec_ok :: "nat \<Rightarrow> u8 list \<Rightarrow> codec_io" where
  "codec_ok n w = \<lparr>io_ret = 1, io_len = Some n, io_buf = w\<rparr>"

lemmas codec_io_defs = codec_null_def codec_fail_def codec_ok_def io_payload_def

text \<open>
  The argument checks every codec function starts with, and the final
  \<open>out_len == 0 || out_len >= limit_len\<close> test it ends with.  A loop result
  \<open>Inl w\<close> is an early \<open>return 0\<close> after storing \<open>w\<close>.
\<close>

definition written :: "u8 list + u8 list \<Rightarrow> u8 list" where
  "written r = (case r of Inl w \<Rightarrow> w | Inr w \<Rightarrow> w)"

definition codec_finish :: "nat \<Rightarrow> u8 list + u8 list \<Rightarrow> codec_io" where
  "codec_finish lim r =
     (case r of
        Inl w \<Rightarrow> codec_fail w
      | Inr out \<Rightarrow>
          if length out = 0 \<or> length out \<ge> lim then codec_fail out
          else codec_ok (length out) out)"

definition codec_guard ::
  "(u8 list \<Rightarrow> nat \<Rightarrow> codec_io) \<Rightarrow> codec_fn" where
  "codec_guard body p_input p_output_len p_output lim =
     (case p_output_len of
        None \<Rightarrow> codec_null
      | Some cap \<Rightarrow>
          (case p_input of
             None \<Rightarrow> codec_fail []
           | Some inp \<Rightarrow>
               if \<not> p_output \<or> length inp = 0 \<or> lim = 0 then codec_fail []
               else if cap = 0 then codec_fail []
               else body inp cap))"

definition codec_call :: "(u8 list \<Rightarrow> nat \<Rightarrow> nat \<Rightarrow> u8 list + u8 list) \<Rightarrow> codec_fn" where
  "codec_call run i l b lim = codec_guard (\<lambda>inp cap. codec_finish lim (run inp cap lim)) i l b lim"

lemma codec_guard_success:
  "io_ret (codec_guard body i l b lim) = 1 \<longleftrightarrow>
     (\<exists>inp cap. i = Some inp \<and> l = Some cap \<and> b \<and> inp \<noteq> [] \<and> 0 < lim \<and> 0 < cap
        \<and> io_ret (body inp cap) = 1)"
  by (auto simp: codec_guard_def codec_io_defs split: option.splits)

lemma codec_guard_Some:
  "inp \<noteq> [] \<Longrightarrow> 0 < lim \<Longrightarrow> 0 < cap \<Longrightarrow>
     codec_guard body (Some inp) (Some cap) True lim = body inp cap"
  by (simp add: codec_guard_def)

lemma codec_finish_success:
  "io_ret (codec_finish lim r) = 1 \<longleftrightarrow> (\<exists>out. r = Inr out \<and> out \<noteq> [] \<and> length out < lim)"
  by (auto simp: codec_finish_def codec_io_defs split: sum.splits)

lemma codec_finish_ok:
  "r = Inr out \<Longrightarrow> out \<noteq> [] \<Longrightarrow> length out < lim \<Longrightarrow> codec_finish lim r = codec_ok (length out) out"
  by (simp add: codec_finish_def)

lemma io_payload_ok [simp]: "io_payload (codec_ok (length out) out) = out"
  by (simp add: codec_io_defs)

lemma codec_guard_cases:
  assumes "\<And>inp cap. io_ret (body inp cap) \<noteq> 1 \<Longrightarrow>
     io_ret (body inp cap) = 0 \<and> io_len (body inp cap) = Some 0"
    and "io_ret (codec_guard body i l b lim) \<noteq> 1"
  shows "io_ret (codec_guard body i l b lim) = 0
     \<and> io_len (codec_guard body i l b lim) = map_option (\<lambda>_. 0) l"
  using assms by (auto simp: codec_guard_def codec_io_defs split: option.splits)

lemma codec_finish_cases:
  "io_ret (codec_finish lim r) \<noteq> 1 \<Longrightarrow>
     io_ret (codec_finish lim r) = 0 \<and> io_len (codec_finish lim r) = Some 0"
  by (auto simp: codec_finish_def codec_io_defs split: sum.splits)

text \<open>The laws of a codec function whose loop keeps its stores within the capacity.\<close>

lemma codec_call_cases:
  "io_ret (codec_call run i l b lim) \<noteq> 1 \<Longrightarrow>
     io_ret (codec_call run i l b lim) = 0 \<and> io_len (codec_call run i l b lim) = map_option (\<lambda>_. 0) l"
  unfolding codec_call_def by (rule codec_guard_cases) (auto dest: codec_finish_cases)

lemma codec_call_store:
  assumes "\<And>inp. length (written (run inp cap lim)) \<le> cap"
  shows "length (io_buf (codec_call run i (Some cap) b lim)) \<le> cap"
proof -
  have "length (io_buf (codec_finish lim (run inp cap lim))) \<le> cap" for inp
    using assms [of inp] by (auto simp: codec_finish_def codec_io_defs written_def split: sum.splits)
  then show ?thesis
    by (auto simp: codec_call_def codec_guard_def codec_fail_def codec_null_def split: option.splits)
qed

lemma codec_call_success:
  "io_ret (codec_call run i l b lim) = 1 \<longleftrightarrow>
     (\<exists>xs cap out. i = Some xs \<and> l = Some cap \<and> b \<and> xs \<noteq> [] \<and> 0 < lim \<and> 0 < cap
        \<and> run xs cap lim = Inr out \<and> out \<noteq> [] \<and> length out < lim)"
  by (auto simp: codec_call_def codec_guard_success codec_finish_success)

lemma codec_call_run:
  assumes "run xs cap lim = Inr out" "out \<noteq> []" "length out < lim" "xs \<noteq> []" "0 < cap"
  shows "codec_call run (Some xs) (Some cap) True lim = codec_ok (length out) out"
proof -
  have "0 < lim" using assms(3) by simp
  then show ?thesis using assms by (simp add: codec_call_def codec_guard_Some codec_finish_ok)
qed

lemma codec_call_bounds:
  assumes "\<And>inp. length (written (run inp cap lim)) \<le> cap"
    and "io_ret (codec_call run i (Some cap) b lim) = 1"
  shows "\<exists>n. io_len (codec_call run i (Some cap) b lim) = Some n
     \<and> 0 < n \<and> n \<le> cap \<and> n < lim \<and> n \<le> length (io_buf (codec_call run i (Some cap) b lim))"
proof -
  obtain xs out where i: "i = Some xs" "b" "xs \<noteq> []" "0 < cap"
    and r: "run xs cap lim = Inr out" "out \<noteq> []" "length out < lim"
    using assms(2) by (auto simp: codec_call_success)
  have "codec_call run i (Some cap) b lim = codec_ok (length out) out"
    using codec_call_run [of run xs cap lim out] r i by simp
  then show ?thesis using r assms(1) [of xs] by (simp add: codec_ok_def written_def)
qed

section \<open>Literal runs\<close>

text \<open>
  The flush of a pending literal run: the capacity test, the limit test, the token and the
  \<open>memcpy\<close> of \<open>len\<close> input bytes from \<open>start\<close>.
\<close>

definition flush_literal ::
  "u8 list \<Rightarrow> nat \<Rightarrow> nat \<Rightarrow> nat \<Rightarrow> nat \<Rightarrow> u8 list \<Rightarrow> u8 list + u8 list" where
  "flush_literal inp cap lim start len out =
     (if length out + 1 + len > cap then Inl out
      else if length out + 1 + len \<ge> lim then Inl out
      else Inr (out @ of_nat (len - 1) # take len (drop start inp)))"

lemma flush_literal_length:
  "flush_literal inp cap lim start len out = Inr r \<Longrightarrow>
     length r \<le> cap \<and> length r < lim"
  by (auto simp: flush_literal_def split: if_splits)

lemma flush_literal_Inl: "flush_literal inp cap lim start len out = Inl w \<Longrightarrow> w = out"
  by (auto simp: flush_literal_def split: if_splits)

lemma flush_literal_Inr:
  "flush_literal inp cap lim start len out = Inr r \<Longrightarrow>
     r = out @ of_nat (len - 1) # take len (drop start inp)"
  by (auto simp: flush_literal_def split: if_splits)

section \<open>Token streams\<close>

text \<open>
  The meaning of a token stream: \<open>expand h ts\<close> is the output buffer after decoding
  the tokens \<open>ts\<close> with \<open>h\<close> already decoded, without any bound on
  its size; \<open>None\<close> for a malformed stream.
\<close>

locale token_stream =
  fixes expand :: "u8 list \<Rightarrow> u8 list \<Rightarrow> u8 list option"
  assumes expand_Nil: "expand h [] = Some h"
    and expand_append: "expand h a = Some h' \<Longrightarrow> expand h (a @ b) = expand h' b"
    and expand_literal:
      "0 < length l \<Longrightarrow> length l \<le> 128 \<Longrightarrow> expand h (of_nat (length l - 1) # l) = Some (h @ l)"
begin

lemma expand_then:
  "expand h a = Some h' \<Longrightarrow> expand h' b = Some h'' \<Longrightarrow> expand h (a @ b) = Some h''"
  by (simp add: expand_append)

lemma expand_take_literal:
  assumes "expand [] out = Some (take s inp)" and "0 < n" "n \<le> 128" "s + n \<le> length inp"
  shows "expand [] (out @ of_nat (n - 1) # take n (drop s inp)) = Some (take (s + n) inp)"
proof -
  let ?l = "take n (drop s inp)"
  have len: "length ?l = n" using assms by simp
  have "expand (take s inp) (of_nat (n - 1) # ?l) = Some (take s inp @ ?l)"
    using expand_literal [of ?l "take s inp"] assms(2,3) by (simp only: len)
  then show ?thesis using assms(1) by (simp add: expand_append take_extend)
qed

lemma expand_flush:
  assumes "expand [] out = Some (take s inp)" and "0 < n" "n \<le> 128" "s + n \<le> length inp"
    and "flush_literal inp cap lim s n out = Inr r"
  shows "expand [] r = Some (take (s + n) inp)"
  using expand_take_literal [OF assms(1-4)] flush_literal_Inr [OF assms(5)] by simp

end

section \<open>Encoders that stop at a size bound\<close>

text \<open>
  \<open>run xs cap lim\<close> encodes \<open>xs\<close> until the capacity or the exclusive
  limit stops it.  \<open>encoded run xs\<close> is its output under bounds that never stop it:
  every encoder here stores at most two bytes per input byte.
\<close>

definition encoded :: "(u8 list \<Rightarrow> nat \<Rightarrow> nat \<Rightarrow> u8 list + u8 list) \<Rightarrow> u8 list \<Rightarrow> u8 list" where
  "encoded run xs = written (run xs (2 * length xs) (2 * length xs + 1))"

locale sized_encoder =
  fixes run :: "u8 list \<Rightarrow> nat \<Rightarrow> nat \<Rightarrow> u8 list + u8 list"
  assumes run_fits: "run xs c l = Inr r \<Longrightarrow> length r \<le> c' \<Longrightarrow> length r < l' \<Longrightarrow> run xs c' l' = Inr r"
    and run_bounded: "run xs c l = Inr r \<Longrightarrow> 0 < l \<Longrightarrow> length r \<le> c \<and> length r < l"
    and run_roomy: "2 * length xs \<le> c \<Longrightarrow> 2 * length xs < l \<Longrightarrow> \<exists>r. run xs c l = Inr r"
    and run_nonempty: "xs \<noteq> [] \<Longrightarrow> run xs c l = Inr r \<Longrightarrow> r \<noteq> []"
begin

lemma run_encoded: "run xs (2 * length xs) (2 * length xs + 1) = Inr (encoded run xs)"
  using run_roomy [of xs "2 * length xs" "2 * length xs + 1"] by (auto simp: encoded_def written_def)

lemma run_iff:
  assumes "0 < l"
  shows "run xs c l = Inr r \<longleftrightarrow> r = encoded run xs \<and> length r \<le> c \<and> length r < l"
proof
  assume r: "run xs c l = Inr r"
  let ?m = "max (2 * length xs) (length r)"
  have "run xs ?m (Suc ?m) = Inr r" using run_fits [OF r] by simp
  moreover have "length (encoded run xs) \<le> 2 * length xs"
    using run_bounded [OF run_encoded] by simp
  then have "run xs ?m (Suc ?m) = Inr (encoded run xs)" using run_fits [OF run_encoded] by simp
  ultimately have "r = encoded run xs" by simp
  then show "r = encoded run xs \<and> length r \<le> c \<and> length r < l"
    using run_bounded [OF r assms] by simp
next
  assume "r = encoded run xs \<and> length r \<le> c \<and> length r < l"
  then show "run xs c l = Inr r" using run_fits [OF run_encoded] by blast
qed

text \<open>An encoder succeeds exactly when the encoding fits, and then stores exactly that encoding.\<close>

lemma encode_threshold:
  assumes "xs \<noteq> []" "0 < cap" "0 < lim"
  shows "codec_call run (Some xs) (Some cap) True lim =
    (if length (encoded run xs) \<le> cap \<and> length (encoded run xs) < lim
     then codec_ok (length (encoded run xs)) (encoded run xs)
     else codec_fail (written (run xs cap lim)))"
proof (cases "run xs cap lim")
  case (Inl w)
  then show ?thesis
    using assms run_iff [OF assms(3), of xs cap "encoded run xs"]
    by (auto simp: codec_call_def codec_guard_Some codec_finish_def written_def)
next
  case (Inr r)
  then have "r = encoded run xs" "length r \<le> cap" "length r < lim"
    using run_iff [OF assms(3)] by auto
  then show ?thesis
    using assms Inr run_nonempty [OF assms(1) Inr]
    by (simp add: codec_call_def codec_guard_Some codec_finish_def)
qed

end

section \<open>The interface between a codec and the COMM v1 layer\<close>

locale block_codec =
  fixes encode :: codec_fn and decode :: codec_fn
  assumes encode_cases: "io_ret (encode i l b lim) \<noteq> 1 \<Longrightarrow>
        io_ret (encode i l b lim) = 0 \<and> (io_len (encode i l b lim) = map_option (\<lambda>_. 0) l)"
    and encode_bounds: "io_ret (encode i (Some cap) b lim) = 1 \<Longrightarrow>
        \<exists>n. io_len (encode i (Some cap) b lim) = Some n \<and> 0 < n \<and> n \<le> cap \<and> n < lim
          \<and> n \<le> length (io_buf (encode i (Some cap) b lim))"
    and encode_store: "lim \<le> cap \<Longrightarrow> length (io_buf (encode i (Some cap) b lim)) \<le> cap"
    and decode_cases: "io_ret (decode i l b lim) \<noteq> 1 \<Longrightarrow>
        io_ret (decode i l b lim) = 0 \<and> (io_len (decode i l b lim) = map_option (\<lambda>_. 0) l)"
    and decode_bounds: "io_ret (decode i (Some cap) b lim) = 1 \<Longrightarrow>
        \<exists>n. io_len (decode i (Some cap) b lim) = Some n \<and> 0 < n \<and> n \<le> cap \<and> n < lim
          \<and> n \<le> length (io_buf (decode i (Some cap) b lim))"
    and decode_store: "length (io_buf (decode i (Some cap) b lim)) \<le> cap"
    and round_trip: "io_ret (encode (Some xs) (Some cap) b lim) = 1 \<Longrightarrow>
        length xs \<le> cap' \<Longrightarrow> length xs < lim' \<Longrightarrow>
        (let d = decode (Some (io_payload (encode (Some xs) (Some cap) b lim))) (Some cap') True lim'
         in io_ret d = 1 \<and> io_len d = Some (length xs) \<and> io_payload d = xs)"
begin

lemma payload_length:
  assumes "io_ret (encode i (Some cap) b lim) = 1"
  shows "io_len (encode i (Some cap) b lim) = Some (length (io_payload (encode i (Some cap) b lim)))"
    and "0 < length (io_payload (encode i (Some cap) b lim))"
    and "length (io_payload (encode i (Some cap) b lim)) \<le> cap"
    and "length (io_payload (encode i (Some cap) b lim)) < lim"
  using encode_bounds [OF assms] by (auto simp: io_payload_def)

lemma encode_injective:
  assumes "io_ret (encode (Some xs) (Some cap) b lim) = 1"
    and "io_ret (encode (Some ys) (Some cap') b' lim') = 1"
    and "io_payload (encode (Some xs) (Some cap) b lim) = io_payload (encode (Some ys) (Some cap') b' lim')"
  shows "xs = ys"
proof -
  let ?c = "max (length xs) (length ys)"
  have "io_payload (decode (Some (io_payload (encode (Some xs) (Some cap) b lim))) (Some ?c) True (Suc ?c)) = xs"
    using round_trip [OF assms(1), of ?c "Suc ?c"] by (simp add: Let_def)
  moreover have "io_payload (decode (Some (io_payload (encode (Some ys) (Some cap') b' lim'))) (Some ?c) True (Suc ?c)) = ys"
    using round_trip [OF assms(2), of ?c "Suc ?c"] by (simp add: Let_def)
  ultimately show ?thesis using assms(3) by simp
qed

end

section \<open>Codecs over one output list\<close>

text \<open>
  A codec whose encoder and decoder only append to the output: \<open>meaning\<close> is what a
  whole encoded block stands for.  Every such codec meets \<open>block_codec\<close>.
\<close>

locale stream_codec = sized_encoder enc
  for enc :: "u8 list \<Rightarrow> nat \<Rightarrow> nat \<Rightarrow> u8 list + u8 list" +
  fixes dec :: "u8 list \<Rightarrow> nat \<Rightarrow> nat \<Rightarrow> u8 list + u8 list"
    and meaning :: "u8 list \<Rightarrow> u8 list option"
  assumes enc_meaning: "enc xs c l = Inr r \<Longrightarrow> meaning r = Some xs"
    and dec_iff: "0 < l \<Longrightarrow> dec ys c l = Inr r \<longleftrightarrow> meaning ys = Some r \<and> length r \<le> c \<and> length r < l"
    and enc_written: "length (written (enc xs c l)) \<le> c"
    and dec_written: "length (written (dec xs c l)) \<le> c"
begin

lemma call_round_trip:
  assumes "io_ret (codec_call enc (Some xs) (Some cap) b lim) = 1"
    and "length xs \<le> cap'" "length xs < lim'"
  shows "codec_call dec (Some (io_payload (codec_call enc (Some xs) (Some cap) b lim))) (Some cap') True lim'
    = codec_ok (length xs) xs"
proof -
  obtain out where out: "b" "xs \<noteq> []" "0 < cap" "enc xs cap lim = Inr out" "out \<noteq> []" "length out < lim"
    using assms(1) by (auto simp: codec_call_success)
  have p: "io_payload (codec_call enc (Some xs) (Some cap) b lim) = out"
    using codec_call_run [of enc xs cap lim out] out by simp
  have "0 < lim'" "0 < cap'" using assms(2,3) out(2) by (cases xs; simp)+
  then have "dec out cap' lim' = Inr xs"
    using enc_meaning [OF out(4)] dec_iff assms by blast
  then show ?thesis
    using out assms(3) \<open>0 < cap'\<close> unfolding p by (intro codec_call_run) auto
qed

end

sublocale stream_codec \<subseteq> block_codec "codec_call enc" "codec_call dec"
proof
  fix i l b lim cap lim' cap' and xs :: "u8 list"
  show "io_ret (codec_call enc (Some xs) (Some cap) b lim) = 1 \<Longrightarrow> length xs \<le> cap' \<Longrightarrow> length xs < lim' \<Longrightarrow>
      (let d = codec_call dec (Some (io_payload (codec_call enc (Some xs) (Some cap) b lim))) (Some cap') True lim'
       in io_ret d = 1 \<and> io_len d = Some (length xs) \<and> io_payload d = xs)"
    using call_round_trip [of xs cap b lim cap' lim'] by (simp add: codec_ok_def io_payload_def)
  show "io_ret (codec_call enc i (Some cap) b lim) = 1 \<Longrightarrow>
      \<exists>n. io_len (codec_call enc i (Some cap) b lim) = Some n \<and> 0 < n \<and> n \<le> cap \<and> n < lim
        \<and> n \<le> length (io_buf (codec_call enc i (Some cap) b lim))"
    by (rule codec_call_bounds [OF enc_written])
  show "io_ret (codec_call dec i (Some cap) b lim) = 1 \<Longrightarrow>
      \<exists>n. io_len (codec_call dec i (Some cap) b lim) = Some n \<and> 0 < n \<and> n \<le> cap \<and> n < lim
        \<and> n \<le> length (io_buf (codec_call dec i (Some cap) b lim))"
    by (rule codec_call_bounds [OF dec_written])
  show "length (io_buf (codec_call enc i (Some cap) b lim)) \<le> cap"
    by (rule codec_call_store [OF enc_written])
  show "length (io_buf (codec_call dec i (Some cap) b lim)) \<le> cap"
    by (rule codec_call_store [OF dec_written])
qed (rule codec_call_cases, assumption)+

end
