(* ===== verification/Codec_RLE.thy ===== *)
theory Codec_RLE
  imports Codec_Base
begin

text \<open>
  The RLE / PackBits codec of code/lib/codec_rle.c: the run scanner, the literal collector, the
  encoder and decoder loops, and the proof that decoding what the encoder produced gives the
  input back.
\<close>

section \<open>The encoder\<close>

text \<open>The inner \<open>while\<close>: the run of bytes equal to \<open>p_input[index]\<close>, at most 130.\<close>

function rle_run :: "u8 list \<Rightarrow> nat \<Rightarrow> nat \<Rightarrow> nat" where
  "rle_run inp index run =
     (if index + run < length inp \<and> inp ! (index + run) = inp ! index \<and> run < 130
      then rle_run inp index (run + 1) else run)"
  by pat_completeness auto
termination by (relation "measure (\<lambda>(inp, index, run). 130 - run)") auto

declare rle_run.simps [simp del]

lemma rle_run_ge: "run \<le> rle_run inp index run"
proof (induction inp index run rule: rle_run.induct)
  case (1 inp index run)
  then show ?case by (subst rle_run.simps) (auto intro: Suc_leD)
qed

lemma rle_run_le: "run \<le> 130 \<Longrightarrow> rle_run inp index run \<le> 130"
proof (induction inp index run rule: rle_run.induct)
  case (1 inp index run)
  then show ?case by (subst rle_run.simps) auto
qed

lemma rle_run_bound: "index + run \<le> length inp \<Longrightarrow> index + rle_run inp index run \<le> length inp"
proof (induction inp index run rule: rle_run.induct)
  case (1 inp index run)
  then show ?case by (subst rle_run.simps) auto
qed

lemma rle_run_same:
  "(\<And>j. j < run \<Longrightarrow> inp ! (index + j) = inp ! index) \<Longrightarrow>
     j < rle_run inp index run \<Longrightarrow> inp ! (index + j) = inp ! index"
proof (induction inp index run rule: rle_run.induct)
  case (1 inp index run)
  show ?case
  proof (cases "index + run < length inp \<and> inp ! (index + run) = inp ! index \<and> run < 130")
    case True
    have "j < rle_run inp index (run + 1)"
      using "1.prems"(2) True by (subst (asm) rle_run.simps) simp
    moreover have "\<And>j. j < run + 1 \<Longrightarrow> inp ! (index + j) = inp ! index"
      using "1.prems"(1) True by (metis Suc_eq_plus1 less_antisym)
    ultimately show ?thesis using "1.IH" True by blast
  next
    case False
    then have "rle_run inp index run = run" by (subst rle_run.simps) auto
    then show ?thesis using "1.prems" by simp
  qed
qed

lemma rle_run_take:
  assumes "index < length inp"
  shows "take (rle_run inp index 1) (drop index inp) = replicate (rle_run inp index 1) (inp ! index)"
proof (rule replicate_eq_take_drop)
  show "index + rle_run inp index 1 \<le> length inp" using assms by (intro rle_run_bound) simp
  show "\<And>j. j < rle_run inp index 1 \<Longrightarrow> inp ! (index + j) = inp ! index"
    by (rule rle_run_same [of 1]) auto
qed

text \<open>
  The literal collector: short runs are taken until a run of three starts, the input ends or
  the next run would not fit 128 bytes.  The result is \<open>(index, literal_len)\<close>.
\<close>

function rle_literal :: "u8 list \<Rightarrow> nat \<Rightarrow> nat \<Rightarrow> nat \<times> nat" where
  "rle_literal inp index lit =
     (if index < length inp \<and> lit < 128 then
        (let ahead = rle_run inp index 1
         in if ahead \<ge> 3 then (index, lit)
            else if lit + ahead > 128 then (index, lit)
            else rle_literal inp (index + ahead) (lit + ahead))
      else (index, lit))"
  by pat_completeness auto
termination
proof (relation "measure (\<lambda>(inp, index, lit). 128 - lit)", goal_cases)
  case 1
  show ?case by simp
next
  case (2 inp index lit ahead)
  then show ?case using rle_run_ge [of 1 inp index] by auto
qed

declare rle_literal.simps [simp del]

lemma rle_literal_spec:
  "lit \<le> 128 \<Longrightarrow> index \<le> length inp \<Longrightarrow> rle_literal inp index lit = (i', n') \<Longrightarrow>
     n' \<le> 128 \<and> i' \<le> length inp \<and> lit \<le> n' \<and> i' = index + (n' - lit)"
proof (induction inp index lit arbitrary: i' n' rule: rle_literal.induct)
  case (1 inp index lit)
  let ?a = "rle_run inp index 1"
  show ?case
  proof (cases "index < length inp \<and> lit < 128 \<and> \<not> ?a \<ge> 3 \<and> \<not> lit + ?a > 128")
    case True
    then have eq: "rle_literal inp (index + ?a) (lit + ?a) = (i', n')"
      using "1.prems"(3) by (subst (asm) rle_literal.simps) (simp add: Let_def)
    have "index + ?a \<le> length inp" using True by (intro rle_run_bound) simp
    with True eq "1.IH" [of ?a i' n'] show ?thesis by auto
  next
    case False
    then have "rle_literal inp index lit = (index, lit)"
      by (subst rle_literal.simps) (auto simp: Let_def)
    then show ?thesis using "1.prems" by simp
  qed
qed

lemma rle_literal_progress:
  assumes "index < length inp" "rle_run inp index 1 < 3" "rle_literal inp index 0 = (i', n')"
  shows "0 < n'"
proof -
  let ?a = "rle_run inp index 1"
  have a: "1 \<le> ?a" by (rule rle_run_ge)
  have "rle_literal inp (index + ?a) ?a = (i', n')"
    using assms by (subst (asm) rle_literal.simps) (simp add: Let_def)
  moreover have "index + ?a \<le> length inp" using assms by (intro rle_run_bound) simp
  ultimately show ?thesis
    using rle_literal_spec [of ?a "index + ?a" inp i' n'] assms(2) a by simp
qed

lemma rle_literal_decreases:
  assumes "(i', n') = rle_literal inp index 0" "index < length inp" "\<not> 3 \<le> rle_run inp index (Suc 0)"
  shows "length inp - i' < length inp - index"
proof -
  have eq: "rle_literal inp index 0 = (i', n')" using assms(1) by simp
  have "0 < n'" using rle_literal_progress [OF assms(2) _ eq] assms(3) by simp
  moreover have "i' = index + n'" using rle_literal_spec [OF _ _ eq] assms(2) by simp
  ultimately show ?thesis using assms(2) by arith
qed

text \<open>The main loop: \<open>Inl\<close> is an early return, \<open>Inr\<close> the output at the loop's end.\<close>

function rle_enc_loop :: "u8 list \<Rightarrow> nat \<Rightarrow> nat \<Rightarrow> nat \<Rightarrow> u8 list \<Rightarrow> u8 list + u8 list" where
  "rle_enc_loop inp cap lim index out =
     (if index < length inp then
        (let run = rle_run inp index 1
         in if run \<ge> 3 then
              (if length out + 2 > cap then Inl out
               else if length out + 2 \<ge> lim then Inl out
               else rle_enc_loop inp cap lim (index + run)
                      (out @ [0x80 OR of_nat (run - 3), inp ! index]))
            else
              (case rle_literal inp index 0 of
                 (index', literal_len) \<Rightarrow>
                   (case flush_literal inp cap lim index literal_len out of
                      Inl w \<Rightarrow> Inl w
                    | Inr out' \<Rightarrow> rle_enc_loop inp cap lim index' out')))
      else Inr out)"
  by pat_completeness auto
termination
proof (relation "measure (\<lambda>(inp, cap, lim, index, out). length inp - index)", goal_cases)
  case 1
  show ?case by simp
next
  case (2 inp cap lim index out run)
  then show ?case by auto
next
  case 3
  then show ?case by (simp add: rle_literal_decreases)
qed

declare rle_enc_loop.simps [simp del]

definition codec_rle_encode :: codec_fn where
  "codec_rle_encode = codec_call (\<lambda>inp cap lim. rle_enc_loop inp cap lim 0 [])"

section \<open>The decoder\<close>

function rle_dec_loop :: "u8 list \<Rightarrow> nat \<Rightarrow> nat \<Rightarrow> nat \<Rightarrow> u8 list \<Rightarrow> u8 list + u8 list" where
  "rle_dec_loop inp cap lim index out =
     (if index < length inp then
        (let token = inp ! index; index1 = index + 1
         in if token \<le> 0x7F then
              (let literal_len = unat token + 1
               in if literal_len > length inp - index1 then Inl out
                  else if length out + literal_len > cap then Inl out
                  else if length out + literal_len \<ge> lim then Inl out
                  else rle_dec_loop inp cap lim (index1 + literal_len)
                         (out @ take literal_len (drop index1 inp)))
            else
              (let repeat_len = unat (token AND 0x7F) + 3
               in if index1 \<ge> length inp then Inl out
                  else if length out + repeat_len > cap then Inl out
                  else if length out + repeat_len \<ge> lim then Inl out
                  else rle_dec_loop inp cap lim (index1 + 1)
                         (out @ replicate repeat_len (inp ! index1))))
      else Inr out)"
  by pat_completeness auto
termination by (relation "measure (\<lambda>(inp, cap, lim, index, out). length inp - index)") auto

declare rle_dec_loop.simps [simp del]

definition codec_rle_decode :: codec_fn where
  "codec_rle_decode = codec_call (\<lambda>inp cap lim. rle_dec_loop inp cap lim 0 [])"

section \<open>The meaning of a token stream\<close>

function rle_expand :: "u8 list \<Rightarrow> u8 list \<Rightarrow> u8 list option" where
  "rle_expand h [] = Some h"
| "rle_expand h (t # ts) =
     (if t \<le> 0x7F then
        (if unat t + 1 > length ts then None
         else rle_expand (h @ take (unat t + 1) ts) (drop (unat t + 1) ts))
      else
        (case ts of
           [] \<Rightarrow> None
         | v # ts' \<Rightarrow> rle_expand (h @ replicate (unat (t AND 0x7F) + 3) v) ts'))"
  by pat_completeness auto
termination by (relation "measure (\<lambda>(h, ts). length ts)") auto

lemma rle_expand_append: "rle_expand h a = Some h' \<Longrightarrow> rle_expand h (a @ b) = rle_expand h' b"
  by (induction h a arbitrary: h' rule: rle_expand.induct)
     (auto split: if_splits list.splits)

lemma rle_expand_grows: "rle_expand h a = Some h' \<Longrightarrow> length h \<le> length h'"
  by (induction h a arbitrary: h' rule: rle_expand.induct)
     (force split: if_splits list.splits)+

interpretation rle: token_stream rle_expand
proof
  fix l h :: "u8 list"
  assume "0 < length l" "length l \<le> 128"
  then show "rle_expand h (of_nat (length l - 1) # l) = Some (h @ l)"
    by (simp add: of_nat_le_127 unat_of_nat_u8)
qed (simp_all add: rle_expand_append)

lemma rle_dec_loop_iff:
  "length out \<le> cap \<Longrightarrow> length out < lim \<Longrightarrow>
     rle_dec_loop inp cap lim index out = Inr r \<longleftrightarrow>
       rle_expand out (drop index inp) = Some r \<and> length r \<le> cap \<and> length r < lim"
proof (induction inp cap lim index out rule: rle_dec_loop.induct)
  case (1 inp cap lim index out)
  show ?case
  proof (cases "index < length inp")
    case False
    then show ?thesis using "1.prems" by (subst rle_dec_loop.simps) auto
  next
    case True
    let ?t = "inp ! index" and ?rest = "drop (Suc index) inp"
    have d: "drop index inp = ?t # ?rest" using True by (rule drop_nth_Cons)
    show ?thesis
    proof (cases "?t \<le> 0x7F")
      case lit: True
      let ?n = "unat ?t + 1"
      have grow: "rle_expand (out @ take ?n ?rest) x = Some r \<Longrightarrow> ?n \<le> length ?rest \<Longrightarrow>
          length out + ?n \<le> length r" for x
        using rle_expand_grows [of "out @ take ?n ?rest" x r] by simp
      have IH: "?n \<le> length inp - (index + 1) \<Longrightarrow> length out + ?n \<le> cap \<Longrightarrow> length out + ?n < lim \<Longrightarrow>
          rle_dec_loop inp cap lim (index + 1 + ?n) (out @ take ?n (drop (index + 1) inp)) = Inr r \<longleftrightarrow>
          rle_expand (out @ take ?n ?rest) (drop ?n ?rest) = Some r \<and> length r \<le> cap \<and> length r < lim"
        using "1.IH"(1) [OF True refl refl lit refl] by (simp add: add.commute)
      show ?thesis
        using True lit IH grow by (subst rle_dec_loop.simps) (auto simp: d Let_def)
    next
      case rep: False
      let ?n = "unat (?t AND 0x7F) + 3"
      show ?thesis
      proof (cases "Suc index < length inp")
        case False
        then show ?thesis using True rep by (subst rle_dec_loop.simps) (auto simp: d Let_def)
      next
        case more: True
        let ?v = "inp ! Suc index"
        have d2: "?rest = ?v # drop (Suc (Suc index)) inp" using more by (rule drop_nth_Cons)
        have grow: "rle_expand (out @ replicate ?n ?v) x = Some r \<Longrightarrow> length out + ?n \<le> length r" for x
          using rle_expand_grows [of "out @ replicate ?n ?v" x r] by simp
        have IH: "length out + ?n \<le> cap \<Longrightarrow> length out + ?n < lim \<Longrightarrow>
            rle_dec_loop inp cap lim (Suc (Suc index)) (out @ replicate ?n ?v) = Inr r \<longleftrightarrow>
            rle_expand (out @ replicate ?n ?v) (drop (Suc (Suc index)) inp) = Some r
              \<and> length r \<le> cap \<and> length r < lim"
          using "1.IH"(2) [OF True refl refl rep refl] more by (simp del: replicate.simps)
        show ?thesis
          using True rep more IH grow
          by (subst rle_dec_loop.simps) (auto simp: d d2 Let_def simp del: replicate.simps)
      qed
    qed
  qed
qed

section \<open>The encoder against the meaning\<close>

text \<open>One step of the main loop at an index inside the input.\<close>

lemma rle_enc_step_repeat:
  assumes "index < length inp" "3 \<le> rle_run inp index 1"
  shows "rle_enc_loop inp cap lim index out =
     (if length out + 2 > cap \<or> length out + 2 \<ge> lim then Inl out
      else rle_enc_loop inp cap lim (index + rle_run inp index 1)
             (out @ [0x80 OR of_nat (rle_run inp index 1 - 3), inp ! index]))"
  using assms by (subst rle_enc_loop.simps) (auto simp: Let_def)

lemma rle_enc_step_literal:
  assumes "index < length inp" "\<not> 3 \<le> rle_run inp index 1" "rle_literal inp index 0 = (i', n)"
  shows "rle_enc_loop inp cap lim index out =
     (case flush_literal inp cap lim index n out of
        Inl w \<Rightarrow> Inl w | Inr out' \<Rightarrow> rle_enc_loop inp cap lim i' out')"
  using assms by (subst rle_enc_loop.simps) (auto simp: Let_def)

lemma rle_enc_end: "\<not> index < length inp \<Longrightarrow> rle_enc_loop inp cap lim index out = Inr out"
  by (subst rle_enc_loop.simps) simp

lemma rle_literal_len:
  assumes "index < length inp" "\<not> 3 \<le> rle_run inp index 1" "rle_literal inp index 0 = (i', n)"
  shows "0 < n" "n \<le> 128" "i' = index + n" "i' \<le> length inp"
  using rle_literal_progress [OF assms(1) _ assms(3)] rle_literal_spec [OF _ _ assms(3)] assms by auto

text \<open>An induction over the main loop: the end, a repeat token, a literal run.\<close>

lemma rle_enc_induct [consumes 1, case_names End Repeat Literal]:
  assumes "index \<le> length inp"
    and "\<And>index out. index = length inp \<Longrightarrow> P index out"
    and "\<And>index out n. index < length inp \<Longrightarrow> n = rle_run inp index 1 \<Longrightarrow> 3 \<le> n \<Longrightarrow> n \<le> 130 \<Longrightarrow>
           index + n \<le> length inp \<Longrightarrow>
           P (index + n) (out @ [0x80 OR of_nat (n - 3), inp ! index]) \<Longrightarrow> P index out"
    and "\<And>index out n. index < length inp \<Longrightarrow> \<not> 3 \<le> rle_run inp index 1 \<Longrightarrow>
           rle_literal inp index 0 = (index + n, n) \<Longrightarrow> 0 < n \<Longrightarrow> n \<le> 128 \<Longrightarrow> index + n \<le> length inp \<Longrightarrow>
           P (index + n) (out @ of_nat (n - 1) # take n (drop index inp)) \<Longrightarrow> P index out"
  shows "P index out"
  using assms(1)
proof (induction "length inp - index" arbitrary: index out rule: less_induct)
  case (less index out)
  show ?case
  proof (cases "index < length inp")
    case False
    then show ?thesis using less.prems assms(2) by simp
  next
    case True
    show ?thesis
    proof (cases "3 \<le> rle_run inp index 1")
      case rep: True
      have b: "index + rle_run inp index 1 \<le> length inp" using True by (intro rle_run_bound) simp
      have "P (index + rle_run inp index 1)
              (out @ [0x80 OR of_nat (rle_run inp index 1 - 3), inp ! index])"
        using less.hyps b rep by simp
      then show ?thesis using assms(3) [OF True refl rep _ b, of out] rle_run_le by simp
    next
      case lit: False
      obtain i' n where eq: "rle_literal inp index 0 = (i', n)" by fastforce
      note l = rle_literal_len [OF True lit eq]
      have "P (index + n) (out @ of_nat (n - 1) # take n (drop index inp))"
        using less.hyps l by simp
      then show ?thesis using assms(4) [OF True lit _ l(1,2)] eq l by simp
    qed
  qed
qed

lemma rle_enc_loop_expand:
  assumes "index \<le> length inp" "rle_expand [] out = Some (take index inp)"
    "rle_enc_loop inp cap lim index out = Inr r"
  shows "rle_expand [] r = Some inp"
  using assms
proof (induction index out rule: rle_enc_induct)
  case (End index out)
  then show ?case by (simp add: rle_enc_end)
next
  case (Repeat index out n)
  have tok: "\<not> ((0x80 OR of_nat (n - 3)) :: u8) \<le> 0x7F" "unat ((0x80 OR of_nat (n - 3)) AND 0x7F :: u8) = n - 3"
    using high_token [of "n - 3"] Repeat(4) by auto
  have "take n (drop index inp) = replicate n (inp ! index)"
    using rle_run_take Repeat(1,2) by simp
  then have "rle_expand (take index inp) [0x80 OR of_nat (n - 3), inp ! index] = Some (take (index + n) inp)"
    using Repeat(3) tok by (simp add: take_extend del: replicate.simps)
  then have "rle_expand [] (out @ [0x80 OR of_nat (n - 3), inp ! index]) = Some (take (index + n) inp)"
    using Repeat.prems(1) by (rule rle.expand_then [rotated])
  then show ?case
    using Repeat rle_enc_step_repeat [OF Repeat(1)] by (auto split: if_splits)
next
  case (Literal index out n)
  show ?case
  proof (cases "flush_literal inp cap lim index n out")
    case (Inl w)
    then show ?thesis using Literal rle_enc_step_literal [OF Literal(1-3)] by simp
  next
    case (Inr out')
    have "rle_expand [] out' = Some (take (index + n) inp)"
      using rle.expand_flush [OF Literal.prems(1) _ _ _ Inr] Literal by simp
    then show ?thesis
      using Literal Inr rle_enc_step_literal [OF Literal(1-3)] flush_literal_Inr [OF Inr] by simp
  qed
qed

lemma rle_enc_grows:
  assumes "index \<le> length inp" "rle_enc_loop inp cap lim index out = Inr r"
  shows "length out \<le> length r \<and> (index < length inp \<longrightarrow> length out < length r)"
  using assms
proof (induction index out rule: rle_enc_induct)
  case (End index out)
  then show ?case by (simp add: rle_enc_end)
next
  case (Repeat index out n)
  then show ?case using rle_enc_step_repeat [OF Repeat(1)] by (auto split: if_splits)
next
  case (Literal index out n)
  then show ?case
    using rle_enc_step_literal [OF Literal(1-3), of cap lim out]
    by (auto simp: flush_literal_def split: if_splits)
qed

lemma rle_enc_fits:
  assumes "index \<le> length inp" "rle_enc_loop inp c l index out = Inr r" "length r \<le> c'" "length r < l'"
  shows "rle_enc_loop inp c' l' index out = Inr r"
  using assms
proof (induction index out rule: rle_enc_induct)
  case (End index out)
  then show ?case by (simp add: rle_enc_end)
next
  case (Repeat index out n)
  then have r: "rle_enc_loop inp c l (index + n) (out @ [0x80 OR of_nat (n - 3), inp ! index]) = Inr r"
    using rle_enc_step_repeat [OF Repeat(1), of c l out] by (auto split: if_splits)
  show ?case
    using Repeat r rle_enc_grows [OF Repeat(5) r] rle_enc_step_repeat [OF Repeat(1), of c' l' out] by auto
next
  case (Literal index out n)
  let ?out = "out @ of_nat (n - 1) # take n (drop index inp)"
  have r: "rle_enc_loop inp c l (index + n) ?out = Inr r"
    using Literal rle_enc_step_literal [OF Literal(1-3), of c l out]
    by (auto simp: flush_literal_def split: if_splits)
  have "length out + 1 + n \<le> length r"
    using rle_enc_grows [OF _ r] Literal by simp
  then show ?case
    using Literal r rle_enc_step_literal [OF Literal(1-3), of c' l' out]
    by (auto simp: flush_literal_def)
qed

lemma rle_enc_bounded:
  assumes "index \<le> length inp" "length out \<le> c" "length out < l \<or> l = 0"
  shows "length (written (rle_enc_loop inp c l index out)) \<le> c \<and>
    (0 < l \<longrightarrow> length (written (rle_enc_loop inp c l index out)) < l)"
  using assms
proof (induction index out rule: rle_enc_induct)
  case (End index out)
  then show ?case by (auto simp: rle_enc_end written_def)
next
  case (Repeat index out n)
  then show ?case
    using rle_enc_step_repeat [OF Repeat(1), of c l out] by (auto simp: written_def)
next
  case (Literal index out n)
  then show ?case
    using rle_enc_step_literal [OF Literal(1-3), of c l out]
    by (cases "flush_literal inp c l index n out")
       (auto simp: flush_literal_def written_def split: if_splits)
qed

lemma rle_enc_roomy:
  assumes "index \<le> length inp" "length out + 2 * (length inp - index) \<le> c"
    "length out + 2 * (length inp - index) < l"
  shows "\<exists>r. rle_enc_loop inp c l index out = Inr r"
  using assms
proof (induction index out rule: rle_enc_induct)
  case (End index out)
  then show ?case by (simp add: rle_enc_end)
next
  case (Repeat index out n)
  then show ?case using rle_enc_step_repeat [OF Repeat(1), of c l out] by auto
next
  case (Literal index out n)
  then have "length out + 1 + n \<le> c" "length out + 1 + n < l" by auto
  then show ?case
    using Literal rle_enc_step_literal [OF Literal(1-3), of c l out] by (auto simp: flush_literal_def)
qed

lemma rle_dec_written:
  "length out \<le> cap \<Longrightarrow> length (written (rle_dec_loop inp cap lim index out)) \<le> cap"
proof (induction inp cap lim index out rule: rle_dec_loop.induct)
  case (1 inp cap lim index out)
  then show ?case
    by (subst rle_dec_loop.simps) (auto simp: Let_def written_def simp del: replicate.simps)
qed

section \<open>The codec contract\<close>

interpretation rle_stream: stream_codec "\<lambda>xs c l. rle_enc_loop xs c l 0 []"
  "\<lambda>xs c l. rle_dec_loop xs c l 0 []" "rle_expand []"
proof
  fix xs r :: "u8 list" and c l c' l' :: nat
  show "rle_enc_loop xs c l 0 [] = Inr r \<Longrightarrow> length r \<le> c' \<Longrightarrow> length r < l' \<Longrightarrow>
      rle_enc_loop xs c' l' 0 [] = Inr r"
    by (rule rle_enc_fits) auto
  show "rle_enc_loop xs c l 0 [] = Inr r \<Longrightarrow> 0 < l \<Longrightarrow> length r \<le> c \<and> length r < l"
    using rle_enc_bounded [of 0 xs "[]" c l] by (simp add: written_def)
  show "2 * length xs \<le> c \<Longrightarrow> 2 * length xs < l \<Longrightarrow> \<exists>r. rle_enc_loop xs c l 0 [] = Inr r"
    by (rule rle_enc_roomy) auto
  show "xs \<noteq> [] \<Longrightarrow> rle_enc_loop xs c l 0 [] = Inr r \<Longrightarrow> r \<noteq> []"
    using rle_enc_grows [of 0 xs c l "[]" r] by auto
  show "rle_enc_loop xs c l 0 [] = Inr r \<Longrightarrow> rle_expand [] r = Some xs"
    by (rule rle_enc_loop_expand [of 0 xs "[]" c l]) auto
  show "0 < l \<Longrightarrow> (rle_dec_loop xs c l 0 [] = Inr r) =
      (rle_expand [] xs = Some r \<and> length r \<le> c \<and> length r < l)"
    using rle_dec_loop_iff [of "[]" c l xs 0 r] by simp
  show "length (written (rle_enc_loop xs c l 0 [])) \<le> c"
    using rle_enc_bounded [of 0 xs "[]" c l] by auto
  show "length (written (rle_dec_loop xs c l 0 [])) \<le> c"
    by (rule rle_dec_written) simp
qed

interpretation rle_codec: block_codec codec_rle_encode codec_rle_decode
  unfolding codec_rle_encode_def codec_rle_decode_def by (rule rle_stream.block_codec_axioms)

section \<open>Properties\<close>

text \<open>
  C29: whatever codec_rle_encode accepted, codec_rle_decode turns back into the input, for
  every output capacity and limit the input itself fits.
\<close>

theorem codec_rle_round_trip:
  assumes "io_ret (codec_rle_encode (Some xs) (Some cap) b lim) = 1"
    and "length xs \<le> cap'" "length xs < lim'"
  shows "codec_rle_decode (Some (io_payload (codec_rle_encode (Some xs) (Some cap) b lim))) (Some cap') True lim'
    = codec_ok (length xs) xs"
  using rle_stream.call_round_trip [of xs cap b lim cap' lim'] assms
  by (simp add: codec_rle_encode_def codec_rle_decode_def)

lemma rle_encode_sample:
  "io_ret (codec_rle_encode (Some [7, 7, 7, 7, 1, 2]) (Some 16) True 16) = 1"
  by code_simp

theorem codec_rle_round_trip_witness:
  "codec_rle_decode (Some (io_payload (codec_rle_encode (Some [7, 7, 7, 7, 1, 2]) (Some 16) True 16))) (Some 6) True 7
    = codec_ok 6 [7, 7, 7, 7, 1, 2]"
  using codec_rle_round_trip [OF rle_encode_sample, of 6 7] by (simp add: eval_nat_numeral)

text \<open>
  The capacity and the exclusive limit only decide whether codec_rle_encode succeeds:
  there is one encoding of the input, the call succeeds exactly when that encoding fits both
  bounds, and then returns exactly it; otherwise it returns 0 with output length 0.
\<close>

theorem codec_rle_encode_threshold:
  assumes "xs \<noteq> []" "0 < cap" "0 < lim"
  shows "let e = encoded (\<lambda>xs c l. rle_enc_loop xs c l 0 []) xs;
             r = codec_rle_encode (Some xs) (Some cap) True lim
         in length e \<le> 2 * length xs \<and>
            (if length e \<le> cap \<and> length e < lim then r = codec_ok (length e) e
             else io_ret r = 0 \<and> io_len r = Some 0)"
proof -
  let ?run = "\<lambda>xs c l. rle_enc_loop xs c l 0 []"
  have "length (encoded ?run xs) \<le> 2 * length xs"
    using rle_stream.run_bounded [OF rle_stream.run_encoded, of xs] by simp
  then show ?thesis
    using rle_stream.encode_threshold [OF assms] by (simp add: Let_def codec_rle_encode_def codec_fail_def)
qed

theorem codec_rle_encode_threshold_witness:
  "length (encoded (\<lambda>xs c l. rle_enc_loop xs c l 0 []) [5, 5, 5]) \<le> 6"
  using codec_rle_encode_threshold [of "[5, 5, 5]" 4 4] by (simp add: Let_def)

end
