(* ===== verification/Codec_Literal.thy ===== *)
theory Codec_Literal
  imports Codec_Base
begin

text \<open>
  The encoder loop that codec_lzss.c and codec_dict.c share: bytes with no usable match are
  collected into a pending literal run, a match flushes the run and emits its token bytes, and
  the last run is flushed after the loop.  The locale states the loop by its three equations
  and the match finder by its laws, and proves the codec contract once for both files.
\<close>

section \<open>The pending literal run\<close>

definition flush_pending ::
  "u8 list \<Rightarrow> nat \<Rightarrow> nat \<Rightarrow> nat \<Rightarrow> nat \<Rightarrow> u8 list \<Rightarrow> u8 list + u8 list" where
  "flush_pending inp cap lim literal_start literal_len out =
     (if literal_len \<noteq> 0 then flush_literal inp cap lim literal_start literal_len out else Inr out)"

text \<open>The flush after the loop, over the loop's \<open>(literal_start, literal_len, out)\<close>.\<close>

definition literal_finish ::
  "u8 list \<Rightarrow> nat \<Rightarrow> nat \<Rightarrow> u8 list + nat \<times> nat \<times> u8 list \<Rightarrow> u8 list + u8 list" where
  "literal_finish inp cap lim r =
     (case r of
        Inl w \<Rightarrow> Inl w
      | Inr (literal_start, literal_len, out) \<Rightarrow> flush_pending inp cap lim literal_start literal_len out)"

text \<open>The bytes a pending run will take.\<close>

definition pend :: "nat \<Rightarrow> nat" where
  "pend n = (if n = 0 then 0 else Suc n)"

lemma pend_0 [simp]: "pend 0 = 0"
  by (simp add: pend_def)

lemma pend_Suc [simp]: "pend (Suc n) = Suc (Suc n)"
  by (simp add: pend_def)

lemma flush_pending_Inr:
  "flush_pending inp c l s n out = Inr r \<Longrightarrow> s + n \<le> length inp \<Longrightarrow>
     length r = length out + pend n \<and> (n \<noteq> 0 \<longrightarrow> length r \<le> c \<and> length r < l)"
  by (auto simp: flush_pending_def flush_literal_def pend_def split: if_splits)

lemma flush_pending_Inl: "flush_pending inp c l s n out = Inl w \<Longrightarrow> w = out"
  by (auto simp: flush_pending_def flush_literal_def split: if_splits)

lemma flush_pending_again:
  assumes "flush_pending inp c l s n out = Inr r" "s + n \<le> length inp" "length r \<le> c'" "length r < l'"
  shows "flush_pending inp c' l' s n out = Inr r"
  using assms by (auto simp: flush_pending_def flush_literal_def split: if_splits)

lemma flush_pending_roomy:
  assumes "s + n \<le> length inp" "length out + pend n \<le> c" "length out + pend n < l"
  shows "\<exists>r. flush_pending inp c l s n out = Inr r"
  using assms by (cases n) (auto simp: flush_pending_def flush_literal_def)

section \<open>The loop\<close>

locale literal_encoder = token_stream expand
  for expand :: "u8 list \<Rightarrow> u8 list \<Rightarrow> u8 list option" +
  fixes find :: "u8 list \<Rightarrow> nat \<Rightarrow> (nat \<times> u8 list) option"
    and loop :: "u8 list \<Rightarrow> nat \<Rightarrow> nat \<Rightarrow> nat \<Rightarrow> nat \<Rightarrow> nat \<Rightarrow> u8 list \<Rightarrow> u8 list + nat \<times> nat \<times> u8 list"
  assumes find_laws: "find inp index = Some (k, toks) \<Longrightarrow> index < length inp \<Longrightarrow>
        0 < k \<and> index + k \<le> length inp \<and> toks \<noteq> [] \<and> length toks \<le> 2 * k
          \<and> expand (take index inp) toks = Some (take (index + k) inp)"
    and loop_end: "\<not> index < length inp \<Longrightarrow> loop inp c l index s n out = Inr (s, n, out)"
    and loop_literal: "index < length inp \<Longrightarrow> find inp index = None \<Longrightarrow>
        loop inp c l index s n out =
          (if n + 1 = 128
           then (case flush_literal inp c l s (n + 1) out of
                   Inl w \<Rightarrow> Inl w
                 | Inr out' \<Rightarrow> loop inp c l (index + 1) (index + 1) 0 out')
           else loop inp c l (index + 1) s (n + 1) out)"
    and loop_token: "index < length inp \<Longrightarrow> find inp index = Some (k, toks) \<Longrightarrow>
        loop inp c l index s n out =
          (case flush_pending inp c l s n out of
             Inl w \<Rightarrow> Inl w
           | Inr out' \<Rightarrow>
               if length out' + length toks > c \<or> length out' + length toks \<ge> l then Inl out'
               else loop inp c l (index + k) (index + k) 0 (out' @ toks))"
begin

lemma expand_pending:
  assumes "expand [] out = Some (take s inp)" "n < 128" "s + n \<le> length inp"
    and "flush_pending inp c l s n out = Inr r"
  shows "expand [] r = Some (take (s + n) inp)"
proof (cases "n = 0")
  case True
  then show ?thesis using assms by (simp add: flush_pending_def)
next
  case False
  then show ?thesis
    using expand_flush [of out s inp n c l r] assms by (simp add: flush_pending_def)
qed

text \<open>
  Induction over the loop.  \<open>P\<close> is carried over the end, one pending byte, a full
  literal run and a token, with the run \<open>[s, s + n)\<close> ending at the index.
\<close>

lemma loop_induct [consumes 2, case_names End Pending Full Token]:
  assumes "s + n \<le> length inp" "n < 128"
    and "\<And>s n out. s + n = length inp \<Longrightarrow> n < 128 \<Longrightarrow> P s n out"
    and "\<And>s n out. s + n < length inp \<Longrightarrow> n + 1 < 128 \<Longrightarrow> find inp (s + n) = None \<Longrightarrow>
           P s (n + 1) out \<Longrightarrow> P s n out"
    and "\<And>s n out. s + n < length inp \<Longrightarrow> n + 1 = 128 \<Longrightarrow> find inp (s + n) = None \<Longrightarrow>
           (\<And>out'. P (s + n + 1) 0 out') \<Longrightarrow> P s n out"
    and "\<And>s n out k toks. s + n < length inp \<Longrightarrow> n < 128 \<Longrightarrow> find inp (s + n) = Some (k, toks) \<Longrightarrow>
           s + n + k \<le> length inp \<Longrightarrow> (\<And>out'. P (s + n + k) 0 out') \<Longrightarrow> P s n out"
  shows "P s n out"
  using assms(1,2)
proof (induction "length inp - (s + n)" arbitrary: s n out rule: less_induct)
  case (less s n out)
  show ?case
  proof (cases "s + n < length inp")
    case False
    then show ?thesis using less.prems assms(3) by simp
  next
    case inside: True
    show ?thesis
    proof (cases "find inp (s + n)")
      case None
      show ?thesis
      proof (cases "n + 1 = 128")
        case True
        then show ?thesis using assms(5) [OF inside True None] less.hyps inside by simp
      next
        case False
        then have "n + 1 < 128" using less.prems by simp
        moreover from this have "P s (n + 1) out" using less.hyps inside by simp
        ultimately show ?thesis using assms(4) inside None by blast
      qed
    next
      case (Some p)
      obtain k toks where p: "p = (k, toks)" by (cases p)
      have k: "0 < k" "s + n + k \<le> length inp" using find_laws [OF Some [unfolded p] inside] by auto
      then have "P (s + n + k) 0 out'" for out' using less.hyps inside by simp
      then show ?thesis using assms(6) [OF inside _ Some [unfolded p] k(2)] less.prems by simp
    qed
  qed
qed

lemma loop_expand:
  assumes "s + n \<le> length inp" "n < 128" "expand [] out = Some (take s inp)"
    "literal_finish inp c l (loop inp c l (s + n) s n out) = Inr r"
  shows "expand [] r = Some inp"
  using assms
proof (induction s n out rule: loop_induct)
  case (End s n out)
  then have "flush_pending inp c l s n out = Inr r" by (simp add: loop_end literal_finish_def)
  from expand_pending [OF End(3,2) _ this] End(1) show ?case by simp
next
  case (Pending s n out)
  then show ?case by (simp add: loop_literal)
next
  case (Full s n out)
  show ?case
  proof (cases "flush_literal inp c l s (n + 1) out")
    case (Inl w)
    then show ?thesis using Full by (simp add: loop_literal literal_finish_def)
  next
    case (Inr out')
    have "expand [] out' = Some (take (s + n + 1) inp)"
      using expand_flush [OF Full.prems(1) _ _ _ Inr] Full by (simp add: add.assoc)
    then show ?thesis using Full Inr by (simp add: loop_literal)
  qed
next
  case (Token s n out k toks)
  show ?case
  proof (cases "flush_pending inp c l s n out")
    case (Inl w)
    then show ?thesis using Token by (simp add: loop_token literal_finish_def)
  next
    case (Inr out')
    have "expand [] out' = Some (take (s + n) inp)"
      using expand_pending [OF Token.prems(1) Token(2) _ Inr] Token(1) by simp
    moreover have "expand (take (s + n) inp) toks = Some (take (s + n + k) inp)"
      using find_laws [OF Token(3,1)] by simp
    ultimately have "expand [] (out' @ toks) = Some (take (s + n + k) inp)" by (rule expand_then)
    then show ?thesis
      using Token Inr by (auto simp: loop_token literal_finish_def split: if_splits)
  qed
qed

lemma loop_grows:
  assumes "s + n \<le> length inp" "n < 128"
    "literal_finish inp c l (loop inp c l (s + n) s n out) = Inr r"
  shows "length out + pend n \<le> length r \<and> (s + n < length inp \<longrightarrow> length out + pend n < length r)"
  using assms
proof (induction s n out rule: loop_induct)
  case (End s n out)
  then show ?case using flush_pending_Inr [of inp c l s n out r] by (simp add: loop_end literal_finish_def)
next
  case (Pending s n out)
  then show ?case by (cases n) (auto simp: loop_literal)
next
  case (Full s n out)
  let ?out' = "out @ of_nat (n + 1 - 1) # take (n + 1) (drop s inp)"
  have "literal_finish inp c l (loop inp c l (s + n + 1) (s + n + 1) 0 ?out') = Inr r"
    using Full by (auto simp: loop_literal literal_finish_def flush_literal_def split: if_splits)
  then show ?case using Full.IH [of ?out'] Full by (simp add: pend_def)
next
  case (Token s n out k toks)
  show ?case
  proof (cases "flush_pending inp c l s n out")
    case (Inl w)
    then show ?thesis using Token by (simp add: loop_token literal_finish_def)
  next
    case (Inr out')
    have "length out' = length out + pend n" using flush_pending_Inr [OF Inr] Token(1) by simp
    moreover have "toks \<noteq> []" using find_laws [OF Token(3,1)] by simp
    ultimately show ?thesis
      using Token.IH [of "out' @ toks"] Token Inr
      by (cases toks) (auto simp: loop_token literal_finish_def split: if_splits)
  qed
qed

lemma loop_fits:
  assumes "s + n \<le> length inp" "n < 128"
    "literal_finish inp c l (loop inp c l (s + n) s n out) = Inr r" "length r \<le> c'" "length r < l'"
  shows "literal_finish inp c' l' (loop inp c' l' (s + n) s n out) = Inr r"
  using assms
proof (induction s n out rule: loop_induct)
  case (End s n out)
  then show ?case using flush_pending_again [of inp c l s n out r c' l']
    by (simp add: loop_end literal_finish_def)
next
  case (Pending s n out)
  then show ?case by (simp add: loop_literal)
next
  case (Full s n out)
  let ?out' = "out @ of_nat (n + 1 - 1) # take (n + 1) (drop s inp)"
  have r: "literal_finish inp c l (loop inp c l (s + n + 1) (s + n + 1) 0 ?out') = Inr r"
    using Full by (auto simp: loop_literal literal_finish_def flush_literal_def split: if_splits)
  have "length out + 1 + (n + 1) \<le> length r"
    using loop_grows [of "s + n + 1" 0 inp c l ?out' r] r Full by simp
  then show ?case
    using Full r by (auto simp: loop_literal literal_finish_def flush_literal_def)
next
  case (Token s n out k toks)
  obtain out' where o: "flush_pending inp c l s n out = Inr out'"
    using Token by (cases "flush_pending inp c l s n out") (auto simp: loop_token literal_finish_def)
  have r: "literal_finish inp c l (loop inp c l (s + n + k) (s + n + k) 0 (out' @ toks)) = Inr r"
    using Token o by (auto simp: loop_token literal_finish_def split: if_splits)
  have g: "length out' + length toks \<le> length r"
    using loop_grows [of "s + n + k" 0 inp c l "out' @ toks" r] r Token by simp
  have "flush_pending inp c' l' s n out = Inr out'"
    using flush_pending_again [OF o] g Token by simp
  then show ?case using Token r g by (auto simp: loop_token)
qed

lemma loop_bounded:
  assumes "s + n \<le> length inp" "n < 128" "length out \<le> c" "0 < l \<longrightarrow> length out < l"
  shows "length (written (literal_finish inp c l (loop inp c l (s + n) s n out))) \<le> c \<and>
    (0 < l \<longrightarrow> length (written (literal_finish inp c l (loop inp c l (s + n) s n out))) < l)"
  using assms
proof (induction s n out rule: loop_induct)
  case (End s n out)
  then show ?case
    by (auto simp: loop_end literal_finish_def flush_pending_def flush_literal_def written_def)
next
  case (Pending s n out)
  then show ?case by (simp add: loop_literal)
next
  case (Full s n out)
  then show ?case
    by (auto simp: loop_literal literal_finish_def flush_literal_def written_def)
next
  case (Token s n out k toks)
  show ?case
  proof (cases "flush_pending inp c l s n out")
    case (Inl w)
    then show ?thesis
      using Token flush_pending_Inl [OF Inl] by (simp add: loop_token literal_finish_def written_def)
  next
    case (Inr out')
    have b: "length out' \<le> c \<and> (0 < l \<longrightarrow> length out' < l)"
      using flush_pending_Inr [OF Inr] Token by (cases "n = 0") auto
    show ?thesis
    proof (cases "length out' + length toks > c \<or> length out' + length toks \<ge> l")
      case True
      then show ?thesis using Token Inr b by (simp add: loop_token literal_finish_def written_def)
    next
      case False
      then have "length (out' @ toks) \<le> c" "0 < l \<longrightarrow> length (out' @ toks) < l" by auto
      from Token.IH [OF this] show ?thesis using Token Inr False by (simp add: loop_token)
    qed
  qed
qed

lemma loop_roomy:
  assumes "s + n \<le> length inp" "n < 128"
    "length out + pend n + 2 * (length inp - (s + n)) \<le> c"
    "length out + pend n + 2 * (length inp - (s + n)) < l"
  shows "\<exists>r. literal_finish inp c l (loop inp c l (s + n) s n out) = Inr r"
  using assms
proof (induction s n out rule: loop_induct)
  case (End s n out)
  then show ?case using flush_pending_roomy [of s n inp out c l] by (simp add: loop_end literal_finish_def)
next
  case (Pending s n out)
  then show ?case by (cases n) (auto simp: loop_literal)
next
  case (Full s n out)
  then have "length out + 1 + (n + 1) \<le> c" "length out + 1 + (n + 1) < l"
    by (cases n; simp)+
  moreover from this have "length (out @ of_nat (n + 1 - 1) # take (n + 1) (drop s inp)) + pend 0
      + 2 * (length inp - (s + n + 1 + 0)) \<le> c"
    "length (out @ of_nat (n + 1 - 1) # take (n + 1) (drop s inp)) + pend 0
      + 2 * (length inp - (s + n + 1 + 0)) < l"
    using Full by (simp_all add: pend_def)
  note Full.IH [OF this]
  ultimately show ?case
    using Full by (simp add: loop_literal flush_literal_def)
next
  case (Token s n out k toks)
  obtain out' where o: "flush_pending inp c l s n out = Inr out'"
    using flush_pending_roomy [of s n inp out c l] Token by fastforce
  have "length out' = length out + pend n" using flush_pending_Inr [OF o] Token(1) by simp
  moreover have "length toks \<le> 2 * k" "0 < k" using find_laws [OF Token(3,1)] by auto
  ultimately have "length out' + length toks + 2 * (length inp - (s + n + k)) \<le> c"
    "length out' + length toks + 2 * (length inp - (s + n + k)) < l"
    using Token by (simp_all add: algebra_simps)
  then show ?case using Token o by (auto simp: loop_token)
qed

end

section \<open>The codec\<close>

definition literal_run ::
  "(u8 list \<Rightarrow> nat \<Rightarrow> nat \<Rightarrow> nat \<Rightarrow> nat \<Rightarrow> nat \<Rightarrow> u8 list \<Rightarrow> u8 list + nat \<times> nat \<times> u8 list)
     \<Rightarrow> u8 list \<Rightarrow> nat \<Rightarrow> nat \<Rightarrow> u8 list + u8 list" where
  "literal_run loop inp cap lim = literal_finish inp cap lim (loop inp cap lim 0 0 0 [])"

locale literal_codec = literal_encoder expand find loop
  for expand :: "u8 list \<Rightarrow> u8 list \<Rightarrow> u8 list option"
    and find :: "u8 list \<Rightarrow> nat \<Rightarrow> (nat \<times> u8 list) option"
    and loop :: "u8 list \<Rightarrow> nat \<Rightarrow> nat \<Rightarrow> nat \<Rightarrow> nat \<Rightarrow> nat \<Rightarrow> u8 list \<Rightarrow> u8 list + nat \<times> nat \<times> u8 list" +
  fixes dec :: "u8 list \<Rightarrow> nat \<Rightarrow> nat \<Rightarrow> u8 list + u8 list"
  assumes dec_meaning: "0 < l \<Longrightarrow> dec ys c l = Inr r \<longleftrightarrow> expand [] ys = Some r \<and> length r \<le> c \<and> length r < l"
    and dec_stores: "length (written (dec xs c l)) \<le> c"

sublocale literal_codec \<subseteq> stream_codec "literal_run loop" dec "expand []"
proof
  fix xs r :: "u8 list" and c l c' l' :: nat
  show "literal_run loop xs c l = Inr r \<Longrightarrow> length r \<le> c' \<Longrightarrow> length r < l' \<Longrightarrow>
      literal_run loop xs c' l' = Inr r"
    using loop_fits [of 0 0 xs c l "[]" r c' l'] by (simp add: literal_run_def)
  show "literal_run loop xs c l = Inr r \<Longrightarrow> 0 < l \<Longrightarrow> length r \<le> c \<and> length r < l"
    using loop_bounded [of 0 0 xs "[]" c l] by (simp add: literal_run_def written_def)
  show "2 * length xs \<le> c \<Longrightarrow> 2 * length xs < l \<Longrightarrow> \<exists>r. literal_run loop xs c l = Inr r"
    using loop_roomy [of 0 0 xs "[]" c l] by (simp add: literal_run_def)
  show "xs \<noteq> [] \<Longrightarrow> literal_run loop xs c l = Inr r \<Longrightarrow> r \<noteq> []"
    using loop_grows [of 0 0 xs c l "[]" r] by (auto simp: literal_run_def)
  show "literal_run loop xs c l = Inr r \<Longrightarrow> expand [] r = Some xs"
    using loop_expand [of 0 0 xs "[]" c l r] by (simp add: literal_run_def expand_Nil)
  show "length (written (literal_run loop xs c l)) \<le> c"
    using loop_bounded [of 0 0 xs "[]" c l] by (simp add: literal_run_def)
qed (rule dec_meaning dec_stores; assumption?)+

end
