(* ===== verification/Codec_LZSS.thy ===== *)
theory Codec_LZSS
  imports Codec_Literal
begin

text \<open>
  The LZSS-256 codec of code/lib/codec_lzss.c: the match scanner and the search over the
  256-byte window, the encoder loop, the decoder loop with its byte-by-byte (overlapping)
  copy, and the proof that they form a codec.
\<close>

section \<open>The encoder\<close>

text \<open>The inner \<open>while\<close>: how many bytes match at this offset, at most 130.\<close>

function lz_match :: "u8 list \<Rightarrow> nat \<Rightarrow> nat \<Rightarrow> nat \<Rightarrow> nat" where
  "lz_match inp index offset match_len =
     (if match_len < 130 \<and> index + match_len < length inp
         \<and> inp ! (index + match_len) = inp ! (index - offset + match_len)
      then lz_match inp index offset (match_len + 1) else match_len)"
  by pat_completeness auto
termination by (relation "measure (\<lambda>(inp, index, offset, match_len). 130 - match_len)") auto

declare lz_match.simps [simp del]

text \<open>
  The \<open>for\<close> over the offsets: the first longest match wins, and a match of 130 bytes
  ends the search.  The result is \<open>(best_len, best_offset)\<close>.
\<close>

function lz_search :: "u8 list \<Rightarrow> nat \<Rightarrow> nat \<Rightarrow> nat \<Rightarrow> nat \<Rightarrow> nat \<Rightarrow> nat \<times> nat" where
  "lz_search inp index max_offset offset best_len best_offset =
     (if offset \<le> max_offset then
        (let match_len = lz_match inp index offset 0
         in if match_len > best_len then
              (if match_len = 130 then (match_len, offset)
               else lz_search inp index max_offset (offset + 1) match_len offset)
            else lz_search inp index max_offset (offset + 1) best_len best_offset)
      else (best_len, best_offset))"
  by pat_completeness auto
termination
  by (relation "measure (\<lambda>(inp, index, max_offset, offset, best_len, best_offset). Suc max_offset - offset)") auto

declare lz_search.simps [simp del]

definition lz_best :: "u8 list \<Rightarrow> nat \<Rightarrow> nat \<times> nat" where
  "lz_best inp index = lz_search inp index (if index < 256 then index else 256) 1 0 0"

lemma lz_match_spec:
  assumes "\<And>j. j < m \<Longrightarrow> inp ! (index + j) = inp ! (index - off + j)" "index + m \<le> length inp" "m \<le> 130"
  shows "m \<le> lz_match inp index off m \<and> lz_match inp index off m \<le> 130
    \<and> index + lz_match inp index off m \<le> length inp
    \<and> (\<forall>j < lz_match inp index off m. inp ! (index + j) = inp ! (index - off + j))"
  using assms
proof (induction inp index off m rule: lz_match.induct)
  case (1 inp index off m)
  show ?case
  proof (cases "m < 130 \<and> index + m < length inp \<and> inp ! (index + m) = inp ! (index - off + m)")
    case True
    then have eq: "lz_match inp index off m = lz_match inp index off (m + 1)"
      by (subst lz_match.simps) simp
    have "\<And>j. j < m + 1 \<Longrightarrow> inp ! (index + j) = inp ! (index - off + j)"
      using True "1.prems"(1) by (metis Suc_eq_plus1 less_antisym)
    then show ?thesis using "1.IH" True by (simp add: eq)
  next
    case False
    then have "lz_match inp index off m = m" by (subst lz_match.simps) auto
    then show ?thesis using "1.prems" by simp
  qed
qed

definition lz_matches :: "u8 list \<Rightarrow> nat \<Rightarrow> nat \<Rightarrow> nat \<Rightarrow> bool" where
  "lz_matches inp index off n \<longleftrightarrow>
     1 \<le> off \<and> off \<le> index \<and> off \<le> 256 \<and> index + n \<le> length inp
       \<and> (\<forall>j < n. inp ! (index + j) = inp ! (index - off + j))"

lemma lz_match_0:
  assumes "index \<le> length inp"
  shows "lz_match inp index off 0 \<le> 130" "index + lz_match inp index off 0 \<le> length inp"
    "\<And>j. j < lz_match inp index off 0 \<Longrightarrow> inp ! (index + j) = inp ! (index - off + j)"
  using lz_match_spec [of 0 inp index off] assms by auto

lemma lz_search_spec:
  assumes "index \<le> length inp" "max_off \<le> index" "max_off \<le> 256" "1 \<le> off"
    and "bl \<le> 130" "0 < bl \<longrightarrow> lz_matches inp index bo bl"
    and "lz_search inp index max_off off bl bo = (k, o')"
  shows "bl \<le> k \<and> k \<le> 130 \<and> (0 < k \<longrightarrow> lz_matches inp index o' k)
    \<and> (\<forall>q. off \<le> q \<and> q \<le> max_off \<longrightarrow> lz_match inp index q 0 \<le> k)"
  using assms
proof (induction inp index max_off off bl bo arbitrary: k o' rule: lz_search.induct)
  case (1 inp index max_off off bl bo)
  let ?m = "lz_match inp index off 0"
  note m = lz_match_0 [OF "1.prems"(1), where off = off]
  show ?case
  proof (cases "off \<le> max_off")
    case False
    then show ?thesis using "1.prems" lz_search.simps [of inp index max_off off bl bo] by auto
  next
    case True
    have all: "\<forall>q. off \<le> q \<and> q \<le> max_off \<longrightarrow> lz_match inp index q 0 \<le> k"
      if "?m \<le> k" "\<forall>q. off + 1 \<le> q \<and> q \<le> max_off \<longrightarrow> lz_match inp index q 0 \<le> k"
      using that by (metis Suc_eq_plus1 le_antisym not_less_eq_eq)
    show ?thesis
    proof (cases "?m > bl")
      case better: True
      have ok: "lz_matches inp index off ?m"
        unfolding lz_matches_def using m(2) True "1.prems"(2-4)
        by (intro conjI allI impI m(3)) auto
      show ?thesis
      proof (cases "?m = 130")
        case True
        then have "(k, o') = (130, off)"
          using better \<open>off \<le> max_off\<close> "1.prems"(7) lz_search.simps [of inp index max_off off bl bo]
          by (simp add: Let_def)
        then show ?thesis using ok True "1.prems" lz_match_0(1) by auto
      next
        case False
        then have "lz_search inp index max_off (off + 1) ?m off = (k, o')"
          using better True "1.prems"(7) by (subst (asm) lz_search.simps) (simp add: Let_def)
        from "1.IH"(1) [OF True refl better False "1.prems"(1-3) _ m(1) _ this] ok
        show ?thesis using all better by auto
      qed
    next
      case False
      then have "lz_search inp index max_off (off + 1) bl bo = (k, o')"
        using True "1.prems"(7) by (subst (asm) lz_search.simps) (simp add: Let_def)
      from "1.IH"(2) [OF True refl False "1.prems"(1-3) _ "1.prems"(5,6) this]
      show ?thesis using all False by auto
    qed
  qed
qed

lemma lz_best_spec:
  assumes "index \<le> length inp" "lz_best inp index = (k, off)"
  shows "k \<le> 130" "0 < k \<Longrightarrow> lz_matches inp index off k"
    "\<And>q. 1 \<le> q \<Longrightarrow> q \<le> index \<Longrightarrow> q \<le> 256 \<Longrightarrow> lz_match inp index q 0 \<le> k"
  using lz_search_spec [OF assms(1) _ _ _ _ _ assms(2) [unfolded lz_best_def]]
  by (auto split: if_splits)

text \<open>The main loop; \<open>Inr\<close> carries the pending run left for the trailing flush.\<close>

function lz_enc_loop ::
  "u8 list \<Rightarrow> nat \<Rightarrow> nat \<Rightarrow> nat \<Rightarrow> nat \<Rightarrow> nat \<Rightarrow> u8 list \<Rightarrow> u8 list + nat \<times> nat \<times> u8 list" where
  "lz_enc_loop inp cap lim index literal_start literal_len out =
     (if index < length inp then
        (case lz_best inp index of
           (best_len, best_offset) \<Rightarrow>
             if best_len \<ge> 3 then
               (case flush_pending inp cap lim literal_start literal_len out of
                  Inl w \<Rightarrow> Inl w
                | Inr out1 \<Rightarrow>
                    if length out1 + 2 > cap then Inl out1
                    else if length out1 + 2 \<ge> lim then Inl out1
                    else lz_enc_loop inp cap lim (index + best_len) (index + best_len) 0
                           (out1 @ [0x80 OR of_nat (best_len - 3), of_nat (best_offset - 1)]))
             else if literal_len + 1 = 128 then
               (case flush_literal inp cap lim literal_start (literal_len + 1) out of
                  Inl w \<Rightarrow> Inl w
                | Inr out1 \<Rightarrow> lz_enc_loop inp cap lim (index + 1) (index + 1) 0 out1)
             else lz_enc_loop inp cap lim (index + 1) literal_start (literal_len + 1) out)
      else Inr (literal_start, literal_len, out))"
  by pat_completeness auto
termination
  by (relation "measure (\<lambda>(inp, cap, lim, index, literal_start, literal_len, out). length inp - index)") auto

declare lz_enc_loop.simps [simp del]

definition codec_lzss_encode :: codec_fn where
  "codec_lzss_encode = codec_call (literal_run lz_enc_loop)"

section \<open>The decoder\<close>

text \<open>The copy loop: one byte at a time from \<open>offset\<close> before the current end.\<close>

fun lz_copy :: "u8 list \<Rightarrow> nat \<Rightarrow> nat \<Rightarrow> u8 list" where
  "lz_copy out offset 0 = out"
| "lz_copy out offset (Suc n) = lz_copy (out @ [out ! (length out - offset)]) offset n"

lemma length_lz_copy [simp]: "length (lz_copy out offset n) = length out + n"
  by (induction out offset n rule: lz_copy.induct) auto

function lz_dec_loop :: "u8 list \<Rightarrow> nat \<Rightarrow> nat \<Rightarrow> nat \<Rightarrow> u8 list \<Rightarrow> u8 list + u8 list" where
  "lz_dec_loop inp cap lim index out =
     (if index < length inp then
        (let token = inp ! index; index1 = index + 1
         in if token \<le> 0x7F then
              (let literal_len = unat token + 1
               in if literal_len > length inp - index1 then Inl out
                  else if length out + literal_len > cap then Inl out
                  else if length out + literal_len \<ge> lim then Inl out
                  else lz_dec_loop inp cap lim (index1 + literal_len)
                         (out @ take literal_len (drop index1 inp)))
            else
              (let ref_len = unat (token AND 0x7F) + 3
               in if index1 \<ge> length inp then Inl out
                  else
                    (let offset = unat (inp ! index1) + 1
                     in if offset > length out then Inl out
                        else if length out + ref_len > cap then Inl out
                        else if length out + ref_len \<ge> lim then Inl out
                        else lz_dec_loop inp cap lim (index1 + 1) (lz_copy out offset ref_len))))
      else Inr out)"
  by pat_completeness auto
termination by (relation "measure (\<lambda>(inp, cap, lim, index, out). length inp - index)") auto

declare lz_dec_loop.simps [simp del]

definition codec_lzss_decode :: codec_fn where
  "codec_lzss_decode = codec_call (\<lambda>inp cap lim. lz_dec_loop inp cap lim 0 [])"

section \<open>The meaning of a token stream\<close>

function lz_expand :: "u8 list \<Rightarrow> u8 list \<Rightarrow> u8 list option" where
  "lz_expand h [] = Some h"
| "lz_expand h (t # ts) =
     (if t \<le> 0x7F then
        (if unat t + 1 > length ts then None
         else lz_expand (h @ take (unat t + 1) ts) (drop (unat t + 1) ts))
      else
        (case ts of
           [] \<Rightarrow> None
         | v # ts' \<Rightarrow>
             if unat v + 1 > length h then None
             else lz_expand (lz_copy h (unat v + 1) (unat (t AND 0x7F) + 3)) ts'))"
  by pat_completeness auto
termination by (relation "measure (\<lambda>(h, ts). length ts)") auto

lemma lz_expand_append: "lz_expand h a = Some h' \<Longrightarrow> lz_expand h (a @ b) = lz_expand h' b"
  by (induction h a arbitrary: h' rule: lz_expand.induct)
     (auto simp del: lz_copy.simps split: if_splits list.splits)

lemma lz_expand_grows: "lz_expand h a = Some h' \<Longrightarrow> length h \<le> length h'"
  by (induction h a arbitrary: h' rule: lz_expand.induct)
     (force simp del: lz_copy.simps split: if_splits list.splits)+

lemma lz_dec_loop_iff:
  "length out \<le> cap \<Longrightarrow> length out < lim \<Longrightarrow>
     lz_dec_loop inp cap lim index out = Inr r \<longleftrightarrow>
       lz_expand out (drop index inp) = Some r \<and> length r \<le> cap \<and> length r < lim"
proof (induction inp cap lim index out rule: lz_dec_loop.induct)
  case (1 inp cap lim index out)
  show ?case
  proof (cases "index < length inp")
    case False
    then show ?thesis using "1.prems" by (subst lz_dec_loop.simps) auto
  next
    case True
    let ?t = "inp ! index" and ?rest = "drop (Suc index) inp"
    have d: "drop index inp = ?t # ?rest" using True by (rule drop_nth_Cons)
    show ?thesis
    proof (cases "?t \<le> 0x7F")
      case lit: True
      let ?n = "unat ?t + 1"
      have grow: "lz_expand (out @ take ?n ?rest) x = Some r \<Longrightarrow> ?n \<le> length ?rest \<Longrightarrow>
          length out + ?n \<le> length r" for x
        using lz_expand_grows [of "out @ take ?n ?rest" x r] by simp
      have IH: "?n \<le> length inp - (index + 1) \<Longrightarrow> length out + ?n \<le> cap \<Longrightarrow> length out + ?n < lim \<Longrightarrow>
          lz_dec_loop inp cap lim (index + 1 + ?n) (out @ take ?n (drop (index + 1) inp)) = Inr r \<longleftrightarrow>
          lz_expand (out @ take ?n ?rest) (drop ?n ?rest) = Some r \<and> length r \<le> cap \<and> length r < lim"
        using "1.IH"(1) [OF True refl refl lit refl] by (simp add: add.commute)
      show ?thesis
        using True lit IH grow by (subst lz_dec_loop.simps) (auto simp: d Let_def)
    next
      case ref: False
      let ?n = "unat (?t AND 0x7F) + 3"
      show ?thesis
      proof (cases "Suc index < length inp")
        case False
        then show ?thesis using True ref by (subst lz_dec_loop.simps) (auto simp: d Let_def)
      next
        case more: True
        let ?off = "unat (inp ! Suc index) + 1"
        have d2: "?rest = inp ! Suc index # drop (Suc (Suc index)) inp" using more by (rule drop_nth_Cons)
        have grow: "lz_expand (lz_copy out ?off ?n) x = Some r \<Longrightarrow> length out + ?n \<le> length r" for x
          using lz_expand_grows [of "lz_copy out ?off ?n" x r] by simp
        have IH: "\<not> ?off > length out \<Longrightarrow> length out + ?n \<le> cap \<Longrightarrow> length out + ?n < lim \<Longrightarrow>
            lz_dec_loop inp cap lim (Suc (Suc index)) (lz_copy out ?off ?n) = Inr r \<longleftrightarrow>
            lz_expand (lz_copy out ?off ?n) (drop (Suc (Suc index)) inp) = Some r
              \<and> length r \<le> cap \<and> length r < lim"
          using "1.IH"(2) [OF True refl refl ref refl _ refl] more by (simp del: lz_copy.simps)
        show ?thesis
          using True ref more IH grow
          by (subst lz_dec_loop.simps) (auto simp: d d2 Let_def simp del: lz_copy.simps)
      qed
    qed
  qed
qed

lemma lz_dec_written:
  "length out \<le> cap \<Longrightarrow> length (written (lz_dec_loop inp cap lim index out)) \<le> cap"
proof (induction inp cap lim index out rule: lz_dec_loop.induct)
  case (1 inp cap lim index out)
  then show ?case
    by (subst lz_dec_loop.simps) (auto simp: Let_def written_def simp del: lz_copy.simps)
qed

section \<open>The codec contract\<close>

text \<open>Copying from a matching offset reproduces the next input bytes.\<close>

lemma lz_copy_snoc:
  "lz_copy out off (Suc n) = lz_copy out off n @ [lz_copy out off n ! (length out + n - off)]"
proof (induction n arbitrary: out)
  case 0
  show ?case by simp
next
  case (Suc n)
  let ?o = "out @ [out ! (length out - off)]"
  have "lz_copy out off (Suc (Suc n)) = lz_copy ?o off (Suc n)" by simp
  also have "\<dots> = lz_copy ?o off n @ [lz_copy ?o off n ! (length ?o + n - off)]" by (rule Suc)
  finally show ?case by simp
qed

lemma lz_copy_matches:
  "lz_matches inp index off n \<Longrightarrow> lz_copy (take index inp) off n = take (index + n) inp"
proof (induction n)
  case 0
  then show ?case by simp
next
  case (Suc n)
  then have m: "lz_matches inp index off n" and off: "1 \<le> off" "off \<le> index" "index + n < length inp"
    and eq: "inp ! (index + n) = inp ! (index - off + n)"
    by (auto simp: lz_matches_def)
  have "index + n - off = index - off + n" using off by simp
  then have "take (index + n) inp ! (index + n - off) = inp ! (index + n)"
    using off eq by simp
  then show ?case
    using Suc.IH [OF m] off by (simp add: lz_copy_snoc take_Suc_conv_app_nth del: lz_copy.simps)
qed

definition lz_find :: "u8 list \<Rightarrow> nat \<Rightarrow> (nat \<times> u8 list) option" where
  "lz_find inp index =
     (case lz_best inp index of (best_len, best_offset) \<Rightarrow>
        if best_len \<ge> 3
        then Some (best_len, [0x80 OR of_nat (best_len - 3), of_nat (best_offset - 1)])
        else None)"

interpretation lz: literal_codec lz_expand lz_find lz_enc_loop "\<lambda>inp cap lim. lz_dec_loop inp cap lim 0 []"
proof
  fix h h' a b l :: "u8 list"
  show "lz_expand h a = Some h' \<Longrightarrow> lz_expand h (a @ b) = lz_expand h' b" by (rule lz_expand_append)
  show "0 < length l \<Longrightarrow> length l \<le> 128 \<Longrightarrow> lz_expand h (of_nat (length l - 1) # l) = Some (h @ l)"
    by (simp add: of_nat_le_127 unat_of_nat_u8)
next
  fix inp toks :: "u8 list" and index k :: nat
  assume f: "lz_find inp index = Some (k, toks)" and i: "index < length inp"
  obtain off where b: "lz_best inp index = (k, off)" and k3: "3 \<le> k"
    and t: "toks = [0x80 OR of_nat (k - 3), of_nat (off - 1)]"
    using f by (auto simp: lz_find_def split: prod.splits if_splits)
  have k: "k \<le> 130" and m: "lz_matches inp index off k"
    using lz_best_spec(1,2) [OF _ b] i k3 by auto
  have off: "1 \<le> off" "off \<le> index" "off \<le> 256" "index + k \<le> length inp"
    using m by (auto simp: lz_matches_def)
  have o8: "unat (of_nat (off - 1) :: u8) + 1 = off" using off by (subst unat_of_nat_u8) auto
  have tok: "\<not> ((0x80 OR of_nat (k - 3)) :: u8) \<le> 0x7F" "unat ((0x80 OR of_nat (k - 3)) AND 0x7F :: u8) + 3 = k"
    using high_token [of "k - 3"] k k3 by auto
  have "lz_expand (take index inp) toks = Some (lz_copy (take index inp) off k)"
    unfolding t by (simp only: lz_expand.simps tok list.case o8 if_False)
       (use off in \<open>simp del: lz_copy.simps\<close>)
  then show "0 < k \<and> index + k \<le> length inp \<and> toks \<noteq> [] \<and> length toks \<le> 2 * k \<and>
      lz_expand (take index inp) toks = Some (take (index + k) inp)"
    using k3 off t lz_copy_matches [OF m] by simp
next
  fix inp out toks ys r :: "u8 list" and c l index s n k :: nat
  show "\<not> index < length inp \<Longrightarrow> lz_enc_loop inp c l index s n out = Inr (s, n, out)"
    by (subst lz_enc_loop.simps) simp
  show "index < length inp \<Longrightarrow> lz_find inp index = None \<Longrightarrow>
      lz_enc_loop inp c l index s n out =
        (if n + 1 = 128
         then (case flush_literal inp c l s (n + 1) out of
                 Inl w \<Rightarrow> Inl w
               | Inr out' \<Rightarrow> lz_enc_loop inp c l (index + 1) (index + 1) 0 out')
         else lz_enc_loop inp c l (index + 1) s (n + 1) out)"
    by (subst lz_enc_loop.simps) (auto simp: lz_find_def split: prod.splits if_splits)
  show "index < length inp \<Longrightarrow> lz_find inp index = Some (k, toks) \<Longrightarrow>
      lz_enc_loop inp c l index s n out =
        (case flush_pending inp c l s n out of
           Inl w \<Rightarrow> Inl w
         | Inr out' \<Rightarrow>
             if length out' + length toks > c \<or> length out' + length toks \<ge> l then Inl out'
             else lz_enc_loop inp c l (index + k) (index + k) 0 (out' @ toks))"
    by (subst lz_enc_loop.simps) (auto simp: lz_find_def split: prod.splits if_splits sum.splits)
  show "0 < l \<Longrightarrow> (lz_dec_loop ys c l 0 [] = Inr r) =
      (lz_expand [] ys = Some r \<and> length r \<le> c \<and> length r < l)"
    using lz_dec_loop_iff [of "[]" c l ys 0 r] by simp
  show "length (written (lz_dec_loop ys c l 0 [])) \<le> c"
    by (rule lz_dec_written) simp
qed simp

interpretation lzss_codec: block_codec codec_lzss_encode codec_lzss_decode
  unfolding codec_lzss_encode_def codec_lzss_decode_def by (rule lz.block_codec_axioms)

section \<open>Properties\<close>

text \<open>
  C30: whatever codec_lzss_encode accepted, codec_lzss_decode turns back into the input, the
  overlapping back references included.
\<close>

theorem codec_lzss_round_trip:
  assumes "io_ret (codec_lzss_encode (Some xs) (Some cap) b lim) = 1"
    and "length xs \<le> cap'" "length xs < lim'"
  shows "codec_lzss_decode (Some (io_payload (codec_lzss_encode (Some xs) (Some cap) b lim))) (Some cap') True lim'
    = codec_ok (length xs) xs"
  using lz.call_round_trip [of xs cap b lim cap' lim'] assms
  by (simp add: codec_lzss_encode_def codec_lzss_decode_def)

lemma lzss_encode_sample:
  "io_ret (codec_lzss_encode (Some [1, 2, 1, 2, 1, 2, 1]) (Some 16) True 16) = 1"
  by code_simp

theorem codec_lzss_round_trip_witness:
  "codec_lzss_decode (Some (io_payload (codec_lzss_encode (Some [1, 2, 1, 2, 1, 2, 1]) (Some 16) True 16)))
     (Some 7) True 8 = codec_ok 7 [1, 2, 1, 2, 1, 2, 1]"
  using codec_lzss_round_trip [OF lzss_encode_sample, of 7 8] by (simp add: eval_nat_numeral)

lemma lz_match_maximal:
  assumes "\<And>j. j < m \<Longrightarrow> inp ! (index + j) = inp ! (index - off + j)" "index + m \<le> length inp" "m \<le> 130"
    "i \<le> m"
  shows "m \<le> lz_match inp index off i"
  using assms(4)
proof (induction "m - i" arbitrary: i)
  case 0
  then have "i = m" by simp
  then show ?case using lz_match_spec [OF assms(1-3)] by simp
next
  case (Suc d)
  then have "m \<le> lz_match inp index off (i + 1)" by (intro Suc.hyps) auto
  moreover have "lz_match inp index off i = lz_match inp index off (i + 1)"
    using Suc(2) assms(1) [of i] assms(2,3) by (subst lz_match.simps) auto
  ultimately show ?case by simp
qed

text \<open>
  The match search of codec_lzss_encode is exact: it returns a real match of at most 130
  bytes at an offset of 1 to 256 inside the bytes already seen, and no offset of the window
  has a longer match.
\<close>

theorem lz_best_longest:
  assumes "index \<le> length inp" "lz_best inp index = (k, off)"
  shows "k \<le> 130 \<and> (0 < k \<longrightarrow> lz_matches inp index off k)
    \<and> (\<forall>q m. lz_matches inp index q m \<and> m \<le> 130 \<longrightarrow> m \<le> k)"
proof (intro conjI impI allI)
  show "k \<le> 130" using lz_best_spec(1) [OF assms] .
  show "0 < k \<Longrightarrow> lz_matches inp index off k" using lz_best_spec(2) [OF assms] .
  fix q m assume "lz_matches inp index q m \<and> m \<le> 130"
  then have q: "1 \<le> q" "q \<le> index" "q \<le> 256" "index + m \<le> length inp" "m \<le> 130"
    "\<And>j. j < m \<Longrightarrow> inp ! (index + j) = inp ! (index - q + j)"
    by (auto simp: lz_matches_def)
  have "m \<le> lz_match inp index q 0" using q by (intro lz_match_maximal) auto
  also have "\<dots> \<le> k" using lz_best_spec(3) [OF assms q(1-3)] .
  finally show "m \<le> k" .
qed

theorem lz_best_longest_witness:
  "\<not> lz_matches [9, 8, 9, 8, 9 :: u8] 2 1 1 \<and> lz_best [9, 8, 9, 8, 9] 2 = (3, 2)"
proof -
  have b: "lz_best [9, 8, 9, 8, 9] 2 = (3, 2)" by code_simp
  have "(3 :: nat) \<le> 130 \<and> (0 < (3 :: nat) \<longrightarrow> lz_matches [9, 8, 9, 8, 9 :: u8] 2 2 3)"
    using lz_best_longest [OF _ b] by simp
  then show ?thesis using b by (simp add: lz_matches_def)
qed

end
