(* ===== verification/Flash_Integrity.thy ===== *)
theory Flash_Integrity
  imports Prelude
begin

text \<open>
  code/lib/flash_integrity.c: the reflected CRC-32 of a flash record and the little-endian
  octet accessors.  The generic little-endian split and join (\<open>u32_le\<close>,
  \<open>le_u32\<close>, \<open>u16_le\<close>, \<open>le_u16\<close>) are what every
  wire format of the program uses; the bootloader's own copies are proved equal to them.
\<close>

section \<open>Little-endian split and join\<close>

definition u16_le :: "u16 \<Rightarrow> u8 list" where
  "u16_le v = [ucast (v AND 0xFF), ucast (drop_bit 8 v)]"

definition u32_le :: "u32 \<Rightarrow> u8 list" where
  "u32_le v = [ucast (v AND 0xFF), ucast (drop_bit 8 v AND 0xFF), ucast (drop_bit 16 v AND 0xFF), ucast (drop_bit 24 v)]"

definition le_u16 :: "u8 list \<Rightarrow> u16" where
  "le_u16 p = ucast (p ! 0) OR push_bit 8 (ucast (p ! 1))"

definition le_u32 :: "u8 list \<Rightarrow> u32" where
  "le_u32 p = ucast (p ! 0) OR push_bit 8 (ucast (p ! 1)) OR push_bit 16 (ucast (p ! 2)) OR push_bit 24 (ucast (p ! 3))"

lemma length_u16_le [simp]: "length (u16_le v) = 2"
  by (simp add: u16_le_def)

lemma length_u32_le [simp]: "length (u32_le v) = 4"
  by (simp add: u32_le_def)

lemma le_u16_u16_le [simp]: "le_u16 (u16_le v @ r) = v"
proof (rule bit_word_eqI)
  fix n assume "n < LENGTH(16)"
  then show "bit (le_u16 (u16_le v @ r)) n = bit v n"
    by (cases "n < 8") (auto simp: le_u16_def u16_le_def mask8 bit_simps)
qed

lemma le_u32_u32_le [simp]: "le_u32 (u32_le v @ r) = v"
proof (rule bit_word_eqI)
  fix n assume n: "n < LENGTH(32)"
  then consider "n < 8" | "8 \<le> n" "n < 16" | "16 \<le> n" "n < 24" | "24 \<le> n" by linarith
  then show "bit (le_u32 (u32_le v @ r)) n = bit v n"
    using n by cases (auto simp: le_u32_def u32_le_def mask8 bit_simps)
qed

lemma le_u16_u16_le' [simp]: "le_u16 (u16_le v) = v"
  using le_u16_u16_le [of v "[]"] by simp

lemma le_u32_u32_le' [simp]: "le_u32 (u32_le v) = v"
  using le_u32_u32_le [of v "[]"] by simp

section \<open>CRC-32\<close>

text \<open>One bit of the reflected CRC: the polynomial is applied through the mask \<open>0u - (crc & 1u)\<close>.\<close>

definition crc32_bit :: "u32 \<Rightarrow> u32" where
  "crc32_bit crc = drop_bit 1 crc XOR (0xEDB88320 AND (0 - (crc AND 1)))"

definition crc32_byte :: "u32 \<Rightarrow> u8 \<Rightarrow> u32" where
  "crc32_byte crc b = (crc32_bit ^^ 8) (crc XOR ucast b)"

definition flash_integrity_crc32 :: "u8 list option \<Rightarrow> u32" where
  "flash_integrity_crc32 p_data =
     (case p_data of
        None \<Rightarrow> 0
      | Some d \<Rightarrow> NOT (foldl crc32_byte 0xFFFFFFFF d))"

definition flash_integrity_u32_get :: "u8 list option \<Rightarrow> u32" where
  "flash_integrity_u32_get p_data = (case p_data of None \<Rightarrow> 0 | Some d \<Rightarrow> le_u32 d)"

definition flash_integrity_u32_put :: "u8 list option \<Rightarrow> u32 \<Rightarrow> u8 list option" where
  "flash_integrity_u32_put p_data value =
     (case p_data of
        None \<Rightarrow> None
      | Some d \<Rightarrow> Some (foldl (\<lambda>p i. p[i := ucast (drop_bit (8 * i) value)]) d [0..<4]))"

lemma upt_0_4: "[0..<4] = [0, 1, 2, 3 :: nat]"
  by (simp add: upt_conv_Cons)

lemma ucast_low_byte: "ucast (v AND 0xFF :: u32) = (ucast v :: u8)"
  by (rule bit_word_eqI) (auto simp: mask8 bit_simps)

text \<open>Storing a value writes its four little-endian octets and leaves the rest alone.\<close>

lemma flash_put_eq:
  assumes "4 \<le> length p"
  shows "flash_integrity_u32_put (Some p) v = Some (u32_le v @ drop 4 p)"
proof -
  obtain a b c d r where p: "p = a # b # c # d # r"
    using assms by (auto simp: numeral_eq_Suc Suc_le_length_iff)
  show ?thesis
    unfolding p flash_integrity_u32_put_def upt_0_4 u32_le_def
    by (simp add: numeral_2_eq_2 numeral_3_eq_3 ucast_low_byte)
qed

end
