(* ===== verification/Codec_Dict.thy ===== *)
theory Codec_Dict
  imports Codec_Literal Flash_Integrity "HOL-Library.Char_ord"
begin

text \<open>
  The static dictionary codec of code/lib/codec_dict.c: the codebook, the lookup table keyed by
  the first byte and its lazy initialisation, the longest-entry search, the encoder and decoder
  loops, the codebook identity and CRC, and the proof that they form a codec.
\<close>

section \<open>The codebook\<close>

text \<open>\<open>s_codec_dict_entry_data\<close>: the entries, each ended by a NUL byte.\<close>

definition dict_data :: "u8 list" where
  "dict_data = concat (map (\<lambda>e. map of_char e @ [0])
     [''counter'', ''led_mask'', ''temperature'', ''voltage'', ''current'', ''power'', ''frequency'',
      ''status'', ''error'', ''scope'', ''sfra'', ''perf'', ''trace'', ''ok'', ''fail'', ''version''])"

text \<open>\<open>s_codec_dict_entries\<close>: offset and length of each entry.\<close>

definition dict_entries :: "(nat \<times> nat) list" where
  "dict_entries =
     [(0, 7), (8, 8), (17, 11), (29, 7), (37, 7), (45, 5), (51, 9), (61, 6),
      (68, 5), (74, 5), (80, 4), (85, 4), (90, 5), (96, 2), (99, 4), (104, 7)]"

definition entry_offset :: "nat \<Rightarrow> nat" where
  "entry_offset e = fst (dict_entries ! e)"

definition entry_length :: "nat \<Rightarrow> nat" where
  "entry_length e = snd (dict_entries ! e)"

definition entry_bytes :: "nat \<Rightarrow> u8 list" where
  "entry_bytes e = take (entry_length e) (drop (entry_offset e) dict_data)"

text \<open>\<open>codec_dict_init\<close>: one bit per entry for each possible first byte.\<close>

definition codec_dict_init :: "64 word list" where
  "codec_dict_init =
     foldl (\<lambda>bucket e.
         (let first_byte = unat (dict_data ! entry_offset e)
          in bucket[first_byte := bucket ! first_byte OR push_bit e 1]))
       (replicate 256 0) [0..<16]"

text \<open>
  The table as the program keeps it: \<open>None\<close> while \<open>s_codec_dict_ready\<close>
  is 0, in which case the encoder builds it before its first search.
\<close>

definition codec_dict_table :: "64 word list option \<Rightarrow> 64 word list" where
  "codec_dict_table ready = (case ready of None \<Rightarrow> codec_dict_init | Some bucket \<Rightarrow> bucket)"

section \<open>The encoder\<close>

definition dict_step :: "64 word \<Rightarrow> u8 list \<Rightarrow> nat \<Rightarrow> nat \<times> nat \<Rightarrow> nat \<Rightarrow> nat \<times> nat" where
  "dict_step candidates inp index best entry_index =
     (if candidates AND push_bit entry_index 1 = 0 then best
      else (let entry_len = entry_length entry_index
            in if entry_len > length inp - index then best
               else if take entry_len (drop index inp) \<noteq> entry_bytes entry_index then best
               else if entry_len > fst best \<or> (entry_len = fst best \<and> entry_index < snd best)
                 then (entry_len, entry_index)
               else best))"

text \<open>The search over the 16 entries; the result is \<open>(best_len, best_index)\<close>.\<close>

definition dict_best :: "64 word list \<Rightarrow> u8 list \<Rightarrow> nat \<Rightarrow> nat \<times> nat" where
  "dict_best bucket inp index =
     foldl (dict_step (bucket ! unat (inp ! index)) inp index) (0, 0) [0..<16]"

lemma dict_step_cases:
  "dict_step cand inp index (l, e) x = (l, e) \<or>
   (dict_step cand inp index (l, e) x = (entry_length x, x) \<and> l \<le> entry_length x
      \<and> entry_length x \<le> length inp - index
      \<and> take (entry_length x) (drop index inp) = entry_bytes x)"
  by (auto simp: dict_step_def Let_def)

text \<open>What the search keeps: nothing found yet, or a matching entry.\<close>

definition dict_found :: "u8 list \<Rightarrow> nat \<Rightarrow> nat \<times> nat \<Rightarrow> bool" where
  "dict_found inp index b \<longleftrightarrow>
     fst b = 0 \<or> (snd b < 16 \<and> fst b = entry_length (snd b) \<and> fst b \<le> length inp - index
       \<and> take (fst b) (drop index inp) = entry_bytes (snd b))"

lemma dict_fold_found:
  "dict_found inp index b \<Longrightarrow> (\<forall>x \<in> set xs. x < 16) \<Longrightarrow>
     dict_found inp index (foldl (dict_step cand inp index) b xs)"
proof (induction xs arbitrary: b)
  case Nil
  then show ?case by simp
next
  case (Cons x xs)
  obtain l e where b: "b = (l, e)" by (cases b)
  have "dict_found inp index (dict_step cand inp index b x)"
    using dict_step_cases [of cand inp index l e x] Cons.prems by (auto simp: b dict_found_def)
  then show ?case using Cons by simp
qed

lemma dict_best_found: "dict_found inp index (dict_best bucket inp index)"
  unfolding dict_best_def by (rule dict_fold_found) (auto simp: dict_found_def)

function dict_enc_loop ::
  "64 word list \<Rightarrow> u8 list \<Rightarrow> nat \<Rightarrow> nat \<Rightarrow> nat \<Rightarrow> nat \<Rightarrow> nat \<Rightarrow> u8 list \<Rightarrow> u8 list + nat \<times> nat \<times> u8 list" where
  "dict_enc_loop bucket inp cap lim index literal_start literal_len out =
     (if index < length inp then
        (case dict_best bucket inp index of
           (best_len, best_index) \<Rightarrow>
             if best_len = 0 then
               (if literal_len + 1 = 128 then
                  (case flush_literal inp cap lim literal_start (literal_len + 1) out of
                     Inl w \<Rightarrow> Inl w
                   | Inr out1 \<Rightarrow> dict_enc_loop bucket inp cap lim (index + 1) (index + 1) 0 out1)
                else dict_enc_loop bucket inp cap lim (index + 1) literal_start (literal_len + 1) out)
             else
               (case flush_pending inp cap lim literal_start literal_len out of
                  Inl w \<Rightarrow> Inl w
                | Inr out1 \<Rightarrow>
                    if length out1 + 1 > cap then Inl out1
                    else if length out1 + 1 \<ge> lim then Inl out1
                    else dict_enc_loop bucket inp cap lim (index + best_len) (index + best_len) 0
                           (out1 @ [0x80 OR of_nat best_index])))
      else Inr (literal_start, literal_len, out))"
  by pat_completeness auto
termination
  by (relation "measure (\<lambda>(bucket, inp, cap, lim, index, literal_start, literal_len, out). length inp - index)") auto

declare dict_enc_loop.simps [simp del]

definition codec_dict_encode :: "64 word list option \<Rightarrow> codec_fn" where
  "codec_dict_encode ready = codec_call (literal_run (dict_enc_loop (codec_dict_table ready)))"

section \<open>The decoder\<close>

function dict_dec_loop :: "u8 list \<Rightarrow> nat \<Rightarrow> nat \<Rightarrow> nat \<Rightarrow> u8 list \<Rightarrow> u8 list + u8 list" where
  "dict_dec_loop inp cap lim index out =
     (if index < length inp then
        (let token = inp ! index; index1 = index + 1
         in if token \<le> 0x7F then
              (let literal_len = unat token + 1
               in if literal_len > length inp - index1 then Inl out
                  else if length out + literal_len > cap then Inl out
                  else if length out + literal_len \<ge> lim then Inl out
                  else dict_dec_loop inp cap lim (index1 + literal_len)
                         (out @ take literal_len (drop index1 inp)))
            else if token \<le> 0xBF then
              (let entry_index = unat (token AND 0x3F)
               in if entry_index \<ge> 16 then Inl out
                  else if length out + entry_length entry_index > cap then Inl out
                  else if length out + entry_length entry_index \<ge> lim then Inl out
                  else dict_dec_loop inp cap lim index1 (out @ entry_bytes entry_index))
            else Inl out)
      else Inr out)"
  by pat_completeness auto
termination by (relation "measure (\<lambda>(inp, cap, lim, index, out). length inp - index)") auto

declare dict_dec_loop.simps [simp del]

definition codec_dict_decode :: codec_fn where
  "codec_dict_decode = codec_call (\<lambda>inp cap lim. dict_dec_loop inp cap lim 0 [])"

section \<open>The codebook identity\<close>

definition codec_dict_codebook_id :: u8 where
  "codec_dict_codebook_id = 0"

definition codec_dict_codebook_version :: u8 where
  "codec_dict_codebook_version = 1"

definition codec_dict_codebook_crc32 :: u32 where
  "codec_dict_codebook_crc32 =
     foldl (\<lambda>crc e. foldl (\<lambda>crc b. ((\<lambda>c. drop_bit 1 c XOR (0xEDB88320 AND (0 - (c AND 1)))) ^^ 8)
                              (crc XOR ucast b)) crc (entry_bytes e))
       0xFFFFFFFF [0..<16] XOR 0xFFFFFFFF"

section \<open>The meaning of a token stream\<close>

lemma dict_data_ok: "list_all (\<lambda>(off, len). 0 < len \<and> off + len \<le> length dict_data) dict_entries"
  by code_simp

lemma length_dict_entries [simp]: "length dict_entries = 16"
  by (simp add: dict_entries_def)

lemma entry_ok_all:
  "list_all (\<lambda>e. 0 < entry_length e \<and> length (entry_bytes e) = entry_length e) [0..<16]"
  by code_simp

lemma entry_ok: "e < 16 \<Longrightarrow> 0 < entry_length e \<and> length (entry_bytes e) = entry_length e"
  using entry_ok_all by (simp add: list_all_iff)

function dict_expand :: "u8 list \<Rightarrow> u8 list \<Rightarrow> u8 list option" where
  "dict_expand h [] = Some h"
| "dict_expand h (t # ts) =
     (if t \<le> 0x7F then
        (if unat t + 1 > length ts then None
         else dict_expand (h @ take (unat t + 1) ts) (drop (unat t + 1) ts))
      else if t \<le> 0xBF \<and> unat (t AND 0x3F) < 16 then dict_expand (h @ entry_bytes (unat (t AND 0x3F))) ts
      else None)"
  by pat_completeness auto
termination by (relation "measure (\<lambda>(h, ts). length ts)") auto

lemma dict_expand_append: "dict_expand h a = Some h' \<Longrightarrow> dict_expand h (a @ b) = dict_expand h' b"
  by (induction h a arbitrary: h' rule: dict_expand.induct) (auto split: if_splits)

lemma dict_expand_grows: "dict_expand h a = Some h' \<Longrightarrow> length h \<le> length h'"
  by (induction h a arbitrary: h' rule: dict_expand.induct) (force split: if_splits)+

lemma dict_dec_loop_iff:
  "length out \<le> cap \<Longrightarrow> length out < lim \<Longrightarrow>
     dict_dec_loop inp cap lim index out = Inr r \<longleftrightarrow>
       dict_expand out (drop index inp) = Some r \<and> length r \<le> cap \<and> length r < lim"
proof (induction inp cap lim index out rule: dict_dec_loop.induct)
  case (1 inp cap lim index out)
  show ?case
  proof (cases "index < length inp")
    case False
    then show ?thesis using "1.prems" by (subst dict_dec_loop.simps) auto
  next
    case True
    let ?t = "inp ! index" and ?rest = "drop (Suc index) inp"
    have d: "drop index inp = ?t # ?rest" using True by (rule drop_nth_Cons)
    show ?thesis
    proof (cases "?t \<le> 0x7F")
      case lit: True
      let ?n = "unat ?t + 1"
      have grow: "dict_expand (out @ take ?n ?rest) x = Some r \<Longrightarrow> ?n \<le> length ?rest \<Longrightarrow>
          length out + ?n \<le> length r" for x
        using dict_expand_grows [of "out @ take ?n ?rest" x r] by simp
      have IH: "?n \<le> length inp - (index + 1) \<Longrightarrow> length out + ?n \<le> cap \<Longrightarrow> length out + ?n < lim \<Longrightarrow>
          dict_dec_loop inp cap lim (index + 1 + ?n) (out @ take ?n (drop (index + 1) inp)) = Inr r \<longleftrightarrow>
          dict_expand (out @ take ?n ?rest) (drop ?n ?rest) = Some r \<and> length r \<le> cap \<and> length r < lim"
        using "1.IH"(1) [OF True refl refl lit refl] by (simp add: add.commute)
      show ?thesis
        using True lit IH grow by (subst dict_dec_loop.simps) (auto simp: d Let_def)
    next
      case ref: False
      let ?e = "unat (?t AND 0x3F)"
      show ?thesis
      proof (cases "?t \<le> 0xBF \<and> ?e < 16")
        case False
        then show ?thesis using True ref by (subst dict_dec_loop.simps) (auto simp: d Let_def)
      next
        case e: True
        have len: "length (entry_bytes ?e) = entry_length ?e" using entry_ok e by simp
        have grow: "dict_expand (out @ entry_bytes ?e) x = Some r \<Longrightarrow> length out + entry_length ?e \<le> length r" for x
          using dict_expand_grows [of "out @ entry_bytes ?e" x r] len by simp
        have IH: "length out + entry_length ?e \<le> cap \<Longrightarrow> length out + entry_length ?e < lim \<Longrightarrow>
            dict_dec_loop inp cap lim (Suc index) (out @ entry_bytes ?e) = Inr r \<longleftrightarrow>
            dict_expand (out @ entry_bytes ?e) (drop (Suc index) inp) = Some r \<and> length r \<le> cap \<and> length r < lim"
          using "1.IH"(2) [OF True refl refl ref _ refl] e len by simp
        show ?thesis
          using True ref e IH grow by (subst dict_dec_loop.simps) (auto simp: d Let_def)
      qed
    qed
  qed
qed

lemma dict_dec_written:
  "length out \<le> cap \<Longrightarrow> length (written (dict_dec_loop inp cap lim index out)) \<le> cap"
proof (induction inp cap lim index out rule: dict_dec_loop.induct)
  case (1 inp cap lim index out)
  then show ?case
    by (subst dict_dec_loop.simps) (auto simp: Let_def written_def entry_ok)
qed

section \<open>The codec contract\<close>

definition dict_find :: "64 word list \<Rightarrow> u8 list \<Rightarrow> nat \<Rightarrow> (nat \<times> u8 list) option" where
  "dict_find bucket inp index =
     (case dict_best bucket inp index of (best_len, best_index) \<Rightarrow>
        if best_len = 0 then None else Some (best_len, [0x80 OR of_nat best_index]))"

interpretation dict: literal_codec dict_expand "dict_find bucket" "dict_enc_loop bucket"
  "\<lambda>inp cap lim. dict_dec_loop inp cap lim 0 []" for bucket
proof
  fix h h' a b l :: "u8 list"
  show "dict_expand h a = Some h' \<Longrightarrow> dict_expand h (a @ b) = dict_expand h' b" by (rule dict_expand_append)
  show "0 < length l \<Longrightarrow> length l \<le> 128 \<Longrightarrow> dict_expand h (of_nat (length l - 1) # l) = Some (h @ l)"
    by (simp add: of_nat_le_127 unat_of_nat_u8)
next
  fix inp toks :: "u8 list" and index k :: nat
  assume f: "dict_find bucket inp index = Some (k, toks)" and i: "index < length inp"
  obtain e where b: "dict_best bucket inp index = (k, e)" and k: "0 < k" and t: "toks = [0x80 OR of_nat e]"
    using f by (auto simp: dict_find_def split: prod.splits if_splits)
  have e: "e < 16" "k \<le> length inp - index" "take k (drop index inp) = entry_bytes e"
    using dict_best_found [of inp index bucket] k by (auto simp: b dict_found_def)
  have tok: "\<not> ((0x80 OR of_nat e) :: u8) \<le> 0x7F" "((0x80 OR of_nat e) :: u8) \<le> 0xBF"
    "unat ((0x80 OR of_nat e) AND 0x3F :: u8) = e"
    using high_token [of e] high_token_index [of e] e by auto
  have "dict_expand (take index inp) toks = Some (take index inp @ entry_bytes e)"
    using e(1) tok unfolding t by simp
  then show "0 < k \<and> index + k \<le> length inp \<and> toks \<noteq> [] \<and> length toks \<le> 2 * k \<and>
      dict_expand (take index inp) toks = Some (take (index + k) inp)"
    using k e t i by (auto simp: take_extend)
next
  fix inp out toks ys r :: "u8 list" and c l index s n k :: nat
  show "\<not> index < length inp \<Longrightarrow> dict_enc_loop bucket inp c l index s n out = Inr (s, n, out)"
    by (subst dict_enc_loop.simps) simp
  show "index < length inp \<Longrightarrow> dict_find bucket inp index = None \<Longrightarrow>
      dict_enc_loop bucket inp c l index s n out =
        (if n + 1 = 128
         then (case flush_literal inp c l s (n + 1) out of
                 Inl w \<Rightarrow> Inl w
               | Inr out' \<Rightarrow> dict_enc_loop bucket inp c l (index + 1) (index + 1) 0 out')
         else dict_enc_loop bucket inp c l (index + 1) s (n + 1) out)"
    by (subst dict_enc_loop.simps) (auto simp: dict_find_def split: prod.splits if_splits)
  show "index < length inp \<Longrightarrow> dict_find bucket inp index = Some (k, toks) \<Longrightarrow>
      dict_enc_loop bucket inp c l index s n out =
        (case flush_pending inp c l s n out of
           Inl w \<Rightarrow> Inl w
         | Inr out' \<Rightarrow>
             if length out' + length toks > c \<or> length out' + length toks \<ge> l then Inl out'
             else dict_enc_loop bucket inp c l (index + k) (index + k) 0 (out' @ toks))"
    by (subst dict_enc_loop.simps) (auto simp: dict_find_def split: prod.splits if_splits sum.splits)
  show "0 < l \<Longrightarrow> (dict_dec_loop ys c l 0 [] = Inr r) =
      (dict_expand [] ys = Some r \<and> length r \<le> c \<and> length r < l)"
    using dict_dec_loop_iff [of "[]" c l ys 0 r] by simp
  show "length (written (dict_dec_loop ys c l 0 [])) \<le> c"
    by (rule dict_dec_written) simp
qed simp

interpretation dict_codec: block_codec "codec_dict_encode ready" codec_dict_decode for ready
  unfolding codec_dict_encode_def codec_dict_decode_def by (rule dict.block_codec_axioms)

section \<open>Properties\<close>

text \<open>
  C31: whatever codec_dict_encode accepted, codec_dict_decode turns back into the input, with
  the lookup table built by this call or by an earlier one.
\<close>

theorem codec_dict_round_trip:
  assumes "io_ret (codec_dict_encode ready (Some xs) (Some cap) b lim) = 1"
    and "length xs \<le> cap'" "length xs < lim'"
  shows "codec_dict_decode (Some (io_payload (codec_dict_encode ready (Some xs) (Some cap) b lim))) (Some cap') True lim'
    = codec_ok (length xs) xs"
  using dict.call_round_trip [of "codec_dict_table ready" xs cap b lim cap' lim'] assms
  by (simp add: codec_dict_encode_def codec_dict_decode_def)

lemma dict_encode_sample:
  "io_ret (codec_dict_encode (Some (replicate 256 0)) (Some [111, 107]) (Some 4) True 4) = 1"
  by code_simp

theorem codec_dict_round_trip_witness:
  "codec_dict_decode (Some (io_payload (codec_dict_encode (Some (replicate 256 0)) (Some [111, 107]) (Some 4) True 4)))
     (Some 2) True 3 = codec_ok 2 [111, 107]"
  using codec_dict_round_trip [OF dict_encode_sample, of 2 3] by (simp add: eval_nat_numeral)

lemma dict_fill:
  assumes "\<And>e. e \<in> set es \<Longrightarrow> e < 64" "length bucket = 256" "k < 256"
  shows "bit (foldl (\<lambda>bucket e. (let first_byte = unat (dict_data ! entry_offset e)
            in bucket[first_byte := bucket ! first_byte OR push_bit e 1])) bucket es ! k) n
    \<longleftrightarrow> bit (bucket ! k :: 64 word) n \<or> (n \<in> set es \<and> unat (dict_data ! entry_offset n) = k)"
  using assms
proof (induction es arbitrary: bucket)
  case Nil
  then show ?case by simp
next
  case (Cons e es)
  let ?f = "unat (dict_data ! entry_offset e)"
  have "?f < 256" by (rule unat_u8_less)
  moreover have "bit (push_bit e 1 :: 64 word) n \<longleftrightarrow> n = e"
    using Cons.prems(1) [of e] by (auto simp: bit_simps)
  ultimately have "bit (bucket[?f := bucket ! ?f OR push_bit e 1] ! k) n
      \<longleftrightarrow> bit (bucket ! k) n \<or> (n = e \<and> ?f = k)"
    using Cons.prems(2,3) by (auto simp: nth_list_update bit_or_iff simp del: push_bit_of_1)
  moreover note Cons.IH [of "bucket[?f := bucket ! ?f OR push_bit e 1]"]
  ultimately show ?case using Cons.prems by (auto simp: Let_def)
qed

text \<open>\<open>codec_dict_init\<close> fills the table with each entry under its first byte.\<close>

lemma codec_dict_init_bit:
  "k < 256 \<Longrightarrow> bit (codec_dict_init ! k) e \<longleftrightarrow> e < 16 \<and> unat (dict_data ! entry_offset e) = k"
  unfolding codec_dict_init_def by (subst dict_fill) auto

text \<open>Entry \<open>e\<close> occurs at \<open>index\<close>.\<close>

definition entry_at :: "u8 list \<Rightarrow> nat \<Rightarrow> nat \<Rightarrow> bool" where
  "entry_at inp index e \<longleftrightarrow> e < 16 \<and> take (entry_length e) (drop index inp) = entry_bytes e"

lemma entry_at_fits: "entry_at inp index e \<Longrightarrow> entry_length e \<le> length inp - index"
proof -
  assume a: "entry_at inp index e"
  then have "length (take (entry_length e) (drop index inp)) = entry_length e"
    using entry_ok by (simp add: entry_at_def)
  then show "entry_length e \<le> length inp - index" by simp
qed

lemma entry_hd: "e < 16 \<Longrightarrow> entry_bytes e ! 0 = dict_data ! entry_offset e"
proof -
  assume e: "e < 16"
  then have "entry_length e \<noteq> 0" "entry_offset e < length dict_data"
    using entry_ok [OF e] by (auto simp: entry_bytes_def)
  then show ?thesis by (simp add: entry_bytes_def)
qed

lemma entry_at_bucket:
  assumes "entry_at inp index e"
  shows "bit (codec_dict_init ! unat (inp ! index)) e"
proof -
  have e: "e < 16" "0 < entry_length e" using assms entry_ok by (auto simp: entry_at_def)
  have "index < length inp" using entry_at_fits [OF assms] e(2) by simp
  then have "take (entry_length e) (drop index inp) ! 0 = inp ! index" using e(2) by simp
  then have "inp ! index = dict_data ! entry_offset e"
    using assms entry_hd [OF e(1)] by (simp add: entry_at_def)
  then show ?thesis using e(1) unat_u8_less by (simp add: codec_dict_init_bit)
qed

lemma dict_step_ge: "fst b \<le> fst (dict_step cand inp index b x)"
  by (auto simp: dict_step_def Let_def)

lemma dict_fold_ge: "fst b \<le> fst (foldl (dict_step cand inp index) b xs)"
proof (induction xs arbitrary: b)
  case (Cons x xs)
  have "fst b \<le> fst (dict_step cand inp index b x)" by (rule dict_step_ge)
  also have "\<dots> \<le> fst (foldl (dict_step cand inp index) (dict_step cand inp index b x) xs)" by (rule Cons)
  finally show ?case by simp
qed simp

lemma dict_step_takes:
  assumes "bit cand x" "entry_at inp index x" "x < 64"
  shows "entry_length x \<le> fst (dict_step cand inp index b x)"
proof -
  have "cand AND push_bit x 1 \<noteq> 0"
    using assms(1) by (simp add: and_exp_eq_0_iff_not_bit)
  moreover have "take (entry_length x) (drop index inp) = entry_bytes x" "\<not> entry_length x > length inp - index"
    using assms(2) entry_at_fits [OF assms(2)] by (auto simp: entry_at_def)
  ultimately show ?thesis by (simp add: dict_step_def Let_def del: push_bit_of_1)
qed

lemma dict_fold_takes:
  assumes "x \<in> set xs" "bit cand x" "entry_at inp index x"
  shows "entry_length x \<le> fst (foldl (dict_step cand inp index) b xs)"
  using assms(1)
proof (induction xs arbitrary: b)
  case (Cons y ys)
  show ?case
  proof (cases "x = y")
    case True
    have "x < 64" using assms(3) by (simp add: entry_at_def)
    then have "entry_length x \<le> fst (dict_step cand inp index b x)"
      using assms(2,3) by (intro dict_step_takes)
    also have "\<dots> \<le> fst (foldl (dict_step cand inp index) (dict_step cand inp index b x) ys)"
      by (rule dict_fold_ge)
    finally show ?thesis by (simp add: True)
  next
    case False
    then show ?thesis using Cons by simp
  qed
qed simp

text \<open>
  With the table of codec_dict_init, the search of codec_dict_encode is exact although it
  only looks at the entries filed under the current byte: it finds a longest codebook entry
  occurring at the index, and finds none only when none occurs.
\<close>

theorem dict_best_longest:
  assumes "index < length inp" "dict_best codec_dict_init inp index = (k, e)"
  shows "(if k = 0 then \<not> (\<exists>e'. entry_at inp index e')
     else entry_at inp index e \<and> k = entry_length e
       \<and> \<not> (\<exists>e'. entry_at inp index e' \<and> k < entry_length e'))"
proof -
  have max: "entry_length e' \<le> k" if "entry_at inp index e'" for e'
    using dict_fold_takes [of e' "[0..<16]", OF _ entry_at_bucket [OF that] that, where b = "(0, 0)"] that assms(2)
    by (simp add: dict_best_def entry_at_def)
  have "k \<noteq> 0 \<Longrightarrow> entry_at inp index e \<and> k = entry_length e"
    using dict_best_found [of inp index codec_dict_init] assms(2) by (auto simp: dict_found_def entry_at_def)
  moreover have "0 < entry_length e'" if "entry_at inp index e'" for e'
    using that entry_ok by (simp add: entry_at_def)
  ultimately show ?thesis using max by (auto simp: not_less) fastforce
qed

theorem dict_best_longest_witness:
  "\<not> (\<exists>e'. entry_at [111, 107] 0 e' \<and> 2 < entry_length e')"
proof -
  obtain k e where b: "dict_best codec_dict_init [111, 107] 0 = (k, e)" by fastforce
  have at: "entry_at [111, 107] 0 13" "entry_length 13 = 2" by code_simp+
  have "\<not> (\<exists>e'. entry_at [111, 107] 0 e' \<and> k < entry_length e')" "k \<noteq> 0"
    using dict_best_longest [OF _ b] at by (auto split: if_splits)
  moreover have "k \<le> 2"
    using dict_best_longest [OF _ b] \<open>k \<noteq> 0\<close> entry_at_fits [of "[111, 107]" 0 e] by simp
  ultimately show ?thesis using at by (metis le_neq_implies_less order_le_less_trans not_less)
qed

lemma foldl_concat_map: "foldl f a (concat (map g es)) = foldl (\<lambda>a e. foldl f a (g e)) a es"
  by (induction es arbitrary: a) auto

text \<open>
  The codebook CRC announced in a CODEC_SELECT answer is the flash_integrity CRC-32 of the
  concatenated entries, without their NUL terminators.
\<close>

theorem codec_dict_codebook_crc32_eq:
  "codec_dict_codebook_crc32 = flash_integrity_crc32 (Some (concat (map entry_bytes [0..<16])))"
proof -
  have "codec_dict_codebook_crc32 =
      foldl crc32_byte 0xFFFFFFFF (concat (map entry_bytes [0..<16])) XOR 0xFFFFFFFF"
    unfolding codec_dict_codebook_crc32_def foldl_concat_map crc32_byte_def crc32_bit_def ..
  moreover have "x XOR 0xFFFFFFFF = NOT x" for x :: u32
  proof -
    have "(0xFFFFFFFF :: u32) = - 1" by simp
    then show ?thesis by (simp only:) (rule bit_word_eqI, simp add: bit_simps)
  qed
  ultimately show ?thesis by (simp add: flash_integrity_crc32_def)
qed

end
