(* ===== verification/Codec_Zero.thy ===== *)
theory Codec_Zero
  imports Codec_Base
begin

text \<open>
  The nibble zero-count codec of code/lib/codec_zero.c.  The encoder sets single bits of a
  zeroed output buffer; the decoder counts runs of equal bits.  The buffer is kept as the bytes
  the code stores; \<open>buf_bit\<close> reads it as a bit string, and the encoder is proved to
  write exactly the concatenated nibble codes padded with ones.
\<close>

section \<open>The encoder\<close>

text \<open>
  \<open>p_output[bit_count >> 3] |= 1 << (7 - (bit_count & 7))\<close>.  The buffer starts as the
  \<open>capacity\<close> bytes that \<open>memset\<close> clears.  A store past them grows the list,
  so that a call that leaves the caller's buffer shows as \<open>length (io_buf r) > capacity\<close>
  (what such a foreign byte held before is not known; no result depends on it).
\<close>

definition zero_set :: "u8 list \<Rightarrow> nat \<Rightarrow> u8 list" where
  "zero_set p_output bit_count =
     (let i = bit_count div 8; p = p_output @ replicate (Suc i - length p_output) 0
      in p[i := p ! i OR push_bit (7 - bit_count mod 8) 1])"

text \<open>The overflow prefix: \<open>segment\<close> ones.\<close>

fun zero_ones :: "u8 list \<Rightarrow> nat \<Rightarrow> nat \<Rightarrow> u8 list \<times> nat" where
  "zero_ones p_output bit_count 0 = (p_output, bit_count)"
| "zero_ones p_output bit_count (Suc segment) = zero_ones (zero_set p_output bit_count) (bit_count + 1) segment"

text \<open>One nibble; \<open>Inl\<close> is the abort at the exclusive limit.\<close>

definition zero_nibble :: "nat \<Rightarrow> u8 \<Rightarrow> u8 list \<Rightarrow> nat \<Rightarrow> u8 list + u8 list \<times> nat" where
  "zero_nibble lim nibble p_output bit_count =
     (let segment = unat (drop_bit 2 nibble);
          offset = unat (nibble AND 3)
      in case zero_ones p_output bit_count segment of
           (p1, count1) \<Rightarrow>
             let count2 = count1 + (offset + 1);
                 p2 = zero_set p1 count2;
                 count3 = count2 + 1
             in if (count3 + 7) div 8 \<ge> lim then Inl p2 else Inr (p2, count3))"

text \<open>The loop over the input, high nibble first.\<close>

fun zero_enc_loop :: "nat \<Rightarrow> u8 list \<Rightarrow> u8 list \<Rightarrow> nat \<Rightarrow> u8 list + u8 list \<times> nat" where
  "zero_enc_loop lim [] p_output bit_count = Inr (p_output, bit_count)"
| "zero_enc_loop lim (x # xs) p_output bit_count =
     (case zero_nibble lim (drop_bit 4 x) p_output bit_count of
        Inl w \<Rightarrow> Inl w
      | Inr (p1, count1) \<Rightarrow>
          (case zero_nibble lim (x AND 0x0F) p1 count1 of
             Inl w \<Rightarrow> Inl w
           | Inr (p2, count2) \<Rightarrow> zero_enc_loop lim xs p2 count2))"

text \<open>The padding of the last byte with ones.\<close>

function zero_pad :: "u8 list \<Rightarrow> nat \<Rightarrow> u8 list \<times> nat" where
  "zero_pad p_output bit_count =
     (if bit_count mod 8 \<noteq> 0 then zero_pad (zero_set p_output bit_count) (bit_count + 1)
      else (p_output, bit_count))"
  by pat_completeness auto

lemma pad_decreases: "0 < (n :: nat) mod 8 \<Longrightarrow> (8 - Suc n mod 8) mod 8 < 8 - n mod 8"
proof -
  assume n: "0 < n mod 8"
  have "Suc n mod 8 = (if n mod 8 = 7 then 0 else Suc (n mod 8))" by (simp add: mod_Suc)
  then show ?thesis using n by (auto simp: mod_less)
qed

termination zero_pad
  by (relation "measure (\<lambda>(p_output, bit_count). (8 - bit_count mod 8) mod 8)") (simp_all add: pad_decreases)

declare zero_pad.simps [simp del]

definition codec_zero_encode :: codec_fn where
  "codec_zero_encode p_input p_output_len p_output lim =
     codec_guard (\<lambda>inp cap.
       case zero_enc_loop lim inp (replicate cap 0) 0 of
         Inl w \<Rightarrow> codec_fail w
       | Inr (p1, count1) \<Rightarrow>
           (case zero_pad p1 count1 of
              (p2, count2) \<Rightarrow>
                let out_len = count2 div 8
                in if out_len = 0 \<or> out_len > cap \<or> out_len \<ge> lim then codec_fail p2
                   else codec_ok out_len p2)) p_input p_output_len p_output lim"

section \<open>The decoder\<close>

definition codec_zero_get_bit :: "u8 list \<Rightarrow> nat \<Rightarrow> u8" where
  "codec_zero_get_bit p_input bit_index = drop_bit (7 - bit_index mod 8) (p_input ! (bit_index div 8)) AND 1"

text \<open>
  Count the bits equal to \<open>v\<close> from \<open>bit_index\<close> on.  The counter is the
  code's \<open>uint8_t\<close>, which wraps at 256.
\<close>

function zero_count :: "u8 list \<Rightarrow> nat \<Rightarrow> u8 \<Rightarrow> nat \<Rightarrow> u8 \<Rightarrow> nat \<times> u8" where
  "zero_count p_input bit_total v bit_index n =
     (if bit_index < bit_total \<and> codec_zero_get_bit p_input bit_index = v
      then zero_count p_input bit_total v (bit_index + 1) (n + 1)
      else (bit_index, n))"
  by pat_completeness auto
termination by (relation "measure (\<lambda>(p_input, bit_total, v, bit_index, n). bit_total - bit_index)") auto

declare zero_count.simps [simp del]

lemma zero_count_mono: "zero_count p t v i n = (i', n') \<Longrightarrow> i \<le> i'"
proof (induction p t v i n rule: zero_count.induct)
  case (1 p t v i n)
  then show ?case by (subst (asm) zero_count.simps) (auto split: if_splits)
qed

text \<open>
  The main loop.  \<open>pending\<close> is \<open>pending_high\<close> when
  \<open>has_pending\<close> is set.  \<open>Inl\<close> is an early failure; the list is what was
  stored to \<open>p_output\<close>.
\<close>

function zero_dec_loop :: "u8 list \<Rightarrow> nat \<Rightarrow> nat \<Rightarrow> nat \<Rightarrow> u8 option \<Rightarrow> u8 list \<Rightarrow> u8 list + u8 option \<times> u8 list" where
  "zero_dec_loop inp cap lim bit_index pending out =
     (let bit_total = length inp * 8
      in if bit_index < bit_total then
           (case zero_count inp bit_total 1 bit_index 0 of
              (index1, segment) \<Rightarrow>
                if index1 \<ge> bit_total then Inr (pending, out)
                else if segment > 3 then Inl out
                else
                  (case zero_count inp bit_total 0 index1 0 of
                     (index2, offset_count) \<Rightarrow>
                       if index2 \<ge> bit_total then Inl out
                       else if offset_count = 0 \<or> offset_count > 4 then Inl out
                       else
                         (let offset = offset_count - 1;
                              nibble = push_bit 2 segment OR offset
                          in case pending of
                               None \<Rightarrow> zero_dec_loop inp cap lim (index2 + 1) (Some nibble) out
                             | Some pending_high \<Rightarrow>
                                 if length out \<ge> cap then Inl out
                                 else if length out + 1 \<ge> lim then Inl out
                                 else zero_dec_loop inp cap lim (index2 + 1) None
                                        (out @ [push_bit 4 pending_high OR nibble]))))
         else Inr (pending, out))"
  by pat_completeness auto

lemma zero_dec_decreases:
  "i < t \<Longrightarrow> (i1, s) = zero_count p t v i n \<Longrightarrow> (i2, c) = zero_count p t w i1 m \<Longrightarrow> t - Suc i2 < t - i"
  using zero_count_mono [of p t v i n i1 s] zero_count_mono [of p t w i1 m i2 c] by auto

termination zero_dec_loop
  by (relation "measure (\<lambda>(inp, cap, lim, bit_index, pending, out). length inp * 8 - bit_index)")
     (auto intro: zero_dec_decreases)

declare zero_dec_loop.simps [simp del]

text \<open>A pending half byte at the end of the input is a failure.\<close>

definition zero_dec_run :: "u8 list \<Rightarrow> nat \<Rightarrow> nat \<Rightarrow> u8 list + u8 list" where
  "zero_dec_run inp cap lim =
     (case zero_dec_loop inp cap lim 0 None [] of
        Inl w \<Rightarrow> Inl w
      | Inr (pending, out) \<Rightarrow> if pending \<noteq> None then Inl out else Inr out)"

definition codec_zero_decode :: codec_fn where
  "codec_zero_decode = codec_call zero_dec_run"

section \<open>The buffer as a bit string\<close>

definition buf_bit :: "u8 list \<Rightarrow> nat \<Rightarrow> bool" where
  "buf_bit p i \<longleftrightarrow> i div 8 < length p \<and> bit (p ! (i div 8)) (7 - i mod 8)"

text \<open>\<open>p\<close> holds the bits \<open>bs\<close> and zeros after them.\<close>

definition holds :: "u8 list \<Rightarrow> bool list \<Rightarrow> bool" where
  "holds p bs \<longleftrightarrow> (\<forall>i. buf_bit p i = (i < length bs \<and> bs ! i))"

lemma length_zero_set [simp]: "length (zero_set p n) = max (length p) (Suc (n div 8))"
  by (simp add: zero_set_def Let_def)

lemma bit_position: "(i :: nat) div 8 = n div 8 \<Longrightarrow> 7 - i mod 8 = 7 - n mod 8 \<Longrightarrow> i = n"
proof -
  assume a: "i div 8 = n div 8" "7 - i mod 8 = 7 - n mod 8"
  have "i mod 8 < 8" "n mod 8 < 8" by simp_all
  then have "i mod 8 = n mod 8" using a(2) by simp
  then show "i = n" using a(1) by (metis div_mult_mod_eq)
qed

lemma bit_push_one: "bit (2 ^ (7 - n) :: u8) (7 - i) \<longleftrightarrow> 7 - n = 7 - i"
  by (auto simp: bit_simps)

lemma pad_nth: "j < length p + m \<Longrightarrow> (p @ replicate m (0 :: u8)) ! j = (if j < length p then p ! j else 0)"
  by (auto simp: nth_append)

lemma buf_bit_set: "buf_bit (zero_set p n) i \<longleftrightarrow> buf_bit p i \<or> i = n"
proof (cases "i div 8 = n div 8")
  case True
  have "bit ((p @ replicate (Suc (n div 8) - length p) 0) ! (n div 8)) k \<longleftrightarrow>
      n div 8 < length p \<and> bit (p ! (n div 8)) k" for k
    by (auto simp: nth_append)
  moreover have "7 - n mod 8 = 7 - i mod 8 \<longleftrightarrow> i = n" using bit_position [OF True] by auto
  moreover have "n div 8 < length p + (Suc (n div 8) - length p)" by simp
  ultimately show ?thesis
    using True by (simp add: buf_bit_def zero_set_def Let_def bit_or_iff bit_push_one conj_disj_distribL)
next
  case False
  then have "i \<noteq> n" by auto
  have "i div 8 < length (zero_set p n) \<and> bit (zero_set p n ! (i div 8)) k \<longleftrightarrow>
      i div 8 < length p \<and> bit (p ! (i div 8)) k" for k
    using False by (auto simp: zero_set_def Let_def pad_nth nth_list_update split: if_splits)
  then show ?thesis using \<open>i \<noteq> n\<close> by (simp add: buf_bit_def)
qed

lemma holds_clear: "holds (replicate n 0) []"
  by (simp add: holds_def buf_bit_def)

lemma holds_one: "holds p bs \<Longrightarrow> holds (zero_set p (length bs)) (bs @ [True])"
  unfolding holds_def
proof (rule allI)
  fix i assume "\<forall>i. buf_bit p i = (i < length bs \<and> bs ! i)"
  then have "buf_bit p i = (i < length bs \<and> bs ! i)" by blast
  then show "buf_bit (zero_set p (length bs)) i = (i < length (bs @ [True]) \<and> (bs @ [True]) ! i)"
    by (cases "i < length bs"; cases "i = length bs") (simp_all add: buf_bit_set nth_append)
qed

lemma holds_zeros: "holds p bs \<Longrightarrow> holds p (bs @ replicate k False)"
  unfolding holds_def
proof (rule allI)
  fix i assume "\<forall>i. buf_bit p i = (i < length bs \<and> bs ! i)"
  then have "buf_bit p i = (i < length bs \<and> bs ! i)" by blast
  then show "buf_bit p i = (i < length (bs @ replicate k False) \<and> (bs @ replicate k False) ! i)"
    by (auto simp: nth_append)
qed

section \<open>What the encoder writes\<close>

definition nibble_bits :: "u8 \<Rightarrow> bool list" where
  "nibble_bits n = replicate (unat (drop_bit 2 n)) True @ replicate (unat (n AND 3) + 1) False @ [True]"

definition byte_bits :: "u8 \<Rightarrow> bool list" where
  "byte_bits x = nibble_bits (drop_bit 4 x) @ nibble_bits (x AND 0x0F)"

definition block_bits :: "u8 list \<Rightarrow> bool list" where
  "block_bits xs = concat (map byte_bits xs)"

text \<open>What the proofs need of a nibble: a value below 16, as both halves of a byte are.\<close>

definition is_nibble :: "u8 \<Rightarrow> bool" where
  "is_nibble nib \<longleftrightarrow> 2 \<le> length (nibble_bits nib) \<and> length (nibble_bits nib) \<le> 8
     \<and> unat (drop_bit 2 nib) \<le> 3 \<and> unat (nib AND 3) \<le> 3
     \<and> push_bit 2 (of_nat (unat (drop_bit 2 nib))) OR (of_nat (unat (nib AND 3) + 1) - 1) = nib"

lemma nibbles_all: "list_all (\<lambda>n. is_nibble (of_nat n)) [0..<16]"
  by code_simp

lemma is_nibble_small: "unat nib < 16 \<Longrightarrow> is_nibble nib"
proof -
  assume "unat nib < 16"
  then have "is_nibble (of_nat (unat nib))"
    using nibbles_all unfolding list_all_iff by (metis atLeastLessThan_iff le0 set_upt)
  then show "is_nibble nib" by simp
qed

lemma halves:
  "is_nibble (drop_bit 4 x)" "is_nibble (x AND 0x0F)" "push_bit 4 (drop_bit 4 x) OR (x AND 0x0F) = x"
proof -
  have "unat (drop_bit 4 x) = unat x div 16" by (subst unat_drop_bit_eq) (simp add: drop_bit_eq_div)
  then show "is_nibble (drop_bit 4 x)" using unat_u8_less [of x] by (intro is_nibble_small) simp
  have m: "(0x0F :: u8) = mask 4" by (simp add: mask_numeral)
  have "x AND 0x0F \<le> 0x0F" by (rule word_and_le1)
  then have "unat (x AND 0x0F) \<le> 15" by (simp add: word_le_nat_alt)
  then show "is_nibble (x AND 0x0F)" by (intro is_nibble_small) simp
  show "push_bit 4 (drop_bit 4 x) OR (x AND 0x0F) = x"
    unfolding m by (rule bit_word_eqI) (auto simp: bit_simps)
qed

lemma max_chain: "a \<le> b \<Longrightarrow> max (max l (Suc a)) (Suc b) = max l (Suc b)"
  by simp

lemma zero_ones_holds:
  "holds p bs \<Longrightarrow> zero_ones p (length bs) k = (p', c) \<Longrightarrow>
     holds p' (bs @ replicate k True) \<and> c = length bs + k \<and>
     length p' = (if k = 0 then length p else max (length p) (Suc ((length bs + k - 1) div 8)))"
proof (induction k arbitrary: p bs)
  case 0
  then show ?case by simp
next
  case (Suc k)
  have "holds p' ((bs @ [True]) @ replicate k True) \<and> c = length (bs @ [True]) + k \<and>
     length p' = (if k = 0 then length (zero_set p (length bs))
       else max (length (zero_set p (length bs))) (Suc ((length (bs @ [True]) + k - 1) div 8)))"
    using Suc.prems by (intro Suc.IH) (auto intro: holds_one)
  moreover have "length bs div 8 \<le> (length bs + k) div 8" by (rule div_le_mono) simp
  ultimately show ?case by (auto simp: max_chain)
qed

lemma max_bound: "a \<le> m \<Longrightarrow> b \<le> m \<Longrightarrow> max (max l a) b \<le> max l (m :: nat)"
  by (auto simp: max_def)

lemma max_through: "a \<le> b \<Longrightarrow> max (max l a) b = max l (b :: nat)"
  by simp

definition bytes_of :: "nat \<Rightarrow> nat" where
  "bytes_of n = (n + 7) div 8"

lemma bytes_of_pos: "0 < n \<Longrightarrow> Suc ((n - 1) div 8) = bytes_of n"
  by (cases n) (auto simp: bytes_of_def)

lemma bytes_of_mono: "m \<le> n \<Longrightarrow> bytes_of m \<le> bytes_of n"
  unfolding bytes_of_def by (rule div_le_mono) simp

lemma bytes_of_step: "bytes_of m < lim \<Longrightarrow> k \<le> 8 \<Longrightarrow> bytes_of (m + k) \<le> lim"
proof -
  assume a: "bytes_of m < lim" and k: "k \<le> 8"
  have "bytes_of (m + k) \<le> bytes_of (m + 8)" using k by (intro bytes_of_mono) simp
  also have "bytes_of (m + 8) = Suc (bytes_of m)" by (simp add: bytes_of_def)
  finally show ?thesis using a by simp
qed

lemma zero_nibble_cases:
  assumes "holds p bs" "is_nibble nib"
  shows "\<exists>p'. holds p' (bs @ nibble_bits nib) \<and>
     length p' = max (length p) (bytes_of (length bs + length (nibble_bits nib))) \<and>
     zero_nibble lim nib p (length bs) =
       (if bytes_of (length bs + length (nibble_bits nib)) \<ge> lim then Inl p'
        else Inr (p', length bs + length (nibble_bits nib)))"
proof -
  let ?s = "unat (drop_bit 2 nib)" and ?o = "unat (nib AND 3)"
  obtain p1 c1 where z: "zero_ones p (length bs) ?s = (p1, c1)" by fastforce
  let ?bs = "(bs @ replicate ?s True) @ replicate (?o + 1) False"
  have h: "holds p1 ?bs" "c1 = length bs + ?s"
    using zero_ones_holds [OF assms(1) z] holds_zeros by blast+
  have len: "length p1 = (if ?s = 0 then length p else max (length p) (Suc ((length bs + ?s - 1) div 8)))"
    using zero_ones_holds [OF assms(1) z] by blast
  let ?n = "length bs + length (nibble_bits nib)"
  have n: "length bs + ?s + ?o + 1 = ?n - 1" "0 < ?n" by (simp_all add: nibble_bits_def)
  have "(length bs + ?s - 1) div 8 \<le> (?n - 1) div 8" by (rule div_le_mono) (simp add: nibble_bits_def)
  then have "max (length p1) (Suc ((?n - 1) div 8)) = max (length p) (Suc ((?n - 1) div 8))"
    using len by (auto simp: max_chain)
  moreover have "length (zero_set p1 (length ?bs)) = max (length p1) (Suc ((?n - 1) div 8))"
    unfolding length_zero_set n(1) [symmetric] by simp
  ultimately have l: "length (zero_set p1 (length ?bs)) = max (length p) (bytes_of ?n)"
    using bytes_of_pos [OF n(2)] by simp
  have "zero_nibble lim nib p (length bs) =
       (if bytes_of (length bs + length (nibble_bits nib)) \<ge> lim then Inl (zero_set p1 (length ?bs))
        else Inr (zero_set p1 (length ?bs), length bs + length (nibble_bits nib)))"
    by (simp add: zero_nibble_def z h(2) Let_def nibble_bits_def add.assoc bytes_of_def)
  then show ?thesis
    using holds_one [OF h(1)] l by (intro exI [of _ "zero_set p1 (length ?bs)"]) (simp add: nibble_bits_def)
qed

text \<open>One byte: both nibbles fit below the limit and are written, or the call aborts.\<close>

lemma zero_byte_step:
  assumes "holds p bs" "bytes_of (length bs) < lim"
  shows "if bytes_of (length bs + length (byte_bits x)) < lim
     then \<exists>p'. holds p' (bs @ byte_bits x) \<and> length p' = max (length p) (bytes_of (length bs + length (byte_bits x)))
       \<and> (\<forall>xs. zero_enc_loop lim (x # xs) p (length bs) = zero_enc_loop lim xs p' (length (bs @ byte_bits x)))
     else \<exists>w. length w \<le> max (length p) lim \<and> (\<forall>xs. zero_enc_loop lim (x # xs) p (length bs) = Inl w)"
proof -
  let ?h = "nibble_bits (drop_bit 4 x)" and ?l = "nibble_bits (x AND 0x0F)"
  have h: "2 \<le> length ?h" "length ?h \<le> 8" and l: "2 \<le> length ?l" "length ?l \<le> 8"
    using halves(1,2) [of x] by (simp_all add: is_nibble_def)
  obtain p1 where p1: "holds p1 (bs @ ?h)" "length p1 = max (length p) (bytes_of (length bs + length ?h))"
    "zero_nibble lim (drop_bit 4 x) p (length bs) =
       (if bytes_of (length bs + length ?h) \<ge> lim then Inl p1 else Inr (p1, length bs + length ?h))"
    using zero_nibble_cases [OF assms(1) halves(1), of x lim] by blast
  obtain p2 where p2: "holds p2 ((bs @ ?h) @ ?l)" "length p2 = max (length p1) (bytes_of (length bs + length ?h + length ?l))"
    "zero_nibble lim (x AND 0x0F) p1 (length bs + length ?h) =
       (if bytes_of (length bs + length ?h + length ?l) \<ge> lim then Inl p2 else Inr (p2, length bs + length ?h + length ?l))"
    using zero_nibble_cases [OF p1(1) halves(2), of x lim] unfolding length_append by blast
  have m: "bytes_of (length bs + length ?h) \<le> bytes_of (length bs + length ?h + length ?l)"
    by (rule bytes_of_mono) simp
  have eq: "length bs + length (byte_bits x) = length bs + length ?h + length ?l"
    by (simp add: byte_bits_def)
  show ?thesis
  proof (cases "bytes_of (length bs + length (byte_bits x)) < lim")
    case True
    then have "\<not> bytes_of (length bs + length ?h) \<ge> lim" using m eq by simp
    then show ?thesis
      using True p1 p2 m unfolding eq by (intro if_P [THEN iffD2]) (auto intro!: exI [of _ p2] simp: byte_bits_def add.assoc max_through)
  next
    case False
    have s: "bytes_of (length bs + length ?h) \<le> lim" using bytes_of_step [OF assms(2)] h by blast
    show ?thesis
    proof (cases "bytes_of (length bs + length ?h) \<ge> lim")
      case True
      then show ?thesis using False p1 s by (auto intro!: exI [of _ p1])
    next
      case fits: False
      then have "bytes_of (length bs + length ?h + length ?l) \<le> lim" using bytes_of_step l by simp
      then have "length p2 \<le> max (length p) lim" unfolding p1(2) p2(2) using s by (intro max_bound)
      moreover have "zero_nibble lim (drop_bit 4 x) p (length bs) = Inr (p1, length bs + length ?h)"
        using p1(3) fits by simp
      moreover have "zero_nibble lim (x AND 0x0F) p1 (length bs + length ?h) = Inl p2"
        unfolding p2(3) using False eq by simp
      ultimately show ?thesis using False by (auto intro!: exI [of _ p2])
    qed
  qed
qed

lemma zero_enc_loop_cases:
  assumes "holds p bs" "bytes_of (length bs) < lim"
  shows "if bytes_of (length bs + length (block_bits xs)) < lim
     then \<exists>p'. zero_enc_loop lim xs p (length bs) = Inr (p', length bs + length (block_bits xs))
       \<and> holds p' (bs @ block_bits xs)
       \<and> (length p' = (if xs = [] then length p else max (length p) (bytes_of (length bs + length (block_bits xs)))))
     else \<exists>w. zero_enc_loop lim xs p (length bs) = Inl w \<and> length w \<le> max (length p) lim"
  using assms
proof (induction xs arbitrary: p bs)
  case Nil
  then show ?case by (simp add: block_bits_def)
next
  case (Cons x xs)
  have bb: "block_bits (x # xs) = byte_bits x @ block_bits xs" "block_bits [] = []"
    by (simp_all add: block_bits_def)
  have m: "bytes_of (length bs + length (byte_bits x)) \<le> bytes_of (length bs + length (block_bits (x # xs)))"
    unfolding bb by (rule bytes_of_mono) simp
  show ?case
  proof (cases "bytes_of (length bs + length (byte_bits x)) < lim")
    case False
    then show ?thesis using zero_byte_step [OF Cons.prems, of x] m by auto
  next
    case True
    obtain p' where p': "holds p' (bs @ byte_bits x)" "length p' = max (length p) (bytes_of (length bs + length (byte_bits x)))"
      "zero_enc_loop lim (x # xs) p (length bs) = zero_enc_loop lim xs p' (length (bs @ byte_bits x))"
      using zero_byte_step [OF Cons.prems, of x] True by auto
    show ?thesis
      using Cons.IH [OF p'(1)] True m p'(2)
      by (cases "bytes_of (length bs + length (block_bits (x # xs))) < lim")
         (auto simp: p'(3) bb add.assoc max_through simp del: zero_enc_loop.simps)
  qed
qed

lemma bytes_of_inside:
  assumes "n mod 8 \<noteq> 0"
  shows "bytes_of (Suc n) = bytes_of n" "Suc (n div 8) = bytes_of n" "n < 8 * bytes_of n"
proof -
  obtain q r where n: "n = 8 * q + r" "r < 8" using mult_div_mod_eq [of 8 n] by (metis mod_less_divisor zero_less_numeral)
  then have "0 < r" using assms by (cases r) auto
  then have "(n + 7) div 8 = Suc q" "(Suc n + 7) div 8 = Suc q" "n div 8 = q" using n by auto
  then show "bytes_of (Suc n) = bytes_of n" "Suc (n div 8) = bytes_of n" "n < 8 * bytes_of n"
    using n by (simp_all add: bytes_of_def)
qed

lemma zero_pad_holds:
  assumes "holds p bs" "zero_pad p (length bs) = (p', c)"
  shows "holds p' (bs @ replicate (c - length bs) True) \<and> c = 8 * bytes_of (length bs)
     \<and> length p \<le> length p' \<and> length p' \<le> max (length p) (bytes_of (length bs))"
  using assms
proof (induction p "length bs" arbitrary: bs rule: zero_pad.induct)
  case (1 p)
  show ?case
  proof (cases "length bs mod 8 = 0")
    case True
    then have "8 * bytes_of (length bs) = length bs" unfolding bytes_of_def by presburger
    then show ?thesis using 1(2,3) True by (subst (asm) zero_pad.simps) simp
  next
    case False
    let ?bs = "bs @ [True]"
    have h: "holds (zero_set p (length bs)) ?bs" using 1(2) by (rule holds_one)
    have z: "zero_pad (zero_set p (length bs)) (length ?bs) = (p', c)"
      using 1(3) False by (subst (asm) zero_pad.simps) simp
    have b: "bytes_of (length ?bs) = bytes_of (length bs)" "Suc (length bs div 8) = bytes_of (length bs)"
      using bytes_of_inside [OF False] by simp_all
    have IH: "holds p' (?bs @ replicate (c - length ?bs) True) \<and> c = 8 * bytes_of (length ?bs)
        \<and> length (zero_set p (length bs)) \<le> length p'
        \<and> length p' \<le> max (length (zero_set p (length bs))) (bytes_of (length ?bs))"
      by (rule 1(1) [OF False _ h z]) simp
    have "length bs < 8 * bytes_of (length bs)" using bytes_of_inside [OF False] by simp
    then have "c - length bs = Suc (c - length ?bs)" using IH unfolding b(1) by simp
    then show ?thesis using IH b by auto
  qed
qed

section \<open>The result of an encode call\<close>

definition zero_size :: "u8 list \<Rightarrow> nat" where
  "zero_size xs = bytes_of (length (block_bits xs))"

definition zero_padded :: "u8 list \<Rightarrow> bool list" where
  "zero_padded xs = block_bits xs @ replicate (8 * zero_size xs - length (block_bits xs)) True"

lemma block_bits_le: "length (block_bits xs) \<le> 8 * zero_size xs"
  unfolding zero_size_def bytes_of_def by presburger

lemma length_zero_padded [simp]: "length (zero_padded xs) = 8 * zero_size xs"
  using block_bits_le by (simp add: zero_padded_def)

lemma zero_size_pos: "xs \<noteq> [] \<Longrightarrow> 0 < zero_size xs"
proof (cases xs)
  case (Cons x r)
  have "0 < length (nibble_bits (drop_bit 4 x))" by (simp add: nibble_bits_def)
  then have "0 < length (block_bits xs)" unfolding Cons block_bits_def byte_bits_def by simp
  then show ?thesis unfolding zero_size_def bytes_of_def by presburger
qed simp

lemma holds_take: "holds p bs \<Longrightarrow> length bs \<le> 8 * n \<Longrightarrow> holds (take n p) bs"
  unfolding holds_def
proof (rule allI)
  fix i
  assume h: "\<forall>i. buf_bit p i = (i < length bs \<and> bs ! i)" and n: "length bs \<le> 8 * n"
  have "buf_bit (take n p) i \<longleftrightarrow> i div 8 < n \<and> buf_bit p i" by (auto simp: buf_bit_def)
  moreover have "i < length bs \<Longrightarrow> i div 8 < n" using n by presburger
  ultimately show "buf_bit (take n p) i = (i < length bs \<and> bs ! i)" using h by auto
qed

lemma zero_encode_run:
  assumes "0 < lim" "0 < cap" "xs \<noteq> []"
  shows "if zero_size xs < lim
     then \<exists>p. codec_zero_encode (Some xs) (Some cap) True lim =
            (if zero_size xs \<le> cap then codec_ok (zero_size xs) p else codec_fail p)
          \<and> holds p (zero_padded xs) \<and> zero_size xs \<le> length p \<and> length p \<le> max cap (zero_size xs)
     else \<exists>w. codec_zero_encode (Some xs) (Some cap) True lim = codec_fail w \<and> length w \<le> max cap lim"
proof -
  have start: "holds (replicate cap 0) []" "bytes_of (length ([] :: bool list)) < lim"
    using holds_clear assms(1) by (auto simp: bytes_of_def)
  note loop = zero_enc_loop_cases [OF start, of xs, simplified, folded zero_size_def]
  have guard: "codec_zero_encode (Some xs) (Some cap) True lim =
       (case zero_enc_loop lim xs (replicate cap 0) 0 of
         Inl w \<Rightarrow> codec_fail w
       | Inr (p1, count1) \<Rightarrow>
           (case zero_pad p1 count1 of
              (p2, count2) \<Rightarrow>
                let out_len = count2 div 8
                in if out_len = 0 \<or> out_len > cap \<or> out_len \<ge> lim then codec_fail p2
                   else codec_ok out_len p2))"
    using assms by (simp add: codec_zero_encode_def codec_guard_Some)
  show ?thesis
  proof (cases "zero_size xs < lim")
    case False
    then show ?thesis using loop guard by auto
  next
    case True
    obtain p1 where p1: "zero_enc_loop lim xs (replicate cap 0) 0 = Inr (p1, length (block_bits xs))"
      "holds p1 (block_bits xs)" "length p1 = max cap (zero_size xs)"
      using loop True assms(3) by (auto simp: zero_size_def)
    obtain p2 c2 where z: "zero_pad p1 (length (block_bits xs)) = (p2, c2)" by fastforce
    have "holds p2 (zero_padded xs)" "c2 div 8 = zero_size xs" "length p2 = max cap (zero_size xs)"
      using zero_pad_holds [OF p1(2) z] p1(3) by (auto simp: zero_padded_def simp flip: zero_size_def)
    then show ?thesis
      using guard True zero_size_pos [OF assms(3)] by (auto simp: p1(1) z intro!: exI [of _ p2])
  qed
qed

section \<open>The decoder on a bit string\<close>

text \<open>The bits of \<open>p\<close> from \<open>i\<close> on start with \<open>bs\<close>.\<close>

definition reads :: "u8 list \<Rightarrow> nat \<Rightarrow> bool list \<Rightarrow> bool" where
  "reads p i bs \<longleftrightarrow> i + length bs \<le> 8 * length p \<and> (\<forall>j < length bs. buf_bit p (i + j) = bs ! j)"

lemma reads_append: "reads p i (a @ b) \<longleftrightarrow> reads p i a \<and> reads p (i + length a) b"
proof
  assume r: "reads p i (a @ b)"
  have "buf_bit p (i + j) = a ! j" if "j < length a" for j
    using r that by (auto simp: reads_def nth_append dest: spec [of _ j])
  moreover have "buf_bit p (i + length a + j) = b ! j" if "j < length b" for j
    using r that by (auto simp: reads_def nth_append add.assoc dest: spec [of _ "length a + j"])
  ultimately show "reads p i a \<and> reads p (i + length a) b" using r by (simp add: reads_def)
next
  assume r: "reads p i a \<and> reads p (i + length a) b"
  have "buf_bit p (i + j) = (a @ b) ! j" if "j < length (a @ b)" for j
  proof (cases "j < length a")
    case True
    then show ?thesis using r by (simp add: reads_def nth_append)
  next
    case False
    then have "buf_bit p (i + length a + (j - length a)) = b ! (j - length a)"
      using r that unfolding reads_def by (metis add_diff_inverse_nat length_append nat_add_left_cancel_less)
    then show ?thesis using False by (simp add: nth_append)
  qed
  then show "reads p i (a @ b)" using r by (simp add: reads_def)
qed

lemma drop_and_one: "drop_bit k (x :: u8) AND 1 = (if bit x k then 1 else 0)"
  by (rule bit_word_eqI) (auto simp: bit_simps intro: gr0I)

lemma get_bit_buf:
  assumes "i < 8 * length p"
  shows "codec_zero_get_bit p i = (if buf_bit p i then 1 else 0)"
proof -
  have "i div 8 < length p" using assms by simp
  then show ?thesis
    by (simp add: codec_zero_get_bit_def buf_bit_def drop_and_one)
qed

lemma zero_count_run:
  assumes "\<And>j. j < k \<Longrightarrow> codec_zero_get_bit p (i + j) = v" "i + k \<le> t"
    "i + k = t \<or> codec_zero_get_bit p (i + k) \<noteq> v"
  shows "zero_count p t v i n = (i + k, n + of_nat k)"
  using assms
proof (induction k arbitrary: i n)
  case 0
  then show ?case by (subst zero_count.simps) auto
next
  case (Suc k)
  have "codec_zero_get_bit p i = v" using Suc.prems(1) [of 0] by simp
  moreover have "zero_count p t v (i + 1) (n + 1) = (i + 1 + k, n + 1 + of_nat k)"
    using Suc.prems(1) [of "Suc _"] Suc.prems(2,3) by (intro Suc.IH) auto
  ultimately show ?case using Suc.prems(2) by (subst zero_count.simps) (simp add: add.assoc)
qed

lemma zero_dec_padding:
  assumes "reads p i (replicate k True)" "i + k = 8 * length p"
  shows "zero_dec_loop p cap lim i pending out = Inr (pending, out)"
proof (cases "k = 0")
  case True
  then show ?thesis using assms(2) by (subst zero_dec_loop.simps) (simp add: Let_def)
next
  case False
  have "codec_zero_get_bit p (i + j) = 1" if "j < k" for j
    using assms that by (simp add: get_bit_buf reads_def)
  then have "zero_count p (8 * length p) 1 i 0 = (i + k, 0 + of_nat k)"
    using assms(2) by (intro zero_count_run) auto
  then show ?thesis
    using assms(2) False by (subst zero_dec_loop.simps) (simp add: Let_def mult.commute)
qed

lemma zero_dec_nibble:
  assumes r: "reads p i (nibble_bits nib)" and nib: "is_nibble nib"
  shows "zero_dec_loop p cap lim i pending out =
     (case pending of
        None \<Rightarrow> zero_dec_loop p cap lim (i + length (nibble_bits nib)) (Some nib) out
      | Some pending_high \<Rightarrow>
          if length out \<ge> cap then Inl out
          else if length out + 1 \<ge> lim then Inl out
          else zero_dec_loop p cap lim (i + length (nibble_bits nib)) None (out @ [push_bit 4 pending_high OR nib]))"
proof -
  let ?s = "unat (drop_bit 2 nib)" and ?o = "unat (nib AND 3)" and ?t = "8 * length p"
  have bounds: "?s \<le> 3" "?o \<le> 3" "push_bit 2 (of_nat ?s) OR (of_nat (?o + 1) - 1) = nib"
    using nib by (simp_all add: is_nibble_def)
  have parts: "reads p i (replicate ?s True)" "reads p (i + ?s) (replicate (?o + 1) False)"
    "reads p (i + ?s + (?o + 1)) [True]"
    using r unfolding nibble_bits_def reads_append length_replicate by simp_all
  have t: "i + ?s + ?o + 1 < ?t" using parts(3) by (simp add: reads_def)
  have ones: "codec_zero_get_bit p (i + j) = 1" if "j < ?s" for j
    using parts(1) t that by (simp add: get_bit_buf reads_def)
  have zeros: "codec_zero_get_bit p (i + ?s + j) = 0" if "j < ?o + 1" for j
    using parts(2) t that by (simp add: get_bit_buf reads_def del: replicate.simps)
  have stop: "codec_zero_get_bit p (i + ?s + (?o + 1)) = 1"
    using parts(3) t by (simp add: get_bit_buf reads_def)
  have c1: "zero_count p ?t 1 i 0 = (i + ?s, 0 + of_nat ?s)"
    using ones zeros [of 0] t by (intro zero_count_run) auto
  have c2: "zero_count p ?t 0 (i + ?s) 0 = (i + ?s + (?o + 1), 0 + of_nat (?o + 1))"
    using zeros stop t by (intro zero_count_run) auto
  have s3: "\<not> (of_nat ?s :: u8) > 3" using bounds(1) by (simp add: word_less_nat_alt)
  have o4: "(of_nat (?o + 1) :: u8) \<noteq> 0" "\<not> (of_nat (?o + 1) :: u8) > 4"
    using bounds(2) unat_of_nat_u8 [of "?o + 1"] by (auto simp: word_less_nat_alt simp del: of_nat_add)
  have len: "i + ?s + (?o + 1) + 1 = i + length (nibble_bits nib)" by (simp add: nibble_bits_def)
  show ?thesis
    using t s3 o4 bounds(3) c1 c2 unfolding len [symmetric]
    by (subst zero_dec_loop.simps) (simp add: Let_def mult.commute [of _ 8] del: of_nat_add of_nat_Suc split: option.split)
qed

lemma zero_dec_block:
  "reads p i (block_bits xs @ replicate k True) \<Longrightarrow> i + length (block_bits xs) + k = 8 * length p \<Longrightarrow>
     length out + length xs \<le> cap \<Longrightarrow> length out + length xs < lim \<Longrightarrow>
     zero_dec_loop p cap lim i None out = Inr (None, out @ xs)"
proof (induction xs arbitrary: i out)
  case Nil
  then show ?case using zero_dec_padding [of p i k] by (simp add: block_bits_def)
next
  case (Cons x xs)
  let ?h = "nibble_bits (drop_bit 4 x)" and ?l = "nibble_bits (x AND 0x0F)"
  have bb: "block_bits (x # xs) = ?h @ ?l @ block_bits xs"
    by (simp add: block_bits_def byte_bits_def)
  have r: "reads p i ?h" "reads p (i + length ?h) ?l"
    "reads p (i + length ?h + length ?l) (block_bits xs @ replicate k True)"
    using Cons.prems(1) unfolding bb by (simp_all add: reads_append add.assoc)
  have "zero_dec_loop p cap lim (i + length ?h + length ?l) None (out @ [x]) = Inr (None, (out @ [x]) @ xs)"
    using Cons.prems(2-4) r(3) unfolding bb by (intro Cons.IH) auto
  then show ?case
    using zero_dec_nibble [OF r(1) halves(1), of cap lim None out]
      zero_dec_nibble [OF r(2) halves(2), of cap lim "Some (drop_bit 4 x)" out] Cons.prems(3,4)
    by (simp add: halves(3))
qed

lemma zero_dec_written:
  "length out \<le> cap \<Longrightarrow>
     (case zero_dec_loop inp cap lim i pending out of
        Inl w \<Rightarrow> length w \<le> cap
      | Inr (q, w) \<Rightarrow> length w \<le> cap)"
proof (induction inp cap lim i pending out rule: zero_dec_loop.induct)
  case (1 inp cap lim i pending out)
  show ?case
  proof (cases "zero_count inp (length inp * 8) 1 i 0")
    case (Pair i1 s)
    note one = Pair
    show ?thesis
    proof (cases "zero_count inp (length inp * 8) 0 i1 0")
      case (Pair i2 c)
      then show ?thesis
        using 1 one by (subst zero_dec_loop.simps) (auto simp: Let_def split: option.split)
    qed
  qed
qed

section \<open>The codec contract\<close>

lemma zero_round_trip:
  assumes e: "io_ret (codec_zero_encode (Some xs) (Some cap) b lim) = 1"
    and fits: "length xs \<le> cap'" "length xs < lim'"
  shows "codec_zero_decode (Some (io_payload (codec_zero_encode (Some xs) (Some cap) b lim))) (Some cap') True lim'
    = codec_ok (length xs) xs"
proof -
  have g: "b" "xs \<noteq> []" "0 < lim" "0 < cap"
    using e unfolding codec_zero_encode_def codec_guard_success by auto
  obtain p where p: "codec_zero_encode (Some xs) (Some cap) True lim = codec_ok (zero_size xs) p"
    "holds p (zero_padded xs)" "zero_size xs \<le> length p"
    using zero_encode_run [OF g(3,4,2)] e g(1) by (auto simp: codec_io_defs split: if_splits)
  let ?ys = "take (zero_size xs) p"
  have ys: "io_payload (codec_zero_encode (Some xs) (Some cap) b lim) = ?ys" "length ?ys = zero_size xs"
    using p g(1) by (simp_all add: codec_ok_def io_payload_def)
  have "holds ?ys (zero_padded xs)" using p(2) by (rule holds_take) simp
  then have "reads ?ys 0 (zero_padded xs)" using ys(2) by (simp add: reads_def holds_def)
  then have "zero_dec_loop ?ys cap' lim' 0 None [] = Inr (None, [] @ xs)"
    using fits ys(2) block_bits_le [of xs] unfolding zero_padded_def by (intro zero_dec_block) auto
  then have "zero_dec_run ?ys cap' lim' = Inr xs" by (simp add: zero_dec_run_def)
  moreover have "?ys \<noteq> []" using ys(2) zero_size_pos [OF g(2)] by auto
  moreover have "0 < cap'" using fits(1) g(2) by (cases xs) auto
  ultimately show ?thesis
    using fits g(2) unfolding ys(1) codec_zero_decode_def by (intro codec_call_run) auto
qed

lemma zero_encode_success:
  assumes "io_ret (codec_zero_encode i (Some cap) b lim) = 1"
  shows "\<exists>xs p. i = Some xs \<and> xs \<noteq> [] \<and> zero_size xs \<le> cap \<and> zero_size xs < lim \<and> zero_size xs \<le> length p
     \<and> codec_zero_encode i (Some cap) b lim = codec_ok (zero_size xs) p"
proof -
  obtain xs where g: "i = Some xs" "b" "xs \<noteq> []" "0 < lim" "0 < cap"
    using assms unfolding codec_zero_encode_def codec_guard_success by auto
  show ?thesis
    using zero_encode_run [OF g(4,5,3)] assms g by (auto simp: codec_io_defs split: if_splits)
qed

lemma zero_encode_store:
  assumes "lim \<le> cap"
  shows "length (io_buf (codec_zero_encode i (Some cap) b lim)) \<le> cap"
proof (cases "\<exists>xs. i = Some xs \<and> b \<and> xs \<noteq> [] \<and> 0 < lim \<and> 0 < cap")
  case True
  then obtain xs where g: "i = Some xs" "b" "xs \<noteq> []" "0 < lim" "0 < cap" by blast
  show ?thesis
    using zero_encode_run [OF g(4,5,3)] assms g
    by (cases "zero_size xs < lim") (auto simp: codec_io_defs)
next
  case False
  then show ?thesis by (auto simp: codec_zero_encode_def codec_guard_def codec_fail_def split: option.splits)
qed

interpretation zero_codec: block_codec codec_zero_encode codec_zero_decode
proof
  fix i l b lim cap lim' cap' and xs :: "u8 list"
  show "io_ret (codec_zero_encode i l b lim) \<noteq> 1 \<Longrightarrow>
      io_ret (codec_zero_encode i l b lim) = 0 \<and> io_len (codec_zero_encode i l b lim) = map_option (\<lambda>_. 0) l"
    unfolding codec_zero_encode_def
    by (rule codec_guard_cases) (auto simp: codec_io_defs Let_def split: sum.splits prod.splits if_splits)
  show "io_ret (codec_zero_encode i (Some cap) b lim) = 1 \<Longrightarrow>
      \<exists>n. io_len (codec_zero_encode i (Some cap) b lim) = Some n \<and> 0 < n \<and> n \<le> cap \<and> n < lim
        \<and> n \<le> length (io_buf (codec_zero_encode i (Some cap) b lim))"
    by (drule zero_encode_success) (auto simp: codec_ok_def zero_size_pos)
  show "lim \<le> cap \<Longrightarrow> length (io_buf (codec_zero_encode i (Some cap) b lim)) \<le> cap"
    by (rule zero_encode_store)
  show "io_ret (codec_zero_decode i l b lim) \<noteq> 1 \<Longrightarrow>
      io_ret (codec_zero_decode i l b lim) = 0 \<and> io_len (codec_zero_decode i l b lim) = map_option (\<lambda>_. 0) l"
    unfolding codec_zero_decode_def by (rule codec_call_cases)
  have w: "length (written (zero_dec_run inp cap lim)) \<le> cap" for inp
    using zero_dec_written [of "[]" cap inp lim 0 None]
    by (auto simp: zero_dec_run_def written_def split: sum.splits prod.splits)
  show "io_ret (codec_zero_decode i (Some cap) b lim) = 1 \<Longrightarrow>
      \<exists>n. io_len (codec_zero_decode i (Some cap) b lim) = Some n \<and> 0 < n \<and> n \<le> cap \<and> n < lim
        \<and> n \<le> length (io_buf (codec_zero_decode i (Some cap) b lim))"
    unfolding codec_zero_decode_def by (rule codec_call_bounds [where run = zero_dec_run and cap = cap and lim = lim, OF w])
  show "length (io_buf (codec_zero_decode i (Some cap) b lim)) \<le> cap"
    unfolding codec_zero_decode_def by (rule codec_call_store [where run = zero_dec_run and cap = cap and lim = lim, OF w])
  show "io_ret (codec_zero_encode (Some xs) (Some cap) b lim) = 1 \<Longrightarrow> length xs \<le> cap' \<Longrightarrow> length xs < lim' \<Longrightarrow>
      (let d = codec_zero_decode (Some (io_payload (codec_zero_encode (Some xs) (Some cap) b lim))) (Some cap') True lim'
       in io_ret d = 1 \<and> io_len d = Some (length xs) \<and> io_payload d = xs)"
    using zero_round_trip [of xs cap b lim cap' lim'] by (simp add: codec_ok_def io_payload_def)
qed

section \<open>Properties\<close>

text \<open>
  C32: whatever codec_zero_encode accepted, codec_zero_decode turns back into the input; the
  padding ones of the last byte are never read as data.
\<close>

theorem codec_zero_round_trip:
  assumes "io_ret (codec_zero_encode (Some xs) (Some cap) b lim) = 1"
    and "length xs \<le> cap'" "length xs < lim'"
  shows "codec_zero_decode (Some (io_payload (codec_zero_encode (Some xs) (Some cap) b lim))) (Some cap') True lim'
    = codec_ok (length xs) xs"
  using assms by (rule zero_round_trip)

lemma zero_encode_sample:
  "io_ret (codec_zero_encode (Some [0, 0x10, 0x25]) (Some 8) True 8) = 1"
  by code_simp

theorem codec_zero_round_trip_witness:
  "codec_zero_decode (Some (io_payload (codec_zero_encode (Some [0, 0x10, 0x25]) (Some 8) True 8))) (Some 3) True 4
    = codec_ok 3 [0, 0x10, 0x25]"
  using codec_zero_round_trip [OF zero_encode_sample, of 3 4] by (simp add: eval_nat_numeral)

text \<open>
  C33: codec_zero_encode refines its bit-level description: it succeeds exactly when the codes
  of all nibbles, high nibble first and each \<open>1^k 0^(m+1) 1\<close>, fit the capacity and
  stay below the limit; the stored bytes then hold exactly those bits, MSB first, and ones up
  to the byte boundary.
\<close>

theorem codec_zero_encode_bits:
  assumes "xs \<noteq> []" "0 < cap" "0 < lim"
  shows "(if zero_size xs \<le> cap \<and> zero_size xs < lim
     then \<exists>p. codec_zero_encode (Some xs) (Some cap) True lim = codec_ok (zero_size xs) p
            \<and> (\<forall>i. i < 8 * zero_size xs \<longrightarrow>
                 buf_bit p i = (block_bits xs @ replicate 7 True) ! i)
     else io_ret (codec_zero_encode (Some xs) (Some cap) True lim) = 0)"
proof (cases "zero_size xs < lim")
  case False
  then show ?thesis using zero_encode_run [OF assms(3,2,1)] by (auto simp: codec_fail_def)
next
  case True
  obtain p where p: "codec_zero_encode (Some xs) (Some cap) True lim =
            (if zero_size xs \<le> cap then codec_ok (zero_size xs) p else codec_fail p)"
    "holds p (zero_padded xs)"
    using zero_encode_run [OF assms(3,2,1)] True by auto
  have "8 * zero_size xs < length (block_bits xs) + 8"
    unfolding zero_size_def bytes_of_def by presburger
  then have "zero_padded xs ! i = (block_bits xs @ replicate 7 True) ! i" if "i < 8 * zero_size xs" for i
    using that by (auto simp: zero_padded_def nth_append)
  then have "buf_bit p i = (block_bits xs @ replicate 7 True) ! i" if "i < 8 * zero_size xs" for i
    using p(2) that by (simp add: holds_def)
  then show ?thesis using p(1) True by (auto simp: codec_fail_def)
qed

theorem codec_zero_encode_bits_witness:
  "io_ret (codec_zero_encode (Some [0xFF]) (Some 1) True 4) = 0"
proof -
  have "zero_size [0xFF] = 2" by code_simp
  then show ?thesis using codec_zero_encode_bits [of "[0xFF]" 1 4] by simp
qed

text \<open>
  The capacity is only tested after the last nibble: with a capacity below the limit the
  encoder stores past the caller's buffer before it reports the failure.
\<close>

theorem codec_zero_encode_overrun:
  "length (io_buf (codec_zero_encode (Some [0xFF, 0xFF, 0xFF]) (Some 1) True 16)) = 6
   \<and> io_ret (codec_zero_encode (Some [0xFF, 0xFF, 0xFF]) (Some 1) True 16) = 0"
  by code_simp

text \<open>
  The run counters of the decoder are 8 bits wide: a prefix of 256 ones counts as none, so a
  block that no encoder produces decodes to a byte.
\<close>

theorem codec_zero_decode_wraps:
  "codec_zero_decode (Some (replicate 32 0xFF @ [0x5F])) (Some 4) True 5 = codec_ok 1 [0]"
  by code_simp

end
