(* ===== verification/Record_Dict.thy ===== *)
theory Record_Dict
  imports Prelude
begin

text \<open>
  code/lib/record_dict.c: the dictionary version and the id allocator, the type filter and the
  two walks over an application-owned linked list.  The list is reached through the caller's
  \<open>next_get\<close> and \<open>type_get\<close> callbacks, so a walk over a cyclic
  list does not return: \<open>None\<close> of the partial functions.
\<close>

section \<open>Ids\<close>

record record_dict =
  rd_version :: u32
  rd_next_id :: u16

definition record_dict_init :: "u32 \<Rightarrow> record_dict" where
  "record_dict_init version = \<lparr>rd_version = version, rd_next_id = 1\<rparr>"

text \<open>A NULL dictionary gives id 0.\<close>

definition record_dict_alloc_id :: "record_dict option \<Rightarrow> u16 \<times> record_dict option" where
  "record_dict_alloc_id dict =
     (case dict of
        None \<Rightarrow> (0, None)
      | Some d \<Rightarrow>
          (let i = rd_next_id d
           in (i, Some (if rd_next_id d \<noteq> 0 \<and> rd_next_id d \<noteq> 0xFFFF
                        then d\<lparr>rd_next_id := rd_next_id d + 1\<rparr> else d))))"

section \<open>Filters and walks\<close>

definition record_dict_filter_is_valid :: "u8 \<Rightarrow> u8 \<Rightarrow> bool" where
  "record_dict_filter_is_valid type_filter type_max \<longleftrightarrow> type_filter \<le> type_max"

definition record_dict_match :: "u8 \<Rightarrow> u8 \<Rightarrow> u8 \<Rightarrow> bool" where
  "record_dict_match record_type type_filter type_all =
     (if type_filter = type_all then True else record_type = type_filter)"

partial_function (option) count_walk ::
  "('r \<Rightarrow> bool) \<Rightarrow> ('r \<Rightarrow> 'r option) \<Rightarrow> 'r option \<Rightarrow> u16 \<Rightarrow> u16 option" where
  "count_walk matches next_get p count =
     (case p of
        None \<Rightarrow> Some count
      | Some r \<Rightarrow>
          count_walk matches next_get (next_get r)
            (if matches r \<and> count \<noteq> 0xFFFF then count + 1 else count))"

definition record_dict_count ::
  "'r option \<Rightarrow> u8 \<Rightarrow> u8 \<Rightarrow> ('r \<Rightarrow> 'r option) option \<Rightarrow> ('r \<Rightarrow> u8) option \<Rightarrow> u16 option" where
  "record_dict_count first type_filter type_all next_get type_get =
     (case (next_get, type_get) of
        (Some nxt, Some ty) \<Rightarrow> count_walk (\<lambda>r. record_dict_match (ty r) type_filter type_all) nxt first 0
      | _ \<Rightarrow> Some 0)"

partial_function (option) find_walk ::
  "('r \<Rightarrow> bool) \<Rightarrow> ('r \<Rightarrow> 'r option) \<Rightarrow> 'r option \<Rightarrow> 'r option option" where
  "find_walk matches next_get p =
     (case p of
        None \<Rightarrow> Some None
      | Some r \<Rightarrow> if matches r then Some (Some r) else find_walk matches next_get (next_get r))"

definition record_dict_find_next ::
  "'r option \<Rightarrow> u8 \<Rightarrow> u8 \<Rightarrow> ('r \<Rightarrow> 'r option) option \<Rightarrow> ('r \<Rightarrow> u8) option \<Rightarrow> 'r option option" where
  "record_dict_find_next p type_filter type_all next_get type_get =
     (case (next_get, type_get) of
        (Some nxt, Some ty) \<Rightarrow> find_walk (\<lambda>r. record_dict_match (ty r) type_filter type_all) nxt p
      | _ \<Rightarrow> Some None)"

section \<open>The list a walk visits\<close>

definition sat16 :: "nat \<Rightarrow> u16" where
  "sat16 n = of_nat (min 65535 n)"

lemma sat16_Suc: "(if sat16 n \<noteq> 0xFFFF then sat16 n + 1 else sat16 n) = sat16 (Suc n)"
proof (cases "n < 65535")
  case True
  then have "sat16 n = of_nat n" "sat16 (Suc n) = of_nat (Suc n)" by (simp_all add: sat16_def)
  moreover have "unat (of_nat n :: u16) = n" using True by (simp add: unat_of_nat)
  then have "(of_nat n :: u16) \<noteq> 0xFFFF" using True by auto
  ultimately show ?thesis by simp
next
  case False
  then show ?thesis by (simp add: sat16_def)
qed

lemma count_walk_chain:
  "chain nxt p rs \<Longrightarrow>
     count_walk matches nxt p (sat16 n) = Some (sat16 (n + length (filter matches rs)))"
proof (induction rs arbitrary: p n)
  case Nil
  then show ?case by (subst count_walk.simps) simp
next
  case (Cons r rs)
  have "(if matches r \<and> sat16 n \<noteq> 0xFFFF then sat16 n + 1 else sat16 n)
      = sat16 (if matches r then Suc n else n)"
    using sat16_Suc [of n] by auto
  then show ?case
    using Cons by (subst count_walk.simps) (simp split del: if_split split: if_splits)
qed

lemma find_walk_chain:
  "chain nxt p rs \<Longrightarrow> find_walk matches nxt p = Some (List.find matches rs)"
proof (induction rs arbitrary: p)
  case Nil
  then show ?case by (subst find_walk.simps) simp
next
  case (Cons r rs)
  then show ?case by (subst find_walk.simps) simp
qed

lemma find_split:
  "List.find P rs = Some r \<Longrightarrow> \<exists>us vs. rs = us @ r # vs \<and> filter P us = [] \<and> P r"
proof (induction rs)
  case (Cons x xs)
  show ?case
  proof (cases "P x")
    case True
    then show ?thesis using Cons.prems by (intro exI [of _ "[]"] exI [of _ xs]) simp
  next
    case False
    then obtain us vs where "xs = us @ r # vs" "filter P us = []" "P r" using Cons by auto
    then show ?thesis using False by (intro exI [of _ "x # us"] exI [of _ vs]) simp
  qed
qed simp

lemma chain_suffix: "chain nxt p (us @ r # vs) \<Longrightarrow> chain nxt (nxt r) vs"
  by (induction us arbitrary: p) auto

section \<open>Enumeration\<close>

text \<open>
  How record owners enumerate: start at the head, ask for the next match, go on after it.
  \<open>n\<close> bounds the number of records reported.
\<close>

fun enumerate_records ::
  "('r \<Rightarrow> u8) \<Rightarrow> ('r \<Rightarrow> 'r option) \<Rightarrow> u8 \<Rightarrow> u8 \<Rightarrow> nat \<Rightarrow> 'r option \<Rightarrow> 'r list option" where
  "enumerate_records ty nxt filt all 0 p = Some []"
| "enumerate_records ty nxt filt all (Suc n) p =
     (case record_dict_find_next p filt all (Some nxt) (Some ty) of
        None \<Rightarrow> None
      | Some None \<Rightarrow> Some []
      | Some (Some r) \<Rightarrow> map_option (Cons r) (enumerate_records ty nxt filt all n (nxt r)))"

lemma enumerate_chain:
  "chain nxt p rs \<Longrightarrow> length rs \<le> n \<Longrightarrow>
     enumerate_records ty nxt filt all n p = Some (filter (\<lambda>r. record_dict_match (ty r) filt all) rs)"
proof (induction n arbitrary: p rs)
  case 0
  then show ?case by simp
next
  case (Suc n)
  let ?m = "\<lambda>r. record_dict_match (ty r) filt all"
  have f: "record_dict_find_next p filt all (Some nxt) (Some ty) = Some (List.find ?m rs)"
    using Suc.prems(1) by (simp add: record_dict_find_next_def find_walk_chain)
  show ?case
  proof (cases "List.find ?m rs")
    case None
    then have "filter ?m rs = []" by (simp add: find_None_iff filter_empty_conv)
    then show ?thesis using f None by simp
  next
    case (Some r)
    obtain us vs where s: "rs = us @ r # vs" "filter ?m us = []" "?m r"
      using find_split [OF Some] by blast
    then have "enumerate_records ty nxt filt all n (nxt r) = Some (filter ?m vs)"
      using Suc.prems chain_suffix by (intro Suc.IH) auto
    then show ?thesis using f Some s by simp
  qed
qed

lemma alloc_funpow:
  "((\<lambda>d. snd (record_dict_alloc_id d)) ^^ k) (Some (record_dict_init v)) =
     Some \<lparr>rd_version = v, rd_next_id = sat16 (Suc k)\<rparr>"
proof (induction k)
  case 0
  then show ?case by (simp add: record_dict_init_def sat16_def)
next
  case (Suc k)
  have "sat16 (Suc k) \<noteq> 0"
  proof -
    have "unat (sat16 (Suc k)) = min 65535 (Suc k)"
      unfolding sat16_def by (simp only: unat_of_nat) simp
    then show ?thesis by (metis min_def nat.distinct(1) unsigned_0 zero_neq_numeral)
  qed
  then show ?case using Suc sat16_Suc [of "Suc k"]
    by (cases "sat16 (Suc k) = 0xFFFF") (auto simp: record_dict_alloc_id_def Let_def)
qed

section \<open>Properties\<close>

text \<open>
  On a record list that ends, record_dict_count returns the number of records that match
  the filter (saturated at 65535), and the find-next enumeration reports exactly the matching
  records, each once and in list order.
\<close>

theorem record_dict_walks:
  assumes "chain nxt p rs"
  shows "record_dict_count p filt all (Some nxt) (Some ty) =
      Some (sat16 (length (filter (\<lambda>r. record_dict_match (ty r) filt all) rs)))
    \<and> enumerate_records ty nxt filt all (length rs) p =
      Some (filter (\<lambda>r. record_dict_match (ty r) filt all) rs)"
  using count_walk_chain [OF assms, of _ 0] enumerate_chain [OF assms order_refl]
  by (simp add: record_dict_count_def sat16_def)

theorem record_dict_walks_witness:
  "record_dict_count (Some (0 :: nat)) 2 255 (Some (\<lambda>r. if r < 3 then Some (r + 1) else None))
     (Some (\<lambda>r. if r = 1 then 7 else 2)) = Some 3"
proof -
  let ?n = "\<lambda>r :: nat. if r < 3 then Some (r + 1) else None"
  have "chain ?n (Some 0) [0, 1, 2, 3]" by simp
  from record_dict_walks [OF this, of 2 255 "\<lambda>r. if r = 1 then 7 else 2"]
  show ?thesis by (simp add: record_dict_match_def sat16_def)
qed

text \<open>
  The allocator hands out the ids 1, 2, 3, ... in order, never the reserved id 0, up to
  65535; from then on it returns 65535 again and again.
\<close>

theorem record_dict_alloc_ids:
  "fst (record_dict_alloc_id (((\<lambda>d. snd (record_dict_alloc_id d)) ^^ k) (Some (record_dict_init v))))
     = of_nat (if k < 65535 then k + 1 else 65535)"
proof -
  have "sat16 (Suc k) = of_nat (if k < 65535 then k + 1 else 65535)"
  proof -
    have "min 65535 (Suc k) = (if k < 65535 then k + 1 else 65535)" by auto
    then show ?thesis unfolding sat16_def by (simp only:)
  qed
  then show ?thesis unfolding alloc_funpow by (simp add: record_dict_alloc_id_def Let_def)
qed

end
