(* ===== verification/Comm_Base.thy ===== *)
theory Comm_Base
  imports Flash_Integrity
begin

text \<open>
  The data both communication protocols share (code/data_source/comm/comm.h and the link types
  of section.h): the decoded frame, the registered commands and routes, the links, and the
  effects a parser or sender has outside its own state.
\<close>

section \<open>Frames\<close>

text \<open>
  What \<open>p_data\<close> of a frame points to: nothing, the receive buffer or the
  decompression buffer of the parser that filled the frame in, or bytes of a caller.  A frame
  handed to a callback or to a sender carries \<open>Bytes\<close>: what the pointer reads at
  that moment.
\<close>

datatype data_ptr = Null_Ptr | Data_Buffer | Candidate_Buffer | Bytes "u8 list"

record packform =
  pk_sop :: u8
  pk_version :: u8
  pk_src :: u8
  pk_d_src :: u8
  pk_dst :: u8
  pk_d_dst :: u8
  pk_cmd_set :: u8
  pk_cmd_word :: u8
  pk_is_ack :: u8
  pk_len :: nat
  pk_data :: data_ptr
  pk_crc :: u16
  pk_eop :: u16
  pk_seq :: u8

text \<open>The zero-initialised frame of \<open>DECLARE_COMM_CTX\<close>.\<close>

definition empty_pack :: packform where
  "empty_pack = \<lparr>pk_sop = 0, pk_version = 0, pk_src = 0, pk_d_src = 0, pk_dst = 0, pk_d_dst = 0,
     pk_cmd_set = 0, pk_cmd_word = 0, pk_is_ack = 0, pk_len = 0, pk_data = Null_Ptr, pk_crc = 0,
     pk_eop = 0, pk_seq = 0\<rparr>"

text \<open>The payload a reader of the frame sees.\<close>

definition pk_payload :: "packform \<Rightarrow> u8 list" where
  "pk_payload p = (case pk_data p of Bytes b \<Rightarrow> take (pk_len p) b | _ \<Rightarrow> [])"

section \<open>Links, commands and routes\<close>

text \<open>
  \<open>section_link_tx_func_t\<close>: the DMA callback, named by a number; \<open>None\<close>
  is NULL.  \<open>my_printf\<close> itself may be NULL, so a sender gets a
  \<open>my_printf option\<close>.
\<close>

record my_printf =
  tx_by_dma :: "nat option"

record section_com =
  com_cmd_set :: u8
  com_cmd_word :: u8
  com_func :: "nat option"

record comm_route =
  rt_src_link_id :: u8
  rt_dst_link_id :: u8
  rt_dst_addr :: u8

record section_link =
  lk_printf :: "my_printf option"
  lk_link_id :: u8

section \<open>Effects\<close>

text \<open>
  A registered callback called with a frame and the link's output, and bytes given to a DMA
  callback, in the order in which the code does them.
\<close>

datatype event = Dispatch nat packform "my_printf option" | Transmit nat "u8 list"

text \<open>\<open>if (my_printf && my_printf->tx_by_dma) my_printf->tx_by_dma(bytes)\<close>.\<close>

definition transmit :: "my_printf option \<Rightarrow> u8 list \<Rightarrow> event list" where
  "transmit p bs =
     (case p of
        None \<Rightarrow> []
      | Some m \<Rightarrow> (case tx_by_dma m of None \<Rightarrow> [] | Some k \<Rightarrow> [Transmit k bs]))"

section \<open>First match in a registration list\<close>

text \<open>
  \<open>find_link_by_id\<close>, \<open>comm_v1_find_link_by_id\<close>: the first link with the id.
\<close>

definition find_link_by_id :: "section_link list \<Rightarrow> u8 \<Rightarrow> section_link option" where
  "find_link_by_id links link_id = List.find (\<lambda>l. lk_link_id l = link_id) links"

text \<open>The first route for the source link and destination address.\<close>

definition find_route :: "comm_route list \<Rightarrow> u8 \<Rightarrow> u8 \<Rightarrow> comm_route option" where
  "find_route routes link_id dst_addr =
     List.find (\<lambda>r. rt_src_link_id r = link_id \<and> rt_dst_addr r = dst_addr) routes"

text \<open>What the parsers read but never change: the registered routes and links.\<close>

record comm_env =
  env_routes :: "comm_route list"
  env_links :: "section_link list"

end
