(* ===== verification/Byte_Sum.thy ===== *)
theory Byte_Sum
  imports Main
begin

text \<open>
  The contract of a running check sum over bytes: one step is injective in the state for every byte
  and injective in the byte for every state.  It is all that the detection of a damaged byte needs;
  the CRC-16 of the frames and the rotating sum of the retained upgrade request are instances.
\<close>

locale detecting_sum =
  fixes step :: "'s \<Rightarrow> 'b \<Rightarrow> 's"
  assumes state_inject: "step c b = step d b \<Longrightarrow> c = d"
    and byte_inject: "step c a = step c b \<Longrightarrow> a = b"
begin

lemma block_inject: "foldl step c xs = foldl step d xs \<Longrightarrow> c = d"
  by (induction xs arbitrary: c d) (auto dest: state_inject)

lemma one_byte:
  assumes "i < length xs" "b \<noteq> xs ! i"
  shows "foldl step c (xs[i := b]) \<noteq> foldl step c xs"
proof
  assume e: "foldl step c (xs[i := b]) = foldl step c xs"
  let ?c = "foldl step c (take i xs)"
  have "xs = take i xs @ xs ! i # drop (Suc i) xs" "xs[i := b] = take i xs @ b # drop (Suc i) xs"
    using assms(1) by (simp_all add: id_take_nth_drop upd_conv_take_nth_drop)
  then have "foldl step (step ?c b) (drop (Suc i) xs) = foldl step (step ?c (xs ! i)) (drop (Suc i) xs)"
    using e by (metis foldl_Cons foldl_append)
  then show False using block_inject byte_inject assms(2) by blast
qed

end

end
