(* ===== verification/Comm_Crc.thy ===== *)
theory Comm_Crc
  imports Prelude Byte_Sum
begin

text \<open>
  The CRC-16/CCITT of comm.c: the lookup table as \<open>crc16_init_table\<close> fills it, the
  update by table, and its equality with the shift register it stands for.
\<close>

section \<open>The table\<close>

text \<open>One pass of the inner loop over \<open>(crc, c)\<close>.\<close>

definition crc16_table_step :: "u16 \<times> u16 \<Rightarrow> u16 \<times> u16" where
  "crc16_table_step s =
     (case s of (crc, c) \<Rightarrow>
        (if (crc XOR c) AND 0x8000 \<noteq> 0 then push_bit 1 crc XOR 0x1021 else push_bit 1 crc, push_bit 1 c))"

definition crc16_table :: "u16 list" where
  "crc16_table = map (\<lambda>i. fst ((crc16_table_step ^^ 8) (0, push_bit 8 (of_nat i)))) [0..<256]"

text \<open>\<open>crc16_init_table\<close>: fills the table once, guarded by the ready flag.\<close>

definition crc16_init_table :: "bool \<times> u16 list \<Rightarrow> bool \<times> u16 list" where
  "crc16_init_table s = (case s of (ready, table) \<Rightarrow> if ready then (ready, table) else (True, crc16_table))"

section \<open>The running CRC\<close>

definition crc16_init :: u16 where
  "crc16_init = 0xFFFF"

definition crc16_update :: "u16 \<Rightarrow> u8 \<Rightarrow> u16" where
  "crc16_update crc data =
     (let table_index = ucast (drop_bit 8 crc XOR ucast data) :: u8
      in push_bit 8 crc XOR crc16_table ! unat table_index)"

definition crc16_final :: "u16 \<Rightarrow> u16" where
  "crc16_final crc = crc"

definition crc16_update_block :: "u16 \<Rightarrow> u8 list \<Rightarrow> u16" where
  "crc16_update_block crc p_data = foldl crc16_update crc p_data"

definition section_crc16 :: "u8 list \<Rightarrow> u16" where
  "section_crc16 p_data = crc16_final (foldl crc16_update crc16_init p_data)"

definition section_crc16_with_crc :: "u8 list \<Rightarrow> u16 \<Rightarrow> u16" where
  "section_crc16_with_crc p_data crc_in = foldl crc16_update crc_in p_data"

section \<open>The shift register\<close>

text \<open>One bit of CRC-16/CCITT: polynomial \<open>x^16 + x^12 + x^5 + 1\<close>, most significant bit first.\<close>

definition crc16_bit :: "u16 \<Rightarrow> u16" where
  "crc16_bit x = (if bit x 15 then push_bit 1 x XOR 0x1021 else push_bit 1 x)"

definition crc16_byte :: "u16 \<Rightarrow> u8 \<Rightarrow> u16" where
  "crc16_byte crc b = (crc16_bit ^^ 8) (crc XOR push_bit 8 (ucast b))"

lemma crc16_bit_xor: "crc16_bit (x XOR y) = crc16_bit x XOR crc16_bit y"
  by (cases "bit x 15"; cases "bit y 15")
     (auto simp: crc16_bit_def bit_xor_iff push_bit_xor ac_simps intro!: bit_word_eqI simp del: push_bit_of_1)

lemma crc16_bits_xor: "(crc16_bit ^^ n) (x XOR y) = (crc16_bit ^^ n) x XOR (crc16_bit ^^ n) y"
  by (induction n) (simp_all add: crc16_bit_xor)

lemma crc16_table_step_bit:
  "crc16_table_step (crc, c) = (crc', c') \<Longrightarrow> crc' XOR c' = crc16_bit (crc XOR c) \<and> c' = push_bit 1 c"
proof -
  assume a: "crc16_table_step (crc, c) = (crc', c')"
  have "(0x8000 :: u16) = 2 ^ 15" by simp
  then have "(crc XOR c) AND 0x8000 \<noteq> 0 \<longleftrightarrow> bit (crc XOR c) 15"
    by (simp only: and_exp_eq_0_iff_not_bit) simp
  then show ?thesis
    using a by (auto simp: crc16_table_step_def crc16_bit_def push_bit_xor ac_simps)
qed

lemma crc16_table_steps:
  "(crc16_table_step ^^ n) (crc, c) = (crc', c') \<Longrightarrow>
     crc' XOR c' = (crc16_bit ^^ n) (crc XOR c) \<and> c' = push_bit n c"
proof (induction n arbitrary: crc' c')
  case 0
  then show ?case by simp
next
  case (Suc n)
  obtain crc1 c1 where s: "(crc16_table_step ^^ n) (crc, c) = (crc1, c1)" by fastforce
  then have "crc16_table_step (crc1, c1) = (crc', c')" using Suc.prems by simp
  note step = crc16_table_step_bit [OF this] and IH = Suc.IH [OF s]
  have "crc' XOR c' = crc16_bit ((crc16_bit ^^ n) (crc XOR c))" using step IH by argo
  moreover have "c' = push_bit 1 (push_bit n c)" using step IH by argo
  ultimately show ?case by (simp only: push_bit_push_bit funpow.simps comp_apply) simp
qed

lemma crc16_table_nth:
  assumes "i < 256"
  shows "crc16_table ! i = (crc16_bit ^^ 8) (push_bit 8 (of_nat i))"
proof -
  obtain crc' c' where s: "(crc16_table_step ^^ 8) (0, push_bit 8 (of_nat i)) = (crc', c')" by fastforce
  have "push_bit 8 (push_bit 8 x) = (0 :: u16)" for x
    by (rule bit_word_eqI) (simp add: bit_simps)
  moreover have "c' = push_bit 8 (push_bit 8 (of_nat i))" using crc16_table_steps [OF s] by blast
  ultimately have "c' = 0" by metis
  then have "crc' = (crc16_bit ^^ 8) (push_bit 8 (of_nat i))"
    using crc16_table_steps [OF s, THEN conjunct1] by (simp only: xor.right_neutral xor.left_neutral)
  then show ?thesis using assms s by (simp add: crc16_table_def)
qed

text \<open>The low byte is shifted up unchanged: its bits never reach bit 15 within eight steps.\<close>

lemma crc16_bits_low: "n \<le> 8 \<Longrightarrow> (crc16_bit ^^ n) (x AND 0xFF) = push_bit n (x AND 0xFF)"
proof (induction n)
  case (Suc n)
  have "\<not> bit (push_bit n (x AND 0xFF)) 15"
    using Suc.prems by (auto simp: bit_simps mask8)
  moreover have "push_bit (Suc n) (x AND 0xFF) = push_bit 1 (push_bit n (x AND 0xFF))"
    by (simp only: push_bit_push_bit) simp
  ultimately show ?case using Suc by (simp only: funpow.simps comp_apply crc16_bit_def if_False Suc_leD)
qed simp

text \<open>The table-driven update is the shift register.\<close>

lemma crc16_update_bits [code]: "crc16_update crc b = crc16_byte crc b"
proof -
  let ?h = "ucast (drop_bit 8 crc XOR ucast b) :: u8"
  have h: "of_nat (unat ?h) = (ucast ?h :: u16)" by simp
  have split: "crc XOR push_bit 8 (ucast b) = push_bit 8 (ucast ?h) XOR (crc AND 0xFF)"
    by (rule bit_word_eqI) (auto simp: mask8 bit_simps)
  have "push_bit 8 (crc AND 0xFF) = push_bit 8 crc"
    by (rule bit_word_eqI) (auto simp: mask8 bit_simps)
  then have "crc16_byte crc b = (crc16_bit ^^ 8) (push_bit 8 (ucast ?h)) XOR push_bit 8 crc"
    unfolding crc16_byte_def split crc16_bits_xor using crc16_bits_low [of 8 crc] by simp
  moreover have "crc16_table ! unat ?h = (crc16_bit ^^ 8) (push_bit 8 (ucast ?h))"
    using crc16_table_nth [OF unat_u8_less, of ?h] unfolding h .
  ultimately show ?thesis by (simp add: crc16_update_def Let_def xor.commute)
qed

lemma crc16_bit_inj: "crc16_bit x = crc16_bit y \<Longrightarrow> x = y"
proof -
  assume e: "crc16_bit x = crc16_bit y"
  have low: "bit (crc16_bit z) 0 = bit z 15" for z
    by (simp only: crc16_bit_def) (simp only: bit_xor_iff bit_push_bit_iff split: if_split, simp)
  have "bit x 15 = bit y 15" using e low by metis
  then have p: "push_bit 1 x = push_bit 1 y"
    using e unfolding crc16_bit_def by (cases "bit y 15") (simp_all only: xor_cancel_right if_True if_False simp_thms)
  show ?thesis
  proof (rule bit_word_eqI)
    fix n assume n: "n < LENGTH(16)"
    show "bit x n = bit y n"
    proof (cases "n = 15")
      case False
      have "bit (push_bit 1 x) (Suc n) = bit (push_bit 1 y) (Suc n)" by (simp only: p)
      then show ?thesis using n False unfolding bit_push_bit_iff by simp
    qed (use \<open>bit x 15 = bit y 15\<close> in simp)
  qed
qed

lemma crc16_bits_inj: "(crc16_bit ^^ n) x = (crc16_bit ^^ n) y \<Longrightarrow> x = y"
  by (induction n) (auto dest: crc16_bit_inj)

lemma crc16_update_inj_crc: "crc16_update c b = crc16_update c' b \<Longrightarrow> c = c'"
proof -
  assume "crc16_update c b = crc16_update c' b"
  then have "c XOR push_bit 8 (ucast b) = c' XOR push_bit 8 (ucast b)"
    unfolding crc16_update_bits crc16_byte_def by (rule crc16_bits_inj)
  then show "c = c'" by (simp only: xor_cancel_right)
qed

lemma crc16_update_inj_byte: "crc16_update c b = crc16_update c b' \<Longrightarrow> b = b'"
proof -
  assume "crc16_update c b = crc16_update c b'"
  then have "c XOR push_bit 8 (ucast b) = c XOR push_bit 8 (ucast b')"
    unfolding crc16_update_bits crc16_byte_def by (rule crc16_bits_inj)
  then have e: "push_bit 8 (ucast b) = (push_bit 8 (ucast b') :: u16)"
    by (simp only: xor_cancel_left)
  show "b = b'"
  proof (rule bit_word_eqI)
    fix n assume n: "n < LENGTH(8)"
    have "bit (push_bit 8 (ucast b) :: u16) (n + 8) = bit (push_bit 8 (ucast b') :: u16) (n + 8)"
      by (simp only: e)
    then show "bit b n = bit b' n" using n by (simp add: bit_simps)
  qed
qed

lemma crc16_bytes: "foldl crc16_update crc_in p_data = foldl crc16_byte crc_in p_data"
  by (induction p_data arbitrary: crc_in) (simp_all add: crc16_update_bits)

text \<open>So a damaged byte changes the CRC of any block.\<close>

interpretation crc16_sum: detecting_sum crc16_update
  by unfold_locales (rule crc16_update_inj_crc, assumption, rule crc16_update_inj_byte)

section \<open>Properties\<close>

text \<open>
  C34: the CRC of comm.c, computed through the 256-entry table of crc16_init_table, is
  CRC-16/CCITT as a shift register (polynomial 0x1021, most significant bit first).
\<close>

theorem crc16_table_driven:
  "section_crc16_with_crc p_data crc_in = foldl crc16_byte crc_in p_data"
  unfolding section_crc16_with_crc_def by (rule crc16_bytes)

text \<open>
  Two blocks that differ in exactly one byte never have the same section_crc16, so a frame
  with one corrupted byte never passes the CRC test.
\<close>

theorem crc16_detects_byte:
  assumes "i < length xs" "b \<noteq> xs ! i"
  shows "section_crc16 (xs[i := b]) \<noteq> section_crc16 xs"
  unfolding section_crc16_def crc16_final_def by (rule crc16_sum.one_byte [OF assms])

theorem crc16_detects_byte_witness:
  "section_crc16 ([1, 2, 3][1 := 7]) \<noteq> section_crc16 [1, 2, 3]"
  by (rule crc16_detects_byte) simp_all

end
