(* ===== verification/Linked_List.thy ===== *)
theory Linked_List
  imports Prelude
begin

text \<open>
  Intrusive singly linked lists, as the registries of the program build them (section_item_t with its
  \<open>p_next\<close>): items are named by numbers and one function holds every item's \<open>p_next\<close>.
  Appending behind a tail pointer, walking, inserting behind an item, and the lists that the pointers describe.
\<close>

section \<open>Appending\<close>

text \<open>
  Append an item behind the tail: the new \<open>(first, tail, p_next)\<close>.  A non-empty list has
  a tail (\<open>list_at\<close> below), so the last case of the inner match does not occur.
\<close>

definition list_append :: "nat option \<Rightarrow> nat option \<Rightarrow> (nat \<Rightarrow> nat option) \<Rightarrow> nat
    \<Rightarrow> nat option \<times> nat option \<times> (nat \<Rightarrow> nat option)" where
  "list_append first tail nxt p_item =
     (let nxt1 = nxt(p_item := None)
      in case first of
           None \<Rightarrow> (Some p_item, Some p_item, nxt1)
         | Some _ \<Rightarrow>
             (first, Some p_item,
              case tail of Some t \<Rightarrow> nxt1(t := Some p_item) | None \<Rightarrow> nxt1))"

section \<open>The lists behind the pointers\<close>

text \<open>\<open>segment n p xs q\<close>: from \<open>p\<close> the links visit \<open>xs\<close> and end at \<open>q\<close>.\<close>

fun segment :: "(nat \<Rightarrow> nat option) \<Rightarrow> nat option \<Rightarrow> nat list \<Rightarrow> nat option \<Rightarrow> bool" where
  "segment n p [] q \<longleftrightarrow> p = q"
| "segment n p (x # xs) q \<longleftrightarrow> p = Some x \<and> segment n (n x) xs q"

lemma chain_segment: "chain n p xs \<longleftrightarrow> segment n p xs None"
  by (induction xs arbitrary: p) auto

lemma segment_append:
  "segment n p (xs @ ys) q \<longleftrightarrow> (\<exists>r. segment n p xs r \<and> segment n r ys q)"
  by (induction xs arbitrary: p) auto

lemma segment_update_other:
  "k \<notin> set xs \<Longrightarrow> segment (n(k := v)) p xs q \<longleftrightarrow> segment n p xs q"
  by (induction xs arbitrary: p) auto

lemma segment_update_last:
  "segment n p xs q \<Longrightarrow> distinct xs \<Longrightarrow> xs \<noteq> [] \<Longrightarrow> segment (n(last xs := q')) p xs q'"
proof (induction xs arbitrary: p)
  case (Cons x xs)
  then show ?case by (cases xs) (auto simp: segment_update_other)
qed simp

text \<open>A head pointer, a tail pointer and the links describe the item list \<open>xs\<close>.\<close>

definition list_at :: "(nat \<Rightarrow> nat option) \<Rightarrow> nat option \<Rightarrow> nat option \<Rightarrow> nat list \<Rightarrow> bool" where
  "list_at n first tail xs \<longleftrightarrow>
     segment n first xs None \<and> distinct xs \<and> tail = (if xs = [] then None else Some (last xs))"

lemma list_at_other: "k \<notin> set xs \<Longrightarrow> list_at (n(k := v)) f t xs \<longleftrightarrow> list_at n f t xs"
  by (simp add: list_at_def segment_update_other)

text \<open>Links of other items do not matter.\<close>

lemma segment_kept: "segment n p xs q \<Longrightarrow> (\<And>x. x \<in> set xs \<Longrightarrow> n' x = n x) \<Longrightarrow> segment n' p xs q"
  by (induction xs arbitrary: p) auto

lemma list_at_kept: "list_at n f t xs \<Longrightarrow> (\<And>x. x \<in> set xs \<Longrightarrow> n' x = n x) \<Longrightarrow> list_at n' f t xs"
  by (auto simp: list_at_def intro: segment_kept)

lemma list_append_at:
  assumes "list_at n f t xs" "i \<notin> set xs" "list_append f t n i = (f', t', n')"
  shows "list_at n' f' t' (xs @ [i]) \<and> (\<forall>ys g u. set ys \<inter> insert i (set xs) = {} \<longrightarrow>
     list_at n g u ys \<longrightarrow> list_at n' g u ys)"
proof (cases "xs = []")
  case True
  then have "f = None" using assms(1) by (simp add: list_at_def)
  then show ?thesis
    using assms(3) True by (auto simp: list_append_def Let_def list_at_def segment_update_other)
next
  case False
  then have f: "f \<noteq> None" "t = Some (last xs)" using assms(1) by (cases xs; auto simp: list_at_def)+
  then have n': "n' = n(i := None, last xs := Some i)" "f' = f" "t' = Some i"
    using assms(3) by (auto simp: list_append_def Let_def)
  have l: "last xs \<noteq> i" using False assms(2) last_in_set by metis
  have "segment (n(i := None)) f xs None" "distinct xs"
    using assms(1,2) by (auto simp: list_at_def segment_update_other)
  then have "segment n' f xs (Some i)" unfolding n' using False by (intro segment_update_last)
  then have "segment n' f (xs @ [i]) None" using l by (auto simp: segment_append n')
  moreover have "last xs \<in> set xs" using False by simp
  then have "list_at n' g u ys" if "set ys \<inter> insert i (set xs) = {}" "list_at n g u ys" for ys g u
    using that unfolding n' by (subst list_at_other; (subst list_at_other)?; auto)
  ultimately show ?thesis
    using assms(1,2) unfolding n'(2,3) by (auto simp: list_at_def)
qed

end
