(* ===== verification/Comm_Registry.thy ===== *)
theory Comm_Registry
  imports Comm_Base Linked_List
begin

text \<open>
  The command and route registries of comm.c: intrusive linked lists with a head and a tail
  pointer that \<open>comm_init\<close> fills from the section scan, and the command lookup
  that moves the item it finds to the front.  The pointers are explicit; the refinement to
  plain lists is proved, and that lookups never depend on earlier lookups.
\<close>

section \<open>The pointers\<close>

text \<open>
  Items are named by numbers; \<open>it_next\<close> holds every item's \<open>p_next\<close>.
  The objects behind \<open>p_obj\<close> never change: \<open>com_at\<close> and
  \<open>route_at\<close> give them, \<open>None\<close> for a NULL \<open>p_obj\<close>.
\<close>

record comm_lists =
  cmd_first :: "nat option"
  cmd_tail :: "nat option"
  route_first :: "nat option"
  route_tail :: "nat option"
  it_next :: "nat \<Rightarrow> nat option"

definition comm_insert :: "(nat \<Rightarrow> section_com option) \<Rightarrow> nat option \<Rightarrow> comm_lists \<Rightarrow> comm_lists" where
  "comm_insert com_at p_item s =
     (case p_item of
        None \<Rightarrow> s
      | Some i \<Rightarrow>
          if com_at i = None then s
          else (case list_append (cmd_first s) (cmd_tail s) (it_next s) i of
                  (f, t, n) \<Rightarrow> s\<lparr>cmd_first := f, cmd_tail := t, it_next := n\<rparr>))"

definition comm_route_insert :: "(nat \<Rightarrow> comm_route option) \<Rightarrow> nat option \<Rightarrow> comm_lists \<Rightarrow> comm_lists" where
  "comm_route_insert route_at p_item s =
     (case p_item of
        None \<Rightarrow> s
      | Some i \<Rightarrow>
          if route_at i = None then s
          else (case list_append (route_first s) (route_tail s) (it_next s) i of
                  (f, t, n) \<Rightarrow> s\<lparr>route_first := f, route_tail := t, it_next := n\<rparr>))"

datatype section_type = SECTION_COMM | SECTION_COMM_ROUTE | SECTION_OTHER

text \<open>One registration record, and the scan of the registration section, in link order.\<close>

definition comm_register ::
  "(nat \<Rightarrow> section_com option) \<Rightarrow> (nat \<Rightarrow> comm_route option) \<Rightarrow> comm_lists \<Rightarrow> section_type \<times> nat option \<Rightarrow> comm_lists" where
  "comm_register com_at route_at s r =
     (case r of (section_type, p_str) \<Rightarrow>
        case section_type of
          SECTION_COMM \<Rightarrow> comm_insert com_at p_str s
        | SECTION_COMM_ROUTE \<Rightarrow> comm_route_insert route_at p_str s
        | SECTION_OTHER \<Rightarrow> s)"

definition comm_init ::
  "(nat \<Rightarrow> section_com option) \<Rightarrow> (nat \<Rightarrow> comm_route option) \<Rightarrow> (section_type \<times> nat option) list
     \<Rightarrow> comm_lists \<Rightarrow> comm_lists" where
  "comm_init com_at route_at regs s =
     foldl (comm_register com_at route_at)
       (s\<lparr>cmd_first := None, cmd_tail := None, route_first := None, route_tail := None\<rparr>) regs"

section \<open>The lookup\<close>

definition com_matches :: "u8 \<Rightarrow> u8 \<Rightarrow> section_com \<Rightarrow> bool" where
  "com_matches cmd_set cmd_word c \<longleftrightarrow> com_cmd_set c = cmd_set \<and> com_cmd_word c = cmd_word"

text \<open>
  The relinking of an item found behind \<open>p_prev\<close>.
\<close>

definition move_to_front :: "nat \<Rightarrow> nat \<Rightarrow> comm_lists \<Rightarrow> comm_lists" where
  "move_to_front p_prev p_item s =
     (let nxt1 = (it_next s)(p_prev := it_next s p_item);
          tail1 = (if cmd_tail s = Some p_item then Some p_prev else cmd_tail s);
          nxt2 = nxt1(p_item := cmd_first s)
      in s\<lparr>cmd_first := Some p_item, cmd_tail := tail1, it_next := nxt2\<rparr>)"

text \<open>
  The walk with its two pointers.  \<open>None\<close> is a walk that does not return (a cyclic
  list) or that reads through a NULL object.
\<close>

partial_function (option) find_comm_walk ::
  "(nat \<Rightarrow> section_com option) \<Rightarrow> u8 \<Rightarrow> u8 \<Rightarrow> comm_lists \<Rightarrow> nat option \<Rightarrow> nat option
     \<Rightarrow> (nat option \<times> comm_lists) option" where
  "find_comm_walk com_at cmd_set cmd_word s p_prev p_item =
     (case p_item of
        None \<Rightarrow> Some (None, s)
      | Some i \<Rightarrow>
          (case com_at i of
             None \<Rightarrow> None
           | Some p \<Rightarrow>
               if com_matches cmd_set cmd_word p then
                 Some (com_func p, case p_prev of None \<Rightarrow> s | Some q \<Rightarrow> move_to_front q i s)
               else find_comm_walk com_at cmd_set cmd_word s (Some i) (it_next s i)))"

definition find_comm_func ::
  "(nat \<Rightarrow> section_com option) \<Rightarrow> u8 \<Rightarrow> u8 \<Rightarrow> comm_lists \<Rightarrow> (nat option \<times> comm_lists) option" where
  "find_comm_func com_at cmd_set cmd_word s = find_comm_walk com_at cmd_set cmd_word s None (cmd_first s)"

section \<open>The lists behind the pointers\<close>

text \<open>Both registries: \<open>cs\<close> and \<open>rs\<close> are the registered items in list order.\<close>

definition lists_ok :: "(nat \<Rightarrow> section_com option) \<Rightarrow> (nat \<Rightarrow> comm_route option)
    \<Rightarrow> comm_lists \<Rightarrow> nat list \<Rightarrow> nat list \<Rightarrow> bool" where
  "lists_ok com_at route_at s cs rs \<longleftrightarrow>
     list_at (it_next s) (cmd_first s) (cmd_tail s) cs \<and>
     list_at (it_next s) (route_first s) (route_tail s) rs \<and>
     set cs \<inter> set rs = {} \<and> (\<forall>i \<in> set cs. com_at i \<noteq> None) \<and> (\<forall>i \<in> set rs. route_at i \<noteq> None)"

lemma comm_insert_ok:
  assumes "lists_ok com_at route_at s cs rs" "i \<notin> set cs" "i \<notin> set rs" "com_at i \<noteq> None"
  shows "lists_ok com_at route_at (comm_insert com_at (Some i) s) (cs @ [i]) rs"
proof -
  obtain f t n where a: "list_append (cmd_first s) (cmd_tail s) (it_next s) i = (f, t, n)" by (metis prod_cases3)
  have l: "list_at (it_next s) (cmd_first s) (cmd_tail s) cs" "set rs \<inter> insert i (set cs) = {}"
    using assms by (auto simp: lists_ok_def)
  from list_append_at [OF l(1) assms(2) a] l(2) show ?thesis
    using assms by (auto simp: lists_ok_def comm_insert_def a)
qed

lemma comm_route_insert_ok:
  assumes "lists_ok com_at route_at s cs rs" "i \<notin> set cs" "i \<notin> set rs" "route_at i \<noteq> None"
  shows "lists_ok com_at route_at (comm_route_insert route_at (Some i) s) cs (rs @ [i])"
proof -
  obtain f t n where a: "list_append (route_first s) (route_tail s) (it_next s) i = (f, t, n)" by (metis prod_cases3)
  have l: "list_at (it_next s) (route_first s) (route_tail s) rs" "set cs \<inter> insert i (set rs) = {}"
    using assms by (auto simp: lists_ok_def)
  from list_append_at [OF l(1) assms(3) a] l(2) show ?thesis
    using assms by (auto simp: lists_ok_def comm_route_insert_def a)
qed

text \<open>The items a scan registers, in scan order.\<close>

definition reg_cmds :: "(nat \<Rightarrow> section_com option) \<Rightarrow> (section_type \<times> nat option) list \<Rightarrow> nat list" where
  "reg_cmds com_at regs =
     [i. (SECTION_COMM, Some i) \<leftarrow> regs, com_at i \<noteq> None]"

definition reg_routes :: "(nat \<Rightarrow> comm_route option) \<Rightarrow> (section_type \<times> nat option) list \<Rightarrow> nat list" where
  "reg_routes route_at regs =
     [i. (SECTION_COMM_ROUTE, Some i) \<leftarrow> regs, route_at i \<noteq> None]"

lemma comm_init_fold:
  assumes "lists_ok com_at route_at s cs rs"
    and "distinct (cs @ rs @ List.map_filter snd regs)"
  shows "lists_ok com_at route_at
     (foldl (comm_register com_at route_at) s regs)
     (cs @ reg_cmds com_at regs) (rs @ reg_routes route_at regs)"
  using assms
proof (induction regs arbitrary: s cs rs)
  case Nil
  then show ?case by (simp add: reg_cmds_def reg_routes_def)
next
  case (Cons r regs)
  obtain ty p where r: "r = (ty, p)" by (cases r)
  have skip: "distinct (cs @ rs @ List.map_filter snd regs)"
    using Cons.prems(2) by (auto simp: r map_filter_simps split: option.splits)
  show ?case
  proof (cases "\<exists>i. p = Some i \<and> (ty = SECTION_COMM \<and> com_at i \<noteq> None \<or> ty = SECTION_COMM_ROUTE \<and> route_at i \<noteq> None)")
    case False
    then have "reg_cmds com_at (r # regs) = reg_cmds com_at regs" "reg_routes route_at (r # regs) = reg_routes route_at regs"
      by (auto simp: reg_cmds_def reg_routes_def r split: option.splits section_type.splits)
    moreover have "comm_register com_at route_at s r = s"
      using False
      by (auto simp: r comm_register_def comm_insert_def comm_route_insert_def split: section_type.splits option.splits)
    ultimately show ?thesis using Cons.IH [OF Cons.prems(1) skip] by simp
  next
    case True
    then obtain i where p: "p = Some i" by blast
    have fresh: "i \<notin> set cs" "i \<notin> set rs"
      and d: "distinct ((cs @ [i]) @ rs @ List.map_filter snd regs)" "distinct (cs @ (rs @ [i]) @ List.map_filter snd regs)"
      using Cons.prems(2) by (auto simp: r p map_filter_simps)
    from True p consider (cmd) "ty = SECTION_COMM" "com_at i \<noteq> None" | (route) "ty = SECTION_COMM_ROUTE" "route_at i \<noteq> None"
      by auto
    then show ?thesis
    proof cases
      case cmd
      from Cons.IH [OF comm_insert_ok [OF Cons.prems(1) fresh cmd(2)] d(1)] show ?thesis
        using cmd by (simp add: r p reg_cmds_def reg_routes_def comm_register_def)
    next
      case route
      from Cons.IH [OF comm_route_insert_ok [OF Cons.prems(1) fresh route(2)] d(2)] show ?thesis
        using route by (simp add: r p reg_cmds_def reg_routes_def comm_register_def)
    qed
  qed
qed

lemma comm_init_ok:
  assumes "distinct (List.map_filter snd regs)"
  shows "lists_ok com_at route_at (comm_init com_at route_at regs s) (reg_cmds com_at regs) (reg_routes route_at regs)"
proof -
  have "lists_ok com_at route_at
      (s\<lparr>cmd_first := None, cmd_tail := None, route_first := None, route_tail := None\<rparr>) [] []"
    by (simp add: lists_ok_def list_at_def)
  from comm_init_fold [OF this, of regs] assms show ?thesis by (simp add: comm_init_def)
qed

section \<open>Lookups\<close>

text \<open>The effect of a lookup on the item list: the first match moves to the front.\<close>

definition mtf :: "('a \<Rightarrow> bool) \<Rightarrow> 'a list \<Rightarrow> 'a list" where
  "mtf P xs =
     (case dropWhile (\<lambda>x. \<not> P x) xs of
        [] \<Rightarrow> xs
      | x # rest \<Rightarrow> x # takeWhile (\<lambda>x. \<not> P x) xs @ rest)"

lemma mtf_split: "\<forall>u \<in> set us. \<not> P u \<Longrightarrow> P x \<Longrightarrow> mtf P (us @ x # vs) = x # us @ vs"
  by (simp add: mtf_def dropWhile_append takeWhile_append)

lemma mtf_none: "\<forall>u \<in> set us. \<not> P u \<Longrightarrow> mtf P us = us"
  by (simp add: mtf_def dropWhile_eq_Nil_conv [THEN iffD2])

lemma split_first:
  obtains (none) "\<forall>u \<in> set xs. \<not> P u" "List.find P xs = None"
  | (found) us x vs where "xs = us @ x # vs" "\<forall>u \<in> set us. \<not> P u" "P x" "List.find P xs = Some x"
proof (cases "\<exists>x \<in> set xs. P x")
  case True
  then obtain us x vs where s: "xs = us @ x # vs" "\<forall>u \<in> set us. \<not> P u" "P x"
    using split_list_first_prop by metis
  then have "List.find P xs = Some x" by (induction us arbitrary: xs) auto
  then show ?thesis using s that(2) by blast
next
  case False
  then show ?thesis using that(1) by (simp add: find_None_iff)
qed

lemma move_to_front_ok:
  assumes "lists_ok com_at route_at s (us @ i # vs) rs" "us \<noteq> []"
  shows "lists_ok com_at route_at (move_to_front (last us) i s) (i # us @ vs) rs"
proof -
  let ?n = "it_next s" and ?l = "last us"
  let ?n' = "?n(?l := ?n i, i := cmd_first s)"
  have d: "distinct (us @ i # vs)" and seg: "segment ?n (cmd_first s) us (Some i)" "segment ?n (?n i) vs None"
    and tail: "cmd_tail s = Some (last (i # vs))"
    using assms(1) by (auto simp: lists_ok_def list_at_def segment_append)
  have l: "?l \<in> set us" using assms(2) by simp
  have "segment (?n(?l := ?n i)) (cmd_first s) us (?n i)"
    using seg(1) d assms(2) by (intro segment_update_last) auto
  then have "segment ?n' (cmd_first s) us (?n i)" using d by (simp add: segment_update_other)
  moreover have "segment ?n' (?n i) vs None"
    using seg(2) d l by (subst segment_update_other, force)+ assumption
  ultimately have "segment ?n' (Some i) (i # us @ vs) None" by (auto simp: segment_append)
  moreover have "(if cmd_tail s = Some i then Some ?l else cmd_tail s) = Some (last (i # us @ vs))"
    using tail d assms(2) by (cases vs rule: rev_cases) auto
  moreover have "list_at ?n' (route_first s) (route_tail s) rs"
  proof -
    have "?l \<notin> set rs" "i \<notin> set rs" using assms(1) l by (auto simp: lists_ok_def)
    then show ?thesis using assms(1) by (simp add: lists_ok_def list_at_other)
  qed
  ultimately show ?thesis
    using assms(1) d by (auto simp: lists_ok_def list_at_def move_to_front_def Let_def)
qed

text \<open>An item's command matches.\<close>

definition item_matches :: "(nat \<Rightarrow> section_com option) \<Rightarrow> u8 \<Rightarrow> u8 \<Rightarrow> nat \<Rightarrow> bool" where
  "item_matches com_at cmd_set cmd_word i = (case com_at i of None \<Rightarrow> False | Some c \<Rightarrow> com_matches cmd_set cmd_word c)"

definition item_func :: "(nat \<Rightarrow> section_com option) \<Rightarrow> nat option \<Rightarrow> nat option" where
  "item_func com_at p = Option.bind p (\<lambda>i. Option.bind (com_at i) com_func)"

lemma find_comm_walk_ok:
  assumes "lists_ok com_at route_at s (us @ vs) rs" "\<forall>u \<in> set us. \<not> item_matches com_at a b u"
    and "segment (it_next s) p vs None"
  shows "\<exists>s'. find_comm_walk com_at a b s (if us = [] then None else Some (last us)) p
      = Some (item_func com_at (List.find (item_matches com_at a b) (us @ vs)), s')
    \<and> lists_ok com_at route_at s' (mtf (item_matches com_at a b) (us @ vs)) rs"
  using assms
proof (induction vs arbitrary: us p)
  case Nil
  have "List.find (item_matches com_at a b) us = None" using Nil.prems(2) by (simp add: find_None_iff)
  then show ?case
    using Nil by (subst find_comm_walk.simps) (simp add: mtf_none item_func_def)
next
  case (Cons i vs)
  have p: "p = Some i" "segment (it_next s) (it_next s i) vs None" using Cons.prems(3) by auto
  obtain c where c: "com_at i = Some c" using Cons.prems(1) by (auto simp: lists_ok_def)
  show ?case
  proof (cases "com_matches a b c")
    case True
    then have m: "item_matches com_at a b i" by (simp add: item_matches_def c)
    have "List.find (item_matches com_at a b) (us @ i # vs) = Some i"
      using Cons.prems(2) m by (induction us) auto
    then show ?thesis
      using True m Cons.prems(1,2) move_to_front_ok [OF Cons.prems(1)]
      by (subst find_comm_walk.simps) (auto simp: p c mtf_split item_func_def)
  next
    case False
    then have m: "\<not> item_matches com_at a b i" by (simp add: item_matches_def c)
    have "find_comm_walk com_at a b s (if us = [] then None else Some (last us)) p
        = find_comm_walk com_at a b s (if us @ [i] = [] then None else Some (last (us @ [i]))) (it_next s i)"
      using False by (subst find_comm_walk.simps) (simp add: p c)
    then show ?thesis using Cons.IH [of "us @ [i]" "it_next s i"] Cons.prems p(2) m by simp
  qed
qed

lemma find_comm_func_ok:
  assumes "lists_ok com_at route_at s cs rs"
  shows "\<exists>s'. find_comm_func com_at a b s = Some (item_func com_at (List.find (item_matches com_at a b) cs), s')
    \<and> lists_ok com_at route_at s' (mtf (item_matches com_at a b) cs) rs"
  using find_comm_walk_ok [of com_at route_at s "[]" cs rs a b "cmd_first s"] assms
  by (simp add: find_comm_func_def lists_ok_def list_at_def)

text \<open>The order among the items of one command never changes.\<close>

lemma mtf_filter:
  assumes "P = Q \<or> (\<forall>x. \<not> (P x \<and> Q x))"
  shows "filter Q (mtf P xs) = filter Q xs"
proof (cases rule: split_first [of xs P])
  case none
  then show ?thesis by (simp add: mtf_none)
next
  case (found us x vs)
  have m: "mtf P xs = x # us @ vs" using found mtf_split by metis
  show ?thesis
  proof (cases "Q x")
    case True
    then have "filter Q us = []" using found(2,3) assms by (auto simp: filter_empty_conv)
    then show ?thesis using True found m by simp
  next
    case False
    then show ?thesis using found m by simp
  qed
qed

lemma item_matches_key:
  "item_matches com_at a b = item_matches com_at a' b' \<or> (\<forall>i. \<not> (item_matches com_at a b i \<and> item_matches com_at a' b' i))"
  by (auto simp: item_matches_def com_matches_def split: option.splits)

lemma find_filter: "List.find P xs = (case filter P xs of [] \<Rightarrow> None | x # _ \<Rightarrow> Some x)"
  by (induction xs) auto

text \<open>A history of lookups, and the registries after it.\<close>

fun after_lookups :: "(nat \<Rightarrow> section_com option) \<Rightarrow> (u8 \<times> u8) list \<Rightarrow> comm_lists \<Rightarrow> comm_lists option" where
  "after_lookups com_at [] s = Some s"
| "after_lookups com_at ((a, b) # ks) s =
     (case find_comm_func com_at a b s of None \<Rightarrow> None | Some (_, s') \<Rightarrow> after_lookups com_at ks s')"

lemma after_lookups_ok:
  assumes "lists_ok com_at route_at s cs rs"
  shows "\<exists>s' cs'. after_lookups com_at ks s = Some s' \<and> lists_ok com_at route_at s' cs' rs
    \<and> (\<forall>a b. filter (item_matches com_at a b) cs' = filter (item_matches com_at a b) cs)"
  using assms
proof (induction ks arbitrary: s cs)
  case Nil
  then show ?case by auto
next
  case (Cons k ks)
  obtain a b where k: "k = (a, b)" by (cases k)
  obtain s1 where s1: "find_comm_func com_at a b s = Some (item_func com_at (List.find (item_matches com_at a b) cs), s1)"
    "lists_ok com_at route_at s1 (mtf (item_matches com_at a b) cs) rs"
    using find_comm_func_ok [OF Cons.prems] by blast
  obtain s' cs' where "after_lookups com_at ks s1 = Some s'" "lists_ok com_at route_at s' cs' rs"
    "\<forall>a' b'. filter (item_matches com_at a' b') cs'
      = filter (item_matches com_at a' b') (mtf (item_matches com_at a b) cs)"
    using Cons.IH [OF s1(2)] by blast
  moreover have "filter (item_matches com_at a' b') (mtf (item_matches com_at a b) cs)
      = filter (item_matches com_at a' b') cs" for a' b'
    by (rule mtf_filter [OF item_matches_key])
  ultimately show ?case by (intro exI [of _ s'] exI [of _ cs']) (simp add: k s1(1))
qed

section \<open>Properties\<close>

text \<open>
  After comm_init, and after any number of lookups that each reorder the list, the
  move-to-front lookup of comm.c returns (it never runs around a cycle or into NULL) and gives
  the callback of the first item registered for the command, none when there is none.
\<close>

theorem find_comm_func_stable:
  assumes "distinct (List.map_filter snd regs)"
  shows "\<exists>s s'. after_lookups com_at ks (comm_init com_at route_at regs s0) = Some s \<and>
     find_comm_func com_at a b s =
       Some (item_func com_at (List.find (item_matches com_at a b) (reg_cmds com_at regs)), s')"
proof -
  obtain s cs where s: "after_lookups com_at ks (comm_init com_at route_at regs s0) = Some s"
    "lists_ok com_at route_at s cs (reg_routes route_at regs)"
    "filter (item_matches com_at a b) cs = filter (item_matches com_at a b) (reg_cmds com_at regs)"
    using after_lookups_ok [OF comm_init_ok [OF assms], where ks = ks] by blast
  then show ?thesis using find_comm_func_ok [OF s(2), of a b] find_filter s(3) by metis
qed

definition sample_com :: "nat \<Rightarrow> section_com option" where
  "sample_com i = Some \<lparr>com_cmd_set = 1, com_cmd_word = of_nat i, com_func = Some (10 + i)\<rparr>"

theorem find_comm_func_stable_witness:
  "\<exists>s s'. after_lookups sample_com [(1, 3), (1, 2)]
        (comm_init sample_com (\<lambda>i. None) [(SECTION_COMM, Some 1), (SECTION_COMM, Some 2), (SECTION_COMM, Some 3)]
           \<lparr>cmd_first = None, cmd_tail = None, route_first = None, route_tail = None, it_next = (\<lambda>_. None)\<rparr>) = Some s
     \<and> find_comm_func sample_com 1 2 s = Some (Some 12, s')"
proof -
  let ?r = "[(SECTION_COMM, Some 1), (SECTION_COMM, Some 2), (SECTION_COMM, Some (3 :: nat))]"
  have d: "distinct (List.map_filter snd ?r)" by (simp add: map_filter_simps)
  have e: "item_func sample_com (List.find (item_matches sample_com 1 2) (reg_cmds sample_com ?r)) = Some 12"
    by (simp add: reg_cmds_def item_matches_def com_matches_def item_func_def sample_com_def)
  show ?thesis using find_comm_func_stable [OF d, where com_at = sample_com and a = 1 and b = 2] unfolding e .
qed

text \<open>
  Comm_init may be called again at any time: whatever the anchors and links held before,
  both registries then hold exactly the registered commands and routes, in registration order,
  as well-formed lists with correct tails.
\<close>

theorem comm_init_lists:
  assumes "distinct (List.map_filter snd regs)"
  shows "let s = comm_init com_at route_at regs s0
    in chain (it_next s) (cmd_first s) (reg_cmds com_at regs)
     \<and> chain (it_next s) (route_first s) (reg_routes route_at regs)
     \<and> cmd_tail s = (if reg_cmds com_at regs = [] then None else Some (last (reg_cmds com_at regs)))
     \<and> route_tail s = (if reg_routes route_at regs = [] then None else Some (last (reg_routes route_at regs)))"
  using comm_init_ok [OF assms, of com_at route_at s0]
  by (simp add: lists_ok_def list_at_def chain_segment Let_def)

theorem comm_init_lists_witness:
  "cmd_tail (comm_init (\<lambda>i. Some \<lparr>com_cmd_set = 1, com_cmd_word = 2, com_func = None\<rparr>) (\<lambda>i. None)
     [(SECTION_COMM, Some 4), (SECTION_COMM, Some 9)]
     \<lparr>cmd_first = Some 4, cmd_tail = Some 1, route_first = None, route_tail = None, it_next = (\<lambda>_. Some 4)\<rparr>) = Some 9"
proof -
  have "distinct (List.map_filter snd [(SECTION_COMM, Some 4), (SECTION_COMM, Some (9 :: nat))])"
    by (simp add: map_filter_simps)
  from comm_init_lists [OF this, of "\<lambda>i. Some \<lparr>com_cmd_set = 1, com_cmd_word = 2, com_func = None\<rparr>" "\<lambda>i. None"
    "\<lparr>cmd_first = Some 4, cmd_tail = Some 1, route_first = None, route_tail = None, it_next = (\<lambda>_. Some 4)\<rparr>"]
  show ?thesis by (simp add: Let_def reg_cmds_def)
qed

end
