(* ===== verification/Comm_V1_Send.thy ===== *)
theory Comm_V1_Send
  imports Comm_Base Codec_RLE Codec_LZSS Codec_Dict Codec_Zero
begin

text \<open>
  The sending half of code/data_source/comm/comm_v1.c: the checksum, the MSG word, the choice
  of the shortest encoding and the assembly of the 0xE9 frame.  The choice uses every codec
  through its \<open>block_codec\<close> facts only.
\<close>

section \<open>Checksum\<close>

definition comm_sum_encode :: "u8 list option \<Rightarrow> u8" where
  "comm_sum_encode p_data =
     (case p_data of
        None \<Rightarrow> 0x55
      | Some d \<Rightarrow>
          (let s = foldl (\<lambda>sum b. sum + b) 0 d
           in if s = 0 then 0x55 else if s = 0xFF then 0xAA else s))"

section \<open>The MSG word\<close>

text \<open>The CODEC field values.\<close>

definition CODEC_RAW :: u8 where "CODEC_RAW = 0"
definition CODEC_DICT :: u8 where "CODEC_DICT = 1"
definition CODEC_RLE :: u8 where "CODEC_RLE = 2"
definition CODEC_LZSS :: u8 where "CODEC_LZSS = 3"
definition CODEC_ZERO :: u8 where "CODEC_ZERO = 4"

lemmas codec_values = CODEC_RAW_def CODEC_DICT_def CODEC_RLE_def CODEC_LZSS_def CODEC_ZERO_def

text \<open>The explicit shifts of comm_v1_send.\<close>

definition msg_word :: "packform \<Rightarrow> u8 \<Rightarrow> u8 \<Rightarrow> u8 \<Rightarrow> u32" where
  "msg_word p codec cmd ack =
     ucast (pk_seq p) OR push_bit 3 (ucast (pk_dst p)) OR push_bit 7 (ucast (pk_d_dst p))
       OR push_bit 10 (ucast (pk_src p)) OR push_bit 14 (ucast (pk_d_src p))
       OR push_bit 17 (ucast (pk_cmd_set p)) OR push_bit 21 (ucast (pk_cmd_word p))
       OR push_bit 27 (ucast codec) OR push_bit 30 (ucast cmd) OR push_bit 31 (ucast ack)"

section \<open>Choosing the encoding\<close>

definition min_saved :: "nat \<Rightarrow> nat" where
  "min_saved raw_len =
     (if raw_len \<le> 16 then 2
      else (let m = (raw_len + 15) div 16 in if m < 2 then 2 else m))"

text \<open>
  One candidate: the codec is tried with the 256-byte candidate buffer and the limit
  \<open>min(best_len, raw_len - min_saved + 1)\<close>, and replaces the best so far when it
  succeeds with fewer bytes.  The state is \<open>(best_codec, best_len, DATA area)\<close>.
\<close>

definition try_candidate ::
  "codec_fn \<Rightarrow> u8 \<Rightarrow> u8 list \<Rightarrow> u8 \<times> nat \<times> u8 list \<Rightarrow> u8 \<times> nat \<times> u8 list" where
  "try_candidate encode codec raw best =
     (case best of
        (best_codec, best_len, data) \<Rightarrow>
          let raw_len = length raw;
              bound = raw_len - min_saved raw_len + 1;
              limit_len = (if best_len < bound then best_len else bound);
              r = encode (Some raw) (Some 256) True limit_len;
              candidate_len = the (io_len r)
          in if io_ret r = 1 \<and> candidate_len < best_len
             then (codec, candidate_len, take candidate_len (io_buf r) @ drop candidate_len data)
             else best)"

definition comm_v1_is_codec_select :: "packform \<Rightarrow> bool" where
  "comm_v1_is_codec_select p \<longleftrightarrow> pk_cmd_set p = 0 \<and> pk_cmd_word p = 0"

text \<open>
  The choice for a non-empty payload.  \<open>ready\<close> is the dictionary codec's lookup
  table.  RLE is tried from 17 bytes on, LZSS from 64 bytes on.
\<close>

definition choose_encoding :: "64 word list option \<Rightarrow> packform \<Rightarrow> u8 list \<Rightarrow> u8 \<times> nat \<times> u8 list" where
  "choose_encoding ready p raw =
     (let raw_len = length raw; raw_best = (CODEC_RAW, raw_len, raw)
      in if raw_len > min_saved raw_len \<and> \<not> comm_v1_is_codec_select p then
           (let b1 = try_candidate (codec_dict_encode ready) CODEC_DICT raw raw_best;
                b2 = (if raw_len > 16 then try_candidate codec_rle_encode CODEC_RLE raw b1 else b1);
                b3 = (if raw_len \<ge> 64 then try_candidate codec_lzss_encode CODEC_LZSS raw b2 else b2)
            in try_candidate codec_zero_encode CODEC_ZERO raw b3)
         else raw_best)"

section \<open>Assembling the frame\<close>

text \<open>The range checks: nothing is truncated, an out-of-range field refuses the send.\<close>

definition send_ok :: "packform \<Rightarrow> bool" where
  "send_ok p \<longleftrightarrow>
     \<not> (pk_version p \<noteq> 1 \<or> pk_len p > 256 \<or> (pk_len p > 0 \<and> pk_data p = Null_Ptr)
        \<or> pk_seq p > 0x07 \<or> pk_src p > 0x0F \<or> pk_dst p > 0x0F \<or> pk_d_src p > 0x07 \<or> pk_d_dst p > 0x07
        \<or> pk_cmd_set p > 0x0F \<or> pk_cmd_word p > 0x3F)"

text \<open>
  The transmitted bytes: SOP, MSG in little-endian order, for a data frame LEN (0 for 256) and
  the encoded DATA, and SUM over everything before it.
\<close>

definition v1_frame :: "64 word list option \<Rightarrow> packform \<Rightarrow> u8 list" where
  "v1_frame ready p =
     (let raw = pk_payload p;
          cmd = (if pk_len p = 0 then 1 else 0);
          ack = (if pk_is_ack p \<noteq> 0 then 1 else 0);
          (best_codec, best_len, data) = (if pk_len p = 0 then (CODEC_RAW, 0, []) else choose_encoding ready p raw);
          msg = msg_word p best_codec cmd ack;
          header = 0xE9 # u32_le msg;
          body = (if cmd = (1 :: u8) then header
                  else header @ (if best_len = 256 then 0 else of_nat best_len) # take best_len data)
      in body @ [comm_sum_encode (Some body)])"

definition comm_v1_send :: "64 word list option \<Rightarrow> packform option \<Rightarrow> my_printf option \<Rightarrow> event list" where
  "comm_v1_send ready p_frame printf =
     (case p_frame of
        None \<Rightarrow> []
      | Some p \<Rightarrow> if send_ok p then transmit printf (v1_frame ready p) else [])"

section \<open>What the choice guarantees\<close>

text \<open>Every encoding a receiver knows, by CODEC value: what its decoder makes of the DATA bytes.\<close>

definition decoder_of :: "u8 \<Rightarrow> codec_fn option" where
  "decoder_of codec =
     (if codec = CODEC_DICT then Some codec_dict_decode
      else if codec = CODEC_RLE then Some codec_rle_decode
      else if codec = CODEC_LZSS then Some codec_lzss_decode
      else if codec = CODEC_ZERO then Some codec_zero_decode
      else None)"

text \<open>
  \<open>(codec, n, data)\<close> carries \<open>raw\<close>: the first \<open>n\<close> bytes are
  the raw bytes, or a shorter encoding that decodes to them.
\<close>

definition carries :: "u8 list \<Rightarrow> u8 \<times> nat \<times> u8 list \<Rightarrow> bool" where
  "carries raw b \<longleftrightarrow>
     (case b of (codec, n, data) \<Rightarrow>
        0 < n \<and> n \<le> length data \<and>
        (if codec = CODEC_RAW then n = length raw \<and> take n data = raw
         else n + min_saved (length raw) \<le> length raw \<and>
           (\<exists>dec. decoder_of codec = Some dec \<and>
              (let d = dec (Some (take n data)) (Some 256) True 257
               in io_ret d = 1 \<and> io_len d = Some (length raw) \<and> io_payload d = raw))))"

text \<open>The limit one candidate gets.\<close>

definition candidate_limit :: "nat \<Rightarrow> nat \<Rightarrow> nat" where
  "candidate_limit raw_len best_len =
     (if best_len < raw_len - min_saved raw_len + 1 then best_len else raw_len - min_saved raw_len + 1)"

lemma min_saved_ge: "2 \<le> min_saved n"
  by (simp add: min_saved_def Let_def)

text \<open>What holds of one candidate holds of every codec that meets the contract.\<close>

context block_codec
begin

lemma candidate_in_buffer:
  "raw_len \<le> 256 \<Longrightarrow> best_len \<le> raw_len \<Longrightarrow>
     length (io_buf (encode i (Some 256) b (candidate_limit raw_len best_len))) \<le> 256"
  by (rule encode_store) (auto simp: candidate_limit_def)

lemma try_carries:
  assumes dec: "decoder_of codec = Some decode" "codec \<noteq> CODEC_RAW"
    and raw: "length raw \<le> 256" "min_saved (length raw) < length raw"
    and best: "carries raw best" "fst (snd best) \<le> length raw"
  shows "carries raw (try_candidate encode codec raw best)"
    and "fst (snd (try_candidate encode codec raw best)) \<le> fst (snd best)"
proof -
  obtain bc bl data where b: "best = (bc, bl, data)" by (cases best)
  let ?lim = "candidate_limit (length raw) bl"
  let ?r = "encode (Some raw) (Some 256) True ?lim"
  have t: "try_candidate encode codec raw best =
     (if io_ret ?r = 1 \<and> the (io_len ?r) < bl
      then (codec, the (io_len ?r), take (the (io_len ?r)) (io_buf ?r) @ drop (the (io_len ?r)) data) else best)"
    by (simp add: try_candidate_def b Let_def candidate_limit_def)
  have "carries raw (try_candidate encode codec raw best)
    \<and> fst (snd (try_candidate encode codec raw best)) \<le> fst (snd best)"
  proof (cases "io_ret ?r = 1 \<and> the (io_len ?r) < bl")
    case False
    then show ?thesis using best unfolding t by auto
  next
    case True
    then obtain n where n: "io_len ?r = Some n" "0 < n" "n \<le> 256" "n < ?lim" "n \<le> length (io_buf ?r)"
      using encode_bounds [of "Some raw" 256 True ?lim] by auto
    have pay: "io_payload ?r = take n (io_buf ?r)" by (simp add: io_payload_def n(1))
    have saved: "n + min_saved (length raw) \<le> length raw"
      using n(4) raw(2) by (auto simp: candidate_limit_def split: if_splits)
    have d: "let d = decode (Some (take n (io_buf ?r))) (Some 256) True 257
        in io_ret d = 1 \<and> io_len d = Some (length raw) \<and> io_payload d = raw"
      using round_trip [of raw 256 True ?lim 256 257] True raw(1) by (simp add: pay)
    have "try_candidate encode codec raw best = (codec, n, take n (io_buf ?r) @ drop n data)"
      unfolding t using True n(1) by simp
    moreover have "take n (take n (io_buf ?r) @ drop n data) = take n (io_buf ?r)" using n(5) by simp
    ultimately show ?thesis
      using d dec saved n(2,5) True n(1) by (simp add: carries_def b)
  qed
  then show "carries raw (try_candidate encode codec raw best)"
    "fst (snd (try_candidate encode codec raw best)) \<le> fst (snd best)" by auto
qed

end

lemma decoder_values [simp]:
  "decoder_of CODEC_DICT = Some codec_dict_decode" "decoder_of CODEC_RLE = Some codec_rle_decode"
  "decoder_of CODEC_LZSS = Some codec_lzss_decode" "decoder_of CODEC_ZERO = Some codec_zero_decode"
  "CODEC_DICT \<noteq> CODEC_RAW" "CODEC_RLE \<noteq> CODEC_RAW" "CODEC_LZSS \<noteq> CODEC_RAW" "CODEC_ZERO \<noteq> CODEC_RAW"
  by (simp_all add: decoder_of_def codec_values)

lemma choose_carries:
  assumes "raw \<noteq> []" "length raw \<le> 256"
  shows "carries raw (choose_encoding ready p raw) \<and> fst (snd (choose_encoding ready p raw)) \<le> length raw"
proof (cases "length raw > min_saved (length raw) \<and> \<not> comm_v1_is_codec_select p")
  case False
  then show ?thesis using assms by (auto simp: choose_encoding_def Let_def carries_def)
next
  case True
  let ?b0 = "(CODEC_RAW, length raw, raw)"
  let ?b1 = "try_candidate (codec_dict_encode ready) CODEC_DICT raw ?b0"
  let ?b2 = "if length raw > 16 then try_candidate codec_rle_encode CODEC_RLE raw ?b1 else ?b1"
  let ?b3 = "if length raw \<ge> 64 then try_candidate codec_lzss_encode CODEC_LZSS raw ?b2 else ?b2"
  have ms: "min_saved (length raw) < length raw" using True by simp
  have b0: "carries raw ?b0" "fst (snd ?b0) \<le> length raw" using assms by (auto simp: carries_def)
  have b1: "carries raw ?b1" "fst (snd ?b1) \<le> length raw"
    using dict_codec.try_carries [OF _ _ assms(2) ms b0, of CODEC_DICT ready] by auto
  have b2: "carries raw ?b2" "fst (snd ?b2) \<le> length raw"
    using rle_codec.try_carries [OF _ _ assms(2) ms b1, of CODEC_RLE] b1 by auto
  have b3: "carries raw ?b3" "fst (snd ?b3) \<le> length raw"
    using lzss_codec.try_carries [OF _ _ assms(2) ms b2, of CODEC_LZSS] b2 by auto
  have "choose_encoding ready p raw = try_candidate codec_zero_encode CODEC_ZERO raw ?b3"
    using True by (simp add: choose_encoding_def Let_def)
  then show ?thesis
    using zero_codec.try_carries [OF _ _ assms(2) ms b3, of CODEC_ZERO] b3 by auto
qed

section \<open>Reading the MSG word back\<close>

text \<open>The field extraction of the receiver (state MSG_L3).\<close>

definition msg_seq :: "u32 \<Rightarrow> u8" where "msg_seq m = ucast (m AND 0x07)"
definition msg_dst :: "u32 \<Rightarrow> u8" where "msg_dst m = ucast (drop_bit 3 m AND 0x0F)"
definition msg_d_dst :: "u32 \<Rightarrow> u8" where
  "msg_d_dst m = ucast ((drop_bit 7 m AND 0x01) OR push_bit 1 (drop_bit 8 m AND 0x03))"
definition msg_src :: "u32 \<Rightarrow> u8" where "msg_src m = ucast (drop_bit 10 m AND 0x0F)"
definition msg_d_src :: "u32 \<Rightarrow> u8" where
  "msg_d_src m = ucast ((drop_bit 14 m AND 0x03) OR push_bit 2 (drop_bit 16 m AND 0x01))"
definition msg_cmd_set :: "u32 \<Rightarrow> u8" where "msg_cmd_set m = ucast (drop_bit 17 m AND 0x0F)"
definition msg_cmd_word :: "u32 \<Rightarrow> u8" where
  "msg_cmd_word m = ucast ((drop_bit 21 m AND 0x07) OR push_bit 3 (drop_bit 24 m AND 0x07))"
definition msg_is_ack :: "u32 \<Rightarrow> u8" where "msg_is_ack m = ucast (drop_bit 31 m AND 0x01)"
definition msg_codec :: "u32 \<Rightarrow> u8" where "msg_codec m = ucast (drop_bit 27 m AND 0x07)"

lemmas msg_fields = msg_seq_def msg_dst_def msg_d_dst_def msg_src_def msg_d_src_def msg_cmd_set_def
  msg_cmd_word_def msg_is_ack_def msg_codec_def

lemma masks: "(1 :: 'a::len word) = mask 1" "(3 :: 'a word) = mask 2" "(7 :: 'a word) = mask 3"
  "(15 :: 'a word) = mask 4" "(63 :: 'a word) = mask 6"
  by (simp_all add: mask_numeral)

text \<open>A byte below \<open>2 ^ k\<close> has no bit from \<open>k\<close> on.\<close>

lemma small_bits: "unat x < 2 ^ k \<Longrightarrow> bit (x :: u8) n \<Longrightarrow> n < k"
proof -
  assume "unat x < 2 ^ k" and b: "bit x n"
  then have "take_bit k (unat x) = unat x" by (simp add: take_bit_nat_eq_self)
  moreover have "bit (unat x) n" using b by (simp add: bit_unsigned_iff bit_imp_le_length)
  ultimately show "n < k" by (metis bit_take_bit_iff)
qed

text \<open>The fields of a frame are in range, as comm_v1_send checks them.\<close>

definition fields_ok :: "packform \<Rightarrow> bool" where
  "fields_ok p \<longleftrightarrow> unat (pk_seq p) < 2 ^ 3 \<and> unat (pk_src p) < 2 ^ 4 \<and> unat (pk_dst p) < 2 ^ 4
     \<and> unat (pk_d_src p) < 2 ^ 3 \<and> unat (pk_d_dst p) < 2 ^ 3 \<and> unat (pk_cmd_set p) < 2 ^ 4
     \<and> unat (pk_cmd_word p) < 2 ^ 6"

lemma send_ok_fields: "send_ok p \<Longrightarrow> fields_ok p"
  by (auto simp: send_ok_def fields_ok_def word_less_nat_alt not_less)

lemma push_ucast_bit: "bit (push_bit k (ucast (x :: u8)) :: u32) n \<longleftrightarrow> k \<le> n \<and> n < 32 \<and> bit x (n - k)"
  by (auto simp: bit_simps)

lemma ucast_bit: "bit (ucast (x :: u8) :: u32) n \<longleftrightarrow> n < 32 \<and> bit x n"
  by (auto simp: bit_simps)

lemma msg_word_bit:
  "bit (msg_word p codec cmd ack) n \<longleftrightarrow> n < 32 \<and>
     (bit (pk_seq p) n \<or> (3 \<le> n \<and> bit (pk_dst p) (n - 3)) \<or> (7 \<le> n \<and> bit (pk_d_dst p) (n - 7))
      \<or> (10 \<le> n \<and> bit (pk_src p) (n - 10)) \<or> (14 \<le> n \<and> bit (pk_d_src p) (n - 14))
      \<or> (17 \<le> n \<and> bit (pk_cmd_set p) (n - 17)) \<or> (21 \<le> n \<and> bit (pk_cmd_word p) (n - 21))
      \<or> (27 \<le> n \<and> bit codec (n - 27)) \<or> (30 \<le> n \<and> bit cmd (n - 30)) \<or> (31 \<le> n \<and> bit ack (n - 31)))"
  unfolding msg_word_def bit_or_iff push_ucast_bit ucast_bit
  by (cases "n < 32") (simp_all only: simp_thms)

lemma field_at:
  assumes "\<And>i. i < w \<Longrightarrow> bit m (i + k) = bit x i" "unat x < 2 ^ w"
  shows "ucast (drop_bit k m AND mask w :: u32) = (x :: u8)"
proof (rule bit_word_eqI)
  fix n assume n: "n < LENGTH(8)"
  have "bit (ucast (drop_bit k m AND mask w :: u32) :: u8) n \<longleftrightarrow> n < w \<and> bit m (n + k)"
    using n by (auto simp: bit_simps add.commute)
  then show "bit (ucast (drop_bit k m AND mask w :: u32) :: u8) n = bit x n"
    using assms(1) small_bits [OF assms(2)] by auto
qed

text \<open>The fields the receiver takes from two MSG bytes are contiguous bits.\<close>

lemma join_bits:
  assumes "k' = k + a" "c = a + b"
  shows "(drop_bit k m AND mask a) OR push_bit a (drop_bit k' m AND mask b) = drop_bit k m AND (mask c :: u32)"
  unfolding assms
proof (rule bit_word_eqI)
  fix n assume n: "n < LENGTH(32)"
  show "bit ((drop_bit k m AND mask a) OR push_bit a (drop_bit (k + a) m AND mask b)) n
      = bit (drop_bit k m AND (mask (a + b) :: u32)) n"
  proof (cases "n < a")
    case True
    then show ?thesis using n by (simp add: bit_simps)
  next
    case False
    then have "k + a + (n - a) = k + n" "n - a < b \<longleftrightarrow> n < a + b" by auto
    then show ?thesis using n False by (auto simp: bit_simps)
  qed
qed

lemma joined_fields:
  "(drop_bit 7 m AND 0x01) OR push_bit 1 (drop_bit 8 m AND 0x03) = drop_bit 7 m AND (mask 3 :: u32)"
  "(drop_bit 14 m AND 0x03) OR push_bit 2 (drop_bit 16 m AND 0x01) = drop_bit 14 m AND (mask 3 :: u32)"
  "(drop_bit 21 m AND 0x07) OR push_bit 3 (drop_bit 24 m AND 0x07) = drop_bit 21 m AND (mask 6 :: u32)"
  unfolding masks by (rule join_bits; simp)+

lemma no_high_bits: "unat x < 2 ^ k \<Longrightarrow> k \<le> n \<Longrightarrow> bit (x :: u8) n = False"
  using small_bits by fastforce

lemma msg_word_fields:
  assumes p: "fields_ok p" and c: "unat codec < 2 ^ 3" "unat cmd < 2 ^ 1" "unat ack < 2 ^ 1"
  shows "msg_seq (msg_word p codec cmd ack) = pk_seq p" "msg_dst (msg_word p codec cmd ack) = pk_dst p"
    "msg_d_dst (msg_word p codec cmd ack) = pk_d_dst p" "msg_src (msg_word p codec cmd ack) = pk_src p"
    "msg_d_src (msg_word p codec cmd ack) = pk_d_src p" "msg_cmd_set (msg_word p codec cmd ack) = pk_cmd_set p"
    "msg_cmd_word (msg_word p codec cmd ack) = pk_cmd_word p" "msg_is_ack (msg_word p codec cmd ack) = ack"
    "msg_codec (msg_word p codec cmd ack) = codec"
    "ucast (drop_bit 30 (msg_word p codec cmd ack) AND 1) = cmd"
proof -
  have q: "unat (pk_seq p) < 2 ^ 3" "unat (pk_src p) < 2 ^ 4" "unat (pk_dst p) < 2 ^ 4"
    "unat (pk_d_src p) < 2 ^ 3" "unat (pk_d_dst p) < 2 ^ 3" "unat (pk_cmd_set p) < 2 ^ 4"
    "unat (pk_cmd_word p) < 2 ^ 6"
    using p unfolding fields_ok_def by blast+
  note b = no_high_bits [OF q(1)] no_high_bits [OF q(2)] no_high_bits [OF q(3)] no_high_bits [OF q(4)]
    no_high_bits [OF q(5)] no_high_bits [OF q(6)] no_high_bits [OF q(7)] no_high_bits [OF c(1)]
    no_high_bits [OF c(2)] no_high_bits [OF c(3)]
  let ?m = "msg_word p codec cmd ack"
  have "bit ?m (i + 0) = bit (pk_seq p) i" if "i < 3" for i
    using that by (simp add: msg_word_bit b)
  from field_at [OF this q(1)] have "ucast (drop_bit 0 ?m AND mask 3) = pk_seq p" .
  then show "msg_seq ?m = pk_seq p" unfolding msg_fields masks drop_bit_0 id_apply .
  have "bit ?m (i + 3) = bit (pk_dst p) i" if "i < 4" for i
    using that by (simp add: msg_word_bit b)
  from field_at [OF this q(3)] show "msg_dst ?m = pk_dst p" unfolding msg_fields masks .
  have "bit ?m (i + 7) = bit (pk_d_dst p) i" if "i < 3" for i
    using that by (simp add: msg_word_bit b)
  from field_at [OF this q(5)] show "msg_d_dst ?m = pk_d_dst p" unfolding msg_fields joined_fields .
  have "bit ?m (i + 10) = bit (pk_src p) i" if "i < 4" for i
    using that by (simp add: msg_word_bit b)
  from field_at [OF this q(2)] show "msg_src ?m = pk_src p" unfolding msg_fields masks .
  have "bit ?m (i + 14) = bit (pk_d_src p) i" if "i < 3" for i
    using that by (simp add: msg_word_bit b)
  from field_at [OF this q(4)] show "msg_d_src ?m = pk_d_src p" unfolding msg_fields joined_fields .
  have "bit ?m (i + 17) = bit (pk_cmd_set p) i" if "i < 4" for i
    using that by (simp add: msg_word_bit b)
  from field_at [OF this q(6)] show "msg_cmd_set ?m = pk_cmd_set p" unfolding msg_fields masks .
  have "bit ?m (i + 21) = bit (pk_cmd_word p) i" if "i < 6" for i
    using that by (simp add: msg_word_bit b)
  from field_at [OF this q(7)] show "msg_cmd_word ?m = pk_cmd_word p" unfolding msg_fields joined_fields .
  have "bit ?m (i + 27) = bit codec i" if "i < 3" for i
    using that by (simp add: msg_word_bit b)
  from field_at [OF this c(1)] show "msg_codec ?m = codec" unfolding msg_fields masks .
  have "bit ?m (i + 30) = bit cmd i" if "i < 1" for i
    using that by (simp add: msg_word_bit b)
  from field_at [OF this c(2)] show "ucast (drop_bit 30 ?m AND 1) = cmd" unfolding masks .
  have "bit ?m (i + 31) = bit ack i" if "i < 1" for i
    using that by (simp add: msg_word_bit b)
  from field_at [OF this c(3)] show "msg_is_ack ?m = ack" unfolding msg_fields masks .
qed

end
