(* ===== verification/Comm_V1.thy ===== *)
theory Comm_V1
  imports Comm_V1_Send Comm_Registry
begin

text \<open>
  The receiving half of code/data_source/comm/comm_v1.c: the 0xE9 state machine byte by byte
  and block-fed, duplicate rejection, decompression, CODEC_SELECT answers, local dispatch and
  forwarding.
\<close>

section \<open>The parser context\<close>

datatype v1_status = V1_IDLE | V1_MSG_L0 | V1_MSG_L1 | V1_MSG_L2 | V1_MSG_L3 | V1_LEN | V1_DATA | V1_SUM

text \<open>
  \<open>comm_v1_ctx_t\<close>; the buffers are as long as their size fields say.  The unused
  transmit work area of the context is left out.
\<close>

record comm_v1_ctx =
  v_data_buffer :: "u8 list"
  v_candidate_buffer :: "u8 list"
  v_candidate_size :: nat
  v_wire_buffer :: "u8 list"
  v_status :: v1_status
  v_index :: nat
  v_len :: nat
  v_sum :: u8
  v_msg :: u32
  v_msg_cnt :: nat
  v_wire_len :: nat
  v_is_route :: bool
  v_is_local :: bool
  v_pack :: packform
  v_func :: "nat option"
  v_last_seq :: u8
  v_last_seq_valid :: bool
  v_last_rx_tick :: u32
  v_src :: u8
  v_d_src :: u8
  v_link_id :: u8

text \<open>\<open>DECLARE_COMM_V1_CTX\<close>.\<close>

definition declare_comm_v1_ctx :: "u8 \<Rightarrow> u8 \<Rightarrow> comm_v1_ctx" where
  "declare_comm_v1_ctx src link_id =
     \<lparr>v_data_buffer = replicate 256 0, v_candidate_buffer = replicate 256 0, v_candidate_size = 256,
      v_wire_buffer = replicate 263 0, v_status = V1_IDLE, v_index = 0, v_len = 0, v_sum = 0, v_msg = 0,
      v_msg_cnt = 0, v_wire_len = 0, v_is_route = False, v_is_local = False, v_pack = empty_pack,
      v_func = None, v_last_seq = 0, v_last_seq_valid = False, v_last_rx_tick = 0, v_src = src,
      v_d_src = 0, v_link_id = link_id\<rparr>"

definition comm_v1_reset :: "comm_v1_ctx \<Rightarrow> comm_v1_ctx" where
  "comm_v1_reset ctx =
     ctx\<lparr>v_status := V1_IDLE, v_index := 0, v_len := 0, v_sum := 0, v_msg := 0, v_msg_cnt := 0,
         v_wire_len := 0, v_is_route := False, v_is_local := False, v_func := None\<rparr>"

definition comm_v1_reset_ctx :: "comm_v1_ctx option \<Rightarrow> comm_v1_ctx option" where
  "comm_v1_reset_ctx p_ctx = map_option comm_v1_reset p_ctx"

definition comm_v1_reset_session :: "comm_v1_ctx option \<Rightarrow> comm_v1_ctx option" where
  "comm_v1_reset_session p_ctx =
     map_option (\<lambda>ctx. (comm_v1_reset ctx)\<lparr>v_last_seq := 0, v_last_seq_valid := False\<rparr>) p_ctx"

text \<open>The frame as a callback or sender sees it: the pointer read through.\<close>

definition v1_pack_view :: "comm_v1_ctx \<Rightarrow> packform" where
  "v1_pack_view ctx =
     (case pk_data (v_pack ctx) of
        Data_Buffer \<Rightarrow> (v_pack ctx)\<lparr>pk_data := Bytes (v_data_buffer ctx)\<rparr>
      | Candidate_Buffer \<Rightarrow> (v_pack ctx)\<lparr>pk_data := Bytes (v_candidate_buffer ctx)\<rparr>
      | _ \<Rightarrow> v_pack ctx)"

section \<open>Lookups\<close>

definition comm_v1_find_func :: "section_com list \<Rightarrow> u8 \<Rightarrow> u8 \<Rightarrow> nat option" where
  "comm_v1_find_func cmds cmd_set cmd_word =
     (case List.find (com_matches cmd_set cmd_word) cmds of None \<Rightarrow> None | Some c \<Rightarrow> com_func c)"

definition comm_v1_is_route_target :: "comm_env \<Rightarrow> u8 \<Rightarrow> u8 \<Rightarrow> bool" where
  "comm_v1_is_route_target env link_id dst_addr \<longleftrightarrow> find_route (env_routes env) link_id dst_addr \<noteq> None"

text \<open>
  \<open>comm_v1_route_forward\<close>: the first matching route ends the search, usable or not.
\<close>

definition comm_v1_route_forward :: "comm_env \<Rightarrow> comm_v1_ctx \<Rightarrow> event list" where
  "comm_v1_route_forward env ctx =
     (case find_route (env_routes env) (v_link_id ctx) (pk_dst (v_pack ctx)) of
        None \<Rightarrow> []
      | Some r \<Rightarrow>
          (case find_link_by_id (env_links env) (rt_dst_link_id r) of
             None \<Rightarrow> []
           | Some l \<Rightarrow> transmit (lk_printf l) (take (v_wire_len ctx) (v_wire_buffer ctx))))"

section \<open>Decompression and CODEC_SELECT\<close>

definition comm_v1_decode_data :: "u8 \<Rightarrow> u8 list \<Rightarrow> nat \<Rightarrow> codec_io" where
  "comm_v1_decode_data codec p_input p_output_len =
     (if codec = CODEC_DICT then codec_dict_decode (Some p_input) (Some p_output_len) True 257
      else if codec = CODEC_RLE then codec_rle_decode (Some p_input) (Some p_output_len) True 257
      else if codec = CODEC_LZSS then codec_lzss_decode (Some p_input) (Some p_output_len) True 257
      else if codec = CODEC_ZERO then codec_zero_decode (Some p_input) (Some p_output_len) True 257
      else \<lparr>io_ret = 0, io_len = Some p_output_len, io_buf = []\<rparr>)"

definition codec_select_response :: "packform \<Rightarrow> packform" where
  "codec_select_response p =
     empty_pack\<lparr>pk_sop := 0xE9, pk_version := 1, pk_src := pk_dst p, pk_d_src := pk_d_dst p,
       pk_dst := pk_src p, pk_d_dst := pk_d_src p, pk_cmd_set := 0, pk_cmd_word := 0, pk_is_ack := 1,
       pk_seq := pk_seq p, pk_len := 8,
       pk_data := Bytes ([0, CODEC_DICT, codec_dict_codebook_id, codec_dict_codebook_version]
                         @ u32_le codec_dict_codebook_crc32)\<rparr>"

definition comm_v1_codec_select_handle ::
  "64 word list option \<Rightarrow> comm_v1_ctx \<Rightarrow> my_printf option \<Rightarrow> event list" where
  "comm_v1_codec_select_handle ready ctx printf =
     (if pk_is_ack (v_pack ctx) \<noteq> 0 then []
      else comm_v1_send ready (Some (codec_select_response (v_pack ctx))) printf)"

section \<open>The state machine\<close>

text \<open>\<open>p_wire_buffer[wire_len] = data; wire_len++\<close>, with the running SUM.\<close>

definition v1_capture :: "u8 \<Rightarrow> comm_v1_ctx \<Rightarrow> comm_v1_ctx" where
  "v1_capture data ctx =
     ctx\<lparr>v_sum := v_sum ctx + data,
         v_wire_buffer := (v_wire_buffer ctx)[v_wire_len ctx := data],
         v_wire_len := inc16 (v_wire_len ctx)\<rparr>"

definition v1_idle :: "u8 \<Rightarrow> comm_v1_ctx \<Rightarrow> comm_v1_ctx" where
  "v1_idle data ctx =
     (if data = 0xE9 then
        ctx\<lparr>v_wire_buffer := (v_wire_buffer ctx)[0 := data], v_wire_len := 1, v_sum := data, v_msg := 0,
            v_msg_cnt := 0, v_index := 0, v_len := 0, v_is_route := False, v_is_local := False,
            v_func := None, v_status := V1_MSG_L0\<rparr>
      else ctx)"

definition v1_msg_l0 :: "comm_env \<Rightarrow> u8 \<Rightarrow> comm_v1_ctx \<Rightarrow> comm_v1_ctx" where
  "v1_msg_l0 env data ctx =
     (let seq = data AND 0x07;
          dst = drop_bit 3 data AND 0x0F;
          is_duplicate = v_last_seq_valid ctx \<and> seq = v_last_seq ctx;
          is_local_static = dst = 0 \<or> dst = v_src ctx;
          is_route_target = comm_v1_is_route_target env (v_link_id ctx) dst;
          accept_header = \<not> is_duplicate \<and> (is_local_static \<or> is_route_target)
      in if \<not> accept_header then comm_v1_reset ctx
         else v1_capture data
                (ctx\<lparr>v_is_local := is_local_static, v_is_route := \<not> is_local_static \<and> is_route_target,
                     v_msg := ucast data, v_msg_cnt := 1, v_status := V1_MSG_L1\<rparr>))"

definition v1_msg_l1 :: "u8 \<Rightarrow> comm_v1_ctx \<Rightarrow> comm_v1_ctx" where
  "v1_msg_l1 data ctx =
     v1_capture data (ctx\<lparr>v_msg := v_msg ctx OR push_bit 8 (ucast data), v_msg_cnt := 2, v_status := V1_MSG_L2\<rparr>)"

definition v1_msg_l2 :: "u8 \<Rightarrow> comm_v1_ctx \<Rightarrow> comm_v1_ctx" where
  "v1_msg_l2 data ctx =
     v1_capture data (ctx\<lparr>v_msg := v_msg ctx OR push_bit 16 (ucast data), v_msg_cnt := 3, v_status := V1_MSG_L3\<rparr>)"

text \<open>The fields of the received MSG word.\<close>

definition v1_unpack :: "u32 \<Rightarrow> packform \<Rightarrow> packform" where
  "v1_unpack m p =
     p\<lparr>pk_sop := 0xE9, pk_version := 1, pk_seq := msg_seq m, pk_dst := msg_dst m, pk_d_dst := msg_d_dst m,
       pk_src := msg_src m, pk_d_src := msg_d_src m, pk_cmd_set := msg_cmd_set m,
       pk_cmd_word := msg_cmd_word m, pk_is_ack := msg_is_ack m\<rparr>"

definition v1_msg_l3 :: "u8 \<Rightarrow> comm_v1_ctx \<Rightarrow> comm_v1_ctx" where
  "v1_msg_l3 data ctx =
     (let msg_cmd = drop_bit 6 data AND 0x01;
          codec = drop_bit 3 data AND 0x07;
          m = v_msg ctx OR push_bit 24 (ucast data);
          ctx1 = v1_capture data (ctx\<lparr>v_msg := m, v_msg_cnt := 4\<rparr>);
          ctx2 = ctx1\<lparr>v_pack := v1_unpack m (v_pack ctx1)\<rparr>
      in if (msg_cmd = 1 \<and> codec \<noteq> CODEC_RAW) \<or> codec > CODEC_ZERO then comm_v1_reset ctx2
         else if \<not> v_is_route ctx2 \<and> \<not> (msg_d_dst m = 0 \<or> msg_d_dst m = v_d_src ctx2) then comm_v1_reset ctx2
         else if msg_cmd = 1 then
           ctx2\<lparr>v_pack := (v_pack ctx2)\<lparr>pk_data := Null_Ptr, pk_len := 0\<rparr>, v_status := V1_SUM\<rparr>
         else ctx2\<lparr>v_status := V1_LEN\<rparr>)"

definition v1_len_byte :: "u8 \<Rightarrow> comm_v1_ctx \<Rightarrow> comm_v1_ctx" where
  "v1_len_byte data ctx =
     v1_capture data (ctx\<lparr>v_len := (if data = 0 then 256 else unat data), v_index := 0, v_status := V1_DATA\<rparr>)"

definition v1_data_byte :: "u8 \<Rightarrow> comm_v1_ctx \<Rightarrow> comm_v1_ctx" where
  "v1_data_byte data ctx =
     (let ctx1 = v1_capture data
            (ctx\<lparr>v_data_buffer := (v_data_buffer ctx)[v_index ctx := data], v_index := inc16 (v_index ctx),
                 v_len := dec16 (v_len ctx)\<rparr>)
      in if v_len ctx1 = 0 then ctx1\<lparr>v_status := V1_SUM\<rparr> else ctx1)"

text \<open>Bytes copied over the front of a buffer; more bytes than it holds would grow the list.\<close>

definition blit :: "u8 list \<Rightarrow> nat \<Rightarrow> u8 list \<Rightarrow> u8 list" where
  "blit buf i bs = take i buf @ bs @ drop (i + length bs) buf"

text \<open>The accepted frame: SEQ recorded, then answered, forwarded or dispatched, then idle again.\<close>

definition v1_accept ::
  "64 word list option \<Rightarrow> comm_env \<Rightarrow> section_com list \<Rightarrow> my_printf option \<Rightarrow> comm_v1_ctx
     \<Rightarrow> comm_v1_ctx \<times> event list" where
  "v1_accept ready env cmds printf ctx =
     (let p = v_pack ctx;
          seen = ctx\<lparr>v_last_seq := pk_seq p, v_last_seq_valid := True\<rparr>
      in if pk_cmd_set p = 0 \<and> pk_cmd_word p = 0 then
           (comm_v1_reset seen, comm_v1_codec_select_handle ready seen printf)
         else if v_is_route ctx then (comm_v1_reset seen, comm_v1_route_forward env seen)
         else (case comm_v1_find_func cmds (pk_cmd_set p) (pk_cmd_word p) of
                 None \<Rightarrow> (comm_v1_reset ctx, [])
               | Some f \<Rightarrow> (comm_v1_reset seen, [Dispatch f (v1_pack_view seen) printf])))"

definition v1_sum_byte ::
  "64 word list option \<Rightarrow> comm_env \<Rightarrow> section_com list \<Rightarrow> my_printf option \<Rightarrow> u8 \<Rightarrow> comm_v1_ctx
     \<Rightarrow> comm_v1_ctx \<times> event list" where
  "v1_sum_byte ready env cmds printf data ctx =
     (let expected_sum = comm_sum_encode (Some (take (v_wire_len ctx) (v_wire_buffer ctx)));
          codec = msg_codec (v_msg ctx)
      in if data \<noteq> expected_sum then (comm_v1_reset ctx, [])
         else if codec \<noteq> CODEC_RAW then
           (let r = comm_v1_decode_data codec (take (v_index ctx) (v_data_buffer ctx)) (v_candidate_size ctx);
                ctx1 = ctx\<lparr>v_candidate_buffer := blit (v_candidate_buffer ctx) 0 (io_buf r)\<rparr>
            in if io_ret r \<noteq> 1 then (comm_v1_reset ctx1, [])
               else v1_accept ready env cmds printf
                      (ctx1\<lparr>v_pack := (v_pack ctx1)\<lparr>pk_data := Candidate_Buffer, pk_len := the (io_len r),
                                                     pk_crc := 0, pk_eop := 0\<rparr>\<rparr>))
         else v1_accept ready env cmds printf
                (ctx\<lparr>v_pack := (v_pack ctx)\<lparr>pk_data := Data_Buffer, pk_len := v_index ctx,
                                             pk_crc := 0, pk_eop := 0\<rparr>\<rparr>))"

text \<open>The half-frame timeout at the head of comm_v1_run.\<close>

definition v1_tick :: "u32 \<Rightarrow> comm_v1_ctx \<Rightarrow> comm_v1_ctx" where
  "v1_tick now ctx =
     (if v_status ctx \<noteq> V1_IDLE \<and> now - v_last_rx_tick ctx > 1000 then comm_v1_reset ctx else ctx)
       \<lparr>v_last_rx_tick := now\<rparr>"

text \<open>One byte at tick \<open>now\<close>: the whole handler.\<close>

definition v1_step ::
  "64 word list option \<Rightarrow> comm_env \<Rightarrow> section_com list \<Rightarrow> my_printf option \<Rightarrow> u32 \<Rightarrow> u8 \<Rightarrow> comm_v1_ctx
     \<Rightarrow> comm_v1_ctx \<times> event list" where
  "v1_step ready env cmds printf now data ctx =
     (let c = v1_tick now ctx
      in case v_status c of
           V1_IDLE \<Rightarrow> (v1_idle data c, [])
         | V1_MSG_L0 \<Rightarrow> (v1_msg_l0 env data c, [])
         | V1_MSG_L1 \<Rightarrow> (v1_msg_l1 data c, [])
         | V1_MSG_L2 \<Rightarrow> (v1_msg_l2 data c, [])
         | V1_MSG_L3 \<Rightarrow> (v1_msg_l3 data c, [])
         | V1_LEN \<Rightarrow> (v1_len_byte data c, [])
         | V1_DATA \<Rightarrow> (v1_data_byte data c, [])
         | V1_SUM \<Rightarrow> v1_sum_byte ready env cmds printf data c)"

text \<open>\<open>comm_v1_run\<close>, with the NULL test.\<close>

definition comm_v1_run ::
  "64 word list option \<Rightarrow> comm_env \<Rightarrow> section_com list \<Rightarrow> my_printf option \<Rightarrow> u32 \<Rightarrow> u8 \<Rightarrow> comm_v1_ctx option
     \<Rightarrow> comm_v1_ctx option \<times> event list" where
  "comm_v1_run ready env cmds printf now data p_context =
     (case p_context of
        None \<Rightarrow> (None, [])
      | Some ctx \<Rightarrow> (case v1_step ready env cmds printf now data ctx of (ctx', evs) \<Rightarrow> (Some ctx', evs)))"

section \<open>Blocks\<close>

text \<open>The bulk copy of payload bytes.\<close>

definition v1_bulk :: "u32 \<Rightarrow> u8 list \<Rightarrow> comm_v1_ctx \<Rightarrow> comm_v1_ctx" where
  "v1_bulk now bs ctx =
     (let ctx1 = ctx\<lparr>v_data_buffer := blit (v_data_buffer ctx) (v_index ctx) bs,
                     v_wire_buffer := blit (v_wire_buffer ctx) (v_wire_len ctx) bs,
                     v_sum := foldl (\<lambda>s b. s + b) (v_sum ctx) bs,
                     v_index := (v_index ctx + length bs) mod 65536,
                     v_wire_len := (v_wire_len ctx + length bs) mod 65536,
                     v_len := v_len ctx - length bs\<rparr>
      in (if v_len ctx1 = 0 then ctx1\<lparr>v_status := V1_SUM\<rparr> else ctx1)\<lparr>v_last_rx_tick := now\<rparr>)"

text \<open>
  The block loop over the bytes not yet consumed.  \<open>clk bs\<close> is the tick the code reads
  when \<open>bs\<close> is left to process.
\<close>

function v1_buffer_loop ::
  "64 word list option \<Rightarrow> comm_env \<Rightarrow> section_com list \<Rightarrow> my_printf option \<Rightarrow> (u8 list \<Rightarrow> u32) \<Rightarrow> u8 list
     \<Rightarrow> comm_v1_ctx \<Rightarrow> comm_v1_ctx \<times> event list" where
  "v1_buffer_loop ready env cmds printf clk bs ctx =
     (if bs = [] then (ctx, [])
      else
        (let rest = (if v_status ctx = V1_IDLE then dropWhile (\<lambda>b. b \<noteq> 0xE9) bs else bs)
         in if rest = [] then (ctx, [])
            else if v_status ctx = V1_DATA \<and> v_len ctx > 0 then
              (let copy_length = min (length rest) (v_len ctx)
               in v1_buffer_loop ready env cmds printf clk (drop copy_length rest)
                    (v1_bulk (clk rest) (take copy_length rest) ctx))
            else
              (case v1_step ready env cmds printf (clk rest) (hd rest) ctx of
                 (ctx1, evs1) \<Rightarrow>
                   (case v1_buffer_loop ready env cmds printf clk (tl rest) ctx1 of
                      (ctx2, evs2) \<Rightarrow> (ctx2, evs1 @ evs2)))))"
  by pat_completeness auto

lemma v1_rest_le: "length (if c then dropWhile P xs else xs) \<le> length xs"
  by (simp add: length_dropWhile_le)

termination v1_buffer_loop
proof (relation "measure (\<lambda>(ready, env, cmds, printf, clk, bs, ctx). length bs)", goal_cases)
  case (2 ready env cmds printf clk bs ctx rest n)
  then show ?case using v1_rest_le [of "v_status ctx = V1_IDLE" "\<lambda>b. b \<noteq> 0xE9" bs] by (auto simp: min_def)
next
  case (3 ready env cmds printf clk bs ctx rest)
  have "length rest \<le> length bs"
    using v1_rest_le [of "v_status ctx = V1_IDLE" "\<lambda>b. b \<noteq> 0xE9" bs] 3(2) by simp
  moreover have "0 < length bs" using 3(1) by simp
  ultimately have "length (tl rest) < length bs" unfolding length_tl by linarith
  then show ?case by simp
qed simp

declare v1_buffer_loop.simps [simp del]

definition comm_v1_run_buffer ::
  "64 word list option \<Rightarrow> comm_env \<Rightarrow> section_com list \<Rightarrow> my_printf option \<Rightarrow> (u8 list \<Rightarrow> u32) \<Rightarrow> u8 list option
     \<Rightarrow> comm_v1_ctx option \<Rightarrow> comm_v1_ctx option \<times> event list" where
  "comm_v1_run_buffer ready env cmds printf clk p_data p_context =
     (case (p_data, p_context) of
        (Some bs, Some ctx) \<Rightarrow>
          (case v1_buffer_loop ready env cmds printf clk bs ctx of (ctx', evs) \<Rightarrow> (Some ctx', evs))
      | _ \<Rightarrow> (p_context, []))"

section \<open>Feeding bytes\<close>

text \<open>Bytes with the tick at which each arrives, one after the other.\<close>

fun v1_feed ::
  "64 word list option \<Rightarrow> comm_env \<Rightarrow> section_com list \<Rightarrow> my_printf option \<Rightarrow> (u32 \<times> u8) list
     \<Rightarrow> comm_v1_ctx \<Rightarrow> comm_v1_ctx \<times> event list" where
  "v1_feed ready env cmds printf [] ctx = (ctx, [])"
| "v1_feed ready env cmds printf ((now, b) # bs) ctx =
     (case v1_step ready env cmds printf now b ctx of
        (ctx1, evs1) \<Rightarrow>
          (case v1_feed ready env cmds printf bs ctx1 of (ctx2, evs2) \<Rightarrow> (ctx2, evs1 @ evs2)))"

lemma v1_feed_append:
  "v1_feed ready env cmds printf (as @ bs) ctx =
     (case v1_feed ready env cmds printf as ctx of
        (ctx1, evs1) \<Rightarrow>
          (case v1_feed ready env cmds printf bs ctx1 of (ctx2, evs2) \<Rightarrow> (ctx2, evs1 @ evs2)))"
  by (induction as arbitrary: ctx) (auto split: prod.splits)

section \<open>The buffers\<close>

text \<open>
  The parser invariant: the buffers keep their sizes, and in each state the captured length and
  the payload index are where the state says.
\<close>

definition v1_ok :: "comm_v1_ctx \<Rightarrow> bool" where
  "v1_ok ctx \<longleftrightarrow>
     length (v_data_buffer ctx) = 256 \<and> length (v_candidate_buffer ctx) = 256 \<and> v_candidate_size ctx = 256 \<and>
     length (v_wire_buffer ctx) = 263 \<and>
     (case v_status ctx of
        V1_IDLE \<Rightarrow> True
      | V1_MSG_L0 \<Rightarrow> v_wire_len ctx = 1 \<and> v_index ctx = 0
      | V1_MSG_L1 \<Rightarrow> v_wire_len ctx = 2 \<and> v_index ctx = 0
      | V1_MSG_L2 \<Rightarrow> v_wire_len ctx = 3 \<and> v_index ctx = 0
      | V1_MSG_L3 \<Rightarrow> v_wire_len ctx = 4 \<and> v_index ctx = 0
      | V1_LEN \<Rightarrow> v_wire_len ctx = 5 \<and> v_index ctx = 0
      | V1_DATA \<Rightarrow> v_wire_len ctx = 6 + v_index ctx \<and> 0 < v_len ctx \<and> v_index ctx + v_len ctx \<le> 256
      | V1_SUM \<Rightarrow> v_wire_len ctx \<le> 262 \<and> v_index ctx \<le> 256)"

lemma length_blit [simp]: "i + length bs \<le> length buf \<Longrightarrow> length (blit buf i bs) = length buf"
  by (simp add: blit_def)

lemma v1_reset_ok [simp]: "v1_ok ctx \<Longrightarrow> v1_ok (comm_v1_reset ctx)"
  by (simp add: v1_ok_def comm_v1_reset_def)

lemma v1_tick_ok [simp]: "v1_ok ctx \<Longrightarrow> v1_ok (v1_tick now ctx)"
  by (auto simp: v1_tick_def v1_ok_def comm_v1_reset_def split: v1_status.splits)

lemma comm_v1_decode_store: "length (io_buf (comm_v1_decode_data codec xs 256)) \<le> 256"
  by (simp add: comm_v1_decode_data_def dict_codec.decode_store rle_codec.decode_store
        lzss_codec.decode_store zero_codec.decode_store)

lemma v1_accept_ok: "v1_ok ctx \<Longrightarrow> v1_ok (fst (v1_accept ready env cmds printf ctx))"
  by (auto simp: v1_accept_def Let_def v1_ok_def comm_v1_reset_def split: option.splits)

lemma v1_sum_ok:
  assumes "v1_ok ctx"
  shows "v1_ok (fst (v1_sum_byte ready env cmds printf data ctx))"
proof -
  let ?r = "comm_v1_decode_data (msg_codec (v_msg ctx)) (take (v_index ctx) (v_data_buffer ctx)) (v_candidate_size ctx)"
  have "v1_ok (ctx\<lparr>v_candidate_buffer := blit (v_candidate_buffer ctx) 0 (io_buf ?r)\<rparr>)"
    using assms comm_v1_decode_store by (auto simp: v1_ok_def split: v1_status.splits)
  then have "v1_ok (ctx\<lparr>v_candidate_buffer := blit (v_candidate_buffer ctx) 0 (io_buf ?r), v_pack := p\<rparr>)" for p
    by (auto simp: v1_ok_def split: v1_status.splits)
  moreover have "v1_ok (ctx\<lparr>v_pack := p\<rparr>)" for p
    using assms by (auto simp: v1_ok_def split: v1_status.splits)
  ultimately show ?thesis
    using assms \<open>v1_ok (ctx\<lparr>v_candidate_buffer := _\<rparr>)\<close>
    by (simp add: v1_sum_byte_def Let_def v1_accept_ok)
qed

lemma v1_step_ok: "v1_ok ctx \<Longrightarrow> v1_ok (fst (v1_step ready env cmds printf now data ctx))"
proof -
  assume "v1_ok ctx"
  then have c: "v1_ok (v1_tick now ctx)" by simp
  let ?c = "v1_tick now ctx"
  have len: "unat data \<le> 255" using unat_u8_less [of data] by simp
  show ?thesis
  proof (cases "v_status ?c")
    case V1_SUM
    then show ?thesis using v1_sum_ok [OF c] by (simp add: v1_step_def Let_def)
  next
    case V1_DATA
    then have b: "v_index ?c < 256" "v_wire_len ?c = 6 + v_index ?c" "0 < v_len ?c" "v_index ?c + v_len ?c \<le> 256"
      using c by (auto simp: v1_ok_def)
    then show ?thesis
      using c V1_DATA
      by (auto simp: v1_step_def v1_data_byte_def v1_capture_def Let_def v1_ok_def)
  qed (use c len in \<open>auto simp: v1_step_def v1_idle_def v1_msg_l0_def v1_msg_l1_def v1_msg_l2_def v1_msg_l3_def
         v1_len_byte_def v1_capture_def v1_ok_def comm_v1_reset_def Let_def unat_gt_0\<close>)
qed

lemma v1_feed_ok: "v1_ok ctx \<Longrightarrow> v1_ok (fst (v1_feed ready env cmds printf bs ctx))"
proof (induction bs arbitrary: ctx)
  case (Cons nb bs)
  obtain now b where nb: "nb = (now, b)" by (cases nb)
  show ?case
    using Cons.IH [OF v1_step_ok [OF Cons.prems, of ready env cmds printf now b]]
    by (auto simp: nb split: prod.splits)
qed simp

lemma declare_v1_ok: "v1_ok (declare_comm_v1_ctx src link_id)"
  by (simp add: v1_ok_def declare_comm_v1_ctx_def)

section \<open>Blocks and single bytes\<close>

lemma blit_Cons: "i < length buf \<Longrightarrow> blit (buf[i := b]) (Suc i) bs = blit buf i (b # bs)"
  by (simp add: blit_def take_Suc_conv_app_nth)

lemma blit_Nil [simp]: "blit buf i [] = buf"
  by (simp add: blit_def)

text \<open>A frame in progress has heard from its link within the timeout.\<close>

definition v1_fresh :: "u32 \<Rightarrow> comm_v1_ctx \<Rightarrow> bool" where
  "v1_fresh now ctx \<longleftrightarrow> v_status ctx = V1_IDLE \<or> now - v_last_rx_tick ctx \<le> 1000"

lemma v1_tick_fresh: "v1_fresh now ctx \<Longrightarrow> v1_tick now ctx = ctx\<lparr>v_last_rx_tick := now\<rparr>"
  by (auto simp: v1_tick_def v1_fresh_def)

lemma v1_step_data:
  assumes "v1_ok ctx" "v_status ctx = V1_DATA" "v1_fresh now ctx"
  shows "v1_step ready env cmds printf now b ctx = (v1_bulk now [b] ctx, [])"
proof -
  have b: "v_index ctx < 256" "v_wire_len ctx = 6 + v_index ctx" "0 < v_len ctx" "v_index ctx + v_len ctx \<le> 256"
    "length (v_data_buffer ctx) = 256" "length (v_wire_buffer ctx) = 263"
    using assms(1,2) by (auto simp: v1_ok_def)
  have "blit (v_data_buffer ctx) (v_index ctx) [b] = (v_data_buffer ctx)[v_index ctx := b]"
    "blit (v_wire_buffer ctx) (v_wire_len ctx) [b] = (v_wire_buffer ctx)[v_wire_len ctx := b]"
    using b by (simp_all add: blit_def upd_conv_take_nth_drop)
  then show ?thesis
    using assms(2) b v1_tick_fresh [OF assms(3)]
    by (simp add: v1_step_def v1_data_byte_def v1_capture_def v1_bulk_def Let_def)
qed

lemma v1_bulk_more:
  assumes "v1_ok ctx" "v_status ctx = V1_DATA" "Suc (length bs) \<le> v_len ctx" "bs \<noteq> []"
  shows "v1_bulk now bs (v1_bulk now [b] ctx) = v1_bulk now (b # bs) ctx"
proof -
  have b: "v_index ctx + v_len ctx \<le> 256" "v_wire_len ctx = 6 + v_index ctx"
    "length (v_data_buffer ctx) = 256" "length (v_wire_buffer ctx) = 263"
    using assms(1,2) by (auto simp: v1_ok_def)
  have "blit (v_data_buffer ctx) (v_index ctx) [b] = (v_data_buffer ctx)[v_index ctx := b]"
    "blit (v_wire_buffer ctx) (v_wire_len ctx) [b] = (v_wire_buffer ctx)[v_wire_len ctx := b]"
    using b assms(3) by (simp_all add: blit_def upd_conv_take_nth_drop)
  moreover have "v_len ctx \<noteq> 1" using assms(3,4) by (cases bs) auto
  moreover have "blit ((v_wire_buffer ctx)[6 + v_index ctx := b]) (7 + v_index ctx) bs
      = blit (v_wire_buffer ctx) (6 + v_index ctx) (b # bs)"
    using blit_Cons [of "6 + v_index ctx" "v_wire_buffer ctx" b bs] b assms(3) by simp
  ultimately show ?thesis
    using b assms(3) by (auto simp: v1_bulk_def Let_def blit_Cons add.assoc)
qed

lemma v1_feed_bulk:
  assumes "v1_ok ctx" "v_status ctx = V1_DATA" "v1_fresh now ctx" "length bs \<le> v_len ctx" "bs \<noteq> []"
  shows "v1_feed ready env cmds printf (map (Pair now) bs) ctx = (v1_bulk now bs ctx, [])"
  using assms
proof (induction bs arbitrary: ctx)
  case (Cons b bs)
  note step = v1_step_data [OF Cons.prems(1-3), of ready env cmds printf b]
  show ?case
  proof (cases "bs = []")
    case True
    then show ?thesis by (simp add: step)
  next
    case False
    let ?c = "v1_bulk now [b] ctx"
    have ok: "v1_ok ?c" using v1_step_ok [OF Cons.prems(1), of ready env cmds printf now b] step by simp
    have "v_len ctx \<noteq> 1" using Cons.prems(4) False by (cases bs) auto
    then have c: "v_status ?c = V1_DATA" "v_len ?c = v_len ctx - 1" "v1_fresh now ?c"
      using Cons.prems(2,4) by (auto simp: v1_bulk_def Let_def v1_fresh_def)
    have "v1_feed ready env cmds printf (map (Pair now) bs) ?c = (v1_bulk now bs ?c, [])"
      using Cons.prems(4) False ok c by (intro Cons.IH) auto
    then show ?thesis
      using step v1_bulk_more [OF Cons.prems(1,2) _ False, of now b] Cons.prems(4) by simp
  qed
qed simp

lemma v1_feed_idle:
  assumes "v_status ctx = V1_IDLE" "0xE9 \<notin> set bs"
  shows "v1_feed ready env cmds printf (map (Pair now) bs) ctx =
    (if bs = [] then ctx else ctx\<lparr>v_last_rx_tick := now\<rparr>, [])"
  using assms
proof (induction bs arbitrary: ctx)
  case (Cons b bs)
  have "v1_step ready env cmds printf now b ctx = (ctx\<lparr>v_last_rx_tick := now\<rparr>, [])"
    using Cons.prems by (simp add: v1_step_def v1_tick_def v1_idle_def Let_def)
  then show ?case using Cons.IH [of "ctx\<lparr>v_last_rx_tick := now\<rparr>"] Cons.prems by auto
qed simp

text \<open>An idle parser's last tick is never read.\<close>

lemma v1_step_idle_tick:
  "v_status ctx = V1_IDLE \<Longrightarrow>
     v1_step ready env cmds printf now b (ctx\<lparr>v_last_rx_tick := t\<rparr>) = v1_step ready env cmds printf now b ctx"
  by (simp add: v1_step_def v1_tick_def Let_def)

text \<open>The two ways of feeding a block agree, up to the last tick of an idle parser.\<close>

definition v1_same :: "comm_v1_ctx \<Rightarrow> comm_v1_ctx \<Rightarrow> bool" where
  "v1_same c d \<longleftrightarrow> c = d \<or> (v_status c = V1_IDLE \<and> (\<exists>t. d = c\<lparr>v_last_rx_tick := t\<rparr>))"

lemma v1_step_same:
  "v1_same c d \<Longrightarrow> v1_step ready env cmds printf now b c = v1_step ready env cmds printf now b d"
  unfolding v1_same_def using v1_step_idle_tick by metis

lemma v1_feed_same:
  assumes "v1_same c d"
  shows "v1_same (fst (v1_feed ready env cmds printf bs c)) (fst (v1_feed ready env cmds printf bs d))
    \<and> snd (v1_feed ready env cmds printf bs c) = snd (v1_feed ready env cmds printf bs d)"
proof (cases bs)
  case Nil
  then show ?thesis using assms by simp
next
  case (Cons nb bs')
  then show ?thesis
    using v1_step_same [OF assms] by (cases nb) (simp add: v1_same_def)
qed

lemma v1_same_trans:
  assumes "v1_same a b" "v1_same b c"
  shows "v1_same a c"
proof -
  from assms(1) consider (eq) "a = b" | (idle) t where "v_status a = V1_IDLE" "b = a\<lparr>v_last_rx_tick := t\<rparr>"
    unfolding v1_same_def by blast
  then show ?thesis
  proof cases
    case eq
    then show ?thesis using assms(2) by simp
  next
    case idle
    from assms(2) consider "b = c" | t' where "c = b\<lparr>v_last_rx_tick := t'\<rparr>"
      unfolding v1_same_def by blast
    then show ?thesis
    proof cases
      case 1
      then show ?thesis using assms(1) by simp
    next
      case (2 t')
      then have "c = a\<lparr>v_last_rx_tick := t'\<rparr>" by (simp only: idle(2)) simp
      then show ?thesis using idle(1) unfolding v1_same_def by blast
    qed
  qed
qed

lemma v1_step_tick: "v_last_rx_tick (fst (v1_step ready env cmds printf now b ctx)) = now"
proof -
  have a: "v_last_rx_tick (fst (v1_accept ready env cmds printf c)) = v_last_rx_tick c" for c
    by (auto simp: v1_accept_def Let_def comm_v1_reset_def split: option.splits)
  have t: "v_last_rx_tick (v1_tick now ctx) = now" by (simp add: v1_tick_def)
  then show ?thesis
    by (cases "v_status (v1_tick now ctx)")
       (auto simp: v1_step_def v1_idle_def v1_msg_l0_def v1_msg_l1_def v1_msg_l2_def v1_msg_l3_def
         v1_len_byte_def v1_data_byte_def v1_sum_byte_def v1_capture_def comm_v1_reset_def Let_def a)
qed

lemma v1_bulk_ok:
  assumes "v1_ok ctx" "v_status ctx = V1_DATA" "length bs \<le> v_len ctx"
  shows "v1_ok (v1_bulk now bs ctx)"
  using assms by (auto simp: v1_ok_def v1_bulk_def Let_def)

lemma v1_buffer_loop_feed:
  assumes "v1_ok ctx" "v1_fresh now ctx"
  shows "v1_same (fst (v1_buffer_loop ready env cmds printf (\<lambda>_. now) bs ctx))
                 (fst (v1_feed ready env cmds printf (map (Pair now) bs) ctx))
    \<and> snd (v1_buffer_loop ready env cmds printf (\<lambda>_. now) bs ctx)
      = snd (v1_feed ready env cmds printf (map (Pair now) bs) ctx)"
  using assms
proof (induction "length bs" arbitrary: bs ctx rule: less_induct)
  case (less bs ctx)
  let ?L = "v1_buffer_loop ready env cmds printf (\<lambda>_. now)"
  let ?F = "\<lambda>bs. v1_feed ready env cmds printf (map (Pair now) bs)"
  let ?rest = "if v_status ctx = V1_IDLE then dropWhile (\<lambda>b. b \<noteq> 0xE9) bs else bs"
  let ?pre = "if v_status ctx = V1_IDLE then takeWhile (\<lambda>b. b \<noteq> 0xE9) bs else []"
  have bs: "bs = ?pre @ ?rest" by simp
  obtain c0 where c0: "?F ?pre ctx = (c0, [])" "v1_same ctx c0" "v1_ok c0"
  proof -
    have "0xE9 \<notin> set (takeWhile (\<lambda>b. b \<noteq> 0xE9) bs)" by (auto dest: set_takeWhileD)
    then have "?F ?pre ctx = (if v_status ctx = V1_IDLE \<and> ?pre \<noteq> [] then ctx\<lparr>v_last_rx_tick := now\<rparr> else ctx, [])"
      using v1_feed_idle [of ctx "takeWhile (\<lambda>b. b \<noteq> 0xE9) bs" ready env cmds printf now] by auto
    moreover have "v1_same ctx (if v_status ctx = V1_IDLE \<and> ?pre \<noteq> [] then ctx\<lparr>v_last_rx_tick := now\<rparr> else ctx)"
      by (auto simp: v1_same_def)
    moreover have "v1_ok (if v_status ctx = V1_IDLE \<and> ?pre \<noteq> [] then ctx\<lparr>v_last_rx_tick := now\<rparr> else ctx)"
      using less.prems(1) by (auto simp: v1_ok_def split: v1_status.splits)
    ultimately show ?thesis using that by blast
  qed
  have feed: "?F bs ctx = (case ?F ?rest c0 of (c, e) \<Rightarrow> (c, e))"
    using c0(1) by (subst bs) (simp only: map_append v1_feed_append prod.case append_Nil)
  have "v1_same (fst (?L bs ctx)) (fst (?F ?rest ctx)) \<and> snd (?L bs ctx) = snd (?F ?rest ctx)"
  proof (cases "bs = [] \<or> ?rest = []")
    case True
    then have re: "?rest = []" by (cases "bs = []") auto
    then have "?L bs ctx = (ctx, [])" by (subst v1_buffer_loop.simps) (simp only: Let_def simp_thms if_True if_cancel)
    then show ?thesis unfolding re by (simp add: v1_same_def)
  next
    case False
    then obtain b r where r: "?rest = b # r" by (cases ?rest) auto
    have len: "length ?rest \<le> length bs" by (rule v1_rest_le)
    show ?thesis
    proof (cases "v_status ctx = V1_DATA \<and> v_len ctx > 0")
      case data: True
      let ?n = "min (length bs) (v_len ctx)"
      let ?c = "v1_bulk now (take ?n bs) ctx"
      have L: "?L bs ctx = ?L (drop ?n bs) ?c"
        using False data by (subst v1_buffer_loop.simps) (simp add: Let_def)
      have n: "0 < ?n" "take ?n bs \<noteq> []" using False data by auto
      have F: "?F (take ?n bs) ctx = (?c, [])"
        using less.prems data n by (intro v1_feed_bulk) auto
      have "?F (take ?n bs @ drop ?n bs) ctx = ?F (drop ?n bs) ?c"
        unfolding map_append v1_feed_append F by simp
      then have "?F bs ctx = ?F (drop ?n bs) ?c" by simp
      moreover have "v1_fresh now ?c" by (simp add: v1_fresh_def v1_bulk_def Let_def)
      moreover have "v1_ok ?c" using less.prems(1) data by (intro v1_bulk_ok) auto
      ultimately show ?thesis
        using less.hyps [of "drop ?n bs" ?c] L n data by (auto simp: False)
    next
      case byte: False
      obtain c1 e1 where s: "v1_step ready env cmds printf now b ctx = (c1, e1)" by fastforce
      have c1: "v1_ok c1" "v1_fresh now c1"
        using v1_step_ok [OF less.prems(1), of ready env cmds printf now b]
          v1_step_tick [of ready env cmds printf now b ctx] s by (simp_all add: v1_fresh_def)
      have "?L bs ctx = (case ?L r c1 of (c2, e2) \<Rightarrow> (c2, e1 @ e2))"
      proof -
        have "(bs = []) = False" "(v_status ctx = V1_DATA \<and> v_len ctx > 0) = False" using False byte by auto
        then show ?thesis
          by (subst v1_buffer_loop.simps) (simp only: Let_def r list.distinct list.sel if_False s prod.case)
      qed
      moreover have "?F ?rest ctx = (case ?F r c1 of (c2, e2) \<Rightarrow> (c2, e1 @ e2))"
        unfolding r by (simp add: s)
      moreover have "length r < length bs" using len unfolding r by simp
      ultimately show ?thesis
        using less.hyps [OF _ c1, of r] by (auto split: prod.splits)
    qed
  qed
  moreover have "v1_same (fst (?F ?rest ctx)) (fst (?F ?rest c0)) \<and> snd (?F ?rest ctx) = snd (?F ?rest c0)"
    by (rule v1_feed_same [OF c0(2)])
  ultimately show ?case unfolding feed using v1_same_trans by (auto split: prod.splits)
qed

section \<open>What has been captured\<close>

text \<open>
  \<open>h\<close> is everything received so far.  Inside a frame the captured bytes are the last
  \<open>wire_len\<close> of them, starting with the SOP.
\<close>

definition v1_captured :: "comm_v1_ctx \<Rightarrow> u8 list" where
  "v1_captured ctx = take (v_wire_len ctx) (v_wire_buffer ctx)"

definition v1_hist :: "u8 list \<Rightarrow> comm_v1_ctx \<Rightarrow> bool" where
  "v1_hist h ctx \<longleftrightarrow>
     (v_status ctx \<noteq> V1_IDLE \<longrightarrow>
        (\<exists>pre w. h = pre @ 0xE9 # w \<and> v1_captured ctx = 0xE9 # w))"

lemma v1_capture_captured:
  "v_wire_len ctx < length (v_wire_buffer ctx) \<Longrightarrow> length (v_wire_buffer ctx) = 263 \<Longrightarrow>
     v1_captured (v1_capture b ctx) = v1_captured ctx @ [b]"
  by (simp add: v1_captured_def v1_capture_def take_Suc_conv_app_nth)

lemma v1_capture_status [simp]:
  "v_status (v1_capture b ctx) = v_status ctx" "v_msg (v1_capture b ctx) = v_msg ctx"
  "v_last_seq (v1_capture b ctx) = v_last_seq ctx" "v_last_seq_valid (v1_capture b ctx) = v_last_seq_valid ctx"
  "v_pack (v1_capture b ctx) = v_pack ctx" "v_is_route (v1_capture b ctx) = v_is_route ctx"
  "v_d_src (v1_capture b ctx) = v_d_src ctx" "v_len (v1_capture b ctx) = v_len ctx"
  "v_src (v1_capture b ctx) = v_src ctx" "v_link_id (v1_capture b ctx) = v_link_id ctx"
  "v_index (v1_capture b ctx) = v_index ctx" "v_data_buffer (v1_capture b ctx) = v_data_buffer ctx"
  by (simp_all add: v1_capture_def)

lemma v1_hist_capture:
  assumes "v1_hist h ctx" "v_status ctx \<noteq> V1_IDLE" "v1_captured c = v1_captured ctx @ [b]"
  shows "v1_hist (h @ [b]) c"
proof -
  obtain pre w where "h = pre @ 0xE9 # w" "v1_captured ctx = 0xE9 # w"
    using assms(1,2) unfolding v1_hist_def by blast
  then have "h @ [b] = pre @ 0xE9 # (w @ [b])" "v1_captured c = 0xE9 # (w @ [b])"
    using assms(3) by auto
  then show ?thesis unfolding v1_hist_def by blast
qed

lemma v1_reset_idle [simp]: "v_status (comm_v1_reset ctx) = V1_IDLE"
  by (simp add: comm_v1_reset_def)

lemma v1_hist_idle [simp]: "v_status ctx = V1_IDLE \<Longrightarrow> v1_hist h ctx"
  by (simp add: v1_hist_def)

lemma v1_accept_idle: "v_status (fst (v1_accept ready env cmds printf ctx)) = V1_IDLE"
  by (auto simp: v1_accept_def Let_def split: option.splits)

lemma v1_sum_idle: "v_status (fst (v1_sum_byte ready env cmds printf b ctx)) = V1_IDLE"
  by (simp add: v1_sum_byte_def Let_def v1_accept_idle)

lemma take_snoc: "n < length xs \<Longrightarrow> take (Suc n) (xs[n := b]) = take n xs @ [b]"
  by (simp add: take_Suc_conv_app_nth)

lemma take_header:
  assumes "length xs = 263"
  shows "take (Suc (Suc 0)) (xs[Suc 0 := b]) = take (Suc 0) xs @ [b]" "take 3 (xs[2 := b]) = take 2 xs @ [b]"
    "take 4 (xs[3 := b]) = take 3 xs @ [b]" "take 5 (xs[4 := b]) = take 4 xs @ [b]"
    "take 6 (xs[5 := b]) = take 5 xs @ [b]"
  using take_snoc [of 1 xs b] take_snoc [of 2 xs b] take_snoc [of 3 xs b] take_snoc [of 4 xs b]
    take_snoc [of 5 xs b] assms by simp_all

text \<open>A byte is captured, starts a frame, or leaves the parser idle.\<close>

lemma v1_step_captured:
  assumes "v1_ok ctx"
  shows "v_status (fst (v1_step ready env cmds printf now b ctx)) = V1_IDLE
    \<or> (b = 0xE9 \<and> v1_captured (fst (v1_step ready env cmds printf now b ctx)) = [0xE9])
    \<or> (v_status (v1_tick now ctx) \<noteq> V1_IDLE \<and>
        v1_captured (fst (v1_step ready env cmds printf now b ctx)) = v1_captured (v1_tick now ctx) @ [b])"
proof -
  let ?c = "v1_tick now ctx"
  have ok: "v1_ok ?c" using assms by simp
  have cap: "v1_captured (v1_capture b d) = v1_captured d @ [b]"
    if "v_wire_len d < 263" "length (v_wire_buffer d) = 263" for d
    using v1_capture_captured that by simp
  have fields: "v1_captured (d\<lparr>v_status := s\<rparr>) = v1_captured d" "v1_captured (d\<lparr>v_pack := p\<rparr>) = v1_captured d"
    "v1_captured (d\<lparr>v_pack := p, v_status := s\<rparr>) = v1_captured d" for d s p
    by (simp_all add: v1_captured_def)
  show ?thesis
  proof (cases "v_status ?c")
    case V1_IDLE
    obtain x xs where "v_wire_buffer ?c = x # xs" using ok by (cases "v_wire_buffer ?c") (auto simp: v1_ok_def)
    then show ?thesis
      using V1_IDLE by (auto simp: v1_step_def v1_idle_def Let_def v1_captured_def)
  next
    case V1_SUM
    then show ?thesis by (simp add: v1_step_def Let_def v1_sum_idle)
  next
    case V1_MSG_L0
    then show ?thesis
      using ok by (auto simp: v1_step_def v1_msg_l0_def Let_def v1_ok_def cap v1_captured_def v1_capture_def take_header)
  next
    case V1_MSG_L1
    then show ?thesis
      using ok by (auto simp: v1_step_def v1_msg_l1_def Let_def v1_ok_def v1_captured_def v1_capture_def take_header)
  next
    case V1_MSG_L2
    then show ?thesis
      using ok by (auto simp: v1_step_def v1_msg_l2_def Let_def v1_ok_def v1_captured_def v1_capture_def take_header)
  next
    case V1_MSG_L3
    then show ?thesis
      using ok by (auto simp: v1_step_def v1_msg_l3_def Let_def v1_ok_def v1_captured_def v1_capture_def take_header)
  next
    case V1_LEN
    then show ?thesis
      using ok by (auto simp: v1_step_def v1_len_byte_def Let_def v1_ok_def v1_captured_def v1_capture_def take_header)
  next
    case V1_DATA
    have "length (v_wire_buffer ?c) = 263" "v_wire_len ?c = 6 + v_index ?c" "v_wire_len ?c < 263"
      using ok V1_DATA by (auto simp: v1_ok_def)
    then have "v1_captured (v1_capture b ?c) = v1_captured ?c @ [b]" using cap by simp
    moreover have "v1_captured (fst (v1_step ready env cmds printf now b ctx)) = v1_captured (v1_capture b ?c)"
      using V1_DATA by (simp add: v1_step_def v1_data_byte_def Let_def v1_captured_def v1_capture_def)
    ultimately show ?thesis using V1_DATA by simp
  qed
qed

lemma v1_tick_cases:
  "v_status (v1_tick now ctx) = V1_IDLE \<or>
     (v_status (v1_tick now ctx) = v_status ctx \<and> v1_tick now ctx = ctx\<lparr>v_last_rx_tick := now\<rparr>)"
  by (auto simp: v1_tick_def)

lemma v1_tick_hist: "v1_hist h ctx \<Longrightarrow> v1_hist h (v1_tick now ctx)"
  using v1_tick_cases [of now ctx] by (auto simp: v1_hist_def v1_captured_def)

lemma v1_step_hist:
  assumes "v1_ok ctx" "v1_hist h ctx"
  shows "v1_hist (h @ [b]) (fst (v1_step ready env cmds printf now b ctx))"
  using v1_step_captured [OF assms(1), of ready env cmds printf now b]
proof (elim disjE conjE)
  assume "b = 0xE9" "v1_captured (fst (v1_step ready env cmds printf now b ctx)) = [0xE9]"
  then show ?thesis unfolding v1_hist_def by blast
next
  assume "v_status (v1_tick now ctx) \<noteq> V1_IDLE"
    "v1_captured (fst (v1_step ready env cmds printf now b ctx)) = v1_captured (v1_tick now ctx) @ [b]"
  then show ?thesis using v1_hist_capture [OF v1_tick_hist [OF assms(2)]] by blast
qed simp

lemma v1_feed_hist:
  "v1_ok ctx \<Longrightarrow> v1_hist h ctx \<Longrightarrow> v1_hist (h @ map snd bs) (fst (v1_feed ready env cmds printf bs ctx))"
proof (induction bs arbitrary: ctx h)
  case (Cons nb bs)
  obtain now b where nb: "nb = (now, b)" by (cases nb)
  show ?case
    using Cons.IH [OF v1_step_ok [OF Cons.prems(1), of ready env cmds printf now b]
        v1_step_hist [OF Cons.prems, of b ready env cmds printf now]]
    by (auto simp: nb split: prod.splits)
qed simp

lemma v1_step_event:
  assumes "snd (v1_step ready env cmds printf now b ctx) \<noteq> []"
  shows "v_status ctx = V1_SUM" "v1_tick now ctx = ctx\<lparr>v_last_rx_tick := now\<rparr>"
    "b = comm_sum_encode (Some (v1_captured ctx))"
proof -
  have s: "v_status (v1_tick now ctx) = V1_SUM"
    using assms by (cases "v_status (v1_tick now ctx)") (auto simp: v1_step_def Let_def)
  then show t: "v_status ctx = V1_SUM" "v1_tick now ctx = ctx\<lparr>v_last_rx_tick := now\<rparr>"
    using v1_tick_cases [of now ctx] by auto
  show "b = comm_sum_encode (Some (v1_captured ctx))"
    using assms s t by (auto simp: v1_step_def Let_def v1_sum_byte_def v1_captured_def split: if_splits)
qed

section \<open>Sequence numbers\<close>

text \<open>A frame in progress never carries the SEQ of the last accepted frame.\<close>

definition v1_seq_ok :: "comm_v1_ctx \<Rightarrow> bool" where
  "v1_seq_ok ctx \<longleftrightarrow>
     (v_status ctx \<in> {V1_MSG_L1, V1_MSG_L2, V1_MSG_L3, V1_LEN, V1_DATA, V1_SUM} \<longrightarrow>
        v_last_seq_valid ctx \<longrightarrow> msg_seq (v_msg ctx) \<noteq> v_last_seq ctx) \<and>
     (v_status ctx \<in> {V1_LEN, V1_DATA, V1_SUM} \<longrightarrow> pk_seq (v_pack ctx) = msg_seq (v_msg ctx))"

lemma msg_seq_first: "msg_seq (ucast (d :: u8)) = d AND 0x07"
  unfolding msg_seq_def masks
proof (rule bit_word_eqI)
  fix n assume "n < LENGTH(8)"
  then show "bit (ucast (ucast d AND mask 3 :: u32) :: u8) n = bit (d AND mask 3) n"
    by (cases "n < 3") (simp_all add: bit_simps)
qed

lemma msg_seq_more: "8 \<le> k \<Longrightarrow> msg_seq (m OR push_bit k x) = msg_seq m"
  unfolding msg_seq_def masks
proof (rule bit_word_eqI)
  fix n assume "8 \<le> k" "n < LENGTH(8)"
  then show "bit (ucast ((m OR push_bit k x) AND mask 3) :: u8) n = bit (ucast (m AND mask 3) :: u8) n"
    by (cases "n < 3") (simp_all add: bit_simps)
qed

lemmas msg_seq_low = msg_seq_first msg_seq_more

lemma v1_idle_seq: "v_status ctx = V1_IDLE \<Longrightarrow> v1_seq_ok ctx"
  by (simp add: v1_seq_ok_def)

lemma v1_tick_seq:
  assumes "v1_seq_ok ctx"
  shows "v1_seq_ok (v1_tick now ctx)"
proof (cases "v_status (v1_tick now ctx) = V1_IDLE")
  case False
  then have eq: "v1_tick now ctx = ctx\<lparr>v_last_rx_tick := now\<rparr>" using v1_tick_cases by blast
  show ?thesis unfolding eq using assms by (simp add: v1_seq_ok_def)
qed (rule v1_idle_seq)

lemma v1_step_seq:
  assumes "v1_seq_ok ctx"
  shows "v1_seq_ok (fst (v1_step ready env cmds printf now b ctx))"
proof -
  let ?c = "v1_tick now ctx"
  have c: "v1_seq_ok ?c" using assms by (rule v1_tick_seq)
  show ?thesis
  proof (cases "v_status ?c")
    case V1_SUM
    then show ?thesis by (simp add: v1_step_def Let_def v1_idle_seq v1_sum_idle)
  next
    case V1_IDLE
    then show ?thesis by (simp add: v1_step_def v1_idle_def v1_seq_ok_def Let_def)
  next
    case V1_MSG_L0
    then show ?thesis
      using c by (auto simp: v1_step_def v1_msg_l0_def v1_seq_ok_def Let_def msg_seq_low)
  next
    case V1_MSG_L1
    then show ?thesis
      using c by (auto simp: v1_step_def v1_msg_l1_def v1_seq_ok_def Let_def msg_seq_low)
  next
    case V1_MSG_L2
    then show ?thesis
      using c by (auto simp: v1_step_def v1_msg_l2_def v1_seq_ok_def Let_def msg_seq_low)
  next
    case V1_MSG_L3
    then show ?thesis
      using c by (auto simp: v1_step_def v1_msg_l3_def v1_unpack_def v1_seq_ok_def Let_def msg_seq_low)
  next
    case V1_LEN
    then show ?thesis
      using c by (auto simp: v1_step_def v1_len_byte_def v1_seq_ok_def Let_def)
  next
    case V1_DATA
    then show ?thesis
      using c by (auto simp: v1_step_def v1_data_byte_def v1_seq_ok_def Let_def)
  qed
qed

lemma v1_feed_seq: "v1_seq_ok ctx \<Longrightarrow> v1_seq_ok (fst (v1_feed ready env cmds printf bs ctx))"
proof (induction bs arbitrary: ctx)
  case (Cons nb bs)
  obtain now b where nb: "nb = (now, b)" by (cases nb)
  show ?case
    using Cons.IH [OF v1_step_seq [OF Cons.prems, of ready env cmds printf now b]]
    by (auto simp: nb split: prod.splits)
qed simp

lemma v1_step_accept_seq:
  assumes "v1_seq_ok ctx" "snd (v1_step ready env cmds printf now b ctx) \<noteq> []"
  shows "let c = fst (v1_step ready env cmds printf now b ctx)
    in v_last_seq_valid c \<and> v_last_seq c = msg_seq (v_msg ctx) \<and>
       (v_last_seq_valid ctx \<longrightarrow> v_last_seq c \<noteq> v_last_seq ctx)"
proof -
  note e = v1_step_event [OF assms(2)]
  have seq: "pk_seq (v_pack ctx) = msg_seq (v_msg ctx)" "v_last_seq_valid ctx \<longrightarrow> msg_seq (v_msg ctx) \<noteq> v_last_seq ctx"
    using assms(1) e(1) by (auto simp: v1_seq_ok_def)
  have acc: "snd (v1_accept ready env cmds printf c) \<noteq> [] \<Longrightarrow>
      v_last_seq_valid (fst (v1_accept ready env cmds printf c)) \<and>
      v_last_seq (fst (v1_accept ready env cmds printf c)) = pk_seq (v_pack c)" for c
    by (auto simp: v1_accept_def Let_def comm_v1_reset_def split: if_splits option.splits)
  show ?thesis
    using assms(2) e seq by (auto simp: v1_step_def v1_sum_byte_def Let_def dest!: acc split: if_splits)
qed

section \<open>Receiving a frame\<close>

text \<open>
  The parser in the middle of a frame, relative to the context \<open>c0\<close> before it: its
  state, last tick, MSG word, routing flag, frame fields, captured bytes and payload.
\<close>

definition v1_mid ::
  "comm_v1_ctx \<Rightarrow> v1_status \<Rightarrow> u32 \<Rightarrow> u32 \<Rightarrow> bool \<Rightarrow> packform \<Rightarrow> u8 list \<Rightarrow> u8 list \<Rightarrow> comm_v1_ctx \<Rightarrow> bool" where
  "v1_mid c0 st t m r p w d c \<longleftrightarrow>
     v1_ok c \<and> v_status c = st \<and> v_last_rx_tick c = t \<and> v_msg c = m \<and> v_is_route c = r \<and> v_pack c = p
       \<and> v1_captured c = w \<and> take (v_index c) (v_data_buffer c) = d
       \<and> v_src c = v_src c0 \<and> v_d_src c = v_d_src c0 \<and> v_link_id c = v_link_id c0
       \<and> v_last_seq c = v_last_seq c0 \<and> v_last_seq_valid c = v_last_seq_valid c0"

text \<open>No gap between the bytes exceeds the half-frame timeout.\<close>

fun timely :: "u32 \<Rightarrow> (u32 \<times> u8) list \<Rightarrow> bool" where
  "timely t [] \<longleftrightarrow> True"
| "timely t ((now, b) # bs) \<longleftrightarrow> now - t \<le> 1000 \<and> timely now bs"

lemma v1_mid_tick:
  assumes "v1_mid c0 st t m r p w d c" "now - t \<le> 1000"
  shows "v1_tick now c = c\<lparr>v_last_rx_tick := now\<rparr>"
  using assms by (intro v1_tick_fresh) (simp add: v1_fresh_def v1_mid_def)

lemma v1_mid_ok: "v1_mid c0 st t m r p w d c \<Longrightarrow> v1_ok (c\<lparr>v_last_rx_tick := now\<rparr>)"
  by (auto simp: v1_mid_def v1_ok_def split: v1_status.splits)

lemma v1_start:
  assumes "v1_ok c0" "v_status c0 = V1_IDLE"
  shows "\<exists>c. v1_step ready env cmds printf now 0xE9 c0 = (c, [])
    \<and> v1_mid c0 V1_MSG_L0 now 0 False (v_pack c0) [0xE9] [] c"
proof -
  obtain x xs where w: "v_wire_buffer c0 = x # xs"
    using assms(1) by (cases "v_wire_buffer c0") (auto simp: v1_ok_def)
  show ?thesis
    using assms by (simp add: v1_step_def v1_tick_def v1_idle_def Let_def v1_mid_def v1_ok_def v1_captured_def w)
qed

text \<open>The address and sequence filter of MSG_L0, on the whole MSG word.\<close>

definition v1_local :: "comm_v1_ctx \<Rightarrow> u32 \<Rightarrow> bool" where
  "v1_local c m \<longleftrightarrow> msg_dst m = 0 \<or> msg_dst m = v_src c"

definition v1_header_ok :: "comm_env \<Rightarrow> comm_v1_ctx \<Rightarrow> u32 \<Rightarrow> bool" where
  "v1_header_ok env c m \<longleftrightarrow>
     \<not> (v_last_seq_valid c \<and> msg_seq m = v_last_seq c) \<and>
     (v1_local c m \<or> comm_v1_is_route_target env (v_link_id c) (msg_dst m))"

lemma v1_mid_l0:
  assumes c: "v1_mid c0 V1_MSG_L0 t m0 r0 p w [] c" and now: "now - t \<le> 1000"
    and b: "b AND 0x07 = msg_seq m" "drop_bit 3 b AND 0x0F = msg_dst m" and h: "v1_header_ok env c0 m"
  shows "\<exists>c'. v1_step ready env cmds printf now b c = (c', [])
    \<and> v1_mid c0 V1_MSG_L1 now (ucast b) (\<not> v1_local c0 m) p (w @ [b]) [] c'"
proof -
  let ?c = "fst (v1_step ready env cmds printf now b c)"
  have "v1_ok ?c" using c v1_step_ok by (simp add: v1_mid_def)
  moreover have "v_wire_len c = 1" "v_index c = 0" "length (v_wire_buffer c) = 263"
    using c by (auto simp: v1_mid_def v1_ok_def)
  ultimately show ?thesis
    using c h b by (auto simp: v1_step_def v1_mid_tick [OF c now] v1_msg_l0_def Let_def v1_mid_def
        v1_header_ok_def v1_local_def v1_capture_def v1_captured_def take_header)
qed

lemma v1_mid_l1:
  assumes c: "v1_mid c0 V1_MSG_L1 t m r p w [] c" and now: "now - t \<le> 1000"
  shows "\<exists>c'. v1_step ready env cmds printf now b c = (c', [])
    \<and> v1_mid c0 V1_MSG_L2 now (m OR push_bit 8 (ucast b)) r p (w @ [b]) [] c'"
proof -
  let ?c = "fst (v1_step ready env cmds printf now b c)"
  have "v1_ok ?c" using c v1_step_ok by (simp add: v1_mid_def)
  moreover have "v_wire_len c = 2" "v_index c = 0" "length (v_wire_buffer c) = 263"
    using c by (auto simp: v1_mid_def v1_ok_def)
  ultimately show ?thesis
    using c by (auto simp: v1_step_def v1_mid_tick [OF c now] v1_msg_l1_def Let_def v1_mid_def
        v1_capture_def v1_captured_def take_header)
qed

lemma v1_mid_l2:
  assumes c: "v1_mid c0 V1_MSG_L2 t m r p w [] c" and now: "now - t \<le> 1000"
  shows "\<exists>c'. v1_step ready env cmds printf now b c = (c', [])
    \<and> v1_mid c0 V1_MSG_L3 now (m OR push_bit 16 (ucast b)) r p (w @ [b]) [] c'"
proof -
  let ?c = "fst (v1_step ready env cmds printf now b c)"
  have "v1_ok ?c" using c v1_step_ok by (simp add: v1_mid_def)
  moreover have "v_wire_len c = 3" "v_index c = 0" "length (v_wire_buffer c) = 263"
    using c by (auto simp: v1_mid_def v1_ok_def)
  ultimately show ?thesis
    using c by (auto simp: v1_step_def v1_mid_tick [OF c now] v1_msg_l2_def Let_def v1_mid_def
        v1_capture_def v1_captured_def take_header)
qed

text \<open>The checks of MSG_L3.\<close>

definition v1_codec_ok :: "u8 \<Rightarrow> u8 \<Rightarrow> bool" where
  "v1_codec_ok cmd codec \<longleftrightarrow> \<not> ((cmd = 1 \<and> codec \<noteq> CODEC_RAW) \<or> codec > CODEC_ZERO)"

lemma v1_mid_l3:
  assumes c: "v1_mid c0 V1_MSG_L3 t m r p w [] c" and now: "now - t \<le> 1000"
    and m': "m' = m OR push_bit 24 (ucast b)"
    and codec: "v1_codec_ok (drop_bit 6 b AND 0x01) (drop_bit 3 b AND 0x07)"
    and dst: "r \<or> msg_d_dst m' = 0 \<or> msg_d_dst m' = v_d_src c0"
  shows "\<exists>c'. v1_step ready env cmds printf now b c = (c', [])
    \<and> (if drop_bit 6 b AND 0x01 = 1
       then v1_mid c0 V1_SUM now m' r ((v1_unpack m' p)\<lparr>pk_data := Null_Ptr, pk_len := 0\<rparr>) (w @ [b]) [] c'
       else v1_mid c0 V1_LEN now m' r (v1_unpack m' p) (w @ [b]) [] c')"
proof -
  let ?c = "fst (v1_step ready env cmds printf now b c)"
  have "v1_ok ?c" using c v1_step_ok by (simp add: v1_mid_def)
  moreover have "v_wire_len c = 4" "v_index c = 0" "length (v_wire_buffer c) = 263"
    using c by (auto simp: v1_mid_def v1_ok_def)
  ultimately show ?thesis
    using c codec dst unfolding m'
    by (auto simp: v1_step_def v1_mid_tick [OF c now] v1_msg_l3_def Let_def v1_mid_def v1_codec_ok_def
        v1_capture_def v1_captured_def take_header)
qed

lemma v1_mid_len:
  assumes c: "v1_mid c0 V1_LEN t m r p w [] c" and now: "now - t \<le> 1000"
  shows "\<exists>c'. v1_step ready env cmds printf now b c = (c', [])
    \<and> v1_mid c0 V1_DATA now m r p (w @ [b]) [] c' \<and> v_len c' = (if b = 0 then 256 else unat b)"
proof -
  let ?c = "fst (v1_step ready env cmds printf now b c)"
  have "v1_ok ?c" using c v1_step_ok by (simp add: v1_mid_def)
  moreover have "v_wire_len c = 5" "v_index c = 0" "length (v_wire_buffer c) = 263"
    using c by (auto simp: v1_mid_def v1_ok_def)
  ultimately show ?thesis
    using c by (auto simp: v1_step_def v1_mid_tick [OF c now] v1_len_byte_def Let_def v1_mid_def
        v1_capture_def v1_captured_def take_header)
qed

lemma v1_mid_data:
  assumes c: "v1_mid c0 V1_DATA t m r p w d c" and now: "now - t \<le> 1000"
  shows "\<exists>c'. v1_step ready env cmds printf now b c = (c', []) \<and> v_len c' = v_len c - 1
    \<and> v1_mid c0 (if v_len c = 1 then V1_SUM else V1_DATA) now m r p (w @ [b]) (d @ [b]) c'"
proof -
  let ?c = "fst (v1_step ready env cmds printf now b c)"
  have "v1_ok ?c" using c v1_step_ok by (simp add: v1_mid_def)
  moreover have i: "v_wire_len c = 6 + v_index c" "v_index c < 256" "length (v_data_buffer c) = 256"
    "length (v_wire_buffer c) = 263" "0 < v_len c" "v_len c \<le> 256"
    using c by (auto simp: v1_mid_def v1_ok_def)
  moreover have "take (7 + v_index c) ((v_wire_buffer c)[6 + v_index c := b]) = take (6 + v_index c) (v_wire_buffer c) @ [b]"
    "take (Suc (v_index c)) ((v_data_buffer c)[v_index c := b]) = take (v_index c) (v_data_buffer c) @ [b]"
    using take_snoc [of "6 + v_index c" "v_wire_buffer c" b] take_snoc [of "v_index c" "v_data_buffer c" b] i by auto
  ultimately show ?thesis
    using c by (auto simp: v1_step_def v1_mid_tick [OF c now] v1_data_byte_def Let_def v1_mid_def
        v1_capture_def v1_captured_def)
qed

lemma v1_mid_payload:
  assumes "v1_mid c0 V1_DATA t m r p w d c" "timely t tbs" "length tbs = v_len c" "tbs \<noteq> []"
  shows "\<exists>c'. v1_feed ready env cmds printf tbs c = (c', [])
    \<and> v1_mid c0 V1_SUM (fst (last tbs)) m r p (w @ map snd tbs) (d @ map snd tbs) c'"
  using assms
proof (induction tbs arbitrary: t w d c)
  case (Cons nb tbs)
  obtain now b where nb: "nb = (now, b)" by (cases nb)
  obtain c1 where c1: "v1_step ready env cmds printf now b c = (c1, [])" "v_len c1 = v_len c - 1"
    "v1_mid c0 (if v_len c = 1 then V1_SUM else V1_DATA) now m r p (w @ [b]) (d @ [b]) c1"
    using v1_mid_data [OF Cons.prems(1), of now ready env cmds printf b] Cons.prems(2) by (auto simp: nb)
  show ?case
  proof (cases "tbs = []")
    case True
    then show ?thesis using c1 Cons.prems(3) by (simp add: nb)
  next
    case False
    then have "v_len c \<noteq> 1" using Cons.prems(3) by (cases tbs) auto
    then have "v1_mid c0 V1_DATA now m r p (w @ [b]) (d @ [b]) c1" using c1(3) by simp
    from Cons.IH [OF this _ _ False] Cons.prems(2,3) c1(1,2) False show ?thesis
      by (auto simp: nb)
  qed
qed simp

text \<open>The header bytes carry the filter fields of the MSG word.\<close>

lemma header_bytes:
  "(ucast (m AND 0xFF) :: u8) AND 0x07 = msg_seq m"
  "drop_bit 3 (ucast (m AND 0xFF) :: u8) AND 0x0F = msg_dst m"
  "drop_bit 6 (ucast (drop_bit 24 (m :: u32)) :: u8) AND 0x01 = ucast (drop_bit 30 m AND 1)"
  "drop_bit 3 (ucast (drop_bit 24 m) :: u8) AND 0x07 = msg_codec m"
  unfolding msg_fields mask8 masks
  by (rule bit_word_eqI, auto simp: bit_simps)+

lemma v1_mid_header:
  assumes c0: "v1_ok c0" "v_status c0 = V1_IDLE" and h: "v1_header_ok env c0 m"
    and codec: "v1_codec_ok (ucast (drop_bit 30 m AND 1)) (msg_codec m)"
    and dst: "\<not> v1_local c0 m \<or> msg_d_dst m = 0 \<or> msg_d_dst m = v_d_src c0"
    and bytes: "map snd tbs = 0xE9 # u32_le m" and t: "timely (fst (hd tbs)) tbs"
  shows "\<exists>c. v1_feed ready env cmds printf tbs c0 = (c, []) \<and>
    (if (ucast (drop_bit 30 m AND 1) :: u8) = 1
     then v1_mid c0 V1_SUM (fst (last tbs)) m (\<not> v1_local c0 m)
            ((v1_unpack m (v_pack c0))\<lparr>pk_data := Null_Ptr, pk_len := 0\<rparr>) (0xE9 # u32_le m) [] c
     else v1_mid c0 V1_LEN (fst (last tbs)) m (\<not> v1_local c0 m) (v1_unpack m (v_pack c0)) (0xE9 # u32_le m) [] c)"
proof -
  obtain b0 b1 b2 b3 where b: "u32_le m = [b0, b1, b2, b3]"
    and b0: "b0 = ucast (m AND 0xFF)" and b3: "b3 = ucast (drop_bit 24 m)"
    by (simp add: u32_le_def)
  obtain t0 t1 t2 t3 t4 where tbs: "tbs = [(t0, 0xE9), (t1, b0), (t2, b1), (t3, b2), (t4, b3)]"
    using bytes unfolding b by (auto simp: map_eq_Cons_conv)
  have tt: "t1 - t0 \<le> 1000" "t2 - t1 \<le> 1000" "t3 - t2 \<le> 1000" "t4 - t3 \<le> 1000"
    using t unfolding tbs by auto
  obtain c1 where c1: "v1_step ready env cmds printf t0 0xE9 c0 = (c1, [])"
    "v1_mid c0 V1_MSG_L0 t0 0 False (v_pack c0) [0xE9] [] c1"
    using v1_start [OF c0] by blast
  obtain c2 where c2: "v1_step ready env cmds printf t1 b0 c1 = (c2, [])"
    "v1_mid c0 V1_MSG_L1 t1 (ucast b0) (\<not> v1_local c0 m) (v_pack c0) [0xE9, b0] [] c2"
    using v1_mid_l0 [OF c1(2) tt(1) _ _ h, of b0 ready cmds printf] header_bytes(1,2) [of m] unfolding b0
    by auto
  obtain c3 where c3: "v1_step ready env cmds printf t2 b1 c2 = (c3, [])"
    "v1_mid c0 V1_MSG_L2 t2 (ucast b0 OR push_bit 8 (ucast b1)) (\<not> v1_local c0 m) (v_pack c0) [0xE9, b0, b1] [] c3"
    using v1_mid_l1 [OF c2(2) tt(2), of ready env cmds printf b1] by auto
  obtain c4 where c4: "v1_step ready env cmds printf t3 b2 c3 = (c4, [])"
    "v1_mid c0 V1_MSG_L3 t3 ((ucast b0 OR push_bit 8 (ucast b1)) OR push_bit 16 (ucast b2)) (\<not> v1_local c0 m)
       (v_pack c0) [0xE9, b0, b1, b2] [] c4"
    using v1_mid_l2 [OF c3(2) tt(3), of ready env cmds printf b2] by auto
  have m: "m = ((ucast b0 OR push_bit 8 (ucast b1)) OR push_bit 16 (ucast b2)) OR push_bit 24 (ucast b3)"
    using le_u32_u32_le' [of m] unfolding b le_u32_def by (simp add: or.assoc)
  obtain c5 where c5: "v1_step ready env cmds printf t4 b3 c4 = (c5, [])"
    "if drop_bit 6 b3 AND 0x01 = 1
     then v1_mid c0 V1_SUM t4 m (\<not> v1_local c0 m) ((v1_unpack m (v_pack c0))\<lparr>pk_data := Null_Ptr, pk_len := 0\<rparr>)
            [0xE9, b0, b1, b2, b3] [] c5
     else v1_mid c0 V1_LEN t4 m (\<not> v1_local c0 m) (v1_unpack m (v_pack c0)) [0xE9, b0, b1, b2, b3] [] c5"
    using v1_mid_l3 [OF c4(2) tt(4) m, of ready env cmds printf] codec dst header_bytes(3,4) [of m]
    unfolding b3 [symmetric] append.simps by metis
  show ?thesis
    using c5(2) header_bytes(3) [of m] unfolding b3 [symmetric]
    by (simp add: tbs b c1(1) c2(1) c3(1) c4(1) c5(1))
qed

text \<open>LEN and DATA behind a header.\<close>

definition v1_len_value :: "u8 \<Rightarrow> nat" where
  "v1_len_value b = (if b = 0 then 256 else unat b)"

lemma v1_mid_body:
  assumes c: "v1_mid c0 V1_LEN t m r p w [] c" and t: "timely t tbs"
    and bytes: "map snd tbs = b # data" "length data = v1_len_value b"
  shows "\<exists>c'. v1_feed ready env cmds printf tbs c = (c', [])
    \<and> v1_mid c0 V1_SUM (fst (last tbs)) m r p (w @ b # data) data c'"
proof -
  obtain now ts where tbs: "tbs = (now, b) # ts" "map snd ts = data" using bytes(1) by (cases tbs) auto
  obtain c1 where c1: "v1_step ready env cmds printf now b c = (c1, [])"
    "v1_mid c0 V1_DATA now m r p (w @ [b]) [] c1" "v_len c1 = v1_len_value b"
    using v1_mid_len [OF c, of now ready env cmds printf b] t by (auto simp: tbs v1_len_value_def)
  have len: "length ts = v_len c1" using bytes(2) c1(3) tbs(2) by (metis length_map)
  have "v_len c1 > 0" using c1(2) by (auto simp: v1_mid_def v1_ok_def)
  then have "ts \<noteq> []" using len by auto
  moreover have "timely now ts" using t by (simp add: tbs(1))
  ultimately show ?thesis
    using v1_mid_payload [OF c1(2) _ len] c1(1) tbs by fastforce
qed

text \<open>The bytes of a frame before its SUM.\<close>

definition v1_body :: "u32 \<Rightarrow> u8 list \<Rightarrow> u8 list" where
  "v1_body m data =
     0xE9 # u32_le m @
       (if (ucast (drop_bit 30 m AND 1) :: u8) = 1 then []
        else (if length data = 256 then 0 else of_nat (length data)) # data)"

lemma v1_len_byte_value:
  "0 < n \<Longrightarrow> n \<le> 256 \<Longrightarrow> v1_len_value (if n = 256 then 0 else of_nat n) = n"
  by (cases "n = 256") (auto simp: v1_len_value_def unat_of_nat_u8 dest: arg_cong [where f = unat])

lemma timely_append:
  "timely s (xs @ ys) \<longleftrightarrow> timely s xs \<and> timely (if xs = [] then s else fst (last xs)) ys"
  by (induction xs arbitrary: s) auto

lemma v1_receive_body:
  assumes c0: "v1_ok c0" "v_status c0 = V1_IDLE" and h: "v1_header_ok env c0 m"
    and codec: "v1_codec_ok (ucast (drop_bit 30 m AND 1)) (msg_codec m)"
    and dst: "\<not> v1_local c0 m \<or> msg_d_dst m = 0 \<or> msg_d_dst m = v_d_src c0"
    and data: "if (ucast (drop_bit 30 m AND 1) :: u8) = 1 then data = [] else 0 < length data \<and> length data \<le> 256"
    and bytes: "map snd tbs = v1_body m data" and t: "timely (fst (hd tbs)) tbs"
  shows "\<exists>c p. v1_feed ready env cmds printf tbs c0 = (c, [])
    \<and> v1_mid c0 V1_SUM (fst (last tbs)) m (\<not> v1_local c0 m) p (v1_body m data) data c
    \<and> (\<exists>q n. p = (v1_unpack m (v_pack c0))\<lparr>pk_data := q, pk_len := n\<rparr>)"
proof -
  let ?h = "take 5 tbs" and ?r = "drop 5 tbs"
  have h5: "map snd ?h = 0xE9 # u32_le m"
    and r5: "map snd ?r = drop 5 (v1_body m data)"
    by (simp_all add: take_map [symmetric] drop_map [symmetric] bytes v1_body_def del: take_Suc_Cons)
  have ne: "?h \<noteq> []" using h5 by auto
  have th: "timely (fst (hd ?h)) ?h"
    and tr: "timely (fst (last ?h)) ?r"
  proof -
    have "timely (fst (hd tbs)) (?h @ ?r)" using t by simp
    then have "timely (fst (hd tbs)) ?h \<and> timely (fst (last ?h)) ?r"
      unfolding timely_append by (simp only: ne if_False)
    moreover have "hd ?h = hd tbs" using ne by (cases tbs) auto
    ultimately show "timely (fst (hd ?h)) ?h" "timely (fst (last ?h)) ?r" by auto
  qed
  from v1_mid_header [OF c0 h codec dst h5 th, of ready cmds printf] obtain c1 where
    c1: "v1_feed ready env cmds printf ?h c0 = (c1, [])"
    and mid: "if (ucast (drop_bit 30 m AND 1) :: u8) = 1
     then v1_mid c0 V1_SUM (fst (last ?h)) m (\<not> v1_local c0 m)
            ((v1_unpack m (v_pack c0))\<lparr>pk_data := Null_Ptr, pk_len := 0\<rparr>) (0xE9 # u32_le m) [] c1
     else v1_mid c0 V1_LEN (fst (last ?h)) m (\<not> v1_local c0 m) (v1_unpack m (v_pack c0)) (0xE9 # u32_le m) [] c1"
    by blast
  have feed: "v1_feed ready env cmds printf tbs c0 = (case v1_feed ready env cmds printf ?r c1 of (c2, e) \<Rightarrow> (c2, e))"
    using v1_feed_append [of ready env cmds printf ?h ?r c0] by (simp add: c1)
  show ?thesis
  proof (cases "(ucast (drop_bit 30 m AND 1) :: u8) = 1")
    case True
    then have "?r = []" "data = []" "v1_body m data = 0xE9 # u32_le m"
      using r5 data by (auto simp: v1_body_def)
    then show ?thesis using True mid feed by auto
  next
    case False
    let ?b = "if length data = 256 then 0 else of_nat (length data) :: u8"
    have len: "0 < length data" "length data \<le> 256" using data False by auto
    have r: "map snd ?r = ?b # data" "?r \<noteq> []" using r5 False by (auto simp: v1_body_def u32_le_def)
    from mid False have mid': "v1_mid c0 V1_LEN (fst (last ?h)) m (\<not> v1_local c0 m)
        (v1_unpack m (v_pack c0)) (0xE9 # u32_le m) [] c1" by simp
    have "\<exists>q n. v1_unpack m (v_pack c0) = (v1_unpack m (v_pack c0))\<lparr>pk_data := q, pk_len := n\<rparr>"
      by (intro exI [of _ "pk_data (v_pack c0)"] exI [of _ "pk_len (v_pack c0)"]) (simp add: v1_unpack_def)
    moreover have "last ?r = last tbs" using r(2) by (metis append_take_drop_id last_appendR)
    moreover obtain c2 where
      "v1_feed ready env cmds printf ?r c1 = (c2, [])"
      "v1_mid c0 V1_SUM (fst (last ?r)) m (\<not> v1_local c0 m) (v1_unpack m (v_pack c0))
         ((0xE9 # u32_le m) @ ?b # data) data c2"
      using v1_mid_body [OF mid' tr r(1) v1_len_byte_value [OF len, symmetric], of ready env cmds printf] by blast
    ultimately show ?thesis
      using feed False by (intro exI [of _ c2] exI [of _ "v1_unpack m (v_pack c0)"]) (simp add: v1_body_def)
  qed
qed

end
