(* ===== verification/Comm_V1_Link.thy ===== *)
theory Comm_V1_Link
  imports Comm_V1
begin

text \<open>
  A sender and a receiver of COMM v1 over one link: a frame built by comm_v1_send, received
  byte by byte (comm_v1_run) or in blocks (comm_v1_run_buffer), and the properties of the
  receiver over arbitrary input.
\<close>

section \<open>The SUM byte\<close>

text \<open>What the DATA bytes mean under a CODEC value.\<close>

definition decodes :: "u8 \<Rightarrow> u8 list \<Rightarrow> u8 list \<Rightarrow> bool" where
  "decodes codec data raw \<longleftrightarrow>
     (if codec = CODEC_RAW then raw = data
      else (let r = comm_v1_decode_data codec data 256
            in io_ret r = 1 \<and> io_len r = Some (length raw) \<and> io_payload r = raw))"

text \<open>The context handed to \<open>v1_accept\<close>: frame \<open>p\<close> with payload \<open>raw\<close>.\<close>

definition v1_ready :: "comm_v1_ctx \<Rightarrow> u32 \<Rightarrow> bool \<Rightarrow> packform \<Rightarrow> u8 list \<Rightarrow> u8 list \<Rightarrow> comm_v1_ctx \<Rightarrow> bool" where
  "v1_ready c0 now r p w raw c \<longleftrightarrow>
     v_is_route c = r \<and> v1_captured c = w \<and> v_link_id c = v_link_id c0 \<and> v_src c = v_src c0
       \<and> v_d_src c = v_d_src c0 \<and> v_last_seq c = v_last_seq c0 \<and> v_last_seq_valid c = v_last_seq_valid c0
       \<and> (\<exists>q. v_pack c = p\<lparr>pk_data := q, pk_len := length raw, pk_crc := 0, pk_eop := 0\<rparr>)
       \<and> (\<exists>b. v1_pack_view c = (v_pack c)\<lparr>pk_data := Bytes b\<rparr> \<and> take (length raw) b = raw)"

lemma blit_front: "length bs \<le> length buf \<Longrightarrow> take (length bs) (blit buf 0 bs) = bs"
  by (simp add: blit_def)

lemma v1_mid_sum:
  assumes c: "v1_mid c0 V1_SUM t m r p w d c" and now: "now - t \<le> 1000"
    and dec: "decodes (msg_codec m) d raw"
  shows "\<exists>c1. v1_step ready env cmds printf now (comm_sum_encode (Some w)) c = v1_accept ready env cmds printf c1
    \<and> v1_ready c0 now r p w raw c1"
proof -
  let ?c = "c\<lparr>v_last_rx_tick := now\<rparr>"
  have mid: "v_status c = V1_SUM" "v_msg c = m" "v_is_route c = r" "v_pack c = p" "v1_captured c = w"
    "take (v_index c) (v_data_buffer c) = d" "v_src c = v_src c0" "v_d_src c = v_d_src c0"
    "v_link_id c = v_link_id c0" "v_last_seq c = v_last_seq c0" "v_last_seq_valid c = v_last_seq_valid c0"
    "v_candidate_size c = 256" "v_index c \<le> 256" "length (v_data_buffer c) = 256" "length (v_candidate_buffer c) = 256"
    using c by (auto simp: v1_mid_def v1_ok_def)
  have step: "v1_step ready env cmds printf now (comm_sum_encode (Some w)) c
      = v1_sum_byte ready env cmds printf (comm_sum_encode (Some w)) ?c"
    using v1_mid_tick [OF c now] mid(1) by (simp add: v1_step_def Let_def)
  have w: "take (v_wire_len c) (v_wire_buffer c) = w" using mid(5) by (simp add: v1_captured_def)
  show ?thesis
  proof (cases "msg_codec m = CODEC_RAW")
    case True
    let ?c1 = "?c\<lparr>v_pack := p\<lparr>pk_data := Data_Buffer, pk_len := v_index c, pk_crc := 0, pk_eop := 0\<rparr>\<rparr>"
    have raw: "raw = d" "v_index c = length d" using dec True mid(6,13,14) by (auto simp: decodes_def)
    have "v1_sum_byte ready env cmds printf (comm_sum_encode (Some w)) ?c = v1_accept ready env cmds printf ?c1"
      using True mid by (simp add: v1_sum_byte_def Let_def w)
    moreover have "v1_ready c0 now r p w raw ?c1"
      using mid raw by (auto simp: v1_ready_def v1_captured_def v1_pack_view_def intro: exI [of _ "v_data_buffer c"])
    ultimately show ?thesis using step by metis
  next
    case False
    let ?r = "comm_v1_decode_data (msg_codec m) d 256"
    let ?c1 = "?c\<lparr>v_candidate_buffer := blit (v_candidate_buffer c) 0 (io_buf ?r),
                   v_pack := p\<lparr>pk_data := Candidate_Buffer, pk_len := length raw, pk_crc := 0, pk_eop := 0\<rparr>\<rparr>"
    have r: "io_ret ?r = 1" "io_len ?r = Some (length raw)" "io_payload ?r = raw"
      using dec False by (auto simp: decodes_def Let_def)
    have "take (length raw) (io_buf ?r) = raw" "length raw \<le> length (io_buf ?r)"
      using r(2,3) by (auto simp: io_payload_def dest: arg_cong [where f = length])
    then have front: "take (length raw) (blit (v_candidate_buffer c) 0 (io_buf ?r)) = raw"
      by (simp add: blit_def)
    have "v1_sum_byte ready env cmds printf (comm_sum_encode (Some w)) ?c = v1_accept ready env cmds printf ?c1"
      using False mid(2,4,6,12) r by (simp add: v1_sum_byte_def Let_def w)
    moreover have "v1_ready c0 now r p w raw ?c1"
      using mid front by (auto simp: v1_ready_def v1_captured_def v1_pack_view_def)
    ultimately show ?thesis using step by metis
  qed
qed

section \<open>A whole frame\<close>

text \<open>Only the last byte has an effect, and that effect is \<open>r\<close>.\<close>

definition v1_last_byte ::
  "64 word list option \<Rightarrow> comm_env \<Rightarrow> section_com list \<Rightarrow> my_printf option \<Rightarrow> (u32 \<times> u8) list
     \<Rightarrow> comm_v1_ctx \<Rightarrow> comm_v1_ctx \<times> event list \<Rightarrow> bool" where
  "v1_last_byte ready env cmds printf tbs c0 r \<longleftrightarrow>
     (\<exists>c. v1_feed ready env cmds printf (butlast tbs) c0 = (c, [])
        \<and> v1_step ready env cmds printf (fst (last tbs)) (snd (last tbs)) c = r)"

lemma v1_receive_frame:
  assumes c0: "v1_ok c0" "v_status c0 = V1_IDLE" and h: "v1_header_ok env c0 m"
    and codec: "v1_codec_ok (ucast (drop_bit 30 m AND 1)) (msg_codec m)"
    and dst: "\<not> v1_local c0 m \<or> msg_d_dst m = 0 \<or> msg_d_dst m = v_d_src c0"
    and data: "if (ucast (drop_bit 30 m AND 1) :: u8) = 1 then data = [] else 0 < length data \<and> length data \<le> 256"
    and dec: "decodes (msg_codec m) data raw"
    and bytes: "map snd tbs = v1_body m data @ [comm_sum_encode (Some (v1_body m data))]"
    and t: "timely (fst (hd tbs)) tbs"
  shows "\<exists>c1. v1_feed ready env cmds printf tbs c0 = v1_accept ready env cmds printf c1
    \<and> v1_last_byte ready env cmds printf tbs c0 (v1_accept ready env cmds printf c1)
    \<and> v1_ready c0 (fst (last tbs)) (\<not> v1_local c0 m) (v1_unpack m (v_pack c0)) (v1_body m data) raw c1"
proof -
  have ne: "v1_body m data \<noteq> []" by (simp add: v1_body_def)
  obtain tb now b where split: "tbs = tb @ [(now, b)]" "map snd tb = v1_body m data"
    "b = comm_sum_encode (Some (v1_body m data))"
    using bytes by (cases tbs rule: rev_cases) auto
  have tb: "tb \<noteq> []" using split(2) ne by auto
  then have hd: "hd tbs = hd tb" using split(1) by simp
  have tt: "timely (fst (hd tb)) tb" "now - fst (last tb) \<le> 1000"
    using t tb unfolding hd unfolding split(1) timely_append by auto
  obtain c p where c: "v1_feed ready env cmds printf tb c0 = (c, [])"
    "v1_mid c0 V1_SUM (fst (last tb)) m (\<not> v1_local c0 m) p (v1_body m data) data c"
    and p: "\<exists>q n. p = (v1_unpack m (v_pack c0))\<lparr>pk_data := q, pk_len := n\<rparr>"
    using v1_receive_body [OF c0 h codec dst data split(2) tt(1), of ready cmds printf] by blast
  obtain c1 where c1: "v1_step ready env cmds printf now b c = v1_accept ready env cmds printf c1"
    "v1_ready c0 now (\<not> v1_local c0 m) p (v1_body m data) raw c1"
    using v1_mid_sum [OF c(2) tt(2) dec, of ready env cmds printf] unfolding split(3) by blast
  obtain q n where q: "p = (v1_unpack m (v_pack c0))\<lparr>pk_data := q, pk_len := n\<rparr>" using p by blast
  have "v1_feed ready env cmds printf tbs c0 = v1_accept ready env cmds printf c1"
    unfolding split(1) v1_feed_append c(1) by (simp add: c1(1) split: prod.splits)
  moreover have "v1_last_byte ready env cmds printf tbs c0 (v1_accept ready env cmds printf c1)"
    using c(1) c1(1) by (simp add: v1_last_byte_def split(1))
  moreover have "v1_ready c0 (fst (last tbs)) (\<not> v1_local c0 m) (v1_unpack m (v_pack c0)) (v1_body m data) raw c1"
    using c1(2) unfolding v1_ready_def q split(1) by simp
  ultimately show ?thesis by blast
qed

section \<open>The frames comm_v1_send builds\<close>

lemma codec_range:
  "decoder_of codec = Some dec \<Longrightarrow> unat codec < 2 ^ 3 \<and> codec \<le> CODEC_ZERO \<and> codec \<noteq> CODEC_RAW"
  by (auto simp: decoder_of_def codec_values split: if_splits)

lemma decode_data_decoder:
  "decoder_of codec = Some dec \<Longrightarrow> comm_v1_decode_data codec xs n = dec (Some xs) (Some n) True 257"
  by (auto simp: decoder_of_def comm_v1_decode_data_def split: if_splits)

text \<open>The CODEC and the DATA bytes of a frame.\<close>

definition frame_parts :: "64 word list option \<Rightarrow> packform \<Rightarrow> u8 \<times> u8 list" where
  "frame_parts ready p =
     (if pk_len p = 0 then (CODEC_RAW, [])
      else case choose_encoding ready p (pk_payload p) of (codec, n, data) \<Rightarrow> (codec, take n data))"

definition frame_msg :: "64 word list option \<Rightarrow> packform \<Rightarrow> u32" where
  "frame_msg ready p =
     msg_word p (fst (frame_parts ready p)) (if pk_len p = 0 then 1 else 0) (if pk_is_ack p \<noteq> 0 then 1 else 0)"

lemma frame_parts_ok:
  assumes p: "send_ok p" "length (pk_payload p) = pk_len p"
  shows "decodes (fst (frame_parts ready p)) (snd (frame_parts ready p)) (pk_payload p)"
    and "if pk_len p = 0 then snd (frame_parts ready p) = []
         else 0 < length (snd (frame_parts ready p)) \<and> length (snd (frame_parts ready p)) \<le> pk_len p"
    and "unat (fst (frame_parts ready p)) < 2 ^ 3" "fst (frame_parts ready p) \<le> CODEC_ZERO"
    and "pk_len p = 0 \<Longrightarrow> fst (frame_parts ready p) = CODEC_RAW"
    and "fst (frame_parts ready p) \<noteq> CODEC_RAW \<Longrightarrow>
           length (snd (frame_parts ready p)) + min_saved (pk_len p) \<le> pk_len p"
proof -
  have "decodes (fst (frame_parts ready p)) (snd (frame_parts ready p)) (pk_payload p)
    \<and> (if pk_len p = 0 then snd (frame_parts ready p) = []
         else 0 < length (snd (frame_parts ready p)) \<and> length (snd (frame_parts ready p)) \<le> pk_len p)
    \<and> unat (fst (frame_parts ready p)) < 2 ^ 3 \<and> fst (frame_parts ready p) \<le> CODEC_ZERO
    \<and> (pk_len p = 0 \<longrightarrow> fst (frame_parts ready p) = CODEC_RAW)
    \<and> (fst (frame_parts ready p) \<noteq> CODEC_RAW \<longrightarrow>
           length (snd (frame_parts ready p)) + min_saved (pk_len p) \<le> pk_len p)"
  proof (cases "pk_len p = 0")
    case True
    then show ?thesis using p(2) by (simp add: frame_parts_def decodes_def codec_values)
  next
    case False
    have len: "pk_len p \<le> 256" using p(1) by (auto simp: send_ok_def)
    obtain codec n data where ch: "choose_encoding ready p (pk_payload p) = (codec, n, data)"
      by (metis prod_cases3)
    have ne: "pk_payload p \<noteq> []" "length (pk_payload p) \<le> 256" using p(2) False len by auto
    have car: "carries (pk_payload p) (codec, n, data)" "n \<le> pk_len p"
      using choose_carries [OF ne, of ready p] p(2) by (simp_all add: ch)
    have parts: "frame_parts ready p = (codec, take n data)" using False by (simp add: frame_parts_def ch)
    have n: "0 < n" "length (take n data) = n" using car(1) by (auto simp: carries_def)
    show ?thesis
    proof (cases "codec = CODEC_RAW")
      case True
      then show ?thesis
        using car n False p(2) by (auto simp: parts carries_def decodes_def codec_values)
    next
      case nr: False
      then obtain dec where dec: "decoder_of codec = Some dec" "n + min_saved (pk_len p) \<le> pk_len p"
        "io_ret (dec (Some (take n data)) (Some 256) True 257) = 1"
        "io_len (dec (Some (take n data)) (Some 256) True 257) = Some (pk_len p)"
        "io_payload (dec (Some (take n data)) (Some 256) True 257) = pk_payload p"
        using car(1) p(2) by (auto simp: carries_def Let_def)
      then show ?thesis
        using car(2) n False nr p(2) codec_range [OF dec(1)]
        by (simp add: parts decodes_def decode_data_decoder [OF dec(1)] Let_def)
    qed
  qed
  then show "decodes (fst (frame_parts ready p)) (snd (frame_parts ready p)) (pk_payload p)"
    "if pk_len p = 0 then snd (frame_parts ready p) = []
         else 0 < length (snd (frame_parts ready p)) \<and> length (snd (frame_parts ready p)) \<le> pk_len p"
    "unat (fst (frame_parts ready p)) < 2 ^ 3" "fst (frame_parts ready p) \<le> CODEC_ZERO"
    "pk_len p = 0 \<Longrightarrow> fst (frame_parts ready p) = CODEC_RAW"
    "fst (frame_parts ready p) \<noteq> CODEC_RAW \<Longrightarrow>
           length (snd (frame_parts ready p)) + min_saved (pk_len p) \<le> pk_len p"
    by blast+
qed

lemma frame_msg_fields:
  assumes p: "send_ok p" "length (pk_payload p) = pk_len p"
  shows "msg_seq (frame_msg ready p) = pk_seq p" "msg_dst (frame_msg ready p) = pk_dst p"
    "msg_d_dst (frame_msg ready p) = pk_d_dst p" "msg_src (frame_msg ready p) = pk_src p"
    "msg_d_src (frame_msg ready p) = pk_d_src p" "msg_cmd_set (frame_msg ready p) = pk_cmd_set p"
    "msg_cmd_word (frame_msg ready p) = pk_cmd_word p"
    "msg_is_ack (frame_msg ready p) = (if pk_is_ack p \<noteq> 0 then 1 else 0)"
    "msg_codec (frame_msg ready p) = fst (frame_parts ready p)"
    "ucast (drop_bit 30 (frame_msg ready p) AND 1) = (if pk_len p = 0 then 1 else 0 :: u8)"
  unfolding frame_msg_def
  by (rule msg_word_fields [OF send_ok_fields [OF p(1)] frame_parts_ok(3) [OF p]]; simp)+

lemma v1_frame_eq:
  assumes p: "send_ok p" "length (pk_payload p) = pk_len p"
  shows "v1_frame ready p = v1_body (frame_msg ready p) (snd (frame_parts ready p))
     @ [comm_sum_encode (Some (v1_body (frame_msg ready p) (snd (frame_parts ready p))))]"
proof (cases "pk_len p = 0")
  case True
  then show ?thesis
    using frame_msg_fields(10) [OF p, of ready]
    by (simp add: v1_frame_def v1_body_def frame_msg_def frame_parts_def Let_def)
next
  case False
  obtain codec n data where ch: "choose_encoding ready p (pk_payload p) = (codec, n, data)"
    by (metis prod_cases3)
  have "pk_payload p \<noteq> []" "length (pk_payload p) \<le> 256" using p False by (auto simp: send_ok_def)
  then have "n \<le> length data" using choose_carries [of "pk_payload p" ready p] by (simp add: ch carries_def)
  then show ?thesis
    using False frame_msg_fields(10) [OF p, of ready]
    by (simp add: v1_frame_def v1_body_def frame_msg_def frame_parts_def ch Let_def)
qed

section \<open>Sent, then received\<close>

text \<open>The receiver \<open>c0\<close> is idle and its filters let the frame of \<open>p\<close> pass.\<close>

definition v1_expects :: "comm_v1_ctx \<Rightarrow> packform \<Rightarrow> bool" where
  "v1_expects c0 p \<longleftrightarrow> v1_ok c0 \<and> v_status c0 = V1_IDLE \<and> \<not> (v_last_seq_valid c0 \<and> pk_seq p = v_last_seq c0)"

definition v1_addressed :: "comm_v1_ctx \<Rightarrow> packform \<Rightarrow> bool" where
  "v1_addressed c0 p \<longleftrightarrow>
     (pk_dst p = 0 \<or> pk_dst p = v_src c0) \<and> (pk_d_dst p = 0 \<or> pk_d_dst p = v_d_src c0)"

text \<open>A frame the sender can build, with its payload present.\<close>

definition v1_sendable :: "packform \<Rightarrow> bool" where
  "v1_sendable p \<longleftrightarrow> send_ok p \<and> length (pk_payload p) = pk_len p"

text \<open>The frame a callback gets: payload buffer \<open>b\<close>, of which \<open>pk_len\<close> bytes count.\<close>

definition v1_received :: "packform \<Rightarrow> u8 list \<Rightarrow> packform" where
  "v1_received p b =
     p\<lparr>pk_sop := 0xE9, pk_version := 1, pk_is_ack := (if pk_is_ack p \<noteq> 0 then 1 else 0),
       pk_data := Bytes b, pk_crc := 0, pk_eop := 0\<rparr>"

lemma unpack_received:
  assumes "v1_sendable p"
  shows "(v1_unpack (frame_msg ready p) q)\<lparr>pk_data := x, pk_len := length (pk_payload p), pk_crc := 0, pk_eop := 0\<rparr>
     = (v1_received p [])\<lparr>pk_data := x\<rparr>"
  using assms frame_msg_fields [of p ready]
  by (cases q; cases p) (simp add: v1_unpack_def v1_received_def v1_sendable_def)

lemma v1_frame_received:
  assumes e: "v1_expects c0 p" and p: "v1_sendable p"
    and a: "v1_addressed c0 p \<or>
      (pk_dst p \<noteq> 0 \<and> pk_dst p \<noteq> v_src c0 \<and> comm_v1_is_route_target env (v_link_id c0) (pk_dst p))"
    and bytes: "map snd tbs = v1_frame ready p" and t: "timely (fst (hd tbs)) tbs"
  shows "\<exists>c x b. v1_feed ready' env cmds printf tbs c0 = v1_accept ready' env cmds printf c
    \<and> v1_last_byte ready' env cmds printf tbs c0 (v1_accept ready' env cmds printf c)
    \<and> v_is_route c = (pk_dst p \<noteq> 0 \<and> pk_dst p \<noteq> v_src c0) \<and> v_link_id c = v_link_id c0
    \<and> v1_captured c = butlast (v1_frame ready p)
    \<and> v_pack c = (v1_received p [])\<lparr>pk_data := x\<rparr> \<and> v1_pack_view c = v1_received p b
    \<and> take (pk_len p) b = pk_payload p"
proof -
  have s: "send_ok p" "length (pk_payload p) = pk_len p" using p by (auto simp: v1_sendable_def)
  note f = frame_msg_fields [OF s, of ready] and parts = frame_parts_ok [OF s, of ready]
  let ?m = "frame_msg ready p" and ?d = "snd (frame_parts ready p)"
  have c0: "v1_ok c0" "v_status c0 = V1_IDLE" using e by (auto simp: v1_expects_def)
  have local: "v1_local c0 ?m \<longleftrightarrow> pk_dst p = 0 \<or> pk_dst p = v_src c0" by (simp add: v1_local_def f)
  have h: "v1_header_ok env c0 ?m"
    using e a by (auto simp: v1_header_ok_def local f v1_expects_def v1_addressed_def)
  have codec: "v1_codec_ok (ucast (drop_bit 30 ?m AND 1)) (msg_codec ?m)"
    using parts(4,5) by (auto simp: v1_codec_ok_def f)
  have dst: "\<not> v1_local c0 ?m \<or> msg_d_dst ?m = 0 \<or> msg_d_dst ?m = v_d_src c0"
    using a by (auto simp: local f v1_addressed_def)
  have "pk_len p \<le> 256" using s(1) by (auto simp: send_ok_def)
  then have data: "if (ucast (drop_bit 30 ?m AND 1) :: u8) = 1 then ?d = [] else 0 < length ?d \<and> length ?d \<le> 256"
    using parts(2) by (auto simp: f split: if_splits)
  have dec: "decodes (msg_codec ?m) ?d (pk_payload p)" using parts(1) by (simp add: f)
  from v1_receive_frame [OF c0 h codec dst data dec bytes [unfolded v1_frame_eq [OF s]] t] obtain c where
    c: "v1_feed ready' env cmds printf tbs c0 = v1_accept ready' env cmds printf c"
    "v1_ready c0 (fst (last tbs)) (\<not> v1_local c0 ?m) (v1_unpack ?m (v_pack c0)) (v1_body ?m ?d) (pk_payload p) c"
    "v1_last_byte ready' env cmds printf tbs c0 (v1_accept ready' env cmds printf c)"
    by blast
  then obtain x b where x: "v_pack c = (v1_received p [])\<lparr>pk_data := x\<rparr>"
    and b: "v1_pack_view c = (v_pack c)\<lparr>pk_data := Bytes b\<rparr>" "take (length (pk_payload p)) b = pk_payload p"
    unfolding v1_ready_def unpack_received [OF p] by blast
  have "v1_pack_view c = v1_received p b" using b(1) x by (simp add: v1_received_def)
  moreover have "v1_captured c = butlast (v1_frame ready p)"
    using c(2) by (simp add: v1_ready_def v1_frame_eq [OF s])
  ultimately show ?thesis
    using c x b(2) local unfolding v1_ready_def s(2) by blast
qed

lemma v1_accept_dispatch:
  assumes "\<not> v_is_route c" "v_pack c = (v1_received p [])\<lparr>pk_data := x\<rparr>" "v1_pack_view c = v1_received p b"
    and "\<not> comm_v1_is_codec_select p" "comm_v1_find_func cmds (pk_cmd_set p) (pk_cmd_word p) = Some f"
  shows "v1_accept ready env cmds printf c =
    (comm_v1_reset (c\<lparr>v_last_seq := pk_seq p, v_last_seq_valid := True\<rparr>), [Dispatch f (v1_received p b) printf])"
proof -
  have "pk_cmd_set (v_pack c) = pk_cmd_set p" "pk_cmd_word (v_pack c) = pk_cmd_word p" "pk_seq (v_pack c) = pk_seq p"
    unfolding assms(2) by (simp_all add: v1_received_def)
  moreover have "v1_pack_view (c\<lparr>v_last_seq := pk_seq p, v_last_seq_valid := True\<rparr>) = v1_received p b"
    using assms(3) by (simp add: v1_pack_view_def split: data_ptr.splits)
  ultimately show ?thesis
    using assms(1,4,5) by (auto simp: v1_accept_def Let_def comm_v1_is_codec_select_def)
qed

text \<open>
  C1: COMM v1 delivers: a frame comm_v1_send builds, received by an idle parser it is addressed
  to, calls the command's callback exactly once, with every field of the frame and the original
  payload whatever encoding the sender chose; the parser is idle again and remembers the SEQ.
\<close>

theorem comm_v1_delivers:
  assumes "v1_sendable p" "v1_expects c0 p" "v1_addressed c0 p"
    and "\<not> comm_v1_is_codec_select p" "comm_v1_find_func cmds (pk_cmd_set p) (pk_cmd_word p) = Some f"
    and "map snd tbs = v1_frame ready p" "timely (fst (hd tbs)) tbs"
  shows "\<exists>c b. v1_feed ready' env cmds printf tbs c0 = (c, [Dispatch f (v1_received p b) printf])
    \<and> take (pk_len p) b = pk_payload p
    \<and> v_status c = V1_IDLE \<and> v_last_seq_valid c \<and> v_last_seq c = pk_seq p"
proof -
  obtain c x b where c: "v1_feed ready' env cmds printf tbs c0 = v1_accept ready' env cmds printf c"
    "v_is_route c = (pk_dst p \<noteq> 0 \<and> pk_dst p \<noteq> v_src c0)" "v_pack c = (v1_received p [])\<lparr>pk_data := x\<rparr>"
    "v1_pack_view c = v1_received p b" "take (pk_len p) b = pk_payload p"
    using v1_frame_received [OF assms(2,1) disjI1 [OF assms(3)] assms(6,7)] by blast
  have "\<not> v_is_route c" using c(2) assms(3) by (auto simp: v1_addressed_def)
  from c(1) [unfolded v1_accept_dispatch [OF this c(3,4) assms(4,5)]] c(5) show ?thesis
    by (intro exI [of _ "comm_v1_reset (c\<lparr>v_last_seq := pk_seq p, v_last_seq_valid := True\<rparr>)"] exI [of _ b])
       (simp add: comm_v1_reset_def)
qed

text \<open>
  A defect of the forwarding path: comm_v1_route_forward means to send a routed frame on unchanged,
  SOP to SUM, but the SUM byte was checked and never captured, so the link of the first matching
  route gets the frame with its last byte missing.
\<close>

theorem comm_v1_route_drops_sum:
  assumes "v1_sendable p" "v1_expects c0 p" "pk_dst p \<noteq> 0" "pk_dst p \<noteq> v_src c0"
    and "\<not> comm_v1_is_codec_select p"
    and "find_route (env_routes env) (v_link_id c0) (pk_dst p) = Some r"
    and "find_link_by_id (env_links env) (rt_dst_link_id r) = Some l"
    and "map snd tbs = v1_frame ready p" "timely (fst (hd tbs)) tbs"
  shows "snd (v1_feed ready' env cmds printf tbs c0) = transmit (lk_printf l) (butlast (v1_frame ready p))"
proof -
  have rt: "comm_v1_is_route_target env (v_link_id c0) (pk_dst p)"
    using assms(6) by (simp add: comm_v1_is_route_target_def)
  obtain c x b where c: "v1_feed ready' env cmds printf tbs c0 = v1_accept ready' env cmds printf c"
    "v_is_route c = (pk_dst p \<noteq> 0 \<and> pk_dst p \<noteq> v_src c0)" "v_link_id c = v_link_id c0"
    "v1_captured c = butlast (v1_frame ready p)" "v_pack c = (v1_received p [])\<lparr>pk_data := x\<rparr>"
    using v1_frame_received [OF assms(2,1) _ assms(8,9), of env ready' cmds printf] assms(3,4) rt by blast
  have p: "pk_cmd_set (v_pack c) = pk_cmd_set p" "pk_cmd_word (v_pack c) = pk_cmd_word p" "pk_dst (v_pack c) = pk_dst p"
    unfolding c(5) by (simp_all add: v1_received_def)
  show ?thesis
    using c(2,3,4) assms(3-7) p
    by (auto simp: c(1) v1_accept_def Let_def comm_v1_is_codec_select_def comm_v1_route_forward_def v1_captured_def)
qed

text \<open>The answer to a CODEC_SELECT request.\<close>

definition select_answer :: "u8 list" where
  "select_answer = [0, 1, codec_dict_codebook_id, codec_dict_codebook_version] @ u32_le codec_dict_codebook_crc32"

lemma codec_select_response_sendable:
  assumes "v1_sendable p"
  shows "v1_sendable (codec_select_response p)" "pk_payload (codec_select_response p) = select_answer"
proof -
  have "send_ok p" using assms by (simp add: v1_sendable_def)
  then show "v1_sendable (codec_select_response p)"
    by (auto simp: v1_sendable_def send_ok_def codec_select_response_def empty_pack_def pk_payload_def u32_le_def)
  show "pk_payload (codec_select_response p) = select_answer"
    by (simp add: codec_select_response_def empty_pack_def pk_payload_def u32_le_def select_answer_def codec_values)
qed

lemma codec_select_response_parts:
  "frame_parts ready (codec_select_response p) = (CODEC_RAW, pk_payload (codec_select_response p))"
  by (simp add: frame_parts_def choose_encoding_def comm_v1_is_codec_select_def codec_select_response_def
      empty_pack_def Let_def pk_payload_def u32_le_def)

lemma codec_select_response_received:
  "codec_select_response (v1_received p b) = codec_select_response p"
  "codec_select_response (p\<lparr>pk_data := x\<rparr>) = codec_select_response p"
  by (simp_all add: codec_select_response_def v1_received_def)

text \<open>
  A CODEC_SELECT request is answered by the parser itself: exactly one frame, never
  compressed, back to the requester with its SEQ, that carries result 0, the DICT codec and the
  codebook's id, version and CRC; the requester can send it on the same link.
\<close>

theorem comm_v1_codec_select_answered:
  assumes "v1_sendable p" "v1_expects c0 p" "v1_addressed c0 p"
    and "comm_v1_is_codec_select p" "pk_is_ack p = 0"
    and "map snd tbs = v1_frame ready p" "timely (fst (hd tbs)) tbs"
  shows "snd (v1_feed ready' env cmds printf tbs c0) = transmit printf (v1_frame ready' (codec_select_response p))
    \<and> frame_parts ready' (codec_select_response p) = (CODEC_RAW, select_answer)
    \<and> v1_sendable (codec_select_response p) \<and> pk_dst (codec_select_response p) = pk_src p
    \<and> pk_seq (codec_select_response p) = pk_seq p"
proof -
  obtain c x b where c: "v1_feed ready' env cmds printf tbs c0 = v1_accept ready' env cmds printf c"
    "v_pack c = (v1_received p [])\<lparr>pk_data := x\<rparr>"
    using v1_frame_received [OF assms(2,1) disjI1 [OF assms(3)] assms(6,7)] by blast
  have p: "pk_cmd_set (v_pack c) = 0" "pk_cmd_word (v_pack c) = 0" "pk_is_ack (v_pack c) = 0"
    "codec_select_response (v_pack c) = codec_select_response p"
    using assms(4,5) unfolding c(2) codec_select_response_received
    by (simp_all add: v1_received_def comm_v1_is_codec_select_def)
  have s: "v1_sendable (codec_select_response p)" "pk_payload (codec_select_response p) = select_answer"
    using codec_select_response_sendable [OF assms(1)] by blast+
  have "snd (v1_feed ready' env cmds printf tbs c0) = comm_v1_send ready' (Some (codec_select_response p)) printf"
    using p by (simp add: c(1) v1_accept_def Let_def comm_v1_codec_select_handle_def)
  also have "\<dots> = transmit printf (v1_frame ready' (codec_select_response p))"
    using s(1) by (simp add: comm_v1_send_def v1_sendable_def)
  finally show ?thesis
    using s by (simp add: codec_select_response_parts) (simp add: codec_select_response_def)
qed

section \<open>Any input\<close>

text \<open>
  The frame comm_v1_send builds is 6 bytes for a command and 8 to 263 bytes for data; its
  DATA is never longer than the payload, and an encoding other than RAW is only used when it
  saves at least the threshold.
\<close>

theorem comm_v1_frame_size:
  assumes "v1_sendable p"
  shows "length (v1_frame ready p) \<le> 263
    \<and> length (v1_frame ready p) = (if pk_len p = 0 then 6 else 7 + length (snd (frame_parts ready p)))
    \<and> length (snd (frame_parts ready p)) \<le> pk_len p
    \<and> (fst (frame_parts ready p) = CODEC_RAW \<or> length (snd (frame_parts ready p)) + min_saved (pk_len p) \<le> pk_len p)"
proof -
  have s: "send_ok p" "length (pk_payload p) = pk_len p" using assms by (auto simp: v1_sendable_def)
  have "pk_len p \<le> 256" using s(1) by (auto simp: send_ok_def)
  then show ?thesis
    using frame_parts_ok(2,5,6) [OF s, of ready] frame_msg_fields(10) [OF s, of ready]
    by (cases "pk_len p = 0") (auto simp: v1_frame_eq [OF s] v1_body_def)
qed

text \<open>
  C36: no byte sequence, at whatever times it arrives, makes the receiver store outside its
  buffers: in every reachable state the next store of comm_v1_run is inside the 263-byte wire
  buffer and the 256-byte data buffer.
\<close>

theorem comm_v1_run_in_bounds:
  "let c = fst (v1_feed ready env cmds printf tbs (declare_comm_v1_ctx src link_id))
   in length (v_wire_buffer c) = 263 \<and> length (v_data_buffer c) = 256 \<and> length (v_candidate_buffer c) = 256
    \<and> (v_status c \<in> {V1_MSG_L0, V1_MSG_L1, V1_MSG_L2, V1_MSG_L3, V1_LEN, V1_DATA, V1_SUM} \<longrightarrow> v_wire_len c \<le> 262)
    \<and> (v_status c = V1_DATA \<longrightarrow> v_index c + v_len c \<le> 256 \<and> 0 < v_len c)"
proof -
  have "v1_ok (fst (v1_feed ready env cmds printf tbs (declare_comm_v1_ctx src link_id)))"
    by (rule v1_feed_ok [OF declare_v1_ok])
  then show ?thesis unfolding Let_def v1_ok_def by (auto split: v1_status.splits)
qed

text \<open>
  The block path is equivalent to the byte path: feeding a block to a parser that is idle
  or has heard from the link within the timeout gives the same callbacks and transmissions in
  the same order as its bytes one by one, and the same parser state, except that an idle parser
  may keep an older tick.
\<close>

theorem comm_v1_run_buffer_bytewise:
  assumes "v1_fresh now (fst (v1_feed ready env cmds printf tbs (declare_comm_v1_ctx src link_id)))"
  shows "let c0 = fst (v1_feed ready env cmds printf tbs (declare_comm_v1_ctx src link_id));
             b = v1_buffer_loop ready env cmds printf (\<lambda>_. now) bs c0;
             f = v1_feed ready env cmds printf (map (Pair now) bs) c0
         in v1_same (fst b) (fst f) \<and> snd b = snd f"
  using v1_buffer_loop_feed [OF v1_feed_ok [OF declare_v1_ok] assms, of ready env cmds printf bs]
  by (simp add: Let_def)

text \<open>
  C4: the receiver acts only on checked frames: whenever a byte causes a callback, a forwarding
  or an answer, the bytes received so far end in a frame that starts with 0xE9 and whose last
  byte is the SUM of all the bytes before it.
\<close>

theorem comm_v1_acts_on_checked_frames:
  assumes "snd (v1_step ready env cmds printf now b
      (fst (v1_feed ready env cmds printf tbs (declare_comm_v1_ctx src link_id)))) \<noteq> []"
  shows "\<exists>pre w. map snd tbs = pre @ 0xE9 # w \<and> b = comm_sum_encode (Some (0xE9 # w))"
proof -
  let ?c = "fst (v1_feed ready env cmds printf tbs (declare_comm_v1_ctx src link_id))"
  have "v1_hist (map snd tbs) ?c"
    using v1_feed_hist [OF declare_v1_ok, of "[]"] by (simp add: v1_hist_def declare_comm_v1_ctx_def)
  then show ?thesis
    using v1_step_event(1,3) [OF assms] unfolding v1_hist_def by force
qed

text \<open>
  No frame is accepted twice in a row: a byte that completes an accepted frame leaves its
  SEQ recorded, and that SEQ differs from the one recorded before.
\<close>

theorem comm_v1_no_repeat:
  assumes "c0 = fst (v1_feed ready env cmds printf tbs (declare_comm_v1_ctx src link_id))"
    and "v1_step ready env cmds printf now b c0 = (c1, evs)" "evs \<noteq> []"
  shows "v_last_seq_valid c1 \<and> (v_last_seq_valid c0 \<longrightarrow> v_last_seq c1 \<noteq> v_last_seq c0)"
proof -
  have "v1_seq_ok c0" unfolding assms(1) by (rule v1_feed_seq) (simp add: v1_seq_ok_def declare_comm_v1_ctx_def)
  then show ?thesis using v1_step_accept_seq [of c0 ready env cmds printf now b] assms(2,3) by (auto simp: Let_def)
qed

text \<open>
  The half-frame timeout does not hold on the block path: payload bytes that arrive in a
  block after the timeout are still copied into the stale frame, where comm_v1_run drops the
  frame on the first of them.
\<close>

theorem comm_v1_run_buffer_ignores_timeout:
  assumes "v1_ok c" "v_status c = V1_DATA" "bs \<noteq> []" "length bs \<le> v_len c" "now - v_last_rx_tick c > 1000"
  shows "v1_buffer_loop ready env cmds printf (\<lambda>_. now) bs c = (v1_bulk now bs c, [])
    \<and> v_status (v1_bulk now bs c) \<in> {V1_DATA, V1_SUM}
    \<and> v_status (fst (v1_step ready env cmds printf now (hd bs) c)) \<in> {V1_IDLE, V1_MSG_L0}"
proof -
  have "0 < v_len c" using assms(1,2) by (simp add: v1_ok_def)
  then have "v1_buffer_loop ready env cmds printf (\<lambda>_. now) bs c = (v1_bulk now bs c, [])"
    using assms(2-4) by (subst v1_buffer_loop.simps) (simp add: v1_buffer_loop.simps Let_def)
  moreover have "v_status (v1_bulk now bs c) \<in> {V1_DATA, V1_SUM}"
    using assms(2) by (simp add: v1_bulk_def Let_def)
  moreover have "v_status (fst (v1_step ready env cmds printf now (hd bs) c)) \<in> {V1_IDLE, V1_MSG_L0}"
    using assms(2,5) by (simp add: v1_step_def Let_def v1_tick_def comm_v1_reset_def v1_idle_def)
  ultimately show ?thesis by blast
qed

section \<open>Concrete runs\<close>

text \<open>A node with address 5, a command (1, 2), a link 2 reached by a route, and a sender's frame.\<close>

definition sample_frame :: "u8 \<Rightarrow> u8 \<Rightarrow> u8 \<Rightarrow> u8 list \<Rightarrow> packform" where
  "sample_frame dst cmd_set cmd_word payload =
     empty_pack\<lparr>pk_sop := 0xE9, pk_version := 1, pk_src := 3, pk_dst := dst, pk_cmd_set := cmd_set,
       pk_cmd_word := cmd_word, pk_seq := 1, pk_len := length payload, pk_data := Bytes payload\<rparr>"

definition sample_cmds :: "section_com list" where
  "sample_cmds = [\<lparr>com_cmd_set = 1, com_cmd_word = 2, com_func = Some 9\<rparr>]"

definition sample_env :: comm_env where
  "sample_env = \<lparr>env_routes = [\<lparr>rt_src_link_id = 1, rt_dst_link_id = 2, rt_dst_addr = 7\<rparr>],
     env_links = [\<lparr>lk_printf = Some \<lparr>tx_by_dma = Some 4\<rparr>, lk_link_id = 2\<rparr>]\<rparr>"

lemma timely_together: "timely t (map (Pair t) bs)"
  by (induction bs) auto

lemma timely_frame: "timely (fst (hd (map (Pair t) bs))) (map (Pair t) bs)"
  using timely_together by (cases bs) auto

lemma map_snd_pair [simp]: "map snd (map (Pair t) bs) = bs"
  by (simp add: comp_def)

lemmas sample_defs = sample_frame_def sample_cmds_def sample_env_def empty_pack_def

lemma sample_sendable:
  "v1_sendable (sample_frame 5 1 2 [1, 2, 3])" "v1_sendable (sample_frame 7 1 2 [1, 2, 3])"
  "v1_sendable (sample_frame 5 0 0 [])"
  by (simp_all add: v1_sendable_def send_ok_def sample_defs pk_payload_def)

lemma sample_expects: "v1_expects (declare_comm_v1_ctx 5 1) p"
  by (simp add: v1_expects_def declare_v1_ok) (simp add: declare_comm_v1_ctx_def)

theorem comm_v1_delivers_witness:
  "\<exists>c b. v1_feed None sample_env sample_cmds None (map (Pair 7) (v1_frame None (sample_frame 5 1 2 [1, 2, 3])))
        (declare_comm_v1_ctx 5 1) = (c, [Dispatch 9 (v1_received (sample_frame 5 1 2 [1, 2, 3]) b) None])
     \<and> take 3 b = [1, 2, 3]"
proof -
  let ?p = "sample_frame 5 1 2 [1, 2, 3]"
  have a: "v1_addressed (declare_comm_v1_ctx 5 1) ?p" "\<not> comm_v1_is_codec_select ?p"
    "comm_v1_find_func sample_cmds (pk_cmd_set ?p) (pk_cmd_word ?p) = Some 9" "pk_len ?p = 3" "pk_payload ?p = [1, 2, 3]"
    by (simp_all add: v1_addressed_def declare_comm_v1_ctx_def comm_v1_is_codec_select_def comm_v1_find_func_def
        com_matches_def sample_defs pk_payload_def)
  show ?thesis
    using comm_v1_delivers [OF sample_sendable(1) sample_expects a(1-3) map_snd_pair timely_frame,
        of None sample_env None 7 None] unfolding a(4,5) by blast
qed

theorem comm_v1_route_drops_sum_witness:
  "snd (v1_feed None sample_env sample_cmds None (map (Pair 7) (v1_frame None (sample_frame 7 1 2 [1, 2, 3])))
        (declare_comm_v1_ctx 5 1))
     = [Transmit 4 (butlast (v1_frame None (sample_frame 7 1 2 [1, 2, 3])))]"
proof -
  let ?p = "sample_frame 7 1 2 [1, 2, 3]"
  let ?r = "\<lparr>rt_src_link_id = 1, rt_dst_link_id = 2, rt_dst_addr = 7\<rparr>"
  let ?l = "\<lparr>lk_printf = Some \<lparr>tx_by_dma = Some 4\<rparr>, lk_link_id = 2\<rparr>"
  have "pk_dst ?p \<noteq> 0" "pk_dst ?p \<noteq> v_src (declare_comm_v1_ctx 5 1)" "\<not> comm_v1_is_codec_select ?p"
    "find_route (env_routes sample_env) (v_link_id (declare_comm_v1_ctx 5 1)) (pk_dst ?p) = Some ?r"
    "find_link_by_id (env_links sample_env) (rt_dst_link_id ?r) = Some ?l"
    by (simp_all add: declare_comm_v1_ctx_def comm_v1_is_codec_select_def sample_defs find_route_def find_link_by_id_def)
  from comm_v1_route_drops_sum [OF sample_sendable(2) sample_expects this map_snd_pair timely_frame, of None sample_cmds None 7 None]
  show ?thesis by (simp add: transmit_def)
qed

theorem comm_v1_codec_select_answered_witness:
  "snd (v1_feed None sample_env [] (Some \<lparr>tx_by_dma = Some 4\<rparr>) (map (Pair 7) (v1_frame None (sample_frame 5 0 0 [])))
        (declare_comm_v1_ctx 5 1))
     = [Transmit 4 (v1_frame None (codec_select_response (sample_frame 5 0 0 [])))]"
proof -
  let ?p = "sample_frame 5 0 0 []"
  have "v1_addressed (declare_comm_v1_ctx 5 1) ?p" "comm_v1_is_codec_select ?p" "pk_is_ack ?p = 0"
    by (simp_all add: v1_addressed_def declare_comm_v1_ctx_def comm_v1_is_codec_select_def sample_defs)
  from comm_v1_codec_select_answered [OF sample_sendable(3) sample_expects this map_snd_pair timely_frame,
      of None sample_env "[]" "Some \<lparr>tx_by_dma = Some 4\<rparr>" 7 None]
  show ?thesis by (simp add: transmit_def)
qed

theorem comm_v1_frame_size_witness: "length (v1_frame None (sample_frame 5 1 2 [1, 2, 3])) \<le> 263"
  using comm_v1_frame_size [OF sample_sendable(1), of None] by blast

theorem comm_v1_run_buffer_bytewise_witness:
  "snd (v1_buffer_loop None sample_env sample_cmds None (\<lambda>_. 9) [0x29, 0x0C]
       (fst (v1_feed None sample_env sample_cmds None [(4, 0xE9)] (declare_comm_v1_ctx 5 1))))
   = snd (v1_feed None sample_env sample_cmds None [(9, 0x29), (9, 0x0C)]
       (fst (v1_feed None sample_env sample_cmds None [(4, 0xE9)] (declare_comm_v1_ctx 5 1))))"
proof -
  have "v1_fresh 9 (fst (v1_feed None sample_env sample_cmds None [(4, 0xE9)] (declare_comm_v1_ctx 5 1)))"
    by (simp add: v1_fresh_def v1_step_def Let_def v1_tick_def v1_idle_def declare_comm_v1_ctx_def)
  from comm_v1_run_buffer_bytewise [OF this, of "[0x29, 0x0C]"] show ?thesis by (simp add: Let_def)
qed

text \<open>The same frame just before its last byte.\<close>

definition sample_bytes :: "u8 list" where
  "sample_bytes = v1_frame None (sample_frame 5 1 2 [1, 2, 3])"

definition sample_before :: comm_v1_ctx where
  "sample_before =
     fst (v1_feed None sample_env sample_cmds None (map (Pair 7) (butlast sample_bytes)) (declare_comm_v1_ctx 5 1))"

lemma sample_event:
  "snd (v1_step None sample_env sample_cmds None 7 (last sample_bytes) sample_before) \<noteq> []"
proof -
  let ?p = "sample_frame 5 1 2 [1, 2, 3]"
  have a: "v1_addressed (declare_comm_v1_ctx 5 1) ?p" "\<not> comm_v1_is_codec_select ?p"
    "comm_v1_find_func sample_cmds (pk_cmd_set ?p) (pk_cmd_word ?p) = Some 9"
    by (simp_all add: v1_addressed_def declare_comm_v1_ctx_def comm_v1_is_codec_select_def comm_v1_find_func_def
        com_matches_def sample_defs)
  obtain c x b where c: "v1_last_byte None sample_env sample_cmds None (map (Pair 7) sample_bytes) (declare_comm_v1_ctx 5 1)
       (v1_accept None sample_env sample_cmds None c)"
    "v_is_route c = (pk_dst ?p \<noteq> 0 \<and> pk_dst ?p \<noteq> v_src (declare_comm_v1_ctx 5 1))"
    "v_pack c = (v1_received ?p [])\<lparr>pk_data := x\<rparr>" "v1_pack_view c = v1_received ?p b"
    using v1_frame_received [OF sample_expects sample_sendable(1) disjI1 [OF a(1)] map_snd_pair timely_frame,
        of None sample_env sample_cmds None 7 None] unfolding sample_bytes_def by blast
  have ne: "sample_bytes \<noteq> []" by (simp add: sample_bytes_def v1_frame_def Let_def split: prod.splits)
  have "\<not> v_is_route c" using c(2) a(1) by (auto simp: v1_addressed_def)
  from c(1) [unfolded v1_accept_dispatch [OF this c(3,4) a(2,3)]] show ?thesis
    using ne by (auto simp: v1_last_byte_def sample_before_def last_map map_butlast)
qed

theorem comm_v1_acts_on_checked_frames_witness:
  "\<exists>pre w. butlast sample_bytes = pre @ 0xE9 # w \<and> last sample_bytes = comm_sum_encode (Some (0xE9 # w))"
  using comm_v1_acts_on_checked_frames [OF sample_event [unfolded sample_before_def]] unfolding map_snd_pair .

theorem comm_v1_no_repeat_witness:
  "v_last_seq_valid (fst (v1_step None sample_env sample_cmds None 7 (last sample_bytes) sample_before))"
  using comm_v1_no_repeat [OF sample_before_def prod.collapse [symmetric] sample_event] by blast

theorem comm_v1_run_buffer_ignores_timeout_witness:
  "\<exists>c. v_last_rx_tick c = 0 \<and> v_status c = V1_DATA \<and>
     v_status (fst (v1_buffer_loop None sample_env sample_cmds None (\<lambda>_. 5000) [1] c)) \<in> {V1_DATA, V1_SUM}"
proof -
  let ?c = "(declare_comm_v1_ctx 5 1)\<lparr>v_status := V1_DATA, v_wire_len := 6, v_len := 4\<rparr>"
  have "v1_ok ?c" "v_status ?c = V1_DATA" "[1 :: u8] \<noteq> []" "length [1 :: u8] \<le> v_len ?c" "5000 - v_last_rx_tick ?c > 1000"
    by (simp_all add: v1_ok_def declare_comm_v1_ctx_def)
  from comm_v1_run_buffer_ignores_timeout [OF this, of None sample_env sample_cmds None] show ?thesis
    by (intro exI [of _ ?c]) (simp add: declare_comm_v1_ctx_def)
qed

theorem comm_v1_run_in_bounds_witness:
  "length (v_wire_buffer (fst (v1_feed None sample_env [] None [(0, 0xE9), (0, 1)] (declare_comm_v1_ctx 5 1)))) = 263"
  using comm_v1_run_in_bounds [of None sample_env "[]" None "[(0, 0xE9), (0, 1)]" 5 1] unfolding Let_def by blast

end
