(* ===== verification/Byte_Machine.thy ===== *)
theory Byte_Machine
  imports Prelude
begin

text \<open>
  Parsers fed byte by byte or in blocks: the run of a step function over timed bytes, the block
  loop of a link handler (skip to the start byte while idle, copy payload bytes in bulk, step
  otherwise), and the contract under which the two agree.
\<close>

section \<open>Feeding bytes\<close>

fun feed :: "('n \<Rightarrow> 'b \<Rightarrow> 's \<Rightarrow> 's \<times> 'e list) \<Rightarrow> ('n \<times> 'b) list \<Rightarrow> 's \<Rightarrow> 's \<times> 'e list" where
  "feed step [] s = (s, [])"
| "feed step ((now, b) # bs) s =
     (case step now b s of
        (s1, e1) \<Rightarrow> (case feed step bs s1 of (s2, e2) \<Rightarrow> (s2, e1 @ e2)))"

lemma feed_append:
  "feed step (as @ bs) s =
     (case feed step as s of (s1, e1) \<Rightarrow> (case feed step bs s1 of (s2, e2) \<Rightarrow> (s2, e1 @ e2)))"
  by (induction as arbitrary: s) (auto split: prod.splits)

lemma feed_inv:
  assumes "\<And>s now b. I s \<Longrightarrow> I (fst (step now b s))"
  shows "I s \<Longrightarrow> I (fst (feed step bs s))"
proof (induction bs arbitrary: s)
  case (Cons nb bs)
  obtain now b where nb: "nb = (now, b)" by (cases nb)
  show ?case using Cons.IH [OF assms [OF Cons.prems, of now b]] by (auto simp: nb split: prod.splits)
qed simp

text \<open>No gap between the bytes exceeds the half-frame timeout of 1000 ticks.\<close>

fun in_time :: "u32 \<Rightarrow> (u32 \<times> 'b) list \<Rightarrow> bool" where
  "in_time t [] \<longleftrightarrow> True"
| "in_time t ((now, b) # bs) \<longleftrightarrow> now - t \<le> 1000 \<and> in_time now bs"

lemma in_time_append:
  "in_time s (xs @ ys) \<longleftrightarrow> in_time s xs \<and> in_time (if xs = [] then s else fst (last xs)) ys"
  by (induction xs arbitrary: s) auto

lemma in_time_together: "in_time t (map (Pair t) bs)"
  by (induction bs) auto

section \<open>Blocks\<close>

text \<open>
  \<open>room s\<close> is the number of payload bytes the parser still waits for, 0 outside the
  payload; \<open>clk bs\<close> the tick read when \<open>bs\<close> is left to process.
\<close>

function block_loop ::
  "(u32 \<Rightarrow> u8 \<Rightarrow> 's \<Rightarrow> 's \<times> 'e list) \<Rightarrow> (u32 \<Rightarrow> u8 list \<Rightarrow> 's \<Rightarrow> 's) \<Rightarrow> ('s \<Rightarrow> bool) \<Rightarrow> u8 \<Rightarrow> ('s \<Rightarrow> nat)
     \<Rightarrow> (u8 list \<Rightarrow> u32) \<Rightarrow> u8 list \<Rightarrow> 's \<Rightarrow> 's \<times> 'e list" where
  "block_loop step bulk idle sop room clk bs s =
     (if bs = [] then (s, [])
      else
        (let rest = (if idle s then dropWhile (\<lambda>b. b \<noteq> sop) bs else bs)
         in if rest = [] then (s, [])
            else if room s > 0 then
              (let copy_length = min (length rest) (room s)
               in block_loop step bulk idle sop room clk (drop copy_length rest)
                    (bulk (clk rest) (take copy_length rest) s))
            else
              (case step (clk rest) (hd rest) s of
                 (s1, e1) \<Rightarrow>
                   (case block_loop step bulk idle sop room clk (tl rest) s1 of (s2, e2) \<Rightarrow> (s2, e1 @ e2)))))"
  by pat_completeness auto

lemma rest_le: "length (if c then dropWhile P xs else xs) \<le> length xs"
  by (simp add: length_dropWhile_le)

termination block_loop
proof (relation "measure (\<lambda>(step, bulk, idle, sop, room, clk, bs, s). length bs)", goal_cases)
  case (2 step bulk idle sop room clk bs s rest n)
  then show ?case using rest_le [of "idle s" "\<lambda>b. b \<noteq> sop" bs] by (auto simp: min_def)
next
  case (3 step bulk idle sop room clk bs s rest)
  have "length rest \<le> length bs" using rest_le [of "idle s" "\<lambda>b. b \<noteq> sop" bs] 3(2) by simp
  moreover have "0 < length bs" using 3(1) by simp
  ultimately have "length (tl rest) < length bs" unfolding length_tl by linarith
  then show ?case by simp
qed simp

declare block_loop.simps [simp del]

text \<open>
  The contract of a parser that has both entries: the invariant, the freshness of its last
  tick, the bulk copy as a sequence of payload steps, the bytes an idle parser skips, and what
  of an idle parser never matters.
\<close>

locale block_parser =
  fixes step :: "u32 \<Rightarrow> u8 \<Rightarrow> 's \<Rightarrow> 's \<times> 'e list"
    and bulk :: "u32 \<Rightarrow> u8 list \<Rightarrow> 's \<Rightarrow> 's"
    and idle :: "'s \<Rightarrow> bool" and sop :: u8 and room :: "'s \<Rightarrow> nat"
    and inv :: "'s \<Rightarrow> bool" and fresh :: "u32 \<Rightarrow> 's \<Rightarrow> bool" and same :: "'s \<Rightarrow> 's \<Rightarrow> bool"
  assumes inv_step: "inv s \<Longrightarrow> inv (fst (step now b s))"
    and fresh_step: "fresh now (fst (step now b s))"
    and inv_bulk: "inv s \<Longrightarrow> length bs \<le> room s \<Longrightarrow> bs \<noteq> [] \<Longrightarrow> inv (bulk now bs s)"
    and fresh_bulk: "fresh now (bulk now bs s)"
    and step_room: "inv s \<Longrightarrow> 0 < room s \<Longrightarrow> fresh now s \<Longrightarrow> step now b s = (bulk now [b] s, [])"
    and bulk_more: "inv s \<Longrightarrow> Suc (length bs) \<le> room s \<Longrightarrow> bs \<noteq> [] \<Longrightarrow> bulk now bs (bulk now [b] s) = bulk now (b # bs) s"
    and room_bulk: "inv s \<Longrightarrow> 1 < room s \<Longrightarrow> room (bulk now [b] s) = room s - 1"
    and idle_room: "idle s \<Longrightarrow> room s = 0"
    and skip: "inv s \<Longrightarrow> idle s \<Longrightarrow> b \<noteq> sop \<Longrightarrow> \<exists>s'. step now b s = (s', []) \<and> same s s' \<and> idle s'"
    and same_refl: "same s s"
    and same_trans: "same s s1 \<Longrightarrow> same s1 s2 \<Longrightarrow> same s s2"
    and same_step: "same s s1 \<Longrightarrow> step now b s = step now b s1"
begin

lemma feed_bulk:
  "inv s \<Longrightarrow> fresh now s \<Longrightarrow> length bs \<le> room s \<Longrightarrow> bs \<noteq> [] \<Longrightarrow>
     feed step (map (Pair now) bs) s = (bulk now bs s, [])"
proof (induction bs arbitrary: s)
  case (Cons b bs)
  have room: "0 < room s" using Cons.prems(3) by simp
  note step = step_room [OF Cons.prems(1) room Cons.prems(2), of b]
  show ?case
  proof (cases "bs = []")
    case True
    then show ?thesis by (simp add: step)
  next
    case False
    have one: "1 < room s" using Cons.prems(3) False by (cases bs) auto
    have c: "inv (bulk now [b] s)" "room (bulk now [b] s) = room s - 1"
      using inv_step [OF Cons.prems(1), of now b] step room_bulk [OF Cons.prems(1) one] by simp_all
    have "feed step (map (Pair now) bs) (bulk now [b] s) = (bulk now bs (bulk now [b] s), [])"
      using Cons.prems(3) False c fresh_bulk by (intro Cons.IH) auto
    then show ?thesis using step bulk_more [OF Cons.prems(1) _ False] Cons.prems(3) by simp
  qed
qed simp

lemma feed_skip:
  "inv s \<Longrightarrow> idle s \<Longrightarrow> sop \<notin> set bs \<Longrightarrow>
     \<exists>s'. feed step (map (Pair now) bs) s = (s', []) \<and> same s s'"
proof (induction bs arbitrary: s)
  case (Cons b bs)
  obtain s1 where s1: "step now b s = (s1, [])" "same s s1" "idle s1"
    using skip [OF Cons.prems(1,2), of b now] Cons.prems(3) by auto
  have "inv s1" using inv_step [OF Cons.prems(1), of now b] s1(1) by simp
  then obtain s2 where "feed step (map (Pair now) bs) s1 = (s2, [])" "same s1 s2"
    using Cons.IH [OF _ s1(3)] Cons.prems(3) by auto
  then show ?case using s1 same_trans by auto
qed (simp add: same_refl)

lemma feed_same:
  assumes "same s s1"
  shows "same (fst (feed step bs s)) (fst (feed step bs s1)) \<and> snd (feed step bs s) = snd (feed step bs s1)"
proof (cases bs)
  case (Cons nb bs')
  then show ?thesis using same_step [OF assms] same_refl by (cases nb) simp
qed (simp add: assms)

theorem block_loop_feed:
  "inv s \<Longrightarrow> fresh now s \<Longrightarrow>
     same (fst (block_loop step bulk idle sop room (\<lambda>_. now) bs s)) (fst (feed step (map (Pair now) bs) s))
     \<and> snd (block_loop step bulk idle sop room (\<lambda>_. now) bs s) = snd (feed step (map (Pair now) bs) s)"
proof (induction "length bs" arbitrary: bs s rule: less_induct)
  case (less bs s)
  let ?L = "block_loop step bulk idle sop room (\<lambda>_. now)"
  let ?F = "\<lambda>bs. feed step (map (Pair now) bs)"
  let ?rest = "if idle s then dropWhile (\<lambda>b. b \<noteq> sop) bs else bs"
  let ?pre = "if idle s then takeWhile (\<lambda>b. b \<noteq> sop) bs else []"
  have bs: "bs = ?pre @ ?rest" by simp
  have "sop \<notin> set (takeWhile (\<lambda>b. b \<noteq> sop) bs)" by (auto dest: set_takeWhileD)
  then have "\<exists>s0. ?F ?pre s = (s0, []) \<and> same s s0"
    using feed_skip [OF less.prems(1), of "takeWhile (\<lambda>b. b \<noteq> sop) bs" now] same_refl [of s] by (cases "idle s") auto
  then obtain s0 where s0: "?F ?pre s = (s0, [])" "same s s0" by blast
  have feed: "?F bs s = ?F ?rest s0"
    using s0(1) by (subst bs) (simp only: map_append feed_append prod.case append_Nil split_beta prod.collapse fst_conv snd_conv)
  have "same (fst (?L bs s)) (fst (?F ?rest s)) \<and> snd (?L bs s) = snd (?F ?rest s)"
  proof (cases "bs = [] \<or> ?rest = []")
    case True
    then have re: "?rest = []" by (cases "bs = []") auto
    then have "?L bs s = (s, [])" by (subst block_loop.simps) (simp only: Let_def simp_thms if_True if_cancel)
    then show ?thesis unfolding re by (simp add: same_refl)
  next
    case False
    then obtain b r where r: "?rest = b # r" by (cases ?rest) auto
    have len: "length ?rest \<le> length bs" by (rule rest_le)
    show ?thesis
    proof (cases "0 < room s")
      case data: True
      then have nid: "\<not> idle s" using idle_room by fastforce
      let ?n = "min (length bs) (room s)"
      let ?c = "bulk now (take ?n bs) s"
      have L: "?L bs s = ?L (drop ?n bs) ?c"
        using False data nid by (subst block_loop.simps) (simp add: Let_def)
      have n: "0 < ?n" "take ?n bs \<noteq> []" "length (take ?n bs) \<le> room s" using False data by auto
      have F: "?F (take ?n bs) s = (?c, [])" by (rule feed_bulk [OF less.prems n(3,2)])
      have "?F (take ?n bs @ drop ?n bs) s = ?F (drop ?n bs) ?c"
        unfolding map_append feed_append F by simp
      then have "?F bs s = ?F (drop ?n bs) ?c" by simp
      moreover have "inv ?c" by (rule inv_bulk [OF less.prems(1) n(3,2)])
      ultimately show ?thesis
        using less.hyps [of "drop ?n bs" ?c] L n fresh_bulk nid by (auto simp: False)
    next
      case byte: False
      obtain c1 e1 where s: "step now b s = (c1, e1)" by fastforce
      have c1: "inv c1" "fresh now c1"
        using inv_step [OF less.prems(1), of now b] fresh_step [of now b s] s by simp_all
      have "?L bs s = (case ?L r c1 of (c2, e2) \<Rightarrow> (c2, e1 @ e2))"
      proof -
        have "(bs = []) = False" "(room s > 0) = False" using False byte by auto
        then show ?thesis
          by (subst block_loop.simps) (simp only: Let_def r list.distinct list.sel if_False s prod.case)
      qed
      moreover have "?F ?rest s = (case ?F r c1 of (c2, e2) \<Rightarrow> (c2, e1 @ e2))"
        unfolding r by (simp add: s)
      moreover have "length r < length bs" using len unfolding r by simp
      ultimately show ?thesis
        using less.hyps [OF _ c1, of r] by (auto split: prod.splits)
    qed
  qed
  moreover have "same (fst (?F ?rest s)) (fst (?F ?rest s0)) \<and> snd (?F ?rest s) = snd (?F ?rest s0)"
    by (rule feed_same [OF s0(2)])
  ultimately show ?case unfolding feed using same_trans by auto
qed

end

end
