(* ===== verification/Comm_Frame.thy ===== *)
theory Comm_Frame
  imports Comm_Crc Comm_Registry Comm_V1_Send Byte_Machine
begin

text \<open>
  The 0xE8 protocol of code/data_source/comm/comm.c: the frame sender comm_send_data with its
  dispatch to COMM v1, the parser comm_run with its routing, and the block entry
  comm_run_buffer.  The command list is the registration list of Comm_Registry read as the
  list of its items; a lookup moves the item found to the front.
\<close>

section \<open>Sending\<close>

definition COMM_SOP_BYTE :: u8 where "COMM_SOP_BYTE = 0xE8"

text \<open>The bytes before the CRC.\<close>

definition frame_header :: "packform \<Rightarrow> u8 list" where
  "frame_header p =
     [COMM_SOP_BYTE, 1, pk_src p, pk_d_src p, pk_dst p, pk_d_dst p, pk_cmd_set p, pk_cmd_word p, pk_is_ack p,
      of_nat (pk_len p) AND 0xFF, of_nat (pk_len p div 256)]"

definition frame_crc :: "packform \<Rightarrow> u16" where
  "frame_crc p = crc16_final (crc16_update_block crc16_init (frame_header p @ pk_payload p))"

definition comm_frame :: "packform \<Rightarrow> u8 list" where
  "comm_frame p = frame_header p @ pk_payload p @ u16_le (frame_crc p) @ [0x0D, 0x0A]"

text \<open>
  \<open>comm_send_data\<close>: the transmissions and the frame object afterwards (its version
  and CRC are set in place).  The v1 branch leaves the object alone.
\<close>

definition comm_send_data ::
  "64 word list option \<Rightarrow> packform option \<Rightarrow> my_printf option \<Rightarrow> event list \<times> packform option" where
  "comm_send_data ready p_frame printf =
     (case p_frame of
        None \<Rightarrow> ([], None)
      | Some p \<Rightarrow>
          if pk_sop p = 0xE9 then (comm_v1_send ready (Some p) printf, Some p)
          else if pk_sop p \<noteq> COMM_SOP_BYTE then ([], Some p)
          else if pk_len p > 0 \<and> pk_data p = Null_Ptr then ([], Some p)
          else if 15 + pk_len p > 512 then ([], Some p)
          else (transmit printf (comm_frame p), Some (p\<lparr>pk_version := 1, pk_crc := frame_crc p\<rparr>)))"

section \<open>The parser's state\<close>

datatype comm_status =
  STA_SOP | STA_VER | STA_SRC | STA_DST | STA_CMD | STA_ACK | STA_LEN | STA_DATA | STA_CRC | STA_EOP | STA_ROUTE

record comm_ctx =
  c_data_buffer :: "u8 list"
  c_buffer_size :: nat
  c_index :: nat
  c_status :: comm_status
  c_crc :: u16
  c_pack :: packform
  c_func :: "nat option"
  c_len :: nat
  c_src :: u8
  c_d_src :: u8
  c_last_rx_tick :: u32
  c_src_flag :: bool
  c_dst_flag :: bool
  c_cmd_flag :: bool
  c_len_flag :: bool
  c_eop_flag :: bool
  c_is_route :: bool
  c_link_id :: u8

text \<open>\<open>DECLARE_COMM_CTX\<close>; the buffer size is stored in 16 bits.\<close>

definition declare_comm_ctx :: "nat \<Rightarrow> u8 \<Rightarrow> u8 \<Rightarrow> comm_ctx" where
  "declare_comm_ctx payload_size src link_id =
     \<lparr>c_data_buffer = replicate payload_size 0, c_buffer_size = payload_size mod 65536, c_index = 0,
      c_status = STA_SOP, c_crc = 0, c_pack = empty_pack, c_func = None, c_len = 0, c_src = src, c_d_src = 0,
      c_last_rx_tick = 0, c_src_flag = False, c_dst_flag = False, c_cmd_flag = False, c_len_flag = False,
      c_eop_flag = False, c_is_route = False, c_link_id = link_id\<rparr>"

definition is_addr_match :: "u8 \<Rightarrow> u8 \<Rightarrow> bool" where
  "is_addr_match addr local \<longleftrightarrow> addr = 0 \<or> addr = local"

definition comm_reset_ctx :: "comm_ctx \<Rightarrow> comm_ctx" where
  "comm_reset_ctx ctx =
     ctx\<lparr>c_status := STA_SOP, c_index := 0, c_len := 0, c_crc := 0, c_func := None, c_src_flag := False,
         c_dst_flag := False, c_cmd_flag := False, c_len_flag := False, c_eop_flag := False, c_is_route := False\<rparr>"

text \<open>The frame as a callback or sender sees it: the pointer read through.\<close>

definition pack_view :: "comm_ctx \<Rightarrow> packform" where
  "pack_view ctx =
     (case pk_data (c_pack ctx) of
        Data_Buffer \<Rightarrow> (c_pack ctx)\<lparr>pk_data := Bytes (c_data_buffer ctx)\<rparr>
      | _ \<Rightarrow> c_pack ctx)"

text \<open>The command list of a state, as the lookups of the parser use and reorder it.\<close>

definition lookup_func :: "u8 \<Rightarrow> u8 \<Rightarrow> section_com list \<Rightarrow> nat option \<times> section_com list" where
  "lookup_func cmd_set cmd_word cmds =
     (Option.bind (List.find (com_matches cmd_set cmd_word) cmds) com_func, mtf (com_matches cmd_set cmd_word) cmds)"

section \<open>Routing\<close>

text \<open>
  \<open>comm_route_run\<close>: the frame is sent again on the link of the first matching route;
  the sender sets its version and CRC in place.
\<close>

definition comm_route_run :: "64 word list option \<Rightarrow> comm_env \<Rightarrow> comm_ctx \<Rightarrow> comm_ctx \<times> event list" where
  "comm_route_run ready env ctx =
     (case find_route (env_routes env) (c_link_id ctx) (pk_dst (c_pack ctx)) of
        None \<Rightarrow> (ctx, [])
      | Some r \<Rightarrow>
          (case find_link_by_id (env_links env) (rt_dst_link_id r) of
             None \<Rightarrow> (ctx, [])
           | Some l \<Rightarrow>
               (case comm_send_data ready (Some (pack_view ctx)) (lk_printf l) of
                  (evs, q) \<Rightarrow>
                    (ctx\<lparr>c_pack := (c_pack ctx)\<lparr>pk_version := pk_version (the q), pk_crc := pk_crc (the q)\<rparr>\<rparr>, evs))))"

section \<open>The state machine\<close>

definition c_add :: "u8 \<Rightarrow> comm_ctx \<Rightarrow> comm_ctx" where
  "c_add data ctx = ctx\<lparr>c_crc := crc16_update (c_crc ctx) data\<rparr>"

definition run_sop :: "u8 \<Rightarrow> comm_ctx \<Rightarrow> comm_ctx" where
  "run_sop data ctx =
     (if data \<noteq> COMM_SOP_BYTE then ctx
      else ctx\<lparr>c_crc := crc16_update crc16_init data, c_pack := (c_pack ctx)\<lparr>pk_sop := data, pk_data := Data_Buffer\<rparr>,
               c_index := 0, c_len := 0, c_func := None, c_is_route := False, c_src_flag := False,
               c_dst_flag := False, c_cmd_flag := False, c_len_flag := False, c_eop_flag := False,
               c_status := STA_VER\<rparr>)"

definition run_ver :: "u8 \<Rightarrow> comm_ctx \<Rightarrow> comm_ctx" where
  "run_ver data ctx =
     (let ctx1 = c_add data (ctx\<lparr>c_pack := (c_pack ctx)\<lparr>pk_version := data\<rparr>\<rparr>)
      in if data \<noteq> 1 then comm_reset_ctx ctx1
         else ctx1\<lparr>c_status := STA_SRC, c_src_flag := False\<rparr>)"

definition run_src :: "u8 \<Rightarrow> comm_ctx \<Rightarrow> comm_ctx" where
  "run_src data ctx =
     (if \<not> c_src_flag ctx then
        c_add data (ctx\<lparr>c_pack := (c_pack ctx)\<lparr>pk_src := data\<rparr>, c_src_flag := True\<rparr>)
      else
        c_add data (ctx\<lparr>c_pack := (c_pack ctx)\<lparr>pk_d_src := data\<rparr>, c_dst_flag := False, c_status := STA_DST\<rparr>))"

definition run_dst :: "u8 \<Rightarrow> comm_ctx \<Rightarrow> comm_ctx" where
  "run_dst data ctx =
     (if \<not> c_dst_flag ctx then
        c_add data (ctx\<lparr>c_pack := (c_pack ctx)\<lparr>pk_dst := data\<rparr>, c_is_route := \<not> is_addr_match data (c_src ctx),
                        c_dst_flag := True\<rparr>)
      else
        (let ctx1 = c_add data (ctx\<lparr>c_pack := (c_pack ctx)\<lparr>pk_d_dst := data\<rparr>\<rparr>)
         in if is_addr_match data (c_d_src ctx1) \<or> c_is_route ctx1
            then ctx1\<lparr>c_cmd_flag := False, c_status := STA_CMD\<rparr>
            else comm_reset_ctx ctx1))"

definition run_cmd :: "u8 \<Rightarrow> comm_ctx \<times> section_com list \<Rightarrow> comm_ctx \<times> section_com list" where
  "run_cmd data s =
     (case s of
        (ctx, cmds) \<Rightarrow>
          if \<not> c_cmd_flag ctx then
            (c_add data (ctx\<lparr>c_pack := (c_pack ctx)\<lparr>pk_cmd_set := data\<rparr>, c_cmd_flag := True\<rparr>), cmds)
          else
            (let ctx1 = c_add data (ctx\<lparr>c_pack := (c_pack ctx)\<lparr>pk_cmd_word := data\<rparr>\<rparr>)
             in if c_is_route ctx1 then (ctx1\<lparr>c_status := STA_ACK\<rparr>, cmds)
                else
                  (case lookup_func (pk_cmd_set (c_pack ctx1)) (pk_cmd_word (c_pack ctx1)) cmds of
                     (func, cmds') \<Rightarrow>
                       if func = None then (comm_reset_ctx (ctx1\<lparr>c_func := func\<rparr>), cmds')
                       else (ctx1\<lparr>c_func := func, c_status := STA_ACK\<rparr>, cmds'))))"

definition run_ack :: "u8 \<Rightarrow> comm_ctx \<Rightarrow> comm_ctx" where
  "run_ack data ctx =
     c_add data (ctx\<lparr>c_pack := (c_pack ctx)\<lparr>pk_is_ack := data, pk_len := 0\<rparr>, c_len_flag := False,
                     c_status := STA_LEN\<rparr>)"

definition run_len :: "u8 \<Rightarrow> comm_ctx \<Rightarrow> comm_ctx" where
  "run_len data ctx =
     (let len = of_nat (pk_len (c_pack ctx)) :: u16
      in if \<not> c_len_flag ctx then
           c_add data (ctx\<lparr>c_pack := (c_pack ctx)\<lparr>pk_len := unat (len OR ucast data)\<rparr>, c_len_flag := True\<rparr>)
         else
           (let n = unat (len OR push_bit 8 (ucast data));
                ctx1 = c_add data (ctx\<lparr>c_pack := (c_pack ctx)\<lparr>pk_len := n, pk_data := Data_Buffer\<rparr>, c_len := n,
                                       c_index := 0, c_len_flag := False\<rparr>)
            in if n > c_buffer_size ctx1 then comm_reset_ctx ctx1
               else ctx1\<lparr>c_status := STA_DATA\<rparr>))"

definition run_data :: "u8 \<Rightarrow> comm_ctx \<Rightarrow> comm_ctx" where
  "run_data data ctx =
     (if c_len ctx \<noteq> 0 then
        c_add data (ctx\<lparr>c_data_buffer := (c_data_buffer ctx)[c_index ctx := data], c_index := inc16 (c_index ctx),
                        c_len := dec16 (c_len ctx)\<rparr>)
      else ctx\<lparr>c_pack := (c_pack ctx)\<lparr>pk_crc := ucast data\<rparr>, c_status := STA_CRC\<rparr>)"

definition run_crc :: "u8 \<Rightarrow> comm_ctx \<Rightarrow> comm_ctx" where
  "run_crc data ctx =
     (let crc = pk_crc (c_pack ctx) OR push_bit 8 (ucast data);
          ctx1 = ctx\<lparr>c_pack := (c_pack ctx)\<lparr>pk_crc := crc\<rparr>, c_crc := crc16_final (c_crc ctx)\<rparr>
      in if c_crc ctx1 \<noteq> crc then comm_reset_ctx ctx1
         else ctx1\<lparr>c_pack := (c_pack ctx1)\<lparr>pk_eop := 0\<rparr>, c_eop_flag := False, c_status := STA_EOP\<rparr>)"

definition run_eop ::
  "64 word list option \<Rightarrow> comm_env \<Rightarrow> my_printf option \<Rightarrow> u8 \<Rightarrow> comm_ctx \<Rightarrow> comm_ctx \<times> event list" where
  "run_eop ready env printf data ctx =
     (if \<not> c_eop_flag ctx then
        (ctx\<lparr>c_pack := (c_pack ctx)\<lparr>pk_eop := pk_eop (c_pack ctx) OR ucast data\<rparr>, c_eop_flag := True\<rparr>, [])
      else
        (let ctx1 = ctx\<lparr>c_pack := (c_pack ctx)\<lparr>pk_eop := pk_eop (c_pack ctx) OR push_bit 8 (ucast data)\<rparr>\<rparr>
         in if pk_eop (c_pack ctx1) = 0x0A0D then
              (if c_is_route ctx1 then
                 (case comm_route_run ready env ctx1 of (ctx2, evs) \<Rightarrow> (comm_reset_ctx ctx2, evs))
               else (comm_reset_ctx ctx1,
                     case c_func ctx1 of None \<Rightarrow> [] | Some f \<Rightarrow> [Dispatch f (pack_view ctx1) printf]))
            else (comm_reset_ctx ctx1, [])))"

definition c_tick :: "u32 \<Rightarrow> comm_ctx \<Rightarrow> comm_ctx" where
  "c_tick now ctx =
     (if c_status ctx \<noteq> STA_SOP \<and> now - c_last_rx_tick ctx > 1000 then comm_reset_ctx ctx else ctx)
       \<lparr>c_last_rx_tick := now\<rparr>"

text \<open>One byte at tick \<open>now\<close>: the whole handler.\<close>

definition comm_step ::
  "64 word list option \<Rightarrow> comm_env \<Rightarrow> my_printf option \<Rightarrow> u32 \<Rightarrow> u8 \<Rightarrow> comm_ctx \<times> section_com list
     \<Rightarrow> (comm_ctx \<times> section_com list) \<times> event list" where
  "comm_step ready env printf now data s =
     (let c = c_tick now (fst s); cmds = snd s
      in case c_status c of
           STA_SOP \<Rightarrow> ((run_sop data c, cmds), [])
         | STA_VER \<Rightarrow> ((run_ver data c, cmds), [])
         | STA_SRC \<Rightarrow> ((run_src data c, cmds), [])
         | STA_DST \<Rightarrow> ((run_dst data c, cmds), [])
         | STA_CMD \<Rightarrow> (run_cmd data (c, cmds), [])
         | STA_ACK \<Rightarrow> ((run_ack data c, cmds), [])
         | STA_LEN \<Rightarrow> ((run_len data c, cmds), [])
         | STA_DATA \<Rightarrow> ((run_data data c, cmds), [])
         | STA_CRC \<Rightarrow> ((run_crc data c, cmds), [])
         | STA_EOP \<Rightarrow> (case run_eop ready env printf data c of (c', evs) \<Rightarrow> ((c', cmds), evs))
         | STA_ROUTE \<Rightarrow> ((comm_reset_ctx c, cmds), []))"

text \<open>\<open>comm_run\<close>, with the NULL test.\<close>

definition comm_run ::
  "64 word list option \<Rightarrow> comm_env \<Rightarrow> my_printf option \<Rightarrow> u32 \<Rightarrow> u8 \<Rightarrow> comm_ctx option \<times> section_com list
     \<Rightarrow> (comm_ctx option \<times> section_com list) \<times> event list" where
  "comm_run ready env printf now data s =
     (case fst s of
        None \<Rightarrow> (s, [])
      | Some ctx \<Rightarrow>
          (case comm_step ready env printf now data (ctx, snd s) of ((ctx', cmds), evs) \<Rightarrow> ((Some ctx', cmds), evs)))"

section \<open>Blocks\<close>

text \<open>The bulk copy of payload bytes.\<close>

definition c_bulk :: "u32 \<Rightarrow> u8 list \<Rightarrow> comm_ctx \<times> section_com list \<Rightarrow> comm_ctx \<times> section_com list" where
  "c_bulk now bs s =
     (case s of
        (ctx, cmds) \<Rightarrow>
          (ctx\<lparr>c_data_buffer := take (c_index ctx) (c_data_buffer ctx) @ bs @ drop (c_index ctx + length bs) (c_data_buffer ctx),
               c_crc := crc16_update_block (c_crc ctx) bs,
               c_index := (c_index ctx + length bs) mod 65536,
               c_len := c_len ctx - length bs,
               c_last_rx_tick := now\<rparr>, cmds))"

definition c_room :: "comm_ctx \<times> section_com list \<Rightarrow> nat" where
  "c_room s = (if c_status (fst s) = STA_DATA then c_len (fst s) else 0)"

definition comm_run_buffer ::
  "64 word list option \<Rightarrow> comm_env \<Rightarrow> my_printf option \<Rightarrow> (u8 list \<Rightarrow> u32) \<Rightarrow> u8 list option
     \<Rightarrow> comm_ctx option \<times> section_com list \<Rightarrow> (comm_ctx option \<times> section_com list) \<times> event list" where
  "comm_run_buffer ready env printf clk p_data s =
     (case (p_data, fst s) of
        (Some bs, Some ctx) \<Rightarrow>
          (case block_loop (comm_step ready env printf) c_bulk (\<lambda>s. c_status (fst s) = STA_SOP) COMM_SOP_BYTE c_room
                  clk bs (ctx, snd s) of
             ((ctx', cmds), evs) \<Rightarrow> ((Some ctx', cmds), evs))
      | _ \<Rightarrow> (s, []))"

end
