(* ===== verification/Comm_Frame_Link.thy ===== *)
theory Comm_Frame_Link
  imports Comm_Frame
begin

text \<open>
  The 0xE8 protocol over one link: a frame of comm_send_data received by comm_run byte by byte,
  locally or on its way to another link; what the parser guarantees on arbitrary input; and the
  block entry comm_run_buffer as an instance of the block-parser contract.
\<close>

section \<open>One byte at a time\<close>

lemma header_len:
  assumes "n < 65536"
  shows "unat ((of_nat (unat (ucast (of_nat n AND 0xFF :: u8) :: u16)) :: u16) OR push_bit 8 (ucast (of_nat (n div 256) :: u8))) = n"
proof -
  have "(ucast (of_nat n AND 0xFF :: u8) :: u16) OR push_bit 8 (ucast (of_nat (n div 256) :: u8)) = of_nat n"
  proof (rule bit_word_eqI)
    fix i assume i: "i < LENGTH(16)"
    have d: "n div 256 = drop_bit 8 n" by (simp add: drop_bit_eq_div)
    show "bit ((ucast (of_nat n AND 0xFF :: u8) :: u16) OR push_bit 8 (ucast (of_nat (n div 256) :: u8))) i = bit (of_nat n :: u16) i"
      using i unfolding d mask8 by (cases "i < 8") (auto simp: bit_simps)
  qed
  then show ?thesis using assms by (simp add: unat_of_nat take_bit_nat_eq_self unsigned_of_nat)
qed

lemma crc_block_snoc: "crc16_update_block c (w @ [b]) = crc16_update (crc16_update_block c w) b"
  by (simp add: crc16_update_block_def)

text \<open>The half of a two-byte state.\<close>

definition c_flag :: "comm_ctx \<Rightarrow> bool" where
  "c_flag c =
     (case c_status c of
        STA_SRC \<Rightarrow> c_src_flag c | STA_DST \<Rightarrow> c_dst_flag c | STA_CMD \<Rightarrow> c_cmd_flag c
      | STA_LEN \<Rightarrow> c_len_flag c | STA_EOP \<Rightarrow> c_eop_flag c | _ \<Rightarrow> False)"

definition c_kept :: "comm_ctx \<Rightarrow> comm_ctx \<Rightarrow> bool" where
  "c_kept c0 c \<longleftrightarrow> length (c_data_buffer c) = length (c_data_buffer c0) \<and> c_buffer_size c = c_buffer_size c0 \<and> c_src c = c_src c0
     \<and> c_d_src c = c_d_src c0 \<and> c_link_id c = c_link_id c0"

definition c_at ::
  "comm_ctx \<Rightarrow> comm_status \<Rightarrow> bool \<Rightarrow> u32 \<Rightarrow> u8 list \<Rightarrow> packform \<Rightarrow> bool \<Rightarrow> nat option \<Rightarrow> comm_ctx \<Rightarrow> bool" where
  "c_at c0 st fl t w p r f c \<longleftrightarrow>
     c_kept c0 c \<and> c_status c = st \<and> c_flag c = fl \<and> c_last_rx_tick c = t
       \<and> c_crc c = crc16_update_block crc16_init w \<and> c_pack c = p \<and> c_is_route c = r \<and> c_func c = f"

lemma c_at_tick: "c_at c0 st fl t w p r f c \<Longrightarrow> now - t \<le> 1000 \<Longrightarrow> c_tick now c = c\<lparr>c_last_rx_tick := now\<rparr>"
  by (auto simp: c_at_def c_tick_def)

lemmas at_defs = c_at_def c_kept_def c_flag_def comm_step_def Let_def c_add_def crc_block_snoc

lemma at_sop:
  assumes "c_status c0 = STA_SOP"
  shows "\<exists>c. comm_step ready env printf now 0xE8 (c0, cmds) = ((c, cmds), [])
    \<and> c_at c0 STA_VER False now [0xE8] ((c_pack c0)\<lparr>pk_sop := 0xE8, pk_data := Data_Buffer\<rparr>) False None c"
  using assms by (auto simp: at_defs c_tick_def run_sop_def COMM_SOP_BYTE_def crc16_update_block_def)

lemma at_ver:
  assumes c: "c_at c0 STA_VER fl t w p r f c" and now: "now - t \<le> 1000"
  shows "\<exists>c'. comm_step ready env printf now 1 (c, cmds) = ((c', cmds), [])
    \<and> c_at c0 STA_SRC False now (w @ [1]) (p\<lparr>pk_version := 1\<rparr>) r f c'"
  using c c_at_tick [OF c now] by (auto simp: at_defs run_ver_def)

lemma at_src:
  assumes c: "c_at c0 STA_SRC False t w p r f c" and now: "now - t \<le> 1000"
  shows "\<exists>c'. comm_step ready env printf now b (c, cmds) = ((c', cmds), [])
    \<and> c_at c0 STA_SRC True now (w @ [b]) (p\<lparr>pk_src := b\<rparr>) r f c'"
  using c c_at_tick [OF c now] by (auto simp: at_defs run_src_def)

lemma at_d_src:
  assumes c: "c_at c0 STA_SRC True t w p r f c" and now: "now - t \<le> 1000"
  shows "\<exists>c'. comm_step ready env printf now b (c, cmds) = ((c', cmds), [])
    \<and> c_at c0 STA_DST False now (w @ [b]) (p\<lparr>pk_d_src := b\<rparr>) r f c'"
  using c c_at_tick [OF c now] by (auto simp: at_defs run_src_def)

lemma at_dst:
  assumes c: "c_at c0 STA_DST False t w p r f c" and now: "now - t \<le> 1000"
  shows "\<exists>c'. comm_step ready env printf now b (c, cmds) = ((c', cmds), [])
    \<and> c_at c0 STA_DST True now (w @ [b]) (p\<lparr>pk_dst := b\<rparr>) (\<not> is_addr_match b (c_src c0)) f c'"
  using c c_at_tick [OF c now] by (auto simp: at_defs run_dst_def)

lemma at_d_dst:
  assumes c: "c_at c0 STA_DST True t w p r f c" and now: "now - t \<le> 1000"
    and "is_addr_match b (c_d_src c0) \<or> r"
  shows "\<exists>c'. comm_step ready env printf now b (c, cmds) = ((c', cmds), [])
    \<and> c_at c0 STA_CMD False now (w @ [b]) (p\<lparr>pk_d_dst := b\<rparr>) r f c'"
  using assms c_at_tick [OF c now] by (auto simp: at_defs run_dst_def)

lemma at_cmd_set:
  assumes c: "c_at c0 STA_CMD False t w p r f c" and now: "now - t \<le> 1000"
  shows "\<exists>c'. comm_step ready env printf now b (c, cmds) = ((c', cmds), [])
    \<and> c_at c0 STA_CMD True now (w @ [b]) (p\<lparr>pk_cmd_set := b\<rparr>) r f c'"
  using c c_at_tick [OF c now] by (auto simp: at_defs run_cmd_def)

lemma at_cmd_route:
  assumes c: "c_at c0 STA_CMD True t w p True f c" and now: "now - t \<le> 1000"
  shows "\<exists>c'. comm_step ready env printf now b (c, cmds) = ((c', cmds), [])
    \<and> c_at c0 STA_ACK False now (w @ [b]) (p\<lparr>pk_cmd_word := b\<rparr>) True f c'"
  using c c_at_tick [OF c now] by (auto simp: at_defs run_cmd_def)

lemma at_cmd_local:
  assumes c: "c_at c0 STA_CMD True t w p False f c" and now: "now - t \<le> 1000"
    and l: "lookup_func (pk_cmd_set p) b cmds = (Some g, cmds')"
  shows "\<exists>c'. comm_step ready env printf now b (c, cmds) = ((c', cmds'), [])
    \<and> c_at c0 STA_ACK False now (w @ [b]) (p\<lparr>pk_cmd_word := b\<rparr>) False (Some g) c'"
proof -
  have p: "c_pack c = p" "c_is_route c = False" using c by (auto simp: c_at_def)
  show ?thesis using c c_at_tick [OF c now] l by (auto simp: at_defs run_cmd_def p)
qed

lemma at_ack:
  assumes c: "c_at c0 STA_ACK fl t w p r f c" and now: "now - t \<le> 1000"
  shows "\<exists>c'. comm_step ready env printf now b (c, cmds) = ((c', cmds), [])
    \<and> c_at c0 STA_LEN False now (w @ [b]) (p\<lparr>pk_is_ack := b, pk_len := 0\<rparr>) r f c'"
  using c c_at_tick [OF c now] by (auto simp: at_defs run_ack_def)

lemma at_len_low:
  assumes c: "c_at c0 STA_LEN False t w p r f c" and now: "now - t \<le> 1000" and p: "pk_len p = 0"
  shows "\<exists>c'. comm_step ready env printf now b (c, cmds) = ((c', cmds), [])
    \<and> c_at c0 STA_LEN True now (w @ [b]) (p\<lparr>pk_len := unat (ucast b :: u16)\<rparr>) r f c'"
  using assms c_at_tick [OF c now] by (auto simp: at_defs run_len_def)

lemma at_len_high:
  assumes c: "c_at c0 STA_LEN True t w p r f c" and now: "now - t \<le> 1000"
    and n: "n = unat ((of_nat (pk_len p) :: u16) OR push_bit 8 (ucast b))" "n \<le> c_buffer_size c0"
  shows "\<exists>c'. comm_step ready env printf now b (c, cmds) = ((c', cmds), [])
    \<and> c_at c0 STA_DATA False now (w @ [b]) (p\<lparr>pk_len := n, pk_data := Data_Buffer\<rparr>) r f c' \<and> c_len c' = n \<and> c_index c' = 0"
  using assms c_at_tick [OF c now] by (auto simp: at_defs run_len_def)


text \<open>The payload received so far, of \<open>n\<close> bytes.\<close>

definition c_pay :: "u8 list \<Rightarrow> nat \<Rightarrow> comm_ctx \<Rightarrow> bool" where
  "c_pay d n c \<longleftrightarrow> take (c_index c) (c_data_buffer c) = d \<and> c_index c = length d \<and> c_index c + c_len c = n"

lemma at_data:
  assumes c: "c_at c0 STA_DATA fl t w p r f c" "c_pay d n c" and now: "now - t \<le> 1000"
    and n: "length d < n" "n \<le> length (c_data_buffer c0)" "n < 65536"
  shows "\<exists>c'. comm_step ready env printf now b (c, cmds) = ((c', cmds), [])
    \<and> c_at c0 STA_DATA fl now (w @ [b]) p r f c' \<and> c_pay (d @ [b]) n c'"
proof -
  have "length (c_data_buffer c) = length (c_data_buffer c0)" using c(1) by (simp add: c_at_def c_kept_def)
  then show ?thesis
    using c n c_at_tick [OF c(1) now] by (auto simp: at_defs run_data_def c_pay_def take_Suc_conv_app_nth)
qed

lemma at_payload:
  assumes "c_at c0 STA_DATA fl t w p r f c" "c_pay d n c" "in_time t tbs" "length d + length tbs = n"
    "n \<le> length (c_data_buffer c0)" "n < 65536"
  shows "\<exists>c'. feed (comm_step ready env printf) tbs (c, cmds) = ((c', cmds), [])
    \<and> c_at c0 STA_DATA fl (if tbs = [] then t else fst (last tbs)) (w @ map snd tbs) p r f c'
    \<and> c_pay (d @ map snd tbs) n c'"
  using assms
proof (induction tbs arbitrary: t w d c)
  case (Cons nb tbs)
  obtain now b where nb: "nb = (now, b)" by (cases nb)
  have "now - t \<le> 1000" "length d < n" using Cons.prems by (auto simp: nb)
  from at_data [OF Cons.prems(1,2) this Cons.prems(5,6), of ready env printf b cmds] obtain c1 where
    c1: "comm_step ready env printf now b (c, cmds) = ((c1, cmds), [])"
    "c_at c0 STA_DATA fl now (w @ [b]) p r f c1" "c_pay (d @ [b]) n c1" by blast
  have "in_time now tbs" "length (d @ [b]) + length tbs = n" using Cons.prems(3,4) by (auto simp: nb)
  from Cons.IH [OF c1(2,3) this Cons.prems(5,6)] c1(1) show ?case by (auto simp: nb)
qed simp

lemma at_crc_low:
  assumes c: "c_at c0 STA_DATA fl t w p r f c" "c_pay d n c" and now: "now - t \<le> 1000" and n: "length d = n"
  shows "\<exists>c'. comm_step ready env printf now b (c, cmds) = ((c', cmds), [])
    \<and> c_at c0 STA_CRC False now w (p\<lparr>pk_crc := ucast b\<rparr>) r f c' \<and> c_pay d n c'"
  using c n c_at_tick [OF c(1) now] by (auto simp: at_defs run_data_def c_pay_def)

lemma at_crc_high:
  assumes c: "c_at c0 STA_CRC fl t w p r f c" "c_pay d n c" and now: "now - t \<le> 1000"
    and crc: "pk_crc p OR push_bit 8 (ucast b) = crc16_final (crc16_update_block crc16_init w)"
  shows "\<exists>c'. comm_step ready env printf now b (c, cmds) = ((c', cmds), [])
    \<and> c_at c0 STA_EOP False now w (p\<lparr>pk_crc := crc16_final (crc16_update_block crc16_init w), pk_eop := 0\<rparr>) r f c' \<and> c_pay d n c'"
  using c crc c_at_tick [OF c(1) now] by (auto simp: at_defs run_crc_def c_pay_def crc16_final_def)

lemma at_eop_low:
  assumes c: "c_at c0 STA_EOP False t w p r f c" "c_pay d n c" and now: "now - t \<le> 1000"
  shows "\<exists>c'. comm_step ready env printf now b (c, cmds) = ((c', cmds), [])
    \<and> c_at c0 STA_EOP True now w (p\<lparr>pk_eop := pk_eop p OR ucast b\<rparr>) r f c' \<and> c_pay d n c'"
  using c c_at_tick [OF c(1) now] by (auto simp: at_defs run_eop_def c_pay_def)

lemma at_eop_high:
  assumes c: "c_at c0 STA_EOP True t w p r f c" "c_pay d n c" and now: "now - t \<le> 1000"
    and eop: "pk_eop p OR push_bit 8 (ucast b) = 0x0A0D" and q: "q = p\<lparr>pk_eop := 0x0A0D\<rparr>"
  shows "\<exists>c'. comm_step ready env printf now b (c, cmds) =
      (if r then case comm_route_run ready env c' of (c2, evs) \<Rightarrow> ((comm_reset_ctx c2, cmds), evs)
       else ((comm_reset_ctx c', cmds), case f of None \<Rightarrow> [] | Some f \<Rightarrow> [Dispatch f (pack_view c') printf]))
    \<and> c_kept c0 c' \<and> c_pack c' = q \<and> c_pay d n c'"
proof -
  let ?c = "c\<lparr>c_last_rx_tick := now, c_pack := q\<rparr>"
  have "c_status c = STA_EOP" "c_eop_flag c" "c_pack c = p" "c_is_route c = r" "c_func c = f" "c_kept c0 c"
    using c(1) by (auto simp: c_at_def c_flag_def)
  then show ?thesis
    using c(2) eop c_at_tick [OF c(1) now]
    by (intro exI [of _ ?c]) (auto simp: comm_step_def run_eop_def Let_def c_pay_def c_kept_def q split: prod.splits option.splits)
qed


text \<open>The frame as the parser has it after the header, and after the whole frame.\<close>

definition c_header_pack :: "packform \<Rightarrow> packform \<Rightarrow> packform" where
  "c_header_pack q p =
     q\<lparr>pk_sop := 0xE8, pk_version := 1, pk_src := pk_src p, pk_d_src := pk_d_src p, pk_dst := pk_dst p,
       pk_d_dst := pk_d_dst p, pk_cmd_set := pk_cmd_set p, pk_cmd_word := pk_cmd_word p,
       pk_is_ack := pk_is_ack p, pk_len := pk_len p, pk_data := Data_Buffer\<rparr>"

text \<open>The filters a frame passes: addressed to this node and its command known, or to be routed.\<close>

definition c_accepts :: "comm_ctx \<Rightarrow> section_com list \<Rightarrow> packform \<Rightarrow> bool \<Rightarrow> nat option \<Rightarrow> section_com list \<Rightarrow> bool" where
  "c_accepts c0 cmds p r f cmds' \<longleftrightarrow>
     r = (\<not> is_addr_match (pk_dst p) (c_src c0)) \<and> (r \<or> is_addr_match (pk_d_dst p) (c_d_src c0)) \<and>
     (if r then f = None \<and> cmds' = cmds
      else f \<noteq> None \<and> lookup_func (pk_cmd_set p) (pk_cmd_word p) cmds = (f, cmds'))"

lemma frame_header_bytes:
  "frame_header p = [0xE8, 1, pk_src p, pk_d_src p, pk_dst p, pk_d_dst p, pk_cmd_set p, pk_cmd_word p, pk_is_ack p,
     of_nat (pk_len p) AND 0xFF, of_nat (pk_len p div 256)]"
  by (simp add: frame_header_def COMM_SOP_BYTE_def)

lemma header_cmd:
  assumes c: "c_at c0 STA_CMD True t w q r None c" and now: "now - t \<le> 1000" and q: "pk_cmd_set q = pk_cmd_set p"
    and a: "c_accepts c0 cmds p r f cmds'"
  shows "\<exists>c'. comm_step ready env printf now (pk_cmd_word p) (c, cmds) = ((c', cmds'), [])
    \<and> c_at c0 STA_ACK False now (w @ [pk_cmd_word p]) (q\<lparr>pk_cmd_word := pk_cmd_word p\<rparr>) r f c'"
proof (cases r)
  case True
  then have f: "f = None" "cmds' = cmds" using a by (auto simp: c_accepts_def)
  have "c_at c0 STA_CMD True t w q True None c" using c True by simp
  from at_cmd_route [OF this now, of ready env printf "pk_cmd_word p" cmds] show ?thesis using True by (simp add: f)
next
  case False
  then obtain g where g: "f = Some g" "lookup_func (pk_cmd_set q) (pk_cmd_word p) cmds = (Some g, cmds')"
    using a by (auto simp: c_accepts_def q)
  show ?thesis using at_cmd_local [OF _ now g(2), of c0 w None c] c False unfolding g(1) by simp
qed

lemma at_header:
  assumes c0: "c_status c0 = STA_SOP" and a: "c_accepts c0 cmds p r f cmds'"
    and n: "pk_len p \<le> c_buffer_size c0" "pk_len p < 65536"
    and bytes: "map snd tbs = frame_header p" and t: "in_time (fst (hd tbs)) tbs"
  shows "\<exists>c. feed (comm_step ready env printf) tbs (c0, cmds) = ((c, cmds'), [])
    \<and> c_at c0 STA_DATA False (fst (last tbs)) (frame_header p) (c_header_pack (c_pack c0) p) r f c
    \<and> c_pay [] (pk_len p) c"
proof -
  let ?step = "comm_step ready env printf"
  let ?l = "of_nat (pk_len p) AND 0xFF :: u8" and ?h = "of_nat (pk_len p div 256) :: u8"
  obtain t0 t1 t2 t3 t4 t5 t6 t7 t8 t9 t10 where tbs: "tbs = [(t0, 0xE8), (t1, 1), (t2, pk_src p), (t3, pk_d_src p),
      (t4, pk_dst p), (t5, pk_d_dst p), (t6, pk_cmd_set p), (t7, pk_cmd_word p), (t8, pk_is_ack p), (t9, ?l), (t10, ?h)]"
    using bytes unfolding frame_header_bytes by (auto simp: map_eq_Cons_conv)
  have tt: "t1 - t0 \<le> 1000" "t2 - t1 \<le> 1000" "t3 - t2 \<le> 1000" "t4 - t3 \<le> 1000" "t5 - t4 \<le> 1000"
    "t6 - t5 \<le> 1000" "t7 - t6 \<le> 1000" "t8 - t7 \<le> 1000" "t9 - t8 \<le> 1000" "t10 - t9 \<le> 1000"
    using t unfolding tbs by auto
  let ?w1 = "[0xE8 :: u8]" and ?p1 = "(c_pack c0)\<lparr>pk_sop := 0xE8, pk_data := Data_Buffer\<rparr>"
  let ?w2 = "?w1 @ [1]" and ?p2 = "?p1\<lparr>pk_version := 1\<rparr>"
  let ?w3 = "?w2 @ [pk_src p]" and ?p3 = "?p2\<lparr>pk_src := pk_src p\<rparr>"
  let ?w4 = "?w3 @ [pk_d_src p]" and ?p4 = "?p3\<lparr>pk_d_src := pk_d_src p\<rparr>"
  let ?w5 = "?w4 @ [pk_dst p]" and ?p5 = "?p4\<lparr>pk_dst := pk_dst p\<rparr>"
  let ?w6 = "?w5 @ [pk_d_dst p]" and ?p6 = "?p5\<lparr>pk_d_dst := pk_d_dst p\<rparr>"
  let ?w7 = "?w6 @ [pk_cmd_set p]" and ?p7 = "?p6\<lparr>pk_cmd_set := pk_cmd_set p\<rparr>"
  let ?w8 = "?w7 @ [pk_cmd_word p]" and ?p8 = "?p7\<lparr>pk_cmd_word := pk_cmd_word p\<rparr>"
  let ?w9 = "?w8 @ [pk_is_ack p]" and ?p9 = "?p8\<lparr>pk_is_ack := pk_is_ack p, pk_len := 0\<rparr>"
  let ?w10 = "?w9 @ [?l]" and ?p10 = "?p9\<lparr>pk_len := unat (ucast ?l :: u16)\<rparr>"
  let ?w11 = "?w10 @ [?h]" and ?p11 = "?p10\<lparr>pk_len := pk_len p, pk_data := Data_Buffer\<rparr>"
  have len0: "pk_len ?p9 = 0" by simp
  have len: "pk_len p = unat ((of_nat (pk_len ?p10) :: u16) OR push_bit 8 (ucast ?h))"
    using header_len [OF n(2)] by simp
  have dst: "r = (\<not> is_addr_match (pk_dst p) (c_src c0))" "is_addr_match (pk_d_dst p) (c_d_src c0) \<or> r"
    using a by (auto simp: c_accepts_def)
  obtain c1 where c1: "?step t0 0xE8 (c0, cmds) = ((c1, cmds), [])"
    and a1: "c_at c0 STA_VER False t0 ?w1 ?p1 False None c1"
    using at_sop [OF c0, of ready env printf t0 cmds] by blast
  obtain c2 where c2: "?step t1 (1) (c1, cmds) = ((c2, cmds), [])"
    and a2: "c_at c0 STA_SRC False t1 ?w2 ?p2 False None c2"
    using at_ver [OF a1 tt(1), of ready env printf cmds] by blast
  obtain c3 where c3: "?step t2 (pk_src p) (c2, cmds) = ((c3, cmds), [])"
    and a3: "c_at c0 STA_SRC True t2 ?w3 ?p3 False None c3"
    using at_src [OF a2 tt(2), of ready env printf "pk_src p" cmds] by blast
  obtain c4 where c4: "?step t3 (pk_d_src p) (c3, cmds) = ((c4, cmds), [])"
    and a4: "c_at c0 STA_DST False t3 ?w4 ?p4 False None c4"
    using at_d_src [OF a3 tt(3), of ready env printf "pk_d_src p" cmds] by blast
  obtain c5 where c5: "?step t4 (pk_dst p) (c4, cmds) = ((c5, cmds), [])"
    and a5: "c_at c0 STA_DST True t4 ?w5 ?p5 r None c5"
    using at_dst [OF a4 tt(4), of ready env printf "pk_dst p" cmds] unfolding dst(1) [symmetric] by blast
  obtain c6 where c6: "?step t5 (pk_d_dst p) (c5, cmds) = ((c6, cmds), [])"
    and a6: "c_at c0 STA_CMD False t5 ?w6 ?p6 r None c6"
    using at_d_dst [OF a5 tt(5) dst(2), of ready env printf cmds] by blast
  obtain c7 where c7: "?step t6 (pk_cmd_set p) (c6, cmds) = ((c7, cmds), [])"
    and a7: "c_at c0 STA_CMD True t6 ?w7 ?p7 r None c7"
    using at_cmd_set [OF a6 tt(6), of ready env printf "pk_cmd_set p" cmds] by blast
  obtain c8 where c8: "?step t7 (pk_cmd_word p) (c7, cmds) = ((c8, cmds'), [])"
    and a8: "c_at c0 STA_ACK False t7 ?w8 ?p8 r f c8"
    using header_cmd [OF a7 tt(7) _ a, of ready env printf] by auto
  obtain c9 where c9: "?step t8 (pk_is_ack p) (c8, cmds') = ((c9, cmds'), [])"
    and a9: "c_at c0 STA_LEN False t8 ?w9 ?p9 r f c9"
    using at_ack [OF a8 tt(8), of ready env printf "pk_is_ack p" cmds'] by blast
  obtain c10 where c10: "?step t9 (?l) (c9, cmds') = ((c10, cmds'), [])"
    and a10: "c_at c0 STA_LEN True t9 ?w10 ?p10 r f c10"
    using at_len_low [OF a9 tt(9) len0, of ready env printf "?l" cmds'] by blast
  obtain c11 where c11: "?step t10 (?h) (c10, cmds') = ((c11, cmds'), [])"
    and a11: "c_at c0 STA_DATA False t10 ?w11 ?p11 r f c11 \<and> c_len c11 = pk_len p \<and> c_index c11 = 0"
    using at_len_high [OF a10 tt(10) len n(1), of ready env printf cmds'] by blast
  have "?p11 = c_header_pack (c_pack c0) p" by (simp add: c_header_pack_def)
  moreover have "?w11 = frame_header p" by (simp add: frame_header_bytes)
  ultimately have "c_at c0 STA_DATA False t10 (frame_header p) (c_header_pack (c_pack c0) p) r f c11" "c_pay [] (pk_len p) c11"
    using a11 by (simp_all add: c_pay_def)
  moreover have "feed ?step tbs (c0, cmds) = ((c11, cmds'), [])"
    unfolding tbs by (simp add: c1 c2 c3 c4 c5 c6 c7 c8 c9 c10 c11)
  ultimately show ?thesis by (intro exI [of _ c11]) (simp add: tbs)
qed


text \<open>The whole frame: only the last byte acts, on the frame \<open>c_whole_pack\<close>.\<close>

definition c_whole_pack :: "packform \<Rightarrow> packform \<Rightarrow> packform" where
  "c_whole_pack q p = (c_header_pack q p)\<lparr>pk_crc := frame_crc p, pk_eop := 0x0A0D\<rparr>"

lemma map_append_split: "map f xs = a @ b \<Longrightarrow> \<exists>u v. xs = u @ v \<and> map f u = a \<and> map f v = b"
  by (metis append_eq_map_conv)

lemma at_frame:
  assumes c0: "c_status c0 = STA_SOP" and a: "c_accepts c0 cmds p r f cmds'"
    and n: "pk_len p \<le> c_buffer_size c0" "pk_len p < 65536" "pk_len p \<le> length (c_data_buffer c0)"
      "length (pk_payload p) = pk_len p"
    and bytes: "map snd tbs = comm_frame p" and t: "in_time (fst (hd tbs)) tbs"
  shows "\<exists>c. feed (comm_step ready env printf) tbs (c0, cmds) =
      (if r then case comm_route_run ready env c of (c2, evs) \<Rightarrow> ((comm_reset_ctx c2, cmds'), evs)
       else ((comm_reset_ctx c, cmds'), case f of None \<Rightarrow> [] | Some f \<Rightarrow> [Dispatch f (pack_view c) printf]))
    \<and> c_kept c0 c \<and> c_pack c = c_whole_pack (c_pack c0) p \<and> c_pay (pk_payload p) (pk_len p) c
    \<and> snd (feed (comm_step ready env printf) (butlast tbs) (c0, cmds)) = []"
proof -
  let ?step = "comm_step ready env printf" and ?q = "c_header_pack (c_pack c0) p"
  let ?lo = "ucast (frame_crc p AND 0xFF) :: u8" and ?hi = "ucast (drop_bit 8 (frame_crc p)) :: u8"
  have le: "ucast ?lo OR push_bit 8 (ucast ?hi) = frame_crc p"
    using le_u16_u16_le [of "frame_crc p" "[]"] by (simp add: le_u16_def u16_le_def)
  have crc: "frame_crc p = crc16_final (crc16_update_block crc16_init (frame_header p @ pk_payload p))"
    by (simp add: frame_crc_def)
  obtain th td t1 t2 t3 t4 where tbs: "tbs = th @ td @ [(t1, ?lo), (t2, ?hi), (t3, 0x0D), (t4, 0x0A)]"
    and h: "map snd th = frame_header p" and d: "map snd td = pk_payload p"
  proof -
    obtain th r where 1: "tbs = th @ r" "map snd th = frame_header p"
      "map snd r = pk_payload p @ u16_le (frame_crc p) @ [0x0D, 0x0A]"
      using map_append_split [OF bytes [unfolded comm_frame_def]] by blast
    obtain td e where 2: "r = td @ e" "map snd td = pk_payload p" "map snd e = [?lo, ?hi, 0x0D, 0x0A]"
      using map_append_split [OF 1(3)] unfolding u16_le_def append.simps
      by (elim exE conjE) (rule that)
    obtain t1 t2 t3 t4 where "e = [(t1, ?lo), (t2, ?hi), (t3, 0x0D), (t4, 0x0A)]"
      using 2(3) by (auto simp: map_eq_Cons_conv)
    with 1(1) 2(1) have "tbs = th @ td @ [(t1, ?lo), (t2, ?hi), (t3, 0x0D), (t4, 0x0A)]" by simp
    then show ?thesis using 1(2) 2(2) by (rule that)
  qed
  have ne: "th \<noteq> []" using h by (auto simp: frame_header_def)
  then have hd: "hd tbs = hd th" by (simp add: tbs)
  let ?t0 = "if td = [] then fst (last th) else fst (last td)"
  have tt: "in_time (fst (hd th)) th" "in_time (fst (last th)) td" "t1 - ?t0 \<le> 1000" "t2 - t1 \<le> 1000" "t3 - t2 \<le> 1000"
    "t4 - t3 \<le> 1000"
    using t ne unfolding hd unfolding tbs in_time_append by auto
  obtain c1 where c1: "feed ?step th (c0, cmds) = ((c1, cmds'), [])"
    "c_at c0 STA_DATA False (fst (last th)) (frame_header p) ?q r f c1" "c_pay [] (pk_len p) c1"
    using at_header [OF c0 a n(1,2) h tt(1), of ready env printf] by blast
  have "length [] + length td = pk_len p" using d n(4) by (metis length_map list.size(3) add_0)
  from at_payload [OF c1(2,3) tt(2) this n(3,2), of ready env printf cmds'] obtain c2 where
    c2: "feed ?step td (c1, cmds') = ((c2, cmds'), [])"
    "c_at c0 STA_DATA False ?t0 (frame_header p @ pk_payload p) ?q r f c2" "c_pay (pk_payload p) (pk_len p) c2"
    unfolding d by auto
  obtain c3 where c3: "?step t1 ?lo (c2, cmds') = ((c3, cmds'), [])"
    "c_at c0 STA_CRC False t1 (frame_header p @ pk_payload p) (?q\<lparr>pk_crc := ucast ?lo\<rparr>) r f c3"
    "c_pay (pk_payload p) (pk_len p) c3"
    using at_crc_low [OF c2(2,3) tt(3) n(4), of ready env printf ?lo cmds'] by blast
  have "pk_crc (?q\<lparr>pk_crc := ucast ?lo\<rparr>) OR push_bit 8 (ucast ?hi) =
      crc16_final (crc16_update_block crc16_init (frame_header p @ pk_payload p))"
    using le crc by simp
  from at_crc_high [OF c3(2,3) tt(4) this, of ready env printf cmds'] obtain c4 where
    c4: "?step t2 ?hi (c3, cmds') = ((c4, cmds'), [])"
    "c_at c0 STA_EOP False t2 (frame_header p @ pk_payload p) (?q\<lparr>pk_crc := frame_crc p, pk_eop := 0\<rparr>) r f c4"
    "c_pay (pk_payload p) (pk_len p) c4"
    unfolding crc [symmetric] by auto
  obtain c5 where c5: "?step t3 0x0D (c4, cmds') = ((c5, cmds'), [])"
    "c_at c0 STA_EOP True t3 (frame_header p @ pk_payload p) (?q\<lparr>pk_crc := frame_crc p, pk_eop := 0x0D\<rparr>) r f c5"
    "c_pay (pk_payload p) (pk_len p) c5"
    using at_eop_low [OF c4(2,3) tt(5), of ready env printf "0x0D" cmds'] by auto
  have "pk_eop (?q\<lparr>pk_crc := frame_crc p, pk_eop := 0x0D\<rparr>) OR push_bit 8 (ucast (0x0A :: u8)) = 0x0A0D" by simp
  from at_eop_high [OF c5(2,3) tt(6) this, of "c_whole_pack (c_pack c0) p" ready env printf cmds'] obtain c where
    c: "?step t4 0x0A (c5, cmds') =
      (if r then case comm_route_run ready env c of (c2, evs) \<Rightarrow> ((comm_reset_ctx c2, cmds'), evs)
       else ((comm_reset_ctx c, cmds'), case f of None \<Rightarrow> [] | Some f \<Rightarrow> [Dispatch f (pack_view c) printf]))"
    "c_kept c0 c \<and> c_pack c = c_whole_pack (c_pack c0) p \<and> c_pay (pk_payload p) (pk_len p) c"
    by (auto simp: c_whole_pack_def)
  have "feed ?step tbs (c0, cmds) = ?step t4 0x0A (c5, cmds')"
    unfolding tbs feed_append c1(1) c2(1) prod.case by (simp add: c3(1) c4(1) c5(1) split: prod.splits)
  moreover have "butlast tbs = th @ td @ [(t1, ?lo), (t2, ?hi), (t3, 0x0D)]"
    unfolding tbs by (simp add: butlast_append)
  then have "snd (feed ?step (butlast tbs) (c0, cmds)) = []"
    unfolding feed_append by (simp add: feed_append c1(1) c2(1) c3(1) c4(1) c5(1))
  ultimately show ?thesis using c by auto
qed

section \<open>Sent, then received\<close>

text \<open>A frame comm_send_data transmits in the 0xE8 format, its payload present.\<close>

definition c_sendable :: "packform \<Rightarrow> bool" where
  "c_sendable p \<longleftrightarrow> pk_sop p = 0xE8 \<and> pk_len p \<le> 497 \<and> length (pk_payload p) = pk_len p"

text \<open>An idle parser whose payload buffer takes the frame.\<close>

definition c_expects :: "comm_ctx \<Rightarrow> packform \<Rightarrow> bool" where
  "c_expects c0 p \<longleftrightarrow>
     c_status c0 = STA_SOP \<and> pk_len p \<le> c_buffer_size c0 \<and> c_buffer_size c0 \<le> length (c_data_buffer c0)"

lemma comm_send_data_frame:
  "c_sendable p \<Longrightarrow> comm_send_data ready (Some p) printf =
     (transmit printf (comm_frame p), Some (p\<lparr>pk_version := 1, pk_crc := frame_crc p\<rparr>))"
  by (auto simp: comm_send_data_def c_sendable_def COMM_SOP_BYTE_def pk_payload_def)

lemma whole_frame:
  assumes p: "c_sendable p" "c_expects c0 p" and a: "c_accepts c0 cmds p r f cmds'"
    and "map snd tbs = comm_frame p" "in_time (fst (hd tbs)) tbs"
  shows "\<exists>c. feed (comm_step ready env printf) tbs (c0, cmds) =
      (if r then case comm_route_run ready env c of (c2, evs) \<Rightarrow> ((comm_reset_ctx c2, cmds'), evs)
       else ((comm_reset_ctx c, cmds'), case f of None \<Rightarrow> [] | Some f \<Rightarrow> [Dispatch f (pack_view c) printf]))
    \<and> c_kept c0 c \<and> c_pack c = c_whole_pack (c_pack c0) p \<and> c_pay (pk_payload p) (pk_len p) c
    \<and> snd (feed (comm_step ready env printf) (butlast tbs) (c0, cmds)) = []"
  using p assms(4,5) by (intro at_frame [OF _ a]) (auto simp: c_sendable_def c_expects_def)

text \<open>The frame a callback gets; SEQ is whatever the parser's frame object held.\<close>

definition c_received :: "packform \<Rightarrow> u8 \<Rightarrow> u8 list \<Rightarrow> packform" where
  "c_received p seq b =
     p\<lparr>pk_version := 1, pk_data := Bytes b, pk_crc := frame_crc p, pk_eop := 0x0A0D, pk_seq := seq\<rparr>"

lemma whole_view:
  assumes "c_sendable p" "c_pack c = c_whole_pack q p"
  shows "pack_view c = c_received p (pk_seq q) (c_data_buffer c)"
  using assms by (cases p; cases q) (simp add: pack_view_def c_whole_pack_def c_header_pack_def c_received_def c_sendable_def)

text \<open>
  C2: the 0xE8 protocol delivers: a frame comm_send_data transmits, received by an idle parser
  it is addressed to, calls the callback registered for its command exactly once, with every
  field of the frame, its CRC and the payload, and leaves the parser idle; the lookup only
  moves the command to the front of the list.
\<close>

theorem comm_delivers:
  assumes "c_sendable p" "c_expects c0 p"
    and "is_addr_match (pk_dst p) (c_src c0)" "is_addr_match (pk_d_dst p) (c_d_src c0)"
    and "lookup_func (pk_cmd_set p) (pk_cmd_word p) cmds = (Some f, cmds')"
    and "map snd tbs = comm_frame p" "in_time (fst (hd tbs)) tbs"
  shows "\<exists>c b. feed (comm_step ready env printf) tbs (c0, cmds) =
      ((c, cmds'), [Dispatch f (c_received p (pk_seq (c_pack c0)) b) printf])
    \<and> take (pk_len p) b = pk_payload p \<and> c_status c = STA_SOP"
proof -
  have a: "c_accepts c0 cmds p False (Some f) cmds'" using assms(3-5) by (simp add: c_accepts_def)
  obtain c where c: "feed (comm_step ready env printf) tbs (c0, cmds) = ((comm_reset_ctx c, cmds'), [Dispatch f (pack_view c) printf])"
    "c_pack c = c_whole_pack (c_pack c0) p" "c_pay (pk_payload p) (pk_len p) c"
    using whole_frame [OF assms(1,2) a assms(6,7), of ready env printf] by auto
  have "take (pk_len p) (c_data_buffer c) = pk_payload p"
    using c(3) assms(1) by (auto simp: c_pay_def c_sendable_def)
  then show ?thesis
    using c(1) unfolding whole_view [OF assms(1) c(2)]
    by (intro exI [of _ "comm_reset_ctx c"] exI [of _ "c_data_buffer c"]) (simp add: comm_reset_ctx_def)
qed

lemma frame_view:
  assumes "take (pk_len p) b = pk_payload p" "length (pk_payload p) = pk_len p"
  shows "comm_frame (c_received p s b) = comm_frame p" "length (pk_payload (c_received p s b)) = pk_len p"
  using assms by (simp_all add: comm_frame_def frame_header_def frame_crc_def c_received_def pk_payload_def [of "c_received p s b"])
    (simp_all add: pk_payload_def c_received_def)

text \<open>
  Routing is transparent: a frame for another node is sent on the link of the first route
  that matches its source link and destination, byte for byte as it was received, without any
  lookup in the command list.
\<close>

theorem comm_routes:
  assumes "c_sendable p" "c_expects c0 p" "\<not> is_addr_match (pk_dst p) (c_src c0)"
    and "find_route (env_routes env) (c_link_id c0) (pk_dst p) = Some rt"
    and "find_link_by_id (env_links env) (rt_dst_link_id rt) = Some l"
    and "map snd tbs = comm_frame p" "in_time (fst (hd tbs)) tbs"
  shows "\<exists>c. feed (comm_step ready env printf) tbs (c0, cmds) = ((c, cmds), transmit (lk_printf l) (comm_frame p))
    \<and> c_status c = STA_SOP"
proof -
  have a: "c_accepts c0 cmds p True None cmds" using assms(3) by (simp add: c_accepts_def)
  obtain c where c: "feed (comm_step ready env printf) tbs (c0, cmds) =
      (case comm_route_run ready env c of (c2, evs) \<Rightarrow> ((comm_reset_ctx c2, cmds), evs))"
    "c_kept c0 c" "c_pack c = c_whole_pack (c_pack c0) p" "c_pay (pk_payload p) (pk_len p) c"
    using whole_frame [OF assms(1,2) a assms(6,7), of ready env printf] by auto
  have len: "length (pk_payload p) = pk_len p" using assms(1) by (simp add: c_sendable_def)
  have b: "take (pk_len p) (c_data_buffer c) = pk_payload p"
    using c(4) len by (auto simp: c_pay_def)
  let ?v = "c_received p (pk_seq (c_pack c0)) (c_data_buffer c)"
  have v: "pack_view c = ?v" by (rule whole_view [OF assms(1) c(3)])
  have "c_sendable ?v"
    using assms(1) frame_view(2) [OF b len] by (simp add: c_sendable_def) (simp add: c_received_def)
  then have "snd (comm_route_run ready env c) = transmit (lk_printf l) (comm_frame p)"
    using assms(4,5) c(2,3)
    by (simp add: comm_route_run_def v comm_send_data_frame frame_view [OF b len] c_kept_def c_whole_pack_def c_header_pack_def)
  then show ?thesis
    using c(1) by (cases "comm_route_run ready env c") (auto simp: comm_reset_ctx_def)
qed

section \<open>Any input\<close>

text \<open>The payload buffer has the size the parser tests against, and a payload in progress fits.\<close>

definition c_ok :: "comm_ctx \<Rightarrow> bool" where
  "c_ok c \<longleftrightarrow> c_buffer_size c \<le> length (c_data_buffer c) \<and> c_buffer_size c < 65536 \<and>
     (c_status c = STA_DATA \<longrightarrow> c_index c + c_len c = pk_len (c_pack c) \<and> pk_len (c_pack c) \<le> c_buffer_size c) \<and>
     (c_status c \<in> {STA_CRC, STA_EOP} \<longrightarrow> pk_len (c_pack c) \<le> c_buffer_size c)"

lemma declare_c_ok: "c_ok (declare_comm_ctx n src link_id)"
  by (simp add: c_ok_def declare_comm_ctx_def)

lemma c_reset_ok [simp]: "c_ok c \<Longrightarrow> c_ok (comm_reset_ctx c)"
  by (simp add: c_ok_def comm_reset_ctx_def)

lemma c_reset_idle [simp]: "c_status (comm_reset_ctx c) = STA_SOP"
  by (simp add: comm_reset_ctx_def)

lemma c_tick_ok [simp]: "c_ok c \<Longrightarrow> c_ok (c_tick now c)"
  by (auto simp: c_ok_def c_tick_def comm_reset_ctx_def)

lemma route_run_kept:
  "comm_route_run ready env c = (c', evs) \<Longrightarrow> c_ok c \<Longrightarrow> c_ok c' \<and> c_last_rx_tick c' = c_last_rx_tick c"
  by (auto simp: comm_route_run_def c_ok_def split: option.splits prod.splits)

lemma comm_step_ok:
  assumes "c_ok (fst s)"
  shows "c_ok (fst (fst (comm_step ready env printf now b s)))"
proof -
  have c: "c_ok (c_tick now (fst s))" using assms by simp
  let ?c = "c_tick now (fst s)"
  show ?thesis
  proof (cases "c_status ?c")
    case STA_CMD
    then show ?thesis
      using c by (auto simp: comm_step_def run_cmd_def c_add_def Let_def c_ok_def comm_reset_ctx_def split: prod.splits)
  next
    case STA_EOP
    have "c_ok (?c\<lparr>c_pack := (c_pack ?c)\<lparr>pk_eop := e\<rparr>\<rparr>)" "c_ok (?c\<lparr>c_pack := (c_pack ?c)\<lparr>pk_eop := e\<rparr>, c_eop_flag := True\<rparr>)" for e
      using c by (auto simp: c_ok_def)
    then show ?thesis
      using STA_EOP route_run_kept [of ready env] by (auto simp: comm_step_def run_eop_def Let_def split: prod.splits)
  qed (use c in \<open>auto simp: comm_step_def run_sop_def run_ver_def run_src_def run_dst_def run_ack_def run_len_def
        run_data_def run_crc_def c_add_def Let_def c_ok_def comm_reset_ctx_def\<close>)
qed

lemma comm_feed_ok: "c_ok (fst s) \<Longrightarrow> c_ok (fst (fst (feed (comm_step ready env printf) tbs s)))"
  by (rule feed_inv [where I = "\<lambda>s. c_ok (fst s)"]) (rule comm_step_ok)

text \<open>
  C35: no input makes comm_run store outside its payload buffer: in every reachable state of a
  parser declared with a payload buffer of at most 65535 bytes, a payload in progress, the byte
  stored next included, lies inside the buffer.
\<close>

theorem comm_run_in_bounds:
  "let c = fst (fst (feed (comm_step ready env printf) tbs (declare_comm_ctx (min payload_size 65535) src link_id, cmds)))
   in c_buffer_size c \<le> length (c_data_buffer c) \<and>
      (c_status c = STA_DATA \<longrightarrow> c_index c + c_len c \<le> length (c_data_buffer c) \<and> c_index c + c_len c = pk_len (c_pack c))"
proof -
  have "c_ok (fst (fst (feed (comm_step ready env printf) tbs (declare_comm_ctx (min payload_size 65535) src link_id, cmds))))"
    by (rule comm_feed_ok) (simp add: declare_c_ok)
  then show ?thesis by (auto simp: c_ok_def Let_def)
qed

section \<open>Blocks and single bytes\<close>

definition c_fresh :: "u32 \<Rightarrow> comm_ctx \<times> section_com list \<Rightarrow> bool" where
  "c_fresh now s \<longleftrightarrow> c_status (fst s) = STA_SOP \<or> now - c_last_rx_tick (fst s) \<le> 1000"

text \<open>An idle parser's last tick is never read.\<close>

definition c_same :: "comm_ctx \<times> section_com list \<Rightarrow> comm_ctx \<times> section_com list \<Rightarrow> bool" where
  "c_same s s' \<longleftrightarrow> s = s' \<or>
     (c_status (fst s) = STA_SOP \<and> snd s' = snd s \<and> (\<exists>t. fst s' = (fst s)\<lparr>c_last_rx_tick := t\<rparr>))"

lemma comm_step_tick: "c_last_rx_tick (fst (fst (comm_step ready env printf now b s))) = now"
proof -
  have t: "c_last_rx_tick (c_tick now c) = now" for c by (simp add: c_tick_def)
  have r: "c_last_rx_tick c' = c_last_rx_tick c" if "comm_route_run ready env c = (c', evs)" for c c' evs
    using that by (auto simp: comm_route_run_def split: option.splits prod.splits)
  show ?thesis
    by (cases "c_status (c_tick now (fst s))")
       (auto simp: comm_step_def run_sop_def run_ver_def run_src_def run_dst_def run_cmd_def run_ack_def run_len_def
        run_data_def run_crc_def run_eop_def c_add_def Let_def comm_reset_ctx_def t dest!: r split: prod.splits)
qed

lemma c_tick_fresh: "c_fresh now (c, cmds) \<Longrightarrow> c_tick now c = c\<lparr>c_last_rx_tick := now\<rparr>"
  by (auto simp: c_tick_def c_fresh_def)

lemma c_step_room:
  assumes "c_ok (fst s)" "0 < c_room s" "c_fresh now s"
  shows "comm_step ready env printf now b s = (c_bulk now [b] s, [])"
proof -
  obtain c cmds where s: "s = (c, cmds)" by (cases s)
  have c: "c_status c = STA_DATA" "0 < c_len c" "c_index c + c_len c < 65536" "c_index c < length (c_data_buffer c)"
    using assms(1,2) by (auto simp: s c_room_def c_ok_def split: if_splits)
  then show ?thesis
    using c_tick_fresh [OF assms(3) [unfolded s]]
    by (simp add: s comm_step_def run_data_def c_bulk_def c_add_def Let_def upd_conv_take_nth_drop crc16_update_block_def)
qed

lemma c_same_trans: "c_same a b \<Longrightarrow> c_same b c \<Longrightarrow> c_same a c"
  unfolding c_same_def by (elim disjE; cases a; cases b; cases c) auto

interpretation comm_blocks: block_parser "comm_step ready env printf" c_bulk "\<lambda>s. c_status (fst s) = STA_SOP"
  COMM_SOP_BYTE c_room "\<lambda>s. c_ok (fst s)" c_fresh c_same
proof
  fix s s1 s2 :: "comm_ctx \<times> section_com list" and now :: u32 and b :: u8 and bs :: "u8 list"
  let ?step = "comm_step ready env printf"
  show "c_ok (fst s) \<Longrightarrow> c_ok (fst (fst (?step now b s)))" by (rule comm_step_ok)
  show "c_fresh now (fst (?step now b s))" by (simp add: c_fresh_def comm_step_tick)
  show "c_ok (fst s) \<Longrightarrow> length bs \<le> c_room s \<Longrightarrow> bs \<noteq> [] \<Longrightarrow> c_ok (fst (c_bulk now bs s))"
    by (cases s) (auto simp: c_ok_def c_room_def c_bulk_def split: if_splits)
  show "c_fresh now (c_bulk now bs s)" by (cases s) (simp add: c_fresh_def c_bulk_def)
  show "c_ok (fst s) \<Longrightarrow> 0 < c_room s \<Longrightarrow> c_fresh now s \<Longrightarrow> ?step now b s = (c_bulk now [b] s, [])"
    by (rule c_step_room)
  show "c_bulk now bs (c_bulk now [b] s) = c_bulk now (b # bs) s"
    if "c_ok (fst s)" "Suc (length bs) \<le> c_room s" "bs \<noteq> []"
  proof -
    obtain c cmds where s: "s = (c, cmds)" by (cases s)
    have c: "c_index c + c_len c \<le> length (c_data_buffer c)" "c_index c + c_len c < 65536" "Suc (length bs) \<le> c_len c"
      using that by (auto simp: s c_ok_def c_room_def split: if_splits)
    then show ?thesis by (simp add: s c_bulk_def crc16_update_block_def add.commute)
  qed
  show "c_room (c_bulk now [b] s) = c_room s - 1" if "c_ok (fst s)" "1 < c_room s"
    by (cases s) (simp add: c_room_def c_bulk_def)
  show "c_status (fst s) = STA_SOP \<Longrightarrow> c_room s = 0" by (simp add: c_room_def)
  show "\<exists>s'. ?step now b s = (s', []) \<and> c_same s s' \<and> c_status (fst s') = STA_SOP"
    if "c_status (fst s) = STA_SOP" "b \<noteq> COMM_SOP_BYTE"
    using that by (auto simp: comm_step_def c_tick_def run_sop_def c_same_def Let_def)
  show "c_same s s" by (simp add: c_same_def)
  show "c_same s s1 \<Longrightarrow> c_same s1 s2 \<Longrightarrow> c_same s s2" by (rule c_same_trans)
  show "c_same s s1 \<Longrightarrow> ?step now b s = ?step now b s1"
    by (cases s; cases s1) (auto simp: c_same_def comm_step_def c_tick_def)
qed

text \<open>
  As long as the half-frame timeout does not strike at the start of the buffer, that is, for a
  parser that is idle or has heard from its link within the last 1000 ticks, comm_run_buffer is
  equivalent to comm_run on every byte: the same callbacks and transmissions in the same order, the
  same command list and the same parser state, up to the last tick of an idle parser.  For a parser
  in the middle of a frame that has timed out the two differ, since the bulk copy of payload bytes
  does not look at the timeout.
\<close>

theorem comm_run_buffer_bytewise:
  assumes "c_fresh now (fst (feed (comm_step ready env printf) tbs (declare_comm_ctx payload_size src link_id, cmds)))"
  shows "let s = fst (feed (comm_step ready env printf) tbs (declare_comm_ctx payload_size src link_id, cmds));
             b = comm_run_buffer ready env printf (\<lambda>_. now) (Some bs) (Some (fst s), snd s);
             f = feed (comm_step ready env printf) (map (Pair now) bs) s
         in snd b = snd f \<and> (\<exists>c. fst (fst b) = Some c \<and> c_same (c, snd (fst b)) (fst f))"
proof -
  let ?s = "fst (feed (comm_step ready env printf) tbs (declare_comm_ctx payload_size src link_id, cmds))"
  have "c_ok (fst ?s)"
    by (rule comm_feed_ok) (simp add: declare_c_ok)
  from comm_blocks.block_loop_feed [OF this assms, of ready env printf bs] show ?thesis
    by (auto simp: comm_run_buffer_def Let_def split: prod.splits)
qed

section \<open>What the parser acts on\<close>

text \<open>
  \<open>c_seen h c\<close>: \<open>h\<close> ends in the part of a frame the parser has taken in,
  and the frame object, the payload buffer and the running CRC are those of that part.
\<close>

definition c_crc_of :: "u8 list \<Rightarrow> u16" where
  "c_crc_of w = crc16_update_block crc16_init w"

definition c_got :: "comm_ctx \<Rightarrow> nat" where
  "c_got c =
     (case c_status c of
        STA_VER \<Rightarrow> 1 | STA_SRC \<Rightarrow> 2 + of_bool (c_src_flag c) | STA_DST \<Rightarrow> 4 + of_bool (c_dst_flag c)
      | STA_CMD \<Rightarrow> 6 + of_bool (c_cmd_flag c) | STA_ACK \<Rightarrow> 8 | STA_LEN \<Rightarrow> 9 + of_bool (c_len_flag c) | _ \<Rightarrow> 11)"

definition c_body :: "comm_ctx \<Rightarrow> u8 list" where
  "c_body c = frame_header (c_pack c) @ take (pk_len (c_pack c)) (c_data_buffer c)"

definition c_seen :: "u8 list \<Rightarrow> u8 list \<Rightarrow> comm_ctx \<Rightarrow> bool" where
  "c_seen pre h c \<longleftrightarrow>
     pk_data (c_pack c) = Data_Buffer \<and> pk_sop (c_pack c) = COMM_SOP_BYTE \<and>
     (case c_status c of
        STA_SOP \<Rightarrow> False
      | STA_ROUTE \<Rightarrow> False
      | STA_DATA \<Rightarrow>
          (let w = frame_header (c_pack c) @ take (c_index c) (c_data_buffer c) in h = pre @ w \<and> c_crc c = c_crc_of w)
      | STA_CRC \<Rightarrow>
          c_crc c = c_crc_of (c_body c) \<and> (\<exists>lo. h = pre @ c_body c @ [lo] \<and> pk_crc (c_pack c) = ucast lo)
      | STA_EOP \<Rightarrow>
          pk_crc (c_pack c) = c_crc_of (c_body c) \<and>
          (if c_eop_flag c then \<exists>e. h = pre @ c_body c @ u16_le (c_crc_of (c_body c)) @ [e] \<and> pk_eop (c_pack c) = ucast e
           else h = pre @ c_body c @ u16_le (c_crc_of (c_body c)) \<and> pk_eop (c_pack c) = 0)
      | STA_LEN \<Rightarrow>
          (let w = take (c_got c) (frame_header (c_pack c)) in h = pre @ w \<and> c_crc c = c_crc_of w) \<and>
          pk_len (c_pack c) < 256 \<and> (\<not> c_len_flag c \<longrightarrow> pk_len (c_pack c) = 0)
      | _ \<Rightarrow> (let w = take (c_got c) (frame_header (c_pack c)) in h = pre @ w \<and> c_crc c = c_crc_of w))"

lemma c_crc_snoc: "c_crc_of (w @ [b]) = crc16_update (c_crc_of w) b"
  by (simp add: c_crc_of_def crc16_update_block_def)

lemma c_seen_tick: "c_seen pre h c \<Longrightarrow> c_seen pre h (c\<lparr>c_last_rx_tick := t\<rparr>)"
  by (auto simp: c_seen_def c_got_def c_body_def split: comm_status.splits)

lemma u16_le_join: "ucast lo OR push_bit 8 (ucast hi) = v \<Longrightarrow> u16_le v = [lo, hi]"
proof -
  assume v: "ucast lo OR push_bit 8 (ucast hi) = v"
  have "(ucast (v AND 0xFF) :: u8) = lo" "(ucast (drop_bit 8 v) :: u8) = hi"
    unfolding v [symmetric] mask8 by (rule bit_word_eqI, auto simp: bit_simps dest: bit_imp_le_length)+
  then show ?thesis by (simp add: u16_le_def)
qed

lemma len_bytes:
  assumes "n < 256"
  shows "(of_nat n AND 0xFF :: u8) = of_nat n"
    and "(ucast ((of_nat n :: u16) OR push_bit 8 (ucast b)) AND 0xFF :: u8) = of_nat n"
    and "(of_nat (unat ((of_nat n :: u16) OR push_bit 8 (ucast b)) div 256) :: u8) = b"
proof -
  have nb: "\<not> bit n i" if "8 \<le> i" for i
  proof -
    have "n < 2 ^ 8" using assms by simp
    then have "n = take_bit 8 n" by (simp add: take_bit_nat_eq_self)
    then show ?thesis using that by (metis bit_take_bit_iff not_le)
  qed
  show "(of_nat n AND 0xFF :: u8) = of_nat n" unfolding mask8 by (rule bit_word_eqI) (auto simp: bit_simps)
  show "(ucast ((of_nat n :: u16) OR push_bit 8 (ucast b)) AND 0xFF :: u8) = of_nat n"
    unfolding mask8 by (rule bit_word_eqI) (auto simp: bit_simps)
  have d: "m div 256 = drop_bit 8 m" for m :: nat by (simp add: drop_bit_eq_div)
  show "(of_nat (unat ((of_nat n :: u16) OR push_bit 8 (ucast b)) div 256) :: u8) = b"
    unfolding d by (rule bit_word_eqI) (auto simp: bit_simps nb)
qed

lemma frame_header_trailer [simp]:
  "frame_header (p\<lparr>pk_crc := x\<rparr>) = frame_header p" "frame_header (p\<lparr>pk_eop := y\<rparr>) = frame_header p"
  by (simp_all add: frame_header_def)

lemma first_len_byte: "(ucast (ucast b :: u16) AND 0xFF :: u8) = b" "unat (ucast b :: u16) < 256"
proof -
  show "(ucast (ucast b :: u16) AND 0xFF :: u8) = b" unfolding mask8 by (rule bit_word_eqI) (auto simp: bit_simps)
  have "unat (ucast b :: u16) \<le> unat b" by (simp add: unsigned_ucast_eq take_bit_nat_less_eq_self)
  then show "unat (ucast b :: u16) < 256" using unat_u8_less [of b] by simp
qed

lemma c_seen_step:
  assumes ok: "c_ok c" and seen: "c_seen pre h c" and t: "c_tick now c = c\<lparr>c_last_rx_tick := now\<rparr>"
  shows "c_status (fst (fst (comm_step ready env printf now b (c, cmds)))) = STA_SOP
    \<or> c_seen pre (h @ [b]) (fst (fst (comm_step ready env printf now b (c, cmds))))"
proof (cases "c_status c")
  case STA_CMD
  then show ?thesis
    using seen by (auto simp: comm_step_def t run_cmd_def c_add_def Let_def c_seen_def c_got_def frame_header_def
        COMM_SOP_BYTE_def c_crc_of_def crc16_update_block_def split: prod.splits)
next
  case STA_LEN
  then show ?thesis
    using seen by (auto simp: comm_step_def t run_len_def c_add_def Let_def c_seen_def c_got_def frame_header_def
        COMM_SOP_BYTE_def c_crc_of_def crc16_update_block_def len_bytes first_len_byte)
next
  case STA_DATA
  have i: "c_len c \<noteq> 0 \<Longrightarrow> c_index c < length (c_data_buffer c) \<and> c_index c < 65535" "c_index c + c_len c = pk_len (c_pack c)"
    using ok STA_DATA by (auto simp: c_ok_def)
  then show ?thesis
    using seen STA_DATA
    by (auto simp: comm_step_def t run_data_def c_add_def Let_def c_seen_def c_body_def c_crc_snoc [symmetric]
        take_Suc_conv_app_nth)
next
  case STA_CRC
  then show ?thesis
    using seen u16_le_join by (auto simp: comm_step_def t run_crc_def Let_def c_seen_def c_body_def crc16_final_def)
next
  case STA_EOP
  then show ?thesis
    using seen by (auto simp: comm_step_def t run_eop_def Let_def c_seen_def c_body_def split: prod.splits)
qed (use seen in \<open>auto simp: comm_step_def t run_sop_def run_ver_def run_src_def run_dst_def run_ack_def c_add_def
       Let_def c_seen_def c_got_def frame_header_def COMM_SOP_BYTE_def c_crc_of_def crc16_update_block_def\<close>)

text \<open>A history of the parser: idle, or inside a frame that started somewhere before.\<close>

definition c_hist :: "u8 list \<Rightarrow> comm_ctx \<Rightarrow> bool" where
  "c_hist h c \<longleftrightarrow> c_ok c \<and> (c_status c = STA_SOP \<or> (\<exists>pre. c_seen pre h c))"

lemma c_tick_cases:
  "c_status (c_tick now c) = STA_SOP \<or> c_tick now c = c\<lparr>c_last_rx_tick := now\<rparr>"
  by (simp add: c_tick_def)

lemma comm_step_idle:
  assumes "c_status (c_tick now c) = STA_SOP" "c_status (fst (fst (comm_step ready env printf now b (c, cmds)))) \<noteq> STA_SOP"
  shows "c_seen h (h @ [b]) (fst (fst (comm_step ready env printf now b (c, cmds))))"
  using assms by (auto simp: comm_step_def Let_def run_sop_def c_seen_def c_got_def frame_header_def COMM_SOP_BYTE_def
      c_crc_of_def crc16_update_block_def split: if_splits)

lemma comm_step_hist:
  assumes "c_hist h (fst s)"
  shows "c_hist (h @ [b]) (fst (fst (comm_step ready env printf now b s)))"
proof -
  obtain c cmds where s: "s = (c, cmds)" by (cases s)
  have ok: "c_ok c" "c_ok (fst (fst (comm_step ready env printf now b s)))"
    using assms comm_step_ok [of s] by (auto simp: c_hist_def s)
  show ?thesis
  proof (cases "c_status (c_tick now c) = STA_SOP")
    case True
    from comm_step_idle [OF this, of ready env printf b cmds h] show ?thesis
      using ok by (auto simp: c_hist_def s)
  next
    case False
    then have t: "c_tick now c = c\<lparr>c_last_rx_tick := now\<rparr>" using c_tick_cases by blast
    then have "c_status c \<noteq> STA_SOP" using False by simp
    then obtain pre where "c_seen pre h c" using assms by (auto simp: c_hist_def s)
    from c_seen_step [OF ok(1) this t, of ready env printf b cmds] show ?thesis
      using ok by (auto simp: c_hist_def s)
  qed
qed

lemma comm_feed_hist:
  "c_hist h (fst s) \<Longrightarrow> c_hist (h @ map snd tbs) (fst (fst (feed (comm_step ready env printf) tbs s)))"
proof (induction tbs arbitrary: h s)
  case (Cons nb tbs)
  obtain now b where nb: "nb = (now, b)" by (cases nb)
  from Cons.IH [OF comm_step_hist [OF Cons.prems, of b ready env printf now]] show ?case
    by (auto simp: nb split: prod.splits)
qed simp

lemma eop_bytes: "ucast (e :: u8) OR push_bit 8 (ucast b) = (0x0A0D :: u16) \<Longrightarrow> e = 0x0D \<and> b = (0x0A :: u8)"
  using u16_le_join [of e b "0x0A0D"] by (simp add: u16_le_def)

lemma c_seen_event:
  assumes ok: "c_ok c" and seen: "c_seen pre h c" and t: "c_tick now c = c\<lparr>c_last_rx_tick := now\<rparr>"
    and e: "snd (comm_step ready env printf now b (c, cmds)) \<noteq> []"
  shows "\<exists>p. h @ [b] = pre @ comm_frame p \<and> length (pk_payload p) = pk_len p
    \<and> ((\<exists>f. snd (comm_step ready env printf now b (c, cmds)) = [Dispatch f p printf])
       \<or> (\<exists>l. snd (comm_step ready env printf now b (c, cmds)) = transmit l (comm_frame p)))"
proof -
  have st: "c_status c = STA_EOP" "c_eop_flag c" "pk_eop (c_pack c) OR push_bit 8 (ucast b) = 0x0A0D"
    using e by (cases "c_status c"; auto simp: comm_step_def t run_eop_def Let_def split: if_splits)+
  obtain x where x: "h = pre @ c_body c @ u16_le (c_crc_of (c_body c)) @ [x]" "pk_eop (c_pack c) = ucast x"
    "pk_data (c_pack c) = Data_Buffer" "pk_sop (c_pack c) = COMM_SOP_BYTE"
    using seen st(1,2) by (auto simp: c_seen_def)
  have xb: "x = 0x0D" "b = 0x0A" using eop_bytes [of x b] st(3) x(2) by auto
  let ?c = "c\<lparr>c_last_rx_tick := now, c_pack := (c_pack c)\<lparr>pk_eop := 0x0A0D\<rparr>\<rparr>"
  let ?p = "pack_view ?c"
  have p: "?p = (c_pack c)\<lparr>pk_eop := 0x0A0D, pk_data := Bytes (c_data_buffer c)\<rparr>"
    using x(3) by (simp add: pack_view_def)
  have len: "pk_len (c_pack c) \<le> length (c_data_buffer c)" using ok st(1) by (auto simp: c_ok_def)
  have pay: "pk_payload ?p = take (pk_len (c_pack c)) (c_data_buffer c)" "pk_len ?p = pk_len (c_pack c)"
    unfolding p by (simp_all add: pk_payload_def)
  have "frame_header ?p = frame_header (c_pack c)" unfolding p by (simp add: frame_header_def)
  then have fr: "comm_frame ?p = c_body c @ u16_le (c_crc_of (c_body c)) @ [0x0D, 0x0A]"
    by (simp add: comm_frame_def frame_crc_def pay c_body_def c_crc_of_def crc16_final_def)
  have h: "h @ [b] = pre @ comm_frame ?p" using x(1) xb by (simp add: fr)
  have ev: "snd (comm_step ready env printf now b (c, cmds)) =
      (if c_is_route c then snd (comm_route_run ready env ?c)
       else case c_func c of None \<Rightarrow> [] | Some f \<Rightarrow> [Dispatch f ?p printf])"
    using st by (auto simp: comm_step_def t run_eop_def Let_def split: prod.splits option.splits)
  have rt: "\<exists>l. snd (comm_route_run ready env ?c) = transmit l (comm_frame ?p)"
    if "snd (comm_route_run ready env ?c) \<noteq> []"
  proof -
    have "pk_sop ?p = COMM_SOP_BYTE" unfolding p by (simp add: x(4))
    then have "fst (comm_send_data ready (Some ?p) l) = [] \<or> fst (comm_send_data ready (Some ?p) l) = transmit l (comm_frame ?p)" for l
      by (simp add: comm_send_data_def COMM_SOP_BYTE_def)
    then show ?thesis using that by (auto simp: comm_route_run_def split: option.splits prod.splits) (metis fst_conv)+
  qed
  show ?thesis
  proof (intro exI [of _ ?p] conjI h)
    show "length (pk_payload ?p) = pk_len ?p" using len by (simp add: pay)
    show "(\<exists>f. snd (comm_step ready env printf now b (c, cmds)) = [Dispatch f ?p printf])
       \<or> (\<exists>l. snd (comm_step ready env printf now b (c, cmds)) = transmit l (comm_frame ?p))"
      using rt e unfolding ev by (auto split: if_splits option.splits)
  qed
qed

text \<open>
  C3: the parser acts only on complete, checked frames: whenever a byte causes a callback or a
  forwarding, the bytes received so far end in a well-formed frame (header, payload of the
  announced length, matching CRC, EOP), and the callback gets exactly that frame, or exactly its
  bytes are transmitted again.
\<close>

theorem comm_acts_on_frames:
  assumes "s = fst (feed (comm_step ready env printf) tbs (declare_comm_ctx payload_size src link_id, cmds))"
    and "snd (comm_step ready env printf now b s) \<noteq> []"
  shows "\<exists>pre p. map snd tbs @ [b] = pre @ comm_frame p \<and> length (pk_payload p) = pk_len p
    \<and> ((\<exists>f. snd (comm_step ready env printf now b s) = [Dispatch f p printf])
       \<or> (\<exists>l. snd (comm_step ready env printf now b s) = transmit l (comm_frame p)))"
proof -
  obtain c cmds' where s: "s = (c, cmds')" by (cases s)
  have "c_hist [] (declare_comm_ctx payload_size src link_id)"
    by (simp add: c_hist_def declare_c_ok) (simp add: declare_comm_ctx_def)
  then have h: "c_hist (map snd tbs) c"
    using comm_feed_hist [of "[]" "(declare_comm_ctx payload_size src link_id, cmds)" tbs ready env printf] assms(1)
    by (simp add: s [symmetric]) (simp add: s flip: assms(1))
  have "c_status (c_tick now c) \<noteq> STA_SOP" using assms(2) by (auto simp: s comm_step_def Let_def)
  then have t: "c_tick now c = c\<lparr>c_last_rx_tick := now\<rparr>" "c_status c \<noteq> STA_SOP"
    using c_tick_cases [of now c] by auto
  then obtain pre where "c_ok c" "c_seen pre (map snd tbs) c" using h by (auto simp: c_hist_def)
  from c_seen_event [OF this t(1)] assms(2) show ?thesis unfolding s by blast
qed

section \<open>Concrete runs\<close>

text \<open>A node with address 5 and a 16-byte buffer, a command (1, 2), and a route to 7 over link 2.\<close>

definition c_sample_frame :: "u8 \<Rightarrow> packform" where
  "c_sample_frame dst =
     empty_pack\<lparr>pk_sop := 0xE8, pk_src := 3, pk_dst := dst, pk_cmd_set := 1, pk_cmd_word := 2, pk_len := 3,
       pk_data := Bytes [7, 8, 9]\<rparr>"

definition c_sample_cmds :: "section_com list" where
  "c_sample_cmds = [\<lparr>com_cmd_set = 1, com_cmd_word = 9, com_func = Some 3\<rparr>, \<lparr>com_cmd_set = 1, com_cmd_word = 2, com_func = Some 4\<rparr>]"

definition c_sample_env :: comm_env where
  "c_sample_env = \<lparr>env_routes = [\<lparr>rt_src_link_id = 1, rt_dst_link_id = 2, rt_dst_addr = 7\<rparr>],
     env_links = [\<lparr>lk_printf = Some \<lparr>tx_by_dma = Some 6\<rparr>, lk_link_id = 2\<rparr>]\<rparr>"

definition c_sample_ctx :: comm_ctx where
  "c_sample_ctx = declare_comm_ctx 16 5 1"

lemma c_sample_facts:
  "c_sendable (c_sample_frame dst)" "c_expects c_sample_ctx (c_sample_frame dst)"
  "pk_len (c_sample_frame dst) = 3" "pk_payload (c_sample_frame dst) = [7, 8, 9]"
  by (simp_all add: c_sendable_def c_expects_def c_sample_frame_def c_sample_ctx_def declare_comm_ctx_def empty_pack_def
      pk_payload_def)

lemma c_sample_local:
  "is_addr_match (pk_dst (c_sample_frame 5)) (c_src c_sample_ctx)"
  "is_addr_match (pk_d_dst (c_sample_frame 5)) (c_d_src c_sample_ctx)"
  "lookup_func (pk_cmd_set (c_sample_frame 5)) (pk_cmd_word (c_sample_frame 5)) c_sample_cmds = (Some 4, rev c_sample_cmds)"
  by (simp_all add: is_addr_match_def c_sample_frame_def c_sample_ctx_def declare_comm_ctx_def empty_pack_def
      lookup_func_def c_sample_cmds_def com_matches_def mtf_def)

lemma map_snd_Pair [simp]: "map snd (map (Pair t) bs) = bs"
  by (simp add: comp_def)

lemma in_time_start: "in_time (fst (hd (map (Pair t) bs))) (map (Pair t) bs)"
  using in_time_together by (cases bs) auto

theorem comm_delivers_witness:
  "\<exists>c b. feed (comm_step None c_sample_env None) (map (Pair 5) (comm_frame (c_sample_frame 5))) (c_sample_ctx, c_sample_cmds)
      = ((c, rev c_sample_cmds), [Dispatch 4 (c_received (c_sample_frame 5) 0 b) None])
    \<and> take 3 b = [7, 8, 9]"
proof -
  have "pk_seq (c_pack c_sample_ctx) = 0" by (simp add: c_sample_ctx_def declare_comm_ctx_def empty_pack_def)
  then show ?thesis
    using comm_delivers [OF c_sample_facts(1,2) c_sample_local map_snd_Pair in_time_start, of None c_sample_env None 5]
    unfolding c_sample_facts(3,4) by auto
qed

theorem comm_routes_witness:
  "\<exists>c. feed (comm_step None c_sample_env None) (map (Pair 5) (comm_frame (c_sample_frame 7))) (c_sample_ctx, c_sample_cmds)
      = ((c, c_sample_cmds), [Transmit 6 (comm_frame (c_sample_frame 7))])"
proof -
  let ?rt = "\<lparr>rt_src_link_id = 1, rt_dst_link_id = 2, rt_dst_addr = 7\<rparr>"
  let ?l = "\<lparr>lk_printf = Some \<lparr>tx_by_dma = Some 6\<rparr>, lk_link_id = 2\<rparr>"
  have "\<not> is_addr_match (pk_dst (c_sample_frame 7)) (c_src c_sample_ctx)"
    "find_route (env_routes c_sample_env) (c_link_id c_sample_ctx) (pk_dst (c_sample_frame 7)) = Some ?rt"
    "find_link_by_id (env_links c_sample_env) (rt_dst_link_id ?rt) = Some ?l"
    by (simp_all add: is_addr_match_def c_sample_frame_def c_sample_ctx_def declare_comm_ctx_def empty_pack_def
        c_sample_env_def find_route_def find_link_by_id_def)
  from comm_routes [OF c_sample_facts(1,2) this map_snd_Pair in_time_start, of None None 5 c_sample_cmds]
  show ?thesis by (auto simp: transmit_def)
qed

text \<open>The frame after its eleven header bytes: the next bytes are payload and are copied in bulk.\<close>

definition c_sample_header :: "comm_ctx \<times> section_com list" where
  "c_sample_header =
     fst (feed (comm_step None c_sample_env None) (map (Pair 5) (take 11 (comm_frame (c_sample_frame 5))))
       (declare_comm_ctx 16 5 1, c_sample_cmds))"

lemma c_sample_header_data:
  "c_status (fst c_sample_header) = STA_DATA" "c_last_rx_tick (fst c_sample_header) = 5" "c_room c_sample_header = 3"
proof -
  let ?p = "c_sample_frame 5" and ?tbs = "map (Pair (5 :: u32)) (frame_header (c_sample_frame 5))"
  have a: "c_accepts c_sample_ctx c_sample_cmds ?p False (Some 4) (rev c_sample_cmds)"
    using c_sample_local by (simp add: c_accepts_def)
  have i: "c_status c_sample_ctx = STA_SOP" "pk_len ?p \<le> c_buffer_size c_sample_ctx" "pk_len ?p < 65536"
    using c_sample_facts(2) [of 5] by (simp_all add: c_expects_def c_sample_facts(3))
  obtain c where c: "feed (comm_step None c_sample_env None) ?tbs (c_sample_ctx, c_sample_cmds) = ((c, rev c_sample_cmds), [])"
    "c_at c_sample_ctx STA_DATA False (fst (last ?tbs)) (frame_header ?p) (c_header_pack (c_pack c_sample_ctx) ?p) False (Some 4) c"
    "c_pay [] (pk_len ?p) c"
    using at_header [OF i(1) a i(2,3) map_snd_Pair in_time_start, of None c_sample_env None 5] by blast
  have "take 11 (comm_frame ?p) = frame_header ?p" by (simp add: comm_frame_def frame_header_def)
  then have h: "c_sample_header = (c, rev c_sample_cmds)" using c(1) by (simp add: c_sample_header_def c_sample_ctx_def)
  show "c_status (fst c_sample_header) = STA_DATA" "c_last_rx_tick (fst c_sample_header) = 5" "c_room c_sample_header = 3"
    using c(2,3) unfolding h by (simp_all add: c_room_def c_at_def c_pay_def frame_header_def c_sample_facts(3))
qed

theorem comm_run_buffer_bytewise_witness:
  "c_room c_sample_header = 3
   \<and> snd (comm_run_buffer None c_sample_env None (\<lambda>_. 9) (Some (drop 11 (comm_frame (c_sample_frame 5))))
            (Some (fst c_sample_header), snd c_sample_header))
       = snd (feed (comm_step None c_sample_env None) (map (Pair 9) (drop 11 (comm_frame (c_sample_frame 5)))) c_sample_header)"
proof -
  have "c_fresh 9 c_sample_header" by (simp add: c_fresh_def c_sample_header_data)
  from comm_run_buffer_bytewise [OF this [unfolded c_sample_header_def], of "drop 11 (comm_frame (c_sample_frame 5))"]
  show ?thesis by (simp add: Let_def c_sample_header_data flip: c_sample_header_def)
qed

text \<open>The frame just before its last byte.\<close>

definition c_sample_before :: "comm_ctx \<times> section_com list" where
  "c_sample_before =
     fst (feed (comm_step None c_sample_env None) (map (Pair 5) (butlast (comm_frame (c_sample_frame 5))))
       (declare_comm_ctx 16 5 1, c_sample_cmds))"

lemma map_last: "bs = butlast bs @ [x] \<Longrightarrow> map f bs = map f (butlast bs) @ [f x]"
  using arg_cong [of bs "butlast bs @ [x]" "map f"] unfolding map_append list.map .

lemma c_sample_event: "snd (comm_step None c_sample_env None 5 0x0A c_sample_before) \<noteq> []"
proof -
  let ?bs = "comm_frame (c_sample_frame 5)" and ?step = "comm_step None c_sample_env None"
  have a: "c_accepts c_sample_ctx c_sample_cmds (c_sample_frame 5) False (Some 4) (rev c_sample_cmds)"
    using c_sample_local by (simp add: c_accepts_def)
  obtain c where c: "feed ?step (map (Pair 5) ?bs) (c_sample_ctx, c_sample_cmds) =
      ((comm_reset_ctx c, rev c_sample_cmds), [Dispatch 4 (pack_view c) None])"
    "snd (feed ?step (butlast (map (Pair 5) ?bs)) (c_sample_ctx, c_sample_cmds)) = []"
    using whole_frame [OF c_sample_facts(1,2) a map_snd_Pair in_time_start, of None c_sample_env None 5] by auto
  have "?bs = butlast ?bs @ [0x0A]" by (simp add: comm_frame_def butlast_append)
  from map_last [OF this, of "Pair 5"] have m: "map (Pair (5 :: u32)) ?bs = map (Pair 5) (butlast ?bs) @ [(5, 0x0A)]"
    .
  have "snd (feed ?step (map (Pair 5) ?bs) (c_sample_ctx, c_sample_cmds)) =
      snd (feed ?step (map (Pair 5) (butlast ?bs)) (c_sample_ctx, c_sample_cmds))
      @ snd (?step 5 0x0A c_sample_before)"
    unfolding m feed_append by (simp add: c_sample_before_def c_sample_ctx_def split: prod.splits)
  then have "[Dispatch 4 (pack_view c) None] = snd (?step 5 0x0A c_sample_before)"
    using c by (simp add: map_butlast)
  then show ?thesis by (metis list.distinct(1))
qed

theorem comm_acts_on_frames_witness:
  "\<exists>pre p. butlast (comm_frame (c_sample_frame 5)) @ [0x0A] = pre @ comm_frame p"
  using comm_acts_on_frames [OF c_sample_before_def c_sample_event] unfolding map_snd_Pair by blast

theorem comm_run_in_bounds_witness:
  "c_buffer_size (fst (fst (feed (comm_step None c_sample_env None) [(0, 0xE8), (0, 1)] (declare_comm_ctx (min 16 65535) 5 1, []))))
     \<le> length (c_data_buffer (fst (fst (feed (comm_step None c_sample_env None) [(0, 0xE8), (0, 1)] (declare_comm_ctx (min 16 65535) 5 1, [])))))"
  using comm_run_in_bounds [of None c_sample_env None "[(0, 0xE8), (0, 1)]" 16 5 1 "[]"] unfolding Let_def by blast

end
