(* ===== verification/Fal_Core.thy ===== *)
theory Fal_Core
  imports Prelude
begin

text \<open>
  code/lib/fal/fal_core.c: logical zones on flash devices, the validation of a mounted
  configuration, the asynchronous read, write and erase requests and the polled state machine
  that carries them out.  The platform's flash driver is a parameter: its callbacks are
  functions on a platform state \<open>'x\<close> (\<open>p_context\<close> is part of the
  function).  Every driver call is also an event, so that what the driver is asked to do can be
  stated.  Lengths and addresses are 32-bit words.
\<close>

section \<open>Data\<close>

datatype fal_result =
  FAL_SUCCESS | FAL_IN_PROGRESS | FAL_BUSY | FAL_INVALID_ARGUMENT | FAL_OUT_OF_RANGE | FAL_CONFIG_ERROR
  | FAL_PERMISSION_DENIED | FAL_DRIVER_ERROR | FAL_STOPPED

datatype fal_device_state = DEVICE_READY | DEVICE_BUSY | DEVICE_ERROR

datatype fal_state =
  STATE_UNINITIALIZED | STATE_IDLE | STATE_READ | STATE_WRITE | STATE_ERASE | STATE_WAIT_DEVICE | STATE_STOPPED
  | STATE_ERROR

datatype fal_operation_type = OPERATION_NONE | OPERATION_READ | OPERATION_WRITE | OPERATION_ERASE

definition PERMISSION_READ :: u8 where "PERMISSION_READ = 1"
definition PERMISSION_WRITE :: u8 where "PERMISSION_WRITE = 2"
definition PERMISSION_ERASE :: u8 where "PERMISSION_ERASE = 4"
definition PERMISSION_ALL :: u8 where "PERMISSION_ALL = PERMISSION_READ OR PERMISSION_WRITE OR PERMISSION_ERASE"

text \<open>Callbacks; \<open>None\<close> is NULL.  A caller buffer is an address of the platform.\<close>

record 'x fal_flash_ops =
  p_init :: "('x \<Rightarrow> fal_result \<times> 'x) option"
  p_get_state :: "('x \<Rightarrow> fal_device_state \<times> 'x) option"
  p_read :: "('x \<Rightarrow> u32 \<Rightarrow> u32 \<Rightarrow> nat option \<Rightarrow> fal_result \<times> 'x) option"
  p_program :: "('x \<Rightarrow> u32 \<Rightarrow> u32 \<Rightarrow> nat option \<Rightarrow> fal_result \<times> 'x) option"
  p_erase :: "('x \<Rightarrow> u32 \<Rightarrow> u32 \<Rightarrow> fal_result \<times> 'x) option"
  p_sync :: "('x \<Rightarrow> fal_result \<times> 'x) option"

record fal_zone_cfg =
  z_zone_id :: u16
  z_size :: u32
  z_permissions :: u8

text \<open>The arrays with their counts are lists; \<open>None\<close> is a NULL array.\<close>

record 'x fal_device_cfg =
  d_device_id :: u16
  d_capacity :: u32
  d_program_page_size :: u32
  d_erase_block_size :: u32
  d_max_read_size :: u32
  d_zones :: "fal_zone_cfg list option"
  d_ops :: "'x fal_flash_ops"
  d_program_unit_size :: u32

type_synonym 'x fal_cfg = "'x fal_device_cfg list option"

record fal_zone_info =
  i_zone_id :: u16
  i_device_id :: u16
  i_size :: u32
  i_program_page_size :: u32
  i_erase_block_size :: u32
  i_permissions :: u8

record 'x fal =
  f_cfg :: "'x fal_cfg option"
  f_read_data :: "nat option"
  f_write_data :: "nat option"
  f_physical_address :: u32
  f_remaining :: u32
  f_chunk_length :: u32
  f_active_device_id :: u16
  f_state :: fal_state
  f_operation_state :: fal_state
  f_operation :: fal_operation_type
  f_result :: fal_result
  f_stop_requested :: bool
  f_sync_issued :: bool

text \<open>What the driver of a device is asked to do.\<close>

datatype flash_call =
    Flash_Init u16
  | Flash_Read u16 u32 u32 "nat option"
  | Flash_Program u16 u32 u32 "nat option"
  | Flash_Erase u16 u32 u32
  | Flash_Sync u16

section \<open>Zones\<close>

definition zones :: "'x fal_device_cfg \<Rightarrow> fal_zone_cfg list" where
  "zones d = (case d_zones d of None \<Rightarrow> [] | Some zs \<Rightarrow> zs)"

text \<open>The scan of one device, from a zone on, with the running 32-bit address.\<close>

fun zone_scan :: "u16 \<Rightarrow> u32 \<Rightarrow> fal_zone_cfg list \<Rightarrow> (fal_zone_cfg \<times> u32) option" where
  "zone_scan zone_id device_offset [] = None"
| "zone_scan zone_id device_offset (z # zs) =
     (if z_zone_id z = zone_id then Some (z, device_offset)
      else zone_scan zone_id (device_offset + z_size z) zs)"

fun zone_find :: "'x fal_device_cfg list \<Rightarrow> u16 \<Rightarrow> (fal_zone_cfg \<times> 'x fal_device_cfg \<times> u32) option" where
  "zone_find [] zone_id = None"
| "zone_find (d # ds) zone_id =
     (case zone_scan zone_id 0 (zones d) of
        Some (z, device_offset) \<Rightarrow> Some (z, d, device_offset)
      | None \<Rightarrow> zone_find ds zone_id)"

definition zone_id_is_duplicate :: "'x fal_device_cfg list \<Rightarrow> nat \<Rightarrow> nat \<Rightarrow> bool" where
  "zone_id_is_duplicate ds device_index zone_index \<longleftrightarrow>
     (let zone_id = z_zone_id (zones (ds ! device_index) ! zone_index)
      in \<exists>compare_device_index \<in> {0..device_index}.
           let d = ds ! compare_device_index;
               compare_zone_count = (if compare_device_index = device_index then zone_index else length (zones d))
           in \<exists>compare_zone_index \<in> {0..<compare_zone_count}. z_zone_id (zones d ! compare_zone_index) = zone_id)"

definition device_validate :: "'x fal_device_cfg list \<Rightarrow> nat \<Rightarrow> fal_result" where
  "device_validate ds device_index =
     (let d = ds ! device_index; ops = d_ops d
      in if d_capacity d = 0 \<or> d_program_page_size d = 0 \<or> d_erase_block_size d = 0
           \<or> d_program_page_size d > d_capacity d \<or> d_erase_block_size d > d_capacity d
           \<or> d_zones d = None \<or> zones d = []
           \<or> p_init ops = None \<or> p_get_state ops = None \<or> p_read ops = None \<or> p_program ops = None \<or> p_erase ops = None
         then FAL_CONFIG_ERROR
         else if d_program_unit_size d \<noteq> 0
           \<and> (d_program_page_size d mod d_program_unit_size d \<noteq> 0 \<or> d_erase_block_size d mod d_program_unit_size d \<noteq> 0)
         then FAL_CONFIG_ERROR
         else if \<exists>compare_index \<in> {0..<device_index}. d_device_id (ds ! compare_index) = d_device_id d
         then FAL_CONFIG_ERROR
         else FAL_SUCCESS)"

text \<open>The loop over the preceding zones; \<open>None\<close> is its early CONFIG_ERROR.\<close>

fun preceding_offset :: "u32 \<Rightarrow> u32 \<Rightarrow> fal_zone_cfg list \<Rightarrow> u32 option" where
  "preceding_offset capacity device_offset [] = Some device_offset"
| "preceding_offset capacity device_offset (z # zs) =
     (if z_size z > capacity - device_offset then None
      else preceding_offset capacity (device_offset + z_size z) zs)"

definition zone_validate :: "'x fal_device_cfg list \<Rightarrow> nat \<Rightarrow> nat \<Rightarrow> fal_result" where
  "zone_validate ds device_index zone_index =
     (let d = ds ! device_index; z = zones d ! zone_index
      in case preceding_offset (d_capacity d) 0 (take zone_index (zones d)) of
           None \<Rightarrow> FAL_CONFIG_ERROR
         | Some device_offset \<Rightarrow>
             if z_size z = 0 \<or> z_permissions z AND NOT PERMISSION_ALL \<noteq> 0 \<or> z_permissions z = 0
               \<or> z_size z > d_capacity d - device_offset
               \<or> device_offset mod d_erase_block_size d \<noteq> 0 \<or> z_size z mod d_erase_block_size d \<noteq> 0
             then FAL_CONFIG_ERROR
             else if zone_id_is_duplicate ds device_index zone_index then FAL_CONFIG_ERROR
             else FAL_SUCCESS)"

section \<open>Requests\<close>

definition operation_clear :: "'x fal \<Rightarrow> 'x fal" where
  "operation_clear f =
     f\<lparr>f_read_data := None, f_write_data := None, f_physical_address := 0, f_remaining := 0, f_chunk_length := 0,
       f_active_device_id := 0, f_operation_state := STATE_IDLE, f_operation := OPERATION_NONE, f_sync_issued := False\<rparr>"

definition operation_finish :: "fal_result \<Rightarrow> 'x fal \<Rightarrow> 'x fal" where
  "operation_finish result f =
     (operation_clear f)
       \<lparr>f_result := result, f_state := (if f_stop_requested f then STATE_STOPPED else STATE_IDLE)\<rparr>"

definition fal_is_busy :: "'x fal option \<Rightarrow> bool" where
  "fal_is_busy p_fal = (case p_fal of None \<Rightarrow> False | Some f \<Rightarrow> f_operation f \<noteq> OPERATION_NONE)"

text \<open>\<open>Inl\<close> is a refusal; \<open>Inr\<close> the zone, its device and its address.\<close>

definition request_validate ::
  "'x fal option \<Rightarrow> u16 \<Rightarrow> u32 \<Rightarrow> u32 \<Rightarrow> u8 \<Rightarrow> fal_result + fal_zone_cfg \<times> 'x fal_device_cfg \<times> u32" where
  "request_validate p_fal zone_id offset len permission =
     (case p_fal of
        None \<Rightarrow> Inl FAL_INVALID_ARGUMENT
      | Some f \<Rightarrow>
          if f_state f = STATE_STOPPED then Inl FAL_STOPPED
          else if f_state f = STATE_UNINITIALIZED \<or> f_state f = STATE_ERROR \<or> f_cfg f = None then Inl FAL_CONFIG_ERROR
          else if fal_is_busy (Some f) then Inl FAL_BUSY
          else
            (case zone_find (the (the (f_cfg f))) zone_id of
               None \<Rightarrow> Inl FAL_INVALID_ARGUMENT
             | Some (z, d, device_offset) \<Rightarrow>
                 if z_permissions z AND permission = 0 then Inl FAL_PERMISSION_DENIED
                 else if offset > z_size z \<or> len > z_size z - offset then Inl FAL_OUT_OF_RANGE
                 else Inr (z, d, device_offset)))"

definition request_begin ::
  "'x fal_device_cfg \<Rightarrow> fal_operation_type \<Rightarrow> fal_state \<Rightarrow> u32 \<Rightarrow> u32 \<Rightarrow> 'x fal \<Rightarrow> 'x fal" where
  "request_begin d operation operation_state physical_address len f =
     f\<lparr>f_active_device_id := d_device_id d, f_physical_address := physical_address, f_remaining := len,
       f_chunk_length := 0, f_operation := operation, f_operation_state := operation_state,
       f_state := operation_state, f_result := FAL_IN_PROGRESS, f_sync_issued := False\<rparr>"

definition fal_read :: "u16 \<Rightarrow> u32 \<Rightarrow> u32 \<Rightarrow> nat option \<Rightarrow> 'x fal option \<Rightarrow> fal_result \<times> 'x fal option" where
  "fal_read zone_id offset len p_data p_fal =
     (if p_data = None \<and> len \<noteq> 0 then (FAL_INVALID_ARGUMENT, p_fal)
      else
        (case request_validate p_fal zone_id offset len PERMISSION_READ of
           Inl result \<Rightarrow> (result, p_fal)
         | Inr (z, d, device_offset) \<Rightarrow>
             if len = 0 then (FAL_SUCCESS, map_option (\<lambda>f. f\<lparr>f_result := FAL_SUCCESS\<rparr>) p_fal)
             else (FAL_IN_PROGRESS,
                   map_option (\<lambda>f. (request_begin d OPERATION_READ STATE_READ (device_offset + offset) len f)
                                     \<lparr>f_read_data := p_data\<rparr>) p_fal)))"

definition fal_write :: "u16 \<Rightarrow> u32 \<Rightarrow> u32 \<Rightarrow> nat option \<Rightarrow> 'x fal option \<Rightarrow> fal_result \<times> 'x fal option" where
  "fal_write zone_id offset len p_data p_fal =
     (if p_data = None \<and> len \<noteq> 0 then (FAL_INVALID_ARGUMENT, p_fal)
      else
        (case request_validate p_fal zone_id offset len PERMISSION_WRITE of
           Inl result \<Rightarrow> (result, p_fal)
         | Inr (z, d, device_offset) \<Rightarrow>
             if len = 0 then (FAL_SUCCESS, map_option (\<lambda>f. f\<lparr>f_result := FAL_SUCCESS\<rparr>) p_fal)
             else if d_program_unit_size d \<noteq> 0
               \<and> ((device_offset + offset) mod d_program_unit_size d \<noteq> 0 \<or> len mod d_program_unit_size d \<noteq> 0)
             then (FAL_INVALID_ARGUMENT, p_fal)
             else (FAL_IN_PROGRESS,
                   map_option (\<lambda>f. (request_begin d OPERATION_WRITE STATE_WRITE (device_offset + offset) len f)
                                     \<lparr>f_write_data := p_data\<rparr>) p_fal)))"

definition fal_erase :: "u16 \<Rightarrow> u32 \<Rightarrow> u32 \<Rightarrow> 'x fal option \<Rightarrow> fal_result \<times> 'x fal option" where
  "fal_erase zone_id offset len p_fal =
     (case request_validate p_fal zone_id offset len PERMISSION_ERASE of
        Inl result \<Rightarrow> (result, p_fal)
      | Inr (z, d, device_offset) \<Rightarrow>
          if len = 0 then (FAL_SUCCESS, map_option (\<lambda>f. f\<lparr>f_result := FAL_SUCCESS\<rparr>) p_fal)
          else
            (let block = d_erase_block_size d;
                 requested_end = offset + len;
                 erase_offset = offset - offset mod block;
                 erase_end = (if requested_end mod block \<noteq> 0 then requested_end + (block - requested_end mod block)
                              else requested_end)
             in if erase_end > z_size z then (FAL_OUT_OF_RANGE, p_fal)
                else (FAL_IN_PROGRESS,
                      map_option (request_begin d OPERATION_ERASE STATE_ERASE (device_offset + erase_offset)
                                    (erase_end - erase_offset)) p_fal)))"

text \<open>\<open>p_info\<close>: the destination is not NULL; \<open>Inr\<close> is what is stored there.\<close>

definition fal_zone_info_get :: "u16 \<Rightarrow> bool \<Rightarrow> 'x fal option \<Rightarrow> fal_result + fal_zone_info" where
  "fal_zone_info_get zone_id p_info p_fal =
     (case p_fal of
        None \<Rightarrow> Inl FAL_INVALID_ARGUMENT
      | Some f \<Rightarrow>
          if \<not> p_info then Inl FAL_INVALID_ARGUMENT
          else
          (case f_cfg f of
             None \<Rightarrow> Inl FAL_CONFIG_ERROR
           | Some cfg \<Rightarrow>
               (case zone_find (the cfg) zone_id of
                  None \<Rightarrow> Inl FAL_INVALID_ARGUMENT
                | Some (z, d, device_offset) \<Rightarrow>
                    Inr \<lparr>i_zone_id = z_zone_id z, i_device_id = d_device_id d, i_size = z_size z,
                         i_program_page_size = d_program_page_size d, i_erase_block_size = d_erase_block_size d,
                         i_permissions = z_permissions z\<rparr>)))"

section \<open>The polled state machine\<close>

definition read_chunk_get :: "'x fal \<Rightarrow> 'x fal_device_cfg \<Rightarrow> u32" where
  "read_chunk_get f d =
     (if d_max_read_size d \<noteq> 0 \<and> f_remaining f > d_max_read_size d then d_max_read_size d else f_remaining f)"

definition write_chunk_get :: "'x fal \<Rightarrow> 'x fal_device_cfg \<Rightarrow> u32" where
  "write_chunk_get f d =
     (let page_offset = f_physical_address f mod d_program_page_size d;
          page_available = d_program_page_size d - page_offset
      in if f_remaining f < page_available then f_remaining f else page_available)"

text \<open>One chunk handed to the driver: its result, the instance, the platform and the call.\<close>

definition operation_issue :: "'x fal_device_cfg \<Rightarrow> 'x fal \<Rightarrow> 'x \<Rightarrow> fal_result \<times> 'x fal \<times> 'x \<times> flash_call list" where
  "operation_issue d f x =
     (let ops = d_ops d; address = f_physical_address f;
          submit = (\<lambda>chunk (result, x1) call.
            (result,
             if result = FAL_SUCCESS then f\<lparr>f_chunk_length := chunk, f_state := STATE_WAIT_DEVICE\<rparr> else f,
             x1, [call]))
      in case f_operation f of
           OPERATION_READ \<Rightarrow>
             (let chunk = read_chunk_get f d
              in submit chunk (the (p_read ops) x address chunk (f_read_data f))
                   (Flash_Read (d_device_id d) address chunk (f_read_data f)))
         | OPERATION_WRITE \<Rightarrow>
             (let chunk = write_chunk_get f d
              in submit chunk (the (p_program ops) x address chunk (f_write_data f))
                   (Flash_Program (d_device_id d) address chunk (f_write_data f)))
         | OPERATION_ERASE \<Rightarrow>
             (let chunk = d_erase_block_size d
              in submit chunk (the (p_erase ops) x address chunk) (Flash_Erase (d_device_id d) address chunk))
         | OPERATION_NONE \<Rightarrow> (FAL_CONFIG_ERROR, f, x, []))"

definition completed_chunk_commit :: "'x fal \<Rightarrow> 'x fal" where
  "completed_chunk_commit f =
     (let n = f_chunk_length f;
          g = f\<lparr>f_physical_address := f_physical_address f + n, f_remaining := f_remaining f - n\<rparr>;
          h = (case f_operation f of
                 OPERATION_READ \<Rightarrow> g\<lparr>f_read_data := map_option (\<lambda>p. p + unat n) (f_read_data f)\<rparr>
               | OPERATION_WRITE \<Rightarrow> g\<lparr>f_write_data := map_option (\<lambda>p. p + unat n) (f_write_data f)\<rparr>
               | _ \<Rightarrow> g)
      in h\<lparr>f_chunk_length := 0\<rparr>)"

definition operation_complete_or_sync ::
  "'x fal_device_cfg \<Rightarrow> 'x fal \<Rightarrow> 'x \<Rightarrow> 'x fal \<times> 'x \<times> flash_call list" where
  "operation_complete_or_sync d f x =
     (case p_sync (d_ops d) of
        None \<Rightarrow> (operation_finish FAL_SUCCESS f, x, [])
      | Some sync \<Rightarrow>
          if f_sync_issued f then (operation_finish FAL_SUCCESS f, x, [])
          else
            (case sync x of
               (result, x1) \<Rightarrow>
                 (if result \<noteq> FAL_SUCCESS then operation_finish FAL_DRIVER_ERROR f
                  else f\<lparr>f_sync_issued := True, f_chunk_length := 0, f_state := STATE_WAIT_DEVICE\<rparr>,
                  x1, [Flash_Sync (d_device_id d)])))"

definition device_process :: "'x fal_device_cfg \<Rightarrow> 'x fal \<Rightarrow> 'x \<Rightarrow> 'x fal \<times> 'x \<times> flash_call list" where
  "device_process d f x =
     (case the (p_get_state (d_ops d)) x of
        (device_state, x1) \<Rightarrow>
          if device_state = DEVICE_ERROR then (operation_finish FAL_DRIVER_ERROR f, x1, [])
          else if f_state f = STATE_WAIT_DEVICE then
            (if device_state = DEVICE_BUSY then (f, x1, [])
             else if f_chunk_length f \<noteq> 0 then
               (let g = completed_chunk_commit f
                in if f_remaining g = 0 then operation_complete_or_sync d g x1
                   else (g\<lparr>f_state := f_operation_state g\<rparr>, x1, []))
             else if f_sync_issued f then (operation_finish FAL_SUCCESS f, x1, [])
             else (operation_finish FAL_CONFIG_ERROR f, x1, []))
          else if device_state = DEVICE_BUSY then (f, x1, [])
          else
            (case operation_issue d f x1 of
               (result, g, x2, calls) \<Rightarrow>
                 (if result \<noteq> FAL_SUCCESS then operation_finish FAL_DRIVER_ERROR g else g, x2, calls)))"

definition fal_process :: "'x fal option \<Rightarrow> 'x \<Rightarrow> 'x fal option \<times> 'x \<times> flash_call list" where
  "fal_process p_fal x =
     (case p_fal of
        None \<Rightarrow> (None, x, [])
      | Some f \<Rightarrow>
          if f_cfg f = None \<or> f_operation f = OPERATION_NONE then (Some f, x, [])
          else
            (case List.find (\<lambda>d. d_device_id d = f_active_device_id f) (the (the (f_cfg f))) of
               None \<Rightarrow> (Some (operation_finish FAL_CONFIG_ERROR f), x, [])
             | Some d \<Rightarrow> (case device_process d f x of (g, x1, calls) \<Rightarrow> (Some g, x1, calls))))"

section \<open>Mounting, stopping, observing\<close>

definition fal_zeroed :: "'x fal" where
  "fal_zeroed =
     \<lparr>f_cfg = None, f_read_data = None, f_write_data = None, f_physical_address = 0, f_remaining = 0,
      f_chunk_length = 0, f_active_device_id = 0, f_state = STATE_UNINITIALIZED, f_operation_state = STATE_UNINITIALIZED,
      f_operation = OPERATION_NONE, f_result = FAL_SUCCESS, f_stop_requested = False, f_sync_issued = False\<rparr>"

text \<open>The first failure of a list of checks.\<close>

definition first_failure :: "fal_result list \<Rightarrow> fal_result" where
  "first_failure rs = (case List.find (\<lambda>r. r \<noteq> FAL_SUCCESS) rs of None \<Rightarrow> FAL_SUCCESS | Some r \<Rightarrow> r)"

definition cfg_validate :: "'x fal_device_cfg list \<Rightarrow> fal_result" where
  "cfg_validate ds =
     first_failure
       (map (device_validate ds) [0..<length ds]
        @ concat (map (\<lambda>index. map (zone_validate ds index) [0..<length (zones (ds ! index))]) [0..<length ds]))"

fun devices_init :: "'x fal_device_cfg list \<Rightarrow> 'x \<Rightarrow> fal_result \<times> 'x \<times> flash_call list" where
  "devices_init [] x = (FAL_SUCCESS, x, [])"
| "devices_init (d # ds) x =
     (case the (p_init (d_ops d)) x of
        (result, x1) \<Rightarrow>
          if result \<noteq> FAL_SUCCESS then (FAL_DRIVER_ERROR, x1, [Flash_Init (d_device_id d)])
          else (case devices_init ds x1 of (r, x2, calls) \<Rightarrow> (r, x2, Flash_Init (d_device_id d) # calls)))"

definition fal_init ::
  "'x fal option \<Rightarrow> 'x fal_cfg option \<Rightarrow> 'x \<Rightarrow> fal_result \<times> 'x fal option \<times> 'x \<times> flash_call list" where
  "fal_init p_fal p_cfg x =
     (if p_fal = None then (FAL_INVALID_ARGUMENT, None, x, [])
      else
        (let f = fal_zeroed\<lparr>f_result := FAL_CONFIG_ERROR\<rparr>; failed = f\<lparr>f_state := STATE_ERROR\<rparr>
         in case Option.bind p_cfg (\<lambda>cfg. cfg) of
              None \<Rightarrow> (FAL_CONFIG_ERROR, Some failed, x, [])
            | Some ds \<Rightarrow>
                if ds = [] then (FAL_CONFIG_ERROR, Some failed, x, [])
                else if cfg_validate ds \<noteq> FAL_SUCCESS then (cfg_validate ds, Some failed, x, [])
                else
                  (case devices_init ds x of
                     (result, x1, calls) \<Rightarrow>
                       if result \<noteq> FAL_SUCCESS then
                         (FAL_DRIVER_ERROR, Some (failed\<lparr>f_result := FAL_DRIVER_ERROR\<rparr>), x1, calls)
                       else (FAL_SUCCESS,
                             Some (f\<lparr>f_cfg := p_cfg, f_state := STATE_IDLE, f_operation_state := STATE_IDLE,
                                     f_result := FAL_SUCCESS\<rparr>), x1, calls))))"

definition fal_state_get :: "'x fal option \<Rightarrow> fal_state" where
  "fal_state_get p_fal = (case p_fal of None \<Rightarrow> STATE_ERROR | Some f \<Rightarrow> f_state f)"

definition fal_result_get :: "'x fal option \<Rightarrow> fal_result" where
  "fal_result_get p_fal = (case p_fal of None \<Rightarrow> FAL_INVALID_ARGUMENT | Some f \<Rightarrow> f_result f)"

definition fal_is_stopped :: "'x fal option \<Rightarrow> bool" where
  "fal_is_stopped p_fal = (case p_fal of None \<Rightarrow> False | Some f \<Rightarrow> f_state f = STATE_STOPPED)"

definition fal_stop_request :: "'x fal option \<Rightarrow> fal_result \<times> 'x fal option" where
  "fal_stop_request p_fal =
     (case p_fal of
        None \<Rightarrow> (FAL_INVALID_ARGUMENT, None)
      | Some f \<Rightarrow>
          if f_state f = STATE_UNINITIALIZED \<or> f_state f = STATE_ERROR then (FAL_CONFIG_ERROR, Some f)
          else
            (let g = f\<lparr>f_stop_requested := True\<rparr>
             in (FAL_SUCCESS, Some (if \<not> fal_is_busy (Some g) then g\<lparr>f_state := STATE_STOPPED\<rparr> else g))))"

section \<open>The runtime\<close>

text \<open>Instances and configurations, paired; a NULL array is \<open>None\<close>.\<close>

record 'x fal_runtime =
  rt_instances :: "'x fal list option"
  rt_configs :: "'x fal_cfg list option"
  rt_instance_count :: nat

definition runtime_valid :: "'x fal_runtime option \<Rightarrow> bool" where
  "runtime_valid p_runtime =
     (case p_runtime of
        None \<Rightarrow> False
      | Some rt \<Rightarrow> \<not> (rt_instances rt = None \<or> rt_configs rt = None \<or> rt_instance_count rt = 0))"

definition fal_runtime_mount ::
  "'x fal_runtime option \<Rightarrow> nat \<Rightarrow> 'x \<Rightarrow> fal_result \<times> 'x fal_runtime option \<times> 'x \<times> flash_call list" where
  "fal_runtime_mount p_runtime instance_index x =
     (if \<not> runtime_valid p_runtime then (FAL_INVALID_ARGUMENT, p_runtime, x, [])
      else
        (let rt = the p_runtime; fs = the (rt_instances rt)
         in if instance_index \<ge> rt_instance_count rt then (FAL_INVALID_ARGUMENT, p_runtime, x, [])
            else if fal_is_busy (Some (fs ! instance_index)) then (FAL_BUSY, p_runtime, x, [])
            else
              (case fal_init (Some (fs ! instance_index)) (Some (the (rt_configs rt) ! instance_index)) x of
                 (result, f, x1, calls) \<Rightarrow>
                   (result, Some (rt\<lparr>rt_instances := Some (fs[instance_index := the f])\<rparr>), x1, calls))))"

fun mount_from ::
  "nat \<Rightarrow> nat \<Rightarrow> fal_result \<Rightarrow> 'x fal_runtime option \<Rightarrow> 'x \<Rightarrow> fal_result \<times> 'x fal_runtime option \<times> 'x \<times> flash_call list" where
  "mount_from index 0 first_error p_runtime x = (first_error, p_runtime, x, [])"
| "mount_from index (Suc n) first_error p_runtime x =
     (case fal_runtime_mount p_runtime index x of
        (result, p_runtime1, x1, calls) \<Rightarrow>
          (case mount_from (Suc index) n
                  (if first_error = FAL_SUCCESS \<and> result \<noteq> FAL_SUCCESS then result else first_error) p_runtime1 x1 of
             (r, p_runtime2, x2, calls') \<Rightarrow> (r, p_runtime2, x2, calls @ calls')))"

definition fal_runtime_init ::
  "'x fal_runtime option \<Rightarrow> 'x \<Rightarrow> fal_result \<times> 'x fal_runtime option \<times> 'x \<times> flash_call list" where
  "fal_runtime_init p_runtime x =
     (if \<not> runtime_valid p_runtime then (FAL_INVALID_ARGUMENT, p_runtime, x, [])
      else
        (let rt = the p_runtime
         in if \<exists>index \<in> {0..<rt_instance_count rt}. fal_is_busy (Some (the (rt_instances rt) ! index))
            then (FAL_BUSY, p_runtime, x, [])
            else mount_from 0 (rt_instance_count rt) FAL_SUCCESS p_runtime x))"

fun process_from :: "nat \<Rightarrow> nat \<Rightarrow> 'x fal list \<Rightarrow> 'x \<Rightarrow> 'x fal list \<times> 'x \<times> flash_call list" where
  "process_from index 0 fs x = (fs, x, [])"
| "process_from index (Suc n) fs x =
     (case fal_process (Some (fs ! index)) x of
        (f, x1, calls) \<Rightarrow>
          (case process_from (Suc index) n (fs[index := the f]) x1 of (fs', x2, calls') \<Rightarrow> (fs', x2, calls @ calls')))"

definition fal_runtime_process ::
  "'x fal_runtime option \<Rightarrow> 'x \<Rightarrow> fal_result \<times> 'x fal_runtime option \<times> 'x \<times> flash_call list" where
  "fal_runtime_process p_runtime x =
     (if \<not> runtime_valid p_runtime then (FAL_INVALID_ARGUMENT, p_runtime, x, [])
      else
        (let rt = the p_runtime
         in case process_from 0 (rt_instance_count rt) (the (rt_instances rt)) x of
              (fs, x1, calls) \<Rightarrow> (FAL_SUCCESS, Some (rt\<lparr>rt_instances := Some fs\<rparr>), x1, calls)))"

end
