(* ===== verification/Fal_Layout.thy ===== *)
theory Fal_Layout
  imports Fal_Core
begin

text \<open>
  What a mounted configuration of code/lib/fal/fal_core.c looks like: the declarative layout
  that \<open>cfg_validate\<close> decides (zones whose sizes sum up to at most the capacity, whole erase
  blocks, unique identifiers, every mandatory callback present) and the zone lookup over it.
  Addresses are natural numbers here; the lemmas tie them to the 32-bit sums of the code.
\<close>

named_theorems fal_simps \<open>results and bounds of the flash abstraction layer\<close>

section \<open>The layout\<close>

definition zone_sizes :: "'x fal_device_cfg \<Rightarrow> nat list" where
  "zone_sizes d = map (\<lambda>z. unat (z_size z)) (zones d)"

text \<open>The address at which zone \<open>i\<close> of a device begins.\<close>

definition zone_start :: "'x fal_device_cfg \<Rightarrow> nat \<Rightarrow> nat" where
  "zone_start d i = sum_list (take i (zone_sizes d))"

definition zone_ok :: "'x fal_device_cfg \<Rightarrow> fal_zone_cfg \<Rightarrow> bool" where
  "zone_ok d z \<longleftrightarrow>
     0 < unat (z_size z) \<and> unat (d_erase_block_size d) dvd unat (z_size z)
     \<and> z_permissions z \<noteq> 0 \<and> z_permissions z AND NOT PERMISSION_ALL = 0"

definition driver_complete :: "'x fal_flash_ops \<Rightarrow> bool" where
  "driver_complete ops \<longleftrightarrow>
     p_init ops \<noteq> None \<and> p_get_state ops \<noteq> None \<and> p_read ops \<noteq> None \<and> p_program ops \<noteq> None \<and> p_erase ops \<noteq> None"

definition geometry_ok :: "'x fal_device_cfg \<Rightarrow> bool" where
  "geometry_ok d \<longleftrightarrow>
     0 < unat (d_program_page_size d) \<and> unat (d_program_page_size d) \<le> unat (d_capacity d)
     \<and> 0 < unat (d_erase_block_size d) \<and> unat (d_erase_block_size d) \<le> unat (d_capacity d)
     \<and> (unat (d_program_unit_size d) \<noteq> 0 \<longrightarrow>
          unat (d_program_unit_size d) dvd unat (d_program_page_size d)
          \<and> unat (d_program_unit_size d) dvd unat (d_erase_block_size d))"

definition device_ok :: "'x fal_device_cfg \<Rightarrow> bool" where
  "device_ok d \<longleftrightarrow>
     geometry_ok d \<and> driver_complete (d_ops d) \<and> zones d \<noteq> []
     \<and> (\<forall>z \<in> set (zones d). zone_ok d z) \<and> sum_list (zone_sizes d) \<le> unat (d_capacity d)"

definition zone_ids_unique :: "'x fal_device_cfg list \<Rightarrow> bool" where
  "zone_ids_unique ds \<longleftrightarrow>
     (\<forall>i < length ds. \<forall>j < length (zones (ds ! i)). \<forall>i' < length ds. \<forall>j' < length (zones (ds ! i')).
        z_zone_id (zones (ds ! i) ! j) = z_zone_id (zones (ds ! i') ! j') \<longrightarrow> i = i' \<and> j = j')"

definition layout_ok :: "'x fal_device_cfg list \<Rightarrow> bool" where
  "layout_ok ds \<longleftrightarrow> (\<forall>d \<in> set ds. device_ok d) \<and> distinct (map d_device_id ds) \<and> zone_ids_unique ds"

section \<open>Sums of zone sizes\<close>

lemma zone_start_Suc [simp]:
  "i < length (zones d) \<Longrightarrow> zone_start d (Suc i) = zone_start d i + unat (z_size (zones d ! i))"
  by (simp add: zone_start_def zone_sizes_def take_Suc_conv_app_nth)

lemma zone_start_0 [simp]: "zone_start d 0 = 0"
  by (simp add: zone_start_def)

lemma zone_start_all: "length (zones d) \<le> i \<Longrightarrow> zone_start d i = sum_list (zone_sizes d)"
  by (simp add: zone_start_def zone_sizes_def)

lemma zone_start_mono: "i \<le> j \<Longrightarrow> zone_start d i \<le> zone_start d j"
proof -
  assume "i \<le> j"
  then have "take j (zone_sizes d) = take i (zone_sizes d) @ take (j - i) (drop i (zone_sizes d))"
    using take_add [of i "j - i"] by simp
  then show ?thesis by (simp add: zone_start_def)
qed

lemma zone_start_le: "zone_start d i \<le> sum_list (zone_sizes d)"
proof -
  have "zone_start d i \<le> zone_start d (max i (length (zones d)))" by (rule zone_start_mono) simp
  also have "\<dots> = sum_list (zone_sizes d)" by (rule zone_start_all) simp
  finally show ?thesis .
qed

lemma zone_end_le:
  "i < length (zones d) \<Longrightarrow> zone_start d i + unat (z_size (zones d ! i)) \<le> sum_list (zone_sizes d)"
  using zone_start_le [of d "Suc i"] by simp

lemma zone_start_dvd:
  assumes "\<forall>z \<in> set (zones d). zone_ok d z" and "i \<le> length (zones d)"
  shows "unat (d_erase_block_size d) dvd zone_start d i"
  using assms(2) by (induction i) (use assms(1) in \<open>simp_all add: zone_ok_def\<close>)

lemma unat_mod_eq_0: "(x :: 'a::len word) mod y = 0 \<longleftrightarrow> unat y dvd unat x"
  by (metis dvd_eq_mod_eq_0 unat_0 unat_eq_zero unat_mod_distrib)

text \<open>The code's running 32-bit sum, without overflow while it stays below the capacity.\<close>

lemma preceding_offset_sum:
  assumes "off \<le> cap"
  shows "preceding_offset cap off zs =
    (if unat off + sum_list (map (\<lambda>z. unat (z_size z)) zs) \<le> unat cap
     then Some (off + of_nat (sum_list (map (\<lambda>z. unat (z_size z)) zs))) else None)"
  using assms
proof (induction zs arbitrary: off)
  case (Cons z zs)
  show ?case
  proof (cases "z_size z > cap - off")
    case True
    then have "unat cap - unat off < unat (z_size z)"
      using Cons.prems by (simp add: word_less_nat_alt unat_sub)
    then show ?thesis using True by simp
  next
    case False
    then have le: "unat off + unat (z_size z) \<le> unat cap"
      using Cons.prems by (simp add: word_less_nat_alt word_le_nat_alt unat_sub)
    then have s: "unat (off + z_size z) = unat off + unat (z_size z)"
      by (intro unat_add_lem [THEN iffD1] le_less_trans [OF le unsigned_less])
    then have "off + z_size z \<le> cap" using le by (simp add: word_le_nat_alt)
    then show ?thesis using Cons.IH [of "off + z_size z"] False s by (simp add: add.assoc)
  qed
qed (simp add: word_le_nat_alt)

lemma preceding_offset_start:
  "preceding_offset (d_capacity d) 0 (take i (zones d)) =
    (if zone_start d i \<le> unat (d_capacity d) then Some (of_nat (zone_start d i)) else None)"
  using preceding_offset_sum [of 0 "d_capacity d" "take i (zones d)"]
  by (simp add: zone_start_def zone_sizes_def take_map)

lemma unat_zone_start:
  "zone_start d i \<le> unat (c :: u32) \<Longrightarrow> unat (of_nat (zone_start d i) :: u32) = zone_start d i"
  using unat_u32_less [of c] by (simp add: unat_of_nat)

section \<open>What the validation decides\<close>

lemma first_failure_SUCCESS: "first_failure rs = FAL_SUCCESS \<longleftrightarrow> (\<forall>r \<in> set rs. r = FAL_SUCCESS)"
  by (induction rs) (auto simp: first_failure_def)

lemma device_validate_SUCCESS:
  "device_validate ds i = FAL_SUCCESS \<longleftrightarrow>
    geometry_ok (ds ! i) \<and> driver_complete (d_ops (ds ! i)) \<and> zones (ds ! i) \<noteq> []
    \<and> (\<forall>j < i. d_device_id (ds ! j) \<noteq> d_device_id (ds ! i))"
proof -
  have z: "zones d \<noteq> [] \<Longrightarrow> d_zones d \<noteq> None" for d :: "'a fal_device_cfg" by (cases "d_zones d") (auto simp: zones_def)
  show ?thesis
    using z [of "ds ! i"]
    by (auto simp: device_validate_def geometry_ok_def driver_complete_def Let_def unat_mod_eq_0 word_less_nat_alt
        not_less unat_gt_0 unat_eq_zero)
qed

lemma zone_validate_SUCCESS:
  assumes "unat (d_erase_block_size (ds ! i)) \<noteq> 0"
  shows "zone_validate ds i j = FAL_SUCCESS \<longleftrightarrow>
    (let d = ds ! i; z = zones d ! j
     in zone_start d j + unat (z_size z) \<le> unat (d_capacity d) \<and> zone_ok d z
        \<and> unat (d_erase_block_size d) dvd zone_start d j \<and> \<not> zone_id_is_duplicate ds i j)"
proof (cases "zone_start (ds ! i) j \<le> unat (d_capacity (ds ! i))")
  case True
  let ?d = "ds ! i"
  have s: "unat (of_nat (zone_start ?d j) :: u32) = zone_start ?d j" by (rule unat_zone_start [OF True])
  then have le: "of_nat (zone_start ?d j) \<le> d_capacity ?d" using True by (simp add: word_le_nat_alt)
  have "z_size z > d_capacity ?d - of_nat (zone_start ?d j)
      \<longleftrightarrow> \<not> zone_start ?d j + unat (z_size z) \<le> unat (d_capacity ?d)" for z
    using True by (auto simp: word_less_nat_alt unat_sub [OF le] s)
  then show ?thesis
    using True s
    by (auto simp: zone_validate_def Let_def preceding_offset_start zone_ok_def unat_mod_eq_0 unat_gt_0)
next
  case False
  then show ?thesis by (simp add: zone_validate_def Let_def preceding_offset_start)
qed

lemma zone_id_is_duplicate_iff:
  "zone_id_is_duplicate ds i j \<longleftrightarrow>
    (\<exists>i' j'. (i' < i \<and> j' < length (zones (ds ! i')) \<or> i' = i \<and> j' < j)
       \<and> z_zone_id (zones (ds ! i') ! j') = z_zone_id (zones (ds ! i) ! j))"
proof -
  have "zone_id_is_duplicate ds i j \<longleftrightarrow>
      (\<exists>i' j'. (i' \<le> i \<and> j' < (if i' = i then j else length (zones (ds ! i'))))
         \<and> z_zone_id (zones (ds ! i') ! j') = z_zone_id (zones (ds ! i) ! j))"
    by (simp only: zone_id_is_duplicate_def Let_def Bex_def atLeastAtMost_iff atLeastLessThan_iff le0 simp_thms
        ex_simps conj_assoc)
  moreover have "i' \<le> i \<and> j' < (if i' = i then j else n) \<longleftrightarrow> i' < i \<and> j' < n \<or> i' = i \<and> j' < j" for i' j' n
    by auto
  ultimately show ?thesis by simp
qed

lemma zone_ids_unique_iff:
  "zone_ids_unique ds \<longleftrightarrow>
    (\<forall>i < length ds. \<forall>j < length (zones (ds ! i)). \<not> zone_id_is_duplicate ds i j)"
proof
  assume u: "zone_ids_unique ds"
  show "\<forall>i < length ds. \<forall>j < length (zones (ds ! i)). \<not> zone_id_is_duplicate ds i j"
  proof (intro allI impI notI)
    fix i j
    assume i: "i < length ds" "j < length (zones (ds ! i))" and "zone_id_is_duplicate ds i j"
    then obtain i' j' where b: "i' < i \<and> j' < length (zones (ds ! i')) \<or> i' = i \<and> j' < j"
      and e: "z_zone_id (zones (ds ! i') ! j') = z_zone_id (zones (ds ! i) ! j)"
      unfolding zone_id_is_duplicate_iff by blast
    have "i' < length ds" "j' < length (zones (ds ! i'))" using b i by auto
    then have "i' = i \<and> j' = j" using u i e unfolding zone_ids_unique_def by blast
    then show False using b by simp
  qed
next
  assume a: "\<forall>i < length ds. \<forall>j < length (zones (ds ! i)). \<not> zone_id_is_duplicate ds i j"
  show "zone_ids_unique ds"
    unfolding zone_ids_unique_def
  proof (intro allI impI)
    fix i j i' j'
    assume i: "i < length ds" "j < length (zones (ds ! i))" and i': "i' < length ds" "j' < length (zones (ds ! i'))"
      and eq: "z_zone_id (zones (ds ! i) ! j) = z_zone_id (zones (ds ! i') ! j')"
    have "\<not> (i' < i \<and> j' < length (zones (ds ! i')) \<or> i' = i \<and> j' < j)"
      using a [rule_format, OF i] eq unfolding zone_id_is_duplicate_iff by metis
    moreover have "\<not> (i < i' \<and> j < length (zones (ds ! i)) \<or> i = i' \<and> j < j')"
      using a [rule_format, OF i'] eq unfolding zone_id_is_duplicate_iff by metis
    ultimately have "\<not> (i' < i \<or> i' = i \<and> j' < j)" "\<not> (i < i' \<or> i = i' \<and> j < j')" using i i' by blast+
    then show "i = i' \<and> j = j'" by linarith
  qed
qed

lemma distinct_device_ids:
  "distinct (map d_device_id ds) \<longleftrightarrow> (\<forall>i < length ds. \<forall>j < i. d_device_id (ds ! j) \<noteq> d_device_id (ds ! i))"
proof -
  have "distinct xs \<longleftrightarrow> (\<forall>i < length xs. \<forall>j < i. xs ! j \<noteq> xs ! i)" for xs :: "u16 list"
    unfolding distinct_conv_nth
  proof (intro iffI allI impI)
    fix i j
    assume a: "\<forall>i < length xs. \<forall>j < i. xs ! j \<noteq> xs ! i" and i: "i < length xs" "j < length xs" "i \<noteq> j"
    then consider "i < j" | "j < i" by linarith
    then show "xs ! i \<noteq> xs ! j" using a i by cases (blast, metis)
  qed simp
  from this [of "map d_device_id ds"] show ?thesis by simp
qed

lemma zones_fit_iff:
  assumes "zones d \<noteq> []" and "\<forall>z \<in> set (zones d). zone_ok d z"
  shows "(\<forall>j < length (zones d). zone_start d j + unat (z_size (zones d ! j)) \<le> unat (d_capacity d))
    \<longleftrightarrow> sum_list (zone_sizes d) \<le> unat (d_capacity d)"
    (is "?l \<longleftrightarrow> ?r")
proof -
  have "zone_start d (length (zones d) - 1) + unat (z_size (zones d ! (length (zones d) - 1))) = sum_list (zone_sizes d)"
    using zone_start_Suc [of "length (zones d) - 1" d] zone_start_all [of d "length (zones d)"] assms(1) by simp
  moreover have "length (zones d) - 1 < length (zones d)" using assms(1) by simp
  ultimately have "?l \<Longrightarrow> ?r" by metis
  moreover have "?l" if ?r using zone_end_le [of _ d] that le_trans by blast
  ultimately show ?thesis by blast
qed

lemma device_zones_ok:
  assumes g: "geometry_ok (ds ! i)" and n: "zones (ds ! i) \<noteq> []"
  shows "(\<forall>j < length (zones (ds ! i)). zone_validate ds i j = FAL_SUCCESS) \<longleftrightarrow>
    (\<forall>z \<in> set (zones (ds ! i)). zone_ok (ds ! i) z)
    \<and> sum_list (zone_sizes (ds ! i)) \<le> unat (d_capacity (ds ! i))
    \<and> (\<forall>j < length (zones (ds ! i)). \<not> zone_id_is_duplicate ds i j)"
    (is "?l \<longleftrightarrow> ?z \<and> ?s \<and> ?u")
proof -
  have b: "unat (d_erase_block_size (ds ! i)) \<noteq> 0" using g by (simp add: geometry_ok_def)
  note v = zone_validate_SUCCESS [OF b, unfolded Let_def]
  have "?l \<longrightarrow> ?z" by (auto simp: v set_conv_nth)
  moreover have "?z \<Longrightarrow> ?l \<longleftrightarrow> ?s \<and> ?u"
    using zone_start_dvd [of "ds ! i"] zones_fit_iff [OF n] by (auto simp: v)
  ultimately show ?thesis by blast
qed

lemma cfg_validate_iff: "cfg_validate ds = FAL_SUCCESS \<longleftrightarrow> layout_ok ds"
proof -
  let ?dev = "\<lambda>i. device_validate ds i = FAL_SUCCESS"
  let ?zon = "\<lambda>i. \<forall>j < length (zones (ds ! i)). zone_validate ds i j = FAL_SUCCESS"
  have "cfg_validate ds = FAL_SUCCESS \<longleftrightarrow> (\<forall>i < length ds. ?dev i) \<and> (\<forall>i < length ds. ?zon i)"
    by (simp add: cfg_validate_def first_failure_SUCCESS ball_Un atLeast0LessThan) blast
  also have "\<dots> \<longleftrightarrow> (\<forall>i < length ds. ?dev i \<and> ?zon i)" by blast
  also have "\<dots> \<longleftrightarrow> (\<forall>i < length ds. device_ok (ds ! i) \<and> (\<forall>j < i. d_device_id (ds ! j) \<noteq> d_device_id (ds ! i))
      \<and> (\<forall>j < length (zones (ds ! i)). \<not> zone_id_is_duplicate ds i j))"
  proof -
    have "?dev i \<and> ?zon i \<longleftrightarrow> device_ok (ds ! i) \<and> (\<forall>j < i. d_device_id (ds ! j) \<noteq> d_device_id (ds ! i))
        \<and> (\<forall>j < length (zones (ds ! i)). \<not> zone_id_is_duplicate ds i j)" for i
      using device_zones_ok [of ds i] unfolding device_validate_SUCCESS device_ok_def by blast
    then show ?thesis by simp
  qed
  also have "\<dots> \<longleftrightarrow> layout_ok ds"
    unfolding layout_ok_def distinct_device_ids zone_ids_unique_iff all_set_conv_all_nth by blast
  finally show ?thesis .
qed

end
