(* ===== verification/Fal_Transfer.thy ===== *)
theory Fal_Transfer
  imports Fal_Layout
begin

text \<open>
  The requests of code/lib/fal/fal_core.c in motion: the zone lookup over a valid layout, the
  invariant of an instance between two API calls, the steps of the API as a labelled relation
  (the label is what the driver was asked to do), and the measure by which a request on a
  responsive driver comes to its end.
\<close>

section \<open>Finding a zone\<close>

text \<open>Zone \<open>z\<close> lies on device \<open>d\<close> of the configuration and begins at address \<open>off\<close>.\<close>

definition zone_at :: "'x fal_device_cfg list \<Rightarrow> fal_zone_cfg \<Rightarrow> 'x fal_device_cfg \<Rightarrow> u32 \<Rightarrow> bool" where
  "zone_at ds z d off \<longleftrightarrow>
     (\<exists>i < length ds. \<exists>j < length (zones (ds ! i)). d = ds ! i \<and> z = zones d ! j \<and> unat off = zone_start d j)"

lemma layout_okD:
  assumes "layout_ok ds" "d \<in> set ds"
  shows "device_ok d" "geometry_ok d" "driver_complete (d_ops d)" "\<And>i. zone_start d i \<le> unat (d_capacity d)"
    "\<And>z. z \<in> set (zones d) \<Longrightarrow> zone_ok d z" "sum_list (zone_sizes d) \<le> unat (d_capacity d)"
  using assms zone_start_le [of d] unfolding layout_ok_def device_ok_def by (auto intro: order_trans)

lemma zone_scan_Some:
  "zone_scan zid off zs = Some (z, off') \<Longrightarrow>
    \<exists>j < length zs. z = zs ! j \<and> z_zone_id z = zid
      \<and> off' = off + of_nat (sum_list (map (\<lambda>z. unat (z_size z)) (take j zs)))"
proof (induction zs arbitrary: off)
  case (Cons y zs)
  show ?case
  proof (cases "z_zone_id y = zid")
    case False
    then obtain j where "j < length zs" "z = zs ! j" "z_zone_id z = zid"
      "off' = off + z_size y + of_nat (sum_list (map (\<lambda>z. unat (z_size z)) (take j zs)))"
      using Cons.IH [of "off + z_size y"] Cons.prems by auto
    then show ?thesis by (intro exI [of _ "Suc j"]) (simp add: add.assoc)
  qed (use Cons.prems in auto)
qed simp

lemma zone_scan_None: "zone_scan zid off zs = None \<longleftrightarrow> zid \<notin> z_zone_id ` set zs"
  by (induction zs arbitrary: off) auto

lemma zone_find_None: "zone_find ds zid = None \<longleftrightarrow> (\<forall>d \<in> set ds. zid \<notin> z_zone_id ` set (zones d))"
  by (induction ds) (auto simp flip: zone_scan_None [of _ 0] split: option.splits)

lemma zone_find_scan:
  "zone_find ds zid = Some (z, d, off) \<Longrightarrow> d \<in> set ds \<and> zone_scan zid 0 (zones d) = Some (z, off)"
  by (induction ds) (auto split: option.splits)

lemma zone_find_at:
  assumes "layout_ok ds" and "zone_find ds zid = Some (z, d, off)"
  shows "zone_at ds z d off" and "z_zone_id z = zid"
proof -
  obtain i where i: "i < length ds" "d = ds ! i"
    using zone_find_scan [OF assms(2)] by (auto simp: in_set_conv_nth)
  obtain j where j: "j < length (zones d)" "z = zones d ! j" "z_zone_id z = zid" "off = of_nat (zone_start d j)"
    using zone_scan_Some [of zid 0 "zones d" z off] zone_find_scan [OF assms(2)]
    by (auto simp: zone_start_def zone_sizes_def take_map)
  have "zone_start d j \<le> unat (d_capacity d)" using layout_okD(4) [OF assms(1)] i by simp
  then have "unat off = zone_start d j" using j(4) by (simp add: unat_zone_start)
  then show "zone_at ds z d off" "z_zone_id z = zid" using i j unfolding zone_at_def by blast+
qed

lemma zone_at_unique:
  assumes "layout_ok ds" "zone_at ds z d off" "zone_at ds z' d' off'" "z_zone_id z = z_zone_id z'"
  shows "z = z' \<and> d = d' \<and> off = off'"
proof -
  obtain i j where 1: "i < length ds" "j < length (zones (ds ! i))" "d = ds ! i" "z = zones d ! j"
    "unat off = zone_start d j" using assms(2) unfolding zone_at_def by blast
  obtain i' j' where 2: "i' < length ds" "j' < length (zones (ds ! i'))" "d' = ds ! i'" "z' = zones d' ! j'"
    "unat off' = zone_start d' j'" using assms(3) unfolding zone_at_def by blast
  have "i = i' \<and> j = j'" using assms(1,4) 1 2 unfolding layout_ok_def zone_ids_unique_def by blast
  then show ?thesis using 1 2 by (auto simp: word_unat_eq_iff)
qed

lemma zone_find_iff:
  assumes "layout_ok ds"
  shows "zone_find ds zid = Some (z, d, off) \<longleftrightarrow> zone_at ds z d off \<and> z_zone_id z = zid"
proof
  assume a: "zone_at ds z d off \<and> z_zone_id z = zid"
  then have "zone_find ds zid \<noteq> None" unfolding zone_find_None zone_at_def by (metis imageI nth_mem)
  then obtain z' d' off' where f: "zone_find ds zid = Some (z', d', off')" by auto
  then show "zone_find ds zid = Some (z, d, off)"
    using zone_at_unique [OF assms zone_find_at(1) [OF assms f], of z d off] zone_find_at(2) [OF assms f] a by auto
qed (use zone_find_at [OF assms] in blast)

section \<open>What the driver may be asked\<close>

definition operation_permission :: "fal_operation_type \<Rightarrow> u8" where
  "operation_permission op = (case op of OPERATION_READ \<Rightarrow> PERMISSION_READ | OPERATION_WRITE \<Rightarrow> PERMISSION_WRITE
     | OPERATION_ERASE \<Rightarrow> PERMISSION_ERASE | OPERATION_NONE \<Rightarrow> 0)"

definition in_zone :: "'x fal_device_cfg \<Rightarrow> fal_operation_type \<Rightarrow> nat \<Rightarrow> nat \<Rightarrow> bool" where
  "in_zone d op a n \<longleftrightarrow>
     (\<exists>j < length (zones d). z_permissions (zones d ! j) AND operation_permission op \<noteq> 0
        \<and> zone_start d j \<le> a \<and> a + n \<le> zone_start d j + unat (z_size (zones d ! j)))"

text \<open>The unit in which an operation moves.\<close>

definition granule :: "'x fal_device_cfg \<Rightarrow> fal_operation_type \<Rightarrow> nat" where
  "granule d op = (case op of
       OPERATION_WRITE \<Rightarrow> (if d_program_unit_size d = 0 then 1 else unat (d_program_unit_size d))
     | OPERATION_ERASE \<Rightarrow> unat (d_erase_block_size d)
     | _ \<Rightarrow> 1)"

definition chunk_ok :: "'x fal_device_cfg \<Rightarrow> fal_operation_type \<Rightarrow> nat \<Rightarrow> nat \<Rightarrow> bool" where
  "chunk_ok d op a n \<longleftrightarrow>
     0 < n \<and> in_zone d op a n \<and> granule d op dvd a \<and> granule d op dvd n
     \<and> (case op of
          OPERATION_READ \<Rightarrow> d_max_read_size d \<noteq> 0 \<longrightarrow> n \<le> unat (d_max_read_size d)
        | OPERATION_WRITE \<Rightarrow> a mod unat (d_program_page_size d) + n \<le> unat (d_program_page_size d)
        | _ \<Rightarrow> n = unat (d_erase_block_size d))"

definition call_ok :: "'x fal_device_cfg list \<Rightarrow> flash_call \<Rightarrow> bool" where
  "call_ok ds c \<longleftrightarrow>
     (\<exists>d \<in> set ds.
        (case c of
           Flash_Init dev \<Rightarrow> dev = d_device_id d
         | Flash_Sync dev \<Rightarrow> dev = d_device_id d
         | Flash_Read dev a n p \<Rightarrow> dev = d_device_id d \<and> chunk_ok d OPERATION_READ (unat a) (unat n)
         | Flash_Program dev a n p \<Rightarrow> dev = d_device_id d \<and> chunk_ok d OPERATION_WRITE (unat a) (unat n)
         | Flash_Erase dev a n \<Rightarrow> dev = d_device_id d \<and> chunk_ok d OPERATION_ERASE (unat a) (unat n)))"

section \<open>The invariant\<close>

definition state_of :: "fal_operation_type \<Rightarrow> fal_state" where
  "state_of op = (case op of OPERATION_READ \<Rightarrow> STATE_READ | OPERATION_WRITE \<Rightarrow> STATE_WRITE
     | OPERATION_ERASE \<Rightarrow> STATE_ERASE | OPERATION_NONE \<Rightarrow> STATE_IDLE)"

text \<open>The three situations of an accepted request: the next chunk is due, a chunk is at the
  device, the final synchronisation is at the device.\<close>

definition due :: "'x fal \<Rightarrow> bool" where
  "due f \<longleftrightarrow> f_state f = state_of (f_operation f) \<and> 0 < f_remaining f \<and> f_chunk_length f = 0 \<and> \<not> f_sync_issued f"

definition in_flight :: "'x fal \<Rightarrow> bool" where
  "in_flight f \<longleftrightarrow>
     f_state f = STATE_WAIT_DEVICE \<and> 0 < f_chunk_length f \<and> f_chunk_length f \<le> f_remaining f \<and> \<not> f_sync_issued f"

definition syncing :: "'x fal \<Rightarrow> bool" where
  "syncing f \<longleftrightarrow> f_state f = STATE_WAIT_DEVICE \<and> f_chunk_length f = 0 \<and> f_remaining f = 0 \<and> f_sync_issued f"

definition active_on :: "'x fal_device_cfg \<Rightarrow> 'x fal \<Rightarrow> bool" where
  "active_on d f \<longleftrightarrow>
     f_active_device_id f = d_device_id d \<and> f_operation f \<noteq> OPERATION_NONE
     \<and> f_operation_state f = state_of (f_operation f) \<and> f_result f = FAL_IN_PROGRESS
     \<and> in_zone d (f_operation f) (unat (f_physical_address f)) (unat (f_remaining f))
     \<and> granule d (f_operation f) dvd unat (f_physical_address f)
     \<and> granule d (f_operation f) dvd unat (f_remaining f)
     \<and> granule d (f_operation f) dvd unat (f_chunk_length f)
     \<and> (due f \<or> in_flight f \<or> syncing f)"

definition at_rest :: "'x fal \<Rightarrow> bool" where
  "at_rest f \<longleftrightarrow>
     f_operation f = OPERATION_NONE \<and> f_state f = (if f_stop_requested f then STATE_STOPPED else STATE_IDLE)
     \<and> (f_result f = FAL_SUCCESS \<or> f_result f = FAL_DRIVER_ERROR)"

definition fal_inv :: "'x fal_device_cfg list \<Rightarrow> 'x fal \<Rightarrow> bool" where
  "fal_inv ds f \<longleftrightarrow> f_cfg f = Some (Some ds) \<and> (at_rest f \<or> (\<exists>d \<in> set ds. active_on d f))"

lemma state_of_not_WAIT [simp]: "state_of op \<noteq> STATE_WAIT_DEVICE" "STATE_WAIT_DEVICE \<noteq> state_of op"
  by (cases op; simp add: state_of_def)+

lemma operation_finish_simps [simp]:
  "f_cfg (operation_finish r f) = f_cfg f"
  "f_operation (operation_finish r f) = OPERATION_NONE"
  "f_result (operation_finish r f) = r"
  "f_stop_requested (operation_finish r f) = f_stop_requested f"
  "f_state (operation_finish r f) = (if f_stop_requested f then STATE_STOPPED else STATE_IDLE)"
  by (simp_all add: operation_finish_def operation_clear_def)

lemma at_rest_finish [simp]: "r = FAL_SUCCESS \<or> r = FAL_DRIVER_ERROR \<Longrightarrow> at_rest (operation_finish r f)"
  by (simp add: at_rest_def)

section \<open>Accepting a request\<close>

lemma request_validate_Inr:
  assumes "layout_ok ds" "fal_inv ds f"
    and "request_validate (Some f) zid offset len perm = Inr (z, d, off)"
  shows "zone_at ds z d off" "z_zone_id z = zid" "z_permissions z AND perm \<noteq> 0"
    "unat offset + unat len \<le> unat (z_size z)" "at_rest f" "f_state f = STATE_IDLE" "d \<in> set ds"
proof -
  have c: "f_cfg f = Some (Some ds)" using assms(2) by (simp add: fal_inv_def)
  note v = assms(3) [unfolded request_validate_def fal_is_busy_def option.case c option.sel, simplified]
  have f: "zone_find ds zid = Some (z, d, off)" and p: "z_permissions z AND perm \<noteq> 0"
    and b: "\<not> offset > z_size z" "\<not> len > z_size z - offset" and o: "f_operation f = OPERATION_NONE"
    and s: "f_state f \<noteq> STATE_STOPPED"
    using v by (auto split: if_splits option.splits prod.splits)
  show "zone_at ds z d off" "z_zone_id z = zid" using zone_find_at [OF assms(1) f] by auto
  then show "d \<in> set ds" by (auto simp: zone_at_def)
  show "z_permissions z AND perm \<noteq> 0" by (rule p)
  show "unat offset + unat len \<le> unat (z_size z)"
    using b by (simp add: not_less word_le_nat_alt unat_sub)
  show r: "at_rest f" using assms(2) o by (auto simp: fal_inv_def active_on_def)
  then show "f_state f = STATE_IDLE" using s by (auto simp: at_rest_def split: if_splits)
qed

text \<open>A piece of a zone, as a physical range.\<close>

lemma zone_range:
  assumes "layout_ok ds" "zone_at ds z d off" "unat offset + n \<le> unat (z_size z)"
    and "z_permissions z AND operation_permission op \<noteq> 0"
  shows "unat (off + offset) = unat off + unat offset" "in_zone d op (unat (off + offset)) n"
    "unat off + unat (z_size z) \<le> unat (d_capacity d)" "unat (d_erase_block_size d) dvd unat off"
    "unat (d_erase_block_size d) dvd unat (z_size z)"
proof -
  obtain j where d: "d \<in> set ds" and j: "j < length (zones d)" "z = zones d ! j" "unat off = zone_start d j"
    using assms(2) unfolding zone_at_def by auto
  have "unat off + unat (z_size z) \<le> sum_list (zone_sizes d)" using zone_end_le [OF j(1)] j by simp
  also have "\<dots> \<le> unat (d_capacity d)" by (rule layout_okD(6) [OF assms(1) d])
  finally show c: "unat off + unat (z_size z) \<le> unat (d_capacity d)" .
  then have "unat off + unat offset < 2 ^ 32" using assms(3) unat_u32_less [of "d_capacity d"] by simp
  then show s: "unat (off + offset) = unat off + unat offset" by (intro unat_add_lem [THEN iffD1]) simp
  show "in_zone d op (unat (off + offset)) n"
    unfolding in_zone_def s using j assms(3,4) by (intro exI [of _ j]) auto
  show "unat (d_erase_block_size d) dvd unat off"
    using zone_start_dvd [of d j] layout_okD(5) [OF assms(1) d] j by simp
  show "unat (d_erase_block_size d) dvd unat (z_size z)"
    using layout_okD(5) [OF assms(1) d, of z] j by (simp add: zone_ok_def)
qed

lemma active_on_data [simp]:
  "active_on d (f\<lparr>f_read_data := p\<rparr>) = active_on d f" "active_on d (f\<lparr>f_write_data := p\<rparr>) = active_on d f"
  by (simp_all add: active_on_def due_def in_flight_def syncing_def)

lemma active_request_begin:
  assumes "op \<noteq> OPERATION_NONE" "in_zone d op (unat a) (unat len)" "0 < len"
    and "granule d op dvd unat a" "granule d op dvd unat len"
  shows "active_on d (request_begin d op (state_of op) a len f)"
  using assms unfolding active_on_def due_def by (simp add: request_begin_def)

text \<open>Acceptance: the request of a client, and the window it opens on the device.\<close>

lemma fal_read_accept:
  assumes "layout_ok ds" "fal_inv ds f" "fal_read zid offset len p (Some f) = (r, Some g)" "r = FAL_IN_PROGRESS"
  obtains z d off where "zone_at ds z d off" "d \<in> set ds" "z_zone_id z = zid" "active_on d g" "due g"
    "g = (request_begin d OPERATION_READ STATE_READ (off + offset) len f)\<lparr>f_read_data := p\<rparr>"
    "unat (off + offset) = unat off + unat offset" "f_state f = STATE_IDLE"
proof -
  obtain z d off where v: "request_validate (Some f) zid offset len PERMISSION_READ = Inr (z, d, off)"
    and n: "len \<noteq> 0" and g: "g = (request_begin d OPERATION_READ STATE_READ (off + offset) len f)\<lparr>f_read_data := p\<rparr>"
    using assms(3,4) by (auto simp: fal_read_def request_validate_def split: if_splits sum.splits prod.splits option.splits)
  note V = request_validate_Inr [OF assms(1,2) v]
  note R = zone_range [OF assms(1) V(1) V(4), of OPERATION_READ]
  have "active_on d g"
    unfolding g active_on_data using R(2) V(3) n
    by (intro active_request_begin [of OPERATION_READ, unfolded state_of_def, simplified])
      (simp_all add: operation_permission_def granule_def word_neq_0_conv)
  moreover have "due g" using n by (simp add: g due_def request_begin_def state_of_def word_neq_0_conv)
  ultimately show thesis using that V R(1) g by (simp add: operation_permission_def)
qed

lemma fal_write_accept:
  assumes "layout_ok ds" "fal_inv ds f" "fal_write zid offset len p (Some f) = (r, Some g)" "r = FAL_IN_PROGRESS"
  obtains z d off where "zone_at ds z d off" "d \<in> set ds" "z_zone_id z = zid" "active_on d g" "due g"
    "g = (request_begin d OPERATION_WRITE STATE_WRITE (off + offset) len f)\<lparr>f_write_data := p\<rparr>"
    "unat (off + offset) = unat off + unat offset" "f_state f = STATE_IDLE"
proof -
  obtain z d off where v: "request_validate (Some f) zid offset len PERMISSION_WRITE = Inr (z, d, off)"
    and n: "len \<noteq> 0" and g: "g = (request_begin d OPERATION_WRITE STATE_WRITE (off + offset) len f)\<lparr>f_write_data := p\<rparr>"
    and u: "d_program_unit_size d = 0 \<or> (off + offset) mod d_program_unit_size d = 0 \<and> len mod d_program_unit_size d = 0"
    using assms(3,4) by (auto simp: fal_write_def request_validate_def split: if_splits sum.splits prod.splits option.splits)
  note V = request_validate_Inr [OF assms(1,2) v]
  note R = zone_range [OF assms(1) V(1) V(4), of OPERATION_WRITE]
  have "active_on d g"
    unfolding g active_on_data using R(2) V(3) n u
    by (intro active_request_begin [of OPERATION_WRITE, unfolded state_of_def, simplified])
      (auto simp: operation_permission_def granule_def word_neq_0_conv unat_mod_eq_0)
  moreover have "due g" using n by (simp add: g due_def request_begin_def state_of_def word_neq_0_conv)
  ultimately show thesis using that V R(1) g by (simp add: operation_permission_def)
qed

text \<open>The erase window: the smallest run of whole blocks around the requested range.\<close>

definition block_floor :: "nat \<Rightarrow> nat \<Rightarrow> nat" where
  "block_floor b n = n div b * b"

definition block_ceiling :: "nat \<Rightarrow> nat \<Rightarrow> nat" where
  "block_ceiling b n = (n + b - 1) div b * b"

lemma block_ceiling_mod:
  assumes "0 < b"
  shows "block_ceiling b n = (if n mod b \<noteq> 0 then n + (b - n mod b) else n)"
proof -
  obtain q r where n: "n = q * b + r" and r: "r < b" using assms by (metis div_mult_mod_eq mod_less_divisor)
  then have m: "n mod b = r" by simp
  show ?thesis
  proof (cases "r = 0")
    case True
    have "(q * b + (b - 1)) div b = q" using assms by (subst div_mult_self3) auto
    moreover have "n + b - 1 = q * b + (b - 1)" using n True assms by linarith
    ultimately show ?thesis using True n m by (simp only: block_ceiling_def) simp
  next
    case False
    have "((q + 1) * b + (r - 1)) div b = q + 1" using r assms by (subst div_mult_self3) auto
    moreover have "n + b - 1 = (q + 1) * b + (r - 1)" unfolding n add_mult_distrib mult_1 using False by linarith
    ultimately have "block_ceiling b n = (q + 1) * b" by (simp only: block_ceiling_def)
    also have "\<dots> = n + (b - r)" unfolding n add_mult_distrib mult_1 using r by linarith
    finally show ?thesis using False m by simp
  qed
qed

lemma block_ceiling_le:
  assumes "b dvd m" "n \<le> m" "0 < b"
  shows "block_ceiling b n \<le> m"
proof -
  obtain k where m: "m = b * k" using assms(1) by (rule dvdE)
  then have m': "m = k * b" by (simp only: mult.commute)
  have "n + b - 1 < k * b + b" using assms(2,3) unfolding m' by linarith
  then have "n + b - 1 < Suc k * b" by (simp only: mult_Suc add.commute)
  then have "(n + b - 1) div b < Suc k" by (rule less_mult_imp_div_less)
  then have "(n + b - 1) div b * b \<le> k * b" by (intro mult_le_mono) simp_all
  then show ?thesis by (simp only: block_ceiling_def m')
qed

lemma block_window:
  assumes "0 < b"
  shows "block_floor b n \<le> n" "n \<le> block_ceiling b n" "b dvd block_floor b n" "b dvd block_ceiling b n"
    "block_floor b n = n - n mod b"
proof -
  show "block_floor b n \<le> n" "b dvd block_floor b n" "b dvd block_ceiling b n"
    by (simp_all add: block_floor_def block_ceiling_def)
  show "n \<le> block_ceiling b n" by (simp add: block_ceiling_mod [OF assms])
  show "block_floor b n = n - n mod b" by (simp add: block_floor_def minus_mod_eq_div_mult)
qed

lemma erase_words:
  fixes offset len z block :: u32
  assumes "unat offset + unat len \<le> unat z" "unat block dvd unat z" "0 < unat block" "0 < len"
  defines "re \<equiv> offset + len"
  defines "e \<equiv> (if re mod block \<noteq> 0 then re + (block - re mod block) else re)"
  shows "unat (offset - offset mod block) = block_floor (unat block) (unat offset)"
    and "unat e = block_ceiling (unat block) (unat offset + unat len)"
    and "e \<le> z" and "unat (e - (offset - offset mod block)) = unat e - block_floor (unat block) (unat offset)"
    and "block_floor (unat block) (unat offset) < unat e"
proof -
  let ?b = "unat block"
  have re: "unat re = unat offset + unat len"
    unfolding re_def using assms(1) unat_u32_less [of z] by (intro unat_add_lem [THEN iffD1]) simp
  show s: "unat (offset - offset mod block) = block_floor ?b (unat offset)"
    by (simp add: unat_sub word_le_nat_alt unat_mod_distrib block_window(5) [OF assms(3)])
  have c: "block_ceiling ?b (unat re) \<le> unat z" using block_ceiling_le [OF assms(2) _ assms(3)] assms(1) re by simp
  show e: "unat e = block_ceiling ?b (unat offset + unat len)"
  proof (cases "re mod block = 0")
    case True
    then have "unat re mod ?b = 0" by (metis unat_0 unat_mod_distrib)
    then show ?thesis using True re by (simp add: e_def block_ceiling_mod [OF assms(3)])
  next
    case False
    then have m: "unat re mod ?b \<noteq> 0" by (metis unat_eq_zero unat_mod_distrib)
    have "re mod block \<le> block"
      using mod_less_divisor [OF assms(3), of "unat re"] by (simp add: word_le_nat_alt unat_mod_distrib)
    then have "unat (block - re mod block) = ?b - unat re mod ?b" by (simp add: unat_sub unat_mod_distrib)
    moreover from this have "unat (re + (block - re mod block)) = unat re + unat (block - re mod block)"
      using c m unat_u32_less [of z] by (intro unat_add_lem [THEN iffD1]) (simp add: block_ceiling_mod [OF assms(3)])
    ultimately show ?thesis using False m re by (simp add: e_def block_ceiling_mod [OF assms(3)])
  qed
  show "e \<le> z" using c e re by (simp add: word_le_nat_alt)
  have "0 < unat len" using assms(4) by (simp add: word_less_nat_alt)
  then show lt: "block_floor ?b (unat offset) < unat e"
    using block_window(1) [OF assms(3), of "unat offset"] block_window(2) [OF assms(3), of "unat offset + unat len"] e
    by linarith
  then show "unat (e - (offset - offset mod block)) = unat e - block_floor ?b (unat offset)"
    using s by (simp add: unat_sub word_le_nat_alt)
qed

lemma fal_erase_accept:
  assumes "layout_ok ds" "fal_inv ds f" "fal_erase zid offset len (Some f) = (r, Some g)" "r = FAL_IN_PROGRESS"
  obtains z d off a n where "zone_at ds z d off" "d \<in> set ds" "z_zone_id z = zid" "active_on d g" "due g"
    "g = request_begin d OPERATION_ERASE STATE_ERASE a n f" "f_state f = STATE_IDLE"
    "unat a = unat off + block_floor (unat (d_erase_block_size d)) (unat offset)"
    "unat a + unat n = unat off + block_ceiling (unat (d_erase_block_size d)) (unat offset + unat len)"
proof -
  obtain z d off where v: "request_validate (Some f) zid offset len PERMISSION_ERASE = Inr (z, d, off)"
    and n: "len \<noteq> 0"
    using assms(3,4) by (auto simp: fal_erase_def request_validate_def split: if_splits sum.splits prod.splits option.splits)
  note V = request_validate_Inr [OF assms(1,2) v]
  let ?B = "d_erase_block_size d"
  define e where "e = (if (offset + len) mod ?B \<noteq> 0 then (offset + len) + (?B - (offset + len) mod ?B) else offset + len)"
  define s where "s = offset - offset mod ?B"
  note Z = zone_range [OF assms(1) V(1), of _ _ OPERATION_ERASE]
  have p: "z_permissions z AND operation_permission OPERATION_ERASE \<noteq> 0" using V(3) by (simp add: operation_permission_def)
  have B: "0 < unat ?B" using layout_okD(2) [OF assms(1) V(7)] by (simp add: geometry_ok_def)
  have l: "0 < len" using n by (simp add: word_neq_0_conv)
  note W = erase_words [OF V(4) Z(5) [OF V(4) p] B l, folded e_def s_def]
  have g: "g = request_begin d OPERATION_ERASE STATE_ERASE (off + s) (e - s) f"
    using assms(3,4) n W(3) by (auto simp: fal_erase_def v Let_def s_def e_def split: if_splits)
  have fit: "unat s + unat (e - s) \<le> unat (z_size z)" using W by (simp add: word_le_nat_alt)
  note R = Z [OF fit p]
  have d: "unat ?B dvd unat (off + s)" "unat ?B dvd unat (e - s)"
    unfolding R(1) W(1,4) using R(4) block_window(3,4) [OF B] W(2) by (simp_all add: dvd_diff_nat)
  have "active_on d g"
    unfolding g using R(2) d W(4,5)
    by (intro active_request_begin [of OPERATION_ERASE, unfolded state_of_def, simplified])
      (simp_all add: granule_def word_less_nat_alt)
  moreover have "due g" using W(4,5) by (simp add: g due_def request_begin_def state_of_def word_less_nat_alt)
  moreover have "unat (off + s) + unat (e - s) = unat off + unat e" using R(1) W(1,4,5) by simp
  ultimately show thesis using that V(1,2,6,7) R(1) g W(1,2) by simp
qed

end
