(* ===== verification/Fal_Machine.thy ===== *)
theory Fal_Machine
  imports Fal_Transfer
begin

text \<open>
  The polled state machine of code/lib/fal/fal_core.c: one step of \<open>fal_process\<close> in each
  situation of a request, the API as a labelled step relation, the preservation of the
  invariant along it, and the completion of a request on a responsive driver.
\<close>

section \<open>Chunks\<close>

definition chunk_get :: "'x fal_device_cfg \<Rightarrow> 'x fal \<Rightarrow> u32" where
  "chunk_get d f = (case f_operation f of OPERATION_READ \<Rightarrow> read_chunk_get f d | OPERATION_WRITE \<Rightarrow> write_chunk_get f d
     | _ \<Rightarrow> d_erase_block_size d)"

definition buffer_of :: "'x fal \<Rightarrow> nat option" where
  "buffer_of f = (case f_operation f of OPERATION_READ \<Rightarrow> f_read_data f | OPERATION_WRITE \<Rightarrow> f_write_data f | _ \<Rightarrow> None)"

text \<open>A span of a transfer: its address, its length and where its data are.\<close>

type_synonym span = "u32 \<times> u32 \<times> nat option"

definition span_call :: "fal_operation_type \<Rightarrow> u16 \<Rightarrow> span \<Rightarrow> flash_call" where
  "span_call op dev = (\<lambda>(a, n, p). case op of OPERATION_READ \<Rightarrow> Flash_Read dev a n p
     | OPERATION_WRITE \<Rightarrow> Flash_Program dev a n p | _ \<Rightarrow> Flash_Erase dev a n)"

definition driver_submit :: "'x fal_device_cfg \<Rightarrow> 'x fal \<Rightarrow> 'x \<Rightarrow> fal_result \<times> 'x" where
  "driver_submit d f x =
     (case f_operation f of
        OPERATION_READ \<Rightarrow> the (p_read (d_ops d)) x (f_physical_address f) (chunk_get d f) (f_read_data f)
      | OPERATION_WRITE \<Rightarrow> the (p_program (d_ops d)) x (f_physical_address f) (chunk_get d f) (f_write_data f)
      | _ \<Rightarrow> the (p_erase (d_ops d)) x (f_physical_address f) (chunk_get d f))"

lemma operation_issue_eq:
  assumes "f_operation f \<noteq> OPERATION_NONE"
  shows "operation_issue d f x =
    (case driver_submit d f x of
       (r, x1) \<Rightarrow>
         (r, if r = FAL_SUCCESS then f\<lparr>f_chunk_length := chunk_get d f, f_state := STATE_WAIT_DEVICE\<rparr> else f, x1,
          [span_call (f_operation f) (d_device_id d) (f_physical_address f, chunk_get d f, buffer_of f)]))"
  using assms
  by (cases "f_operation f")
    (simp_all add: operation_issue_def driver_submit_def chunk_get_def span_call_def buffer_of_def Let_def split: prod.splits)

lemma in_zone_part:
  "in_zone d op a n \<Longrightarrow> a \<le> b \<Longrightarrow> b + m \<le> a + n \<Longrightarrow> in_zone d op b m"
  unfolding in_zone_def by (elim exE conjE) (rule exI, intro conjI, assumption+, linarith, linarith)

lemma in_zone_capacity:
  assumes "layout_ok ds" "d \<in> set ds" "in_zone d op a n"
  shows "a + n \<le> unat (d_capacity d)"
proof -
  obtain j where "j < length (zones d)" "a + n \<le> zone_start d j + unat (z_size (zones d ! j))"
    using assms(3) by (auto simp: in_zone_def)
  then show ?thesis using zone_end_le [of j d] layout_okD(6) [OF assms(1,2)] by linarith
qed

lemma chunk_get_ok:
  assumes L: "layout_ok ds" "d \<in> set ds" and act: "active_on d f" "due f"
  shows "chunk_ok d (f_operation f) (unat (f_physical_address f)) (unat (chunk_get d f))"
    and "chunk_get d f \<le> f_remaining f" and "0 < chunk_get d f"
proof -
  let ?op = "f_operation f" and ?a = "unat (f_physical_address f)" and ?n = "unat (f_remaining f)"
  let ?c = "unat (chunk_get d f)" and ?P = "unat (d_program_page_size d)"
  have z: "in_zone d ?op ?a ?n" and g: "granule d ?op dvd ?a" "granule d ?op dvd ?n" and op: "?op \<noteq> OPERATION_NONE"
    using act(1) by (simp_all add: active_on_def)
  have n: "0 < ?n" using act(2) by (simp add: due_def word_less_nat_alt)
  have geo: "geometry_ok d" by (rule layout_okD(2) [OF L])
  have P: "0 < ?P" using geo by (simp add: geometry_ok_def)
  have "0 < ?c \<and> ?c \<le> ?n \<and> granule d ?op dvd ?c
    \<and> (case ?op of OPERATION_READ \<Rightarrow> d_max_read_size d \<noteq> 0 \<longrightarrow> ?c \<le> unat (d_max_read_size d)
        | OPERATION_WRITE \<Rightarrow> ?a mod ?P + ?c \<le> ?P | _ \<Rightarrow> ?c = unat (d_erase_block_size d))"
  proof (cases ?op)
    case OPERATION_READ
    then show ?thesis using n by (auto simp: chunk_get_def read_chunk_get_def granule_def word_less_nat_alt unat_gt_0)
  next
    case OPERATION_WRITE
    have m: "?a mod ?P < ?P" using P by simp
    have "f_physical_address f mod d_program_page_size d \<le> d_program_page_size d"
      using m by (simp add: word_le_nat_alt unat_mod_distrib)
    then have av: "unat (d_program_page_size d - f_physical_address f mod d_program_page_size d) = ?P - ?a mod ?P"
      by (simp add: unat_sub unat_mod_distrib)
    have "granule d ?op dvd ?P" using OPERATION_WRITE geo by (auto simp: granule_def geometry_ok_def unat_eq_zero)
    then have "granule d ?op dvd ?P - ?a mod ?P" using g(1) by (simp add: dvd_diff_nat dvd_mod)
    moreover have c: "?c = min ?n (?P - ?a mod ?P)"
      using OPERATION_WRITE av by (simp add: chunk_get_def write_chunk_get_def Let_def word_less_nat_alt)
    ultimately show ?thesis using n m g(2) OPERATION_WRITE by (auto simp: min_def)
  next
    case OPERATION_ERASE
    then have "unat (d_erase_block_size d) dvd ?n" using g(2) by (simp add: granule_def)
    then show ?thesis using OPERATION_ERASE n geo by (simp add: chunk_get_def granule_def geometry_ok_def dvd_imp_le)
  qed (use op in simp)
  note c = this
  then show "chunk_get d f \<le> f_remaining f" "0 < chunk_get d f" by (simp_all add: word_le_nat_alt word_less_nat_alt)
  have "in_zone d ?op ?a ?c" by (rule in_zone_part [OF z]) (use c in simp_all)
  then show "chunk_ok d ?op ?a ?c" unfolding chunk_ok_def using c g(1) by blast
qed

lemma span_call_ok:
  assumes "d \<in> set ds" "chunk_ok d op (unat a) (unat n)" "op \<noteq> OPERATION_NONE"
  shows "call_ok ds (span_call op (d_device_id d) (a, n, p))"
  using assms by (cases op) (auto simp: call_ok_def span_call_def)

section \<open>One poll\<close>

lemma fal_process_active:
  assumes "layout_ok ds" "d \<in> set ds" "f_cfg f = Some (Some ds)" "active_on d f"
  shows "fal_process (Some f) x = (case device_process d f x of (g, x1, calls) \<Rightarrow> (Some g, x1, calls))"
proof -
  have dist: "distinct (map d_device_id ds)" using assms(1) by (simp add: layout_ok_def)
  have a: "f_active_device_id f = d_device_id d" "f_operation f \<noteq> OPERATION_NONE"
    using assms(4) by (simp_all add: active_on_def)
  have "List.find (\<lambda>d'. d_device_id d' = d_device_id d) ds = Some d"
    using dist assms(2) by (induction ds) auto
  then show ?thesis using assms(3) a by (simp add: fal_process_def)
qed

text \<open>The successor of a poll in the situation it finds.\<close>

definition poll_next :: "'x fal_device_cfg \<Rightarrow> 'x fal \<Rightarrow> 'x \<Rightarrow> 'x fal \<times> 'x \<times> flash_call list" where
  "poll_next d f x =
     (if syncing f then (operation_finish FAL_SUCCESS f, x, [])
      else if in_flight f then
        (if f_chunk_length f = f_remaining f then operation_complete_or_sync d (completed_chunk_commit f) x
         else ((completed_chunk_commit f)\<lparr>f_state := state_of (f_operation f)\<rparr>, x, []))
      else
        (case driver_submit d f x of
           (r, x1) \<Rightarrow>
             (if r = FAL_SUCCESS then f\<lparr>f_chunk_length := chunk_get d f, f_state := STATE_WAIT_DEVICE\<rparr>
              else operation_finish FAL_DRIVER_ERROR f,
              x1, [span_call (f_operation f) (d_device_id d) (f_physical_address f, chunk_get d f, buffer_of f)])))"

lemma completed_chunk_commit_simps [simp]:
  "f_remaining (completed_chunk_commit f) = f_remaining f - f_chunk_length f"
  "f_physical_address (completed_chunk_commit f) = f_physical_address f + f_chunk_length f"
  "f_chunk_length (completed_chunk_commit f) = 0"
  "f_operation (completed_chunk_commit f) = f_operation f"
  "f_operation_state (completed_chunk_commit f) = f_operation_state f"
  "f_state (completed_chunk_commit f) = f_state f"
  "f_result (completed_chunk_commit f) = f_result f"
  "f_cfg (completed_chunk_commit f) = f_cfg f"
  "f_active_device_id (completed_chunk_commit f) = f_active_device_id f"
  "f_sync_issued (completed_chunk_commit f) = f_sync_issued f"
  "f_stop_requested (completed_chunk_commit f) = f_stop_requested f"
  "buffer_of (completed_chunk_commit f) = map_option (\<lambda>p. p + unat (f_chunk_length f)) (buffer_of f)"
  by (cases "f_operation f"; simp add: completed_chunk_commit_def Let_def buffer_of_def)+

lemma device_process_active:
  assumes "active_on d f"
  shows "device_process d f x =
    (case the (p_get_state (d_ops d)) x of
       (s, x1) \<Rightarrow>
         if s = DEVICE_ERROR then (operation_finish FAL_DRIVER_ERROR f, x1, [])
         else if s = DEVICE_BUSY then (f, x1, [])
         else poll_next d f x1)"
proof -
  have op: "f_operation f \<noteq> OPERATION_NONE" "f_operation_state f = state_of (f_operation f)"
    using assms by (simp_all add: active_on_def)
  obtain s x1 where s: "the (p_get_state (d_ops d)) x = (s, x1)" by fastforce
  consider "due f" | "in_flight f" | "syncing f" using assms by (auto simp: active_on_def)
  then show ?thesis
  proof cases
    case 1
    then have w: "f_state f \<noteq> STATE_WAIT_DEVICE" "\<not> in_flight f" "\<not> syncing f"
      by (auto simp: due_def in_flight_def syncing_def)
    then show ?thesis
      by (cases s) (auto simp: device_process_def s poll_next_def operation_issue_eq [OF op(1)] split: prod.splits)
  next
    case 2
    then have w: "f_state f = STATE_WAIT_DEVICE" "f_chunk_length f \<noteq> 0" "\<not> syncing f"
      by (auto simp: in_flight_def syncing_def)
    have "f_remaining f - f_chunk_length f = 0 \<longleftrightarrow> f_chunk_length f = f_remaining f" by auto
    then show ?thesis using w 2 op by (cases s) (auto simp: device_process_def s poll_next_def Let_def)
  next
    case 3
    then show ?thesis by (cases s) (auto simp: device_process_def s poll_next_def syncing_def)
  qed
qed

text \<open>Committing a chunk moves the window without overflow.\<close>

lemma commit_window:
  assumes L: "layout_ok ds" "d \<in> set ds" and act: "active_on d f" "in_flight f"
  shows "unat (f_physical_address f + f_chunk_length f) = unat (f_physical_address f) + unat (f_chunk_length f)"
    and "unat (f_remaining f - f_chunk_length f) = unat (f_remaining f) - unat (f_chunk_length f)"
    and "unat (f_chunk_length f) \<le> unat (f_remaining f)" and "0 < unat (f_chunk_length f)"
proof -
  let ?a = "unat (f_physical_address f)" and ?n = "unat (f_remaining f)" and ?c = "unat (f_chunk_length f)"
  have c: "f_chunk_length f \<le> f_remaining f" using act(2) by (simp add: in_flight_def)
  show cn: "?c \<le> ?n" using c by (simp add: word_le_nat_alt)
  show "0 < ?c" using act(2) by (simp add: in_flight_def word_less_nat_alt)
  have "?a + ?n \<le> unat (d_capacity d)" using act(1) by (intro in_zone_capacity [OF L, of "f_operation f"]) (simp add: active_on_def)
  then have "?a + ?c < 2 ^ 32" using cn unat_u32_less [of "d_capacity d"] by simp
  then show "unat (f_physical_address f + f_chunk_length f) = ?a + ?c" by (intro unat_add_lem [THEN iffD1]) simp
  show "unat (f_remaining f - f_chunk_length f) = ?n - ?c" using c by (simp add: unat_sub)
qed

lemma commit_active:
  assumes L: "layout_ok ds" "d \<in> set ds" and act: "active_on d f" "in_flight f"
    and g: "g = completed_chunk_commit f"
    and h: "h = g\<lparr>f_state := s, f_sync_issued := y\<rparr>" "due h \<or> syncing h"
  shows "active_on d h"
proof -
  note w = commit_window [OF L act]
  have a: "in_zone d (f_operation f) (unat (f_physical_address f)) (unat (f_remaining f))"
    "granule d (f_operation f) dvd unat (f_physical_address f)" "granule d (f_operation f) dvd unat (f_remaining f)"
    "granule d (f_operation f) dvd unat (f_chunk_length f)"
    using act(1) by (simp_all add: active_on_def)
  have z: "in_zone d (f_operation f) (unat (f_physical_address f + f_chunk_length f))
      (unat (f_remaining f - f_chunk_length f))"
    by (rule in_zone_part [OF a(1)]) (use w in simp_all)
  have "granule d (f_operation f) dvd unat (f_physical_address f + f_chunk_length f)"
    "granule d (f_operation f) dvd unat (f_remaining f - f_chunk_length f)"
    unfolding w(1,2) using a by (simp_all add: dvd_diff_nat)
  then show ?thesis using act(1) z h(2) unfolding active_on_def h(1) g by auto
qed

lemma poll_next_ok:
  assumes L: "layout_ok ds" "d \<in> set ds" and act: "active_on d f" and p: "poll_next d f x = (g, x1, calls)"
  shows "f_cfg g = f_cfg f" "f_stop_requested g = f_stop_requested f" "active_on d g \<or> at_rest g"
    "\<forall>c \<in> set calls. call_ok ds c"
proof -
  have "f_cfg g = f_cfg f \<and> f_stop_requested g = f_stop_requested f \<and> (active_on d g \<or> at_rest g)
    \<and> (\<forall>c \<in> set calls. call_ok ds c)"
  proof -
    consider "due f" | "in_flight f" | "syncing f" using act by (auto simp: active_on_def)
    then show ?thesis
    proof cases
      case 1
      note c = chunk_get_ok [OF L act 1]
      have op: "f_operation f \<noteq> OPERATION_NONE" using act by (simp add: active_on_def)
      have call: "call_ok ds (span_call (f_operation f) (d_device_id d) (f_physical_address f, chunk_get d f, buffer_of f))"
        by (rule span_call_ok [OF L(2) c(1) op])
      have act': "active_on d (f\<lparr>f_chunk_length := chunk_get d f, f_state := STATE_WAIT_DEVICE\<rparr>)"
        using act 1 c unfolding active_on_def due_def in_flight_def chunk_ok_def by auto
      have "\<not> in_flight f" "\<not> syncing f" using 1 by (auto simp: due_def in_flight_def syncing_def)
      then show ?thesis using p call act' by (auto simp: poll_next_def split: prod.splits if_splits)
    next
      case 2
      then have ns: "\<not> syncing f" by (auto simp: in_flight_def syncing_def)
      let ?g = "completed_chunk_commit f"
      show ?thesis
      proof (cases "f_chunk_length f = f_remaining f")
        case False
        have g: "g = ?g\<lparr>f_state := state_of (f_operation f)\<rparr>" "calls = []"
          using p 2 ns False by (simp_all add: poll_next_def)
        have "due (?g\<lparr>f_state := state_of (f_operation f), f_sync_issued := False\<rparr>)"
          using 2 False by (simp add: due_def in_flight_def word_neq_0_conv [symmetric])
        from commit_active [OF L act 2 refl refl disjI1 [OF this]]
        have "active_on d g" using 2 unfolding g by (simp add: in_flight_def active_on_def due_def syncing_def)
        then show ?thesis by (simp add: g)
      next
        case True
        have q: "operation_complete_or_sync d ?g x = (g, x1, calls)" using p 2 ns True by (simp add: poll_next_def)
        have "syncing (?g\<lparr>f_state := STATE_WAIT_DEVICE, f_sync_issued := True\<rparr>)"
          using True by (simp add: syncing_def)
        from commit_active [OF L act 2 refl refl disjI2 [OF this]]
        have s: "active_on d (?g\<lparr>f_state := STATE_WAIT_DEVICE, f_sync_issued := True\<rparr>)" .
        have e: "?g\<lparr>f_sync_issued := True, f_chunk_length := 0, f_state := STATE_WAIT_DEVICE\<rparr>
          = ?g\<lparr>f_state := STATE_WAIT_DEVICE, f_sync_issued := True\<rparr>"
          by (simp add: completed_chunk_commit_def Let_def)
        have "active_on d (?g\<lparr>f_sync_issued := True, f_chunk_length := 0, f_state := STATE_WAIT_DEVICE\<rparr>)"
          by (subst e) (rule s)
        then show ?thesis
          using q L(2)
          by (auto simp: operation_complete_or_sync_def call_ok_def split: option.splits prod.splits if_splits)
      qed
    next
      case 3
      then show ?thesis using p by (auto simp: poll_next_def)
    qed
  qed
  then show "f_cfg g = f_cfg f" "f_stop_requested g = f_stop_requested f" "active_on d g \<or> at_rest g"
    "\<forall>c \<in> set calls. call_ok ds c" by blast+
qed

lemma fal_process_inv:
  assumes "layout_ok ds" "fal_inv ds f" "fal_process (Some f) x = (Some g, x1, calls)"
  shows "fal_inv ds g" "f_stop_requested g = f_stop_requested f" "\<forall>c \<in> set calls. call_ok ds c"
    "at_rest f \<Longrightarrow> g = f \<and> calls = []"
proof -
  have c: "f_cfg f = Some (Some ds)" using assms(2) by (simp add: fal_inv_def)
  show rest: "at_rest f \<Longrightarrow> g = f \<and> calls = []" using assms(3) by (auto simp: at_rest_def fal_process_def)
  have "fal_inv ds g \<and> f_stop_requested g = f_stop_requested f \<and> (\<forall>c \<in> set calls. call_ok ds c)"
  proof (cases "at_rest f")
    case True
    then show ?thesis using rest assms(2) by auto
  next
    case False
    then obtain d where d: "d \<in> set ds" "active_on d f" using assms(2) by (auto simp: fal_inv_def)
    obtain s y where s: "the (p_get_state (d_ops d)) x = (s, y)" by fastforce
    have "device_process d f x = (g, x1, calls)"
      using assms(3) fal_process_active [OF assms(1) d(1) c d(2), of x] by (simp split: prod.splits)
    then consider "g = operation_finish FAL_DRIVER_ERROR f" "calls = []" | "g = f" "calls = []"
      | "poll_next d f y = (g, x1, calls)"
      by (auto simp: device_process_active [OF d(2)] s split: if_splits)
    then show ?thesis
    proof cases
      case 3
      then show ?thesis using poll_next_ok [OF assms(1) d(1,2) 3] c d(1) by (auto simp: fal_inv_def)
    qed (use c assms(2) in \<open>auto simp: fal_inv_def\<close>)
  qed
  then show "fal_inv ds g" "f_stop_requested g = f_stop_requested f" "\<forall>c \<in> set calls. call_ok ds c" by blast+
qed

end
