(* ===== verification/Fal_Completion.thy ===== *)
theory Fal_Completion
  imports Fal_Machine
begin

text \<open>
  Runs of the flash abstraction layer (code/lib/fal/fal_core.c): the API calls as a labelled
  step relation and their traces, and the completion of a request when the driver answers.
\<close>

section \<open>API steps and traces\<close>

inductive fal_step :: "'x fal \<Rightarrow> flash_call list \<Rightarrow> 'x fal \<Rightarrow> bool" where
  step_read: "fal_read zone_id offset len p_data (Some f) = (r, Some g) \<Longrightarrow> fal_step f [] g"
| step_write: "fal_write zone_id offset len p_data (Some f) = (r, Some g) \<Longrightarrow> fal_step f [] g"
| step_erase: "fal_erase zone_id offset len (Some f) = (r, Some g) \<Longrightarrow> fal_step f [] g"
| step_stop: "fal_stop_request (Some f) = (r, Some g) \<Longrightarrow> fal_step f [] g"
| step_process: "fal_process (Some f) x = (Some g, x1, calls) \<Longrightarrow> fal_step f calls g"

text \<open>The driver's state is arbitrary at every poll: interrupts and other users may move it.\<close>

inductive fal_trace :: "'x fal \<Rightarrow> flash_call list \<Rightarrow> 'x fal \<Rightarrow> bool" where
  trace_refl: "fal_trace f [] f"
| trace_step: "fal_trace f cs g \<Longrightarrow> fal_step g cs' h \<Longrightarrow> fal_trace f (cs @ cs') h"

lemma fal_read_other:
  assumes "layout_ok ds" "fal_inv ds f" "fal_read zid offset len p (Some f) = (r, Some g)" "r \<noteq> FAL_IN_PROGRESS"
  shows "g = f \<or> at_rest f \<and> g = f\<lparr>f_result := FAL_SUCCESS\<rparr>"
  using assms(3,4) request_validate_Inr(5) [OF assms(1,2)]
  by (fastforce simp: fal_read_def split: if_splits sum.splits)

lemma fal_write_other:
  assumes "layout_ok ds" "fal_inv ds f" "fal_write zid offset len p (Some f) = (r, Some g)" "r \<noteq> FAL_IN_PROGRESS"
  shows "g = f \<or> at_rest f \<and> g = f\<lparr>f_result := FAL_SUCCESS\<rparr>"
  using assms(3,4) request_validate_Inr(5) [OF assms(1,2)]
  by (fastforce simp: fal_write_def split: if_splits sum.splits)

lemma fal_erase_other:
  assumes "layout_ok ds" "fal_inv ds f" "fal_erase zid offset len (Some f) = (r, Some g)" "r \<noteq> FAL_IN_PROGRESS"
  shows "g = f \<or> at_rest f \<and> g = f\<lparr>f_result := FAL_SUCCESS\<rparr>"
  using assms(3,4) request_validate_Inr(5) [OF assms(1,2)]
  by (fastforce simp: fal_erase_def Let_def split: if_splits sum.splits)

lemma fal_inv_result: "fal_inv ds f \<Longrightarrow> at_rest f \<Longrightarrow> fal_inv ds (f\<lparr>f_result := FAL_SUCCESS\<rparr>)"
  by (auto simp: fal_inv_def at_rest_def)

lemma fal_stop_request_inv:
  assumes "fal_inv ds f" "fal_stop_request (Some f) = (r, Some g)"
  shows "fal_inv ds g" "r = FAL_SUCCESS" "f_stop_requested g"
proof -
  have "f_state f \<noteq> STATE_UNINITIALIZED \<and> f_state f \<noteq> STATE_ERROR"
    using assms(1)
    by (auto simp: fal_inv_def at_rest_def active_on_def due_def in_flight_def syncing_def state_of_def
        split: fal_operation_type.splits if_splits)
  then have g: "r = FAL_SUCCESS"
    "g = (if f_operation f = OPERATION_NONE then f\<lparr>f_stop_requested := True, f_state := STATE_STOPPED\<rparr>
          else f\<lparr>f_stop_requested := True\<rparr>)"
    using assms(2) by (auto simp: fal_stop_request_def fal_is_busy_def Let_def)
  then show "r = FAL_SUCCESS" "f_stop_requested g" by simp_all
  show "fal_inv ds g"
    using assms(1) unfolding g(2)
    by (auto simp: fal_inv_def at_rest_def active_on_def due_def in_flight_def syncing_def)
qed

lemma request_begin_cfg [simp]: "f_cfg (request_begin d op s a n f) = f_cfg f"
  by (simp add: request_begin_def)

lemma fal_step_inv:
  assumes "layout_ok ds" "fal_inv ds f" "fal_step f cs g"
  shows "fal_inv ds g \<and> (\<forall>c \<in> set cs. call_ok ds c)"
proof -
  have c: "f_cfg f = Some (Some ds)" using assms(2) by (simp add: fal_inv_def)
  from assms(3) show ?thesis
  proof cases
    case (step_read zone_id offset len p_data r)
    show ?thesis
    proof (cases "r = FAL_IN_PROGRESS")
      case True
      obtain d where "d \<in> set ds" "active_on d g" "f_cfg g = f_cfg f"
        by (rule fal_read_accept [OF assms(1,2) step_read(2) True]) (erule that, assumption, simp)
      then show ?thesis using c step_read(1) by (auto simp: fal_inv_def)
    qed (use fal_read_other [OF assms(1,2) step_read(2)] fal_inv_result [OF assms(2)] assms(2) step_read(1) in auto)
  next
    case (step_write zone_id offset len p_data r)
    show ?thesis
    proof (cases "r = FAL_IN_PROGRESS")
      case True
      obtain d where "d \<in> set ds" "active_on d g" "f_cfg g = f_cfg f"
        by (rule fal_write_accept [OF assms(1,2) step_write(2) True]) (erule that, assumption, simp)
      then show ?thesis using c step_write(1) by (auto simp: fal_inv_def)
    qed (use fal_write_other [OF assms(1,2) step_write(2)] fal_inv_result [OF assms(2)] assms(2) step_write(1) in auto)
  next
    case (step_erase zone_id offset len r)
    show ?thesis
    proof (cases "r = FAL_IN_PROGRESS")
      case True
      obtain d where "d \<in> set ds" "active_on d g" "f_cfg g = f_cfg f"
        by (rule fal_erase_accept [OF assms(1,2) step_erase(2) True]) (erule that, assumption, simp)
      then show ?thesis using c step_erase(1) by (auto simp: fal_inv_def)
    qed (use fal_erase_other [OF assms(1,2) step_erase(2)] fal_inv_result [OF assms(2)] assms(2) step_erase(1) in auto)
  next
    case (step_stop r)
    then show ?thesis using fal_stop_request_inv(1) [OF assms(2)] by auto
  next
    case (step_process x x1)
    then show ?thesis using fal_process_inv(1,3) [OF assms(1,2)] by blast
  qed
qed

lemma fal_trace_inv:
  assumes "fal_trace f cs g" "layout_ok ds" "fal_inv ds f"
  shows "fal_inv ds g \<and> (\<forall>c \<in> set cs. call_ok ds c)"
  using assms
proof (induction rule: fal_trace.induct)
  case (trace_step f cs g cs' h)
  then show ?case using fal_step_inv [of ds g cs' h] by auto
qed simp

lemma devices_init_calls:
  "devices_init ds x = (FAL_SUCCESS, x1, cs) \<Longrightarrow> cs = map (\<lambda>d. Flash_Init (d_device_id d)) ds"
  by (induction ds arbitrary: x x1 cs) (auto split: prod.splits if_splits)

lemma fal_init_SUCCESS:
  assumes "fal_init (Some f0) p_cfg x = (FAL_SUCCESS, Some f, x1, cs)"
  obtains ds where "p_cfg = Some (Some ds)" "ds \<noteq> []" "layout_ok ds" "fal_inv ds f" "f_state f = STATE_IDLE"
    "cs = map (\<lambda>d. Flash_Init (d_device_id d)) ds" "f_stop_requested f = False"
proof -
  obtain ds where ds: "p_cfg = Some (Some ds)" "ds \<noteq> []" "cfg_validate ds = FAL_SUCCESS"
    and i: "devices_init ds x = (FAL_SUCCESS, x1, cs)"
    and f: "f = fal_zeroed\<lparr>f_result := FAL_CONFIG_ERROR, f_cfg := p_cfg, f_state := STATE_IDLE,
      f_operation_state := STATE_IDLE, f_result := FAL_SUCCESS\<rparr>"
    using assms by (auto simp: fal_init_def Let_def split: option.splits if_splits prod.splits bind_splits)
  have "fal_inv ds f" by (simp add: f ds(1) fal_inv_def at_rest_def fal_zeroed_def)
  then show thesis using that ds devices_init_calls [OF i] by (simp add: f fal_zeroed_def cfg_validate_iff)
qed

section \<open>Completion\<close>

text \<open>A responsive driver: it never fails, and a busy device is ready again after at most
  \<open>bound\<close> looks at its state.\<close>

definition responsive :: "'x fal_device_cfg \<Rightarrow> ('x \<Rightarrow> nat) \<Rightarrow> nat \<Rightarrow> bool" where
  "responsive d busy bound \<longleftrightarrow>
     (\<forall>x. busy x \<le> bound
        \<and> fst (the (p_get_state (d_ops d)) x) \<noteq> DEVICE_ERROR
        \<and> (fst (the (p_get_state (d_ops d)) x) = DEVICE_BUSY \<longrightarrow> busy (snd (the (p_get_state (d_ops d)) x)) < busy x)
        \<and> (\<forall>a n p. fst (the (p_read (d_ops d)) x a n p) = FAL_SUCCESS)
        \<and> (\<forall>a n p. fst (the (p_program (d_ops d)) x a n p) = FAL_SUCCESS)
        \<and> (\<forall>a n. fst (the (p_erase (d_ops d)) x a n) = FAL_SUCCESS)
        \<and> (p_sync (d_ops d) \<noteq> None \<longrightarrow> fst (the (p_sync (d_ops d)) x) = FAL_SUCCESS))"

fun fal_poll :: "nat \<Rightarrow> 'x fal option \<Rightarrow> 'x \<Rightarrow> 'x fal option \<times> 'x \<times> flash_call list" where
  "fal_poll 0 p_fal x = (p_fal, x, [])"
| "fal_poll (Suc n) p_fal x =
     (case fal_process p_fal x of
        (p1, x1, cs) \<Rightarrow> (case fal_poll n p1 x1 of (p2, x2, cs') \<Rightarrow> (p2, x2, cs @ cs')))"

text \<open>Spans that follow one another from an address and a buffer position up to an address.\<close>

fun contiguous :: "nat \<Rightarrow> nat option \<Rightarrow> span list \<Rightarrow> nat \<Rightarrow> bool" where
  "contiguous a p [] e \<longleftrightarrow> a = e"
| "contiguous a p ((b, n, q) # spans) e \<longleftrightarrow>
     unat b = a \<and> q = p \<and> 0 < unat n \<and> contiguous (a + unat n) (map_option (\<lambda>p. p + unat n) p) spans e"

definition work :: "'x fal \<Rightarrow> nat" where
  "work f = (if syncing f then 1 else if in_flight f then 2 * unat (f_remaining f) + 1 else 2 * unat (f_remaining f) + 2)"

definition sync_calls :: "'x fal_device_cfg \<Rightarrow> flash_call list" where
  "sync_calls d = (if p_sync (d_ops d) = None then [] else [Flash_Sync (d_device_id d)])"

text \<open>What remains of an accepted request: the calls still to come, and the end.\<close>

definition completes :: "nat \<Rightarrow> 'x fal_device_cfg \<Rightarrow> 'x fal \<Rightarrow> 'x \<Rightarrow> bool" where
  "completes m d f x \<longleftrightarrow>
     (\<exists>k h x' spans. k \<le> m
        \<and> fal_poll k (Some f) x =
            (Some h, x', map (span_call (f_operation f) (d_device_id d)) spans
                         @ (if f_sync_issued f then [] else sync_calls d))
        \<and> contiguous (unat (f_physical_address f) + unat (f_chunk_length f))
            (map_option (\<lambda>p. p + unat (f_chunk_length f)) (buffer_of f)) spans
            (unat (f_physical_address f) + unat (f_remaining f))
        \<and> at_rest h \<and> f_result h = FAL_SUCCESS \<and> f_stop_requested h = f_stop_requested f)"

lemma responsive_submit:
  "responsive d busy bound \<Longrightarrow> f_operation f \<noteq> OPERATION_NONE \<Longrightarrow> fst (driver_submit d f x) = FAL_SUCCESS"
  by (cases "f_operation f") (simp_all add: responsive_def driver_submit_def)

lemma fal_poll_Suc:
  "fal_process (Some f) x = (Some g, x1, cs) \<Longrightarrow> fal_poll k (Some g) x1 = (p2, x2, cs') \<Longrightarrow>
    fal_poll (Suc k) (Some f) x = (p2, x2, cs @ cs')"
  by simp

lemma completes_step:
  assumes "fal_process (Some f) x = (Some g, x1, [])" "completes m d g x1"
    and "f_operation g = f_operation f" "f_sync_issued g = f_sync_issued f" "f_stop_requested g = f_stop_requested f"
    and "unat (f_physical_address g) + unat (f_chunk_length g) = unat (f_physical_address f) + unat (f_chunk_length f)"
    and "map_option (\<lambda>p. p + unat (f_chunk_length g)) (buffer_of g) = map_option (\<lambda>p. p + unat (f_chunk_length f)) (buffer_of f)"
    and "unat (f_physical_address g) + unat (f_remaining g) = unat (f_physical_address f) + unat (f_remaining f)"
  shows "completes (Suc m) d f x"
proof -
  obtain k h x' spans where c: "k \<le> m"
    "fal_poll k (Some g) x1 = (Some h, x', map (span_call (f_operation g) (d_device_id d)) spans
        @ (if f_sync_issued g then [] else sync_calls d))"
    "contiguous (unat (f_physical_address g) + unat (f_chunk_length g))
      (map_option (\<lambda>p. p + unat (f_chunk_length g)) (buffer_of g)) spans
      (unat (f_physical_address g) + unat (f_remaining g))"
    "at_rest h" "f_result h = FAL_SUCCESS" "f_stop_requested h = f_stop_requested g"
    using assms(2) unfolding completes_def by blast
  have "Suc k \<le> Suc m" using c(1) by simp
  moreover have "fal_poll (Suc k) (Some f) x = (Some h, x', map (span_call (f_operation f) (d_device_id d)) spans
      @ (if f_sync_issued f then [] else sync_calls d))"
    using fal_poll_Suc [OF assms(1) c(2)] assms(3,4) by simp
  ultimately show ?thesis
    unfolding completes_def using c(3-6) unfolding assms(5-8) by blast
qed

lemma completes_finish:
  assumes "fal_process (Some f) x = (Some (operation_finish FAL_SUCCESS f'), x1, [])"
    and "f_sync_issued f \<or> p_sync (d_ops d) = None" "f_chunk_length f = f_remaining f"
    and "f_stop_requested f' = f_stop_requested f" "0 < m"
  shows "completes m d f x"
proof -
  have "fal_poll (Suc 0) (Some f) x = (Some (operation_finish FAL_SUCCESS f'), x1,
      map (span_call (f_operation f) (d_device_id d)) [] @ (if f_sync_issued f then [] else sync_calls d))"
    using assms(1,2) by (auto simp: sync_calls_def)
  moreover have "Suc 0 \<le> m" using assms(5) by simp
  ultimately show ?thesis
    unfolding completes_def using assms(3,4)
    by (intro exI [of _ "Suc 0"] exI [of _ "operation_finish FAL_SUCCESS f'"] exI [of _ x1] exI [of _ "[]"] conjI)
      simp_all
qed

text \<open>Handing over a chunk puts its span in front of the remaining ones.\<close>

lemma buffer_of_submit [simp]: "buffer_of (f\<lparr>f_chunk_length := n, f_state := s\<rparr>) = buffer_of f"
  by (cases "f_operation f") (simp_all add: buffer_of_def)

lemma completes_issue:
  assumes "fal_process (Some f) x = (Some g, x1, [span_call (f_operation f) (d_device_id d)
      (f_physical_address f, n, buffer_of f)])" "completes m d g x1"
    and g: "g = f\<lparr>f_chunk_length := n, f_state := STATE_WAIT_DEVICE\<rparr>" and n: "0 < n" and f: "f_chunk_length f = 0"
  shows "completes (Suc m) d f x"
proof -
  have gp: "f_operation g = f_operation f" "f_sync_issued g = f_sync_issued f" "f_physical_address g = f_physical_address f"
    "f_remaining g = f_remaining f" "f_chunk_length g = n" "buffer_of g = buffer_of f"
    "f_stop_requested g = f_stop_requested f"
    by (simp_all add: g)
  obtain k h x' spans where c: "k \<le> m"
    "fal_poll k (Some g) x1 = (Some h, x', map (span_call (f_operation f) (d_device_id d)) spans
        @ (if f_sync_issued f then [] else sync_calls d))"
    "contiguous (unat (f_physical_address f) + unat n) (map_option (\<lambda>p. p + unat n) (buffer_of f)) spans
      (unat (f_physical_address f) + unat (f_remaining f))"
    "at_rest h" "f_result h = FAL_SUCCESS" "f_stop_requested h = f_stop_requested f"
    using assms(2) unfolding completes_def gp by blast
  have "Suc k \<le> Suc m" using c(1) by simp
  moreover have "fal_poll (Suc k) (Some f) x = (Some h, x', map (span_call (f_operation f) (d_device_id d))
      ((f_physical_address f, n, buffer_of f) # spans) @ (if f_sync_issued f then [] else sync_calls d))"
    using fal_poll_Suc [OF assms(1) c(2)] by simp
  moreover have "contiguous (unat (f_physical_address f) + unat (f_chunk_length f))
      (map_option (\<lambda>p. p + unat (f_chunk_length f)) (buffer_of f)) ((f_physical_address f, n, buffer_of f) # spans)
      (unat (f_physical_address f) + unat (f_remaining f))"
    using c(3) n f by (simp add: word_less_nat_alt option.map_ident)
  ultimately show ?thesis unfolding completes_def using c(4-6) by blast
qed

text \<open>Entering the final synchronisation: one call, then one more poll.\<close>

lemma completes_sync:
  assumes "fal_process (Some f) x = (Some g, x1, [Flash_Sync (d_device_id d)])" "completes m d g x1"
    and "f_operation g = f_operation f" "f_sync_issued g" "\<not> f_sync_issued f" "f_stop_requested g = f_stop_requested f"
    and "f_remaining g = 0" "f_chunk_length g = 0" "f_chunk_length f = f_remaining f" "p_sync (d_ops d) \<noteq> None"
  shows "completes (Suc m) d f x"
proof -
  obtain k h x' spans where c: "k \<le> m"
    "fal_poll k (Some g) x1 = (Some h, x', map (span_call (f_operation g) (d_device_id d)) spans)"
    "contiguous (unat (f_physical_address g)) (map_option (\<lambda>p. p) (buffer_of g)) spans (unat (f_physical_address g))"
    "at_rest h" "f_result h = FAL_SUCCESS" "f_stop_requested h = f_stop_requested f"
    using assms(2,4,6-8) unfolding completes_def by auto
  have "spans = []"
  proof (cases spans)
    case (Cons sp rest)
    have le: "contiguous a p ss e \<Longrightarrow> a \<le> e" for a p ss e
      by (induction a p ss e rule: contiguous.induct) auto
    obtain b n q where sp: "sp = (b, n, q)" by (cases sp) auto
    show ?thesis using c(3) le [of "unat (f_physical_address g) + unat n"] unfolding Cons sp by fastforce
  qed
  then have "fal_poll (Suc k) (Some f) x = (Some h, x',
      map (span_call (f_operation f) (d_device_id d)) [] @ (if f_sync_issued f then [] else sync_calls d))"
    using fal_poll_Suc [OF assms(1) c(2)] assms(5,10) by (simp add: sync_calls_def)
  moreover have "Suc k \<le> Suc m" using c(1) by simp
  ultimately show ?thesis
    unfolding completes_def using c(4-6) assms(9) by (intro exI conjI) (assumption+, simp_all)
qed

lemma completes_mono: "completes m d f x \<Longrightarrow> m \<le> m' \<Longrightarrow> completes m' d f x"
  unfolding completes_def using order_trans by blast

lemma process_poll_next:
  assumes "layout_ok ds" "d \<in> set ds" "f_cfg f = Some (Some ds)" "active_on d f"
    and "the (p_get_state (d_ops d)) x = (DEVICE_READY, x1)" "poll_next d f x1 = (g, x2, cs)"
  shows "fal_process (Some f) x = (Some g, x2, cs)"
  by (simp add: fal_process_active [OF assms(1-4)] device_process_active [OF assms(4)] assms(5,6))

text \<open>By the amount of work left, then by how long the device stays busy.\<close>

lemma active_completes:
  assumes L: "layout_ok ds" "d \<in> set ds" and R: "responsive d busy bound"
    and act: "f_cfg f = Some (Some ds)" "active_on d f"
  shows "completes (work f * Suc bound + busy x) d f x"
  using act
proof (induction "work f * Suc bound + busy x" arbitrary: f x rule: less_induct)
  case less
  note act = less.prems
  obtain s x1 where s: "the (p_get_state (d_ops d)) x = (s, x1)" by fastforce
  have B: "busy y \<le> bound" for y using R by (simp add: responsive_def)
  have ns: "s \<noteq> DEVICE_ERROR" "s = DEVICE_BUSY \<Longrightarrow> busy x1 < busy x"
    using R s unfolding responsive_def by (metis fst_conv, metis fst_conv snd_conv)
  have down: "completes (work f * Suc bound + busy x - 1) d g y"
    if "work g < work f" "f_cfg g = Some (Some ds)" "active_on d g" for g y
  proof -
    have "Suc (work g) * Suc bound \<le> work f * Suc bound" using that(1) by (intro mult_le_mono) simp_all
    then have "work g * Suc bound + busy y < work f * Suc bound" using B [of y] by simp
    then have le: "work g * Suc bound + busy y < work f * Suc bound + busy x" by linarith
    show ?thesis
      by (rule completes_mono [OF less.hyps [OF le that(2,3)]]) (use le in linarith)
  qed
  have pos: "0 < work f * Suc bound + busy x" by (simp add: work_def)
  then have up: "completes (Suc (work f * Suc bound + busy x - 1)) d f x
      \<Longrightarrow> completes (work f * Suc bound + busy x) d f x" by simp
  show ?case
  proof (cases "s = DEVICE_BUSY")
    case True
    then have p: "fal_process (Some f) x = (Some f, x1, [])"
      by (simp add: fal_process_active [OF L act] device_process_active [OF act(2)] s)
    have lt: "work f * Suc bound + busy x1 < work f * Suc bound + busy x" using ns(2) [OF True] by simp
    show ?thesis
      by (rule up, rule completes_step [OF p completes_mono [OF less.hyps [OF lt act]]]) (use lt in simp_all)
  next
    case False
    then have ready: "the (p_get_state (d_ops d)) x = (DEVICE_READY, x1)" using s ns(1) by (cases s) auto
    note P = process_poll_next [OF L act ready]
    consider "due f" | "in_flight f" | "syncing f" using act(2) by (auto simp: active_on_def)
    then show ?thesis
    proof cases
      case 1
      note c = chunk_get_ok [OF L act(2) 1]
      let ?g = "f\<lparr>f_chunk_length := chunk_get d f, f_state := STATE_WAIT_DEVICE\<rparr>"
      obtain x2 where sub: "driver_submit d f x1 = (FAL_SUCCESS, x2)"
        using responsive_submit [OF R, of f x1] act(2) by (metis active_on_def prod.collapse)
      have i: "\<not> in_flight f" "\<not> syncing f" using 1 by (auto simp: due_def in_flight_def syncing_def)
      have n: "poll_next d f x1 = (?g, x2, [span_call (f_operation f) (d_device_id d)
          (f_physical_address f, chunk_get d f, buffer_of f)])"
        using i by (simp add: poll_next_def sub)
      have "in_flight ?g" using 1 c by (simp add: in_flight_def due_def)
      moreover from this have "work ?g < work f" using i by (auto simp: work_def in_flight_def syncing_def)
      moreover have "active_on d ?g"
        using poll_next_ok(3) [OF L act(2) n] calculation(1) act(2) by (auto simp: at_rest_def active_on_def)
      ultimately show ?thesis
        using completes_issue [OF P [OF n] down refl c(3)] act(1) 1 up by (simp add: due_def)
    next
      case 2
      then have i: "\<not> syncing f" by (auto simp: in_flight_def syncing_def)
      note w = commit_window [OF L act(2) 2]
      let ?h = "completed_chunk_commit f"
      show ?thesis
      proof (cases "f_chunk_length f = f_remaining f")
        case False
        let ?g = "?h\<lparr>f_state := state_of (f_operation f)\<rparr>"
        have n: "poll_next d f x1 = (?g, x1, [])" using 2 i False by (simp add: poll_next_def)
        have g: "\<not> syncing ?g" "\<not> in_flight ?g" by (simp_all add: syncing_def in_flight_def)
        have wk: "work ?g < work f" using g i 2 w by (simp add: work_def)
        have a: "active_on d ?g"
          using poll_next_ok(3) [OF L act(2) n] act(2) by (auto simp: at_rest_def active_on_def)
        have b: "buffer_of ?g = map_option (\<lambda>p. p + unat (f_chunk_length f)) (buffer_of f)"
          by (simp add: buffer_of_def completed_chunk_commit_def Let_def split: fal_operation_type.splits)
        show ?thesis
          by (rule up, rule completes_step [OF P [OF n] down [OF wk _ a]])
            (use w act(1) in \<open>simp_all add: b option.map_ident\<close>)
      next
        case True
        have n: "poll_next d f x1 = operation_complete_or_sync d ?h x1" using 2 i True by (simp add: poll_next_def)
        show ?thesis
        proof (cases "p_sync (d_ops d)")
          case None
          then have "poll_next d f x1 = (operation_finish FAL_SUCCESS ?h, x1, [])"
            using n by (simp add: operation_complete_or_sync_def)
          from completes_finish [OF P [OF this], of d] show ?thesis using None True pos by simp
        next
          case (Some sync)
          obtain x2 where sx: "sync x1 = (FAL_SUCCESS, x2)"
            using R Some unfolding responsive_def by (metis option.sel option.simps(3) prod.collapse)
          let ?g = "?h\<lparr>f_sync_issued := True, f_chunk_length := 0, f_state := STATE_WAIT_DEVICE\<rparr>"
          have ni: "\<not> f_sync_issued f" using 2 by (simp add: in_flight_def)
          have n': "poll_next d f x1 = (?g, x2, [Flash_Sync (d_device_id d)])"
            using n Some sx ni by (simp add: operation_complete_or_sync_def)
          have sg: "syncing ?g" using True by (simp add: syncing_def)
          have wk: "work ?g < work f" using sg i 2 w by (simp add: work_def)
          have a: "active_on d ?g"
            using poll_next_ok(3) [OF L act(2) n'] act(2) by (auto simp: at_rest_def active_on_def)
          show ?thesis
            by (rule up, rule completes_sync [OF P [OF n'] down [OF wk _ a]])
              (use ni True Some act(1) in simp_all)
        qed
      qed
    next
      case 3
      then have "poll_next d f x1 = (operation_finish FAL_SUCCESS f, x1, [])" by (simp add: poll_next_def)
      from completes_finish [OF P [OF this], of d] 3 show ?thesis using pos by (simp add: syncing_def)
    qed
  qed
qed

end
