(* ===== verification/Fal_Props.thy ===== *)
theory Fal_Props
  imports Fal_Completion
begin

text \<open>
  The properties of the flash abstraction layer (code/lib/fal/fal_core.c): what a mount
  accepts, where the driver is allowed to work, how requests complete, fail and stop, and the
  runtime that drives several instances.
\<close>

section \<open>A sample configuration\<close>

text \<open>A driver over a counter of busy looks, and a device of one 8 KiB zone.\<close>

definition sample_ops :: "nat fal_flash_ops" where
  "sample_ops =
     \<lparr>p_init = Some (\<lambda>x. (FAL_SUCCESS, 0)),
      p_get_state = Some (\<lambda>x. if x = 0 then (DEVICE_READY, 0) else (DEVICE_BUSY, min (x - 1) 1)),
      p_read = Some (\<lambda>x a n p. (FAL_SUCCESS, 1)), p_program = Some (\<lambda>x a n p. (FAL_SUCCESS, 1)),
      p_erase = Some (\<lambda>x a n. (FAL_SUCCESS, 2)), p_sync = Some (\<lambda>x. (FAL_SUCCESS, 1))\<rparr>"

definition sample_zone :: fal_zone_cfg where
  "sample_zone = \<lparr>z_zone_id = 7, z_size = 8192, z_permissions = 7\<rparr>"

definition sample_device :: "nat fal_device_cfg" where
  "sample_device =
     \<lparr>d_device_id = 1, d_capacity = 16384, d_program_page_size = 256, d_erase_block_size = 4096,
      d_max_read_size = 64, d_zones = Some [sample_zone], d_ops = sample_ops, d_program_unit_size = 4\<rparr>"

definition sample_fal :: "nat fal" where
  "sample_fal = fal_zeroed\<lparr>f_cfg := Some (Some [sample_device]), f_state := STATE_IDLE, f_operation_state := STATE_IDLE\<rparr>"

lemma sample_layout: "layout_ok [sample_device]"
  by (simp add: layout_ok_def device_ok_def geometry_ok_def driver_complete_def zone_ok_def zone_ids_unique_def
      zone_sizes_def zones_def sample_device_def sample_zone_def sample_ops_def PERMISSION_ALL_def PERMISSION_READ_def
      PERMISSION_WRITE_def PERMISSION_ERASE_def)

lemma sample_init: "fal_init (Some fal_zeroed) (Some (Some [sample_device])) 0 = (FAL_SUCCESS, Some sample_fal, 0, [Flash_Init 1])"
  by (simp add: fal_init_def Let_def cfg_validate_iff sample_layout)
    (simp add: sample_device_def sample_ops_def sample_fal_def fal_zeroed_def)

lemma sample_responsive: "responsive sample_device (\<lambda>x. min x 2) 2"
  by (auto simp: responsive_def sample_device_def sample_ops_def)

lemma sample_at: "zone_find [sample_device] 7 = Some (sample_zone, sample_device, 0)"
  by (simp add: zones_def sample_device_def sample_zone_def)

lemma sample_fields [simp]:
  "f_cfg sample_fal = Some (Some [sample_device])" "f_state sample_fal = STATE_IDLE"
  "f_operation sample_fal = OPERATION_NONE" "z_size sample_zone = 8192" "z_permissions sample_zone = 7"
  "d_program_unit_size sample_device = 4" "d_erase_block_size sample_device = 4096" "d_device_id sample_device = 1"
  "d_ops sample_device = sample_ops"
  by (simp_all add: sample_fal_def fal_zeroed_def sample_zone_def sample_device_def)

lemma sample_validate:
  assumes "perm = PERMISSION_READ \<or> perm = PERMISSION_WRITE \<or> perm = PERMISSION_ERASE"
  shows "request_validate (Some sample_fal) 7 100 600 perm = Inr (sample_zone, sample_device, 0)"
  using assms
  by (elim disjE)
    (simp_all add: request_validate_def fal_is_busy_def sample_at PERMISSION_READ_def PERMISSION_WRITE_def
      PERMISSION_ERASE_def del: zone_find.simps)

section \<open>Spans as copies\<close>

text \<open>A program span copies caller bytes into the flash, a read span flash bytes into the caller's buffer.\<close>

definition program_span :: "(nat \<Rightarrow> u8) \<Rightarrow> span \<Rightarrow> (nat \<Rightarrow> u8) \<Rightarrow> nat \<Rightarrow> u8" where
  "program_span ram s flash i =
     (case s of (b, n, q) \<Rightarrow> if unat b \<le> i \<and> i < unat b + unat n then ram (the q + (i - unat b)) else flash i)"

definition read_span :: "(nat \<Rightarrow> u8) \<Rightarrow> span \<Rightarrow> (nat \<Rightarrow> u8) \<Rightarrow> nat \<Rightarrow> u8" where
  "read_span flash s ram i =
     (case s of (b, n, q) \<Rightarrow> if the q \<le> i \<and> i < the q + unat n then flash (unat b + (i - the q)) else ram i)"

lemma contiguous_program:
  "contiguous a (Some p) spans e \<Longrightarrow>
    a \<le> e \<and> fold (program_span ram) spans flash = (\<lambda>i. if a \<le> i \<and> i < e then ram (p + (i - a)) else flash i)"
proof (induction a "Some p" spans e arbitrary: p flash rule: contiguous.induct)
  case (2 a b n q spans e)
  then have h: "unat b = a" "q = Some p" "contiguous (a + unat n) (Some (p + unat n)) spans e" by simp_all
  show ?case using 2(1) [of "p + unat n" "program_span ram (b, n, q) flash", OF _ h(3)] h
    by (auto simp: fun_eq_iff program_span_def)
qed (auto simp: fun_eq_iff)

lemma contiguous_read:
  "contiguous a (Some p) spans e \<Longrightarrow>
    a \<le> e \<and> fold (read_span flash) spans ram = (\<lambda>i. if p \<le> i \<and> i < p + (e - a) then flash (a + (i - p)) else ram i)"
proof (induction a "Some p" spans e arbitrary: p ram rule: contiguous.induct)
  case (2 a b n q spans e)
  then have h: "unat b = a" "q = Some p" "contiguous (a + unat n) (Some (p + unat n)) spans e" by simp_all
  show ?case using 2(1) [of "p + unat n" "read_span flash (b, n, q) ram", OF _ h(3)] h
    by (auto simp: fun_eq_iff read_span_def)
qed (auto simp: fun_eq_iff)

lemma trace_append: "fal_trace g cs' h \<Longrightarrow> fal_trace f cs g \<Longrightarrow> fal_trace f (cs @ cs') h"
proof (induction rule: fal_trace.induct)
  case (trace_step g cs' g' cs'' h)
  from fal_trace.trace_step [OF trace_step.IH [OF trace_step.prems] trace_step.hyps(2)] show ?case by simp
qed simp

lemma fal_poll_trace: "fal_poll k (Some g) x = (p', x', cs) \<Longrightarrow> \<exists>h. p' = Some h \<and> fal_trace g cs h"
proof (induction k arbitrary: g x cs p' x')
  case (Suc k)
  obtain p1 x1 c1 where q: "fal_process (Some g) x = (p1, x1, c1)" using prod_cases3 by blast
  then obtain g1 where g1: "p1 = Some g1" by (auto simp: fal_process_def split: if_splits option.splits prod.splits)
  obtain p2 x2 c2 where r: "fal_poll k (Some g1) x1 = (p2, x2, c2)" using prod_cases3 by blast
  have "fal_trace g c1 g1" using trace_step [OF trace_refl step_process] q g1 by fastforce
  with Suc.IH [OF r] show ?case using Suc.prems q g1 r trace_append by fastforce
qed (auto intro: trace_refl)

lemma contiguous_blocks:
  "contiguous a p spans e \<Longrightarrow> (\<And>s n q. (s, n, q) \<in> set spans \<Longrightarrow> unat n = B) \<Longrightarrow>
    map (\<lambda>s. unat (fst s)) spans = map (\<lambda>i. a + i * B) [0..<length spans] \<and> a + length spans * B = e"
proof (induction a p spans e rule: contiguous.induct)
  case (2 a p b n q spans e)
  have n: "unat n = B" "unat b = a" using 2(2,3) by auto
  have "map (\<lambda>s. unat (fst s)) spans = map (\<lambda>i. a + B + i * B) [0..<length spans] \<and> a + B + length spans * B = e"
    using 2(1) 2(2,3) n by fastforce
  moreover have "map (\<lambda>i. a + i * B) [0..<Suc (length spans)] = a # map (\<lambda>i. a + B + i * B) [0..<length spans]"
    by (subst upt_conv_Cons) (simp_all add: map_Suc_upt [symmetric] del: upt_Suc)
  ultimately show ?case using n by (simp del: upt_Suc)
qed simp

lemma fal_erase_accepts:
  assumes "layout_ok ds" "fal_inv ds f" "request_validate (Some f) zid offset len PERMISSION_ERASE = Inr (z, d, off)"
    and "len \<noteq> 0"
  shows "\<exists>g. fal_erase zid offset len (Some f) = (FAL_IN_PROGRESS, Some g)"
proof -
  note V = request_validate_Inr [OF assms(1-3)]
  have "z_permissions z AND operation_permission OPERATION_ERASE \<noteq> 0" using V(3) by (simp add: operation_permission_def)
  note Z = zone_range(5) [OF assms(1) V(1,4) this]
  have B: "0 < unat (d_erase_block_size d)" using layout_okD(2) [OF assms(1) V(7)] by (simp add: geometry_ok_def)
  have "0 < len" using assms(4) by (simp add: word_neq_0_conv)
  note W = erase_words(3) [OF V(4) Z B this]
  then show ?thesis using assms(3,4) by (auto simp: fal_erase_def Let_def not_less)
qed

text \<open>Accepted requests complete.\<close>

lemma request_completes:
  assumes "layout_ok ds" "d \<in> set ds" "fal_inv ds g" "responsive d busy bound" "active_on d g" "due g"
  obtains k h x' spans where "k \<le> (2 * unat (f_remaining g) + 3) * Suc bound"
    "fal_poll k (Some g) x = (Some h, x', map (span_call (f_operation g) (d_device_id d)) spans @ sync_calls d)"
    "contiguous (unat (f_physical_address g)) (buffer_of g) spans (unat (f_physical_address g) + unat (f_remaining g))"
    "at_rest h" "f_result h = FAL_SUCCESS" "f_stop_requested h = f_stop_requested g"
proof -
  have c: "f_cfg g = Some (Some ds)" using assms(3) by (simp add: fal_inv_def)
  have g: "f_chunk_length g = 0" "\<not> f_sync_issued g" using assms(6) by (simp_all add: due_def)
  have "busy x \<le> bound" using assms(4) by (simp add: responsive_def)
  moreover have "work g \<le> 2 * unat (f_remaining g) + 2" by (simp add: work_def)
  then have "work g * Suc bound \<le> (2 * unat (f_remaining g) + 2) * Suc bound" by (rule mult_le_mono1)
  ultimately have "work g * Suc bound + busy x \<le> (2 * unat (f_remaining g) + 3) * Suc bound"
    by (simp add: algebra_simps)
  from completes_mono [OF active_completes [OF assms(1,2,4) c assms(5), of x] this] show thesis
    using g by (auto simp: completes_def option.map_ident intro: that)
qed

lemma init_trace:
  assumes "fal_init (Some f0) (Some (Some ds)) x0 = (FAL_SUCCESS, Some f1, x1, cs0)" "fal_trace f1 cs f"
  shows "layout_ok ds" "fal_inv ds f"
proof -
  have "layout_ok ds" "fal_inv ds f1" by (rule fal_init_SUCCESS [OF assms(1)]; simp)+
  then show "layout_ok ds" "fal_inv ds f" using fal_trace_inv [OF assms(2)] by blast+
qed

section \<open>Properties\<close>

text \<open>C28: mounting accepts exactly the well-formed layouts: every device has a finite geometry and all mandatory
  callbacks, its zones consist of whole erase blocks, carry at least one known right and together fit the capacity,
  and device and zone identifiers are unique.  The running 32-bit offset of the code never wraps on the way.\<close>

theorem fal_mount_layout: "cfg_validate ds = FAL_SUCCESS \<longleftrightarrow> layout_ok ds"
  by (rule cfg_validate_iff)

text \<open>C26: whatever requests, polls and stop requests follow a successful mount, and whatever the driver answers, every
  call the driver receives names a mounted device and stays inside one zone that grants the operation; programs do not
  cross a page and are aligned to the program unit, erases are single aligned blocks, reads respect the maximum.\<close>

theorem fal_calls_in_zones:
  assumes "fal_init (Some f0) (Some (Some ds)) x = (FAL_SUCCESS, Some f, x1, cs0)" and "fal_trace f cs g"
    and "c \<in> set (cs0 @ cs)"
  shows "call_ok ds c"
proof -
  have "layout_ok ds" "fal_inv ds f" and c: "cs0 = map (\<lambda>d. Flash_Init (d_device_id d)) ds"
    by (rule fal_init_SUCCESS [OF assms(1)]; simp)+
  then have "\<forall>c \<in> set cs. call_ok ds c" using fal_trace_inv [OF assms(2)] by blast
  moreover have "\<forall>c \<in> set cs0. call_ok ds c" unfolding c by (auto simp: call_ok_def)
  ultimately show ?thesis using assms(3) by auto
qed

text \<open>C27: an accepted write, polled on a responsive driver, completes with success after at most
  \<open>(2 * len + 3) * (bound + 1)\<close> polls; the driver has then seen exactly the chunks of the requested range in ascending
  order, followed by one synchronisation where the driver has one, and programming those chunks amounts to copying the
  caller's \<open>len\<close> bytes to \<open>zone address + offset\<close> and leaving every other flash byte alone.\<close>

theorem fal_write_completes:
  assumes "fal_init (Some f0) (Some (Some ds)) x0 = (FAL_SUCCESS, Some f1, x1, cs0)" and "fal_trace f1 cs f"
    and "fal_write zone_id offset len (Some p) (Some f) = (FAL_IN_PROGRESS, Some g)"
    and "\<And>d. d \<in> set ds \<Longrightarrow> responsive d busy bound"
  shows "\<exists>z d off k h x' spans.
    zone_find ds zone_id = Some (z, d, off) \<and> k \<le> (2 * unat len + 3) * Suc bound
    \<and> fal_poll k (Some g) x = (Some h, x', map (span_call OPERATION_WRITE (d_device_id d)) spans @ sync_calls d)
    \<and> fold (program_span ram) spans flash
        = (\<lambda>i. if unat off + unat offset \<le> i \<and> i < unat off + unat offset + unat len
               then ram (p + (i - (unat off + unat offset))) else flash i)
    \<and> fal_is_busy (Some h) = False \<and> fal_result_get (Some h) = FAL_SUCCESS"
proof -
  note I = init_trace [OF assms(1,2)]
  from fal_write_accept [OF I assms(3) refl] obtain z d off where a: "zone_at ds z d off" "d \<in> set ds"
    "z_zone_id z = zone_id" "active_on d g" "due g" "unat (off + offset) = unat off + unat offset"
    and g: "g = (request_begin d OPERATION_WRITE STATE_WRITE (off + offset) len f)\<lparr>f_write_data := Some p\<rparr>"
    by metis
  have "fal_inv ds g" using I(2) a(2,4) by (auto simp: fal_inv_def g)
  from request_completes [OF I(1) a(2) this assms(4) [OF a(2)] a(4,5), of x] obtain k h x' spans where
    c: "k \<le> (2 * unat (f_remaining g) + 3) * Suc bound"
    "fal_poll k (Some g) x = (Some h, x', map (span_call (f_operation g) (d_device_id d)) spans @ sync_calls d)"
    "contiguous (unat (f_physical_address g)) (buffer_of g) spans (unat (f_physical_address g) + unat (f_remaining g))"
    "at_rest h" "f_result h = FAL_SUCCESS"
    by metis
  have p: "f_remaining g = len" "f_operation g = OPERATION_WRITE" "f_physical_address g = off + offset"
    "buffer_of g = Some p"
    by (simp_all add: g request_begin_def buffer_of_def)
  have "zone_find ds zone_id = Some (z, d, off)" using a(1,3) by (simp add: zone_find_iff [OF I(1)])
  moreover note c(1,2) [unfolded p] contiguous_program [OF c(3) [unfolded p a(6)], THEN conjunct2, of ram flash]
  moreover have "fal_is_busy (Some h) = False" "fal_result_get (Some h) = FAL_SUCCESS"
    using c(4,5) by (simp_all add: at_rest_def fal_is_busy_def fal_result_get_def)
  ultimately show ?thesis by blast
qed

theorem fal_write_completes_witness:
  "\<exists>g z d off k h x' spans.
    fal_write 7 100 600 (Some 1000) (Some sample_fal) = (FAL_IN_PROGRESS, Some g)
    \<and> zone_find [sample_device] 7 = Some (z, d, off) \<and> k \<le> (2 * 600 + 3) * Suc 2
    \<and> fal_poll k (Some g) 0 = (Some h, x', map (span_call OPERATION_WRITE (d_device_id d)) spans @ sync_calls d)
    \<and> fold (program_span (\<lambda>i. of_nat i)) spans (\<lambda>i. 255)
        = (\<lambda>i. if unat off + 100 \<le> i \<and> i < unat off + 100 + 600 then of_nat (1000 + (i - (unat off + 100))) else 255)
    \<and> fal_is_busy (Some h) = False \<and> fal_result_get (Some h) = FAL_SUCCESS"
proof -
  obtain g where g: "fal_write 7 100 600 (Some 1000) (Some sample_fal) = (FAL_IN_PROGRESS, Some g)"
    by (simp add: fal_write_def sample_validate)
  have R: "d \<in> set [sample_device] \<Longrightarrow> responsive d (\<lambda>x. min x 2) 2" for d using sample_responsive by simp
  have n: "unat (100 :: u32) = 100" "unat (600 :: u32) = 600" by simp_all
  show ?thesis
    using fal_write_completes [OF sample_init trace_refl g R, of 0 "\<lambda>i. of_nat i" "\<lambda>i. 255"] g
    unfolding n by blast
qed

text \<open>An accepted read, polled on a responsive driver, completes with success within the same bound; the chunks
  the driver has seen copy exactly the requested flash range into the caller's buffer and nothing else.\<close>

theorem fal_read_completes:
  assumes "fal_init (Some f0) (Some (Some ds)) x0 = (FAL_SUCCESS, Some f1, x1, cs0)" and "fal_trace f1 cs f"
    and "fal_read zone_id offset len (Some p) (Some f) = (FAL_IN_PROGRESS, Some g)"
    and "\<And>d. d \<in> set ds \<Longrightarrow> responsive d busy bound"
  shows "\<exists>z d off k h x' spans.
    zone_find ds zone_id = Some (z, d, off) \<and> k \<le> (2 * unat len + 3) * Suc bound
    \<and> fal_poll k (Some g) x = (Some h, x', map (span_call OPERATION_READ (d_device_id d)) spans @ sync_calls d)
    \<and> fold (read_span flash) spans ram
        = (\<lambda>i. if p \<le> i \<and> i < p + unat len then flash (unat off + unat offset + (i - p)) else ram i)
    \<and> fal_is_busy (Some h) = False \<and> fal_result_get (Some h) = FAL_SUCCESS"
proof -
  note I = init_trace [OF assms(1,2)]
  from fal_read_accept [OF I assms(3) refl] obtain z d off where a: "zone_at ds z d off" "d \<in> set ds"
    "z_zone_id z = zone_id" "active_on d g" "due g" "unat (off + offset) = unat off + unat offset"
    and g: "g = (request_begin d OPERATION_READ STATE_READ (off + offset) len f)\<lparr>f_read_data := Some p\<rparr>"
    by metis
  have "fal_inv ds g" using I(2) a(2,4) by (auto simp: fal_inv_def g)
  from request_completes [OF I(1) a(2) this assms(4) [OF a(2)] a(4,5), of x] obtain k h x' spans where
    c: "k \<le> (2 * unat (f_remaining g) + 3) * Suc bound"
    "fal_poll k (Some g) x = (Some h, x', map (span_call (f_operation g) (d_device_id d)) spans @ sync_calls d)"
    "contiguous (unat (f_physical_address g)) (buffer_of g) spans (unat (f_physical_address g) + unat (f_remaining g))"
    "at_rest h" "f_result h = FAL_SUCCESS"
    by metis
  have p: "f_remaining g = len" "f_operation g = OPERATION_READ" "f_physical_address g = off + offset"
    "buffer_of g = Some p"
    by (simp_all add: g request_begin_def buffer_of_def)
  have "zone_find ds zone_id = Some (z, d, off)" using a(1,3) by (simp add: zone_find_iff [OF I(1)])
  moreover have "fold (read_span flash) spans ram
      = (\<lambda>i. if p \<le> i \<and> i < p + unat len then flash (unat off + unat offset + (i - p)) else ram i)"
    using contiguous_read [OF c(3) [unfolded p a(6)], of flash ram] by simp
  moreover have "fal_is_busy (Some h) = False" "fal_result_get (Some h) = FAL_SUCCESS"
    using c(4,5) by (simp_all add: at_rest_def fal_is_busy_def fal_result_get_def)
  ultimately show ?thesis using c(1,2) [unfolded p] by blast
qed

theorem fal_read_completes_witness:
  "\<exists>g z d off k h x' spans.
    fal_read 7 100 600 (Some 1000) (Some sample_fal) = (FAL_IN_PROGRESS, Some g)
    \<and> zone_find [sample_device] 7 = Some (z, d, off) \<and> k \<le> (2 * 600 + 3) * Suc 2
    \<and> fal_poll k (Some g) 0 = (Some h, x', map (span_call OPERATION_READ (d_device_id d)) spans @ sync_calls d)
    \<and> fold (read_span (\<lambda>i. of_nat i)) spans (\<lambda>i. 255)
        = (\<lambda>i. if 1000 \<le> i \<and> i < 1000 + 600 then of_nat (unat off + 100 + (i - 1000)) else 255)
    \<and> fal_is_busy (Some h) = False \<and> fal_result_get (Some h) = FAL_SUCCESS"
proof -
  obtain g where g: "fal_read 7 100 600 (Some 1000) (Some sample_fal) = (FAL_IN_PROGRESS, Some g)"
    by (simp add: fal_read_def sample_validate)
  have R: "d \<in> set [sample_device] \<Longrightarrow> responsive d (\<lambda>x. min x 2) 2" for d using sample_responsive by simp
  have n: "unat (100 :: u32) = 100" "unat (600 :: u32) = 600" by simp_all
  show ?thesis
    using fal_read_completes [OF sample_init trace_refl g R, of 0 "\<lambda>i. of_nat i" "\<lambda>i. 255"] g
    unfolding n by blast
qed

text \<open>An erase inside a zone is never refused for its rounding: it is accepted, and on a responsive driver it
  completes with success after erasing, block by block, exactly the smallest run of whole blocks around the request.\<close>

theorem fal_erase_completes:
  assumes "fal_init (Some f0) (Some (Some ds)) x0 = (FAL_SUCCESS, Some f1, x1, cs0)" and "fal_trace f1 cs f"
    and "request_validate (Some f) zone_id offset len PERMISSION_ERASE = Inr (z, d, off)" and "len \<noteq> 0"
    and "\<And>d. d \<in> set ds \<Longrightarrow> responsive d busy bound"
  shows "\<exists>g k h x' blocks.
    fal_erase zone_id offset len (Some f) = (FAL_IN_PROGRESS, Some g)
    \<and> fal_poll k (Some g) x
        = (Some h, x', map (\<lambda>a. Flash_Erase (d_device_id d) a (d_erase_block_size d)) blocks @ sync_calls d)
    \<and> map unat blocks
        = map (\<lambda>i. unat off + block_floor (unat (d_erase_block_size d)) (unat offset) + i * unat (d_erase_block_size d))
            [0..<length blocks]
    \<and> unat off + block_floor (unat (d_erase_block_size d)) (unat offset) + length blocks * unat (d_erase_block_size d)
        = unat off + block_ceiling (unat (d_erase_block_size d)) (unat offset + unat len)
    \<and> fal_is_busy (Some h) = False \<and> fal_result_get (Some h) = FAL_SUCCESS"
proof -
  note I = init_trace [OF assms(1,2)]
  let ?B = "d_erase_block_size d"
  obtain g where e: "fal_erase zone_id offset len (Some f) = (FAL_IN_PROGRESS, Some g)"
    using fal_erase_accepts [OF I assms(3,4)] by blast
  note V = request_validate_Inr [OF I assms(3)]
  from fal_erase_accept [OF I e refl] obtain z' d' off' a n where a': "zone_at ds z' d' off'" "z_zone_id z' = zone_id"
    and b: "active_on d' g" "due g" "unat a = unat off' + block_floor (unat (d_erase_block_size d')) (unat offset)"
      "unat a + unat n = unat off' + block_ceiling (unat (d_erase_block_size d')) (unat offset + unat len)"
    and g: "g = request_begin d' OPERATION_ERASE STATE_ERASE a n f"
    by metis
  have "z' = z \<and> d' = d \<and> off' = off" using zone_at_unique [OF I(1) a'(1) V(1)] a'(2) V(2) by simp
  note a = V(7) b [unfolded this [THEN conjunct1] this [THEN conjunct2, THEN conjunct1] this [THEN conjunct2, THEN conjunct2]]
    and g = g [unfolded this [THEN conjunct2, THEN conjunct1]]
  have ig: "fal_inv ds g" using I(2) a(1,2) by (auto simp: fal_inv_def g)
  from request_completes [OF I(1) a(1) ig assms(5) [OF a(1)] a(2,3), of x] obtain k h x' spans where
    c: "fal_poll k (Some g) x = (Some h, x', map (span_call (f_operation g) (d_device_id d)) spans @ sync_calls d)"
    "contiguous (unat (f_physical_address g)) (buffer_of g) spans (unat (f_physical_address g) + unat (f_remaining g))"
    "at_rest h" "f_result h = FAL_SUCCESS"
    by metis
  have p: "f_remaining g = n" "f_operation g = OPERATION_ERASE" "f_physical_address g = a" "buffer_of g = None"
    by (simp_all add: g request_begin_def buffer_of_def)
  have block: "m = ?B" if "(s, m, q) \<in> set spans" for s m q
  proof -
    have "\<forall>c \<in> set (map (span_call (f_operation g) (d_device_id d)) spans @ sync_calls d). call_ok ds c"
      using fal_poll_trace [OF c(1)] fal_trace_inv [OF _ I(1) ig] by blast
    then have "call_ok ds (span_call OPERATION_ERASE (d_device_id d) (s, m, q))" using that p(2) by auto
    then obtain d2 where d2: "d2 \<in> set ds" "d_device_id d2 = d_device_id d" "unat m = unat (d_erase_block_size d2)"
      by (auto simp: call_ok_def span_call_def chunk_ok_def)
    have "d2 = d" using I(1) d2(1,2) a(1) unfolding layout_ok_def distinct_map by (meson inj_onD)
    then show "m = ?B" using d2(3) by (simp add: word_unat_eq_iff)
  qed
  have calls: "map (span_call OPERATION_ERASE (d_device_id d)) spans
      = map (\<lambda>a. Flash_Erase (d_device_id d) a ?B) (map fst spans)"
    using block by (auto simp: span_call_def)
  have m: "map (\<lambda>s. unat (fst s)) spans = map (\<lambda>i. unat a + i * unat ?B) [0..<length spans]"
    "unat a + length spans * unat ?B = unat a + unat n"
    using contiguous_blocks [OF c(2), of "unat ?B"] block unfolding p by blast+
  have "map unat (map fst spans) = map (\<lambda>i. unat off + block_floor (unat ?B) (unat offset) + i * unat ?B)
      [0..<length (map fst spans)]"
    using m(1) unfolding a(4) by (simp add: comp_def)
  moreover have "unat off + block_floor (unat ?B) (unat offset) + length (map fst spans) * unat ?B
      = unat off + block_ceiling (unat ?B) (unat offset + unat len)"
    using m(2) a(4,5) by simp
  moreover have "fal_is_busy (Some h) = False" "fal_result_get (Some h) = FAL_SUCCESS"
    using c(3,4) by (simp_all add: at_rest_def fal_is_busy_def fal_result_get_def)
  ultimately show ?thesis using e c(1) [unfolded p calls] by blast
qed

theorem fal_erase_completes_witness:
  "\<exists>g k h x' blocks.
    fal_erase 7 100 600 (Some sample_fal) = (FAL_IN_PROGRESS, Some g)
    \<and> fal_poll k (Some g) 0
        = (Some h, x', map (\<lambda>a. Flash_Erase (d_device_id sample_device) a (d_erase_block_size sample_device)) blocks
                       @ sync_calls sample_device)
    \<and> fal_is_busy (Some h) = False \<and> fal_result_get (Some h) = FAL_SUCCESS"
proof -
  have v: "request_validate (Some sample_fal) 7 100 600 PERMISSION_ERASE = Inr (sample_zone, sample_device, 0)"
    by (rule sample_validate) simp
  have R: "d \<in> set [sample_device] \<Longrightarrow> responsive d (\<lambda>x. min x 2) 2" for d using sample_responsive by simp
  have n: "(600 :: u32) \<noteq> 0" by simp
  show ?thesis using fal_erase_completes [OF sample_init trace_refl v n R, of 0] by blast
qed

text \<open>The driver fails in a poll: its state is an error, or it refuses the chunk or the synchronisation.\<close>

definition driver_fails :: "'x fal_device_cfg \<Rightarrow> 'x fal \<Rightarrow> 'x \<Rightarrow> bool" where
  "driver_fails d f x \<longleftrightarrow>
     (case the (p_get_state (d_ops d)) x of
        (s, x1) \<Rightarrow>
          s = DEVICE_ERROR
          \<or> s = DEVICE_READY \<and> due f \<and> fst (driver_submit d f x1) \<noteq> FAL_SUCCESS
          \<or> s = DEVICE_READY \<and> in_flight f \<and> f_chunk_length f = f_remaining f
             \<and> (case p_sync (d_ops d) of None \<Rightarrow> False | Some sync \<Rightarrow> fst (sync x1) \<noteq> FAL_SUCCESS))"

lemma poll_next_result:
  assumes "active_on d f" "poll_next d f x = (g, x1, cs)"
  shows "f_result g = FAL_DRIVER_ERROR \<longleftrightarrow>
    due f \<and> fst (driver_submit d f x) \<noteq> FAL_SUCCESS
    \<or> in_flight f \<and> f_chunk_length f = f_remaining f
       \<and> (case p_sync (d_ops d) of None \<Rightarrow> False | Some sync \<Rightarrow> fst (sync x) \<noteq> FAL_SUCCESS)"
proof -
  have r: "f_result f = FAL_IN_PROGRESS" using assms(1) by (simp add: active_on_def)
  consider "due f" | "in_flight f" | "syncing f" using assms(1) by (auto simp: active_on_def)
  then show ?thesis
  proof cases
    case 1
    then have i: "\<not> in_flight f" "\<not> syncing f" by (auto simp: due_def in_flight_def syncing_def)
    show ?thesis using assms(2) i 1 r by (auto simp: poll_next_def split: prod.splits if_splits)
  next
    case 2
    then have i: "\<not> due f" "\<not> syncing f" "\<not> f_sync_issued f" by (auto simp: due_def in_flight_def syncing_def)
    show ?thesis
      using assms(2) i 2 r
      by (auto simp: poll_next_def operation_complete_or_sync_def split: prod.splits if_splits option.splits)
  next
    case 3
    then have i: "\<not> due f" "\<not> in_flight f" by (auto simp: due_def in_flight_def syncing_def)
    show ?thesis using assms(2) i 3 by (auto simp: poll_next_def)
  qed
qed

text \<open>A finished request, failed or not, leaves the instance stopped when a stop was requested and idle otherwise.\<close>

lemma fal_ended_state:
  assumes "fal_init (Some f0) (Some (Some ds)) x0 = (FAL_SUCCESS, Some f1, x1, cs0)" and "fal_trace f1 cs f"
    and "fal_is_busy (Some f)" and "fal_process (Some f) x = (Some g, x2, cs')" and "\<not> fal_is_busy (Some g)"
  shows "fal_state_get (Some g) = (if f_stop_requested f then STATE_STOPPED else STATE_IDLE)"
  using fal_process_inv [OF init_trace [OF assms(1,2)] assms(4)] assms(5)
  by (auto simp: fal_inv_def active_on_def at_rest_def fal_is_busy_def fal_state_get_def)

text \<open>C39: between API calls a request is either in progress or over.  A poll of a request in progress ends it with
  DRIVER\_ERROR exactly when the driver fails in that poll (its state is an error, the chunk is refused or the final
  synchronisation is refused); otherwise the request goes on, or it has succeeded.  A request that is over stays over,
  with its result: no later poll calls the driver or changes anything.\<close>

theorem fal_driver_errors:
  assumes "fal_init (Some f0) (Some (Some ds)) x0 = (FAL_SUCCESS, Some f1, x1, cs0)" and "fal_trace f1 cs f"
    and "fal_is_busy (Some f)" and "fal_process (Some f) x = (Some g, x2, cs')"
  shows "\<exists>d \<in> set ds. d_device_id d = f_active_device_id f
    \<and> (fal_result_get (Some g) = FAL_DRIVER_ERROR \<longleftrightarrow> driver_fails d f x)
    \<and> (fal_is_busy (Some g) \<longleftrightarrow> fal_result_get (Some g) = FAL_IN_PROGRESS)
    \<and> fal_result_get (Some g) \<in> {FAL_IN_PROGRESS, FAL_SUCCESS, FAL_DRIVER_ERROR}
    \<and> (\<not> fal_is_busy (Some g) \<longrightarrow> (\<forall>y. fal_process (Some g) y = (Some g, y, [])))"
proof -
  note I = init_trace [OF assms(1,2)]
  have c: "f_cfg f = Some (Some ds)" and "\<not> at_rest f"
    using I(2) assms(3) by (auto simp: fal_inv_def fal_is_busy_def at_rest_def)
  then obtain d where d: "d \<in> set ds" "active_on d f" using I(2) by (auto simp: fal_inv_def)
  note P = fal_process_inv [OF I assms(4)]
  have rest: "at_rest g \<or> f_operation g \<noteq> OPERATION_NONE \<and> f_result g = FAL_IN_PROGRESS"
    using P(1) by (auto simp: fal_inv_def active_on_def)
  obtain s y where s: "the (p_get_state (d_ops d)) x = (s, y)" by fastforce
  have p: "device_process d f x = (g, x2, cs')"
    using assms(4) fal_process_active [OF I(1) d(1) c d(2), of x] by (simp split: prod.splits)
  have r: "f_result f = FAL_IN_PROGRESS" using d(2) by (simp add: active_on_def)
  have "f_result g = FAL_DRIVER_ERROR \<longleftrightarrow> driver_fails d f x"
  proof (cases s)
    case DEVICE_READY
    then have "poll_next d f y = (g, x2, cs')" using p by (simp add: device_process_active [OF d(2)] s)
    from poll_next_result [OF d(2) this] show ?thesis using DEVICE_READY by (simp add: driver_fails_def s)
  next
    case DEVICE_BUSY
    then show ?thesis using p r by (auto simp: device_process_active [OF d(2)] s driver_fails_def)
  next
    case DEVICE_ERROR
    then show ?thesis using p by (auto simp: device_process_active [OF d(2)] s driver_fails_def)
  qed
  moreover have "d_device_id d = f_active_device_id f" using d(2) by (simp add: active_on_def)
  ultimately show ?thesis
    using rest d(1) P(2)
    by (intro bexI [of _ d]) (auto simp: at_rest_def fal_is_busy_def fal_result_get_def fal_process_def)
qed

definition sample_reading :: "nat fal" where
  "sample_reading =
     (request_begin sample_device OPERATION_READ STATE_READ 100 600 sample_fal)\<lparr>f_read_data := Some 1000\<rparr>"

lemma sample_read: "fal_read 7 100 600 (Some 1000) (Some sample_fal) = (FAL_IN_PROGRESS, Some sample_reading)"
  by (simp add: fal_read_def sample_validate sample_reading_def)

lemma sample_reading_trace: "fal_trace sample_fal [] sample_reading"
  using trace_step [OF trace_refl step_read [OF sample_read]] by simp

text \<open>The first poll of the request reads 64 bytes at the physical address 100 of the device.\<close>

theorem fal_calls_in_zones_witness:
  "\<exists>g x c. fal_process (Some sample_reading) 0 = (Some g, x, [c]) \<and> c = Flash_Read 1 100 64 (Some 1000)
    \<and> call_ok [sample_device] c"
proof -
  have "\<exists>g x. fal_process (Some sample_reading) 0 = (Some g, x, [Flash_Read 1 100 64 (Some 1000)])"
    by (simp add: fal_process_def device_process_def operation_issue_def sample_reading_def request_begin_def sample_ops_def
        read_chunk_get_def sample_device_def sample_fal_def fal_zeroed_def)
  then obtain g x where p: "fal_process (Some sample_reading) 0 = (Some g, x, [Flash_Read 1 100 64 (Some 1000)])" by blast
  have "fal_trace sample_fal ([] @ [Flash_Read 1 100 64 (Some 1000)]) g"
    by (rule trace_step [OF sample_reading_trace step_process [OF p]])
  from fal_calls_in_zones [OF sample_init this] p show ?thesis by auto
qed

text \<open>The same device with a driver that refuses every read.\<close>

definition refusing_device :: "nat fal_device_cfg" where
  "refusing_device = sample_device\<lparr>d_ops := sample_ops\<lparr>p_read := Some (\<lambda>x a n p. (FAL_DRIVER_ERROR, x))\<rparr>\<rparr>"

definition refusing_fal :: "nat fal" where
  "refusing_fal = sample_fal\<lparr>f_cfg := Some (Some [refusing_device])\<rparr>"

definition refused_reading :: "nat fal" where
  "refused_reading =
     (request_begin refusing_device OPERATION_READ STATE_READ 100 600 refusing_fal)\<lparr>f_read_data := Some 1000\<rparr>"

lemma refusing_init:
  "fal_init (Some fal_zeroed) (Some (Some [refusing_device])) 0 = (FAL_SUCCESS, Some refusing_fal, 0, [Flash_Init 1])"
proof -
  have "layout_ok [refusing_device]"
    using sample_layout
    by (simp add: layout_ok_def device_ok_def geometry_ok_def driver_complete_def zones_def refusing_device_def zone_ok_def
        zone_ids_unique_def zone_sizes_def)
  then show ?thesis
    by (simp add: fal_init_def Let_def cfg_validate_iff)
      (simp add: refusing_device_def sample_device_def sample_ops_def refusing_fal_def sample_fal_def fal_zeroed_def)
qed

lemma refused_trace: "fal_trace refusing_fal [] refused_reading"
proof -
  have "zone_find [refusing_device] 7 = Some (sample_zone, refusing_device, 0)"
    by (simp add: zones_def refusing_device_def sample_device_def sample_zone_def)
  then have "request_validate (Some refusing_fal) 7 100 600 PERMISSION_READ = Inr (sample_zone, refusing_device, 0)"
    by (simp add: request_validate_def fal_is_busy_def refusing_fal_def PERMISSION_READ_def del: zone_find.simps)
  then have "fal_read 7 100 600 (Some 1000) (Some refusing_fal) = (FAL_IN_PROGRESS, Some refused_reading)"
    by (simp add: fal_read_def refused_reading_def)
  then show ?thesis using trace_step [OF trace_refl step_read] by fastforce
qed

theorem fal_driver_errors_witness:
  "\<exists>g x2 cs'. fal_process (Some refused_reading) 0 = (Some g, x2, cs') \<and> fal_result_get (Some g) = FAL_DRIVER_ERROR
    \<and> \<not> fal_is_busy (Some g) \<and> fal_process (Some g) 0 = (Some g, 0, [])"
proof -
  have b: "fal_is_busy (Some refused_reading)" by (simp add: refused_reading_def fal_is_busy_def request_begin_def)
  obtain p x2 cs' where q: "fal_process (Some refused_reading) 0 = (p, x2, cs')" using prod_cases3 by blast
  then obtain g where g: "p = Some g" by (auto simp: fal_process_def split: if_splits option.splits prod.splits)
  have "driver_fails refusing_device refused_reading 0"
    by (simp add: driver_fails_def driver_submit_def due_def syncing_def state_of_def refused_reading_def request_begin_def
        refusing_device_def sample_ops_def)
  then show ?thesis using fal_driver_errors [OF refusing_init refused_trace b q [unfolded g]] q g by auto
qed

text \<open>A stopped instance.\<close>

lemma stopped_step:
  assumes "fal_inv ds f" "at_rest f" "f_stop_requested f" "fal_step f cs g"
  shows "cs = [] \<and> fal_inv ds g \<and> at_rest g \<and> f_stop_requested g"
proof -
  have s: "f_state f = STATE_STOPPED" "f_operation f = OPERATION_NONE" using assms(2,3) by (simp_all add: at_rest_def)
  then have v: "request_validate (Some f) z a n p = Inl FAL_STOPPED" for z a n p by (simp add: request_validate_def)
  from assms(4) show ?thesis
  proof cases
    case (step_stop r)
    then have "g = f" using s assms(3) by (auto simp: fal_stop_request_def fal_is_busy_def Let_def)
    then show ?thesis using step_stop assms(1-3) by simp
  qed (use assms(1-3) s v in \<open>auto simp: fal_read_def fal_write_def fal_erase_def fal_process_def split: if_splits\<close>)
qed

lemma request_begin_stop [simp]: "f_stop_requested (request_begin d op s a n f) = f_stop_requested f"
  by (simp add: request_begin_def)

lemma stop_requested_step:
  assumes "layout_ok ds" "fal_inv ds f" "f_stop_requested f" "fal_step f cs g"
  shows "f_stop_requested g"
  using assms(4)
proof cases
  case (step_process x x1)
  then show ?thesis using fal_process_inv(2) [OF assms(1,2)] assms(3) by blast
qed (use assms(3) fal_stop_request_inv(3) [OF assms(2)] in
    \<open>auto simp: fal_read_def fal_write_def fal_erase_def Let_def split: if_splits sum.splits\<close>)

lemma stop_requested_trace:
  assumes "fal_trace f cs g" "layout_ok ds" "fal_inv ds f" "f_stop_requested f"
  shows "f_stop_requested g"
  using assms
proof (induction rule: fal_trace.induct)
  case (trace_step f cs g cs' h)
  then show ?case using stop_requested_step [of ds g cs' h] fal_trace_inv [of f cs g ds] by blast
qed

lemma stopped_trace:
  assumes "fal_trace f cs g" "fal_inv ds f" "at_rest f" "f_stop_requested f"
  shows "cs = [] \<and> fal_inv ds g \<and> at_rest g \<and> f_stop_requested g"
  using assms
proof (induction rule: fal_trace.induct)
  case (trace_step f cs g cs' h)
  then show ?case using stopped_step [of ds g cs' h] by simp
qed simp

text \<open>C40: a stop request is accepted at any time after a mount; a request in progress is still finished, and once
  none is in progress the instance is stopped for good: whatever is called afterwards, the driver is never called
  again, the state stays STOPPED and every further request is refused with STOPPED.\<close>

theorem fal_stop_is_final:
  assumes "fal_init (Some f0) (Some (Some ds)) x0 = (FAL_SUCCESS, Some f1, x1, cs0)" and "fal_trace f1 cs f"
    and "fal_stop_request (Some f) = (r, Some f')" and "fal_trace f' cs' g" and "\<not> fal_is_busy (Some g)"
    and "fal_trace g cs'' h"
  shows "r = FAL_SUCCESS \<and> cs'' = [] \<and> fal_is_stopped (Some h)
    \<and> fst (fal_read zone_id offset len (Some p) (Some h)) = FAL_STOPPED
    \<and> fst (fal_write zone_id offset len (Some p) (Some h)) = FAL_STOPPED
    \<and> fst (fal_erase zone_id offset len (Some h)) = FAL_STOPPED"
proof -
  note I = init_trace [OF assms(1,2)]
  have r: "r = FAL_SUCCESS" by (rule fal_stop_request_inv(2) [OF I(2) assms(3)])
  note stop = fal_stop_request_inv [OF I(2) assms(3)]
  have g: "fal_inv ds g" using fal_trace_inv [OF assms(4) I(1) stop(1)] by simp
  then have "at_rest g" using assms(5) by (auto simp: fal_inv_def active_on_def fal_is_busy_def)
  note h = stopped_trace [OF assms(6) g this stop_requested_trace [OF assms(4) I(1) stop(1,3)]]
  then have cs: "cs'' = []" and st: "fal_is_stopped (Some h)" by (auto simp: fal_is_stopped_def at_rest_def)
  then have v: "request_validate (Some h) z a n q = Inl FAL_STOPPED" for z a n q
    by (simp add: request_validate_def fal_is_stopped_def)
  show ?thesis using r cs st by (simp add: fal_read_def fal_write_def fal_erase_def v)
qed

theorem fal_stop_is_final_witness:
  "\<exists>g. fal_stop_request (Some sample_fal) = (FAL_SUCCESS, Some g) \<and> fal_is_stopped (Some g)
    \<and> fst (fal_write 7 0 4 (Some 0) (Some g)) = FAL_STOPPED"
proof -
  obtain g where g: "fal_stop_request (Some sample_fal) = (FAL_SUCCESS, Some g)" "\<not> fal_is_busy (Some g)"
    by (simp add: fal_stop_request_def fal_is_busy_def)
  show ?thesis
    using fal_stop_is_final [OF sample_init trace_refl g(1) trace_refl g(2) trace_refl] g(1) by blast
qed

section \<open>The runtime\<close>

text \<open>Every instance is unmounted or mounted on its own configuration.\<close>

definition unmounted :: "'x fal \<Rightarrow> bool" where
  "unmounted f \<longleftrightarrow> f_cfg f = None \<and> f_operation f = OPERATION_NONE \<and> (f_state f = STATE_UNINITIALIZED \<or> f_state f = STATE_ERROR)"

definition instance_ok :: "'x fal_cfg \<Rightarrow> 'x fal \<Rightarrow> bool" where
  "instance_ok cfg f \<longleftrightarrow> unmounted f \<or> (\<exists>ds. cfg = Some ds \<and> layout_ok ds \<and> fal_inv ds f)"

definition runtime_ok :: "'x fal_runtime \<Rightarrow> bool" where
  "runtime_ok rt \<longleftrightarrow>
     (\<exists>fs cfgs. rt_instances rt = Some fs \<and> rt_configs rt = Some cfgs \<and> 0 < rt_instance_count rt
        \<and> length fs = rt_instance_count rt \<and> length cfgs = rt_instance_count rt
        \<and> (\<forall>i < rt_instance_count rt. instance_ok (cfgs ! i) (fs ! i)))"

inductive runtime_step :: "'x fal_runtime \<Rightarrow> flash_call list \<Rightarrow> 'x fal_runtime \<Rightarrow> bool" where
  rt_mount: "fal_runtime_mount (Some rt) i x = (r, Some rt', x1, cs) \<Longrightarrow> runtime_step rt cs rt'"
| rt_init: "fal_runtime_init (Some rt) x = (r, Some rt', x1, cs) \<Longrightarrow> runtime_step rt cs rt'"
| rt_process: "fal_runtime_process (Some rt) x = (r, Some rt', x1, cs) \<Longrightarrow> runtime_step rt cs rt'"

definition calls_mounted :: "'x fal_runtime \<Rightarrow> flash_call list \<Rightarrow> bool" where
  "calls_mounted rt cs \<longleftrightarrow>
     (\<forall>c \<in> set cs. (\<exists>dev. c = Flash_Init dev)
        \<or> (\<exists>ds. Some ds \<in> set (the (rt_configs rt)) \<and> layout_ok ds \<and> call_ok ds c))"

lemma devices_init_events: "devices_init ds x = (r, x1, cs) \<Longrightarrow> \<forall>c \<in> set cs. \<exists>dev. c = Flash_Init dev"
  by (induction ds arbitrary: x r x1 cs) (auto split: prod.splits if_splits)

lemma fal_init_instance:
  assumes "fal_init (Some f0) (Some cfg) x = (r, Some f, x1, cs)"
  shows "instance_ok cfg f" "\<forall>c \<in> set cs. \<exists>dev. c = Flash_Init dev"
proof -
  show "instance_ok cfg f"
  proof (cases "r = FAL_SUCCESS")
    case True
    obtain ds where "cfg = Some ds" "layout_ok ds" "fal_inv ds f"
      using fal_init_SUCCESS [of f0 "Some cfg" x f x1 cs] assms True by blast
    then show ?thesis by (auto simp: instance_ok_def)
  next
    case False
    then have "f = fal_zeroed\<lparr>f_result := FAL_CONFIG_ERROR, f_state := STATE_ERROR\<rparr>
        \<or> f = fal_zeroed\<lparr>f_result := FAL_CONFIG_ERROR, f_state := STATE_ERROR, f_result := FAL_DRIVER_ERROR\<rparr>"
      using assms by (auto simp: fal_init_def Let_def split: option.splits if_splits prod.splits)
    then show ?thesis by (auto simp: instance_ok_def unmounted_def fal_zeroed_def)
  qed
  show "\<forall>c \<in> set cs. \<exists>dev. c = Flash_Init dev"
    using assms by (auto simp: fal_init_def Let_def dest: devices_init_events split: option.splits if_splits prod.splits)
qed

text \<open>What every runtime call keeps.\<close>

definition runtime_keeps :: "'x fal_runtime \<Rightarrow> flash_call list \<Rightarrow> 'x fal_runtime \<Rightarrow> bool" where
  "runtime_keeps rt cs rt' \<longleftrightarrow>
     runtime_ok rt' \<and> rt_configs rt' = rt_configs rt \<and> rt_instance_count rt' = rt_instance_count rt
     \<and> calls_mounted rt cs"

lemma fal_init_Some: "\<exists>f. fst (snd (fal_init (Some f0) cfg x)) = Some f"
  by (auto simp: fal_init_def Let_def split: option.splits prod.splits)

lemma fal_runtime_mount_keeps:
  assumes "runtime_ok rt" "fal_runtime_mount (Some rt) i x = (r, Some rt', x1, cs)"
  shows "runtime_keeps rt cs rt'"
    and "j < rt_instance_count rt \<Longrightarrow> fal_is_busy (Some (the (rt_instances rt) ! j)) \<Longrightarrow>
      the (rt_instances rt') ! j = the (rt_instances rt) ! j"
proof -
  obtain fs cfgs where f: "rt_instances rt = Some fs" "rt_configs rt = Some cfgs" "length fs = rt_instance_count rt"
    "length cfgs = rt_instance_count rt" "\<forall>i < rt_instance_count rt. instance_ok (cfgs ! i) (fs ! i)"
    "0 < rt_instance_count rt"
    using assms(1) unfolding runtime_ok_def by blast
  have v: "runtime_valid (Some rt)" using f by (simp add: runtime_valid_def)
  consider "rt' = rt" "cs = []"
    | f' where "\<not> fal_is_busy (Some (fs ! i))" "i < rt_instance_count rt" "fal_init (Some (fs ! i)) (Some (cfgs ! i)) x = (r, Some f', x1, cs)"
      "rt' = rt\<lparr>rt_instances := Some (fs[i := f'])\<rparr>"
    using assms(2) v f(1,2) fal_init_Some [of "fs ! i" "Some (cfgs ! i)" x]
    by (fastforce simp: fal_runtime_mount_def Let_def split: if_splits prod.splits)
  note C = this
  show "runtime_keeps rt cs rt'"
    using C
  proof cases
    case 1
    then show ?thesis using assms(1) by (simp add: runtime_keeps_def calls_mounted_def)
  next
    case (2 f')
    note I = fal_init_instance [OF 2(3)]
    have "runtime_ok rt'" unfolding runtime_ok_def using f I(1) 2(2,4) by (auto simp: nth_list_update)
    moreover have "calls_mounted rt cs" using I(2) by (auto simp: calls_mounted_def)
    ultimately show ?thesis using 2(4) by (simp add: runtime_keeps_def)
  qed
  show "j < rt_instance_count rt \<Longrightarrow> fal_is_busy (Some (the (rt_instances rt) ! j)) \<Longrightarrow>
      the (rt_instances rt') ! j = the (rt_instances rt) ! j"
    using C by cases (simp, simp add: f(1), metis nth_list_update_neq)
qed

lemma runtime_keeps_trans:
  "runtime_keeps rt cs rt1 \<Longrightarrow> runtime_keeps rt1 cs' rt2 \<Longrightarrow> runtime_keeps rt (cs @ cs') rt2"
  unfolding runtime_keeps_def calls_mounted_def by auto

lemma fal_runtime_mount_Some: "\<exists>rt'. fst (snd (fal_runtime_mount (Some rt) i x)) = Some rt'"
  by (auto simp: fal_runtime_mount_def Let_def split: prod.splits)

lemma mount_from_keeps:
  "runtime_ok rt \<Longrightarrow> mount_from index n e (Some rt) x = (r, Some rt', x1, cs) \<Longrightarrow> runtime_keeps rt cs rt'"
proof (induction n arbitrary: index e rt x r x1 cs)
  case 0
  then show ?case by (auto simp: runtime_keeps_def calls_mounted_def)
next
  case (Suc n)
  obtain r1 p1 y1 c1 where m: "fal_runtime_mount (Some rt) index x = (r1, p1, y1, c1)" using prod_cases4 by blast
  with fal_runtime_mount_Some [of rt index x] obtain rt1 where p1: "p1 = Some rt1" by auto
  note K = fal_runtime_mount_keeps(1) [OF Suc.prems(1) m [unfolded p1]]
  obtain r2 p2 y2 c2 where q: "mount_from (Suc index) n (if e = FAL_SUCCESS \<and> r1 \<noteq> FAL_SUCCESS then r1 else e) (Some rt1) y1
      = (r2, p2, y2, c2)" using prod_cases4 by blast
  have e: "p2 = Some rt'" "cs = c1 @ c2" using Suc.prems(2) m p1 q by auto
  have "runtime_ok rt1" using K by (simp add: runtime_keeps_def)
  from runtime_keeps_trans [OF K Suc.IH [OF this q [unfolded e]]] show ?case by (simp add: e)
qed

lemma instance_process:
  assumes "instance_ok cfg f" "fal_process (Some f) x = (p, x1, cs)"
  obtains g where "p = Some g" "instance_ok cfg g"
    "\<forall>c \<in> set cs. \<exists>ds. cfg = Some ds \<and> layout_ok ds \<and> call_ok ds c"
proof (cases "unmounted f")
  case True
  then have "p = Some f" "cs = []" using assms(2) by (auto simp: unmounted_def fal_process_def)
  then show thesis using that assms(1) by simp
next
  case False
  then obtain ds where d: "cfg = Some ds" "layout_ok ds" "fal_inv ds f" using assms(1) by (auto simp: instance_ok_def)
  obtain g where g: "p = Some g"
    using assms(2) by (auto simp: fal_process_def split: if_splits option.splits prod.splits)
  note P = fal_process_inv [OF d(2,3) assms(2) [unfolded g]]
  show thesis by (rule that [OF g]) (use P(1,3) d(1,2) in \<open>auto simp: instance_ok_def\<close>)
qed

lemma process_from_keeps:
  "length fs = m \<Longrightarrow> length cfgs = m \<Longrightarrow> \<forall>i < m. instance_ok (cfgs ! i) (fs ! i) \<Longrightarrow> index + n \<le> m \<Longrightarrow>
    process_from index n fs x = (fs', x1, cs) \<Longrightarrow>
    length fs' = m \<and> (\<forall>i < m. instance_ok (cfgs ! i) (fs' ! i))
    \<and> (\<forall>c \<in> set cs. \<exists>ds. Some ds \<in> set cfgs \<and> layout_ok ds \<and> call_ok ds c)"
proof (induction n arbitrary: index fs x x1 cs)
  case (Suc n)
  obtain p y c1 where q: "fal_process (Some (fs ! index)) x = (p, y, c1)" using prod_cases3 by blast
  have i: "index < m" "instance_ok (cfgs ! index) (fs ! index)" using Suc.prems(3,4) by auto
  obtain g where g: "p = Some g" "instance_ok (cfgs ! index) g"
    "\<forall>c \<in> set c1. \<exists>ds. cfgs ! index = Some ds \<and> layout_ok ds \<and> call_ok ds c"
    by (rule instance_process [OF i(2) q])
  obtain c2 where r: "process_from (Suc index) n (fs[index := g]) y = (fs', x1, c2)" and c: "cs = c1 @ c2"
    using Suc.prems(5) q g(1) by (auto split: prod.splits)
  have ok: "\<forall>j < m. instance_ok (cfgs ! j) (fs[index := g] ! j)"
    using Suc.prems(1,3) g(2) i(1) by (auto simp: nth_list_update)
  have "length (fs[index := g]) = m" "Suc index + n \<le> m" using Suc.prems(1,4) by simp_all
  from Suc.IH [OF this(1) Suc.prems(2) ok this(2) r]
  have IH: "length fs' = m" "\<forall>i < m. instance_ok (cfgs ! i) (fs' ! i)"
    "\<forall>c \<in> set c2. \<exists>ds. Some ds \<in> set cfgs \<and> layout_ok ds \<and> call_ok ds c" by blast+
  have "cfgs ! index \<in> set cfgs" using Suc.prems(2) i(1) by simp
  then have "\<forall>c \<in> set c1. \<exists>ds. Some ds \<in> set cfgs \<and> layout_ok ds \<and> call_ok ds c" using g(3) by metis
  then show ?case using IH unfolding c set_append by blast
qed simp

text \<open>The runtime keeps every instance unmounted or correctly mounted on its own configuration through any
  mount, initialisation and processing round; apart from device initialisations the drivers only see calls inside the
  zones of some mounted configuration.\<close>

theorem fal_runtime_preserves:
  assumes "runtime_ok rt" "runtime_step rt cs rt'"
  shows "runtime_ok rt' \<and> calls_mounted rt cs \<and> rt_configs rt' = rt_configs rt"
  using assms(2)
proof cases
  case (rt_mount i x r x1)
  then show ?thesis using fal_runtime_mount_keeps(1) [OF assms(1)] by (auto simp: runtime_keeps_def)
next
  case (rt_init x r x1)
  have "runtime_keeps rt cs rt'"
  proof (cases "rt' = rt \<and> cs = []")
    case True
    then show ?thesis using assms(1) by (simp add: runtime_keeps_def calls_mounted_def)
  next
    case False
    then have "mount_from 0 (rt_instance_count rt) FAL_SUCCESS (Some rt) x = (r, Some rt', x1, cs)"
      using rt_init by (auto simp: fal_runtime_init_def Let_def split: if_splits)
    then show ?thesis by (rule mount_from_keeps [OF assms(1)])
  qed
  then show ?thesis by (simp add: runtime_keeps_def)
next
  case (rt_process x r x1)
  obtain fs cfgs where f: "rt_instances rt = Some fs" "rt_configs rt = Some cfgs" "length fs = rt_instance_count rt"
    "length cfgs = rt_instance_count rt" "\<forall>i < rt_instance_count rt. instance_ok (cfgs ! i) (fs ! i)"
    "0 < rt_instance_count rt"
    using assms(1) unfolding runtime_ok_def by blast
  obtain fs' where p: "process_from 0 (rt_instance_count rt) fs x = (fs', x1, cs)"
    and rt': "rt' = rt\<lparr>rt_instances := Some fs'\<rparr>"
    using rt_process f(1,2,6) by (auto simp: fal_runtime_process_def runtime_valid_def Let_def split: prod.splits)
  from process_from_keeps [OF f(3,4,5) _ p]
  have "length fs' = rt_instance_count rt" "\<forall>i < rt_instance_count rt. instance_ok (cfgs ! i) (fs' ! i)"
    "\<forall>c \<in> set cs. \<exists>ds. Some ds \<in> set cfgs \<and> layout_ok ds \<and> call_ok ds c" by simp_all
  then show ?thesis using f unfolding rt' runtime_ok_def calls_mounted_def by auto
qed

definition sample_runtime :: "nat fal_runtime" where
  "sample_runtime = \<lparr>rt_instances = Some [sample_fal], rt_configs = Some [Some [sample_device]], rt_instance_count = 1\<rparr>"

theorem fal_runtime_preserves_witness:
  "\<exists>rt'. snd (fal_runtime_mount (Some sample_runtime) 0 0) = (Some rt', 0, [Flash_Init 1]) \<and> runtime_ok rt'"
proof -
  have "fal_inv [sample_device] sample_fal" by (rule init_trace(2) [OF sample_init trace_refl])
  then have ok: "runtime_ok sample_runtime"
    using sample_layout by (simp add: runtime_ok_def sample_runtime_def instance_ok_def)
  have "fal_init (Some sample_fal) (Some (Some [sample_device])) 0 = (FAL_SUCCESS, Some sample_fal, 0, [Flash_Init 1])"
    using sample_init by (simp add: fal_init_def)
  then have m: "fal_runtime_mount (Some sample_runtime) 0 0 = (FAL_SUCCESS, Some sample_runtime, 0, [Flash_Init 1])"
    by (simp add: fal_runtime_mount_def runtime_valid_def sample_runtime_def fal_is_busy_def)
  from fal_runtime_preserves [OF ok rt_mount [OF m]] m show ?thesis by simp
qed

text \<open>No mount and no initialisation of the runtime ever touches an instance that has a request in progress;
  an initialisation that finds one anywhere returns BUSY and calls no driver.\<close>

theorem fal_mount_keeps_requests:
  assumes "runtime_ok rt" and "j < rt_instance_count rt" and "fal_is_busy (Some (the (rt_instances rt) ! j))"
    and "fal_runtime_mount (Some rt) i x = (r, Some rt', x1, cs)"
    and "fal_runtime_init (Some rt) y = (r2, Some rt2, y1, cs2)"
  shows "the (rt_instances rt') ! j = the (rt_instances rt) ! j" and "r2 = FAL_BUSY" "rt2 = rt" "y1 = y" "cs2 = []"
proof -
  show "the (rt_instances rt') ! j = the (rt_instances rt) ! j"
    by (rule fal_runtime_mount_keeps(2) [OF assms(1,4,2,3)])
  have "runtime_valid (Some rt)" using assms(1) by (auto simp: runtime_ok_def runtime_valid_def)
  moreover have "\<exists>index \<in> {0..<rt_instance_count rt}. fal_is_busy (Some (the (rt_instances rt) ! index))"
    using assms(2,3) by auto
  ultimately show "r2 = FAL_BUSY" "rt2 = rt" "y1 = y" "cs2 = []"
    using assms(5) by (auto simp: fal_runtime_init_def Let_def)
qed

theorem fal_mount_keeps_requests_witness:
  "fal_runtime_init (Some (sample_runtime\<lparr>rt_instances := Some [sample_reading]\<rparr>)) 0
    = (FAL_BUSY, Some (sample_runtime\<lparr>rt_instances := Some [sample_reading]\<rparr>), 0, [])"
proof -
  let ?rt = "sample_runtime\<lparr>rt_instances := Some [sample_reading]\<rparr>"
  have "fal_inv [sample_device] sample_reading" by (rule init_trace(2) [OF sample_init sample_reading_trace])
  then have ok: "runtime_ok ?rt"
    using sample_layout by (simp add: runtime_ok_def sample_runtime_def instance_ok_def)
  have b: "fal_is_busy (Some (the (rt_instances ?rt) ! 0))"
    by (simp add: sample_reading_def fal_is_busy_def request_begin_def)
  have n: "0 < rt_instance_count ?rt" by (simp add: sample_runtime_def)
  obtain r rt1 x1 cs where m: "fal_runtime_mount (Some ?rt) 0 0 = (r, Some rt1, x1, cs)"
    using fal_runtime_mount_Some [of ?rt 0 0] by (metis prod.collapse)
  obtain r2 p2 y1 cs2 where i: "fal_runtime_init (Some ?rt) 0 = (r2, p2, y1, cs2)" using prod_cases4 by blast
  have "p2 \<noteq> None"
    using i b n by (auto simp: fal_runtime_init_def runtime_valid_def sample_runtime_def)
  then obtain rt2 where p2: "p2 = Some rt2" by blast
  show ?thesis using fal_mount_keeps_requests(2-5) [OF ok n b m i [unfolded p2]] i p2 by simp
qed

end
