(* ===== verification/Boot_Metadata.thy ===== *)
theory Boot_Metadata
  imports Flash_Integrity Comm_Crc
begin

text \<open>
  code/app/bootloader/core/bootloader_metadata.c: the 42-byte upgrade record, its serialisation,
  its validation and the choice between the two redundant copies.  Enumerations that come out of
  stored bytes (the metadata state and the upgrade mode) are bytes here, with the
  enumerators as constants, so that the range checks of the code have their meaning.
\<close>

section \<open>Data\<close>

datatype boot_result =
  BOOT_SUCCESS | BOOT_IN_PROGRESS | BOOT_BUSY | BOOT_INVALID_ARGUMENT | BOOT_OUT_OF_RANGE | BOOT_CONFIG_ERROR
  | BOOT_PERMISSION_DENIED | BOOT_STORAGE_ERROR | BOOT_PROTOCOL_ERROR | BOOT_IMAGE_INVALID | BOOT_RECOVERY_REQUIRED

datatype flash_zone = ZONE_IAP | ZONE_STAGING | ZONE_META_A | ZONE_META_B | ZONE_LAYOUT

definition MODE_DIRECT :: u8 where "MODE_DIRECT = 0"
definition MODE_STAGED :: u8 where "MODE_STAGED = 1"

definition META_EMPTY :: u8 where "META_EMPTY = 0"
definition META_DOWNLOAD_DIRECT :: u8 where "META_DOWNLOAD_DIRECT = 1"
definition META_DOWNLOAD_STAGED :: u8 where "META_DOWNLOAD_STAGED = 2"
definition META_INSTALL_PENDING :: u8 where "META_INSTALL_PENDING = 3"
definition META_COPYING :: u8 where "META_COPYING = 4"
definition META_VALID :: u8 where "META_VALID = 5"
definition META_FAILED :: u8 where "META_FAILED = 6"

definition METADATA_ENCODED_SIZE :: nat where "METADATA_ENCODED_SIZE = 42"
definition METADATA_MAGIC :: u32 where "METADATA_MAGIC = 0x424C4D44"
definition METADATA_FORMAT_VERSION :: u16 where "METADATA_FORMAT_VERSION = 1"
definition METADATA_COMMIT_MARKER :: u32 where "METADATA_COMMIT_MARKER = 0x434F4D54"

record boot_metadata =
  m_state :: u8
  m_mode :: u8
  m_module_id :: u8
  m_retry_count :: u8
  m_sequence :: u32
  m_version :: u32
  m_file_size :: u32
  m_expected_crc :: u16
  m_received_length :: u32
  m_running_crc :: u16
  m_copy_offset :: u32
  m_error_code :: u16

section \<open>Serialisation\<close>

definition state_valid :: "u8 \<Rightarrow> bool" where
  "state_valid state \<longleftrightarrow> state \<le> META_FAILED"

definition sequence_is_newer :: "u32 \<Rightarrow> u32 \<Rightarrow> bool" where
  "sequence_is_newer candidate reference \<longleftrightarrow>
     (let difference = candidate - reference in difference \<noteq> 0 \<and> difference < 0x80000000)"

text \<open>One step of the inner loop, then the whole CRC.\<close>

definition metadata_crc16_bit :: "u16 \<Rightarrow> u16" where
  "metadata_crc16_bit crc = (if crc AND 0x8000 \<noteq> 0 then push_bit 1 crc XOR 0x1021 else push_bit 1 crc)"

definition metadata_crc16 :: "u8 list \<Rightarrow> u16" where
  "metadata_crc16 p_data = foldl (\<lambda>crc b. (metadata_crc16_bit ^^ 8) (crc XOR push_bit 8 (ucast b))) 0xFFFF p_data"

text \<open>The fields in front of the CRC (bytes 0 to 35), in the order of the stores.\<close>

definition metadata_fields :: "boot_metadata \<Rightarrow> u8 list" where
  "metadata_fields m =
     u32_le METADATA_MAGIC @ u16_le METADATA_FORMAT_VERSION
     @ [m_state m, m_mode m, m_module_id m, m_retry_count m]
     @ u32_le (m_sequence m) @ u32_le (m_version m) @ u32_le (m_file_size m) @ u16_le (m_expected_crc m)
     @ u32_le (m_received_length m) @ u16_le (m_running_crc m) @ u32_le (m_copy_offset m) @ u16_le (m_error_code m)"

text \<open>The record: the 36 field bytes, their CRC and the commit marker fill all 42 bytes.\<close>

definition metadata_record :: "boot_metadata \<Rightarrow> u8 list" where
  "metadata_record m =
     metadata_fields m @ u16_le (metadata_crc16 (metadata_fields m)) @ u32_le METADATA_COMMIT_MARKER"

text \<open>\<open>None\<close> is NULL; the result keeps the buffer behind the record.\<close>

definition bootloader_metadata_encode ::
  "boot_metadata option \<Rightarrow> u8 list option \<Rightarrow> nat \<Rightarrow> boot_result \<times> u8 list option" where
  "bootloader_metadata_encode p_metadata p_encoded encoded_capacity =
     (case (p_metadata, p_encoded) of
        (Some m, Some buf) \<Rightarrow>
          if encoded_capacity < METADATA_ENCODED_SIZE \<or> \<not> state_valid (m_state m) \<or> m_mode m > MODE_STAGED
          then (BOOT_INVALID_ARGUMENT, p_encoded)
          else (BOOT_SUCCESS, Some (metadata_record m @ drop METADATA_ENCODED_SIZE buf))
      | _ \<Rightarrow> (BOOT_INVALID_ARGUMENT, p_encoded))"

definition bootloader_metadata_decode :: "u8 list option \<Rightarrow> nat \<Rightarrow> bool \<Rightarrow> boot_result + boot_metadata" where
  "bootloader_metadata_decode p_encoded encoded_length p_metadata =
     (case p_encoded of
        None \<Rightarrow> Inl BOOT_INVALID_ARGUMENT
      | Some e \<Rightarrow>
          if \<not> p_metadata \<or> encoded_length < METADATA_ENCODED_SIZE then Inl BOOT_INVALID_ARGUMENT
          else if le_u32 e \<noteq> METADATA_MAGIC \<or> le_u16 (drop 4 e) \<noteq> METADATA_FORMAT_VERSION
            \<or> \<not> state_valid (e ! 6) \<or> e ! 7 > MODE_STAGED
            \<or> le_u16 (drop 36 e) \<noteq> metadata_crc16 (take 36 e)
            \<or> le_u32 (drop 38 e) \<noteq> METADATA_COMMIT_MARKER
          then Inl BOOT_IMAGE_INVALID
          else Inr \<lparr>m_state = e ! 6, m_mode = e ! 7, m_module_id = e ! 8, m_retry_count = e ! 9,
                    m_sequence = le_u32 (drop 10 e), m_version = le_u32 (drop 14 e), m_file_size = le_u32 (drop 18 e),
                    m_expected_crc = le_u16 (drop 22 e), m_received_length = le_u32 (drop 24 e),
                    m_running_crc = le_u16 (drop 28 e), m_copy_offset = le_u32 (drop 30 e),
                    m_error_code = le_u16 (drop 34 e)\<rparr>)"

definition bootloader_metadata_select ::
  "u8 list option \<Rightarrow> u8 list option \<Rightarrow> bool \<Rightarrow> boot_result + boot_metadata \<times> flash_zone" where
  "bootloader_metadata_select p_meta_a p_meta_b destinations =
     (let meta_a = bootloader_metadata_decode p_meta_a METADATA_ENCODED_SIZE True;
          meta_b = bootloader_metadata_decode p_meta_b METADATA_ENCODED_SIZE True
      in if \<not> destinations then Inl BOOT_INVALID_ARGUMENT
         else (case (meta_a, meta_b) of
                 (Inl _, Inl _) \<Rightarrow> Inl BOOT_IMAGE_INVALID
               | (Inl _, Inr b) \<Rightarrow> Inr (b, ZONE_META_B)
               | (Inr a, Inl _) \<Rightarrow> Inr (a, ZONE_META_A)
               | (Inr a, Inr b) \<Rightarrow>
                   if sequence_is_newer (m_sequence b) (m_sequence a) then Inr (b, ZONE_META_B) else Inr (a, ZONE_META_A)))"

section \<open>Facts\<close>

lemma metadata_crc16_bit_eq: "metadata_crc16_bit x = crc16_bit x"
proof -
  have "(0x8000 :: u16) = 2 ^ 15" by simp
  then have "x AND 0x8000 \<noteq> 0 \<longleftrightarrow> bit x 15" by (simp only: and_exp_eq_0_iff_not_bit) simp
  then show ?thesis by (simp add: metadata_crc16_bit_def crc16_bit_def)
qed

lemma length_metadata_fields [simp]: "length (metadata_fields m) = 36"
  by (simp add: metadata_fields_def)

lemma length_metadata_record [simp]: "length (metadata_record m) = 42"
  by (simp add: metadata_record_def)

definition metadata_ok :: "boot_metadata \<Rightarrow> bool" where
  "metadata_ok m \<longleftrightarrow> state_valid (m_state m) \<and> m_mode m \<le> MODE_STAGED"

text \<open>The bytes of the record at the offsets the decoder reads.\<close>

lemma record_at:
  "le_u32 (metadata_record m @ r) = METADATA_MAGIC"
  "le_u16 (drop 4 (metadata_record m @ r)) = METADATA_FORMAT_VERSION"
  "(metadata_record m @ r) ! 6 = m_state m" "(metadata_record m @ r) ! 7 = m_mode m"
  "(metadata_record m @ r) ! 8 = m_module_id m" "(metadata_record m @ r) ! 9 = m_retry_count m"
  "le_u32 (drop 10 (metadata_record m @ r)) = m_sequence m"
  "le_u32 (drop 14 (metadata_record m @ r)) = m_version m"
  "le_u32 (drop 18 (metadata_record m @ r)) = m_file_size m"
  "le_u16 (drop 22 (metadata_record m @ r)) = m_expected_crc m"
  "le_u32 (drop 24 (metadata_record m @ r)) = m_received_length m"
  "le_u16 (drop 28 (metadata_record m @ r)) = m_running_crc m"
  "le_u32 (drop 30 (metadata_record m @ r)) = m_copy_offset m"
  "le_u16 (drop 34 (metadata_record m @ r)) = m_error_code m"
  "le_u16 (drop 36 (metadata_record m @ r)) = metadata_crc16 (metadata_fields m)"
  "le_u32 (drop 38 (metadata_record m @ r)) = METADATA_COMMIT_MARKER"
  "take 36 (metadata_record m @ r) = metadata_fields m"
  by (simp_all add: metadata_record_def metadata_fields_def nth_append)

lemma decode_record:
  "metadata_ok m \<Longrightarrow> bootloader_metadata_decode (Some (metadata_record m @ r)) METADATA_ENCODED_SIZE True = Inr m"
  unfolding bootloader_metadata_decode_def option.case record_at by (simp add: metadata_ok_def not_less)

text \<open>A record that was not programmed to its end over erased flash has no commit marker.\<close>

definition torn :: "nat \<Rightarrow> u8 list \<Rightarrow> u8 list" where
  "torn k e = take k e @ replicate (length e - k) 0xFF"

lemma byte_bits: "8 \<le> n \<Longrightarrow> \<not> bit (w :: u8) n"
  using bit_imp_le_length [of w n] by auto

lemma le_u32_top: "bit (le_u32 p) 31 \<longleftrightarrow> bit (p ! 3) 7"
  by (simp add: le_u32_def bit_simps byte_bits)

text \<open>The little-endian joins keep every byte.\<close>

lemma le_u16_byte: "i < 2 \<Longrightarrow> p ! i = ucast (drop_bit (8 * i) (le_u16 p))"
proof -
  assume "i < 2"
  then consider "i = 0" | "i = 1" by linarith
  then show ?thesis by cases (rule bit_word_eqI, simp add: le_u16_def bit_simps byte_bits)+
qed

lemma le_u32_byte: "i < 4 \<Longrightarrow> p ! i = ucast (drop_bit (8 * i) (le_u32 p))"
proof -
  assume "i < 4"
  then consider "i = 0" | "i = 1" | "i = 2" | "i = 3" by linarith
  then show ?thesis
    by cases (rule bit_word_eqI, simp add: le_u32_def bit_simps byte_bits)+
qed

lemma decode_torn:
  assumes "k < 42"
  shows "bootloader_metadata_decode (Some (torn k (metadata_record m))) METADATA_ENCODED_SIZE True = Inl BOOT_IMAGE_INVALID"
proof -
  have "torn k (metadata_record m) ! 41 = 0xFF"
    using assms by (simp add: torn_def nth_append)
  moreover have "length (torn k (metadata_record m)) = 42" using assms by (simp add: torn_def)
  ultimately have "drop 38 (torn k (metadata_record m)) ! 3 = 0xFF"
    by (subst nth_drop) simp_all
  then have "bit (le_u32 (drop 38 (torn k (metadata_record m)))) 31" by (simp add: le_u32_top)
  then have "le_u32 (drop 38 (torn k (metadata_record m))) \<noteq> METADATA_COMMIT_MARKER"
    by (auto simp: METADATA_COMMIT_MARKER_def)
  then show ?thesis by (simp add: bootloader_metadata_decode_def METADATA_ENCODED_SIZE_def)
qed

lemma torn_all: "torn 42 (metadata_record m) = metadata_record m"
  by (simp add: torn_def)

lemma sequence_next: "sequence_is_newer (s + 1) s" "\<not> sequence_is_newer s (s + 1)"
  by (simp_all add: sequence_is_newer_def Let_def)

text \<open>The CRC is the one of the wire protocol.\<close>

lemma metadata_crc16_section: "metadata_crc16 e = section_crc16 e"
proof -
  have "metadata_crc16_bit = crc16_bit" by (rule ext) (rule metadata_crc16_bit_eq)
  moreover have "crc16_byte = (\<lambda>crc b. (crc16_bit ^^ 8) (crc XOR push_bit 8 (ucast b)))"
    by (intro ext) (rule crc16_byte_def)
  ultimately show ?thesis
    by (simp add: metadata_crc16_def section_crc16_def crc16_final_def crc16_init_def crc16_bytes)
qed

section \<open>Properties\<close>

text \<open>A record that the encoder accepts is read back field by field by the decoder, whatever follows it.\<close>

theorem metadata_round_trip:
  assumes "bootloader_metadata_encode (Some m) (Some buf) capacity = (BOOT_SUCCESS, Some e)"
  shows "bootloader_metadata_decode (Some e) METADATA_ENCODED_SIZE True = Inr m"
  using assms decode_record [of m "drop METADATA_ENCODED_SIZE buf"]
  by (auto simp: bootloader_metadata_encode_def metadata_ok_def not_less split: if_splits)

definition sample_metadata :: boot_metadata where
  "sample_metadata =
     \<lparr>m_state = META_COPYING, m_mode = MODE_STAGED, m_module_id = 3, m_retry_count = 1, m_sequence = 0xFFFFFFFF,
      m_version = 0x01020304, m_file_size = 70000, m_expected_crc = 0xBEEF, m_received_length = 70000,
      m_running_crc = 0xBEEF, m_copy_offset = 4096, m_error_code = 0\<rparr>"

lemma sample_metadata_ok: "metadata_ok sample_metadata"
  by (simp add: metadata_ok_def sample_metadata_def state_valid_def META_COPYING_def META_FAILED_def)

theorem metadata_round_trip_witness:
  "bootloader_metadata_decode (snd (bootloader_metadata_encode (Some sample_metadata) (Some []) 4096)) METADATA_ENCODED_SIZE True
    = Inr sample_metadata"
proof -
  have "bootloader_metadata_encode (Some sample_metadata) (Some []) 4096 = (BOOT_SUCCESS, Some (metadata_record sample_metadata))"
    using sample_metadata_ok by (simp add: bootloader_metadata_encode_def metadata_ok_def METADATA_ENCODED_SIZE_def not_less)
  from metadata_round_trip [OF this] this show ?thesis by simp
qed

text \<open>C14: the redundant commit is atomic under power loss.  Let the selection yield record \<open>m\<close> in one copy, and let the
  other copy be erased and reprogrammed with a new record carrying the next sequence number, wrap-around included:
  after any proper prefix of the programming the selection still yields \<open>m\<close>, after the last byte it yields the new
  record in the other copy.\<close>

theorem metadata_commit_atomic:
  assumes "bootloader_metadata_select (Some a) (Some b) True = Inr (m, source)"
    and "metadata_ok n" and "m_sequence n = m_sequence m + 1" and "k \<le> 42"
    and "copies = (if source = ZONE_META_A then (a, torn k (metadata_record n)) else (torn k (metadata_record n), b))"
  shows "bootloader_metadata_select (Some (fst copies)) (Some (snd copies)) True =
    (if k < 42 then Inr (m, source) else Inr (n, if source = ZONE_META_A then ZONE_META_B else ZONE_META_A))"
proof -
  let ?dec = "\<lambda>e. bootloader_metadata_decode (Some e) METADATA_ENCODED_SIZE True"
  have new: "?dec (torn k (metadata_record n)) = (if k < 42 then Inl BOOT_IMAGE_INVALID else Inr n)"
    using decode_torn [of k n] decode_record [OF assms(2), of "[]"] torn_all [of n] assms(4) by (cases "k < 42") auto
  consider "source = ZONE_META_A" "?dec a = Inr m" | "source = ZONE_META_B" "?dec b = Inr m"
    using assms(1) by (auto simp: bootloader_metadata_select_def Let_def split: sum.splits if_splits)
  then show ?thesis
    by cases (auto simp: bootloader_metadata_select_def Let_def new assms(3,5) sequence_next)
qed

theorem metadata_commit_atomic_witness:
  "bootloader_metadata_select (Some (metadata_record sample_metadata))
     (Some (torn 41 (metadata_record (sample_metadata\<lparr>m_sequence := 0, m_state := META_VALID\<rparr>)))) True
    = Inr (sample_metadata, ZONE_META_A)"
proof -
  have d: "bootloader_metadata_decode (Some (metadata_record sample_metadata)) METADATA_ENCODED_SIZE True = Inr sample_metadata"
    using decode_record [OF sample_metadata_ok, of "[]"] by simp
  have "bootloader_metadata_decode (Some (torn 0 (metadata_record sample_metadata))) METADATA_ENCODED_SIZE True = Inl BOOT_IMAGE_INVALID"
    by (rule decode_torn) simp
  then have s: "bootloader_metadata_select (Some (metadata_record sample_metadata)) (Some (torn 0 (metadata_record sample_metadata))) True
      = Inr (sample_metadata, ZONE_META_A)"
    using d by (simp add: bootloader_metadata_select_def Let_def)
  have "metadata_ok (sample_metadata\<lparr>m_sequence := 0, m_state := META_VALID\<rparr>)"
    by (simp add: metadata_ok_def sample_metadata_def state_valid_def META_VALID_def META_FAILED_def)
  from metadata_commit_atomic [OF s this _ _ refl, of 41] show ?thesis by (simp add: sample_metadata_def)
qed

text \<open>A record in which any one of the 42 bytes is damaged is never accepted.\<close>

theorem metadata_detects_byte:
  assumes "i < 42" and "v \<noteq> metadata_record m ! i"
  shows "bootloader_metadata_decode (Some ((metadata_record m)[i := v])) METADATA_ENCODED_SIZE True = Inl BOOT_IMAGE_INVALID"
proof -
  let ?e = "metadata_record m" and ?d = "(metadata_record m)[i := v]"
  note at = record_at [of m "[]", unfolded append_Nil2]
  have "le_u16 (drop 36 ?d) \<noteq> metadata_crc16 (take 36 ?d) \<or> le_u32 (drop 38 ?d) \<noteq> METADATA_COMMIT_MARKER"
  proof -
    consider "i < 36" | "36 \<le> i" "i < 38" | "38 \<le> i" using assms(1) by linarith
    then show ?thesis
    proof cases
      case 1
      have "metadata_crc16 ((take 36 ?e)[i := v]) \<noteq> metadata_crc16 (take 36 ?e)"
        unfolding metadata_crc16_section section_crc16_def crc16_final_def
        by (rule crc16_sum.one_byte) (use 1 assms(2) in simp_all)
      then show ?thesis using 1 at(15,17) by (simp add: drop_update_cancel take_update_swap)
    next
      case 2
      have "le_u16 (drop 36 ?d) \<noteq> le_u16 (drop 36 ?e)"
      proof
        assume "le_u16 (drop 36 ?d) = le_u16 (drop 36 ?e)"
        moreover have "i - 36 < 2" using 2 by simp
        ultimately have "drop 36 ?d ! (i - 36) = drop 36 ?e ! (i - 36)" by (metis le_u16_byte)
        then show False using 2 assms(2) by simp
      qed
      then show ?thesis using 2 at(15,17) by simp
    next
      case 3
      have "le_u32 (drop 38 ?d) \<noteq> le_u32 (drop 38 ?e)"
      proof
        assume "le_u32 (drop 38 ?d) = le_u32 (drop 38 ?e)"
        moreover have "i - 38 < 4" using 3 assms(1) by simp
        ultimately have "drop 38 ?d ! (i - 38) = drop 38 ?e ! (i - 38)" by (metis le_u32_byte)
        then show False using 3 assms by simp
      qed
      then show ?thesis using at(16) by simp
    qed
  qed
  then show ?thesis by (auto simp: bootloader_metadata_decode_def METADATA_ENCODED_SIZE_def)
qed

theorem metadata_detects_byte_witness:
  "bootloader_metadata_decode (Some ((metadata_record sample_metadata)[8 := 4])) METADATA_ENCODED_SIZE True
    = Inl BOOT_IMAGE_INVALID"
proof -
  have "metadata_record sample_metadata ! 8 = 3"
    using record_at(5) [of sample_metadata "[]"] by (simp add: sample_metadata_def)
  then show ?thesis by (intro metadata_detects_byte) simp_all
qed

end
