(* ===== verification/Boot_Core.thy ===== *)
theory Boot_Core
  imports Boot_Metadata
begin

text \<open>
  code/app/bootloader/core/bootloader_core.c and .h: the boot and installation state machine.
  The mounted flash service, the platform and the CRC are parameters: their callbacks are
  functions on a world that consists of the two caller-owned buffers, a platform state and a log.
  A callback may change the buffers at any call, since reads complete asynchronously.  The log is
  a ghost: what the state machine asked for and was told; callbacks cannot touch it.
\<close>

section \<open>Data\<close>

datatype boot_reason = REASON_POWER_ON | REASON_IAP_REQUEST | REASON_RECOVERY

datatype boot_state =
    ST_UNINITIALIZED | ST_META_A_READ | ST_META_A_WAIT | ST_META_B_READ | ST_META_B_WAIT
  | ST_STARTUP_READ | ST_STARTUP_WAIT | ST_WAIT_UPGRADE | ST_DOWNLOAD_ERASE | ST_DOWNLOAD_ERASE_WAIT
  | ST_DOWNLOAD_READY | ST_PACKET_WRITE_WAIT | ST_COPY_ERASE | ST_COPY_ERASE_WAIT | ST_COPY_READ
  | ST_COPY_READ_WAIT | ST_COPY_WRITE | ST_COPY_WRITE_WAIT | ST_COPY_VERIFY_READ | ST_COPY_VERIFY_READ_WAIT
  | ST_VERIFY_READ | ST_VERIFY_READ_WAIT | ST_FINAL_READ | ST_FINAL_READ_WAIT | ST_METADATA_ERASE
  | ST_METADATA_ERASE_WAIT | ST_METADATA_WRITE | ST_METADATA_WRITE_WAIT | ST_JUMP_PENDING | ST_CONFIG_ERROR

definition PACKET_DATA_SIZE :: nat where "PACKET_DATA_SIZE = 1024"
definition FOOTER_SIZE :: nat where "FOOTER_SIZE = 34"

record boot_zone_info =
  zi_size :: u32
  zi_program_page_size :: u32
  zi_erase_block_size :: u32
  zi_readable :: u8
  zi_writable :: u8
  zi_erasable :: u8

record boot_upgrade_info =
  ui_module_id :: u8
  ui_file_size :: u32
  ui_version :: u32
  ui_update_type :: u8

text \<open>The buffer a flash call points into.\<close>

datatype buffer_ref = Packet_Buffer | Copy_Buffer nat

datatype boot_event =
    Ev_Read flash_zone u32 u32 buffer_ref boot_result
  | Ev_Write flash_zone u32 "u8 list" boot_result
  | Ev_Erase flash_zone u32 u32 boot_result
  | Ev_Result boot_result
  | Ev_Check "u8 list" u32 bool
  | Ev_Clear boot_result
  | Ev_Jump

record 'x world =
  w_packet :: "u8 list"
  w_copy :: "u8 list"
  w_platform :: 'x
  w_log :: "boot_event list"

text \<open>Callbacks, \<open>None\<close> being NULL.  What a callback stores through a pointer is returned.\<close>

record 'x boot_flash_ops =
  o_zone_info_get :: "('x world \<Rightarrow> flash_zone \<Rightarrow> (boot_result \<times> boot_zone_info) \<times> 'x world) option"
  o_read :: "('x world \<Rightarrow> flash_zone \<Rightarrow> u32 \<Rightarrow> u32 \<Rightarrow> buffer_ref \<Rightarrow> boot_result \<times> 'x world) option"
  o_write :: "('x world \<Rightarrow> flash_zone \<Rightarrow> u32 \<Rightarrow> u32 \<Rightarrow> buffer_ref \<Rightarrow> boot_result \<times> 'x world) option"
  o_erase :: "('x world \<Rightarrow> flash_zone \<Rightarrow> u32 \<Rightarrow> u32 \<Rightarrow> boot_result \<times> 'x world) option"
  o_is_busy :: "('x world \<Rightarrow> u8 \<times> 'x world) option"
  o_result_get :: "('x world \<Rightarrow> boot_result \<times> 'x world) option"

record 'x boot_platform_ops =
  o_boot_reason_get :: "('x world \<Rightarrow> boot_reason \<times> 'x world) option"
  o_upgrade_info_get :: "('x world \<Rightarrow> (boot_result \<times> boot_upgrade_info) \<times> 'x world) option"
  o_boot_reason_clear :: "('x world \<Rightarrow> boot_result \<times> 'x world) option"
  o_image_header_is_valid :: "('x world \<Rightarrow> u8 list \<Rightarrow> u32 \<Rightarrow> (boot_result \<times> u8) \<times> 'x world) option"
  o_jump_to_iap :: "('x world \<Rightarrow> boot_result \<times> 'x world) option"
  o_watchdog_kick :: "('x world \<Rightarrow> 'x world) option"

text \<open>A buffer pointer is only known to be NULL or not; its contents are in the world.\<close>

record boot_config =
  c_expected_module_id :: u8
  c_default_mode :: u8
  c_image_header_length :: u32
  c_packet_buffer :: bool
  c_packet_buffer_size :: u32
  c_copy_buffer :: bool
  c_copy_buffer_size :: u32
  c_crc16_init :: "u16 option"
  c_crc16_update :: "(u8 list \<Rightarrow> u16 \<Rightarrow> u16) option"

record 'x boot =
  b_config :: boot_config
  b_flash_ops :: "'x boot_flash_ops"
  b_platform_ops :: "'x boot_platform_ops"
  b_upgrade_info :: boot_upgrade_info
  b_startup_upgrade_info :: boot_upgrade_info
  b_state :: boot_state
  b_result :: boot_result
  b_mode :: u8
  b_download_zone :: flash_zone
  b_received_length :: u32
  b_pending_packet_offset :: u32
  b_pending_packet_length :: u32
  b_last_packet_offset :: u32
  b_last_packet_length :: u32
  b_copy_offset :: u32
  b_copy_chunk_length :: u32
  b_verify_offset :: u32
  b_copy_chunk_crc :: u16
  b_verify_crc :: u16
  b_running_crc :: u16
  b_expected_crc :: u16
  b_footer_buffer :: "u8 list"
  b_footer_length :: nat
  b_session_active :: bool
  b_jump_called :: bool
  b_boot_reason :: boot_reason
  b_metadata_next_state :: boot_state
  b_metadata_source_zone :: flash_zone
  b_metadata_target_zone :: flash_zone
  b_metadata_sequence :: u32
  b_metadata_state :: u8
  b_metadata_retry_count :: u8
  b_metadata_valid :: bool
  b_startup_upgrade_info_valid :: bool

section \<open>Mounted services\<close>

definition buffer_bytes :: "'x world \<Rightarrow> buffer_ref \<Rightarrow> u32 \<Rightarrow> u8 list" where
  "buffer_bytes w buf len =
     (case buf of Packet_Buffer \<Rightarrow> take (unat len) (w_packet w) | Copy_Buffer n \<Rightarrow> take (unat len) (drop n (w_copy w)))"

definition logged :: "'x world \<Rightarrow> boot_event list \<Rightarrow> 'x world \<Rightarrow> 'x world" where
  "logged w evs w' = w'\<lparr>w_log := w_log w @ evs\<rparr>"

definition flash_read :: "flash_zone \<Rightarrow> u32 \<Rightarrow> u32 \<Rightarrow> buffer_ref \<Rightarrow> 'x boot \<Rightarrow> 'x world \<Rightarrow> boot_result \<times> 'x world" where
  "flash_read zone off len buf b w =
     (case the (o_read (b_flash_ops b)) w zone off len buf of (r, w') \<Rightarrow> (r, logged w [Ev_Read zone off len buf r] w'))"

definition flash_write :: "flash_zone \<Rightarrow> u32 \<Rightarrow> u32 \<Rightarrow> buffer_ref \<Rightarrow> 'x boot \<Rightarrow> 'x world \<Rightarrow> boot_result \<times> 'x world" where
  "flash_write zone off len buf b w =
     (case the (o_write (b_flash_ops b)) w zone off len buf of
        (r, w') \<Rightarrow> (r, logged w [Ev_Write zone off (buffer_bytes w buf len) r] w'))"

definition flash_erase :: "flash_zone \<Rightarrow> u32 \<Rightarrow> u32 \<Rightarrow> 'x boot \<Rightarrow> 'x world \<Rightarrow> boot_result \<times> 'x world" where
  "flash_erase zone off len b w =
     (case the (o_erase (b_flash_ops b)) w zone off len of (r, w') \<Rightarrow> (r, logged w [Ev_Erase zone off len r] w'))"

definition flash_is_busy :: "'x boot \<Rightarrow> 'x world \<Rightarrow> u8 \<times> 'x world" where
  "flash_is_busy b w = (case the (o_is_busy (b_flash_ops b)) w of (r, w') \<Rightarrow> (r, logged w [] w'))"

definition flash_result_get :: "'x boot \<Rightarrow> 'x world \<Rightarrow> boot_result \<times> 'x world" where
  "flash_result_get b w = (case the (o_result_get (b_flash_ops b)) w of (r, w') \<Rightarrow> (r, logged w [Ev_Result r] w'))"

definition flash_zone_info_get :: "flash_zone \<Rightarrow> 'x boot \<Rightarrow> 'x world \<Rightarrow> (boot_result \<times> boot_zone_info) \<times> 'x world" where
  "flash_zone_info_get zone b w = (case the (o_zone_info_get (b_flash_ops b)) w zone of (r, w') \<Rightarrow> (r, logged w [] w'))"

definition crc_init :: "'x boot \<Rightarrow> u16" where
  "crc_init b = the (c_crc16_init (b_config b))"

definition crc_update :: "'x boot \<Rightarrow> u8 list \<Rightarrow> u16 \<Rightarrow> u16" where
  "crc_update b = the (c_crc16_update (b_config b))"

section \<open>The firmware footer\<close>

definition footer_crc32_bit :: "u32 \<Rightarrow> u32" where
  "footer_crc32_bit crc = (if crc AND 1 \<noteq> 0 then drop_bit 1 crc XOR 0xEDB88320 else drop_bit 1 crc)"

definition footer_crc32_calculate :: "u8 list \<Rightarrow> u32" where
  "footer_crc32_calculate p_data = foldl (\<lambda>crc b. (footer_crc32_bit ^^ 8) (crc XOR ucast b)) 0xFFFFFFFF p_data"

definition overwrite :: "nat \<Rightarrow> 'a list \<Rightarrow> 'a list \<Rightarrow> 'a list" where
  "overwrite i xs buf = take i buf @ xs @ drop (i + length xs) buf"

definition footer_tail_update :: "u8 list \<Rightarrow> nat \<Rightarrow> 'x boot \<Rightarrow> 'x boot" where
  "footer_tail_update p_data len b =
     (let data = take len p_data; footer = b_footer_buffer b; n = b_footer_length b
      in if len \<ge> FOOTER_SIZE then
           b\<lparr>b_footer_buffer := overwrite 0 (drop (len - FOOTER_SIZE) data) footer, b_footer_length := FOOTER_SIZE\<rparr>
         else
           (let keep = (if n + len > FOOTER_SIZE then FOOTER_SIZE - len else n);
                kept = (if n + len > FOOTER_SIZE then overwrite 0 (take keep (drop (n - keep) footer)) footer else footer)
            in b\<lparr>b_footer_buffer := overwrite keep data kept, b_footer_length := keep + len\<rparr>))"

definition footer_is_valid :: "'x boot \<Rightarrow> bool" where
  "footer_is_valid b \<longleftrightarrow>
     (let footer = b_footer_buffer b; image_size = ui_file_size (b_upgrade_info b);
          footer_file_size = le_u32 (drop 9 footer); footer_crc = le_u32 (drop 30 footer);
          size_valid = (footer_file_size = image_size
                        \<or> image_size \<ge> of_nat FOOTER_SIZE \<and> footer_file_size = image_size - of_nat FOOTER_SIZE)
      in b_footer_length b = FOOTER_SIZE \<and> footer ! 4 = 1
         \<and> le_u32 (drop 5 footer) = ui_version (b_upgrade_info b) \<and> size_valid
         \<and> footer ! 29 = ui_module_id (b_upgrade_info b) \<and> footer_crc32_calculate (take 30 footer) = footer_crc)"

section \<open>Failures and metadata\<close>

definition flash_ops_valid :: "'x boot_flash_ops option \<Rightarrow> bool" where
  "flash_ops_valid p_ops =
     (case p_ops of
        None \<Rightarrow> False
      | Some ops \<Rightarrow> o_zone_info_get ops \<noteq> None \<and> o_read ops \<noteq> None \<and> o_write ops \<noteq> None \<and> o_erase ops \<noteq> None
          \<and> o_is_busy ops \<noteq> None \<and> o_result_get ops \<noteq> None)"

definition platform_ops_valid :: "'x boot_platform_ops option \<Rightarrow> bool" where
  "platform_ops_valid p_ops =
     (case p_ops of
        None \<Rightarrow> False
      | Some ops \<Rightarrow> o_boot_reason_get ops \<noteq> None \<and> o_boot_reason_clear ops \<noteq> None
          \<and> o_image_header_is_valid ops \<noteq> None \<and> o_jump_to_iap ops \<noteq> None)"

definition resident_failure :: "boot_result \<Rightarrow> 'x boot \<Rightarrow> 'x boot" where
  "resident_failure result b =
     b\<lparr>b_session_active := False, b_pending_packet_offset := 0, b_pending_packet_length := 0, b_copy_chunk_length := 0,
       b_state := ST_WAIT_UPGRADE, b_result := result\<rparr>"

text \<open>The result of a submission: wait in the given state, or fall back to the resident state.\<close>

definition submitted :: "boot_state \<Rightarrow> boot_result \<Rightarrow> 'x boot \<Rightarrow> 'x boot" where
  "submitted wait_state result b =
     (if result = BOOT_SUCCESS \<or> result = BOOT_IN_PROGRESS then b\<lparr>b_state := wait_state\<rparr> else resident_failure result b)"

definition current_metadata :: "'x boot \<Rightarrow> boot_metadata" where
  "current_metadata b =
     \<lparr>m_state = b_metadata_state b, m_mode = b_mode b, m_module_id = ui_module_id (b_upgrade_info b),
      m_retry_count = b_metadata_retry_count b, m_sequence = b_metadata_sequence b + 1,
      m_version = ui_version (b_upgrade_info b), m_file_size = ui_file_size (b_upgrade_info b),
      m_expected_crc = b_expected_crc b, m_received_length = b_received_length b, m_running_crc = b_running_crc b,
      m_copy_offset = b_copy_offset b, m_error_code = 0\<rparr>"

definition metadata_encode_current :: "'x boot \<Rightarrow> 'x world \<Rightarrow> boot_result \<times> 'x world" where
  "metadata_encode_current b w =
     (case bootloader_metadata_encode (Some (current_metadata b))
             (if c_copy_buffer (b_config b) then Some (w_copy w) else None) (unat (c_copy_buffer_size (b_config b))) of
        (result, p_encoded) \<Rightarrow>
          (result, case p_encoded of None \<Rightarrow> w | Some e \<Rightarrow> w\<lparr>w_copy := e\<rparr>))"

definition metadata_commit_start :: "u8 \<Rightarrow> boot_state \<Rightarrow> 'x boot \<Rightarrow> 'x world \<Rightarrow> 'x boot \<times> 'x world" where
  "metadata_commit_start metadata_state next_state b w =
     (let b1 = b\<lparr>b_metadata_state := metadata_state, b_metadata_next_state := next_state,
                 b_metadata_target_zone :=
                   (if b_metadata_source_zone b = ZONE_META_A then ZONE_META_B else ZONE_META_A)\<rparr>
      in case metadata_encode_current b1 w of
           (result, w1) \<Rightarrow>
             (if result \<noteq> BOOT_SUCCESS then resident_failure result b1
              else b1\<lparr>b_state := ST_METADATA_ERASE, b_result := BOOT_IN_PROGRESS\<rparr>, w1))"

definition metadata_read_submit ::
  "flash_zone \<Rightarrow> nat \<Rightarrow> boot_state \<Rightarrow> 'x boot \<Rightarrow> 'x world \<Rightarrow> 'x boot \<times> 'x world" where
  "metadata_read_submit zone buffer_offset wait_state b w =
     (case flash_read zone 0 (of_nat METADATA_ENCODED_SIZE) (Copy_Buffer buffer_offset) b w of
        (result, w1) \<Rightarrow> (submitted wait_state result b, w1))"

section \<open>Upgrade sessions\<close>

definition zone_requirements_check :: "flash_zone \<Rightarrow> u32 \<Rightarrow> 'x boot \<Rightarrow> 'x world \<Rightarrow> boot_result \<times> 'x world" where
  "zone_requirements_check zone required_size b w =
     (case flash_zone_info_get zone b w of
        ((result, info), w1) \<Rightarrow>
          (if result \<noteq> BOOT_SUCCESS then result
           else if required_size > zi_size info \<or> zi_readable info = 0 \<or> zi_writable info = 0 \<or> zi_erasable info = 0
           then BOOT_CONFIG_ERROR
           else BOOT_SUCCESS, w1))"

definition session_reset :: "boot_upgrade_info \<Rightarrow> u8 \<Rightarrow> 'x boot \<Rightarrow> 'x boot" where
  "session_reset info mode b =
     b\<lparr>b_upgrade_info := info, b_mode := mode,
       b_download_zone := (if mode = MODE_STAGED then ZONE_STAGING else ZONE_IAP),
       b_received_length := 0, b_pending_packet_offset := 0, b_pending_packet_length := 0, b_last_packet_offset := 0,
       b_last_packet_length := 0, b_copy_offset := 0, b_copy_chunk_length := 0, b_verify_offset := 0,
       b_copy_chunk_crc := 0, b_verify_crc := crc_init b, b_running_crc := crc_init b, b_expected_crc := 0,
       b_footer_length := 0, b_footer_buffer := replicate FOOTER_SIZE 0, b_session_active := True,
       b_jump_called := False, b_metadata_retry_count := 0\<rparr>"

definition upgrade_begin :: "boot_upgrade_info \<Rightarrow> u8 \<Rightarrow> 'x boot \<Rightarrow> 'x world \<Rightarrow> boot_result \<times> 'x boot \<times> 'x world" where
  "upgrade_begin info mode b w =
     (case (if b_state b \<noteq> ST_WAIT_UPGRADE then (True, w)
            else (case flash_is_busy b w of (busy, w1) \<Rightarrow> (busy = 1, w1))) of
        (True, w1) \<Rightarrow> (BOOT_BUSY, b, w1)
      | (False, w1) \<Rightarrow>
          if ui_module_id info \<noteq> c_expected_module_id (b_config b) \<or> ui_file_size info = 0 \<or> mode > MODE_STAGED
          then (BOOT_INVALID_ARGUMENT, b, w1)
          else
            (case zone_requirements_check ZONE_IAP (ui_file_size info) b w1 of
               (r1, w2) \<Rightarrow>
                 if r1 \<noteq> BOOT_SUCCESS then (r1, b, w2)
                 else
                   (case (if mode = MODE_STAGED then zone_requirements_check ZONE_STAGING (ui_file_size info) b w2
                          else (BOOT_SUCCESS, w2)) of
                      (r2, w3) \<Rightarrow>
                        if r2 \<noteq> BOOT_SUCCESS then (r2, b, w3)
                        else
                          (case metadata_commit_start
                                  (if mode = MODE_STAGED then META_DOWNLOAD_STAGED else META_DOWNLOAD_DIRECT)
                                  ST_DOWNLOAD_ERASE (session_reset info mode b) w3 of
                             (b1, w4) \<Rightarrow> (BOOT_SUCCESS, b1, w4)))))"

definition bootloader_upgrade_begin ::
  "'x boot option \<Rightarrow> boot_upgrade_info option \<Rightarrow> u8 \<Rightarrow> 'x world \<Rightarrow> boot_result \<times> 'x boot option \<times> 'x world" where
  "bootloader_upgrade_begin p_bootloader p_info mode w =
     (case (p_bootloader, p_info) of
        (Some b, Some info) \<Rightarrow> (case upgrade_begin info mode b w of (r, b1, w1) \<Rightarrow> (r, Some b1, w1))
      | _ \<Rightarrow> (BOOT_INVALID_ARGUMENT, p_bootloader, w))"

section \<open>Startup\<close>

definition metadata_load :: "boot_metadata \<Rightarrow> flash_zone \<Rightarrow> 'x boot \<Rightarrow> 'x boot" where
  "metadata_load m source b =
     b\<lparr>b_metadata_valid := True, b_metadata_source_zone := source, b_metadata_sequence := m_sequence m,
       b_metadata_state := m_state m, b_metadata_retry_count := m_retry_count m, b_mode := m_mode m,
       b_upgrade_info := (b_upgrade_info b)\<lparr>ui_module_id := m_module_id m, ui_version := m_version m,
                                            ui_file_size := m_file_size m\<rparr>,
       b_received_length := m_received_length m, b_running_crc := m_running_crc m, b_expected_crc := m_expected_crc m,
       b_copy_offset := m_copy_offset m\<rparr>"

text \<open>The last part: the boot reason decides between the resident state and the startup check.\<close>

definition startup_choose :: "'x boot \<Rightarrow> 'x world \<Rightarrow> 'x boot \<times> 'x world" where
  "startup_choose b w =
     (if b_boot_reason b = REASON_IAP_REQUEST \<or> b_boot_reason b = REASON_RECOVERY then
        (let b1 = b\<lparr>b_state := ST_WAIT_UPGRADE\<rparr>
         in if b_boot_reason b = REASON_IAP_REQUEST \<and> b_startup_upgrade_info_valid b then
              (case upgrade_begin (b_startup_upgrade_info b) (c_default_mode (b_config b)) b1 w of
                 (begin_result, b2, w1) \<Rightarrow>
                   (if begin_result \<noteq> BOOT_SUCCESS then resident_failure begin_result b2 else b2, w1))
            else (b1\<lparr>b_result := BOOT_SUCCESS\<rparr>, w))
      else (b\<lparr>b_state := ST_STARTUP_READ, b_result := BOOT_SUCCESS\<rparr>, w))"

definition metadata_startup_evaluate :: "'x boot \<Rightarrow> 'x world \<Rightarrow> 'x boot \<times> 'x world" where
  "metadata_startup_evaluate b w =
     (case bootloader_metadata_select (Some (w_copy w)) (Some (drop METADATA_ENCODED_SIZE (w_copy w))) True of
        Inr (m, source) \<Rightarrow>
          (let b1 = metadata_load m source b
           in if (m_state m = META_INSTALL_PENDING \<or> m_state m = META_COPYING) \<and> m_mode m = MODE_STAGED
                 \<and> m_file_size m \<noteq> 0
              then
                (if m_retry_count m \<ge> 3 then (resident_failure BOOT_RECOVERY_REQUIRED b1, w)
                 else metadata_commit_start META_COPYING ST_COPY_ERASE
                        (b1\<lparr>b_metadata_retry_count := b_metadata_retry_count b1 + 1, b_copy_offset := 0\<rparr>) w)
              else if (m_state m = META_DOWNLOAD_DIRECT \<or> m_state m = META_DOWNLOAD_STAGED \<or> m_state m = META_FAILED)
                 \<and> (b_boot_reason b1 \<noteq> REASON_IAP_REQUEST \<or> \<not> b_startup_upgrade_info_valid b1)
              then (resident_failure BOOT_RECOVERY_REQUIRED b1, w)
              else startup_choose b1 w)
      | Inl _ \<Rightarrow>
          startup_choose (b\<lparr>b_metadata_valid := False, b_metadata_source_zone := ZONE_META_B, b_metadata_sequence := 0\<rparr>) w)"

definition startup_read_submit :: "'x boot \<Rightarrow> 'x world \<Rightarrow> 'x boot \<times> 'x world" where
  "startup_read_submit b w =
     (case flash_zone_info_get ZONE_IAP b w of
        ((result, info), w1) \<Rightarrow>
          if result \<noteq> BOOT_SUCCESS \<or> zi_readable info = 0 \<or> c_image_header_length (b_config b) > zi_size info
          then (resident_failure BOOT_CONFIG_ERROR b, w1)
          else
            (case flash_read ZONE_IAP 0 (c_image_header_length (b_config b)) Packet_Buffer b w1 of
               (result, w2) \<Rightarrow> (submitted ST_STARTUP_WAIT result b, w2)))"

text \<open>The platform's verdict on the header in the packet buffer.\<close>

definition header_check :: "u32 \<Rightarrow> 'x boot \<Rightarrow> 'x world \<Rightarrow> bool \<times> 'x world" where
  "header_check image_size b w =
     (let header = take (unat (c_image_header_length (b_config b))) (w_packet w)
      in case the (o_image_header_is_valid (b_platform_ops b)) w header image_size of
           ((result, valid), w') \<Rightarrow>
             (let ok = (result = BOOT_SUCCESS \<and> valid \<noteq> 0) in (ok, logged w [Ev_Check header image_size ok] w')))"

definition installed_header_evaluate :: "bool \<Rightarrow> 'x boot \<Rightarrow> 'x world \<Rightarrow> 'x boot \<times> 'x world" where
  "installed_header_evaluate final_image b w =
     (let check = (\<lambda>b1 w1.
            (case header_check (ui_file_size (b_upgrade_info b1)) b1 w1 of
               (valid, w2) \<Rightarrow>
                 if \<not> valid then (resident_failure BOOT_IMAGE_INVALID b1, w2)
                 else if final_image
                 then metadata_commit_start META_VALID ST_JUMP_PENDING (b1\<lparr>b_metadata_retry_count := 0\<rparr>) w2
                 else (b1\<lparr>b_state := ST_JUMP_PENDING, b_result := BOOT_SUCCESS\<rparr>, w2)))
      in if ui_file_size (b_upgrade_info b) = 0 then
           (case flash_zone_info_get ZONE_IAP b w of
              ((result, info), w1) \<Rightarrow>
                if result \<noteq> BOOT_SUCCESS then (resident_failure result b, w1)
                else check (b\<lparr>b_upgrade_info := (b_upgrade_info b)\<lparr>ui_file_size := zi_size info\<rparr>\<rparr>) w1)
         else check b w)"

section \<open>Installation\<close>

definition final_read_submit :: "'x boot \<Rightarrow> 'x world \<Rightarrow> 'x boot \<times> 'x world" where
  "final_read_submit b w =
     (case flash_read ZONE_IAP 0 (c_image_header_length (b_config b)) Packet_Buffer b w of
        (result, w1) \<Rightarrow> (submitted ST_FINAL_READ_WAIT result b, w1))"

definition next_chunk :: "u32 \<Rightarrow> 'x boot \<Rightarrow> u32" where
  "next_chunk offset b =
     (let remaining = ui_file_size (b_upgrade_info b) - offset
      in if remaining < c_copy_buffer_size (b_config b) then remaining else c_copy_buffer_size (b_config b))"

definition copy_read_submit :: "'x boot \<Rightarrow> 'x world \<Rightarrow> 'x boot \<times> 'x world" where
  "copy_read_submit b w =
     (let b1 = b\<lparr>b_copy_chunk_length := next_chunk (b_copy_offset b) b\<rparr>
      in case flash_read ZONE_STAGING (b_copy_offset b1) (b_copy_chunk_length b1) (Copy_Buffer 0) b1 w of
           (result, w1) \<Rightarrow> (submitted ST_COPY_READ_WAIT result b1, w1))"

definition copy_verify_read_submit :: "'x boot \<Rightarrow> 'x world \<Rightarrow> 'x boot \<times> 'x world" where
  "copy_verify_read_submit b w =
     (case flash_read ZONE_IAP (b_copy_offset b) (b_copy_chunk_length b) (Copy_Buffer 0) b w of
        (result, w1) \<Rightarrow> (submitted ST_COPY_VERIFY_READ_WAIT result b, w1))"

definition verify_read_submit :: "'x boot \<Rightarrow> 'x world \<Rightarrow> 'x boot \<times> 'x world" where
  "verify_read_submit b w =
     (let chunk = next_chunk (b_verify_offset b) b
      in case flash_read ZONE_IAP (b_verify_offset b) chunk (Copy_Buffer 0) b w of
           (result, w1) \<Rightarrow>
             (if result = BOOT_IN_PROGRESS \<or> result = BOOT_SUCCESS
              then b\<lparr>b_copy_chunk_length := chunk, b_state := ST_VERIFY_READ_WAIT\<rparr>
              else resident_failure result b, w1))"

text \<open>A packet has been programmed.\<close>

definition packet_complete :: "'x boot \<Rightarrow> 'x world \<Rightarrow> 'x boot" where
  "packet_complete b w =
     (let len = b_pending_packet_length b; b1 = footer_tail_update (w_packet w) (unat len) b
      in b1\<lparr>b_running_crc := crc_update b (take (unat len) (w_packet w)) (b_running_crc b),
            b_last_packet_offset := b_pending_packet_offset b, b_last_packet_length := len,
            b_received_length := b_received_length b + len, b_pending_packet_offset := 0, b_pending_packet_length := 0,
            b_state := ST_DOWNLOAD_READY, b_result := BOOT_SUCCESS\<rparr>)"

definition copy_chunk :: "'x boot \<Rightarrow> 'x world \<Rightarrow> u8 list" where
  "copy_chunk b w = take (unat (b_copy_chunk_length b)) (w_copy w)"

definition copy_verified :: "'x boot \<Rightarrow> 'x world \<Rightarrow> 'x boot \<times> 'x world" where
  "copy_verified b w =
     (if crc_update b (copy_chunk b w) (crc_init b) \<noteq> b_copy_chunk_crc b then (resident_failure BOOT_IMAGE_INVALID b, w)
      else
        (let b1 = b\<lparr>b_copy_offset := b_copy_offset b + b_copy_chunk_length b, b_copy_chunk_length := 0\<rparr>
         in if b_copy_offset b1 \<ge> ui_file_size (b_upgrade_info b1)
            then metadata_commit_start META_COPYING ST_VERIFY_READ (b1\<lparr>b_verify_offset := 0, b_verify_crc := crc_init b\<rparr>) w
            else metadata_commit_start META_COPYING ST_COPY_READ b1 w))"

definition verify_chunk_read :: "'x boot \<Rightarrow> 'x world \<Rightarrow> 'x boot" where
  "verify_chunk_read b w =
     (let b1 = b\<lparr>b_verify_crc := crc_update b (copy_chunk b w) (b_verify_crc b),
                 b_verify_offset := b_verify_offset b + b_copy_chunk_length b, b_copy_chunk_length := 0\<rparr>
      in if b_verify_offset b1 \<ge> ui_file_size (b_upgrade_info b1) then
           (if b_verify_crc b1 \<noteq> b_expected_crc b1 then resident_failure BOOT_IMAGE_INVALID b1
            else b1\<lparr>b_state := ST_FINAL_READ\<rparr>)
         else b1\<lparr>b_state := ST_VERIFY_READ\<rparr>)"

definition metadata_committed :: "'x boot \<Rightarrow> 'x boot" where
  "metadata_committed b =
     b\<lparr>b_metadata_sequence := b_metadata_sequence b + 1, b_metadata_source_zone := b_metadata_target_zone b,
       b_metadata_valid := True, b_state := b_metadata_next_state b,
       b_result := (if b_metadata_next_state b = ST_DOWNLOAD_READY then BOOT_SUCCESS else BOOT_IN_PROGRESS)\<rparr>"

text \<open>A completed storage operation, by the state that waited for it.\<close>

definition storage_completed :: "'x boot \<Rightarrow> 'x world \<Rightarrow> 'x boot \<times> 'x world" where
  "storage_completed b w =
     (case b_state b of
        ST_META_A_WAIT \<Rightarrow> (b\<lparr>b_state := ST_META_B_READ\<rparr>, w)
      | ST_META_B_WAIT \<Rightarrow> metadata_startup_evaluate b w
      | ST_STARTUP_WAIT \<Rightarrow> installed_header_evaluate False b w
      | ST_DOWNLOAD_ERASE_WAIT \<Rightarrow>
          metadata_commit_start (if b_mode b = MODE_STAGED then META_DOWNLOAD_STAGED else META_DOWNLOAD_DIRECT)
            ST_DOWNLOAD_READY b w
      | ST_PACKET_WRITE_WAIT \<Rightarrow> (packet_complete b w, w)
      | ST_COPY_ERASE_WAIT \<Rightarrow> (b\<lparr>b_copy_offset := 0, b_state := ST_COPY_READ\<rparr>, w)
      | ST_COPY_READ_WAIT \<Rightarrow>
          (b\<lparr>b_copy_chunk_crc := crc_update b (copy_chunk b w) (crc_init b), b_state := ST_COPY_WRITE\<rparr>, w)
      | ST_COPY_WRITE_WAIT \<Rightarrow> (b\<lparr>b_state := ST_COPY_VERIFY_READ\<rparr>, w)
      | ST_COPY_VERIFY_READ_WAIT \<Rightarrow> copy_verified b w
      | ST_VERIFY_READ_WAIT \<Rightarrow> (verify_chunk_read b w, w)
      | ST_FINAL_READ_WAIT \<Rightarrow> installed_header_evaluate True b w
      | ST_METADATA_ERASE_WAIT \<Rightarrow> (b\<lparr>b_state := ST_METADATA_WRITE\<rparr>, w)
      | ST_METADATA_WRITE_WAIT \<Rightarrow> (metadata_committed b, w)
      | _ \<Rightarrow> (resident_failure BOOT_CONFIG_ERROR b, w))"

definition storage_wait_handle :: "'x boot \<Rightarrow> 'x world \<Rightarrow> 'x boot \<times> 'x world" where
  "storage_wait_handle b w =
     (case flash_is_busy b w of
        (busy, w1) \<Rightarrow>
          if busy = 1 then (b, w1)
          else
            (case flash_result_get b w1 of
               (result, w2) \<Rightarrow>
                 if result \<noteq> BOOT_SUCCESS then (resident_failure result b, w2) else storage_completed b w2))"

section \<open>The public operations\<close>

definition boot_zeroed :: "'x boot_flash_ops \<Rightarrow> 'x boot" where
  "boot_zeroed flash_ops =
     \<lparr>b_config = \<lparr>c_expected_module_id = 0, c_default_mode = MODE_DIRECT, c_image_header_length = 0, c_packet_buffer = False,
                  c_packet_buffer_size = 0, c_copy_buffer = False, c_copy_buffer_size = 0, c_crc16_init = None,
                  c_crc16_update = None\<rparr>,
      b_flash_ops = flash_ops,
      b_platform_ops = \<lparr>o_boot_reason_get = None, o_upgrade_info_get = None, o_boot_reason_clear = None,
                        o_image_header_is_valid = None, o_jump_to_iap = None, o_watchdog_kick = None\<rparr>,
      b_upgrade_info = \<lparr>ui_module_id = 0, ui_file_size = 0, ui_version = 0, ui_update_type = 0\<rparr>,
      b_startup_upgrade_info = \<lparr>ui_module_id = 0, ui_file_size = 0, ui_version = 0, ui_update_type = 0\<rparr>,
      b_state = ST_UNINITIALIZED, b_result = BOOT_SUCCESS, b_mode = MODE_DIRECT, b_download_zone = ZONE_IAP,
      b_received_length = 0, b_pending_packet_offset = 0, b_pending_packet_length = 0, b_last_packet_offset = 0,
      b_last_packet_length = 0, b_copy_offset = 0, b_copy_chunk_length = 0, b_verify_offset = 0, b_copy_chunk_crc = 0,
      b_verify_crc = 0, b_running_crc = 0, b_expected_crc = 0, b_footer_buffer = replicate FOOTER_SIZE 0,
      b_footer_length = 0, b_session_active = False, b_jump_called = False, b_boot_reason = REASON_POWER_ON,
      b_metadata_next_state = ST_UNINITIALIZED, b_metadata_source_zone = ZONE_IAP, b_metadata_target_zone = ZONE_IAP,
      b_metadata_sequence = 0, b_metadata_state = META_EMPTY, b_metadata_retry_count = 0, b_metadata_valid = False,
      b_startup_upgrade_info_valid = False\<rparr>"

definition bootloader_flash_ops_init ::
  "'x boot option \<Rightarrow> 'x boot_flash_ops option \<Rightarrow> boot_result \<times> 'x boot option" where
  "bootloader_flash_ops_init p_bootloader p_flash_ops =
     (case p_bootloader of
        None \<Rightarrow> (BOOT_INVALID_ARGUMENT, None)
      | Some b \<Rightarrow>
          if \<not> flash_ops_valid p_flash_ops
          then (BOOT_CONFIG_ERROR, Some (b\<lparr>b_state := ST_CONFIG_ERROR, b_result := BOOT_CONFIG_ERROR\<rparr>))
          else (BOOT_SUCCESS, Some (b\<lparr>b_flash_ops := the p_flash_ops\<rparr>)))"

definition config_invalid :: "boot_config \<Rightarrow> bool" where
  "config_invalid c \<longleftrightarrow>
     \<not> c_packet_buffer c \<or> unat (c_packet_buffer_size c) < PACKET_DATA_SIZE
     \<or> \<not> c_copy_buffer c \<or> unat (c_copy_buffer_size c) < 2 * METADATA_ENCODED_SIZE
     \<or> c_image_header_length c = 0 \<or> c_image_header_length c > c_packet_buffer_size c
     \<or> c_crc16_init c = None \<or> c_crc16_update c = None \<or> c_default_mode c > MODE_STAGED"

definition bootloader_init ::
  "'x boot option \<Rightarrow> boot_config option \<Rightarrow> 'x boot_platform_ops option \<Rightarrow> 'x world
    \<Rightarrow> boot_result \<times> 'x boot option \<times> 'x world" where
  "bootloader_init p_bootloader p_config p_platform_ops w =
     (case p_bootloader of
        None \<Rightarrow> (BOOT_INVALID_ARGUMENT, None, w)
      | Some b0 \<Rightarrow>
          let b = (boot_zeroed (b_flash_ops b0))\<lparr>b_result := BOOT_CONFIG_ERROR\<rparr>
          in if p_config = None \<or> \<not> flash_ops_valid (Some (b_flash_ops b)) \<or> \<not> platform_ops_valid p_platform_ops
               \<or> config_invalid (the p_config)
             then (BOOT_CONFIG_ERROR, Some (b\<lparr>b_state := ST_CONFIG_ERROR\<rparr>), w)
             else
               (let config = the p_config; ops = the p_platform_ops
                in case the (o_boot_reason_get ops) w of
                     (reason, w1) \<Rightarrow>
                       let b1 = b\<lparr>b_config := config, b_platform_ops := ops, b_mode := c_default_mode config,
                                  b_boot_reason := reason\<rparr>
                       in case (if reason = REASON_IAP_REQUEST then o_upgrade_info_get ops else None) of
                            None \<Rightarrow>
                              (BOOT_SUCCESS,
                               Some (b1\<lparr>b_metadata_source_zone := ZONE_META_B, b_state := ST_META_A_READ,
                                        b_result := BOOT_SUCCESS\<rparr>), logged w [] w1)
                          | Some get \<Rightarrow>
                              (case get (logged w [] w1) of
                                 ((result, info), w2) \<Rightarrow>
                                   (BOOT_SUCCESS,
                                    Some (b1\<lparr>b_startup_upgrade_info := info,
                                             b_startup_upgrade_info_valid := (result = BOOT_SUCCESS),
                                             b_metadata_source_zone := ZONE_META_B, b_state := ST_META_A_READ,
                                             b_result := BOOT_SUCCESS\<rparr>), logged w [] w2))))"

definition jump_pending :: "'x boot \<Rightarrow> 'x world \<Rightarrow> 'x boot \<times> 'x world" where
  "jump_pending b w =
     (if b_jump_called b then (b, w)
      else
        (case the (o_boot_reason_clear (b_platform_ops b)) w of
           (result, w') \<Rightarrow>
             (let w1 = logged w [Ev_Clear result] w'
              in if result \<noteq> BOOT_SUCCESS then (resident_failure result b, w1)
                 else
                   (case the (o_jump_to_iap (b_platform_ops b)) w1 of
                      (result, w'') \<Rightarrow>
                        (let b1 = b\<lparr>b_jump_called := True\<rparr>; w2 = logged w1 [Ev_Jump] w''
                         in (if result \<noteq> BOOT_SUCCESS then resident_failure result b1 else b1, w2))))))"

definition state_process :: "'x boot \<Rightarrow> 'x world \<Rightarrow> 'x boot \<times> 'x world" where
  "state_process b w =
     (case b_state b of
        ST_META_A_READ \<Rightarrow> metadata_read_submit ZONE_META_A 0 ST_META_A_WAIT b w
      | ST_META_B_READ \<Rightarrow> metadata_read_submit ZONE_META_B METADATA_ENCODED_SIZE ST_META_B_WAIT b w
      | ST_STARTUP_READ \<Rightarrow> startup_read_submit b w
      | ST_DOWNLOAD_ERASE \<Rightarrow>
          (case flash_erase (b_download_zone b) 0 (ui_file_size (b_upgrade_info b)) b w of
             (result, w1) \<Rightarrow> (submitted ST_DOWNLOAD_ERASE_WAIT result b, w1))
      | ST_COPY_ERASE \<Rightarrow>
          (case flash_erase ZONE_IAP 0 (ui_file_size (b_upgrade_info b)) b w of
             (result, w1) \<Rightarrow> (submitted ST_COPY_ERASE_WAIT result b, w1))
      | ST_COPY_READ \<Rightarrow> copy_read_submit b w
      | ST_COPY_WRITE \<Rightarrow>
          (case flash_write ZONE_IAP (b_copy_offset b) (b_copy_chunk_length b) (Copy_Buffer 0) b w of
             (result, w1) \<Rightarrow> (submitted ST_COPY_WRITE_WAIT result b, w1))
      | ST_COPY_VERIFY_READ \<Rightarrow> copy_verify_read_submit b w
      | ST_VERIFY_READ \<Rightarrow> verify_read_submit b w
      | ST_FINAL_READ \<Rightarrow> final_read_submit b w
      | ST_METADATA_ERASE \<Rightarrow>
          (case flash_erase (b_metadata_target_zone b) 0 (of_nat METADATA_ENCODED_SIZE) b w of
             (result, w1) \<Rightarrow> (submitted ST_METADATA_ERASE_WAIT result b, w1))
      | ST_METADATA_WRITE \<Rightarrow>
          (case flash_write (b_metadata_target_zone b) 0 (of_nat METADATA_ENCODED_SIZE) (Copy_Buffer 0) b w of
             (result, w1) \<Rightarrow> (submitted ST_METADATA_WRITE_WAIT result b, w1))
      | ST_JUMP_PENDING \<Rightarrow> jump_pending b w
      | ST_UNINITIALIZED \<Rightarrow> (b, w)
      | ST_WAIT_UPGRADE \<Rightarrow> (b, w)
      | ST_DOWNLOAD_READY \<Rightarrow> (b, w)
      | ST_CONFIG_ERROR \<Rightarrow> (b, w)
      | _ \<Rightarrow> storage_wait_handle b w)"

definition bootloader_process :: "'x boot option \<Rightarrow> 'x world \<Rightarrow> 'x boot option \<times> 'x world" where
  "bootloader_process p_bootloader w =
     (case p_bootloader of
        None \<Rightarrow> (None, w)
      | Some b \<Rightarrow>
          (case state_process b
                  (case o_watchdog_kick (b_platform_ops b) of None \<Rightarrow> w | Some kick \<Rightarrow> logged w [] (kick w)) of
             (b1, w1) \<Rightarrow> (Some b1, w1)))"

definition bootloader_packet_submit ::
  "'x boot option \<Rightarrow> u32 \<Rightarrow> u8 list option \<Rightarrow> u32 \<Rightarrow> 'x world \<Rightarrow> boot_result \<times> 'x boot option \<times> 'x world" where
  "bootloader_packet_submit p_bootloader offset p_data len w =
     (case (p_bootloader, p_data) of
        (Some b, Some data) \<Rightarrow>
          if len = 0 \<or> unat len > PACKET_DATA_SIZE then (BOOT_INVALID_ARGUMENT, p_bootloader, w)
          else if b_state b \<noteq> ST_DOWNLOAD_READY \<or> \<not> b_session_active b then (BOOT_BUSY, p_bootloader, w)
          else if b_last_packet_length b \<noteq> 0 \<and> offset = b_last_packet_offset b \<and> len = b_last_packet_length b
            \<and> take (unat len) (w_packet w) = take (unat len) data
          then (BOOT_SUCCESS, p_bootloader, w)
          else if offset \<noteq> b_received_length b \<or> len > ui_file_size (b_upgrade_info b) - b_received_length b
          then (BOOT_PROTOCOL_ERROR, p_bootloader, w)
          else
            (case flash_write (b_download_zone b) offset len Packet_Buffer b
                    (w\<lparr>w_packet := overwrite 0 (take (unat len) data) (w_packet w)\<rparr>) of
               (result, w1) \<Rightarrow>
                 if result \<noteq> BOOT_IN_PROGRESS \<and> result \<noteq> BOOT_SUCCESS then (result, Some (resident_failure result b), w1)
                 else (BOOT_SUCCESS,
                       Some (b\<lparr>b_pending_packet_offset := offset, b_pending_packet_length := len,
                               b_state := ST_PACKET_WRITE_WAIT, b_result := BOOT_IN_PROGRESS\<rparr>), w1))
      | _ \<Rightarrow> (BOOT_INVALID_ARGUMENT, p_bootloader, w))"

definition bootloader_upgrade_end ::
  "'x boot option \<Rightarrow> u16 \<Rightarrow> 'x world \<Rightarrow> boot_result \<times> 'x boot option \<times> 'x world" where
  "bootloader_upgrade_end p_bootloader expected_crc w =
     (case p_bootloader of
        None \<Rightarrow> (BOOT_INVALID_ARGUMENT, None, w)
      | Some b \<Rightarrow>
          if b_state b \<noteq> ST_DOWNLOAD_READY \<or> \<not> b_session_active b then (BOOT_BUSY, p_bootloader, w)
          else if b_received_length b \<noteq> ui_file_size (b_upgrade_info b) \<or> b_running_crc b \<noteq> expected_crc
            \<or> \<not> footer_is_valid b
          then (BOOT_IMAGE_INVALID, Some (resident_failure BOOT_IMAGE_INVALID b), w)
          else
            (let b1 = b\<lparr>b_expected_crc := expected_crc, b_session_active := False\<rparr>
             in case (if b_mode b = MODE_STAGED then metadata_commit_start META_INSTALL_PENDING ST_COPY_ERASE b1 w
                      else (b1\<lparr>b_verify_offset := 0, b_verify_crc := crc_init b, b_state := ST_VERIFY_READ\<rparr>, w)) of
                  (b2, w1) \<Rightarrow> (BOOT_SUCCESS, Some (b2\<lparr>b_result := BOOT_IN_PROGRESS\<rparr>), w1)))"

definition bootloader_is_download_ready :: "'x boot option \<Rightarrow> bool" where
  "bootloader_is_download_ready p_bootloader = (case p_bootloader of None \<Rightarrow> False | Some b \<Rightarrow> b_state b = ST_DOWNLOAD_READY)"

definition bootloader_state_get :: "'x boot option \<Rightarrow> boot_state" where
  "bootloader_state_get p_bootloader = (case p_bootloader of None \<Rightarrow> ST_CONFIG_ERROR | Some b \<Rightarrow> b_state b)"

definition bootloader_result_get :: "'x boot option \<Rightarrow> boot_result" where
  "bootloader_result_get p_bootloader = (case p_bootloader of None \<Rightarrow> BOOT_INVALID_ARGUMENT | Some b \<Rightarrow> b_result b)"

end
