(* ===== verification/Boot_Safety.thy ===== *)
theory Boot_Safety
  imports Boot_Core
begin

text \<open>
  Safety of the boot state machine (code/app/bootloader/core/bootloader_core.c): the API and its
  environment as a step relation, what the log of a run says about power-fail recovery and about
  the jump, and the invariant from which both follow.
\<close>

section \<open>Steps\<close>

definition accepted :: "boot_result \<Rightarrow> bool" where
  "accepted r \<longleftrightarrow> r = BOOT_SUCCESS \<or> r = BOOT_IN_PROGRESS"

text \<open>A read into the copy buffer is outstanding.\<close>

definition reading_step :: "bool \<Rightarrow> boot_event \<Rightarrow> bool" where
  "reading_step old ev =
     (case ev of Ev_Read z off len buf r \<Rightarrow> accepted r \<and> buf \<noteq> Packet_Buffer
      | Ev_Write z off d r \<Rightarrow> False | Ev_Erase z off len r \<Rightarrow> False | Ev_Result r \<Rightarrow> False | _ \<Rightarrow> old)"

definition reading_copy :: "boot_event list \<Rightarrow> bool" where
  "reading_copy log = foldl reading_step False log"

text \<open>A read into the packet buffer is outstanding.\<close>

definition packet_reading_step :: "bool \<Rightarrow> boot_event \<Rightarrow> bool" where
  "packet_reading_step old ev =
     (case ev of Ev_Read z off len buf r \<Rightarrow> accepted r \<and> buf = Packet_Buffer
      | Ev_Write z off d r \<Rightarrow> False | Ev_Erase z off len r \<Rightarrow> False | Ev_Result r \<Rightarrow> False | _ \<Rightarrow> old)"

definition reading_packet :: "boot_event list \<Rightarrow> bool" where
  "reading_packet log = foldl packet_reading_step False log"

text \<open>A caller hands over at least \<open>len\<close> bytes.  Between the calls the platform may change anything but
  the log; the copy buffer and the packet buffer only while a read into them is outstanding.\<close>

inductive boot_step :: "'x boot \<times> 'x world \<Rightarrow> 'x boot \<times> 'x world \<Rightarrow> bool" where
  bs_process: "bootloader_process (Some b) w = (Some b', w') \<Longrightarrow> boot_step (b, w) (b', w')"
| bs_begin: "bootloader_upgrade_begin (Some b) p_info mode w = (r, Some b', w') \<Longrightarrow> boot_step (b, w) (b', w')"
| bs_packet: "(\<And>d. p_data = Some d \<Longrightarrow> unat len \<le> length d) \<Longrightarrow> bootloader_packet_submit (Some b) offset p_data len w = (r, Some b', w') \<Longrightarrow> boot_step (b, w) (b', w')"
| bs_end: "bootloader_upgrade_end (Some b) expected_crc w = (r, Some b', w') \<Longrightarrow> boot_step (b, w) (b', w')"
| bs_environment: "w_log w' = w_log w \<Longrightarrow> (\<not> reading_copy (w_log w) \<Longrightarrow> w_copy w' = w_copy w)
    \<Longrightarrow> (\<not> reading_packet (w_log w) \<Longrightarrow> w_packet w' = w_packet w) \<Longrightarrow> boot_step (b, w) (b, w')"

section \<open>Reading a log\<close>

text \<open>The state byte of the metadata record being programmed, and of the last one confirmed.\<close>

definition commit_step :: "u8 option \<times> u8 option \<Rightarrow> boot_event \<Rightarrow> u8 option \<times> u8 option" where
  "commit_step c ev =
     (case ev of
        Ev_Write z off d r \<Rightarrow> (if z = ZONE_META_A \<or> z = ZONE_META_B then Some (d ! 6) else None, snd c)
      | Ev_Result r \<Rightarrow> (None, if r = BOOT_SUCCESS \<and> fst c \<noteq> None then fst c else snd c)
      | Ev_Read z off len buf r \<Rightarrow> (None, snd c)
      | Ev_Erase z off len r \<Rightarrow> (None, snd c)
      | _ \<Rightarrow> c)"

definition commits :: "boot_event list \<Rightarrow> u8 option \<times> u8 option" where
  "commits log = foldl commit_step (None, None) log"

definition touches_iap :: "boot_event \<Rightarrow> bool" where
  "touches_iap ev =
     (case ev of Ev_Write z off d r \<Rightarrow> z = ZONE_IAP | Ev_Erase z off len r \<Rightarrow> z = ZONE_IAP | _ \<Rightarrow> False)"

text \<open>The records under which a restart does not start the image in the IAP zone.\<close>

definition recovering :: "u8 option \<Rightarrow> bool" where
  "recovering s \<longleftrightarrow> s = Some META_DOWNLOAD_DIRECT \<or> s = Some META_INSTALL_PENDING \<or> s = Some META_COPYING"

definition protected :: "boot_event list \<Rightarrow> bool" where
  "protected log \<longleftrightarrow> (\<forall>pre ev post. log = pre @ ev # post \<longrightarrow> touches_iap ev \<longrightarrow> recovering (snd (commits pre)))"

text \<open>The image header has been found valid and the IAP zone has not been touched since.\<close>

definition check_step :: "bool \<Rightarrow> boot_event \<Rightarrow> bool" where
  "check_step old ev = (case ev of Ev_Check h n ok \<Rightarrow> ok | _ \<Rightarrow> old \<and> \<not> touches_iap ev)"

definition checked :: "boot_event list \<Rightarrow> bool" where
  "checked log = foldl check_step False log"

definition jumps_checked :: "boot_event list \<Rightarrow> bool" where
  "jumps_checked log \<longleftrightarrow>
     (\<forall>pre post. log = pre @ Ev_Jump # post \<longrightarrow> checked pre \<and> (\<exists>pre'. pre = pre' @ [Ev_Clear BOOT_SUCCESS]))"

lemma reading_copy_snoc [simp]: "reading_copy (log @ [e]) = reading_step (reading_copy log) e"
  by (simp add: reading_copy_def)

lemma commits_snoc [simp]: "commits (log @ [e]) = commit_step (commits log) e"
  by (simp add: commits_def)

lemma checked_snoc [simp]: "checked (log @ [e]) = check_step (checked log) e"
  by (simp add: checked_def)

lemma snoc_split: "log @ [e] = pre @ ev # post \<longleftrightarrow> pre = log \<and> ev = e \<and> post = [] \<or> (\<exists>p. post = p @ [e] \<and> log = pre @ ev # p)"
  by (cases post rule: rev_cases) auto

lemma protected_snoc [simp]: "protected (log @ [e]) \<longleftrightarrow> protected log \<and> (touches_iap e \<longrightarrow> recovering (snd (commits log)))"
  unfolding protected_def snoc_split by blast

lemma jumps_checked_snoc [simp]:
  "jumps_checked (log @ [e]) \<longleftrightarrow>
    jumps_checked log \<and> (e = Ev_Jump \<longrightarrow> checked log \<and> (\<exists>pre'. log = pre' @ [Ev_Clear BOOT_SUCCESS]))"
  unfolding jumps_checked_def snoc_split by blast

lemma logs_empty [simp]: "protected []" "jumps_checked []" "\<not> reading_copy []" "\<not> checked []"
  by (simp_all add: protected_def jumps_checked_def reading_copy_def checked_def)

section \<open>The invariant\<close>

definition reading_state :: "boot_state \<Rightarrow> bool" where
  "reading_state s \<longleftrightarrow> s \<in> {ST_META_A_WAIT, ST_META_B_WAIT, ST_COPY_READ_WAIT, ST_COPY_VERIFY_READ_WAIT, ST_VERIFY_READ_WAIT}"

definition session_ok :: "'x boot \<Rightarrow> bool" where
  "session_ok b \<longleftrightarrow>
     b_download_zone b = (if b_mode b = MODE_STAGED then ZONE_STAGING else ZONE_IAP)
     \<and> b_metadata_state b = (if b_mode b = MODE_STAGED then META_DOWNLOAD_STAGED else META_DOWNLOAD_DIRECT)"

definition install_ok :: "'x boot \<Rightarrow> bool" where
  "install_ok b \<longleftrightarrow> b_metadata_state b = META_INSTALL_PENDING \<or> b_metadata_state b = META_COPYING"

definition next_ok :: "'x boot \<Rightarrow> boot_event list \<Rightarrow> bool" where
  "next_ok b log =
     (case b_metadata_next_state b of
        ST_DOWNLOAD_ERASE \<Rightarrow> session_ok b | ST_DOWNLOAD_READY \<Rightarrow> session_ok b
      | ST_COPY_ERASE \<Rightarrow> install_ok b | ST_COPY_READ \<Rightarrow> install_ok b
      | ST_VERIFY_READ \<Rightarrow> True | ST_JUMP_PENDING \<Rightarrow> checked log | _ \<Rightarrow> False)"

definition committing :: "'x boot \<Rightarrow> 'x world \<Rightarrow> bool" where
  "committing b w \<longleftrightarrow>
     next_ok b (w_log w) \<and> (b_metadata_target_zone b = ZONE_META_A \<or> b_metadata_target_zone b = ZONE_META_B)"

definition committed :: "'x boot \<Rightarrow> 'x world \<Rightarrow> bool" where
  "committed b w \<longleftrightarrow> commits (w_log w) = (None, Some (b_metadata_state b))"

definition phase_ok :: "'x boot \<Rightarrow> 'x world \<Rightarrow> bool" where
  "phase_ok b w =
     (case b_state b of
        ST_METADATA_ERASE \<Rightarrow> committing b w \<and> w_copy w ! 6 = b_metadata_state b
      | ST_METADATA_ERASE_WAIT \<Rightarrow> committing b w \<and> w_copy w ! 6 = b_metadata_state b
      | ST_METADATA_WRITE \<Rightarrow> committing b w \<and> w_copy w ! 6 = b_metadata_state b
      | ST_METADATA_WRITE_WAIT \<Rightarrow> committing b w \<and> fst (commits (w_log w)) = Some (b_metadata_state b)
      | ST_DOWNLOAD_ERASE \<Rightarrow> session_ok b \<and> committed b w
      | ST_DOWNLOAD_ERASE_WAIT \<Rightarrow> session_ok b \<and> committed b w
      | ST_DOWNLOAD_READY \<Rightarrow> session_ok b \<and> committed b w
      | ST_PACKET_WRITE_WAIT \<Rightarrow> session_ok b \<and> committed b w
      | ST_COPY_ERASE \<Rightarrow> install_ok b \<and> committed b w
      | ST_COPY_ERASE_WAIT \<Rightarrow> install_ok b \<and> committed b w
      | ST_COPY_READ \<Rightarrow> install_ok b \<and> committed b w
      | ST_COPY_READ_WAIT \<Rightarrow> install_ok b \<and> committed b w
      | ST_COPY_WRITE \<Rightarrow> install_ok b \<and> committed b w
      | ST_COPY_WRITE_WAIT \<Rightarrow> install_ok b \<and> committed b w
      | ST_COPY_VERIFY_READ \<Rightarrow> install_ok b \<and> committed b w
      | ST_COPY_VERIFY_READ_WAIT \<Rightarrow> install_ok b \<and> committed b w
      | ST_JUMP_PENDING \<Rightarrow> checked (w_log w)
      | _ \<Rightarrow> True)"

definition log_ok :: "'x world \<Rightarrow> bool" where
  "log_ok w \<longleftrightarrow> protected (w_log w) \<and> jumps_checked (w_log w)"

definition boot_inv :: "'x boot \<Rightarrow> 'x world \<Rightarrow> bool" where
  "boot_inv b w \<longleftrightarrow> log_ok w \<and> (reading_copy (w_log w) \<longrightarrow> reading_state (b_state b)) \<and> phase_ok b w"

lemma phase_parts_frame [simp]:
  "session_ok (b\<lparr>b_state := s\<rparr>) = session_ok b" "install_ok (b\<lparr>b_state := s\<rparr>) = install_ok b"
  "committed (b\<lparr>b_state := s\<rparr>) w = committed b w" "next_ok (b\<lparr>b_state := s\<rparr>) l = next_ok b l"
  "committing (b\<lparr>b_state := s\<rparr>) w = committing b w"
  "session_ok (b\<lparr>b_result := r\<rparr>) = session_ok b" "install_ok (b\<lparr>b_result := r\<rparr>) = install_ok b"
  "committed (b\<lparr>b_result := r\<rparr>) w = committed b w" "next_ok (b\<lparr>b_result := r\<rparr>) l = next_ok b l"
  "committing (b\<lparr>b_result := r\<rparr>) w = committing b w"
  by (simp_all add: session_ok_def install_ok_def committed_def committing_def next_ok_def cong: boot_state.case_cong)

text \<open>A driver that leaves the copy buffer alone unless a read into it is outstanding.\<close>

definition quiet :: "('x world \<Rightarrow> 'x world) \<Rightarrow> bool" where
  "quiet f \<longleftrightarrow> (\<forall>w. \<not> reading_copy (w_log w) \<longrightarrow> w_copy (f w) = w_copy w)"

definition copy_respecting :: "'x boot \<Rightarrow> bool" where
  "copy_respecting b \<longleftrightarrow>
     (\<forall>z off len. quiet (\<lambda>w. snd (the (o_erase (b_flash_ops b)) w z off len)))
     \<and> quiet (\<lambda>w. snd (the (o_is_busy (b_flash_ops b)) w)) \<and> quiet (\<lambda>w. snd (the (o_result_get (b_flash_ops b)) w))
     \<and> quiet (\<lambda>w. case o_watchdog_kick (b_platform_ops b) of None \<Rightarrow> w | Some kick \<Rightarrow> kick w)"

section \<open>Preservation\<close>

lemma logged_simps [simp]: "w_log (logged w evs w') = w_log w @ evs" "w_copy (logged w evs w') = w_copy w'"
  "w_packet (logged w evs w') = w_packet w'"
  by (simp_all add: logged_def)

lemma flash_calls_log:
  "flash_read z off len buf b w = (r, w') \<Longrightarrow> w_log w' = w_log w @ [Ev_Read z off len buf r]"
  "flash_write z off len buf b w = (r, w') \<Longrightarrow> w_log w' = w_log w @ [Ev_Write z off (buffer_bytes w buf len) r]"
  "flash_erase z off len b w = (r, w') \<Longrightarrow> w_log w' = w_log w @ [Ev_Erase z off len r]"
  "flash_is_busy b w = (y, w') \<Longrightarrow> w_log w' = w_log w"
  "flash_result_get b w = (r, w') \<Longrightarrow> w_log w' = w_log w @ [Ev_Result r]"
  "flash_zone_info_get z b w = (i, w') \<Longrightarrow> w_log w' = w_log w"
  by (auto simp: flash_read_def flash_write_def flash_erase_def flash_is_busy_def flash_result_get_def
      flash_zone_info_get_def split: prod.splits)

lemma resident_state [simp]: "b_state (resident_failure r b) = ST_WAIT_UPGRADE"
  by (simp add: resident_failure_def)

lemma resident_inv: "log_ok w \<Longrightarrow> \<not> reading_copy (w_log w) \<Longrightarrow> boot_inv (resident_failure r b) w"
  by (simp add: boot_inv_def phase_ok_def)

lemma metadata_record_state: "(metadata_record m @ r) ! 6 = m_state m"
  by (rule record_at(3))

text \<open>Starting a commit, from any state in which no read into the copy buffer is outstanding.\<close>

lemma commit_start_inv:
  assumes "metadata_commit_start st nxt b w = (b', w')" "log_ok w" "\<not> reading_copy (w_log w)"
    and "next_ok (b\<lparr>b_metadata_state := st, b_metadata_next_state := nxt\<rparr>) (w_log w)"
  shows "boot_inv b' w'"
proof -
  define b1 where "b1 = b\<lparr>b_metadata_state := st, b_metadata_next_state := nxt,
      b_metadata_target_zone := (if b_metadata_source_zone b = ZONE_META_A then ZONE_META_B else ZONE_META_A)\<rparr>"
  obtain r w1 where e: "metadata_encode_current b1 w = (r, w1)" by fastforce
  have b': "b' = (if r \<noteq> BOOT_SUCCESS then resident_failure r b1 else b1\<lparr>b_state := ST_METADATA_ERASE, b_result := BOOT_IN_PROGRESS\<rparr>)"
    "w' = w1"
    using assms(1) e by (auto simp: metadata_commit_start_def Let_def b1_def)
  have log: "w_log w1 = w_log w" using e by (auto simp: metadata_encode_current_def split: prod.splits option.splits)
  then have l: "log_ok w1" "\<not> reading_copy (w_log w1)" using assms(2,3) by (simp_all add: log_ok_def)
  show ?thesis
  proof (cases "r = BOOT_SUCCESS")
    case True
    then have "w_copy w1 ! 6 = b_metadata_state b1"
      using e metadata_record_state [of "current_metadata b1"]
      by (auto simp: metadata_encode_current_def bootloader_metadata_encode_def current_metadata_def split: if_splits)
    moreover have "next_ok b1 (w_log w1)"
      using assms(4) unfolding log b1_def
      by (simp add: next_ok_def session_ok_def install_ok_def split: boot_state.splits)
    moreover have "b_metadata_target_zone b1 = ZONE_META_A \<or> b_metadata_target_zone b1 = ZONE_META_B" by (simp add: b1_def)
    ultimately show ?thesis
      using True l unfolding b'
      by (simp add: boot_inv_def phase_ok_def committing_def next_ok_def session_ok_def install_ok_def
          split: boot_state.splits)
  next
    case False
    then show ?thesis using resident_inv [OF l] by (simp add: b')
  qed
qed

lemma next_ok_simps:
  "next_ok (b\<lparr>b_metadata_state := st, b_metadata_next_state := ST_COPY_ERASE\<rparr>) log \<longleftrightarrow> st = META_INSTALL_PENDING \<or> st = META_COPYING"
  "next_ok (b\<lparr>b_metadata_state := st, b_metadata_next_state := ST_COPY_READ\<rparr>) log \<longleftrightarrow> st = META_INSTALL_PENDING \<or> st = META_COPYING"
  "next_ok (b\<lparr>b_metadata_state := st, b_metadata_next_state := ST_VERIFY_READ\<rparr>) log"
  "next_ok (b\<lparr>b_metadata_state := st, b_metadata_next_state := ST_JUMP_PENDING\<rparr>) log \<longleftrightarrow> checked log"
  by (simp_all add: next_ok_def install_ok_def)

lemma session_next:
  assumes "nxt = ST_DOWNLOAD_ERASE \<or> nxt = ST_DOWNLOAD_READY"
    and "b_download_zone b = (if b_mode b = MODE_STAGED then ZONE_STAGING else ZONE_IAP)"
  shows "next_ok (b\<lparr>b_metadata_state := (if b_mode b = MODE_STAGED then META_DOWNLOAD_STAGED else META_DOWNLOAD_DIRECT),
    b_metadata_next_state := nxt\<rparr>) log"
  using assms by (auto simp: next_ok_def session_ok_def)

lemma zone_check_log: "zone_requirements_check z n b w = (r, w') \<Longrightarrow> w_log w' = w_log w"
  by (auto simp: zone_requirements_check_def dest: flash_calls_log split: prod.splits)

text \<open>Only the metadata phases look at the copy buffer.\<close>

definition copy_phase :: "boot_state \<Rightarrow> bool" where
  "copy_phase s \<longleftrightarrow> s = ST_METADATA_ERASE \<or> s = ST_METADATA_ERASE_WAIT \<or> s = ST_METADATA_WRITE"

lemma boot_inv_world:
  "boot_inv b w \<Longrightarrow> w_log w' = w_log w \<Longrightarrow> (copy_phase (b_state b) \<Longrightarrow> w_copy w' = w_copy w) \<Longrightarrow> boot_inv b w'"
  unfolding boot_inv_def phase_ok_def committing_def committed_def log_ok_def copy_phase_def
  by (cases "b_state b") auto

lemma upgrade_begin_inv:
  assumes "upgrade_begin info mode b w = (r, b', w')" "boot_inv b w"
  shows "boot_inv b' w'"
proof (cases "r = BOOT_SUCCESS \<and> b_state b = ST_WAIT_UPGRADE")
  case False
  then have "b' = b \<and> w_log w' = w_log w \<and> (b_state b \<noteq> ST_WAIT_UPGRADE \<longrightarrow> w' = w)"
    using assms(1)
    by (auto simp: upgrade_begin_def dest!: flash_calls_log(4) zone_check_log split: if_splits prod.splits bool.splits)
  then show ?thesis using boot_inv_world [OF assms(2), of w'] by (auto simp: copy_phase_def)
next
  case True
  then have nr: "\<not> reading_copy (w_log w)" "log_ok w" using assms(2) by (auto simp: boot_inv_def reading_state_def)
  obtain w3 where c: "metadata_commit_start (if mode = MODE_STAGED then META_DOWNLOAD_STAGED else META_DOWNLOAD_DIRECT)
      ST_DOWNLOAD_ERASE (session_reset info mode b) w3 = (b', w')" and l: "w_log w3 = w_log w"
    using assms(1) True
    by (auto simp: upgrade_begin_def dest!: flash_calls_log(4) zone_check_log split: if_splits prod.splits bool.splits)
  have m: "b_mode (session_reset info mode b) = mode" "b_download_zone (session_reset info mode b)
      = (if mode = MODE_STAGED then ZONE_STAGING else ZONE_IAP)"
    by (simp_all add: session_reset_def)
  show ?thesis
    by (rule commit_start_inv [OF c])
      (use nr l session_next [of ST_DOWNLOAD_ERASE "session_reset info mode b"] in \<open>simp_all add: log_ok_def m\<close>)
qed

text \<open>What holds when an awaited operation has succeeded.\<close>

definition done_ok :: "'x boot \<Rightarrow> 'x world \<Rightarrow> bool" where
  "done_ok b w \<longleftrightarrow> log_ok w \<and> \<not> reading_copy (w_log w)
     \<and> (if b_state b = ST_METADATA_WRITE_WAIT then next_ok b (w_log w) \<and> committed b w else phase_ok b w)"

lemma simple_state_inv:
  "log_ok w \<Longrightarrow> \<not> reading_copy (w_log w) \<Longrightarrow> phase_ok b w \<Longrightarrow> boot_inv b w"
  by (simp add: boot_inv_def)

lemma header_check_log:
  "header_check n b w = (ok, w') \<Longrightarrow> \<exists>h. w_log w' = w_log w @ [Ev_Check h n ok]"
  by (auto simp: header_check_def Let_def split: prod.splits)

lemma log_ok_check: "log_ok w \<Longrightarrow> w_log w' = w_log w @ [Ev_Check h n ok] \<Longrightarrow> log_ok w'"
  by (simp add: log_ok_def touches_iap_def)

lemma installed_header_inv:
  assumes "installed_header_evaluate final b w = (b', w')" "log_ok w" "\<not> reading_copy (w_log w)"
  shows "boot_inv b' w'"
proof -
  have check: "boot_inv b2 w2"
    if c: "(case header_check (ui_file_size (b_upgrade_info b1)) b1 w1 of
           (valid, w2) \<Rightarrow>
             if \<not> valid then (resident_failure BOOT_IMAGE_INVALID b1, w2)
             else if final then metadata_commit_start META_VALID ST_JUMP_PENDING (b1\<lparr>b_metadata_retry_count := 0\<rparr>) w2
             else (b1\<lparr>b_state := ST_JUMP_PENDING, b_result := BOOT_SUCCESS\<rparr>, w2)) = (b2, w2)" and lw: "w_log w1 = w_log w"
    for b1 b2 w1 w2
  proof -
    obtain ok w3 where h: "header_check (ui_file_size (b_upgrade_info b1)) b1 w1 = (ok, w3)" by fastforce
    then obtain hd where l: "w_log w3 = w_log w @ [Ev_Check hd (ui_file_size (b_upgrade_info b1)) ok]"
      using header_check_log lw by metis
    have ok: "log_ok w3" "\<not> reading_copy (w_log w3)" "checked (w_log w3) = ok"
      using assms(2,3) l log_ok_check [of w w3] by (auto simp: reading_step_def check_step_def)
    consider "\<not> ok" | "ok" "final" | "ok" "\<not> final" by blast
    then show ?thesis
    proof cases
      case 1
      then show ?thesis using c h resident_inv [OF ok(1,2)] by auto
    next
      case 2
      then have m: "metadata_commit_start META_VALID ST_JUMP_PENDING (b1\<lparr>b_metadata_retry_count := 0\<rparr>) w3 = (b2, w2)"
        using c h by simp
      show ?thesis by (rule commit_start_inv [OF m ok(1,2)]) (use ok(3) 2 in \<open>simp add: next_ok_simps\<close>)
    next
      case 3
      then have "b2 = b1\<lparr>b_state := ST_JUMP_PENDING, b_result := BOOT_SUCCESS\<rparr>" "w2 = w3" using c h by auto
      then show ?thesis using ok 3 by (intro simple_state_inv) (simp_all add: phase_ok_def)
    qed
  qed
  show ?thesis
  proof (cases "ui_file_size (b_upgrade_info b) = 0")
    case False
    then show ?thesis using check [of b w b' w'] assms(1) by (simp add: installed_header_evaluate_def Let_def)
  next
    case True
    obtain r info w1 where i: "flash_zone_info_get ZONE_IAP b w = ((r, info), w1)" by (metis prod.collapse)
    have l: "w_log w1 = w_log w" by (rule flash_calls_log(6) [OF i])
    show ?thesis
    proof (cases "r = BOOT_SUCCESS")
      case False
      then have "b' = resident_failure r b" "w' = w1" using assms(1) True i by (auto simp: installed_header_evaluate_def Let_def)
      then show ?thesis using resident_inv [of w1 r b] assms(2,3) l by (simp add: log_ok_def)
    next
      case True
      then show ?thesis
        using check [of "b\<lparr>b_upgrade_info := (b_upgrade_info b)\<lparr>ui_file_size := zi_size info\<rparr>\<rparr>" w1 b' w'] assms(1)
          \<open>ui_file_size (b_upgrade_info b) = 0\<close> i l
        by (simp add: installed_header_evaluate_def Let_def)
    qed
  qed
qed

lemma startup_choose_inv:
  assumes "startup_choose b w = (b', w')" "log_ok w" "\<not> reading_copy (w_log w)"
  shows "boot_inv b' w'"
proof (cases "b_boot_reason b = REASON_IAP_REQUEST \<and> b_startup_upgrade_info_valid b")
  case False
  then have "b_state b' = ST_WAIT_UPGRADE \<or> b_state b' = ST_STARTUP_READ" "w' = w"
    using assms(1) by (auto simp: startup_choose_def Let_def split: if_splits)
  then show ?thesis using assms(2,3) by (auto intro!: simple_state_inv simp: phase_ok_def)
next
  case True
  let ?b = "b\<lparr>b_state := ST_WAIT_UPGRADE\<rparr>"
  obtain r b2 w1 where u: "upgrade_begin (b_startup_upgrade_info b) (c_default_mode (b_config b)) ?b w = (r, b2, w1)"
    using prod_cases3 by blast
  have i: "boot_inv ?b w" using assms(2,3) by (intro simple_state_inv) (simp_all add: phase_ok_def)
  have i2: "boot_inv b2 w1" by (rule upgrade_begin_inv [OF u i])
  have e: "b' = (if r \<noteq> BOOT_SUCCESS then resident_failure r b2 else b2)" "w' = w1"
    using assms(1) True u by (auto simp: startup_choose_def Let_def)
  show ?thesis
  proof (cases "r = BOOT_SUCCESS")
    case False
    then have "b2 = ?b" "w_log w1 = w_log w"
      using u by (auto simp: upgrade_begin_def dest!: flash_calls_log(4) zone_check_log split: if_splits prod.splits bool.splits)
    then show ?thesis using False e resident_inv [of w1 r b2] assms(2,3) by (simp add: log_ok_def)
  next
    case True
    then show ?thesis using e i2 by simp
  qed
qed

lemma startup_evaluate_inv:
  assumes "metadata_startup_evaluate b w = (b', w')" "log_ok w" "\<not> reading_copy (w_log w)"
  shows "boot_inv b' w'"
proof (cases "bootloader_metadata_select (Some (w_copy w)) (Some (drop METADATA_ENCODED_SIZE (w_copy w))) True")
  case (Inl e)
  then show ?thesis
    using assms(1) startup_choose_inv [OF _ assms(2,3)] by (simp add: metadata_startup_evaluate_def)
next
  case (Inr p)
  obtain m source where p: "p = (m, source)" by fastforce
  show ?thesis
  proof (cases "(m_state m = META_INSTALL_PENDING \<or> m_state m = META_COPYING) \<and> m_mode m = MODE_STAGED \<and> m_file_size m \<noteq> 0
      \<and> \<not> m_retry_count m \<ge> 3")
    case True
    then have "metadata_commit_start META_COPYING ST_COPY_ERASE
        ((metadata_load m source b)\<lparr>b_metadata_retry_count := b_metadata_retry_count (metadata_load m source b) + 1,
           b_copy_offset := 0\<rparr>) w = (b', w')"
      using assms(1) Inr p by (simp add: metadata_startup_evaluate_def Let_def)
    from commit_start_inv [OF this assms(2,3)] show ?thesis by (simp add: next_ok_simps)
  next
    case False
    then show ?thesis
      using assms(1) Inr p resident_inv [OF assms(2,3)] startup_choose_inv [OF _ assms(2,3)]
      by (auto simp: metadata_startup_evaluate_def Let_def split: if_splits)
  qed
qed

lemma copy_verified_inv:
  assumes "copy_verified b w = (b', w')" "log_ok w" "\<not> reading_copy (w_log w)"
  shows "boot_inv b' w'"
proof (cases "crc_update b (copy_chunk b w) (crc_init b) \<noteq> b_copy_chunk_crc b")
  case True
  then show ?thesis using assms resident_inv by (auto simp: copy_verified_def)
next
  case False
  then show ?thesis
    using assms(1) commit_start_inv [OF _ assms(2,3)]
    by (auto simp: copy_verified_def Let_def next_ok_simps split: if_splits)
qed

lemma footer_tail_frame:
  "footer_tail_update p n b = b\<lparr>b_footer_buffer := b_footer_buffer (footer_tail_update p n b),
     b_footer_length := b_footer_length (footer_tail_update p n b)\<rparr>"
  by (simp add: footer_tail_update_def Let_def)

lemma packet_complete_simps [simp]:
  "b_state (packet_complete b w) = ST_DOWNLOAD_READY"
  "b_mode (packet_complete b w) = b_mode b" "b_download_zone (packet_complete b w) = b_download_zone b"
  "b_metadata_state (packet_complete b w) = b_metadata_state b"
  "b_flash_ops (packet_complete b w) = b_flash_ops b" "b_platform_ops (packet_complete b w) = b_platform_ops b"
  by (simp_all add: packet_complete_def footer_tail_update_def Let_def)

lemma verify_chunk_state:
  "b_state (verify_chunk_read b w) \<in> {ST_WAIT_UPGRADE, ST_FINAL_READ, ST_VERIFY_READ}"
  by (simp add: verify_chunk_read_def Let_def)

lemma committed_next:
  assumes "next_ok b (w_log w)" "committed b w"
  shows "phase_ok (metadata_committed b) w"
proof -
  have "committed (metadata_committed b) w" using assms(2) by (simp add: committed_def metadata_committed_def)
  moreover have "session_ok (metadata_committed b) = session_ok b" "install_ok (metadata_committed b) = install_ok b"
    by (simp_all add: session_ok_def install_ok_def metadata_committed_def)
  moreover have "b_state (metadata_committed b) = b_metadata_next_state b" by (simp add: metadata_committed_def)
  ultimately show ?thesis
    using assms(1) unfolding phase_ok_def next_ok_def by (cases "b_metadata_next_state b") simp_all
qed

lemma storage_completed_inv:
  assumes "storage_completed b w = (b', w')" "done_ok b w"
  shows "boot_inv b' w'"
proof -
  have l: "log_ok w" "\<not> reading_copy (w_log w)" using assms(2) by (simp_all add: done_ok_def)
  have ph: "b_state b \<noteq> ST_METADATA_WRITE_WAIT \<Longrightarrow> phase_ok b w" using assms(2) by (simp add: done_ok_def)
  note S = simple_state_inv [OF l]
  show ?thesis
  proof (cases "b_state b")
    case ST_META_A_WAIT
    then show ?thesis using assms(1) S by (auto simp: storage_completed_def phase_ok_def)
  next
    case ST_META_B_WAIT
    then show ?thesis using assms(1) startup_evaluate_inv [OF _ l] by (simp add: storage_completed_def)
  next
    case ST_STARTUP_WAIT
    then show ?thesis using assms(1) installed_header_inv [OF _ l] by (simp add: storage_completed_def)
  next
    case ST_DOWNLOAD_ERASE_WAIT
    then have c: "metadata_commit_start (if b_mode b = MODE_STAGED then META_DOWNLOAD_STAGED else META_DOWNLOAD_DIRECT)
        ST_DOWNLOAD_READY b w = (b', w')" using assms(1) by (simp add: storage_completed_def)
    have "session_ok b" using ph ST_DOWNLOAD_ERASE_WAIT by (simp add: phase_ok_def)
    then have "b_download_zone b = (if b_mode b = MODE_STAGED then ZONE_STAGING else ZONE_IAP)" by (simp add: session_ok_def)
    then show ?thesis by (intro commit_start_inv [OF c l] session_next) simp_all
  next
    case ST_PACKET_WRITE_WAIT
    then show ?thesis using assms(1) S ph
      by (auto simp: storage_completed_def phase_ok_def session_ok_def committed_def)
  next
    case ST_COPY_ERASE_WAIT
    then show ?thesis using assms(1) S ph
      by (auto simp: storage_completed_def phase_ok_def install_ok_def committed_def)
  next
    case ST_COPY_READ_WAIT
    then show ?thesis using assms(1) S ph
      by (auto simp: storage_completed_def phase_ok_def install_ok_def committed_def)
  next
    case ST_COPY_WRITE_WAIT
    then show ?thesis using assms(1) S ph
      by (auto simp: storage_completed_def phase_ok_def install_ok_def committed_def)
  next
    case ST_COPY_VERIFY_READ_WAIT
    then show ?thesis using assms(1) copy_verified_inv [OF _ l] by (simp add: storage_completed_def)
  next
    case ST_VERIFY_READ_WAIT
    then show ?thesis using assms(1) S verify_chunk_state [of b w]
      by (auto simp: storage_completed_def phase_ok_def)
  next
    case ST_FINAL_READ_WAIT
    then show ?thesis using assms(1) installed_header_inv [OF _ l] by (simp add: storage_completed_def)
  next
    case ST_METADATA_ERASE_WAIT
    then have "committing b w \<and> w_copy w ! 6 = b_metadata_state b" using ph by (simp add: phase_ok_def)
    moreover have "b' = b\<lparr>b_state := ST_METADATA_WRITE\<rparr>" "w' = w"
      using assms(1) ST_METADATA_ERASE_WAIT by (simp_all add: storage_completed_def)
    ultimately show ?thesis using S by (simp add: phase_ok_def)
  next
    case ST_METADATA_WRITE_WAIT
    then show ?thesis using assms committed_next [of b w] S by (auto simp: storage_completed_def done_ok_def)
  qed (use assms(1) resident_inv [OF l] in \<open>auto simp: storage_completed_def\<close>)
qed

text \<open>The log entry of a successful completion.\<close>

lemma result_done:
  assumes "boot_inv b w" "w_log w' = w_log w @ [Ev_Result BOOT_SUCCESS]" "copy_phase (b_state b) \<Longrightarrow> w_copy w' = w_copy w"
  shows "done_ok b w'"
proof -
  have l: "log_ok w'" "\<not> reading_copy (w_log w')" "checked (w_log w') = checked (w_log w)"
    using assms(1,2) by (auto simp: boot_inv_def log_ok_def reading_step_def touches_iap_def check_step_def)
  have c: "commits (w_log w') = (None, if fst (commits (w_log w)) \<noteq> None then fst (commits (w_log w)) else snd (commits (w_log w)))"
    by (simp add: assms(2) commit_step_def)
  have ph: "phase_ok b w" using assms(1) by (simp add: boot_inv_def)
  have "if b_state b = ST_METADATA_WRITE_WAIT then next_ok b (w_log w') \<and> committed b w' else phase_ok b w'"
    using ph l(3) c assms(3)
    by (cases "b_state b")
      (auto simp: phase_ok_def committed_def committing_def next_ok_def copy_phase_def split: boot_state.splits)
  then show ?thesis using l(1,2) by (simp add: done_ok_def)
qed

lemma quietD: "quiet f \<Longrightarrow> \<not> reading_copy (w_log w) \<Longrightarrow> w_copy (f w) = w_copy w"
  by (simp add: quiet_def)

lemma storage_wait_inv:
  assumes "storage_wait_handle b w = (b', w')" "boot_inv b w" "copy_respecting b"
  shows "boot_inv b' w'"
proof -
  have nr: "copy_phase (b_state b) \<Longrightarrow> \<not> reading_copy (w_log w)"
    using assms(2) by (auto simp: boot_inv_def reading_state_def copy_phase_def)
  obtain y w1 where y: "flash_is_busy b w = (y, w1)" by fastforce
  have l1: "w_log w1 = w_log w" by (rule flash_calls_log(4) [OF y])
  have c1: "w_copy w1 = w_copy w" if "copy_phase (b_state b)"
    using y quietD [of "\<lambda>w. snd (the (o_is_busy (b_flash_ops b)) w)" w] assms(3) nr [OF that]
    by (auto simp: flash_is_busy_def copy_respecting_def split: prod.splits)
  have i1: "boot_inv b w1" by (rule boot_inv_world [OF assms(2) l1 c1])
  show ?thesis
  proof (cases "y = 1")
    case True
    then show ?thesis using assms(1) y i1 by (simp add: storage_wait_handle_def)
  next
    case False
    obtain r w2 where r: "flash_result_get b w1 = (r, w2)" by fastforce
    have l2: "w_log w2 = w_log w1 @ [Ev_Result r]" by (rule flash_calls_log(5) [OF r])
    have c2: "w_copy w2 = w_copy w1" if "copy_phase (b_state b)"
      using r quietD [of "\<lambda>w. snd (the (o_result_get (b_flash_ops b)) w)" w1] assms(3) nr [OF that] l1
      by (auto simp: flash_result_get_def copy_respecting_def split: prod.splits)
    show ?thesis
    proof (cases "r = BOOT_SUCCESS")
      case True
      have "storage_completed b w2 = (b', w')" using assms(1) y False r True by (simp add: storage_wait_handle_def)
      then show ?thesis using result_done [OF i1] l2 c2 True storage_completed_inv by blast
    next
      case res: False
      have "b' = resident_failure r b" "w' = w2" using assms(1) y False r res by (auto simp: storage_wait_handle_def)
      moreover have "log_ok w2" "\<not> reading_copy (w_log w2)"
        using i1 l2 by (auto simp: boot_inv_def log_ok_def reading_step_def touches_iap_def)
      ultimately show ?thesis using resident_inv by simp
    qed
  qed
qed

lemma submitted_inv:
  assumes "log_ok w'" and "\<not> accepted r \<Longrightarrow> \<not> reading_copy (w_log w')"
    and "accepted r \<Longrightarrow> reading_copy (w_log w') \<Longrightarrow> reading_state wait"
    and "accepted r \<Longrightarrow> phase_ok (b\<lparr>b_state := wait\<rparr>) w'"
  shows "boot_inv (submitted wait r b) w'"
proof (cases "accepted r")
  case True
  then have "submitted wait r b = b\<lparr>b_state := wait\<rparr>" by (auto simp: submitted_def accepted_def)
  then show ?thesis using assms True by (simp add: boot_inv_def)
next
  case False
  then have "submitted wait r b = resident_failure r b" by (auto simp: submitted_def accepted_def)
  then show ?thesis using resident_inv assms False by simp
qed

lemmas step_defs = reading_step_def commit_step_def check_step_def touches_iap_def log_ok_def phase_ok_def committed_def
  committing_def session_ok_def install_ok_def next_ok_def reading_state_def

lemma metadata_read_inv:
  assumes "metadata_read_submit z n wait b w = (b', w')" "log_ok w" "\<not> reading_copy (w_log w)"
    and "wait = ST_META_A_WAIT \<or> wait = ST_META_B_WAIT"
  shows "boot_inv b' w'"
proof -
  obtain r w1 where f: "flash_read z 0 (of_nat METADATA_ENCODED_SIZE) (Copy_Buffer n) b w = (r, w1)" by fastforce
  note l = flash_calls_log(1) [OF f]
  have e: "b' = submitted wait r b" "w' = w1" using assms(1) f by (auto simp: metadata_read_submit_def)
  show ?thesis unfolding e by (rule submitted_inv) (use assms l in \<open>auto simp: step_defs\<close>)
qed

lemma startup_read_inv:
  assumes "startup_read_submit b w = (b', w')" "log_ok w" "\<not> reading_copy (w_log w)"
  shows "boot_inv b' w'"
proof -
  obtain r info w1 where i: "flash_zone_info_get ZONE_IAP b w = ((r, info), w1)" by (metis prod.collapse)
  have l1: "w_log w1 = w_log w" by (rule flash_calls_log(6) [OF i])
  obtain r2 w2 where f: "flash_read ZONE_IAP 0 (c_image_header_length (b_config b)) Packet_Buffer b w1 = (r2, w2)" by fastforce
  note l2 = flash_calls_log(1) [OF f, unfolded l1]
  consider "b' = resident_failure BOOT_CONFIG_ERROR b" "w' = w1" | "b' = submitted ST_STARTUP_WAIT r2 b" "w' = w2"
    using assms(1) i f by (auto simp: startup_read_submit_def split: if_splits)
  then show ?thesis
  proof cases
    case 1
    then show ?thesis using resident_inv [of w1] assms(2,3) l1 by (simp add: log_ok_def)
  next
    case 2
    show ?thesis unfolding 2 by (rule submitted_inv) (use assms l2 in \<open>auto simp: step_defs\<close>)
  qed
qed

lemma jump_pending_inv:
  assumes "jump_pending b w = (b', w')" "boot_inv b w" "b_state b = ST_JUMP_PENDING"
  shows "boot_inv b' w'"
proof (cases "b_jump_called b")
  case True
  then show ?thesis using assms(1,2) by (auto simp: jump_pending_def)
next
  case False
  have i: "log_ok w" "\<not> reading_copy (w_log w)" "checked (w_log w)"
    using assms(2,3) by (auto simp: boot_inv_def phase_ok_def reading_state_def)
  obtain r wc where c: "the (o_boot_reason_clear (b_platform_ops b)) w = (r, wc)" by fastforce
  define w1 where "w1 = logged w [Ev_Clear r] wc"
  have l1: "log_ok w1" "\<not> reading_copy (w_log w1)" "checked (w_log w1)"
    using i by (simp_all add: w1_def step_defs)
  obtain r2 wj where j: "the (o_jump_to_iap (b_platform_ops b)) w1 = (r2, wj)" by fastforce
  show ?thesis
  proof (cases "r = BOOT_SUCCESS")
    case res: False
    then have "b' = resident_failure r b" "w' = w1"
      using assms(1) False c by (auto simp: jump_pending_def Let_def w1_def)
    then show ?thesis using resident_inv [OF l1(1,2)] by simp
  next
    case True
    define w2 where "w2 = logged w1 [Ev_Jump] wj"
    have e: "w_log w2 = w_log w1 @ [Ev_Jump]" by (simp add: w2_def)
    have "\<exists>pre'. w_log w1 = pre' @ [Ev_Clear BOOT_SUCCESS]" using True by (simp add: w1_def)
    then have l2: "log_ok w2" "\<not> reading_copy (w_log w2)" "checked (w_log w2)"
      using l1 by (simp_all add: e step_defs)
    have "w' = w2" "b' = (if r2 \<noteq> BOOT_SUCCESS then resident_failure r2 (b\<lparr>b_jump_called := True\<rparr>) else b\<lparr>b_jump_called := True\<rparr>)"
      using assms(1) False c True j by (auto simp: jump_pending_def Let_def w1_def w2_def)
    then show ?thesis
      using resident_inv [OF l2(1,2)] simple_state_inv [OF l2(1,2), of "b\<lparr>b_jump_called := True\<rparr>"] l2(3) assms(3)
      by (auto simp: phase_ok_def)
  qed
qed

text \<open>One poll in a state that submits to the flash.\<close>

lemma erase_submit_inv:
  assumes "flash_erase z off len b w = (r, w1)" "log_ok w" "\<not> reading_copy (w_log w)"
    and "z = ZONE_IAP \<Longrightarrow> recovering (snd (commits (w_log w)))"
    and "phase_ok (b\<lparr>b_state := wait\<rparr>) w1"
  shows "boot_inv (submitted wait r b) w1"
  by (rule submitted_inv) (use assms flash_calls_log(3) [OF assms(1)] in \<open>auto simp: log_ok_def touches_iap_def reading_step_def\<close>)

lemma write_submit_inv:
  assumes "flash_write z off len buf b w = (r, w1)" "log_ok w" "\<not> reading_copy (w_log w)"
    and "z = ZONE_IAP \<Longrightarrow> recovering (snd (commits (w_log w)))"
    and "phase_ok (b\<lparr>b_state := wait\<rparr>) w1"
  shows "boot_inv (submitted wait r b) w1"
  by (rule submitted_inv) (use assms flash_calls_log(2) [OF assms(1)] in \<open>auto simp: log_ok_def touches_iap_def reading_step_def\<close>)

lemma read_submit_inv:
  assumes "flash_read z off len buf b w = (r, w1)" "log_ok w" "\<not> reading_copy (w_log w)"
    and "buf \<noteq> Packet_Buffer \<Longrightarrow> reading_state wait" and "phase_ok (b\<lparr>b_state := wait\<rparr>) w1"
  shows "boot_inv (submitted wait r b) w1"
  by (rule submitted_inv) (use assms flash_calls_log(1) [OF assms(1)] in \<open>auto simp: log_ok_def touches_iap_def reading_step_def\<close>)

lemma state_process_inv:
  assumes "state_process b w = (b', w')" "boot_inv b w" "copy_respecting b"
  shows "boot_inv b' w'"
proof -
  have lo: "log_ok w" and ph: "phase_ok b w" and rd: "reading_copy (w_log w) \<Longrightarrow> reading_state (b_state b)"
    using assms(2) by (auto simp: boot_inv_def)
  note defs = phase_ok_def committed_def committing_def session_ok_def install_ok_def next_ok_def commit_step_def
  show ?thesis
  proof (cases "b_state b")
    case ST_META_A_READ
    then have nr: "\<not> reading_copy (w_log w)" using rd by (auto simp: reading_state_def)
    show ?thesis
      using assms(1) ST_META_A_READ metadata_read_inv [OF _ lo nr] by (simp add: state_process_def)
  next
    case ST_META_B_READ
    then have nr: "\<not> reading_copy (w_log w)" using rd by (auto simp: reading_state_def)
    show ?thesis
      using assms(1) ST_META_B_READ metadata_read_inv [OF _ lo nr] by (simp add: state_process_def)
  next
    case ST_STARTUP_READ
    then have nr: "\<not> reading_copy (w_log w)" using rd by (auto simp: reading_state_def)
    show ?thesis using assms(1) ST_STARTUP_READ startup_read_inv [OF _ lo nr] by (simp add: state_process_def)
  next
    case ST_JUMP_PENDING
    then show ?thesis using assms(1,2) jump_pending_inv by (auto simp: state_process_def)
  next
    case ST_DOWNLOAD_ERASE
    then have nr: "\<not> reading_copy (w_log w)" using rd by (auto simp: reading_state_def)
    obtain r w1 where f: "flash_erase (b_download_zone b) 0 (ui_file_size (b_upgrade_info b)) b w = (r, w1)" by fastforce
    have "boot_inv (submitted ST_DOWNLOAD_ERASE_WAIT r b) w1"
      by (rule erase_submit_inv [OF f lo nr])
        (use ph ST_DOWNLOAD_ERASE flash_calls_log(3) [OF f] in \<open>auto simp: defs recovering_def split: if_splits\<close>)
    then show ?thesis using assms(1) ST_DOWNLOAD_ERASE f by (auto simp: state_process_def)
  next
    case ST_COPY_ERASE
    then have nr: "\<not> reading_copy (w_log w)" using rd by (auto simp: reading_state_def)
    obtain r w1 where f: "flash_erase ZONE_IAP 0 (ui_file_size (b_upgrade_info b)) b w = (r, w1)" by fastforce
    have "boot_inv (submitted ST_COPY_ERASE_WAIT r b) w1"
      by (rule erase_submit_inv [OF f lo nr])
        (use ph ST_COPY_ERASE flash_calls_log(3) [OF f] in \<open>auto simp: defs recovering_def\<close>)
    then show ?thesis using assms(1) ST_COPY_ERASE f by (auto simp: state_process_def)
  next
    case ST_COPY_READ
    then have nr: "\<not> reading_copy (w_log w)" using rd by (auto simp: reading_state_def)
    let ?b = "b\<lparr>b_copy_chunk_length := next_chunk (b_copy_offset b) b\<rparr>"
    obtain r w1 where f: "flash_read ZONE_STAGING (b_copy_offset ?b) (b_copy_chunk_length ?b) (Copy_Buffer 0) ?b w = (r, w1)"
      by fastforce
    have "boot_inv (submitted ST_COPY_READ_WAIT r ?b) w1"
      by (rule read_submit_inv [OF f lo nr])
        (use ph ST_COPY_READ flash_calls_log(1) [OF f] in \<open>auto simp: defs reading_state_def\<close>)
    then show ?thesis using assms(1) ST_COPY_READ f by (auto simp: state_process_def copy_read_submit_def Let_def)
  next
    case ST_COPY_WRITE
    then have nr: "\<not> reading_copy (w_log w)" using rd by (auto simp: reading_state_def)
    obtain r w1 where f: "flash_write ZONE_IAP (b_copy_offset b) (b_copy_chunk_length b) (Copy_Buffer 0) b w = (r, w1)" by fastforce
    have "boot_inv (submitted ST_COPY_WRITE_WAIT r b) w1"
      by (rule write_submit_inv [OF f lo nr])
        (use ph ST_COPY_WRITE flash_calls_log(2) [OF f] in \<open>auto simp: defs recovering_def\<close>)
    then show ?thesis using assms(1) ST_COPY_WRITE f by (auto simp: state_process_def)
  next
    case ST_COPY_VERIFY_READ
    then have nr: "\<not> reading_copy (w_log w)" using rd by (auto simp: reading_state_def)
    obtain r w1 where f: "flash_read ZONE_IAP (b_copy_offset b) (b_copy_chunk_length b) (Copy_Buffer 0) b w = (r, w1)" by fastforce
    have "boot_inv (submitted ST_COPY_VERIFY_READ_WAIT r b) w1"
      by (rule read_submit_inv [OF f lo nr])
        (use ph ST_COPY_VERIFY_READ flash_calls_log(1) [OF f] in \<open>auto simp: defs reading_state_def\<close>)
    then show ?thesis using assms(1) ST_COPY_VERIFY_READ f by (auto simp: state_process_def copy_verify_read_submit_def)
  next
    case ST_VERIFY_READ
    then have nr: "\<not> reading_copy (w_log w)" using rd by (auto simp: reading_state_def)
    let ?n = "next_chunk (b_verify_offset b) b"
    obtain r w1 where f: "flash_read ZONE_IAP (b_verify_offset b) ?n (Copy_Buffer 0) b w = (r, w1)" by fastforce
    note l = flash_calls_log(1) [OF f]
    have a: "log_ok w1" "\<not> accepted r \<Longrightarrow> \<not> reading_copy (w_log w1)" using lo nr l by (auto simp: log_ok_def touches_iap_def reading_step_def)
    show ?thesis
    proof (cases "accepted r")
      case True
      then have "b' = b\<lparr>b_copy_chunk_length := ?n, b_state := ST_VERIFY_READ_WAIT\<rparr>" "w' = w1"
        using assms(1) ST_VERIFY_READ f by (auto simp: state_process_def verify_read_submit_def Let_def accepted_def)
      then show ?thesis using a(1) by (simp add: boot_inv_def reading_state_def phase_ok_def)
    next
      case False
      then have "b' = resident_failure r b" "w' = w1"
        using assms(1) ST_VERIFY_READ f by (auto simp: state_process_def verify_read_submit_def Let_def accepted_def)
      then show ?thesis using resident_inv a False by simp
    qed
  next
    case ST_FINAL_READ
    then have nr: "\<not> reading_copy (w_log w)" using rd by (auto simp: reading_state_def)
    obtain r w1 where f: "flash_read ZONE_IAP 0 (c_image_header_length (b_config b)) Packet_Buffer b w = (r, w1)" by fastforce
    have "boot_inv (submitted ST_FINAL_READ_WAIT r b) w1"
      by (rule read_submit_inv [OF f lo nr]) (auto simp: phase_ok_def)
    then show ?thesis using assms(1) ST_FINAL_READ f by (auto simp: state_process_def final_read_submit_def)
  next
    case ST_METADATA_ERASE
    then have nr: "\<not> reading_copy (w_log w)" using rd by (auto simp: reading_state_def)
    obtain r w1 where f: "flash_erase (b_metadata_target_zone b) 0 (of_nat METADATA_ENCODED_SIZE) b w = (r, w1)" by fastforce
    note l = flash_calls_log(3) [OF f]
    have z: "b_metadata_target_zone b \<noteq> ZONE_IAP" and c: "committing b w" "w_copy w ! 6 = b_metadata_state b"
      using ph ST_METADATA_ERASE by (auto simp: phase_ok_def committing_def)
    have "w_copy w1 = w_copy w"
      using f quietD [of "\<lambda>w. snd (the (o_erase (b_flash_ops b)) w (b_metadata_target_zone b) 0 (of_nat METADATA_ENCODED_SIZE))" w]
        assms(3) nr by (auto simp: flash_erase_def copy_respecting_def split: prod.splits)
    moreover have "checked (w_log w1) = checked (w_log w)" using z by (simp add: l check_step_def touches_iap_def)
    ultimately have "phase_ok (b\<lparr>b_state := ST_METADATA_ERASE_WAIT\<rparr>) w1"
      using c by (auto simp: phase_ok_def committing_def next_ok_def session_ok_def install_ok_def split: boot_state.splits)
    then have "boot_inv (submitted ST_METADATA_ERASE_WAIT r b) w1" using z by (intro erase_submit_inv [OF f lo nr]) auto
    then show ?thesis using assms(1) ST_METADATA_ERASE f by (auto simp: state_process_def)
  next
    case ST_METADATA_WRITE
    then have nr: "\<not> reading_copy (w_log w)" using rd by (auto simp: reading_state_def)
    obtain r w1 where f: "flash_write (b_metadata_target_zone b) 0 (of_nat METADATA_ENCODED_SIZE) (Copy_Buffer 0) b w = (r, w1)" by fastforce
    note l = flash_calls_log(2) [OF f]
    have z: "b_metadata_target_zone b \<noteq> ZONE_IAP" and c: "committing b w" "w_copy w ! 6 = b_metadata_state b"
      using ph ST_METADATA_WRITE by (auto simp: phase_ok_def committing_def)
    have "buffer_bytes w (Copy_Buffer 0) (of_nat METADATA_ENCODED_SIZE) ! 6 = b_metadata_state b"
      using c(2) by (simp add: buffer_bytes_def METADATA_ENCODED_SIZE_def)
    then have "fst (commits (w_log w1)) = Some (b_metadata_state b)"
      using c(1) by (auto simp: l commit_step_def committing_def)
    moreover have "checked (w_log w1) = checked (w_log w)" using z by (simp add: l check_step_def touches_iap_def)
    ultimately have "phase_ok (b\<lparr>b_state := ST_METADATA_WRITE_WAIT\<rparr>) w1"
      using c by (auto simp: phase_ok_def committing_def next_ok_def session_ok_def install_ok_def split: boot_state.splits)
    then have "boot_inv (submitted ST_METADATA_WRITE_WAIT r b) w1" using z by (intro write_submit_inv [OF f lo nr]) auto
    then show ?thesis using assms(1) ST_METADATA_WRITE f by (auto simp: state_process_def)
  qed (use assms storage_wait_inv in \<open>auto simp: state_process_def\<close>)
qed

section \<open>The mounted services stay\<close>

definition mounts :: "'x boot \<Rightarrow> boot_config \<times> 'x boot_flash_ops \<times> 'x boot_platform_ops" where
  "mounts b = (b_config b, b_flash_ops b, b_platform_ops b)"

named_theorems mount_simps \<open>operations that keep the mounted services\<close>

lemma mounts_resident [mount_simps]: "mounts (resident_failure r b) = mounts b"
  by (simp add: mounts_def resident_failure_def)

lemma mounts_submitted [mount_simps]: "mounts (submitted s r b) = mounts b"
  by (simp add: submitted_def mount_simps) (simp add: mounts_def)

lemma mounts_commit [mount_simps]: "mounts (fst (metadata_commit_start st nxt b w)) = mounts b"
  by (simp add: metadata_commit_start_def Let_def mount_simps split: prod.splits) (simp add: mounts_def)

lemma mounts_session [mount_simps]: "mounts (session_reset info mode b) = mounts b"
  by (simp add: mounts_def session_reset_def)

lemma mounts_update [mount_simps]:
  "mounts (b\<lparr>b_state := s\<rparr>) = mounts b" "mounts (b\<lparr>b_result := r\<rparr>) = mounts b"
  "mounts (b\<lparr>b_copy_offset := n\<rparr>) = mounts b" "mounts (b\<lparr>b_copy_chunk_length := n\<rparr>) = mounts b"
  "mounts (b\<lparr>b_copy_chunk_crc := c\<rparr>) = mounts b" "mounts (b\<lparr>b_verify_offset := n\<rparr>) = mounts b"
  "mounts (b\<lparr>b_verify_crc := c\<rparr>) = mounts b" "mounts (b\<lparr>b_jump_called := j\<rparr>) = mounts b"
  "mounts (b\<lparr>b_expected_crc := c\<rparr>) = mounts b" "mounts (b\<lparr>b_session_active := j\<rparr>) = mounts b"
  "mounts (b\<lparr>b_metadata_retry_count := k\<rparr>) = mounts b" "mounts (b\<lparr>b_upgrade_info := i\<rparr>) = mounts b"
  by (simp_all add: mounts_def)

lemma mounts_commit_eq: "metadata_commit_start st nxt b w = (b', w') \<Longrightarrow> mounts b' = mounts b"
  using mounts_commit [of st nxt b w] by simp

lemma mounts_begin: "upgrade_begin info mode b w = (r, b', w') \<Longrightarrow> mounts b' = mounts b"
  by (auto simp: upgrade_begin_def mounts_session dest!: mounts_commit_eq split: prod.splits bool.splits if_splits)

lemma mounts_choose [mount_simps]: "mounts (fst (startup_choose b w)) = mounts b"
  by (auto simp: startup_choose_def Let_def mount_simps dest!: mounts_begin split: prod.splits)

lemma mounts_evaluate [mount_simps]: "mounts (fst (metadata_startup_evaluate b w)) = mounts b"
proof -
  have "mounts (metadata_load m s b) = mounts b" for m s by (simp add: mounts_def metadata_load_def)
  moreover have "mounts (b\<lparr>b_metadata_retry_count := n, b_copy_offset := c\<rparr>) = mounts b" for b :: "'a boot" and n c
    by (simp add: mounts_def)
  moreover have "mounts (b\<lparr>b_metadata_valid := v, b_metadata_source_zone := z, b_metadata_sequence := n\<rparr>) = mounts b" for v z n
    by (simp add: mounts_def)
  ultimately show ?thesis
    by (simp add: metadata_startup_evaluate_def Let_def mount_simps split: sum.splits prod.splits)
qed

lemma mounts_header [mount_simps]: "mounts (fst (installed_header_evaluate final b w)) = mounts b"
  by (simp add: installed_header_evaluate_def Let_def mount_simps split: prod.splits)

lemma mounts_completed [mount_simps]: "mounts (fst (storage_completed b w)) = mounts b"
proof -
  have k: "mounts (packet_complete b w) = mounts b" "mounts (metadata_committed b) = mounts b" "mounts (verify_chunk_read b w) = mounts b"
    by (simp_all add: mounts_def packet_complete_def footer_tail_update_def metadata_committed_def verify_chunk_read_def
        resident_failure_def Let_def)
  have "mounts (fst (copy_verified b w)) = mounts b" by (simp add: copy_verified_def Let_def mount_simps)
  then show ?thesis by (cases "b_state b") (simp_all add: storage_completed_def mount_simps k)
qed

lemma mounts_wait [mount_simps]: "mounts (fst (storage_wait_handle b w)) = mounts b"
  by (simp add: storage_wait_handle_def mount_simps split: prod.splits)

lemma mounts_state [mount_simps]: "mounts (fst (state_process b w)) = mounts b"
  by (cases "b_state b")
    (simp_all add: state_process_def metadata_read_submit_def startup_read_submit_def copy_read_submit_def
      copy_verify_read_submit_def verify_read_submit_def final_read_submit_def jump_pending_def Let_def mount_simps
      split: prod.splits)

lemma mounts_process: "bootloader_process (Some b) w = (Some b', w') \<Longrightarrow> mounts b' = mounts b"
  using mounts_state [of b] by (auto simp: bootloader_process_def split: prod.splits option.splits) (metis fst_conv)+

lemma mounts_packet: "bootloader_packet_submit (Some b) off d n w = (r, Some b', w') \<Longrightarrow> mounts b' = mounts b"
  by (auto simp: bootloader_packet_submit_def mount_simps split: option.splits if_splits prod.splits) (simp_all add: mounts_def)

lemma mounts_end: "bootloader_upgrade_end (Some b) e w = (r, Some b', w') \<Longrightarrow> mounts b' = mounts b"
  by (auto simp: bootloader_upgrade_end_def Let_def mount_simps dest!: mounts_commit_eq split: if_splits prod.splits)

lemma mounts_step: "boot_step s t \<Longrightarrow> mounts (fst t) = mounts (fst s)"
proof (induction rule: boot_step.induct)
  case (bs_begin b p_info mode w r b' w')
  then show ?case
    by (auto simp: bootloader_upgrade_begin_def dest!: mounts_begin split: option.splits prod.splits)
qed (simp_all add: mounts_process mounts_packet mounts_end)

lemma copy_respecting_mounts: "mounts b' = mounts b \<Longrightarrow> copy_respecting b' = copy_respecting b"
  by (simp add: mounts_def copy_respecting_def)

section \<open>Every step\<close>

text \<open>The world after the watchdog kick at the start of a poll.\<close>

definition kicked :: "'x boot \<Rightarrow> 'x world \<Rightarrow> 'x world" where
  "kicked b w = (case o_watchdog_kick (b_platform_ops b) of None \<Rightarrow> w | Some kick \<Rightarrow> logged w [] (kick w))"

lemma process_kicked: "bootloader_process (Some b) w = (Some b', w') \<longleftrightarrow> state_process b (kicked b w) = (b', w')"
  by (simp add: bootloader_process_def kicked_def split: prod.splits)

lemma kicked_log [simp]: "w_log (kicked b w) = w_log w"
  by (simp add: kicked_def split: option.split)

lemma kicked_inv:
  assumes "boot_inv b w" "copy_respecting b"
  shows "boot_inv b (kicked b w)"
proof (rule boot_inv_world [OF assms(1) kicked_log])
  assume "copy_phase (b_state b)"
  then have nr: "\<not> reading_copy (w_log w)" using assms(1) by (auto simp: boot_inv_def reading_state_def copy_phase_def)
  have "quiet (\<lambda>w. case o_watchdog_kick (b_platform_ops b) of None \<Rightarrow> w | Some kick \<Rightarrow> kick w)"
    using assms(2) unfolding copy_respecting_def by blast
  then have "w_copy (case o_watchdog_kick (b_platform_ops b) of None \<Rightarrow> w | Some kick \<Rightarrow> kick w) = w_copy w"
    using nr by (rule quietD)
  then show "w_copy (kicked b w) = w_copy w" unfolding kicked_def by (cases "o_watchdog_kick (b_platform_ops b)") simp_all
qed

lemma process_inv:
  assumes "bootloader_process (Some b) w = (Some b', w')" "boot_inv b w" "copy_respecting b"
  shows "boot_inv b' w'"
  using assms state_process_inv kicked_inv unfolding process_kicked by blast

lemma packet_submit_cases:
  assumes "bootloader_packet_submit (Some b) off d n w = (r, Some b', w')"
  obtains "b' = b" "w' = w"
    | dat r1 where "d = Some dat" "b_state b = ST_DOWNLOAD_READY"
        "flash_write (b_download_zone b) off n Packet_Buffer b
           (w\<lparr>w_packet := overwrite 0 (take (unat n) dat) (w_packet w)\<rparr>) = (r1, w')"
        "b' = (if \<not> accepted r1 then resident_failure r1 b
               else b\<lparr>b_pending_packet_offset := off, b_pending_packet_length := n, b_state := ST_PACKET_WRITE_WAIT,
                      b_result := BOOT_IN_PROGRESS\<rparr>)"
        "off = b_received_length b" "n \<le> ui_file_size (b_upgrade_info b) - b_received_length b"
proof (cases "b' = b \<and> w' = w")
  case True
  then show thesis using that(1) by simp
next
  case False
  then obtain dat where d: "d = Some dat" using assms by (cases d) (auto simp: bootloader_packet_submit_def)
  obtain r1 w1 where f: "flash_write (b_download_zone b) off n Packet_Buffer b
      (w\<lparr>w_packet := overwrite 0 (take (unat n) dat) (w_packet w)\<rparr>) = (r1, w1)" by fastforce
  show thesis
    by (rule that(2) [OF d, of r1])
      (use assms False f in \<open>auto simp: d bootloader_packet_submit_def accepted_def not_less split: if_splits\<close>)
qed

lemma packet_submit_inv:
  assumes "bootloader_packet_submit (Some b) off d n w = (r, Some b', w')" "boot_inv b w"
  shows "boot_inv b' w'"
proof -
  from assms(1) show ?thesis
  proof (cases rule: packet_submit_cases)
    case 1
    then show ?thesis using assms(2) by simp
  next
    case (2 dat r1)
    note l = flash_calls_log(2) [OF 2(3)]
    have i: "log_ok w" "\<not> reading_copy (w_log w)" "session_ok b" "committed b w"
      using assms(2) 2(2) by (auto simp: boot_inv_def phase_ok_def reading_state_def)
    have "b_download_zone b = ZONE_IAP \<Longrightarrow> recovering (snd (commits (w_log w)))"
      using i(3,4) by (auto simp: session_ok_def committed_def recovering_def split: if_splits)
    then have lo: "log_ok w'" "\<not> reading_copy (w_log w')"
      using i(1,2) l by (auto simp: log_ok_def touches_iap_def reading_step_def)
    have z: "b_download_zone b = ZONE_STAGING \<or> b_download_zone b = ZONE_IAP"
      using i(3) by (auto simp: session_ok_def split: if_splits)
    show ?thesis
    proof (cases "accepted r1")
      case False
      then show ?thesis using 2(4) resident_inv [OF lo] by simp
    next
      case True
      let ?b = "b\<lparr>b_pending_packet_offset := off, b_pending_packet_length := n, b_state := ST_PACKET_WRITE_WAIT,
                      b_result := BOOT_IN_PROGRESS\<rparr>"
      have "session_ok ?b" "committed ?b w'"
        using i(3,4) l z by (auto simp: session_ok_def committed_def commit_step_def)
      then show ?thesis using True 2(4) simple_state_inv [OF lo, of ?b] by (simp add: phase_ok_def)
    qed
  qed
qed

lemma result_inv:
  assumes "boot_inv b w"
  shows "boot_inv (b\<lparr>b_result := r\<rparr>) w"
proof -
  have "phase_ok (b\<lparr>b_result := r\<rparr>) w = phase_ok b w" by (cases "b_state b") (simp_all add: phase_ok_def)
  then show ?thesis using assms by (simp add: boot_inv_def)
qed

lemma upgrade_end_cases:
  assumes "bootloader_upgrade_end (Some b) e w = (r, Some b', w')"
  obtains "b' = b" "w' = w" | "b' = resident_failure BOOT_IMAGE_INVALID b" "w' = w" "b_state b = ST_DOWNLOAD_READY"
  | b2 where "metadata_commit_start META_INSTALL_PENDING ST_COPY_ERASE
        (b\<lparr>b_expected_crc := e, b_session_active := False\<rparr>) w = (b2, w')" "b' = b2\<lparr>b_result := BOOT_IN_PROGRESS\<rparr>"
      "b_state b = ST_DOWNLOAD_READY"
  | "b_state b' = ST_VERIFY_READ" "w' = w" "b_state b = ST_DOWNLOAD_READY"
proof -
  obtain b2 w2 where c: "metadata_commit_start META_INSTALL_PENDING ST_COPY_ERASE
      (b\<lparr>b_expected_crc := e, b_session_active := False\<rparr>) w = (b2, w2)" by fastforce
  show thesis
    using assms that(1,2,4) that(3) [of b2] c by (auto simp: bootloader_upgrade_end_def Let_def split: if_splits)
qed

lemma upgrade_end_inv:
  assumes "bootloader_upgrade_end (Some b) e w = (r, Some b', w')" "boot_inv b w"
  shows "boot_inv b' w'"
proof -
  have i: "log_ok w" "\<not> reading_copy (w_log w)" if "b_state b = ST_DOWNLOAD_READY"
    using that assms(2) by (auto simp: boot_inv_def reading_state_def)
  from assms(1) show ?thesis
  proof (cases rule: upgrade_end_cases)
    case 1
    then show ?thesis using assms(2) by simp
  next
    case 2
    then show ?thesis using resident_inv i by simp
  next
    case (3 b2)
    have "boot_inv b2 w'" by (rule commit_start_inv [OF 3(1) i [OF 3(3)]]) (simp add: next_ok_simps(1))
    then show ?thesis using 3(2) result_inv by simp
  next
    case 4
    then show ?thesis using simple_state_inv [OF i, of b'] by (simp add: phase_ok_def)
  qed
qed

lemma boot_step_inv:
  assumes "boot_step (b, w) (b', w')" "boot_inv b w" "copy_respecting b"
  shows "boot_inv b' w' \<and> copy_respecting b'"
proof -
  have "copy_respecting b'" using mounts_step [OF assms(1)] copy_respecting_mounts assms(3) by fastforce
  moreover have "boot_inv b' w'"
    using assms(1)
  proof cases
    case bs_process
    then show ?thesis using process_inv assms by blast
  next
    case (bs_begin p_info mode r)
    then show ?thesis using upgrade_begin_inv assms(2)
      by (auto simp: bootloader_upgrade_begin_def split: option.splits prod.splits)
  next
    case (bs_packet offset p_data len r)
    then show ?thesis using packet_submit_inv assms(2) by blast
  next
    case (bs_end expected_crc r)
    then show ?thesis using upgrade_end_inv assms(2) by blast
  next
    case bs_environment
    then have "copy_phase (b_state b) \<Longrightarrow> \<not> reading_copy (w_log w)"
      using assms(2) by (auto simp: boot_inv_def reading_state_def copy_phase_def)
    then show ?thesis using bs_environment boot_inv_world [OF assms(2)] by blast
  qed
  ultimately show ?thesis by simp
qed

lemma boot_run_inv:
  assumes "boot_step\<^sup>*\<^sup>* (b, w) (b', w')" "boot_inv b w" "copy_respecting b"
  shows "boot_inv b' w' \<and> copy_respecting b'"
  using assms
proof (induction "(b', w')" arbitrary: b' w' rule: rtranclp_induct)
  case base
  then show ?case by simp
next
  case (step y)
  then show ?case using boot_step_inv by (cases y) blast
qed

lemma init_state:
  assumes "bootloader_init (Some b0) p_config p_ops w = (r, Some b, w')" "w_log w = []"
  shows "w_log w' = []" "b_state b = ST_META_A_READ \<or> b_state b = ST_CONFIG_ERROR"
  using assms by (auto simp: bootloader_init_def Let_def boot_zeroed_def split: if_splits prod.splits option.splits)

lemma init_inv:
  assumes "bootloader_init (Some b0) p_config p_ops w = (r, Some b, w')" "w_log w = []"
  shows "boot_inv b w'"
  using init_state [OF assms] by (auto intro!: simple_state_inv simp: log_ok_def phase_ok_def)

text \<open>Polls as a run.\<close>

definition poll :: "'x boot \<times> 'x world \<Rightarrow> 'x boot \<times> 'x world" where
  "poll s = (case bootloader_process (Some (fst s)) (snd s) of (b, w) \<Rightarrow> (the b, w))"

lemma poll_step: "boot_step s (poll s)"
proof -
  have "bootloader_process (Some (fst s)) (snd s) = (Some (fst (poll s)), snd (poll s))"
    by (simp add: poll_def bootloader_process_def split: prod.splits)
  from bs_process [OF this] show ?thesis by simp
qed

lemma polls_run: "boot_step\<^sup>*\<^sup>* s ((poll ^^ n) s)"
  by (induction n) (auto intro: rtranclp.rtrancl_into_rtrancl poll_step)

end
