(* ===== verification/Boot_Download.thy ===== *)
theory Boot_Download
  imports Boot_Safety
begin

text \<open>
  What a download session accepts: the image is what the log says was programmed into the download
  zone and confirmed, and the running length, CRC and footer of the state machine are those of that
  image, whatever the order of polls, commands and environment steps.
\<close>

section \<open>The image in the log\<close>

definition image_zone :: "flash_zone \<Rightarrow> bool" where
  "image_zone z \<longleftrightarrow> z = ZONE_IAP \<or> z = ZONE_STAGING"

text \<open>Erasing starts an empty image; a confirmed write at the end of the image extends it.\<close>

definition image_step :: "u8 list \<times> u8 list option \<Rightarrow> boot_event \<Rightarrow> u8 list \<times> u8 list option" where
  "image_step s ev =
     (case ev of
        Ev_Erase z off len r \<Rightarrow> (if image_zone z then [] else fst s, None)
      | Ev_Write z off d r \<Rightarrow> (fst s, if image_zone z \<and> unat off = length (fst s) then Some d else None)
      | Ev_Read z off len buf r \<Rightarrow> (fst s, None)
      | Ev_Result r \<Rightarrow> (case snd s of Some d \<Rightarrow> if r = BOOT_SUCCESS then fst s @ d else fst s | None \<Rightarrow> fst s, None)
      | _ \<Rightarrow> s)"

definition image :: "boot_event list \<Rightarrow> u8 list \<times> u8 list option" where
  "image log = foldl image_step ([], None) log"

lemma image_snoc [simp]: "image (log @ [e]) = image_step (image log) e"
  by (simp add: image_def)

lemma reading_packet_snoc [simp]: "reading_packet (log @ [e]) = packet_reading_step (reading_packet log) e"
  by (simp add: reading_packet_def)

section \<open>The mounted CRC\<close>

text \<open>A CRC that may be computed piecewise.\<close>

locale incremental_crc =
  fixes upd :: "u8 list \<Rightarrow> u16 \<Rightarrow> u16"
  assumes upd_nil: "upd [] c = c" and upd_append: "upd (xs @ ys) c = upd ys (upd xs c)"
begin

lemma upd_take: "upd (take n xs) c = d \<Longrightarrow> upd (drop n xs) d = upd xs c"
  using upd_append [of "take n xs" "drop n xs" c] by simp

lemma upd_concat: "upd (concat ps) c = foldl (\<lambda>c p. upd p c) c ps"
  by (induction ps arbitrary: c) (simp_all add: upd_nil upd_append)

end

interpretation comm_crc: incremental_crc section_crc16_with_crc
  by unfold_locales (simp_all add: section_crc16_with_crc_def)

section \<open>The footer window\<close>

definition last_bytes :: "nat \<Rightarrow> 'a list \<Rightarrow> 'a list" where
  "last_bytes n xs = drop (length xs - n) xs"

lemma length_last_bytes [simp]: "length (last_bytes n xs) = min n (length xs)"
  by (simp add: last_bytes_def min_def)

lemma last_bytes_append: "last_bytes n (xs @ ys) = last_bytes (n - length ys) xs @ last_bytes n ys"
proof (cases "length ys \<le> n")
  case True
  then have "length xs + length ys - n = length xs - (n - length ys)" by simp
  then show ?thesis using True by (simp add: last_bytes_def)
qed (simp add: last_bytes_def)

lemma last_bytes_all: "length xs \<le> n \<Longrightarrow> last_bytes n xs = xs"
  by (simp add: last_bytes_def)

lemma last_bytes_last_bytes: "m \<le> n \<Longrightarrow> last_bytes m (last_bytes n xs) = last_bytes m xs"
proof (cases "n \<le> length xs")
  case True
  moreover assume "m \<le> n"
  ultimately have "length xs - (length xs - n + m) + (length xs - n) = length xs - m" by simp
  then show ?thesis by (simp add: last_bytes_def)
qed (simp add: last_bytes_def)

text \<open>The footer buffer holds the last bytes of the image.\<close>

definition footer_tracks :: "'x boot \<Rightarrow> u8 list \<Rightarrow> bool" where
  "footer_tracks b img \<longleftrightarrow>
     length (b_footer_buffer b) = FOOTER_SIZE \<and> b_footer_length b = min FOOTER_SIZE (length img)
     \<and> take (b_footer_length b) (b_footer_buffer b) = last_bytes FOOTER_SIZE img"

lemma take_overwrite: "i \<le> length buf \<Longrightarrow> take (i + length xs) (overwrite i xs buf) = take i buf @ xs"
  by (simp add: overwrite_def)

lemma length_overwrite: "i + length xs \<le> length buf \<Longrightarrow> length (overwrite i xs buf) = length buf"
  by (simp add: overwrite_def)

lemma footer_update_tracks:
  assumes "footer_tracks b img" and "n \<le> length d"
  shows "footer_tracks (footer_tail_update d n b) (img @ take n d)"
proof (cases "FOOTER_SIZE \<le> n")
  case True
  have l: "length (drop (n - FOOTER_SIZE) (take n d)) = FOOTER_SIZE" using True assms(2) by simp
  have "last_bytes FOOTER_SIZE (img @ take n d) = drop (n - FOOTER_SIZE) (take n d)"
    using True assms(2) by (simp add: last_bytes_def)
  then show ?thesis
    using True assms l take_overwrite [of 0 "b_footer_buffer b" "drop (n - FOOTER_SIZE) (take n d)"]
    by (simp add: footer_tracks_def footer_tail_update_def Let_def length_overwrite)
next
  case False
  let ?f = "b_footer_buffer b" and ?k = "b_footer_length b" and ?d = "take n d"
  have l: "length ?d = n" "length ?f = FOOTER_SIZE" "?k = min FOOTER_SIZE (length img)"
    using assms by (simp_all add: footer_tracks_def)
  have t: "take ?k ?f = last_bytes FOOTER_SIZE img" using assms(1) unfolding footer_tracks_def by blast
  define keep where "keep = (if ?k + n > FOOTER_SIZE then FOOTER_SIZE - n else ?k)"
  define kept where "kept = (if ?k + n > FOOTER_SIZE then overwrite 0 (take keep (drop (?k - keep) ?f)) ?f else ?f)"
  have k: "keep \<le> ?k" "keep + n \<le> FOOTER_SIZE" "keep + n = min FOOTER_SIZE (length img + n)"
    using False l(3) by (auto simp: keep_def)
  have tk: "take keep (drop (?k - keep) ?f) = last_bytes keep img"
  proof -
    have "take keep (drop (?k - keep) ?f) = drop (?k - keep) (take ?k ?f)" using k(1) by (simp add: drop_take)
    also have "\<dots> = last_bytes keep (last_bytes FOOTER_SIZE img)"
      using t l(3) last_bytes_def [of keep "last_bytes FOOTER_SIZE img"] by simp
    also have "\<dots> = last_bytes keep img" using k(2) by (intro last_bytes_last_bytes) simp
    finally show ?thesis .
  qed
  have lk: "length (last_bytes keep img) = keep" using k(1) l(3) by simp
  have kt: "length kept = FOOTER_SIZE" "take keep kept = last_bytes keep img"
  proof -
    show "length kept = FOOTER_SIZE" using l(2) lk k(2) by (simp add: kept_def tk length_overwrite)
    show "take keep kept = last_bytes keep img"
    proof (cases "?k + n > FOOTER_SIZE")
      case True
      then show ?thesis using take_overwrite [of 0 ?f "last_bytes keep img"] lk by (simp add: kept_def tk)
    next
      case False
      then have "keep = ?k" by (simp add: keep_def)
      then show ?thesis using False tk by (simp add: kept_def)
    qed
  qed
  have e: "footer_tail_update d n b = b\<lparr>b_footer_buffer := overwrite keep ?d kept, b_footer_length := keep + n\<rparr>"
    using False by (simp add: footer_tail_update_def Let_def keep_def kept_def)
  have "take (keep + n) (overwrite keep ?d kept) = last_bytes keep img @ ?d"
    using take_overwrite [of keep kept ?d] kt k(2) l(1) by simp
  moreover have "last_bytes FOOTER_SIZE (img @ ?d) = last_bytes keep img @ ?d"
  proof -
    have "last_bytes FOOTER_SIZE (img @ ?d) = last_bytes (FOOTER_SIZE - n) img @ ?d"
      using False l(1) by (simp add: last_bytes_append last_bytes_all)
    moreover have "last_bytes (FOOTER_SIZE - n) img = last_bytes keep img"
      using l(3) by (cases "?k + n > FOOTER_SIZE"; cases "length img \<le> FOOTER_SIZE") (auto simp: keep_def last_bytes_def)
    ultimately show ?thesis by simp
  qed
  ultimately show ?thesis
    using k(2,3) kt(1) l(1) by (simp add: footer_tracks_def e length_overwrite)
qed

text \<open>The footer fields a package must have for an announcement.\<close>

definition footer_accepts :: "boot_upgrade_info \<Rightarrow> u8 list \<Rightarrow> bool" where
  "footer_accepts info f \<longleftrightarrow>
     length f = FOOTER_SIZE \<and> f ! 4 = 1 \<and> le_u32 (drop 5 f) = ui_version info
     \<and> (le_u32 (drop 9 f) = ui_file_size info \<or> le_u32 (drop 9 f) + of_nat FOOTER_SIZE = ui_file_size info \<and> FOOTER_SIZE \<le> unat (ui_file_size info))
     \<and> f ! 29 = ui_module_id info \<and> footer_crc32_calculate (take 30 f) = le_u32 (drop 30 f)"

lemma footer_is_valid_tracks:
  assumes "footer_tracks b img"
  shows "footer_is_valid b \<longleftrightarrow> footer_accepts (b_upgrade_info b) (last_bytes FOOTER_SIZE img)"
proof (cases "FOOTER_SIZE \<le> length img")
  case True
  then have "b_footer_length b = FOOTER_SIZE" "b_footer_buffer b = last_bytes FOOTER_SIZE img"
    using assms by (auto simp: footer_tracks_def min_def)
  moreover have "of_nat FOOTER_SIZE \<le> n \<longleftrightarrow> FOOTER_SIZE \<le> unat n" for n :: u32
    by (simp add: FOOTER_SIZE_def word_le_nat_alt)
  ultimately show ?thesis using True
    by (auto simp: footer_is_valid_def footer_accepts_def Let_def eq_diff_eq)
next
  case False
  then show ?thesis using assms by (auto simp: footer_is_valid_def footer_accepts_def footer_tracks_def Let_def)
qed

section \<open>The invariant\<close>

definition tracks :: "'x boot \<Rightarrow> u8 list \<Rightarrow> bool" where
  "tracks b img \<longleftrightarrow>
     unat (b_received_length b) = length img \<and> length img \<le> unat (ui_file_size (b_upgrade_info b))
     \<and> b_running_crc b = crc_update b img (crc_init b) \<and> footer_tracks b img"

definition download_ok :: "'x boot \<Rightarrow> 'x world \<Rightarrow> bool" where
  "download_ok b w =
     (case b_state b of
        ST_METADATA_ERASE \<Rightarrow> (b_metadata_next_state b = ST_DOWNLOAD_ERASE \<longrightarrow> tracks b [])
          \<and> (b_metadata_next_state b = ST_DOWNLOAD_READY \<longrightarrow> tracks b (fst (image (w_log w))))
      | ST_METADATA_ERASE_WAIT \<Rightarrow> (b_metadata_next_state b = ST_DOWNLOAD_ERASE \<longrightarrow> tracks b [])
          \<and> (b_metadata_next_state b = ST_DOWNLOAD_READY \<longrightarrow> tracks b (fst (image (w_log w))))
          \<and> snd (image (w_log w)) = None
      | ST_METADATA_WRITE \<Rightarrow> (b_metadata_next_state b = ST_DOWNLOAD_ERASE \<longrightarrow> tracks b [])
          \<and> (b_metadata_next_state b = ST_DOWNLOAD_READY \<longrightarrow> tracks b (fst (image (w_log w))))
      | ST_METADATA_WRITE_WAIT \<Rightarrow> (b_metadata_next_state b = ST_DOWNLOAD_ERASE \<longrightarrow> tracks b [])
          \<and> (b_metadata_next_state b = ST_DOWNLOAD_READY \<longrightarrow> tracks b (fst (image (w_log w))))
          \<and> snd (image (w_log w)) = None
      | ST_DOWNLOAD_ERASE \<Rightarrow> tracks b []
      | ST_DOWNLOAD_ERASE_WAIT \<Rightarrow> tracks b [] \<and> image (w_log w) = ([], None)
      | ST_DOWNLOAD_READY \<Rightarrow> tracks b (fst (image (w_log w)))
      | ST_PACKET_WRITE_WAIT \<Rightarrow> tracks b (fst (image (w_log w))) \<and> \<not> reading_packet (w_log w)
          \<and> snd (image (w_log w)) = Some (take (unat (b_pending_packet_length b)) (w_packet w))
          \<and> unat (b_pending_packet_length b) \<le> length (w_packet w)
          \<and> unat (b_received_length b) + unat (b_pending_packet_length b) \<le> unat (ui_file_size (b_upgrade_info b))
      | _ \<Rightarrow> True)"

text \<open>A driver that leaves the packet buffer alone unless a read into it is outstanding.\<close>

definition packet_quiet :: "('x world \<Rightarrow> 'x world) \<Rightarrow> bool" where
  "packet_quiet f \<longleftrightarrow> (\<forall>w. \<not> reading_packet (w_log w) \<longrightarrow> w_packet (f w) = w_packet w)"

definition packet_respecting :: "'x boot \<Rightarrow> bool" where
  "packet_respecting b \<longleftrightarrow>
     (\<forall>z off len w. w_packet (snd (the (o_write (b_flash_ops b)) w z off len Packet_Buffer)) = w_packet w)
     \<and> packet_quiet (\<lambda>w. snd (the (o_is_busy (b_flash_ops b)) w))
     \<and> packet_quiet (\<lambda>w. snd (the (o_result_get (b_flash_ops b)) w))
     \<and> packet_quiet (\<lambda>w. case o_watchdog_kick (b_platform_ops b) of None \<Rightarrow> w | Some kick \<Rightarrow> kick w)"

definition crc_incremental :: "'x boot \<Rightarrow> bool" where
  "crc_incremental b \<longleftrightarrow> incremental_crc (crc_update b)"

definition idle_phase :: "boot_state \<Rightarrow> bool" where
  "idle_phase s \<longleftrightarrow> s \<notin> {ST_METADATA_ERASE, ST_METADATA_ERASE_WAIT, ST_METADATA_WRITE, ST_METADATA_WRITE_WAIT,
     ST_DOWNLOAD_ERASE, ST_DOWNLOAD_ERASE_WAIT, ST_DOWNLOAD_READY, ST_PACKET_WRITE_WAIT}"

lemma idle_ok: "idle_phase (b_state b) \<Longrightarrow> download_ok b w"
  by (cases "b_state b") (simp_all add: idle_phase_def download_ok_def)

lemma resident_ok [simp]: "download_ok (resident_failure r b) w"
  by (rule idle_ok) (simp add: idle_phase_def)

lemma tracks_frame [simp]:
  "tracks (b\<lparr>b_state := s\<rparr>) img = tracks b img" "tracks (b\<lparr>b_result := r\<rparr>) img = tracks b img"
  "tracks (b\<lparr>b_metadata_state := m\<rparr>) img = tracks b img" "tracks (b\<lparr>b_metadata_next_state := s\<rparr>) img = tracks b img"
  "tracks (b\<lparr>b_metadata_target_zone := z\<rparr>) img = tracks b img"
  "tracks (b\<lparr>b_metadata_sequence := n\<rparr>) img = tracks b img" "tracks (b\<lparr>b_metadata_source_zone := z\<rparr>) img = tracks b img"
  "tracks (b\<lparr>b_metadata_valid := v\<rparr>) img = tracks b img"
  "tracks (b\<lparr>b_pending_packet_offset := n\<rparr>) img = tracks b img" "tracks (b\<lparr>b_pending_packet_length := n\<rparr>) img = tracks b img"
  by (simp_all add: tracks_def footer_tracks_def crc_update_def crc_init_def)

lemma session_tracks: "incremental_crc (crc_update b) \<Longrightarrow> tracks (session_reset info mode b) []"
  using incremental_crc.upd_nil [of "crc_update b"]
  by (simp add: tracks_def footer_tracks_def session_reset_def crc_update_def crc_init_def last_bytes_def)

lemma commit_download_ok:
  assumes "metadata_commit_start st nxt b w = (b', w')"
    and "nxt = ST_DOWNLOAD_ERASE \<Longrightarrow> tracks b []" and "nxt = ST_DOWNLOAD_READY \<Longrightarrow> tracks b (fst (image (w_log w)))"
  shows "download_ok b' w'"
proof -
  define b1 where "b1 = b\<lparr>b_metadata_state := st, b_metadata_next_state := nxt,
      b_metadata_target_zone := (if b_metadata_source_zone b = ZONE_META_A then ZONE_META_B else ZONE_META_A)\<rparr>"
  obtain r w1 where e: "metadata_encode_current b1 w = (r, w1)" by fastforce
  have b': "b' = (if r \<noteq> BOOT_SUCCESS then resident_failure r b1 else b1\<lparr>b_state := ST_METADATA_ERASE, b_result := BOOT_IN_PROGRESS\<rparr>)"
    "w' = w1"
    using assms(1) e by (auto simp: metadata_commit_start_def Let_def b1_def)
  have "w_log w1 = w_log w" using e by (auto simp: metadata_encode_current_def split: prod.splits option.splits)
  moreover have "tracks b1 img = tracks b img" "b_metadata_next_state b1 = nxt" for img by (simp_all add: b1_def)
  ultimately show ?thesis using assms(2,3) by (simp add: b' download_ok_def)
qed

lemma begin_download_ok:
  assumes "upgrade_begin info mode b w = (r, b', w')" "download_ok b w" "incremental_crc (crc_update b)"
  shows "download_ok b' w'"
proof (cases "r = BOOT_SUCCESS \<and> b_state b = ST_WAIT_UPGRADE")
  case False
  then have "b' = b \<and> (b_state b \<noteq> ST_WAIT_UPGRADE \<longrightarrow> w' = w)"
    using assms(1) by (auto simp: upgrade_begin_def split: if_splits prod.splits bool.splits)
  then show ?thesis using assms(2) by (cases "b_state b = ST_WAIT_UPGRADE") (simp_all add: idle_ok idle_phase_def)
next
  case True
  then obtain w3 where c: "metadata_commit_start (if mode = MODE_STAGED then META_DOWNLOAD_STAGED else META_DOWNLOAD_DIRECT)
      ST_DOWNLOAD_ERASE (session_reset info mode b) w3 = (b', w')"
    using assms(1) by (auto simp: upgrade_begin_def split: if_splits prod.splits bool.splits)
  show ?thesis by (rule commit_download_ok [OF c]) (use session_tracks [OF assms(3)] in simp_all)
qed

section \<open>Completions\<close>

lemma packet_complete_tracks:
  assumes "tracks b img" "incremental_crc (crc_update b)" "unat (b_pending_packet_length b) \<le> length (w_packet w)"
    and "unat (b_received_length b) + unat (b_pending_packet_length b) \<le> unat (ui_file_size (b_upgrade_info b))"
  shows "tracks (packet_complete b w) (img @ take (unat (b_pending_packet_length b)) (w_packet w))"
proof -
  let ?n = "unat (b_pending_packet_length b)" let ?d = "take ?n (w_packet w)" let ?b = "packet_complete b w"
  have b: "b_received_length ?b = b_received_length b + b_pending_packet_length b" "b_upgrade_info ?b = b_upgrade_info b"
    "b_running_crc ?b = crc_update b ?d (b_running_crc b)" "crc_update ?b = crc_update b" "crc_init ?b = crc_init b"
    by (simp_all add: packet_complete_def footer_tail_update_def Let_def crc_update_def crc_init_def)
  have "unat (b_received_length b) + ?n < 2 ^ 32" using assms(4) unat_u32_less [of "ui_file_size (b_upgrade_info b)"] by simp
  then have u: "unat (b_received_length b + b_pending_packet_length b) = unat (b_received_length b) + ?n"
    by (simp add: unat_word_ariths)
  have "footer_tracks (footer_tail_update (w_packet w) ?n b) (img @ ?d)"
    by (rule footer_update_tracks) (use assms in \<open>simp_all add: tracks_def\<close>)
  moreover have "b_footer_buffer ?b = b_footer_buffer (footer_tail_update (w_packet w) ?n b)"
    "b_footer_length ?b = b_footer_length (footer_tail_update (w_packet w) ?n b)"
    by (simp_all add: packet_complete_def Let_def)
  ultimately have "footer_tracks ?b (img @ ?d)" unfolding footer_tracks_def by metis
  moreover have "crc_update b (img @ ?d) c = crc_update b ?d (crc_update b img c)" for c
    using assms(2) by (rule incremental_crc.upd_append)
  ultimately show ?thesis using assms u by (simp add: tracks_def b)
qed

lemma choose_download_ok:
  assumes "startup_choose b w = (b', w')" "incremental_crc (crc_update b)"
  shows "download_ok b' w'"
proof (cases "b_boot_reason b = REASON_IAP_REQUEST \<and> b_startup_upgrade_info_valid b")
  case False
  then have "b_state b' = ST_WAIT_UPGRADE \<or> b_state b' = ST_STARTUP_READ"
    using assms(1) by (auto simp: startup_choose_def Let_def split: if_splits)
  then show ?thesis by (auto intro!: idle_ok simp: idle_phase_def)
next
  case True
  let ?b = "b\<lparr>b_state := ST_WAIT_UPGRADE\<rparr>"
  obtain r b2 w1 where u: "upgrade_begin (b_startup_upgrade_info b) (c_default_mode (b_config b)) ?b w = (r, b2, w1)"
    using prod_cases3 by blast
  have c: "incremental_crc (crc_update ?b)" using assms(2) by (simp add: crc_update_def)
  have "download_ok b2 w1" by (rule begin_download_ok [OF u _ c]) (simp add: idle_ok idle_phase_def)
  then show ?thesis using assms(1) True u by (auto simp: startup_choose_def Let_def split: if_splits)
qed

lemma evaluate_download_ok:
  assumes "metadata_startup_evaluate b w = (b', w')" "incremental_crc (crc_update b)"
  shows "download_ok b' w'"
proof -
  have l: "incremental_crc (crc_update (metadata_load m s b))" for m s
    using assms(2) by (simp add: crc_update_def metadata_load_def)
  have v: "incremental_crc (crc_update (b\<lparr>b_metadata_valid := v, b_metadata_source_zone := z, b_metadata_sequence := n\<rparr>))" for v z n
    using assms(2) by (simp add: crc_update_def)
  show ?thesis
    using assms(1) choose_download_ok [OF _ l] choose_download_ok [OF _ v]
    by (auto simp: metadata_startup_evaluate_def Let_def elim!: commit_download_ok
        split: sum.splits prod.splits if_splits)
qed

lemma header_download_ok:
  assumes "installed_header_evaluate final b w = (b', w')"
  shows "download_ok b' w'"
  using assms
  by (auto simp: installed_header_evaluate_def Let_def idle_ok idle_phase_def elim!: commit_download_ok
      split: if_splits prod.splits)

lemma verified_download_ok:
  assumes "copy_verified b w = (b', w')"
  shows "download_ok b' w'"
  using assms by (auto simp: copy_verified_def Let_def elim!: commit_download_ok split: if_splits)

lemma completed_download_ok:
  assumes "storage_completed b w' = (b1, w1)" "download_ok b w" "w_log w' = w_log w @ [Ev_Result BOOT_SUCCESS]"
    and "b_state b = ST_PACKET_WRITE_WAIT \<Longrightarrow> w_packet w' = w_packet w" "incremental_crc (crc_update b)"
    and "phase_ok b w"
  shows "download_ok b1 w1"
proof (cases "b_state b")
  case ST_META_A_WAIT
  then show ?thesis using assms(1) by (auto simp: storage_completed_def idle_ok idle_phase_def)
next
  case ST_META_B_WAIT
  then show ?thesis using assms(1,5) evaluate_download_ok by (simp add: storage_completed_def)
next
  case ST_STARTUP_WAIT
  then show ?thesis using assms(1) header_download_ok by (simp add: storage_completed_def)
next
  case ST_DOWNLOAD_ERASE_WAIT
  then have "tracks b []" "image (w_log w') = ([], None)"
    using assms(2,3) by (simp_all add: download_ok_def image_step_def)
  then show ?thesis using assms(1) ST_DOWNLOAD_ERASE_WAIT
    by (auto simp: storage_completed_def elim!: commit_download_ok)
next
  case ST_PACKET_WRITE_WAIT
  then have "tracks b (fst (image (w_log w)))"
      "fst (image (w_log w')) = fst (image (w_log w)) @ take (unat (b_pending_packet_length b)) (w_packet w')"
      "unat (b_pending_packet_length b) \<le> length (w_packet w')"
      "unat (b_received_length b) + unat (b_pending_packet_length b) \<le> unat (ui_file_size (b_upgrade_info b))"
    using assms(2,3,4) by (simp_all add: download_ok_def image_step_def)
  then have "tracks (packet_complete b w') (fst (image (w_log w')))" using packet_complete_tracks assms(5) by metis
  then show ?thesis using assms(1) ST_PACKET_WRITE_WAIT by (auto simp: storage_completed_def download_ok_def)
next
  case ST_COPY_ERASE_WAIT
  then show ?thesis using assms(1) by (auto simp: storage_completed_def idle_ok idle_phase_def)
next
  case ST_COPY_READ_WAIT
  then show ?thesis using assms(1) by (auto simp: storage_completed_def idle_ok idle_phase_def)
next
  case ST_COPY_WRITE_WAIT
  then show ?thesis using assms(1) by (auto simp: storage_completed_def idle_ok idle_phase_def)
next
  case ST_COPY_VERIFY_READ_WAIT
  then show ?thesis using assms(1) verified_download_ok by (simp add: storage_completed_def)
next
  case ST_VERIFY_READ_WAIT
  then show ?thesis using assms(1) verify_chunk_state [of b w']
    by (auto simp: storage_completed_def intro!: idle_ok simp: idle_phase_def)
next
  case ST_FINAL_READ_WAIT
  then show ?thesis using assms(1) header_download_ok by (simp add: storage_completed_def)
next
  case ST_METADATA_ERASE_WAIT
  then show ?thesis using assms(1,2,3) by (auto simp: storage_completed_def download_ok_def image_step_def)
next
  case ST_METADATA_WRITE_WAIT
  then have t: "b_metadata_next_state b = ST_DOWNLOAD_ERASE \<Longrightarrow> tracks b []"
    "b_metadata_next_state b = ST_DOWNLOAD_READY \<Longrightarrow> tracks b (fst (image (w_log w')))"
    and n: "next_ok b (w_log w)"
    using assms(2,3,6) by (simp_all add: download_ok_def image_step_def phase_ok_def committing_def)
  have "b1 = metadata_committed b" "w1 = w'" using assms(1) ST_METADATA_WRITE_WAIT by (simp_all add: storage_completed_def)
  then show ?thesis using t n
    by (cases "b_metadata_next_state b") (simp_all add: download_ok_def metadata_committed_def next_ok_def)
qed (use assms(1) in \<open>auto simp: storage_completed_def\<close>)

section \<open>Every step\<close>

lemma download_ok_world:
  "download_ok b w \<Longrightarrow> w_log w' = w_log w \<Longrightarrow> (\<not> reading_packet (w_log w) \<Longrightarrow> w_packet w' = w_packet w) \<Longrightarrow> download_ok b w'"
  by (cases "b_state b") (simp_all add: download_ok_def)

lemma submitted_download_ok:
  assumes "accepted r \<Longrightarrow> download_ok (b\<lparr>b_state := wait\<rparr>) w"
  shows "download_ok (submitted wait r b) w"
  using assms by (auto simp: submitted_def accepted_def)

lemma flash_result_packet:
  "flash_result_get b w = (r, w') \<Longrightarrow> w_packet w' = w_packet (snd (the (o_result_get (b_flash_ops b)) w))"
  by (auto simp: flash_result_get_def split: prod.splits)

lemma wait_download_ok:
  assumes "storage_wait_handle b w = (b', w')" "download_ok b w" "phase_ok b w" "packet_respecting b"
    and "incremental_crc (crc_update b)"
  shows "download_ok b' w'"
proof -
  obtain y w1 where y: "flash_is_busy b w = (y, w1)" by fastforce
  have l1: "w_log w1 = w_log w" by (rule flash_calls_log(4) [OF y])
  have q: "packet_quiet (\<lambda>w. snd (the (o_is_busy (b_flash_ops b)) w))" "packet_quiet (\<lambda>w. snd (the (o_result_get (b_flash_ops b)) w))"
    using assms(4) by (simp_all add: packet_respecting_def)
  have p1: "w_packet w1 = w_packet w" if "\<not> reading_packet (w_log w)"
    using y q(1) that by (auto simp: flash_is_busy_def packet_quiet_def split: prod.splits)
  have i1: "download_ok b w1" by (rule download_ok_world [OF assms(2) l1 p1])
  show ?thesis
  proof (cases "y = 1")
    case True
    then show ?thesis using assms(1) y i1 by (simp add: storage_wait_handle_def)
  next
    case False
    obtain r w2 where r: "flash_result_get b w1 = (r, w2)" by fastforce
    have l2: "w_log w2 = w_log w1 @ [Ev_Result r]" by (rule flash_calls_log(5) [OF r])
    show ?thesis
    proof (cases "r = BOOT_SUCCESS")
      case True
      have c: "storage_completed b w2 = (b', w')" using assms(1) y False r True by (simp add: storage_wait_handle_def)
      have p2: "w_packet w2 = w_packet w" if "b_state b = ST_PACKET_WRITE_WAIT"
      proof -
        have "\<not> reading_packet (w_log w)" using assms(2) that by (simp add: download_ok_def)
        moreover from this have "w_packet w2 = w_packet w1"
          using q(2) l1 flash_result_packet [OF r] unfolding packet_quiet_def by metis
        ultimately show ?thesis using p1 by simp
      qed
      show ?thesis
        by (rule completed_download_ok [OF c assms(2) _ p2 assms(5,3)]) (simp add: l2 l1 True)
    next
      case res: False
      then show ?thesis using assms(1) y False r by (auto simp: storage_wait_handle_def)
    qed
  qed
qed

lemma state_download_ok:
  assumes "state_process b w = (b', w')" "download_ok b w" "phase_ok b w" "packet_respecting b"
    and "incremental_crc (crc_update b)"
  shows "download_ok b' w'"
proof -
  have idle: "download_ok b' w'" if "idle_phase (b_state b')" by (rule idle_ok [OF that])
  have sub: "download_ok (submitted s r x) w1" if "idle_phase s" for s r w1 and x :: "'a boot"
    by (rule submitted_download_ok) (use that in \<open>simp add: idle_ok\<close>)
  show ?thesis
  proof (cases "b_state b")
    case ST_DOWNLOAD_ERASE
    then have z: "image_zone (b_download_zone b)" "tracks b []"
      using assms(2,3) by (auto simp: phase_ok_def session_ok_def image_zone_def download_ok_def split: if_splits)
    obtain r w1 where f: "flash_erase (b_download_zone b) 0 (ui_file_size (b_upgrade_info b)) b w = (r, w1)" by fastforce
    have "download_ok (submitted ST_DOWNLOAD_ERASE_WAIT r b) w1"
      by (rule submitted_download_ok) (use z flash_calls_log(3) [OF f] in \<open>simp add: download_ok_def image_step_def\<close>)
    then show ?thesis using assms(1) ST_DOWNLOAD_ERASE f by (auto simp: state_process_def)
  next
    case ST_METADATA_ERASE
    then have z: "\<not> image_zone (b_metadata_target_zone b)"
      using assms(3) by (auto simp: phase_ok_def committing_def image_zone_def)
    obtain r w1 where f: "flash_erase (b_metadata_target_zone b) 0 (of_nat METADATA_ENCODED_SIZE) b w = (r, w1)" by fastforce
    have "download_ok (submitted ST_METADATA_ERASE_WAIT r b) w1"
      by (rule submitted_download_ok)
        (use z assms(2) ST_METADATA_ERASE flash_calls_log(3) [OF f] in \<open>simp add: download_ok_def image_step_def\<close>)
    then show ?thesis using assms(1) ST_METADATA_ERASE f by (auto simp: state_process_def)
  next
    case ST_METADATA_WRITE
    then have z: "\<not> image_zone (b_metadata_target_zone b)"
      using assms(3) by (auto simp: phase_ok_def committing_def image_zone_def)
    obtain r w1 where f: "flash_write (b_metadata_target_zone b) 0 (of_nat METADATA_ENCODED_SIZE) (Copy_Buffer 0) b w = (r, w1)" by fastforce
    have "download_ok (submitted ST_METADATA_WRITE_WAIT r b) w1"
      by (rule submitted_download_ok)
        (use z assms(2) ST_METADATA_WRITE flash_calls_log(2) [OF f] in \<open>simp add: download_ok_def image_step_def\<close>)
    then show ?thesis using assms(1) ST_METADATA_WRITE f by (auto simp: state_process_def)
  next
    case ST_JUMP_PENDING
    then have "idle_phase (b_state b')"
      using assms(1) by (auto simp: state_process_def jump_pending_def Let_def idle_phase_def split: prod.splits if_splits)
    then show ?thesis by (rule idle)
  next
    case ST_STARTUP_READ
    then show ?thesis using assms(1)
      by (auto simp: state_process_def startup_read_submit_def idle_phase_def sub split: prod.splits if_splits)
  next
    case ST_VERIFY_READ
    then show ?thesis using assms(1)
      by (auto simp: state_process_def verify_read_submit_def Let_def split: prod.splits if_splits
          intro!: idle_ok simp: idle_phase_def)
  qed (use assms wait_download_ok in \<open>auto simp: state_process_def metadata_read_submit_def copy_read_submit_def
      copy_verify_read_submit_def final_read_submit_def Let_def idle_phase_def sub split: prod.splits\<close>)
qed

lemma kicked_packet:
  assumes "packet_respecting b" "\<not> reading_packet (w_log w)"
  shows "w_packet (kicked b w) = w_packet w"
proof -
  have "packet_quiet (\<lambda>w. case o_watchdog_kick (b_platform_ops b) of None \<Rightarrow> w | Some kick \<Rightarrow> kick w)"
    using assms(1) unfolding packet_respecting_def by blast
  then show ?thesis
    using assms(2) unfolding kicked_def packet_quiet_def by (cases "o_watchdog_kick (b_platform_ops b)") simp_all
qed

lemma process_download_ok:
  assumes "bootloader_process (Some b) w = (Some b', w')" "boot_inv b w" "copy_respecting b" "download_ok b w"
    and "packet_respecting b" "incremental_crc (crc_update b)"
  shows "download_ok b' w'"
proof -
  have "download_ok b (kicked b w)" by (rule download_ok_world [OF assms(4) kicked_log kicked_packet [OF assms(5)]])
  moreover have "phase_ok b (kicked b w)" using kicked_inv [OF assms(2,3)] by (simp add: boot_inv_def)
  ultimately show ?thesis using state_download_ok assms(1,5,6) unfolding process_kicked by blast
qed

lemma flash_write_packet:
  "flash_write z off n buf b w = (r, w') \<Longrightarrow> w_packet w' = w_packet (snd (the (o_write (b_flash_ops b)) w z off n buf))"
  by (auto simp: flash_write_def split: prod.splits)

lemma packet_download_ok:
  assumes "bootloader_packet_submit (Some b) off d n w = (r, Some b', w')" "boot_inv b w" "download_ok b w"
    and "packet_respecting b" "\<And>dat. d = Some dat \<Longrightarrow> unat n \<le> length dat"
  shows "download_ok b' w'"
  using assms(1)
proof (cases rule: packet_submit_cases)
  case 1
  then show ?thesis using assms(3) by simp
next
  case (2 dat r1)
  let ?w = "w\<lparr>w_packet := overwrite 0 (take (unat n) dat) (w_packet w)\<rparr>"
  let ?b = "b\<lparr>b_pending_packet_offset := off, b_pending_packet_length := n, b_state := ST_PACKET_WRITE_WAIT,
              b_result := BOOT_IN_PROGRESS\<rparr>"
  have l: "w_log w' = w_log w @ [Ev_Write (b_download_zone b) off (take (unat n) (w_packet ?w)) r1]"
    using flash_calls_log(2) [OF 2(3)] by (simp add: buffer_bytes_def)
  have pk: "w_packet w' = w_packet ?w"
    using flash_write_packet [OF 2(3)] assms(4) unfolding packet_respecting_def by simp
  have t: "tracks b (fst (image (w_log w)))" using assms(3) 2(2) by (simp add: download_ok_def)
  have z: "image_zone (b_download_zone b)"
    using assms(2) 2(2) by (auto simp: boot_inv_def phase_ok_def session_ok_def image_zone_def split: if_splits)
  have len: "unat n \<le> length (w_packet ?w)" using assms(5) 2(1) by (simp add: overwrite_def)
  have r: "unat (b_received_length b) = length (fst (image (w_log w)))" using t by (simp add: tracks_def)
  have "b_received_length b \<le> ui_file_size (b_upgrade_info b)" using t by (simp add: tracks_def word_le_nat_alt)
  then have "unat (b_received_length b) + unat n \<le> unat (ui_file_size (b_upgrade_info b))"
    using 2(6) by (simp add: word_le_nat_alt unat_sub)
  then have "download_ok ?b w'"
    using t z len pk 2(5) r by (simp add: download_ok_def l image_step_def packet_reading_step_def)
  then show ?thesis using 2(4) by simp
qed

lemma download_step:
  assumes "boot_step (b, w) (b', w')" "boot_inv b w" "copy_respecting b" "download_ok b w" "packet_respecting b"
    and "incremental_crc (crc_update b)"
  shows "download_ok b' w'"
  using assms(1)
proof cases
  case bs_process
  then show ?thesis using process_download_ok assms(2-6) by blast
next
  case (bs_begin p_info mode r)
  then show ?thesis using begin_download_ok assms(4,6)
    by (auto simp: bootloader_upgrade_begin_def split: option.splits prod.splits)
next
  case (bs_packet p_data len offset r)
  then show ?thesis using packet_download_ok assms(2,4,5) by blast
next
  case (bs_end e r)
  have f: "download_ok (x\<lparr>b_result := r\<rparr>) w' = download_ok x w'" for x :: "'a boot" and r
    by (cases "b_state x") (simp_all add: download_ok_def)
  from bs_end show ?thesis
  proof (cases rule: upgrade_end_cases)
    case (3 b2)
    have "download_ok b2 w'" by (rule commit_download_ok [OF 3(1)]) simp_all
    then show ?thesis using 3(2) f by simp
  qed (use assms(4) in \<open>simp_all add: idle_ok idle_phase_def\<close>)
next
  case bs_environment
  then show ?thesis using download_ok_world [OF assms(4), of w'] by simp
qed

lemma download_run:
  assumes "boot_step\<^sup>*\<^sup>* (b, w) (b', w')" "boot_inv b w" "copy_respecting b" "download_ok b w" "packet_respecting b"
    and "incremental_crc (crc_update b)"
  shows "boot_inv b' w' \<and> download_ok b' w' \<and> mounts b' = mounts b"
  using assms(1)
proof (induction "(b', w')" arbitrary: b' w' rule: rtranclp_induct)
  case base
  then show ?case using assms by simp
next
  case (step y)
  obtain b1 w1 where y: "y = (b1, w1)" by fastforce
  have i: "boot_inv b1 w1" "download_ok b1 w1" "mounts b1 = mounts b" using step(3) y by blast+
  then have c: "copy_respecting b1" "packet_respecting b1" "incremental_crc (crc_update b1)"
    using assms(3,5,6) copy_respecting_mounts [OF i(3)] by (simp_all add: mounts_def packet_respecting_def crc_update_def)
  show ?case
    using boot_step_inv [OF step(2) [unfolded y] i(1) c(1)] download_step [OF step(2) [unfolded y] i(1) c(1) i(2) c(2,3)]
      mounts_step [OF step(2)] i(3) by (simp add: y)
qed

end
