(* ===== verification/Boot_Progress.thy ===== *)
theory Boot_Progress
  imports Boot_Download
begin

text \<open>
  Progress of the boot state machine under a prompt flash driver, one that accepts every request and has
  completed it at the next poll: how many polls a redundant metadata commit takes, when an accepted
  upgrade is ready for packets, and when a packet has been programmed.
\<close>

section \<open>Prompt drivers\<close>

definition prompt :: "'x boot \<Rightarrow> bool" where
  "prompt b \<longleftrightarrow>
     (\<forall>w z off len buf. accepted (fst (the (o_read (b_flash_ops b)) w z off len buf)))
     \<and> (\<forall>w z off len buf. accepted (fst (the (o_write (b_flash_ops b)) w z off len buf)))
     \<and> (\<forall>w z off len. accepted (fst (the (o_erase (b_flash_ops b)) w z off len)))
     \<and> (\<forall>w. fst (the (o_is_busy (b_flash_ops b)) w) \<noteq> 1)
     \<and> (\<forall>w. fst (the (o_result_get (b_flash_ops b)) w) = BOOT_SUCCESS)"

lemma prompt_mounts: "mounts b' = mounts b \<Longrightarrow> prompt b' = prompt b"
  by (simp add: mounts_def prompt_def)

lemma prompt_update [simp]: "prompt (b\<lparr>b_state := s\<rparr>) = prompt b" "prompt (b\<lparr>b_result := r\<rparr>) = prompt b"
  by (simp_all add: prompt_def)

lemma poll_process: "poll (b, w) = state_process b (kicked b w)"
  by (simp add: poll_def bootloader_process_def kicked_def split: prod.splits)

text \<open>The world in which a completed operation is handled.\<close>

definition answered :: "'x boot \<Rightarrow> 'x world \<Rightarrow> 'x world" where
  "answered b w = snd (flash_result_get b (snd (flash_is_busy b (kicked b w))))"

lemma answered_log [simp]: "prompt b \<Longrightarrow> w_log (answered b w) = w_log w @ [Ev_Result BOOT_SUCCESS]"
  by (simp add: answered_def prompt_def flash_result_get_def flash_is_busy_def split: prod.splits) (metis fst_conv)

lemma answered_packet:
  assumes "packet_respecting b" "\<not> reading_packet (w_log w)"
  shows "w_packet (answered b w) = w_packet w"
proof -
  have q: "packet_quiet (\<lambda>w. snd (the (o_is_busy (b_flash_ops b)) w))" "packet_quiet (\<lambda>w. snd (the (o_result_get (b_flash_ops b)) w))"
    using assms(1) by (simp_all add: packet_respecting_def)
  have "w_packet (snd (flash_is_busy b (kicked b w))) = w_packet (kicked b w)" "w_log (snd (flash_is_busy b (kicked b w))) = w_log w"
    using q(1) assms(2) by (simp_all add: flash_is_busy_def packet_quiet_def case_prod_beta)
  then show ?thesis
    using q(2) assms(2) kicked_packet [OF assms]
    by (simp add: answered_def flash_result_get_def packet_quiet_def case_prod_beta)
qed

definition waiting :: "boot_state \<Rightarrow> bool" where
  "waiting s \<longleftrightarrow> s \<in> {ST_META_A_WAIT, ST_META_B_WAIT, ST_STARTUP_WAIT, ST_DOWNLOAD_ERASE_WAIT, ST_PACKET_WRITE_WAIT,
     ST_COPY_ERASE_WAIT, ST_COPY_READ_WAIT, ST_COPY_WRITE_WAIT, ST_COPY_VERIFY_READ_WAIT, ST_VERIFY_READ_WAIT,
     ST_FINAL_READ_WAIT, ST_METADATA_ERASE_WAIT, ST_METADATA_WRITE_WAIT}"

lemma poll_waiting:
  assumes "prompt b" "waiting (b_state b)"
  shows "poll (b, w) = storage_completed b (answered b w)"
proof -
  obtain y w1 where y: "flash_is_busy b (kicked b w) = (y, w1)" by fastforce
  obtain r w2 where r: "flash_result_get b w1 = (r, w2)" by fastforce
  have "y \<noteq> 1" using y assms(1) by (auto simp: flash_is_busy_def prompt_def split: prod.splits) (metis fst_conv)
  moreover have "r = BOOT_SUCCESS" using r assms(1) by (auto simp: flash_result_get_def prompt_def split: prod.splits) (metis fst_conv)
  moreover have "state_process b (kicked b w) = storage_wait_handle b (kicked b w)"
    using assms(2) by (auto simp: waiting_def state_process_def)
  ultimately show ?thesis by (simp add: poll_process storage_wait_handle_def answered_def y r)
qed

lemma submitted_accepted: "accepted r \<Longrightarrow> submitted s r b = b\<lparr>b_state := s\<rparr>"
  by (auto simp: submitted_def accepted_def)

lemma prompt_accepts:
  "prompt b \<Longrightarrow> accepted (fst (flash_read z off len buf b w))" "prompt b \<Longrightarrow> accepted (fst (flash_write z off len buf b w))"
  "prompt b \<Longrightarrow> accepted (fst (flash_erase z off len b w))"
  by (simp_all add: flash_read_def flash_write_def flash_erase_def prompt_def split: prod.splits) (metis fst_conv)+

lemma poll_submit_commit:
  assumes "prompt b"
  shows "b_state b = ST_METADATA_ERASE \<Longrightarrow> \<exists>w1. poll (b, w) = (b\<lparr>b_state := ST_METADATA_ERASE_WAIT\<rparr>, w1)"
    "b_state b = ST_METADATA_WRITE \<Longrightarrow> \<exists>w1. poll (b, w) = (b\<lparr>b_state := ST_METADATA_WRITE_WAIT\<rparr>, w1)"
    "b_state b = ST_DOWNLOAD_ERASE \<Longrightarrow> \<exists>w1. poll (b, w) = (b\<lparr>b_state := ST_DOWNLOAD_ERASE_WAIT\<rparr>, w1)"
  using prompt_accepts [OF assms, THEN submitted_accepted]
  by (auto simp: poll_process state_process_def case_prod_beta)

section \<open>Commits\<close>

lemma commit_polls:
  assumes "prompt b" "b_state b = ST_METADATA_ERASE"
  shows "\<exists>w'. (poll ^^ 4) (b, w) = (metadata_committed b, w')"
proof -
  obtain w1 where p1: "poll (b, w) = (b\<lparr>b_state := ST_METADATA_ERASE_WAIT\<rparr>, w1)" using poll_submit_commit(1) assms by blast
  obtain w2 where p2: "poll (b\<lparr>b_state := ST_METADATA_ERASE_WAIT\<rparr>, w1) = (b\<lparr>b_state := ST_METADATA_WRITE\<rparr>, w2)"
    using poll_waiting [of "b\<lparr>b_state := ST_METADATA_ERASE_WAIT\<rparr>" w1] assms(1) by (simp add: waiting_def storage_completed_def)
  obtain w3 where p3: "poll (b\<lparr>b_state := ST_METADATA_WRITE\<rparr>, w2) = (b\<lparr>b_state := ST_METADATA_WRITE_WAIT\<rparr>, w3)"
    using poll_submit_commit(2) [of "b\<lparr>b_state := ST_METADATA_WRITE\<rparr>" w2] assms(1) by auto
  have "poll (b\<lparr>b_state := ST_METADATA_WRITE_WAIT\<rparr>, w3)
      = (metadata_committed b, answered (b\<lparr>b_state := ST_METADATA_WRITE_WAIT\<rparr>) w3)"
    using poll_waiting [of "b\<lparr>b_state := ST_METADATA_WRITE_WAIT\<rparr>" w3] assms(1)
    by (simp add: waiting_def storage_completed_def metadata_committed_def)
  then show ?thesis by (simp add: eval_nat_numeral p1 p2 p3)
qed

lemma commit_start_erases:
  assumes "metadata_commit_start st nxt b w = (b', w')" "c_copy_buffer (b_config b)"
    and "METADATA_ENCODED_SIZE \<le> unat (c_copy_buffer_size (b_config b))" "state_valid st" "b_mode b \<le> MODE_STAGED"
  shows "b_state b' = ST_METADATA_ERASE" "b_metadata_next_state b' = nxt" "mounts b' = mounts b"
    "b_mode b' = b_mode b" "b_upgrade_info b' = b_upgrade_info b" "b_metadata_sequence b' = b_metadata_sequence b"
    "b_session_active b' = b_session_active b" "b_received_length b' = b_received_length b"
    "b_last_packet_length b' = b_last_packet_length b" "b_copy_offset b' = b_copy_offset b"
    "b_metadata_retry_count b' = b_metadata_retry_count b" "b_metadata_state b' = st"
proof -
  define b1 where "b1 = b\<lparr>b_metadata_state := st, b_metadata_next_state := nxt,
      b_metadata_target_zone := (if b_metadata_source_zone b = ZONE_META_A then ZONE_META_B else ZONE_META_A)\<rparr>"
  have v: "m_state (current_metadata b1) = st" "m_mode (current_metadata b1) = b_mode b" "b_config b1 = b_config b"
    by (simp_all add: b1_def current_metadata_def)
  have "fst (metadata_encode_current b1 w) = BOOT_SUCCESS"
    using assms(2-5) by (simp add: metadata_encode_current_def bootloader_metadata_encode_def v not_less split: prod.splits)
  then have "b' = b1\<lparr>b_state := ST_METADATA_ERASE, b_result := BOOT_IN_PROGRESS\<rparr>"
    using assms(1) by (auto simp: metadata_commit_start_def Let_def b1_def split: prod.splits)
  then show "b_state b' = ST_METADATA_ERASE" "b_metadata_next_state b' = nxt"
    "b_mode b' = b_mode b" "b_upgrade_info b' = b_upgrade_info b" "b_metadata_sequence b' = b_metadata_sequence b"
    "b_session_active b' = b_session_active b" "b_received_length b' = b_received_length b"
    "b_last_packet_length b' = b_last_packet_length b" "b_copy_offset b' = b_copy_offset b"
    "b_metadata_retry_count b' = b_metadata_retry_count b" "b_metadata_state b' = st"
    by (simp_all add: b1_def)
  show "mounts b' = mounts b" by (rule mounts_commit_eq [OF assms(1)])
qed

section \<open>From the command to the first packet\<close>

definition buffers_ok :: "'x boot \<Rightarrow> bool" where
  "buffers_ok b \<longleftrightarrow> c_copy_buffer (b_config b) \<and> METADATA_ENCODED_SIZE \<le> unat (c_copy_buffer_size (b_config b))"

lemma buffers_mounts: "mounts b' = mounts b \<Longrightarrow> buffers_ok b' = buffers_ok b"
  by (simp add: mounts_def buffers_ok_def)

lemma download_states_valid:
  "state_valid (if m = MODE_STAGED then META_DOWNLOAD_STAGED else META_DOWNLOAD_DIRECT)"
  by (simp add: state_valid_def META_FAILED_def META_DOWNLOAD_STAGED_def META_DOWNLOAD_DIRECT_def)

lemma committed_fields [simp]:
  "mounts (metadata_committed b) = mounts b" "b_state (metadata_committed b) = b_metadata_next_state b"
  "b_mode (metadata_committed b) = b_mode b" "b_upgrade_info (metadata_committed b) = b_upgrade_info b"
  "b_metadata_sequence (metadata_committed b) = b_metadata_sequence b + 1"
  "b_session_active (metadata_committed b) = b_session_active b" "b_received_length (metadata_committed b) = b_received_length b"
  "b_last_packet_length (metadata_committed b) = b_last_packet_length b"
  "b_result (metadata_committed b) = (if b_metadata_next_state b = ST_DOWNLOAD_READY then BOOT_SUCCESS else BOOT_IN_PROGRESS)"
  by (simp_all add: metadata_committed_def mounts_def)

lemma begin_starts_commit:
  assumes "upgrade_begin info mode b w = (BOOT_SUCCESS, b', w')" "buffers_ok b"
  shows "b_state b' = ST_METADATA_ERASE" "b_metadata_next_state b' = ST_DOWNLOAD_ERASE" "mounts b' = mounts b"
    "b_mode b' = mode" "b_upgrade_info b' = info" "b_metadata_sequence b' = b_metadata_sequence b"
    "b_session_active b'" "b_received_length b' = 0" "b_last_packet_length b' = 0" "mode \<le> MODE_STAGED"
proof -
  obtain w3 where c: "metadata_commit_start (if mode = MODE_STAGED then META_DOWNLOAD_STAGED else META_DOWNLOAD_DIRECT)
      ST_DOWNLOAD_ERASE (session_reset info mode b) w3 = (b', w')" and m: "mode \<le> MODE_STAGED"
    using assms(1) by (auto simp: upgrade_begin_def not_less split: if_splits prod.splits bool.splits)
  have f: "b_mode (session_reset info mode b) = mode" "b_config (session_reset info mode b) = b_config b"
    "b_upgrade_info (session_reset info mode b) = info" "b_metadata_sequence (session_reset info mode b) = b_metadata_sequence b"
    "b_session_active (session_reset info mode b)" "b_received_length (session_reset info mode b) = 0"
    "b_last_packet_length (session_reset info mode b) = 0"
    by (simp_all add: session_reset_def)
  note s = commit_start_erases [OF c _ _ download_states_valid, unfolded f]
  show "b_state b' = ST_METADATA_ERASE" "b_metadata_next_state b' = ST_DOWNLOAD_ERASE" "mounts b' = mounts b"
    "b_mode b' = mode" "b_upgrade_info b' = info" "b_metadata_sequence b' = b_metadata_sequence b"
    "b_session_active b'" "b_received_length b' = 0" "b_last_packet_length b' = 0"
    using s assms(2) m f by (simp_all add: buffers_ok_def mounts_session)
  show "mode \<le> MODE_STAGED" by (rule m)
qed

lemma erase_polls:
  assumes "prompt b" "b_state b = ST_DOWNLOAD_ERASE" "buffers_ok b" "b_mode b \<le> MODE_STAGED"
  shows "\<exists>b' w'. (poll ^^ 2) (b, w) = (b', w') \<and> b_state b' = ST_METADATA_ERASE \<and> b_metadata_next_state b' = ST_DOWNLOAD_READY
    \<and> mounts b' = mounts b \<and> b_mode b' = b_mode b \<and> b_upgrade_info b' = b_upgrade_info b
    \<and> b_metadata_sequence b' = b_metadata_sequence b \<and> b_session_active b' = b_session_active b
    \<and> b_received_length b' = b_received_length b \<and> b_last_packet_length b' = b_last_packet_length b"
proof -
  let ?b = "b\<lparr>b_state := ST_DOWNLOAD_ERASE_WAIT\<rparr>"
  obtain w1 where p1: "poll (b, w) = (?b, w1)" using poll_submit_commit(3) assms(1,2) by blast
  obtain b' w' where c: "metadata_commit_start (if b_mode b = MODE_STAGED then META_DOWNLOAD_STAGED else META_DOWNLOAD_DIRECT)
      ST_DOWNLOAD_READY ?b (answered ?b w1) = (b', w')" by fastforce
  have p2: "poll (?b, w1) = (b', w')"
    using poll_waiting [of ?b w1] assms(1) c by (simp add: waiting_def storage_completed_def)
  note s = commit_start_erases [OF c _ _ download_states_valid]
  have "mounts ?b = mounts b" by (rule mounts_update(1))
  then show ?thesis using s assms(3,4) p1 p2 by (simp add: buffers_ok_def eval_nat_numeral)
qed

lemma begin_polls:
  assumes "upgrade_begin info mode b w = (BOOT_SUCCESS, b1, w1)" "buffers_ok b" "prompt b"
  shows "\<exists>b' w'. (poll ^^ 10) (b1, w1) = (b', w') \<and> b_state b' = ST_DOWNLOAD_READY \<and> b_session_active b'
    \<and> b_received_length b' = 0 \<and> b_last_packet_length b' = 0 \<and> b_upgrade_info b' = info \<and> b_mode b' = mode \<and> b_result b' = BOOT_SUCCESS
    \<and> b_metadata_sequence b' = b_metadata_sequence b + 2 \<and> mounts b' = mounts b"
proof -
  note s = begin_starts_commit [OF assms(1,2)]
  obtain w2 where c1: "(poll ^^ 4) (b1, w1) = (metadata_committed b1, w2)"
    using commit_polls [of b1 w1] s(1,3) assms(3) prompt_mounts by blast
  obtain b3 w3 where c2: "(poll ^^ 2) (metadata_committed b1, w2) = (b3, w3)" "b_state b3 = ST_METADATA_ERASE"
      "b_metadata_next_state b3 = ST_DOWNLOAD_READY" "mounts b3 = mounts b" "b_mode b3 = mode" "b_upgrade_info b3 = info"
      "b_metadata_sequence b3 = b_metadata_sequence b + 1" "b_session_active b3" "b_received_length b3 = 0"
      "b_last_packet_length b3 = 0"
    using erase_polls [of "metadata_committed b1" w2] s assms(2,3) prompt_mounts buffers_mounts
    by (metis committed_fields(1-8))
  obtain w4 where c3: "(poll ^^ 4) (b3, w3) = (metadata_committed b3, w4)"
    using commit_polls [of b3 w3] c2(2,4) assms(3) prompt_mounts by blast
  have "(poll ^^ (4 + (2 + 4))) (b1, w1) = (metadata_committed b3, w4)"
    by (simp only: funpow_add comp_apply c1 c2(1) c3)
  then show ?thesis using c2 by (simp add: add.assoc)
qed

section \<open>Packets\<close>

text \<open>The state after an accepted packet.\<close>

definition packet_pending :: "u32 \<Rightarrow> u32 \<Rightarrow> 'x boot \<Rightarrow> 'x boot" where
  "packet_pending offset n b =
     b\<lparr>b_pending_packet_offset := offset, b_pending_packet_length := n, b_state := ST_PACKET_WRITE_WAIT,
       b_result := BOOT_IN_PROGRESS\<rparr>"

lemma packet_polls:
  assumes "prompt b" "packet_respecting b" "b_state b = ST_DOWNLOAD_READY" "b_session_active b"
    and "offset = b_received_length b" "n \<noteq> 0" "unat n \<le> PACKET_DATA_SIZE" "unat n \<le> length d"
    and "n \<le> ui_file_size (b_upgrade_info b) - b_received_length b"
    and "b_last_packet_length b = 0 \<or> offset \<noteq> b_last_packet_offset b"
  shows "\<exists>r w1 w2. bootloader_packet_submit (Some b) offset (Some d) n w = (BOOT_SUCCESS, Some (packet_pending offset n b), w1)
    \<and> poll (packet_pending offset n b, w1) = (packet_complete (packet_pending offset n b) w2, w2)
    \<and> take (unat n) (w_packet w2) = take (unat n) d
    \<and> w_log w2 = w_log w @ [Ev_Write (b_download_zone b) offset (take (unat n) d) r, Ev_Result BOOT_SUCCESS]
    \<and> accepted r"
proof -
  let ?w = "w\<lparr>w_packet := overwrite 0 (take (unat n) d) (w_packet w)\<rparr>" and ?b = "packet_pending offset n b"
  obtain r w1 where f: "flash_write (b_download_zone b) offset n Packet_Buffer b ?w = (r, w1)" by fastforce
  have acc: "accepted r" using prompt_accepts(2) [OF assms(1)] f by (metis fst_conv)
  have sub: "bootloader_packet_submit (Some b) offset (Some d) n w = (BOOT_SUCCESS, Some ?b, w1)"
    using assms(3-10) f acc by (auto simp: bootloader_packet_submit_def packet_pending_def accepted_def not_less)
  have m: "mounts ?b = mounts b" by (simp add: packet_pending_def mounts_def)
  have pr: "prompt ?b" using prompt_mounts [OF m] assms(1) by simp
  have pq: "packet_respecting ?b" using assms(2) m by (simp add: mounts_def packet_respecting_def)
  have l1: "w_log w1 = w_log w @ [Ev_Write (b_download_zone b) offset (take (unat n) (w_packet ?w)) r]"
    using flash_calls_log(2) [OF f] by (simp add: buffer_bytes_def)
  then have nr: "\<not> reading_packet (w_log w1)" by (simp add: packet_reading_step_def)
  have p1: "w_packet w1 = w_packet ?w"
    using flash_write_packet [OF f] assms(2) unfolding packet_respecting_def by simp
  have "poll (?b, w1) = storage_completed ?b (answered ?b w1)"
    by (rule poll_waiting [OF pr]) (simp add: waiting_def packet_pending_def)
  moreover have "storage_completed ?b w2 = (packet_complete ?b w2, w2)" for w2
    by (simp add: storage_completed_def packet_pending_def)
  moreover have "w_packet (answered ?b w1) = w_packet w1"
    by (rule answered_packet [OF pq nr])
  moreover have "take (unat n) (w_packet ?w) = take (unat n) d"
    using take_overwrite [of 0 "w_packet w" "take (unat n) d"] assms(8) by simp
  ultimately show ?thesis using sub acc answered_log [OF pr, of w1] unfolding l1 by (simp add: p1)
qed

end
