(* ===== verification/Boot_Props.thy ===== *)
theory Boot_Props
  imports Boot_Progress
begin

text \<open>
  The properties of the boot state machine (code/app/bootloader/core/bootloader_core.c): power-fail
  protection of the installed image, the checks before the jump, recovery at start-up, acceptance of
  a download and idempotent retransmission, each over every reachable state.
\<close>

section \<open>Reachable states\<close>

definition boot_reached :: "'x boot \<Rightarrow> 'x world \<Rightarrow> bool" where
  "boot_reached b w \<longleftrightarrow>
     (\<exists>b0 p_config p_ops w0 r b1 w1. w_log w0 = [] \<and> bootloader_init (Some b0) p_config p_ops w0 = (r, Some b1, w1)
        \<and> boot_step\<^sup>*\<^sup>* (b1, w1) (b, w))"

lemma mounts_run: "boot_step\<^sup>*\<^sup>* s t \<Longrightarrow> mounts (fst t) = mounts (fst s)"
  by (induction rule: rtranclp_induct) (simp_all add: mounts_step)

lemma reached_inv:
  assumes "boot_reached b w" "copy_respecting b"
  shows "boot_inv b w"
proof -
  obtain b0 p_config p_ops w0 r b1 w1 where i: "w_log w0 = []" "bootloader_init (Some b0) p_config p_ops w0 = (r, Some b1, w1)"
    and run: "boot_step\<^sup>*\<^sup>* (b1, w1) (b, w)"
    using assms(1) unfolding boot_reached_def by blast
  have "copy_respecting b1" using assms(2) copy_respecting_mounts mounts_run [OF run] by fastforce
  then show ?thesis using boot_run_inv [OF run init_inv [OF i(2,1)]] by simp
qed

lemma packet_respecting_mounts: "mounts b' = mounts b \<Longrightarrow> packet_respecting b' = packet_respecting b"
  by (simp add: mounts_def packet_respecting_def)

lemma crc_mounts: "mounts b' = mounts b \<Longrightarrow> crc_update b' = crc_update b"
  by (simp add: mounts_def crc_update_def)

lemma reached_download:
  assumes "boot_reached b w" "copy_respecting b" "packet_respecting b" "incremental_crc (crc_update b)"
  shows "download_ok b w"
proof -
  obtain b0 p_config p_ops w0 r b1 w1 where i: "w_log w0 = []" "bootloader_init (Some b0) p_config p_ops w0 = (r, Some b1, w1)"
    and run: "boot_step\<^sup>*\<^sup>* (b1, w1) (b, w)"
    using assms(1) unfolding boot_reached_def by blast
  have m: "mounts b1 = mounts b" using mounts_run [OF run] by simp
  have d: "download_ok b1 w1" using init_state(2) [OF i(2,1)] by (auto intro!: idle_ok simp: idle_phase_def)
  have "copy_respecting b1" "packet_respecting b1" "incremental_crc (crc_update b1)"
    using assms(2-4) copy_respecting_mounts [OF m] packet_respecting_mounts [OF m] crc_mounts [OF m] by simp_all
  then show ?thesis using download_run [OF run init_inv [OF i(2,1)]] d by blast
qed

section \<open>A sample platform\<close>

text \<open>A flash that is never busy and completes every operation, and two start-up reasons.\<close>

definition sample_flash :: "unit boot_flash_ops" where
  "sample_flash =
     \<lparr>o_zone_info_get = Some (\<lambda>w z. ((BOOT_SUCCESS, \<lparr>zi_size = 0x10000, zi_program_page_size = 256, zi_erase_block_size = 4096,
                                                  zi_readable = 1, zi_writable = 1, zi_erasable = 1\<rparr>), w)),
      o_read = Some (\<lambda>w z off len buf. (BOOT_IN_PROGRESS, w)), o_write = Some (\<lambda>w z off len buf. (BOOT_IN_PROGRESS, w)),
      o_erase = Some (\<lambda>w z off len. (BOOT_IN_PROGRESS, w)), o_is_busy = Some (\<lambda>w. (0, w)),
      o_result_get = Some (\<lambda>w. (BOOT_SUCCESS, w))\<rparr>"

definition sample_platform :: "boot_reason \<Rightarrow> unit boot_platform_ops" where
  "sample_platform reason =
     \<lparr>o_boot_reason_get = Some (\<lambda>w. (reason, w)),
      o_upgrade_info_get = Some (\<lambda>w. ((BOOT_SUCCESS, \<lparr>ui_module_id = 3, ui_file_size = 36, ui_version = 0x04030201, ui_update_type = 1\<rparr>), w)),
      o_boot_reason_clear = Some (\<lambda>w. (BOOT_SUCCESS, w)), o_image_header_is_valid = Some (\<lambda>w h n. ((BOOT_SUCCESS, 1), w)),
      o_jump_to_iap = Some (\<lambda>w. (BOOT_SUCCESS, w)), o_watchdog_kick = Some (\<lambda>w. w)\<rparr>"

definition sample_config :: boot_config where
  "sample_config =
     \<lparr>c_expected_module_id = 3, c_default_mode = MODE_DIRECT, c_image_header_length = 16, c_packet_buffer = True,
      c_packet_buffer_size = 1024, c_copy_buffer = True, c_copy_buffer_size = 84, c_crc16_init = Some crc16_init,
      c_crc16_update = Some (\<lambda>d c. foldl crc16_byte c d)\<rparr>"

definition sample_world :: "unit world" where
  "sample_world = \<lparr>w_packet = replicate 40 0, w_copy = replicate 84 0, w_platform = (), w_log = []\<rparr>"

definition sample_start :: "boot_reason \<Rightarrow> unit boot \<times> unit world" where
  "sample_start reason =
     (case bootloader_init (Some (boot_zeroed sample_flash)) (Some sample_config) (Some (sample_platform reason)) sample_world of
        (r, b, w) \<Rightarrow> (the b, w))"

definition sample_image :: "u8 list" where
  "sample_image = (let f = [0,0,0,0, 1, 1,2,3,4, 2,0,0,0, 0,0,0,0,0,0,0,0, 0,0,0,0,0,0,0,0, 3] in [0xAA, 0xBB] @ f @ u32_le (footer_crc32_calculate f))"

text \<open>The mounted CRC is the one of the wire protocol, computed without its table.\<close>

lemma sample_crc: "(\<lambda>d c. foldl crc16_byte c d) = section_crc16_with_crc"
  by (intro ext) (simp add: section_crc16_with_crc_def crc16_bytes)

definition sample_boot :: "boot_reason \<Rightarrow> unit boot" where
  "sample_boot reason =
     (boot_zeroed sample_flash)\<lparr>b_config := sample_config, b_platform_ops := sample_platform reason, b_mode := MODE_DIRECT,
       b_boot_reason := reason, b_startup_upgrade_info :=
         (if reason = REASON_IAP_REQUEST
          then \<lparr>ui_module_id = 3, ui_file_size = 36, ui_version = 0x04030201, ui_update_type = 1\<rparr>
          else b_startup_upgrade_info (boot_zeroed sample_flash)),
       b_startup_upgrade_info_valid := (reason = REASON_IAP_REQUEST), b_metadata_source_zone := ZONE_META_B,
       b_state := ST_META_A_READ, b_result := BOOT_SUCCESS\<rparr>"

lemma boot_sample_init:
  "bootloader_init (Some (boot_zeroed sample_flash)) (Some sample_config) (Some (sample_platform reason)) sample_world
    = (BOOT_SUCCESS, Some (sample_boot reason), sample_world)"
  by (simp add: bootloader_init_def Let_def boot_zeroed_def sample_flash_def sample_platform_def sample_config_def
      flash_ops_valid_def platform_ops_valid_def config_invalid_def sample_boot_def logged_def sample_world_def
      PACKET_DATA_SIZE_def METADATA_ENCODED_SIZE_def MODE_DIRECT_def MODE_STAGED_def)

lemma sample_start_eq: "sample_start reason = (sample_boot reason, sample_world)"
  by (simp add: sample_start_def boot_sample_init)

lemma sample_mounts: "mounts (sample_boot reason) = (sample_config, sample_flash, sample_platform reason)"
  by (simp add: mounts_def sample_boot_def boot_zeroed_def)

lemma sample_reached: "boot_step\<^sup>*\<^sup>* (sample_start reason) (b, w) \<Longrightarrow> boot_reached b w"
proof -
  assume "boot_step\<^sup>*\<^sup>* (sample_start reason) (b, w)"
  moreover note sample_start_eq [of reason]
  moreover have "w_log sample_world = []" by (simp add: sample_world_def)
  ultimately show ?thesis using boot_sample_init unfolding boot_reached_def by metis
qed

lemma sample_respecting:
  assumes "boot_step\<^sup>*\<^sup>* (sample_start reason) (b, w)"
  shows "copy_respecting b" "packet_respecting b" "incremental_crc (crc_update b)"
proof -
  have m: "mounts b = (sample_config, sample_flash, sample_platform reason)"
    using mounts_run [OF assms] by (simp add: sample_start_eq sample_mounts)
  show "copy_respecting b" "packet_respecting b"
    using m by (simp_all add: mounts_def copy_respecting_def packet_respecting_def quiet_def packet_quiet_def
        sample_flash_def sample_platform_def)
  have "crc_update b = section_crc16_with_crc"
    using m by (simp add: mounts_def crc_update_def sample_config_def sample_crc)
  then show "incremental_crc (crc_update b)" using comm_crc.incremental_crc_axioms by simp
qed

text \<open>The flash is prompt, and its calls change nothing but the log.\<close>

definition sampled :: "boot_reason \<Rightarrow> unit boot \<Rightarrow> bool" where
  "sampled reason b \<longleftrightarrow> mounts b = (sample_config, sample_flash, sample_platform reason)"

lemma sampled_start: "sampled reason (sample_boot reason)"
  by (simp add: sampled_def sample_mounts)

lemma sampled_update [simp]: "sampled reason (b\<lparr>b_state := s\<rparr>) = sampled reason b"
  by (simp add: sampled_def mounts_def)

lemma sampled_facts:
  assumes "sampled reason b"
  shows "prompt b" "buffers_ok b" "copy_respecting b" "packet_respecting b" "crc_update b = section_crc16_with_crc"
    "b_flash_ops b = sample_flash" "b_platform_ops b = sample_platform reason" "b_config b = sample_config"
  using assms
  by (simp_all add: sampled_def mounts_def prompt_def buffers_ok_def copy_respecting_def packet_respecting_def quiet_def
      packet_quiet_def accepted_def crc_update_def sample_crc sample_config_def METADATA_ENCODED_SIZE_def)
    (simp_all add: sample_flash_def sample_platform_def)

lemma sample_calls:
  assumes "sampled reason b"
  shows "flash_read z off len buf b w = (BOOT_IN_PROGRESS, w\<lparr>w_log := w_log w @ [Ev_Read z off len buf BOOT_IN_PROGRESS]\<rparr>)"
    "flash_is_busy b w = (0, w)" "kicked b w = w"
    "flash_zone_info_get z b w = ((BOOT_SUCCESS, \<lparr>zi_size = 0x10000, zi_program_page_size = 256, zi_erase_block_size = 4096,
                                    zi_readable = 1, zi_writable = 1, zi_erasable = 1\<rparr>), w)"
    "answered b w = w\<lparr>w_log := w_log w @ [Ev_Result BOOT_SUCCESS]\<rparr>"
  using sampled_facts(6,7) [OF assms]
  by (simp_all add: flash_read_def flash_is_busy_def flash_zone_info_get_def answered_def flash_result_get_def kicked_def logged_def)
    (simp_all add: sample_flash_def sample_platform_def)

lemma sample_metadata_reads:
  assumes "sampled reason b" "b_state b = ST_META_A_READ" "w_copy w = replicate 84 0"
  shows "\<exists>w'. (poll ^^ 4) (b, w) = startup_choose
    (b\<lparr>b_state := ST_META_B_WAIT, b_metadata_valid := False, b_metadata_source_zone := ZONE_META_B, b_metadata_sequence := 0\<rparr>) w'"
proof -
  note c = sample_calls [OF assms(1)] sample_calls [of reason "b\<lparr>b_state := s\<rparr>" for s, unfolded sampled_update, OF assms(1)]
  have p1: "poll (b, w) = (b\<lparr>b_state := ST_META_A_WAIT\<rparr>,
      w\<lparr>w_log := w_log w @ [Ev_Read ZONE_META_A 0 (of_nat METADATA_ENCODED_SIZE) (Copy_Buffer 0) BOOT_IN_PROGRESS]\<rparr>)"
    using assms(2) by (simp add: poll_process c state_process_def metadata_read_submit_def submitted_def)
  have p2: "poll (b\<lparr>b_state := ST_META_A_WAIT\<rparr>, u) = (b\<lparr>b_state := ST_META_B_READ\<rparr>, u\<lparr>w_log := w_log u @ [Ev_Result BOOT_SUCCESS]\<rparr>)" for u
    using poll_waiting [of "b\<lparr>b_state := ST_META_A_WAIT\<rparr>" u] sampled_facts(1) [OF assms(1)]
    by (simp add: waiting_def storage_completed_def c)
  have p3: "poll (b\<lparr>b_state := ST_META_B_READ\<rparr>, u) = (b\<lparr>b_state := ST_META_B_WAIT\<rparr>,
      u\<lparr>w_log := w_log u @ [Ev_Read ZONE_META_B 0 (of_nat METADATA_ENCODED_SIZE) (Copy_Buffer METADATA_ENCODED_SIZE) BOOT_IN_PROGRESS]\<rparr>)" for u
    by (simp add: poll_process c state_process_def metadata_read_submit_def submitted_def)
  have sel: "bootloader_metadata_select (Some (replicate 84 0)) (Some (replicate (84 - METADATA_ENCODED_SIZE) 0)) True
      = Inl BOOT_IMAGE_INVALID"
    by (simp add: bootloader_metadata_select_def bootloader_metadata_decode_def METADATA_ENCODED_SIZE_def le_u32_def
        METADATA_MAGIC_def Let_def)
  have p4: "poll (b\<lparr>b_state := ST_META_B_WAIT\<rparr>, u) = startup_choose
      (b\<lparr>b_state := ST_META_B_WAIT, b_metadata_valid := False, b_metadata_source_zone := ZONE_META_B, b_metadata_sequence := 0\<rparr>)
      (u\<lparr>w_log := w_log u @ [Ev_Result BOOT_SUCCESS]\<rparr>)" if "w_copy u = replicate 84 0" for u
    using poll_waiting [of "b\<lparr>b_state := ST_META_B_WAIT\<rparr>" u] sampled_facts(1) [OF assms(1)] that
    by (simp add: waiting_def storage_completed_def c metadata_startup_evaluate_def sel)
  show ?thesis using assms(3) by (simp add: eval_nat_numeral p1 p2 p3 p4) blast
qed

lemma sample_begin_state: "b_state (sample_boot reason) = ST_META_A_READ" "w_copy sample_world = replicate 84 0"
  by (simp_all add: sample_boot_def sample_world_def)

definition sample_info :: boot_upgrade_info where
  "sample_info = \<lparr>ui_module_id = 3, ui_file_size = 36, ui_version = 0x04030201, ui_update_type = 1\<rparr>"

lemma sample_begins:
  assumes "sampled reason b" "b_state b = ST_WAIT_UPGRADE"
  shows "\<exists>b' w'. upgrade_begin sample_info MODE_DIRECT b w = (BOOT_SUCCESS, b', w')"
proof -
  have "zone_requirements_check ZONE_IAP 36 b w = (BOOT_SUCCESS, w)"
    by (simp add: zone_requirements_check_def sample_calls [OF assms(1)])
  then show ?thesis
    using assms(2) sampled_facts(8) [OF assms(1)]
    by (simp add: upgrade_begin_def sample_calls [OF assms(1)] sample_info_def sample_config_def MODE_DIRECT_def MODE_STAGED_def
        split: prod.split)
qed

lemma sample_ready:
  "\<exists>b w. (poll ^^ 14) (sample_start REASON_IAP_REQUEST) = (b, w) \<and> b_state b = ST_DOWNLOAD_READY \<and> b_session_active b
    \<and> b_received_length b = 0 \<and> b_last_packet_length b = 0 \<and> b_upgrade_info b = sample_info
    \<and> sampled REASON_IAP_REQUEST b"
proof -
  let ?start = "sample_boot REASON_IAP_REQUEST"
  let ?b = "?start\<lparr>b_state := ST_META_B_WAIT, b_metadata_valid := False, b_metadata_source_zone := ZONE_META_B, b_metadata_sequence := 0\<rparr>"
  obtain w1 where p1: "(poll ^^ 4) (?start, sample_world) = startup_choose ?b w1"
    using sample_metadata_reads [OF sampled_start sample_begin_state] by blast
  let ?wait = "?b\<lparr>b_state := ST_WAIT_UPGRADE\<rparr>"
  have m: "sampled REASON_IAP_REQUEST ?wait" using sampled_start by (simp add: sampled_def mounts_def)
  obtain b2 w2 where u: "upgrade_begin sample_info MODE_DIRECT ?wait w1 = (BOOT_SUCCESS, b2, w2)"
    using sample_begins [OF m, of w1] by auto
  have "startup_choose ?b w1 = (b2, w2)"
    using u by (simp add: startup_choose_def Let_def sample_boot_def sample_config_def sample_info_def)
  moreover obtain b3 w3 where "(poll ^^ 10) (b2, w2) = (b3, w3)" "b_state b3 = ST_DOWNLOAD_READY" "b_session_active b3"
      "b_received_length b3 = 0" "b_last_packet_length b3 = 0" "b_upgrade_info b3 = sample_info" "mounts b3 = mounts ?wait"
    using begin_polls [OF u sampled_facts(2,1) [OF m]] by blast
  moreover from this have "(poll ^^ (10 + 4)) (sample_start REASON_IAP_REQUEST) = (b3, w3)"
    by (simp only: funpow_add comp_apply sample_start_eq p1 \<open>startup_choose ?b w1 = (b2, w2)\<close>)
  ultimately show ?thesis using m by (simp add: sampled_def)
qed

lemma sample_jump:
  "\<exists>b w log. (poll ^^ 7) (sample_start REASON_POWER_ON) = (b, w) \<and> w_log w = log @ [Ev_Clear BOOT_SUCCESS, Ev_Jump]"
proof -
  let ?start = "sample_boot REASON_POWER_ON"
  let ?b = "?start\<lparr>b_state := ST_META_B_WAIT, b_metadata_valid := False, b_metadata_source_zone := ZONE_META_B, b_metadata_sequence := 0\<rparr>"
  obtain w1 where p1: "(poll ^^ 4) (?start, sample_world) = startup_choose ?b w1"
    using sample_metadata_reads [OF sampled_start sample_begin_state] by blast
  define b1 where "b1 = ?b\<lparr>b_state := ST_STARTUP_READ, b_result := BOOT_SUCCESS\<rparr>"
  have p2: "startup_choose ?b w1 = (b1, w1)" by (simp add: startup_choose_def sample_boot_def b1_def)
  have m: "sampled REASON_POWER_ON b1" using sampled_start by (simp add: sampled_def mounts_def b1_def)
  have st: "b_state b1 = ST_STARTUP_READ" by (simp add: b1_def)
  define b2 where "b2 = b1\<lparr>b_state := ST_STARTUP_WAIT\<rparr>"
  have m2: "sampled REASON_POWER_ON b2" using m by (simp add: b2_def)
  obtain w2 where p3: "poll (b1, w1) = (b2, w2)"
    using st sampled_facts(8) [OF m]
    by (simp add: poll_process sample_calls [OF m] state_process_def startup_read_submit_def submitted_def b2_def sample_config_def)
  define b3 where "b3 = b2\<lparr>b_upgrade_info := (b_upgrade_info b2)\<lparr>ui_file_size := 0x10000\<rparr>, b_state := ST_JUMP_PENDING,
    b_result := BOOT_SUCCESS\<rparr>"
  have "ui_file_size (b_upgrade_info b2) = 0" "b_state b2 = ST_STARTUP_WAIT"
    by (simp_all add: b2_def b1_def sample_boot_def boot_zeroed_def)
  then obtain w3 where p4: "poll (b2, w2) = (b3, w3)"
    using poll_waiting [OF sampled_facts(1) [OF m2], of w2] sampled_facts(7) [OF m2]
    by (simp add: waiting_def storage_completed_def installed_header_evaluate_def sample_calls [OF m2] header_check_def Let_def b3_def)
      (simp add: sample_platform_def)
  have m3: "sampled REASON_POWER_ON b3" using m2 by (simp add: sampled_def mounts_def b3_def)
  have "b_state b3 = ST_JUMP_PENDING" "\<not> b_jump_called b3"
    by (simp_all add: b3_def b2_def b1_def sample_boot_def boot_zeroed_def)
  then obtain b4 w4 where p5: "poll (b3, w3) = (b4, w4)" "w_log w4 = w_log w3 @ [Ev_Clear BOOT_SUCCESS, Ev_Jump]"
    using sampled_facts(7) [OF m3]
    by (simp add: poll_process sample_calls [OF m3] state_process_def jump_pending_def Let_def logged_def sample_platform_def)
  have "(poll ^^ (3 + 4)) (sample_start REASON_POWER_ON) = (b4, w4)"
    by (simp only: funpow_add comp_apply sample_start_eq p1 p2) (simp add: eval_nat_numeral p3 p4 p5)
  then show ?thesis using p5(2) by auto
qed

lemma sample_polls_reached: "(poll ^^ n) (sample_start reason) = (b, w) \<Longrightarrow> boot_step\<^sup>*\<^sup>* (sample_start reason) (b, w)"
  using polls_run [of "sample_start reason" n] by simp

section \<open>Safety over every run\<close>

text \<open>C5: power-fail protection.  In every run, whatever the order of polls, commands and platform activity, no erase or
  write of the IAP zone is issued unless the last metadata record that was completely programmed and confirmed tells the
  next start-up that the image is being replaced.\<close>

theorem boot_iap_protected:
  assumes "boot_reached b w" "copy_respecting b"
  shows "protected (w_log w)"
  using reached_inv [OF assms] by (simp add: boot_inv_def log_ok_def)

theorem boot_iap_protected_witness:
  "\<exists>b w. (poll ^^ 14) (sample_start REASON_IAP_REQUEST) = (b, w) \<and> b_state b = ST_DOWNLOAD_READY \<and> protected (w_log w)"
proof -
  obtain b w where r: "(poll ^^ 14) (sample_start REASON_IAP_REQUEST) = (b, w)" "b_state b = ST_DOWNLOAD_READY"
    using sample_ready by blast
  note run = sample_polls_reached [OF r(1)]
  have "protected (w_log w)" by (rule boot_iap_protected [OF sample_reached [OF run] sample_respecting(1) [OF run]])
  then show ?thesis using r by blast
qed

text \<open>C6: in every run the jump into the image happens only directly after the boot reason has been cleared
  successfully, and only when the platform has found the image header valid with no erase or write of the IAP zone
  since.\<close>

theorem boot_jump_checked:
  assumes "boot_reached b w" "copy_respecting b"
  shows "jumps_checked (w_log w)"
  using reached_inv [OF assms] by (simp add: boot_inv_def log_ok_def)

theorem boot_jump_checked_witness:
  "\<exists>b w. (poll ^^ 7) (sample_start REASON_POWER_ON) = (b, w) \<and> Ev_Jump \<in> set (w_log w) \<and> jumps_checked (w_log w)"
proof -
  obtain b w log where r: "(poll ^^ 7) (sample_start REASON_POWER_ON) = (b, w)" "w_log w = log @ [Ev_Clear BOOT_SUCCESS, Ev_Jump]"
    using sample_jump by blast
  note run = sample_polls_reached [OF r(1)]
  have "jumps_checked (w_log w)" by (rule boot_jump_checked [OF sample_reached [OF run] sample_respecting(1) [OF run]])
  then show ?thesis using r by auto
qed

section \<open>Downloads\<close>

text \<open>C7: a download is accepted if and only if the bytes that were programmed into the erased download zone, contiguously
  and with confirmation, are as many as announced, have the announced CRC, and end with a footer that fits the
  announcement; otherwise the session is closed and the bootloader stays resident.\<close>

theorem boot_download_accepts:
  assumes "boot_reached b w" "copy_respecting b" "packet_respecting b" "incremental_crc (crc_update b)"
    and "b_state b = ST_DOWNLOAD_READY" "b_session_active b"
    and "bootloader_upgrade_end (Some b) expected_crc w = (r, Some b', w')"
  shows "r = (if length (fst (image (w_log w))) = unat (ui_file_size (b_upgrade_info b))
                \<and> crc_update b (fst (image (w_log w))) (crc_init b) = expected_crc
                \<and> footer_accepts (b_upgrade_info b) (last_bytes FOOTER_SIZE (fst (image (w_log w))))
              then BOOT_SUCCESS else BOOT_IMAGE_INVALID)
     \<and> (r = BOOT_IMAGE_INVALID \<longrightarrow> b_state b' = ST_WAIT_UPGRADE \<and> \<not> b_session_active b' \<and> w' = w)"
proof -
  let ?img = "fst (image (w_log w))"
  have t: "tracks b ?img" using reached_download [OF assms(1-4)] assms(5) by (simp add: download_ok_def)
  have len: "b_received_length b = ui_file_size (b_upgrade_info b) \<longleftrightarrow> length ?img = unat (ui_file_size (b_upgrade_info b))"
    using t by (simp add: tracks_def word_unat_eq_iff)
  have crc: "b_running_crc b = crc_update b ?img (crc_init b)"
    and ft: "footer_is_valid b \<longleftrightarrow> footer_accepts (b_upgrade_info b) (last_bytes FOOTER_SIZE ?img)"
    using t footer_is_valid_tracks by (auto simp: tracks_def)
  show ?thesis
    using assms(5-7) unfolding len [symmetric] ft [symmetric] crc [symmetric]
    by (auto simp: bootloader_upgrade_end_def Let_def resident_failure_def split: if_splits prod.splits)
qed

lemma upgrade_end_some: "\<exists>r b' w'. bootloader_upgrade_end (Some b) e w = (r, Some b', w')"
  by (auto simp: bootloader_upgrade_end_def Let_def split: prod.splits)

lemma sample_footer: "footer_accepts sample_info (last_bytes FOOTER_SIZE sample_image)"
  by (simp add: footer_accepts_def last_bytes_def sample_image_def sample_info_def FOOTER_SIZE_def Let_def)
    (simp add: le_u32_def)

lemma sample_received:
  "\<exists>b w. boot_step\<^sup>*\<^sup>* (sample_start REASON_IAP_REQUEST) (b, w) \<and> b_state b = ST_DOWNLOAD_READY \<and> b_session_active b
    \<and> fst (image (w_log w)) = sample_image \<and> b_upgrade_info b = sample_info"
proof -
  obtain b w where ready: "(poll ^^ 14) (sample_start REASON_IAP_REQUEST) = (b, w)" "b_state b = ST_DOWNLOAD_READY"
      "b_session_active b" "b_received_length b = 0" "b_last_packet_length b = 0" "b_upgrade_info b = sample_info"
      "sampled REASON_IAP_REQUEST b"
    using sample_ready by blast
  note run = sample_polls_reached [OF ready(1)]
  note resp = sample_respecting [OF run]
  have len: "length sample_image = 36" by (simp add: sample_image_def Let_def)
  have "b_received_length b = 0" "(36 :: u32) \<noteq> 0" "unat (36 :: u32) \<le> PACKET_DATA_SIZE" "unat (36 :: u32) \<le> length sample_image"
    "36 \<le> ui_file_size (b_upgrade_info b) - b_received_length b" "b_last_packet_length b = 0 \<or> 0 \<noteq> b_last_packet_offset b"
    using ready len by (simp_all add: PACKET_DATA_SIZE_def sample_info_def)
  from packet_polls [OF sampled_facts(1) [OF ready(7)] resp(2) ready(2,3) this(1) [symmetric] this(2-6)]
  obtain r w1 w2 where s: "bootloader_packet_submit (Some b) 0 (Some sample_image) 36 w = (BOOT_SUCCESS, Some (packet_pending 0 36 b), w1)"
      "poll (packet_pending 0 36 b, w1) = (packet_complete (packet_pending 0 36 b) w2, w2)"
      "w_log w2 = w_log w @ [Ev_Write (b_download_zone b) 0 (take (unat (36 :: u32)) sample_image) r, Ev_Result BOOT_SUCCESS]"
    by blast
  let ?b = "packet_complete (packet_pending 0 36 b) w2"
  have "boot_step (b, w) (packet_pending 0 36 b, w1)" by (rule bs_packet [OF _ s(1)]) (simp add: len)
  moreover have "boot_step (packet_pending 0 36 b, w1) (?b, w2)" using poll_step [of "(packet_pending 0 36 b, w1)"] s(2) by simp
  ultimately have run2: "boot_step\<^sup>*\<^sup>* (sample_start REASON_IAP_REQUEST) (?b, w2)" using run by (meson rtranclp.rtrancl_into_rtrancl)
  have "tracks b (fst (image (w_log w)))"
    using reached_download [OF sample_reached [OF run] resp] ready(2) by (simp add: download_ok_def)
  then have "fst (image (w_log w)) = []" using ready(4) by (simp add: tracks_def)
  moreover have "image_zone (b_download_zone b)"
    using reached_inv [OF sample_reached [OF run] resp(1)] ready(2)
    by (auto simp: boot_inv_def phase_ok_def session_ok_def image_zone_def split: if_splits)
  ultimately have "fst (image (w_log w2)) = sample_image"
    using image_snoc [of "w_log w @ [Ev_Write (b_download_zone b) 0 sample_image r]"] len
    by (simp add: s(3) image_step_def)
  moreover have "b_session_active ?b" "b_upgrade_info ?b = sample_info"
    using ready(3,6) by (simp_all add: packet_complete_def footer_tail_update_def packet_pending_def Let_def)
  ultimately show ?thesis using run2 by (intro exI [of _ ?b] exI [of _ w2]) simp
qed

theorem boot_download_accepts_witness:
  "\<exists>(b :: unit boot) w. boot_reached b w \<and> fst (image (w_log w)) = sample_image
    \<and> fst (bootloader_upgrade_end (Some b) (crc_update b sample_image (crc_init b)) w) = BOOT_SUCCESS"
proof -
  obtain b w where run: "boot_step\<^sup>*\<^sup>* (sample_start REASON_IAP_REQUEST) (b, w)" and st: "b_state b = ST_DOWNLOAD_READY"
      "b_session_active b" and img: "fst (image (w_log w)) = sample_image" "b_upgrade_info b = sample_info"
    using sample_received by blast
  obtain r b' w' where u: "bootloader_upgrade_end (Some b) (crc_update b sample_image (crc_init b)) w = (r, Some b', w')"
    using upgrade_end_some by blast
  have "length sample_image = 36" by (simp add: sample_image_def Let_def)
  then have "r = BOOT_SUCCESS"
    using boot_download_accepts [OF sample_reached [OF run] sample_respecting [OF run] st u] img sample_footer
    by (simp add: sample_info_def)
  then show ?thesis using u img sample_reached [OF run] by (intro exI [of _ b] exI [of _ w]) simp
qed

text \<open>C9: under a prompt flash driver an accepted upgrade command leads, after exactly ten polls (two redundant metadata
  commits and the erase of the download zone), to the state that takes packets, with an empty session of the announced
  image and the metadata sequence advanced by two.\<close>

theorem boot_begin_ready:
  assumes "bootloader_upgrade_begin (Some b) (Some info) mode w = (BOOT_SUCCESS, Some b1, w1)" "buffers_ok b" "prompt b"
  shows "\<exists>b' w'. (poll ^^ 10) (b1, w1) = (b', w') \<and> bootloader_is_download_ready (Some b') \<and> b_session_active b'
    \<and> b_received_length b' = 0 \<and> b_upgrade_info b' = info \<and> b_mode b' = mode \<and> b_result b' = BOOT_SUCCESS
    \<and> b_metadata_sequence b' = b_metadata_sequence b + 2"
proof -
  have "upgrade_begin info mode b w = (BOOT_SUCCESS, b1, w1)"
    using assms(1) by (simp add: bootloader_upgrade_begin_def split: prod.splits)
  from begin_polls [OF this assms(2,3)] show ?thesis by (auto simp: bootloader_is_download_ready_def)
qed

theorem boot_begin_ready_witness:
  "\<exists>b1 w1 b' w'. bootloader_upgrade_begin (Some (sample_boot REASON_RECOVERY\<lparr>b_state := ST_WAIT_UPGRADE\<rparr>)) (Some sample_info)
      MODE_DIRECT sample_world = (BOOT_SUCCESS, Some b1, w1) \<and> (poll ^^ 10) (b1, w1) = (b', w')
      \<and> bootloader_is_download_ready (Some b')"
proof -
  let ?b = "sample_boot REASON_RECOVERY\<lparr>b_state := ST_WAIT_UPGRADE\<rparr>"
  have m: "sampled REASON_RECOVERY ?b" using sampled_start by simp
  obtain b1 w1 where "upgrade_begin sample_info MODE_DIRECT ?b sample_world = (BOOT_SUCCESS, b1, w1)"
    using sample_begins [OF m, of sample_world] by auto
  then have "bootloader_upgrade_begin (Some ?b) (Some sample_info) MODE_DIRECT sample_world = (BOOT_SUCCESS, Some b1, w1)"
    by (simp add: bootloader_upgrade_begin_def)
  from this boot_begin_ready [OF this sampled_facts(2,1) [OF m]] show ?thesis by blast
qed

text \<open>C10: under a prompt driver the next packet of a session is accepted; by the next poll exactly its bytes have been
  written at its offset of the download zone, in one driver call that was accepted and reported done, and the session is
  ready for the packet behind it; sending the same packet again at that point, as a sender does when the acknowledgement
  was lost, is acknowledged again and changes neither the state nor the flash.\<close>

theorem boot_packet_idempotent:
  assumes "prompt b" "packet_respecting b" "b_state b = ST_DOWNLOAD_READY" "b_session_active b"
    and "offset = b_received_length b" "n \<noteq> 0" "unat n \<le> PACKET_DATA_SIZE" "unat n \<le> length d"
    and "n \<le> ui_file_size (b_upgrade_info b) - b_received_length b"
    and "b_last_packet_length b = 0 \<or> offset \<noteq> b_last_packet_offset b"
  shows "\<exists>b1 w1 b2 w2. bootloader_packet_submit (Some b) offset (Some d) n w = (BOOT_SUCCESS, Some b1, w1)
    \<and> poll (b1, w1) = (b2, w2) \<and> b_state b2 = ST_DOWNLOAD_READY \<and> b_received_length b2 = offset + n
    \<and> (\<exists>a. accepted a
         \<and> w_log w2 = w_log w @ [Ev_Write (b_download_zone b) offset (take (unat n) d) a, Ev_Result BOOT_SUCCESS])
    \<and> bootloader_packet_submit (Some b2) offset (Some d) n w2 = (BOOT_SUCCESS, Some b2, w2)"
proof -
  obtain r w1 w2 where s: "bootloader_packet_submit (Some b) offset (Some d) n w = (BOOT_SUCCESS, Some (packet_pending offset n b), w1)"
      "poll (packet_pending offset n b, w1) = (packet_complete (packet_pending offset n b) w2, w2)"
      "take (unat n) (w_packet w2) = take (unat n) d"
    and l: "accepted r"
      "w_log w2 = w_log w @ [Ev_Write (b_download_zone b) offset (take (unat n) d) r, Ev_Result BOOT_SUCCESS]"
    using packet_polls [OF assms] by blast
  let ?b = "packet_complete (packet_pending offset n b) w2"
  have f: "b_last_packet_offset ?b = offset" "b_last_packet_length ?b = n" "b_received_length ?b = b_received_length b + n"
    "b_session_active ?b = b_session_active b"
    by (simp_all add: packet_complete_def packet_pending_def footer_tail_update_def Let_def)
  have "bootloader_packet_submit (Some ?b) offset (Some d) n w2 = (BOOT_SUCCESS, Some ?b, w2)"
    using assms(4,6,7) f s(3) by (simp add: bootloader_packet_submit_def)
  then show ?thesis using s(1,2) f(3) assms(5) l
    by (intro exI [of _ "packet_pending offset n b"] exI [of _ w1] exI [of _ ?b] exI [of _ w2]) auto
qed

theorem boot_packet_idempotent_witness:
  "\<exists>(b :: unit boot) w b1 w1 b2 w2. boot_reached b w
    \<and> bootloader_packet_submit (Some b) 0 (Some sample_image) 36 w = (BOOT_SUCCESS, Some b1, w1) \<and> poll (b1, w1) = (b2, w2)
    \<and> b_received_length b2 = 36
    \<and> (\<exists>a. w_log w2 = w_log w @ [Ev_Write (b_download_zone b) 0 (take 36 sample_image) a, Ev_Result BOOT_SUCCESS])
    \<and> bootloader_packet_submit (Some b2) 0 (Some sample_image) 36 w2 = (BOOT_SUCCESS, Some b2, w2)"
proof -
  obtain b w where ready: "(poll ^^ 14) (sample_start REASON_IAP_REQUEST) = (b, w)" "b_state b = ST_DOWNLOAD_READY"
      "b_session_active b" "b_received_length b = 0" "b_last_packet_length b = 0" "b_upgrade_info b = sample_info"
      "sampled REASON_IAP_REQUEST b"
    using sample_ready by blast
  note run = sample_polls_reached [OF ready(1)]
  have "length sample_image = 36" by (simp add: sample_image_def Let_def)
  then have "0 = b_received_length b" "(36 :: u32) \<noteq> 0" "unat (36 :: u32) \<le> PACKET_DATA_SIZE" "unat (36 :: u32) \<le> length sample_image"
    "36 \<le> ui_file_size (b_upgrade_info b) - b_received_length b" "b_last_packet_length b = 0 \<or> 0 \<noteq> b_last_packet_offset b"
    using ready by (simp_all add: PACKET_DATA_SIZE_def sample_info_def)
  from boot_packet_idempotent [OF sampled_facts(1) [OF ready(7)] sample_respecting(2) [OF run] ready(2,3) this]
  show ?thesis using sample_reached [OF run] by fastforce
qed

section \<open>Start-up recovery\<close>

text \<open>C8: at start-up a record that says the image is being replaced never leads to the image: an interrupted staged
  installation is restarted from the first byte (with its retry counted) or, after three retries, given up; an
  interrupted download is given up unless the application has asked for a new one, and then a new session begins.\<close>

theorem boot_startup_recovers:
  assumes "bootloader_metadata_select (Some (w_copy w)) (Some (drop METADATA_ENCODED_SIZE (w_copy w))) True = Inr (m, source)"
    and "m_state m \<in> {META_DOWNLOAD_DIRECT, META_DOWNLOAD_STAGED, META_FAILED}
      \<or> m_state m \<in> {META_INSTALL_PENDING, META_COPYING} \<and> m_mode m = MODE_STAGED \<and> m_file_size m \<noteq> 0"
    and "buffers_ok b" "metadata_startup_evaluate b w = (b', w')"
  shows "if m_state m \<in> {META_INSTALL_PENDING, META_COPYING}
    then (if 3 \<le> m_retry_count m then b_state b' = ST_WAIT_UPGRADE \<and> b_result b' = BOOT_RECOVERY_REQUIRED
          else b_state b' = ST_METADATA_ERASE \<and> b_metadata_next_state b' = ST_COPY_ERASE \<and> b_copy_offset b' = 0
            \<and> b_metadata_retry_count b' = m_retry_count m + 1 \<and> b_metadata_state b' = META_COPYING)
    else b_state b' = ST_WAIT_UPGRADE
      \<or> b_boot_reason b = REASON_IAP_REQUEST \<and> b_startup_upgrade_info_valid b
        \<and> b_state b' = ST_METADATA_ERASE \<and> b_metadata_next_state b' = ST_DOWNLOAD_ERASE \<and> b_received_length b' = 0"
proof -
  note meta_states = META_DOWNLOAD_DIRECT_def META_DOWNLOAD_STAGED_def META_FAILED_def META_INSTALL_PENDING_def META_COPYING_def
  show ?thesis
  proof (cases "m_state m \<in> {META_INSTALL_PENDING, META_COPYING}")
    case True
    let ?b = "(metadata_load m source b)\<lparr>b_metadata_retry_count := m_retry_count m + 1, b_copy_offset := 0\<rparr>"
    have i: "m_mode m = MODE_STAGED" "m_file_size m \<noteq> 0" using assms(2) True by (auto simp: meta_states)
    show ?thesis
    proof (cases "3 \<le> m_retry_count m")
      case gave_up: True
      then show ?thesis using assms(1,4) True i by (auto simp: metadata_startup_evaluate_def Let_def resident_failure_def)
    next
      case False
      have rc: "b_metadata_retry_count (metadata_load m source b) = m_retry_count m" by (simp add: metadata_load_def)
      have c: "metadata_commit_start META_COPYING ST_COPY_ERASE ?b w = (b', w')"
        using assms(1,4) True False i by (auto simp: metadata_startup_evaluate_def Let_def rc)
      have "buffers_ok ?b" "b_mode ?b \<le> MODE_STAGED" using assms(3) i(1) by (simp_all add: metadata_load_def buffers_ok_def)
      moreover have "state_valid META_COPYING" by (simp add: state_valid_def meta_states)
      ultimately have "b_state b' = ST_METADATA_ERASE" "b_metadata_next_state b' = ST_COPY_ERASE" "b_copy_offset b' = 0"
          "b_metadata_retry_count b' = m_retry_count m + 1" "b_metadata_state b' = META_COPYING"
        using commit_start_erases [OF c] by (simp_all add: buffers_ok_def)
      then show ?thesis using True False by simp
    qed
  next
    case False
    then have d: "m_state m \<in> {META_DOWNLOAD_DIRECT, META_DOWNLOAD_STAGED, META_FAILED}" using assms(2) by blast
    let ?b = "metadata_load m source b"
    have f: "b_boot_reason ?b = b_boot_reason b" "b_startup_upgrade_info_valid ?b = b_startup_upgrade_info_valid b"
      by (simp_all add: metadata_load_def)
    consider "b' = resident_failure BOOT_RECOVERY_REQUIRED ?b"
      | "b_boot_reason b = REASON_IAP_REQUEST" "b_startup_upgrade_info_valid b" "startup_choose ?b w = (b', w')"
      using assms(1,4) False d by (auto simp: metadata_startup_evaluate_def Let_def f split: if_splits)
    then show ?thesis
    proof cases
      case 1
      then show ?thesis using False by simp
    next
      case 2
      let ?w = "?b\<lparr>b_state := ST_WAIT_UPGRADE\<rparr>"
      obtain r b2 w2 where u: "upgrade_begin (b_startup_upgrade_info ?b) (c_default_mode (b_config ?b)) ?w w = (r, b2, w2)"
        using prod_cases3 by blast
      have bw: "buffers_ok ?w" using assms(3) by (simp add: metadata_load_def buffers_ok_def)
      have e: "b' = (if r \<noteq> BOOT_SUCCESS then resident_failure r b2 else b2)"
        using 2 u by (auto simp: startup_choose_def Let_def f split: if_splits)
      show ?thesis
      proof (cases "r = BOOT_SUCCESS")
        case True
        then show ?thesis using begin_starts_commit [OF u [unfolded True] bw] e 2 False by simp
      next
        case False
        then show ?thesis using e \<open>m_state m \<notin> {META_INSTALL_PENDING, META_COPYING}\<close> by simp
      qed
    qed
  qed
qed

text \<open>The copy buffer after the two reads: an interrupted staged copy in the first slot, the second erased.\<close>

definition sample_record :: boot_metadata where
  "sample_record =
     \<lparr>m_state = META_COPYING, m_mode = MODE_STAGED, m_module_id = 3, m_retry_count = 2, m_sequence = 8, m_version = 1,
      m_file_size = 36, m_expected_crc = 0, m_received_length = 36, m_running_crc = 0, m_copy_offset = 16, m_error_code = 0\<rparr>"

lemma sample_record_selected:
  "bootloader_metadata_select (Some (metadata_record sample_record @ replicate 42 0xFF)) (Some (replicate 42 0xFF)) True
    = Inr (sample_record, ZONE_META_A)"
proof -
  have "metadata_ok sample_record"
    by (simp add: metadata_ok_def sample_record_def state_valid_def META_COPYING_def META_FAILED_def)
  then have "bootloader_metadata_decode (Some (metadata_record sample_record @ replicate 42 0xFF)) METADATA_ENCODED_SIZE True = Inr sample_record"
    by (rule decode_record)
  moreover have "bootloader_metadata_decode (Some (replicate 42 0xFF)) METADATA_ENCODED_SIZE True = Inl BOOT_IMAGE_INVALID"
    by (simp add: bootloader_metadata_decode_def METADATA_ENCODED_SIZE_def METADATA_MAGIC_def le_u32_def)
  ultimately show ?thesis by (simp add: bootloader_metadata_select_def Let_def)
qed

theorem boot_startup_recovers_witness:
  "let r = metadata_startup_evaluate (sample_boot REASON_POWER_ON)
             (sample_world\<lparr>w_copy := metadata_record sample_record @ replicate 42 0xFF\<rparr>)
   in b_metadata_next_state (fst r) = ST_COPY_ERASE \<and> b_metadata_retry_count (fst r) = 3"
proof -
  let ?w = "sample_world\<lparr>w_copy := metadata_record sample_record @ replicate 42 0xFF\<rparr>"
  obtain b' w' where r: "metadata_startup_evaluate (sample_boot REASON_POWER_ON) ?w = (b', w')" by fastforce
  have s: "bootloader_metadata_select (Some (w_copy ?w)) (Some (drop METADATA_ENCODED_SIZE (w_copy ?w))) True
      = Inr (sample_record, ZONE_META_A)"
    using sample_record_selected by (simp add: METADATA_ENCODED_SIZE_def)
  have m: "m_state sample_record = META_COPYING" "m_mode sample_record = MODE_STAGED" "m_file_size sample_record \<noteq> 0"
    "m_retry_count sample_record = 2"
    by (simp_all add: sample_record_def)
  have "b_metadata_next_state b' = ST_COPY_ERASE \<and> b_metadata_retry_count b' = 3"
    using boot_startup_recovers [OF s _ sampled_facts(2) [OF sampled_start] r] m by simp
  then show ?thesis by (simp add: r)
qed

end
