(* ===== verification/Boot_Protocol.thy ===== *)
theory Boot_Protocol
  imports Boot_Props Comm_Frame
begin

text \<open>
  code/app/bootloader/protocol/bootloader_protocol.c with bootloader_protocol_types.h: the upgrade
  commands 0x08 to 0x0B on frames.  The packed payload structures are byte lists at the published
  offsets; the bootloader a protocol instance points to is held in the instance, which is the only
  one that reaches it.
\<close>

section \<open>Wire constants\<close>

definition CMD_SET :: u8 where "CMD_SET = 0x01"
definition CMD_INFO :: u8 where "CMD_INFO = 0x08"
definition CMD_READY :: u8 where "CMD_READY = 0x09"
definition CMD_DATA :: u8 where "CMD_DATA = 0x0A"
definition CMD_END :: u8 where "CMD_END = 0x0B"

definition REJECT_OVERSIZE_MASK :: u16 where "REJECT_OVERSIZE_MASK = 0x0001"
definition REJECT_MODULE_MASK :: u16 where "REJECT_MODULE_MASK = 0x0004"

definition UPDATE_ACK_ALLOW :: u8 where "UPDATE_ACK_ALLOW = 1"
definition UPDATE_ACK_REJECT :: u8 where "UPDATE_ACK_REJECT = 2"

definition INFO_LENGTH :: nat where "INFO_LENGTH = 10"
definition INFO_ACK_LENGTH :: nat where "INFO_ACK_LENGTH = 3"
definition DATA_LENGTH :: nat where "DATA_LENGTH = 1033"
definition END_LENGTH :: nat where "END_LENGTH = 2"

text \<open>\<open>bootloader_protocol_info_request_t\<close> and \<open>bootloader_protocol_data_request_t\<close>, packed.\<close>

definition info_bytes :: "boot_upgrade_info \<Rightarrow> u8 list" where
  "info_bytes i = ui_module_id i # u32_le (ui_version i) @ u32_le (ui_file_size i) @ [ui_update_type i]"

definition data_fields :: "u32 \<Rightarrow> u8 \<Rightarrow> u16 \<Rightarrow> u8 list \<Rightarrow> u8 list" where
  "data_fields offset module_id data_length packet_data =
     u32_le offset @ [module_id] @ u16_le data_length @ packet_data"

section \<open>The handlers\<close>

record 'x boot_protocol =
  pr_bootloader :: "'x boot option"
  pr_crc16 :: "(u8 list \<Rightarrow> u16) option"
  pr_mode :: u8

text \<open>Result, instance, the acknowledgement buffer, its used length, and the world.\<close>

type_synonym 'x handled = "boot_result \<times> 'x boot_protocol \<times> u8 list \<times> nat \<times> 'x world"

definition info_request :: "u8 list \<Rightarrow> boot_upgrade_info" where
  "info_request p =
     \<lparr>ui_module_id = p ! 0, ui_file_size = le_u32 (drop 5 p), ui_version = le_u32 (drop 1 p), ui_update_type = p ! 9\<rparr>"

definition info_handle ::
  "'x boot_protocol \<Rightarrow> u8 list option \<Rightarrow> nat \<Rightarrow> u8 list \<Rightarrow> nat \<Rightarrow> 'x world \<Rightarrow> 'x handled" where
  "info_handle pr p_payload payload_length p_ack ack_capacity w =
     (if payload_length \<noteq> INFO_LENGTH \<or> p_payload = None \<or> ack_capacity < INFO_ACK_LENGTH
      then (BOOT_PROTOCOL_ERROR, pr, p_ack, 0, w)
      else
        (case bootloader_upgrade_begin (pr_bootloader pr) (Some (info_request (the p_payload))) (pr_mode pr) w of
           (result, b, w1) \<Rightarrow>
             let allow = (if result = BOOT_SUCCESS then UPDATE_ACK_ALLOW else UPDATE_ACK_REJECT);
                 reject = (if result = BOOT_OUT_OF_RANGE then REJECT_OVERSIZE_MASK
                           else if result = BOOT_INVALID_ARGUMENT then REJECT_MODULE_MASK else 0)
             in (result, pr\<lparr>pr_bootloader := b\<rparr>, overwrite 0 (allow # u16_le reject) p_ack, INFO_ACK_LENGTH, w1)))"

definition ready_handle :: "'x boot_protocol \<Rightarrow> nat \<Rightarrow> u8 list \<Rightarrow> nat \<Rightarrow> 'x world \<Rightarrow> 'x handled" where
  "ready_handle pr payload_length p_ack ack_capacity w =
     (if payload_length \<noteq> 0 \<or> ack_capacity < 1 then (BOOT_PROTOCOL_ERROR, pr, p_ack, 0, w)
      else (BOOT_SUCCESS, pr, overwrite 0 [if bootloader_is_download_ready (pr_bootloader pr) then 1 else 0] p_ack, 1, w))"

definition data_handle ::
  "'x boot_protocol \<Rightarrow> u8 list option \<Rightarrow> nat \<Rightarrow> u8 list \<Rightarrow> nat \<Rightarrow> 'x world \<Rightarrow> 'x handled" where
  "data_handle pr p_payload payload_length p_ack ack_capacity w =
     (if payload_length \<noteq> DATA_LENGTH \<or> p_payload = None \<or> ack_capacity < 1
      then (BOOT_PROTOCOL_ERROR, pr, p_ack, 0, w)
      else
        (let p = the p_payload; offset = le_u32 p; data_length = le_u16 (drop 5 p); packet_crc = le_u16 (drop 1031 p)
         in if p ! 4 \<noteq> c_expected_module_id (b_config (the (pr_bootloader pr))) \<or> data_length = 0
              \<or> unat data_length > PACKET_DATA_SIZE \<or> packet_crc \<noteq> the (pr_crc16 pr) (take 1031 p)
            then (BOOT_PROTOCOL_ERROR, pr, overwrite 0 [0] p_ack, 1, w)
            else
              (case bootloader_packet_submit (pr_bootloader pr) offset (Some (drop 7 p)) (ucast data_length) w of
                 (result, b, w1) \<Rightarrow>
                   (result, pr\<lparr>pr_bootloader := b\<rparr>, overwrite 0 [if result = BOOT_SUCCESS then 1 else 0] p_ack, 1, w1))))"

definition end_handle ::
  "'x boot_protocol \<Rightarrow> u8 list option \<Rightarrow> nat \<Rightarrow> u8 list \<Rightarrow> nat \<Rightarrow> 'x world \<Rightarrow> 'x handled" where
  "end_handle pr p_payload payload_length p_ack ack_capacity w =
     (if payload_length \<noteq> END_LENGTH \<or> p_payload = None \<or> ack_capacity < 1
      then (BOOT_PROTOCOL_ERROR, pr, p_ack, 0, w)
      else
        (case bootloader_upgrade_end (pr_bootloader pr) (le_u16 (the p_payload)) w of
           (result, b, w1) \<Rightarrow>
             (result, pr\<lparr>pr_bootloader := b\<rparr>, overwrite 0 [if result = BOOT_SUCCESS then 1 else 0] p_ack, 1, w1)))"

section \<open>The service\<close>

definition bootloader_protocol_init ::
  "'x boot_protocol option \<Rightarrow> 'x boot option \<Rightarrow> (u8 list \<Rightarrow> u16) option \<Rightarrow> u8 \<Rightarrow> boot_result \<times> 'x boot_protocol option" where
  "bootloader_protocol_init p_protocol p_bootloader p_crc16 upgrade_mode =
     (if p_protocol = None \<or> p_bootloader = None \<or> p_crc16 = None \<or> upgrade_mode > MODE_STAGED
      then (BOOT_INVALID_ARGUMENT, p_protocol)
      else (BOOT_SUCCESS, Some \<lparr>pr_bootloader = p_bootloader, pr_crc16 = p_crc16, pr_mode = upgrade_mode\<rparr>))"

text \<open>Mounting: the global \<open>p_protocol_active\<close> before and after.\<close>

definition bootloader_protocol_mount ::
  "'x boot_protocol option \<Rightarrow> 'x boot_protocol option \<Rightarrow> boot_result \<times> 'x boot_protocol option" where
  "bootloader_protocol_mount p_protocol active =
     (case p_protocol of
        None \<Rightarrow> (BOOT_CONFIG_ERROR, active)
      | Some pr \<Rightarrow> if pr_bootloader pr = None \<or> pr_crc16 pr = None then (BOOT_CONFIG_ERROR, active) else (BOOT_SUCCESS, Some pr))"

text \<open>\<open>p_ack\<close> and \<open>p_ack_length\<close> may be NULL; \<open>None\<close> is a length that was not written.\<close>

definition bootloader_protocol_handle ::
  "'x boot_protocol option \<Rightarrow> u8 \<Rightarrow> u8 list option \<Rightarrow> nat \<Rightarrow> u8 list option \<Rightarrow> nat \<Rightarrow> bool \<Rightarrow> 'x world
    \<Rightarrow> boot_result \<times> 'x boot_protocol option \<times> u8 list option \<times> nat option \<times> 'x world" where
  "bootloader_protocol_handle p_protocol cmd_word p_payload payload_length p_ack ack_capacity p_ack_length w =
     (case (p_protocol, p_ack) of
        (Some pr, Some ack) \<Rightarrow>
          if pr_bootloader pr = None \<or> pr_crc16 pr = None \<or> \<not> p_ack_length
          then (BOOT_INVALID_ARGUMENT, p_protocol, p_ack, None, w)
          else
            (case (if cmd_word = CMD_INFO then info_handle pr p_payload payload_length ack ack_capacity w
                   else if cmd_word = CMD_READY then ready_handle pr payload_length ack ack_capacity w
                   else if cmd_word = CMD_DATA then data_handle pr p_payload payload_length ack ack_capacity w
                   else if cmd_word = CMD_END then end_handle pr p_payload payload_length ack ack_capacity w
                   else (BOOT_PROTOCOL_ERROR, pr, ack, 0, w)) of
               (result, pr1, ack1, len, w1) \<Rightarrow> (result, Some pr1, Some ack1, Some len, w1))
      | _ \<Rightarrow> (BOOT_INVALID_ARGUMENT, p_protocol, p_ack, None, w))"

text \<open>The frame callbacks, which differ in the command word and the size of the acknowledgement structure.\<close>

definition ack_frame :: "packform \<Rightarrow> u8 \<Rightarrow> u8 list \<Rightarrow> nat \<Rightarrow> packform" where
  "ack_frame p cmd_word ack len =
     empty_pack\<lparr>pk_sop := pk_sop p, pk_version := pk_version p, pk_src := pk_dst p, pk_d_src := pk_d_dst p,
       pk_dst := pk_src p, pk_d_dst := pk_d_src p, pk_cmd_set := CMD_SET, pk_cmd_word := cmd_word, pk_is_ack := 1,
       pk_seq := pk_seq p, pk_len := len, pk_data := Bytes ack\<rparr>"

definition frame_payload :: "packform \<Rightarrow> u8 list option" where
  "frame_payload p = (case pk_data p of Bytes b \<Rightarrow> Some b | _ \<Rightarrow> None)"

definition update_act ::
  "u8 \<Rightarrow> nat \<Rightarrow> 64 word list option \<Rightarrow> packform option \<Rightarrow> my_printf option \<Rightarrow> 'x boot_protocol option \<Rightarrow> 'x world
    \<Rightarrow> event list \<times> 'x boot_protocol option \<times> 'x world" where
  "update_act cmd_word ack_size ready p_frame printf active w =
     (case (active, p_frame, printf) of
        (Some pr, Some p, Some _) \<Rightarrow>
          if pk_is_ack p = 1 then ([], active, w)
          else
            (case bootloader_protocol_handle active cmd_word (frame_payload p) (pk_len p)
                    (Some (replicate ack_size 0)) ack_size True w of
               (result, active1, ack, len, w1) \<Rightarrow>
                 if len = None \<or> len = Some 0 then ([], active1, w1)
                 else (fst (comm_send_data ready (Some (ack_frame p cmd_word (the ack) (the len))) printf), active1, w1))
      | _ \<Rightarrow> ([], active, w))"

definition update_info_act where "update_info_act = update_act CMD_INFO INFO_ACK_LENGTH"
definition update_ready_act where "update_ready_act = update_act CMD_READY 1"
definition update_fw_pack_act where "update_fw_pack_act = update_act CMD_DATA 1"
definition update_end_act where "update_end_act = update_act CMD_END 1"

definition bootloader_protocol_process :: "'x boot_protocol option \<Rightarrow> 'x world \<Rightarrow> 'x boot_protocol option \<times> 'x world" where
  "bootloader_protocol_process active w =
     (case active of
        None \<Rightarrow> (None, w)
      | Some pr \<Rightarrow>
          if pr_bootloader pr = None then (active, w)
          else (case bootloader_process (pr_bootloader pr) w of (b, w1) \<Rightarrow> (Some (pr\<lparr>pr_bootloader := b\<rparr>), w1)))"

section \<open>Requests read back\<close>

lemma le_u16_changes: "j < 2 \<Longrightarrow> t ! j \<noteq> v \<Longrightarrow> length t = 2 \<Longrightarrow> le_u16 (t[j := v]) \<noteq> le_u16 t"
  by (metis le_u16_byte length_list_update nth_list_update_eq)

lemma unat_u16_u32: "unat (ucast (n :: u16) :: u32) = unat n"
  by transfer (simp add: take_bit_int_eq_self_iff)

lemma info_request_bytes: "info_request (info_bytes i) = i"
  by (cases i) (simp add: info_request_def info_bytes_def nth_append)

lemma data_fields_parts:
  assumes "length d = 1024"
  shows "length (data_fields off m n d) = 1031" "le_u32 (data_fields off m n d @ r) = off" "(data_fields off m n d @ r) ! 4 = m"
    "le_u16 (drop 5 (data_fields off m n d @ r)) = n" "drop 7 (data_fields off m n d @ r) = d @ r"
    "drop 1031 (data_fields off m n d @ r) = r" "take 1031 (data_fields off m n d @ r) = data_fields off m n d"
proof -
  show "length (data_fields off m n d) = 1031" using assms by (simp add: data_fields_def)
  then show "drop 1031 (data_fields off m n d @ r) = r" "take 1031 (data_fields off m n d @ r) = data_fields off m n d" by simp_all
qed (use assms in \<open>simp_all add: data_fields_def nth_append\<close>)

section \<open>Properties\<close>

text \<open>C11: a data frame does what it says: a command 0x0A frame carrying an intact packet for this module is handed to the
  boot state machine with exactly its offset, length and bytes, and is answered by one frame to its sender that says
  whether the state machine took the packet.\<close>

theorem protocol_data_frame:
  assumes "pr_bootloader pr = Some b" "pr_crc16 pr = Some crc" "length d = 1024" "0 < n" "unat n \<le> PACKET_DATA_SIZE"
    and "pk_data p = Bytes (data_fields off (c_expected_module_id (b_config b)) n d
           @ u16_le (crc (data_fields off (c_expected_module_id (b_config b)) n d)))"
    and "pk_len p = DATA_LENGTH" "pk_is_ack p \<noteq> 1"
    and "bootloader_packet_submit (Some b) off (Some d) (ucast n) w = (r, b', w')"
  shows "update_fw_pack_act ready (Some p) (Some m) (Some pr) w
    = (fst (comm_send_data ready (Some (ack_frame p CMD_DATA [if r = BOOT_SUCCESS then 1 else 0] 1)) (Some m)),
       Some (pr\<lparr>pr_bootloader := b'\<rparr>), w')"
proof -
  let ?f = "data_fields off (c_expected_module_id (b_config b)) n d" and ?t = "u16_le (crc (data_fields off (c_expected_module_id (b_config b)) n d))"
  note parts = data_fields_parts [OF assms(3)]
  have "unat (ucast n :: u32) \<le> length d" using assms(3,5) by (simp add: PACKET_DATA_SIZE_def unat_u16_u32)
  then have "take (unat (ucast n :: u32)) (d @ ?t) = take (unat (ucast n :: u32)) d" by simp
  then have sub: "bootloader_packet_submit (Some b) off (Some (d @ ?t)) (ucast n) w = (r, b', w')"
    by (simp only: assms(9) [symmetric] bootloader_packet_submit_def option.case prod.case)
  obtain q where q: "q = ?f @ ?t" by simp
  note fields = parts(2-7) [where r = ?t and off = off and m = "c_expected_module_id (b_config b)" and n = n, folded q]
  have "n \<noteq> 0" using assms(4) by auto
  then have "data_handle pr (Some q) DATA_LENGTH [0] 1 w = (r, pr\<lparr>pr_bootloader := b'\<rparr>, [if r = BOOT_SUCCESS then 1 else 0], 1, w')"
    using assms(1,2,4,5) sub by (simp add: data_handle_def fields Let_def overwrite_def)
  then show ?thesis
    using assms(1,2,6-8) q
    by (simp add: update_fw_pack_act_def update_act_def bootloader_protocol_handle_def frame_payload_def
        CMD_DATA_def CMD_INFO_def CMD_READY_def)
qed

definition sample_pack :: packform where
  "sample_pack =
     (let f = data_fields 0 3 36 (replicate 1024 7)
      in empty_pack\<lparr>pk_src := 2, pk_dst := 1, pk_cmd_set := CMD_SET, pk_cmd_word := CMD_DATA, pk_len := DATA_LENGTH,
           pk_data := Bytes (f @ u16_le (section_crc16 f))\<rparr>)"

theorem protocol_data_frame_witness:
  "\<exists>b w b' w'. b_state b' = ST_PACKET_WRITE_WAIT \<and> (\<forall>m. update_fw_pack_act None (Some sample_pack) (Some m)
      (Some \<lparr>pr_bootloader = Some (b :: unit boot), pr_crc16 = Some section_crc16, pr_mode = MODE_DIRECT\<rparr>) w
    = (fst (comm_send_data None (Some (ack_frame sample_pack CMD_DATA [1] 1)) (Some m)),
       Some \<lparr>pr_bootloader = Some b', pr_crc16 = Some section_crc16, pr_mode = MODE_DIRECT\<rparr>, w'))"
proof -
  obtain b and w :: "unit world" where r: "b_state b = ST_DOWNLOAD_READY" "b_session_active b" "b_received_length b = 0"
      "b_last_packet_length b = 0" "b_upgrade_info b = sample_info" and s: "sampled REASON_IAP_REQUEST b"
    using sample_ready by blast
  have c: "c_expected_module_id (b_config b) = 3" using sampled_facts(8) [OF s] by (simp add: sample_config_def)
  obtain b' w' where "bootloader_packet_submit (Some b) 0 (Some (replicate 1024 7)) (ucast (36 :: u16)) w = (BOOT_SUCCESS, Some b', w')"
      "b_state b' = ST_PACKET_WRITE_WAIT"
    using r sampled_facts(6) [OF s]
    by (simp add: bootloader_packet_submit_def flash_write_def sample_flash_def PACKET_DATA_SIZE_def sample_info_def)
  then show ?thesis
    using protocol_data_frame [of "\<lparr>pr_bootloader = Some b, pr_crc16 = Some section_crc16, pr_mode = MODE_DIRECT\<rparr>" b section_crc16
        "replicate 1024 7" 36 sample_pack 0 w BOOT_SUCCESS "Some b'" w' None] c
    by (simp add: sample_pack_def PACKET_DATA_SIZE_def empty_pack_def Let_def) blast
qed

text \<open>C25: whatever single byte of a data request is damaged, header, padding and CRC included, the request is answered as
  invalid and neither the boot state machine nor the flash notices it.\<close>

theorem protocol_data_detects:
  assumes "pr_bootloader pr = Some b" "pr_crc16 pr = Some section_crc16" "length d = 1024"
    and "payload = data_fields off module n d @ u16_le (section_crc16 (data_fields off module n d))"
    and "i < DATA_LENGTH" "v \<noteq> payload ! i"
  shows "data_handle pr (Some (payload[i := v])) DATA_LENGTH p_ack 1 w = (BOOT_PROTOCOL_ERROR, pr, overwrite 0 [0] p_ack, 1, w)"
proof -
  let ?f = "data_fields off module n d" let ?t = "u16_le (section_crc16 ?f)"
  note parts = data_fields_parts [OF assms(3)]
  have len: "length payload = 1033" using parts(1) assms(4) by simp
  have "le_u16 (drop 1031 (payload[i := v])) \<noteq> section_crc16 (take 1031 (payload[i := v]))"
  proof (cases "i < 1031")
    case True
    have "section_crc16 (?f[i := v]) \<noteq> section_crc16 ?f"
      unfolding section_crc16_def crc16_final_def
      by (rule crc16_sum.one_byte) (use True assms(4,6) parts(1) in \<open>simp_all add: nth_append\<close>)
    then show ?thesis using True assms(4) parts(1) by (simp add: list_update_append)
  next
    case False
    then have "drop 1031 (payload[i := v]) = ?t[i - 1031 := v]" "take 1031 (payload[i := v]) = ?f" "?t ! (i - 1031) \<noteq> v" "i - 1031 < 2"
      using assms(4-6) parts(1) by (simp_all add: list_update_append nth_append DATA_LENGTH_def)
    then show ?thesis using le_u16_changes [of "i - 1031" ?t v] by simp
  qed
  then show ?thesis using assms(1,2) by (simp add: data_handle_def Let_def)
qed

theorem protocol_data_detects_witness:
  "data_handle \<lparr>pr_bootloader = Some (sample_boot REASON_POWER_ON), pr_crc16 = Some section_crc16, pr_mode = MODE_DIRECT\<rparr>
     (Some ((data_fields 0 3 36 (replicate 1024 7) @ u16_le (section_crc16 (data_fields 0 3 36 (replicate 1024 7))))[4 := 5]))
     DATA_LENGTH [9] 1 sample_world
   = (BOOT_PROTOCOL_ERROR, \<lparr>pr_bootloader = Some (sample_boot REASON_POWER_ON), pr_crc16 = Some section_crc16, pr_mode = MODE_DIRECT\<rparr>,
      overwrite 0 [0] [9], 1, sample_world)"
  by (rule protocol_data_detects [OF _ _ _ refl])
    (simp_all add: data_fields_parts(3) DATA_LENGTH_def del: append_assoc)

text \<open>A firmware that does not fit the application zone is refused, but the answer carries no reason: the oversize bit
  of the rejection mask is reserved for a result that the state machine does not produce for it.\<close>

theorem protocol_oversize_unreported:
  assumes "pr_bootloader pr = Some b" "b_state b = ST_WAIT_UPGRADE" "fst (flash_is_busy b w) \<noteq> 1"
    and "ui_module_id i = c_expected_module_id (b_config b)" "pr_mode pr \<le> MODE_STAGED"
    and "flash_zone_info_get ZONE_IAP b (snd (flash_is_busy b w)) = ((BOOT_SUCCESS, zone), w1)" "zi_size zone < ui_file_size i"
  shows "info_handle pr (Some (info_bytes i)) INFO_LENGTH p_ack INFO_ACK_LENGTH w
    = (BOOT_CONFIG_ERROR, pr, overwrite 0 [UPDATE_ACK_REJECT, 0, 0] p_ack, INFO_ACK_LENGTH, w1)"
proof -
  obtain y w0 where y: "flash_is_busy b w = (y, w0)" by fastforce
  have "zone_requirements_check ZONE_IAP (ui_file_size i) b w0 = (BOOT_CONFIG_ERROR, w1)"
    using assms(6,7) y by (simp add: zone_requirements_check_def)
  moreover have "ui_file_size i \<noteq> 0" using assms(7) by auto
  ultimately have "upgrade_begin i (pr_mode pr) b w = (BOOT_CONFIG_ERROR, b, w1)"
    using assms(2-5) y by (simp add: upgrade_begin_def)
  then show ?thesis
    using assms(1) by (cases pr) (simp add: info_handle_def bootloader_upgrade_begin_def info_request_bytes u16_le_def)
qed

theorem protocol_oversize_unreported_witness:
  "info_handle \<lparr>pr_bootloader = Some ((sample_boot REASON_POWER_ON)\<lparr>b_state := ST_WAIT_UPGRADE\<rparr>), pr_crc16 = Some section_crc16, pr_mode = MODE_DIRECT\<rparr>
     (Some (info_bytes (sample_info\<lparr>ui_file_size := 0x10001\<rparr>))) INFO_LENGTH [9, 9, 9] INFO_ACK_LENGTH sample_world
   = (BOOT_CONFIG_ERROR,
      \<lparr>pr_bootloader = Some ((sample_boot REASON_POWER_ON)\<lparr>b_state := ST_WAIT_UPGRADE\<rparr>), pr_crc16 = Some section_crc16, pr_mode = MODE_DIRECT\<rparr>,
      overwrite 0 [UPDATE_ACK_REJECT, 0, 0] [9, 9, 9], INFO_ACK_LENGTH, sample_world)"
proof -
  have s: "sampled REASON_POWER_ON ((sample_boot REASON_POWER_ON)\<lparr>b_state := ST_WAIT_UPGRADE\<rparr>)"
    using sampled_start by simp
  let ?b = "(sample_boot REASON_POWER_ON)\<lparr>b_state := ST_WAIT_UPGRADE\<rparr>"
  have "flash_zone_info_get ZONE_IAP ?b (snd (flash_is_busy ?b sample_world)) = ((BOOT_SUCCESS, \<lparr>zi_size = 0x10000,
      zi_program_page_size = 256, zi_erase_block_size = 4096, zi_readable = 1, zi_writable = 1, zi_erasable = 1\<rparr>), sample_world)"
    by (simp only: sample_calls [OF s] snd_conv)
  then show ?thesis
    by (rule protocol_oversize_unreported [rotated 5])
      (use sample_calls(2) [OF s] sampled_facts(8) [OF s] in \<open>simp_all add: sample_config_def sample_info_def MODE_DIRECT_def MODE_STAGED_def\<close>)
qed

end
