(* ===== verification/Iap_Update.thy ===== *)
theory Iap_Update
  imports Boot_Protocol
begin

text \<open>
  The hand-over of an upgrade request from the running application to the bootloader:
  code/app/bootloader/common/bootloader_update_request.h (the retained record),
  iap/iap_update_service.c (the application side) and the reader in
  platform/hc32f334/bootloader/hc32_boot_platform.c.  The retained record is the sixteen bytes of
  SRAM that survive a reset; a power failure or reset may cut the writer off inside a store.
\<close>

section \<open>The retained request\<close>

definition REQUEST_MAGIC :: u32 where "REQUEST_MAGIC = 0x42544C44"
definition REQUEST_SIZE :: nat where "REQUEST_SIZE = 16"

definition request_magic :: "u8 list \<Rightarrow> u32" where "request_magic m = le_u32 m"
definition request_info :: "u8 list \<Rightarrow> u8 list" where "request_info m = take INFO_LENGTH (drop 4 m)"
definition request_checksum :: "u8 list \<Rightarrow> u16" where "request_checksum m = le_u16 (drop 14 m)"

definition checksum_step :: "u16 \<Rightarrow> u8 \<Rightarrow> u16" where
  "checksum_step checksum b = (push_bit 5 checksum OR drop_bit 11 checksum) XOR ucast b"

definition update_request_checksum_calculate :: "u8 list option \<Rightarrow> u16" where
  "update_request_checksum_calculate p_info =
     (case p_info of None \<Rightarrow> 0 | Some info \<Rightarrow> foldl checksum_step 0xA55A (take INFO_LENGTH info))"

text \<open>The assignments of \<open>boot_request_set\<close>, in their order: offset and bytes.\<close>

definition boot_request_stores :: "u8 list \<Rightarrow> (nat \<times> u8 list) list" where
  "boot_request_stores info =
     [(0, u32_le 0), (4, info), (14, u16_le (update_request_checksum_calculate (Some info))), (0, u32_le REQUEST_MAGIC)]"

definition store :: "nat \<times> u8 list \<Rightarrow> u8 list \<Rightarrow> u8 list" where
  "store s m = overwrite (fst s) (snd s) m"

definition boot_request_set :: "u8 list \<Rightarrow> u8 list \<Rightarrow> u8 list" where
  "boot_request_set info m = fold store (boot_request_stores info) m"

text \<open>The reader: the returned flag and what is left behind the pointer.\<close>

definition boot_request_read :: "boot_upgrade_info option \<Rightarrow> u8 list \<Rightarrow> u8 \<times> boot_upgrade_info option" where
  "boot_request_read p_info m =
     (case p_info of
        None \<Rightarrow> (0, None)
      | Some info \<Rightarrow>
          if request_magic m \<noteq> REQUEST_MAGIC then (0, p_info)
          else if request_magic m \<noteq> REQUEST_MAGIC
            \<or> request_checksum m \<noteq> update_request_checksum_calculate (Some (request_info m))
          then (0, p_info)
          else (1, Some (info_request (request_info m))))"

section \<open>The application side\<close>

datatype prepare_result = PREPARE_READY | PREPARE_IN_PROGRESS | PREPARE_FAILED

definition RESET_DELAY_MS :: u32 where "RESET_DELAY_MS = 100"

record 's iap =
  u_upgrade_info :: "u8 list"
  u_reset_delay_ms :: u32
  u_transfer_pending :: bool
  u_prepare_ready :: bool
  u_reset_called :: bool
  u_boot_request :: "u8 list"
  u_app :: 's

text \<open>The weak \<open>iap_update_prepare\<close>, which an application replaces by its own.\<close>

definition iap_update_prepare :: "'s \<Rightarrow> u8 list \<Rightarrow> prepare_result \<times> 's" where
  "iap_update_prepare s info = (PREPARE_READY, s)"

definition iap_update_info_act ::
  "64 word list option \<Rightarrow> packform option \<Rightarrow> my_printf option \<Rightarrow> 's iap \<Rightarrow> event list \<times> 's iap" where
  "iap_update_info_act ready p_frame printf u =
     (case (p_frame, printf) of
        (Some p, Some _) \<Rightarrow>
          if pk_is_ack p = 1 then ([], u)
          else
            (let accepted = frame_payload p \<noteq> None \<and> pk_len p = INFO_LENGTH \<and> \<not> u_transfer_pending u;
                 u1 = (if accepted
                       then u\<lparr>u_upgrade_info := take INFO_LENGTH (the (frame_payload p)), u_reset_delay_ms := 0,
                              u_transfer_pending := True, u_prepare_ready := False, u_reset_called := False\<rparr>
                       else u);
                 ack = (if accepted then UPDATE_ACK_ALLOW else UPDATE_ACK_REJECT) # u16_le 0
             in (fst (comm_send_data ready (Some (ack_frame p CMD_INFO ack INFO_ACK_LENGTH)) printf), u1))
      | _ \<Rightarrow> ([], u))"

text \<open>The result says whether \<open>SYSTEM_RESET\<close> was executed.\<close>

definition iap_update_process :: "('s \<Rightarrow> u8 list \<Rightarrow> prepare_result \<times> 's) \<Rightarrow> 's iap \<Rightarrow> 's iap \<times> bool" where
  "iap_update_process prepare u =
     (if \<not> u_transfer_pending u \<or> u_reset_called u then (u, False)
      else
        (case (if u_prepare_ready u then (PREPARE_READY, u)
               else (case prepare (u_app u) (u_upgrade_info u) of (r, s) \<Rightarrow> (r, u\<lparr>u_app := s\<rparr>))) of
           (PREPARE_IN_PROGRESS, u1) \<Rightarrow> (u1, False)
         | (PREPARE_FAILED, u1) \<Rightarrow> (u1\<lparr>u_transfer_pending := False\<rparr>, False)
         | (PREPARE_READY, u1) \<Rightarrow>
             (let u2 = u1\<lparr>u_prepare_ready := True\<rparr>
              in if u_reset_delay_ms u2 < RESET_DELAY_MS
                 then (u2\<lparr>u_reset_delay_ms := u_reset_delay_ms u2 + 1\<rparr>, False)
                 else (u2\<lparr>u_boot_request := boot_request_set (u_upgrade_info u2) (u_boot_request u2),
                          u_reset_called := True\<rparr>, True))))"

text \<open>Successive calls of the task.\<close>

fun iap_run :: "('s \<Rightarrow> u8 list \<Rightarrow> prepare_result \<times> 's) \<Rightarrow> nat \<Rightarrow> 's iap \<Rightarrow> 's iap \<times> bool list" where
  "iap_run prepare 0 u = (u, [])"
| "iap_run prepare (Suc n) u =
     (case iap_update_process prepare u of (u1, r) \<Rightarrow>
        case iap_run prepare n u1 of (u2, rs) \<Rightarrow> (u2, r # rs))"

section \<open>The record written and read\<close>

lemma nth_overwrite:
  "i + length xs \<le> length m \<Longrightarrow> k < length m \<Longrightarrow>
    overwrite i xs m ! k = (if i \<le> k \<and> k < i + length xs then xs ! (k - i) else m ! k)"
  by (auto simp: overwrite_def nth_append)

lemma request_written:
  assumes "length m = REQUEST_SIZE" "length info = INFO_LENGTH"
  shows "boot_request_set info m = u32_le REQUEST_MAGIC @ info @ u16_le (update_request_checksum_calculate (Some info))"
  using assms
  by (simp add: boot_request_set_def boot_request_stores_def store_def overwrite_def REQUEST_SIZE_def INFO_LENGTH_def
      numeral_eq_Suc)

lemma request_fields:
  assumes "length info = INFO_LENGTH"
  shows "request_magic (u32_le v @ info @ u16_le c) = v" "request_info (u32_le v @ info @ u16_le c) = info"
    "request_checksum (u32_le v @ info @ u16_le c) = c"
  using assms by (simp_all add: request_magic_def request_info_def request_checksum_def INFO_LENGTH_def)

lemma length_info_bytes [simp]: "length (info_bytes i) = INFO_LENGTH"
  by (simp add: info_bytes_def INFO_LENGTH_def)

lemma request_read_back:
  assumes "length m = REQUEST_SIZE" "length info = INFO_LENGTH"
  shows "boot_request_read (Some j) (boot_request_set info m) = (1, Some (info_request info))"
  using request_fields [OF assms(2)] by (simp add: request_written [OF assms] boot_request_read_def)

section \<open>Damaged and interrupted requests\<close>

lemma magic_byte_nz: "k < 4 \<Longrightarrow> u32_le REQUEST_MAGIC ! k \<noteq> 0"
proof -
  assume "k < 4"
  moreover have "u32_le REQUEST_MAGIC = [0x44, 0x4C, 0x54, 0x42]" by (simp add: u32_le_def REQUEST_MAGIC_def)
  ultimately show ?thesis by (auto simp: nth_Cons' split: if_splits)
qed

lemma magic_bytes:
  assumes "request_magic m = REQUEST_MAGIC" "k < 4"
  shows "m ! k = u32_le REQUEST_MAGIC ! k"
proof -
  have "m ! k = ucast (drop_bit (8 * k) REQUEST_MAGIC)"
    using le_u32_byte [OF assms(2), of m] assms(1) by (simp add: request_magic_def)
  moreover have "u32_le REQUEST_MAGIC ! k = ucast (drop_bit (8 * k) (le_u32 (u32_le REQUEST_MAGIC)))"
    by (rule le_u32_byte [OF assms(2)])
  ultimately show ?thesis by simp
qed

lemma checksum_rotates: "checksum_step c b = word_rotl 5 c XOR ucast b"
proof -
  have "push_bit 5 c OR drop_bit 11 c = word_rotl 5 c"
  proof (rule bit_word_eqI)
    fix n assume "n < LENGTH(16)"
    then have "(n + 11) mod 16 = (if n < 5 then n + 11 else n - 5)" by (auto simp: mod_nat_eqI)
    then show "bit (push_bit 5 c OR drop_bit 11 c) n = bit (word_rotl 5 c) n"
      using \<open>n < LENGTH(16)\<close> bit_imp_le_length [of c "n + 11"] by (auto simp: bit_simps ac_simps)
  qed
  then show ?thesis by (simp add: checksum_step_def)
qed

text \<open>The rotation loses nothing, so the sum notices a damaged byte.\<close>

interpretation request_sum: detecting_sum checksum_step
proof unfold_locales
  fix c d :: u16 and b
  assume "checksum_step c b = checksum_step d b"
  then have "word_rotr 5 (word_rotl 5 c) = word_rotr 5 (word_rotl 5 d)" by (simp only: checksum_rotates xor_cancel_right)
  then show "c = d" by simp
next
  fix c :: u16 and a b
  assume "checksum_step c a = checksum_step c b"
  then have e: "(ucast a :: u16) = ucast b" by (simp only: checksum_rotates xor_cancel_left)
  show "a = b"
  proof (rule bit_word_eqI)
    fix n assume "n < LENGTH(8)"
    moreover have "bit (ucast a :: u16) n = bit (ucast b :: u16) n" by (simp only: e)
    ultimately show "bit a n = bit b n" by (simp add: bit_simps)
  qed
qed

text \<open>A store that stops half-way: only the bytes in \<open>done\<close> have reached the memory.\<close>

definition torn_store :: "nat set \<Rightarrow> nat \<times> u8 list \<Rightarrow> u8 list \<Rightarrow> u8 list" where
  "torn_store hits s m =
     map (\<lambda>k. if fst s \<le> k \<and> k < fst s + length (snd s) \<and> k - fst s \<in> hits then snd s ! (k - fst s) else m ! k)
       [0..<length m]"

text \<open>The memory when the writer is stopped in its \<open>n\<close>th assignment.\<close>

definition interrupted_set :: "u8 list \<Rightarrow> nat \<Rightarrow> nat set \<Rightarrow> u8 list \<Rightarrow> u8 list" where
  "interrupted_set info n hits m =
     torn_store hits (boot_request_stores info ! n) (fold store (take n (boot_request_stores info)) m)"

lemma length_torn [simp]: "length (torn_store hits s m) = length m"
  by (simp add: torn_store_def)

lemma nth_torn:
  "k < length m \<Longrightarrow> torn_store hits s m ! k
    = (if fst s \<le> k \<and> k < fst s + length (snd s) \<and> k - fst s \<in> hits then snd s ! (k - fst s) else m ! k)"
  by (simp add: torn_store_def)

lemma refused: "request_magic m \<noteq> REQUEST_MAGIC \<Longrightarrow> boot_request_read (Some j) m = (0, Some j)"
  by (simp add: boot_request_read_def)

lemma refused_byte: "k < 4 \<Longrightarrow> m ! k = 0 \<Longrightarrow> boot_request_read (Some j) m = (0, Some j)"
  using magic_bytes magic_byte_nz refused by metis

lemma length_store: "fst s + length (snd s) \<le> length m \<Longrightarrow> length (store s m) = length m"
  by (simp add: store_def length_overwrite)

lemma nth_store:
  "fst s + length (snd s) \<le> length m \<Longrightarrow> k < length m \<Longrightarrow>
    store s m ! k = (if fst s \<le> k \<and> k < fst s + length (snd s) then snd s ! (k - fst s) else m ! k)"
  by (simp add: store_def nth_overwrite)

text \<open>The first assignment clears the marker, the last one writes it.\<close>

lemma interrupted_first:
  assumes "length m = REQUEST_SIZE"
  shows "torn_store hits (0, u32_le 0) m = m \<or> boot_request_read (Some j) (torn_store hits (0, u32_le 0) m) = (0, Some j)"
proof (cases "\<exists>k < 4. k \<in> hits")
  case True
  then obtain k where k: "k < 4" "k \<in> hits" by blast
  then have "u32_le 0 ! k = 0" by (auto simp: u32_le_def nth_Cons')
  then have "torn_store hits (0, u32_le 0) m ! k = 0" using k assms by (simp add: nth_torn REQUEST_SIZE_def)
  then show ?thesis using refused_byte [OF k(1)] by blast
next
  case False
  then have "torn_store hits (0, u32_le 0) m = m" by (intro nth_equalityI) (auto simp: nth_torn)
  then show ?thesis by simp
qed

lemma interrupted_middle:
  assumes "length m = REQUEST_SIZE" "m ! 0 = 0" "0 < fst s"
  shows "boot_request_read (Some j) (torn_store hits s m) = (0, Some j)"
  using assms by (intro refused_byte [of 0]) (simp_all add: nth_torn REQUEST_SIZE_def)

lemma interrupted_last:
  assumes "length m = REQUEST_SIZE" "\<And>k. k < 4 \<Longrightarrow> m ! k = 0"
  shows "torn_store hits (0, u32_le REQUEST_MAGIC) m = store (0, u32_le REQUEST_MAGIC) m
    \<or> boot_request_read (Some j) (torn_store hits (0, u32_le REQUEST_MAGIC) m) = (0, Some j)"
proof (cases "\<forall>k < 4. k \<in> hits")
  case True
  then have "torn_store hits (0, u32_le REQUEST_MAGIC) m = store (0, u32_le REQUEST_MAGIC) m"
    using assms(1) by (intro nth_equalityI) (auto simp: nth_torn nth_store length_store REQUEST_SIZE_def)
  then show ?thesis by simp
next
  case False
  then obtain k where "k < 4" "k \<notin> hits" by blast
  then have "torn_store hits (0, u32_le REQUEST_MAGIC) m ! k = 0" using assms by (simp add: nth_torn REQUEST_SIZE_def)
  then show ?thesis using refused_byte [OF \<open>k < 4\<close>] by blast
qed

text \<open>C13: the bootloader never takes a half-written request.  Wherever the application is cut off, between two
  assignments or inside one with any subset of its bytes in memory, the bootloader finds no request, or nothing has been
  changed yet, or the request is complete.\<close>

theorem request_set_atomic:
  assumes "length m = REQUEST_SIZE" "length info = INFO_LENGTH" "n < length (boot_request_stores info)"
  shows "boot_request_read (Some j) (interrupted_set info n hits m) = (0, Some j)
    \<or> n = 0 \<and> interrupted_set info n hits m = m
    \<or> n = 3 \<and> interrupted_set info n hits m = boot_request_set info m"
proof -
  let ?s = "boot_request_stores info"
  let ?m1 = "store (?s ! 0) m" let ?m2 = "store (?s ! 1) ?m1" let ?m3 = "store (?s ! 2) ?m2"
  have l: "length ?m1 = REQUEST_SIZE" "length ?m2 = REQUEST_SIZE" "length ?m3 = REQUEST_SIZE"
    using assms(1,2) by (simp_all add: boot_request_stores_def length_store REQUEST_SIZE_def INFO_LENGTH_def)
  have z1: "?m1 ! k = 0" if "k < 4" for k
    using that assms(1) by (auto simp: boot_request_stores_def nth_store REQUEST_SIZE_def u32_le_def nth_Cons')
  have z3: "?m2 ! k = 0" "?m3 ! k = 0" if "k < 4" for k
    using that z1 [OF that] assms(1,2) l by (simp_all add: boot_request_stores_def nth_store length_store REQUEST_SIZE_def INFO_LENGTH_def)
  have all: "boot_request_set info m = store (0, u32_le REQUEST_MAGIC) ?m3"
    by (simp add: boot_request_set_def boot_request_stores_def)
  consider "n = 0" | "n = 1" | "n = 2" | "n = 3" using assms(3) by (fastforce simp: boot_request_stores_def)
  then show ?thesis
  proof cases
    case 1
    then show ?thesis
      using interrupted_first [OF assms(1), of hits j] by (auto simp: interrupted_set_def boot_request_stores_def)
  next
    case 2
    then have "interrupted_set info n hits m = torn_store hits (?s ! 1) ?m1"
      by (simp add: interrupted_set_def boot_request_stores_def)
    then show ?thesis using interrupted_middle [OF l(1) z1, of "?s ! 1" j hits] by (simp add: boot_request_stores_def)
  next
    case 3
    then have "interrupted_set info n hits m = torn_store hits (?s ! 2) ?m2"
      by (simp add: interrupted_set_def boot_request_stores_def)
    then show ?thesis using interrupted_middle [OF l(2) z3(1), of "?s ! 2" j hits] by (simp add: boot_request_stores_def)
  next
    case 4
    then have "interrupted_set info n hits m = torn_store hits (0, u32_le REQUEST_MAGIC) ?m3"
      by (simp add: interrupted_set_def boot_request_stores_def)
    then show ?thesis using interrupted_last [OF l(3) z3(2), of hits j] 4 all by auto
  qed
qed

definition sample_request :: "u8 list" where
  "sample_request = info_bytes \<lparr>ui_module_id = 3, ui_file_size = 36, ui_version = 0x04030201, ui_update_type = 1\<rparr>"

lemma length_sample_request: "length sample_request = INFO_LENGTH"
  by (simp add: sample_request_def)

theorem request_set_atomic_witness:
  "boot_request_read (Some sample_info) (interrupted_set sample_request 3 {0, 1, 3} (replicate 16 7)) = (0, Some sample_info)
    \<or> interrupted_set sample_request 3 {0, 1, 3} (replicate 16 7) = boot_request_set sample_request (replicate 16 7)"
  using request_set_atomic [OF _ length_sample_request, of "replicate 16 7" 3 sample_info "{0, 1, 3}"]
  by (simp add: REQUEST_SIZE_def boot_request_stores_def)

text \<open>C15: a request that is complete is read back as the command that was accepted, and damage to any one of its sixteen
  bytes makes the bootloader ignore it.\<close>

theorem request_read_checked:
  assumes "length m = REQUEST_SIZE" "length info = INFO_LENGTH"
  shows "boot_request_read (Some j) (boot_request_set info m) = (1, Some (info_request info))
    \<and> (\<forall>i < REQUEST_SIZE. \<forall>v. v \<noteq> boot_request_set info m ! i
          \<longrightarrow> boot_request_read (Some j) ((boot_request_set info m)[i := v]) = (0, Some j))"
proof (intro conjI allI impI)
  show "boot_request_read (Some j) (boot_request_set info m) = (1, Some (info_request info))"
    by (rule request_read_back [OF assms])
next
  fix i and v assume i: "i < REQUEST_SIZE" and v: "v \<noteq> boot_request_set info m ! i"
  let ?c = "update_request_checksum_calculate (Some info)"
  note w = request_written [OF assms]
  consider "i < 4" | "4 \<le> i" "i < 14" | "14 \<le> i" by linarith
  then show "boot_request_read (Some j) ((boot_request_set info m)[i := v]) = (0, Some j)"
  proof cases
    case 1
    then have "(boot_request_set info m)[i := v] ! i \<noteq> u32_le REQUEST_MAGIC ! i" using v assms by (simp add: w nth_append)
    then show ?thesis using magic_bytes [OF _ 1] refused by blast
  next
    case 2
    then have "i - 4 < length info" using assms(2) by (simp add: INFO_LENGTH_def)
    then have "(boot_request_set info m)[i := v] = u32_le REQUEST_MAGIC @ info[i - 4 := v] @ u16_le ?c"
      using 2 by (simp add: w list_update_append)
    moreover have "foldl checksum_step 0xA55A (info[i - 4 := v]) \<noteq> foldl checksum_step 0xA55A info"
      using 2 v \<open>i - 4 < length info\<close> by (intro request_sum.one_byte) (simp_all add: w nth_append)
    ultimately show ?thesis
      using assms(2) by (simp add: boot_request_read_def request_fields update_request_checksum_calculate_def)
  next
    case 3
    then have "\<not> i - 4 < 10" by linarith
    with 3 have "(boot_request_set info m)[i := v] = u32_le REQUEST_MAGIC @ info @ (u16_le ?c)[i - 14 := v]"
      using assms(2) by (simp add: w list_update_append INFO_LENGTH_def)
    moreover have "i - 14 < 2" "u16_le ?c ! (i - 14) \<noteq> v"
      using 3 i v \<open>\<not> i - 4 < 10\<close> assms(2) by (auto simp: w nth_append INFO_LENGTH_def REQUEST_SIZE_def)
    then have "le_u16 ((u16_le ?c)[i - 14 := v]) \<noteq> ?c" using le_u16_changes [of "i - 14" "u16_le ?c" v] by simp
    with calculation show ?thesis
      using assms(2) by (simp add: boot_request_read_def request_magic_def request_info_def request_checksum_def INFO_LENGTH_def)
  qed
qed

theorem request_read_checked_witness:
  "\<forall>j. boot_request_read (Some j) (boot_request_set sample_request (replicate 16 7)) = (1, Some (info_request sample_request))"
proof -
  have "length (replicate 16 (7 :: u8)) = REQUEST_SIZE" by (simp add: REQUEST_SIZE_def)
  from request_read_checked [OF this length_sample_request] show ?thesis by blast
qed

section \<open>The transfer\<close>

text \<open>The application states that the preparation goes through.\<close>

definition app_at :: "('s \<Rightarrow> u8 list \<Rightarrow> prepare_result \<times> 's) \<Rightarrow> u8 list \<Rightarrow> nat \<Rightarrow> 's \<Rightarrow> 's" where
  "app_at prepare info k = (\<lambda>s. snd (prepare s info)) ^^ k"

definition prepares_in :: "('s \<Rightarrow> u8 list \<Rightarrow> prepare_result \<times> 's) \<Rightarrow> u8 list \<Rightarrow> nat \<Rightarrow> 's \<Rightarrow> bool" where
  "prepares_in prepare info n s \<longleftrightarrow>
     (\<forall>k < n. fst (prepare (app_at prepare info k s) info) = PREPARE_IN_PROGRESS)
     \<and> fst (prepare (app_at prepare info n s) info) = PREPARE_READY"

lemma prepares_Suc:
  "prepares_in prepare info (Suc n) s \<longleftrightarrow>
    fst (prepare s info) = PREPARE_IN_PROGRESS \<and> prepares_in prepare info n (snd (prepare s info))"
proof -
  have "app_at prepare info (Suc k) s = app_at prepare info k (snd (prepare s info))" for k
    by (simp add: app_at_def funpow_Suc_right del: funpow.simps)
  moreover have "(\<forall>k < Suc n. P k) \<longleftrightarrow> P 0 \<and> (\<forall>k < n. P (Suc k))" for P
    by (metis Suc_less_eq less_Suc_eq_0_disj zero_less_Suc)
  ultimately show ?thesis by (auto simp: prepares_in_def) (auto simp: app_at_def)
qed

definition waiting_reset :: "u32 \<Rightarrow> 's iap \<Rightarrow> bool" where
  "waiting_reset d u \<longleftrightarrow> u_transfer_pending u \<and> \<not> u_reset_called u \<and> u_prepare_ready u \<and> u_reset_delay_ms u = d"

lemma run_append:
  "iap_run prepare (m + n) u = (case iap_run prepare m u of (u1, rs) \<Rightarrow> case iap_run prepare n u1 of (u2, rs') \<Rightarrow> (u2, rs @ rs'))"
  by (induction m arbitrary: u) (simp_all split: prod.split)

lemma prepare_run:
  assumes "prepares_in prepare (u_upgrade_info u) n (u_app u)" "u_transfer_pending u" "\<not> u_reset_called u" "\<not> u_prepare_ready u"
    "u_reset_delay_ms u = 0"
  shows "\<exists>u1. iap_run prepare (Suc n) u = (u1, replicate (Suc n) False) \<and> waiting_reset 1 u1
    \<and> u_upgrade_info u1 = u_upgrade_info u \<and> u_boot_request u1 = u_boot_request u"
  using assms
proof (induction n arbitrary: u)
  case 0
  obtain s where "prepare (u_app u) (u_upgrade_info u) = (PREPARE_READY, s)"
    using 0(1) by (cases "prepare (u_app u) (u_upgrade_info u)") (simp add: prepares_in_def app_at_def)
  then show ?case
    using 0 by (simp add: iap_update_process_def waiting_reset_def RESET_DELAY_MS_def Let_def)
next
  case (Suc n)
  obtain s where p: "prepare (u_app u) (u_upgrade_info u) = (PREPARE_IN_PROGRESS, s)" and n: "prepares_in prepare (u_upgrade_info u) n s"
    using Suc.prems(1) by (cases "prepare (u_app u) (u_upgrade_info u)") (simp add: prepares_Suc)
  have "iap_update_process prepare u = (u\<lparr>u_app := s\<rparr>, False)"
    using p Suc.prems by (simp add: iap_update_process_def)
  moreover obtain u1 where "iap_run prepare (Suc n) (u\<lparr>u_app := s\<rparr>) = (u1, replicate (Suc n) False)" "waiting_reset 1 u1"
      "u_upgrade_info u1 = u_upgrade_info u" "u_boot_request u1 = u_boot_request u"
    using Suc.IH [of "u\<lparr>u_app := s\<rparr>"] n Suc.prems by auto
  ultimately show ?case by (simp del: iap_run.simps add: iap_run.simps(2) [of prepare "Suc n" u])
qed

lemma delay_run:
  "waiting_reset d u \<Longrightarrow> unat d + k \<le> 100 \<Longrightarrow>
    \<exists>u1. iap_run prepare k u = (u1, replicate k False) \<and> waiting_reset (d + of_nat k) u1
      \<and> u_upgrade_info u1 = u_upgrade_info u \<and> u_boot_request u1 = u_boot_request u"
proof (induction k arbitrary: d u)
  case (Suc k)
  have "d < RESET_DELAY_MS" using Suc.prems(2) by (simp add: RESET_DELAY_MS_def word_less_nat_alt)
  then have p: "iap_update_process prepare u = (u\<lparr>u_prepare_ready := True, u_reset_delay_ms := d + 1\<rparr>, False)"
    and w: "waiting_reset (d + 1) (u\<lparr>u_prepare_ready := True, u_reset_delay_ms := d + 1\<rparr>)"
    using Suc.prems(1) by (simp_all add: waiting_reset_def iap_update_process_def Let_def)
  have "unat (d + 1) + k \<le> 100" using Suc.prems(2) by (simp add: unat_word_ariths)
  then show ?case using Suc.IH [OF w] by (auto simp: p ac_simps)
qed simp

text \<open>C12: an accepted upgrade command leads to the reset, and only after the answer has had its hundred milliseconds.  If
  the application's preparation is in progress for \<open>n\<close> calls and then ready, the task resets the processor at
  exactly its \<open>(n + 101)\<close>th call, not before, and the request the bootloader then finds is the accepted one.\<close>

theorem iap_update_hands_over:
  assumes "iap_update_info_act ready (Some p) (Some f) u = (evs, u1)"
    and "pk_is_ack p \<noteq> 1" "pk_len p = INFO_LENGTH" "pk_data p = Bytes payload" "length payload = INFO_LENGTH"
    and "\<not> u_transfer_pending u" "length (u_boot_request u) = REQUEST_SIZE" "prepares_in prepare payload n (u_app u)"
  shows "\<exists>u2. iap_run prepare (n + 101) u1 = (u2, replicate (n + 100) False @ [True])
    \<and> boot_request_read (Some j) (u_boot_request u2) = (1, Some (info_request payload))
    \<and> (\<forall>k. iap_run prepare k u2 = (u2, replicate k False))"
proof -
  have u1: "u1 = u\<lparr>u_upgrade_info := payload, u_reset_delay_ms := 0, u_transfer_pending := True, u_prepare_ready := False,
      u_reset_called := False\<rparr>"
    using assms(1-6) by (simp add: iap_update_info_act_def frame_payload_def Let_def)
  obtain u2 where u2: "iap_run prepare (Suc n) u1 = (u2, replicate (Suc n) False)" "waiting_reset 1 u2"
      "u_upgrade_info u2 = payload" "u_boot_request u2 = u_boot_request u"
    using prepare_run [of prepare u1 n] assms(8) by (auto simp: u1)
  obtain u3 where u3: "iap_run prepare 99 u2 = (u3, replicate 99 False)" "waiting_reset 100 u3"
      "u_upgrade_info u3 = payload" "u_boot_request u3 = u_boot_request u"
    using delay_run [OF u2(2), of 99 prepare] u2(3,4) by auto
  define u4 where "u4 = u3\<lparr>u_prepare_ready := True, u_boot_request := boot_request_set payload (u_boot_request u), u_reset_called := True\<rparr>"
  have p: "iap_update_process prepare u3 = (u4, True)"
    using u3(2-4) by (simp add: waiting_reset_def iap_update_process_def RESET_DELAY_MS_def Let_def u4_def)
  have "iap_run prepare (Suc n + (99 + 1)) u1 = (u4, replicate (Suc n) False @ replicate 99 False @ [True])"
    unfolding run_append by (simp only: u2(1) u3(1) prod.case) (simp add: p)
  moreover have "replicate (Suc n) False @ replicate 99 False @ [True] = replicate (n + 100) False @ [True]"
  proof -
    have "n + 100 = Suc n + 99" by simp
    then show ?thesis by (metis append_assoc replicate_add)
  qed
  moreover have "n + 101 = Suc n + (99 + 1)" by simp
  moreover have "iap_run prepare k u4 = (u4, replicate k False)" for k
    by (induction k) (simp_all add: iap_update_process_def u4_def)
  moreover have "boot_request_read (Some j) (u_boot_request u4) = (1, Some (info_request payload))"
    using request_read_back [OF assms(7,5)] by (simp add: u4_def)
  ultimately show ?thesis by metis
qed

definition sample_iap :: "unit iap" where
  "sample_iap =
     \<lparr>u_upgrade_info = replicate 10 0, u_reset_delay_ms = 0, u_transfer_pending = False, u_prepare_ready = False,
      u_reset_called = False, u_boot_request = replicate 16 7, u_app = ()\<rparr>"

definition sample_update_pack :: packform where
  "sample_update_pack =
     empty_pack\<lparr>pk_src := 2, pk_dst := 1, pk_cmd_set := CMD_SET, pk_cmd_word := CMD_INFO, pk_len := INFO_LENGTH,
       pk_data := Bytes sample_request\<rparr>"

theorem iap_update_hands_over_witness:
  "\<forall>f. \<exists>u2. iap_run iap_update_prepare 101 (snd (iap_update_info_act None (Some sample_update_pack) (Some f) sample_iap))
      = (u2, replicate 100 False @ [True])
    \<and> boot_request_read (Some sample_info) (u_boot_request u2) = (1, Some sample_info)"
proof
  fix f
  have "prepares_in iap_update_prepare sample_request 0 (u_app sample_iap)"
    by (simp add: prepares_in_def app_at_def iap_update_prepare_def)
  from iap_update_hands_over [OF prod.collapse [symmetric] _ _ _ length_sample_request _ _ this, where ready = None and p = sample_update_pack and f = f and j = sample_info]
  show "\<exists>u2. iap_run iap_update_prepare 101 (snd (iap_update_info_act None (Some sample_update_pack) (Some f) sample_iap))
      = (u2, replicate 100 False @ [True])
    \<and> boot_request_read (Some sample_info) (u_boot_request u2) = (1, Some sample_info)"
    by (simp add: sample_update_pack_def sample_iap_def empty_pack_def REQUEST_SIZE_def sample_request_def info_request_bytes
        sample_info_def) blast
qed

end
