(* ===== verification/Hc32_Flash.thy ===== *)
theory Hc32_Flash
  imports Fal_Core
begin

text \<open>
  platform/hc32f334/bsp/bsp_efm_flash.c: the internal flash of the HC32F334, memory mapped at
  address 0, behind the vendor's register library, and the state the board support package shares
  with the serial flash driver.  The vendor library is a parameter: each of its calls is a function
  on the hardware state \<open>'h\<close>, which gets and returns the memories it acts on.
\<close>

section \<open>Memories\<close>

definition bytes_at :: "(nat \<Rightarrow> u8) \<Rightarrow> nat \<Rightarrow> nat \<Rightarrow> u8 list" where
  "bytes_at m a n = map m [a..<a + n]"

definition put_bytes :: "nat \<Rightarrow> u8 list \<Rightarrow> (nat \<Rightarrow> u8) \<Rightarrow> nat \<Rightarrow> u8" where
  "put_bytes a bs m = (\<lambda>k. if a \<le> k \<and> k < a + length bs then bs ! (k - a) else m k)"

lemma length_bytes_at [simp]: "length (bytes_at m a n) = n"
  by (simp add: bytes_at_def)

lemma nth_bytes_at [simp]: "k < n \<Longrightarrow> bytes_at m a n ! k = m (a + k)"
  by (simp add: bytes_at_def)

lemma put_bytes_nil [simp]: "put_bytes a [] m = m"
  by (auto simp: put_bytes_def fun_eq_iff)

lemma put_bytes_append: "put_bytes (a + length xs) ys (put_bytes a xs m) = put_bytes a (xs @ ys) m"
  by (auto simp: put_bytes_def fun_eq_iff nth_append)

lemma bytes_at_split: "bytes_at m a (i + j) = bytes_at m a i @ bytes_at m (a + i) j"
  using upt_add_eq_append [of a "a + i" j] by (simp add: bytes_at_def add.assoc)

section \<open>The vendor library and the state of the package\<close>

datatype spi_event = Cs_Low | Cs_High | Spi_Tx "u8 list" | Spi_Rx nat "u8 list" | Dma_Tx nat nat | Dma_Rx nat nat

text \<open>A result is \<open>True\<close> for \<open>LL_OK\<close> or a flag that is set.\<close>

record 'h ll =
  ll_efm_setup :: "'h \<Rightarrow> 'h"
  ll_efm_range :: "u32 \<Rightarrow> u16 \<Rightarrow> 'h \<Rightarrow> 'h"
  ll_efm_program :: "u32 \<Rightarrow> u8 list \<Rightarrow> (nat \<Rightarrow> u8) \<Rightarrow> 'h \<Rightarrow> bool \<times> (nat \<Rightarrow> u8) \<times> 'h"
  ll_efm_erase :: "u32 \<Rightarrow> (nat \<Rightarrow> u8) \<Rightarrow> 'h \<Rightarrow> bool \<times> (nat \<Rightarrow> u8) \<times> 'h"
  ll_spi_setup :: "'h \<Rightarrow> bool \<times> 'h"
  ll_chip_select :: "bool \<Rightarrow> 'h \<Rightarrow> 'h"
  ll_spi_trans :: "u8 list \<Rightarrow> 'h \<Rightarrow> bool \<times> 'h"
  ll_spi_receive :: "nat \<Rightarrow> 'h \<Rightarrow> (bool \<times> u8 list) \<times> 'h"
  ll_spi_idle :: "'h \<Rightarrow> bool \<times> 'h"
  ll_dma_setup :: "nat option \<Rightarrow> nat option \<Rightarrow> u32 \<Rightarrow> 'h \<Rightarrow> bool \<times> 'h"
  ll_dma_start :: "'h \<Rightarrow> 'h"
  ll_dma_complete :: "(nat \<Rightarrow> u8) \<Rightarrow> 'h \<Rightarrow> bool \<times> (nat \<Rightarrow> u8) \<times> 'h"
  ll_dma_error :: "'h \<Rightarrow> bool \<times> 'h"
  ll_dma_stop :: "'h \<Rightarrow> 'h"

text \<open>RAM, the internal flash, the drivers' static variables, and the traffic on the SPI bus.\<close>

record 'h bsp =
  bs_ram :: "nat \<Rightarrow> u8"
  bs_efm :: "nat \<Rightarrow> u8"
  bs_efm_error :: bool
  bs_initialized :: bool
  bs_io_error :: bool
  bs_bus :: "spi_event list"
  bs_hw :: 'h

section \<open>The internal flash\<close>

datatype efm_result = EFM_SUCCESS | EFM_INVALID_ARGUMENT | EFM_OUT_OF_RANGE | EFM_IO_ERROR
datatype efm_state = EFM_READY | EFM_ERROR

definition EFM_CAPACITY :: u32 where "EFM_CAPACITY = 0x20000"
definition EFM_PROGRAM_SIZE :: u32 where "EFM_PROGRAM_SIZE = 4"
definition EFM_ERASE_SIZE :: u32 where "EFM_ERASE_SIZE = 0x1000"

definition efm_range_is_valid :: "u32 \<Rightarrow> u32 \<Rightarrow> bool" where
  "efm_range_is_valid address len \<longleftrightarrow> address \<le> EFM_CAPACITY \<and> len \<le> EFM_CAPACITY - address"

definition bsp_efm_flash_init :: "'h ll \<Rightarrow> 'h bsp \<Rightarrow> efm_result \<times> 'h bsp" where
  "bsp_efm_flash_init ll s = (EFM_SUCCESS, s\<lparr>bs_efm_error := False, bs_hw := ll_efm_setup ll (bs_hw s)\<rparr>)"

definition bsp_efm_flash_write_range_enable :: "'h ll \<Rightarrow> u32 \<Rightarrow> u32 \<Rightarrow> 'h bsp \<Rightarrow> efm_result \<times> 'h bsp" where
  "bsp_efm_flash_write_range_enable ll address len s =
     (if len = 0 \<or> address mod EFM_ERASE_SIZE \<noteq> 0 \<or> len mod EFM_ERASE_SIZE \<noteq> 0 \<or> \<not> efm_range_is_valid address len
      then (EFM_INVALID_ARGUMENT, s)
      else (EFM_SUCCESS, s\<lparr>bs_hw := ll_efm_range ll (address div EFM_ERASE_SIZE) (ucast (len div EFM_ERASE_SIZE)) (bs_hw s)\<rparr>))"

definition bsp_efm_flash_state_get :: "'h bsp \<Rightarrow> efm_state" where
  "bsp_efm_flash_state_get s = (if \<not> bs_efm_error s then EFM_READY else EFM_ERROR)"

definition bsp_efm_flash_read :: "u32 \<Rightarrow> u32 \<Rightarrow> nat option \<Rightarrow> 'h bsp \<Rightarrow> efm_result \<times> 'h bsp" where
  "bsp_efm_flash_read address len p_data s =
     (if len \<noteq> 0 \<and> p_data = None then (EFM_INVALID_ARGUMENT, s)
      else if \<not> efm_range_is_valid address len then (EFM_OUT_OF_RANGE, s)
      else if len \<noteq> 0
      then (EFM_SUCCESS, s\<lparr>bs_ram := put_bytes (the p_data) (bytes_at (bs_efm s) (unat address) (unat len)) (bs_ram s)\<rparr>)
      else (EFM_SUCCESS, s))"

text \<open>The words an unaligned range touches are read, patched and programmed again.\<close>

definition efm_word_at :: "u32 \<Rightarrow> u32" where
  "efm_word_at a = a AND NOT (EFM_PROGRAM_SIZE - 1)"

definition efm_copy_length :: "u32 \<Rightarrow> u32 \<Rightarrow> u32 \<Rightarrow> u32" where
  "efm_copy_length address len source_offset =
     (let byte_offset = (address + source_offset) - efm_word_at (address + source_offset);
          copy_length = EFM_PROGRAM_SIZE - byte_offset
      in if copy_length > len - source_offset then len - source_offset else copy_length)"

definition efm_program_word :: "'h ll \<Rightarrow> u32 \<Rightarrow> u8 list \<Rightarrow> 'h bsp \<Rightarrow> bool \<times> 'h bsp" where
  "efm_program_word ll a data s =
     (let program_address = efm_word_at a;
          word = put_bytes (unat (a - program_address)) data ((!) (bytes_at (bs_efm s) (unat program_address) (unat EFM_PROGRAM_SIZE)))
      in case ll_efm_program ll program_address (map word [0..<unat EFM_PROGRAM_SIZE]) (bs_efm s) (bs_hw s) of
           (ok, efm, h) \<Rightarrow> (ok, s\<lparr>bs_efm := efm, bs_hw := h\<rparr>))"

lemma efm_word_mask: "efm_word_at a = push_bit 2 (drop_bit 2 a)"
proof -
  have "efm_word_at a = a AND NOT (mask 2)" by (simp add: efm_word_at_def EFM_PROGRAM_SIZE_def mask_eq_decr_exp)
  also have "\<dots> = push_bit 2 (drop_bit 2 a)"
  proof (rule bit_word_eqI)
    fix n assume "n < LENGTH(32)"
    moreover have "2 \<le> n \<Longrightarrow> Suc (Suc (n - 2)) = n" by simp
    ultimately show "bit (a AND NOT (mask 2)) n = bit (push_bit 2 (drop_bit 2 a)) n" by (auto simp: bit_simps not_less)
  qed
  finally show ?thesis .
qed

lemma efm_word_split: "efm_word_at a + a mod 4 = a"
  using bits_ident [of 2 a] by (simp add: efm_word_mask take_bit_eq_mod)

lemma efm_byte_offset: "a - efm_word_at a = a mod 4"
  by (metis efm_word_split add_diff_cancel_left')

lemma unat_mod4: "unat (a mod 4 :: u32) < 4"
  by (simp add: unat_mod)

lemma copy_length_bounds:
  assumes "source_offset < len"
  shows "0 < unat (efm_copy_length address len source_offset)"
    "unat source_offset + unat (efm_copy_length address len source_offset) \<le> unat len"
    "unat ((address + source_offset) mod 4) + unat (efm_copy_length address len source_offset) \<le> 4"
proof -
  let ?m = "(address + source_offset) mod 4"
  have m: "unat (4 - ?m) = 4 - unat ?m"
    using unat_mod4 [of "address + source_offset"] by (subst unat_sub) (simp_all add: word_le_nat_alt)
  have d: "unat (len - source_offset) = unat len - unat source_offset"
    using assms by (subst unat_sub) (simp_all add: word_less_nat_alt word_le_nat_alt)
  have c: "unat (efm_copy_length address len source_offset) = min (4 - unat ?m) (unat len - unat source_offset)"
    using m d by (simp add: efm_copy_length_def EFM_PROGRAM_SIZE_def efm_byte_offset Let_def word_less_nat_alt min_def)
  show "0 < unat (efm_copy_length address len source_offset)"
    "unat source_offset + unat (efm_copy_length address len source_offset) \<le> unat len"
    "unat ?m + unat (efm_copy_length address len source_offset) \<le> 4"
    using assms unat_mod4 [of "address + source_offset"] by (auto simp: c word_less_nat_alt)
qed

lemma copy_length_advances:
  assumes "source_offset < len"
  shows "unat (source_offset + efm_copy_length address len source_offset)
    = unat source_offset + unat (efm_copy_length address len source_offset)"
  using copy_length_bounds(2) [OF assms, of address] unat_u32_less [of len] by (simp add: unat_word_ariths)

function efm_program_loop :: "'h ll \<Rightarrow> u32 \<Rightarrow> u32 \<Rightarrow> nat \<Rightarrow> u32 \<Rightarrow> 'h bsp \<Rightarrow> efm_result \<times> 'h bsp" where
  "efm_program_loop ll address len p_data source_offset s =
     (if source_offset < len then
        (let copy_length = efm_copy_length address len source_offset
         in case efm_program_word ll (address + source_offset)
                   (bytes_at (bs_ram s) (p_data + unat source_offset) (unat copy_length)) s of
              (ok, s1) \<Rightarrow>
                if \<not> ok then (EFM_IO_ERROR, s1\<lparr>bs_efm_error := True\<rparr>)
                else efm_program_loop ll address len p_data (source_offset + copy_length) s1)
      else (EFM_SUCCESS, s))"
  by pat_completeness auto
termination
proof (relation "measure (\<lambda>(ll, address, len, p_data, source_offset, s). unat len - unat source_offset)", simp, clarsimp)
  fix address len source_offset :: u32
  assume "source_offset < len"
  then show "unat len - unat (source_offset + efm_copy_length address len source_offset) < unat len - unat source_offset"
    using copy_length_bounds(1,2) [of source_offset len address] copy_length_advances [of source_offset len address]
    by (simp add: word_less_nat_alt)
qed

declare efm_program_loop.simps [simp del]

definition bsp_efm_flash_program :: "'h ll \<Rightarrow> u32 \<Rightarrow> u32 \<Rightarrow> nat option \<Rightarrow> 'h bsp \<Rightarrow> efm_result \<times> 'h bsp" where
  "bsp_efm_flash_program ll address len p_data s =
     (case p_data of
        None \<Rightarrow> (EFM_INVALID_ARGUMENT, s)
      | Some p \<Rightarrow>
          if len = 0 then (EFM_INVALID_ARGUMENT, s)
          else if \<not> efm_range_is_valid address len then (EFM_OUT_OF_RANGE, s)
          else efm_program_loop ll address len p 0 s)"

definition bsp_efm_flash_erase :: "'h ll \<Rightarrow> u32 \<Rightarrow> u32 \<Rightarrow> 'h bsp \<Rightarrow> efm_result \<times> 'h bsp" where
  "bsp_efm_flash_erase ll address len s =
     (if EFM_ERASE_SIZE \<noteq> len \<or> address mod EFM_ERASE_SIZE \<noteq> 0 then (EFM_INVALID_ARGUMENT, s)
      else if \<not> efm_range_is_valid address len then (EFM_OUT_OF_RANGE, s)
      else
        (case ll_efm_erase ll address (bs_efm s) (bs_hw s) of
           (ok, efm, h) \<Rightarrow>
             let s1 = s\<lparr>bs_efm := efm, bs_hw := h\<rparr>
             in if ok then (EFM_SUCCESS, s1) else (EFM_IO_ERROR, s1\<lparr>bs_efm_error := True\<rparr>)))"

section \<open>What a successful program leaves behind\<close>

text \<open>The documented contract of the vendor's calls: the program call reads back what it wrote, the sector erase clears
  the sector, and neither touches another byte.\<close>

definition efm_honest :: "'h ll \<Rightarrow> bool" where
  "efm_honest ll \<longleftrightarrow>
     (\<forall>a bs f h f' h'. ll_efm_program ll a bs f h = (True, f', h') \<longrightarrow> f' = put_bytes (unat a) bs f)
     \<and> (\<forall>a f h f' h'. ll_efm_erase ll a f h = (True, f', h') \<longrightarrow>
          f' = put_bytes (unat a - unat a mod unat EFM_ERASE_SIZE) (replicate (unat EFM_ERASE_SIZE) 0xFF) f)"

lemma unat_word_at: "unat (efm_word_at a) = unat a - unat a mod 4"
proof -
  have "efm_word_at a = a - a mod 4" by (metis efm_word_split add_diff_cancel_right')
  moreover have "a mod 4 \<le> a" by (simp add: word_le_nat_alt unat_mod)
  ultimately show ?thesis by (simp add: unat_sub unat_mod)
qed

text \<open>One word programmed is the patched bytes written in place.\<close>

lemma program_word_writes:
  assumes "efm_honest ll" "efm_program_word ll a data s = (True, s')" "unat (a mod 4) + length data \<le> 4"
  shows "s' = s\<lparr>bs_efm := put_bytes (unat a) data (bs_efm s), bs_hw := bs_hw s'\<rparr>"
proof -
  let ?w = "efm_word_at a"
  let ?word = "put_bytes (unat (a mod 4)) data ((!) (bytes_at (bs_efm s) (unat ?w) 4))"
  obtain f h where c: "ll_efm_program ll ?w (map ?word [0..<4]) (bs_efm s) (bs_hw s) = (True, f, h)"
    "s' = s\<lparr>bs_efm := f, bs_hw := h\<rparr>"
    using assms(2) by (auto simp: efm_program_word_def efm_byte_offset EFM_PROGRAM_SIZE_def Let_def split: prod.splits)
  have a: "unat a = unat ?w + unat (a mod 4)"
    by (simp add: unat_word_at unat_mod)
  have "f = put_bytes (unat ?w) (map ?word [0..<4]) (bs_efm s)" using assms(1) c(1) unfolding efm_honest_def by blast
  also have "\<dots> = put_bytes (unat a) data (bs_efm s)"
    using assms(3) by (auto simp: a put_bytes_def fun_eq_iff)
  finally show ?thesis using c(2) by simp
qed

text \<open>A read, and a program that succeeds, have exactly the effect on the memories that their callers rely on.\<close>

lemma program_loop_writes:
  assumes "efm_honest ll" "efm_program_loop ll address len p source_offset s = (EFM_SUCCESS, s')"
    and "unat address + unat len < 2 ^ 32" "source_offset \<le> len"
  shows "s' = s\<lparr>bs_efm := put_bytes (unat address + unat source_offset)
      (bytes_at (bs_ram s) (p + unat source_offset) (unat len - unat source_offset)) (bs_efm s), bs_hw := bs_hw s'\<rparr>"
  using assms
proof (induction ll address len p source_offset s rule: efm_program_loop.induct)
  case (1 ll address len p off s)
  let ?n = "efm_copy_length address len off"
  show ?case
  proof (cases "off < len")
    case False
    then have "off = len" using "1.prems"(4) by simp
    then show ?thesis using "1.prems"(2) False by (simp add: efm_program_loop.simps bytes_at_def)
  next
    case True
    note b = copy_length_bounds [OF True, of address]
    note adv = copy_length_advances [OF True, of address]
    obtain s1 where w: "efm_program_word ll (address + off) (bytes_at (bs_ram s) (p + unat off) (unat ?n)) s = (True, s1)"
      and r: "efm_program_loop ll address len p (off + ?n) s1 = (EFM_SUCCESS, s')"
      using "1.prems"(2) True by (subst (asm) efm_program_loop.simps) (auto simp: Let_def split: prod.splits if_splits)
    have "unat off < unat len" using True by (simp add: word_less_nat_alt)
    then have a: "unat (address + off) = unat address + unat off" using "1.prems"(3) by (simp add: unat_word_ariths)
    have s1: "s1 = s\<lparr>bs_efm := put_bytes (unat address + unat off) (bytes_at (bs_ram s) (p + unat off) (unat ?n)) (bs_efm s), bs_hw := bs_hw s1\<rparr>"
      using program_word_writes [OF "1.prems"(1) w] b(3) by (simp add: a)
    have "off + ?n \<le> len" using b(2) by (simp add: word_le_nat_alt adv)
    from "1.IH" [OF True refl w [symmetric] _ "1.prems"(1) r "1.prems"(3) this]
    have "s' = s1\<lparr>bs_efm := put_bytes (unat address + unat (off + ?n))
        (bytes_at (bs_ram s1) (p + unat (off + ?n)) (unat len - unat (off + ?n))) (bs_efm s1), bs_hw := bs_hw s'\<rparr>" by simp
    moreover have "unat len - unat off = unat ?n + (unat len - unat (off + ?n))" using b(2) by (simp add: adv)
    moreover have "p + unat (off + ?n) = p + unat off + unat ?n" "unat address + unat (off + ?n) = unat address + unat off + unat ?n"
      by (simp_all add: adv)
    moreover have "bs_ram s1 = bs_ram s" by (subst s1) simp
    moreover have "bs_efm s1 = put_bytes (unat address + unat off) (bytes_at (bs_ram s) (p + unat off) (unat ?n)) (bs_efm s)"
      by (subst s1) simp
    moreover have "put_bytes (unat address + unat off + unat ?n) ys
        (put_bytes (unat address + unat off) (bytes_at (bs_ram s) (p + unat off) (unat ?n)) f)
      = put_bytes (unat address + unat off) (bytes_at (bs_ram s) (p + unat off) (unat ?n) @ ys) f" for ys f
      using put_bytes_append [of "unat address + unat off" "bytes_at (bs_ram s) (p + unat off) (unat ?n)"] by simp
    ultimately have "s' = s1\<lparr>bs_efm := put_bytes (unat address + unat off)
        (bytes_at (bs_ram s) (p + unat off) (unat len - unat off)) (bs_efm s), bs_hw := bs_hw s'\<rparr>"
      by (simp only: bytes_at_split)
    moreover have "s1\<lparr>bs_efm := g, bs_hw := h\<rparr> = s\<lparr>bs_efm := g, bs_hw := h\<rparr>" for g h by (subst s1) simp
    ultimately show ?thesis by simp
  qed
qed

lemma efm_range_unat: "efm_range_is_valid address len \<Longrightarrow> unat address + unat len \<le> 0x20000"
proof -
  assume v: "efm_range_is_valid address len"
  then have "unat (0x20000 - address) = 0x20000 - unat address"
    by (subst unat_sub) (simp_all add: efm_range_is_valid_def EFM_CAPACITY_def)
  moreover have "unat address \<le> 0x20000" "unat len \<le> unat (0x20000 - address)"
    using v by (simp_all add: efm_range_is_valid_def EFM_CAPACITY_def word_le_nat_alt)
  ultimately show ?thesis by linarith
qed

lemma program_cases:
  assumes "bsp_efm_flash_program ll address len p_data s = (r, s')" "r = EFM_SUCCESS \<or> r = EFM_IO_ERROR"
  obtains p where "p_data = Some p" "len \<noteq> 0" "efm_range_is_valid address len" "efm_program_loop ll address len p 0 s = (r, s')"
  using assms by (auto simp: bsp_efm_flash_program_def split: option.splits if_splits)

lemma loop_failure:
  "efm_program_loop ll address len p off s = (r, s') \<Longrightarrow> r = EFM_SUCCESS \<or> r = EFM_IO_ERROR \<and> bs_efm_error s'"
proof (induction ll address len p off s rule: efm_program_loop.induct)
  case (1 ll address len p off s)
  show ?case
  proof (cases "off < len")
    case True
    obtain ok s1 where w: "efm_program_word ll (address + off) (bytes_at (bs_ram s) (p + unat off) (unat (efm_copy_length address len off))) s = (ok, s1)"
      by fastforce
    then show ?thesis
      using "1.IH" [OF True refl w [symmetric]] "1.prems" True
      by (subst (asm) (2) efm_program_loop.simps) (auto simp: Let_def split: if_splits)
  qed (use "1.prems" in \<open>simp add: efm_program_loop.simps\<close>)
qed

text \<open>C19: programming the internal flash.  When the call reports success, the flash holds exactly the caller's bytes at
  exactly the requested addresses, at whatever alignment, and every other byte of flash and RAM is as before; a failure of
  the controller is remembered, so that the driver reports an error from then on.\<close>

theorem efm_program_exact:
  assumes "efm_honest ll" "bsp_efm_flash_program ll address len (Some p) s = (r, s')"
  shows "(r = EFM_SUCCESS \<longrightarrow>
        s' = s\<lparr>bs_efm := put_bytes (unat address) (bytes_at (bs_ram s) p (unat len)) (bs_efm s), bs_hw := bs_hw s'\<rparr>)
    \<and> (r = EFM_IO_ERROR \<longrightarrow> bsp_efm_flash_state_get s' = EFM_ERROR)
    \<and> (r \<noteq> EFM_SUCCESS \<longrightarrow> r \<noteq> EFM_IO_ERROR \<longrightarrow> s' = s)"
proof (intro conjI impI)
  assume "r = EFM_SUCCESS"
  then obtain "len \<noteq> 0" "efm_range_is_valid address len" "efm_program_loop ll address len p 0 s = (EFM_SUCCESS, s')"
    using program_cases [OF assms(2)] by blast
  moreover from this have "unat address + unat len < 2 ^ 32"
    using efm_range_unat by fastforce
  ultimately show "s' = s\<lparr>bs_efm := put_bytes (unat address) (bytes_at (bs_ram s) p (unat len)) (bs_efm s), bs_hw := bs_hw s'\<rparr>"
    using program_loop_writes [OF assms(1)] by fastforce
next
  assume "r = EFM_IO_ERROR"
  then show "bsp_efm_flash_state_get s' = EFM_ERROR"
    using program_cases [OF assms(2)] loop_failure by (metis bsp_efm_flash_state_get_def efm_result.distinct(5))
next
  assume "r \<noteq> EFM_SUCCESS" "r \<noteq> EFM_IO_ERROR"
  then show "s' = s"
    using assms(2) loop_failure by (fastforce simp: bsp_efm_flash_program_def split: if_splits)
qed

text \<open>Hardware without further state that obeys; the serial flash is ready, write enabled, and knows its identity.\<close>

definition sample_reply :: "nat \<Rightarrow> u8 list" where
  "sample_reply n = (if n = 3 then [0xEF, 0x40, 0x17] else replicate n 2)"

definition sample_ll :: "unit ll" where
  "sample_ll =
     \<lparr>ll_efm_setup = (\<lambda>h. h), ll_efm_range = (\<lambda>_ _ h. h), ll_efm_program = (\<lambda>a bs f h. (True, put_bytes (unat a) bs f, h)),
      ll_efm_erase = (\<lambda>a f h. (True, put_bytes (unat a - unat a mod unat EFM_ERASE_SIZE) (replicate (unat EFM_ERASE_SIZE) 0xFF) f, h)),
      ll_spi_setup = (\<lambda>h. (True, h)), ll_chip_select = (\<lambda>_ h. h), ll_spi_trans = (\<lambda>_ h. (True, h)),
      ll_spi_receive = (\<lambda>n h. ((True, sample_reply n), h)), ll_spi_idle = (\<lambda>h. (True, h)), ll_dma_setup = (\<lambda>_ _ _ h. (True, h)),
      ll_dma_start = (\<lambda>h. h), ll_dma_complete = (\<lambda>m h. (True, m, h)), ll_dma_error = (\<lambda>h. (False, h)), ll_dma_stop = (\<lambda>h. h)\<rparr>"

definition sample_bsp :: "unit bsp" where
  "sample_bsp =
     \<lparr>bs_ram = (\<lambda>a. of_nat a), bs_efm = (\<lambda>_. 0xFF), bs_efm_error = False, bs_initialized = True, bs_io_error = False, bs_bus = [], bs_hw = ()\<rparr>"

lemma sample_honest: "efm_honest sample_ll"
  by (simp add: efm_honest_def sample_ll_def)

lemma sample_loop: "ll = sample_ll \<Longrightarrow> \<exists>s'. efm_program_loop ll address len p off s = (EFM_SUCCESS, s')"
proof (induction ll address len p off s rule: efm_program_loop.induct)
  case (1 ll address len p off s)
  obtain s1 where w: "efm_program_word ll (address + off) (bytes_at (bs_ram s) (p + unat off) (unat (efm_copy_length address len off))) s = (True, s1)"
    using "1.prems" by (simp add: efm_program_word_def sample_ll_def Let_def)
  then show ?case
    using "1.IH" [OF _ refl w [symmetric]] "1.prems" by (subst efm_program_loop.simps) (auto simp: Let_def)
qed

theorem efm_program_exact_witness:
  "\<exists>s'. bsp_efm_flash_program sample_ll 0x4003 6 (Some 10) sample_bsp = (EFM_SUCCESS, s') \<and> bs_efm s' 0x4003 = 10 \<and> bs_efm s' 0x4008 = 15
    \<and> bs_efm s' 0x4009 = 0xFF"
proof -
  have "\<exists>s'. efm_program_loop sample_ll 0x4003 6 10 0 sample_bsp = (EFM_SUCCESS, s')"
    by (rule sample_loop) simp
  then obtain s' where p: "bsp_efm_flash_program sample_ll 0x4003 6 (Some 10) sample_bsp = (EFM_SUCCESS, s')"
    by (auto simp: bsp_efm_flash_program_def efm_range_is_valid_def EFM_CAPACITY_def)
  from efm_program_exact [OF sample_honest p]
  have "s' = sample_bsp\<lparr>bs_efm := put_bytes 0x4003 (bytes_at (bs_ram sample_bsp) 10 6) (bs_efm sample_bsp), bs_hw := bs_hw s'\<rparr>"
    by simp
  then have "bs_efm s' = put_bytes 0x4003 (bytes_at (bs_ram sample_bsp) 10 6) (bs_efm sample_bsp)" by (metis bsp.select_convs(2) bsp.surjective bsp.update_convs(2,7))
  with p show ?thesis by (simp add: put_bytes_def sample_bsp_def)
qed

end
