(* ===== verification/Hc32_W25q64.thy ===== *)
theory Hc32_W25q64
  imports Hc32_Flash
begin

text \<open>
  platform/hc32f334/bsp/bsp_w25q64.c: the serial flash on the SPI bus.  Short transfers are polled,
  the data phase of a read or a page program goes through DMA; both the transfer and the bus idle
  wait give up after a fixed number of polls.  What is sent and what is received is recorded in
  \<open>bs_bus\<close>.
\<close>

section \<open>Data\<close>

datatype w25q_result =
  W25Q_SUCCESS | W25Q_INVALID_ARGUMENT | W25Q_OUT_OF_RANGE | W25Q_BUSY | W25Q_IO_ERROR | W25Q_ID_MISMATCH | W25Q_TIMEOUT

datatype w25q_state = W25Q_STATE_READY | W25Q_STATE_BUSY | W25Q_STATE_ERROR

definition W25Q_CAPACITY :: u32 where "W25Q_CAPACITY = 8 * 1024 * 1024"
definition W25Q_PAGE_SIZE :: u32 where "W25Q_PAGE_SIZE = 256"
definition W25Q_SECTOR_SIZE :: u32 where "W25Q_SECTOR_SIZE = 4096"
definition EXPECTED_JEDEC_ID :: u32 where "EXPECTED_JEDEC_ID = 0x00EF4017"
definition SPI_TIMEOUT :: nat where "SPI_TIMEOUT = 1000000"

definition OP_WRITE_ENABLE :: u8 where "OP_WRITE_ENABLE = 0x06"
definition OP_READ_STATUS_1 :: u8 where "OP_READ_STATUS_1 = 0x05"
definition OP_READ_DATA :: u8 where "OP_READ_DATA = 0x03"
definition OP_PAGE_PROGRAM :: u8 where "OP_PAGE_PROGRAM = 0x02"
definition OP_SECTOR_ERASE_4K :: u8 where "OP_SECTOR_ERASE_4K = 0x20"
definition OP_READ_JEDEC_ID :: u8 where "OP_READ_JEDEC_ID = 0x9F"
definition STATUS_1_WIP :: u8 where "STATUS_1_WIP = 1"
definition STATUS_1_WEL :: u8 where "STATUS_1_WEL = 2"

section \<open>Bus transfers\<close>

definition on_bus :: "spi_event \<Rightarrow> 'h bsp \<Rightarrow> 'h bsp" where
  "on_bus ev s = s\<lparr>bs_bus := bs_bus s @ [ev]\<rparr>"

definition cs_high :: "'h ll \<Rightarrow> 'h bsp \<Rightarrow> 'h bsp" where
  "cs_high ll s = on_bus Cs_High (s\<lparr>bs_hw := ll_chip_select ll True (bs_hw s)\<rparr>)"

definition cs_low :: "'h ll \<Rightarrow> 'h bsp \<Rightarrow> 'h bsp" where
  "cs_low ll s = on_bus Cs_Low (s\<lparr>bs_hw := ll_chip_select ll False (bs_hw s)\<rparr>)"

definition w25q_range_is_valid :: "u32 \<Rightarrow> u32 \<Rightarrow> bool" where
  "w25q_range_is_valid address len \<longleftrightarrow> address \<le> W25Q_CAPACITY \<and> len \<le> W25Q_CAPACITY - address"

definition w25q_transmit :: "'h ll \<Rightarrow> u8 list \<Rightarrow> 'h bsp \<Rightarrow> w25q_result \<times> 'h bsp" where
  "w25q_transmit ll data s =
     (case ll_spi_trans ll data (bs_hw s) of
        (ok, h) \<Rightarrow>
          let s1 = on_bus (Spi_Tx data) (s\<lparr>bs_hw := h\<rparr>)
          in if ok then (W25Q_SUCCESS, s1) else (W25Q_IO_ERROR, s1\<lparr>bs_io_error := True\<rparr>))"

definition w25q_receive :: "'h ll \<Rightarrow> nat \<Rightarrow> 'h bsp \<Rightarrow> (w25q_result \<times> u8 list) \<times> 'h bsp" where
  "w25q_receive ll n s =
     (case ll_spi_receive ll n (bs_hw s) of
        ((ok, data), h) \<Rightarrow>
          let s1 = on_bus (Spi_Rx n data) (s\<lparr>bs_hw := h\<rparr>)
          in if ok then ((W25Q_SUCCESS, data), s1) else ((W25Q_IO_ERROR, data), s1\<lparr>bs_io_error := True\<rparr>))"

definition dma_stop :: "'h ll \<Rightarrow> 'h bsp \<Rightarrow> 'h bsp" where
  "dma_stop ll s = s\<lparr>bs_hw := ll_dma_stop ll (bs_hw s)\<rparr>"

text \<open>The transfer-complete wait; the DMA controller may touch RAM at every poll.\<close>

fun dma_wait :: "'h ll \<Rightarrow> nat \<Rightarrow> 'h bsp \<Rightarrow> w25q_result \<times> 'h bsp" where
  "dma_wait ll timeout s =
     (case ll_dma_complete ll (bs_ram s) (bs_hw s) of
        (complete, ram, h) \<Rightarrow>
          let s1 = s\<lparr>bs_ram := ram, bs_hw := h\<rparr>
          in if complete then (W25Q_SUCCESS, s1)
             else
               (case ll_dma_error ll (bs_hw s1) of
                  (failed, h1) \<Rightarrow>
                    let s2 = s1\<lparr>bs_hw := h1\<rparr>
                    in if failed then (W25Q_IO_ERROR, (dma_stop ll s2)\<lparr>bs_io_error := True\<rparr>)
                       else
                         (case timeout of
                            0 \<Rightarrow> (W25Q_TIMEOUT, (dma_stop ll s2)\<lparr>bs_io_error := True\<rparr>)
                          | Suc t \<Rightarrow> dma_wait ll t s2)))"

declare dma_wait.simps [simp del]

fun idle_wait :: "'h ll \<Rightarrow> nat \<Rightarrow> 'h bsp \<Rightarrow> w25q_result \<times> 'h bsp" where
  "idle_wait ll timeout s =
     (case ll_spi_idle ll (bs_hw s) of
        (idle, h) \<Rightarrow>
          let s1 = s\<lparr>bs_hw := h\<rparr>
          in if idle then (W25Q_SUCCESS, s1)
             else
               (case timeout of
                  0 \<Rightarrow> (W25Q_TIMEOUT, (dma_stop ll s1)\<lparr>bs_io_error := True\<rparr>)
                | Suc t \<Rightarrow> idle_wait ll t s1))"

declare idle_wait.simps [simp del]

text \<open>\<open>p_tx\<close> or \<open>p_rx\<close> is NULL, in which case a constant is sent or the data is dropped.\<close>

definition transfer_dma :: "'h ll \<Rightarrow> nat option \<Rightarrow> nat option \<Rightarrow> u32 \<Rightarrow> 'h bsp \<Rightarrow> w25q_result \<times> 'h bsp" where
  "transfer_dma ll p_tx p_rx len s =
     (if len = 0 \<or> len > 0xFFFF then (W25Q_INVALID_ARGUMENT, s)
      else
        (case ll_dma_setup ll p_tx p_rx len (bs_hw (dma_stop ll s)) of
           (ok, h) \<Rightarrow>
             let s1 = s\<lparr>bs_hw := h\<rparr>
             in if \<not> ok then (W25Q_IO_ERROR, (dma_stop ll s1)\<lparr>bs_io_error := True\<rparr>)
                else
                  (let s2 = on_bus (case p_tx of Some p \<Rightarrow> Dma_Tx p (unat len) | None \<Rightarrow> Dma_Rx (the p_rx) (unat len))
                              (s1\<lparr>bs_hw := ll_dma_start ll (bs_hw s1)\<rparr>)
                   in case dma_wait ll SPI_TIMEOUT s2 of
                        (r, s3) \<Rightarrow>
                          if r \<noteq> W25Q_SUCCESS then (r, s3)
                          else
                            (case idle_wait ll SPI_TIMEOUT s3 of
                               (r', s4) \<Rightarrow> if r' \<noteq> W25Q_SUCCESS then (r', s4) else (W25Q_SUCCESS, dma_stop ll s4)))))"

section \<open>Commands\<close>

text \<open>One transaction: chip select around a command and what follows it when it went out.\<close>

definition status_read :: "'h ll \<Rightarrow> 'h bsp \<Rightarrow> (w25q_result \<times> u8) \<times> 'h bsp" where
  "status_read ll s =
     (case w25q_transmit ll [OP_READ_STATUS_1] (cs_low ll s) of
        (r, s1) \<Rightarrow>
          if r = W25Q_SUCCESS then
            (case w25q_receive ll 1 s1 of ((r1, data), s2) \<Rightarrow> ((r1, data ! 0), cs_high ll s2))
          else ((r, 0), cs_high ll s1))"

definition write_enable :: "'h ll \<Rightarrow> 'h bsp \<Rightarrow> w25q_result \<times> 'h bsp" where
  "write_enable ll s =
     (case w25q_transmit ll [OP_WRITE_ENABLE] (cs_low ll s) of
        (r, s1) \<Rightarrow>
          let s2 = cs_high ll s1
          in if r \<noteq> W25Q_SUCCESS then (r, s2)
             else
               (case status_read ll s2 of
                  ((r1, status), s3) \<Rightarrow>
                    if r1 = W25Q_SUCCESS \<and> status AND STATUS_1_WEL = 0
                    then (W25Q_IO_ERROR, s3\<lparr>bs_io_error := True\<rparr>)
                    else (r1, s3)))"

definition bsp_w25q64_read_jedec_id :: "'h ll \<Rightarrow> 'h bsp \<Rightarrow> (w25q_result \<times> u32 option) \<times> 'h bsp" where
  "bsp_w25q64_read_jedec_id ll s =
     (if \<not> bs_initialized s then ((W25Q_INVALID_ARGUMENT, None), s)
      else
        (case w25q_transmit ll [OP_READ_JEDEC_ID] (cs_low ll s) of
           (r, s1) \<Rightarrow>
             if r \<noteq> W25Q_SUCCESS then ((r, None), cs_high ll s1)
             else
               (case w25q_receive ll 3 s1 of
                  ((r1, d), s2) \<Rightarrow>
                    ((r1, if r1 = W25Q_SUCCESS
                          then Some (push_bit 16 (ucast (d ! 0)) OR push_bit 8 (ucast (d ! 1)) OR ucast (d ! 2))
                          else None),
                     cs_high ll s2))))"

definition bsp_w25q64_init :: "'h ll \<Rightarrow> 'h bsp \<Rightarrow> w25q_result \<times> 'h bsp" where
  "bsp_w25q64_init ll s =
     (case ll_spi_setup ll (bs_hw s) of
        (ok, h) \<Rightarrow>
          let s1 = on_bus Cs_High (s\<lparr>bs_initialized := False, bs_io_error := False, bs_hw := h\<rparr>)
          in if \<not> ok then (W25Q_IO_ERROR, s1\<lparr>bs_io_error := True\<rparr>)
             else
               (case bsp_w25q64_read_jedec_id ll (s1\<lparr>bs_initialized := True\<rparr>) of
                  ((r, jedec_id), s2) \<Rightarrow>
                    if r \<noteq> W25Q_SUCCESS then (r, s2)
                    else if jedec_id \<noteq> Some EXPECTED_JEDEC_ID then (W25Q_ID_MISMATCH, s2)
                    else (W25Q_SUCCESS, s2)))"

definition bsp_w25q64_state_get :: "'h ll \<Rightarrow> 'h bsp \<Rightarrow> w25q_state \<times> 'h bsp" where
  "bsp_w25q64_state_get ll s =
     (if \<not> bs_initialized s \<or> bs_io_error s then (W25Q_STATE_ERROR, s)
      else
        (case status_read ll s of
           ((r, status), s1) \<Rightarrow>
             (if r \<noteq> W25Q_SUCCESS then W25Q_STATE_ERROR
              else if status AND STATUS_1_WIP \<noteq> 0 then W25Q_STATE_BUSY
              else W25Q_STATE_READY, s1)))"

definition address_command :: "u8 \<Rightarrow> u32 \<Rightarrow> u8 list" where
  "address_command opcode address = [opcode, ucast (drop_bit 16 address), ucast (drop_bit 8 address), ucast address]"

text \<open>A command with an address and, when it went out, its data phase.\<close>

definition addressed :: "'h ll \<Rightarrow> u8 \<Rightarrow> u32 \<Rightarrow> ('h bsp \<Rightarrow> w25q_result \<times> 'h bsp) \<Rightarrow> 'h bsp \<Rightarrow> w25q_result \<times> 'h bsp" where
  "addressed ll opcode address data_phase s =
     (case w25q_transmit ll (address_command opcode address) (cs_low ll s) of
        (r, s1) \<Rightarrow>
          (case (if r = W25Q_SUCCESS then data_phase s1 else (r, s1)) of (r1, s2) \<Rightarrow> (r1, cs_high ll s2)))"

definition bsp_w25q64_read :: "'h ll \<Rightarrow> u32 \<Rightarrow> u32 \<Rightarrow> nat option \<Rightarrow> 'h bsp \<Rightarrow> w25q_result \<times> 'h bsp" where
  "bsp_w25q64_read ll address len p_data s =
     (if len \<noteq> 0 \<and> p_data = None then (W25Q_INVALID_ARGUMENT, s)
      else if \<not> w25q_range_is_valid address len then (W25Q_OUT_OF_RANGE, s)
      else if len = 0 then (W25Q_SUCCESS, s)
      else
        (case bsp_w25q64_state_get ll s of
           (st, s1) \<Rightarrow>
             if st \<noteq> W25Q_STATE_READY then (W25Q_BUSY, s1)
             else addressed ll OP_READ_DATA address (transfer_dma ll None p_data len) s1))"

definition bsp_w25q64_page_program :: "'h ll \<Rightarrow> u32 \<Rightarrow> u32 \<Rightarrow> nat option \<Rightarrow> 'h bsp \<Rightarrow> w25q_result \<times> 'h bsp" where
  "bsp_w25q64_page_program ll address len p_data s =
     (if len = 0 \<or> p_data = None then (W25Q_INVALID_ARGUMENT, s)
      else if \<not> w25q_range_is_valid address len \<or> len > W25Q_PAGE_SIZE \<or> len > W25Q_PAGE_SIZE - address mod W25Q_PAGE_SIZE
      then (W25Q_OUT_OF_RANGE, s)
      else
        (case bsp_w25q64_state_get ll s of
           (st, s1) \<Rightarrow>
             if st \<noteq> W25Q_STATE_READY then (W25Q_BUSY, s1)
             else
               (case write_enable ll s1 of
                  (r, s2) \<Rightarrow>
                    if r \<noteq> W25Q_SUCCESS then (r, s2)
                    else addressed ll OP_PAGE_PROGRAM address (transfer_dma ll p_data None len) s2)))"

definition bsp_w25q64_sector_erase :: "'h ll \<Rightarrow> u32 \<Rightarrow> 'h bsp \<Rightarrow> w25q_result \<times> 'h bsp" where
  "bsp_w25q64_sector_erase ll address s =
     (if address \<ge> W25Q_CAPACITY \<or> address mod W25Q_SECTOR_SIZE \<noteq> 0 then (W25Q_OUT_OF_RANGE, s)
      else
        (case bsp_w25q64_state_get ll s of
           (st, s1) \<Rightarrow>
             if st \<noteq> W25Q_STATE_READY then (W25Q_BUSY, s1)
             else
               (case write_enable ll s1 of
                  (r, s2) \<Rightarrow>
                    if r \<noteq> W25Q_SUCCESS then (r, s2)
                    else addressed ll OP_SECTOR_ERASE_4K address (\<lambda>s. (W25Q_SUCCESS, s)) s2)))"

section \<open>What goes over the bus\<close>

text \<open>A transaction is bracketed by chip select; traffic is framed when it consists of whole transactions.\<close>

definition transaction :: "spi_event list \<Rightarrow> bool" where
  "transaction t \<longleftrightarrow> (\<exists>body. t = Cs_Low # body @ [Cs_High] \<and> Cs_Low \<notin> set body \<and> Cs_High \<notin> set body)"

inductive framed :: "spi_event list \<Rightarrow> bool" where
  framed_nil: "framed []"
| framed_snoc: "framed evs \<Longrightarrow> transaction t \<Longrightarrow> framed (evs @ t)"

definition status_transaction :: "u8 list \<Rightarrow> spi_event list" where
  "status_transaction reply = [Cs_Low, Spi_Tx [OP_READ_STATUS_1], Spi_Rx 1 reply, Cs_High]"

definition enable_transaction :: "spi_event list" where
  "enable_transaction = [Cs_Low, Spi_Tx [OP_WRITE_ENABLE], Cs_High]"

definition write_transaction :: "u8 \<Rightarrow> u32 \<Rightarrow> spi_event list \<Rightarrow> spi_event list" where
  "write_transaction opcode address data = Cs_Low # Spi_Tx (address_command opcode address) # data @ [Cs_High]"

lemma framed_one: "transaction t \<Longrightarrow> framed t"
  using framed_snoc [OF framed_nil] by simp

lemma framed_append:
  assumes "framed a" "framed b"
  shows "framed (a @ b)"
  using assms(2)
proof (induction rule: framed.induct)
  case (framed_snoc evs t)
  then show ?case using framed.framed_snoc [of "a @ evs" t] by simp
qed (use assms(1) in simp)

lemma transaction_body: "Cs_Low \<notin> set body \<Longrightarrow> Cs_High \<notin> set body \<Longrightarrow> transaction (Cs_Low # body @ [Cs_High])"
  by (auto simp: transaction_def)

lemma bus_steps [simp]:
  "bs_bus (cs_low ll s) = bs_bus s @ [Cs_Low]" "bs_bus (cs_high ll s) = bs_bus s @ [Cs_High]"
  "bs_bus (dma_stop ll s) = bs_bus s" "bs_bus (on_bus ev s) = bs_bus s @ [ev]"
  by (simp_all add: cs_low_def cs_high_def on_bus_def dma_stop_def)

lemma transmit_bus: "w25q_transmit ll d s = (r, s') \<Longrightarrow> bs_bus s' = bs_bus s @ [Spi_Tx d]"
  by (auto simp: w25q_transmit_def Let_def split: prod.splits if_splits)

lemma receive_bus: "w25q_receive ll n s = ((r, d), s') \<Longrightarrow> bs_bus s' = bs_bus s @ [Spi_Rx n d]"
  by (auto simp: w25q_receive_def Let_def split: prod.splits if_splits)

lemma status_bus:
  assumes "status_read ll s = ((r, st), s')"
  obtains evs where "bs_bus s' = bs_bus s @ evs" "transaction evs" "\<And>c a. Spi_Tx (address_command c a) \<notin> set evs"
    "r = W25Q_SUCCESS \<longrightarrow> (\<exists>reply. evs = status_transaction reply \<and> st = reply ! 0)"
proof -
  obtain r1 s1 where t: "w25q_transmit ll [OP_READ_STATUS_1] (cs_low ll s) = (r1, s1)" by fastforce
  note b1 = transmit_bus [OF t]
  show thesis
  proof (cases "r1 = W25Q_SUCCESS")
    case True
    obtain r2 d s2 where rx: "w25q_receive ll 1 s1 = ((r2, d), s2)" by (metis surj_pair)
    have "bs_bus s' = bs_bus s @ status_transaction d" "st = d ! 0"
      using assms True t b1 receive_bus [OF rx] rx by (auto simp: status_read_def status_transaction_def)
    then show thesis
      using that transaction_body [of "[Spi_Tx [OP_READ_STATUS_1], Spi_Rx 1 d]"]
      by (simp add: status_transaction_def address_command_def)
  next
    case False
    then have "bs_bus s' = bs_bus s @ [Cs_Low, Spi_Tx [OP_READ_STATUS_1], Cs_High]" "r \<noteq> W25Q_SUCCESS"
      using assms t b1 by (auto simp: status_read_def)
    then show thesis
      using that transaction_body [of "[Spi_Tx [OP_READ_STATUS_1]]"] by (simp add: address_command_def)
  qed
qed

lemma state_get_bus:
  assumes "bsp_w25q64_state_get ll s = (st, s')"
  obtains evs where "bs_bus s' = bs_bus s @ evs" "framed evs" "\<And>c a. Spi_Tx (address_command c a) \<notin> set evs"
    "st = W25Q_STATE_READY \<longrightarrow> (\<exists>reply. evs = status_transaction reply \<and> reply ! 0 AND STATUS_1_WIP = 0)"
proof (cases "\<not> bs_initialized s \<or> bs_io_error s")
  case True
  then show thesis using assms that [of "[]"] framed_nil by (auto simp: bsp_w25q64_state_get_def)
next
  case False
  obtain r status s1 where t: "status_read ll s = ((r, status), s1)" by (metis surj_pair)
  then have "s' = s1" "st = W25Q_STATE_READY \<longrightarrow> r = W25Q_SUCCESS \<and> status AND STATUS_1_WIP = 0"
    using assms False by (auto simp: bsp_w25q64_state_get_def split: if_splits)
  then show thesis using status_bus [OF t] that framed_one by metis
qed

lemma enable_bus:
  assumes "write_enable ll s = (r, s')"
  obtains evs where "bs_bus s' = bs_bus s @ evs" "framed evs" "\<And>c a. Spi_Tx (address_command c a) \<notin> set evs"
    "r = W25Q_SUCCESS \<longrightarrow> (\<exists>reply. evs = enable_transaction @ status_transaction reply \<and> reply ! 0 AND STATUS_1_WEL \<noteq> 0)"
proof -
  obtain r1 s1 where t: "w25q_transmit ll [OP_WRITE_ENABLE] (cs_low ll s) = (r1, s1)" by fastforce
  have b1: "bs_bus (cs_high ll s1) = bs_bus s @ enable_transaction"
    using transmit_bus [OF t] by (simp add: enable_transaction_def)
  have e: "framed enable_transaction" "\<And>c a. Spi_Tx (address_command c a) \<notin> set enable_transaction"
    using framed_one [OF transaction_body [of "[Spi_Tx [OP_WRITE_ENABLE]]"]]
    by (simp_all add: enable_transaction_def address_command_def)
  show thesis
  proof (cases "r1 = W25Q_SUCCESS")
    case False
    then show thesis using assms t b1 e that [of enable_transaction] by (auto simp: write_enable_def Let_def)
  next
    case True
    obtain r2 st s2 where rd: "status_read ll (cs_high ll s1) = ((r2, st), s2)" by (metis surj_pair)
    have s': "bs_bus s' = bs_bus s2" "r = W25Q_SUCCESS \<longrightarrow> r2 = W25Q_SUCCESS \<and> st AND STATUS_1_WEL \<noteq> 0"
      using assms t True rd by (auto simp: write_enable_def Let_def split: if_splits)
    obtain evs where "bs_bus s2 = bs_bus (cs_high ll s1) @ evs" "transaction evs" "\<And>c a. Spi_Tx (address_command c a) \<notin> set evs"
      "r2 = W25Q_SUCCESS \<longrightarrow> (\<exists>reply. evs = status_transaction reply \<and> st = reply ! 0)"
      using status_bus [OF rd] by blast
    then show thesis
      using s' b1 e framed_append [OF e(1) framed_one] that [of "enable_transaction @ evs"] by auto
  qed
qed

lemma dma_wait_bus: "dma_wait ll t s = (r, s') \<Longrightarrow> bs_bus s' = bs_bus s"
proof (induction ll t s rule: dma_wait.induct)
  case (1 ll t s)
  then show ?case
    by (subst (asm) (2) dma_wait.simps) (auto simp: Let_def split: prod.splits if_splits nat.splits)
qed

lemma idle_wait_bus: "idle_wait ll t s = (r, s') \<Longrightarrow> bs_bus s' = bs_bus s"
proof (induction ll t s rule: idle_wait.induct)
  case (1 ll t s)
  then show ?case
    by (subst (asm) (2) idle_wait.simps) (auto simp: Let_def split: prod.splits if_splits nat.splits)
qed

lemma transfer_bus:
  assumes "transfer_dma ll (Some p) p_rx len s = (r, s')"
  obtains data where "bs_bus s' = bs_bus s @ data" "data = [] \<or> data = [Dma_Tx p (unat len)]"
    "r = W25Q_SUCCESS \<longrightarrow> data = [Dma_Tx p (unat len)]"
proof (cases "len = 0 \<or> len > 0xFFFF")
  case True
  then show thesis using assms that [of "[]"] by (auto simp: transfer_dma_def)
next
  case valid: False
  obtain ok h where dma: "ll_dma_setup ll (Some p) p_rx len (bs_hw (dma_stop ll s)) = (ok, h)" by fastforce
  show thesis
  proof (cases ok)
    case False
    then show thesis using assms that [of "[]"] valid dma by (auto simp: transfer_dma_def Let_def)
  next
    case True
    let ?s = "on_bus (Dma_Tx p (unat len)) (s\<lparr>bs_hw := ll_dma_start ll h\<rparr>)"
    obtain r1 s1 where w: "dma_wait ll SPI_TIMEOUT ?s = (r1, s1)" by fastforce
    obtain r2 s2 where i: "idle_wait ll SPI_TIMEOUT s1 = (r2, s2)" by fastforce
    have "bs_bus s1 = bs_bus s @ [Dma_Tx p (unat len)]" "bs_bus s2 = bs_bus s1"
      using dma_wait_bus [OF w] idle_wait_bus [OF i] by (simp_all add: on_bus_def)
    moreover have "s' = s1 \<or> s' = s2 \<or> s' = dma_stop ll s2"
      using assms valid dma True w i by (auto simp: transfer_dma_def Let_def split: if_splits)
    ultimately show thesis using that [of "[Dma_Tx p (unat len)]"] by auto
  qed
qed

lemma addressed_bus:
  assumes "addressed ll opcode address phase s = (r, s')"
    and "\<And>s r s'. phase s = (r, s') \<Longrightarrow> \<exists>d. bs_bus s' = bs_bus s @ d \<and> (d = [] \<or> d = full) \<and> (r = W25Q_SUCCESS \<longrightarrow> d = full)"
  obtains data where "bs_bus s' = bs_bus s @ write_transaction opcode address data" "data = [] \<or> data = full"
    "r = W25Q_SUCCESS \<longrightarrow> data = full"
proof -
  obtain r1 s1 where t: "w25q_transmit ll (address_command opcode address) (cs_low ll s) = (r1, s1)" by fastforce
  note b1 = transmit_bus [OF t]
  show thesis
  proof (cases "r1 = W25Q_SUCCESS")
    case True
    obtain r2 s2 where p: "phase s1 = (r2, s2)" by fastforce
    obtain d where "bs_bus s2 = bs_bus s1 @ d" "d = [] \<or> d = full" "r2 = W25Q_SUCCESS \<longrightarrow> d = full"
      using assms(2) [OF p] by blast
    then show thesis
      using assms(1) t p True b1 that [of d] by (auto simp: addressed_def write_transaction_def)
  next
    case False
    then show thesis using assms(1) t b1 that [of "[]"] by (auto simp: addressed_def write_transaction_def)
  qed
qed

text \<open>The traffic of a write that was sent: a status read that shows the chip not busy, the write enable command, a
  status read that shows the write enable latch set, and only then the command.\<close>

definition confirmed_write :: "u8 \<Rightarrow> u32 \<Rightarrow> spi_event list \<Rightarrow> spi_event list \<Rightarrow> bool" where
  "confirmed_write opcode address data evs \<longleftrightarrow>
     (\<exists>ready latch. ready ! 0 AND STATUS_1_WIP = 0 \<and> latch ! 0 AND STATUS_1_WEL \<noteq> 0
       \<and> evs = status_transaction ready @ enable_transaction @ status_transaction latch
           @ write_transaction opcode address data)"

definition guarded_traffic :: "u8 \<Rightarrow> u32 \<Rightarrow> spi_event list \<Rightarrow> w25q_result \<Rightarrow> spi_event list \<Rightarrow> bool" where
  "guarded_traffic opcode address full r evs \<longleftrightarrow>
     framed evs
     \<and> ((\<exists>c a. Spi_Tx (address_command c a) \<in> set evs) \<longrightarrow>
          (\<exists>data. (data = [] \<or> data = full) \<and> confirmed_write opcode address data evs))
     \<and> (r = W25Q_SUCCESS \<longrightarrow> confirmed_write opcode address full evs)"

lemma write_framed: "Cs_Low \<notin> set d \<Longrightarrow> Cs_High \<notin> set d \<Longrightarrow> framed (write_transaction opcode address d)"
  using framed_one [OF transaction_body [of "Spi_Tx (address_command opcode address) # d"]] by (simp add: write_transaction_def)

lemma guarded_write:
  assumes "(case bsp_w25q64_state_get ll s of (st, s1) \<Rightarrow>
      if st \<noteq> W25Q_STATE_READY then (W25Q_BUSY, s1)
      else (case write_enable ll s1 of (r, s2) \<Rightarrow>
             if r \<noteq> W25Q_SUCCESS then (r, s2) else addressed ll opcode address phase s2)) = (r, s')"
    and "\<And>s r s'. phase s = (r, s') \<Longrightarrow> \<exists>d. bs_bus s' = bs_bus s @ d \<and> (d = [] \<or> d = full) \<and> (r = W25Q_SUCCESS \<longrightarrow> d = full)"
    and "Cs_Low \<notin> set full" "Cs_High \<notin> set full"
  shows "\<exists>evs. bs_bus s' = bs_bus s @ evs \<and> guarded_traffic opcode address full r evs"
proof -
  obtain st s1 where g: "bsp_w25q64_state_get ll s = (st, s1)" by fastforce
  obtain e1 where e1: "bs_bus s1 = bs_bus s @ e1" "framed e1" "\<And>c a. Spi_Tx (address_command c a) \<notin> set e1"
    "st = W25Q_STATE_READY \<longrightarrow> (\<exists>reply. e1 = status_transaction reply \<and> reply ! 0 AND STATUS_1_WIP = 0)"
    using state_get_bus [OF g] by blast
  show ?thesis
  proof (cases "st = W25Q_STATE_READY")
    case False
    then have "r = W25Q_BUSY" "s' = s1" using assms(1) g by auto
    then show ?thesis using e1 by (auto simp: guarded_traffic_def)
  next
    case True
    obtain r2 s2 where we: "write_enable ll s1 = (r2, s2)" by fastforce
    obtain e2 where e2: "bs_bus s2 = bs_bus s1 @ e2" "framed e2" "\<And>c a. Spi_Tx (address_command c a) \<notin> set e2"
      "r2 = W25Q_SUCCESS \<longrightarrow> (\<exists>reply. e2 = enable_transaction @ status_transaction reply \<and> reply ! 0 AND STATUS_1_WEL \<noteq> 0)"
      using enable_bus [OF we] by blast
    show ?thesis
    proof (cases "r2 = W25Q_SUCCESS")
      case False
      then have "r = r2" "s' = s2" using assms(1) g True we by auto
      then show ?thesis
        using e1 e2 False framed_append [OF e1(2) e2(2)] by (intro exI [of _ "e1 @ e2"]) (auto simp: guarded_traffic_def)
    next
      case enabled: True
      have "addressed ll opcode address phase s2 = (r, s')" using assms(1) g True we enabled by simp
      from addressed_bus [OF this assms(2)]
      obtain data where d: "bs_bus s' = bs_bus s2 @ write_transaction opcode address data" "data = [] \<or> data = full"
        "r = W25Q_SUCCESS \<longrightarrow> data = full" by blast
      have "framed (write_transaction opcode address data)" using d(2) assms(3,4) write_framed by auto
      then have "framed (e1 @ e2 @ write_transaction opcode address data)" using e1(2) e2(2) framed_append by metis
      moreover have "confirmed_write opcode address data (e1 @ e2 @ write_transaction opcode address data)"
        using e1(4) e2(4) True enabled unfolding confirmed_write_def by auto
      ultimately show ?thesis
        using e1(1) e2(1) d
        by (intro exI [of _ "e1 @ e2 @ write_transaction opcode address data"]) (auto simp: guarded_traffic_def)
    qed
  qed
qed

text \<open>C20: the serial flash is never written by accident.  Whatever the bus and the DMA controller do, a page program or a
  sector erase command goes out only after a status read returned a byte with the busy bit clear, the write enable command
  was sent and a second status read returned a byte with the write enable latch set, all in transactions of their own; the
  traffic always consists of whole chip-select frames; success means that the command went out with all its data, which
  lies within one page.\<close>

theorem w25q_writes_guarded:
  "(\<forall>r s'. bsp_w25q64_page_program ll address len (Some p) s = (r, s') \<longrightarrow>
      (\<exists>evs. bs_bus s' = bs_bus s @ evs \<and> guarded_traffic OP_PAGE_PROGRAM address [Dma_Tx p (unat len)] r evs
        \<and> (r = W25Q_SUCCESS \<longrightarrow> unat address mod 256 + unat len \<le> 256 \<and> unat address + unat len \<le> unat W25Q_CAPACITY)))
   \<and> (\<forall>r s'. bsp_w25q64_sector_erase ll address s = (r, s') \<longrightarrow>
      (\<exists>evs. bs_bus s' = bs_bus s @ evs \<and> guarded_traffic OP_SECTOR_ERASE_4K address [] r evs))"
proof (intro conjI allI impI)
  fix r s' assume e: "bsp_w25q64_sector_erase ll address s = (r, s')"
  show "\<exists>evs. bs_bus s' = bs_bus s @ evs \<and> guarded_traffic OP_SECTOR_ERASE_4K address [] r evs"
  proof (cases "address \<ge> W25Q_CAPACITY \<or> address mod W25Q_SECTOR_SIZE \<noteq> 0")
    case True
    then have "r = W25Q_OUT_OF_RANGE" "s' = s" using e by (auto simp: bsp_w25q64_sector_erase_def)
    then show ?thesis using framed_nil by (auto simp: guarded_traffic_def)
  next
    case False
    show ?thesis
      by (rule guarded_write [where phase = "\<lambda>s. (W25Q_SUCCESS, s)"])
        (use e False in \<open>simp_all add: bsp_w25q64_sector_erase_def\<close>)
  qed
next
  fix r s' assume e: "bsp_w25q64_page_program ll address len (Some p) s = (r, s')"
  let ?invalid = "\<not> w25q_range_is_valid address len \<or> len > W25Q_PAGE_SIZE \<or> len > W25Q_PAGE_SIZE - address mod W25Q_PAGE_SIZE"
  show "\<exists>evs. bs_bus s' = bs_bus s @ evs \<and> guarded_traffic OP_PAGE_PROGRAM address [Dma_Tx p (unat len)] r evs
      \<and> (r = W25Q_SUCCESS \<longrightarrow> unat address mod 256 + unat len \<le> 256 \<and> unat address + unat len \<le> unat W25Q_CAPACITY)"
  proof (cases "len = 0 \<or> ?invalid")
    case True
    then have "r \<noteq> W25Q_SUCCESS" "s' = s" using e by (auto simp: bsp_w25q64_page_program_def split: if_splits)
    then show ?thesis using framed_nil by (auto simp: guarded_traffic_def)
  next
    case False
    have g: "\<exists>evs. bs_bus s' = bs_bus s @ evs \<and> guarded_traffic OP_PAGE_PROGRAM address [Dma_Tx p (unat len)] r evs"
    proof (rule guarded_write [where phase = "transfer_dma ll (Some p) None len"])
      fix s r and s' assume "transfer_dma ll (Some p) None len s = (r, s')"
      from transfer_bus [OF this] show "\<exists>d. bs_bus s' = bs_bus s @ d \<and> (d = [] \<or> d = [Dma_Tx p (unat len)])
          \<and> (r = W25Q_SUCCESS \<longrightarrow> d = [Dma_Tx p (unat len)])" by metis
    qed (use e False in \<open>simp_all add: bsp_w25q64_page_program_def\<close>)
    have "address mod W25Q_PAGE_SIZE \<le> W25Q_PAGE_SIZE" by (simp add: W25Q_PAGE_SIZE_def word_le_nat_alt unat_mod)
    then have "unat (W25Q_PAGE_SIZE - address mod W25Q_PAGE_SIZE) = 256 - unat address mod 256"
      by (subst unat_sub) (simp_all add: W25Q_PAGE_SIZE_def unat_mod)
    moreover have "unat len \<le> unat (W25Q_PAGE_SIZE - address mod W25Q_PAGE_SIZE)"
      using False by (simp add: word_le_nat_alt not_less)
    moreover have "unat address mod 256 < 256" by simp
    ultimately have "unat address mod 256 + unat len \<le> 256" by linarith
    have a: "address \<le> W25Q_CAPACITY" using False by (simp add: w25q_range_is_valid_def)
    have "unat (W25Q_CAPACITY - address) = unat W25Q_CAPACITY - unat address" by (rule unat_sub [OF a])
    moreover have "unat address \<le> unat W25Q_CAPACITY" using a by (simp add: word_le_nat_alt)
    moreover have "unat len \<le> unat (W25Q_CAPACITY - address)"
      using False by (simp add: w25q_range_is_valid_def word_le_nat_alt)
    ultimately have "unat address + unat len \<le> unat W25Q_CAPACITY" by linarith
    with \<open>unat address mod 256 + unat len \<le> 256\<close> g show ?thesis by blast
  qed
qed

lemma sample_hw [simp]: "(s :: unit bsp)\<lparr>bs_hw := h\<rparr> = s"
  by (cases s) simp

lemma sample_bus:
  "w25q_transmit sample_ll d s = (W25Q_SUCCESS, on_bus (Spi_Tx d) s)"
  "w25q_receive sample_ll n s = ((W25Q_SUCCESS, sample_reply n), on_bus (Spi_Rx n (sample_reply n)) s)"
  "cs_low sample_ll s = on_bus Cs_Low s" "cs_high sample_ll s = on_bus Cs_High s" "dma_stop sample_ll s = s"
  "dma_wait sample_ll t s = (W25Q_SUCCESS, s)" "idle_wait sample_ll t s = (W25Q_SUCCESS, s)"
  "ll_dma_setup sample_ll p_tx p_rx len h = (True, h)" "bs_initialized sample_bsp" "\<not> bs_io_error sample_bsp"
  by (simp_all add: w25q_transmit_def w25q_receive_def cs_low_def cs_high_def dma_stop_def Let_def dma_wait.simps [of _ t]
      idle_wait.simps [of _ t]) (simp_all add: sample_ll_def sample_bsp_def)

lemma sample_transfer: "transfer_dma sample_ll (Some p) None 4 s = (W25Q_SUCCESS, on_bus (Dma_Tx p 4) s)"
  by (simp add: transfer_dma_def Let_def sample_bus)

theorem w25q_writes_guarded_witness:
  "\<exists>s'. bsp_w25q64_page_program sample_ll 0x1000 4 (Some 10) sample_bsp = (W25Q_SUCCESS, s')
    \<and> confirmed_write OP_PAGE_PROGRAM 0x1000 [Dma_Tx 10 4] (bs_bus s')"
proof -
  obtain s' where "bsp_w25q64_page_program sample_ll 0x1000 4 (Some 10) sample_bsp = (W25Q_SUCCESS, s')"
    by (simp add: bsp_w25q64_page_program_def w25q_range_is_valid_def W25Q_CAPACITY_def W25Q_PAGE_SIZE_def bsp_w25q64_state_get_def
        status_read_def write_enable_def addressed_def sample_bus sample_reply_def sample_transfer STATUS_1_WIP_def STATUS_1_WEL_def)
  moreover from this have "confirmed_write OP_PAGE_PROGRAM 0x1000 [Dma_Tx 10 4] (bs_bus s')"
    using w25q_writes_guarded [of sample_ll "0x1000" 4 10 sample_bsp] by (auto simp: guarded_traffic_def sample_bsp_def)
  ultimately show ?thesis by blast
qed

end
