(* ===== verification/Hc32_Boot.thy ===== *)
theory Hc32_Boot
  imports Iap_Update Hc32_W25q64 Fal_Props
begin

text \<open>
  The HC32F334 bootloader image, platform/hc32f334/bootloader: the flash layout and the driver
  tables (fal_cfg.c), the boot decision and the jump (hc32_boot_platform.c) and the adapter that
  mounts both below the boot state machine (bootloader_fal_adapter.c).
\<close>

section \<open>The flash layout\<close>

definition EFM_BLOCK_SIZE :: u32 where "EFM_BLOCK_SIZE = 4 * 1024"
definition W25Q_BLOCK_SIZE :: u32 where "W25Q_BLOCK_SIZE = 4 * 1024"
definition BOOT_SIZE :: u32 where "BOOT_SIZE = 4 * EFM_BLOCK_SIZE"
definition IAP_SIZE :: u32 where "IAP_SIZE = 28 * EFM_BLOCK_SIZE"
definition FLASH_END :: u32 where "FLASH_END = 32 * EFM_BLOCK_SIZE"
definition STAGING_SIZE :: u32 where "STAGING_SIZE = 32 * W25Q_BLOCK_SIZE"
definition META_A_SIZE :: u32 where "META_A_SIZE = W25Q_BLOCK_SIZE"
definition META_B_SIZE :: u32 where "META_B_SIZE = W25Q_BLOCK_SIZE"
definition LAYOUT_SIZE :: u32 where "LAYOUT_SIZE = W25Q_BLOCK_SIZE"
definition IAP_BASE :: u32 where "IAP_BASE = BOOT_SIZE"

lemmas layout_constants =
  EFM_BLOCK_SIZE_def W25Q_BLOCK_SIZE_def BOOT_SIZE_def IAP_SIZE_def FLASH_END_def STAGING_SIZE_def META_A_SIZE_def META_B_SIZE_def
  LAYOUT_SIZE_def IAP_BASE_def

definition DEVICE_EFM :: u16 where "DEVICE_EFM = 1"
definition DEVICE_W25Q64 :: u16 where "DEVICE_W25Q64 = 2"

definition FAL_ZONE_BOOT :: u16 where "FAL_ZONE_BOOT = 1"
definition FAL_ZONE_IAP :: u16 where "FAL_ZONE_IAP = 2"
definition FAL_ZONE_STAGING :: u16 where "FAL_ZONE_STAGING = 3"
definition FAL_ZONE_META_A :: u16 where "FAL_ZONE_META_A = 4"
definition FAL_ZONE_META_B :: u16 where "FAL_ZONE_META_B = 5"
definition FAL_ZONE_LAYOUT :: u16 where "FAL_ZONE_LAYOUT = 6"

lemmas zone_ids =
  FAL_ZONE_BOOT_def FAL_ZONE_IAP_def FAL_ZONE_STAGING_def FAL_ZONE_META_A_def FAL_ZONE_META_B_def FAL_ZONE_LAYOUT_def

section \<open>Drivers\<close>

definition efm_converted :: "efm_result \<times> 'h bsp \<Rightarrow> fal_result \<times> 'h bsp" where
  "efm_converted r = (if fst r = EFM_SUCCESS then FAL_SUCCESS else FAL_DRIVER_ERROR, snd r)"

definition efm_init :: "'h ll \<Rightarrow> 'h bsp \<Rightarrow> fal_result \<times> 'h bsp" where
  "efm_init ll s =
     (case bsp_efm_flash_init ll s of
        (r, s1) \<Rightarrow>
          efm_converted (if r = EFM_SUCCESS then bsp_efm_flash_write_range_enable ll IAP_BASE IAP_SIZE s1 else (r, s1)))"

definition efm_state_get :: "'h bsp \<Rightarrow> fal_device_state \<times> 'h bsp" where
  "efm_state_get s = (if bsp_efm_flash_state_get s = EFM_READY then DEVICE_READY else DEVICE_ERROR, s)"

definition efm_read :: "'h bsp \<Rightarrow> u32 \<Rightarrow> u32 \<Rightarrow> nat option \<Rightarrow> fal_result \<times> 'h bsp" where
  "efm_read s address len p_data = efm_converted (bsp_efm_flash_read address len p_data s)"

definition efm_program :: "'h ll \<Rightarrow> 'h bsp \<Rightarrow> u32 \<Rightarrow> u32 \<Rightarrow> nat option \<Rightarrow> fal_result \<times> 'h bsp" where
  "efm_program ll s address len p_data = efm_converted (bsp_efm_flash_program ll address len p_data s)"

definition efm_erase :: "'h ll \<Rightarrow> 'h bsp \<Rightarrow> u32 \<Rightarrow> u32 \<Rightarrow> fal_result \<times> 'h bsp" where
  "efm_erase ll s address len = efm_converted (bsp_efm_flash_erase ll address len s)"

definition w25q_converted :: "w25q_result \<times> 'h bsp \<Rightarrow> fal_result \<times> 'h bsp" where
  "w25q_converted r = (if fst r = W25Q_SUCCESS then FAL_SUCCESS else FAL_DRIVER_ERROR, snd r)"

definition w25q_init :: "'h ll \<Rightarrow> 'h bsp \<Rightarrow> fal_result \<times> 'h bsp" where
  "w25q_init ll s = w25q_converted (bsp_w25q64_init ll s)"

definition w25q_state_get :: "'h ll \<Rightarrow> 'h bsp \<Rightarrow> fal_device_state \<times> 'h bsp" where
  "w25q_state_get ll s =
     (case bsp_w25q64_state_get ll s of
        (st, s1) \<Rightarrow>
          (if st = W25Q_STATE_READY then DEVICE_READY else if st = W25Q_STATE_BUSY then DEVICE_BUSY else DEVICE_ERROR, s1))"

definition w25q_read :: "'h ll \<Rightarrow> 'h bsp \<Rightarrow> u32 \<Rightarrow> u32 \<Rightarrow> nat option \<Rightarrow> fal_result \<times> 'h bsp" where
  "w25q_read ll s address len p_data = w25q_converted (bsp_w25q64_read ll address len p_data s)"

definition w25q_program :: "'h ll \<Rightarrow> 'h bsp \<Rightarrow> u32 \<Rightarrow> u32 \<Rightarrow> nat option \<Rightarrow> fal_result \<times> 'h bsp" where
  "w25q_program ll s address len p_data = w25q_converted (bsp_w25q64_page_program ll address len p_data s)"

definition w25q_erase :: "'h ll \<Rightarrow> 'h bsp \<Rightarrow> u32 \<Rightarrow> u32 \<Rightarrow> fal_result \<times> 'h bsp" where
  "w25q_erase ll s address len =
     (if W25Q_SECTOR_SIZE \<noteq> len then (FAL_INVALID_ARGUMENT, s) else w25q_converted (bsp_w25q64_sector_erase ll address s))"

definition efm_zones :: "fal_zone_cfg list" where
  "efm_zones =
     [\<lparr>z_zone_id = FAL_ZONE_BOOT, z_size = BOOT_SIZE, z_permissions = PERMISSION_READ\<rparr>,
      \<lparr>z_zone_id = FAL_ZONE_IAP, z_size = IAP_SIZE, z_permissions = PERMISSION_ALL\<rparr>]"

definition w25q64_zones :: "fal_zone_cfg list" where
  "w25q64_zones =
     [\<lparr>z_zone_id = FAL_ZONE_STAGING, z_size = STAGING_SIZE, z_permissions = PERMISSION_ALL\<rparr>,
      \<lparr>z_zone_id = FAL_ZONE_META_A, z_size = META_A_SIZE, z_permissions = PERMISSION_ALL\<rparr>,
      \<lparr>z_zone_id = FAL_ZONE_META_B, z_size = META_B_SIZE, z_permissions = PERMISSION_ALL\<rparr>,
      \<lparr>z_zone_id = FAL_ZONE_LAYOUT, z_size = LAYOUT_SIZE, z_permissions = PERMISSION_READ\<rparr>]"

definition hc32_devices :: "'h ll \<Rightarrow> 'h bsp fal_device_cfg list" where
  "hc32_devices ll =
     [\<lparr>d_device_id = DEVICE_EFM, d_capacity = EFM_CAPACITY, d_program_page_size = EFM_PROGRAM_SIZE,
       d_erase_block_size = EFM_ERASE_SIZE, d_max_read_size = 1024, d_zones = Some efm_zones,
       d_ops = \<lparr>p_init = Some (efm_init ll), p_get_state = Some efm_state_get, p_read = Some efm_read,
                p_program = Some (efm_program ll), p_erase = Some (efm_erase ll), p_sync = None\<rparr>,
       d_program_unit_size = 0\<rparr>,
      \<lparr>d_device_id = DEVICE_W25Q64, d_capacity = W25Q_CAPACITY, d_program_page_size = W25Q_PAGE_SIZE,
       d_erase_block_size = W25Q_SECTOR_SIZE, d_max_read_size = 1024, d_zones = Some w25q64_zones,
       d_ops = \<lparr>p_init = Some (w25q_init ll), p_get_state = Some (w25q_state_get ll), p_read = Some (w25q_read ll),
                p_program = Some (w25q_program ll), p_erase = Some (w25q_erase ll), p_sync = None\<rparr>,
       d_program_unit_size = 0\<rparr>]"

section \<open>The platform\<close>

text \<open>The retained request, the flash service, the drivers below it, and where an image was entered: the stack pointer and
  the address of its reset handler.\<close>

record 'h hc32 =
  h_boot_request :: "u8 list"
  h_fal :: "'h bsp fal"
  h_bsp :: "'h bsp"
  h_entered :: "(u32 \<times> u32) option"

definition stack_pointer_is_valid :: "u32 \<Rightarrow> bool" where
  "stack_pointer_is_valid stack_pointer \<longleftrightarrow>
     0x1FFFC000 \<le> stack_pointer \<and> stack_pointer \<le> 0x20004000
     \<or> 0x200F0000 \<le> stack_pointer \<and> stack_pointer \<le> 0x200F1000"

definition info_zeroed :: boot_upgrade_info where
  "info_zeroed = \<lparr>ui_module_id = 0, ui_file_size = 0, ui_version = 0, ui_update_type = 0\<rparr>"

definition boot_reason_get :: "'h hc32 world \<Rightarrow> boot_reason \<times> 'h hc32 world" where
  "boot_reason_get w =
     (if fst (boot_request_read (Some info_zeroed) (h_boot_request (w_platform w))) = 1 then REASON_IAP_REQUEST
      else REASON_POWER_ON, w)"

definition upgrade_info_get :: "'h hc32 world \<Rightarrow> (boot_result \<times> boot_upgrade_info) \<times> 'h hc32 world" where
  "upgrade_info_get w =
     (case boot_request_read (Some info_zeroed) (h_boot_request (w_platform w)) of
        (r, p_info) \<Rightarrow> ((if r = 1 then BOOT_SUCCESS else BOOT_IMAGE_INVALID, the p_info), w))"

definition boot_reason_clear :: "'h hc32 world \<Rightarrow> boot_result \<times> 'h hc32 world" where
  "boot_reason_clear w =
     (BOOT_SUCCESS, w\<lparr>w_platform := (w_platform w)\<lparr>h_boot_request := overwrite 0 (u32_le 0) (h_boot_request (w_platform w))\<rparr>\<rparr>)"

definition image_header_is_valid :: "'h hc32 world \<Rightarrow> u8 list \<Rightarrow> u32 \<Rightarrow> (boot_result \<times> u8) \<times> 'h hc32 world" where
  "image_header_is_valid w header image_size =
     (if length header < 8 then ((BOOT_INVALID_ARGUMENT, 0), w)
      else
        (let stack_pointer = le_u32 header; reset_handler = le_u32 (drop 4 header); reset_address = reset_handler AND NOT 1
         in ((BOOT_SUCCESS,
              if stack_pointer_is_valid stack_pointer \<and> reset_handler AND 1 \<noteq> 0 \<and> reset_address \<ge> IAP_BASE
                \<and> reset_address < FLASH_END \<and> image_size \<ge> 8 \<and> image_size \<le> IAP_SIZE
              then 1 else 0), w)))"

text \<open>The vectors are read through the memory-mapped flash; when the entered image returns, the call reports a failure.\<close>

definition jump_to_iap :: "'h hc32 world \<Rightarrow> boot_result \<times> 'h hc32 world" where
  "jump_to_iap w =
     (let efm = bs_efm (h_bsp (w_platform w));
          stack_pointer = le_u32 (bytes_at efm (unat IAP_BASE) 4); reset_handler = le_u32 (bytes_at efm (unat IAP_BASE + 4) 4)
      in if \<not> stack_pointer_is_valid stack_pointer \<or> reset_handler AND 1 = 0 then (BOOT_IMAGE_INVALID, w)
         else (BOOT_STORAGE_ERROR, w\<lparr>w_platform := (w_platform w)\<lparr>h_entered := Some (stack_pointer, reset_handler)\<rparr>\<rparr>))"

definition hc32_boot_platform_ops_make :: "'h hc32 boot_platform_ops" where
  "hc32_boot_platform_ops_make =
     \<lparr>o_boot_reason_get = Some boot_reason_get, o_upgrade_info_get = Some upgrade_info_get,
      o_boot_reason_clear = Some boot_reason_clear, o_image_header_is_valid = Some image_header_is_valid,
      o_jump_to_iap = Some jump_to_iap, o_watchdog_kick = None\<rparr>"

section \<open>The adapter\<close>

definition hc32_config :: boot_config where
  "hc32_config =
     \<lparr>c_expected_module_id = 2, c_default_mode = MODE_STAGED, c_image_header_length = 8, c_packet_buffer = True,
      c_packet_buffer_size = 1024, c_copy_buffer = True, c_copy_buffer_size = 4096, c_crc16_init = Some crc16_init,
      c_crc16_update = Some (\<lambda>d c. foldl crc16_update c d)\<rparr>"

definition packet_crc :: "u8 list \<Rightarrow> u16" where
  "packet_crc d = foldl crc16_update crc16_init d"

definition result_convert :: "fal_result \<Rightarrow> boot_result" where
  "result_convert result =
     (case result of
        FAL_SUCCESS \<Rightarrow> BOOT_SUCCESS | FAL_IN_PROGRESS \<Rightarrow> BOOT_IN_PROGRESS | FAL_BUSY \<Rightarrow> BOOT_BUSY
      | FAL_INVALID_ARGUMENT \<Rightarrow> BOOT_INVALID_ARGUMENT | FAL_OUT_OF_RANGE \<Rightarrow> BOOT_OUT_OF_RANGE
      | FAL_CONFIG_ERROR \<Rightarrow> BOOT_CONFIG_ERROR | FAL_PERMISSION_DENIED \<Rightarrow> BOOT_PERMISSION_DENIED
      | FAL_DRIVER_ERROR \<Rightarrow> BOOT_STORAGE_ERROR | FAL_STOPPED \<Rightarrow> BOOT_STORAGE_ERROR)"

definition fal_zone_get :: "flash_zone \<Rightarrow> u16" where
  "fal_zone_get zone =
     (case zone of ZONE_IAP \<Rightarrow> FAL_ZONE_IAP | ZONE_STAGING \<Rightarrow> FAL_ZONE_STAGING | ZONE_META_A \<Rightarrow> FAL_ZONE_META_A
      | ZONE_META_B \<Rightarrow> FAL_ZONE_META_B | ZONE_LAYOUT \<Rightarrow> FAL_ZONE_LAYOUT)"

text \<open>Where the linker put the two buffers.\<close>

record buffers =
  packet_at :: nat
  copy_at :: nat

definition buffer_address :: "buffers \<Rightarrow> buffer_ref \<Rightarrow> nat" where
  "buffer_address m buf = (case buf of Packet_Buffer \<Rightarrow> packet_at m | Copy_Buffer n \<Rightarrow> copy_at m + n)"

text \<open>A request to the shared instance \<open>g_hc32f334_fal\<close>.\<close>

definition on_fal :: "('h bsp fal option \<Rightarrow> fal_result \<times> 'h bsp fal option) \<Rightarrow> 'h hc32 world \<Rightarrow> boot_result \<times> 'h hc32 world" where
  "on_fal request w =
     (case request (Some (h_fal (w_platform w))) of
        (result, fal) \<Rightarrow> (result_convert result, w\<lparr>w_platform := (w_platform w)\<lparr>h_fal := the fal\<rparr>\<rparr>))"

definition bootloader_flash_zone_info_get :: "'h hc32 world \<Rightarrow> flash_zone \<Rightarrow> (boot_result \<times> boot_zone_info) \<times> 'h hc32 world" where
  "bootloader_flash_zone_info_get w zone =
     (case fal_zone_info_get (fal_zone_get zone) True (Some (h_fal (w_platform w))) of
        Inl result \<Rightarrow>
          ((result_convert result, \<lparr>zi_size = 0, zi_program_page_size = 0, zi_erase_block_size = 0, zi_readable = 0, zi_writable = 0,
                                   zi_erasable = 0\<rparr>), w)
      | Inr i \<Rightarrow>
          ((BOOT_SUCCESS, \<lparr>zi_size = i_size i, zi_program_page_size = i_program_page_size i, zi_erase_block_size = i_erase_block_size i,
                           zi_readable = (if i_permissions i AND PERMISSION_READ \<noteq> 0 then 1 else 0),
                           zi_writable = (if i_permissions i AND PERMISSION_WRITE \<noteq> 0 then 1 else 0),
                           zi_erasable = (if i_permissions i AND PERMISSION_ERASE \<noteq> 0 then 1 else 0)\<rparr>), w))"

definition bootloader_flash_read ::
  "buffers \<Rightarrow> 'h hc32 world \<Rightarrow> flash_zone \<Rightarrow> u32 \<Rightarrow> u32 \<Rightarrow> buffer_ref \<Rightarrow> boot_result \<times> 'h hc32 world" where
  "bootloader_flash_read m w zone off len buf = on_fal (fal_read (fal_zone_get zone) off len (Some (buffer_address m buf))) w"

definition bootloader_flash_write ::
  "buffers \<Rightarrow> 'h hc32 world \<Rightarrow> flash_zone \<Rightarrow> u32 \<Rightarrow> u32 \<Rightarrow> buffer_ref \<Rightarrow> boot_result \<times> 'h hc32 world" where
  "bootloader_flash_write m w zone off len buf = on_fal (fal_write (fal_zone_get zone) off len (Some (buffer_address m buf))) w"

definition bootloader_flash_erase :: "'h hc32 world \<Rightarrow> flash_zone \<Rightarrow> u32 \<Rightarrow> u32 \<Rightarrow> boot_result \<times> 'h hc32 world" where
  "bootloader_flash_erase w zone off len = on_fal (fal_erase (fal_zone_get zone) off len) w"

definition bootloader_flash_is_busy :: "'h hc32 world \<Rightarrow> u8 \<times> 'h hc32 world" where
  "bootloader_flash_is_busy w = (if fal_is_busy (Some (h_fal (w_platform w))) then 1 else 0, w)"

definition bootloader_flash_result_get :: "'h hc32 world \<Rightarrow> boot_result \<times> 'h hc32 world" where
  "bootloader_flash_result_get w = (result_convert (fal_result_get (Some (h_fal (w_platform w)))), w)"

definition hc32_flash_ops :: "buffers \<Rightarrow> 'h hc32 boot_flash_ops" where
  "hc32_flash_ops m =
     \<lparr>o_zone_info_get = Some bootloader_flash_zone_info_get, o_read = Some (bootloader_flash_read m),
      o_write = Some (bootloader_flash_write m), o_erase = Some bootloader_flash_erase,
      o_is_busy = Some bootloader_flash_is_busy, o_result_get = Some bootloader_flash_result_get\<rparr>"

text \<open>\<open>None\<close> is \<open>bootloader_halt\<close>; \<open>uart\<close> says whether the serial port came up.\<close>

definition bootloader_fal_adapter_init ::
  "buffers \<Rightarrow> bool \<Rightarrow> 'h hc32 boot \<Rightarrow> 'h hc32 boot_protocol \<Rightarrow> 'h hc32 world \<Rightarrow> ('h hc32 boot_protocol \<times> 'h hc32 world) option" where
  "bootloader_fal_adapter_init m uart b protocol w =
     (let fal_state = fal_state_get (Some (h_fal (w_platform w)))
      in if \<not> uart \<or> fal_state = STATE_UNINITIALIZED \<or> fal_state = STATE_ERROR \<or> fal_state = STATE_STOPPED then None
         else
           (case bootloader_flash_ops_init (Some b) (Some (hc32_flash_ops m)) of
              (r1, b1) \<Rightarrow>
                if r1 \<noteq> BOOT_SUCCESS then None
                else
                  (case bootloader_init b1 (Some hc32_config) (Some hc32_boot_platform_ops_make) w of
                     (r2, b2, w1) \<Rightarrow>
                       if r2 \<noteq> BOOT_SUCCESS then None
                       else
                         (case bootloader_protocol_init (Some protocol) b2 (Some packet_crc) (c_default_mode hc32_config) of
                            (r3, pr) \<Rightarrow>
                              if r3 \<noteq> BOOT_SUCCESS then None
                              else
                                (case bootloader_protocol_mount pr None of
                                   (r4, active) \<Rightarrow> if r4 \<noteq> BOOT_SUCCESS then None else Some (the active, w1))))))"

end
