(* ===== verification/Hc32_Props.thy ===== *)
theory Hc32_Props
  imports Hc32_Boot
begin

text \<open>
  Properties of the HC32F334 bootloader image: its flash layout is a valid one and keeps writers out
  of the bootloader's own partition, and a request the application retained is the one it acts on.
\<close>

section \<open>The layout\<close>

lemma hc32_zones:
  "zones (hc32_devices ll ! 0) = efm_zones" "zones (hc32_devices ll ! Suc 0) = w25q64_zones"
  by (simp_all add: hc32_devices_def zones_def)

lemma hc32_zone_values:
  "map (\<lambda>z. (z_zone_id z, unat (z_size z), z_permissions z)) efm_zones = [(1, 0x4000, 1), (2, 0x1C000, 7)]"
  "map (\<lambda>z. (z_zone_id z, unat (z_size z), z_permissions z)) w25q64_zones
    = [(3, 0x20000, 7), (4, 0x1000, 7), (5, 0x1000, 7), (6, 0x1000, 1)]"
  by (simp_all add: efm_zones_def w25q64_zones_def layout_constants zone_ids PERMISSION_ALL_def PERMISSION_READ_def
      PERMISSION_WRITE_def PERMISSION_ERASE_def)

lemma permission_or: "PERMISSION_ALL = 7"
  by (simp add: PERMISSION_ALL_def PERMISSION_READ_def PERMISSION_WRITE_def PERMISSION_ERASE_def)

lemma hc32_ids:
  assumes "i < length (hc32_devices ll)" "j < length (zones (hc32_devices ll ! i))"
  shows "z_zone_id (zones (hc32_devices ll ! i) ! j) = of_nat (if i = 0 then j + 1 else j + 3)"
    "i = 0 \<and> j < 2 \<or> i = 1 \<and> j < 4"
proof -
  have i: "i = 0 \<or> i = 1" using assms(1) by (auto simp: hc32_devices_def)
  then show c: "i = 0 \<and> j < 2 \<or> i = 1 \<and> j < 4"
    using assms(2) by (auto simp: hc32_zones efm_zones_def w25q64_zones_def)
  show "z_zone_id (zones (hc32_devices ll ! i) ! j) = of_nat (if i = 0 then j + 1 else j + 3)"
  proof (cases "i = 0")
    case True
    then have "j = 0 \<or> j = 1" using c by auto
    then show ?thesis using True by (auto simp: hc32_zones efm_zones_def zone_ids)
  next
    case False
    then have "i = 1" "j = 0 \<or> j = 1 \<or> j = 2 \<or> j = 3" using i c by auto
    then show ?thesis by (auto simp: hc32_zones w25q64_zones_def zone_ids)
  qed
qed

lemma hc32_ids_unique: "zone_ids_unique (hc32_devices ll)"
  unfolding zone_ids_unique_def
proof (intro allI impI)
  fix i j i' j'
  assume a: "i < length (hc32_devices ll)" "j < length (zones (hc32_devices ll ! i))"
    "i' < length (hc32_devices ll)" "j' < length (zones (hc32_devices ll ! i'))"
    and e: "z_zone_id (zones (hc32_devices ll ! i) ! j) = z_zone_id (zones (hc32_devices ll ! i') ! j')"
  note h = hc32_ids [OF a(1,2)] and h' = hc32_ids [OF a(3,4)]
  let ?n = "if i = 0 then j + 1 else j + 3" and ?n' = "if i' = 0 then j' + 1 else j' + 3"
  have "?n < 65536" "?n' < 65536" using h(2) h'(2) by auto
  moreover have "unat (of_nat ?n :: u16) = unat (of_nat ?n' :: u16)" using e h(1) h'(1) by simp
  ultimately have "?n = ?n'" by (simp only: unat_of_nat) simp
  then show "i = i' \<and> j = j'" using h(2) h'(2) by (auto split: if_splits)
qed

lemma hc32_layout_ok: "layout_ok (hc32_devices ll)"
proof -
  have "device_ok (hc32_devices ll ! 0)"
    unfolding device_ok_def geometry_ok_def zone_sizes_def hc32_zones
    by (simp add: hc32_devices_def zones_def driver_complete_def efm_zones_def zone_ok_def layout_constants EFM_CAPACITY_def
        EFM_PROGRAM_SIZE_def EFM_ERASE_SIZE_def permission_or PERMISSION_READ_def)
  moreover have "device_ok (hc32_devices ll ! 1)"
    unfolding device_ok_def geometry_ok_def zone_sizes_def hc32_zones
    by (simp add: hc32_devices_def zones_def driver_complete_def w25q64_zones_def zone_ok_def layout_constants W25Q_CAPACITY_def
        W25Q_PAGE_SIZE_def W25Q_SECTOR_SIZE_def permission_or PERMISSION_READ_def)
  moreover have "set (hc32_devices ll) = {hc32_devices ll ! 0, hc32_devices ll ! 1}"
    "distinct (map d_device_id (hc32_devices ll))"
    by (simp_all add: hc32_devices_def DEVICE_EFM_def DEVICE_W25Q64_def)
  ultimately show ?thesis using hc32_ids_unique by (auto simp: layout_ok_def)
qed

text \<open>Where a writer can reach: not the bootloader's partition, not the layout zone.\<close>

definition writable_range :: "u16 \<Rightarrow> nat \<Rightarrow> nat \<Rightarrow> bool" where
  "writable_range dev a n \<longleftrightarrow>
     dev = DEVICE_EFM \<and> unat IAP_BASE \<le> a \<and> a + n \<le> unat FLASH_END
     \<or> dev = DEVICE_W25Q64 \<and> a + n \<le> unat STAGING_SIZE + unat META_A_SIZE + unat META_B_SIZE"

lemma hc32_in_zone:
  assumes "d \<in> set (hc32_devices ll)" "in_zone d op a n" "op = OPERATION_WRITE \<or> op = OPERATION_ERASE"
  shows "writable_range (d_device_id d) a n"
proof -
  obtain j where j: "j < length (zones d)" "z_permissions (zones d ! j) AND operation_permission op \<noteq> 0"
      "zone_start d j \<le> a" "a + n \<le> zone_start d j + unat (z_size (zones d ! j))"
    using assms(2) by (auto simp: in_zone_def)
  have p: "(1 :: u8) AND operation_permission op = 0"
    using assms(3) by (auto simp: operation_permission_def PERMISSION_WRITE_def PERMISSION_ERASE_def)
  consider "d = hc32_devices ll ! 0" | "d = hc32_devices ll ! 1" using assms(1) by (auto simp: hc32_devices_def)
  then show ?thesis
  proof cases
    case 1
    then have z: "zones d = efm_zones" "d_device_id d = DEVICE_EFM" by (simp_all add: hc32_devices_def zones_def)
    then have "j = 0 \<or> j = 1" using j(1) by (auto simp: efm_zones_def)
    then have "j = 1" using j(2) p z(1) by (auto simp: efm_zones_def PERMISSION_READ_def)
    then show ?thesis
      using j(3,4) z by (simp add: writable_range_def zone_start_def zone_sizes_def efm_zones_def layout_constants)
  next
    case 2
    then have z: "zones d = w25q64_zones" "d_device_id d = DEVICE_W25Q64" by (simp_all add: hc32_devices_def zones_def)
    then have "j = 0 \<or> j = 1 \<or> j = 2 \<or> j = 3" using j(1) by (auto simp: w25q64_zones_def)
    then have "j = 0 \<or> j = 1 \<or> j = 2" using j(2) p z(1) by (auto simp: w25q64_zones_def PERMISSION_READ_def)
    then show ?thesis
      using j(3,4) z
      by (auto simp: writable_range_def zone_start_def zone_sizes_def w25q64_zones_def layout_constants numeral_2_eq_2)
  qed
qed

text \<open>C17: the HC32F334 flash service never destroys the bootloader.  Whatever is requested, at whatever moment, and whatever
  the two flash chips answer: once the service is up, every program and every erase of the internal flash lies in the
  application partition, and every one of the serial flash lies below the layout zone.\<close>

theorem hc32_writes_confined:
  assumes "fal_init (Some f0) (Some (Some (hc32_devices ll))) s = (FAL_SUCCESS, Some f, s1, cs0)" "fal_trace f cs g"
    and "Flash_Program dev a n p \<in> set cs \<or> Flash_Erase dev a n \<in> set cs"
  shows "writable_range dev (unat a) (unat n)"
proof -
  have "fal_inv (hc32_devices ll) f" by (rule fal_init_SUCCESS [OF assms(1)]; simp)
  then have c: "\<forall>c \<in> set cs. call_ok (hc32_devices ll) c" using fal_trace_inv [OF assms(2) hc32_layout_ok] by blast
  from assms(3) show ?thesis
  proof
    assume "Flash_Program dev a n p \<in> set cs"
    then show ?thesis using c hc32_in_zone by (fastforce simp: call_ok_def chunk_ok_def)
  next
    assume "Flash_Erase dev a n \<in> set cs"
    then show ?thesis using c hc32_in_zone by (fastforce simp: call_ok_def chunk_ok_def)
  qed
qed

lemma hc32_starts:
  "\<exists>f s cs. fal_init (Some fal_zeroed) (Some (Some (hc32_devices sample_ll))) sample_bsp = (FAL_SUCCESS, Some f, s, cs)
    \<and> f_state f = STATE_IDLE \<and> f_cfg f = Some (Some (hc32_devices sample_ll)) \<and> f_operation f = OPERATION_NONE \<and> \<not> f_stop_requested f
    \<and> \<not> bs_efm_error s"
proof -
  have v: "cfg_validate (hc32_devices sample_ll) = FAL_SUCCESS" using hc32_layout_ok cfg_validate_iff by blast
  have e: "\<exists>s'. efm_init sample_ll s = (FAL_SUCCESS, s') \<and> \<not> bs_efm_error s'" for s
    by (simp add: efm_init_def bsp_efm_flash_init_def bsp_efm_flash_write_range_enable_def efm_converted_def layout_constants
        EFM_ERASE_SIZE_def efm_range_is_valid_def EFM_CAPACITY_def)
  have "ll_spi_setup sample_ll h = (True, h)" for h by (simp add: sample_ll_def)
  then have "\<exists>s'. w25q_init sample_ll s = (FAL_SUCCESS, s') \<and> bs_efm_error s' = bs_efm_error s" for s
    by (simp add: w25q_init_def bsp_w25q64_init_def bsp_w25q64_read_jedec_id_def w25q_converted_def sample_bus sample_reply_def
        EXPECTED_JEDEC_ID_def Let_def on_bus_def)
  moreover obtain s1 where "efm_init sample_ll sample_bsp = (FAL_SUCCESS, s1)" "\<not> bs_efm_error s1" using e by blast
  ultimately obtain s2 where "efm_init sample_ll sample_bsp = (FAL_SUCCESS, s1)" "w25q_init sample_ll s1 = (FAL_SUCCESS, s2)"
      "\<not> bs_efm_error s2" by metis
  then obtain cs where d: "devices_init (hc32_devices sample_ll) sample_bsp = (FAL_SUCCESS, s2, cs)"
    by (simp add: hc32_devices_def)
  have "hc32_devices sample_ll \<noteq> []" by (simp add: hc32_devices_def)
  then show ?thesis using d v \<open>\<not> bs_efm_error s2\<close> by (simp add: fal_init_def fal_zeroed_def Let_def)
qed

theorem hc32_writes_confined_witness:
  "\<exists>f s cs0 cs g. fal_init (Some fal_zeroed) (Some (Some (hc32_devices sample_ll))) sample_bsp = (FAL_SUCCESS, Some f, s, cs0)
    \<and> fal_trace f cs g \<and> Flash_Erase DEVICE_EFM 0x4000 0x1000 \<in> set cs \<and> writable_range DEVICE_EFM 0x4000 0x1000"
proof -
  obtain f s cs0 where i: "fal_init (Some fal_zeroed) (Some (Some (hc32_devices sample_ll))) sample_bsp = (FAL_SUCCESS, Some f, s, cs0)"
    and f: "f_state f = STATE_IDLE" "f_cfg f = Some (Some (hc32_devices sample_ll))" "f_operation f = OPERATION_NONE"
    using hc32_starts by blast
  have z: "zone_find (hc32_devices sample_ll) FAL_ZONE_IAP
      = Some (efm_zones ! 1, hc32_devices sample_ll ! 0, BOOT_SIZE)"
    by (simp add: hc32_devices_def zones_def efm_zones_def zone_ids)
  let ?g = "request_begin (hc32_devices sample_ll ! 0) OPERATION_ERASE STATE_ERASE 0x4000 0x1000 f"
  have "fal_erase FAL_ZONE_IAP 0 0x1000 (Some f) = (FAL_IN_PROGRESS, Some ?g)"
    using f by (simp add: fal_erase_def request_validate_def fal_is_busy_def z)
      (simp add: efm_zones_def hc32_devices_def layout_constants PERMISSION_ERASE_def permission_or EFM_ERASE_SIZE_def Let_def)
  then have e: "fal_step f [] ?g" by (rule step_erase)
  have "\<exists>h x. fal_process (Some ?g) sample_bsp = (Some h, x, [Flash_Erase DEVICE_EFM 0x4000 0x1000])"
    using f by (simp add: fal_process_def request_begin_def hc32_devices_def device_process_def efm_state_get_def sample_bsp_def
        bsp_efm_flash_state_get_def operation_issue_def Let_def EFM_ERASE_SIZE_def split: prod.split)
  then obtain h where "fal_step ?g [Flash_Erase DEVICE_EFM 0x4000 0x1000] h" using step_process by metis
  then have t: "fal_trace f ([] @ [] @ [Flash_Erase DEVICE_EFM 0x4000 0x1000]) h"
    using trace_step [OF trace_step [OF trace_refl e]] by fastforce
  have "writable_range DEVICE_EFM (unat (0x4000 :: u32)) (unat (0x1000 :: u32))"
    by (rule hc32_writes_confined [OF i t]) simp
  then show ?thesis using i t by fastforce
qed

section \<open>The boot decision\<close>

lemma hc32_ops_valid: "flash_ops_valid (Some (hc32_flash_ops m))" "platform_ops_valid (Some hc32_boot_platform_ops_make)"
  "\<not> config_invalid hc32_config"
  by (simp_all add: flash_ops_valid_def hc32_flash_ops_def platform_ops_valid_def hc32_boot_platform_ops_make_def
      config_invalid_def hc32_config_def PACKET_DATA_SIZE_def METADATA_ENCODED_SIZE_def MODE_STAGED_def)

lemma read_any: "boot_request_read (Some j) m = (1, Some i) \<Longrightarrow> boot_request_read (Some j') m = (1, Some i)"
  "fst (boot_request_read (Some j) m) \<noteq> 1 \<Longrightarrow> boot_request_read (Some j') m = (0, Some j')"
  by (auto simp: boot_request_read_def split: if_splits)

lemma init_some: "\<exists>r b w'. bootloader_init (Some b0) p_config p_ops w = (r, Some b, w')"
  by (simp add: bootloader_init_def Let_def case_prod_beta split: option.split)

lemma hc32_init_platform:
  assumes "b_flash_ops b0 = hc32_flash_ops m"
    and "bootloader_init (Some b0) (Some hc32_config) (Some hc32_boot_platform_ops_make) w = (r, Some b, w')"
  shows "r = BOOT_SUCCESS \<and> w_platform w' = w_platform w"
  using assms hc32_ops_valid
  by (auto simp: bootloader_init_def hc32_boot_platform_ops_make_def boot_reason_get_def upgrade_info_get_def Let_def logged_def
      boot_zeroed_def split: if_splits prod.splits)

text \<open>The boot decision.  The bootloader starts in the upgrade of exactly the request that is complete in the retained
  memory, and as after power-on when there is none; once the boot reason is cleared, which precedes every jump, the next
  start finds no request.\<close>

theorem hc32_boot_decision:
  assumes "b_flash_ops b0 = hc32_flash_ops m"
    and "bootloader_init (Some b0) (Some hc32_config) (Some hc32_boot_platform_ops_make) w = (r, Some b, w')"
  shows "r = BOOT_SUCCESS \<and> w_platform w' = w_platform w
    \<and> (\<forall>i. boot_request_read (Some info_zeroed) (h_boot_request (w_platform w)) = (1, Some i) \<longrightarrow>
          b_boot_reason b = REASON_IAP_REQUEST \<and> b_startup_upgrade_info_valid b \<and> b_startup_upgrade_info b = i)
    \<and> (fst (boot_request_read (Some info_zeroed) (h_boot_request (w_platform w))) \<noteq> 1 \<longrightarrow>
          b_boot_reason b = REASON_POWER_ON \<and> \<not> b_startup_upgrade_info_valid b)
    \<and> boot_request_read (Some info_zeroed) (h_boot_request (w_platform (snd (boot_reason_clear w)))) = (0, Some info_zeroed)"
proof -
  have "boot_request_read (Some info_zeroed) (overwrite 0 (u32_le 0) q) = (0, Some info_zeroed)" for q
    by (rule refused_byte [of 0]) (simp_all add: overwrite_def u32_le_def)
  then have "boot_request_read (Some info_zeroed) (h_boot_request (w_platform (snd (boot_reason_clear w)))) = (0, Some info_zeroed)"
    by (simp add: boot_reason_clear_def)
  moreover have "r = BOOT_SUCCESS \<and> w_platform w' = w_platform w" by (rule hc32_init_platform [OF assms])
  moreover have "b_boot_reason b = REASON_IAP_REQUEST \<and> b_startup_upgrade_info_valid b \<and> b_startup_upgrade_info b = i"
    if "boot_request_read (Some info_zeroed) (h_boot_request (w_platform w)) = (1, Some i)" for i
    using assms hc32_ops_valid that
    by (auto simp: bootloader_init_def hc32_boot_platform_ops_make_def boot_reason_get_def upgrade_info_get_def Let_def logged_def
        boot_zeroed_def split: if_splits prod.splits)
  moreover have "b_boot_reason b = REASON_POWER_ON \<and> \<not> b_startup_upgrade_info_valid b"
    if "fst (boot_request_read (Some info_zeroed) (h_boot_request (w_platform w))) \<noteq> 1"
    using assms hc32_ops_valid that
    by (auto simp: bootloader_init_def hc32_boot_platform_ops_make_def boot_reason_get_def Let_def boot_zeroed_def split: if_splits)
  ultimately show ?thesis by blast
qed

definition sample_hc32 :: "u8 list \<Rightarrow> unit hc32 world" where
  "sample_hc32 retained =
     \<lparr>w_packet = replicate 1024 0, w_copy = replicate 4096 0,
      w_platform = \<lparr>h_boot_request = retained, h_fal = fal_zeroed,
                    h_bsp = sample_bsp\<lparr>bs_efm := put_bytes 0x4000 [0, 0, 0, 0x20, 1, 0x41, 0, 0] (\<lambda>_. 0xFF)\<rparr>, h_entered = None\<rparr>,
      w_log = []\<rparr>"

theorem hc32_boot_decision_witness:
  "\<exists>b w'. bootloader_init (Some (boot_zeroed (hc32_flash_ops \<lparr>packet_at = 0, copy_at = 4096\<rparr>))) (Some hc32_config)
      (Some hc32_boot_platform_ops_make) (sample_hc32 (boot_request_set sample_request (replicate 16 7))) = (BOOT_SUCCESS, Some b, w')
    \<and> b_boot_reason b = REASON_IAP_REQUEST \<and> b_startup_upgrade_info b = sample_info"
proof -
  let ?w = "sample_hc32 (boot_request_set sample_request (replicate 16 7))"
  let ?b0 = "boot_zeroed (hc32_flash_ops \<lparr>packet_at = 0, copy_at = 4096\<rparr>)"
  obtain r b w' where i: "bootloader_init (Some ?b0) (Some hc32_config) (Some hc32_boot_platform_ops_make) ?w = (r, Some b, w')"
    using init_some by blast
  have "boot_request_read (Some info_zeroed) (boot_request_set sample_request (replicate 16 7)) = (1, Some sample_info)"
    using request_read_back [OF _ length_sample_request, of "replicate 16 7" info_zeroed]
    by (simp add: REQUEST_SIZE_def sample_request_def info_request_bytes sample_info_def)
  then have "r = BOOT_SUCCESS" "b_boot_reason b = REASON_IAP_REQUEST" "b_startup_upgrade_info b = sample_info"
    using hc32_boot_decision [OF _ i] by (simp_all add: boot_zeroed_def sample_hc32_def)
  then show ?thesis using i by blast
qed

text \<open>C18: the entered image.  If the header check accepts the first words of the application partition, the jump enters the
  image with a stack in SRAM and at a Thumb address inside the application partition.\<close>

theorem hc32_jump_target:
  assumes "image_header_is_valid w (bytes_at (bs_efm (h_bsp (w_platform w))) (unat IAP_BASE) 8) image_size = ((BOOT_SUCCESS, 1), w)"
  shows "\<exists>sp entry. h_entered (w_platform (snd (jump_to_iap w))) = Some (sp, entry) \<and> stack_pointer_is_valid sp
    \<and> entry AND 1 \<noteq> 0 \<and> unat IAP_BASE \<le> unat (entry AND NOT 1) \<and> unat (entry AND NOT 1) < unat FLASH_END"
proof -
  let ?f = "bs_efm (h_bsp (w_platform w))"
  have s: "le_u32 (bytes_at ?f a 8) = le_u32 (bytes_at ?f a 4)" "drop 4 (bytes_at ?f a 8) = bytes_at ?f (a + 4) 4" for a
    using bytes_at_split [of ?f a 4 4] by (simp_all add: le_u32_def nth_append)
  let ?sp = "le_u32 (bytes_at ?f (unat IAP_BASE) 4)" and ?e = "le_u32 (bytes_at ?f (unat IAP_BASE + 4) 4)"
  have "stack_pointer_is_valid ?sp" "?e AND 1 \<noteq> 0" "IAP_BASE \<le> ?e AND NOT 1" "?e AND NOT 1 < FLASH_END"
    using assms by (auto simp: image_header_is_valid_def s Let_def split: if_splits)
  then show ?thesis
    by (intro exI [of _ ?sp] exI [of _ ?e]) (simp add: jump_to_iap_def Let_def word_le_nat_alt word_less_nat_alt)
qed

theorem hc32_jump_target_witness:
  "h_entered (w_platform (snd (jump_to_iap (sample_hc32 [])))) = Some (0x20000000, 0x4101)"
proof -
  let ?w = "sample_hc32 []"
  have b: "bytes_at (bs_efm (h_bsp (w_platform ?w))) (unat IAP_BASE) 8 = [0, 0, 0, 0x20, 1, 0x41, 0, 0]"
    by (simp add: bytes_at_def put_bytes_def sample_hc32_def layout_constants upt_conv_Cons)
  have v: "le_u32 [0, 0, 0, 0x20, 1, 0x41, 0, 0] = 0x20000000" "le_u32 [1, 0x41, 0, 0] = 0x4101"
    by (simp_all add: le_u32_def)
  have "image_header_is_valid ?w (bytes_at (bs_efm (h_bsp (w_platform ?w))) (unat IAP_BASE) 8) 0x1000 = ((BOOT_SUCCESS, 1), ?w)"
    unfolding b by (simp add: image_header_is_valid_def v stack_pointer_is_valid_def layout_constants Let_def)
  from hc32_jump_target [OF this]
  obtain sp e where h: "h_entered (w_platform (snd (jump_to_iap ?w))) = Some (sp, e)" by blast
  have "sp = le_u32 (bytes_at (bs_efm (h_bsp (w_platform ?w))) (unat IAP_BASE) 4)"
    "e = le_u32 (bytes_at (bs_efm (h_bsp (w_platform ?w))) (unat IAP_BASE + 4) 4)"
    using h by (auto simp: jump_to_iap_def Let_def sample_hc32_def split: if_splits)
  then have "sp = 0x20000000" "e = 0x4101"
    by (simp_all add: bytes_at_def put_bytes_def sample_hc32_def layout_constants upt_conv_Cons le_u32_def)
  then show ?thesis using h by simp
qed

end
