(* ===== verification/Hc32_System.thy ===== *)
theory Hc32_System
  imports Hc32_Props
begin

text \<open>
  The composed system on the HC32F334: the boot state machine on the flash service that the adapter
  mounts below it, both polled from the same main loop (bootloader_protocol_process and
  fal_service_process).  The link between the two is an invariant: a request that the service is
  carrying out is the last event of the boot log, and the state machine is waiting for it.
\<close>

section \<open>Runs\<close>

definition fal_of :: "'h hc32 world \<Rightarrow> 'h bsp fal" where
  "fal_of w = h_fal (w_platform w)"

text \<open>\<open>fal_service_process\<close>: one poll of the shared instance on the drivers' state.\<close>

definition fal_service_process :: "'h bsp \<Rightarrow> 'h hc32 world \<Rightarrow> 'h hc32 world \<times> flash_call list" where
  "fal_service_process s w =
     (case fal_process (Some (fal_of w)) s of
        (fal, s1, calls) \<Rightarrow> (w\<lparr>w_platform := (w_platform w)\<lparr>h_fal := the fal, h_bsp := s1\<rparr>\<rparr>, calls))"

inductive api_call :: "'x boot \<times> 'x world \<Rightarrow> 'x boot \<times> 'x world \<Rightarrow> bool" where
  api_process: "bootloader_process (Some b) w = (Some b', w') \<Longrightarrow> api_call (b, w) (b', w')"
| api_begin: "bootloader_upgrade_begin (Some b) p_info mode w = (r, Some b', w') \<Longrightarrow> api_call (b, w) (b', w')"
| api_packet: "(\<And>d. p_data = Some d \<Longrightarrow> unat len \<le> length d) \<Longrightarrow> bootloader_packet_submit (Some b) offset p_data len w = (r, Some b', w')
    \<Longrightarrow> api_call (b, w) (b', w')"
| api_end: "bootloader_upgrade_end (Some b) expected_crc w = (r, Some b', w') \<Longrightarrow> api_call (b, w) (b', w')"

text \<open>Any interleaving of the two.  The driver's state before a poll is arbitrary; the data of a read appears in the buffer
  that the read names, and nothing else of the bootloader's memory changes.  The history pairs every call of a driver with the
  boot log at that moment.\<close>

inductive hc32_run :: "'h hc32 boot \<times> 'h hc32 world \<Rightarrow> (boot_event list \<times> flash_call) list \<Rightarrow> 'h hc32 boot \<times> 'h hc32 world \<Rightarrow> bool" where
  run_refl: "hc32_run s [] s"
| run_api: "hc32_run s h (b, w) \<Longrightarrow> api_call (b, w) (b', w') \<Longrightarrow> hc32_run s h (b', w')"
| run_fal: "hc32_run s h (b, w) \<Longrightarrow> fal_service_process d w = (w1, calls)
    \<Longrightarrow> (\<not> reading_copy (w_log w) \<Longrightarrow> cp = w_copy w) \<Longrightarrow> (\<not> reading_packet (w_log w) \<Longrightarrow> pk = w_packet w)
    \<Longrightarrow> hc32_run s (h @ map (Pair (w_log w)) calls) (b, w1\<lparr>w_copy := cp, w_packet := pk\<rparr>)"

lemma api_boot_step: "api_call s t \<Longrightarrow> boot_step s t"
  by (induction rule: api_call.induct) (auto intro: boot_step.intros)

lemma fal_service_log: "fal_service_process d w = (w1, calls) \<Longrightarrow> w_log w1 = w_log w \<and> w_copy w1 = w_copy w \<and> w_packet w1 = w_packet w"
  by (auto simp: fal_service_process_def split: prod.splits)

lemma run_boot_steps: "hc32_run s h t \<Longrightarrow> boot_step\<^sup>*\<^sup>* s t"
proof (induction rule: hc32_run.induct)
  case (run_api s h b w b' w')
  then show ?case using api_boot_step rtranclp.rtrancl_into_rtrancl by metis
next
  case (run_fal s h b w d w1 calls cp pk)
  have "boot_step (b, w) (b, w1\<lparr>w_copy := cp, w_packet := pk\<rparr>)"
    by (rule bs_environment) (use fal_service_log [OF run_fal(2)] run_fal(3,4) in auto)
  then show ?case using run_fal.IH rtranclp.rtrancl_into_rtrancl by metis
qed simp

section \<open>What a poll calls\<close>

text \<open>The driver is only asked for the operation in progress, on its device.\<close>

definition call_matches :: "'x fal \<Rightarrow> flash_call \<Rightarrow> bool" where
  "call_matches f c =
     (case c of
        Flash_Init dev \<Rightarrow> False
      | Flash_Read dev a n p \<Rightarrow> f_operation f = OPERATION_READ \<and> dev = f_active_device_id f
      | Flash_Program dev a n p \<Rightarrow> f_operation f = OPERATION_WRITE \<and> dev = f_active_device_id f
      | Flash_Erase dev a n \<Rightarrow> f_operation f = OPERATION_ERASE \<and> dev = f_active_device_id f
      | Flash_Sync dev \<Rightarrow> f_operation f \<noteq> OPERATION_NONE)"

lemma issue_calls:
  assumes "operation_issue d f x = (r, g, x1, calls)" "d_device_id d = f_active_device_id f"
  shows "\<forall>c \<in> set calls. call_matches f c"
  using assms
  by (cases "f_operation f") (auto simp: operation_issue_def call_matches_def Let_def split: prod.splits)

lemma sync_calls_match:
  assumes "operation_complete_or_sync d f x = (g, x1, calls)" "f_operation f \<noteq> OPERATION_NONE"
  shows "\<forall>c \<in> set calls. call_matches f c"
  using assms by (auto simp: operation_complete_or_sync_def call_matches_def split: option.splits prod.splits if_splits)

text \<open>A poll leaves the operation on its device, or ends it.\<close>

definition goes_on :: "'x fal \<Rightarrow> 'x fal \<Rightarrow> bool" where
  "goes_on f g \<longleftrightarrow> f_operation g = OPERATION_NONE \<or> f_operation g = f_operation f \<and> f_active_device_id g = f_active_device_id f"

lemma goes_on_simps [simp]: "goes_on f f" "goes_on f (operation_finish r g)"
  "goes_on f (g\<lparr>f_state := s\<rparr>) = goes_on f g" "goes_on f (g\<lparr>f_chunk_length := n\<rparr>) = goes_on f g"
  "goes_on f (g\<lparr>f_sync_issued := y\<rparr>) = goes_on f g"
  by (simp_all add: goes_on_def)

lemma commit_goes_on: "goes_on f (completed_chunk_commit f)" "f_operation (completed_chunk_commit f) = f_operation f"
  by (cases "f_operation f"; simp add: goes_on_def completed_chunk_commit_def Let_def)+

lemma goes_on_trans: "goes_on f g \<Longrightarrow> goes_on g h \<Longrightarrow> goes_on f h"
  by (auto simp: goes_on_def)

lemma issue_goes_on: "operation_issue d f x = (r, g, x1, calls) \<Longrightarrow> goes_on f g"
  by (cases "f_operation f") (auto simp: operation_issue_def goes_on_def Let_def split: prod.splits if_splits)

lemma sync_goes_on: "operation_complete_or_sync d f x = (g, x1, calls) \<Longrightarrow> goes_on f g"
  by (auto simp: operation_complete_or_sync_def goes_on_def split: option.splits prod.splits if_splits)

lemma call_matches_commit: "call_matches (completed_chunk_commit f) c = call_matches f c"
proof -
  have "f_active_device_id (completed_chunk_commit f) = f_active_device_id f"
    by (cases "f_operation f") (simp_all add: completed_chunk_commit_def Let_def)
  then show ?thesis by (simp add: call_matches_def commit_goes_on split: flash_call.split)
qed

lemma device_calls:
  assumes "device_process d f x = (g, x1, calls)" "d_device_id d = f_active_device_id f" "f_operation f \<noteq> OPERATION_NONE"
  shows "(\<forall>c \<in> set calls. call_matches f c) \<and> goes_on f g"
proof -
  obtain st x0 where st: "the (p_get_state (d_ops d)) x = (st, x0)" by fastforce
  obtain r g1 x2 cs where i: "operation_issue d f x0 = (r, g1, x2, cs)" by (metis surj_pair)
  obtain g2 x3 cs3 where y: "operation_complete_or_sync d (completed_chunk_commit f) x0 = (g2, x3, cs3)" by (metis surj_pair)
  have a: "(\<forall>c \<in> set cs. call_matches f c) \<and> goes_on f g1" using issue_calls [OF i assms(2)] issue_goes_on [OF i] by blast
  have b: "(\<forall>c \<in> set cs3. call_matches f c) \<and> goes_on f g2"
    using sync_calls_match [OF y] sync_goes_on [OF y] commit_goes_on assms(3) goes_on_trans call_matches_commit by metis
  show ?thesis
    using assms(1) a b commit_goes_on(1) [of f]
    by (auto simp: device_process_def st i y Let_def split: if_splits)
qed

lemma process_calls:
  assumes "fal_process (Some f) x = (Some g, x1, calls)"
  shows "(\<forall>c \<in> set calls. call_matches f c) \<and> goes_on f g"
proof (cases "f_cfg f = None \<or> f_operation f = OPERATION_NONE")
  case True
  then show ?thesis using assms by (auto simp: fal_process_def)
next
  case False
  show ?thesis
  proof (cases "List.find (\<lambda>d. d_device_id d = f_active_device_id f) (the (the (f_cfg f)))")
    case None
    then show ?thesis using assms False by (auto simp: fal_process_def)
  next
    case (Some d)
    then have d: "d_device_id d = f_active_device_id f" by (auto simp: find_Some_iff)
    obtain g' x' cs where dp: "device_process d f x = (g', x', cs)" by (metis surj_pair)
    show ?thesis using device_calls [OF dp d] assms False Some dp by (auto simp: fal_process_def)
  qed
qed

section \<open>The link\<close>

definition idle :: "'h hc32 world \<Rightarrow> bool" where
  "idle w \<longleftrightarrow> f_operation (fal_of w) = OPERATION_NONE"

definition started_by :: "boot_event \<Rightarrow> 'h bsp fal \<Rightarrow> bool" where
  "started_by ev f \<longleftrightarrow>
     (case ev of
        Ev_Read z off len buf r \<Rightarrow> f_operation f = OPERATION_READ
      | Ev_Write z off d r \<Rightarrow> f_operation f = OPERATION_WRITE \<and> (f_active_device_id f = DEVICE_EFM \<longrightarrow> z = ZONE_IAP)
      | Ev_Erase z off len r \<Rightarrow> f_operation f = OPERATION_ERASE \<and> (f_active_device_id f = DEVICE_EFM \<longrightarrow> z = ZONE_IAP)
      | _ \<Rightarrow> False)"

definition linked :: "'h hc32 boot \<Rightarrow> 'h hc32 world \<Rightarrow> bool" where
  "linked b w \<longleftrightarrow> idle w \<or> waiting (b_state b) \<and> (\<exists>log ev. w_log w = log @ [ev] \<and> started_by ev (fal_of w))"

lemma linked_idle: "idle w \<Longrightarrow> linked b w"
  by (simp add: linked_def)

lemma idle_log [simp]: "idle (w\<lparr>w_log := l\<rparr>) = idle w" "idle (logged w evs w') = idle w'" "idle (w\<lparr>w_copy := c\<rparr>) = idle w"
  "idle (w\<lparr>w_packet := c\<rparr>) = idle w" "fal_of (logged w evs w') = fal_of w'" "fal_of (w\<lparr>w_packet := c\<rparr>) = fal_of w"
  "fal_of (w\<lparr>w_copy := c\<rparr>) = fal_of w"
  by (simp_all add: idle_def fal_of_def logged_def)

text \<open>Where the zones of the bootloader are.\<close>

lemma hc32_zone_find:
  "zone_find (hc32_devices ll) (fal_zone_get z) = Some (zc, d, off) \<Longrightarrow> d_device_id d = DEVICE_EFM \<Longrightarrow> z = ZONE_IAP"
  by (cases z) (auto simp: fal_zone_get_def hc32_devices_def zones_def efm_zones_def w25q64_zones_def zone_ids DEVICE_EFM_def
      DEVICE_W25Q64_def)

lemma validate_zone:
  assumes "request_validate (Some f) zid off len perm = Inr (zc, d, a)" "f_cfg f = Some (Some ds)"
  shows "zone_find ds zid = Some (zc, d, a)" "f_operation f = OPERATION_NONE"
  using assms by (auto simp: request_validate_def fal_is_busy_def split: if_splits option.splits prod.splits)

lemma read_starts:
  assumes "fal_read zid off len p (Some f) = (r, Some g)" "f_operation f = OPERATION_NONE"
  shows "f_operation g = OPERATION_NONE \<or> r = FAL_IN_PROGRESS \<and> f_operation g = OPERATION_READ"
  using assms by (auto simp: fal_read_def request_begin_def split: if_splits sum.splits prod.splits)

lemma write_starts:
  assumes "fal_write (fal_zone_get z) off len p (Some f) = (r, Some g)" "f_operation f = OPERATION_NONE" "f_cfg f = Some (Some (hc32_devices ll))"
  shows "f_operation g = OPERATION_NONE \<or> r = FAL_IN_PROGRESS \<and> f_operation g = OPERATION_WRITE
    \<and> (f_active_device_id g = DEVICE_EFM \<longrightarrow> z = ZONE_IAP)"
proof (cases "request_validate (Some f) (fal_zone_get z) off len PERMISSION_WRITE")
  case (Inl e)
  then show ?thesis using assms(1,2) by (auto simp: fal_write_def split: if_splits)
next
  case (Inr v)
  obtain zc d a where v: "v = (zc, d, a)" by (metis surj_pair)
  note zone = hc32_zone_find [OF validate_zone(1) [OF Inr [unfolded v] assms(3)]]
  show ?thesis using assms(1,2) Inr v zone by (auto simp: fal_write_def request_begin_def split: if_splits)
qed

lemma erase_starts:
  assumes "fal_erase (fal_zone_get z) off len (Some f) = (r, Some g)" "f_operation f = OPERATION_NONE" "f_cfg f = Some (Some (hc32_devices ll))"
  shows "f_operation g = OPERATION_NONE \<or> r = FAL_IN_PROGRESS \<and> f_operation g = OPERATION_ERASE
    \<and> (f_active_device_id g = DEVICE_EFM \<longrightarrow> z = ZONE_IAP)"
proof (cases "request_validate (Some f) (fal_zone_get z) off len PERMISSION_ERASE")
  case (Inl e)
  then show ?thesis using assms(1,2) by (auto simp: fal_erase_def)
next
  case (Inr v)
  obtain zc d a where v: "v = (zc, d, a)" by (metis surj_pair)
  note zone = hc32_zone_find [OF validate_zone(1) [OF Inr [unfolded v] assms(3)]]
  show ?thesis using assms(1,2) Inr v zone by (auto simp: fal_erase_def request_begin_def Let_def split: if_splits)
qed


section \<open>Requests\<close>

definition served_by :: "buffers \<Rightarrow> 'h hc32 boot \<Rightarrow> bool" where
  "served_by m b \<longleftrightarrow> mounts b = (hc32_config, hc32_flash_ops m, hc32_boot_platform_ops_make)"

lemma served_byD:
  assumes "served_by m b"
  shows "b_flash_ops b = hc32_flash_ops m" "b_platform_ops b = hc32_boot_platform_ops_make" "b_config b = hc32_config"
  using assms by (simp_all add: served_by_def mounts_def)

lemma requests_some:
  "\<exists>r g. fal_read z off len p (Some f) = (r, Some g)" "\<exists>r g. fal_write z off len p (Some f) = (r, Some g)"
  "\<exists>r g. fal_erase z off len (Some f) = (r, Some g)"
  by (auto simp: fal_read_def fal_write_def fal_erase_def Let_def split: sum.splits prod.splits)

text \<open>A request has been made: either it is not being carried out, or it was accepted and is the last event of the log.\<close>

definition asked :: "'h hc32 world \<Rightarrow> boot_result \<Rightarrow> 'h hc32 world \<Rightarrow> bool" where
  "asked w r w1 \<longleftrightarrow>
     fal_step (fal_of w) [] (fal_of w1)
     \<and> (idle w1 \<or> accepted r \<and> (\<exists>ev. w_log w1 = w_log w @ [ev] \<and> started_by ev (fal_of w1)))"

lemma read_asked:
  assumes "flash_read z off len buf b w = (r, w1)" "served_by m b" "idle w"
  shows "asked w r w1"
proof -
  obtain r0 g where g: "fal_read (fal_zone_get z) off len (Some (buffer_address m buf)) (Some (fal_of w)) = (r0, Some g)"
    using requests_some(1) by blast
  have r: "r = result_convert r0" "w_log w1 = w_log w @ [Ev_Read z off len buf r]" "fal_of w1 = g"
    using assms(1,2) g by (auto simp: flash_read_def served_byD hc32_flash_ops_def bootloader_flash_read_def on_fal_def fal_of_def logged_def)
  show ?thesis
    using read_starts [OF g] assms(3) step_read [OF g] r
    by (auto simp: asked_def idle_def started_by_def accepted_def result_convert_def)
qed

lemma write_asked:
  assumes "flash_write z off len buf b w = (r, w1)" "served_by m b" "idle w" "fal_inv (hc32_devices ll) (fal_of w)"
  shows "asked w r w1"
proof -
  obtain r0 g where g: "fal_write (fal_zone_get z) off len (Some (buffer_address m buf)) (Some (fal_of w)) = (r0, Some g)"
    using requests_some(2) by blast
  have r: "r = result_convert r0" "w_log w1 = w_log w @ [Ev_Write z off (buffer_bytes w buf len) r]" "fal_of w1 = g"
    using assms(1,2) g by (auto simp: flash_write_def served_byD hc32_flash_ops_def bootloader_flash_write_def on_fal_def fal_of_def logged_def)
  show ?thesis
    using write_starts [OF g] assms(3,4) step_write [OF g] r
    by (auto simp: asked_def idle_def started_by_def accepted_def result_convert_def fal_inv_def)
qed

lemma erase_asked:
  assumes "flash_erase z off len b w = (r, w1)" "served_by m b" "idle w" "fal_inv (hc32_devices ll) (fal_of w)"
  shows "asked w r w1"
proof -
  obtain r0 g where g: "fal_erase (fal_zone_get z) off len (Some (fal_of w)) = (r0, Some g)"
    using requests_some(3) by blast
  have r: "r = result_convert r0" "w_log w1 = w_log w @ [Ev_Erase z off len r]" "fal_of w1 = g"
    using assms(1,2) g by (auto simp: flash_erase_def served_byD hc32_flash_ops_def bootloader_flash_erase_def on_fal_def fal_of_def logged_def)
  show ?thesis
    using erase_starts [OF g] assms(3,4) step_erase [OF g] r
    by (auto simp: asked_def idle_def started_by_def accepted_def result_convert_def fal_inv_def)
qed

section \<open>Calls that do not reach the flash\<close>

lemma calm_calls:
  assumes "served_by m b"
  shows "flash_is_busy b w = (if idle w then 0 else 1, logged w [] w)"
    "\<exists>r. flash_result_get b w = (r, logged w [Ev_Result r] w)"
    "\<exists>x. flash_zone_info_get z b w = (x, logged w [] w)"
    "\<exists>ok. header_check n b w = (ok, logged w [Ev_Check (take (unat (c_image_header_length (b_config b))) (w_packet w)) n ok] w)"
proof -
  note d = served_byD [OF assms]
  show "flash_is_busy b w = (if idle w then 0 else 1, logged w [] w)"
    by (simp add: flash_is_busy_def d hc32_flash_ops_def bootloader_flash_is_busy_def fal_is_busy_def idle_def fal_of_def)
  show "\<exists>r. flash_result_get b w = (r, logged w [Ev_Result r] w)"
    by (simp add: flash_result_get_def d hc32_flash_ops_def bootloader_flash_result_get_def)
  show "\<exists>x. flash_zone_info_get z b w = (x, logged w [] w)"
    by (simp add: flash_zone_info_get_def d hc32_flash_ops_def bootloader_flash_zone_info_get_def split: sum.split)
  have "snd (image_header_is_valid w h n) = w" for h by (simp add: image_header_is_valid_def Let_def)
  then show "\<exists>ok. header_check n b w = (ok, logged w [Ev_Check (take (unat (c_image_header_length (b_config b))) (w_packet w)) n ok] w)"
    by (auto simp: header_check_def Let_def d hc32_boot_platform_ops_make_def split: prod.splits) (metis snd_conv)
qed

lemma calm_encode: "metadata_encode_current b w = (r, w1) \<Longrightarrow> fal_of w1 = fal_of w"
  by (auto simp: metadata_encode_current_def split: prod.splits option.splits)

lemma calm_commit: "metadata_commit_start st nxt b w = (b1, w1) \<Longrightarrow> fal_of w1 = fal_of w"
  by (auto simp: metadata_commit_start_def Let_def dest: calm_encode split: prod.splits)

lemma calm_zone_check:
  assumes "zone_requirements_check z n b w = (r, w1)" "served_by m b"
  shows "fal_of w1 = fal_of w"
proof -
  obtain x where "flash_zone_info_get z b w = (x, logged w [] w)" using calm_calls(3) [OF assms(2)] by blast
  then show ?thesis using assms(1) by (auto simp: zone_requirements_check_def split: prod.splits)
qed

lemma calm_begin:
  assumes "upgrade_begin info mode b w = (r, b1, w1)" "served_by m b"
  shows "fal_of w1 = fal_of w"
proof -
  obtain busy v where y: "flash_is_busy b w = (busy, v)" "fal_of v = fal_of w" by (simp add: calm_calls(1) [OF assms(2)])
  obtain r1 w2 where z1: "zone_requirements_check ZONE_IAP (ui_file_size info) b v = (r1, w2)" by fastforce
  obtain r2 w3 where z2: "zone_requirements_check ZONE_STAGING (ui_file_size info) b w2 = (r2, w3)" by fastforce
  have f: "fal_of w2 = fal_of w" "fal_of w3 = fal_of w"
    using calm_zone_check [OF z1 assms(2)] calm_zone_check [OF z2 assms(2)] y(2) by simp_all
  show ?thesis
    using assms(1) f y(2)
    by (cases "busy = 1") (auto simp: upgrade_begin_def y(1) z1 z2 dest!: calm_commit split: prod.splits if_splits)
qed

lemma served_frame [simp]:
  "served_by m (b\<lparr>b_state := s\<rparr>) = served_by m b" "served_by m (metadata_load mm z b) = served_by m b"
  "served_by m (b\<lparr>b_metadata_valid := v, b_metadata_source_zone := z, b_metadata_sequence := n\<rparr>) = served_by m b"
  "served_by m (b\<lparr>b_upgrade_info := i\<rparr>) = served_by m b"
  by (simp_all add: served_by_def mounts_def metadata_load_def)

lemma calm_choose:
  assumes "startup_choose b w = (b1, w1)" "served_by m b"
  shows "fal_of w1 = fal_of w"
proof -
  have s: "served_by m (b\<lparr>b_state := ST_WAIT_UPGRADE\<rparr>)" using assms(2) by simp
  show ?thesis
    using assms(1) by (auto simp: startup_choose_def Let_def dest: calm_begin [OF _ s] split: prod.splits if_splits)
qed

lemma calm_evaluate:
  assumes "metadata_startup_evaluate b w = (b1, w1)" "served_by m b"
  shows "fal_of w1 = fal_of w"
  using assms(1)
  by (auto simp: metadata_startup_evaluate_def Let_def assms(2) dest: calm_commit calm_choose [where m = m]
      split: sum.splits prod.splits if_splits)


lemma calm_header:
  assumes "installed_header_evaluate final b w = (b1, w1)" "served_by m b"
  shows "fal_of w1 = fal_of w"
proof -
  have check: "fal_of (snd (header_check n c v)) = fal_of v" if "served_by m c" for n c v
    using calm_calls(4) [OF that, of n v] by auto
  obtain r info v where i: "flash_zone_info_get ZONE_IAP b w = ((r, info), v)" "fal_of v = fal_of w"
    using calm_calls(3) [OF assms(2), of ZONE_IAP w] by (metis surj_pair idle_log(5))
  let ?c = "b\<lparr>b_upgrade_info := (b_upgrade_info b)\<lparr>ui_file_size := zi_size info\<rparr>\<rparr>"
  obtain ok1 w2 where h1: "header_check (ui_file_size (b_upgrade_info b)) b w = (ok1, w2)" by fastforce
  obtain ok2 w3 where h2: "header_check (zi_size info) ?c v = (ok2, w3)" by fastforce
  have f: "fal_of w2 = fal_of w" "fal_of w3 = fal_of w"
    using check [OF assms(2)] check [of ?c] assms(2) h1 h2 i(2) by (metis snd_conv, metis snd_conv served_frame(4))
  show ?thesis
    using assms(1) f i(2)
    by (auto simp: installed_header_evaluate_def Let_def i(1) h1 h2 dest!: calm_commit split: if_splits)
qed

lemma calm_copy_verified: "copy_verified b w = (b1, w1) \<Longrightarrow> fal_of w1 = fal_of w"
  by (auto simp: copy_verified_def Let_def dest: calm_commit split: if_splits)

lemma calm_completed:
  assumes "storage_completed b w = (b1, w1)" "served_by m b"
  shows "fal_of w1 = fal_of w"
  using assms(1)
  by (cases "b_state b") (auto simp: storage_completed_def
      dest: calm_commit calm_copy_verified calm_header [OF _ assms(2)] calm_evaluate [OF _ assms(2)])

lemma calm_wait:
  assumes "storage_wait_handle b w = (b1, w1)" "served_by m b"
  shows "fal_of w1 = fal_of w" "\<not> idle w \<Longrightarrow> b1 = b \<and> w_log w1 = w_log w"
proof -
  note busy = calm_calls(1) [OF assms(2), of w]
  show "\<not> idle w \<Longrightarrow> b1 = b \<and> w_log w1 = w_log w" using assms(1) by (auto simp: storage_wait_handle_def busy)
  obtain r where r: "flash_result_get b (logged w [] w) = (r, logged (logged w [] w) [Ev_Result r] (logged w [] w))"
    using calm_calls(2) [OF assms(2)] by blast
  show "fal_of w1 = fal_of w"
    using assms(1) by (auto simp: storage_wait_handle_def busy r dest: calm_completed [OF _ assms(2)] split: if_splits)
qed

lemma calm_jump:
  assumes "jump_pending b w = (b1, w1)" "served_by m b"
  shows "fal_of w1 = fal_of w"
proof -
  have "fal_of (snd (boot_reason_clear v)) = fal_of v" "fal_of (snd (jump_to_iap v)) = fal_of v" for v :: "'a hc32 world"
    by (simp_all add: boot_reason_clear_def jump_to_iap_def fal_of_def Let_def)
  then show ?thesis
    using assms(1) unfolding jump_pending_def served_byD [OF assms(2)]
    by (auto simp: hc32_boot_platform_ops_make_def Let_def case_prod_beta split: if_splits)
qed

section \<open>The link is kept\<close>

lemma submitted_linked: "asked w r w1 \<Longrightarrow> waiting ws \<Longrightarrow> linked (submitted ws r b) w1"
  by (auto simp: asked_def linked_def submitted_def accepted_def)

text \<open>While the service works, the boot state machine only waits.\<close>

lemma api_waits:
  assumes "api_call (b, w) (b', w')" "served_by m b" "waiting (b_state b)" "\<not> idle w"
  shows "b' = b \<and> w_log w' = w_log w \<and> fal_of w' = fal_of w"
  using assms(1)
proof cases
  case api_process
  have "kicked b w = w" by (simp add: kicked_def served_byD [OF assms(2)] hc32_boot_platform_ops_make_def)
  then have "storage_wait_handle b w = (b', w')"
    using api_process assms(3) by (auto simp: process_kicked state_process_def waiting_def)
  then show ?thesis using calm_wait [OF _ assms(2)] assms(4) by blast
next
  case (api_begin p_info mode r)
  then show ?thesis using assms(3)
    by (auto simp: bootloader_upgrade_begin_def upgrade_begin_def waiting_def split: option.splits)
next
  case (api_packet p_data len offset r)
  from api_packet(2) show ?thesis
    by (cases rule: packet_submit_cases) (use assms(3) in \<open>auto simp: waiting_def\<close>)
next
  case (api_end expected_crc r)
  then show ?thesis using assms(3) by (auto simp: bootloader_upgrade_end_def waiting_def)
qed


text \<open>What a call does when the service is idle: it leaves the service alone or makes one request and waits for it.\<close>

definition call_link :: "'h hc32 world \<Rightarrow> 'h hc32 boot \<Rightarrow> 'h hc32 world \<Rightarrow> bool" where
  "call_link w b' w' \<longleftrightarrow>
     fal_of w' = fal_of w \<or> (\<exists>v r. fal_of v = fal_of w \<and> asked v r w' \<and> (accepted r \<longrightarrow> waiting (b_state b')))"

lemma link_submitted: "asked v r w' \<Longrightarrow> fal_of v = fal_of w \<Longrightarrow> waiting ws \<Longrightarrow> call_link w (submitted ws r b) w'"
  unfolding call_link_def by (rule disjI2, rule exI [of _ v], rule exI [of _ r]) (simp add: submitted_def accepted_def)

lemma link_calm [intro]: "fal_of w' = fal_of w \<Longrightarrow> call_link w b' w'"
  by (simp add: call_link_def)

lemma wait_states [simp]: "waiting ST_META_A_WAIT" "waiting ST_META_B_WAIT" "waiting ST_STARTUP_WAIT" "waiting ST_DOWNLOAD_ERASE_WAIT"
  "waiting ST_PACKET_WRITE_WAIT" "waiting ST_COPY_ERASE_WAIT" "waiting ST_COPY_READ_WAIT" "waiting ST_COPY_WRITE_WAIT"
  "waiting ST_COPY_VERIFY_READ_WAIT" "waiting ST_VERIFY_READ_WAIT" "waiting ST_FINAL_READ_WAIT" "waiting ST_METADATA_ERASE_WAIT"
  "waiting ST_METADATA_WRITE_WAIT"
  by (simp_all add: waiting_def)

lemma read_link:
  assumes "flash_read z off len buf b w = (r, w1)" "served_by m b" "idle w" "fal_of w = fal_of u" "waiting ws"
  shows "call_link u (submitted ws r c) w1"
  using link_submitted [OF read_asked [OF assms(1-3)] assms(4,5)] .

lemma write_link:
  assumes "flash_write z off len buf b w = (r, w1)" "served_by m b" "idle w" "fal_inv (hc32_devices ll) (fal_of w)" "waiting ws"
  shows "call_link w (submitted ws r c) w1"
  using link_submitted [OF write_asked [OF assms(1-4)] refl assms(5)] .

lemma erase_link:
  assumes "flash_erase z off len b w = (r, w1)" "served_by m b" "idle w" "fal_inv (hc32_devices ll) (fal_of w)" "waiting ws"
  shows "call_link w (submitted ws r c) w1"
  using link_submitted [OF erase_asked [OF assms(1-4)] refl assms(5)] .

lemma served_chunk [simp]:
  "served_by m (b\<lparr>b_copy_chunk_length := n\<rparr>) = served_by m b"
  "served_by m (b\<lparr>b_pending_packet_offset := p, b_pending_packet_length := n, b_state := s, b_result := r\<rparr>) = served_by m b"
  by (simp_all add: served_by_def mounts_def)

lemma startup_link:
  assumes "startup_read_submit b w = (b', w')" "served_by m b" "idle w"
  shows "call_link w b' w'"
proof -
  obtain r info v where i: "flash_zone_info_get ZONE_IAP b w = ((r, info), v)" "v = logged w [] w"
    using calm_calls(3) [OF assms(2), of ZONE_IAP w] by (metis surj_pair)
  obtain r2 w2 where f: "flash_read ZONE_IAP 0 (c_image_header_length (b_config b)) Packet_Buffer b v = (r2, w2)" by fastforce
  have "call_link w (submitted ST_STARTUP_WAIT r2 b) w2" by (rule read_link [OF f assms(2)]) (use assms(3) i in simp_all)
  then show ?thesis
    using assms(1) link_calm [of v w] i(2) by (auto simp: startup_read_submit_def i(1) f [unfolded i(2)] split: if_splits)
qed

lemma verify_link:
  assumes "verify_read_submit b w = (b', w')" "served_by m b" "idle w"
  shows "call_link w b' w'"
proof -
  obtain r2 w2 where f: "flash_read ZONE_IAP (b_verify_offset b) (next_chunk (b_verify_offset b) b) (Copy_Buffer 0) b w = (r2, w2)"
    by fastforce
  have "asked w r2 w2" by (rule read_asked [OF f assms(2,3)])
  then show ?thesis
    using assms(1) unfolding call_link_def
    by (intro disjI2 exI [of _ w] exI [of _ r2]) (auto simp: verify_read_submit_def f Let_def accepted_def split: if_splits)
qed

lemma process_link:
  assumes "state_process b w = (b', w')" "served_by m b" "idle w" "fal_inv (hc32_devices ll) (fal_of w)"
  shows "call_link w b' w'"
proof -
  note reads = read_link [OF _ assms(2,3) refl] and writes = write_link [OF _ assms(2-4)] and erases = erase_link [OF _ assms(2-4)]
  show ?thesis
  proof (cases "waiting (b_state b)")
    case True
    then have "storage_wait_handle b w = (b', w')" using assms(1) by (auto simp: state_process_def waiting_def)
    then show ?thesis using calm_wait(1) [OF _ assms(2)] link_calm by blast
  next
    case False
    show ?thesis
    proof (cases "b_state b")
      case ST_COPY_READ
      then show ?thesis
        using assms(1) read_link [of _ _ _ _ "b\<lparr>b_copy_chunk_length := next_chunk (b_copy_offset b) b\<rparr>" w] assms(2,3)
        by (auto simp: state_process_def copy_read_submit_def Let_def split: prod.splits)
    next
      case ST_STARTUP_READ
      then show ?thesis using assms startup_link by (simp add: state_process_def)
    next
      case ST_VERIFY_READ
      then show ?thesis using assms verify_link by (simp add: state_process_def)
    next
      case ST_JUMP_PENDING
      then show ?thesis using assms(1) by (auto simp: state_process_def dest: calm_jump [OF _ assms(2)])
    qed (use assms(1) False reads writes erases link_calm in
        \<open>auto simp: state_process_def metadata_read_submit_def copy_verify_read_submit_def final_read_submit_def
          split: prod.splits\<close>)
  qed
qed

lemma packet_link:
  assumes "bootloader_packet_submit (Some b) off d n w = (r, Some b', w')" "served_by m b" "idle w"
    and "fal_inv (hc32_devices ll) (fal_of w)"
  shows "call_link w b' w'"
  using assms(1)
proof (cases rule: packet_submit_cases)
  case 1
  then show ?thesis by (simp add: link_calm)
next
  case (2 dat r1)
  have "asked (w\<lparr>w_packet := overwrite 0 (take (unat n) dat) (w_packet w)\<rparr>) r1 w'"
    by (rule write_asked [OF 2(3) assms(2)]) (use assms(3,4) in simp_all)
  then show ?thesis
    unfolding call_link_def
    by (intro disjI2 exI [of _ "w\<lparr>w_packet := overwrite 0 (take (unat n) dat) (w_packet w)\<rparr>"] exI [of _ r1])
      (simp add: 2(4))
qed

lemma end_calm:
  assumes "bootloader_upgrade_end (Some b) e w = (r, Some b', w')"
  shows "fal_of w' = fal_of w"
  using assms by (cases rule: upgrade_end_cases) (auto dest: calm_commit)

lemma api_link:
  assumes "api_call (b, w) (b', w')" "served_by m b" "idle w" "fal_inv (hc32_devices ll) (fal_of w)"
  shows "call_link w b' w'"
  using assms(1)
proof cases
  case api_process
  have "kicked b w = w" by (simp add: kicked_def served_byD [OF assms(2)] hc32_boot_platform_ops_make_def)
  then show ?thesis using api_process process_link [OF _ assms(2-4)] by (simp add: process_kicked)
next
  case (api_begin p_info mode r)
  then show ?thesis
    by (auto simp: bootloader_upgrade_begin_def dest: calm_begin [OF _ assms(2)] split: option.splits prod.splits)
next
  case (api_packet p_data len offset r)
  then show ?thesis using packet_link assms by blast
next
  case (api_end expected_crc r)
  then show ?thesis using end_calm link_calm by blast
qed

lemma link_kept:
  assumes "call_link w b' w'" "idle w" "fal_inv (hc32_devices ll) (fal_of w)"
  shows "linked b' w' \<and> fal_inv (hc32_devices ll) (fal_of w')"
proof (cases "fal_of w' = fal_of w")
  case True
  then show ?thesis using assms(2,3) by (simp add: linked_def idle_def)
next
  case False
  then obtain v r where v: "fal_of v = fal_of w" "asked v r w'" "accepted r \<longrightarrow> waiting (b_state b')"
    using assms(1) by (auto simp: call_link_def)
  have "fal_inv (hc32_devices ll) (fal_of w')"
    using fal_step_inv [OF hc32_layout_ok, of ll "fal_of v" "[]" "fal_of w'"] v(1,2) assms(3) by (auto simp: asked_def)
  then show ?thesis using v(2,3) by (auto simp: asked_def linked_def)
qed

text \<open>The invariant of the composed system.\<close>

definition system_inv :: "'h ll \<Rightarrow> buffers \<Rightarrow> 'h hc32 boot \<Rightarrow> 'h hc32 world \<Rightarrow> bool" where
  "system_inv ll m b w \<longleftrightarrow>
     served_by m b \<and> fal_inv (hc32_devices ll) (fal_of w) \<and> linked b w \<and> boot_inv b w \<and> copy_respecting b"

lemma api_inv:
  assumes "api_call (b, w) (b', w')" "system_inv ll m b w"
  shows "system_inv ll m b' w'"
proof -
  note i = assms(2) [unfolded system_inv_def]
  note step = api_boot_step [OF assms(1)]
  have s: "served_by m b'" using mounts_step [OF step] i by (simp add: served_by_def)
  have l: "linked b' w' \<and> fal_inv (hc32_devices ll) (fal_of w')"
  proof (cases "idle w")
    case True
    then show ?thesis using link_kept [OF api_link [OF assms(1)]] i by blast
  next
    case False
    then have wait: "waiting (b_state b)" and "\<exists>log ev. w_log w = log @ [ev] \<and> started_by ev (fal_of w)"
      using i by (auto simp: linked_def)
    with api_waits [OF assms(1) _ wait False] i show ?thesis by (auto simp: linked_def)
  qed
  show ?thesis using boot_step_inv [OF step] i s l by (simp add: system_inv_def)
qed


text \<open>A call that programs or erases the internal flash.\<close>

definition efm_modifies :: "flash_call \<Rightarrow> bool" where
  "efm_modifies c \<longleftrightarrow>
     (case c of Flash_Program dev a n p \<Rightarrow> dev = DEVICE_EFM | Flash_Erase dev a n \<Rightarrow> dev = DEVICE_EFM | _ \<Rightarrow> False)"

lemma modifies_recovering:
  assumes "linked b w" "protected (w_log w)" "call_matches (fal_of w) c" "efm_modifies c"
  shows "recovering (snd (commits (w_log w)))"
proof -
  have op: "f_operation (fal_of w) = OPERATION_WRITE \<or> f_operation (fal_of w) = OPERATION_ERASE"
      "f_active_device_id (fal_of w) = DEVICE_EFM"
    using assms(3,4) by (auto simp: call_matches_def efm_modifies_def split: flash_call.splits)
  then obtain log ev where l: "w_log w = log @ [ev]" "started_by ev (fal_of w)"
    using assms(1) by (auto simp: linked_def idle_def)
  have t: "touches_iap ev" "snd (commit_step c ev) = snd c" for c
    using l(2) op by (auto simp: started_by_def touches_iap_def commit_step_def split: boot_event.splits)
  show ?thesis using assms(2) l(1) t by simp
qed

lemma linked_goes_on:
  assumes "linked b w" "goes_on (fal_of w) (fal_of w')" "w_log w' = w_log w"
  shows "linked b w'"
proof (cases "idle w'")
  case False
  then have g: "f_operation (fal_of w') = f_operation (fal_of w)" "f_active_device_id (fal_of w') = f_active_device_id (fal_of w)"
    using assms(2) by (auto simp: goes_on_def idle_def)
  then have "started_by ev (fal_of w') = started_by ev (fal_of w)" "idle w' = idle w" for ev
    by (simp_all add: started_by_def idle_def cong: boot_event.case_cong)
  then show ?thesis using assms(1,3) by (simp add: linked_def)
qed (simp add: linked_def)

lemma fal_process_some:
  fixes f :: "'x fal" and x :: 'x
  shows "\<exists>g x1 cs. fal_process (Some f) x = (Some g, x1, cs)"
  by (auto simp: fal_process_def split: option.splits prod.splits)

lemma service_inv:
  assumes "fal_service_process d w = (w1, calls)" "system_inv ll m b w"
    and "\<not> reading_copy (w_log w) \<Longrightarrow> cp = w_copy w" "\<not> reading_packet (w_log w) \<Longrightarrow> pk = w_packet w"
  shows "system_inv ll m b (w1\<lparr>w_copy := cp, w_packet := pk\<rparr>)"
    "\<forall>c \<in> set calls. call_ok (hc32_devices ll) c \<and> (efm_modifies c \<longrightarrow> recovering (snd (commits (w_log w))))"
proof -
  obtain g s1 cs where p: "fal_process (Some (fal_of w)) d = (Some g, s1, cs)" using fal_process_some [of "fal_of w" d] by blast
  have w1: "calls = cs" "fal_of w1 = g" using assms(1) p by (auto simp: fal_service_process_def fal_of_def)
  note i = assms(2) [unfolded system_inv_def]
  have step: "boot_step (b, w) (b, w1\<lparr>w_copy := cp, w_packet := pk\<rparr>)"
    using fal_service_log [OF assms(1)] assms(3,4) by (intro bs_environment) simp_all
  have c: "fal_inv (hc32_devices ll) g" "\<forall>c \<in> set cs. call_ok (hc32_devices ll) c"
    using fal_step_inv [OF hc32_layout_ok _ step_process [OF p]] i by blast+
  have f: "\<forall>c \<in> set cs. call_matches (fal_of w) c" "goes_on (fal_of w) g" using process_calls [OF p] by blast+
  have g: "fal_of (w1\<lparr>w_copy := cp, w_packet := pk\<rparr>) = g" by (simp add: w1(2))
  have l: "w_log (w1\<lparr>w_copy := cp, w_packet := pk\<rparr>) = w_log w" using fal_service_log [OF assms(1)] by simp
  have "linked b (w1\<lparr>w_copy := cp, w_packet := pk\<rparr>)"
    by (rule linked_goes_on [of b w]) (use i in blast, unfold g, rule f(2), rule l)
  moreover have "boot_inv b (w1\<lparr>w_copy := cp, w_packet := pk\<rparr>) \<and> copy_respecting b"
    using boot_step_inv [OF step] i by blast
  ultimately show "system_inv ll m b (w1\<lparr>w_copy := cp, w_packet := pk\<rparr>)"
    unfolding system_inv_def g using i c(1) by blast
  have "protected (w_log w)" using i by (simp add: boot_inv_def log_ok_def)
  then show "\<forall>c \<in> set calls. call_ok (hc32_devices ll) c \<and> (efm_modifies c \<longrightarrow> recovering (snd (commits (w_log w))))"
    using modifies_recovering i f(1) c(2) w1(1) by blast
qed

lemma run_system_inv:
  assumes "hc32_run s h t" "system_inv ll m (fst s) (snd s)"
  shows "system_inv ll m (fst t) (snd t)
    \<and> (\<forall>(log, c) \<in> set h. call_ok (hc32_devices ll) c \<and> (efm_modifies c \<longrightarrow> recovering (snd (commits log))))"
  using assms
proof (induction rule: hc32_run.induct)
  case (run_api s h b w b' w')
  then show ?case using api_inv by fastforce
next
  case (run_fal s h b w d w1 calls cp pk)
  then show ?case using service_inv [OF run_fal(2) _ run_fal(3,4), of ll m b] by auto
qed simp

lemma hc32_respecting:
  assumes "served_by m b"
  shows "copy_respecting b"
  unfolding copy_respecting_def served_byD [OF assms]
  by (simp add: quiet_def hc32_flash_ops_def hc32_boot_platform_ops_make_def bootloader_flash_erase_def on_fal_def
      bootloader_flash_is_busy_def bootloader_flash_result_get_def split: prod.split)

lemma init_mounts:
  assumes "bootloader_init (Some b0) (Some c) (Some p) w = (BOOT_SUCCESS, Some b, w')"
  shows "mounts b = (c, b_flash_ops b0, p)"
  using assms by (auto simp: bootloader_init_def mounts_def Let_def boot_zeroed_def split: if_splits prod.splits option.splits)

lemma adapter_init:
  assumes "bootloader_fal_adapter_init m uart b0 protocol w0 = Some (active, w)"
  shows "\<exists>b1 b. bootloader_init (Some b1) (Some hc32_config) (Some hc32_boot_platform_ops_make) w0 = (BOOT_SUCCESS, Some b, w)
    \<and> b_flash_ops b1 = hc32_flash_ops m \<and> pr_bootloader active = Some b"
proof -
  let ?b1 = "b0\<lparr>b_flash_ops := hc32_flash_ops m\<rparr>"
  obtain r b v where i: "bootloader_init (Some ?b1) (Some hc32_config) (Some hc32_boot_platform_ops_make) w0 = (r, Some b, v)"
    using init_some by blast
  have "bootloader_flash_ops_init (Some b0) (Some (hc32_flash_ops m)) = (BOOT_SUCCESS, Some ?b1)"
    by (simp add: bootloader_flash_ops_init_def hc32_ops_valid)
  then have "r = BOOT_SUCCESS \<and> v = w \<and> pr_bootloader active = Some b"
    using assms by (auto simp: bootloader_fal_adapter_init_def Let_def i bootloader_protocol_init_def bootloader_protocol_mount_def
        split: if_splits)
  then show ?thesis using i by (intro exI [of _ ?b1] exI [of _ b]) simp
qed

lemma idle_operation: "fal_inv ds f \<Longrightarrow> f_state f = STATE_IDLE \<Longrightarrow> f_operation f = OPERATION_NONE"
  by (cases "f_operation f")
    (auto simp: fal_inv_def at_rest_def active_on_def due_def in_flight_def syncing_def state_of_def)

lemma start_inv:
  assumes "fal_init (Some f0) (Some (Some (hc32_devices ll))) s = (FAL_SUCCESS, Some (fal_of w0), s1, cs)"
    and "w_log w0 = []" "bootloader_fal_adapter_init m uart b0 protocol w0 = Some (active, w)" "pr_bootloader active = Some b"
  shows "system_inv ll m b w"
proof -
  obtain b1 where i: "bootloader_init (Some b1) (Some hc32_config) (Some hc32_boot_platform_ops_make) w0 = (BOOT_SUCCESS, Some b, w)"
      "b_flash_ops b1 = hc32_flash_ops m"
    using adapter_init [OF assms(3)] assms(4) option.inject by metis
  have s: "served_by m b" using init_mounts [OF i(1)] i(2) by (simp add: served_by_def)
  have "w_platform w = w_platform w0" using hc32_init_platform [OF i(2,1)] by simp
  then have w: "fal_of w = fal_of w0" by (simp add: fal_of_def)
  have f: "fal_inv (hc32_devices ll) (fal_of w0)" "f_state (fal_of w0) = STATE_IDLE"
    by (rule fal_init_SUCCESS [OF assms(1)]; simp)+
  have "f_operation (fal_of w0) = OPERATION_NONE" by (rule idle_operation [OF f])
  then have "idle w" by (simp add: idle_def w)
  then have "linked b w" by (rule linked_idle)
  then show ?thesis unfolding system_inv_def w using s f(1) hc32_respecting [OF s] init_inv [OF i(1) assms(2)] by blast
qed

section \<open>A run of the sample board\<close>

text \<open>The first metadata read fails, so the bootloader stays resident; a direct upgrade is begun, the metadata record is
  committed, and the application partition is erased.\<close>

definition rested :: "unit bsp fal \<Rightarrow> bool" where
  "rested f \<longleftrightarrow> f_cfg f = Some (Some (hc32_devices sample_ll)) \<and> f_operation f = OPERATION_NONE \<and> f_state f = STATE_IDLE
     \<and> \<not> f_stop_requested f"

definition efm_device :: "unit bsp fal_device_cfg" where
  "efm_device = hc32_devices sample_ll ! 0"

definition w25q_device :: "unit bsp fal_device_cfg" where
  "w25q_device = hc32_devices sample_ll ! 1"

lemma serve:
  assumes "hc32_run s h (b, w)" "fal_process (Some (fal_of w)) d = (Some g, x, cs)"
  shows "\<exists>w'. hc32_run s (h @ map (Pair (w_log w)) cs) (b, w') \<and> fal_of w' = g \<and> w_log w' = w_log w \<and> w_copy w' = w_copy w"
proof -
  let ?w = "w\<lparr>w_platform := (w_platform w)\<lparr>h_fal := g, h_bsp := x\<rparr>\<rparr>"
  have p: "fal_service_process d w = (?w, cs)" using assms(2) by (simp add: fal_service_process_def)
  show ?thesis
    using run_fal [OF assms(1) p, of "w_copy w" "w_packet w"]
    by (intro exI [of _ "?w\<lparr>w_copy := w_copy w, w_packet := w_packet w\<rparr>"]) (simp add: fal_of_def)
qed

lemma sample_states: "efm_state_get sample_bsp = (DEVICE_READY, sample_bsp)"
  "\<exists>s. w25q_state_get sample_ll sample_bsp = (DEVICE_READY, s) \<and> bs_initialized s \<and> \<not> bs_io_error s"
  "w25q_state_get sample_ll (sample_bsp\<lparr>bs_io_error := True\<rparr>) = (DEVICE_ERROR, sample_bsp\<lparr>bs_io_error := True\<rparr>)"
  by (simp add: efm_state_get_def sample_bsp_def bsp_efm_flash_state_get_def)
    (simp_all add: w25q_state_get_def bsp_w25q64_state_get_def status_read_def sample_bus sample_reply_def on_bus_def STATUS_1_WIP_def)

lemma sample_modify:
  assumes "bs_initialized s" "\<not> bs_io_error s"
  shows "\<exists>s'. w25q_erase sample_ll s 0x20000 0x1000 = (FAL_SUCCESS, s')"
    "\<exists>s'. w25q_program sample_ll s 0x20000 42 (Some p) = (FAL_SUCCESS, s')"
proof -
  have t: "transfer_dma sample_ll (Some p) None 42 v = (W25Q_SUCCESS, on_bus (Dma_Tx p 42) v)" for v
    by (simp add: transfer_dma_def Let_def sample_bus)
  show "\<exists>s'. w25q_erase sample_ll s 0x20000 0x1000 = (FAL_SUCCESS, s')"
    using assms
    by (simp add: w25q_erase_def w25q_converted_def bsp_w25q64_sector_erase_def W25Q_CAPACITY_def W25Q_SECTOR_SIZE_def
        bsp_w25q64_state_get_def status_read_def write_enable_def addressed_def sample_bus sample_reply_def STATUS_1_WIP_def
        STATUS_1_WEL_def on_bus_def)
  show "\<exists>s'. w25q_program sample_ll s 0x20000 42 (Some p) = (FAL_SUCCESS, s')"
    using assms
    by (simp add: w25q_program_def w25q_converted_def bsp_w25q64_page_program_def w25q_range_is_valid_def W25Q_CAPACITY_def
        W25Q_PAGE_SIZE_def bsp_w25q64_state_get_def status_read_def write_enable_def addressed_def sample_bus sample_reply_def
        t STATUS_1_WIP_def STATUS_1_WEL_def on_bus_def)
qed

lemma sample_devices:
  "d_device_id efm_device = DEVICE_EFM" "d_device_id w25q_device = DEVICE_W25Q64"
  "p_get_state (d_ops efm_device) = Some efm_state_get" "p_get_state (d_ops w25q_device) = Some (w25q_state_get sample_ll)"
  "p_erase (d_ops w25q_device) = Some (w25q_erase sample_ll)" "p_program (d_ops w25q_device) = Some (w25q_program sample_ll)"
  "p_erase (d_ops efm_device) = Some (efm_erase sample_ll)" "p_sync (d_ops w25q_device) = None"
  "d_erase_block_size w25q_device = 0x1000" "d_program_page_size w25q_device = 256" "d_erase_block_size efm_device = 0x1000"
  "d_program_unit_size w25q_device = 0" "d_program_unit_size efm_device = 0"
  by (simp_all add: efm_device_def w25q_device_def hc32_devices_def W25Q_SECTOR_SIZE_def W25Q_PAGE_SIZE_def EFM_ERASE_SIZE_def)

lemma sample_device_list: "hc32_devices sample_ll = [efm_device, w25q_device]"
  by (simp add: efm_device_def w25q_device_def hc32_devices_def)

lemma find_sample: "List.find (\<lambda>d. d_device_id d = DEVICE_W25Q64) (hc32_devices sample_ll) = Some w25q_device"
  "List.find (\<lambda>d. d_device_id d = DEVICE_EFM) (hc32_devices sample_ll) = Some efm_device"
  by (simp_all add: sample_device_list sample_devices DEVICE_EFM_def DEVICE_W25Q64_def)

lemma rested_finish: "f_cfg f = Some (Some (hc32_devices sample_ll)) \<Longrightarrow> \<not> f_stop_requested f \<Longrightarrow> rested (operation_finish r f)"
  "f_result (operation_finish r f) = r"
  by (simp_all add: rested_def operation_finish_def operation_clear_def)

definition requested :: "fal_operation_type \<Rightarrow> u16 \<Rightarrow> u32 \<Rightarrow> u32 \<Rightarrow> unit bsp fal \<Rightarrow> bool" where
  "requested op dev a n g \<longleftrightarrow>
     f_cfg g = Some (Some (hc32_devices sample_ll)) \<and> f_operation g = op \<and> f_active_device_id g = dev
     \<and> f_state g = state_of op \<and> f_physical_address g = a \<and> f_remaining g = n \<and> \<not> f_stop_requested g
     \<and> (op = OPERATION_WRITE \<longrightarrow> f_write_data g \<noteq> None)"

lemma served_twice:
  assumes "requested op DEVICE_W25Q64 0x20000 n g" "op = OPERATION_ERASE \<and> n = 0x1000 \<or> op = OPERATION_WRITE \<and> n = 42"
  shows "\<exists>g1 x1 cs g2 x2. fal_process (Some g) sample_bsp = (Some g1, x1, cs)
    \<and> fal_process (Some g1) sample_bsp = (Some g2, x2, []) \<and> rested g2 \<and> f_result g2 = FAL_SUCCESS"
proof -
  obtain s where s: "w25q_state_get sample_ll sample_bsp = (DEVICE_READY, s)" "bs_initialized s" "\<not> bs_io_error s"
    using sample_states(2) by blast
  obtain s1 where s1: "w25q_erase sample_ll s 0x20000 0x1000 = (FAL_SUCCESS, s1)" using sample_modify(1) [OF s(2,3)] by blast
  have s2: "\<exists>s2. w25q_program sample_ll s 0x20000 42 (Some p) = (FAL_SUCCESS, s2)" for p using sample_modify(2) [OF s(2,3)] .
  note c = assms(1) [unfolded requested_def]
  let ?g1 = "g\<lparr>f_chunk_length := n, f_state := STATE_WAIT_DEVICE\<rparr>"
  have chunk: "write_chunk_get g w25q_device = 42" if "n = 42" using c that by (simp add: write_chunk_get_def sample_devices Let_def)
  have "\<exists>x cs. fal_process (Some g) sample_bsp = (Some ?g1, x, cs)"
  proof (cases "op = OPERATION_ERASE")
    case True
    then show ?thesis using assms(2) c
      by (simp add: fal_process_def find_sample device_process_def sample_devices s operation_issue_def s1 Let_def state_of_def)
  next
    case False
    then have op: "op = OPERATION_WRITE" "n = 42" using assms(2) by auto
    then obtain p where p: "f_write_data g = Some p" using c by blast
    obtain s2 where "w25q_program sample_ll s 0x20000 42 (Some p) = (FAL_SUCCESS, s2)" using s2 by blast
    then show ?thesis using op c chunk p
      by (simp add: fal_process_def find_sample device_process_def sample_devices s operation_issue_def Let_def state_of_def)
  qed
  moreover have "\<exists>g2 x2. fal_process (Some ?g1) sample_bsp = (Some g2, x2, []) \<and> rested g2 \<and> f_result g2 = FAL_SUCCESS"
  proof -
    let ?g2 = "completed_chunk_commit ?g1"
    have g2: "f_remaining ?g2 = 0" "f_cfg ?g2 = f_cfg g" "f_stop_requested ?g2 = f_stop_requested g"
      using c assms(2) by (auto simp: completed_chunk_commit_def Let_def split: fal_operation_type.split)
    have "fal_process (Some ?g1) sample_bsp = (Some (operation_finish FAL_SUCCESS ?g2), s, [])"
      using c assms(2) g2(1)
      by (auto simp: fal_process_def find_sample device_process_def sample_devices s Let_def operation_complete_or_sync_def)
    then show ?thesis using rested_finish(1) [of ?g2] rested_finish(2) g2 c by auto
  qed
  ultimately show ?thesis by blast
qed

lemma serve_twice:
  assumes "hc32_run s h (b, w)" "requested op DEVICE_W25Q64 0x20000 n (fal_of w)"
    and "op = OPERATION_ERASE \<and> n = 0x1000 \<or> op = OPERATION_WRITE \<and> n = 42"
  shows "\<exists>h' w'. hc32_run s h' (b, w') \<and> rested (fal_of w') \<and> f_result (fal_of w') = FAL_SUCCESS"
proof -
  obtain g1 x1 cs g2 x2 where p: "fal_process (Some (fal_of w)) sample_bsp = (Some g1, x1, cs)"
      "fal_process (Some g1) sample_bsp = (Some g2, x2, [])" "rested g2" "f_result g2 = FAL_SUCCESS"
    using served_twice [OF assms(2,3)] by blast
  obtain w1 where w1: "hc32_run s (h @ map (Pair (w_log w)) cs) (b, w1)" "fal_of w1 = g1"
    using serve [OF assms(1) p(1)] by blast
  obtain w2 where "hc32_run s ((h @ map (Pair (w_log w)) cs) @ map (Pair (w_log w1)) []) (b, w2)" "fal_of w2 = g2"
    using serve [OF w1(1), unfolded w1(2), OF p(2)] by blast
  then show ?thesis using p(3,4) by blast
qed

section \<open>The boot side of that run\<close>

lemma api_poll: "hc32_run s h (b, w) \<Longrightarrow> poll (b, w) = (b', w') \<Longrightarrow> hc32_run s h (b', w')"
  by (rule run_api, assumption, rule api_process) (auto simp: poll_def bootloader_process_def split: prod.splits)

lemma hc32_kick: "served_by m b \<Longrightarrow> kicked b w = w"
  by (simp add: kicked_def served_byD hc32_boot_platform_ops_make_def)

lemma poll_served: "served_by m b \<Longrightarrow> poll (b, w) = state_process b w"
  by (simp add: poll_process hc32_kick)

lemma poll_done:
  assumes "served_by m b" "waiting (b_state b)" "rested (fal_of w)" "f_result (fal_of w) = FAL_SUCCESS"
  shows "\<exists>w'. poll (b, w) = storage_completed b w' \<and> fal_of w' = fal_of w"
proof -
  have "idle w" using assms(3) by (simp add: idle_def rested_def)
  then have busy: "flash_is_busy b w = (0, logged w [] w)" using calm_calls(1) [OF assms(1), of w] by simp
  have r: "flash_result_get b v = (BOOT_SUCCESS, logged v [Ev_Result BOOT_SUCCESS] v)" if "fal_of v = fal_of w" for v
    using that assms(1,4)
    by (simp add: flash_result_get_def served_byD hc32_flash_ops_def bootloader_flash_result_get_def fal_result_get_def fal_of_def
        result_convert_def)
  have "state_process b w = storage_wait_handle b w" using assms(2) by (auto simp: state_process_def waiting_def)
  then have "poll (b, w) = storage_completed b (logged (logged w [] w) [Ev_Result BOOT_SUCCESS] (logged w [] w))"
    by (simp add: poll_served [OF assms(1)] storage_wait_handle_def busy r)
  then show ?thesis by (intro exI conjI) (assumption, simp)
qed

lemma sample_zones:
  "zone_find (hc32_devices sample_ll) (fal_zone_get ZONE_META_A) = Some (w25q64_zones ! Suc 0, w25q_device, 0x20000)"
  "zone_find (hc32_devices sample_ll) (fal_zone_get ZONE_IAP) = Some (efm_zones ! Suc 0, efm_device, 0x4000)"
  by (simp_all add: fal_zone_get_def hc32_devices_def zones_def efm_zones_def w25q64_zones_def zone_ids w25q_device_def
      efm_device_def layout_constants)

lemma sample_requests:
  assumes "rested f"
  shows "\<exists>g. fal_erase (fal_zone_get ZONE_META_A) 0 42 (Some f) = (FAL_IN_PROGRESS, Some g) \<and> requested OPERATION_ERASE DEVICE_W25Q64 0x20000 0x1000 g"
    "\<exists>g. fal_write (fal_zone_get ZONE_META_A) 0 42 (Some p) (Some f) = (FAL_IN_PROGRESS, Some g) \<and> requested OPERATION_WRITE DEVICE_W25Q64 0x20000 42 g"
    "\<exists>g. fal_erase (fal_zone_get ZONE_IAP) 0 0x1000 (Some f) = (FAL_IN_PROGRESS, Some g) \<and> requested OPERATION_ERASE DEVICE_EFM 0x4000 0x1000 g"
    "\<exists>g. fal_read (fal_zone_get ZONE_META_A) 0 42 (Some p) (Some f) = (FAL_IN_PROGRESS, Some g) \<and> requested OPERATION_READ DEVICE_W25Q64 0x20000 42 g"
proof -
  have z: "z_permissions (w25q64_zones ! Suc 0) = 7" "z_size (w25q64_zones ! Suc 0) = 0x1000" "z_permissions (efm_zones ! Suc 0) = 7"
      "z_size (efm_zones ! Suc 0) = 0x1C000"
    by (simp_all add: w25q64_zones_def efm_zones_def permission_or layout_constants)
  have p: "(7 :: u8) AND PERMISSION_ERASE \<noteq> 0" "(7 :: u8) AND PERMISSION_WRITE \<noteq> 0" "(7 :: u8) AND PERMISSION_READ \<noteq> 0"
    by (simp_all add: PERMISSION_ERASE_def PERMISSION_WRITE_def PERMISSION_READ_def)
  note d = request_validate_def fal_is_busy_def sample_zones sample_devices z p requested_def request_begin_def state_of_def
  note f = assms [unfolded rested_def]
  show "\<exists>g. fal_erase (fal_zone_get ZONE_META_A) 0 42 (Some f) = (FAL_IN_PROGRESS, Some g) \<and> requested OPERATION_ERASE DEVICE_W25Q64 0x20000 0x1000 g"
    using f by (simp add: fal_erase_def d Let_def)
  show "\<exists>g. fal_write (fal_zone_get ZONE_META_A) 0 42 (Some p) (Some f) = (FAL_IN_PROGRESS, Some g) \<and> requested OPERATION_WRITE DEVICE_W25Q64 0x20000 42 g"
    using f by (simp add: fal_write_def d)
  show "\<exists>g. fal_erase (fal_zone_get ZONE_IAP) 0 0x1000 (Some f) = (FAL_IN_PROGRESS, Some g) \<and> requested OPERATION_ERASE DEVICE_EFM 0x4000 0x1000 g"
    using f by (simp add: fal_erase_def d Let_def)
  show "\<exists>g. fal_read (fal_zone_get ZONE_META_A) 0 42 (Some p) (Some f) = (FAL_IN_PROGRESS, Some g) \<and> requested OPERATION_READ DEVICE_W25Q64 0x20000 42 g"
    using f by (simp add: fal_read_def d)
qed


lemma erase_sent:
  assumes "served_by m b" "fal_erase (fal_zone_get z) off len (Some (fal_of w)) = (FAL_IN_PROGRESS, Some g)"
  shows "\<exists>w'. flash_erase z off len b w = (BOOT_IN_PROGRESS, w') \<and> fal_of w' = g"
  using assms by (simp add: flash_erase_def served_byD hc32_flash_ops_def bootloader_flash_erase_def on_fal_def fal_of_def
      logged_def result_convert_def)

lemma poll_submits:
  assumes "served_by m b" "rested (fal_of w)"
  shows "b_state b = ST_META_A_READ \<Longrightarrow>
      \<exists>w'. poll (b, w) = (b\<lparr>b_state := ST_META_A_WAIT\<rparr>, w') \<and> requested OPERATION_READ DEVICE_W25Q64 0x20000 42 (fal_of w')"
    "b_state b = ST_METADATA_ERASE \<Longrightarrow> b_metadata_target_zone b = ZONE_META_A \<Longrightarrow>
      \<exists>w'. poll (b, w) = (b\<lparr>b_state := ST_METADATA_ERASE_WAIT\<rparr>, w') \<and> requested OPERATION_ERASE DEVICE_W25Q64 0x20000 0x1000 (fal_of w')"
    "b_state b = ST_METADATA_WRITE \<Longrightarrow> b_metadata_target_zone b = ZONE_META_A \<Longrightarrow>
      \<exists>w'. poll (b, w) = (b\<lparr>b_state := ST_METADATA_WRITE_WAIT\<rparr>, w') \<and> requested OPERATION_WRITE DEVICE_W25Q64 0x20000 42 (fal_of w')"
    "b_state b = ST_DOWNLOAD_ERASE \<Longrightarrow> b_download_zone b = ZONE_IAP \<Longrightarrow> ui_file_size (b_upgrade_info b) = 0x1000 \<Longrightarrow>
      \<exists>w'. poll (b, w) = (b\<lparr>b_state := ST_DOWNLOAD_ERASE_WAIT\<rparr>, w') \<and> requested OPERATION_ERASE DEVICE_EFM 0x4000 0x1000 (fal_of w')"
proof -
  have e: "(of_nat METADATA_ENCODED_SIZE :: u32) = 42" by (simp add: METADATA_ENCODED_SIZE_def)
  note req = sample_requests [OF assms(2)] and p = poll_served [OF assms(1)]
  show "b_state b = ST_META_A_READ \<Longrightarrow>
      \<exists>w'. poll (b, w) = (b\<lparr>b_state := ST_META_A_WAIT\<rparr>, w') \<and> requested OPERATION_READ DEVICE_W25Q64 0x20000 42 (fal_of w')"
    using req(4) [of "buffer_address m (Copy_Buffer 0)"] assms(1)
    by (auto simp: p state_process_def metadata_read_submit_def e flash_read_def served_byD hc32_flash_ops_def
        bootloader_flash_read_def on_fal_def fal_of_def logged_def result_convert_def submitted_def)
  show "b_state b = ST_METADATA_ERASE \<Longrightarrow> b_metadata_target_zone b = ZONE_META_A \<Longrightarrow>
      \<exists>w'. poll (b, w) = (b\<lparr>b_state := ST_METADATA_ERASE_WAIT\<rparr>, w') \<and> requested OPERATION_ERASE DEVICE_W25Q64 0x20000 0x1000 (fal_of w')"
    using req(1) erase_sent [OF assms(1)] by (fastforce simp: p state_process_def e submitted_def)
  show "b_state b = ST_METADATA_WRITE \<Longrightarrow> b_metadata_target_zone b = ZONE_META_A \<Longrightarrow>
      \<exists>w'. poll (b, w) = (b\<lparr>b_state := ST_METADATA_WRITE_WAIT\<rparr>, w') \<and> requested OPERATION_WRITE DEVICE_W25Q64 0x20000 42 (fal_of w')"
    using req(2) [of "buffer_address m (Copy_Buffer 0)"] assms(1)
    by (auto simp: p state_process_def e flash_write_def served_byD hc32_flash_ops_def
        bootloader_flash_write_def on_fal_def fal_of_def logged_def result_convert_def submitted_def)
  show "b_state b = ST_DOWNLOAD_ERASE \<Longrightarrow> b_download_zone b = ZONE_IAP \<Longrightarrow> ui_file_size (b_upgrade_info b) = 0x1000 \<Longrightarrow>
      \<exists>w'. poll (b, w) = (b\<lparr>b_state := ST_DOWNLOAD_ERASE_WAIT\<rparr>, w') \<and> requested OPERATION_ERASE DEVICE_EFM 0x4000 0x1000 (fal_of w')"
    using req(3) erase_sent [OF assms(1)] by (fastforce simp: p state_process_def submitted_def)
qed

lemma read_fails:
  assumes "requested OPERATION_READ DEVICE_W25Q64 0x20000 42 g"
  shows "fal_process (Some g) (sample_bsp\<lparr>bs_io_error := True\<rparr>)
    = (Some (operation_finish FAL_DRIVER_ERROR g), sample_bsp\<lparr>bs_io_error := True\<rparr>, [])"
  using assms by (simp add: requested_def fal_process_def find_sample device_process_def sample_devices sample_states(3))

lemma poll_failed:
  assumes "served_by m b" "b_state b = ST_META_A_WAIT" "rested (fal_of w)" "f_result (fal_of w) = FAL_DRIVER_ERROR"
  shows "\<exists>w'. poll (b, w) = (resident_failure BOOT_STORAGE_ERROR b, w') \<and> fal_of w' = fal_of w"
proof -
  have "idle w" using assms(3) by (simp add: idle_def rested_def)
  then have busy: "flash_is_busy b w = (0, logged w [] w)" using calm_calls(1) [OF assms(1), of w] by simp
  have r: "flash_result_get b (logged w [] w) = (BOOT_STORAGE_ERROR, logged (logged w [] w) [Ev_Result BOOT_STORAGE_ERROR] (logged w [] w))"
    using assms(1,4)
    by (simp add: flash_result_get_def served_byD hc32_flash_ops_def bootloader_flash_result_get_def fal_result_get_def fal_of_def
        result_convert_def logged_def)
  have "poll (b, w) = (resident_failure BOOT_STORAGE_ERROR b, logged (logged w [] w) [Ev_Result BOOT_STORAGE_ERROR] (logged w [] w))"
    by (simp add: poll_served [OF assms(1)] state_process_def assms(2) storage_wait_handle_def busy r)
  then show ?thesis by (intro exI conjI) (assumption, simp)
qed

definition direct_info :: boot_upgrade_info where
  "direct_info = \<lparr>ui_module_id = 2, ui_file_size = 0x1000, ui_version = 1, ui_update_type = 0\<rparr>"

lemma direct_begin:
  assumes "served_by m b" "b_state b = ST_WAIT_UPGRADE" "rested (fal_of w)" "b_metadata_source_zone b = ZONE_META_B"
  shows "\<exists>b' w'. bootloader_upgrade_begin (Some b) (Some direct_info) MODE_DIRECT w = (BOOT_SUCCESS, Some b', w') \<and> served_by m b'
    \<and> b_state b' = ST_METADATA_ERASE \<and> b_metadata_target_zone b' = ZONE_META_A \<and> b_metadata_next_state b' = ST_DOWNLOAD_ERASE
    \<and> b_download_zone b' = ZONE_IAP \<and> ui_file_size (b_upgrade_info b') = 0x1000 \<and> fal_of w' = fal_of w"
proof -
  have "idle w" using assms(3) by (simp add: idle_def rested_def)
  then have busy: "flash_is_busy b w = (0, logged w [] w)" using calm_calls(1) [OF assms(1), of w] by simp
  have z: "zone_requirements_check ZONE_IAP 0x1000 b (logged w [] w) = (BOOT_SUCCESS, logged (logged w [] w) [] (logged w [] w))"
    using assms(1,3)
    by (simp add: zone_requirements_check_def flash_zone_info_get_def served_byD hc32_flash_ops_def bootloader_flash_zone_info_get_def
        fal_zone_info_get_def rested_def fal_of_def sample_zones logged_def)
      (simp add: efm_zones_def permission_or PERMISSION_READ_def PERMISSION_WRITE_def PERMISSION_ERASE_def layout_constants)
  let ?w = "logged (logged w [] w) [] (logged w [] w)"
  obtain b' w' where c: "metadata_commit_start META_DOWNLOAD_DIRECT ST_DOWNLOAD_ERASE (session_reset direct_info MODE_DIRECT b) ?w = (b', w')"
    by fastforce
  have u: "upgrade_begin direct_info MODE_DIRECT b w = (BOOT_SUCCESS, b', w')"
    using assms(1,2) c z
    by (simp add: upgrade_begin_def busy direct_info_def served_byD hc32_config_def MODE_DIRECT_def MODE_STAGED_def)
  have ok: "buffers_ok b" using assms(1) by (simp add: buffers_ok_def served_byD hc32_config_def METADATA_ENCODED_SIZE_def)
  note s = begin_starts_commit [OF u ok]
  have t: "b_metadata_target_zone b' = ZONE_META_A \<and> b_download_zone b' = ZONE_IAP"
    using c assms(4) by (auto simp: metadata_commit_start_def Let_def session_reset_def resident_failure_def MODE_DIRECT_def
        MODE_STAGED_def split: prod.splits)
  have "fal_of w' = fal_of w" using calm_commit [OF c] by simp
  then show ?thesis using u s t assms(1) by (simp add: bootloader_upgrade_begin_def served_by_def direct_info_def)
qed


lemma served_states [simp]: "served_by m (resident_failure r b) = served_by m b" "served_by m (metadata_committed b) = served_by m b"
  by (simp_all add: served_by_def mounts_resident)

lemma resident_source: "b_metadata_source_zone (resident_failure r b) = b_metadata_source_zone b"
  by (simp add: resident_failure_def)

lemma committed_zone: "b_download_zone (metadata_committed b) = b_download_zone b"
  by (simp add: metadata_committed_def)

lemma sample_erases:
  assumes "served_by m b" "b_state b = ST_META_A_READ" "b_metadata_source_zone b = ZONE_META_B" "rested (fal_of w)"
  shows "\<exists>h t log. hc32_run (b, w) h t \<and> (log, Flash_Erase DEVICE_EFM 0x4000 0x1000) \<in> set h"
proof -
  let ?s = "(b, w)"
  obtain w1 where p1: "poll (b, w) = (b\<lparr>b_state := ST_META_A_WAIT\<rparr>, w1)"
      "requested OPERATION_READ DEVICE_W25Q64 0x20000 42 (fal_of w1)"
    using poll_submits(1) [OF assms(1,4,2)] by blast
  note r1 = api_poll [OF run_refl p1(1)]
  obtain w2 where r2: "hc32_run ?s ([] @ map (Pair (w_log w1)) []) (b\<lparr>b_state := ST_META_A_WAIT\<rparr>, w2)"
      "fal_of w2 = operation_finish FAL_DRIVER_ERROR (fal_of w1)"
    using serve [OF r1 read_fails [OF p1(2)]] by blast
  have f2: "rested (fal_of w2)" "f_result (fal_of w2) = FAL_DRIVER_ERROR"
    using rested_finish p1(2) by (auto simp: r2(2) requested_def)
  let ?b3 = "resident_failure BOOT_STORAGE_ERROR (b\<lparr>b_state := ST_META_A_WAIT\<rparr>)"
  obtain w3 where p3: "poll (b\<lparr>b_state := ST_META_A_WAIT\<rparr>, w2) = (?b3, w3)" "fal_of w3 = fal_of w2"
    using poll_failed [of m "b\<lparr>b_state := ST_META_A_WAIT\<rparr>" w2] assms(1) f2 by auto
  note r3 = api_poll [OF r2(1) p3(1)]
  have b3: "served_by m ?b3" "b_state ?b3 = ST_WAIT_UPGRADE" "b_metadata_source_zone ?b3 = ZONE_META_B" "rested (fal_of w3)"
    using assms(1,3) f2 p3(2) by (simp_all add: resident_source)
  obtain b4 w4 where b4: "bootloader_upgrade_begin (Some ?b3) (Some direct_info) MODE_DIRECT w3 = (BOOT_SUCCESS, Some b4, w4)"
      "served_by m b4" "b_state b4 = ST_METADATA_ERASE" "b_metadata_target_zone b4 = ZONE_META_A"
      "b_metadata_next_state b4 = ST_DOWNLOAD_ERASE" "b_download_zone b4 = ZONE_IAP" "ui_file_size (b_upgrade_info b4) = 0x1000"
      "fal_of w4 = fal_of w3"
    using direct_begin [OF b3(1,2,4,3)] by blast
  note r4 = run_api [OF r3 api_begin [OF b4(1)]]
  let ?b5 = "b4\<lparr>b_state := ST_METADATA_ERASE_WAIT\<rparr>"
  obtain w5 where p5: "poll (b4, w4) = (?b5, w5)" "requested OPERATION_ERASE DEVICE_W25Q64 0x20000 0x1000 (fal_of w5)"
    using poll_submits(2) [OF b4(2) _ b4(3,4), of w4] b3(4) b4(8) by auto
  obtain h6 w6 where r6: "hc32_run ?s h6 (?b5, w6)" "rested (fal_of w6)" "f_result (fal_of w6) = FAL_SUCCESS"
    using serve_twice [OF api_poll [OF r4 p5(1)] p5(2)] by blast
  let ?b7 = "b4\<lparr>b_state := ST_METADATA_WRITE\<rparr>"
  obtain w7 where p7: "poll (?b5, w6) = (?b7, w7)" "fal_of w7 = fal_of w6"
    using poll_done [of m ?b5 w6] b4(2) r6(2,3) by (auto simp: storage_completed_def)
  let ?b8 = "b4\<lparr>b_state := ST_METADATA_WRITE_WAIT\<rparr>"
  obtain w8 where p8: "poll (?b7, w7) = (?b8, w8)" "requested OPERATION_WRITE DEVICE_W25Q64 0x20000 42 (fal_of w8)"
    using poll_submits(3) [of m ?b7 w7] b4(2,4) r6(2) p7(2) by auto
  obtain h9 w9 where r9: "hc32_run ?s h9 (?b8, w9)" "rested (fal_of w9)" "f_result (fal_of w9) = FAL_SUCCESS"
    using serve_twice [OF api_poll [OF api_poll [OF r6(1) p7(1)] p8(1)] p8(2)] by blast
  obtain w10 where p10: "poll (?b8, w9) = (metadata_committed ?b8, w10)" "fal_of w10 = fal_of w9"
    using poll_done [of m ?b8 w9] b4(2) r9(2,3) by (auto simp: storage_completed_def)
  let ?b10 = "metadata_committed ?b8"
  have b10: "served_by m ?b10" "b_state ?b10 = ST_DOWNLOAD_ERASE" "b_download_zone ?b10 = ZONE_IAP"
      "ui_file_size (b_upgrade_info ?b10) = 0x1000" "rested (fal_of w10)"
    using b4 r9(2) p10(2) by (simp_all add: committed_zone)
  obtain w11 where p11: "poll (?b10, w10) = (?b10\<lparr>b_state := ST_DOWNLOAD_ERASE_WAIT\<rparr>, w11)"
      "requested OPERATION_ERASE DEVICE_EFM 0x4000 0x1000 (fal_of w11)"
    using poll_submits(4) [OF b10(1,5,2-4)] by blast
  have "\<exists>g x. fal_process (Some (fal_of w11)) sample_bsp = (Some g, x, [Flash_Erase DEVICE_EFM 0x4000 0x1000])"
    using p11(2) by (simp add: requested_def fal_process_def find_sample device_process_def sample_devices sample_states(1)
        operation_issue_def state_of_def Let_def split: prod.split)
  then obtain g x where p12: "fal_process (Some (fal_of w11)) sample_bsp = (Some g, x, [Flash_Erase DEVICE_EFM 0x4000 0x1000])"
    by blast
  obtain w12 where "hc32_run ?s (h9 @ map (Pair (w_log w11)) [Flash_Erase DEVICE_EFM 0x4000 0x1000])
      (?b10\<lparr>b_state := ST_DOWNLOAD_ERASE_WAIT\<rparr>, w12)"
    using serve [OF api_poll [OF api_poll [OF r9(1) p10(1)] p11(1)] p12] by blast
  then show ?thesis by fastforce
qed

text \<open>C16: power-fail protection down to the flash chip.  From the start of the HC32 bootloader, in every interleaving of
  polls of the state machine, upgrade commands and polls of the flash service, whatever the chips answer: whenever the
  internal flash is programmed or erased, the address is in the application partition, and the last metadata record that
  was programmed and confirmed before makes the next start-up replace the image instead of starting it.\<close>

theorem hc32_image_protected:
  assumes "fal_init (Some f0) (Some (Some (hc32_devices ll))) s = (FAL_SUCCESS, Some (fal_of w0), s1, cs)" "w_log w0 = []"
    and "bootloader_fal_adapter_init m uart b0 protocol w0 = Some (active, w)" "pr_bootloader active = Some b"
    and "hc32_run (b, w) h t"
    and "(log, Flash_Program DEVICE_EFM a n p) \<in> set h \<or> (log, Flash_Erase DEVICE_EFM a n) \<in> set h"
  shows "recovering (snd (commits log)) \<and> unat IAP_BASE \<le> unat a \<and> unat a + unat n \<le> unat FLASH_END"
proof -
  have "system_inv ll m (fst (b, w)) (snd (b, w))" using start_inv [OF assms(1-4)] by simp
  then have "\<forall>(log, c) \<in> set h. call_ok (hc32_devices ll) c \<and> (efm_modifies c \<longrightarrow> recovering (snd (commits log)))"
    using run_system_inv [OF assms(5)] by blast
  then obtain c where c: "call_ok (hc32_devices ll) c" "recovering (snd (commits log))"
      "c = Flash_Program DEVICE_EFM a n p \<or> c = Flash_Erase DEVICE_EFM a n"
    using assms(6) by (auto simp: efm_modifies_def)
  then have "writable_range DEVICE_EFM (unat a) (unat n)"
    using hc32_in_zone by (fastforce simp: call_ok_def chunk_ok_def)
  then show ?thesis using c(2) by (simp add: writable_range_def DEVICE_EFM_def DEVICE_W25Q64_def)
qed


definition sample_board :: "unit bsp fal \<Rightarrow> unit hc32 world" where
  "sample_board f = (sample_hc32 (replicate 16 0))\<lparr>w_platform := (w_platform (sample_hc32 (replicate 16 0)))\<lparr>h_fal := f\<rparr>\<rparr>"

lemma init_fields:
  assumes "bootloader_init (Some b0) (Some c) (Some p) w = (BOOT_SUCCESS, Some b, w')"
  shows "b_state b = ST_META_A_READ" "b_metadata_source_zone b = ZONE_META_B"
  using assms by (auto simp: bootloader_init_def Let_def boot_zeroed_def split: if_splits prod.splits option.splits)

lemma adapter_starts:
  assumes "f_state (h_fal (w_platform w0)) = STATE_IDLE"
  shows "\<exists>active w. bootloader_fal_adapter_init m True b0 protocol w0 = Some (active, w)"
proof -
  let ?b1 = "b0\<lparr>b_flash_ops := hc32_flash_ops m\<rparr>"
  obtain r b v where i: "bootloader_init (Some ?b1) (Some hc32_config) (Some hc32_boot_platform_ops_make) w0 = (r, Some b, v)"
    using init_some by blast
  have r: "r = BOOT_SUCCESS" using hc32_init_platform [OF _ i, of m] by simp
  have o: "bootloader_flash_ops_init (Some b0) (Some (hc32_flash_ops m)) = (BOOT_SUCCESS, Some ?b1)"
    by (simp add: bootloader_flash_ops_init_def hc32_ops_valid)
  have "c_default_mode hc32_config \<le> MODE_STAGED" by (simp add: hc32_config_def)
  then show ?thesis
    using assms r by (simp add: bootloader_fal_adapter_init_def fal_state_get_def o i bootloader_protocol_init_def
        bootloader_protocol_mount_def Let_def not_less)
qed

theorem hc32_image_protected_witness:
  "\<exists>f s1 cs m protocol active w b h t log.
     fal_init (Some fal_zeroed) (Some (Some (hc32_devices sample_ll))) sample_bsp = (FAL_SUCCESS, Some f, s1, cs)
     \<and> bootloader_fal_adapter_init m True (boot_zeroed (hc32_flash_ops m)) protocol (sample_board f) = Some (active, w)
     \<and> pr_bootloader active = Some b \<and> hc32_run (b, w) h t
     \<and> (log, Flash_Erase DEVICE_EFM 0x4000 0x1000) \<in> set h \<and> recovering (snd (commits log))"
proof -
  obtain f s1 cs where f: "fal_init (Some fal_zeroed) (Some (Some (hc32_devices sample_ll))) sample_bsp = (FAL_SUCCESS, Some f, s1, cs)"
      "f_state f = STATE_IDLE" "f_cfg f = Some (Some (hc32_devices sample_ll))" "f_operation f = OPERATION_NONE" "\<not> f_stop_requested f"
    using hc32_starts by blast
  have w0: "fal_of (sample_board f) = f" "w_log (sample_board f) = []"
    by (simp_all add: sample_board_def fal_of_def sample_hc32_def)
  obtain m :: buffers where True by simp
  obtain protocol :: "unit hc32 boot_protocol" where True by simp
  obtain active w where a: "bootloader_fal_adapter_init m True (boot_zeroed (hc32_flash_ops m)) protocol (sample_board f) = Some (active, w)"
    using adapter_starts [of "sample_board f" m "boot_zeroed (hc32_flash_ops m)" protocol] f(2) w0(1) unfolding fal_of_def by auto
  obtain b1 b where b: "bootloader_init (Some b1) (Some hc32_config) (Some hc32_boot_platform_ops_make) (sample_board f) = (BOOT_SUCCESS, Some b, w)"
      "b_flash_ops b1 = hc32_flash_ops m" "pr_bootloader active = Some b"
    using adapter_init [OF a] by blast
  have "fal_of w = f" using hc32_init_platform [OF b(2,1)] w0(1) by (simp add: fal_of_def)
  then have "rested (fal_of w)" using f by (simp add: rested_def)
  moreover have "served_by m b" using init_mounts [OF b(1)] b(2) by (simp add: served_by_def)
  ultimately obtain h t log where run: "hc32_run (b, w) h t" "(log, Flash_Erase DEVICE_EFM 0x4000 0x1000) \<in> set h"
    using sample_erases init_fields [OF b(1)] by blast
  have "fal_init (Some fal_zeroed) (Some (Some (hc32_devices sample_ll))) sample_bsp = (FAL_SUCCESS, Some (fal_of (sample_board f)), s1, cs)"
    using f(1) w0(1) by simp
  from hc32_image_protected [OF this w0(2) a b(3) run(1), of log "0x4000" "0x1000" None]
  have "recovering (snd (commits log))" using run(2) by blast
  then show ?thesis using f(1) a b(3) run by blast
qed

end
