(* ===== verification/Section_Runtime.thy ===== *)
theory Section_Runtime
  imports Linked_List "HOL-Library.Multiset" "HOL-Library.Monad_Syntax"
begin

text \<open>
  code/section/baremetal/section.c: the section table that the linker collects, the runtime lists that
  \<open>section_init\<close> builds from it, and the cooperative scheduler on top: periodic tasks, interrupt
  callbacks, links with their byte handlers, and state machines.  Callbacks are functions on the rest of
  the program's state, \<open>'x\<close>; the system tick is read from it.  Performance hooks and the race probe
  do not touch this state and are left out.
\<close>

section \<open>Registered objects\<close>

text \<open>A function pointer, \<open>None\<close> being NULL.\<close>

type_synonym 'x callback = "('x \<Rightarrow> 'x) option"

record 'x reg_init =
  in_priority :: "8 word"
  in_func :: "'x callback"

record 'x reg_task =
  t_period :: u32
  t_time_last :: u32
  t_func :: "'x callback"
  t_is_ready :: u8

record 'x reg_interrupt =
  ir_priority :: u8
  ir_func :: "'x callback"

text \<open>\<open>rx_get_byte\<close> returns its flag and what it stored; a handler is bound to its context and its printf.\<close>

record 'x section_link =
  rx_get_byte :: "('x \<Rightarrow> (u8 \<times> u8) \<times> 'x) option"
  handler_arr :: "(u8 \<Rightarrow> 'x \<Rightarrow> 'x) option list option"
  handler_num :: u32

definition SECTION_INIT :: u32 where "SECTION_INIT = 0"
definition SECTION_TASK :: u32 where "SECTION_TASK = 1"
definition SECTION_INTERRUPT :: u32 where "SECTION_INTERRUPT = 2"
definition SECTION_LINK :: u32 where "SECTION_LINK = 4"

text \<open>An entry of the section table: its type and the item it points to.\<close>

type_synonym reg_section = "u32 \<times> nat option"

text \<open>The list heads and tails, the items' \<open>p_next\<close>, and the objects behind \<open>p_obj\<close>.\<close>

record 'x runtime =
  p_init_first :: "nat option"
  p_task_first :: "nat option"
  p_task_tail :: "nat option"
  p_interrupt_first :: "nat option"
  p_link_first :: "nat option"
  p_link_tail :: "nat option"
  p_next :: "nat \<Rightarrow> nat option"
  init_at :: "nat \<Rightarrow> 'x reg_init option"
  task_at :: "nat \<Rightarrow> 'x reg_task option"
  interrupt_at :: "nat \<Rightarrow> 'x reg_interrupt option"
  link_at :: "nat \<Rightarrow> 'x section_link option"
  task_scheduler_ready :: u8

section \<open>Inserting\<close>

definition task_insert :: "u32 \<Rightarrow> nat option \<Rightarrow> 'x runtime \<Rightarrow> 'x runtime" where
  "task_insert tick p_item s =
     (case p_item of
        None \<Rightarrow> s
      | Some i \<Rightarrow>
          (case task_at s i of
             None \<Rightarrow> s
           | Some t \<Rightarrow>
               (case list_append (p_task_first s) (p_task_tail s) (p_next s) i of
                  (f, l, n) \<Rightarrow>
                    s\<lparr>task_at := (task_at s)(i \<mapsto> t\<lparr>t_time_last := tick, t_is_ready := 0\<rparr>),
                      p_task_first := f, p_task_tail := l, p_next := n\<rparr>)))"

text \<open>
  The walk to the item behind which a new one of priority \<open>prio\<close> belongs.  \<open>None\<close> is a walk that reads through
  a NULL object or does not return.
\<close>

partial_function (option) insert_walk :: "(nat \<Rightarrow> int option) \<Rightarrow> int \<Rightarrow> (nat \<Rightarrow> nat option) \<Rightarrow> nat \<Rightarrow> nat option" where
  "insert_walk prio_at prio nxt p_prev =
     (case nxt p_prev of
        None \<Rightarrow> Some p_prev
      | Some q \<Rightarrow>
          (case prio_at q of
             None \<Rightarrow> None
           | Some k \<Rightarrow> if k \<le> prio then insert_walk prio_at prio nxt q else Some p_prev))"

definition sorted_insert ::
  "(nat \<Rightarrow> int option) \<Rightarrow> int \<Rightarrow> nat \<Rightarrow> nat option \<Rightarrow> (nat \<Rightarrow> nat option) \<Rightarrow> (nat option \<times> (nat \<Rightarrow> nat option)) option" where
  "sorted_insert prio_at prio p_item first nxt =
     (case first of
        None \<Rightarrow> Some (Some p_item, nxt(p_item := first))
      | Some f \<Rightarrow>
          (case prio_at f of
             None \<Rightarrow> None
           | Some k \<Rightarrow>
               if prio < k then Some (Some p_item, nxt(p_item := first))
               else
                 (case insert_walk prio_at prio nxt f of
                    None \<Rightarrow> None
                  | Some p_prev \<Rightarrow> Some (first, nxt(p_item := nxt p_prev, p_prev := Some p_item)))))"

definition interrupt_priority :: "'x runtime \<Rightarrow> nat \<Rightarrow> int option" where
  "interrupt_priority s i = map_option (\<lambda>p. uint (ir_priority p)) (interrupt_at s i)"

definition interrupt_insert :: "nat option \<Rightarrow> 'x runtime \<Rightarrow> 'x runtime option" where
  "interrupt_insert p_item s =
     (case p_item of
        None \<Rightarrow> Some s
      | Some i \<Rightarrow>
          (case interrupt_priority s i of
             None \<Rightarrow> Some s
           | Some prio \<Rightarrow>
               do { (f, n) \<leftarrow> sorted_insert (interrupt_priority s) prio i (p_interrupt_first s) (p_next s);
                    Some (s\<lparr>p_interrupt_first := f, p_next := n\<rparr>) }))"

definition link_insert :: "nat option \<Rightarrow> 'x runtime \<Rightarrow> 'x runtime" where
  "link_insert p_item s =
     (case p_item of
        None \<Rightarrow> s
      | Some i \<Rightarrow>
          if link_at s i = None then s
          else
            (case list_append (p_link_first s) (p_link_tail s) (p_next s) i of
               (f, l, n) \<Rightarrow> s\<lparr>p_link_first := f, p_link_tail := l, p_next := n\<rparr>))"

definition init_priority :: "'x runtime \<Rightarrow> nat \<Rightarrow> int option" where
  "init_priority s i = map_option (\<lambda>p. sint (in_priority p)) (init_at s i)"

definition init_insert :: "nat option \<Rightarrow> 'x runtime \<Rightarrow> 'x runtime option" where
  "init_insert p_item s =
     (case p_item of
        None \<Rightarrow> Some s
      | Some i \<Rightarrow>
          (case init_priority s i of
             None \<Rightarrow> Some s
           | Some prio \<Rightarrow>
               do { (f, n) \<leftarrow> sorted_insert (init_priority s) prio i (p_init_first s) (p_next s);
                    Some (s\<lparr>p_init_first := f, p_next := n\<rparr>) }))"

section \<open>Start-up\<close>

definition section_register :: "u32 \<Rightarrow> reg_section \<Rightarrow> 'x runtime \<Rightarrow> 'x runtime option" where
  "section_register tick r s =
     (if fst r = SECTION_INIT then init_insert (snd r) s
      else if fst r = SECTION_TASK then Some (task_insert tick (snd r) s)
      else if fst r = SECTION_INTERRUPT then interrupt_insert (snd r) s
      else if fst r = SECTION_LINK then Some (link_insert (snd r) s)
      else Some s)"

fun section_scan :: "u32 \<Rightarrow> reg_section list \<Rightarrow> 'x runtime \<Rightarrow> 'x runtime option" where
  "section_scan tick [] s = Some s"
| "section_scan tick (r # regs) s = do { s1 \<leftarrow> section_register tick r s; section_scan tick regs s1 }"

text \<open>The items that a loop over a list visits; \<open>None\<close> is a cyclic list.\<close>

partial_function (option) list_walk :: "(nat \<Rightarrow> nat option) \<Rightarrow> nat option \<Rightarrow> nat list option" where
  "list_walk nxt p_item =
     (case p_item of
        None \<Rightarrow> Some []
      | Some i \<Rightarrow> do { xs \<leftarrow> list_walk nxt (nxt i); Some (i # xs) })"

definition run_callback :: "'x callback \<Rightarrow> 'x \<Rightarrow> 'x" where
  "run_callback p_func x = (case p_func of None \<Rightarrow> x | Some f \<Rightarrow> f x)"

definition lists_cleared :: "'x runtime \<Rightarrow> 'x runtime" where
  "lists_cleared s =
     s\<lparr>task_scheduler_ready := 0, p_init_first := None, p_task_first := None, p_task_tail := None,
       p_interrupt_first := None, p_link_first := None, p_link_tail := None\<rparr>"

definition section_init :: "('x \<Rightarrow> u32) \<Rightarrow> reg_section list \<Rightarrow> 'x runtime \<Rightarrow> 'x \<Rightarrow> ('x runtime \<times> 'x) option" where
  "section_init tick regs s x =
     do { s1 \<leftarrow> section_scan (tick x) regs (lists_cleared s);
          inits \<leftarrow> list_walk (p_next s1) (p_init_first s1);
          Some (s1\<lparr>task_scheduler_ready := 1\<rparr>, foldl (\<lambda>x i. run_callback (in_func (the (init_at s1 i))) x) x inits) }"

definition section_runtime_reset :: "'x runtime \<Rightarrow> 'x runtime" where
  "section_runtime_reset s = lists_cleared s"

text \<open>One registration type collected into a list; only the \<open>p_next\<close> of its items change.\<close>

definition section_collect :: "u32 \<Rightarrow> reg_section list \<Rightarrow> 'x runtime \<Rightarrow> nat option \<times> 'x runtime" where
  "section_collect ty regs s =
     (case foldl (\<lambda>(f, l, n) r.
              if fst r = ty then
                (let i = the (snd r); n1 = n(i := None)
                 in (case l of None \<Rightarrow> (Some i, Some i, n1) | Some q \<Rightarrow> (f, Some i, n1(q := Some i))))
              else (f, l, n)) (None, None, p_next s) regs of
        (f, l, n) \<Rightarrow> (f, s\<lparr>p_next := n\<rparr>))"

section \<open>Tasks\<close>

definition task_schedule_next :: "u32 \<Rightarrow> 'x reg_task \<Rightarrow> 'x reg_task" where
  "task_schedule_next elapsed t =
     t\<lparr>t_time_last := t_time_last t + (if elapsed - t_period t < t_period t then t_period t else elapsed)\<rparr>"

definition task_activate_if_due :: "u32 \<Rightarrow> 'x reg_task \<Rightarrow> 'x reg_task" where
  "task_activate_if_due now t =
     (if t_func t = None \<or> t_period t = 0 then t
      else
        (let elapsed = now - t_time_last t
         in if elapsed < t_period t then t
            else if elapsed \<ge> t_period t \<and> t_is_ready t = 0 then (task_schedule_next elapsed t)\<lparr>t_is_ready := 1\<rparr>
            else t))"

definition task_update :: "('x reg_task \<Rightarrow> 'x reg_task) \<Rightarrow> nat \<Rightarrow> 'x runtime \<Rightarrow> 'x runtime" where
  "task_update f i s = s\<lparr>task_at := (task_at s)(i := map_option f (task_at s i))\<rparr>"

definition section_task_tick :: "('x \<Rightarrow> u32) \<Rightarrow> 'x runtime \<Rightarrow> 'x \<Rightarrow> 'x runtime option" where
  "section_task_tick tick s x =
     (if task_scheduler_ready s = 0 then Some s
      else
        do { tasks \<leftarrow> list_walk (p_next s) (p_task_first s);
             Some (foldl (\<lambda>s i. task_update (task_activate_if_due (tick x)) i s) s tasks) })"

definition task_claim :: "nat \<Rightarrow> 'x runtime \<Rightarrow> bool \<times> 'x runtime" where
  "task_claim i s =
     (case task_at s i of
        None \<Rightarrow> (False, s)
      | Some t \<Rightarrow> if t_is_ready t \<noteq> 0 then (True, task_update (\<lambda>t. t\<lparr>t_is_ready := 0\<rparr>) i s) else (False, s))"

definition task_turn :: "nat \<Rightarrow> 'x runtime \<times> 'x \<Rightarrow> 'x runtime \<times> 'x" where
  "task_turn i c =
     (case task_claim i (fst c) of
        (claimed, s1) \<Rightarrow> (s1, if claimed then the (t_func (the (task_at s1 i))) (snd c) else snd c))"

definition run_task :: "('x \<Rightarrow> u32) \<Rightarrow> 'x runtime \<Rightarrow> 'x \<Rightarrow> ('x runtime \<times> 'x) option" where
  "run_task tick s x =
     do { s1 \<leftarrow> section_task_tick tick s x;
          tasks \<leftarrow> list_walk (p_next s1) (p_task_first s1);
          Some (foldl (\<lambda>c i. task_turn i c) (s1, x) tasks) }"

definition section_interrupt :: "'x runtime \<Rightarrow> 'x \<Rightarrow> 'x option" where
  "section_interrupt s x =
     do { items \<leftarrow> list_walk (p_next s) (p_interrupt_first s);
          Some (foldl (\<lambda>x i. run_callback (ir_func (the (interrupt_at s i))) x) x items) }"

section \<open>Links\<close>

definition SECTION_LINK_RX_BYTE_BUDGET :: nat where "SECTION_LINK_RX_BYTE_BUDGET = 128"

text \<open>One byte to every handler of the link, in the order of its array, which holds \<open>handler_num\<close> entries.\<close>

definition byte_dispatch :: "(u8 \<Rightarrow> 'x \<Rightarrow> 'x) option list \<Rightarrow> u8 \<Rightarrow> 'x \<Rightarrow> 'x" where
  "byte_dispatch handlers data x = foldl (\<lambda>x h. case h of None \<Rightarrow> x | Some f \<Rightarrow> f data x) x handlers"

fun link_loop :: "nat \<Rightarrow> ('x \<Rightarrow> (u8 \<times> u8) \<times> 'x) \<Rightarrow> (u8 \<Rightarrow> 'x \<Rightarrow> 'x) option list \<Rightarrow> 'x \<Rightarrow> 'x" where
  "link_loop 0 rx handlers x = x"
| "link_loop (Suc budget) rx handlers x =
     (case rx x of
        ((flag, data), x1) \<Rightarrow> if flag = 0 then x1 else link_loop budget rx handlers (byte_dispatch handlers data x1))"

definition link_process :: "'x section_link option \<Rightarrow> 'x \<Rightarrow> 'x" where
  "link_process p_link x =
     (case p_link of
        None \<Rightarrow> x
      | Some l \<Rightarrow>
          (case (rx_get_byte l, handler_arr l) of
             (Some rx, Some handlers) \<Rightarrow>
               link_loop SECTION_LINK_RX_BYTE_BUDGET rx (take (unat (handler_num l)) handlers) x
           | _ \<Rightarrow> x))"

definition section_link_task :: "'x runtime \<Rightarrow> 'x \<Rightarrow> 'x option" where
  "section_link_task s x =
     do { links \<leftarrow> list_walk (p_next s) (p_link_first s); Some (foldl (\<lambda>x i. link_process (link_at s i) x) x links) }"

section \<open>State machines\<close>

record 'x reg_fsm_func =
  fe_sta :: u32
  fe_in :: "'x callback"
  fe_exe :: "'x callback"
  fe_chk :: "(u32 \<Rightarrow> 'x \<Rightarrow> u32 \<times> 'x) option"
  fe_out :: "'x callback"

text \<open>The event variable belongs to the application: \<open>p_fsm_ev\<close> reads and writes it.\<close>

record 'x reg_fsm =
  fsm_sta :: u32
  p_fsm_func_table :: "'x reg_fsm_func list option"
  fsm_table_size :: u32
  fsm_sta_is_change :: u8
  p_fsm_ev :: "(('x \<Rightarrow> u32) \<times> (u32 \<Rightarrow> 'x \<Rightarrow> 'x)) option"

text \<open>The body of the loop for the entry of the current state.\<close>

definition fsm_entry_run ::
  "('x \<Rightarrow> u32) \<Rightarrow> (u32 \<Rightarrow> 'x \<Rightarrow> 'x) \<Rightarrow> 'x reg_fsm_func \<Rightarrow> 'x reg_fsm \<Rightarrow> 'x \<Rightarrow> 'x reg_fsm \<times> 'x" where
  "fsm_entry_run ev_get ev_set entry fsm x =
     (let (fsm1, x1) =
            (if fsm_sta_is_change fsm \<noteq> 0 then (fsm\<lparr>fsm_sta_is_change := 0\<rparr>, run_callback (fe_in entry) x) else (fsm, x));
          x2 = run_callback (fe_exe entry) x1
      in if ev_get x2 \<noteq> 0 then
           (case (case fe_chk entry of None \<Rightarrow> (0, x2) | Some chk \<Rightarrow> chk (ev_get x2) x2) of
              (next, x3) \<Rightarrow>
                (case (if next \<noteq> 0 \<and> next \<noteq> fe_sta entry
                       then (fsm1\<lparr>fsm_sta := next, fsm_sta_is_change := 1\<rparr>, run_callback (fe_out entry) x3)
                       else (fsm1, x3)) of
                   (fsm2, x4) \<Rightarrow> (fsm2, ev_set 0 x4)))
         else (fsm1, x2))"

definition section_fsm_func :: "'x reg_fsm option \<Rightarrow> 'x \<Rightarrow> 'x reg_fsm option \<times> 'x" where
  "section_fsm_func p_fsm x =
     (case p_fsm of
        None \<Rightarrow> (None, x)
      | Some fsm \<Rightarrow>
          (case (p_fsm_func_table fsm, p_fsm_ev fsm) of
             (Some table, Some (ev_get, ev_set)) \<Rightarrow>
               (case List.find (\<lambda>e. fsm_sta fsm = fe_sta e) (take (unat (fsm_table_size fsm)) table) of
                  None \<Rightarrow> (p_fsm, x)
                | Some entry \<Rightarrow>
                    (case fsm_entry_run ev_get ev_set entry fsm x of (fsm1, x1) \<Rightarrow> (Some fsm1, x1)))
           | _ \<Rightarrow> (p_fsm, x)))"

end
