(* ===== verification/Insertion.thy ===== *)
theory Insertion
  imports Main "HOL-Library.Multiset"
begin

text \<open>
  Insertion by a key, behind the items with the same key: the registries of the runtimes keep their lists this way,
  and items inserted one by one end up stably sorted.
\<close>

definition place :: "('a \<Rightarrow> 'k :: linorder) \<Rightarrow> 'a \<Rightarrow> 'a list \<Rightarrow> 'a list" where
  "place f i xs = takeWhile (\<lambda>y. f y \<le> f i) xs @ i # dropWhile (\<lambda>y. f y \<le> f i) xs"

lemma set_place: "set (place f i xs) = insert i (set xs)"
proof -
  have "set (takeWhile (\<lambda>y. f y \<le> f i) xs) \<union> set (dropWhile (\<lambda>y. f y \<le> f i) xs) = set xs"
    by (metis set_append takeWhile_dropWhile_id)
  then show ?thesis by (auto simp: place_def)
qed

lemma mset_place: "mset (place f i xs) = mset (xs @ [i])"
  by (simp add: place_def) (metis mset_append takeWhile_dropWhile_id union_commute)

lemma sorted_place: "sorted (map f xs) \<Longrightarrow> sorted (map f (place f i xs))"
proof (induction xs)
  case (Cons x xs)
  then show ?case by (auto simp: place_def dest: set_takeWhileD set_dropWhileD)
qed (simp add: place_def)

lemma filter_place:
  assumes "sorted (map f xs)"
  shows "filter (\<lambda>y. f k = f y) (place f i xs) = filter (\<lambda>y. f k = f y) (xs @ [i])"
proof (cases "f k = f i")
  case True
  have "filter (\<lambda>y. f k = f y) (dropWhile (\<lambda>y. f y \<le> f i) xs) = []"
  proof (cases "dropWhile (\<lambda>y. f y \<le> f i) xs")
    case (Cons v vs)
    then have "\<not> f v \<le> f i" using hd_dropWhile [of "\<lambda>y. f y \<le> f i" xs] by simp
    moreover have "sorted (map f (v # vs))" using assms Cons sorted_append by (metis map_append takeWhile_dropWhile_id)
    ultimately show ?thesis using True Cons by (auto simp: filter_empty_conv)
  next
    case Nil
    then show ?thesis by (simp only: filter.simps)
  qed
  then show ?thesis using True by (simp add: place_def) (metis append_Nil2 filter_append takeWhile_dropWhile_id)
next
  case False
  then show ?thesis by (simp add: place_def) (metis filter_append takeWhile_dropWhile_id)
qed

text \<open>Inserting the items one by one sorts them, stably.\<close>

lemma place_sort: "place f i (sort_key f xs) = sort_key f (xs @ [i])"
proof (rule properties_for_sort_key [symmetric])
  show "mset (place f i (sort_key f xs)) = mset (xs @ [i])" by (simp add: mset_place)
  show "filter (\<lambda>x. f k = f x) (place f i (sort_key f xs)) = filter (\<lambda>x. f k = f x) (xs @ [i])" for k
  proof -
    have "(\<lambda>y. f y = f k) = (\<lambda>y. f k = f y)" by auto
    then have "filter (\<lambda>y. f k = f y) (sort_key f xs) = filter (\<lambda>y. f k = f y) xs"
      using sort_key_stable [of f "f k" xs] by simp
    then show ?thesis by (simp add: filter_place)
  qed
  show "sorted (map f (place f i (sort_key f xs)))" by (simp add: sorted_place)
qed

text \<open>The same position found from the end of a sorted list.\<close>

lemma place_from_end:
  assumes "sorted (map f xs)" "k = length (takeWhile (\<lambda>y. \<not> f y \<le> f i) (rev xs))"
  shows "take (length xs - k) xs @ [i] @ drop (length xs - k) xs = place f i xs"
proof -
  define us vs where "us = takeWhile (\<lambda>y. f y \<le> f i) xs" and "vs = dropWhile (\<lambda>y. f y \<le> f i) xs"
  have xs: "xs = us @ vs" by (simp add: us_def vs_def)
  have u: "f y \<le> f i" if "y \<in> set us" for y using that by (auto simp: us_def dest: set_takeWhileD)
  have v: "\<not> f y \<le> f i" if "y \<in> set vs" for y
  proof (cases vs)
    case (Cons w ws)
    then have "\<not> f w \<le> f i" using hd_dropWhile [of "\<lambda>y. f y \<le> f i" xs] by (simp add: vs_def)
    moreover have "f w \<le> f y" using assms(1) xs Cons that by (auto simp: sorted_append)
    ultimately show ?thesis by simp
  qed (use that in simp)
  have "takeWhile (\<lambda>y. \<not> f y \<le> f i) (rev vs @ rev us) = rev vs @ takeWhile (\<lambda>y. \<not> f y \<le> f i) (rev us)"
    using v by (intro takeWhile_append2) simp
  moreover have "takeWhile (\<lambda>y. \<not> f y \<le> f i) (rev us) = []" using u by (cases "rev us") (auto simp: takeWhile_eq_Nil_iff)
  ultimately have "k = length vs" by (simp add: assms(2) xs)
  then have "take (length xs - k) xs = us" "drop (length xs - k) xs = vs" by (simp_all add: xs)
  then show ?thesis by (simp add: place_def us_def [symmetric] vs_def [symmetric])
qed

end
