(* ===== verification/Section_Props.thy ===== *)
theory Section_Props
  imports Section_Runtime Insertion
begin

text \<open>
  Properties of code/section/baremetal/section.c: the lists that \<open>section_init\<close> builds, the order in which
  callbacks run, the timing of periodic tasks across the wrap of the tick, and what a link hands to its handlers.
\<close>

section \<open>Walks\<close>

lemma list_walk_segment: "segment n p xs None \<Longrightarrow> list_walk n p = Some xs"
proof (induction xs arbitrary: p)
  case Nil
  then show ?case by (subst list_walk.simps) simp
next
  case (Cons x xs)
  then show ?case by (subst list_walk.simps) simp
qed

lemma insert_walk_segment:
  assumes "segment n (n p) ys None" "\<forall>y \<in> set ys. prio_at y = Some (f y)"
  shows "insert_walk prio_at k n p = Some (last (p # takeWhile (\<lambda>y. f y \<le> k) ys))"
  using assms
proof (induction ys arbitrary: p)
  case Nil
  then show ?case by (subst insert_walk.simps) simp
next
  case (Cons y ys)
  then have "n p = Some y" "prio_at y = Some (f y)" by simp_all
  then show ?case using Cons.IH [of y] Cons.prems by (subst insert_walk.simps) auto
qed

section \<open>Sorted lists\<close>

lemma segment_end: "segment n p xs q \<Longrightarrow> xs \<noteq> [] \<Longrightarrow> q = n (last xs)"
proof (induction xs arbitrary: p)
  case (Cons x xs)
  then show ?case by (cases xs) auto
qed simp

lemma sorted_insert_segment:
  assumes "segment n first xs None" "distinct xs" "i \<notin> set xs" "\<forall>x \<in> set xs. prio_at x = Some (f x)"
  shows "\<exists>first' n'. sorted_insert prio_at (f i) i first n = Some (first', n') \<and> segment n' first' (place f i xs) None
    \<and> (\<forall>j. j \<notin> insert i (set xs) \<longrightarrow> n' j = n j)"
proof (cases xs)
  case Nil
  then show ?thesis using assms(1) by (simp add: sorted_insert_def place_def)
next
  case (Cons x ys)
  have first: "first = Some x" "segment n (n x) ys None" "prio_at x = Some (f x)" using assms(1,4) Cons by simp_all
  show ?thesis
  proof (cases "f i < f x")
    case True
    have "segment (n(i := first)) first xs None" using assms(1,3) by (simp add: segment_update_other)
    then show ?thesis using True first Cons by (simp add: sorted_insert_def place_def)
  next
    case False
    define us where "us = takeWhile (\<lambda>y. f y \<le> f i) xs"
    define vs where "vs = dropWhile (\<lambda>y. f y \<le> f i) xs"
    have xs: "xs = us @ vs" by (simp add: us_def vs_def)
    have us: "us = x # takeWhile (\<lambda>y. f y \<le> f i) ys" using False by (simp add: us_def Cons)
    have walk: "insert_walk prio_at (f i) n x = Some (last us)"
      unfolding us by (rule insert_walk_segment [OF first(2)]) (use assms(4) Cons in simp)
    let ?l = "last us"
    have l: "?l \<in> set us" "?l \<noteq> i" using assms(3) xs us last_in_set [of us] by auto
    let ?n = "n(i := n ?l, ?l := Some i)"
    have ins: "sorted_insert prio_at (f i) i first n = Some (first, ?n)"
      using False first walk by (simp add: sorted_insert_def)
    obtain r where r: "segment n first us r" "segment n r vs None" using assms(1) unfolding xs segment_append by blast
    have d: "distinct us" "set us \<inter> set vs = {}" "i \<notin> set us" "i \<notin> set vs" using assms(2,3) xs by auto
    have rl: "r = n ?l" using r(1) us by (intro segment_end) simp_all
    have "segment (n(i := n ?l)) first us (n ?l)" using r(1) rl d(3) by (simp add: segment_update_other)
    moreover have "us \<noteq> []" by (simp add: us)
    ultimately have a: "segment ?n first us (Some i)" using segment_update_last d(1) by blast
    have "?l \<notin> set vs" using l(1) d(2) by blast
    then have "segment ?n (n ?l) vs None" using r(2) rl d(4) by (simp add: segment_update_other)
    then have "segment ?n (Some i) (i # vs) None" using l(2) by simp
    then have "segment ?n first (place f i xs) None" using a unfolding place_def us_def [symmetric] vs_def [symmetric] segment_append by blast
    moreover have "\<forall>j. j \<notin> insert i (set xs) \<longrightarrow> ?n j = n j" using l(1) xs by auto
    ultimately show ?thesis using ins by blast
  qed
qed

section \<open>Start-up\<close>

text \<open>The items of a type, in the order of the section table.\<close>

definition reg_items :: "u32 \<Rightarrow> (nat \<Rightarrow> 'a option) \<Rightarrow> reg_section list \<Rightarrow> nat list" where
  "reg_items ty at regs = [i. (ty', Some i) \<leftarrow> regs, ty' = ty, at i \<noteq> None]"

definition init_key :: "'x runtime \<Rightarrow> nat \<Rightarrow> int" where
  "init_key s i = sint (in_priority (the (init_at s i)))"

definition interrupt_key :: "'x runtime \<Rightarrow> nat \<Rightarrow> int" where
  "interrupt_key s i = uint (ir_priority (the (interrupt_at s i)))"

definition task_reset :: "u32 \<Rightarrow> 'x reg_task \<Rightarrow> 'x reg_task" where
  "task_reset tick t = t\<lparr>t_time_last := tick, t_is_ready := 0\<rparr>"

text \<open>What the runtime looks like when the items \<open>I\<close>, \<open>T\<close>, \<open>K\<close>, \<open>L\<close> have been registered.\<close>

definition lists_built :: "u32 \<Rightarrow> 'x runtime \<Rightarrow> nat list \<Rightarrow> nat list \<Rightarrow> nat list \<Rightarrow> nat list \<Rightarrow> 'x runtime \<Rightarrow> bool" where
  "lists_built tick s0 I T K L s \<longleftrightarrow>
     segment (p_next s) (p_init_first s) (sort_key (init_key s0) I) None
     \<and> list_at (p_next s) (p_task_first s) (p_task_tail s) T
     \<and> segment (p_next s) (p_interrupt_first s) (sort_key (interrupt_key s0) K) None
     \<and> list_at (p_next s) (p_link_first s) (p_link_tail s) L
     \<and> init_at s = init_at s0 \<and> interrupt_at s = interrupt_at s0 \<and> link_at s = link_at s0
     \<and> (\<forall>i. task_at s i = (if i \<in> set T then map_option (task_reset tick) (task_at s0 i) else task_at s0 i))
     \<and> (\<forall>i \<in> set I. init_at s0 i \<noteq> None) \<and> (\<forall>i \<in> set K. interrupt_at s0 i \<noteq> None)
     \<and> distinct (I @ T @ K @ L)"

lemma init_built:
  assumes "lists_built tick s0 I T K L s" "i \<notin> set (I @ T @ K @ L)" "init_at s0 i \<noteq> None"
  shows "\<exists>s'. init_insert (Some i) s = Some s' \<and> lists_built tick s0 (I @ [i]) T K L s'"
proof -
  note b = assms(1) [unfolded lists_built_def]
  obtain p where p: "init_at s0 i = Some p" using assms(3) by blast
  have key: "init_priority s j = Some (init_key s0 j)" if "init_at s0 j \<noteq> None" for j
    using b that by (auto simp: init_priority_def init_key_def)
  have "\<exists>first' n'. sorted_insert (init_priority s) (init_key s0 i) i (p_init_first s) (p_next s) = Some (first', n')
      \<and> segment n' first' (place (init_key s0) i (sort_key (init_key s0) I)) None
      \<and> (\<forall>j. j \<notin> insert i (set (sort_key (init_key s0) I)) \<longrightarrow> n' j = p_next s j)"
    by (rule sorted_insert_segment) (use b assms(2) key in auto)
  then obtain f n where ins: "sorted_insert (init_priority s) (init_key s0 i) i (p_init_first s) (p_next s) = Some (f, n)"
    and seg: "segment n f (sort_key (init_key s0) (I @ [i])) None" and kept: "\<And>j. j \<notin> insert i (set I) \<Longrightarrow> n j = p_next s j"
    unfolding place_sort by auto
  have built: "init_insert (Some i) s = Some (s\<lparr>p_init_first := f, p_next := n\<rparr>)"
    using p key [of i] ins by (simp add: init_insert_def)
  have "list_at n (p_task_first s) (p_task_tail s) T"
    by (rule list_at_kept [of "p_next s"]) (use b in blast, rule kept, use b assms(2) in auto)
  moreover have "list_at n (p_link_first s) (p_link_tail s) L"
    by (rule list_at_kept [of "p_next s"]) (use b in blast, rule kept, use b assms(2) in auto)
  moreover have "segment n (p_interrupt_first s) (sort_key (interrupt_key s0) K) None"
    by (rule segment_kept [of "p_next s"]) (use b in blast, rule kept, use b assms(2) in auto)
  ultimately have "lists_built tick s0 (I @ [i]) T K L (s\<lparr>p_init_first := f, p_next := n\<rparr>)"
    using b seg assms(2,3) by (auto simp: lists_built_def)
  then show ?thesis using built by blast
qed

lemma interrupt_built:
  assumes "lists_built tick s0 I T K L s" "i \<notin> set (I @ T @ K @ L)" "interrupt_at s0 i \<noteq> None"
  shows "\<exists>s'. interrupt_insert (Some i) s = Some s' \<and> lists_built tick s0 I T (K @ [i]) L s'"
proof -
  note b = assms(1) [unfolded lists_built_def]
  obtain p where p: "interrupt_at s0 i = Some p" using assms(3) by blast
  have key: "interrupt_priority s j = Some (interrupt_key s0 j)" if "interrupt_at s0 j \<noteq> None" for j
    using b that by (auto simp: interrupt_priority_def interrupt_key_def)
  have "\<exists>first' n'. sorted_insert (interrupt_priority s) (interrupt_key s0 i) i (p_interrupt_first s) (p_next s) = Some (first', n')
      \<and> segment n' first' (place (interrupt_key s0) i (sort_key (interrupt_key s0) K)) None
      \<and> (\<forall>j. j \<notin> insert i (set (sort_key (interrupt_key s0) K)) \<longrightarrow> n' j = p_next s j)"
    by (rule sorted_insert_segment) (use b assms(2) key in auto)
  then obtain f n where ins: "sorted_insert (interrupt_priority s) (interrupt_key s0 i) i (p_interrupt_first s) (p_next s) = Some (f, n)"
    and seg: "segment n f (sort_key (interrupt_key s0) (K @ [i])) None" and kept: "\<And>j. j \<notin> insert i (set K) \<Longrightarrow> n j = p_next s j"
    unfolding place_sort by auto
  have built: "interrupt_insert (Some i) s = Some (s\<lparr>p_interrupt_first := f, p_next := n\<rparr>)"
    using p key [of i] ins by (simp add: interrupt_insert_def)
  have "list_at n (p_task_first s) (p_task_tail s) T"
    by (rule list_at_kept [of "p_next s"]) (use b in blast, rule kept, use b assms(2) in auto)
  moreover have "list_at n (p_link_first s) (p_link_tail s) L"
    by (rule list_at_kept [of "p_next s"]) (use b in blast, rule kept, use b assms(2) in auto)
  moreover have "segment n (p_init_first s) (sort_key (init_key s0) I) None"
    by (rule segment_kept [of "p_next s"]) (use b in blast, rule kept, use b assms(2) in auto)
  ultimately have "lists_built tick s0 I T (K @ [i]) L (s\<lparr>p_interrupt_first := f, p_next := n\<rparr>)"
    using b seg assms(2,3) by (auto simp: lists_built_def)
  then show ?thesis using built by blast
qed


lemma task_built:
  assumes "lists_built tick s0 I T K L s" "i \<notin> set (I @ T @ K @ L)" "task_at s0 i \<noteq> None"
  shows "lists_built tick s0 I (T @ [i]) K L (task_insert tick (Some i) s)"
proof -
  note b = assms(1) [unfolded lists_built_def]
  have "i \<notin> set T" using assms(2) by simp
  then have "task_at s i = task_at s0 i" using b by simp
  then obtain t where t: "task_at s0 i = Some t" "task_at s i = Some t" using assms(3) by auto
  obtain f l n where a: "list_append (p_task_first s) (p_task_tail s) (p_next s) i = (f, l, n)" by (metis prod_cases3)
  have la: "list_at (p_next s) (p_task_first s) (p_task_tail s) T" using b by blast
  note app = list_append_at [OF la \<open>i \<notin> set T\<close> a]
  have "n j = p_next s j" if "j \<notin> insert i (set T)" for j
    using that a la last_in_set [of T] by (auto simp: list_append_def list_at_def Let_def split: option.splits if_splits)
  note kept = this
  have "segment n (p_init_first s) (sort_key (init_key s0) I) None"
    by (rule segment_kept [of "p_next s"]) (use b in blast, rule kept, use b assms(2) in auto)
  moreover have "segment n (p_interrupt_first s) (sort_key (interrupt_key s0) K) None"
    by (rule segment_kept [of "p_next s"]) (use b in blast, rule kept, use b assms(2) in auto)
  moreover have "list_at n (p_link_first s) (p_link_tail s) L"
    by (rule list_at_kept [of "p_next s"]) (use b in blast, rule kept, use b assms(2) in auto)
  moreover have "task_insert tick (Some i) s
      = s\<lparr>task_at := (task_at s)(i \<mapsto> task_reset tick t), p_task_first := f, p_task_tail := l, p_next := n\<rparr>"
    using t a by (simp add: task_insert_def task_reset_def)
  ultimately show ?thesis using b app t assms(2) by (auto simp: lists_built_def)
qed

lemma link_built:
  assumes "lists_built tick s0 I T K L s" "i \<notin> set (I @ T @ K @ L)" "link_at s0 i \<noteq> None"
  shows "lists_built tick s0 I T K (L @ [i]) (link_insert (Some i) s)"
proof -
  note b = assms(1) [unfolded lists_built_def]
  have "i \<notin> set L" using assms(2) by simp
  obtain f l n where a: "list_append (p_link_first s) (p_link_tail s) (p_next s) i = (f, l, n)" by (metis prod_cases3)
  have la: "list_at (p_next s) (p_link_first s) (p_link_tail s) L" using b by blast
  note app = list_append_at [OF la \<open>i \<notin> set L\<close> a]
  have "n j = p_next s j" if "j \<notin> insert i (set L)" for j
    using that a la last_in_set [of L] by (auto simp: list_append_def list_at_def Let_def split: option.splits if_splits)
  note kept = this
  have "segment n (p_init_first s) (sort_key (init_key s0) I) None"
    by (rule segment_kept [of "p_next s"]) (use b in blast, rule kept, use b assms(2) in auto)
  moreover have "segment n (p_interrupt_first s) (sort_key (interrupt_key s0) K) None"
    by (rule segment_kept [of "p_next s"]) (use b in blast, rule kept, use b assms(2) in auto)
  moreover have "list_at n (p_task_first s) (p_task_tail s) T"
    by (rule list_at_kept [of "p_next s"]) (use b in blast, rule kept, use b assms(2) in auto)
  moreover have "link_insert (Some i) s = s\<lparr>p_link_first := f, p_link_tail := l, p_next := n\<rparr>"
  proof -
    have "link_at s i \<noteq> None" using b assms(3) by metis
    then show ?thesis using a by (auto simp: link_insert_def)
  qed
  ultimately show ?thesis using b app assms(2) by (auto simp: lists_built_def)
qed


text \<open>The scan, by the type of each entry.\<close>

lemma reg_items_Cons:
  "reg_items ty at (r # regs) = (case snd r of Some i \<Rightarrow> if fst r = ty \<and> at i \<noteq> None then [i] else [] | None \<Rightarrow> []) @ reg_items ty at regs"
  by (cases r) (auto simp: reg_items_def split: option.split)

definition registers :: "'x runtime \<Rightarrow> reg_section \<Rightarrow> bool" where
  "registers s r \<longleftrightarrow>
     (\<exists>i. snd r = Some i \<and> (fst r = SECTION_INIT \<and> init_at s i \<noteq> None \<or> fst r = SECTION_TASK \<and> task_at s i \<noteq> None
        \<or> fst r = SECTION_INTERRUPT \<and> interrupt_at s i \<noteq> None \<or> fst r = SECTION_LINK \<and> link_at s i \<noteq> None))"

lemma section_types [simp]:
  "SECTION_INIT \<noteq> SECTION_TASK" "SECTION_INIT \<noteq> SECTION_INTERRUPT" "SECTION_INIT \<noteq> SECTION_LINK"
  "SECTION_TASK \<noteq> SECTION_INTERRUPT" "SECTION_TASK \<noteq> SECTION_LINK" "SECTION_INTERRUPT \<noteq> SECTION_LINK"
  "SECTION_TASK \<noteq> SECTION_INIT" "SECTION_INTERRUPT \<noteq> SECTION_INIT" "SECTION_LINK \<noteq> SECTION_INIT"
  "SECTION_INTERRUPT \<noteq> SECTION_TASK" "SECTION_LINK \<noteq> SECTION_TASK" "SECTION_LINK \<noteq> SECTION_INTERRUPT"
  by (simp_all add: SECTION_INIT_def SECTION_TASK_def SECTION_INTERRUPT_def SECTION_LINK_def)

lemma unregistered:
  assumes "lists_built tick s0 I T K L s" "\<not> registers s0 r" "\<And>i. snd r = Some i \<Longrightarrow> i \<notin> set T"
  shows "section_register tick r s = Some s"
proof (cases "snd r")
  case None
  then show ?thesis
    by (simp add: section_register_def init_insert_def task_insert_def interrupt_insert_def link_insert_def)
next
  case (Some i)
  have e: "init_at s i = init_at s0 i" "interrupt_at s i = interrupt_at s0 i" "link_at s i = link_at s0 i" "task_at s i = task_at s0 i"
    using assms(1) assms(3) [OF Some] by (simp_all add: lists_built_def)
  consider "fst r = SECTION_INIT" | "fst r = SECTION_TASK" | "fst r = SECTION_INTERRUPT" | "fst r = SECTION_LINK"
    | "fst r \<notin> {SECTION_INIT, SECTION_TASK, SECTION_INTERRUPT, SECTION_LINK}" by blast
  then show ?thesis
    using assms(2) Some e
    by cases (simp_all add: registers_def section_register_def init_insert_def task_insert_def interrupt_insert_def link_insert_def
        init_priority_def interrupt_priority_def)
qed

lemma scan_built:
  assumes "lists_built tick s0 I T K L s" "distinct (I @ T @ K @ L @ List.map_filter snd regs)"
  shows "\<exists>s'. section_scan tick regs s = Some s' \<and>
    lists_built tick s0 (I @ reg_items SECTION_INIT (init_at s0) regs) (T @ reg_items SECTION_TASK (task_at s0) regs)
      (K @ reg_items SECTION_INTERRUPT (interrupt_at s0) regs) (L @ reg_items SECTION_LINK (link_at s0) regs) s'"
  using assms
proof (induction regs arbitrary: s I T K L)
  case Nil
  then show ?case by (simp add: reg_items_def)
next
  case (Cons r regs)
  have rest: "distinct (I @ T @ K @ L @ List.map_filter snd regs)"
    using Cons.prems(2) by (auto simp: map_filter_simps split: option.splits)
  show ?case
  proof (cases "registers s0 r")
    case False
    have "section_register tick r s = Some s"
      by (rule unregistered [OF Cons.prems(1) False]) (use Cons.prems(2) in \<open>auto simp: map_filter_simps\<close>)
    moreover have "reg_items SECTION_INIT (init_at s0) (r # regs) = reg_items SECTION_INIT (init_at s0) regs"
        "reg_items SECTION_TASK (task_at s0) (r # regs) = reg_items SECTION_TASK (task_at s0) regs"
        "reg_items SECTION_INTERRUPT (interrupt_at s0) (r # regs) = reg_items SECTION_INTERRUPT (interrupt_at s0) regs"
        "reg_items SECTION_LINK (link_at s0) (r # regs) = reg_items SECTION_LINK (link_at s0) regs"
      using False by (auto simp: reg_items_Cons registers_def split: option.split)
    ultimately show ?thesis using Cons.IH [OF Cons.prems(1) rest] by simp
  next
    case True
    then obtain i where i: "snd r = Some i" by (auto simp: registers_def)
    have fresh: "i \<notin> set (I @ T @ K @ L)" and tl: "i \<notin> set (List.map_filter snd regs)"
      using Cons.prems(2) by (auto simp: map_filter_simps i)
    consider (init) "fst r = SECTION_INIT" "init_at s0 i \<noteq> None" | (task) "fst r = SECTION_TASK" "task_at s0 i \<noteq> None"
      | (int) "fst r = SECTION_INTERRUPT" "interrupt_at s0 i \<noteq> None" | (link) "fst r = SECTION_LINK" "link_at s0 i \<noteq> None"
      using True i by (auto simp: registers_def)
    then show ?thesis
    proof cases
      case init
      obtain s1 where s1: "init_insert (Some i) s = Some s1" "lists_built tick s0 (I @ [i]) T K L s1"
        using init_built [OF Cons.prems(1) fresh init(2)] by blast
      have "distinct ((I @ [i]) @ T @ K @ L @ List.map_filter snd regs)" using rest fresh tl by auto
      from Cons.IH [OF s1(2) this] show ?thesis using s1(1) init i by (simp add: section_register_def reg_items_Cons)
    next
      case task
      have "distinct (I @ (T @ [i]) @ K @ L @ List.map_filter snd regs)" using rest fresh tl by auto
      from Cons.IH [OF task_built [OF Cons.prems(1) fresh task(2)] this] show ?thesis
        using task i by (simp add: section_register_def reg_items_Cons)
    next
      case int
      obtain s1 where s1: "interrupt_insert (Some i) s = Some s1" "lists_built tick s0 I T (K @ [i]) L s1"
        using interrupt_built [OF Cons.prems(1) fresh int(2)] by blast
      have "distinct (I @ T @ (K @ [i]) @ L @ List.map_filter snd regs)" using rest fresh tl by auto
      from Cons.IH [OF s1(2) this] show ?thesis using s1(1) int i by (simp add: section_register_def reg_items_Cons)
    next
      case link
      have "distinct (I @ T @ K @ (L @ [i]) @ List.map_filter snd regs)" using rest fresh tl by auto
      from Cons.IH [OF link_built [OF Cons.prems(1) fresh link(2)] this] show ?thesis
        using link i by (simp add: section_register_def reg_items_Cons)
    qed
  qed
qed

lemma cleared_built: "lists_built tick s [] [] [] [] (lists_cleared s)"
  by (simp add: lists_built_def lists_cleared_def list_at_def)

text \<open>C21: start-up.  Whatever table the linker collected, in which each registered item occurs once since
  REG\_SECTION\_FUNC defines one object per entry, section_init ends; the initialisers have run once each, lowest
  priority value first and in table order among equals; the interrupt callbacks are linked in the same order; tasks and links
  are linked in table order; and every task starts its first period now, not ready.\<close>

theorem section_init_builds:
  assumes "distinct (List.map_filter snd regs)"
  shows "\<exists>s'. section_init tick regs s x = Some (s', foldl (\<lambda>x i. run_callback (in_func (the (init_at s i))) x) x
        (sort_key (\<lambda>i. sint (in_priority (the (init_at s i)))) (reg_items SECTION_INIT (init_at s) regs)))
    \<and> task_scheduler_ready s' = 1
    \<and> list_walk (p_next s') (p_task_first s') = Some (reg_items SECTION_TASK (task_at s) regs)
    \<and> list_walk (p_next s') (p_link_first s') = Some (reg_items SECTION_LINK (link_at s) regs)
    \<and> list_walk (p_next s') (p_interrupt_first s')
        = Some (sort_key (\<lambda>i. uint (ir_priority (the (interrupt_at s i)))) (reg_items SECTION_INTERRUPT (interrupt_at s) regs))
    \<and> (\<forall>i \<in> set (reg_items SECTION_TASK (task_at s) regs).
         task_at s' i = Some ((the (task_at s i))\<lparr>t_time_last := tick x, t_is_ready := 0\<rparr>))"
proof -
  obtain s1 where s1: "section_scan (tick x) regs (lists_cleared s) = Some s1"
    and b: "lists_built (tick x) s (reg_items SECTION_INIT (init_at s) regs) (reg_items SECTION_TASK (task_at s) regs)
      (reg_items SECTION_INTERRUPT (interrupt_at s) regs) (reg_items SECTION_LINK (link_at s) regs) s1"
    using scan_built [OF cleared_built, of regs "tick x" s] assms(1) by auto
  note B = b [unfolded lists_built_def list_at_def]
  have at: "init_at s1 = init_at s" using B by blast
  have w: "list_walk (p_next s1) (p_init_first s1)
      = Some (sort_key (\<lambda>i. sint (in_priority (the (init_at s i)))) (reg_items SECTION_INIT (init_at s) regs))"
    using B by (intro list_walk_segment) (simp add: init_key_def [abs_def])
  have t: "task_at s1 i = Some ((the (task_at s i))\<lparr>t_time_last := tick x, t_is_ready := 0\<rparr>)"
    if "i \<in> set (reg_items SECTION_TASK (task_at s) regs)" for i
    using B that by (auto simp: reg_items_def task_reset_def)
  show ?thesis
    by (rule exI [of _ "s1\<lparr>task_scheduler_ready := 1\<rparr>"])
      (use B s1 w at t list_walk_segment in \<open>simp add: section_init_def interrupt_key_def [abs_def]\<close>)
qed


text \<open>A sample board: its state is the tick and a number; two initialisers, a task of ten ticks, two interrupt callbacks.\<close>

definition sample_runtime :: "(u32 \<times> nat) runtime" where
  "sample_runtime =
     \<lparr>p_init_first = None, p_task_first = None, p_task_tail = None, p_interrupt_first = None, p_link_first = None,
      p_link_tail = None, p_next = (\<lambda>_. None),
      init_at = [0 \<mapsto> \<lparr>in_priority = 5, in_func = Some (\<lambda>(t, n). (t, n + 1))\<rparr>,
                 1 \<mapsto> \<lparr>in_priority = -1, in_func = Some (\<lambda>(t, n). (t, 2 * n))\<rparr>],
      task_at = [2 \<mapsto> \<lparr>t_period = 10, t_time_last = 0, t_func = Some (\<lambda>(t, n). (t, n + 1)), t_is_ready = 0\<rparr>],
      interrupt_at = [3 \<mapsto> \<lparr>ir_priority = 2, ir_func = None\<rparr>, 4 \<mapsto> \<lparr>ir_priority = 1, ir_func = None\<rparr>],
      link_at = Map.empty, task_scheduler_ready = 0\<rparr>"

definition sample_regs :: "reg_section list" where
  "sample_regs = [(SECTION_INIT, Some 0), (SECTION_TASK, Some 2), (SECTION_INTERRUPT, Some 3), (SECTION_INIT, Some 1),
     (SECTION_INTERRUPT, Some 4)]"

theorem section_init_builds_witness:
  "\<exists>s'. section_init fst sample_regs sample_runtime (7, 1) = Some (s', (7, 3))
    \<and> list_walk (p_next s') (p_task_first s') = Some [2] \<and> list_walk (p_next s') (p_interrupt_first s') = Some [4, 3]"
proof -
  have d: "distinct (List.map_filter snd sample_regs)" by (simp add: sample_regs_def map_filter_simps)
  have i: "reg_items SECTION_INIT (init_at sample_runtime) sample_regs = [0, 1]"
      "reg_items SECTION_TASK (task_at sample_runtime) sample_regs = [2]"
      "reg_items SECTION_INTERRUPT (interrupt_at sample_runtime) sample_regs = [3, 4]"
    by (simp_all add: reg_items_Cons sample_regs_def sample_runtime_def) (simp_all add: reg_items_def)
  have k: "sint (in_priority (the (init_at sample_runtime 0))) = 5" "sint (in_priority (the (init_at sample_runtime 1))) = -1"
      "uint (ir_priority (the (interrupt_at sample_runtime 3))) = 2" "uint (ir_priority (the (interrupt_at sample_runtime 4))) = 1"
    by (simp_all add: sample_runtime_def)
  have f: "run_callback (in_func (the (init_at sample_runtime 1))) (7, 1) = (7, 2)"
      "run_callback (in_func (the (init_at sample_runtime 0))) (7, 2) = (7, 3)"
    by (simp_all add: sample_runtime_def run_callback_def)
  show ?thesis using section_init_builds [OF d, of fst sample_runtime "(7, 1)"] unfolding i
    by (auto simp: k [unfolded One_nat_def] f [unfolded One_nat_def])
qed

section \<open>Tasks\<close>

definition task_due :: "u32 \<Rightarrow> 'x reg_task \<Rightarrow> bool" where
  "task_due now t \<longleftrightarrow> t_func t \<noteq> None \<and> t_period t \<noteq> 0 \<and> t_period t \<le> now - t_time_last t"

definition polled :: "u32 \<Rightarrow> 'x reg_task \<Rightarrow> 'x reg_task" where
  "polled now t = (if task_due now t then task_schedule_next (now - t_time_last t) t else t)"

text \<open>A runtime between two polls: the tasks are linked, and none is waiting to run.\<close>

definition tasks_ok :: "'x runtime \<Rightarrow> nat list \<Rightarrow> bool" where
  "tasks_ok s ts \<longleftrightarrow>
     segment (p_next s) (p_task_first s) ts None \<and> distinct ts \<and> task_scheduler_ready s \<noteq> 0
     \<and> (\<forall>i \<in> set ts. \<exists>t. task_at s i = Some t \<and> t_is_ready t = 0)"

lemma activate_due_entry:
  "t_is_ready t = 0 \<Longrightarrow> task_activate_if_due now t = (if task_due now t then (polled now t)\<lparr>t_is_ready := 1\<rparr> else t)"
  by (auto simp: task_activate_if_due_def task_due_def polled_def Let_def not_less)

lemma update_frame [simp]:
  "p_next (task_update f i s) = p_next s" "p_task_first (task_update f i s) = p_task_first s"
  "task_scheduler_ready (task_update f i s) = task_scheduler_ready s"
  "task_at (task_update f i s) j = (if j = i then map_option f (task_at s i) else task_at s j)"
  by (simp_all add: task_update_def)

lemma tick_fold:
  assumes "distinct ts"
  shows "p_next (foldl (\<lambda>s i. task_update f i s) s ts) = p_next s"
    "p_task_first (foldl (\<lambda>s i. task_update f i s) s ts) = p_task_first s"
    "task_scheduler_ready (foldl (\<lambda>s i. task_update f i s) s ts) = task_scheduler_ready s"
    "task_at (foldl (\<lambda>s i. task_update f i s) s ts) j = (if j \<in> set ts then map_option f (task_at s j) else task_at s j)"
  using assms by (induction ts arbitrary: s) auto

lemma turn_cases:
  assumes "task_at s i = Some t"
  shows "task_turn i (s, x) =
    (if t_is_ready t \<noteq> 0 then (task_update (\<lambda>t. t\<lparr>t_is_ready := 0\<rparr>) i s, the (t_func t) x) else (s, x))"
  using assms by (simp add: task_turn_def task_claim_def)

lemma turns:
  assumes "distinct ts" "\<forall>i \<in> set ts. \<exists>t. task_at s i = Some t"
  shows "\<exists>s'. foldl (\<lambda>c i. task_turn i c) (s, x) ts
      = (s', foldl (\<lambda>x i. the (t_func (the (task_at s i))) x) x (filter (\<lambda>i. t_is_ready (the (task_at s i)) \<noteq> 0) ts))
    \<and> p_next s' = p_next s \<and> p_task_first s' = p_task_first s \<and> task_scheduler_ready s' = task_scheduler_ready s
    \<and> (\<forall>j. task_at s' j = (if j \<in> set ts then map_option (\<lambda>t. t\<lparr>t_is_ready := 0\<rparr>) (task_at s j) else task_at s j))"
  using assms
proof (induction ts arbitrary: s x)
  case (Cons i ts)
  obtain t where t: "task_at s i = Some t" using Cons.prems(2) by auto
  define s1 where "s1 = (if t_is_ready t \<noteq> 0 then task_update (\<lambda>t. t\<lparr>t_is_ready := 0\<rparr>) i s else s)"
  define x1 where "x1 = (if t_is_ready t \<noteq> 0 then the (t_func t) x else x)"
  have turn: "task_turn i (s, x) = (s1, x1)" by (simp add: turn_cases [OF t] s1_def x1_def)
  have s1: "p_next s1 = p_next s" "p_task_first s1 = p_task_first s" "task_scheduler_ready s1 = task_scheduler_ready s"
    "task_at s1 j = (if j = i then map_option (\<lambda>t. t\<lparr>t_is_ready := 0\<rparr>) (task_at s i) else task_at s j)" for j
    by (auto simp: s1_def t)
  have ni: "i \<notin> set ts" using Cons.prems(1) by simp
  then have same: "task_at s1 j = task_at s j" if "j \<in> set ts" for j using that by (auto simp: s1)
  have "\<forall>i \<in> set ts. \<exists>t. task_at s1 i = Some t" using Cons.prems(2) same by simp
  then obtain s' where s': "foldl (\<lambda>c i. task_turn i c) (s1, x1) ts
      = (s', foldl (\<lambda>x i. the (t_func (the (task_at s1 i))) x) x1 (filter (\<lambda>i. t_is_ready (the (task_at s1 i)) \<noteq> 0) ts))"
    "p_next s' = p_next s1" "p_task_first s' = p_task_first s1" "task_scheduler_ready s' = task_scheduler_ready s1"
    "\<forall>j. task_at s' j = (if j \<in> set ts then map_option (\<lambda>t. t\<lparr>t_is_ready := 0\<rparr>) (task_at s1 j) else task_at s1 j)"
    using Cons.IH [of s1 x1] Cons.prems(1) by auto
  have f: "filter (\<lambda>i. t_is_ready (the (task_at s1 i)) \<noteq> 0) ts = filter (\<lambda>i. t_is_ready (the (task_at s i)) \<noteq> 0) ts"
    by (rule filter_cong) (simp_all add: same)
  have g: "foldl (\<lambda>x i. the (t_func (the (task_at s1 i))) x) x1 us = foldl (\<lambda>x i. the (t_func (the (task_at s i))) x) x1 us"
    if "set us \<subseteq> set ts" for us
    using that same by (intro foldl_cong) auto
  have e: "foldl (\<lambda>c i. task_turn i c) (s1, x1) ts
      = (s', foldl (\<lambda>x i. the (t_func (the (task_at s i))) x) x1 (filter (\<lambda>i. t_is_ready (the (task_at s i)) \<noteq> 0) ts))"
    using s'(1) unfolding f by (simp only: g [OF filter_is_subset])
  have h: "foldl (\<lambda>c i. task_turn i c) (s, x) (i # ts)
      = (s', foldl (\<lambda>x i. the (t_func (the (task_at s i))) x) x (filter (\<lambda>i. t_is_ready (the (task_at s i)) \<noteq> 0) (i # ts)))"
    by (simp add: turn e) (simp add: x1_def t)
  have at: "task_at s' j = (if j \<in> set (i # ts) then map_option (\<lambda>t. t\<lparr>t_is_ready := 0\<rparr>) (task_at s j) else task_at s j)" for j
    using s'(5) s1(4) [of j] ni by auto
  show ?case unfolding h using s'(2-4) s1(1-3) at by simp
qed simp

lemma run_task_due:
  assumes "tasks_ok s ts"
  shows "\<exists>s'. run_task tick s x
      = Some (s', foldl (\<lambda>x i. the (t_func (the (task_at s i))) x) x (filter (\<lambda>i. task_due (tick x) (the (task_at s i))) ts))
    \<and> tasks_ok s' ts \<and> (\<forall>i \<in> set ts. task_at s' i = map_option (polled (tick x)) (task_at s i))"
proof -
  note ok = assms [unfolded tasks_ok_def]
  have w: "list_walk (p_next s) (p_task_first s) = Some ts" using ok list_walk_segment by blast
  have d: "distinct ts" using ok by blast
  define s1 where "s1 = foldl (\<lambda>s i. task_update (task_activate_if_due (tick x)) i s) s ts"
  note F = tick_fold [OF d, where f = "task_activate_if_due (tick x)" and s = s, folded s1_def]
  have at: "task_at s1 i = Some (if task_due (tick x) (the (task_at s i)) then (polled (tick x) (the (task_at s i)))\<lparr>t_is_ready := 1\<rparr>
      else the (task_at s i))" if "i \<in> set ts" for i
    using ok that F(4) [of i] by (auto simp: activate_due_entry)
  have ready: "t_is_ready (the (task_at s1 i)) \<noteq> 0 \<longleftrightarrow> task_due (tick x) (the (task_at s i))" "t_func (the (task_at s1 i)) = t_func (the (task_at s i))"
    if "i \<in> set ts" for i
    using ok that at [OF that] by (auto simp: polled_def task_schedule_next_def)
  obtain s' where s': "foldl (\<lambda>c i. task_turn i c) (s1, x) ts
      = (s', foldl (\<lambda>x i. the (t_func (the (task_at s1 i))) x) x (filter (\<lambda>i. t_is_ready (the (task_at s1 i)) \<noteq> 0) ts))"
    "p_next s' = p_next s1" "p_task_first s' = p_task_first s1" "task_scheduler_ready s' = task_scheduler_ready s1"
    "\<forall>j. task_at s' j = (if j \<in> set ts then map_option (\<lambda>t. t\<lparr>t_is_ready := 0\<rparr>) (task_at s1 j) else task_at s1 j)"
    using turns [OF d, of s1 x] at by blast
  have f: "filter (\<lambda>i. t_is_ready (the (task_at s1 i)) \<noteq> 0) ts = filter (\<lambda>i. task_due (tick x) (the (task_at s i))) ts"
    by (rule filter_cong) (simp_all add: ready)
  have g: "foldl (\<lambda>x i. the (t_func (the (task_at s1 i))) x) x us = foldl (\<lambda>x i. the (t_func (the (task_at s i))) x) x us"
    if "set us \<subseteq> set ts" for us
    using that ready(2) by (intro foldl_cong) auto
  have tick: "section_task_tick tick s x = Some s1" using ok w by (simp add: section_task_tick_def s1_def)
  have run: "run_task tick s x
      = Some (s', foldl (\<lambda>x i. the (t_func (the (task_at s i))) x) x (filter (\<lambda>i. task_due (tick x) (the (task_at s i))) ts))"
    using s'(1) w F(1,2) by (simp add: run_task_def tick f g)
  have after: "task_at s' i = Some (polled (tick x) (the (task_at s i)))" "t_is_ready (polled (tick x) (the (task_at s i))) = 0"
    if "i \<in> set ts" for i
    using ok that s'(5) at [OF that] by (auto simp: polled_def task_schedule_next_def)
  have "tasks_ok s' ts" using ok s'(2-4) F(1-3) after unfolding tasks_ok_def by auto
  moreover have "\<forall>i \<in> set ts. task_at s' i = map_option (polled (tick x)) (task_at s i)" using ok after(1) by fastforce
  ultimately show ?thesis using run by blast
qed


text \<open>C22: one round of the scheduler.  It runs exactly the tasks whose period has elapsed, each once, in registration order,
  and leaves every task linked, rescheduled and waiting again.\<close>

theorem run_task_runs_due:
  assumes "tasks_ok s ts"
  shows "\<exists>s'. run_task tick s x
      = Some (s', foldl (\<lambda>x i. the (t_func (the (task_at s i))) x) x (filter (\<lambda>i. task_due (tick x) (the (task_at s i))) ts))
    \<and> tasks_ok s' ts \<and> (\<forall>i \<in> set ts. task_at s' i = map_option (polled (tick x)) (task_at s i))"
  by (rule run_task_due [OF assms])

text \<open>The sample task, linked, and last scheduled five ticks before the tick wraps.\<close>

definition sample_running :: "(u32 \<times> nat) runtime" where
  "sample_running = sample_runtime\<lparr>p_task_first := Some 2, task_scheduler_ready := 1,
     task_at := [2 \<mapsto> \<lparr>t_period = 10, t_time_last = 0xFFFFFFFB, t_func = Some (\<lambda>(t, n). (t, n + 1)), t_is_ready = 0\<rparr>]\<rparr>"

lemma sample_running_ok: "tasks_ok sample_running [2]"
  by (simp add: tasks_ok_def sample_running_def sample_runtime_def)

theorem run_task_runs_due_witness:
  "(\<exists>s'. run_task fst sample_running (5, 0) = Some (s', (5, 1))) \<and> (\<exists>s'. run_task fst sample_running (4, 0) = Some (s', (4, 0)))"
proof
  show "\<exists>s'. run_task fst sample_running (5, 0) = Some (s', (5, 1))"
    using run_task_runs_due [OF sample_running_ok, of fst "(5, 0)"] by (auto simp: task_due_def sample_running_def)
  show "\<exists>s'. run_task fst sample_running (4, 0) = Some (s', (4, 0))"
    using run_task_runs_due [OF sample_running_ok, of fst "(4, 0)"] by (auto simp: task_due_def sample_running_def)
qed

text \<open>Rounds of the main loop, one for every state \<open>x\<close> in which \<open>run_task\<close> is called: how often task \<open>i\<close> runs.\<close>

fun rounds_run :: "('x \<Rightarrow> u32) \<Rightarrow> nat \<Rightarrow> 'x list \<Rightarrow> 'x runtime \<Rightarrow> nat" where
  "rounds_run tick i [] s = 0"
| "rounds_run tick i (x # xs) s =
     (if task_due (tick x) (the (task_at s i)) then 1 else 0) + rounds_run tick i xs (fst (the (run_task tick s x)))"

text \<open>Rounds at the times \<open>ds\<close>, at most \<open>p\<close> ticks apart.\<close>

fun rounds_within :: "nat \<Rightarrow> nat \<Rightarrow> nat list \<Rightarrow> bool" where
  "rounds_within p c [] \<longleftrightarrow> True"
| "rounds_within p c (d # ds) \<longleftrightarrow> c \<le> d \<and> d \<le> c + p \<and> rounds_within p d ds"

lemma rounds_last: "rounds_within p c ds \<Longrightarrow> c \<le> last (c # ds)"
proof (induction ds arbitrary: c)
  case (Cons d ds)
  then have "d \<le> last (d # ds)" "c \<le> d" by simp_all
  then show ?case by simp
qed simp

lemma tick_distance:
  assumes "a \<le> c" "c - a < 2 ^ 32"
  shows "unat (of_nat c - of_nat a :: u32) = c - a"
proof -
  have "(of_nat c :: u32) - of_nat a = of_nat (c - a)" using assms(1) by (simp add: of_nat_diff)
  then show ?thesis using assms(2) by (simp add: unat_of_nat take_bit_nat_def)
qed

text \<open>One round for a task that was last scheduled at \<open>a\<close>.\<close>

lemma polled_period:
  assumes "t_func t \<noteq> None" "t_time_last t = of_nat a" "p = unat (t_period t)" "0 < p" "2 * p \<le> 2 ^ 32"
    and "a \<le> c" "c < a + 2 * p"
  shows "task_due (of_nat c) t \<longleftrightarrow> a + p \<le> c"
    "polled (of_nat c) t = (if a + p \<le> c then t\<lparr>t_time_last := of_nat (a + p)\<rparr> else t)"
proof -
  have e: "unat (of_nat c - of_nat a :: u32) = c - a" using assms(5-7) by (intro tick_distance) linarith+
  have "t_period t \<noteq> 0" using assms(3,4) by auto
  then show due: "task_due (of_nat c) t \<longleftrightarrow> a + p \<le> c"
    using assms(1-3,6) e by (auto simp: task_due_def word_le_nat_alt)
  have "(of_nat c - of_nat a :: u32) - t_period t < t_period t" if "a + p \<le> c"
  proof -
    have "t_period t \<le> of_nat c - of_nat a" using that e assms(3) by (simp add: word_le_nat_alt)
    then have "unat ((of_nat c - of_nat a :: u32) - t_period t) = c - a - p" using e assms(3) by (simp add: unat_sub)
    then show ?thesis using that assms(3,7) by (simp add: word_less_nat_alt)
  qed
  moreover have "t_period t = of_nat p" using assms(3) by simp
  ultimately show "polled (of_nat c) t = (if a + p \<le> c then t\<lparr>t_time_last := of_nat (a + p)\<rparr> else t)"
    using due assms(2) by (simp add: polled_def task_schedule_next_def)
qed

text \<open>C23: no drift and no lost activation.  If rounds come at most one period apart, then up to any time, across any number of
  wraps of the tick, a task has run exactly as often as whole periods have passed.\<close>

theorem task_keeps_period:
  assumes "tasks_ok s ts" "i \<in> set ts" "task_at s i = Some t" "t_func t \<noteq> None" "t_time_last t = of_nat start"
    and "p = unat (t_period t)" "0 < p" "2 * p \<le> 2 ^ 32"
    and "map tick xs = map of_nat moments" "rounds_within p start moments"
  shows "rounds_run tick i xs s = (last (start # moments) - start) div p"
proof -
  have "rounds_run tick i xs s = (last (c # moments) - a) div p"
    if "tasks_ok s ts" "task_at s i = Some t" "t_func t \<noteq> None" "t_time_last t = of_nat a" "p = unat (t_period t)"
      "map tick xs = map of_nat moments" "rounds_within p c moments" "a \<le> c" "c < a + p" for s t a c xs moments
    using that
  proof (induction moments arbitrary: xs s t a c)
    case Nil
    then show ?case by simp
  next
    case (Cons d ds)
    then obtain x xs' where xs: "xs = x # xs'" "tick x = of_nat d" "map tick xs' = map of_nat ds" by auto
    have cd: "c \<le> d" "d \<le> c + p" "rounds_within p d ds" using Cons.prems(7) by simp_all
    have d: "a \<le> d" "d < a + 2 * p" using cd Cons.prems(8,9) by simp_all
    note step = polled_period [OF Cons.prems(3-5) assms(7,8) d]
    obtain s' where s': "run_task tick s x = Some (s', foldl (\<lambda>x i. the (t_func (the (task_at s i))) x) x
          (filter (\<lambda>i. task_due (tick x) (the (task_at s i))) ts))" "tasks_ok s' ts"
        "task_at s' i = Some (polled (of_nat d) t)"
      using run_task_due [OF Cons.prems(1), of tick x] assms(2) Cons.prems(2) xs(2) by auto
    have last: "last (c # d # ds) = last (d # ds)" by simp
    show ?case
    proof (cases "a + p \<le> d")
      case True
      then have t': "task_at s' i = Some (t\<lparr>t_time_last := of_nat (a + p)\<rparr>)" using s'(3) step(2) by simp
      have "rounds_run tick i xs' s' = (last (d # ds) - (a + p)) div p"
        by (rule Cons.IH [OF s'(2) t' _ _ _ xs(3) cd(3)]) (use Cons.prems(3,5) True d in simp_all)
      moreover have "a + p \<le> last (d # ds)" using rounds_last [OF cd(3)] True by linarith
      then have "(last (d # ds) - a) div p = Suc ((last (d # ds) - (a + p)) div p)"
        using assms(7) le_div_geq [of p "last (d # ds) - a"] by (simp add: diff_diff_add)
      ultimately show ?thesis unfolding last using xs s'(1) step(1) True Cons.prems(2) by simp
    next
      case False
      then have t': "task_at s' i = Some t" using s'(3) step(2) by simp
      have "rounds_run tick i xs' s' = (last (d # ds) - a) div p"
        by (rule Cons.IH [OF s'(2) t' Cons.prems(3-5) xs(3) cd(3)]) (use False d in simp_all)
      then show ?thesis unfolding last using xs s'(1) step(1) False Cons.prems(2) by simp
    qed
  qed
  from this [OF assms(1,3-6,9,10)] assms(7) show ?thesis by simp
qed

theorem task_keeps_period_witness: "rounds_run fst 2 [(3, 0), (5, 1), (14, 0), (20, 7)] sample_running = 2"
proof -
  let ?moments = "[0xFFFFFFFB + 8, 0xFFFFFFFB + 10, 0xFFFFFFFB + 19, 0xFFFFFFFB + 25] :: nat list"
  have "rounds_run fst 2 [(3, 0), (5, 1), (14, 0), (20, 7)] sample_running = (last (0xFFFFFFFB # ?moments) - 0xFFFFFFFB) div 10"
    by (rule task_keeps_period [OF sample_running_ok, where moments = ?moments and
          t = "\<lparr>t_period = 10, t_time_last = 0xFFFFFFFB, t_func = Some (\<lambda>(t, n). (t, n + 1)), t_is_ready = 0\<rparr>"])
      (simp_all add: sample_running_def)
  then show ?thesis by simp
qed

section \<open>Links\<close>

text \<open>A receive queue behind \<open>rx_get_byte\<close>, and handlers that act on their own part \<open>v\<close> of the state.\<close>

definition rx_queue :: "('x \<Rightarrow> (u8 \<times> u8) \<times> 'x) \<Rightarrow> ('x \<Rightarrow> u8 list) \<Rightarrow> ('x \<Rightarrow> 'v) \<Rightarrow> bool" where
  "rx_queue rx q v \<longleftrightarrow>
     (\<forall>x. v (snd (rx x)) = v x
        \<and> (q x = [] \<longrightarrow> fst (fst (rx x)) = 0 \<and> q (snd (rx x)) = [])
        \<and> (\<forall>b bs. q x = b # bs \<longrightarrow> fst (fst (rx x)) \<noteq> 0 \<and> snd (fst (rx x)) = b \<and> q (snd (rx x)) = bs))"

definition handles :: "(u8 \<Rightarrow> 'x \<Rightarrow> 'x) option list \<Rightarrow> ('x \<Rightarrow> u8 list) \<Rightarrow> ('x \<Rightarrow> 'v) \<Rightarrow> (u8 \<Rightarrow> 'v \<Rightarrow> 'v) \<Rightarrow> bool" where
  "handles hs q v g \<longleftrightarrow> (\<forall>b x. q (byte_dispatch hs b x) = q x \<and> v (byte_dispatch hs b x) = g b (v x))"

lemma link_loop_bytes:
  assumes "rx_queue rx q v" "handles hs q v g"
  shows "q (link_loop n rx hs x) = drop n (q x) \<and> v (link_loop n rx hs x) = foldl (\<lambda>s b. g b s) (v x) (take n (q x))"
proof (induction n arbitrary: x)
  case (Suc n)
  obtain flag b x1 where rx: "rx x = ((flag, b), x1)" by (metis surj_pair)
  have r: "v x1 = v x" "q x = [] \<longrightarrow> flag = 0 \<and> q x1 = []" "\<And>c bs. q x = c # bs \<Longrightarrow> flag \<noteq> 0 \<and> b = c \<and> q x1 = bs"
    using assms(1) rx by (simp_all add: rx_queue_def) (metis fst_conv snd_conv)+
  show ?case
  proof (cases "q x")
    case Nil
    then show ?thesis using r rx by simp
  next
    case (Cons c bs)
    then have "flag \<noteq> 0" "b = c" "q x1 = bs" using r(3) by blast+
    then show ?thesis
      using Suc [of "byte_dispatch hs c x1"] assms(2) r(1) rx Cons by (simp add: handles_def)
  qed
qed simp

text \<open>C24: a round of a link takes the next bytes off its receive queue, at most the budget of 128, and hands each of them, in
  order and once, to the handlers; the rest stays queued for the next round.\<close>

theorem link_process_bytes:
  assumes "rx_get_byte l = Some rx" "handler_arr l = Some hs" "rx_queue rx q v"
    and "handles (take (unat (handler_num l)) hs) q v g"
  shows "q (link_process (Some l) x) = drop 128 (q x)
    \<and> v (link_process (Some l) x) = foldl (\<lambda>s b. g b s) (v x) (take 128 (q x))"
  using link_loop_bytes [OF assms(3,4)] assms(1,2) by (simp add: link_process_def SECTION_LINK_RX_BYTE_BUDGET_def)

definition sample_link :: "(u8 list \<times> u8 list) section_link" where
  "sample_link =
     \<lparr>rx_get_byte = Some (\<lambda>(q, v). case q of [] \<Rightarrow> ((0, 0), (q, v)) | b # bs \<Rightarrow> ((1, b), (bs, v))),
      handler_arr = Some [None, Some (\<lambda>b (q, v). (q, v @ [b]))], handler_num = 2\<rparr>"

theorem link_process_bytes_witness:
  "fst (link_process (Some sample_link) (replicate 130 7, [])) = [7, 7]
    \<and> snd (link_process (Some sample_link) (replicate 130 7, [])) = replicate 128 7"
proof -
  have q: "rx_queue (the (rx_get_byte sample_link)) fst snd"
    by (auto simp: rx_queue_def sample_link_def split: list.split)
  have h: "handles (take (unat (handler_num sample_link)) (the (handler_arr sample_link))) fst snd (\<lambda>b v. v @ [b])"
    by (auto simp: handles_def sample_link_def byte_dispatch_def)
  have "foldl (\<lambda>s b. s @ [b]) v bs = v @ bs" for v bs :: "u8 list" by (induction bs arbitrary: v) auto
  then show ?thesis
    using link_process_bytes [OF _ _ q h, of "(replicate 130 7, [])"] by (simp add: sample_link_def numeral_2_eq_2)
qed

end
