(* ===== verification/Stl_Core.thy ===== *)
theory Stl_Core
  imports Linked_List
begin

text \<open>
  code/section/srtos_stl: the resident task groups of the managed preemptive runtime.  One shared stack
  executes every task; a preempted task is copied out of it into a ring of words and copied back to resume.
  Business firmware is loaded and unloaded under a handle of identity and generation.

  Indices, lengths and fill levels that the tables bound are naturals; ticks, generations, references and
  event counters are 32-bit words.  Addresses are 32-bit words, 0 being NULL.  The flags that the code normalises to 0 and 1
  are booleans.  The two resident lists that no operation unlinks from while it walks them (the groups, and the tasks of a group)
  are lists of slot numbers; the ready queue is its head, its tail and the links of the slots.
  Every operation runs under the port's lock, hence is one step; what the hardware and the host answer
  in it is the argument \<open>pv\<close>.
\<close>

section \<open>Configuration\<close>

definition SECTION_STL_MAX_GROUPS :: nat where "SECTION_STL_MAX_GROUPS = 8"
definition SECTION_STL_MAX_TASKS :: nat where "SECTION_STL_MAX_TASKS = 32"
definition SECTION_STL_MAX_RECORDS :: nat where "SECTION_STL_MAX_RECORDS = 32"
definition SECTION_STL_POOL_WORDS :: nat where "SECTION_STL_POOL_WORDS = 1024"
definition SECTION_STL_STACK_WORDS :: nat where "SECTION_STL_STACK_WORDS = 512"
definition SECTION_STL_SLICE_TICKS :: u32 where "SECTION_STL_SLICE_TICKS = 10"
definition SECTION_STL_MAX_REGISTRATIONS :: u32 where "SECTION_STL_MAX_REGISTRATIONS = 128"
definition STL_HALF :: u32 where "STL_HALF = 0x80000000"
definition STL_GUARD :: u32 where "STL_GUARD = 0x73A54C91"
definition STL_GUARD_WORDS :: nat where "STL_GUARD_WORDS = 2"
definition STL_SECTION_INIT :: u32 where "STL_SECTION_INIT = 0"
definition STL_SECTION_TASK :: u32 where "STL_SECTION_TASK = 1"

section \<open>Data\<close>

datatype stl_status =
    SECTION_STL_OK | SECTION_STL_BAD_ARGUMENT | SECTION_STL_BAD_STATE | SECTION_STL_STALE | SECTION_STL_BUSY
  | SECTION_STL_NO_CAPACITY | SECTION_STL_POOL_FULL | SECTION_STL_GENERATION_EXHAUSTED | SECTION_STL_BAD_CONTEXT
  | SECTION_STL_CORRUPT

datatype stl_group_state =
    SECTION_STL_DISABLED | SECTION_STL_ENABLED | SECTION_STL_PAUSED | SECTION_STL_REVOKING | SECTION_STL_REVOKED

text \<open>The code compares group states by their enumeration value.\<close>

fun group_state_value :: "stl_group_state \<Rightarrow> nat" where
  "group_state_value SECTION_STL_DISABLED = 0"
| "group_state_value SECTION_STL_ENABLED = 1"
| "group_state_value SECTION_STL_PAUSED = 2"
| "group_state_value SECTION_STL_REVOKING = 3"
| "group_state_value SECTION_STL_REVOKED = 4"

lemma group_state_value_inject: "group_state_value a = group_state_value b \<Longrightarrow> a = b"
  by (cases a; cases b) simp_all

instantiation stl_group_state :: linorder
begin

definition less_eq_stl_group_state :: "stl_group_state \<Rightarrow> stl_group_state \<Rightarrow> bool" where
  "less_eq_stl_group_state a b \<longleftrightarrow> group_state_value a \<le> group_state_value b"

definition less_stl_group_state :: "stl_group_state \<Rightarrow> stl_group_state \<Rightarrow> bool" where
  "less_stl_group_state a b \<longleftrightarrow> group_state_value a < group_state_value b"

instance
  by standard (auto simp: less_eq_stl_group_state_def less_stl_group_state_def intro: group_state_value_inject)

end

datatype stl_task_state = TASK_FREE | TASK_SLEEPING | TASK_NEW | TASK_OLD | TASK_RUNNING

datatype section_task_status = SECTION_TASK_DONE | SECTION_TASK_RUNNING

record stl_handle =
  sh_group_id :: u32
  sh_generation :: u32

definition handle_none :: stl_handle where
  "handle_none = \<lparr>sh_group_id = 0, sh_generation = 0\<rparr>"

record resident_task =
  rt_owner :: stl_handle
  rt_quantum_left :: u32
  rt_period :: u32
  rt_last :: u32
  rt_func :: u32
  rt_step_func :: u32
  rt_ctx :: u32
  rt_record :: "nat option"
  rt_queued :: bool
  rt_state :: stl_task_state

definition task_zero :: resident_task where
  "task_zero = \<lparr>rt_owner = handle_none, rt_quantum_left = 0, rt_period = 0, rt_last = 0, rt_func = 0, rt_step_func = 0,
     rt_ctx = 0, rt_record = Some 0, rt_queued = False, rt_state = TASK_FREE\<rparr>"

record resident_group =
  rg_handle :: stl_handle
  rg_tasks :: "nat list"
  rg_state :: stl_group_state
  rg_task_count :: nat
  rg_references :: u32
  rg_init_busy :: bool
  rg_initialized :: bool
  rg_quiescent :: bool

definition group_zero :: resident_group where
  "group_zero = \<lparr>rg_handle = handle_none, rg_tasks = [], rg_state = SECTION_STL_DISABLED, rg_task_count = 0,
     rg_references = 0, rg_init_busy = False, rg_initialized = False, rg_quiescent = False\<rparr>"

record snapshot_record =
  sr_owner :: stl_handle
  sr_task_index :: nat
  sr_offset :: nat
  sr_words :: nat
  sr_charge :: nat
  sr_consumed :: bool

definition record_zero :: snapshot_record where
  "record_zero = \<lparr>sr_owner = handle_none, sr_task_index = 0, sr_offset = 0, sr_words = 0, sr_charge = 0, sr_consumed = False\<rparr>"

text \<open>The descriptors of a business image; a callback is its address.\<close>

record stl_reg_task =
  st_period :: u32
  st_func :: u32
  st_step_func :: u32
  st_ctx :: u32

record stl_reg_init =
  si_priority :: "8 word"
  si_func :: u32

text \<open>
  A table entry: its type and the wrapper it points to; what the wrappers point to is
  \<open>stl_image_objects\<close>, \<open>None\<close> being NULL.
\<close>

type_synonym stl_entry = "u32 \<times> nat option"

record stl_image_objects =
  task_object :: "nat \<Rightarrow> stl_reg_task option"
  init_object :: "nat \<Rightarrow> stl_reg_init option"

text \<open>The resident state, the part of the port that it shares with the core, and the statistics.\<close>

record stl =
  groups :: "nat \<Rightarrow> resident_group"
  tasks :: "nat \<Rightarrow> resident_task"
  records :: "nat \<Rightarrow> snapshot_record"
  init_callbacks :: "stl_reg_init list"
  pool :: "nat \<Rightarrow> u32"
  runtime_stack :: "nat \<Rightarrow> u32"
  group_list :: "nat list"
  p_ready_first :: "nat option"
  p_ready_tail :: "nat option"
  p_ready_next :: "nat \<Rightarrow> nat option"
  p_current :: "nat option"
  stl_initialized :: bool
  native_pending :: bool
  generation :: u32
  tick_now :: u32
  slice_start :: u32
  pool_head :: nat
  pool_tail :: nat
  record_head :: nat
  record_tail :: nat
  stat_group_count :: nat
  stat_ready_count :: nat
  stat_pool_used :: nat
  stat_record_count :: nat
  stat_saves :: u32
  stat_restores :: u32
  stat_discarded :: u32
  stat_pool_full :: u32
  stat_fault :: stl_status
  dispatch_active :: bool
  switch_pending :: bool

text \<open>The zeroed memory of a cold boot.\<close>

definition stl_cold :: stl where
  "stl_cold = \<lparr>groups = (\<lambda>_. group_zero), tasks = (\<lambda>_. task_zero), records = (\<lambda>_. record_zero), init_callbacks = [],
     pool = (\<lambda>_. 0), runtime_stack = (\<lambda>_. 0), group_list = [],
     p_ready_first = None, p_ready_tail = None, p_ready_next = (\<lambda>_. None), p_current = None,
     stl_initialized = False, native_pending = False, generation = 0, tick_now = 0, slice_start = 0,
     pool_head = 0, pool_tail = 0, record_head = 0, record_tail = 0,
     stat_group_count = 0, stat_ready_count = 0, stat_pool_used = 0, stat_record_count = 0,
     stat_saves = 0, stat_restores = 0, stat_discarded = 0, stat_pool_full = 0, stat_fault = SECTION_STL_OK,
     dispatch_active = False, switch_pending = False\<rparr>"

text \<open>
  What the hardware and the host answer during one operation: whether the caller may use the interface, whether it is a
  handler, whether PendSV is active, and the two hooks that a host may override.
\<close>

record port_view =
  pv_api_allowed :: bool
  pv_in_handler :: bool
  pv_switch_active :: bool
  pv_host_switch_allowed :: bool
  pv_owner_commit :: "stl_handle \<Rightarrow> bool"

text \<open>The linked image: the addresses of the stack, the pool and the trampoline, and the build's frame format.\<close>

record stl_link =
  lk_stack :: u32
  lk_pool :: u32
  lk_entry :: u32
  lk_exc_basic :: u32
  lk_exc_fp :: u32
  lk_fp :: bool
  lk_low_align_mask :: u32

section \<open>Identity and ownership\<close>

definition identity_equal :: "stl_handle \<Rightarrow> stl_handle \<Rightarrow> bool" where
  "identity_equal a b \<longleftrightarrow> sh_group_id a = sh_group_id b \<and> sh_generation a = sh_generation b"

definition native_context :: "port_view \<Rightarrow> stl \<Rightarrow> bool" where
  "native_context pv s \<longleftrightarrow> \<not> pv_in_handler pv \<and> \<not> dispatch_active s"

definition group_find :: "stl_handle \<Rightarrow> stl \<Rightarrow> nat option" where
  "group_find h s = List.find (\<lambda>g. identity_equal (rg_handle (groups s g)) h) (group_list s)"

definition group_executing :: "nat \<Rightarrow> stl \<Rightarrow> bool" where
  "group_executing g s \<longleftrightarrow>
     rg_init_busy (groups s g)
     \<or> (case p_current s of None \<Rightarrow> False | Some t \<Rightarrow> identity_equal (rt_owner (tasks s t)) (rg_handle (groups s g)))"

text \<open>The slots of the allocation records, oldest first.\<close>

definition record_slots :: "stl \<Rightarrow> nat list" where
  "record_slots s = map (\<lambda>k. (record_head s + k) mod SECTION_STL_MAX_RECORDS) [0..<stat_record_count s]"

definition group_records :: "stl_handle \<Rightarrow> stl \<Rightarrow> nat" where
  "group_records h s = length (filter (\<lambda>i. identity_equal (sr_owner (records s i)) h) (record_slots s))"

section \<open>Updates\<close>

definition task_set :: "(resident_task \<Rightarrow> resident_task) \<Rightarrow> nat \<Rightarrow> stl \<Rightarrow> stl" where
  "task_set f t s = s\<lparr>tasks := (tasks s)(t := f (tasks s t))\<rparr>"

definition group_set :: "(resident_group \<Rightarrow> resident_group) \<Rightarrow> nat \<Rightarrow> stl \<Rightarrow> stl" where
  "group_set f g s = s\<lparr>groups := (groups s)(g := f (groups s g))\<rparr>"

definition corrupt :: "stl \<Rightarrow> stl" where
  "corrupt s = s\<lparr>stat_fault := SECTION_STL_CORRUPT\<rparr>"

definition request_switch :: "stl \<Rightarrow> stl" where
  "request_switch s = (if dispatch_active s then s\<lparr>switch_pending := True\<rparr> else s)"

text \<open>memcpy of words.\<close>

definition copy_words :: "(nat \<Rightarrow> u32) \<Rightarrow> nat \<Rightarrow> (nat \<Rightarrow> u32) \<Rightarrow> nat \<Rightarrow> (nat \<Rightarrow> u32)" where
  "copy_words dst off src n = (\<lambda>i. if off \<le> i \<and> i < off + n then src (i - off) else dst i)"

section \<open>Reclaiming snapshots\<close>

text \<open>The loop over the consumed prefix, and whether it returned early; the fuel is the number of records.\<close>

fun reap_loop :: "nat \<Rightarrow> stl \<Rightarrow> bool \<times> stl" where
  "reap_loop 0 s = (False, s)"
| "reap_loop (Suc n) s =
     (if stat_record_count s = 0 then (False, s)
      else
        (let r = records s (record_head s)
         in if \<not> sr_consumed r then (False, s)
            else if sr_charge r > stat_pool_used s \<or> sr_words r > SECTION_STL_POOL_WORDS
                  \<or> sr_offset r > SECTION_STL_POOL_WORDS - sr_words r then (True, corrupt s)
            else reap_loop n (s\<lparr>pool_head := (sr_offset r + sr_words r) mod SECTION_STL_POOL_WORDS,
                   stat_pool_used := stat_pool_used s - sr_charge r,
                   records := (records s)(record_head s := record_zero),
                   record_head := (record_head s + 1) mod SECTION_STL_MAX_RECORDS,
                   stat_record_count := stat_record_count s - 1\<rparr>)))"

definition records_reap :: "stl \<Rightarrow> stl" where
  "records_reap s =
     (case reap_loop (stat_record_count s) s of
        (True, s1) \<Rightarrow> s1
      | (False, s1) \<Rightarrow>
          if stat_record_count s1 = 0
          then (let s2 = s1\<lparr>pool_head := 0, pool_tail := 0\<rparr> in if stat_pool_used s2 \<noteq> 0 then corrupt s2 else s2)
          else s1)"

section \<open>The ready queue\<close>

definition ready_push :: "nat \<Rightarrow> stl \<Rightarrow> stl" where
  "ready_push t s =
     (if rt_queued (tasks s t) then s
      else
        (let s1 = task_set (\<lambda>x. x\<lparr>rt_queued := True\<rparr>) t (s\<lparr>p_ready_next := (p_ready_next s)(t := None)\<rparr>);
             s2 = (case p_ready_tail s1 of
                     Some l \<Rightarrow> s1\<lparr>p_ready_next := (p_ready_next s1)(l := Some t)\<rparr>
                   | None \<Rightarrow> s1\<lparr>p_ready_first := Some t\<rparr>)
         in s2\<lparr>p_ready_tail := Some t, stat_ready_count := stat_ready_count s2 + 1\<rparr>))"

definition ready_push_front :: "nat \<Rightarrow> stl \<Rightarrow> stl" where
  "ready_push_front t s =
     (if rt_queued (tasks s t) then s
      else
        (let s1 = task_set (\<lambda>x. x\<lparr>rt_queued := True\<rparr>) t (s\<lparr>p_ready_next := (p_ready_next s)(t := p_ready_first s)\<rparr>);
             s2 = s1\<lparr>p_ready_first := Some t\<rparr>;
             s3 = (if p_ready_tail s2 = None then s2\<lparr>p_ready_tail := Some t\<rparr> else s2)
         in s3\<lparr>stat_ready_count := stat_ready_count s3 + 1\<rparr>))"

definition ready_pop :: "stl \<Rightarrow> nat option \<times> stl" where
  "ready_pop s =
     (case p_ready_first s of
        None \<Rightarrow> (None, s)
      | Some t \<Rightarrow>
          (let s1 = s\<lparr>p_ready_first := p_ready_next s t\<rparr>;
               s2 = (if p_ready_first s1 = None then s1\<lparr>p_ready_tail := None\<rparr> else s1);
               s3 = task_set (\<lambda>x. x\<lparr>rt_queued := False\<rparr>) t (s2\<lparr>p_ready_next := (p_ready_next s2)(t := None)\<rparr>)
           in (Some t, s3\<lparr>stat_ready_count := stat_ready_count s3 - 1\<rparr>)))"

text \<open>The cancelling walk with its \<open>p_previous\<close>; the fuel bounds the queue, which never holds a slot twice.\<close>

fun ready_remove_loop :: "nat \<Rightarrow> stl_handle \<Rightarrow> bool \<Rightarrow> nat option \<Rightarrow> nat option \<Rightarrow> stl \<Rightarrow> stl" where
  "ready_remove_loop 0 h old_too p_previous p_task s = s"
| "ready_remove_loop (Suc n) h old_too p_previous p_task s =
     (case p_task of
        None \<Rightarrow> s
      | Some t \<Rightarrow>
          (let p_next = p_ready_next s t
           in if identity_equal (rt_owner (tasks s t)) h \<and> (old_too \<or> rt_state (tasks s t) = TASK_NEW)
              then
                (let s1 = (case p_previous of
                             None \<Rightarrow> s\<lparr>p_ready_first := p_next\<rparr>
                           | Some q \<Rightarrow> s\<lparr>p_ready_next := (p_ready_next s)(q := p_next)\<rparr>);
                     s2 = (if p_ready_tail s1 = Some t then s1\<lparr>p_ready_tail := p_previous\<rparr> else s1);
                     s3 = task_set (\<lambda>x. x\<lparr>rt_queued := False, rt_state := TASK_SLEEPING\<rparr>) t
                            (s2\<lparr>p_ready_next := (p_ready_next s2)(t := None)\<rparr>)
                 in ready_remove_loop n h old_too p_previous p_next
                      (s3\<lparr>stat_ready_count := stat_ready_count s3 - 1\<rparr>))
              else ready_remove_loop n h old_too (Some t) p_next s))"

definition ready_remove :: "stl_handle \<Rightarrow> bool \<Rightarrow> stl \<Rightarrow> stl" where
  "ready_remove h old_too s = ready_remove_loop SECTION_STL_MAX_TASKS h old_too None (p_ready_first s) s"

section \<open>Cancelling a group\<close>

definition record_cancel :: "stl_handle \<Rightarrow> nat \<Rightarrow> stl \<Rightarrow> stl" where
  "record_cancel h i s =
     (if identity_equal (sr_owner (records s i)) h \<and> \<not> sr_consumed (records s i)
      then s\<lparr>records := (records s)(i := (records s i)\<lparr>sr_consumed := True\<rparr>), stat_discarded := stat_discarded s + 1\<rparr>
      else s)"

definition group_cancel :: "nat \<Rightarrow> stl \<Rightarrow> stl" where
  "group_cancel g s =
     (let h = rg_handle (groups s g);
          s1 = ready_remove h True s;
          s2 = foldl (\<lambda>s i. record_cancel h i s) s1 (record_slots s1);
          s3 = foldl (\<lambda>s t. task_set (\<lambda>x. x\<lparr>rt_record := None\<rparr>) t s) s2 (rg_tasks (groups s2 g));
          s4 = records_reap s3
      in if group_executing g s4 then s4 else group_set (\<lambda>x. x\<lparr>rg_state := SECTION_STL_REVOKED\<rparr>) g s4)"

section \<open>Frames\<close>

definition SECTION_STL_M_BASIC_WORDS :: nat where "SECTION_STL_M_BASIC_WORDS = 17"
definition SECTION_STL_M_EXTENDED_WORDS :: nat where "SECTION_STL_M_EXTENDED_WORDS = 51"
definition SECTION_STL_M_XPSR_THUMB :: u32 where "SECTION_STL_M_XPSR_THUMB = 0x01000000"
definition SECTION_STL_M_XPSR_ALIGN :: u32 where "SECTION_STL_M_XPSR_ALIGN = 0x00000200"
definition SECTION_STL_M_XPSR_IPSR :: u32 where "SECTION_STL_M_XPSR_IPSR = 0x000001FF"

text \<open>\<open>frame\<close> reads the words at \<open>p_sp\<close>.\<close>

definition section_stl_port_frame_valid :: "stl_link \<Rightarrow> u32 \<Rightarrow> (nat \<Rightarrow> u32) \<Rightarrow> nat \<Rightarrow> bool" where
  "section_stl_port_frame_valid lk p_sp frame n =
     (if p_sp = 0 \<or> p_sp AND 3 \<noteq> 0 \<or> n < SECTION_STL_M_BASIC_WORDS then False
      else if frame 8 \<noteq> lk_exc_basic lk \<and> (\<not> lk_fp lk \<or> frame 8 \<noteq> lk_exc_fp lk) then False
      else
        (let basic = (frame 8 = lk_exc_basic lk);
             required = (if basic then SECTION_STL_M_BASIC_WORDS else SECTION_STL_M_EXTENDED_WORDS);
             xpsr_index = (if basic then 16 else 32)
         in if n < required then False
            else
              (let xpsr = frame xpsr_index;
                   required = (if xpsr AND SECTION_STL_M_XPSR_ALIGN \<noteq> 0 then required + 1 else required)
               in \<not> (n < required \<or> xpsr AND SECTION_STL_M_XPSR_THUMB = 0 \<or> xpsr AND SECTION_STL_M_XPSR_IPSR \<noteq> 0
                      \<or> frame (xpsr_index - 1) = 0 \<or> frame (xpsr_index - 1) AND 1 \<noteq> 0))))"

text \<open>The initial frame of the trampoline, written at the top of the stack; 0 is NULL.\<close>

definition stack_address :: "stl_link \<Rightarrow> nat \<Rightarrow> u32" where
  "stack_address lk k = lk_stack lk + 4 * of_nat k"

definition prepare_frame :: "stl_link \<Rightarrow> nat \<Rightarrow> u32" where
  "prepare_frame lk k =
     (if k = 8 then lk_exc_basic lk else if k = 14 then 0xFFFFFFFF else if k = 15 then lk_entry lk AND NOT 1
      else if k = 16 then SECTION_STL_M_XPSR_THUMB else 0)"

definition section_stl_port_prepare :: "stl_link \<Rightarrow> stl \<Rightarrow> u32 \<times> stl" where
  "section_stl_port_prepare lk s =
     (let low = stack_address lk STL_GUARD_WORDS; top = stack_address lk SECTION_STL_STACK_WORDS
      in if low = 0 \<or> top = 0 \<or> lk_entry lk = 0 \<or> lk_entry lk AND 1 = 0 \<or> lk_entry lk AND NOT 1 = 0
           \<or> low AND lk_low_align_mask lk \<noteq> 0 \<or> top AND 7 \<noteq> 0 \<or> top < low
           \<or> top - low < of_nat SECTION_STL_M_BASIC_WORDS * 4
         then (0, s)
         else (top - 4 * of_nat SECTION_STL_M_BASIC_WORDS,
               s\<lparr>runtime_stack := copy_words (runtime_stack s) (SECTION_STL_STACK_WORDS - SECTION_STL_M_BASIC_WORDS)
                   (prepare_frame lk) SECTION_STL_M_BASIC_WORDS\<rparr>))"

text \<open>The word of the stack that an address names.\<close>

definition stack_index :: "stl_link \<Rightarrow> u32 \<Rightarrow> nat" where
  "stack_index lk p_sp = unat (p_sp - lk_stack lk) div 4"

definition frame_words :: "stl_link \<Rightarrow> u32 \<Rightarrow> stl \<Rightarrow> nat \<times> stl" where
  "frame_words lk p_sp s =
     (let low = stack_address lk STL_GUARD_WORDS; top = stack_address lk SECTION_STL_STACK_WORDS
      in if runtime_stack s 0 \<noteq> STL_GUARD \<or> runtime_stack s 1 \<noteq> NOT STL_GUARD \<or> p_sp < low \<or> p_sp \<ge> top \<or> p_sp mod 4 \<noteq> 0
         then (0, corrupt s)
         else
           (let n = unat ((top - p_sp) div 4)
            in if \<not> section_stl_port_frame_valid lk p_sp (\<lambda>k. runtime_stack s (stack_index lk p_sp + k)) n
               then (0, corrupt s) else (n, s)))"

section \<open>Saving and restoring\<close>

definition pool_is_full :: "stl \<Rightarrow> bool \<times> stl" where
  "pool_is_full s = (False, s\<lparr>stat_pool_full := stat_pool_full s + 1\<rparr>)"

definition snapshot_store :: "nat \<Rightarrow> (nat \<Rightarrow> u32) \<Rightarrow> nat \<Rightarrow> nat \<Rightarrow> nat \<Rightarrow> stl \<Rightarrow> stl" where
  "snapshot_store t frame n offset gap s =
     (let i = record_tail s;
          s1 = s\<lparr>records := (records s)(i := \<lparr>sr_owner = rt_owner (tasks s t), sr_task_index = t, sr_offset = offset,
                   sr_words = n, sr_charge = n + gap, sr_consumed = False\<rparr>),
                 pool := copy_words (pool s) offset frame n\<rparr>;
          s2 = task_set (\<lambda>x. x\<lparr>rt_record := Some i\<rparr>) t s1
      in s2\<lparr>record_tail := (i + 1) mod SECTION_STL_MAX_RECORDS,
            pool_tail := (offset + n) mod SECTION_STL_POOL_WORDS,
            stat_pool_used := stat_pool_used s2 + (n + gap),
            stat_record_count := stat_record_count s2 + 1,
            stat_saves := stat_saves s2 + 1\<rparr>)"

definition snapshot_save :: "nat \<Rightarrow> (nat \<Rightarrow> u32) \<Rightarrow> nat \<Rightarrow> stl \<Rightarrow> bool \<times> stl" where
  "snapshot_save t frame n s =
     (let s = records_reap s
      in if stat_fault s \<noteq> SECTION_STL_OK then (False, s)
         else if stat_record_count s = SECTION_STL_MAX_RECORDS \<or> n > SECTION_STL_POOL_WORDS - stat_pool_used s
         then pool_is_full s
         else if pool_tail s \<ge> pool_head s then
           (if n > SECTION_STL_POOL_WORDS - pool_tail s then
              (let gap = SECTION_STL_POOL_WORDS - pool_tail s
               in if n > pool_head s \<or> gap > SECTION_STL_POOL_WORDS - stat_pool_used s - n then pool_is_full s
                  else (True, snapshot_store t frame n 0 gap s))
            else (True, snapshot_store t frame n (pool_tail s) 0 s))
         else if n > pool_head s - pool_tail s then pool_is_full s
         else (True, snapshot_store t frame n (pool_tail s) 0 s))"

definition snapshot_restore :: "stl_link \<Rightarrow> nat \<Rightarrow> stl \<Rightarrow> u32 \<times> stl" where
  "snapshot_restore lk t s =
     (case rt_record (tasks s t) of
        None \<Rightarrow> (0, corrupt s)
      | Some i \<Rightarrow>
          if i \<ge> SECTION_STL_MAX_RECORDS then (0, corrupt s)
          else
            (let r = records s i
             in if sr_consumed r \<or> \<not> identity_equal (sr_owner r) (rt_owner (tasks s t)) \<or> sr_task_index r \<noteq> t
                  \<or> sr_words r > SECTION_STL_STACK_WORDS - STL_GUARD_WORDS \<or> sr_words r > SECTION_STL_POOL_WORDS
                  \<or> sr_offset r > SECTION_STL_POOL_WORDS - sr_words r
                then (0, corrupt s)
                else if \<not> section_stl_port_frame_valid lk (lk_pool lk + 4 * of_nat (sr_offset r))
                             (\<lambda>k. pool s (sr_offset r + k)) (sr_words r)
                then (0, corrupt s)
                else
                  (let low = SECTION_STL_STACK_WORDS - sr_words r;
                       s1 = s\<lparr>runtime_stack := copy_words (runtime_stack s) low (\<lambda>k. pool s (sr_offset r + k)) (sr_words r),
                              records := (records s)(i := r\<lparr>sr_consumed := True\<rparr>)\<rparr>;
                       s2 = task_set (\<lambda>x. x\<lparr>rt_record := None\<rparr>) t s1;
                       s3 = records_reap (s2\<lparr>stat_restores := stat_restores s2 + 1\<rparr>)
                   in if stat_fault s3 \<noteq> SECTION_STL_OK then (0, s3) else (stack_address lk low, s3))))"

section \<open>Activation\<close>

definition activate_task :: "nat \<Rightarrow> stl \<Rightarrow> stl" where
  "activate_task t s =
     (let x = tasks s t; elapsed = tick_now s - rt_last x
      in if rt_state x = TASK_SLEEPING \<and> elapsed \<ge> rt_period x
         then ready_push t (task_set (\<lambda>x. x\<lparr>rt_last := rt_last x + (elapsed div rt_period x) * rt_period x, rt_state := TASK_NEW\<rparr>) t s)
         else s)"

definition activate_group :: "nat \<Rightarrow> stl \<Rightarrow> stl" where
  "activate_group g s =
     (if rg_state (groups s g) \<noteq> SECTION_STL_ENABLED then s
      else foldl (\<lambda>s t. activate_task t s) s (rg_tasks (groups s g)))"

definition activate_due :: "stl \<Rightarrow> stl" where
  "activate_due s = foldl (\<lambda>s g. activate_group g s) s (group_list s)"

section \<open>Loading\<close>

definition section_stl_init :: "port_view \<Rightarrow> u32 \<Rightarrow> stl \<Rightarrow> stl_status \<times> stl" where
  "section_stl_init pv now s =
     (if \<not> pv_api_allowed pv then (SECTION_STL_BAD_CONTEXT, s)
      else if \<not> native_context pv s then (SECTION_STL_BAD_CONTEXT, s)
      else if stl_initialized s then (SECTION_STL_BAD_STATE, s)
      else (SECTION_STL_OK, s\<lparr>tick_now := now, slice_start := now,
             runtime_stack := (runtime_stack s)(0 := STL_GUARD, 1 := NOT STL_GUARD), stl_initialized := True\<rparr>))"

text \<open>The validation of the table: the result so far, the wrappers of the entries before, and the tasks needed.\<close>

definition reg_task_valid :: "stl_reg_task \<Rightarrow> bool" where
  "reg_task_valid x \<longleftrightarrow> \<not> (st_period x = 0 \<or> st_period x \<ge> STL_HALF \<or> ((st_func x = 0) = (st_step_func x = 0)))"

fun register_scan :: "stl_image_objects \<Rightarrow> stl_entry list \<Rightarrow> stl_entry list \<Rightarrow> stl_status \<Rightarrow> nat \<Rightarrow> stl_status \<times> nat" where
  "register_scan obj prior [] result needed = (result, needed)"
| "register_scan obj prior (e # es) result needed =
     (if fst e = STL_SECTION_TASK then
        (case Option.bind (snd e) (task_object obj) of
           None \<Rightarrow> (SECTION_STL_BAD_ARGUMENT, needed)
         | Some x \<Rightarrow>
             if \<not> reg_task_valid x then (SECTION_STL_BAD_ARGUMENT, needed)
             else register_scan obj (prior @ [e]) es
                    (if list_ex (\<lambda>p. fst p = STL_SECTION_TASK \<and> snd p = snd e) prior then SECTION_STL_BAD_ARGUMENT else result)
                    (needed + 1))
      else register_scan obj (prior @ [e]) es result needed)"

text \<open>The insertion into the list of a group, in order of the period and behind equal ones.\<close>

definition place_task :: "(nat \<Rightarrow> u32) \<Rightarrow> nat \<Rightarrow> nat list \<Rightarrow> nat list" where
  "place_task period t ts =
     takeWhile (\<lambda>q. period q \<le> period t) ts @ [t] @ dropWhile (\<lambda>q. period q \<le> period t) ts"

definition register_task :: "nat \<Rightarrow> stl_reg_task \<Rightarrow> stl \<Rightarrow> stl" where
  "register_task g x s =
     (case List.find (\<lambda>t. rt_state (tasks s t) = TASK_FREE) [0..<SECTION_STL_MAX_TASKS] of
        None \<Rightarrow> s
      | Some t \<Rightarrow>
          (let s1 = task_set (\<lambda>_. \<lparr>rt_owner = rg_handle (groups s g), rt_quantum_left = 0, rt_period = st_period x,
                      rt_last = tick_now s, rt_func = st_func x, rt_step_func = st_step_func x, rt_ctx = st_ctx x,
                      rt_record = None, rt_queued = False, rt_state = TASK_SLEEPING\<rparr>) t
                      (s\<lparr>p_ready_next := (p_ready_next s)(t := None)\<rparr>)
           in group_set (\<lambda>y. y\<lparr>rg_tasks := place_task (\<lambda>q. rt_period (tasks s1 q)) t (rg_tasks y),
                rg_task_count := rg_task_count y + 1\<rparr>) g s1))"

definition section_stl_group_register ::
  "port_view \<Rightarrow> stl_image_objects \<Rightarrow> u32 \<Rightarrow> stl_entry list option \<Rightarrow> u32 \<Rightarrow> bool \<Rightarrow> stl \<Rightarrow> stl_status \<times> stl_handle option \<times> stl" where
  "section_stl_group_register pv obj group_id p_entries count has_handle s =
     (if \<not> pv_api_allowed pv then (SECTION_STL_BAD_CONTEXT, None, s)
      else if \<not> native_context pv s then (SECTION_STL_BAD_CONTEXT, None, s)
      else if group_id = 0 \<or> \<not> has_handle \<or> count > SECTION_STL_MAX_REGISTRATIONS \<or> (count > 0 \<and> p_entries = None)
      then (SECTION_STL_BAD_ARGUMENT, None, s)
      else
        (let entries = take (unat count) ((case p_entries of None \<Rightarrow> [] | Some es \<Rightarrow> es));
             slots = [0..<SECTION_STL_MAX_GROUPS];
             r0 = (if \<not> stl_initialized s \<or> stat_fault s \<noteq> SECTION_STL_OK then SECTION_STL_BAD_STATE else SECTION_STL_OK);
             r1 = (if list_ex (\<lambda>g. sh_group_id (rg_handle (groups s g)) = group_id) slots then SECTION_STL_BAD_STATE else r0);
             p_group = List.find (\<lambda>g. sh_group_id (rg_handle (groups s g)) = 0) (rev slots);
             free_tasks = length (filter (\<lambda>t. rt_state (tasks s t) = TASK_FREE) [0..<SECTION_STL_MAX_TASKS]);
             (r2, needed) = register_scan obj [] entries r1 0;
             r3 = (if r2 = SECTION_STL_OK \<and> (p_group = None \<or> needed > free_tasks) then SECTION_STL_NO_CAPACITY else r2);
             r4 = (if r3 = SECTION_STL_OK \<and> generation s = - 1 then SECTION_STL_GENERATION_EXHAUSTED else r3)
         in if r4 \<noteq> SECTION_STL_OK then (r4, None, s)
            else
              (let g = the p_group;
                   h = \<lparr>sh_group_id = group_id, sh_generation = generation s + 1\<rparr>;
                   s1 = group_set (\<lambda>_. group_zero\<lparr>rg_handle := h, rg_state := SECTION_STL_DISABLED\<rparr>) g
                          (s\<lparr>generation := generation s + 1\<rparr>);
                   s2 = foldl (\<lambda>s e. if fst e = STL_SECTION_TASK then register_task g (the (task_object obj (the (snd e)))) s else s)
                          s1 entries;
                   s3 = s2\<lparr>group_list := g # group_list s2, stat_group_count := stat_group_count s2 + 1\<rparr>
               in (SECTION_STL_OK, Some h, s3))))"

text \<open>The stable insertion of a callback into the sorted buffer, from its end.\<close>

definition place_init :: "stl_reg_init \<Rightarrow> stl_reg_init list \<Rightarrow> stl_reg_init list" where
  "place_init p xs =
     (let k = length (takeWhile (\<lambda>q. \<not> si_priority q <=s si_priority p) (rev xs))
      in take (length xs - k) xs @ [p] @ drop (length xs - k) xs)"

fun init_scan :: "stl_image_objects \<Rightarrow> stl_entry list \<Rightarrow> stl_reg_init list \<Rightarrow> stl_reg_init list option" where
  "init_scan obj [] callbacks = Some callbacks"
| "init_scan obj (e # es) callbacks =
     (if fst e = STL_SECTION_INIT then
        (case Option.bind (snd e) (init_object obj) of
           None \<Rightarrow> None
         | Some p \<Rightarrow> if si_func p = 0 then None else init_scan obj es (place_init p callbacks))
      else init_scan obj es callbacks)"

text \<open>
  The admission of a managed initialisation.  With \<open>SECTION_STL_OK\<close> the callbacks then run unlocked, each behind
  \<open>group_initialize_proceed\<close>, and \<open>group_initialize_end\<close> closes the transaction.
\<close>

definition group_initialize_begin ::
  "port_view \<Rightarrow> stl_image_objects \<Rightarrow> stl_handle \<Rightarrow> stl_entry list option \<Rightarrow> u32 \<Rightarrow> stl \<Rightarrow> stl_status \<times> stl" where
  "group_initialize_begin pv obj h p_entries count s =
     (if \<not> pv_api_allowed pv then (SECTION_STL_BAD_CONTEXT, s)
      else if \<not> native_context pv s then (SECTION_STL_BAD_CONTEXT, s)
      else if count > SECTION_STL_MAX_REGISTRATIONS \<or> (count > 0 \<and> p_entries = None) then (SECTION_STL_BAD_ARGUMENT, s)
      else
        (let entries = take (unat count) (case p_entries of None \<Rightarrow> [] | Some es \<Rightarrow> es)
         in case group_find h s of
              None \<Rightarrow> (if stat_fault s \<noteq> SECTION_STL_OK \<or> list_ex (\<lambda>g. rg_init_busy (groups s g)) (group_list s)
                       then SECTION_STL_BAD_STATE else SECTION_STL_STALE, s)
            | Some g \<Rightarrow>
                if rg_state (groups s g) \<noteq> SECTION_STL_DISABLED \<or> rg_init_busy (groups s g) \<or> rg_initialized (groups s g)
                   \<or> stat_fault s \<noteq> SECTION_STL_OK \<or> list_ex (\<lambda>g. rg_init_busy (groups s g)) (group_list s)
                then (SECTION_STL_BAD_STATE, s)
                else
                  (case init_scan obj entries [] of
                     None \<Rightarrow> (SECTION_STL_BAD_ARGUMENT, s\<lparr>init_callbacks := []\<rparr>)
                   | Some callbacks \<Rightarrow>
                       (SECTION_STL_OK, group_set (\<lambda>x. x\<lparr>rg_init_busy := True\<rparr>) g (s\<lparr>init_callbacks := callbacks\<rparr>)))))"

definition group_initialize_proceed :: "nat \<Rightarrow> stl \<Rightarrow> bool" where
  "group_initialize_proceed g s \<longleftrightarrow> \<not> rg_state (groups s g) \<ge> SECTION_STL_REVOKING"

definition group_initialize_end :: "nat \<Rightarrow> stl \<Rightarrow> stl_status \<times> stl" where
  "group_initialize_end g s =
     (let s1 = group_set (\<lambda>x. x\<lparr>rg_init_busy := False\<rparr>) g (s\<lparr>init_callbacks := []\<rparr>)
      in if rg_state (groups s1 g) \<ge> SECTION_STL_REVOKING
         then (SECTION_STL_BAD_STATE, group_set (\<lambda>x. x\<lparr>rg_state := SECTION_STL_REVOKED\<rparr>) g s1)
         else (SECTION_STL_OK, group_set (\<lambda>x. x\<lparr>rg_initialized := True\<rparr>) g s1))"

section \<open>Lifecycle\<close>

definition section_stl_group_enable :: "port_view \<Rightarrow> stl_handle \<Rightarrow> stl \<Rightarrow> stl_status \<times> stl" where
  "section_stl_group_enable pv h s =
     (if \<not> pv_api_allowed pv then (SECTION_STL_BAD_CONTEXT, s)
      else
        (case group_find h s of
           None \<Rightarrow> (SECTION_STL_STALE, s)
         | Some g \<Rightarrow>
             if rg_initialized (groups s g) \<and> rg_state (groups s g) < SECTION_STL_REVOKING \<and> stat_fault s = SECTION_STL_OK
             then
               (let s1 = (if rg_state (groups s g) \<noteq> SECTION_STL_ENABLED
                          then foldl (\<lambda>s t. task_set (\<lambda>x. x\<lparr>rt_last := tick_now s\<rparr>) t s) s (rg_tasks (groups s g)) else s)
                in (SECTION_STL_OK, group_set (\<lambda>x. x\<lparr>rg_state := SECTION_STL_ENABLED\<rparr>) g s1))
             else (SECTION_STL_BAD_STATE, s)))"

definition section_stl_group_disable :: "port_view \<Rightarrow> stl_handle \<Rightarrow> stl \<Rightarrow> stl_status \<times> stl" where
  "section_stl_group_disable pv h s =
     (if \<not> pv_api_allowed pv then (SECTION_STL_BAD_CONTEXT, s)
      else
        (case group_find h s of
           None \<Rightarrow> (SECTION_STL_STALE, s)
         | Some g \<Rightarrow>
             if rg_state (groups s g) < SECTION_STL_REVOKING
             then (SECTION_STL_OK, ready_remove h False (group_set (\<lambda>x. x\<lparr>rg_state := SECTION_STL_DISABLED\<rparr>) g s))
             else (SECTION_STL_BAD_STATE, s)))"

definition section_stl_group_pause :: "port_view \<Rightarrow> stl_handle \<Rightarrow> stl \<Rightarrow> stl_status \<times> stl" where
  "section_stl_group_pause pv h s =
     (if \<not> pv_api_allowed pv then (SECTION_STL_BAD_CONTEXT, s)
      else
        (case group_find h s of
           None \<Rightarrow> (SECTION_STL_STALE, s)
         | Some g \<Rightarrow>
             if rg_state (groups s g) < SECTION_STL_REVOKING
             then
               (if \<not> group_executing g s \<and> group_records h s = 0 \<and> rg_references (groups s g) = 0
                then (SECTION_STL_OK, ready_remove h False (group_set (\<lambda>x. x\<lparr>rg_state := SECTION_STL_PAUSED\<rparr>) g s))
                else (SECTION_STL_BUSY, s))
             else (SECTION_STL_BAD_STATE, s)))"

definition section_stl_group_revoke :: "port_view \<Rightarrow> stl_handle \<Rightarrow> stl \<Rightarrow> stl_status \<times> stl" where
  "section_stl_group_revoke pv h s =
     (if \<not> pv_api_allowed pv then (SECTION_STL_BAD_CONTEXT, s)
      else
        (case group_find h s of
           None \<Rightarrow> (SECTION_STL_STALE, s)
         | Some g \<Rightarrow>
             (let s1 = group_cancel g (group_set (\<lambda>x. x\<lparr>rg_state := SECTION_STL_REVOKING\<rparr>) g s)
              in if group_executing g s1
                 then (SECTION_STL_BUSY,
                       (case p_current s1 of
                          None \<Rightarrow> s1
                        | Some t \<Rightarrow> if identity_equal (rt_owner (tasks s1 t)) h then request_switch s1 else s1))
                 else (SECTION_STL_OK, s1))))"

definition section_stl_group_acquire :: "port_view \<Rightarrow> stl_handle \<Rightarrow> stl \<Rightarrow> stl_status \<times> stl" where
  "section_stl_group_acquire pv h s =
     (if \<not> pv_api_allowed pv then (SECTION_STL_BAD_CONTEXT, s)
      else
        (case group_find h s of
           None \<Rightarrow> (SECTION_STL_STALE, s)
         | Some g \<Rightarrow>
             if rg_state (groups s g) < SECTION_STL_PAUSED \<and> rg_references (groups s g) < - 1
             then (SECTION_STL_OK, group_set (\<lambda>x. x\<lparr>rg_references := rg_references x + 1\<rparr>) g s)
             else (SECTION_STL_BAD_STATE, s)))"

definition section_stl_group_release :: "port_view \<Rightarrow> stl_handle \<Rightarrow> stl \<Rightarrow> stl_status \<times> stl" where
  "section_stl_group_release pv h s =
     (if \<not> pv_api_allowed pv then (SECTION_STL_BAD_CONTEXT, s)
      else
        (case group_find h s of
           None \<Rightarrow> (SECTION_STL_STALE, s)
         | Some g \<Rightarrow>
             if rg_references (groups s g) > 0
             then (SECTION_STL_OK, group_set (\<lambda>x. x\<lparr>rg_references := rg_references x - 1\<rparr>) g s)
             else (SECTION_STL_BAD_STATE, s)))"

definition group_retired :: "nat \<Rightarrow> stl \<Rightarrow> bool" where
  "group_retired g s \<longleftrightarrow> rg_state (groups s g) = SECTION_STL_REVOKED \<and> \<not> group_executing g s
     \<and> rg_references (groups s g) = 0 \<and> group_records (rg_handle (groups s g)) s = 0"

definition section_stl_group_quiescent :: "port_view \<Rightarrow> stl_handle \<Rightarrow> stl \<Rightarrow> stl_status \<times> stl" where
  "section_stl_group_quiescent pv h s =
     (if \<not> pv_api_allowed pv then (SECTION_STL_BAD_CONTEXT, s)
      else if \<not> native_context pv s then (SECTION_STL_BAD_CONTEXT, s)
      else
        (let s1 = records_reap s
         in case group_find h s1 of
              None \<Rightarrow> (SECTION_STL_STALE, s1)
            | Some g \<Rightarrow>
                if group_retired g s1 \<and> stat_fault s1 = SECTION_STL_OK
                then (SECTION_STL_OK, group_set (\<lambda>x. x\<lparr>rg_quiescent := True\<rparr>) g s1)
                else (SECTION_STL_BUSY, s1)))"

definition task_clear :: "nat \<Rightarrow> stl \<Rightarrow> stl" where
  "task_clear t s = task_set (\<lambda>_. task_zero) t (s\<lparr>p_ready_next := (p_ready_next s)(t := None)\<rparr>)"

definition section_stl_group_forget :: "port_view \<Rightarrow> stl_handle \<Rightarrow> stl \<Rightarrow> stl_status \<times> stl" where
  "section_stl_group_forget pv h s =
     (if \<not> pv_api_allowed pv then (SECTION_STL_BAD_CONTEXT, s)
      else if \<not> native_context pv s then (SECTION_STL_BAD_CONTEXT, s)
      else
        (case group_find h s of
           None \<Rightarrow> (SECTION_STL_STALE, s)
         | Some g \<Rightarrow>
             if group_retired g s \<and> rg_quiescent (groups s g) \<and> stat_fault s = SECTION_STL_OK
             then
               (let s1 = foldl (\<lambda>s t. task_clear t s) s (rg_tasks (groups s g));
                    s2 = group_set (\<lambda>_. group_zero) g (s1\<lparr>group_list := remove1 g (group_list s1)\<rparr>)
                in (SECTION_STL_OK, s2\<lparr>stat_group_count := stat_group_count s2 - 1\<rparr>))
             else (SECTION_STL_BUSY, s)))"

record stl_group_info =
  gi_state :: stl_group_state
  gi_task_count :: nat
  gi_records :: nat
  gi_references :: u32
  gi_executing :: bool
  gi_initialized :: bool
  gi_quiescent :: bool

definition section_stl_group_query :: "port_view \<Rightarrow> stl_handle \<Rightarrow> bool \<Rightarrow> stl \<Rightarrow> stl_status \<times> stl_group_info option" where
  "section_stl_group_query pv h has_info s =
     (if \<not> pv_api_allowed pv then (SECTION_STL_BAD_CONTEXT, None)
      else if \<not> has_info then (SECTION_STL_BAD_ARGUMENT, None)
      else
        (case group_find h s of
           None \<Rightarrow> (SECTION_STL_STALE, None)
         | Some g \<Rightarrow>
             (SECTION_STL_OK,
              Some \<lparr>gi_state = rg_state (groups s g), gi_task_count = rg_task_count (groups s g), gi_records = group_records h s,
                    gi_references = rg_references (groups s g), gi_executing = group_executing g s,
                    gi_initialized = rg_initialized (groups s g), gi_quiescent = rg_quiescent (groups s g)\<rparr>)))"

section \<open>Time and requests\<close>

definition section_stl_tick :: "port_view \<Rightarrow> u32 \<Rightarrow> stl \<Rightarrow> stl_status \<times> stl" where
  "section_stl_tick pv now s =
     (if \<not> pv_api_allowed pv then (SECTION_STL_BAD_CONTEXT, s)
      else if \<not> stl_initialized s \<or> stat_fault s \<noteq> SECTION_STL_OK then (SECTION_STL_BAD_STATE, s)
      else if \<not> now - tick_now s < STL_HALF then (SECTION_STL_BAD_ARGUMENT, s)
      else
        (let s1 = s\<lparr>tick_now := now\<rparr>
         in case p_current s1 of
              None \<Rightarrow> (SECTION_STL_OK, activate_due s1)
            | Some t \<Rightarrow>
                (SECTION_STL_OK,
                 if \<not> pv_switch_active pv \<and> tick_now s1 - slice_start s1 \<ge> rt_quantum_left (tasks s1 t)
                 then request_switch s1 else s1)))"

text \<open>The admission of \<open>section_stl_run\<close>; \<open>None\<close> goes on to the port.\<close>

definition section_stl_run_admit :: "port_view \<Rightarrow> stl \<Rightarrow> stl_status option" where
  "section_stl_run_admit pv s =
     (if \<not> pv_api_allowed pv then Some SECTION_STL_BAD_CONTEXT
      else if \<not> stl_initialized s \<or> stat_fault s \<noteq> SECTION_STL_OK then Some SECTION_STL_BAD_STATE
      else if list_ex (\<lambda>g. rg_init_busy (groups s g)) (group_list s) then Some SECTION_STL_BUSY
      else None)"

definition section_stl_yield :: "port_view \<Rightarrow> stl \<Rightarrow> stl_status \<times> stl" where
  "section_stl_yield pv s =
     (if \<not> pv_api_allowed pv then (SECTION_STL_BAD_CONTEXT, s)
      else if p_current s \<noteq> None then (SECTION_STL_OK, request_switch s)
      else (SECTION_STL_BAD_CONTEXT, s))"

definition section_stl_request_native :: "port_view \<Rightarrow> stl \<Rightarrow> stl_status \<times> stl" where
  "section_stl_request_native pv s =
     (if \<not> pv_api_allowed pv then (SECTION_STL_BAD_CONTEXT, s)
      else if \<not> stl_initialized s then (SECTION_STL_BAD_STATE, s)
      else if stat_fault s \<noteq> SECTION_STL_OK then (stat_fault s, s)
      else if dispatch_active s then (SECTION_STL_OK, request_switch (s\<lparr>native_pending := True\<rparr>))
      else (SECTION_STL_BAD_CONTEXT, s))"

section \<open>Switching\<close>

definition host_commit :: "port_view \<Rightarrow> stl_handle \<Rightarrow> stl \<Rightarrow> bool \<times> stl" where
  "host_commit pv owner s = (if \<not> pv_owner_commit pv owner then (False, corrupt s) else (True, s))"

definition return_native :: "port_view \<Rightarrow> stl \<Rightarrow> u32 \<times> stl" where
  "return_native pv s =
     (case host_commit pv handle_none s of (True, s1) \<Rightarrow> (0, s1\<lparr>native_pending := False\<rparr>) | (False, s1) \<Rightarrow> (0, s1))"

text \<open>The departing task.  \<open>Inl\<close> is a return of \<open>section_stl_switch\<close>, \<open>Inr\<close> goes on.\<close>

definition switch_depart :: "port_view \<Rightarrow> stl_link \<Rightarrow> u32 \<Rightarrow> u32 \<Rightarrow> stl \<Rightarrow> u32 \<times> stl + stl" where
  "switch_depart pv lk elapsed p_saved_sp s =
     (case p_current s of
        None \<Rightarrow> Inr s
      | Some t \<Rightarrow>
          (let p_group = group_find (rt_owner (tasks s t)) s
           in if p_group = None \<or> rg_state (groups s (the p_group)) \<ge> SECTION_STL_REVOKING then
                (let s1 = (task_set (\<lambda>x. x\<lparr>rt_state := TASK_SLEEPING\<rparr>) t s)\<lparr>p_current := None\<rparr>
                 in Inr (case p_group of None \<Rightarrow> s1 | Some g \<Rightarrow> group_cancel g s1))
              else if rt_state (tasks s t) = TASK_RUNNING then
                (case frame_words lk p_saved_sp s of
                   (n, s1) \<Rightarrow>
                     if n = 0 then Inl (return_native pv (s1\<lparr>p_current := None\<rparr>))
                     else
                       (case snapshot_save t (\<lambda>k. runtime_stack s1 (stack_index lk p_saved_sp + k)) n s1 of
                          (False, s2) \<Rightarrow>
                            if stat_fault s2 \<noteq> SECTION_STL_OK then Inl (return_native pv (s2\<lparr>p_current := None\<rparr>))
                            else Inl (p_saved_sp, s2)
                        | (True, s2) \<Rightarrow>
                            (let s3 = task_set (\<lambda>x. x\<lparr>rt_state := TASK_OLD\<rparr>) t s2;
                                 charged = (if elapsed \<noteq> 0 then elapsed else 1);
                                 s4 = (if native_pending s3 \<and> charged < rt_quantum_left (tasks s3 t)
                                       then ready_push_front t
                                              (task_set (\<lambda>x. x\<lparr>rt_quantum_left := rt_quantum_left x - charged\<rparr>) t s3)
                                       else ready_push t
                                              (task_set (\<lambda>x. x\<lparr>rt_quantum_left := SECTION_STL_SLICE_TICKS\<rparr>) t s3))
                             in Inr (s4\<lparr>p_current := None\<rparr>))))
              else Inr (s\<lparr>p_current := None\<rparr>)))"

text \<open>Starting or resuming the selected task.\<close>

definition switch_arrive :: "port_view \<Rightarrow> stl_link \<Rightarrow> nat \<Rightarrow> stl \<Rightarrow> u32 \<times> stl" where
  "switch_arrive pv lk t s =
     (let (p_next_sp, s1) =
            (if rt_state (tasks s t) = TASK_OLD then snapshot_restore lk t s
             else section_stl_port_prepare lk (task_set (\<lambda>x. x\<lparr>rt_quantum_left := SECTION_STL_SLICE_TICKS\<rparr>) t s))
      in if stat_fault s1 \<noteq> SECTION_STL_OK \<or> p_next_sp = 0 then return_native pv (corrupt s1)
         else
           (case frame_words lk p_next_sp s1 of
              (n, s2) \<Rightarrow>
                if n = 0 then return_native pv (corrupt s2)
                else
                  (case host_commit pv (rt_owner (tasks s2 t)) s2 of
                     (False, s3) \<Rightarrow> return_native pv (s3\<lparr>p_current := None\<rparr>)
                   | (True, s3) \<Rightarrow>
                       (p_next_sp, (task_set (\<lambda>x. x\<lparr>rt_state := TASK_RUNNING\<rparr>) t (s3\<lparr>slice_start := tick_now s3\<rparr>))
                          \<lparr>p_current := Some t\<rparr>))))"

definition switch_admits :: "nat \<Rightarrow> stl \<Rightarrow> bool" where
  "switch_admits t s \<longleftrightarrow>
     (case group_find (rt_owner (tasks s t)) s of
        None \<Rightarrow> False
      | Some g \<Rightarrow> \<not> (rg_state (groups s g) \<ge> SECTION_STL_PAUSED
                    \<or> (rg_state (groups s g) = SECTION_STL_DISABLED \<and> rt_state (tasks s t) \<noteq> TASK_OLD)))"

text \<open>The selection.  Each round takes a task off the queue, so the number of task slots is enough fuel.\<close>

fun switch_select :: "nat \<Rightarrow> port_view \<Rightarrow> stl_link \<Rightarrow> stl \<Rightarrow> u32 \<times> stl" where
  "switch_select 0 pv lk s = return_native pv s"
| "switch_select (Suc n) pv lk s =
     (case ready_pop s of
        (None, s1) \<Rightarrow> return_native pv s1
      | (Some t, s1) \<Rightarrow>
          if switch_admits t s1 then switch_arrive pv lk t s1
          else
            (case group_find (rt_owner (tasks s1 t)) s1 of
               None \<Rightarrow> switch_select n pv lk s1
             | Some g \<Rightarrow>
                 if rg_state (groups s1 g) \<ge> SECTION_STL_REVOKING then
                   (let s2 = group_cancel g s1
                    in if stat_fault s2 \<noteq> SECTION_STL_OK then return_native pv s2 else switch_select n pv lk s2)
                 else switch_select n pv lk s1))"

definition section_stl_switch :: "port_view \<Rightarrow> stl_link \<Rightarrow> u32 \<Rightarrow> stl \<Rightarrow> u32 \<times> stl" where
  "section_stl_switch pv lk p_saved_sp s =
     (let elapsed = tick_now s - slice_start s
      in if stat_fault s \<noteq> SECTION_STL_OK then return_native pv (s\<lparr>p_current := None\<rparr>)
         else if \<not> pv_host_switch_allowed pv then (p_saved_sp, s)
         else
           (case switch_depart pv lk elapsed p_saved_sp s of
              Inl r \<Rightarrow> r
            | Inr s1 \<Rightarrow>
                if \<not> stl_initialized s1 \<or> stat_fault s1 \<noteq> SECTION_STL_OK then return_native pv s1
                else if native_pending s1 then return_native pv s1
                else
                  (let s2 = records_reap (activate_due s1)
                   in if stat_fault s2 \<noteq> SECTION_STL_OK then return_native pv s2
                      else switch_select (Suc SECTION_STL_MAX_TASKS) pv lk s2)))"

text \<open>
  The two exception vectors around it: SVC starts a dispatch that \<open>section_stl_run\<close> admitted, PendSV switches inside one,
  and address 0 restores the native caller, which then finds the dispatch ended.
\<close>

definition native_restore :: "stl \<Rightarrow> stl" where
  "native_restore s = s\<lparr>dispatch_active := False, switch_pending := False\<rparr>"

definition section_stl_port_svc :: "port_view \<Rightarrow> stl_link \<Rightarrow> stl \<Rightarrow> stl" where
  "section_stl_port_svc pv lk s =
     (case section_stl_switch pv lk 0 (s\<lparr>dispatch_active := True\<rparr>) of
        (sp, s1) \<Rightarrow> if sp = 0 then native_restore s1 else s1)"

definition section_stl_port_pendsv :: "port_view \<Rightarrow> stl_link \<Rightarrow> u32 \<Rightarrow> stl \<Rightarrow> stl" where
  "section_stl_port_pendsv pv lk p_saved_sp s =
     (case section_stl_switch pv lk p_saved_sp (s\<lparr>switch_pending := False\<rparr>) of
        (sp, s1) \<Rightarrow> if sp = 0 then native_restore s1 else s1)"

section \<open>The trampoline\<close>

text \<open>The callback that the trampoline calls: a plain one, or a step with its context.\<close>

definition entry_callback :: "stl \<Rightarrow> (u32 \<times> u32 option) option" where
  "entry_callback s =
     (case p_current s of
        None \<Rightarrow> None
      | Some t \<Rightarrow>
          if rt_func (tasks s t) \<noteq> 0 then Some (rt_func (tasks s t), None)
          else if rt_step_func (tasks s t) \<noteq> 0 then Some (rt_step_func (tasks s t), Some (rt_ctx (tasks s t)))
          else None)"

text \<open>
  The completion behind the callback's return: the task sleeps, or its continuing step is queued again, and due tasks follow it;
  then the head of the queue may start inline.  The result \<open>True\<close> goes on with that task.
\<close>

definition entry_retire :: "section_task_status \<Rightarrow> nat \<Rightarrow> stl \<Rightarrow> stl" where
  "entry_retire outcome t s =
     (let p_group = group_find (rt_owner (tasks s t)) s;
          s1 = task_set (\<lambda>x. x\<lparr>rt_state := TASK_SLEEPING\<rparr>) t s;
          s2 = (if p_group \<noteq> None \<and> rg_state (groups s1 (the p_group)) = SECTION_STL_ENABLED \<and> outcome = SECTION_TASK_RUNNING
                then ready_push t (task_set (\<lambda>x. x\<lparr>rt_state := TASK_NEW\<rparr>) t s1) else s1)
      in activate_due s2)"

definition entry_inline :: "nat \<Rightarrow> nat option \<Rightarrow> stl \<Rightarrow> stl" where
  "entry_inline t p_group s =
     (let s1 = snd (ready_pop s);
          s2 = task_set (\<lambda>x. x\<lparr>rt_quantum_left := SECTION_STL_SLICE_TICKS, rt_state := TASK_RUNNING\<rparr>) t
                 (s1\<lparr>p_current := Some t, slice_start := tick_now s1\<rparr>)
      in if p_group \<noteq> None \<and> rg_state (groups s2 (the p_group)) = SECTION_STL_REVOKING then group_cancel (the p_group) s2 else s2)"

definition entry_complete :: "port_view \<Rightarrow> bool \<Rightarrow> section_task_status \<Rightarrow> stl \<Rightarrow> bool \<times> stl" where
  "entry_complete pv inline_ok outcome s =
     (case p_current s of
        None \<Rightarrow> (False, request_switch s)
      | Some t \<Rightarrow>
          (let p_group = group_find (rt_owner (tasks s t)) s;
               s3 = entry_retire outcome t s;
               stay = (False, request_switch s3)
           in case p_ready_first s3 of
                None \<Rightarrow> stay
              | Some u \<Rightarrow>
                  if inline_ok \<and> \<not> native_pending s3 \<and> pv_host_switch_allowed pv
                     \<and> tick_now s3 - slice_start s3 < rt_quantum_left (tasks s3 t)
                     \<and> rt_state (tasks s3 u) = TASK_NEW
                  then
                    (case group_find (rt_owner (tasks s3 u)) s3 of
                       None \<Rightarrow> stay
                     | Some g \<Rightarrow>
                         if rg_state (groups s3 g) \<noteq> SECTION_STL_ENABLED then stay
                         else
                           (case host_commit pv (rt_owner (tasks s3 u)) s3 of
                              (False, s4) \<Rightarrow> (False, request_switch s4)
                            | (True, s4) \<Rightarrow> (True, entry_inline u p_group s4)))
                  else stay))"

end
