(* ===== verification/Stl_Pool.thy ===== *)
theory Stl_Pool
  imports Stl_Core
begin

text \<open>
  The snapshot ring: the allocation records are a queue of spans that follow each other around the pool, the words stranded at
  its end charged to the span behind them.  Live spans never overlap, reclaiming takes a consumed prefix, and its consistency
  checks never fire.
\<close>

abbreviation "P \<equiv> SECTION_STL_POOL_WORDS"
abbreviation "M \<equiv> SECTION_STL_MAX_RECORDS"

lemma pool_words_pos [simp]: "0 < P" "Suc 0 \<le> P"
  by (simp_all add: SECTION_STL_POOL_WORDS_def)

lemma max_records_pos [simp]: "0 < M"
  by (simp add: SECTION_STL_MAX_RECORDS_def)

section \<open>Spans around the ring\<close>

text \<open>\<open>spans a rs b\<close>: the records \<open>rs\<close> fill the ring from position \<open>a\<close> to position \<open>b\<close>.\<close>

fun spans :: "nat \<Rightarrow> snapshot_record list \<Rightarrow> nat \<Rightarrow> bool" where
  "spans a [] b \<longleftrightarrow> a = b"
| "spans a (r # rs) b \<longleftrightarrow> 0 < sr_words r \<and> sr_offset r + sr_words r \<le> P
     \<and> (sr_charge r = sr_words r \<and> sr_offset r = a \<or> sr_charge r = sr_words r + (P - a) \<and> sr_offset r = 0)
     \<and> spans ((sr_offset r + sr_words r) mod P) rs b"

lemma spans_append:
  "spans a (rs @ qs) c \<longleftrightarrow> (\<exists>b. spans a rs b \<and> spans b qs c)"
  by (induction rs arbitrary: a) auto

definition charges :: "snapshot_record list \<Rightarrow> nat" where
  "charges rs = sum_list (map sr_charge rs)"

lemma charges_simps [simp]:
  "charges [] = 0" "charges (r # rs) = sr_charge r + charges rs" "charges (rs @ qs) = charges rs + charges qs"
  by (simp_all add: charges_def)

text \<open>A record moves the position by its charge around the ring.\<close>

lemma span_step:
  assumes "a < P" "0 < sr_words r" "sr_offset r + sr_words r \<le> P"
    and "sr_charge r = sr_words r \<and> sr_offset r = a \<or> sr_charge r = sr_words r + (P - a) \<and> sr_offset r = 0"
  shows "\<exists>d. a + sr_charge r = (sr_offset r + sr_words r) mod P + d * P"
proof -
  have m: "\<exists>d. x = x mod P + d * P" for x by (metis mod_div_decomp add.commute mult.commute)
  from assms(4) show ?thesis
  proof
    assume "sr_charge r = sr_words r \<and> sr_offset r = a"
    then show ?thesis using m [of "a + sr_words r"] by simp
  next
    assume *: "sr_charge r = sr_words r + (P - a) \<and> sr_offset r = 0"
    obtain d where "sr_words r = sr_words r mod P + d * P" using m by blast
    then have "a + sr_charge r = sr_words r mod P + (d + 1) * P" using * assms(1) by simp
    then show ?thesis using * by (intro exI [of _ "d + 1"]) simp
  qed
qed

lemma span_position:
  assumes "spans a rs b" "a < P" "k < length rs" "sr_offset (rs ! k) \<le> p" "p < sr_offset (rs ! k) + sr_words (rs ! k)"
  shows "\<exists>q. q mod P = p \<and> a + charges (take k rs) \<le> q \<and> q < a + charges (take (Suc k) rs)"
  using assms
proof (induction rs arbitrary: a k)
  case Nil
  then show ?case by simp
next
  case (Cons r rs)
  have r: "0 < sr_words r" "sr_offset r + sr_words r \<le> P"
    "sr_charge r = sr_words r \<and> sr_offset r = a \<or> sr_charge r = sr_words r + (P - a) \<and> sr_offset r = 0"
    "spans ((sr_offset r + sr_words r) mod P) rs b" using Cons.prems(1) by auto
  show ?case
  proof (cases k)
    case 0
    then have p: "sr_offset r \<le> p" "p < sr_offset r + sr_words r" using Cons.prems by auto
    show ?thesis
    proof (cases "sr_charge r = sr_words r \<and> sr_offset r = a")
      case True
      then show ?thesis using p r(2) 0 by (intro exI [of _ p]) auto
    next
      case False
      then have "sr_charge r = sr_words r + (P - a)" "sr_offset r = 0" using r(3) by auto
      then show ?thesis using p r(2) 0 Cons.prems(2) by (intro exI [of _ "p + P"]) auto
    qed
  next
    case (Suc j)
    obtain d where d: "a + sr_charge r = (sr_offset r + sr_words r) mod P + d * P"
      using span_step [OF Cons.prems(2) r(1,2,3)] by blast
    have "(sr_offset r + sr_words r) mod P < P" by simp
    then obtain q where "q mod P = p" "(sr_offset r + sr_words r) mod P + charges (take j rs) \<le> q"
        "q < (sr_offset r + sr_words r) mod P + charges (take (Suc j) rs)"
      using Cons.IH [OF r(4), of j] Cons.prems(3-5) Suc by auto
    then show ?thesis using d Suc by (intro exI [of _ "q + d * P"]) auto
  qed
qed

lemma window_distinct:
  assumes "q mod P = q' mod P" "q < q'" "q' < q + P"
  shows False
proof -
  have "P dvd q' - q" using assms(1,2) by (metis mod_eq_dvd_iff_nat less_imp_le_nat)
  moreover have "0 < q' - q" "q' - q < P" using assms(2,3) by simp_all
  ultimately show False using nat_dvd_not_less by blast
qed

lemma charges_mono: "j \<le> k \<Longrightarrow> charges (take j rs) \<le> charges (take k rs)"
proof -
  assume "j \<le> k"
  then have "take k rs = take j rs @ take (k - j) (drop j rs)" by (metis take_add le_add_diff_inverse)
  then show ?thesis by simp
qed

lemma charges_take: "charges (take k rs) \<le> charges rs"
  using charges_mono [of k "max k (length rs)" rs] by simp

lemma spans_disjoint:
  assumes "spans a rs b" "a < P" "charges rs \<le> P" "j < k" "k < length rs"
    and "sr_offset (rs ! j) \<le> p" "p < sr_offset (rs ! j) + sr_words (rs ! j)"
    and "sr_offset (rs ! k) \<le> p" "p < sr_offset (rs ! k) + sr_words (rs ! k)"
  shows False
proof -
  obtain q where q: "q mod P = p" "a + charges (take j rs) \<le> q" "q < a + charges (take (Suc j) rs)"
    using span_position [OF assms(1,2) _ assms(6,7)] assms(4,5) by auto
  obtain q' where q': "q' mod P = p" "a + charges (take k rs) \<le> q'" "q' < a + charges (take (Suc k) rs)"
    using span_position [OF assms(1,2,5,8,9)] by auto
  have "charges (take (Suc j) rs) \<le> charges (take k rs)" using assms(4) by (intro charges_mono) simp
  moreover have "charges (take (Suc k) rs) \<le> P" using charges_take [of "Suc k" rs] assms(3) by simp
  ultimately show False using window_distinct [of q q'] q q' by simp
qed

section \<open>The ring of records\<close>

definition recs :: "stl \<Rightarrow> snapshot_record list" where
  "recs s = map (records s) (record_slots s)"

definition pool_inv :: "stl \<Rightarrow> bool" where
  "pool_inv s \<longleftrightarrow> stat_record_count s \<le> M \<and> record_head s < M
     \<and> record_tail s = (record_head s + stat_record_count s) mod M
     \<and> pool_head s < P \<and> spans (pool_head s) (recs s) (pool_tail s)
     \<and> stat_pool_used s = charges (recs s) \<and> stat_pool_used s \<le> P"

lemma length_record_slots [simp]: "length (record_slots s) = stat_record_count s"
  by (simp add: record_slots_def)

lemma length_recs [simp]: "length (recs s) = stat_record_count s"
  by (simp add: recs_def)

lemma record_slots_nth: "k < stat_record_count s \<Longrightarrow> record_slots s ! k = (record_head s + k) mod M"
  by (simp add: record_slots_def)

lemma slot_inj:
  assumes "(h + j) mod M = (h + k) mod M" "j < M" "k < M"
  shows "j = k"
proof (rule ccontr)
  have aux: False if "(h + j) mod M = (h + k) mod M" "j < k" "k < M" for j k
  proof -
    have "M dvd (h + k) - (h + j)" using that by (metis mod_eq_dvd_iff_nat add_left_mono less_imp_le_nat)
    then show False using that nat_dvd_not_less by fastforce
  qed
  assume "j \<noteq> k"
  then show False using aux [of j k] aux [of k j] assms by (metis linorder_neqE_nat)
qed

lemma distinct_record_slots: "stat_record_count s \<le> M \<Longrightarrow> distinct (record_slots s)"
  by (auto simp: distinct_conv_nth record_slots_nth dest: slot_inj)

lemma record_slots_less: "i \<in> set (record_slots s) \<Longrightarrow> i < M"
  by (auto simp: record_slots_def)

lemma record_tail_fresh:
  assumes "pool_inv s" "stat_record_count s \<noteq> M"
  shows "record_tail s \<notin> set (record_slots s)"
proof
  assume "record_tail s \<in> set (record_slots s)"
  then obtain k where "k < stat_record_count s" "(record_head s + k) mod M = (record_head s + stat_record_count s) mod M"
    using assms(1) by (auto simp: record_slots_def pool_inv_def)
  then show False using slot_inj [of "record_head s" k "stat_record_count s"] assms by (simp add: pool_inv_def)
qed

lemma record_slots_cong:
  "record_head s' = record_head s \<Longrightarrow> stat_record_count s' = stat_record_count s \<Longrightarrow> record_slots s' = record_slots s"
  by (simp add: record_slots_def)

lemma record_slots_step:
  assumes "stat_record_count s = Suc n" "record_head s < M"
    and "record_head s' = (record_head s + 1) mod M" "stat_record_count s' = n"
  shows "record_slots s = record_head s # record_slots s'"
proof (rule nth_equalityI)
  fix k assume "k < length (record_slots s)"
  then show "record_slots s ! k = (record_head s # record_slots s') ! k"
    using assms by (cases k) (simp_all add: record_slots_nth mod_Suc_eq mod_add_left_eq)
qed (use assms in simp)

lemma record_slots_grow:
  assumes "record_head s' = record_head s" "stat_record_count s' = Suc (stat_record_count s)"
    and "record_tail s = (record_head s + stat_record_count s) mod M"
  shows "record_slots s' = record_slots s @ [record_tail s]"
  using assms by (simp add: record_slots_def)

section \<open>Reclaiming\<close>

lemma reap_loop_rest:
  "(snd (reap_loop n s))\<lparr>records := (\<lambda>_. record_zero), pool_head := 0, pool_tail := 0, record_head := 0, stat_pool_used := 0, stat_record_count := 0, stat_fault := SECTION_STL_OK\<rparr>
   = s\<lparr>records := (\<lambda>_. record_zero), pool_head := 0, pool_tail := 0, record_head := 0, stat_pool_used := 0, stat_record_count := 0, stat_fault := SECTION_STL_OK\<rparr>"
  by (induction n s rule: reap_loop.induct) (simp_all add: Let_def corrupt_def)

lemma records_reap_rest:
  "(records_reap s)\<lparr>records := (\<lambda>_. record_zero), pool_head := 0, pool_tail := 0, record_head := 0, stat_pool_used := 0, stat_record_count := 0, stat_fault := SECTION_STL_OK\<rparr>
   = s\<lparr>records := (\<lambda>_. record_zero), pool_head := 0, pool_tail := 0, record_head := 0, stat_pool_used := 0, stat_record_count := 0, stat_fault := SECTION_STL_OK\<rparr>"
  using reap_loop_rest [of "stat_record_count s" s]
  by (cases "reap_loop (stat_record_count s) s") (simp add: records_reap_def corrupt_def Let_def split: bool.split)

lemma records_reap_frame [simp]:
  "groups (records_reap s) = groups s" "tasks (records_reap s) = tasks s"
  "init_callbacks (records_reap s) = init_callbacks s" "pool (records_reap s) = pool s"
  "runtime_stack (records_reap s) = runtime_stack s" "group_list (records_reap s) = group_list s"
  "p_ready_first (records_reap s) = p_ready_first s" "p_ready_tail (records_reap s) = p_ready_tail s"
  "p_ready_next (records_reap s) = p_ready_next s" "p_current (records_reap s) = p_current s"
  "stl_initialized (records_reap s) = stl_initialized s" "native_pending (records_reap s) = native_pending s"
  "generation (records_reap s) = generation s" "tick_now (records_reap s) = tick_now s"
  "slice_start (records_reap s) = slice_start s" "record_tail (records_reap s) = record_tail s"
  "stat_group_count (records_reap s) = stat_group_count s" "stat_ready_count (records_reap s) = stat_ready_count s"
  "stat_saves (records_reap s) = stat_saves s" "stat_restores (records_reap s) = stat_restores s"
  "stat_discarded (records_reap s) = stat_discarded s" "stat_pool_full (records_reap s) = stat_pool_full s"
  "dispatch_active (records_reap s) = dispatch_active s" "switch_pending (records_reap s) = switch_pending s"
  by (rule arg_cong [OF records_reap_rest, of groups, simplified] arg_cong [OF records_reap_rest, of tasks, simplified]
    arg_cong [OF records_reap_rest, of init_callbacks, simplified] arg_cong [OF records_reap_rest, of pool, simplified]
    arg_cong [OF records_reap_rest, of runtime_stack, simplified] arg_cong [OF records_reap_rest, of
    group_list, simplified] arg_cong [OF records_reap_rest, of p_ready_first, simplified] arg_cong [OF
    records_reap_rest, of p_ready_tail, simplified] arg_cong [OF records_reap_rest, of p_ready_next, simplified]
    arg_cong [OF records_reap_rest, of p_current, simplified] arg_cong [OF records_reap_rest, of
    stl_initialized, simplified] arg_cong [OF records_reap_rest, of native_pending, simplified] arg_cong [OF
    records_reap_rest, of generation, simplified] arg_cong [OF records_reap_rest, of tick_now, simplified] arg_cong [OF
    records_reap_rest, of slice_start, simplified] arg_cong [OF records_reap_rest, of record_tail, simplified]
    arg_cong [OF records_reap_rest, of stat_group_count, simplified] arg_cong [OF records_reap_rest, of
    stat_ready_count, simplified] arg_cong [OF records_reap_rest, of stat_saves, simplified] arg_cong [OF
    records_reap_rest, of stat_restores, simplified] arg_cong [OF records_reap_rest, of stat_discarded, simplified]
    arg_cong [OF records_reap_rest, of stat_pool_full, simplified] arg_cong [OF records_reap_rest, of
    dispatch_active, simplified] arg_cong [OF records_reap_rest, of switch_pending, simplified])+

text \<open>What reclaiming does: a consumed prefix of the queue is dropped, the rest stays as it was.\<close>

definition reaped :: "stl \<Rightarrow> stl \<Rightarrow> bool" where
  "reaped s s1 \<longleftrightarrow> pool_inv s1 \<and> stat_fault s1 = stat_fault s
     \<and> (\<exists>k. record_slots s1 = drop k (record_slots s) \<and> (\<forall>i \<in> set (take k (record_slots s)). sr_consumed (records s i))
        \<and> (\<forall>i \<in> set (record_slots s1). records s1 i = records s i))"

lemma recs_Cons:
  assumes "pool_inv s" "stat_record_count s = Suc n"
    and "s1 = s\<lparr>pool_head := (sr_offset r + sr_words r) mod P, stat_pool_used := stat_pool_used s - sr_charge r,
           records := (records s)(record_head s := record_zero), record_head := (record_head s + 1) mod M,
           stat_record_count := stat_record_count s - 1\<rparr>" "r = records s (record_head s)"
  shows "record_slots s = record_head s # record_slots s1" and "recs s = r # recs s1"
    and "\<And>i. i \<in> set (record_slots s1) \<Longrightarrow> records s1 i = records s i"
proof -
  show slots: "record_slots s = record_head s # record_slots s1"
    using assms by (intro record_slots_step [of s n]) (simp_all add: pool_inv_def)
  have "distinct (record_slots s)" using assms(1) by (simp add: distinct_record_slots pool_inv_def)
  then have "record_head s \<notin> set (record_slots s1)" using slots by simp
  then show keep: "records s1 i = records s i" if "i \<in> set (record_slots s1)" for i
    using that assms(3) by auto
  show "recs s = r # recs s1" using slots keep assms(4) by (simp add: recs_def)
qed

lemma pool_inv_drop_head:
  assumes "pool_inv s" "stat_record_count s = Suc n"
    and "s1 = s\<lparr>pool_head := (sr_offset r + sr_words r) mod P, stat_pool_used := stat_pool_used s - sr_charge r,
           records := (records s)(record_head s := record_zero), record_head := (record_head s + 1) mod M,
           stat_record_count := stat_record_count s - 1\<rparr>" "r = records s (record_head s)"
  shows "pool_inv s1"
proof -
  note c = recs_Cons [OF assms]
  have sp: "spans (pool_head s1) (recs s1) (pool_tail s1)" "charges (recs s) = sr_charge r + charges (recs s1)"
    using assms(1,3) c(2) by (auto simp: pool_inv_def)
  have "record_tail s = (record_head s + Suc n) mod M" using assms(1,2) by (simp add: pool_inv_def)
  also have "\<dots> = ((record_head s + 1) mod M + n) mod M" by (simp add: mod_add_left_eq)
  finally have "record_tail s1 = (record_head s1 + stat_record_count s1) mod M" using assms(2,3) by simp
  then show ?thesis using sp assms(1-3) by (auto simp: pool_inv_def)
qed

lemma reap_check:
  assumes "pool_inv s" "stat_record_count s = Suc n" "r = records s (record_head s)"
  shows "\<not> (sr_charge r > stat_pool_used s \<or> sr_words r > P \<or> sr_offset r > P - sr_words r)"
proof -
  have "recs s = r # tl (recs s)"
    using assms by (simp add: recs_def record_slots_def upt_rec [of 0] mod_less pool_inv_def)
  then have "spans (pool_head s) (r # tl (recs s)) (pool_tail s)" "stat_pool_used s = charges (r # tl (recs s))"
    using assms(1) by (simp_all add: pool_inv_def)
  then show ?thesis by auto
qed

lemma reap_loop_ok:
  "pool_inv s \<Longrightarrow> \<exists>s1. reap_loop n s = (False, s1) \<and> reaped s s1"
proof (induction n arbitrary: s)
  case 0
  then show ?case by (auto simp: reaped_def intro: exI [of _ 0])
next
  case (Suc n)
  define r where "r = records s (record_head s)"
  show ?case
  proof (cases "stat_record_count s = 0 \<or> \<not> sr_consumed r")
    case True
    then have "reap_loop (Suc n) s = (False, s)" by (auto simp: r_def Let_def)
    then show ?thesis using Suc.prems by (auto simp: reaped_def intro: exI [of _ 0])
  next
    case False
    then obtain m where m: "stat_record_count s = Suc m" by (cases "stat_record_count s") auto
    define s1 where "s1 = s\<lparr>pool_head := (sr_offset r + sr_words r) mod P, stat_pool_used := stat_pool_used s - sr_charge r,
           records := (records s)(record_head s := record_zero), record_head := (record_head s + 1) mod M,
           stat_record_count := stat_record_count s - 1\<rparr>"
    have e: "reap_loop (Suc n) s = reap_loop n s1"
      using reap_check [OF Suc.prems m r_def] False m by (simp add: s1_def r_def Let_def)
    have "pool_inv s1" by (rule pool_inv_drop_head [OF Suc.prems m s1_def r_def])
    then obtain s2 where s2: "reap_loop n s1 = (False, s2)" "reaped s1 s2" using Suc.IH by blast
    note c = recs_Cons [OF Suc.prems m s1_def r_def]
    obtain k where k: "record_slots s2 = drop k (record_slots s1)" "\<forall>i \<in> set (take k (record_slots s1)). sr_consumed (records s1 i)"
        "\<forall>i \<in> set (record_slots s2). records s2 i = records s1 i"
      using s2(2) by (auto simp: reaped_def)
    have in1: "i \<in> set (record_slots s1)" if "i \<in> set (take k (record_slots s1)) \<or> i \<in> set (record_slots s2)" for i
      using that k(1) by (auto dest: in_set_takeD in_set_dropD)
    have "reaped s s2"
      unfolding reaped_def
    proof (intro conjI exI [of _ "Suc k"] ballI)
      show "pool_inv s2" "stat_fault s2 = stat_fault s" using s2(2) by (auto simp: reaped_def s1_def)
      show "record_slots s2 = drop (Suc k) (record_slots s)" using k(1) c(1) by simp
      show "sr_consumed (records s i)" if "i \<in> set (take (Suc k) (record_slots s))" for i
        using that c(1) c(3) [of i] k(2) in1 [of i] False by (auto simp: r_def)
      show "records s2 i = records s i" if "i \<in> set (record_slots s2)" for i
        using that k(3) in1 [of i] c(3) [of i] by simp
    qed
    then show ?thesis using e s2(1) by simp
  qed
qed

lemma recs_Nil: "stat_record_count s = 0 \<Longrightarrow> recs s = []"
  by (simp add: recs_def record_slots_def)

theorem records_reap_ok:
  assumes "pool_inv s"
  shows "reaped s (records_reap s)"
proof -
  obtain s1 where s1: "reap_loop (stat_record_count s) s = (False, s1)" "reaped s s1" using reap_loop_ok [OF assms] by blast
  show ?thesis
  proof (cases "stat_record_count s1 = 0")
    case True
    have "pool_inv s1" using s1(2) by (simp add: reaped_def)
    then have u: "stat_pool_used s1 = 0" using recs_Nil [OF True] by (simp add: pool_inv_def)
    have r: "records_reap s = s1\<lparr>pool_head := 0, pool_tail := 0\<rparr>"
      using s1(1) True u by (simp add: records_reap_def Let_def)
    have slots: "record_slots (records_reap s) = record_slots s1" using r by (intro record_slots_cong) simp_all
    have "pool_inv (records_reap s)"
      using \<open>pool_inv s1\<close> recs_Nil [OF True] True u r slots by (simp add: pool_inv_def recs_def)
    then show ?thesis using s1(2) r slots by (auto simp: reaped_def)
  next
    case False
    then show ?thesis using s1 by (simp add: records_reap_def)
  qed
qed

lemma reaped_trans: "reaped s s1 \<Longrightarrow> reaped s1 s2 \<Longrightarrow> reaped s s2"
proof -
  assume a: "reaped s s1" "reaped s1 s2"
  obtain k where k: "record_slots s1 = drop k (record_slots s)" "\<forall>i \<in> set (take k (record_slots s)). sr_consumed (records s i)"
      "\<forall>i \<in> set (record_slots s1). records s1 i = records s i" using a(1) by (auto simp: reaped_def)
  obtain j where j: "record_slots s2 = drop j (record_slots s1)" "\<forall>i \<in> set (take j (record_slots s1)). sr_consumed (records s1 i)"
      "\<forall>i \<in> set (record_slots s2). records s2 i = records s1 i" using a(2) by (auto simp: reaped_def)
  have t: "take (k + j) (record_slots s) = take k (record_slots s) @ take j (record_slots s1)" using k(1) by (simp add: take_add)
  show ?thesis
    unfolding reaped_def
  proof (intro conjI exI [of _ "k + j"] ballI)
    show "pool_inv s2" "stat_fault s2 = stat_fault s" using a by (auto simp: reaped_def)
    show "record_slots s2 = drop (k + j) (record_slots s)" using j(1) k(1) by (simp add: add.commute)
    show "sr_consumed (records s i)" if "i \<in> set (take (k + j) (record_slots s))" for i
      using that k j(2) by (metis t Un_iff set_append in_set_takeD)
    show "records s2 i = records s i" if "i \<in> set (record_slots s2)" for i
      using that k(3) j(1,3) by (auto dest: in_set_dropD)
  qed
qed

section \<open>Saving\<close>

lemma task_set_simps [simp]:
  "tasks (task_set f t s) = (tasks s)(t := f (tasks s t))"
  by (simp add: task_set_def)

lemma task_set_rest:
  "(task_set f t s)\<lparr>tasks := (\<lambda>_. task_zero)\<rparr>
   = s\<lparr>tasks := (\<lambda>_. task_zero)\<rparr>"
  by (simp add: task_set_def)

lemma task_set_frame [simp]:
  "groups (task_set f t s) = groups s" "records (task_set f t s) = records s"
  "init_callbacks (task_set f t s) = init_callbacks s" "pool (task_set f t s) = pool s"
  "runtime_stack (task_set f t s) = runtime_stack s" "group_list (task_set f t s) = group_list s"
  "p_ready_first (task_set f t s) = p_ready_first s" "p_ready_tail (task_set f t s) = p_ready_tail s"
  "p_ready_next (task_set f t s) = p_ready_next s" "p_current (task_set f t s) = p_current s"
  "stl_initialized (task_set f t s) = stl_initialized s" "native_pending (task_set f t s) = native_pending s"
  "generation (task_set f t s) = generation s" "tick_now (task_set f t s) = tick_now s"
  "slice_start (task_set f t s) = slice_start s" "pool_head (task_set f t s) = pool_head s"
  "pool_tail (task_set f t s) = pool_tail s" "record_head (task_set f t s) = record_head s"
  "record_tail (task_set f t s) = record_tail s" "stat_group_count (task_set f t s) = stat_group_count s"
  "stat_ready_count (task_set f t s) = stat_ready_count s" "stat_pool_used (task_set f t s) = stat_pool_used s"
  "stat_record_count (task_set f t s) = stat_record_count s" "stat_saves (task_set f t s) = stat_saves s"
  "stat_restores (task_set f t s) = stat_restores s" "stat_discarded (task_set f t s) = stat_discarded s"
  "stat_pool_full (task_set f t s) = stat_pool_full s" "stat_fault (task_set f t s) = stat_fault s"
  "dispatch_active (task_set f t s) = dispatch_active s" "switch_pending (task_set f t s) = switch_pending s"
  by (rule arg_cong [OF task_set_rest, of groups, simplified] arg_cong [OF task_set_rest, of records, simplified] arg_cong [OF
    task_set_rest, of init_callbacks, simplified] arg_cong [OF task_set_rest, of pool, simplified] arg_cong [OF
    task_set_rest, of runtime_stack, simplified] arg_cong [OF task_set_rest, of group_list, simplified] arg_cong [OF
    task_set_rest, of p_ready_first, simplified] arg_cong [OF task_set_rest, of p_ready_tail, simplified] arg_cong [OF
    task_set_rest, of p_ready_next, simplified] arg_cong [OF task_set_rest, of p_current, simplified] arg_cong [OF
    task_set_rest, of stl_initialized, simplified] arg_cong [OF task_set_rest, of native_pending, simplified] arg_cong [OF
    task_set_rest, of generation, simplified] arg_cong [OF task_set_rest, of tick_now, simplified] arg_cong [OF
    task_set_rest, of slice_start, simplified] arg_cong [OF task_set_rest, of pool_head, simplified] arg_cong [OF
    task_set_rest, of pool_tail, simplified] arg_cong [OF task_set_rest, of record_head, simplified] arg_cong [OF
    task_set_rest, of record_tail, simplified] arg_cong [OF task_set_rest, of stat_group_count, simplified] arg_cong [OF
    task_set_rest, of stat_ready_count, simplified] arg_cong [OF task_set_rest, of stat_pool_used, simplified]
    arg_cong [OF task_set_rest, of stat_record_count, simplified] arg_cong [OF task_set_rest, of stat_saves, simplified]
    arg_cong [OF task_set_rest, of stat_restores, simplified] arg_cong [OF task_set_rest, of stat_discarded, simplified]
    arg_cong [OF task_set_rest, of stat_pool_full, simplified] arg_cong [OF task_set_rest, of stat_fault, simplified]
    arg_cong [OF task_set_rest, of dispatch_active, simplified] arg_cong [OF task_set_rest, of switch_pending, simplified])+

lemma snapshot_store_rest:
  "(snapshot_store t frame n offset gap s)\<lparr>tasks := (\<lambda>_. task_zero), records := (\<lambda>_. record_zero), pool := (\<lambda>_. 0), record_tail := 0, pool_tail := 0, stat_pool_used := 0, stat_record_count := 0, stat_saves := 0\<rparr>
   = s\<lparr>tasks := (\<lambda>_. task_zero), records := (\<lambda>_. record_zero), pool := (\<lambda>_. 0), record_tail := 0, pool_tail := 0, stat_pool_used := 0, stat_record_count := 0, stat_saves := 0\<rparr>"
  by (simp add: snapshot_store_def Let_def task_set_def)

lemma snapshot_store_frame [simp]:
  "groups (snapshot_store t frame n offset gap s) = groups s"
  "init_callbacks (snapshot_store t frame n offset gap s) = init_callbacks s"
  "runtime_stack (snapshot_store t frame n offset gap s) = runtime_stack s"
  "group_list (snapshot_store t frame n offset gap s) = group_list s"
  "p_ready_first (snapshot_store t frame n offset gap s) = p_ready_first s"
  "p_ready_tail (snapshot_store t frame n offset gap s) = p_ready_tail s"
  "p_ready_next (snapshot_store t frame n offset gap s) = p_ready_next s"
  "p_current (snapshot_store t frame n offset gap s) = p_current s"
  "stl_initialized (snapshot_store t frame n offset gap s) = stl_initialized s"
  "native_pending (snapshot_store t frame n offset gap s) = native_pending s"
  "generation (snapshot_store t frame n offset gap s) = generation s"
  "tick_now (snapshot_store t frame n offset gap s) = tick_now s"
  "slice_start (snapshot_store t frame n offset gap s) = slice_start s"
  "pool_head (snapshot_store t frame n offset gap s) = pool_head s"
  "record_head (snapshot_store t frame n offset gap s) = record_head s"
  "stat_group_count (snapshot_store t frame n offset gap s) = stat_group_count s"
  "stat_ready_count (snapshot_store t frame n offset gap s) = stat_ready_count s"
  "stat_restores (snapshot_store t frame n offset gap s) = stat_restores s"
  "stat_discarded (snapshot_store t frame n offset gap s) = stat_discarded s"
  "stat_pool_full (snapshot_store t frame n offset gap s) = stat_pool_full s"
  "stat_fault (snapshot_store t frame n offset gap s) = stat_fault s"
  "dispatch_active (snapshot_store t frame n offset gap s) = dispatch_active s"
  "switch_pending (snapshot_store t frame n offset gap s) = switch_pending s"
  by (rule arg_cong [OF snapshot_store_rest, of groups, simplified] arg_cong [OF snapshot_store_rest, of
    init_callbacks, simplified] arg_cong [OF snapshot_store_rest, of runtime_stack, simplified] arg_cong [OF
    snapshot_store_rest, of group_list, simplified] arg_cong [OF snapshot_store_rest, of p_ready_first, simplified]
    arg_cong [OF snapshot_store_rest, of p_ready_tail, simplified] arg_cong [OF snapshot_store_rest, of
    p_ready_next, simplified] arg_cong [OF snapshot_store_rest, of p_current, simplified] arg_cong [OF
    snapshot_store_rest, of stl_initialized, simplified] arg_cong [OF snapshot_store_rest, of native_pending, simplified]
    arg_cong [OF snapshot_store_rest, of generation, simplified] arg_cong [OF snapshot_store_rest, of
    tick_now, simplified] arg_cong [OF snapshot_store_rest, of slice_start, simplified] arg_cong [OF
    snapshot_store_rest, of pool_head, simplified] arg_cong [OF snapshot_store_rest, of record_head, simplified]
    arg_cong [OF snapshot_store_rest, of stat_group_count, simplified] arg_cong [OF snapshot_store_rest, of
    stat_ready_count, simplified] arg_cong [OF snapshot_store_rest, of stat_restores, simplified] arg_cong [OF
    snapshot_store_rest, of stat_discarded, simplified] arg_cong [OF snapshot_store_rest, of stat_pool_full, simplified]
    arg_cong [OF snapshot_store_rest, of stat_fault, simplified] arg_cong [OF snapshot_store_rest, of
    dispatch_active, simplified] arg_cong [OF snapshot_store_rest, of switch_pending, simplified])+

lemma snapshot_store_simps [simp]:
  "tasks (snapshot_store t frame n offset gap s) = (tasks s)(t := (tasks s t)\<lparr>rt_record := Some (record_tail s)\<rparr>)"
  "records (snapshot_store t frame n offset gap s) = (records s)(record_tail s :=
     \<lparr>sr_owner = rt_owner (tasks s t), sr_task_index = t, sr_offset = offset, sr_words = n, sr_charge = n + gap, sr_consumed = False\<rparr>)"
  "pool (snapshot_store t frame n offset gap s) = copy_words (pool s) offset frame n"
  "record_tail (snapshot_store t frame n offset gap s) = (record_tail s + 1) mod M"
  "pool_tail (snapshot_store t frame n offset gap s) = (offset + n) mod P"
  "stat_pool_used (snapshot_store t frame n offset gap s) = stat_pool_used s + (n + gap)"
  "stat_record_count (snapshot_store t frame n offset gap s) = Suc (stat_record_count s)"
  by (simp_all add: snapshot_store_def Let_def)

text \<open>Where a snapshot of \<open>n\<close> words may be placed: behind the newest one, or at 0 with the stranded end charged.\<close>

definition placement :: "nat \<Rightarrow> nat \<Rightarrow> nat \<Rightarrow> stl \<Rightarrow> bool" where
  "placement n offset gap s \<longleftrightarrow> stat_record_count s \<noteq> M \<and> n + gap \<le> P - stat_pool_used s \<and> offset + n \<le> P
     \<and> (gap = 0 \<and> offset = pool_tail s \<or> gap = P - pool_tail s \<and> offset = 0)"

lemma spans_end: "spans a rs b \<Longrightarrow> a < P \<Longrightarrow> b < P"
  by (induction a rs b rule: spans.induct) auto

lemma store_slots:
  assumes "pool_inv s"
  shows "record_slots (snapshot_store t frame n offset gap s) = record_slots s @ [record_tail s]"
  using assms by (intro record_slots_grow) (simp_all add: pool_inv_def)

lemma store_recs:
  assumes "pool_inv s" "stat_record_count s \<noteq> M"
  shows "recs (snapshot_store t frame n offset gap s) = recs s @
    [\<lparr>sr_owner = rt_owner (tasks s t), sr_task_index = t, sr_offset = offset, sr_words = n, sr_charge = n + gap, sr_consumed = False\<rparr>]"
  using record_tail_fresh [OF assms] by (auto simp: recs_def store_slots [OF assms(1)])

lemma snapshot_store_inv:
  assumes "pool_inv s" "placement n offset gap s" "0 < n"
  shows "pool_inv (snapshot_store t frame n offset gap s)"
proof -
  have c: "stat_record_count s \<noteq> M" using assms(2) by (simp add: placement_def)
  have tail: "pool_tail s < P" using assms(1) spans_end by (auto simp: pool_inv_def)
  have "record_tail s = (record_head s + stat_record_count s) mod M" using assms(1) by (simp add: pool_inv_def)
  then have rt: "(record_tail s + 1) mod M = (record_head s + Suc (stat_record_count s)) mod M" by (simp add: mod_Suc_eq)
  have sp: "spans (pool_head s) (recs (snapshot_store t frame n offset gap s)) ((offset + n) mod P)"
    unfolding store_recs [OF assms(1) c] spans_append using assms
    by (intro exI [of _ "pool_tail s"]) (auto simp: pool_inv_def placement_def)
  have "stat_pool_used s = charges (recs s)" "stat_pool_used s \<le> P" using assms(1) by (simp_all add: pool_inv_def)
  moreover have "n + gap \<le> P - stat_pool_used s" using assms(2) by (simp add: placement_def)
  ultimately have "charges (recs s) + (n + gap) \<le> P" by linarith
  then show ?thesis
    using assms c rt sp by (simp add: pool_inv_def placement_def store_recs [OF assms(1) c] del: spans.simps)
qed

text \<open>A save writes no word of a live snapshot, and its own words are the frame's.\<close>

lemma snapshot_store_keeps:
  assumes "pool_inv s" "placement n offset gap s" "0 < n" "i \<in> set (record_slots s)"
    and "sr_offset (records s i) \<le> p" "p < sr_offset (records s i) + sr_words (records s i)"
  shows "pool (snapshot_store t frame n offset gap s) p = pool s p"
proof -
  let ?s = "snapshot_store t frame n offset gap s"
  have c: "stat_record_count s \<noteq> M" using assms(2) by (simp add: placement_def)
  have inv: "pool_inv ?s" by (rule snapshot_store_inv [OF assms(1-3)])
  obtain j where j: "j < stat_record_count s" "recs s ! j = records s i"
    using assms(4) by (auto simp: recs_def in_set_conv_nth)
  have "\<not> (offset \<le> p \<and> p < offset + n)"
  proof
    assume new: "offset \<le> p \<and> p < offset + n"
    have "spans (pool_head ?s) (recs ?s) (pool_tail ?s)" "pool_head ?s < P" "charges (recs ?s) \<le> P"
      using inv by (simp_all add: pool_inv_def)
    then show False
      using spans_disjoint [of "pool_head ?s" "recs ?s" "pool_tail ?s" j "stat_record_count s" p] j new assms(5,6)
      by (simp add: store_recs [OF assms(1) c] nth_append)
  qed
  then show ?thesis by (auto simp: copy_words_def)
qed

lemma snapshot_store_frame_words: "k < n \<Longrightarrow> pool (snapshot_store t frame n offset gap s) (offset + k) = frame k"
  by (simp add: copy_words_def)

text \<open>The outcomes of a save: room is found, or the running task keeps its stack.\<close>

lemma snapshot_save_cases:
  assumes "pool_inv s" "stat_fault s = SECTION_STL_OK"
  obtains (full) "snapshot_save t frame n s = (False, (records_reap s)\<lparr>stat_pool_full := stat_pool_full s + 1\<rparr>)"
  | (saved) offset gap where "snapshot_save t frame n s = (True, snapshot_store t frame n offset gap (records_reap s))"
      "placement n offset gap (records_reap s)"
proof -
  define s1 where "s1 = records_reap s"
  have r: "pool_inv s1" "stat_fault s1 = SECTION_STL_OK"
    using records_reap_ok [OF assms(1)] assms(2) by (auto simp: reaped_def s1_def)
  have b: "stat_pool_used s1 \<le> P" "pool_head s1 < P" "pool_tail s1 < P" using r(1) spans_end by (auto simp: pool_inv_def)
  have f: "(records_reap s)\<lparr>stat_pool_full := stat_pool_full s + 1\<rparr> = snd (pool_is_full s1)" by (simp add: pool_is_full_def s1_def)
  have e: "snapshot_save t frame n s =
     (if stat_record_count s1 = M \<or> n > P - stat_pool_used s1 then pool_is_full s1
      else if pool_tail s1 \<ge> pool_head s1 then
        (if n > P - pool_tail s1 then
           (if n > pool_head s1 \<or> P - pool_tail s1 > P - stat_pool_used s1 - n then pool_is_full s1
            else (True, snapshot_store t frame n 0 (P - pool_tail s1) s1))
         else (True, snapshot_store t frame n (pool_tail s1) 0 s1))
      else if n > pool_head s1 - pool_tail s1 then pool_is_full s1
      else (True, snapshot_store t frame n (pool_tail s1) 0 s1))"
    using r(2) by (simp add: snapshot_save_def Let_def s1_def)
  consider (a) "snapshot_save t frame n s = pool_is_full s1"
    | (b) "snapshot_save t frame n s = (True, snapshot_store t frame n 0 (P - pool_tail s1) s1)"
        "stat_record_count s1 \<noteq> M" "n \<le> P - stat_pool_used s1" "P - pool_tail s1 \<le> P - stat_pool_used s1 - n" "n \<le> pool_head s1"
    | (c) "snapshot_save t frame n s = (True, snapshot_store t frame n (pool_tail s1) 0 s1)"
        "stat_record_count s1 \<noteq> M" "n \<le> P - stat_pool_used s1" "n \<le> P - pool_tail s1 \<or> n \<le> pool_head s1 - pool_tail s1"
    unfolding e by (smt (verit) not_less)
  then show ?thesis
  proof cases
    case a
    then show ?thesis using full f by (simp add: pool_is_full_def)
  next
    case b
    then have "placement n 0 (P - pool_tail s1) s1" using \<open>pool_head s1 < P\<close> by (simp add: placement_def)
    then show ?thesis using saved b(1) by (simp add: s1_def)
  next
    case c
    then have "placement n (pool_tail s1) 0 s1" using b by (auto simp: placement_def)
    then show ?thesis using saved c(1) by (simp add: s1_def)
  qed
qed

end
