(* ===== verification/Stl_Ready.thy ===== *)
theory Stl_Ready
  imports Stl_Pool
begin

text \<open>
  The ready queue of the managed runtime: its head, tail and links describe a list of task slots, and pushing, taking and
  cancelling are the list operations on it.
\<close>

section \<open>What each operation leaves alone\<close>

lemma ready_push_rest:
  "(ready_push t s)\<lparr>tasks := (\<lambda>_. task_zero), p_ready_first := None, p_ready_tail := None, p_ready_next := (\<lambda>_. None), stat_ready_count := 0\<rparr>
   = s\<lparr>tasks := (\<lambda>_. task_zero), p_ready_first := None, p_ready_tail := None, p_ready_next := (\<lambda>_. None), stat_ready_count := 0\<rparr>"
  by (simp add: ready_push_def Let_def task_set_def split: option.split)

lemma ready_push_frame [simp]:
  "groups (ready_push t s) = groups s" "records (ready_push t s) = records s"
  "init_callbacks (ready_push t s) = init_callbacks s" "pool (ready_push t s) = pool s"
  "runtime_stack (ready_push t s) = runtime_stack s" "group_list (ready_push t s) = group_list s"
  "p_current (ready_push t s) = p_current s" "stl_initialized (ready_push t s) = stl_initialized s"
  "native_pending (ready_push t s) = native_pending s" "generation (ready_push t s) = generation s"
  "tick_now (ready_push t s) = tick_now s" "slice_start (ready_push t s) = slice_start s"
  "pool_head (ready_push t s) = pool_head s" "pool_tail (ready_push t s) = pool_tail s"
  "record_head (ready_push t s) = record_head s" "record_tail (ready_push t s) = record_tail s"
  "stat_group_count (ready_push t s) = stat_group_count s" "stat_pool_used (ready_push t s) = stat_pool_used s"
  "stat_record_count (ready_push t s) = stat_record_count s" "stat_saves (ready_push t s) = stat_saves s"
  "stat_restores (ready_push t s) = stat_restores s" "stat_discarded (ready_push t s) = stat_discarded s"
  "stat_pool_full (ready_push t s) = stat_pool_full s" "stat_fault (ready_push t s) = stat_fault s"
  "dispatch_active (ready_push t s) = dispatch_active s" "switch_pending (ready_push t s) = switch_pending s"
  by (rule arg_cong [OF ready_push_rest, of groups, simplified] arg_cong [OF ready_push_rest, of records, simplified]
    arg_cong [OF ready_push_rest, of init_callbacks, simplified] arg_cong [OF ready_push_rest, of pool, simplified]
    arg_cong [OF ready_push_rest, of runtime_stack, simplified] arg_cong [OF ready_push_rest, of group_list, simplified]
    arg_cong [OF ready_push_rest, of p_current, simplified] arg_cong [OF ready_push_rest, of stl_initialized, simplified]
    arg_cong [OF ready_push_rest, of native_pending, simplified] arg_cong [OF ready_push_rest, of generation, simplified]
    arg_cong [OF ready_push_rest, of tick_now, simplified] arg_cong [OF ready_push_rest, of slice_start, simplified]
    arg_cong [OF ready_push_rest, of pool_head, simplified] arg_cong [OF ready_push_rest, of pool_tail, simplified]
    arg_cong [OF ready_push_rest, of record_head, simplified] arg_cong [OF ready_push_rest, of record_tail, simplified]
    arg_cong [OF ready_push_rest, of stat_group_count, simplified] arg_cong [OF ready_push_rest, of
    stat_pool_used, simplified] arg_cong [OF ready_push_rest, of stat_record_count, simplified] arg_cong [OF
    ready_push_rest, of stat_saves, simplified] arg_cong [OF ready_push_rest, of stat_restores, simplified] arg_cong [OF
    ready_push_rest, of stat_discarded, simplified] arg_cong [OF ready_push_rest, of stat_pool_full, simplified]
    arg_cong [OF ready_push_rest, of stat_fault, simplified] arg_cong [OF ready_push_rest, of dispatch_active, simplified]
    arg_cong [OF ready_push_rest, of switch_pending, simplified])+

lemma ready_push_front_rest:
  "(ready_push_front t s)\<lparr>tasks := (\<lambda>_. task_zero), p_ready_first := None, p_ready_tail := None, p_ready_next := (\<lambda>_. None), stat_ready_count := 0\<rparr>
   = s\<lparr>tasks := (\<lambda>_. task_zero), p_ready_first := None, p_ready_tail := None, p_ready_next := (\<lambda>_. None), stat_ready_count := 0\<rparr>"
  by (simp add: ready_push_front_def Let_def task_set_def)

lemma ready_push_front_frame [simp]:
  "groups (ready_push_front t s) = groups s" "records (ready_push_front t s) = records s"
  "init_callbacks (ready_push_front t s) = init_callbacks s" "pool (ready_push_front t s) = pool s"
  "runtime_stack (ready_push_front t s) = runtime_stack s" "group_list (ready_push_front t s) = group_list s"
  "p_current (ready_push_front t s) = p_current s" "stl_initialized (ready_push_front t s) = stl_initialized s"
  "native_pending (ready_push_front t s) = native_pending s" "generation (ready_push_front t s) = generation s"
  "tick_now (ready_push_front t s) = tick_now s" "slice_start (ready_push_front t s) = slice_start s"
  "pool_head (ready_push_front t s) = pool_head s" "pool_tail (ready_push_front t s) = pool_tail s"
  "record_head (ready_push_front t s) = record_head s" "record_tail (ready_push_front t s) = record_tail s"
  "stat_group_count (ready_push_front t s) = stat_group_count s" "stat_pool_used (ready_push_front t s) = stat_pool_used s"
  "stat_record_count (ready_push_front t s) = stat_record_count s" "stat_saves (ready_push_front t s) = stat_saves s"
  "stat_restores (ready_push_front t s) = stat_restores s" "stat_discarded (ready_push_front t s) = stat_discarded s"
  "stat_pool_full (ready_push_front t s) = stat_pool_full s" "stat_fault (ready_push_front t s) = stat_fault s"
  "dispatch_active (ready_push_front t s) = dispatch_active s" "switch_pending (ready_push_front t s) = switch_pending s"
  by (rule arg_cong [OF ready_push_front_rest, of groups, simplified] arg_cong [OF ready_push_front_rest, of records, simplified]
    arg_cong [OF ready_push_front_rest, of init_callbacks, simplified] arg_cong [OF ready_push_front_rest, of
    pool, simplified] arg_cong [OF ready_push_front_rest, of runtime_stack, simplified] arg_cong [OF
    ready_push_front_rest, of group_list, simplified] arg_cong [OF ready_push_front_rest, of p_current, simplified]
    arg_cong [OF ready_push_front_rest, of stl_initialized, simplified] arg_cong [OF ready_push_front_rest, of
    native_pending, simplified] arg_cong [OF ready_push_front_rest, of generation, simplified] arg_cong [OF
    ready_push_front_rest, of tick_now, simplified] arg_cong [OF ready_push_front_rest, of slice_start, simplified]
    arg_cong [OF ready_push_front_rest, of pool_head, simplified] arg_cong [OF ready_push_front_rest, of
    pool_tail, simplified] arg_cong [OF ready_push_front_rest, of record_head, simplified] arg_cong [OF
    ready_push_front_rest, of record_tail, simplified] arg_cong [OF ready_push_front_rest, of
    stat_group_count, simplified] arg_cong [OF ready_push_front_rest, of stat_pool_used, simplified] arg_cong [OF
    ready_push_front_rest, of stat_record_count, simplified] arg_cong [OF ready_push_front_rest, of
    stat_saves, simplified] arg_cong [OF ready_push_front_rest, of stat_restores, simplified] arg_cong [OF
    ready_push_front_rest, of stat_discarded, simplified] arg_cong [OF ready_push_front_rest, of
    stat_pool_full, simplified] arg_cong [OF ready_push_front_rest, of stat_fault, simplified] arg_cong [OF
    ready_push_front_rest, of dispatch_active, simplified] arg_cong [OF ready_push_front_rest, of
    switch_pending, simplified])+

lemma ready_pop_rest:
  "(snd (ready_pop s))\<lparr>tasks := (\<lambda>_. task_zero), p_ready_first := None, p_ready_tail := None, p_ready_next := (\<lambda>_. None), stat_ready_count := 0\<rparr>
   = s\<lparr>tasks := (\<lambda>_. task_zero), p_ready_first := None, p_ready_tail := None, p_ready_next := (\<lambda>_. None), stat_ready_count := 0\<rparr>"
  by (simp add: ready_pop_def Let_def task_set_def split: option.split)

lemma ready_pop_frame [simp]:
  "groups (snd (ready_pop s)) = groups s" "records (snd (ready_pop s)) = records s"
  "init_callbacks (snd (ready_pop s)) = init_callbacks s" "pool (snd (ready_pop s)) = pool s"
  "runtime_stack (snd (ready_pop s)) = runtime_stack s" "group_list (snd (ready_pop s)) = group_list s"
  "p_current (snd (ready_pop s)) = p_current s" "stl_initialized (snd (ready_pop s)) = stl_initialized s"
  "native_pending (snd (ready_pop s)) = native_pending s" "generation (snd (ready_pop s)) = generation s"
  "tick_now (snd (ready_pop s)) = tick_now s" "slice_start (snd (ready_pop s)) = slice_start s"
  "pool_head (snd (ready_pop s)) = pool_head s" "pool_tail (snd (ready_pop s)) = pool_tail s"
  "record_head (snd (ready_pop s)) = record_head s" "record_tail (snd (ready_pop s)) = record_tail s"
  "stat_group_count (snd (ready_pop s)) = stat_group_count s" "stat_pool_used (snd (ready_pop s)) = stat_pool_used s"
  "stat_record_count (snd (ready_pop s)) = stat_record_count s" "stat_saves (snd (ready_pop s)) = stat_saves s"
  "stat_restores (snd (ready_pop s)) = stat_restores s" "stat_discarded (snd (ready_pop s)) = stat_discarded s"
  "stat_pool_full (snd (ready_pop s)) = stat_pool_full s" "stat_fault (snd (ready_pop s)) = stat_fault s"
  "dispatch_active (snd (ready_pop s)) = dispatch_active s" "switch_pending (snd (ready_pop s)) = switch_pending s"
  by (rule arg_cong [OF ready_pop_rest, of groups, simplified] arg_cong [OF ready_pop_rest, of records, simplified] arg_cong [OF
    ready_pop_rest, of init_callbacks, simplified] arg_cong [OF ready_pop_rest, of pool, simplified] arg_cong [OF
    ready_pop_rest, of runtime_stack, simplified] arg_cong [OF ready_pop_rest, of group_list, simplified] arg_cong [OF
    ready_pop_rest, of p_current, simplified] arg_cong [OF ready_pop_rest, of stl_initialized, simplified] arg_cong [OF
    ready_pop_rest, of native_pending, simplified] arg_cong [OF ready_pop_rest, of generation, simplified] arg_cong [OF
    ready_pop_rest, of tick_now, simplified] arg_cong [OF ready_pop_rest, of slice_start, simplified] arg_cong [OF
    ready_pop_rest, of pool_head, simplified] arg_cong [OF ready_pop_rest, of pool_tail, simplified] arg_cong [OF
    ready_pop_rest, of record_head, simplified] arg_cong [OF ready_pop_rest, of record_tail, simplified] arg_cong [OF
    ready_pop_rest, of stat_group_count, simplified] arg_cong [OF ready_pop_rest, of stat_pool_used, simplified]
    arg_cong [OF ready_pop_rest, of stat_record_count, simplified] arg_cong [OF ready_pop_rest, of stat_saves, simplified]
    arg_cong [OF ready_pop_rest, of stat_restores, simplified] arg_cong [OF ready_pop_rest, of stat_discarded, simplified]
    arg_cong [OF ready_pop_rest, of stat_pool_full, simplified] arg_cong [OF ready_pop_rest, of stat_fault, simplified]
    arg_cong [OF ready_pop_rest, of dispatch_active, simplified] arg_cong [OF ready_pop_rest, of
    switch_pending, simplified])+

lemma ready_remove_loop_rest:
  "(ready_remove_loop n h old q p s)\<lparr>tasks := (\<lambda>_. task_zero), p_ready_first := None, p_ready_tail := None, p_ready_next := (\<lambda>_. None), stat_ready_count := 0\<rparr>
   = s\<lparr>tasks := (\<lambda>_. task_zero), p_ready_first := None, p_ready_tail := None, p_ready_next := (\<lambda>_. None), stat_ready_count := 0\<rparr>"
  by (induction n arbitrary: q p s) (simp_all add: Let_def task_set_def split: option.split)

lemma ready_remove_rest:
  "(ready_remove h old s)\<lparr>tasks := (\<lambda>_. task_zero), p_ready_first := None, p_ready_tail := None, p_ready_next := (\<lambda>_. None), stat_ready_count := 0\<rparr>
   = s\<lparr>tasks := (\<lambda>_. task_zero), p_ready_first := None, p_ready_tail := None, p_ready_next := (\<lambda>_. None), stat_ready_count := 0\<rparr>"
  by (simp add: ready_remove_def ready_remove_loop_rest)

lemma ready_remove_frame [simp]:
  "groups (ready_remove h old s) = groups s" "records (ready_remove h old s) = records s"
  "init_callbacks (ready_remove h old s) = init_callbacks s" "pool (ready_remove h old s) = pool s"
  "runtime_stack (ready_remove h old s) = runtime_stack s" "group_list (ready_remove h old s) = group_list s"
  "p_current (ready_remove h old s) = p_current s" "stl_initialized (ready_remove h old s) = stl_initialized s"
  "native_pending (ready_remove h old s) = native_pending s" "generation (ready_remove h old s) = generation s"
  "tick_now (ready_remove h old s) = tick_now s" "slice_start (ready_remove h old s) = slice_start s"
  "pool_head (ready_remove h old s) = pool_head s" "pool_tail (ready_remove h old s) = pool_tail s"
  "record_head (ready_remove h old s) = record_head s" "record_tail (ready_remove h old s) = record_tail s"
  "stat_group_count (ready_remove h old s) = stat_group_count s" "stat_pool_used (ready_remove h old s) = stat_pool_used s"
  "stat_record_count (ready_remove h old s) = stat_record_count s" "stat_saves (ready_remove h old s) = stat_saves s"
  "stat_restores (ready_remove h old s) = stat_restores s" "stat_discarded (ready_remove h old s) = stat_discarded s"
  "stat_pool_full (ready_remove h old s) = stat_pool_full s" "stat_fault (ready_remove h old s) = stat_fault s"
  "dispatch_active (ready_remove h old s) = dispatch_active s" "switch_pending (ready_remove h old s) = switch_pending s"
  by (rule arg_cong [OF ready_remove_rest, of groups, simplified] arg_cong [OF ready_remove_rest, of records, simplified]
    arg_cong [OF ready_remove_rest, of init_callbacks, simplified] arg_cong [OF ready_remove_rest, of pool, simplified]
    arg_cong [OF ready_remove_rest, of runtime_stack, simplified] arg_cong [OF ready_remove_rest, of
    group_list, simplified] arg_cong [OF ready_remove_rest, of p_current, simplified] arg_cong [OF ready_remove_rest, of
    stl_initialized, simplified] arg_cong [OF ready_remove_rest, of native_pending, simplified] arg_cong [OF
    ready_remove_rest, of generation, simplified] arg_cong [OF ready_remove_rest, of tick_now, simplified] arg_cong [OF
    ready_remove_rest, of slice_start, simplified] arg_cong [OF ready_remove_rest, of pool_head, simplified] arg_cong [OF
    ready_remove_rest, of pool_tail, simplified] arg_cong [OF ready_remove_rest, of record_head, simplified] arg_cong [OF
    ready_remove_rest, of record_tail, simplified] arg_cong [OF ready_remove_rest, of stat_group_count, simplified]
    arg_cong [OF ready_remove_rest, of stat_pool_used, simplified] arg_cong [OF ready_remove_rest, of
    stat_record_count, simplified] arg_cong [OF ready_remove_rest, of stat_saves, simplified] arg_cong [OF
    ready_remove_rest, of stat_restores, simplified] arg_cong [OF ready_remove_rest, of stat_discarded, simplified]
    arg_cong [OF ready_remove_rest, of stat_pool_full, simplified] arg_cong [OF ready_remove_rest, of
    stat_fault, simplified] arg_cong [OF ready_remove_rest, of dispatch_active, simplified] arg_cong [OF
    ready_remove_rest, of switch_pending, simplified])+

section \<open>The list behind the pointers\<close>

definition ready_is :: "stl \<Rightarrow> nat list \<Rightarrow> bool" where
  "ready_is s xs \<longleftrightarrow> list_at (p_ready_next s) (p_ready_first s) (p_ready_tail s) xs \<and> set xs \<subseteq> {..<SECTION_STL_MAX_TASKS}
     \<and> stat_ready_count s = length xs \<and> (\<forall>t. rt_queued (tasks s t) \<longleftrightarrow> t \<in> set xs)"

lemma ready_is_cong:
  assumes "p_ready_next s' = p_ready_next s" "p_ready_first s' = p_ready_first s" "p_ready_tail s' = p_ready_tail s"
    and "stat_ready_count s' = stat_ready_count s" "\<And>t. rt_queued (tasks s' t) = rt_queued (tasks s t)"
  shows "ready_is s' xs \<longleftrightarrow> ready_is s xs"
  using assms by (simp add: ready_is_def)

lemma ready_is_updates [simp]:
  "ready_is (s\<lparr>p_current := v\<rparr>) xs \<longleftrightarrow> ready_is s xs"
  "ready_is (s\<lparr>slice_start := w\<rparr>) xs \<longleftrightarrow> ready_is s xs"
  by (simp_all add: ready_is_def)

lemma ready_is_distinct: "ready_is s xs \<Longrightarrow> distinct xs"
  by (simp add: ready_is_def list_at_def)

lemma ready_is_length: "ready_is s xs \<Longrightarrow> length xs \<le> SECTION_STL_MAX_TASKS"
  using card_mono [of "{..<SECTION_STL_MAX_TASKS}" "set xs"] distinct_card [of xs]
  by (simp add: ready_is_distinct) (simp add: ready_is_def)

lemma ready_is_unique: "ready_is s xs \<Longrightarrow> ready_is s ys \<Longrightarrow> xs = ys"
  using chain_unique by (auto simp: ready_is_def list_at_def chain_segment [symmetric])

lemma ready_is_first: "ready_is s xs \<Longrightarrow> p_ready_first s = (case xs of [] \<Rightarrow> None | x # _ \<Rightarrow> Some x)"
  by (cases xs) (auto simp: ready_is_def list_at_def)

section \<open>Pushing and taking\<close>

lemma tasks_ready_push [simp]: "tasks (ready_push t s) = (tasks s)(t := (tasks s t)\<lparr>rt_queued := True\<rparr>)"
proof (cases "rt_queued (tasks s t)")
  case True
  then have "(tasks s t)\<lparr>rt_queued := True\<rparr> = tasks s t" by (cases "tasks s t") simp
  then show ?thesis using True by (simp add: ready_push_def fun_upd_idem)
next
  case False
  then show ?thesis by (simp add: ready_push_def Let_def split: option.split)
qed

lemma ready_push_is:
  assumes "ready_is s xs" "t < SECTION_STL_MAX_TASKS" "t \<notin> set xs"
  shows "ready_is (ready_push t s) (xs @ [t])"
proof -
  have l: "list_at (p_ready_next s) (p_ready_first s) (p_ready_tail s) xs" and q: "\<not> rt_queued (tasks s t)"
    using assms by (simp_all add: ready_is_def)
  have e: "list_append (p_ready_first s) (p_ready_tail s) (p_ready_next s) t
      = (p_ready_first (ready_push t s), p_ready_tail (ready_push t s), p_ready_next (ready_push t s))"
    using l q by (cases xs) (auto simp: list_append_def ready_push_def Let_def list_at_def split: option.split)
  have "list_at (p_ready_next (ready_push t s)) (p_ready_first (ready_push t s)) (p_ready_tail (ready_push t s)) (xs @ [t])"
    using list_append_at [OF l assms(3) e] by blast
  moreover have "stat_ready_count (ready_push t s) = stat_ready_count s + 1"
    using q by (simp add: ready_push_def Let_def split: option.split)
  ultimately show ?thesis using assms by (auto simp: ready_is_def)
qed

lemma tasks_ready_push_front [simp]: "tasks (ready_push_front t s) = (tasks s)(t := (tasks s t)\<lparr>rt_queued := True\<rparr>)"
proof (cases "rt_queued (tasks s t)")
  case True
  then have "(tasks s t)\<lparr>rt_queued := True\<rparr> = tasks s t" by (cases "tasks s t") simp
  then show ?thesis using True by (simp add: ready_push_front_def fun_upd_idem)
next
  case False
  then show ?thesis by (simp add: ready_push_front_def Let_def)
qed

lemma ready_push_front_is:
  assumes "ready_is s xs" "t < SECTION_STL_MAX_TASKS" "t \<notin> set xs"
  shows "ready_is (ready_push_front t s) (t # xs)"
proof -
  have q: "\<not> rt_queued (tasks s t)" using assms by (simp add: ready_is_def)
  have "list_at (p_ready_next (ready_push_front t s)) (p_ready_first (ready_push_front t s)) (p_ready_tail (ready_push_front t s)) (t # xs)"
    using assms q by (auto simp: ready_is_def list_at_def ready_push_front_def Let_def segment_update_other)
  then show ?thesis using assms q by (auto simp: ready_is_def ready_push_front_def Let_def)
qed

lemma ready_pop_Nil: "ready_is s [] \<Longrightarrow> ready_pop s = (None, s)"
  by (simp add: ready_is_def list_at_def ready_pop_def)

lemma ready_pop_Cons:
  assumes "ready_is s (t # xs)"
  shows "\<exists>s1. ready_pop s = (Some t, s1) \<and> ready_is s1 xs \<and> tasks s1 = (tasks s)(t := (tasks s t)\<lparr>rt_queued := False\<rparr>)"
proof -
  have l: "p_ready_first s = Some t" "segment (p_ready_next s) (p_ready_next s t) xs None" "t \<notin> set xs" "distinct xs"
      "p_ready_tail s = Some (last (t # xs))"
    using assms by (auto simp: ready_is_def list_at_def)
  then have "p_ready_next s t = None \<longleftrightarrow> xs = []" by (cases xs) auto
  then show ?thesis using assms l by (auto simp: ready_pop_def Let_def ready_is_def list_at_def segment_update_other)
qed

section \<open>Cancelling\<close>

definition cancels :: "stl_handle \<Rightarrow> bool \<Rightarrow> resident_task \<Rightarrow> bool" where
  "cancels h old x \<longleftrightarrow> identity_equal (rt_owner x) h \<and> (old \<or> rt_state x = TASK_NEW)"

lemma remove_loop_is:
  assumes "ready_is s (ys @ xs)" "length xs \<le> n"
    and "q = (if ys = [] then None else Some (last ys))" "p = (case xs of [] \<Rightarrow> None | x # _ \<Rightarrow> Some x)"
  shows "ready_is (ready_remove_loop n h old q p s) (ys @ filter (\<lambda>t. \<not> cancels h old (tasks s t)) xs)
    \<and> tasks (ready_remove_loop n h old q p s) = (\<lambda>t. if t \<in> set xs \<and> cancels h old (tasks s t)
        then (tasks s t)\<lparr>rt_queued := False, rt_state := TASK_SLEEPING\<rparr> else tasks s t)"
  using assms
proof (induction n arbitrary: s ys xs q p)
  case 0
  then show ?case by simp
next
  case (Suc n)
  show ?case
  proof (cases xs)
    case Nil
    then show ?thesis using Suc.prems by simp
  next
    case (Cons t zs)
    have l: "segment (p_ready_next s) (p_ready_first s) (ys @ t # zs) None" "distinct (ys @ t # zs)"
        "p_ready_tail s = Some (last (ys @ t # zs))"
      using Suc.prems(1) Cons by (auto simp: ready_is_def list_at_def)
    then have nx: "p_ready_next s t = (case zs of [] \<Rightarrow> None | x # _ \<Rightarrow> Some x)"
      by (cases zs) (auto simp: segment_append)
    show ?thesis
    proof (cases "cancels h old (tasks s t)")
      case False
      have "ready_remove_loop (Suc n) h old q p s = ready_remove_loop n h old (Some t) (p_ready_next s t) s"
        unfolding Suc.prems(4) Cons using False [unfolded cancels_def] by (simp only: ready_remove_loop.simps Let_def option.case list.case if_False simp_thms)
      then show ?thesis
        using Suc.IH [of s "ys @ [t]" zs "Some t" "p_ready_next s t"] Suc.prems(1,2) Cons nx False by auto
    next
      case True
      define s1 where "s1 = (case q of None \<Rightarrow> s\<lparr>p_ready_first := p_ready_next s t\<rparr>
          | Some r \<Rightarrow> s\<lparr>p_ready_next := (p_ready_next s)(r := p_ready_next s t)\<rparr>)"
      define s2 where "s2 = (if p_ready_tail s1 = Some t then s1\<lparr>p_ready_tail := q\<rparr> else s1)"
      define s3 where "s3 = task_set (\<lambda>x. x\<lparr>rt_queued := False, rt_state := TASK_SLEEPING\<rparr>) t
          (s2\<lparr>p_ready_next := (p_ready_next s2)(t := None)\<rparr>)"
      define s4 where "s4 = s3\<lparr>stat_ready_count := stat_ready_count s3 - 1\<rparr>"
      have e: "ready_remove_loop (Suc n) h old q p s = ready_remove_loop n h old q (p_ready_next s t) s4"
        unfolding Suc.prems(4) Cons s4_def s3_def s2_def s1_def using True [unfolded cancels_def]
        by (simp only: ready_remove_loop.simps Let_def option.case list.case if_True simp_thms)
      have t4: "tasks s4 = (tasks s)(t := (tasks s t)\<lparr>rt_queued := False, rt_state := TASK_SLEEPING\<rparr>)"
        "stat_ready_count s4 = stat_ready_count s - 1"
        by (simp_all add: s4_def s3_def s2_def s1_def split: option.split)
      have "list_at (p_ready_next s4) (p_ready_first s4) (p_ready_tail s4) (ys @ zs)"
      proof (cases "ys = []")
        case True
        have "last (t # zs) = t \<longleftrightarrow> zs = []" using l(2) by (cases zs) (auto dest: last_in_set)
        then show ?thesis using l nx Suc.prems(3) True
          by (auto simp: s4_def s3_def s2_def s1_def list_at_def segment_update_other)
      next
        case False
        then have q: "q = Some (last ys)" using Suc.prems(3) by simp
        have "segment (p_ready_next s) (p_ready_first s) ys (Some t)" "segment (p_ready_next s) (p_ready_next s t) zs None"
          using l(1) by (auto simp: segment_append)
        moreover have "last ys \<notin> set zs"
          using l(2) last_in_set [OF False] unfolding distinct_append by (metis IntI empty_iff list.set_intros(2))
        ultimately have a: "segment ((p_ready_next s)(last ys := p_ready_next s t)) (p_ready_first s) ys (p_ready_next s t)"
            "segment ((p_ready_next s)(last ys := p_ready_next s t)) (p_ready_next s t) zs None"
          using l(2) False by (auto intro: segment_update_last simp: segment_update_other)
        then have "segment (((p_ready_next s)(last ys := p_ready_next s t))(t := None)) (p_ready_first s) (ys @ zs) None"
          using l(2) by (auto simp: segment_append segment_update_other)
        moreover have "last (ys @ t # zs) = t \<longleftrightarrow> zs = []" using l(2) by (auto dest: last_in_set)
        ultimately show ?thesis using l q False
          by (auto simp: s4_def s3_def s2_def s1_def list_at_def)
      qed
      then have r4: "ready_is s4 (ys @ zs)" using Suc.prems(1) Cons t4 l(2) by (auto simp: ready_is_def)
      have same: "filter (\<lambda>u. \<not> cancels h old (tasks s4 u)) zs = filter (\<lambda>u. \<not> cancels h old (tasks s u)) zs"
        using l(2) t4(1) by (intro filter_cong) auto
      have "t \<notin> set zs" using l(2) by simp
      then have f: "(\<lambda>u. if u \<in> set zs \<and> cancels h old (tasks s4 u)
            then (tasks s4 u)\<lparr>rt_queued := False, rt_state := TASK_SLEEPING\<rparr> else tasks s4 u)
          = (\<lambda>u. if u \<in> set xs \<and> cancels h old (tasks s u)
            then (tasks s u)\<lparr>rt_queued := False, rt_state := TASK_SLEEPING\<rparr> else tasks s u)"
        using Cons True t4(1) by (auto simp: fun_eq_iff)
      have g: "filter (\<lambda>u. \<not> cancels h old (tasks s u)) xs = filter (\<lambda>u. \<not> cancels h old (tasks s4 u)) zs"
        using same True Cons by simp
      show ?thesis
        unfolding e g f [symmetric] using Suc.IH [OF r4, of q "p_ready_next s t"] Suc.prems(2,3) Cons nx by simp
    qed
  qed
qed

lemma ready_remove_is:
  assumes "ready_is s xs"
  shows "ready_is (ready_remove h old s) (filter (\<lambda>t. \<not> cancels h old (tasks s t)) xs)"
    and "tasks (ready_remove h old s) = (\<lambda>t. if t \<in> set xs \<and> cancels h old (tasks s t)
        then (tasks s t)\<lparr>rt_queued := False, rt_state := TASK_SLEEPING\<rparr> else tasks s t)"
  using remove_loop_is [of s "[]" xs SECTION_STL_MAX_TASKS None "p_ready_first s" h old] assms ready_is_length [OF assms]
    ready_is_first [OF assms] by (auto simp: ready_remove_def)

lemma remove_loop_owner: "rt_owner (tasks (ready_remove_loop n h old q p s) t) = rt_owner (tasks s t)"
  by (induction n arbitrary: q p s) (simp_all add: Let_def split: option.split)

lemma ready_remove_owner [simp]: "rt_owner (tasks (ready_remove h old s) t) = rt_owner (tasks s t)"
  by (simp add: ready_remove_def remove_loop_owner)

end
