(* ===== verification/Stl_Inv.thy ===== *)
theory Stl_Inv
  imports Stl_Ready
begin

text \<open>
  The invariant of the managed runtime: resident groups and their tasks, the ready queue and the running task, the snapshot
  ring, and the agreement of the records with the suspended tasks; and its preservation by every step inside the operations.
\<close>

abbreviation st :: "stl \<Rightarrow> nat \<Rightarrow> stl_task_state" where "st s t \<equiv> rt_state (tasks s t)"
abbreviation own :: "stl \<Rightarrow> nat \<Rightarrow> stl_handle" where "own s t \<equiv> rt_owner (tasks s t)"
abbreviation gst :: "stl \<Rightarrow> nat \<Rightarrow> stl_group_state" where "gst s g \<equiv> rg_state (groups s g)"
abbreviation hnd :: "stl \<Rightarrow> nat \<Rightarrow> stl_handle" where "hnd s g \<equiv> rg_handle (groups s g)"
abbreviation gtasks :: "stl \<Rightarrow> nat \<Rightarrow> nat list" where "gtasks s g \<equiv> rg_tasks (groups s g)"

lemma identity_equal_iff [simp]: "identity_equal a b \<longleftrightarrow> a = b"
  by (cases a; cases b) (simp add: identity_equal_def)

lemmas state_order = less_eq_stl_group_state_def less_stl_group_state_def

section \<open>The invariant\<close>

definition groups_inv :: "stl \<Rightarrow> bool" where
  "groups_inv s \<longleftrightarrow> distinct (group_list s) \<and> set (group_list s) \<subseteq> {..<SECTION_STL_MAX_GROUPS}
     \<and> stat_group_count s = length (group_list s)
     \<and> (\<forall>g < SECTION_STL_MAX_GROUPS. g \<in> set (group_list s) \<longleftrightarrow> sh_group_id (hnd s g) \<noteq> 0)
     \<and> inj_on (\<lambda>g. sh_group_id (hnd s g)) (set (group_list s))
     \<and> (\<forall>g \<in> set (group_list s). unat (sh_generation (hnd s g)) \<le> unat (generation s))"

definition tasks_inv :: "stl \<Rightarrow> bool" where
  "tasks_inv s \<longleftrightarrow>
     (\<forall>t. st s t \<noteq> TASK_FREE \<longrightarrow> t < SECTION_STL_MAX_TASKS \<and> (\<exists>g \<in> set (group_list s). t \<in> set (gtasks s g)))
     \<and> (\<forall>g \<in> set (group_list s). distinct (gtasks s g)
          \<and> (\<forall>t \<in> set (gtasks s g). st s t \<noteq> TASK_FREE \<and> own s t = hnd s g \<and> 0 < rt_period (tasks s t)))"

text \<open>
  Inside an operation the invariant may be broken for the groups with a handle in \<open>X\<close>, which are being closed, and for
  a task in \<open>Y\<close>, which has just been taken off the queue.
\<close>

definition admit_ok :: "stl \<Rightarrow> nat \<Rightarrow> bool" where
  "admit_ok s g \<longleftrightarrow> (\<forall>t \<in> set (gtasks s g).
     (st s t = TASK_NEW \<longrightarrow> gst s g = SECTION_STL_ENABLED) \<and> (st s t = TASK_OLD \<longrightarrow> gst s g < SECTION_STL_PAUSED))"

definition current_ok :: "stl \<Rightarrow> bool" where
  "current_ok s \<longleftrightarrow> (\<forall>t. st s t = TASK_RUNNING \<longrightarrow> p_current s = Some t)
     \<and> (\<forall>t. p_current s = Some t \<longrightarrow> st s t \<noteq> TASK_FREE \<and> st s t \<noteq> TASK_OLD \<and> dispatch_active s)"

definition run_ok :: "stl \<Rightarrow> bool" where
  "run_ok s \<longleftrightarrow> (\<forall>g \<in> set (group_list s). \<forall>t \<in> set (gtasks s g). st s t = TASK_RUNNING \<longrightarrow> gst s g \<noteq> SECTION_STL_PAUSED)"

definition sched_inv :: "stl_handle set \<Rightarrow> nat set \<Rightarrow> stl \<Rightarrow> bool" where
  "sched_inv X Y s \<longleftrightarrow> (\<exists>xs. ready_is s xs)
     \<and> (\<forall>t. t \<notin> Y \<longrightarrow> (rt_queued (tasks s t) \<longleftrightarrow> st s t = TASK_NEW \<or> st s t = TASK_OLD))
     \<and> (\<forall>g \<in> set (group_list s). hnd s g \<notin> X \<longrightarrow> admit_ok s g) \<and> current_ok s \<and> run_ok s"

definition frame_ok :: "stl_link \<Rightarrow> (nat \<Rightarrow> u32) \<Rightarrow> nat \<Rightarrow> bool" where
  "frame_ok lk frame n \<longleftrightarrow> section_stl_port_frame_valid lk 4 frame n"

definition rec_ok :: "stl_link \<Rightarrow> stl \<Rightarrow> nat \<Rightarrow> bool" where
  "rec_ok lk s i \<longleftrightarrow> (let r = records s i; t = sr_task_index r in
     st s t = TASK_OLD \<and> rt_record (tasks s t) = Some i \<and> sr_owner r = own s t
     \<and> sr_words r \<le> SECTION_STL_STACK_WORDS - STL_GUARD_WORDS \<and> frame_ok lk (\<lambda>k. pool s (sr_offset r + k)) (sr_words r))"

definition old_ok :: "stl \<Rightarrow> nat \<Rightarrow> bool" where
  "old_ok s t \<longleftrightarrow> (\<exists>i \<in> set (record_slots s). rt_record (tasks s t) = Some i
     \<and> \<not> sr_consumed (records s i) \<and> sr_task_index (records s i) = t \<and> sr_owner (records s i) = own s t)"

definition snap_inv :: "stl_link \<Rightarrow> stl_handle set \<Rightarrow> stl \<Rightarrow> bool" where
  "snap_inv lk X s \<longleftrightarrow>
     (\<forall>i \<in> set (record_slots s). \<not> sr_consumed (records s i) \<longrightarrow> sr_owner (records s i) \<notin> X \<longrightarrow> rec_ok lk s i)
     \<and> (\<forall>t. st s t = TASK_OLD \<longrightarrow> own s t \<notin> X \<longrightarrow> old_ok s t)"

definition stl_inv :: "stl_link \<Rightarrow> stl_handle set \<Rightarrow> nat set \<Rightarrow> stl \<Rightarrow> bool" where
  "stl_inv lk X Y s \<longleftrightarrow> groups_inv s \<and> tasks_inv s \<and> sched_inv X Y s \<and> pool_inv s \<and> snap_inv lk X s"

lemma stl_invD:
  "stl_inv lk X Y s \<Longrightarrow> groups_inv s" "stl_inv lk X Y s \<Longrightarrow> tasks_inv s" "stl_inv lk X Y s \<Longrightarrow> sched_inv X Y s"
  "stl_inv lk X Y s \<Longrightarrow> pool_inv s" "stl_inv lk X Y s \<Longrightarrow> snap_inv lk X s"
  by (simp_all add: stl_inv_def)

section \<open>Congruences\<close>

lemma groups_inv_cong:
  assumes "group_list s' = group_list s" "stat_group_count s' = stat_group_count s" "generation s' = generation s"
    and "\<And>g. hnd s' g = hnd s g"
  shows "groups_inv s' \<longleftrightarrow> groups_inv s"
  using assms by (simp add: groups_inv_def)

lemma tasks_inv_cong:
  assumes "group_list s' = group_list s" "\<And>g. hnd s' g = hnd s g" "\<And>g. gtasks s' g = gtasks s g"
    and "\<And>t. st s' t = TASK_FREE \<longleftrightarrow> st s t = TASK_FREE" "\<And>t. own s' t = own s t"
    and "\<And>t. rt_period (tasks s' t) = rt_period (tasks s t)"
  shows "tasks_inv s' \<longleftrightarrow> tasks_inv s"
  using assms by (simp add: tasks_inv_def)

lemma sched_inv_cong:
  assumes "group_list s' = group_list s" "\<And>g. hnd s' g = hnd s g" "\<And>g. gtasks s' g = gtasks s g" "\<And>g. gst s' g = gst s g"
    and "p_ready_next s' = p_ready_next s" "p_ready_first s' = p_ready_first s" "p_ready_tail s' = p_ready_tail s"
    and "stat_ready_count s' = stat_ready_count s" "\<And>t. rt_queued (tasks s' t) = rt_queued (tasks s t)"
    and "\<And>t. st s' t = st s t" "p_current s' = p_current s" "dispatch_active s' = dispatch_active s"
  shows "sched_inv X Y s' \<longleftrightarrow> sched_inv X Y s"
  using assms ready_is_cong [of s' s] by (simp add: sched_inv_def admit_ok_def current_ok_def run_ok_def)

lemma recs_cong: "record_slots s' = record_slots s \<Longrightarrow> records s' = records s \<Longrightarrow> recs s' = recs s"
  by (simp add: recs_def)

lemma pool_inv_cong:
  assumes "record_head s' = record_head s" "stat_record_count s' = stat_record_count s" "records s' = records s"
    and "record_tail s' = record_tail s" "pool_head s' = pool_head s" "pool_tail s' = pool_tail s"
    and "stat_pool_used s' = stat_pool_used s"
  shows "pool_inv s' \<longleftrightarrow> pool_inv s"
  using assms recs_cong [of s' s] record_slots_cong [of s' s] by (simp add: pool_inv_def)

lemma snap_inv_cong:
  assumes "record_slots s' = record_slots s" "records s' = records s" "pool s' = pool s"
    and "\<And>t. st s' t = TASK_OLD \<longleftrightarrow> st s t = TASK_OLD" "\<And>t. rt_record (tasks s' t) = rt_record (tasks s t)"
    and "\<And>t. own s' t = own s t"
  shows "snap_inv lk X s' \<longleftrightarrow> snap_inv lk X s"
  using assms by (simp add: snap_inv_def rec_ok_def old_ok_def)

text \<open>Updates that the invariant does not see.\<close>

lemma stl_inv_cong:
  assumes "group_list s' = group_list s" "stat_group_count s' = stat_group_count s" "generation s' = generation s"
    and "\<And>g. hnd s' g = hnd s g" "\<And>g. gtasks s' g = gtasks s g" "\<And>g. gst s' g = gst s g"
    and "p_ready_next s' = p_ready_next s" "p_ready_first s' = p_ready_first s" "p_ready_tail s' = p_ready_tail s"
    and "stat_ready_count s' = stat_ready_count s" "\<And>t. rt_queued (tasks s' t) = rt_queued (tasks s t)"
    and "\<And>t. st s' t = st s t" "\<And>t. own s' t = own s t" "\<And>t. rt_period (tasks s' t) = rt_period (tasks s t)"
    and "\<And>t. rt_record (tasks s' t) = rt_record (tasks s t)" "p_current s' = p_current s" "dispatch_active s' = dispatch_active s"
    and "record_head s' = record_head s" "stat_record_count s' = stat_record_count s" "records s' = records s"
    and "record_tail s' = record_tail s" "pool_head s' = pool_head s" "pool_tail s' = pool_tail s"
    and "stat_pool_used s' = stat_pool_used s" "pool s' = pool s"
  shows "stl_inv lk X Y s' \<longleftrightarrow> stl_inv lk X Y s"
  using groups_inv_cong [of s' s] tasks_inv_cong [of s' s] sched_inv_cong [of s' s X Y] pool_inv_cong [of s' s]
    snap_inv_cong [of s' s lk X] record_slots_cong [of s' s] assms by (simp add: stl_inv_def)

text \<open>Steps that only schedule.\<close>

lemma stl_inv_schedule:
  assumes "stl_inv lk X Y s" "sched_inv X Y' s'"
    and "groups s' = groups s" "group_list s' = group_list s" "stat_group_count s' = stat_group_count s" "generation s' = generation s"
    and "record_head s' = record_head s" "stat_record_count s' = stat_record_count s" "records s' = records s"
    and "record_tail s' = record_tail s" "pool_head s' = pool_head s" "pool_tail s' = pool_tail s"
    and "stat_pool_used s' = stat_pool_used s" "pool s' = pool s"
    and "\<And>t. st s' t = TASK_FREE \<longleftrightarrow> st s t = TASK_FREE" "\<And>t. st s' t = TASK_OLD \<longleftrightarrow> st s t = TASK_OLD"
    and "\<And>t. own s' t = own s t" "\<And>t. rt_period (tasks s' t) = rt_period (tasks s t)"
    and "\<And>t. rt_record (tasks s' t) = rt_record (tasks s t)"
  shows "stl_inv lk X Y' s'"
  using groups_inv_cong [of s' s] tasks_inv_cong [of s' s] pool_inv_cong [of s' s]
    snap_inv_cong [of s' s lk X] record_slots_cong [of s' s] assms by (simp add: stl_inv_def)

text \<open>Closing a group shrinks nothing: a weaker exception is a stronger invariant.\<close>

lemma sched_inv_mono: "sched_inv X Y s \<Longrightarrow> X \<subseteq> X' \<Longrightarrow> Y \<subseteq> Y' \<Longrightarrow> sched_inv X' Y' s"
  by (simp add: sched_inv_def subset_iff) blast

lemma snap_inv_mono: "snap_inv lk X s \<Longrightarrow> X \<subseteq> X' \<Longrightarrow> snap_inv lk X' s"
  by (simp add: snap_inv_def subset_iff) blast

lemma stl_inv_mono: "stl_inv lk X Y s \<Longrightarrow> X \<subseteq> X' \<Longrightarrow> Y \<subseteq> Y' \<Longrightarrow> stl_inv lk X' Y' s"
  unfolding stl_inv_def by (meson sched_inv_mono snap_inv_mono)

section \<open>Owners\<close>

lemma group_find_Some: "group_find h s = Some g \<Longrightarrow> g \<in> set (group_list s) \<and> hnd s g = h"
  by (auto simp: group_find_def find_Some_iff in_set_conv_nth)

lemma group_find_None: "group_find h s = None \<longleftrightarrow> (\<forall>g \<in> set (group_list s). hnd s g \<noteq> h)"
  by (auto simp: group_find_def find_None_iff)

lemma group_find_eq:
  assumes "groups_inv s" "g \<in> set (group_list s)"
  shows "group_find (hnd s g) s = Some g"
proof -
  obtain g' where g': "group_find (hnd s g) s = Some g'"
    using assms(2) group_find_None [of "hnd s g" s] by (cases "group_find (hnd s g) s") auto
  then have "g' \<in> set (group_list s)" "hnd s g' = hnd s g" using group_find_Some by blast+
  then have "g' = g" using assms by (auto simp: groups_inv_def inj_on_def)
  then show ?thesis using g' by simp
qed

lemma hnd_inject: "groups_inv s \<Longrightarrow> g \<in> set (group_list s) \<Longrightarrow> g' \<in> set (group_list s) \<Longrightarrow> hnd s g = hnd s g' \<Longrightarrow> g = g'"
  by (auto simp: groups_inv_def inj_on_def)

text \<open>Every task in use belongs to exactly one resident group.\<close>

lemma task_group:
  assumes "tasks_inv s" "st s t \<noteq> TASK_FREE"
  obtains g where "g \<in> set (group_list s)" "t \<in> set (gtasks s g)" "own s t = hnd s g" "t < SECTION_STL_MAX_TASKS"
  using assms by (metis tasks_inv_def)

lemma owner_group:
  assumes "groups_inv s" "tasks_inv s" "st s t \<noteq> TASK_FREE" "g \<in> set (group_list s)" "own s t = hnd s g"
  shows "t \<in> set (gtasks s g)"
  using task_group [OF assms(2,3)] hnd_inject [OF assms(1)] assms(4,5) by metis

text \<open>A closed group none of whose tasks waits needs no exception.\<close>

lemma sched_inv_close:
  assumes "sched_inv (insert h X) Y s'" "\<And>t. own s t = h \<Longrightarrow> st s' t \<noteq> TASK_NEW \<and> st s' t \<noteq> TASK_OLD" "tasks_inv s"
    and "group_list s' = group_list s" "\<And>g. hnd s' g = hnd s g" "\<And>g. gtasks s' g = gtasks s g"
  shows "sched_inv X Y s'"
proof -
  have "admit_ok s' g" if "g \<in> set (group_list s)" "hnd s g = h" for g
    using that assms(2,3,6) by (simp add: admit_ok_def tasks_inv_def)
  then show ?thesis using assms(1,4,5) unfolding sched_inv_def by auto
qed

section \<open>Reclaiming and cancelling\<close>

lemma snap_inv_reaped:
  assumes "reaped s s1" "pool_inv s" "snap_inv lk X s" "tasks s1 = tasks s" "pool s1 = pool s"
  shows "snap_inv lk X s1"
proof -
  obtain k where k: "record_slots s1 = drop k (record_slots s)" "\<forall>i \<in> set (take k (record_slots s)). sr_consumed (records s i)"
      "\<forall>i \<in> set (record_slots s1). records s1 i = records s i"
    using assms(1) by (auto simp: reaped_def)
  have sub: "i \<in> set (record_slots s)" if "i \<in> set (record_slots s1)" for i using that k(1) by (auto dest: in_set_dropD)
  have live: "i \<in> set (record_slots s1)" if "i \<in> set (record_slots s)" "\<not> sr_consumed (records s i)" for i
    using that k(1,2) by (metis append_take_drop_id set_append Un_iff)
  show ?thesis
    unfolding snap_inv_def
  proof (intro conjI ballI allI impI)
    fix i assume i: "i \<in> set (record_slots s1)" "\<not> sr_consumed (records s1 i)" "sr_owner (records s1 i) \<notin> X"
    then have "rec_ok lk s i" using assms(3) k(3) sub by (simp add: snap_inv_def)
    then show "rec_ok lk s1 i" using i(1) k(3) assms(4,5) by (simp add: rec_ok_def)
  next
    fix t assume "st s1 t = TASK_OLD" "own s1 t \<notin> X"
    then have "old_ok s t" using assms(3,4) by (simp add: snap_inv_def)
    then show "old_ok s1 t" using live k(3) assms(4) by (fastforce simp: old_ok_def)
  qed
qed

lemma stl_inv_reap:
  assumes "stl_inv lk X Y s"
  shows "stl_inv lk X Y (records_reap s)" and "stat_fault (records_reap s) = stat_fault s"
proof -
  have r: "reaped s (records_reap s)" using records_reap_ok assms by (simp add: stl_inv_def)
  then show "stat_fault (records_reap s) = stat_fault s" by (simp add: reaped_def)
  have "groups_inv (records_reap s)" using assms groups_inv_cong [of "records_reap s" s] by (simp add: stl_inv_def)
  moreover have "tasks_inv (records_reap s)" using assms tasks_inv_cong [of "records_reap s" s] by (simp add: stl_inv_def)
  moreover have "sched_inv X Y (records_reap s)" using assms sched_inv_cong [of "records_reap s" s] by (simp add: stl_inv_def)
  moreover have "snap_inv lk X (records_reap s)" using assms r by (intro snap_inv_reaped [OF r]) (simp_all add: stl_inv_def)
  ultimately show "stl_inv lk X Y (records_reap s)" using r by (simp add: stl_inv_def reaped_def)
qed

text \<open>Cancelling queued tasks.\<close>

lemma remove_task:
  assumes "sched_inv X {} s"
  shows "tasks (ready_remove h old s) t =
    (if own s t = h \<and> (st s t = TASK_NEW \<or> old \<and> st s t = TASK_OLD)
     then (tasks s t)\<lparr>rt_queued := False, rt_state := TASK_SLEEPING\<rparr> else tasks s t)"
proof -
  obtain xs where xs: "ready_is s xs" using assms by (auto simp: sched_inv_def)
  have "t \<in> set xs \<longleftrightarrow> st s t = TASK_NEW \<or> st s t = TASK_OLD" using assms xs by (auto simp: sched_inv_def ready_is_def)
  then show ?thesis unfolding ready_remove_is(2) [OF xs] by (auto simp: cancels_def)
qed

lemma sched_inv_remove: "sched_inv X {} s \<Longrightarrow> sched_inv X {} (ready_remove h old s)"
proof -
  assume a: "sched_inv X {} s"
  obtain xs where "ready_is s xs" using a by (auto simp: sched_inv_def)
  then have "\<exists>ys. ready_is (ready_remove h old s) ys" using ready_remove_is(1) by blast
  then show ?thesis using a unfolding sched_inv_def admit_ok_def current_ok_def run_ok_def remove_task [OF a] by auto
qed

lemma snap_inv_remove:
  assumes "sched_inv W {} s" "snap_inv lk X s" "old \<longrightarrow> h \<in> X'" "X \<subseteq> X'"
  shows "snap_inv lk X' (ready_remove h old s)"
proof -
  let ?s = "ready_remove h old s"
  note t = remove_task [OF assms(1), of h old]
  have slots: "record_slots ?s = record_slots s" by (rule record_slots_cong) simp_all
  show ?thesis
    unfolding snap_inv_def
  proof (intro conjI ballI allI impI)
    fix i assume "i \<in> set (record_slots ?s)" "\<not> sr_consumed (records ?s i)" "sr_owner (records ?s i) \<notin> X'"
    then have "rec_ok lk s i" "sr_owner (records s i) \<notin> X'" using assms(2,4) by (auto simp: snap_inv_def slots)
    then show "rec_ok lk ?s i" using assms(3) by (auto simp: rec_ok_def Let_def t)
  next
    fix u assume "st ?s u = TASK_OLD" "own ?s u \<notin> X'"
    then have "st s u = TASK_OLD" "own s u \<notin> X'" by (auto simp: t split: if_splits)
    then show "old_ok ?s u" using assms(2,4) by (auto simp: snap_inv_def old_ok_def slots t)
  qed
qed

lemma stl_inv_remove:
  assumes "stl_inv lk X {} s" "old \<longrightarrow> h \<in> X"
  shows "stl_inv lk X {} (ready_remove h old s)"
proof -
  have a: "sched_inv X {} s" "snap_inv lk X s" "tasks_inv s" "groups_inv s" "pool_inv s" using assms(1) by (simp_all add: stl_inv_def)
  have "tasks_inv (ready_remove h old s)"
    by (subst tasks_inv_cong [of _ s]) (use a(3) in \<open>auto simp: remove_task [OF a(1)]\<close>)
  then show ?thesis
    using a snap_inv_remove [OF a(1,2) assms(2) subset_refl] sched_inv_remove [OF a(1)]
      groups_inv_cong [of "ready_remove h old s" s] pool_inv_cong [of "ready_remove h old s" s] by (simp add: stl_inv_def)
qed

text \<open>Marking the records of a group consumed.\<close>

lemma record_cancel_rest:
  "(record_cancel h i s)\<lparr>records := (\<lambda>_. record_zero), stat_discarded := 0\<rparr>
   = s\<lparr>records := (\<lambda>_. record_zero), stat_discarded := 0\<rparr>"
  by (simp add: record_cancel_def)

lemma records_cancel_rest:
  "(foldl (\<lambda>s i. record_cancel h i s) s is)\<lparr>records := (\<lambda>_. record_zero), stat_discarded := 0\<rparr>
   = s\<lparr>records := (\<lambda>_. record_zero), stat_discarded := 0\<rparr>"
  using record_cancel_rest by (induction "is" arbitrary: s) simp_all

lemma records_cancel_frame [simp]:
  "groups (foldl (\<lambda>s i. record_cancel h i s) s is) = groups s"
  "tasks (foldl (\<lambda>s i. record_cancel h i s) s is) = tasks s"
  "init_callbacks (foldl (\<lambda>s i. record_cancel h i s) s is) = init_callbacks s"
  "pool (foldl (\<lambda>s i. record_cancel h i s) s is) = pool s"
  "runtime_stack (foldl (\<lambda>s i. record_cancel h i s) s is) = runtime_stack s"
  "group_list (foldl (\<lambda>s i. record_cancel h i s) s is) = group_list s"
  "p_ready_first (foldl (\<lambda>s i. record_cancel h i s) s is) = p_ready_first s"
  "p_ready_tail (foldl (\<lambda>s i. record_cancel h i s) s is) = p_ready_tail s"
  "p_ready_next (foldl (\<lambda>s i. record_cancel h i s) s is) = p_ready_next s"
  "p_current (foldl (\<lambda>s i. record_cancel h i s) s is) = p_current s"
  "stl_initialized (foldl (\<lambda>s i. record_cancel h i s) s is) = stl_initialized s"
  "native_pending (foldl (\<lambda>s i. record_cancel h i s) s is) = native_pending s"
  "generation (foldl (\<lambda>s i. record_cancel h i s) s is) = generation s"
  "tick_now (foldl (\<lambda>s i. record_cancel h i s) s is) = tick_now s"
  "slice_start (foldl (\<lambda>s i. record_cancel h i s) s is) = slice_start s"
  "pool_head (foldl (\<lambda>s i. record_cancel h i s) s is) = pool_head s"
  "pool_tail (foldl (\<lambda>s i. record_cancel h i s) s is) = pool_tail s"
  "record_head (foldl (\<lambda>s i. record_cancel h i s) s is) = record_head s"
  "record_tail (foldl (\<lambda>s i. record_cancel h i s) s is) = record_tail s"
  "stat_group_count (foldl (\<lambda>s i. record_cancel h i s) s is) = stat_group_count s"
  "stat_ready_count (foldl (\<lambda>s i. record_cancel h i s) s is) = stat_ready_count s"
  "stat_pool_used (foldl (\<lambda>s i. record_cancel h i s) s is) = stat_pool_used s"
  "stat_record_count (foldl (\<lambda>s i. record_cancel h i s) s is) = stat_record_count s"
  "stat_saves (foldl (\<lambda>s i. record_cancel h i s) s is) = stat_saves s"
  "stat_restores (foldl (\<lambda>s i. record_cancel h i s) s is) = stat_restores s"
  "stat_pool_full (foldl (\<lambda>s i. record_cancel h i s) s is) = stat_pool_full s"
  "stat_fault (foldl (\<lambda>s i. record_cancel h i s) s is) = stat_fault s"
  "dispatch_active (foldl (\<lambda>s i. record_cancel h i s) s is) = dispatch_active s"
  "switch_pending (foldl (\<lambda>s i. record_cancel h i s) s is) = switch_pending s"
  by (rule arg_cong [OF records_cancel_rest, of groups, simplified] arg_cong [OF records_cancel_rest, of tasks, simplified]
    arg_cong [OF records_cancel_rest, of init_callbacks, simplified] arg_cong [OF records_cancel_rest, of
    pool, simplified] arg_cong [OF records_cancel_rest, of runtime_stack, simplified] arg_cong [OF records_cancel_rest, of
    group_list, simplified] arg_cong [OF records_cancel_rest, of p_ready_first, simplified] arg_cong [OF
    records_cancel_rest, of p_ready_tail, simplified] arg_cong [OF records_cancel_rest, of p_ready_next, simplified]
    arg_cong [OF records_cancel_rest, of p_current, simplified] arg_cong [OF records_cancel_rest, of
    stl_initialized, simplified] arg_cong [OF records_cancel_rest, of native_pending, simplified] arg_cong [OF
    records_cancel_rest, of generation, simplified] arg_cong [OF records_cancel_rest, of tick_now, simplified]
    arg_cong [OF records_cancel_rest, of slice_start, simplified] arg_cong [OF records_cancel_rest, of
    pool_head, simplified] arg_cong [OF records_cancel_rest, of pool_tail, simplified] arg_cong [OF
    records_cancel_rest, of record_head, simplified] arg_cong [OF records_cancel_rest, of record_tail, simplified]
    arg_cong [OF records_cancel_rest, of stat_group_count, simplified] arg_cong [OF records_cancel_rest, of
    stat_ready_count, simplified] arg_cong [OF records_cancel_rest, of stat_pool_used, simplified] arg_cong [OF
    records_cancel_rest, of stat_record_count, simplified] arg_cong [OF records_cancel_rest, of stat_saves, simplified]
    arg_cong [OF records_cancel_rest, of stat_restores, simplified] arg_cong [OF records_cancel_rest, of
    stat_pool_full, simplified] arg_cong [OF records_cancel_rest, of stat_fault, simplified] arg_cong [OF
    records_cancel_rest, of dispatch_active, simplified] arg_cong [OF records_cancel_rest, of switch_pending, simplified])+

lemma records_cancel_records:
  "records (foldl (\<lambda>s i. record_cancel h i s) s is) i =
     (if i \<in> set is \<and> sr_owner (records s i) = h then (records s i)\<lparr>sr_consumed := True\<rparr> else records s i)"
proof (induction "is" arbitrary: s)
  case (Cons j js)
  have keep: "r\<lparr>sr_consumed := True\<rparr> = r" if "sr_consumed r" for r :: snapshot_record using that by (cases r) simp
  show ?case unfolding foldl.simps Cons.IH by (auto simp: record_cancel_def keep)
qed simp

lemma spans_map:
  assumes "\<And>r. sr_words (f r) = sr_words r" "\<And>r. sr_offset (f r) = sr_offset r" "\<And>r. sr_charge (f r) = sr_charge r"
  shows "spans a (map f rs) b \<longleftrightarrow> spans a rs b" and "charges (map f rs) = charges rs"
  using assms by (induction rs arbitrary: a) simp_all

text \<open>The snapshots of the tasks of a group forgotten.\<close>

lemma tasks_fold_rest:
  "(foldl (\<lambda>s t. task_set f t s) s ts)\<lparr>tasks := (\<lambda>_. task_zero)\<rparr>
   = s\<lparr>tasks := (\<lambda>_. task_zero)\<rparr>"
  using task_set_rest by (induction ts arbitrary: s) simp_all

lemma tasks_fold_frame [simp]:
  "groups (foldl (\<lambda>s t. task_set f t s) s ts) = groups s"
  "records (foldl (\<lambda>s t. task_set f t s) s ts) = records s"
  "init_callbacks (foldl (\<lambda>s t. task_set f t s) s ts) = init_callbacks s"
  "pool (foldl (\<lambda>s t. task_set f t s) s ts) = pool s"
  "runtime_stack (foldl (\<lambda>s t. task_set f t s) s ts) = runtime_stack s"
  "group_list (foldl (\<lambda>s t. task_set f t s) s ts) = group_list s"
  "p_ready_first (foldl (\<lambda>s t. task_set f t s) s ts) = p_ready_first s"
  "p_ready_tail (foldl (\<lambda>s t. task_set f t s) s ts) = p_ready_tail s"
  "p_ready_next (foldl (\<lambda>s t. task_set f t s) s ts) = p_ready_next s"
  "p_current (foldl (\<lambda>s t. task_set f t s) s ts) = p_current s"
  "stl_initialized (foldl (\<lambda>s t. task_set f t s) s ts) = stl_initialized s"
  "native_pending (foldl (\<lambda>s t. task_set f t s) s ts) = native_pending s"
  "generation (foldl (\<lambda>s t. task_set f t s) s ts) = generation s"
  "tick_now (foldl (\<lambda>s t. task_set f t s) s ts) = tick_now s"
  "slice_start (foldl (\<lambda>s t. task_set f t s) s ts) = slice_start s"
  "pool_head (foldl (\<lambda>s t. task_set f t s) s ts) = pool_head s"
  "pool_tail (foldl (\<lambda>s t. task_set f t s) s ts) = pool_tail s"
  "record_head (foldl (\<lambda>s t. task_set f t s) s ts) = record_head s"
  "record_tail (foldl (\<lambda>s t. task_set f t s) s ts) = record_tail s"
  "stat_group_count (foldl (\<lambda>s t. task_set f t s) s ts) = stat_group_count s"
  "stat_ready_count (foldl (\<lambda>s t. task_set f t s) s ts) = stat_ready_count s"
  "stat_pool_used (foldl (\<lambda>s t. task_set f t s) s ts) = stat_pool_used s"
  "stat_record_count (foldl (\<lambda>s t. task_set f t s) s ts) = stat_record_count s"
  "stat_saves (foldl (\<lambda>s t. task_set f t s) s ts) = stat_saves s"
  "stat_restores (foldl (\<lambda>s t. task_set f t s) s ts) = stat_restores s"
  "stat_discarded (foldl (\<lambda>s t. task_set f t s) s ts) = stat_discarded s"
  "stat_pool_full (foldl (\<lambda>s t. task_set f t s) s ts) = stat_pool_full s"
  "stat_fault (foldl (\<lambda>s t. task_set f t s) s ts) = stat_fault s"
  "dispatch_active (foldl (\<lambda>s t. task_set f t s) s ts) = dispatch_active s"
  "switch_pending (foldl (\<lambda>s t. task_set f t s) s ts) = switch_pending s"
  by (rule arg_cong [OF tasks_fold_rest, of groups, simplified] arg_cong [OF tasks_fold_rest, of records, simplified]
    arg_cong [OF tasks_fold_rest, of init_callbacks, simplified] arg_cong [OF tasks_fold_rest, of
    pool, simplified] arg_cong [OF tasks_fold_rest, of runtime_stack, simplified] arg_cong [OF tasks_fold_rest, of
    group_list, simplified] arg_cong [OF tasks_fold_rest, of p_ready_first, simplified] arg_cong [OF
    tasks_fold_rest, of p_ready_tail, simplified] arg_cong [OF tasks_fold_rest, of p_ready_next, simplified]
    arg_cong [OF tasks_fold_rest, of p_current, simplified] arg_cong [OF tasks_fold_rest, of
    stl_initialized, simplified] arg_cong [OF tasks_fold_rest, of native_pending, simplified] arg_cong [OF
    tasks_fold_rest, of generation, simplified] arg_cong [OF tasks_fold_rest, of tick_now, simplified]
    arg_cong [OF tasks_fold_rest, of slice_start, simplified] arg_cong [OF tasks_fold_rest, of
    pool_head, simplified] arg_cong [OF tasks_fold_rest, of pool_tail, simplified] arg_cong [OF
    tasks_fold_rest, of record_head, simplified] arg_cong [OF tasks_fold_rest, of record_tail, simplified]
    arg_cong [OF tasks_fold_rest, of stat_group_count, simplified] arg_cong [OF tasks_fold_rest, of
    stat_ready_count, simplified] arg_cong [OF tasks_fold_rest, of stat_pool_used, simplified] arg_cong [OF
    tasks_fold_rest, of stat_record_count, simplified] arg_cong [OF tasks_fold_rest, of stat_saves, simplified]
    arg_cong [OF tasks_fold_rest, of stat_restores, simplified] arg_cong [OF tasks_fold_rest, of
    stat_discarded, simplified] arg_cong [OF tasks_fold_rest, of stat_pool_full, simplified] arg_cong [OF
    tasks_fold_rest, of stat_fault, simplified] arg_cong [OF tasks_fold_rest, of dispatch_active, simplified]
    arg_cong [OF tasks_fold_rest, of switch_pending, simplified])+

lemma tasks_fold:
  assumes "\<And>x. f (f x) = f x"
  shows "tasks (foldl (\<lambda>s t. task_set f t s) s ts) t = (if t \<in> set ts then f (tasks s t) else tasks s t)"
  using assms by (induction ts arbitrary: s) auto

section \<open>Closing a group\<close>

lemma group_set_simps [simp]: "groups (group_set f g s) = (groups s)(g := f (groups s g))"
  by (simp add: group_set_def)

lemma group_set_rest:
  "(group_set f g s)\<lparr>groups := (\<lambda>_. group_zero)\<rparr>
   = s\<lparr>groups := (\<lambda>_. group_zero)\<rparr>"
  by (simp add: group_set_def)

lemma group_set_frame [simp]:
  "tasks (group_set f g s) = tasks s" "records (group_set f g s) = records s"
  "init_callbacks (group_set f g s) = init_callbacks s" "pool (group_set f g s) = pool s"
  "runtime_stack (group_set f g s) = runtime_stack s" "group_list (group_set f g s) = group_list s"
  "p_ready_first (group_set f g s) = p_ready_first s" "p_ready_tail (group_set f g s) = p_ready_tail s"
  "p_ready_next (group_set f g s) = p_ready_next s" "p_current (group_set f g s) = p_current s"
  "stl_initialized (group_set f g s) = stl_initialized s" "native_pending (group_set f g s) = native_pending s"
  "generation (group_set f g s) = generation s" "tick_now (group_set f g s) = tick_now s"
  "slice_start (group_set f g s) = slice_start s" "pool_head (group_set f g s) = pool_head s"
  "pool_tail (group_set f g s) = pool_tail s" "record_head (group_set f g s) = record_head s"
  "record_tail (group_set f g s) = record_tail s" "stat_group_count (group_set f g s) = stat_group_count s"
  "stat_ready_count (group_set f g s) = stat_ready_count s" "stat_pool_used (group_set f g s) = stat_pool_used s"
  "stat_record_count (group_set f g s) = stat_record_count s" "stat_saves (group_set f g s) = stat_saves s"
  "stat_restores (group_set f g s) = stat_restores s" "stat_discarded (group_set f g s) = stat_discarded s"
  "stat_pool_full (group_set f g s) = stat_pool_full s" "stat_fault (group_set f g s) = stat_fault s"
  "dispatch_active (group_set f g s) = dispatch_active s" "switch_pending (group_set f g s) = switch_pending s"
  by (rule arg_cong [OF group_set_rest, of tasks, simplified] arg_cong [OF group_set_rest, of records, simplified] arg_cong [OF
    group_set_rest, of init_callbacks, simplified] arg_cong [OF group_set_rest, of pool, simplified] arg_cong [OF
    group_set_rest, of runtime_stack, simplified] arg_cong [OF group_set_rest, of group_list, simplified] arg_cong [OF
    group_set_rest, of p_ready_first, simplified] arg_cong [OF group_set_rest, of p_ready_tail, simplified] arg_cong [OF
    group_set_rest, of p_ready_next, simplified] arg_cong [OF group_set_rest, of p_current, simplified] arg_cong [OF
    group_set_rest, of stl_initialized, simplified] arg_cong [OF group_set_rest, of native_pending, simplified]
    arg_cong [OF group_set_rest, of generation, simplified] arg_cong [OF group_set_rest, of tick_now, simplified]
    arg_cong [OF group_set_rest, of slice_start, simplified] arg_cong [OF group_set_rest, of pool_head, simplified]
    arg_cong [OF group_set_rest, of pool_tail, simplified] arg_cong [OF group_set_rest, of record_head, simplified]
    arg_cong [OF group_set_rest, of record_tail, simplified] arg_cong [OF group_set_rest, of stat_group_count, simplified]
    arg_cong [OF group_set_rest, of stat_ready_count, simplified] arg_cong [OF group_set_rest, of
    stat_pool_used, simplified] arg_cong [OF group_set_rest, of stat_record_count, simplified] arg_cong [OF
    group_set_rest, of stat_saves, simplified] arg_cong [OF group_set_rest, of stat_restores, simplified] arg_cong [OF
    group_set_rest, of stat_discarded, simplified] arg_cong [OF group_set_rest, of stat_pool_full, simplified]
    arg_cong [OF group_set_rest, of stat_fault, simplified] arg_cong [OF group_set_rest, of dispatch_active, simplified]
    arg_cong [OF group_set_rest, of switch_pending, simplified])+

lemma group_set_record_slots [simp]: "record_slots (group_set f g s) = record_slots s"
  by (rule record_slots_cong) simp_all

text \<open>The three passes before the reclaiming.\<close>

definition cancel_pass :: "nat \<Rightarrow> stl \<Rightarrow> stl" where
  "cancel_pass g s =
     (let h = hnd s g; s1 = ready_remove h True s; s2 = foldl (\<lambda>s i. record_cancel h i s) s1 (record_slots s1)
      in foldl (\<lambda>s t. task_set (\<lambda>x. x\<lparr>rt_record := None\<rparr>) t s) s2 (gtasks s2 g))"

lemma group_cancel_pass:
  "group_cancel g s = (let s4 = records_reap (cancel_pass g s)
     in if group_executing g s4 then s4 else group_set (\<lambda>x. x\<lparr>rg_state := SECTION_STL_REVOKED\<rparr>) g s4)"
  by (simp add: group_cancel_def cancel_pass_def Let_def)

lemma cancel_pass_rest:
  "(cancel_pass g s)\<lparr>tasks := (\<lambda>_. task_zero), p_ready_first := None, p_ready_tail := None, p_ready_next := (\<lambda>_. None), stat_ready_count := 0, records := (\<lambda>_. record_zero), stat_discarded := 0\<rparr>
   = s\<lparr>tasks := (\<lambda>_. task_zero), p_ready_first := None, p_ready_tail := None, p_ready_next := (\<lambda>_. None), stat_ready_count := 0, records := (\<lambda>_. record_zero), stat_discarded := 0\<rparr>"
  using ready_remove_rest [of "hnd s g" True s]
  by (simp add: cancel_pass_def Let_def)

lemma cancel_pass_frame [simp]:
  "groups (cancel_pass g s) = groups s" "init_callbacks (cancel_pass g s) = init_callbacks s"
  "pool (cancel_pass g s) = pool s" "runtime_stack (cancel_pass g s) = runtime_stack s"
  "group_list (cancel_pass g s) = group_list s" "p_current (cancel_pass g s) = p_current s"
  "stl_initialized (cancel_pass g s) = stl_initialized s" "native_pending (cancel_pass g s) = native_pending s"
  "generation (cancel_pass g s) = generation s" "tick_now (cancel_pass g s) = tick_now s"
  "slice_start (cancel_pass g s) = slice_start s" "pool_head (cancel_pass g s) = pool_head s"
  "pool_tail (cancel_pass g s) = pool_tail s" "record_head (cancel_pass g s) = record_head s"
  "record_tail (cancel_pass g s) = record_tail s" "stat_group_count (cancel_pass g s) = stat_group_count s"
  "stat_pool_used (cancel_pass g s) = stat_pool_used s" "stat_record_count (cancel_pass g s) = stat_record_count s"
  "stat_saves (cancel_pass g s) = stat_saves s" "stat_restores (cancel_pass g s) = stat_restores s"
  "stat_pool_full (cancel_pass g s) = stat_pool_full s" "stat_fault (cancel_pass g s) = stat_fault s"
  "dispatch_active (cancel_pass g s) = dispatch_active s" "switch_pending (cancel_pass g s) = switch_pending s"
  by (rule arg_cong [OF cancel_pass_rest, of groups, simplified] arg_cong [OF cancel_pass_rest, of init_callbacks, simplified]
    arg_cong [OF cancel_pass_rest, of pool, simplified] arg_cong [OF cancel_pass_rest, of runtime_stack, simplified]
    arg_cong [OF cancel_pass_rest, of group_list, simplified] arg_cong [OF cancel_pass_rest, of p_current, simplified]
    arg_cong [OF cancel_pass_rest, of stl_initialized, simplified] arg_cong [OF cancel_pass_rest, of
    native_pending, simplified] arg_cong [OF cancel_pass_rest, of generation, simplified] arg_cong [OF
    cancel_pass_rest, of tick_now, simplified] arg_cong [OF cancel_pass_rest, of slice_start, simplified] arg_cong [OF
    cancel_pass_rest, of pool_head, simplified] arg_cong [OF cancel_pass_rest, of pool_tail, simplified] arg_cong [OF
    cancel_pass_rest, of record_head, simplified] arg_cong [OF cancel_pass_rest, of record_tail, simplified] arg_cong [OF
    cancel_pass_rest, of stat_group_count, simplified] arg_cong [OF cancel_pass_rest, of stat_pool_used, simplified]
    arg_cong [OF cancel_pass_rest, of stat_record_count, simplified] arg_cong [OF cancel_pass_rest, of
    stat_saves, simplified] arg_cong [OF cancel_pass_rest, of stat_restores, simplified] arg_cong [OF cancel_pass_rest, of
    stat_pool_full, simplified] arg_cong [OF cancel_pass_rest, of stat_fault, simplified] arg_cong [OF
    cancel_pass_rest, of dispatch_active, simplified] arg_cong [OF cancel_pass_rest, of switch_pending, simplified])+

lemma cancel_pass_tasks:
  "tasks (cancel_pass g s) t = (if t \<in> set (gtasks s g) then (tasks (ready_remove (hnd s g) True s) t)\<lparr>rt_record := None\<rparr>
     else tasks (ready_remove (hnd s g) True s) t)"
  by (simp add: cancel_pass_def Let_def tasks_fold)

lemma cancel_pass_records:
  "records (cancel_pass g s) i = (if i \<in> set (record_slots s) \<and> sr_owner (records s i) = hnd s g
     then (records s i)\<lparr>sr_consumed := True\<rparr> else records s i)"
proof -
  have "record_slots (ready_remove (hnd s g) True s) = record_slots s" by (rule record_slots_cong) simp_all
  then show ?thesis by (simp add: cancel_pass_def Let_def records_cancel_records)
qed

lemma cancel_pass_slots [simp]: "record_slots (cancel_pass g s) = record_slots s"
  by (rule record_slots_cong) simp_all

lemma cancel_pass_pool: "pool_inv s \<Longrightarrow> pool_inv (cancel_pass g s)"
proof -
  define f where "f = (\<lambda>r. if sr_owner r = hnd s g then r\<lparr>sr_consumed := True\<rparr> else r :: snapshot_record)"
  have "recs (cancel_pass g s) = map f (recs s)" by (simp add: recs_def cancel_pass_records f_def)
  moreover have "sr_words (f r) = sr_words r" "sr_offset (f r) = sr_offset r" "sr_charge (f r) = sr_charge r" for r
    by (simp_all add: f_def)
  ultimately show "pool_inv s \<Longrightarrow> pool_inv (cancel_pass g s)" by (simp add: pool_inv_def spans_map)
qed

lemma cancel_pass_sched:
  assumes "sched_inv (insert (hnd s g) X) {} s" "tasks_inv s" "g \<in> set (group_list s)"
  shows "sched_inv X {} (cancel_pass g s)"
proof -
  let ?s1 = "ready_remove (hnd s g) True s"
  have s1: "sched_inv (insert (hnd s g) X) {} ?s1" by (rule sched_inv_remove [OF assms(1)])
  have c: "st (cancel_pass g s) t = st ?s1 t" "rt_queued (tasks (cancel_pass g s) t) = rt_queued (tasks ?s1 t)" for t
    by (simp_all add: cancel_pass_tasks)
  have ptr: "p_ready_next (cancel_pass g s) = p_ready_next ?s1" "p_ready_first (cancel_pass g s) = p_ready_first ?s1"
      "p_ready_tail (cancel_pass g s) = p_ready_tail ?s1" "stat_ready_count (cancel_pass g s) = stat_ready_count ?s1"
    by (simp_all add: cancel_pass_def Let_def)
  have s2: "sched_inv (insert (hnd s g) X) {} (cancel_pass g s)"
    using s1 by (subst sched_inv_cong [of _ ?s1]) (simp_all add: c ptr)
  have none: "st (cancel_pass g s) t \<noteq> TASK_NEW \<and> st (cancel_pass g s) t \<noteq> TASK_OLD" if "own s t = hnd s g" for t
    using that unfolding c remove_task [OF assms(1)] by auto
  show ?thesis using s2 none assms(2) by (rule sched_inv_close) simp_all
qed

lemma cancel_pass_snap:
  assumes "sched_inv (insert (hnd s g) X) {} s" "tasks_inv s" "g \<in> set (group_list s)" "snap_inv lk (insert (hnd s g) X) s"
  shows "snap_inv lk X (cancel_pass g s)"
proof -
  note t = remove_task [OF assms(1), of "hnd s g" True]
  have own: "own s u = hnd s g" if "u \<in> set (gtasks s g)" for u using that assms(2,3) by (auto simp: tasks_inv_def)
  have other: "tasks (cancel_pass g s) u = tasks s u" if "own s u \<noteq> hnd s g" for u
    using that own by (auto simp: cancel_pass_tasks t)
  show ?thesis
    unfolding snap_inv_def
  proof (intro conjI ballI allI impI)
    fix i assume i: "i \<in> set (record_slots (cancel_pass g s))" "\<not> sr_consumed (records (cancel_pass g s) i)"
      "sr_owner (records (cancel_pass g s) i) \<notin> X"
    then have "records (cancel_pass g s) i = records s i" "sr_owner (records s i) \<noteq> hnd s g"
      by (auto simp: cancel_pass_records split: if_splits)
    moreover from this have "rec_ok lk s i" using assms(4) i by (simp add: snap_inv_def)
    ultimately show "rec_ok lk (cancel_pass g s) i" using other by (simp add: rec_ok_def Let_def)
  next
    fix u assume u: "st (cancel_pass g s) u = TASK_OLD" "own (cancel_pass g s) u \<notin> X"
    have "own s u \<noteq> hnd s g" using u(1) by (auto simp: cancel_pass_tasks t split: if_splits)
    then have o: "tasks (cancel_pass g s) u = tasks s u" "own s u \<noteq> hnd s g" using other by auto
    then have "old_ok s u" using assms(4) u by (simp add: snap_inv_def)
    then show "old_ok (cancel_pass g s) u" using o unfolding old_ok_def by (force simp: cancel_pass_records)
  qed
qed

lemma cancel_pass_inv:
  assumes "stl_inv lk (insert (hnd s g) X) {} s" "g \<in> set (group_list s)"
  shows "stl_inv lk X {} (cancel_pass g s)"
proof -
  have a: "sched_inv (insert (hnd s g) X) {} s" "snap_inv lk (insert (hnd s g) X) s" "tasks_inv s" "groups_inv s" "pool_inv s"
    using assms(1) by (simp_all add: stl_inv_def)
  have "tasks_inv (cancel_pass g s)"
    by (subst tasks_inv_cong [of _ s]) (use a(3) in \<open>auto simp: cancel_pass_tasks remove_task [OF a(1)]\<close>)
  then show ?thesis
    using a cancel_pass_sched [OF a(1,3) assms(2)] cancel_pass_snap [OF a(1,3) assms(2) a(2)] cancel_pass_pool
      groups_inv_cong [of "cancel_pass g s" s] by (simp add: stl_inv_def)
qed

text \<open>What cancelling a group does to the rest of the state.\<close>

lemma group_cancel_groups:
  "groups (group_cancel g s) = (if group_executing g s then groups s
     else (groups s)(g := (groups s g)\<lparr>rg_state := SECTION_STL_REVOKED\<rparr>))"
proof -
  have "own (cancel_pass g s) t = own s t" for t
    by (cases "t \<in> set (gtasks s g)") (simp_all add: cancel_pass_tasks ready_remove_owner)
  then have "group_executing g (records_reap (cancel_pass g s)) = group_executing g s"
    by (simp add: group_executing_def split: option.split)
  then show ?thesis by (simp add: group_cancel_pass Let_def)
qed

lemma group_cancel_rest:
  "(group_cancel g s)\<lparr>groups := (\<lambda>_. group_zero), tasks := (\<lambda>_. task_zero), p_ready_first := None, p_ready_tail := None, p_ready_next := (\<lambda>_. None), stat_ready_count := 0, records := (\<lambda>_. record_zero), stat_discarded := 0, pool_head := 0, pool_tail := 0, record_head := 0, stat_pool_used := 0, stat_record_count := 0, stat_fault := SECTION_STL_OK\<rparr>
   = s\<lparr>groups := (\<lambda>_. group_zero), tasks := (\<lambda>_. task_zero), p_ready_first := None, p_ready_tail := None, p_ready_next := (\<lambda>_. None), stat_ready_count := 0, records := (\<lambda>_. record_zero), stat_discarded := 0, pool_head := 0, pool_tail := 0, record_head := 0, stat_pool_used := 0, stat_record_count := 0, stat_fault := SECTION_STL_OK\<rparr>"
  using records_reap_rest [of "cancel_pass g s"] cancel_pass_rest [of g s] by (simp add: group_cancel_pass Let_def group_set_def)

lemma group_cancel_frame [simp]:
  "init_callbacks (group_cancel g s) = init_callbacks s" "pool (group_cancel g s) = pool s"
  "runtime_stack (group_cancel g s) = runtime_stack s" "group_list (group_cancel g s) = group_list s"
  "p_current (group_cancel g s) = p_current s" "stl_initialized (group_cancel g s) = stl_initialized s"
  "native_pending (group_cancel g s) = native_pending s" "generation (group_cancel g s) = generation s"
  "tick_now (group_cancel g s) = tick_now s" "slice_start (group_cancel g s) = slice_start s"
  "record_tail (group_cancel g s) = record_tail s" "stat_group_count (group_cancel g s) = stat_group_count s"
  "stat_saves (group_cancel g s) = stat_saves s" "stat_restores (group_cancel g s) = stat_restores s"
  "stat_pool_full (group_cancel g s) = stat_pool_full s" "dispatch_active (group_cancel g s) = dispatch_active s"
  "switch_pending (group_cancel g s) = switch_pending s"
  by (rule arg_cong [OF group_cancel_rest, of init_callbacks, simplified] arg_cong [OF group_cancel_rest, of pool, simplified]
    arg_cong [OF group_cancel_rest, of runtime_stack, simplified] arg_cong [OF group_cancel_rest, of
    group_list, simplified] arg_cong [OF group_cancel_rest, of p_current, simplified] arg_cong [OF group_cancel_rest, of
    stl_initialized, simplified] arg_cong [OF group_cancel_rest, of native_pending, simplified] arg_cong [OF
    group_cancel_rest, of generation, simplified] arg_cong [OF group_cancel_rest, of tick_now, simplified] arg_cong [OF
    group_cancel_rest, of slice_start, simplified] arg_cong [OF group_cancel_rest, of record_tail, simplified]
    arg_cong [OF group_cancel_rest, of stat_group_count, simplified] arg_cong [OF group_cancel_rest, of
    stat_saves, simplified] arg_cong [OF group_cancel_rest, of stat_restores, simplified] arg_cong [OF
    group_cancel_rest, of stat_pool_full, simplified] arg_cong [OF group_cancel_rest, of dispatch_active, simplified]
    arg_cong [OF group_cancel_rest, of switch_pending, simplified])+

lemma group_cancel_tasks:
  assumes "sched_inv X {} s"
  shows "tasks (group_cancel g s) t =
    (let x = (if own s t = hnd s g \<and> (st s t = TASK_NEW \<or> st s t = TASK_OLD)
              then (tasks s t)\<lparr>rt_queued := False, rt_state := TASK_SLEEPING\<rparr> else tasks s t)
     in if t \<in> set (gtasks s g) then x\<lparr>rt_record := None\<rparr> else x)"
  by (auto simp: group_cancel_pass Let_def cancel_pass_tasks remove_task [OF assms])

lemma stl_inv_group_state:
  assumes "stl_inv lk X Y s" "hnd s g \<in> X \<or> admit_ok (group_set (\<lambda>x. x\<lparr>rg_state := q\<rparr>) g s) g"
    and "q = SECTION_STL_PAUSED \<longrightarrow> (\<forall>t \<in> set (gtasks s g). st s t \<noteq> TASK_RUNNING)"
  shows "stl_inv lk X Y (group_set (\<lambda>x. x\<lparr>rg_state := q\<rparr>) g s)"
proof -
  let ?s = "group_set (\<lambda>x. x\<lparr>rg_state := q\<rparr>) g s"
  have h: "hnd ?s k = hnd s k" "gtasks ?s k = gtasks s k" for k by simp_all
  have "admit_ok ?s k" if "k \<in> set (group_list s)" "hnd s k \<notin> X" for k
    using that assms by (cases "k = g") (auto simp: stl_inv_def sched_inv_def admit_ok_def)
  moreover have "current_ok ?s \<longleftrightarrow> current_ok s" "ready_is ?s = ready_is s"
    by (simp_all add: current_ok_def ready_is_def fun_eq_iff)
  moreover have "run_ok ?s" using assms(1,3) by (auto simp: stl_inv_def sched_inv_def run_ok_def)
  ultimately have "sched_inv X Y ?s" using assms(1) h by (simp add: stl_inv_def sched_inv_def)
  moreover have "groups_inv ?s" "tasks_inv ?s" "pool_inv ?s" "snap_inv lk X ?s"
    using assms(1) h groups_inv_cong [of ?s s] tasks_inv_cong [of ?s s] pool_inv_cong [of ?s s] snap_inv_cong [of ?s s lk X]
    by (simp_all add: stl_inv_def del: group_set_simps)
  ultimately show ?thesis by (simp add: stl_inv_def)
qed

theorem group_cancel_inv:
  assumes "stl_inv lk (insert (hnd s g) X) {} s" "g \<in> set (group_list s)"
  shows "stl_inv lk X {} (group_cancel g s)" and "stat_fault (group_cancel g s) = stat_fault s"
proof -
  let ?s4 = "records_reap (cancel_pass g s)"
  have p: "stl_inv lk X {} (cancel_pass g s)" by (rule cancel_pass_inv [OF assms])
  have s4: "stl_inv lk X {} ?s4" by (rule stl_inv_reap(1) [OF p])
  have sch: "sched_inv (insert (hnd s g) X) {} s" "tasks_inv s" using assms(1) by (simp_all add: stl_inv_def)
  have "st ?s4 t \<noteq> TASK_NEW \<and> st ?s4 t \<noteq> TASK_OLD" if "t \<in> set (gtasks s g)" for t
    using that sch(2) assms(2) by (auto simp: cancel_pass_tasks remove_task [OF sch(1)] tasks_inv_def)
  then have "admit_ok (group_set (\<lambda>x. x\<lparr>rg_state := SECTION_STL_REVOKED\<rparr>) g ?s4) g" by (simp add: admit_ok_def)
  then show "stl_inv lk X {} (group_cancel g s)"
    using s4 stl_inv_group_state [OF s4] by (simp add: group_cancel_pass Let_def)
  show "stat_fault (group_cancel g s) = stat_fault s"
    using stl_inv_reap(2) [OF p] by (simp add: group_cancel_pass Let_def)
qed

section \<open>Activation\<close>

lemma activate_task_rest:
  "(activate_task t s)\<lparr>tasks := (\<lambda>_. task_zero), p_ready_first := None, p_ready_tail := None, p_ready_next := (\<lambda>_. None), stat_ready_count := 0\<rparr>
   = s\<lparr>tasks := (\<lambda>_. task_zero), p_ready_first := None, p_ready_tail := None, p_ready_next := (\<lambda>_. None), stat_ready_count := 0\<rparr>"
  using ready_push_rest by (simp add: activate_task_def Let_def task_set_def)

lemma activate_tasks_rest:
  "(foldl (\<lambda>s t. activate_task t s) s ts)\<lparr>tasks := (\<lambda>_. task_zero), p_ready_first := None, p_ready_tail := None, p_ready_next := (\<lambda>_. None), stat_ready_count := 0\<rparr>
   = s\<lparr>tasks := (\<lambda>_. task_zero), p_ready_first := None, p_ready_tail := None, p_ready_next := (\<lambda>_. None), stat_ready_count := 0\<rparr>"
  using activate_task_rest by (induction ts arbitrary: s) simp_all

lemma activate_group_rest:
  "(activate_group g s)\<lparr>tasks := (\<lambda>_. task_zero), p_ready_first := None, p_ready_tail := None, p_ready_next := (\<lambda>_. None), stat_ready_count := 0\<rparr>
   = s\<lparr>tasks := (\<lambda>_. task_zero), p_ready_first := None, p_ready_tail := None, p_ready_next := (\<lambda>_. None), stat_ready_count := 0\<rparr>"
  using activate_tasks_rest by (simp add: activate_group_def)

lemma activate_groups_rest:
  "(foldl (\<lambda>s g. activate_group g s) s gs)\<lparr>tasks := (\<lambda>_. task_zero), p_ready_first := None, p_ready_tail := None, p_ready_next := (\<lambda>_. None), stat_ready_count := 0\<rparr>
   = s\<lparr>tasks := (\<lambda>_. task_zero), p_ready_first := None, p_ready_tail := None, p_ready_next := (\<lambda>_. None), stat_ready_count := 0\<rparr>"
  using activate_group_rest by (induction gs arbitrary: s) simp_all

lemma activate_due_rest:
  "(activate_due s)\<lparr>tasks := (\<lambda>_. task_zero), p_ready_first := None, p_ready_tail := None, p_ready_next := (\<lambda>_. None), stat_ready_count := 0\<rparr>
   = s\<lparr>tasks := (\<lambda>_. task_zero), p_ready_first := None, p_ready_tail := None, p_ready_next := (\<lambda>_. None), stat_ready_count := 0\<rparr>"
  by (simp add: activate_due_def activate_groups_rest)

lemma activate_task_frame [simp]:
  "groups (activate_task t s) = groups s" "records (activate_task t s) = records s"
  "init_callbacks (activate_task t s) = init_callbacks s" "pool (activate_task t s) = pool s"
  "runtime_stack (activate_task t s) = runtime_stack s" "group_list (activate_task t s) = group_list s"
  "p_current (activate_task t s) = p_current s" "stl_initialized (activate_task t s) = stl_initialized s"
  "native_pending (activate_task t s) = native_pending s" "generation (activate_task t s) = generation s"
  "tick_now (activate_task t s) = tick_now s" "slice_start (activate_task t s) = slice_start s"
  "pool_head (activate_task t s) = pool_head s" "pool_tail (activate_task t s) = pool_tail s"
  "record_head (activate_task t s) = record_head s" "record_tail (activate_task t s) = record_tail s"
  "stat_group_count (activate_task t s) = stat_group_count s" "stat_pool_used (activate_task t s) = stat_pool_used s"
  "stat_record_count (activate_task t s) = stat_record_count s" "stat_saves (activate_task t s) = stat_saves s"
  "stat_restores (activate_task t s) = stat_restores s" "stat_discarded (activate_task t s) = stat_discarded s"
  "stat_pool_full (activate_task t s) = stat_pool_full s" "stat_fault (activate_task t s) = stat_fault s"
  "dispatch_active (activate_task t s) = dispatch_active s" "switch_pending (activate_task t s) = switch_pending s"
  by (rule arg_cong [OF activate_task_rest, of groups, simplified] arg_cong [OF activate_task_rest, of records, simplified]
    arg_cong [OF activate_task_rest, of init_callbacks, simplified] arg_cong [OF activate_task_rest, of pool, simplified]
    arg_cong [OF activate_task_rest, of runtime_stack, simplified] arg_cong [OF activate_task_rest, of
    group_list, simplified] arg_cong [OF activate_task_rest, of p_current, simplified] arg_cong [OF activate_task_rest, of
    stl_initialized, simplified] arg_cong [OF activate_task_rest, of native_pending, simplified] arg_cong [OF
    activate_task_rest, of generation, simplified] arg_cong [OF activate_task_rest, of tick_now, simplified] arg_cong [OF
    activate_task_rest, of slice_start, simplified] arg_cong [OF activate_task_rest, of pool_head, simplified]
    arg_cong [OF activate_task_rest, of pool_tail, simplified] arg_cong [OF activate_task_rest, of
    record_head, simplified] arg_cong [OF activate_task_rest, of record_tail, simplified] arg_cong [OF
    activate_task_rest, of stat_group_count, simplified] arg_cong [OF activate_task_rest, of stat_pool_used, simplified]
    arg_cong [OF activate_task_rest, of stat_record_count, simplified] arg_cong [OF activate_task_rest, of
    stat_saves, simplified] arg_cong [OF activate_task_rest, of stat_restores, simplified] arg_cong [OF
    activate_task_rest, of stat_discarded, simplified] arg_cong [OF activate_task_rest, of stat_pool_full, simplified]
    arg_cong [OF activate_task_rest, of stat_fault, simplified] arg_cong [OF activate_task_rest, of
    dispatch_active, simplified] arg_cong [OF activate_task_rest, of switch_pending, simplified])+

lemma activate_due_frame [simp]:
  "groups (activate_due s) = groups s" "records (activate_due s) = records s"
  "init_callbacks (activate_due s) = init_callbacks s" "pool (activate_due s) = pool s"
  "runtime_stack (activate_due s) = runtime_stack s" "group_list (activate_due s) = group_list s"
  "p_current (activate_due s) = p_current s" "stl_initialized (activate_due s) = stl_initialized s"
  "native_pending (activate_due s) = native_pending s" "generation (activate_due s) = generation s"
  "tick_now (activate_due s) = tick_now s" "slice_start (activate_due s) = slice_start s"
  "pool_head (activate_due s) = pool_head s" "pool_tail (activate_due s) = pool_tail s"
  "record_head (activate_due s) = record_head s" "record_tail (activate_due s) = record_tail s"
  "stat_group_count (activate_due s) = stat_group_count s" "stat_pool_used (activate_due s) = stat_pool_used s"
  "stat_record_count (activate_due s) = stat_record_count s" "stat_saves (activate_due s) = stat_saves s"
  "stat_restores (activate_due s) = stat_restores s" "stat_discarded (activate_due s) = stat_discarded s"
  "stat_pool_full (activate_due s) = stat_pool_full s" "stat_fault (activate_due s) = stat_fault s"
  "dispatch_active (activate_due s) = dispatch_active s" "switch_pending (activate_due s) = switch_pending s"
  by (rule arg_cong [OF activate_due_rest, of groups, simplified] arg_cong [OF activate_due_rest, of records, simplified]
    arg_cong [OF activate_due_rest, of init_callbacks, simplified] arg_cong [OF activate_due_rest, of pool, simplified]
    arg_cong [OF activate_due_rest, of runtime_stack, simplified] arg_cong [OF activate_due_rest, of
    group_list, simplified] arg_cong [OF activate_due_rest, of p_current, simplified] arg_cong [OF activate_due_rest, of
    stl_initialized, simplified] arg_cong [OF activate_due_rest, of native_pending, simplified] arg_cong [OF
    activate_due_rest, of generation, simplified] arg_cong [OF activate_due_rest, of tick_now, simplified] arg_cong [OF
    activate_due_rest, of slice_start, simplified] arg_cong [OF activate_due_rest, of pool_head, simplified] arg_cong [OF
    activate_due_rest, of pool_tail, simplified] arg_cong [OF activate_due_rest, of record_head, simplified] arg_cong [OF
    activate_due_rest, of record_tail, simplified] arg_cong [OF activate_due_rest, of stat_group_count, simplified]
    arg_cong [OF activate_due_rest, of stat_pool_used, simplified] arg_cong [OF activate_due_rest, of
    stat_record_count, simplified] arg_cong [OF activate_due_rest, of stat_saves, simplified] arg_cong [OF
    activate_due_rest, of stat_restores, simplified] arg_cong [OF activate_due_rest, of stat_discarded, simplified]
    arg_cong [OF activate_due_rest, of stat_pool_full, simplified] arg_cong [OF activate_due_rest, of
    stat_fault, simplified] arg_cong [OF activate_due_rest, of dispatch_active, simplified] arg_cong [OF
    activate_due_rest, of switch_pending, simplified])+

text \<open>Two states that differ in the queue and in tasks that became ready.\<close>

definition activates :: "stl \<Rightarrow> stl \<Rightarrow> bool" where
  "activates s s1 \<longleftrightarrow> (\<forall>t. own s1 t = own s t \<and> rt_period (tasks s1 t) = rt_period (tasks s t)
     \<and> rt_record (tasks s1 t) = rt_record (tasks s t) \<and> rt_func (tasks s1 t) = rt_func (tasks s t)
     \<and> (st s1 t = st s t \<or> st s t = TASK_SLEEPING \<and> st s1 t = TASK_NEW))"

lemma activates_refl [simp]: "activates s s"
  by (simp add: activates_def)

lemma activates_trans: "activates s s1 \<Longrightarrow> activates s1 s2 \<Longrightarrow> activates s s2"
  unfolding activates_def by (metis stl_task_state.distinct)

lemma activate_task_tasks:
  "tasks (activate_task t s) = (if st s t = TASK_SLEEPING \<and> tick_now s - rt_last (tasks s t) \<ge> rt_period (tasks s t)
     then (tasks s)(t := (tasks s t)\<lparr>rt_last := rt_last (tasks s t)
        + ((tick_now s - rt_last (tasks s t)) div rt_period (tasks s t)) * rt_period (tasks s t), rt_state := TASK_NEW, rt_queued := True\<rparr>)
     else tasks s)"
  by (simp add: activate_task_def Let_def)

lemma activate_task_activates: "activates s (activate_task t s)"
  by (simp add: activates_def activate_task_tasks)

lemma record_slots_rest:
  "record_head s' = record_head s \<Longrightarrow> stat_record_count s' = stat_record_count s \<Longrightarrow> record_slots s' = record_slots s"
  by (rule record_slots_cong)

lemma snap_inv_activates:
  assumes "activates s s1" "record_head s1 = record_head s" "stat_record_count s1 = stat_record_count s"
    and "records s1 = records s" "pool s1 = pool s"
  shows "snap_inv lk X s1 \<longleftrightarrow> snap_inv lk X s"
proof -
  have "st s1 t = TASK_OLD \<longleftrightarrow> st s t = TASK_OLD" for t
    using assms(1) unfolding activates_def by (metis stl_task_state.distinct)
  then show ?thesis
    using assms record_slots_cong [of s1 s] by (intro snap_inv_cong) (simp_all add: activates_def)
qed

lemma tasks_inv_activates:
  assumes "activates s s1" "groups s1 = groups s" "group_list s1 = group_list s"
  shows "tasks_inv s1 \<longleftrightarrow> tasks_inv s"
proof -
  have "st s1 t = TASK_FREE \<longleftrightarrow> st s t = TASK_FREE" for t
    using assms(1) unfolding activates_def by (metis stl_task_state.distinct)
  then show ?thesis using assms by (intro tasks_inv_cong) (simp_all add: activates_def)
qed

lemma sched_inv_ready:
  assumes "sched_inv X {} s" "tasks_inv s" "groups_inv s" "g \<in> set (group_list s)" "gst s g = SECTION_STL_ENABLED" "t \<in> set (gtasks s g)"
    and "st s t = TASK_SLEEPING" "\<And>x. rt_state (f x) = TASK_NEW" "\<And>x. rt_queued (f x) = rt_queued x"
  shows "sched_inv X {} (ready_push t (task_set f t s))" (is "sched_inv _ _ ?s")
proof -
  have tk: "tasks ?s = (tasks s)(t := (f (tasks s t))\<lparr>rt_queued := True\<rparr>)" by simp
  obtain xs where xs: "ready_is s xs" using assms(1) by (auto simp: sched_inv_def)
  have "\<not> rt_queued (tasks s t)" using assms(1,7) by (simp add: sched_inv_def)
  then have "t \<notin> set xs" "ready_is (task_set f t s) xs"
    using xs ready_is_cong [of "task_set f t s" s] assms(9) by (auto simp: ready_is_def)
  moreover have "t < SECTION_STL_MAX_TASKS" using task_group [OF assms(2), of t] assms(7) by auto
  ultimately have r: "\<exists>ys. ready_is ?s ys" using ready_push_is by blast
  have q: "rt_queued (tasks ?s u) \<longleftrightarrow> st ?s u = TASK_NEW \<or> st ?s u = TASK_OLD" for u
    using assms(1,8) by (simp add: sched_inv_def)
  have c: "current_ok ?s" using assms(1,7,8) by (auto simp: sched_inv_def current_ok_def)
  have a: "admit_ok ?s k" if k: "k \<in> set (group_list s)" "hnd s k \<notin> X" for k
  proof -
    have "k = g" if "t \<in> set (gtasks s k)"
    proof -
      have "hnd s k = hnd s g" using that k(1) assms(2,4,6) unfolding tasks_inv_def by metis
      then show ?thesis using hnd_inject [OF assms(3)] k(1) assms(4) by blast
    qed
    moreover have "admit_ok s k" using assms(1) k by (simp add: sched_inv_def)
    ultimately show ?thesis using assms(5,8) by (auto simp: admit_ok_def)
  qed
  have "run_ok ?s" using assms(1,8) by (auto simp: sched_inv_def run_ok_def)
  then show ?thesis unfolding sched_inv_def using r q c a by simp
qed

lemma sched_inv_activate:
  assumes "sched_inv X {} s" "tasks_inv s" "groups_inv s" "g \<in> set (group_list s)" "gst s g = SECTION_STL_ENABLED" "t \<in> set (gtasks s g)"
  shows "sched_inv X {} (activate_task t s)"
  using assms(1) sched_inv_ready [OF assms] by (simp add: activate_task_def Let_def)

lemma activate_task_inv:
  assumes "stl_inv lk X {} s" "g \<in> set (group_list s)" "gst s g = SECTION_STL_ENABLED" "t \<in> set (gtasks s g)"
  shows "stl_inv lk X {} (activate_task t s)"
  using assms sched_inv_activate [of X s g t] snap_inv_activates [OF activate_task_activates, of t s lk X]
    tasks_inv_activates [OF activate_task_activates, of t s] groups_inv_cong [of "activate_task t s" s] pool_inv_cong [of "activate_task t s" s]
  by (simp add: stl_inv_def)

lemma activate_tasks_inv:
  assumes "stl_inv lk X {} s" "g \<in> set (group_list s)" "gst s g = SECTION_STL_ENABLED" "set ts \<subseteq> set (gtasks s g)"
  shows "stl_inv lk X {} (foldl (\<lambda>s t. activate_task t s) s ts) \<and> activates s (foldl (\<lambda>s t. activate_task t s) s ts)"
  using assms
proof (induction ts arbitrary: s)
  case (Cons t ts)
  have "stl_inv lk X {} (activate_task t s)" using Cons.prems by (intro activate_task_inv) auto
  then show ?case using Cons.IH [of "activate_task t s"] Cons.prems activates_trans [OF activate_task_activates] by auto
qed simp

lemma activate_group_inv:
  assumes "stl_inv lk X {} s" "g \<in> set (group_list s)"
  shows "stl_inv lk X {} (activate_group g s) \<and> activates s (activate_group g s)"
  using activate_tasks_inv [OF assms _ subset_refl] assms(1) by (simp add: activate_group_def)

lemma activate_groups_inv:
  assumes "stl_inv lk X {} s" "set gs \<subseteq> set (group_list s)"
  shows "stl_inv lk X {} (foldl (\<lambda>s g. activate_group g s) s gs) \<and> activates s (foldl (\<lambda>s g. activate_group g s) s gs)"
  using assms
proof (induction gs arbitrary: s)
  case (Cons g gs)
  have "group_list (activate_group g s) = group_list s"
    using arg_cong [OF activate_group_rest, of group_list g s] by simp
  then show ?case using Cons.IH [of "activate_group g s"] Cons.prems activate_group_inv [of lk X s g] activates_trans by auto
qed simp

theorem activate_due_inv:
  assumes "stl_inv lk X {} s"
  shows "stl_inv lk X {} (activate_due s)" and "activates s (activate_due s)"
  using activate_groups_inv [OF assms subset_refl] by (simp_all add: activate_due_def)

end
