(* ===== verification/Stl_Switch.thy ===== *)
theory Stl_Switch
  imports Stl_Inv
begin

text \<open>
  Switching keeps the invariant of the managed runtime: saving the departing task, starting or resuming the next one, and the
  completion of a callback.
\<close>

section \<open>Frames\<close>

lemma frame_valid_iff:
  "section_stl_port_frame_valid lk p f n \<longleftrightarrow> p \<noteq> 0 \<and> p AND 3 = 0 \<and> frame_ok lk f n"
  by (simp add: frame_ok_def section_stl_port_frame_valid_def)

lemma frame_ok_words: "frame_ok lk f n \<Longrightarrow> 17 \<le> n"
  by (simp add: frame_ok_def section_stl_port_frame_valid_def SECTION_STL_M_BASIC_WORDS_def split: if_splits)

lemma frame_ok_cong:
  assumes "\<And>k. k < n \<Longrightarrow> f k = f' k"
  shows "frame_ok lk f n \<longleftrightarrow> frame_ok lk f' n"
proof (cases "n < 17")
  case True
  then show ?thesis using frame_ok_words by fastforce
next
  case False
  then have f: "f 8 = f' 8" "f 15 = f' 15" "f 16 = f' 16" using assms by simp_all
  show ?thesis
  proof (cases "f 8 = lk_exc_basic lk")
    case True
    then show ?thesis using f by (simp add: frame_ok_def section_stl_port_frame_valid_def Let_def)
  next
    case nb: False
    show ?thesis
    proof (cases "n < 51")
      case True
      then show ?thesis
        using nb f by (simp add: frame_ok_def section_stl_port_frame_valid_def SECTION_STL_M_EXTENDED_WORDS_def Let_def)
    next
      case False
      then have "f 31 = f' 31" "f 32 = f' 32" using assms by simp_all
      then show ?thesis using nb f by (simp add: frame_ok_def section_stl_port_frame_valid_def Let_def)
    qed
  qed
qed

definition guard_ok :: "stl \<Rightarrow> bool" where
  "guard_ok s \<longleftrightarrow> runtime_stack s 0 = STL_GUARD \<and> runtime_stack s 1 = NOT STL_GUARD"

text \<open>The words from a saved stack pointer to the top of the stack.\<close>

definition saved_frame :: "stl_link \<Rightarrow> stl \<Rightarrow> u32 \<Rightarrow> nat \<Rightarrow> u32" where
  "saved_frame lk s sp = (\<lambda>k. runtime_stack s (stack_index lk sp + k))"

lemma frame_words_cases:
  obtains (bad) "frame_words lk sp s = (0, corrupt s)"
  | (good) n where "frame_words lk sp s = (n, s)" "0 < n" "frame_ok lk (saved_frame lk s sp) n" "guard_ok s"
      "n \<le> SECTION_STL_STACK_WORDS - STL_GUARD_WORDS" "stack_address lk STL_GUARD_WORDS \<le> sp"
      "sp < stack_address lk SECTION_STL_STACK_WORDS" "sp mod 4 = 0"
      "n = unat ((stack_address lk SECTION_STL_STACK_WORDS - sp) div 4)"
proof (cases "fst (frame_words lk sp s) = 0")
  case True
  have "\<not> frame_ok lk f 0" for f using frame_ok_words [of lk f 0] by auto
  then have "frame_words lk sp s = (0, corrupt s)"
    using True unfolding frame_words_def Let_def frame_valid_iff by (smt (verit) fst_conv)
  then show ?thesis by (rule bad)
next
  case False
  let ?low = "stack_address lk STL_GUARD_WORDS" and ?top = "stack_address lk SECTION_STL_STACK_WORDS"
  define n where "n = unat ((?top - sp) div 4)"
  have c: "frame_words lk sp s = (n, s)" "guard_ok s" "?low \<le> sp" "sp < ?top" "sp mod 4 = 0"
      "frame_ok lk (saved_frame lk s sp) n"
    using False by (auto simp: frame_words_def Let_def frame_valid_iff guard_ok_def saved_frame_def n_def split: if_splits)
  have "?top - sp \<le> ?top - ?low" using c(3,4) by (simp add: word_le_nat_alt word_less_nat_alt unat_sub_if')
  also have "?top - ?low = 2040" by (simp add: stack_address_def SECTION_STL_STACK_WORDS_def STL_GUARD_WORDS_def)
  finally have "unat (?top - sp) \<le> 2040" by (simp add: word_le_nat_alt)
  then have "n \<le> SECTION_STL_STACK_WORDS - STL_GUARD_WORDS"
    by (simp add: n_def unat_div SECTION_STL_STACK_WORDS_def STL_GUARD_WORDS_def)
  then show ?thesis using good [OF c(1) _ c(6,2) _ c(3,4,5) n_def] frame_ok_words [OF c(6)] by simp
qed

section \<open>Saving the departing task\<close>

text \<open>The state behind a successful save: the task is suspended and queued, and nobody runs.\<close>

definition suspended :: "nat \<Rightarrow> (nat \<Rightarrow> u32) \<Rightarrow> nat \<Rightarrow> u32 \<Rightarrow> nat \<Rightarrow> nat \<Rightarrow> bool \<Rightarrow> stl \<Rightarrow> stl" where
  "suspended t frame n quantum offset gap front s =
     (let s1 = task_set (\<lambda>x. x\<lparr>rt_quantum_left := quantum\<rparr>) t
                 (task_set (\<lambda>x. x\<lparr>rt_state := TASK_OLD\<rparr>) t (snapshot_store t frame n offset gap s))
      in (if front then ready_push_front t s1 else ready_push t s1)\<lparr>p_current := None\<rparr>)"

lemma suspended_tasks:
  "tasks (suspended t frame n quantum offset gap front s) = (tasks s)(t := (tasks s t)\<lparr>rt_record := Some (record_tail s),
     rt_state := TASK_OLD, rt_quantum_left := quantum, rt_queued := True\<rparr>)"
  by (simp add: suspended_def Let_def)

lemma suspended_inv:
  assumes "stl_inv lk {} {} s" "p_current s = Some t" "st s t = TASK_RUNNING" "placement n offset gap s"
    and "frame_ok lk frame n" "n \<le> SECTION_STL_STACK_WORDS - STL_GUARD_WORDS"
    and "\<forall>g \<in> set (group_list s). t \<in> set (gtasks s g) \<longrightarrow> gst s g < SECTION_STL_REVOKING"
  shows "stl_inv lk {} {} (suspended t frame n quantum offset gap front s)"
proof -
  let ?s = "suspended t frame n quantum offset gap front s"
  let ?store = "snapshot_store t frame n offset gap s"
  have inv: "groups_inv s" "tasks_inv s" "sched_inv {} {} s" "pool_inv s" "snap_inv lk {} s" using assms(1) by (simp_all add: stl_inv_def)
  have c: "stat_record_count s \<noteq> M" using assms(4) by (simp add: placement_def)
  have n: "0 < n" using frame_ok_words [OF assms(5)] by simp
  have fr: "group_list ?s = group_list s" "groups ?s = groups s" "stat_group_count ?s = stat_group_count s"
      "generation ?s = generation s" "records ?s = records ?store" "pool ?s = pool ?store" "pool_head ?s = pool_head ?store"
      "pool_tail ?s = pool_tail ?store" "record_head ?s = record_head ?store" "record_tail ?s = record_tail ?store"
      "stat_pool_used ?s = stat_pool_used ?store" "stat_record_count ?s = stat_record_count ?store"
      "dispatch_active ?s = dispatch_active s"
    by (simp_all add: suspended_def Let_def)
  have cur: "p_current ?s = None" by (simp add: suspended_def Let_def)
  note tk = suspended_tasks [of t frame n quantum offset gap front s]
  have slots: "record_slots ?s = record_slots s @ [record_tail s]"
    using record_slots_cong [of ?s ?store] store_slots [OF inv(4)] fr by simp
  have "groups_inv ?s" using inv(1) groups_inv_cong [of ?s s] fr by simp
  moreover have "tasks_inv ?s"
    by (subst tasks_inv_cong [of _ s]) (use inv(2) assms(3) in \<open>auto simp: fr tk\<close>)
  moreover have "pool_inv ?s"
    using snapshot_store_inv [OF inv(4) assms(4) n] pool_inv_cong [of ?s ?store] fr by simp
  moreover have "sched_inv {} {} ?s"
  proof -
    obtain xs where xs: "ready_is s xs" using inv(3) by (auto simp: sched_inv_def)
    have "\<not> rt_queued (tasks s t)" using inv(3) assms(3) by (simp add: sched_inv_def)
    define s1 where "s1 = task_set (\<lambda>x. x\<lparr>rt_quantum_left := quantum\<rparr>) t (task_set (\<lambda>x. x\<lparr>rt_state := TASK_OLD\<rparr>) t ?store)"
    have "t \<notin> set xs" "ready_is s1 xs" using xs ready_is_cong [of s1 s] \<open>\<not> rt_queued (tasks s t)\<close> by (auto simp: ready_is_def s1_def)
    moreover have "t < SECTION_STL_MAX_TASKS" using task_group [OF inv(2), of t] assms(3) by auto
    ultimately have "\<exists>ys. ready_is (if front then ready_push_front t s1 else ready_push t s1) ys"
      using ready_push_is [of s1 xs t] ready_push_front_is [of s1 xs t] by (cases front) auto
    then have "\<exists>ys. ready_is ?s ys" unfolding suspended_def Let_def s1_def by simp
    moreover have "admit_ok ?s g" if "g \<in> set (group_list s)" for g
    proof -
      have "admit_ok s g" "run_ok s" using inv(3) that by (auto simp: sched_inv_def)
      moreover have "gst s g < SECTION_STL_PAUSED" if "t \<in> set (gtasks s g)"
        using assms(3,7) that \<open>run_ok s\<close> \<open>g \<in> set (group_list s)\<close>
        by (cases "gst s g") (auto simp: run_ok_def state_order)
      ultimately show ?thesis by (auto simp: admit_ok_def tk fr)
    qed
    moreover have "current_ok ?s" using inv(3) assms(2) by (auto simp: sched_inv_def current_ok_def tk fr cur)
    moreover have "run_ok ?s" using inv(3) by (auto simp: sched_inv_def run_ok_def tk fr)
    ultimately show ?thesis using inv(3) by (auto simp: sched_inv_def tk fr)
  qed
  moreover have "snap_inv lk {} ?s"
    unfolding snap_inv_def
  proof (intro conjI ballI allI impI)
    fix i assume i: "i \<in> set (record_slots ?s)" "\<not> sr_consumed (records ?s i)"
    show "rec_ok lk ?s i"
    proof (cases "i = record_tail s")
      case True
      have "frame_ok lk (\<lambda>k. pool ?store (offset + k)) n"
        using assms(5) frame_ok_cong [of n frame "\<lambda>k. pool ?store (offset + k)"] snapshot_store_frame_words by metis
      then show ?thesis using True assms(6) by (simp add: rec_ok_def Let_def fr tk)
    next
      case False
      then have i': "i \<in> set (record_slots s)" using i(1) slots by simp
      then have r: "rec_ok lk s i" using inv(5) i(2) False by (simp add: snap_inv_def fr)
      then have "sr_task_index (records s i) \<noteq> t" using assms(3) by (auto simp: rec_ok_def)
      moreover have "frame_ok lk (\<lambda>k. pool ?store (sr_offset (records s i) + k)) (sr_words (records s i))"
        using r snapshot_store_keeps [OF inv(4) assms(4) n i'] frame_ok_cong
          [of "sr_words (records s i)" "\<lambda>k. pool ?store (sr_offset (records s i) + k)" "\<lambda>k. pool s (sr_offset (records s i) + k)"]
        by (simp add: rec_ok_def Let_def del: snapshot_store_simps)
      ultimately show ?thesis using r False by (simp add: rec_ok_def Let_def fr tk)
    qed
  next
    fix u assume u: "st ?s u = TASK_OLD"
    show "old_ok ?s u"
    proof (cases "u = t")
      case True
      then show ?thesis by (auto simp: old_ok_def slots tk fr)
    next
      case False
      then have "old_ok s u" using u inv(5) by (simp add: snap_inv_def tk)
      then obtain i where i: "i \<in> set (record_slots s)" "rt_record (tasks s u) = Some i" "\<not> sr_consumed (records s i)"
          "sr_task_index (records s i) = u" "sr_owner (records s i) = own s u" by (auto simp: old_ok_def)
      moreover have "i \<noteq> record_tail s" using i(1) record_tail_fresh [OF inv(4) c] by auto
      ultimately show ?thesis using False unfolding old_ok_def by (intro bexI [of _ i]) (simp_all add: slots tk fr)
    qed
  qed
  ultimately show ?thesis by (simp add: stl_inv_def)
qed

lemma stop_current_inv:
  assumes "stl_inv lk X {} s" "p_current s = Some t" "st s t = TASK_RUNNING \<or> st s t = TASK_SLEEPING"
  shows "stl_inv lk X {} ((task_set (\<lambda>x. x\<lparr>rt_state := TASK_SLEEPING\<rparr>) t s)\<lparr>p_current := None\<rparr>)" (is "stl_inv _ _ _ ?s")
proof -
  have a: "sched_inv X {} s" using assms(1) by (simp add: stl_inv_def)
  obtain xs where "ready_is s xs" using a by (auto simp: sched_inv_def)
  then have "ready_is ?s xs" using ready_is_cong [of "task_set (\<lambda>x. x\<lparr>rt_state := TASK_SLEEPING\<rparr>) t s" s] by simp
  moreover have "admit_ok ?s g" if "admit_ok s g" for g using that by (simp add: admit_ok_def)
  moreover have "current_ok ?s" using a assms(2,3) by (auto simp: sched_inv_def current_ok_def)
  moreover have "run_ok ?s" using a by (auto simp: sched_inv_def run_ok_def)
  ultimately have "sched_inv X {} ?s" using a assms(3) by (auto simp: sched_inv_def)
  then show ?thesis by (rule stl_inv_schedule [OF assms(1)]) (use assms(3) in auto)
qed

lemma drop_current_inv:
  assumes "stl_inv lk X {} s" "\<And>t. st s t \<noteq> TASK_RUNNING"
  shows "stl_inv lk X {} (s\<lparr>p_current := None\<rparr>)" (is "stl_inv _ _ _ ?s")
proof -
  have a: "sched_inv X {} s" using assms(1) by (simp add: stl_inv_def)
  have "admit_ok ?s g \<longleftrightarrow> admit_ok s g" "run_ok ?s \<longleftrightarrow> run_ok s" for g by (simp_all add: admit_ok_def run_ok_def)
  moreover have "current_ok ?s" using assms(2) by (simp add: current_ok_def)
  ultimately have "sched_inv X {} ?s" using a by (simp add: sched_inv_def)
  then show ?thesis by (rule stl_inv_schedule [OF assms(1)]) simp_all
qed

text \<open>Which task stops in a departure, and how.\<close>

lemma running_current: "sched_inv X Y s \<Longrightarrow> st s t = TASK_RUNNING \<Longrightarrow> p_current s = Some t"
  by (simp add: sched_inv_def current_ok_def)

lemma current_group:
  assumes "stl_inv lk X Y s" "p_current s = Some t"
  obtains g where "group_find (own s t) s = Some g" "g \<in> set (group_list s)" "hnd s g = own s t" "t \<in> set (gtasks s g)"
proof -
  have "st s t \<noteq> TASK_FREE" using assms by (simp add: stl_inv_def sched_inv_def current_ok_def)
  then obtain g where g: "g \<in> set (group_list s)" "t \<in> set (gtasks s g)" "own s t = hnd s g"
    using task_group [of s t] assms(1) by (auto simp: stl_inv_def)
  then show ?thesis using that group_find_eq [of s g] assms(1) by (simp add: stl_inv_def)
qed

text \<open>The six ways a departure goes.\<close>

lemma switch_depart_cases:
  assumes "stl_inv lk {} {} s" "stat_fault s = SECTION_STL_OK"
  obtains (idle) "p_current s = None" "switch_depart pv lk elapsed sp s = Inr s"
  | (revoked) t g where "p_current s = Some t" "g \<in> set (group_list s)" "hnd s g = own s t" "t \<in> set (gtasks s g)"
      "gst s g \<ge> SECTION_STL_REVOKING"
      "switch_depart pv lk elapsed sp s
        = Inr (group_cancel g ((task_set (\<lambda>x. x\<lparr>rt_state := TASK_SLEEPING\<rparr>) t s)\<lparr>p_current := None\<rparr>))"
  | (bad_frame) t where "p_current s = Some t" "st s t = TASK_RUNNING" "frame_words lk sp s = (0, corrupt s)"
      "switch_depart pv lk elapsed sp s = Inl (return_native pv ((corrupt s)\<lparr>p_current := None\<rparr>))"
  | (pool_full) t n where "p_current s = Some t" "st s t = TASK_RUNNING" "frame_words lk sp s = (n, s)" "0 < n"
      "switch_depart pv lk elapsed sp s = Inl (sp, (records_reap s)\<lparr>stat_pool_full := stat_pool_full s + 1\<rparr>)"
  | (suspends) t n quantum offset gap front where "p_current s = Some t" "st s t = TASK_RUNNING"
      "frame_words lk sp s = (n, s)" "0 < n" "placement n offset gap (records_reap s)"
      "\<forall>g \<in> set (group_list s). t \<in> set (gtasks s g) \<longrightarrow> gst s g < SECTION_STL_REVOKING"
      "front \<longleftrightarrow> native_pending s \<and> (if elapsed \<noteq> 0 then elapsed else 1) < rt_quantum_left (tasks s t)"
      "quantum = (if front then rt_quantum_left (tasks s t) - (if elapsed \<noteq> 0 then elapsed else 1) else SECTION_STL_SLICE_TICKS)"
      "switch_depart pv lk elapsed sp s
        = Inr (suspended t (saved_frame lk s sp) n quantum offset gap front (records_reap s))"
  | (completed) t where "p_current s = Some t" "st s t \<noteq> TASK_RUNNING" "switch_depart pv lk elapsed sp s = Inr (s\<lparr>p_current := None\<rparr>)"
proof (cases "p_current s")
  case None
  then show ?thesis using idle by (simp add: switch_depart_def)
next
  case (Some t)
  obtain g where g: "group_find (own s t) s = Some g" "g \<in> set (group_list s)" "hnd s g = own s t" "t \<in> set (gtasks s g)"
    using current_group [OF assms(1) Some] .
  have inv: "groups_inv s" "tasks_inv s" "pool_inv s" using assms(1) by (simp_all add: stl_inv_def)
  show ?thesis
  proof (cases "gst s g \<ge> SECTION_STL_REVOKING")
    case True
    then show ?thesis using revoked [OF Some g(2,3,4)] Some g(1) by (simp add: switch_depart_def Let_def)
  next
    case rv: False
    show ?thesis
    proof (cases "st s t = TASK_RUNNING")
      case False
      then show ?thesis using completed [OF Some] Some g(1) rv by (simp add: switch_depart_def Let_def)
    next
      case run: True
      show ?thesis
      proof (cases rule: frame_words_cases [of lk sp s])
        case bad
        then show ?thesis using bad_frame [OF Some run bad] Some g(1) rv run by (simp add: switch_depart_def Let_def)
      next
        case (good n)
        let ?f = "\<lambda>k. runtime_stack s (stack_index lk sp + k)"
        consider (full) "snapshot_save t ?f n s = (False, (records_reap s)\<lparr>stat_pool_full := stat_pool_full s + 1\<rparr>)"
          | (saved) offset gap where "snapshot_save t ?f n s = (True, snapshot_store t ?f n offset gap (records_reap s))"
              "placement n offset gap (records_reap s)"
          by (rule snapshot_save_cases [OF inv(3) assms(2), of t ?f n])
        then show ?thesis
        proof cases
          case full
          have "stat_fault (records_reap s) = SECTION_STL_OK" using stl_inv_reap(2) [OF assms(1)] assms(2) by simp
          then show ?thesis using pool_full [OF Some run good(1,2)] Some g(1) rv run good full by (simp add: switch_depart_def Let_def)
        next
          case (saved offset gap)
          have others: "gst s k < SECTION_STL_REVOKING" if "k \<in> set (group_list s)" "t \<in> set (gtasks s k)" for k
          proof -
            have "hnd s k = hnd s g" using that g inv(2) unfolding tasks_inv_def by metis
            then show ?thesis using hnd_inject [OF inv(1) that(1) g(2)] rv by (simp add: not_le)
          qed
          define charged where "charged = (if elapsed \<noteq> 0 then elapsed else 1)"
          define front where "front \<longleftrightarrow> native_pending s \<and> charged < rt_quantum_left (tasks s t)"
          define quantum where "quantum = (if front then rt_quantum_left (tasks s t) - charged else SECTION_STL_SLICE_TICKS)"
          have "switch_depart pv lk elapsed sp s
              = Inr (suspended t (saved_frame lk s sp) n quantum offset gap front (records_reap s))"
            using Some g(1) rv run \<open>frame_words lk sp s = (n, s)\<close> \<open>0 < n\<close> saved(1)
            by (simp add: switch_depart_def Let_def suspended_def saved_frame_def task_set_def
                charged_def [symmetric] quantum_def front_def)
          then show ?thesis
            using suspends [OF Some run \<open>frame_words lk sp s = (n, s)\<close> \<open>0 < n\<close> saved(2)] others
            by (simp add: front_def quantum_def charged_def)
        qed
      qed
    qed
  qed
qed

section \<open>Taking the next task\<close>

lemma pop_inv:
  assumes "stl_inv lk X {} s" "ready_is s (t # xs)"
  obtains s1 where "ready_pop s = (Some t, s1)" "stl_inv lk X {t} s1" "ready_is s1 xs"
    "tasks s1 = (tasks s)(t := (tasks s t)\<lparr>rt_queued := False\<rparr>)" "st s t = TASK_NEW \<or> st s t = TASK_OLD"
    "s1 = snd (ready_pop s)"
proof -
  obtain s1 where s1: "ready_pop s = (Some t, s1)" "ready_is s1 xs" "tasks s1 = (tasks s)(t := (tasks s t)\<lparr>rt_queued := False\<rparr>)"
    using ready_pop_Cons [OF assms(2)] by blast
  have e: "s1 = snd (ready_pop s)" using s1(1) by simp
  have a: "sched_inv X {} s" using assms(1) by (simp add: stl_inv_def)
  have q: "rt_queued (tasks s t)" using assms(2) by (simp add: ready_is_def)
  have "admit_ok s1 g" if "admit_ok s g" for g using that s1(3) by (simp add: admit_ok_def e)
  moreover have "current_ok s1" using a s1(3) by (auto simp: sched_inv_def current_ok_def e)
  moreover have "run_ok s1" using a s1(3) by (auto simp: sched_inv_def run_ok_def e)
  ultimately have "sched_inv X {t} s1" using a s1(2,3) unfolding sched_inv_def by (auto simp: e)
  then have "stl_inv lk X {t} s1" by (rule stl_inv_schedule [OF assms(1)]) (simp_all add: e s1(3) [unfolded e])
  moreover have "st s t = TASK_NEW \<or> st s t = TASK_OLD" using a q by (simp add: sched_inv_def)
  ultimately show ?thesis using that [OF s1(1) _ s1(2,3) _ e] by blast
qed

lemma queued_group:
  assumes "stl_inv lk {} Y s" "st s t = TASK_NEW \<or> st s t = TASK_OLD"
  obtains g where "group_find (own s t) s = Some g" "g \<in> set (group_list s)" "t \<in> set (gtasks s g)" "hnd s g = own s t"
    "st s t = TASK_NEW \<longrightarrow> gst s g = SECTION_STL_ENABLED" "gst s g < SECTION_STL_PAUSED" "t < SECTION_STL_MAX_TASKS"
proof -
  obtain g where g: "g \<in> set (group_list s)" "t \<in> set (gtasks s g)" "own s t = hnd s g" "t < SECTION_STL_MAX_TASKS"
  proof -
    have "st s t \<noteq> TASK_FREE" "tasks_inv s" using assms by (auto simp: stl_inv_def)
    then show thesis using task_group that by blast
  qed
  then have "admit_ok s g" using assms(1) by (simp add: stl_inv_def sched_inv_def)
  then have "st s t = TASK_NEW \<longrightarrow> gst s g = SECTION_STL_ENABLED" "gst s g < SECTION_STL_PAUSED"
    using g(2) assms(2) by (auto simp: admit_ok_def state_order)
  then show ?thesis using that g group_find_eq [of s g] assms(1) by (simp add: stl_inv_def)
qed

text \<open>So the checks of the selection always pass.\<close>

lemma queued_admitted:
  assumes "stl_inv lk {} Y s" "st s t = TASK_NEW \<or> st s t = TASK_OLD"
  shows "switch_admits t s"
proof -
  obtain g where "group_find (own s t) s = Some g" "st s t = TASK_NEW \<longrightarrow> gst s g = SECTION_STL_ENABLED" "gst s g < SECTION_STL_PAUSED"
    using queued_group [OF assms] .
  then show ?thesis using assms(2) by (auto simp: switch_admits_def)
qed

definition running_now :: "nat \<Rightarrow> stl \<Rightarrow> stl" where
  "running_now t s = (task_set (\<lambda>x. x\<lparr>rt_state := TASK_RUNNING\<rparr>) t (s\<lparr>slice_start := tick_now s\<rparr>))\<lparr>p_current := Some t\<rparr>"

lemma running_now_sched:
  assumes "sched_inv {} {t} s" "tasks_inv s" "groups_inv s" "st s t = TASK_NEW \<or> st s t = TASK_OLD" "\<not> rt_queued (tasks s t)"
    and "\<forall>u. st s u \<noteq> TASK_RUNNING" "dispatch_active s"
  shows "sched_inv {} {} (running_now t s)"
proof -
  have "ready_is (running_now t s) xs \<longleftrightarrow> ready_is s xs" for xs
    unfolding running_now_def using ready_is_cong [of "task_set (\<lambda>x. x\<lparr>rt_state := TASK_RUNNING\<rparr>) t (s\<lparr>slice_start := tick_now s\<rparr>)" s]
    by simp
  moreover have "admit_ok (running_now t s) g" if "admit_ok s g" for g using that by (auto simp: admit_ok_def running_now_def)
  moreover have "current_ok (running_now t s)" using assms(6,7) by (auto simp: current_ok_def running_now_def)
  moreover have "run_ok (running_now t s)"
    unfolding run_ok_def
  proof (intro ballI impI)
    fix g u assume u: "g \<in> set (group_list (running_now t s))" "u \<in> set (gtasks (running_now t s) g)" "st (running_now t s) u = TASK_RUNNING"
    then have "u = t" "g \<in> set (group_list s)" "t \<in> set (gtasks s g)" using assms(6) by (auto simp: running_now_def split: if_splits)
    moreover from this have "admit_ok s g" using assms(1) by (simp add: sched_inv_def)
    ultimately show "gst (running_now t s) g \<noteq> SECTION_STL_PAUSED"
      using assms(4) by (auto simp: admit_ok_def running_now_def state_order)
  qed
  ultimately show ?thesis using assms(1,5) by (auto simp: sched_inv_def running_now_def)
qed

lemma running_now_fresh:
  assumes "stl_inv lk {} {t} s" "st s t = TASK_NEW" "\<not> rt_queued (tasks s t)" "\<forall>u. st s u \<noteq> TASK_RUNNING" "dispatch_active s"
  shows "stl_inv lk {} {} (running_now t s)"
proof -
  have "sched_inv {} {} (running_now t s)"
    using running_now_sched [of t s] assms by (simp add: stl_inv_def)
  then show ?thesis by (rule stl_inv_schedule [OF assms(1)]) (use assms(2) in \<open>auto simp: running_now_def\<close>)
qed

section \<open>Resuming\<close>

text \<open>The state behind a successful restore, before and after the reclaiming.\<close>

definition unpacked :: "nat \<Rightarrow> nat \<Rightarrow> stl \<Rightarrow> stl" where
  "unpacked t i s =
     (let r = records s i; s1 = s\<lparr>runtime_stack := copy_words (runtime_stack s) (SECTION_STL_STACK_WORDS - sr_words r)
              (\<lambda>k. pool s (sr_offset r + k)) (sr_words r), records := (records s)(i := r\<lparr>sr_consumed := True\<rparr>)\<rparr>;
          s2 = task_set (\<lambda>x. x\<lparr>rt_record := None\<rparr>) t s1
      in s2\<lparr>stat_restores := stat_restores s2 + 1\<rparr>)"

definition pool_address_ok :: "stl_link \<Rightarrow> bool" where
  "pool_address_ok lk \<longleftrightarrow> (\<forall>k < P. lk_pool lk + 4 * of_nat k \<noteq> 0 \<and> (lk_pool lk + 4 * of_nat k) AND 3 = 0)"

lemma live_record_bounds:
  assumes "pool_inv s" "i \<in> set (record_slots s)"
  shows "0 < sr_words (records s i)" "sr_offset (records s i) + sr_words (records s i) \<le> P"
proof -
  have "r \<in> set rs \<Longrightarrow> spans a rs b \<Longrightarrow> 0 < sr_words r \<and> sr_offset r + sr_words r \<le> P" for r a rs b
    by (induction rs arbitrary: a) auto
  moreover have "records s i \<in> set (recs s)" "spans (pool_head s) (recs s) (pool_tail s)"
    using assms by (simp_all add: recs_def pool_inv_def)
  ultimately show "0 < sr_words (records s i)" "sr_offset (records s i) + sr_words (records s i) \<le> P" by blast+
qed

lemma old_record:
  assumes "stl_inv lk {} Y s" "st s t = TASK_OLD"
  obtains i where "i \<in> set (record_slots s)" "rt_record (tasks s t) = Some i" "\<not> sr_consumed (records s i)"
    "sr_task_index (records s i) = t" "sr_owner (records s i) = own s t" "rec_ok lk s i"
  using assms by (auto simp: stl_inv_def snap_inv_def old_ok_def)

lemma unpacked_pool: "pool_inv s \<Longrightarrow> i \<in> set (record_slots s) \<Longrightarrow> pool_inv (unpacked t i s)"
proof -
  assume a: "pool_inv s" "i \<in> set (record_slots s)"
  have same: "spans p rs b \<longleftrightarrow> spans p rs' b" "charges rs = charges rs'"
    if "list_all2 (\<lambda>r r'. sr_words r = sr_words r' \<and> sr_offset r = sr_offset r' \<and> sr_charge r = sr_charge r') rs rs'" for p rs rs' b
    using that by (induction arbitrary: p rule: list_all2_induct) auto
  have slots: "record_slots (unpacked t i s) = record_slots s"
    by (rule record_slots_cong) (simp_all add: unpacked_def Let_def)
  have "list_all2 (\<lambda>r r'. sr_words r = sr_words r' \<and> sr_offset r = sr_offset r' \<and> sr_charge r = sr_charge r')
      (recs (unpacked t i s)) (recs s)"
    unfolding recs_def slots by (simp add: list_all2_map1 list_all2_map2 list.rel_refl) (simp add: unpacked_def Let_def list.rel_refl)
  note c = same [OF this]
  have "pool_head (unpacked t i s) = pool_head s" "pool_tail (unpacked t i s) = pool_tail s"
      "record_head (unpacked t i s) = record_head s" "record_tail (unpacked t i s) = record_tail s"
      "stat_record_count (unpacked t i s) = stat_record_count s" "stat_pool_used (unpacked t i s) = stat_pool_used s"
    by (simp_all add: unpacked_def Let_def)
  then show "pool_inv (unpacked t i s)" using a(1) by (simp add: pool_inv_def c)
qed

lemma snapshot_restore_cases:
  assumes "stl_inv lk {} Y s" "stat_fault s = SECTION_STL_OK" "st s t = TASK_OLD"
  obtains (failed) "snapshot_restore lk t s = (0, corrupt s)" "\<not> pool_address_ok lk"
  | (restored) i where "i \<in> set (record_slots s)" "rt_record (tasks s t) = Some i" "\<not> sr_consumed (records s i)"
      "sr_task_index (records s i) = t" "sr_owner (records s i) = own s t" "rec_ok lk s i"
      "stat_fault (records_reap (unpacked t i s)) = SECTION_STL_OK"
      "snapshot_restore lk t s
        = (stack_address lk (SECTION_STL_STACK_WORDS - sr_words (records s i)), records_reap (unpacked t i s))"
proof -
  obtain i where i: "i \<in> set (record_slots s)" "rt_record (tasks s t) = Some i" "\<not> sr_consumed (records s i)"
      "sr_task_index (records s i) = t" "sr_owner (records s i) = own s t" "rec_ok lk s i"
    using old_record [OF assms(1,3)] .
  have inv: "pool_inv s" using assms(1) by (simp add: stl_inv_def)
  have b: "0 < sr_words (records s i)" "sr_offset (records s i) + sr_words (records s i) \<le> P" "i < M"
    using live_record_bounds [OF inv i(1)] record_slots_less [OF i(1)] by simp_all
  have r: "sr_words (records s i) \<le> SECTION_STL_STACK_WORDS - STL_GUARD_WORDS"
      "frame_ok lk (\<lambda>k. pool s (sr_offset (records s i) + k)) (sr_words (records s i))"
    using i(6) by (simp_all add: rec_ok_def Let_def)
  have f: "stat_fault (records_reap (unpacked t i s)) = SECTION_STL_OK"
    using records_reap_ok [OF unpacked_pool [OF inv i(1)]] assms(2) by (simp add: reaped_def unpacked_def Let_def)
  have o: "\<not> sr_offset (records s i) > P - sr_words (records s i)" "\<not> sr_words (records s i) > P" using b by linarith+
  define a where "a = lk_pool lk + 4 * of_nat (sr_offset (records s i))"
  have e: "snapshot_restore lk t s =
     (if \<not> section_stl_port_frame_valid lk a (\<lambda>k. pool s (sr_offset (records s i) + k)) (sr_words (records s i)) then (0, corrupt s)
      else (stack_address lk (SECTION_STL_STACK_WORDS - sr_words (records s i)), records_reap (unpacked t i s)))"
    using i(2-5) b(3) o r(1) f by (simp add: snapshot_restore_def Let_def unpacked_def a_def)
  show ?thesis
  proof (cases "a \<noteq> 0 \<and> a AND 3 = 0")
    case True
    then show ?thesis using restored [OF i f] e r(2) by (simp add: frame_valid_iff)
  next
    case False
    have "sr_offset (records s i) < P" using b(1,2) by linarith
    then have "\<not> pool_address_ok lk" using False by (auto simp: pool_address_ok_def a_def)
    moreover have "snapshot_restore lk t s = (0, corrupt s)" using e False by (auto simp: frame_valid_iff)
    ultimately show ?thesis using failed by blast
  qed
qed

lemma reap_loop_running:
  "reap_loop n (running_now t s) = map_prod id (running_now t) (reap_loop n s)"
proof (induction n arbitrary: s)
  case 0
  then show ?case by simp
next
  case (Suc n)
  define f where "f = (\<lambda>s. s\<lparr>pool_head := (sr_offset (records s (record_head s)) + sr_words (records s (record_head s))) mod P,
      stat_pool_used := stat_pool_used s - sr_charge (records s (record_head s)),
      records := (records s)(record_head s := record_zero), record_head := (record_head s + 1) mod M,
      stat_record_count := stat_record_count s - 1\<rparr> :: stl)"
  have step: "reap_loop (Suc n) z = (if stat_record_count z = 0 \<or> \<not> sr_consumed (records z (record_head z)) then (False, z)
      else if sr_charge (records z (record_head z)) > stat_pool_used z \<or> sr_words (records z (record_head z)) > P
        \<or> sr_offset (records z (record_head z)) > P - sr_words (records z (record_head z)) then (True, corrupt z)
      else reap_loop n (f z))" for z by (simp add: Let_def f_def)
  have "f (running_now t s) = running_now t (f s)" "corrupt (running_now t s) = running_now t (corrupt s)"
    by (simp_all add: f_def running_now_def task_set_def corrupt_def)
  moreover have "stat_record_count (running_now t s) = stat_record_count s" "records (running_now t s) = records s"
      "record_head (running_now t s) = record_head s" "stat_pool_used (running_now t s) = stat_pool_used s"
    by (simp_all add: running_now_def)
  ultimately show ?case using Suc.IH [of "f s"] by (simp add: step del: reap_loop.simps)
qed

lemma records_reap_running: "records_reap (running_now t s) = running_now t (records_reap s)"
  using reap_loop_running [of "stat_record_count s" t s]
  by (cases "reap_loop (stat_record_count s) s")
    (auto simp: records_reap_def Let_def running_now_def task_set_def corrupt_def split: bool.split)

lemma running_now_resumed:
  assumes "stl_inv lk {} {t} s" "st s t = TASK_OLD" "\<not> rt_queued (tasks s t)" "\<forall>u. st s u \<noteq> TASK_RUNNING" "dispatch_active s"
    and "i \<in> set (record_slots s)" "rt_record (tasks s t) = Some i" "sr_task_index (records s i) = t"
  shows "stl_inv lk {} {} (running_now t (unpacked t i s))"
proof -
  let ?u = "unpacked t i s" and ?s = "running_now t (unpacked t i s)"
  have inv: "groups_inv s" "tasks_inv s" "sched_inv {} {t} s" "pool_inv s" "snap_inv lk {} s" using assms(1) by (simp_all add: stl_inv_def)
  have tk: "tasks ?u = (tasks s)(t := (tasks s t)\<lparr>rt_record := None\<rparr>)" by (simp add: unpacked_def Let_def)
  have fr: "group_list ?u = group_list s" "groups ?u = groups s" "stat_group_count ?u = stat_group_count s"
      "generation ?u = generation s" "pool ?u = pool s" "p_ready_next ?u = p_ready_next s" "p_ready_first ?u = p_ready_first s"
      "p_ready_tail ?u = p_ready_tail s" "stat_ready_count ?u = stat_ready_count s" "p_current ?u = p_current s"
      "dispatch_active ?u = dispatch_active s" "record_slots ?u = record_slots s"
      "records ?u = (records s)(i := (records s i)\<lparr>sr_consumed := True\<rparr>)"
    by (simp_all add: unpacked_def Let_def record_slots_def)
  have ru: "group_list ?s = group_list ?u" "groups ?s = groups ?u" "stat_group_count ?s = stat_group_count ?u"
      "generation ?s = generation ?u" "pool ?s = pool ?u" "record_slots ?s = record_slots ?u" "records ?s = records ?u"
      "record_head ?s = record_head ?u" "record_tail ?s = record_tail ?u" "stat_record_count ?s = stat_record_count ?u"
      "pool_head ?s = pool_head ?u" "pool_tail ?s = pool_tail ?u" "stat_pool_used ?s = stat_pool_used ?u"
      "tasks ?s = (tasks ?u)(t := (tasks ?u t)\<lparr>rt_state := TASK_RUNNING\<rparr>)"
    by (simp_all add: running_now_def record_slots_def)
  have "groups_inv ?s" using inv(1) groups_inv_cong [of ?s s] fr ru by simp
  moreover have t: "tasks_inv ?u" by (subst tasks_inv_cong [of _ s]) (use inv(2) in \<open>auto simp: fr tk\<close>)
  then have "tasks_inv ?s" by (subst tasks_inv_cong [of _ ?u]) (use assms(2) in \<open>auto simp: ru tk\<close>)
  moreover have "pool_inv ?s" using unpacked_pool [OF inv(4) assms(6), of t] pool_inv_cong [of ?s ?u] ru by simp
  moreover have "sched_inv {} {t} ?u" by (subst sched_inv_cong [of _ s]) (use inv(3) in \<open>auto simp: fr tk\<close>)
  then have "sched_inv {} {} ?s"
    by (rule running_now_sched) (use t assms(2-5) inv(1) groups_inv_cong [of ?u s] in \<open>auto simp: fr tk\<close>)
  moreover have "snap_inv lk {} ?s"
    unfolding snap_inv_def
  proof (intro conjI ballI allI impI)
    fix j assume j: "j \<in> set (record_slots ?s)" "\<not> sr_consumed (records ?s j)"
    then have ne: "j \<noteq> i" "j \<in> set (record_slots s)" by (auto simp: ru fr split: if_splits)
    then have r: "rec_ok lk s j" using inv(5) j(2) by (simp add: snap_inv_def ru fr)
    then have "sr_task_index (records s j) \<noteq> t" using ne(1) assms(7) by (auto simp: rec_ok_def Let_def)
    then show "rec_ok lk ?s j" using r ne(1) by (simp add: rec_ok_def Let_def ru fr tk)
  next
    fix u assume "st ?s u = TASK_OLD"
    then have u: "u \<noteq> t" "st s u = TASK_OLD" by (auto simp: ru tk split: if_splits)
    then obtain j where j: "j \<in> set (record_slots s)" "rt_record (tasks s u) = Some j" "\<not> sr_consumed (records s j)"
        "sr_task_index (records s j) = u" "sr_owner (records s j) = own s u"
      using old_record [OF assms(1)] by metis
    then have "j \<noteq> i" using assms(8) u(1) by auto
    then show "old_ok ?s u" using j u(1) unfolding old_ok_def by (intro bexI [of _ j]) (simp_all add: ru fr tk)
  qed
  ultimately show ?thesis by (simp add: stl_inv_def)
qed

end
