(* ===== verification/Stl_Link.thy ===== *)
theory Stl_Link
  imports Stl_Switch
begin

text \<open>
  Addresses of the linked image: where the stack and the pool may lie, and that then a prepared or restored frame passes every
  check of the port.
\<close>

lemma and3: "(x :: u32) AND 3 = 0 \<longleftrightarrow> unat x mod 4 = 0"
proof -
  have "x AND 3 = take_bit 2 x" by (simp add: take_bit_eq_mask mask_numeral)
  then have "unat (x AND 3) = unat x mod 4" by (simp add: unat_mod take_bit_eq_mod)
  then show ?thesis by (metis unat_eq_0)
qed

lemma and7: "(x :: u32) AND 7 = 0 \<longleftrightarrow> unat x mod 8 = 0"
proof -
  have "x AND 7 = take_bit 3 x" by (simp add: take_bit_eq_mask mask_numeral)
  then have "unat (x AND 7) = unat x mod 8" by (simp add: unat_mod take_bit_eq_mod)
  then show ?thesis by (metis unat_eq_0)
qed

definition link_ok :: "stl_link \<Rightarrow> bool" where
  "link_ok lk \<longleftrightarrow> unat (lk_stack lk) mod 8 = 0 \<and> 0 < unat (lk_stack lk) \<and> unat (lk_stack lk) + 4 * SECTION_STL_STACK_WORDS < 2 ^ 32
     \<and> unat (lk_pool lk) mod 4 = 0 \<and> 0 < unat (lk_pool lk) \<and> unat (lk_pool lk) + 4 * SECTION_STL_POOL_WORDS < 2 ^ 32
     \<and> lk_entry lk AND 1 \<noteq> 0 \<and> lk_entry lk AND NOT 1 \<noteq> 0 \<and> (lk_low_align_mask lk = 3 \<or> lk_low_align_mask lk = 7)"

lemma unat_times4: "4 * k < 2 ^ 32 \<Longrightarrow> unat (4 * of_nat k :: u32) = 4 * k"
proof -
  assume "4 * k < 2 ^ 32"
  then have "unat (of_nat (4 * k) :: u32) = 4 * k" by (simp add: unat_of_nat del: of_nat_mult)
  then show ?thesis by simp
qed

lemma unat_offset: "unat (a :: u32) + 4 * k < 2 ^ 32 \<Longrightarrow> unat (a + 4 * of_nat k) = unat a + 4 * k"
proof -
  assume a: "unat a + 4 * k < 2 ^ 32"
  have "unat (4 * of_nat k :: u32) = 4 * k" using a by (intro unat_times4) simp
  then show ?thesis using a unat_add_lem [of a "4 * of_nat k"] by simp
qed

lemma pool_address: "link_ok lk \<Longrightarrow> pool_address_ok lk"
  unfolding pool_address_ok_def
proof (intro allI impI)
  fix k assume l: "link_ok lk" "k < P"
  then have "unat (lk_pool lk + 4 * of_nat k) = unat (lk_pool lk) + 4 * k" by (intro unat_offset) (simp add: link_ok_def)
  moreover have "0 < unat (lk_pool lk) + 4 * k" "(unat (lk_pool lk) + 4 * k) mod 4 = 0" using l(1) by (simp_all add: link_ok_def)
  ultimately show "lk_pool lk + 4 * of_nat k \<noteq> 0 \<and> (lk_pool lk + 4 * of_nat k) AND 3 = 0"
    unfolding and3 by (metis less_numeral_extra(3) unat_0)
qed

lemma stack_unat: "link_ok lk \<Longrightarrow> k \<le> SECTION_STL_STACK_WORDS \<Longrightarrow> unat (stack_address lk k) = unat (lk_stack lk) + 4 * k"
  unfolding stack_address_def by (intro unat_offset) (simp add: link_ok_def)

lemma stack_index_address: "link_ok lk \<Longrightarrow> k \<le> SECTION_STL_STACK_WORDS \<Longrightarrow> stack_index lk (stack_address lk k) = k"
proof -
  assume a: "link_ok lk" "k \<le> SECTION_STL_STACK_WORDS"
  have "4 * k < 2 ^ 32" using a by (simp add: SECTION_STL_STACK_WORDS_def)
  then have "unat (4 * of_nat k :: u32) = 4 * k" by (rule unat_times4)
  then show "stack_index lk (stack_address lk k) = k" by (simp add: stack_index_def stack_address_def)
qed

lemma stack_address_distance:
  assumes "link_ok lk" "k \<le> SECTION_STL_STACK_WORDS"
  shows "unat ((stack_address lk SECTION_STL_STACK_WORDS - stack_address lk k) div 4) = SECTION_STL_STACK_WORDS - k"
proof -
  have "stack_address lk k \<le> stack_address lk SECTION_STL_STACK_WORDS"
    using stack_unat [OF assms] stack_unat [OF assms(1) order_refl] assms(2) by (simp add: word_le_nat_alt)
  then show ?thesis
    using stack_unat [OF assms] stack_unat [OF assms(1) order_refl] by (simp add: unat_div unat_sub diff_mult_distrib2 [symmetric])
qed

text \<open>A frame at word \<open>k\<close> of the stack.\<close>

lemma frame_words_at:
  assumes "link_ok lk" "guard_ok s" "STL_GUARD_WORDS \<le> k" "k < SECTION_STL_STACK_WORDS"
    and "frame_ok lk (\<lambda>j. runtime_stack s (k + j)) (SECTION_STL_STACK_WORDS - k)"
  shows "frame_words lk (stack_address lk k) s = (SECTION_STL_STACK_WORDS - k, s)"
proof -
  let ?sp = "stack_address lk k"
  have u: "unat ?sp = unat (lk_stack lk) + 4 * k" using stack_unat [OF assms(1)] assms(4) by simp
  have "stack_address lk STL_GUARD_WORDS \<le> ?sp" "?sp < stack_address lk SECTION_STL_STACK_WORDS"
    using u stack_unat [OF assms(1), of STL_GUARD_WORDS] stack_unat [OF assms(1) order_refl] assms(3,4)
    by (simp_all add: word_le_nat_alt word_less_nat_alt)
  moreover have "unat ?sp mod 4 = 0" using u assms(1) by (auto simp: link_ok_def)
  then have "?sp AND 3 = 0" "?sp mod 4 = 0" by (simp_all add: and3 word_arith_nat_mod)
  moreover have "?sp \<noteq> 0" using u assms(1) by (metis add_gr_0 link_ok_def less_numeral_extra(3) unat_0)
  moreover have "unat ((stack_address lk SECTION_STL_STACK_WORDS - ?sp) div 4) = SECTION_STL_STACK_WORDS - k"
    using stack_address_distance [OF assms(1)] assms(4) by simp
  moreover have "stack_index lk ?sp = k" using stack_index_address [OF assms(1)] assms(4) by simp
  ultimately show ?thesis
    using assms(2,5) by (simp add: frame_words_def Let_def guard_ok_def frame_valid_iff not_less [symmetric])
qed

lemma prepare_frame_ok: "link_ok lk \<Longrightarrow> frame_ok lk (prepare_frame lk) 17"
  by (simp add: frame_ok_def section_stl_port_frame_valid_def prepare_frame_def link_ok_def Let_def and.assoc
      SECTION_STL_M_BASIC_WORDS_def SECTION_STL_M_XPSR_THUMB_def SECTION_STL_M_XPSR_ALIGN_def SECTION_STL_M_XPSR_IPSR_def)

lemma prepare_ok:
  assumes "link_ok lk"
  shows "section_stl_port_prepare lk s = (stack_address lk (SECTION_STL_STACK_WORDS - 17),
    s\<lparr>runtime_stack := copy_words (runtime_stack s) (SECTION_STL_STACK_WORDS - 17) (prepare_frame lk) 17\<rparr>)"
proof -
  let ?low = "stack_address lk STL_GUARD_WORDS" and ?top = "stack_address lk SECTION_STL_STACK_WORDS"
  have u: "unat ?low = unat (lk_stack lk) + 8" "unat ?top = unat (lk_stack lk) + 2048"
    using stack_unat [OF assms, of STL_GUARD_WORDS] stack_unat [OF assms order_refl]
    by (simp_all add: STL_GUARD_WORDS_def SECTION_STL_STACK_WORDS_def)
  have m: "unat (lk_stack lk) mod 8 = 0" "0 < unat (lk_stack lk)" using assms by (simp_all add: link_ok_def)
  have "?low \<noteq> 0" "?top \<noteq> 0" using u m by (metis add_gr_0 less_numeral_extra(3) unat_0)+
  moreover have "(unat (lk_stack lk) + 8) mod 8 = 0" "(unat (lk_stack lk) + 8) mod 4 = 0" "(unat (lk_stack lk) + 2048) mod 8 = 0"
    using m(1) by presburger+
  then have "?low AND lk_low_align_mask lk = 0" "?top AND 7 = 0" using assms u by (auto simp: link_ok_def and3 and7)
  moreover have "\<not> ?top < ?low" using u by (simp add: word_less_nat_alt)
  moreover have "?top - ?low = 2040" by (simp add: stack_address_def SECTION_STL_STACK_WORDS_def STL_GUARD_WORDS_def)
  moreover have "lk_entry lk \<noteq> 0" using assms by (auto simp: link_ok_def)
  moreover have "?top - 4 * of_nat 17 = stack_address lk (SECTION_STL_STACK_WORDS - 17)"
    by (simp add: stack_address_def SECTION_STL_STACK_WORDS_def)
  ultimately show ?thesis
    using assms by (simp add: section_stl_port_prepare_def Let_def SECTION_STL_M_BASIC_WORDS_def link_ok_def)
qed

end
