(* ===== verification/Stl_Dispatch.thy ===== *)
theory Stl_Dispatch
  imports Stl_Link
begin

text \<open>
  A whole switch of the managed runtime: the selection takes the head of the queue and starts or resumes it, and the invariant
  holds behind every switch that raises no fault.
\<close>

section \<open>Returning to the native caller\<close>

lemma return_native_rest:
  "(snd (return_native pv s))\<lparr>native_pending := False, stat_fault := SECTION_STL_OK\<rparr>
   = s\<lparr>native_pending := False, stat_fault := SECTION_STL_OK\<rparr>"
  by (simp add: return_native_def host_commit_def corrupt_def)

lemma return_native_frame [simp]:
  "groups (snd (return_native pv s)) = groups s" "tasks (snd (return_native pv s)) = tasks s"
  "records (snd (return_native pv s)) = records s" "init_callbacks (snd (return_native pv s)) = init_callbacks s"
  "pool (snd (return_native pv s)) = pool s" "runtime_stack (snd (return_native pv s)) = runtime_stack s"
  "group_list (snd (return_native pv s)) = group_list s" "p_ready_first (snd (return_native pv s)) = p_ready_first s"
  "p_ready_tail (snd (return_native pv s)) = p_ready_tail s" "p_ready_next (snd (return_native pv s)) = p_ready_next s"
  "p_current (snd (return_native pv s)) = p_current s" "stl_initialized (snd (return_native pv s)) = stl_initialized s"
  "generation (snd (return_native pv s)) = generation s" "tick_now (snd (return_native pv s)) = tick_now s"
  "slice_start (snd (return_native pv s)) = slice_start s" "pool_head (snd (return_native pv s)) = pool_head s"
  "pool_tail (snd (return_native pv s)) = pool_tail s" "record_head (snd (return_native pv s)) = record_head s"
  "record_tail (snd (return_native pv s)) = record_tail s"
  "stat_group_count (snd (return_native pv s)) = stat_group_count s"
  "stat_ready_count (snd (return_native pv s)) = stat_ready_count s"
  "stat_pool_used (snd (return_native pv s)) = stat_pool_used s"
  "stat_record_count (snd (return_native pv s)) = stat_record_count s"
  "stat_saves (snd (return_native pv s)) = stat_saves s" "stat_restores (snd (return_native pv s)) = stat_restores s"
  "stat_discarded (snd (return_native pv s)) = stat_discarded s"
  "stat_pool_full (snd (return_native pv s)) = stat_pool_full s"
  "dispatch_active (snd (return_native pv s)) = dispatch_active s"
  "switch_pending (snd (return_native pv s)) = switch_pending s"
  by (rule arg_cong [OF return_native_rest, of groups, simplified] arg_cong [OF return_native_rest, of tasks, simplified]
    arg_cong [OF return_native_rest, of records, simplified] arg_cong [OF return_native_rest, of
    init_callbacks, simplified] arg_cong [OF return_native_rest, of pool, simplified] arg_cong [OF return_native_rest, of
    runtime_stack, simplified] arg_cong [OF return_native_rest, of group_list, simplified] arg_cong [OF
    return_native_rest, of p_ready_first, simplified] arg_cong [OF return_native_rest, of p_ready_tail, simplified]
    arg_cong [OF return_native_rest, of p_ready_next, simplified] arg_cong [OF return_native_rest, of
    p_current, simplified] arg_cong [OF return_native_rest, of stl_initialized, simplified] arg_cong [OF
    return_native_rest, of generation, simplified] arg_cong [OF return_native_rest, of tick_now, simplified] arg_cong [OF
    return_native_rest, of slice_start, simplified] arg_cong [OF return_native_rest, of pool_head, simplified]
    arg_cong [OF return_native_rest, of pool_tail, simplified] arg_cong [OF return_native_rest, of
    record_head, simplified] arg_cong [OF return_native_rest, of record_tail, simplified] arg_cong [OF
    return_native_rest, of stat_group_count, simplified] arg_cong [OF return_native_rest, of stat_ready_count, simplified]
    arg_cong [OF return_native_rest, of stat_pool_used, simplified] arg_cong [OF return_native_rest, of
    stat_record_count, simplified] arg_cong [OF return_native_rest, of stat_saves, simplified] arg_cong [OF
    return_native_rest, of stat_restores, simplified] arg_cong [OF return_native_rest, of stat_discarded, simplified]
    arg_cong [OF return_native_rest, of stat_pool_full, simplified] arg_cong [OF return_native_rest, of
    dispatch_active, simplified] arg_cong [OF return_native_rest, of switch_pending, simplified])+

lemma return_native_null [simp]: "fst (return_native pv s) = 0"
  by (simp add: return_native_def host_commit_def)

lemma return_native_fault:
  "stat_fault (snd (return_native pv s)) = (if pv_owner_commit pv handle_none then stat_fault s else SECTION_STL_CORRUPT)"
  by (simp add: return_native_def host_commit_def corrupt_def)

lemma return_native_inv: "stl_inv lk X Y s \<Longrightarrow> stl_inv lk X Y (snd (return_native pv s))"
  by (subst stl_inv_cong [of _ s]) simp_all

section \<open>Starting and resuming\<close>

definition prepared :: "nat \<Rightarrow> (nat \<Rightarrow> u32) \<Rightarrow> stl \<Rightarrow> stl" where
  "prepared t stack s = (task_set (\<lambda>x. x\<lparr>rt_quantum_left := SECTION_STL_SLICE_TICKS\<rparr>) t s)\<lparr>runtime_stack := stack\<rparr>"

lemma prepare_cases:
  obtains (none) "section_stl_port_prepare lk s = (0, s)" "\<not> link_ok lk"
  | (frame) sp stack where "section_stl_port_prepare lk s = (sp, s\<lparr>runtime_stack := stack\<rparr>)"
      "link_ok lk \<longrightarrow> sp = stack_address lk (SECTION_STL_STACK_WORDS - 17)
         \<and> stack = copy_words (runtime_stack s) (SECTION_STL_STACK_WORDS - 17) (prepare_frame lk) 17"
proof (cases "link_ok lk")
  case True
  then show ?thesis using frame [OF prepare_ok [OF True]] by simp
next
  case False
  have "section_stl_port_prepare lk s = (0, s)
      \<or> (\<exists>sp stack. section_stl_port_prepare lk s = (sp, s\<lparr>runtime_stack := stack\<rparr>))"
    by (simp add: section_stl_port_prepare_def Let_def) blast
  then show ?thesis using none frame False by blast
qed

lemma copy_words_high: "i < off \<Longrightarrow> copy_words dst off src n i = dst i"
  by (simp add: copy_words_def)

lemma prepared_frame_words:
  assumes "link_ok lk" "guard_ok s"
  shows "frame_words lk (stack_address lk (SECTION_STL_STACK_WORDS - 17))
     (prepared t (copy_words (runtime_stack s) (SECTION_STL_STACK_WORDS - 17) (prepare_frame lk) 17) s)
   = (17, prepared t (copy_words (runtime_stack s) (SECTION_STL_STACK_WORDS - 17) (prepare_frame lk) 17) s)"
proof -
  let ?s = "prepared t (copy_words (runtime_stack s) (SECTION_STL_STACK_WORDS - 17) (prepare_frame lk) 17) s"
  have "frame_ok lk (\<lambda>j. runtime_stack ?s (SECTION_STL_STACK_WORDS - 17 + j)) 17"
    using prepare_frame_ok [OF assms(1)] frame_ok_cong [of 17 "prepare_frame lk" "\<lambda>j. runtime_stack ?s (SECTION_STL_STACK_WORDS - 17 + j)"]
    by (simp add: prepared_def copy_words_def)
  moreover have "guard_ok ?s" using assms(2) by (simp add: guard_ok_def prepared_def copy_words_def SECTION_STL_STACK_WORDS_def)
  ultimately show ?thesis
    using frame_words_at [OF assms(1), of ?s "SECTION_STL_STACK_WORDS - 17"] by (simp add: STL_GUARD_WORDS_def SECTION_STL_STACK_WORDS_def)
qed

lemma unpacked_stack:
  "runtime_stack (unpacked t i s) = copy_words (runtime_stack s) (SECTION_STL_STACK_WORDS - sr_words (records s i))
     (\<lambda>k. pool s (sr_offset (records s i) + k)) (sr_words (records s i))"
  by (simp add: unpacked_def Let_def)

lemma resumed_frame_words:
  assumes "link_ok lk" "guard_ok s" "0 < sr_words (records s i)" "rec_ok lk s i"
  shows "frame_words lk (stack_address lk (SECTION_STL_STACK_WORDS - sr_words (records s i))) (records_reap (unpacked t i s))
    = (sr_words (records s i), records_reap (unpacked t i s))"
proof -
  let ?n = "sr_words (records s i)" and ?s = "records_reap (unpacked t i s)"
  have n: "?n \<le> SECTION_STL_STACK_WORDS - STL_GUARD_WORDS" "frame_ok lk (\<lambda>k. pool s (sr_offset (records s i) + k)) ?n"
    using assms(4) by (simp_all add: rec_ok_def Let_def)
  have "frame_ok lk (\<lambda>j. runtime_stack ?s (SECTION_STL_STACK_WORDS - ?n + j)) ?n"
    using n(2) frame_ok_cong [of ?n "\<lambda>k. pool s (sr_offset (records s i) + k)" "\<lambda>j. runtime_stack ?s (SECTION_STL_STACK_WORDS - ?n + j)"]
    by (simp add: unpacked_stack copy_words_def)
  moreover have "guard_ok ?s"
    using assms(2) n(1) by (auto simp: guard_ok_def unpacked_stack copy_words_def SECTION_STL_STACK_WORDS_def STL_GUARD_WORDS_def)
  moreover have "SECTION_STL_STACK_WORDS - (SECTION_STL_STACK_WORDS - ?n) = ?n" "STL_GUARD_WORDS \<le> SECTION_STL_STACK_WORDS - ?n"
      "SECTION_STL_STACK_WORDS - ?n < SECTION_STL_STACK_WORDS"
    using n(1) assms(3) by (simp_all add: SECTION_STL_STACK_WORDS_def STL_GUARD_WORDS_def)
  ultimately show ?thesis using frame_words_at [OF assms(1), of ?s "SECTION_STL_STACK_WORDS - ?n"] by simp
qed

text \<open>How the arrival of the selected task ends.\<close>

lemma switch_arrive_cases:
  assumes "stl_inv lk {} {t} s" "stat_fault s = SECTION_STL_OK" "st s t = TASK_NEW \<or> st s t = TASK_OLD"
    and "p_current s = None"
  obtains (failed) s1 where "switch_arrive pv lk t s = (0, s1)" "stat_fault s1 \<noteq> SECTION_STL_OK" "p_current s1 = None"
      "\<not> link_ok lk \<or> \<not> guard_ok s \<or> \<not> pv_owner_commit pv (own s t)"
  | (fresh) sp stack where "st s t = TASK_NEW" "sp \<noteq> 0" "pv_owner_commit pv (own s t)"
      "switch_arrive pv lk t s = (sp, running_now t (prepared t stack s))"
  | (resumed) i sp n where "st s t = TASK_OLD" "i \<in> set (record_slots s)" "rt_record (tasks s t) = Some i"
      "sr_task_index (records s i) = t" "sr_owner (records s i) = own s t" "\<not> sr_consumed (records s i)" "rec_ok lk s i"
      "sp = stack_address lk (SECTION_STL_STACK_WORDS - sr_words (records s i))" "sp \<noteq> 0" "pv_owner_commit pv (own s t)"
      "frame_words lk sp (records_reap (unpacked t i s)) = (n, records_reap (unpacked t i s))" "0 < n"
      "switch_arrive pv lk t s = (sp, running_now t (records_reap (unpacked t i s)))"
      "stat_fault (records_reap (unpacked t i s)) = SECTION_STL_OK"
proof -
  have fail: thesis if "switch_arrive pv lk t s = return_native pv z" "stat_fault z \<noteq> SECTION_STL_OK" "p_current z = None"
    "\<not> link_ok lk \<or> \<not> guard_ok s \<or> \<not> pv_owner_commit pv (own s t)" for z
  proof (rule failed)
    show "switch_arrive pv lk t s = (0, snd (return_native pv z))" using that(1) by (metis prod.collapse return_native_null)
  qed (use that in \<open>simp_all add: return_native_fault\<close>)
  have body: "switch_arrive pv lk t s =
     (if p = 0 then return_native pv (corrupt z)
      else if fst (frame_words lk p z) = 0 then return_native pv (corrupt (corrupt z))
      else if \<not> pv_owner_commit pv (own s t) then return_native pv ((corrupt z)\<lparr>p_current := None\<rparr>)
      else (p, running_now t z))"
    if "(if st s t = TASK_OLD then snapshot_restore lk t s
         else section_stl_port_prepare lk (task_set (\<lambda>x. x\<lparr>rt_quantum_left := SECTION_STL_SLICE_TICKS\<rparr>) t s)) = (p, z)"
      "stat_fault z = SECTION_STL_OK" "own z t = own s t" for p z
    using that by (cases rule: frame_words_cases [of lk p z])
      (simp_all add: switch_arrive_def Let_def host_commit_def running_now_def corrupt_def)
  consider "st s t = TASK_NEW" | "st s t = TASK_OLD" using assms(3) by blast
  then show thesis
  proof cases
    case 1
    let ?q = "task_set (\<lambda>x. x\<lparr>rt_quantum_left := SECTION_STL_SLICE_TICKS\<rparr>) t s"
    show thesis
    proof (cases rule: prepare_cases [of lk ?q])
      case none
      then show thesis using fail [of "corrupt ?q"] body [of 0 ?q] 1 assms(2,4) by (simp add: corrupt_def)
    next
      case (frame sp stack)
      let ?z = "prepared t stack s"
      have z: "?q\<lparr>runtime_stack := stack\<rparr> = ?z" "p_current ?z = None" "stat_fault ?z = SECTION_STL_OK" "own ?z t = own s t"
        using assms(2,4) by (simp_all add: prepared_def)
      have b0: "(if st s t = TASK_OLD then snapshot_restore lk t s
           else section_stl_port_prepare lk (task_set (\<lambda>x. x\<lparr>rt_quantum_left := SECTION_STL_SLICE_TICKS\<rparr>) t s)) = (sp, ?z)"
        using frame(1) 1 z(1) by simp
      note b = body [OF b0 z(3,4)]
      have good: "sp \<noteq> 0 \<and> fst (frame_words lk sp ?z) \<noteq> 0" if "link_ok lk" "guard_ok s"
        using prepared_frame_words [OF that, of t] frame(2) that(1)
          stack_unat [OF that(1), of "SECTION_STL_STACK_WORDS - 17"]
        by (auto simp: link_ok_def)
      show thesis
      proof (cases "sp = 0 \<or> fst (frame_words lk sp ?z) = 0 \<or> \<not> pv_owner_commit pv (own s t)")
        case True
        then show thesis
          using fail [of "corrupt ?z"] fail [of "corrupt (corrupt ?z)"] fail [of "(corrupt ?z)\<lparr>p_current := None\<rparr>"]
            b z(2) good by (auto simp: corrupt_def split: if_splits)
      next
        case False
        then show thesis using fresh [OF 1, of sp stack] b by simp
      qed
    qed
  next
    case 2
    consider (failed) "snapshot_restore lk t s = (0, corrupt s)" "\<not> pool_address_ok lk"
      | (restored) i where "i \<in> set (record_slots s)" "rt_record (tasks s t) = Some i" "\<not> sr_consumed (records s i)"
      "sr_task_index (records s i) = t" "sr_owner (records s i) = own s t" "rec_ok lk s i"
      "stat_fault (records_reap (unpacked t i s)) = SECTION_STL_OK"
      "snapshot_restore lk t s
        = (stack_address lk (SECTION_STL_STACK_WORDS - sr_words (records s i)), records_reap (unpacked t i s))"
      by (rule snapshot_restore_cases [OF assms(1,2) 2])
    then show thesis
    proof cases
      case failed
      have "switch_arrive pv lk t s = return_native pv (corrupt (corrupt s))"
        using failed(1) 2 by (simp add: switch_arrive_def corrupt_def)
      moreover have "\<not> link_ok lk" using failed(2) pool_address by blast
      ultimately show thesis using fail [of "corrupt (corrupt s)"] assms(4) by (simp add: corrupt_def)
    next
      case (restored i)
      let ?sp = "stack_address lk (SECTION_STL_STACK_WORDS - sr_words (records s i))" and ?z = "records_reap (unpacked t i s)"
      have w: "0 < sr_words (records s i)" using live_record_bounds restored(1) assms(1) by (simp add: stl_inv_def)
      have z: "p_current ?z = None" "own ?z t = own s t" using assms(4) by (simp_all add: unpacked_def Let_def)
      have good: "?sp \<noteq> 0 \<and> fst (frame_words lk ?sp ?z) \<noteq> 0" if "link_ok lk" "guard_ok s"
        using resumed_frame_words [OF that w restored(6), of t] w that(1)
          stack_unat [OF that(1), of "SECTION_STL_STACK_WORDS - sr_words (records s i)"]
        by (auto simp: link_ok_def)
      note b = body [of ?sp ?z, OF _ restored(7) z(2)]
      show thesis
      proof (cases "?sp = 0 \<or> fst (frame_words lk ?sp ?z) = 0 \<or> \<not> pv_owner_commit pv (own s t)")
        case True
        then show thesis
          using fail [of "corrupt ?z"] fail [of "corrupt (corrupt ?z)"] fail [of "(corrupt ?z)\<lparr>p_current := None\<rparr>"]
            b restored(8) 2 z(1) good by (auto simp: corrupt_def split: if_splits)
      next
        case False
        then obtain n where n: "frame_words lk ?sp ?z = (n, ?z)" "0 < n"
          by (cases rule: frame_words_cases [of lk ?sp ?z]) auto
        have "switch_arrive pv lk t s = (?sp, running_now t ?z)" using False b restored(8) 2 by simp
        then show thesis using resumed [OF 2 restored(1,2,4,5,3,6) refl _ _ n] False restored(7) by blast
      qed
    qed
  qed
qed

section \<open>The selection\<close>

lemma idle_no_running: "sched_inv X Y s \<Longrightarrow> p_current s = None \<Longrightarrow> st s t \<noteq> TASK_RUNNING"
  by (auto simp: sched_inv_def current_ok_def)

lemma switch_select_head:
  assumes "stl_inv lk {} {} s" "ready_is s (t # xs)"
  shows "switch_select (Suc n) pv lk s = switch_arrive pv lk t (snd (ready_pop s))"
proof -
  obtain s1 where s1: "ready_pop s = (Some t, s1)" "stl_inv lk {} {t} s1" "tasks s1 = (tasks s)(t := (tasks s t)\<lparr>rt_queued := False\<rparr>)"
      "st s t = TASK_NEW \<or> st s t = TASK_OLD"
    using pop_inv [OF assms] .
  then have "switch_admits t s1" by (intro queued_admitted [OF s1(2)]) simp
  then show ?thesis using s1(1) by simp
qed

lemma switch_select_idle: "ready_is s [] \<Longrightarrow> switch_select (Suc n) pv lk s = return_native pv s"
  by (simp add: ready_pop_Nil)

text \<open>The state behind a departure: nobody runs, and the invariant holds.\<close>

lemma departed_inv:
  assumes "stl_inv lk {} {} s" "stat_fault s = SECTION_STL_OK" "switch_depart pv lk elapsed sp s = Inr s1"
  shows "stl_inv lk {} {} s1 \<and> stat_fault s1 = SECTION_STL_OK \<and> p_current s1 = None \<and> runtime_stack s1 = runtime_stack s
    \<and> dispatch_active s1 = dispatch_active s \<and> stl_initialized s1 = stl_initialized s \<and> native_pending s1 = native_pending s"
  using assms(1,2)
proof (cases rule: switch_depart_cases [where pv = pv and lk = lk and elapsed = elapsed and sp = sp])
  case idle
  then show ?thesis using assms by simp
next
  case (revoked t g)
  let ?s = "(task_set (\<lambda>x. x\<lparr>rt_state := TASK_SLEEPING\<rparr>) t s)\<lparr>p_current := None\<rparr>"
  have e: "s1 = group_cancel g ?s" using revoked(6) assms(3) by simp
  have g: "admit_ok s g" "current_ok s" using assms(1) revoked(2) by (simp_all add: stl_inv_def sched_inv_def)
  have "st s t = TASK_NEW \<longrightarrow> gst s g = SECTION_STL_ENABLED" using g(1) revoked(4) by (simp add: admit_ok_def)
  moreover have "gst s g \<noteq> SECTION_STL_ENABLED" using revoked(5) by (auto simp: state_order)
  moreover have "st s t \<noteq> TASK_FREE" "st s t \<noteq> TASK_OLD" using g(2) revoked(1) by (simp_all add: current_ok_def)
  ultimately have "st s t = TASK_RUNNING \<or> st s t = TASK_SLEEPING" by (cases "st s t") simp_all
  then have i: "stl_inv lk {} {} ?s" by (rule stop_current_inv [OF assms(1) revoked(1)])
  have "stl_inv lk {} {} s1" unfolding e
    by (rule group_cancel_inv(1)) (use stl_inv_mono [OF i] revoked(2) in auto)
  moreover have "stat_fault s1 = stat_fault ?s" unfolding e
    by (rule group_cancel_inv(2) [of lk _ _ "{}"]) (use stl_inv_mono [OF i] revoked(2) in auto)
  ultimately show ?thesis using assms(2) by (simp add: e)
next
  case (suspends t n quantum offset gap front)
  have r: "stl_inv lk {} {} (records_reap s)" "stat_fault (records_reap s) = SECTION_STL_OK"
    using stl_inv_reap [OF assms(1)] assms(2) by simp_all
  obtain "frame_ok lk (saved_frame lk s sp) n" "n \<le> SECTION_STL_STACK_WORDS - STL_GUARD_WORDS"
    using suspends(3,4) by (cases rule: frame_words_cases [of lk sp s]) auto
  then have "stl_inv lk {} {} (suspended t (saved_frame lk s sp) n quantum offset gap front (records_reap s))"
    by (intro suspended_inv [OF r(1)]) (use suspends in simp_all)
  moreover have "s1 = suspended t (saved_frame lk s sp) n quantum offset gap front (records_reap s)" using suspends(9) assms(3) by simp
  ultimately show ?thesis using r(2) by (simp add: suspended_def Let_def)
next
  case (completed t)
  have "st s u \<noteq> TASK_RUNNING" for u using completed running_current [of "{}" "{}" s u] assms(1) by (auto simp: stl_inv_def)
  then have "stl_inv lk {} {} (s\<lparr>p_current := None\<rparr>)" by (rule drop_current_inv [OF assms(1)])
  then show ?thesis using completed(3) assms by simp
qed (use assms(3) in simp_all)

text \<open>A switch: the six ways it goes.\<close>

lemma switch_cases:
  assumes "stl_inv lk {} {} s" "stat_fault s = SECTION_STL_OK" "pv_host_switch_allowed pv"
  obtains (bad_frame) t where "p_current s = Some t" "st s t = TASK_RUNNING" "frame_words lk sp s = (0, corrupt s)"
      "section_stl_switch pv lk sp s = return_native pv ((corrupt s)\<lparr>p_current := None\<rparr>)"
  | (pool_full) t n where "p_current s = Some t" "st s t = TASK_RUNNING" "frame_words lk sp s = (n, s)" "0 < n"
      "section_stl_switch pv lk sp s = (sp, (records_reap s)\<lparr>stat_pool_full := stat_pool_full s + 1\<rparr>)"
  | (native) s1 where "switch_depart pv lk (tick_now s - slice_start s) sp s = Inr s1"
      "\<not> stl_initialized s \<or> native_pending s" "section_stl_switch pv lk sp s = return_native pv s1"
  | (idle) s1 s2 where "switch_depart pv lk (tick_now s - slice_start s) sp s = Inr s1" "s2 = records_reap (activate_due s1)"
      "stl_inv lk {} {} s2" "stat_fault s2 = SECTION_STL_OK" "p_current s2 = None" "ready_is s2 []"
      "section_stl_switch pv lk sp s = return_native pv s2"
  | (switch) s1 s2 t xs s3 where "switch_depart pv lk (tick_now s - slice_start s) sp s = Inr s1" "s2 = records_reap (activate_due s1)"
      "stl_inv lk {} {} s2" "stat_fault s2 = SECTION_STL_OK" "p_current s2 = None" "ready_is s2 (t # xs)"
      "s3 = snd (ready_pop s2)" "ready_is s3 xs" "tasks s3 = (tasks s2)(t := (tasks s2 t)\<lparr>rt_queued := False\<rparr>)"
      "stl_inv lk {} {t} s3" "st s3 t = TASK_NEW \<or> st s3 t = TASK_OLD"
      "section_stl_switch pv lk sp s = switch_arrive pv lk t s3"
proof -
  let ?d = "switch_depart pv lk (tick_now s - slice_start s) sp s"
  show thesis
  proof (cases ?d)
    case (Inr s1)
    note d = departed_inv [OF assms(1,2) Inr]
    show thesis
    proof (cases "\<not> stl_initialized s \<or> native_pending s")
      case True
      then show thesis using native [OF Inr True] Inr assms(2,3) d by (auto simp: section_stl_switch_def Let_def)
    next
      case False
      define s2 where "s2 = records_reap (activate_due s1)"
      have s2: "stl_inv lk {} {} s2" "stat_fault s2 = SECTION_STL_OK" "p_current s2 = None"
        using stl_inv_reap [OF activate_due_inv(1)] d by (auto simp: s2_def)
      have e: "section_stl_switch pv lk sp s = switch_select (Suc SECTION_STL_MAX_TASKS) pv lk s2"
        using Inr assms(2,3) d s2(2) False by (simp add: section_stl_switch_def Let_def s2_def)
      obtain ys where ys: "ready_is s2 ys" using s2(1) by (auto simp: stl_inv_def sched_inv_def)
      show thesis
      proof (cases ys)
        case Nil
        then show thesis using idle [OF Inr s2_def s2] ys e switch_select_idle by metis
      next
        case (Cons t xs)
        then have r: "ready_is s2 (t # xs)" using ys by simp
        obtain s3 where s3: "ready_pop s2 = (Some t, s3)" "stl_inv lk {} {t} s3" "ready_is s3 xs"
            "tasks s3 = (tasks s2)(t := (tasks s2 t)\<lparr>rt_queued := False\<rparr>)" "st s2 t = TASK_NEW \<or> st s2 t = TASK_OLD"
            "s3 = snd (ready_pop s2)"
          using pop_inv [OF s2(1) r] .
        have "section_stl_switch pv lk sp s = switch_arrive pv lk t s3" using e switch_select_head [OF s2(1) r] s3(6) by simp
        moreover have "st s3 t = TASK_NEW \<or> st s3 t = TASK_OLD" using s3(4,5) by simp
        ultimately show thesis using switch [OF Inr s2_def s2 r s3(6,3,4,2)] by blast
      qed
    qed
  next
    case (Inl r)
    then have e: "section_stl_switch pv lk sp s = r" using assms(2,3) by (simp add: section_stl_switch_def Let_def)
    show thesis
      using assms(1,2)
    proof (cases rule: switch_depart_cases [where pv = pv and lk = lk and elapsed = "tick_now s - slice_start s" and sp = sp])
      case (bad_frame t)
      then show thesis using that(1) Inl e by simp
    next
      case (pool_full t n)
      then show thesis using that(2) Inl e by simp
    qed (use Inl in simp_all)
  qed
qed

end
