(* ===== verification/Stl_Entry.thy ===== *)
theory Stl_Entry
  imports Stl_Dispatch
begin

text \<open>The trampoline of the managed runtime: the completion of a callback, and starting the next one inline.\<close>

lemma request_switch_simps [simp]:
  "groups (request_switch s) = groups s" "tasks (request_switch s) = tasks s" "records (request_switch s) = records s"
  "pool (request_switch s) = pool s" "runtime_stack (request_switch s) = runtime_stack s" "group_list (request_switch s) = group_list s"
  "p_current (request_switch s) = p_current s" "stat_fault (request_switch s) = stat_fault s" "generation (request_switch s) = generation s"
  "stl_initialized (request_switch s) = stl_initialized s" "dispatch_active (request_switch s) = dispatch_active s"
  "native_pending (request_switch s) = native_pending s" "tick_now (request_switch s) = tick_now s"
  "record_slots (request_switch s) = record_slots s"
  by (simp_all add: request_switch_def record_slots_def)

lemma request_switch_inv [simp]: "stl_inv lk X Y (request_switch s) \<longleftrightarrow> stl_inv lk X Y s"
  by (rule stl_inv_cong) (simp_all add: request_switch_def)

section \<open>Completion\<close>

lemma sleep_inv:
  assumes "stl_inv lk X {} s" "st s t = TASK_RUNNING"
  shows "stl_inv lk X {} (task_set (\<lambda>x. x\<lparr>rt_state := TASK_SLEEPING\<rparr>) t s)" (is "stl_inv _ _ _ ?s")
proof -
  have a: "sched_inv X {} s" using assms(1) by (simp add: stl_inv_def)
  have cur: "p_current s = Some t" by (rule running_current [OF a assms(2)])
  have c: "current_ok s" "run_ok s" using a by (simp_all add: sched_inv_def)
  have r: "ready_is ?s xs \<longleftrightarrow> ready_is s xs" for xs using ready_is_cong [of ?s s] by simp
  have ad: "admit_ok ?s g" if "admit_ok s g" for g using that by (simp add: admit_ok_def)
  have c1: "current_ok ?s" using c(1) cur unfolding current_ok_def by simp
  have c2: "run_ok ?s" using c(2) unfolding run_ok_def by auto
  have q: "rt_queued (tasks ?s u) \<longleftrightarrow> st ?s u = TASK_NEW \<or> st ?s u = TASK_OLD" for u
    using a assms(2) by (simp add: sched_inv_def)
  have "sched_inv X {} ?s" using a r ad c1 c2 q by (simp add: sched_inv_def del: task_set_simps)
  then show ?thesis by (rule stl_inv_schedule [OF assms(1)]) (use assms(2) in auto)
qed

lemma entry_retire_inv:
  assumes "stl_inv lk {} {} s" "st s t = TASK_RUNNING"
  shows "stl_inv lk {} {} (entry_retire outcome t s)" and "\<And>u. st (entry_retire outcome t s) u \<noteq> TASK_RUNNING"
    and "\<And>u. own (entry_retire outcome t s) u = own s u"
proof -
  let ?s = "task_set (\<lambda>x. x\<lparr>rt_state := TASK_SLEEPING\<rparr>) t s"
  obtain g where g: "g \<in> set (group_list s)" "t \<in> set (gtasks s g)" "own s t = hnd s g"
    using task_group [of s t] assms by (auto simp: stl_inv_def)
  have find: "group_find (own s t) s = Some g" using group_find_eq [of s g] g assms(1) by (simp add: stl_inv_def)
  have s1: "stl_inv lk {} {} ?s" by (rule sleep_inv [OF assms])
  have s2: "stl_inv lk {} {} (ready_push t (task_set (\<lambda>x. x\<lparr>rt_state := TASK_NEW\<rparr>) t ?s))" if "gst s g = SECTION_STL_ENABLED"
  proof -
    have "sched_inv {} {} (ready_push t (task_set (\<lambda>x. x\<lparr>rt_state := TASK_NEW\<rparr>) t ?s))"
      using s1 g that by (intro sched_inv_ready [where g = g]) (simp_all add: stl_inv_def)
    then show ?thesis by (rule stl_inv_schedule [OF s1]) simp_all
  qed
  define m where "m = (if gst s g = SECTION_STL_ENABLED \<and> outcome = SECTION_TASK_RUNNING
      then ready_push t (task_set (\<lambda>x. x\<lparr>rt_state := TASK_NEW\<rparr>) t ?s) else ?s)"
  have e: "entry_retire outcome t s = activate_due m" by (simp add: entry_retire_def Let_def find m_def)
  have m: "stl_inv lk {} {} m" using s1 s2 by (simp add: m_def)
  show "stl_inv lk {} {} (entry_retire outcome t s)" unfolding e by (rule activate_due_inv(1) [OF m])
  have r: "st m u \<noteq> TASK_RUNNING \<and> own m u = own s u" for u
  proof -
    have "st s u = TASK_RUNNING \<Longrightarrow> u = t"
      using running_current [of "{}" "{}" s] assms by (metis option.inject stl_invD(3))
    then show ?thesis by (auto simp: m_def)
  qed
  fix u
  have "own (activate_due m) u = own m u" "st (activate_due m) u = st m u \<or> st (activate_due m) u = TASK_NEW"
    using activate_due_inv(2) [OF m] by (auto simp: activates_def)
  then show "st (entry_retire outcome t s) u \<noteq> TASK_RUNNING" "own (entry_retire outcome t s) u = own s u" using r [of u] by (auto simp: e)
qed

lemma entry_retire_frame:
  "group_list (entry_retire outcome t s) = group_list s" "groups (entry_retire outcome t s) = groups s"
  "stat_fault (entry_retire outcome t s) = stat_fault s" "p_current (entry_retire outcome t s) = p_current s"
  "dispatch_active (entry_retire outcome t s) = dispatch_active s" "runtime_stack (entry_retire outcome t s) = runtime_stack s"
  "generation (entry_retire outcome t s) = generation s" "records (entry_retire outcome t s) = records s" "pool (entry_retire outcome t s) = pool s"
  "record_slots (entry_retire outcome t s) = record_slots s" "stl_initialized (entry_retire outcome t s) = stl_initialized s"
  by (simp_all add: entry_retire_def Let_def record_slots_def)

text \<open>The next task started inline: its slot runs, and the group that was left while being revoked is closed.\<close>

lemma entry_inline_running:
  "entry_inline nx p_group s =
     (let s1 = running_now nx (task_set (\<lambda>x. x\<lparr>rt_quantum_left := SECTION_STL_SLICE_TICKS\<rparr>) nx (snd (ready_pop s)))
      in if p_group \<noteq> None \<and> gst s1 (the p_group) = SECTION_STL_REVOKING then group_cancel (the p_group) s1 else s1)"
proof -
  have "task_set (\<lambda>x. x\<lparr>rt_quantum_left := SECTION_STL_SLICE_TICKS, rt_state := TASK_RUNNING\<rparr>) t
      (z\<lparr>p_current := Some t, slice_start := tick_now z\<rparr>)
    = running_now t (task_set (\<lambda>x. x\<lparr>rt_quantum_left := SECTION_STL_SLICE_TICKS\<rparr>) t z)" for t z
    by (simp add: running_now_def task_set_def)
  then show ?thesis by (simp only: entry_inline_def Let_def)
qed

lemma entry_complete_cases:
  assumes "stl_inv lk {} {} s" "p_current s = Some t" "st s t = TASK_RUNNING"
  obtains (stay) "entry_complete pv inline_ok outcome s = (False, request_switch (entry_retire outcome t s))"
  | (refused) nx where "entry_complete pv inline_ok outcome s = (False, request_switch (corrupt (entry_retire outcome t s)))"
      "\<not> pv_owner_commit pv (own s nx)"
  | (inline) nx xs where "ready_is (entry_retire outcome t s) (nx # xs)" "st (entry_retire outcome t s) nx = TASK_NEW" "inline_ok"
      "pv_host_switch_allowed pv" "\<not> native_pending (entry_retire outcome t s)" "pv_owner_commit pv (own s nx)"
      "entry_complete pv inline_ok outcome s = (True, entry_inline nx (group_find (own s t) s) (entry_retire outcome t s))"
proof -
  define z where "z = entry_retire outcome t s"
  have z: "stl_inv lk {} {} z" "own z u = own s u" for u using entry_retire_inv [OF assms(1,3)] by (auto simp: z_def)
  obtain ys where ys: "ready_is z ys" using z(1) by (auto simp: stl_inv_def sched_inv_def)
  define stay where "stay = (False, request_switch z)"
  have e: "entry_complete pv inline_ok outcome s =
     (case p_ready_first z of
        None \<Rightarrow> stay
      | Some nx \<Rightarrow>
          if inline_ok \<and> \<not> native_pending z \<and> pv_host_switch_allowed pv
             \<and> tick_now z - slice_start z < rt_quantum_left (tasks z t) \<and> st z nx = TASK_NEW
          then (case group_find (own z nx) z of
                  None \<Rightarrow> stay
                | Some g \<Rightarrow>
                    if gst z g \<noteq> SECTION_STL_ENABLED then stay
                    else if \<not> pv_owner_commit pv (own z nx) then (False, request_switch (corrupt z))
                    else (True, entry_inline nx (group_find (own s t) s) z))
          else stay)"
    by (simp add: entry_complete_def assms(2) Let_def host_commit_def stay_def z_def split: option.split)
  show thesis
  proof (cases ys)
    case Nil
    then show thesis using that(1) e ready_is_first [OF ys] by (simp add: stay_def z_def)
  next
    case (Cons nx xs)
    then have f: "p_ready_first z = Some nx" using ready_is_first [OF ys] by simp
    show thesis
    proof (cases "entry_complete pv inline_ok outcome s = stay")
      case True
      then show thesis using that(1) by (simp add: stay_def z_def)
    next
      case False
      have c: "inline_ok" "\<not> native_pending z" "pv_host_switch_allowed pv" "st z nx = TASK_NEW"
          "entry_complete pv inline_ok outcome s = (if \<not> pv_owner_commit pv (own z nx) then (False, request_switch (corrupt z))
             else (True, entry_inline nx (group_find (own s t) s) z))"
        using False unfolding e f option.case by (auto split: option.splits if_splits)
      show thesis
      proof (cases "pv_owner_commit pv (own s nx)")
        case True
        then show thesis using that(3) ys Cons c z(2) by (simp add: z_def)
      next
        case False
        then show thesis using that(2) c(5) z(2) by (simp add: z_def)
      qed
    qed
  qed
qed

lemma corrupt_inv [simp]: "stl_inv lk X Y (corrupt s) \<longleftrightarrow> stl_inv lk X Y s"
  by (rule stl_inv_cong) (simp_all add: corrupt_def)

lemma entry_inline_running_inv:
  assumes "stl_inv lk {} {} z" "ready_is z (nx # xs)" "st z nx = TASK_NEW" "\<forall>u. st z u \<noteq> TASK_RUNNING" "dispatch_active z"
  shows "stl_inv lk {} {} (running_now nx (task_set (\<lambda>x. x\<lparr>rt_quantum_left := SECTION_STL_SLICE_TICKS\<rparr>) nx (snd (ready_pop z))))"
proof -
  obtain s1 where s1: "stl_inv lk {} {nx} s1" "tasks s1 = (tasks z)(nx := (tasks z nx)\<lparr>rt_queued := False\<rparr>)" "s1 = snd (ready_pop z)"
    using pop_inv [OF assms(1,2)] by metis
  let ?q = "task_set (\<lambda>x. x\<lparr>rt_quantum_left := SECTION_STL_SLICE_TICKS\<rparr>) nx s1"
  have "stl_inv lk {} {nx} ?q \<longleftrightarrow> stl_inv lk {} {nx} s1" by (rule stl_inv_cong) simp_all
  then have "stl_inv lk {} {nx} ?q" using s1(1) by simp
  moreover have "dispatch_active ?q" using assms(5) by (simp add: s1(3))
  ultimately have "stl_inv lk {} {} (running_now nx ?q)"
    using assms(3,4) by (intro running_now_fresh) (simp_all add: s1(2))
  then show ?thesis by (simp add: s1(3))
qed

lemma entry_inline_inv:
  assumes "stl_inv lk {} {} z" "ready_is z (nx # xs)" "st z nx = TASK_NEW" "\<forall>u. st z u \<noteq> TASK_RUNNING" "dispatch_active z"
    and "\<forall>g. p_group = Some g \<longrightarrow> g \<in> set (group_list z)"
  shows "stl_inv lk {} {} (entry_inline nx p_group z)" and "stat_fault (entry_inline nx p_group z) = stat_fault z"
proof -
  define r where "r = running_now nx (task_set (\<lambda>x. x\<lparr>rt_quantum_left := SECTION_STL_SLICE_TICKS\<rparr>) nx (snd (ready_pop z)))"
  have r: "stl_inv lk {} {} r" unfolding r_def by (rule entry_inline_running_inv [OF assms(1-5)])
  have f: "stat_fault r = stat_fault z" "group_list r = group_list z" by (simp_all add: r_def running_now_def)
  have e: "entry_inline nx p_group z = (if p_group \<noteq> None \<and> gst r (the p_group) = SECTION_STL_REVOKING then group_cancel (the p_group) r else r)"
    by (simp add: entry_inline_running Let_def r_def)
  have c: "stl_inv lk {} {} (group_cancel g r) \<and> stat_fault (group_cancel g r) = stat_fault r" if "p_group = Some g" for g
  proof -
    have "stl_inv lk (insert (hnd r g) {}) {} r" "g \<in> set (group_list r)" using stl_inv_mono [OF r] assms(6) that f(2) by auto
    then show ?thesis using group_cancel_inv by blast
  qed
  show "stl_inv lk {} {} (entry_inline nx p_group z)" "stat_fault (entry_inline nx p_group z) = stat_fault z"
    using c r f(1) by (auto simp: e)
qed

text \<open>A completion keeps the invariant; the host's refusal of the next owner is the only fault it raises.\<close>

lemma entry_complete_inv:
  assumes "stl_inv lk {} {} s" "p_current s = Some t" "st s t = TASK_RUNNING" "stat_fault s = SECTION_STL_OK"
    and "entry_complete pv inline_ok outcome s = (b, s1)"
  shows "stl_inv lk {} {} s1"
    and "stat_fault s1 \<noteq> SECTION_STL_OK \<Longrightarrow> p_current s1 = Some t \<and> st s1 t \<noteq> TASK_RUNNING \<and> (\<exists>h. \<not> pv_owner_commit pv h)"
proof -
  let ?z = "entry_retire outcome t s"
  have z: "stl_inv lk {} {} ?z" "\<And>u. st ?z u \<noteq> TASK_RUNNING" by (rule entry_retire_inv [OF assms(1,3)])+
  have f: "stat_fault ?z = SECTION_STL_OK" "p_current ?z = Some t" using assms(2,4) by (simp_all add: entry_retire_frame)
  consider (stay) "s1 = request_switch ?z" | (refused) nx where "s1 = request_switch (corrupt ?z)" "\<not> pv_owner_commit pv (own s nx)"
    | (inline) nx xs where "ready_is ?z (nx # xs)" "st ?z nx = TASK_NEW" "s1 = entry_inline nx (group_find (own s t) s) ?z"
    by (rule entry_complete_cases [OF assms(1-3), of pv inline_ok outcome]) (use assms(5) in auto)
  then have "stl_inv lk {} {} s1 \<and> (stat_fault s1 \<noteq> SECTION_STL_OK \<longrightarrow>
      p_current s1 = Some t \<and> st s1 t \<noteq> TASK_RUNNING \<and> (\<exists>h. \<not> pv_owner_commit pv h))"
  proof cases
    case stay
    then show ?thesis using z f by simp
  next
    case (refused nx)
    have "p_current (corrupt ?z) = Some t" "st (corrupt ?z) t \<noteq> TASK_RUNNING" using z(2) f(2) by (simp_all add: corrupt_def)
    then show ?thesis using refused z(1) by auto
  next
    case (inline nx xs)
    have "dispatch_active ?z" using assms(1,2) by (simp add: entry_retire_frame stl_inv_def sched_inv_def current_ok_def)
    moreover have "\<forall>g. group_find (own s t) s = Some g \<longrightarrow> g \<in> set (group_list ?z)"
      using group_find_Some by (auto simp: entry_retire_frame)
    ultimately show ?thesis
      using entry_inline_inv [OF z(1) inline(1,2)] z(2) f(1) by (simp add: inline(3))
  qed
  then show "stl_inv lk {} {} s1"
    and "stat_fault s1 \<noteq> SECTION_STL_OK \<Longrightarrow> p_current s1 = Some t \<and> st s1 t \<noteq> TASK_RUNNING \<and> (\<exists>h. \<not> pv_owner_commit pv h)"
    by simp_all
qed

end
