(* ===== verification/Stl_Calls.thy ===== *)
theory Stl_Calls
  imports Stl_Entry
begin

text \<open>
  The operations that an application calls on the managed runtime, as one type of requests: none of them starts, stops or replaces
  the running task, each keeps the invariant, and a closed handle stays closed.
\<close>

section \<open>What a call leaves alone\<close>

text \<open>A handle that was handed out and whose group is being closed, is closed or is forgotten.\<close>

definition dead :: "stl \<Rightarrow> stl_handle \<Rightarrow> bool" where
  "dead s h \<longleftrightarrow> unat (sh_generation h) \<le> unat (generation s)
     \<and> (\<forall>g \<in> set (group_list s). hnd s g = h \<longrightarrow> gst s g \<ge> SECTION_STL_REVOKING)"

definition calm :: "stl \<Rightarrow> stl \<Rightarrow> bool" where
  "calm s s' \<longleftrightarrow> p_current s' = p_current s \<and> dispatch_active s' = dispatch_active s
     \<and> (\<forall>t. st s' t = TASK_RUNNING \<longrightarrow> st s t = TASK_RUNNING \<and> own s' t = own s t)
     \<and> (stat_fault s \<noteq> SECTION_STL_OK \<longrightarrow> stat_fault s' \<noteq> SECTION_STL_OK) \<and> (\<forall>h. dead s h \<longrightarrow> dead s' h)"

lemma calm_refl [simp]: "calm s s"
  by (simp add: calm_def)

lemma calm_trans: "calm s s1 \<Longrightarrow> calm s1 s2 \<Longrightarrow> calm s s2"
  by (simp add: calm_def)

lemma calm_frame:
  assumes "p_current s' = p_current s" "dispatch_active s' = dispatch_active s" "\<And>t. st s' t = TASK_RUNNING \<Longrightarrow> st s t = TASK_RUNNING \<and> own s' t = own s t"
    and "stat_fault s' = stat_fault s" "generation s' = generation s" "group_list s' = group_list s"
    and "\<And>g. hnd s' g = hnd s g" "\<And>g. gst s g \<ge> SECTION_STL_REVOKING \<Longrightarrow> gst s' g \<ge> SECTION_STL_REVOKING"
  shows "calm s s'"
  using assms by (simp add: calm_def dead_def)

lemma remove_loop_state: "st (ready_remove_loop n h old q p s) t = st s t \<or> st (ready_remove_loop n h old q p s) t = TASK_SLEEPING"
proof (induction n arbitrary: q p s)
  case (Suc n)
  show ?case
  proof (cases p)
    case (Some u)
    define f where "f = (\<lambda>s. if p_ready_tail s = Some u then s\<lparr>p_ready_tail := q\<rparr> else s :: stl)"
    define z where "z = (\<lambda>s. (task_set (\<lambda>x. x\<lparr>rt_queued := False, rt_state := TASK_SLEEPING\<rparr>) u
        ((f s)\<lparr>p_ready_next := (p_ready_next (f s))(u := None)\<rparr>)))"
    define s1 where "s1 = (case q of None \<Rightarrow> s\<lparr>p_ready_first := p_ready_next s u\<rparr>
        | Some k \<Rightarrow> s\<lparr>p_ready_next := (p_ready_next s)(k := p_ready_next s u)\<rparr>)"
    have e: "ready_remove_loop (Suc n) h old q p s =
      (if identity_equal (own s u) h \<and> (old \<or> st s u = TASK_NEW)
       then ready_remove_loop n h old q (p_ready_next s u) ((z s1)\<lparr>stat_ready_count := stat_ready_count (z s1) - 1\<rparr>)
       else ready_remove_loop n h old (Some u) (p_ready_next s u) s)"
      by (auto simp: Some Let_def s1_def z_def f_def)
    have "st ((z s1)\<lparr>stat_ready_count := stat_ready_count (z s1) - 1\<rparr>) t = st s t
        \<or> st ((z s1)\<lparr>stat_ready_count := stat_ready_count (z s1) - 1\<rparr>) t = TASK_SLEEPING"
      by (simp add: z_def f_def s1_def split: option.split)
    then show ?thesis unfolding e
      using Suc.IH [of q "p_ready_next s u" "(z s1)\<lparr>stat_ready_count := stat_ready_count (z s1) - 1\<rparr>"]
        Suc.IH [of "Some u" "p_ready_next s u" s] by auto
  qed simp
qed simp

lemma remove_loop_record: "rt_record (tasks (ready_remove_loop n h old q p s) t) = rt_record (tasks s t)"
  by (induction n arbitrary: q p s) (simp_all add: Let_def split: option.split)

lemma ready_remove_record [simp]: "rt_record (tasks (ready_remove h old s) t) = rt_record (tasks s t)"
  by (simp add: ready_remove_def remove_loop_record)

lemma remove_running: "st (ready_remove h old s) t = TASK_RUNNING \<Longrightarrow> st s t = TASK_RUNNING"
  using remove_loop_state [of SECTION_STL_MAX_TASKS h old None "p_ready_first s" s t] by (auto simp: ready_remove_def)

lemma calm_remove: "calm s (ready_remove h old s)"
  by (rule calm_frame) (auto dest: remove_running)

lemma reap_loop_fault: "stat_fault s \<noteq> SECTION_STL_OK \<Longrightarrow> stat_fault (snd (reap_loop n s)) \<noteq> SECTION_STL_OK"
  by (induction n s rule: reap_loop.induct) (simp_all add: Let_def corrupt_def)

lemma reap_fault: "stat_fault s \<noteq> SECTION_STL_OK \<Longrightarrow> stat_fault (records_reap s) \<noteq> SECTION_STL_OK"
  using reap_loop_fault [of s "stat_record_count s"]
  by (cases "reap_loop (stat_record_count s) s") (auto simp: records_reap_def corrupt_def Let_def split: bool.split)

lemma calm_reap: "calm s (records_reap s)"
  using reap_fault [of s] by (simp add: calm_def dead_def)

lemma calm_request [simp]: "calm s (request_switch s)"
  by (rule calm_frame) simp_all

lemma calm_cancel: "calm s (group_cancel g s)"
proof -
  have "calm s (cancel_pass g s)"
    by (rule calm_frame) (auto simp: cancel_pass_tasks dest: remove_running split: if_splits)
  then have r: "calm s (records_reap (cancel_pass g s))" using calm_trans calm_reap by blast
  show ?thesis
  proof (cases "group_executing g (records_reap (cancel_pass g s))")
    case True
    then show ?thesis using r by (simp add: group_cancel_pass Let_def)
  next
    case False
    have "calm (records_reap (cancel_pass g s)) (group_set (\<lambda>x. x\<lparr>rg_state := SECTION_STL_REVOKED\<rparr>) g (records_reap (cancel_pass g s)))"
      by (rule calm_frame) (simp_all add: state_order)
    then show ?thesis using r False calm_trans by (simp add: group_cancel_pass Let_def)
  qed
qed

lemma calm_activate: "calm s (activate_due s)"
proof -
  have t: "calm s (activate_task t s)" for t s
    by (rule calm_frame) (auto simp: activate_task_tasks split: if_splits)
  have ts: "calm s (foldl (\<lambda>s t. activate_task t s) s ts)" for ts s
    using t calm_trans by (induction ts arbitrary: s) (simp, simp, blast)
  then have g: "calm s (activate_group g s)" for g s by (simp add: activate_group_def)
  have "calm s (foldl (\<lambda>s g. activate_group g s) s gs)" for gs
    using g calm_trans by (induction gs arbitrary: s) (simp, simp, blast)
  then show ?thesis by (simp add: activate_due_def)
qed

lemma calm_group:
  assumes "\<And>x. rg_handle (f x) = rg_handle x" "\<And>x. rg_state x \<ge> SECTION_STL_REVOKING \<Longrightarrow> rg_state (f x) \<ge> SECTION_STL_REVOKING"
  shows "calm s (group_set f g s)"
  by (rule calm_frame) (use assms in auto)

section \<open>Frames of suspended tasks\<close>

text \<open>The words saved for a task, and the steps that leave them alone.\<close>

definition snapshot_words :: "stl \<Rightarrow> nat \<Rightarrow> u32 list" where
  "snapshot_words s t = (case rt_record (tasks s t) of None \<Rightarrow> []
     | Some i \<Rightarrow> map (\<lambda>k. pool s (sr_offset (records s i) + k)) [0..<sr_words (records s i)])"

definition kept :: "stl \<Rightarrow> stl \<Rightarrow> bool" where
  "kept s s' \<longleftrightarrow> (\<forall>t. st s' t = TASK_OLD \<longrightarrow> st s t = TASK_OLD \<and> own s' t = own s t \<and> snapshot_words s' t = snapshot_words s t)"

lemma kept_refl [simp]: "kept s s"
  by (simp add: kept_def)

lemma kept_trans: "kept s s1 \<Longrightarrow> kept s1 s2 \<Longrightarrow> kept s s2"
  by (simp add: kept_def)

lemma kept_frame:
  assumes "records s' = records s" "pool s' = pool s"
    and "\<And>t. st s' t = TASK_OLD \<Longrightarrow> st s t = TASK_OLD \<and> own s' t = own s t \<and> rt_record (tasks s' t) = rt_record (tasks s t)"
  shows "kept s s'"
  using assms by (simp add: kept_def snapshot_words_def split: option.split)

lemma kept_reap:
  assumes "stl_inv lk {} Y s"
  shows "kept s (records_reap s)"
proof -
  have "reaped s (records_reap s)" using records_reap_ok assms by (simp add: stl_inv_def)
  then obtain k where k: "record_slots (records_reap s) = drop k (record_slots s)"
      "\<forall>i \<in> set (take k (record_slots s)). sr_consumed (records s i)"
      "\<forall>i \<in> set (record_slots (records_reap s)). records (records_reap s) i = records s i"
    by (auto simp: reaped_def)
  have "snapshot_words (records_reap s) t = snapshot_words s t" if t: "st s t = TASK_OLD" for t
  proof -
    obtain i where i: "i \<in> set (record_slots s)" "rt_record (tasks s t) = Some i" "\<not> sr_consumed (records s i)"
      using old_record [OF assms t] by metis
    then have "i \<in> set (record_slots (records_reap s))" using k(1,2) by (metis append_take_drop_id set_append Un_iff)
    then show ?thesis using k(3) i(2) by (simp add: snapshot_words_def)
  qed
  then show ?thesis by (simp add: kept_def)
qed

lemma kept_cancel:
  assumes "stl_inv lk {} {} (cancel_pass g s)"
  shows "kept s (group_cancel g s)"
proof -
  have "kept s (cancel_pass g s)"
    unfolding kept_def
  proof (intro allI impI)
    fix t assume t: "st (cancel_pass g s) t = TASK_OLD"
    obtain i where i: "rt_record (tasks (cancel_pass g s) t) = Some i" "\<not> sr_consumed (records (cancel_pass g s) i)"
      using old_record [OF assms t] by metis
    have ng: "t \<notin> set (gtasks s g)" using i(1) by (auto simp: cancel_pass_tasks)
    have "st (ready_remove (hnd s g) True s) t = TASK_OLD" using t ng by (simp add: cancel_pass_tasks)
    then have o: "st s t = TASK_OLD"
      using remove_loop_state [of SECTION_STL_MAX_TASKS "hnd s g" True None "p_ready_first s" s t] by (auto simp: ready_remove_def)
    show "st s t = TASK_OLD \<and> own (cancel_pass g s) t = own s t \<and> snapshot_words (cancel_pass g s) t = snapshot_words s t"
      using o ng by (auto simp: cancel_pass_tasks snapshot_words_def cancel_pass_records split: option.split)
  qed
  moreover have "kept (cancel_pass g s) (records_reap (cancel_pass g s))" by (rule kept_reap [OF assms])
  moreover have "kept (records_reap (cancel_pass g s)) (group_cancel g s)"
    by (rule kept_frame) (auto simp: group_cancel_pass Let_def split: if_splits)
  ultimately show ?thesis using kept_trans by blast
qed

section \<open>The simple calls\<close>

definition sound :: "stl_link \<Rightarrow> stl \<Rightarrow> stl \<Rightarrow> bool" where
  "sound lk s s' \<longleftrightarrow> (stl_inv lk {} {} s \<and> stat_fault s = SECTION_STL_OK
     \<longrightarrow> stl_inv lk {} {} s' \<and> stat_fault s' = SECTION_STL_OK \<and> kept s s' \<and> calm s s')
     \<and> (stat_fault s \<noteq> SECTION_STL_OK \<longrightarrow> calm s s')"

lemma calm_fault: "calm s s' \<Longrightarrow> stat_fault s \<noteq> SECTION_STL_OK \<Longrightarrow> stat_fault s' \<noteq> SECTION_STL_OK"
  by (simp add: calm_def)

lemma sound_refl [simp]: "sound lk s s"
  by (simp add: sound_def)

lemma sound_trans: "sound lk s s1 \<Longrightarrow> sound lk s1 s2 \<Longrightarrow> sound lk s s2"
  unfolding sound_def using calm_trans kept_trans calm_fault by metis

text \<open>Updates that neither the invariant nor the group states see.\<close>

lemma sound_frame:
  assumes "calm s s'" "stl_inv lk {} {} s' \<longleftrightarrow> stl_inv lk {} {} s" "stat_fault s' = stat_fault s"
    and "records s' = records s" "pool s' = pool s" "tasks s' = tasks s"
  shows "sound lk s s'"
  using assms kept_frame [of s' s] by (simp add: sound_def)

lemma sound_same:
  assumes "stl_inv lk {} {} s' \<longleftrightarrow> stl_inv lk {} {} s" "p_current s' = p_current s" "dispatch_active s' = dispatch_active s"
    and "stat_fault s' = stat_fault s" "generation s' = generation s" "group_list s' = group_list s"
    and "records s' = records s" "pool s' = pool s" "tasks s' = tasks s" "groups s' = groups s"
  shows "sound lk s s'"
  using assms by (intro sound_frame calm_frame) simp_all

lemma sound_request: "sound lk s (request_switch s)"
  by (rule sound_frame) simp_all

lemma sound_reap: "sound lk s (records_reap s)"
  using calm_reap kept_reap stl_inv_reap by (auto simp: sound_def)

lemma sound_activate: "sound lk s (activate_due s)"
proof -
  have "kept s (activate_due s)" if "stl_inv lk {} {} s"
  proof (rule kept_frame)
    fix t assume "st (activate_due s) t = TASK_OLD"
    then show "st s t = TASK_OLD \<and> own (activate_due s) t = own s t \<and> rt_record (tasks (activate_due s) t) = rt_record (tasks s t)"
      using activate_due_inv(2) [OF that] unfolding activates_def by (metis stl_task_state.distinct)
  qed simp_all
  then show ?thesis using calm_activate activate_due_inv(1) by (simp add: sound_def)
qed

lemma sound_group:
  assumes "\<And>x. rg_handle (f x) = rg_handle x" "\<And>x. rg_state (f x) = rg_state x" "\<And>x. rg_tasks (f x) = rg_tasks x"
  shows "sound lk s (group_set f g s)"
  proof (rule sound_frame)
  show "calm s (group_set f g s)" by (rule calm_group) (simp_all add: assms)
  show "stl_inv lk {} {} (group_set f g s) \<longleftrightarrow> stl_inv lk {} {} s" by (rule stl_inv_cong) (simp_all add: assms)
qed simp_all

lemma init_sound: "sound lk s (snd (section_stl_init pv now s))"
proof -
  have "sound lk s (s\<lparr>tick_now := now, slice_start := now, runtime_stack := stk, stl_initialized := True\<rparr>)" for stk
  proof (rule sound_same)
    show "stl_inv lk {} {} (s\<lparr>tick_now := now, slice_start := now, runtime_stack := stk, stl_initialized := True\<rparr>) \<longleftrightarrow> stl_inv lk {} {} s"
      by (rule stl_inv_cong) simp_all
  qed simp_all
  then show ?thesis by (simp add: section_stl_init_def)
qed

lemma initialize_begin_sound: "sound lk s (snd (group_initialize_begin pv obj h es n s))"
proof -
  have c: "sound lk z (z\<lparr>init_callbacks := cs\<rparr>)" for z cs
  proof (rule sound_same)
    show "stl_inv lk {} {} (z\<lparr>init_callbacks := cs\<rparr>) \<longleftrightarrow> stl_inv lk {} {} z" by (rule stl_inv_cong) simp_all
  qed simp_all
  have "sound lk s (group_set (\<lambda>x. x\<lparr>rg_init_busy := True\<rparr>) g (s\<lparr>init_callbacks := cs\<rparr>))" for g cs
    by (rule sound_trans [OF c sound_group]) simp_all
  then show ?thesis using c [of s] by (simp add: group_initialize_begin_def Let_def split: option.split)
qed

lemma acquire_sound: "sound lk s (snd (section_stl_group_acquire pv h s))"
  by (simp add: section_stl_group_acquire_def sound_group split: option.split)

lemma release_sound: "sound lk s (snd (section_stl_group_release pv h s))"
  by (simp add: section_stl_group_release_def sound_group split: option.split)

lemma quiescent_sound: "sound lk s (snd (section_stl_group_quiescent pv h s))"
proof -
  have "sound lk s (group_set (\<lambda>x. x\<lparr>rg_quiescent := True\<rparr>) g (records_reap s))" for g
    by (rule sound_trans [OF sound_reap sound_group]) simp_all
  then show ?thesis by (simp add: section_stl_group_quiescent_def Let_def sound_reap split: option.split)
qed

lemma tick_sound: "sound lk s (snd (section_stl_tick pv now s))"
proof -
  have c: "sound lk s (s\<lparr>tick_now := now\<rparr>)"
  proof (rule sound_same)
    show "stl_inv lk {} {} (s\<lparr>tick_now := now\<rparr>) \<longleftrightarrow> stl_inv lk {} {} s" by (rule stl_inv_cong) simp_all
  qed simp_all
  then have "sound lk s (activate_due (s\<lparr>tick_now := now\<rparr>))" "sound lk s (request_switch (s\<lparr>tick_now := now\<rparr>))"
    using sound_trans sound_activate sound_request by blast+
  then show ?thesis using c by (simp add: section_stl_tick_def Let_def split: option.split)
qed

lemma yield_sound: "sound lk s (snd (section_stl_yield pv s))"
  by (simp add: section_stl_yield_def sound_request)

lemma request_native_sound: "sound lk s (snd (section_stl_request_native pv s))"
proof -
  have "sound lk s (s\<lparr>native_pending := True\<rparr>)"
  proof (rule sound_same)
    show "stl_inv lk {} {} (s\<lparr>native_pending := True\<rparr>) \<longleftrightarrow> stl_inv lk {} {} s" by (rule stl_inv_cong) simp_all
  qed simp_all
  then have "sound lk s (request_switch (s\<lparr>native_pending := True\<rparr>))" using sound_trans sound_request by blast
  then show ?thesis by (simp add: section_stl_request_native_def)
qed

section \<open>Opening and closing a group\<close>

lemma calm_state: "gst s g < SECTION_STL_REVOKING \<or> SECTION_STL_REVOKING \<le> q \<Longrightarrow> calm s (group_set (\<lambda>x. x\<lparr>rg_state := q\<rparr>) g s)"
  by (rule calm_frame) auto

lemma restart_last:
  "foldl (\<lambda>s t. task_set (\<lambda>x. x\<lparr>rt_last := tick_now s\<rparr>) t s) s ts
   = foldl (\<lambda>z t. task_set (\<lambda>x. x\<lparr>rt_last := tick_now s\<rparr>) t z) s ts"
proof -
  have "foldl (\<lambda>s t. task_set (\<lambda>x. x\<lparr>rt_last := tick_now s\<rparr>) t s) z ts
     = foldl (\<lambda>z t. task_set (\<lambda>x. x\<lparr>rt_last := n\<rparr>) t z) z ts" if "tick_now z = n" for z n
    using that by (induction ts arbitrary: z) simp_all
  then show ?thesis by simp
qed

lemma restart_sound: "sound lk s (foldl (\<lambda>s t. task_set (\<lambda>x. x\<lparr>rt_last := tick_now s\<rparr>) t s) s ts)"
proof -
  let ?s = "foldl (\<lambda>z t. task_set (\<lambda>x. x\<lparr>rt_last := tick_now s\<rparr>) t z) s ts"
  have t: "tasks ?s t = (if t \<in> set ts then (tasks s t)\<lparr>rt_last := tick_now s\<rparr> else tasks s t)" for t
    by (rule tasks_fold) simp
  have "calm s ?s" by (rule calm_frame) (simp_all add: t split: if_splits)
  moreover have "stl_inv lk {} {} ?s \<longleftrightarrow> stl_inv lk {} {} s" by (rule stl_inv_cong) (simp_all add: t)
  moreover have "kept s ?s" by (rule kept_frame) (simp_all add: t split: if_splits)
  ultimately show ?thesis unfolding restart_last by (simp add: sound_def)
qed

lemma enable_sound: "sound lk s (snd (section_stl_group_enable pv h s))"
proof -
  have e: "sound lk z (group_set (\<lambda>x. x\<lparr>rg_state := SECTION_STL_ENABLED\<rparr>) g z)"
    if g: "g \<in> set (group_list z)" "gst z g < SECTION_STL_REVOKING" for z g
  proof -
    have "stl_inv lk {} {} (group_set (\<lambda>x. x\<lparr>rg_state := SECTION_STL_ENABLED\<rparr>) g z)" if "stl_inv lk {} {} z"
      by (rule stl_inv_group_state [OF that]) (simp_all add: admit_ok_def state_order)
    moreover have "kept z (group_set (\<lambda>x. x\<lparr>rg_state := SECTION_STL_ENABLED\<rparr>) g z)" by (rule kept_frame) simp_all
    ultimately show ?thesis using calm_state [of z g] g by (simp add: sound_def)
  qed
  show ?thesis
  proof (cases "group_find h s")
    case (Some g)
    let ?z = "foldl (\<lambda>s t. task_set (\<lambda>x. x\<lparr>rt_last := tick_now s\<rparr>) t s) s (gtasks s g)"
    have "sound lk ?z (group_set (\<lambda>x. x\<lparr>rg_state := SECTION_STL_ENABLED\<rparr>) g ?z)" if "gst s g < SECTION_STL_REVOKING"
      using e [of g ?z] that group_find_Some [OF Some] by (simp add: restart_last)
    then have "sound lk s (group_set (\<lambda>x. x\<lparr>rg_state := SECTION_STL_ENABLED\<rparr>) g ?z)" if "gst s g < SECTION_STL_REVOKING"
      using that sound_trans restart_sound by blast
    then show ?thesis using e [of g s] group_find_Some [OF Some] by (simp add: section_stl_group_enable_def Some Let_def)
  qed (simp add: section_stl_group_enable_def)
qed

text \<open>Closing admission: the tasks that wait to start sleep, suspended ones stay.\<close>

lemma drain_inv:
  assumes "stl_inv lk {} {} s" "g \<in> set (group_list s)" "q = SECTION_STL_DISABLED \<or> q = SECTION_STL_PAUSED"
    and "q = SECTION_STL_PAUSED \<Longrightarrow> \<forall>t \<in> set (gtasks s g). st s t \<noteq> TASK_RUNNING \<and> st s t \<noteq> TASK_OLD"
  shows "stl_inv lk {} {} (ready_remove (hnd s g) False (group_set (\<lambda>x. x\<lparr>rg_state := q\<rparr>) g s))" (is "stl_inv _ _ _ (ready_remove _ _ ?z)")
proof -
  let ?h = "hnd s g" and ?r = "ready_remove (hnd s g) False ?z"
  have "stl_inv lk {?h} {} s" using stl_inv_mono [OF assms(1)] by simp
  then have z: "stl_inv lk {?h} {} ?z" by (rule stl_inv_group_state) (use assms(4) in auto)
  have r: "stl_inv lk {?h} {} ?r" by (rule stl_inv_remove [OF z]) simp
  have sz: "sched_inv {?h} {} ?z" using z by (simp add: stl_inv_def)
  have "snap_inv lk {} ?z" using assms(1) snap_inv_cong [of ?z s lk "{}"] by (simp add: stl_inv_def)
  then have sn: "snap_inv lk {} ?r" by (rule snap_inv_remove [OF sz]) simp_all
  have ad: "admit_ok ?r g"
    using assms(3,4) assms(1,2) by (auto simp: admit_ok_def remove_task [OF sz] state_order stl_inv_def tasks_inv_def)
  have "sched_inv {} {} ?r"
  proof -
    have "admit_ok ?r k" if "k \<in> set (group_list s)" for k
    proof (cases "k = g")
      case False
      then have "hnd s k \<noteq> ?h" using hnd_inject [of s k g] that assms(1,2) by (auto simp: stl_inv_def)
      then show ?thesis using r that False by (simp add: stl_inv_def sched_inv_def)
    qed (use ad in simp)
    then show ?thesis using r by (simp add: stl_inv_def sched_inv_def)
  qed
  then show ?thesis using r sn by (simp add: stl_inv_def)
qed

lemma kept_remove: "kept s (ready_remove h old s)"
proof (rule kept_frame)
  fix t assume "st (ready_remove h old s) t = TASK_OLD"
  then show "st s t = TASK_OLD \<and> own (ready_remove h old s) t = own s t \<and> rt_record (tasks (ready_remove h old s) t) = rt_record (tasks s t)"
    using remove_loop_state [of SECTION_STL_MAX_TASKS h old None "p_ready_first s" s t] by (auto simp: ready_remove_def remove_loop_record remove_loop_owner)
qed simp_all

lemma drain_sound:
  assumes "g \<in> set (group_list s)" "gst s g < SECTION_STL_REVOKING" "q = SECTION_STL_DISABLED \<or> q = SECTION_STL_PAUSED"
    and "stl_inv lk {} {} s \<Longrightarrow> q = SECTION_STL_PAUSED \<Longrightarrow> \<forall>t \<in> set (gtasks s g). st s t \<noteq> TASK_RUNNING \<and> st s t \<noteq> TASK_OLD"
  shows "sound lk s (ready_remove (hnd s g) False (group_set (\<lambda>x. x\<lparr>rg_state := q\<rparr>) g s))"
proof -
  have "calm s (ready_remove (hnd s g) False (group_set (\<lambda>x. x\<lparr>rg_state := q\<rparr>) g s))"
    using calm_trans [OF calm_state calm_remove] assms(2) by blast
  moreover have "kept s (group_set (\<lambda>x. x\<lparr>rg_state := q\<rparr>) g s)" by (rule kept_frame) simp_all
  ultimately show ?thesis using drain_inv assms kept_remove kept_trans unfolding sound_def by fastforce
qed

lemma disable_sound: "sound lk s (snd (section_stl_group_disable pv h s))"
proof (cases "group_find h s")
  case (Some g)
  then show ?thesis
    using drain_sound [of g s SECTION_STL_DISABLED lk] group_find_Some [OF Some] by (auto simp: section_stl_group_disable_def)
qed (simp add: section_stl_group_disable_def)

lemma no_records:
  assumes "stl_inv lk {} {} s" "group_records h s = 0" "own s t = h"
  shows "st s t \<noteq> TASK_OLD"
proof
  assume "st s t = TASK_OLD"
  then obtain i where "i \<in> set (record_slots s)" "sr_owner (records s i) = own s t" using old_record [OF assms(1)] by metis
  then show False using assms(2,3) by (auto simp: group_records_def filter_empty_conv)
qed

lemma not_executing:
  assumes "stl_inv lk {} {} s" "g \<in> set (group_list s)" "\<not> group_executing g s" "t \<in> set (gtasks s g)"
  shows "st s t \<noteq> TASK_RUNNING" and "p_current s \<noteq> Some t"
proof -
  have "own s t = hnd s g" using assms(1,2,4) by (auto simp: stl_inv_def tasks_inv_def)
  then show "p_current s \<noteq> Some t" using assms(3) by (auto simp: group_executing_def)
  then show "st s t \<noteq> TASK_RUNNING" using running_current [of "{}" "{}" s t] assms(1) by (auto simp: stl_inv_def)
qed

lemma pause_sound: "sound lk s (snd (section_stl_group_pause pv h s))"
proof (cases "group_find h s")
  case (Some g)
  have g: "g \<in> set (group_list s)" "hnd s g = h" using group_find_Some [OF Some] by simp_all
  have p: "\<forall>t \<in> set (gtasks s g). st s t \<noteq> TASK_RUNNING \<and> st s t \<noteq> TASK_OLD"
    if "\<not> group_executing g s" "group_records h s = 0" "stl_inv lk {} {} s"
    using not_executing(1) [OF that(3) g(1) that(1)] no_records [OF that(3,2)] g that(3) by (auto simp: stl_inv_def tasks_inv_def)
  then have "sound lk s (ready_remove h False (group_set (\<lambda>x. x\<lparr>rg_state := SECTION_STL_PAUSED\<rparr>) g s))"
    if "gst s g < SECTION_STL_REVOKING" "\<not> group_executing g s" "group_records h s = 0"
    using drain_sound [of g s SECTION_STL_PAUSED lk] g that by simp
  then show ?thesis by (simp add: section_stl_group_pause_def Some)
qed (simp add: section_stl_group_pause_def)

lemma revoke_sound: "sound lk s (snd (section_stl_group_revoke pv h s))"
proof (cases "group_find h s")
  case (Some g)
  let ?z = "group_set (\<lambda>x. x\<lparr>rg_state := SECTION_STL_REVOKING\<rparr>) g s"
  have g: "g \<in> set (group_list s)" using group_find_Some [OF Some] by simp
  have i: "stl_inv lk {hnd ?z g} {} ?z" if "stl_inv lk {} {} s"
    by (rule stl_inv_group_state [OF stl_inv_mono [OF that]]) simp_all
  have "stl_inv lk {} {} (group_cancel g ?z) \<and> stat_fault (group_cancel g ?z) = stat_fault s \<and> kept s (group_cancel g ?z)"
    if a: "stl_inv lk {} {} s"
  proof -
    have "kept s ?z" by (rule kept_frame) simp_all
    then show ?thesis
      using group_cancel_inv [OF i [OF a]] kept_trans [OF _ kept_cancel [OF cancel_pass_inv [OF i [OF a]]]] g by simp
  qed
  moreover have "calm s (group_cancel g ?z)" using calm_trans [OF calm_state calm_cancel] by (simp add: state_order)
  ultimately have c: "sound lk s (group_cancel g ?z)" by (simp add: sound_def)
  then have "sound lk s (request_switch (group_cancel g ?z))" using sound_trans sound_request by blast
  then show ?thesis using c by (simp add: section_stl_group_revoke_def Some Let_def split: option.split)
qed (simp add: section_stl_group_revoke_def)

lemma close_sound:
  assumes "g \<in> set (group_list s)" "gst s g \<ge> SECTION_STL_REVOKING"
  shows "sound lk s (group_set (\<lambda>x. x\<lparr>rg_state := SECTION_STL_REVOKED\<rparr>) g s)"
proof -
  have "stl_inv lk {} {} (group_set (\<lambda>x. x\<lparr>rg_state := SECTION_STL_REVOKED\<rparr>) g s)" if i: "stl_inv lk {} {} s"
  proof (rule stl_inv_group_state [OF i])
    have "admit_ok s g" using i assms(1) by (simp add: stl_inv_def sched_inv_def)
    then have "st s t \<noteq> TASK_NEW \<and> st s t \<noteq> TASK_OLD" if "t \<in> set (gtasks s g)" for t
      using that assms(2) unfolding admit_ok_def by (auto simp: state_order)
    then show "hnd s g \<in> {} \<or> admit_ok (group_set (\<lambda>x. x\<lparr>rg_state := SECTION_STL_REVOKED\<rparr>) g s) g"
      by (simp add: admit_ok_def)
  qed simp
  moreover have "kept s (group_set (\<lambda>x. x\<lparr>rg_state := SECTION_STL_REVOKED\<rparr>) g s)" by (rule kept_frame) simp_all
  moreover have "calm s (group_set (\<lambda>x. x\<lparr>rg_state := SECTION_STL_REVOKED\<rparr>) g s)" by (rule calm_state) (simp add: state_order)
  ultimately show ?thesis by (simp add: sound_def)
qed

lemma initialize_end_sound:
  assumes "g \<in> set (group_list s)"
  shows "sound lk s (snd (group_initialize_end g s))"
proof -
  let ?z = "group_set (\<lambda>x. x\<lparr>rg_init_busy := False\<rparr>) g (s\<lparr>init_callbacks := []\<rparr>)"
  have "sound lk s (s\<lparr>init_callbacks := []\<rparr>)"
  proof (rule sound_same)
    show "stl_inv lk {} {} (s\<lparr>init_callbacks := []\<rparr>) \<longleftrightarrow> stl_inv lk {} {} s" by (rule stl_inv_cong) simp_all
  qed simp_all
  moreover have "sound lk (s\<lparr>init_callbacks := []\<rparr>) ?z" by (rule sound_group) simp_all
  ultimately have z: "sound lk s ?z" by (rule sound_trans)
  have "sound lk ?z (group_set (\<lambda>x. x\<lparr>rg_initialized := True\<rparr>) g ?z)" by (rule sound_group) simp_all
  moreover have "sound lk ?z (group_set (\<lambda>x. x\<lparr>rg_state := SECTION_STL_REVOKED\<rparr>) g ?z)" if "gst s g \<ge> SECTION_STL_REVOKING"
    by (rule close_sound) (use assms that in simp_all)
  ultimately show ?thesis using sound_trans [OF z] by (simp add: group_initialize_end_def Let_def)
qed

end
