(* ===== verification/Stl_Groups.thy ===== *)
theory Stl_Groups
  imports Stl_Calls Insertion
begin

text \<open>
  Loading and forgetting task groups: a registration fills free slots under a handle that was never used before, and forgetting
  clears the slots of a group that nothing can reach any more.
\<close>

section \<open>Forgetting a group\<close>

lemma tasks_cleared:
  "foldl (\<lambda>s t. task_clear t s) s ts = s\<lparr>tasks := (\<lambda>t. if t \<in> set ts then task_zero else tasks s t),
     p_ready_next := (\<lambda>t. if t \<in> set ts then None else p_ready_next s t)\<rparr>"
  by (induction ts arbitrary: s) (auto simp: task_clear_def task_set_def fun_eq_iff)

definition forgotten :: "nat \<Rightarrow> stl \<Rightarrow> stl" where
  "forgotten g s = s\<lparr>tasks := (\<lambda>t. if t \<in> set (gtasks s g) then task_zero else tasks s t),
     p_ready_next := (\<lambda>t. if t \<in> set (gtasks s g) then None else p_ready_next s t),
     groups := (groups s)(g := group_zero), group_list := remove1 g (group_list s), stat_group_count := stat_group_count s - 1\<rparr>"

lemma forget_cases:
  obtains (kept) q where "section_stl_group_forget pv h s = (q, s)" "q \<noteq> SECTION_STL_OK"
  | (forgotten) g where "section_stl_group_forget pv h s = (SECTION_STL_OK, forgotten g s)" "g \<in> set (group_list s)" "hnd s g = h"
      "group_retired g s" "stat_fault s = SECTION_STL_OK"
proof (cases "group_find h s")
  case None
  then have "\<exists>q. section_stl_group_forget pv h s = (q, s) \<and> q \<noteq> SECTION_STL_OK" by (auto simp: section_stl_group_forget_def)
  then show thesis using kept by blast
next
  case (Some g)
  note find = group_find_Some [OF Some]
  show thesis
  proof (cases "pv_api_allowed pv \<and> native_context pv s \<and> group_retired g s \<and> rg_quiescent (groups s g) \<and> stat_fault s = SECTION_STL_OK")
    case True
    then have "section_stl_group_forget pv h s = (SECTION_STL_OK, forgotten g s)"
      by (simp add: section_stl_group_forget_def Some tasks_cleared forgotten_def group_set_def Let_def)
    then show thesis using forgotten find True by blast
  next
    case False
    then have "\<exists>q. section_stl_group_forget pv h s = (q, s) \<and> q \<noteq> SECTION_STL_OK"
      by (auto simp: section_stl_group_forget_def Some)
    then show thesis using kept by blast
  qed
qed

text \<open>The tasks of a retired group sleep.\<close>

lemma retired_tasks:
  assumes "stl_inv lk {} {} s" "g \<in> set (group_list s)" "group_retired g s" "t \<in> set (gtasks s g)"
  shows "st s t = TASK_SLEEPING" and "p_current s \<noteq> Some t"
proof -
  have r: "gst s g = SECTION_STL_REVOKED" "\<not> group_executing g s" using assms(3) by (simp_all add: group_retired_def)
  have "admit_ok s g" using assms(1,2) by (simp add: stl_inv_def sched_inv_def)
  then have "st s t \<noteq> TASK_NEW" "st s t \<noteq> TASK_OLD" using assms(4) r(1) by (auto simp: admit_ok_def state_order)
  moreover have "st s t \<noteq> TASK_FREE" using assms(1,2,4) by (auto simp: stl_inv_def tasks_inv_def)
  ultimately show "st s t = TASK_SLEEPING" "p_current s \<noteq> Some t"
    using not_executing [OF assms(1,2) r(2) assms(4)] by (cases "st s t"; simp)+
qed

lemma forgotten_inv:
  assumes "stl_inv lk {} {} s" "g \<in> set (group_list s)" "group_retired g s"
  shows "stl_inv lk {} {} (forgotten g s)"
proof -
  let ?r = "forgotten g s" and ?T = "set (gtasks s g)"
  have inv: "groups_inv s" "tasks_inv s" "sched_inv {} {} s" "pool_inv s" "snap_inv lk {} s" using assms(1) by (simp_all add: stl_inv_def)
  have d: "distinct (group_list s)" using inv(1) by (simp add: groups_inv_def)
  have gl: "set (group_list ?r) = set (group_list s) - {g}" "distinct (group_list ?r)"
    using d by (simp_all add: forgotten_def set_remove1_eq distinct_remove1)
  have tk: "tasks ?r t = (if t \<in> ?T then task_zero else tasks s t)" for t by (simp add: forgotten_def)
  have gr: "groups ?r k = groups s k" if "k \<noteq> g" for k using that by (simp add: forgotten_def)
  have sl: "st s t = TASK_SLEEPING" "p_current s \<noteq> Some t" if "t \<in> ?T" for t using retired_tasks [OF assms that] by simp_all
  have z: "rt_state task_zero = TASK_FREE" "\<not> rt_queued task_zero" by (simp_all add: task_zero_def)
  have other: "t \<notin> ?T" if "k \<in> set (group_list s)" "k \<noteq> g" "t \<in> set (gtasks s k)" for k t
    using that assms(2) inv(2) hnd_inject [OF inv(1), of k g] unfolding tasks_inv_def by metis
  have "groups_inv ?r"
    unfolding groups_inv_def
  proof (intro conjI allI impI ballI)
    show "stat_group_count ?r = length (group_list ?r)"
      using inv(1) assms(2) by (simp add: forgotten_def groups_inv_def length_remove1)
    show "inj_on (\<lambda>k. sh_group_id (hnd ?r k)) (set (group_list ?r))"
      using inv(1) unfolding gl groups_inv_def by (auto simp: inj_on_def gr)
    fix k assume "k < SECTION_STL_MAX_GROUPS"
    then have "k \<in> set (group_list s) \<longleftrightarrow> sh_group_id (hnd s k) \<noteq> 0" using inv(1) by (simp add: groups_inv_def)
    moreover have "sh_group_id (hnd ?r g) = 0" by (simp add: forgotten_def group_zero_def handle_none_def)
    ultimately show "k \<in> set (group_list ?r) \<longleftrightarrow> sh_group_id (hnd ?r k) \<noteq> 0"
      unfolding gl by (cases "k = g") (simp_all add: gr)
  next
    fix k assume "k \<in> set (group_list ?r)"
    then show "unat (sh_generation (hnd ?r k)) \<le> unat (generation ?r)"
      using inv(1) by (auto simp: gl gr groups_inv_def forgotten_def)
  qed (use inv(1) gl in \<open>auto simp: groups_inv_def\<close>)
  moreover have "tasks_inv ?r"
    unfolding tasks_inv_def
  proof (intro conjI allI impI ballI)
    fix t assume "st ?r t \<noteq> TASK_FREE"
    then have t: "t \<notin> ?T" "st s t \<noteq> TASK_FREE" by (auto simp: tk z split: if_splits)
    then obtain k where k: "k \<in> set (group_list s)" "t \<in> set (gtasks s k)" "t < SECTION_STL_MAX_TASKS"
      using task_group [OF inv(2)] by metis
    then have "k \<noteq> g" using t(1) by auto
    then show "t < SECTION_STL_MAX_TASKS" "\<exists>k \<in> set (group_list ?r). t \<in> set (gtasks ?r k)" using k by (auto simp: gl gr)
  next
    fix k assume "k \<in> set (group_list ?r)"
    then have k: "k \<in> set (group_list s)" "k \<noteq> g" by (auto simp: gl)
    then show "distinct (gtasks ?r k)" using inv(2) by (simp add: tasks_inv_def gr)
    fix t assume "t \<in> set (gtasks ?r k)"
    then have t: "t \<in> set (gtasks s k)" "t \<notin> ?T" using other k by (auto simp: gr)
    then show "st ?r t \<noteq> TASK_FREE" "own ?r t = hnd ?r k" "0 < rt_period (tasks ?r t)"
      using inv(2) k by (simp_all add: tk gr tasks_inv_def)
  qed
  moreover have "sched_inv {} {} ?r"
  proof -
    obtain xs where xs: "ready_is s xs" using inv(3) by (auto simp: sched_inv_def)
    have q: "t \<notin> ?T" if "t \<in> set xs" for t using xs sl(1) [of t] inv(3) that by (auto simp: ready_is_def sched_inv_def)
    then have "list_at (p_ready_next ?r) (p_ready_first s) (p_ready_tail s) xs"
      using xs list_at_kept [of "p_ready_next s" _ _ xs "p_ready_next ?r"] by (simp add: ready_is_def forgotten_def)
    moreover have "rt_queued (tasks ?r t) \<longleftrightarrow> t \<in> set xs" for t using xs q by (auto simp: ready_is_def tk z)
    ultimately have "ready_is ?r xs" using xs by (simp add: ready_is_def forgotten_def)
    moreover have "admit_ok ?r k" if "k \<in> set (group_list ?r)" for k
    proof -
      have k: "k \<in> set (group_list s)" "k \<noteq> g" using that by (auto simp: gl)
      then have "admit_ok s k" using inv(3) by (simp add: sched_inv_def)
      then show ?thesis using other [OF k] k(2) by (simp add: admit_ok_def tk gr)
    qed
    moreover have "current_ok ?r"
      using inv(3) sl(2) by (auto simp: sched_inv_def current_ok_def tk z forgotten_def)
    moreover have "run_ok ?r"
      using inv(3) by (auto simp: sched_inv_def run_ok_def tk z gl gr)
    moreover have "rt_queued (tasks ?r t) \<longleftrightarrow> st ?r t = TASK_NEW \<or> st ?r t = TASK_OLD" for t
      using inv(3) by (simp add: sched_inv_def tk z)
    ultimately show ?thesis by (auto simp: sched_inv_def)
  qed
  moreover have "pool_inv ?r" by (subst pool_inv_cong [of _ s]) (simp_all add: forgotten_def inv(4))
  moreover have "snap_inv lk {} ?r"
  proof -
    have same: "record_slots ?r = record_slots s" "records ?r = records s" "pool ?r = pool s" by (simp_all add: forgotten_def record_slots_def)
    have "rec_ok lk ?r i" if "rec_ok lk s i" for i
      using that sl(1) by (fastforce simp: rec_ok_def Let_def same tk)
    moreover have "old_ok ?r t" if "st ?r t = TASK_OLD" "old_ok s t" for t
      using that by (auto simp: old_ok_def same tk z split: if_splits)
    ultimately show ?thesis using inv(5) by (auto simp: snap_inv_def same tk z)
  qed
  ultimately show ?thesis by (simp add: stl_inv_def)
qed

lemma forget_sound: "sound lk s (snd (section_stl_group_forget pv h s))"
proof -
  consider (kept) q where "section_stl_group_forget pv h s = (q, s)"
  | (forgotten) g where "section_stl_group_forget pv h s = (SECTION_STL_OK, forgotten g s)" "g \<in> set (group_list s)" "hnd s g = h"
      "group_retired g s" "stat_fault s = SECTION_STL_OK"
    by (rule forget_cases [of pv h s]) blast+
  then show ?thesis
  proof cases
    case (forgotten g)
    have z: "rt_state task_zero = TASK_FREE" by (simp add: task_zero_def)
    have "calm s (forgotten g s)" if "stl_inv lk {} {} s"
    proof -
      have d: "distinct (group_list s)" using that by (simp add: stl_inv_def groups_inv_def)
      then have "dead (forgotten g s) k" if "dead s k" for k
        using that by (auto simp: dead_def forgotten_def set_remove1_eq)
      moreover have "st (forgotten g s) t = TASK_RUNNING \<Longrightarrow> st s t = TASK_RUNNING \<and> own (forgotten g s) t = own s t" for t
        by (simp add: forgotten_def z split: if_splits)
      ultimately show ?thesis by (simp add: calm_def forgotten_def)
    qed
    moreover have "kept s (forgotten g s)" by (rule kept_frame) (simp_all add: forgotten_def z split: if_splits)
    moreover have "stat_fault (forgotten g s) = stat_fault s" by (simp add: forgotten_def)
    ultimately show ?thesis using forgotten forgotten_inv [of lk s g] by (simp add: sound_def)
  qed simp
qed

section \<open>Registering a task\<close>

lemma place_task_eq: "place_task period t ts = place period t ts"
  by (simp add: place_task_def place_def)

lemma place_task_perm: "set (place_task period t ts) = insert t (set ts)" "distinct (place_task period t ts) \<longleftrightarrow> distinct (t # ts)"
proof -
  show "set (place_task period t ts) = insert t (set ts)" by (simp add: place_task_eq set_place)
  have "mset (place_task period t ts) = mset (t # ts)" by (simp add: place_task_eq mset_place)
  then show "distinct (place_task period t ts) \<longleftrightarrow> distinct (t # ts)" using mset_eq_imp_distinct_iff by blast
qed

definition fresh_task :: "stl_handle \<Rightarrow> u32 \<Rightarrow> stl_reg_task \<Rightarrow> resident_task" where
  "fresh_task h now x = \<lparr>rt_owner = h, rt_quantum_left = 0, rt_period = st_period x, rt_last = now, rt_func = st_func x,
     rt_step_func = st_step_func x, rt_ctx = st_ctx x, rt_record = None, rt_queued = False, rt_state = TASK_SLEEPING\<rparr>"

lemma register_task_cases:
  obtains (full) "register_task g x s = s"
  | (placed) t period where "t < SECTION_STL_MAX_TASKS" "st s t = TASK_FREE"
      "register_task g x s = s\<lparr>p_ready_next := (p_ready_next s)(t := None), tasks := (tasks s)(t := fresh_task (hnd s g) (tick_now s) x),
         groups := (groups s)(g := (groups s g)\<lparr>rg_tasks := place_task period t (gtasks s g), rg_task_count := rg_task_count (groups s g) + 1\<rparr>)\<rparr>"
proof (cases "List.find (\<lambda>t. st s t = TASK_FREE) [0..<SECTION_STL_MAX_TASKS]")
  case None
  then show thesis using full by (simp add: register_task_def)
next
  case (Some t)
  then have "t < SECTION_STL_MAX_TASKS" "st s t = TASK_FREE" by (auto simp: find_Some_iff)
  then show thesis
    using placed [of t "\<lambda>q. rt_period (((tasks s)(t := fresh_task (hnd s g) (tick_now s) x)) q)"] Some
    by (simp add: register_task_def Let_def task_set_def group_set_def fresh_task_def)
qed

lemma register_task_frame [simp]:
  "group_list (register_task g x s) = group_list s" "generation (register_task g x s) = generation s"
  "stat_group_count (register_task g x s) = stat_group_count s" "stat_fault (register_task g x s) = stat_fault s"
  "hnd (register_task g x s) k = hnd s k" "gst (register_task g x s) k = gst s k"
  by (cases rule: register_task_cases [of g x s]; simp)+

lemma register_task_inv:
  assumes "stl_inv lk {} {} s" "g \<in> set (group_list s)" "0 < st_period x"
  shows "stl_inv lk {} {} (register_task g x s)"
proof (cases rule: register_task_cases [of g x s])
  case (placed t period)
  let ?r = "register_task g x s" and ?n = "fresh_task (hnd s g) (tick_now s) x"
  have inv: "groups_inv s" "tasks_inv s" "sched_inv {} {} s" "pool_inv s" "snap_inv lk {} s" using assms(1) by (simp_all add: stl_inv_def)
  have n: "rt_state ?n = TASK_SLEEPING" "\<not> rt_queued ?n" "rt_owner ?n = hnd s g" "rt_period ?n = st_period x" by (simp_all add: fresh_task_def)
  have tk: "tasks ?r = (tasks s)(t := ?n)" by (simp add: placed(3))
  have gt: "set (gtasks ?r k) = (if k = g then insert t (set (gtasks s k)) else set (gtasks s k))" for k
    by (simp add: placed(3) place_task_perm(1))
  have out: "t \<notin> set (gtasks s k)" if "k \<in> set (group_list s)" for k using that placed(2) inv(2) by (auto simp: tasks_inv_def)
  have "groups_inv ?r" by (subst groups_inv_cong [of _ s]) (simp_all add: inv(1))
  moreover have "tasks_inv ?r"
    unfolding tasks_inv_def
  proof (intro conjI allI impI ballI)
    fix u assume "st ?r u \<noteq> TASK_FREE"
    then have "u = t \<or> st s u \<noteq> TASK_FREE" by (auto simp: tk split: if_splits)
    then show "u < SECTION_STL_MAX_TASKS" "\<exists>k \<in> set (group_list ?r). u \<in> set (gtasks ?r k)"
      using placed(1) assms(2) inv(2) by (auto simp: tasks_inv_def gt)
  next
    fix k assume k: "k \<in> set (group_list ?r)"
    have "distinct (gtasks s k)" using inv(2) k by (simp add: tasks_inv_def)
    then show "distinct (gtasks ?r k)" using out k by (auto simp: placed(3) place_task_perm(2))
    fix u assume u: "u \<in> set (gtasks ?r k)"
    have "u = t \<and> k = g \<or> u \<noteq> t \<and> u \<in> set (gtasks s k)" using u out k by (auto simp: gt split: if_splits)
    then show "st ?r u \<noteq> TASK_FREE" "own ?r u = hnd ?r k" "0 < rt_period (tasks ?r u)"
      using inv(2) k assms(3) by (auto simp: tk n tasks_inv_def)
  qed
  moreover have "sched_inv {} {} ?r"
  proof -
    obtain xs where xs: "ready_is s xs" using inv(3) by (auto simp: sched_inv_def)
    have q: "t \<notin> set xs" using xs inv(3) placed(2) by (auto simp: ready_is_def sched_inv_def)
    then have "list_at (p_ready_next ?r) (p_ready_first s) (p_ready_tail s) xs" using xs by (simp add: ready_is_def placed(3) list_at_other)
    moreover have "rt_queued (tasks ?r u) \<longleftrightarrow> u \<in> set xs" for u using xs q n by (auto simp: ready_is_def tk)
    ultimately have "ready_is ?r xs" using xs by (simp add: ready_is_def placed(3))
    moreover have "admit_ok ?r k" if "k \<in> set (group_list ?r)" for k
      using inv(3) that unfolding sched_inv_def admit_ok_def by (auto simp: tk n gt)
    moreover have "current_ok ?r"
      using inv(3) placed(2) by (auto simp: sched_inv_def current_ok_def tk n placed(3))
    moreover have "run_ok ?r"
      using inv(3) by (auto simp: sched_inv_def run_ok_def tk n gt)
    moreover have "rt_queued (tasks ?r u) \<longleftrightarrow> st ?r u = TASK_NEW \<or> st ?r u = TASK_OLD" for u
      using inv(3) by (simp add: sched_inv_def tk n)
    ultimately show ?thesis by (auto simp: sched_inv_def)
  qed
  moreover have "pool_inv ?r" by (subst pool_inv_cong [of _ s]) (simp_all add: placed(3) inv(4))
  moreover have "snap_inv lk {} ?r"
  proof -
    have same: "record_slots ?r = record_slots s" "records ?r = records s" "pool ?r = pool s" by (simp_all add: placed(3) record_slots_def)
    have "rec_ok lk ?r i" if "rec_ok lk s i" for i
      using that placed(2) by (auto simp: rec_ok_def Let_def same tk)
    moreover have "old_ok ?r u" if "st ?r u = TASK_OLD" "old_ok s u" for u
      using that n by (auto simp: old_ok_def same tk split: if_splits)
    ultimately show ?thesis using inv(5) n by (auto simp: snap_inv_def same tk split: if_splits)
  qed
  ultimately show ?thesis by (simp add: stl_inv_def)
qed (use assms in simp)

lemma register_task_calm: "calm s (register_task g x s)" and register_task_kept: "kept s (register_task g x s)"
proof -
  have n: "rt_state (fresh_task h now y) = TASK_SLEEPING" for h now y by (simp add: fresh_task_def)
  show "calm s (register_task g x s)"
    by (cases rule: register_task_cases [of g x s]; (rule calm_frame)?) (auto simp: n split: if_splits)
  show "kept s (register_task g x s)"
    by (cases rule: register_task_cases [of g x s]; (rule kept_frame)?) (auto simp: n split: if_splits)
qed

section \<open>Registering a group\<close>

lemma register_scan_valid:
  "register_scan obj prior es result needed = (SECTION_STL_OK, m) \<Longrightarrow> e \<in> set es \<Longrightarrow> fst e = STL_SECTION_TASK
   \<Longrightarrow> \<exists>x. task_object obj (the (snd e)) = Some x \<and> reg_task_valid x"
proof (induction obj prior es result needed rule: register_scan.induct)
  case (2 obj prior a es result needed)
  show ?case
  proof (cases "fst a = STL_SECTION_TASK")
    case True
    then obtain x where x: "Option.bind (snd a) (task_object obj) = Some x" "reg_task_valid x"
      using 2(3) by (auto split: option.splits if_splits)
    then have "task_object obj (the (snd a)) = Some x" by (cases "snd a") simp_all
    then show ?thesis using 2(1) [OF True x(1)] 2(3-5) True x by auto
  next
    case False
    then show ?thesis using 2(2) [OF False] 2(3-5) by auto
  qed
qed simp

lemma register_scan_result: "register_scan obj prior es result needed = (SECTION_STL_OK, m) \<Longrightarrow> result = SECTION_STL_OK"
proof (induction obj prior es result needed rule: register_scan.induct)
  case (2 obj prior a es result needed)
  show ?case
  proof (cases "fst a = STL_SECTION_TASK")
    case True
    then obtain x where x: "Option.bind (snd a) (task_object obj) = Some x" "reg_task_valid x"
      using 2(3) by (auto split: option.splits if_splits)
    then show ?thesis using 2(1) [OF True x(1)] 2(3) True by (auto split: if_splits)
  next
    case False
    then show ?thesis using 2(2) [OF False] 2(3) by auto
  qed
qed simp

definition register_fold :: "stl_image_objects \<Rightarrow> nat \<Rightarrow> stl_entry list \<Rightarrow> stl \<Rightarrow> stl" where
  "register_fold obj g es s =
     foldl (\<lambda>s e. if fst e = STL_SECTION_TASK then register_task g (the (task_object obj (the (snd e)))) s else s) s es"

text \<open>The group with its new handle, before its tasks are placed.\<close>

definition group_opened :: "nat \<Rightarrow> stl_handle \<Rightarrow> stl \<Rightarrow> stl" where
  "group_opened g h s = s\<lparr>generation := sh_generation h, groups := (groups s)(g := group_zero\<lparr>rg_handle := h, rg_state := SECTION_STL_DISABLED\<rparr>),
     group_list := g # group_list s, stat_group_count := stat_group_count s + 1\<rparr>"

lemma register_task_resident:
  "register_task g x (s\<lparr>group_list := gl, stat_group_count := c\<rparr>) = (register_task g x s)\<lparr>group_list := gl, stat_group_count := c\<rparr>"
  by (simp add: register_task_def Let_def task_set_def group_set_def split: option.split)

lemma register_fold_resident:
  "register_fold obj g es (s\<lparr>group_list := gl, stat_group_count := c\<rparr>) = (register_fold obj g es s)\<lparr>group_list := gl, stat_group_count := c\<rparr>"
  by (induction es arbitrary: s) (simp_all add: register_fold_def register_task_resident)

lemma register_fold_frame [simp]:
  "group_list (register_fold obj g es s) = group_list s" "stat_group_count (register_fold obj g es s) = stat_group_count s"
  "stat_fault (register_fold obj g es s) = stat_fault s" "generation (register_fold obj g es s) = generation s"
  by (induction es arbitrary: s) (simp_all add: register_fold_def)

lemma register_fold_ok:
  assumes "\<And>e. e \<in> set es \<Longrightarrow> fst e = STL_SECTION_TASK \<Longrightarrow> \<exists>x. task_object obj (the (snd e)) = Some x \<and> reg_task_valid x"
  shows "calm s (register_fold obj g es s)" and "kept s (register_fold obj g es s)"
    and "stl_inv lk {} {} s \<Longrightarrow> g \<in> set (group_list s) \<Longrightarrow> stl_inv lk {} {} (register_fold obj g es s)"
proof -
  have one: "calm s (register_fold obj g es s) \<and> kept s (register_fold obj g es s)
      \<and> (stl_inv lk {} {} s \<longrightarrow> g \<in> set (group_list s) \<longrightarrow> stl_inv lk {} {} (register_fold obj g es s))"
    using assms
  proof (induction es arbitrary: s)
    case (Cons e es)
    let ?s = "if fst e = STL_SECTION_TASK then register_task g (the (task_object obj (the (snd e)))) s else s"
    have e: "register_fold obj g (e # es) s = register_fold obj g es ?s" by (simp add: register_fold_def)
    have "stl_inv lk {} {} ?s" if "stl_inv lk {} {} s" "g \<in> set (group_list s)"
      using that register_task_inv [OF that] Cons.prems [of e] by (auto simp: reg_task_valid_def word_neq_0_conv)
    moreover have "group_list ?s = group_list s" "calm s ?s" "kept s ?s"
      using register_task_calm register_task_kept by simp_all
    ultimately show ?case
      unfolding e using Cons.IH [of ?s] Cons.prems calm_trans [of s ?s] kept_trans [of s ?s] by auto
  qed (simp add: register_fold_def)
  then show "calm s (register_fold obj g es s)" "kept s (register_fold obj g es s)"
    "stl_inv lk {} {} s \<Longrightarrow> g \<in> set (group_list s) \<Longrightarrow> stl_inv lk {} {} (register_fold obj g es s)"
    by simp_all
qed

lemma group_opened_inv:
  assumes "stl_inv lk {} {} s" "g < SECTION_STL_MAX_GROUPS" "sh_group_id (hnd s g) = 0" "sh_group_id h \<noteq> 0"
    and "\<And>k. k < SECTION_STL_MAX_GROUPS \<Longrightarrow> sh_group_id (hnd s k) \<noteq> sh_group_id h"
    and "unat (generation s) \<le> unat (sh_generation h)"
  shows "stl_inv lk {} {} (group_opened g h s)"
proof -
  let ?r = "group_opened g h s"
  have inv: "groups_inv s" "tasks_inv s" "sched_inv {} {} s" "pool_inv s" "snap_inv lk {} s" using assms(1) by (simp_all add: stl_inv_def)
  have ng: "g \<notin> set (group_list s)" using inv(1) assms(2,3) by (auto simp: groups_inv_def)
  have gr: "groups ?r k = groups s k" if "k \<noteq> g" for k using that by (simp add: group_opened_def)
  have gg: "hnd ?r g = h" "gtasks ?r g = []" by (simp_all add: group_opened_def group_zero_def)
  have fr: "group_list ?r = g # group_list s" "tasks ?r = tasks s" "p_current ?r = p_current s" "dispatch_active ?r = dispatch_active s"
    by (simp_all add: group_opened_def)
  have ne: "k \<noteq> g" if "k \<in> set (group_list s)" for k using ng that by auto
  have sub: "k < SECTION_STL_MAX_GROUPS" if "k \<in> set (group_list s)" for k using inv(1) that by (auto simp: groups_inv_def)
  have "groups_inv ?r"
    unfolding groups_inv_def
  proof (intro conjI allI impI ballI)
    show "distinct (group_list ?r)" "set (group_list ?r) \<subseteq> {..<SECTION_STL_MAX_GROUPS}" using inv(1) ng assms(2) by (auto simp: fr groups_inv_def)
    show "stat_group_count ?r = length (group_list ?r)" using inv(1) by (simp add: group_opened_def groups_inv_def)
    have "inj_on (\<lambda>k. sh_group_id (hnd ?r k)) (set (group_list s))"
      using inv(1) ne by (auto simp: groups_inv_def inj_on_def gr)
    moreover have "sh_group_id (hnd s k) \<noteq> sh_group_id h" if "k \<in> set (group_list s)" for k using assms(5) sub that by blast
    ultimately show "inj_on (\<lambda>k. sh_group_id (hnd ?r k)) (set (group_list ?r))"
      using ne by (auto simp: fr gg gr) metis
  next
    fix k assume "k < SECTION_STL_MAX_GROUPS"
    then have "k \<in> set (group_list s) \<longleftrightarrow> sh_group_id (hnd s k) \<noteq> 0" using inv(1) by (simp add: groups_inv_def)
    then show "k \<in> set (group_list ?r) \<longleftrightarrow> sh_group_id (hnd ?r k) \<noteq> 0"
      using assms(4) by (cases "k = g") (simp_all add: fr gg gr)
  next
    fix k assume "k \<in> set (group_list ?r)"
    then have "k = g \<or> k \<in> set (group_list s) \<and> k \<noteq> g" using ne by (auto simp: fr)
    then show "unat (sh_generation (hnd ?r k)) \<le> unat (generation ?r)"
      using inv(1) assms(6) by (auto simp: gg gr groups_inv_def group_opened_def)
  qed
  moreover have "tasks_inv ?r"
    using inv(2) ne by (auto simp: tasks_inv_def fr gg gr)
  moreover have "sched_inv {} {} ?r"
  proof -
    have "ready_is ?r xs \<longleftrightarrow> ready_is s xs" for xs by (rule ready_is_cong) (simp_all add: group_opened_def)
    moreover have "admit_ok ?r k" if "k \<in> set (group_list ?r)" for k
    proof (cases "k = g")
      case False
      then have "admit_ok s k" using that inv(3) by (simp add: fr sched_inv_def)
      then show ?thesis using False by (simp add: admit_ok_def fr gr)
    qed (simp add: admit_ok_def gg)
    moreover have "current_ok ?r" using inv(3) by (simp add: sched_inv_def current_ok_def fr)
    moreover have "run_ok ?r" using inv(3) ne by (auto simp: sched_inv_def run_ok_def fr gg gr)
    ultimately show ?thesis using inv(3) by (simp add: sched_inv_def fr)
  qed
  moreover have "pool_inv ?r" by (subst pool_inv_cong [of _ s]) (simp_all add: group_opened_def inv(4))
  moreover have "snap_inv lk {} ?r" by (subst snap_inv_cong [of _ s]) (simp_all add: group_opened_def record_slots_def inv(5))
  ultimately show ?thesis by (simp add: stl_inv_def)
qed

lemma generation_next:
  fixes g :: u32
  assumes "g \<noteq> - 1"
  shows "unat (g + 1) = Suc (unat g)"
  using assms unatSuc [of g] by (metis add.commute eq_neg_iff_add_eq_0)

text \<open>How a registration ends.\<close>

lemma register_cases:
  obtains (refused) q where "section_stl_group_register pv obj i p_entries cnt has_handle s = (q, None, s)" "q \<noteq> SECTION_STL_OK"
  | (loaded) g h es where "section_stl_group_register pv obj i p_entries cnt has_handle s
        = (SECTION_STL_OK, Some h, register_fold obj g es (group_opened g h s))"
      "h = \<lparr>sh_group_id = i, sh_generation = generation s + 1\<rparr>" "i \<noteq> 0" "generation s \<noteq> - 1"
      "g < SECTION_STL_MAX_GROUPS" "sh_group_id (hnd s g) = 0" "stat_fault s = SECTION_STL_OK" "stl_initialized s"
      "\<And>k. k < SECTION_STL_MAX_GROUPS \<Longrightarrow> sh_group_id (hnd s k) \<noteq> i"
      "\<And>e. e \<in> set es \<Longrightarrow> fst e = STL_SECTION_TASK \<Longrightarrow> \<exists>x. task_object obj (the (snd e)) = Some x \<and> reg_task_valid x"
proof -
  define es where "es = take (unat cnt) (case p_entries of None \<Rightarrow> [] | Some es \<Rightarrow> es)"
  define pg where "pg = List.find (\<lambda>g. sh_group_id (hnd s g) = 0) (rev [0..<SECTION_STL_MAX_GROUPS])"
  define ft where "ft = length (filter (\<lambda>t. st s t = TASK_FREE) [0..<SECTION_STL_MAX_TASKS])"
  define r0 where "r0 = (if \<not> stl_initialized s \<or> stat_fault s \<noteq> SECTION_STL_OK then SECTION_STL_BAD_STATE else SECTION_STL_OK)"
  define r1 where "r1 = (if list_ex (\<lambda>g. sh_group_id (hnd s g) = i) [0..<SECTION_STL_MAX_GROUPS] then SECTION_STL_BAD_STATE else r0)"
  define sc where "sc = register_scan obj [] es r1 0"
  define r3 where "r3 = (if fst sc = SECTION_STL_OK \<and> (pg = None \<or> snd sc > ft) then SECTION_STL_NO_CAPACITY else fst sc)"
  define r4 where "r4 = (if r3 = SECTION_STL_OK \<and> generation s = - 1 then SECTION_STL_GENERATION_EXHAUSTED else r3)"
  let ?h = "\<lparr>sh_group_id = i, sh_generation = generation s + 1\<rparr>"
  let ?out = "section_stl_group_register pv obj i p_entries cnt has_handle s"
  have open_eq: "(register_fold obj (the pg) es (group_set (\<lambda>_. group_zero\<lparr>rg_handle := ?h, rg_state := SECTION_STL_DISABLED\<rparr>) (the pg)
       (s\<lparr>generation := generation s + 1\<rparr>)))\<lparr>group_list := the pg # group_list s, stat_group_count := stat_group_count s + 1\<rparr>
     = register_fold obj (the pg) es (group_opened (the pg) ?h s)"
    unfolding register_fold_resident [symmetric] by (simp add: group_opened_def group_set_def)
  have body: "?out = (if r4 \<noteq> SECTION_STL_OK then (r4, None, s)
      else (SECTION_STL_OK, Some ?h, register_fold obj (the pg) es (group_opened (the pg) ?h s)))"
    if "pv_api_allowed pv" "native_context pv s" "\<not> (i = 0 \<or> \<not> has_handle \<or> cnt > SECTION_STL_MAX_REGISTRATIONS \<or> (cnt > 0 \<and> p_entries = None))"
  proof -
    have "?out = (if r4 \<noteq> SECTION_STL_OK then (r4, None, s)
      else (let s2 = register_fold obj (the pg) es (group_set (\<lambda>_. group_zero\<lparr>rg_handle := ?h, rg_state := SECTION_STL_DISABLED\<rparr>) (the pg)
              (s\<lparr>generation := generation s + 1\<rparr>))
            in (SECTION_STL_OK, Some ?h, s2\<lparr>group_list := the pg # group_list s2, stat_group_count := stat_group_count s2 + 1\<rparr>)))"
      using that unfolding section_stl_group_register_def Let_def r4_def r3_def sc_def r1_def r0_def ft_def pg_def es_def register_fold_def
      by (simp only: split_beta if_False if_True simp_thms)
    then show ?thesis using open_eq by (simp add: Let_def)
  qed
  show thesis
  proof (cases "pv_api_allowed pv \<and> native_context pv s
      \<and> \<not> (i = 0 \<or> \<not> has_handle \<or> cnt > SECTION_STL_MAX_REGISTRATIONS \<or> (cnt > 0 \<and> p_entries = None))")
    case False
    then have "\<exists>q. ?out = (q, None, s) \<and> q \<noteq> SECTION_STL_OK" by (auto simp: section_stl_group_register_def)
    then show thesis using refused by blast
  next
    case True
    note b = body [OF True [THEN conjunct1] True [THEN conjunct2, THEN conjunct1] True [THEN conjunct2, THEN conjunct2]]
    show thesis
    proof (cases "r4 = SECTION_STL_OK")
      case False
      then show thesis using refused b by simp
    next
      case ok: True
      then have g: "generation s \<noteq> - 1" "fst sc = SECTION_STL_OK" "pg \<noteq> None" by (auto simp: r4_def r3_def split: if_splits)
      obtain gx where gx: "pg = Some gx" using g(3) by blast
      have gg: "gx < SECTION_STL_MAX_GROUPS" "sh_group_id (hnd s gx) = 0"
        using gx find_Some_iff [of _ "rev [0..<SECTION_STL_MAX_GROUPS]" gx] by (auto simp: pg_def in_set_conv_nth [symmetric] rev_nth)
      have scan: "register_scan obj [] es r1 0 = (SECTION_STL_OK, snd sc)" using g(2) by (metis prod.collapse sc_def)
      have "r1 = SECTION_STL_OK" using register_scan_result [OF scan] .
      then have f: "stat_fault s = SECTION_STL_OK" "stl_initialized s" "\<And>k. k < SECTION_STL_MAX_GROUPS \<Longrightarrow> sh_group_id (hnd s k) \<noteq> i"
        by (auto simp: r1_def r0_def list_ex_iff split: if_splits)
      show thesis
        by (rule loaded [of ?h gx es]) (use b ok gx g(1) gg f True register_scan_valid [OF scan] in auto)
    qed
  qed
qed

lemma register_sound: "sound lk s (snd (snd (section_stl_group_register pv obj i p_entries cnt has_handle s)))"
proof (cases rule: register_cases [of pv obj i p_entries cnt has_handle s])
  case (loaded g h es)
  let ?o = "group_opened g h s"
  have "unat (generation s + 1) = Suc (unat (generation s))"
    by (rule generation_next [OF loaded(4)])
  then have gen: "unat (sh_generation h) = Suc (unat (generation s))" by (simp add: loaded(2))
  have "calm s ?o"
  proof -
    have "dead ?o k" if k: "dead s k" for k
    proof -
      have "k \<noteq> h" using k gen by (auto simp: dead_def)
      then show ?thesis using k gen by (auto simp: dead_def group_opened_def)
    qed
    then show ?thesis by (simp add: calm_def group_opened_def)
  qed
  then have c: "calm s (register_fold obj g es ?o)" using calm_trans register_fold_ok(1) loaded(10) by blast
  have "kept s ?o" by (rule kept_frame) (simp_all add: group_opened_def)
  then have k: "kept s (register_fold obj g es ?o)" using kept_trans register_fold_ok(2) loaded(10) by blast
  have "stl_inv lk {} {} (register_fold obj g es ?o)" if "stl_inv lk {} {} s"
  proof -
    have "stl_inv lk {} {} ?o"
      by (rule group_opened_inv [OF that loaded(5,6)]) (use loaded gen in auto)
    moreover have "g \<in> set (group_list ?o)" by (simp add: group_opened_def)
    ultimately show ?thesis using register_fold_ok(3) loaded(10) by blast
  qed
  then show ?thesis using c k loaded(1,7) by (simp add: sound_def group_opened_def)
qed simp

section \<open>All calls\<close>

text \<open>
  A request of an application.  \<open>Initialize_end\<close> closes the transaction that \<open>Initialize_begin\<close> opened on the slot,
  behind the callbacks.
\<close>

datatype stl_call =
    Start_core u32
  | Register stl_image_objects u32 "stl_entry list option" u32 bool
  | Initialize_begin stl_image_objects stl_handle "stl_entry list option" u32
  | Initialize_end nat
  | Enable stl_handle | Disable stl_handle | Pause stl_handle | Revoke stl_handle
  | Acquire stl_handle | Release stl_handle | Quiescent stl_handle | Forget stl_handle
  | Tick u32 | Yield | Request_native

fun stl_call_effect :: "port_view \<Rightarrow> stl_call \<Rightarrow> stl \<Rightarrow> stl" where
  "stl_call_effect pv (Start_core now) s = snd (section_stl_init pv now s)"
| "stl_call_effect pv (Register obj i es n has) s = snd (snd (section_stl_group_register pv obj i es n has s))"
| "stl_call_effect pv (Initialize_begin obj h es n) s = snd (group_initialize_begin pv obj h es n s)"
| "stl_call_effect pv (Initialize_end g) s =
     (if g \<in> set (group_list s) \<and> rg_init_busy (groups s g) then snd (group_initialize_end g s) else s)"
| "stl_call_effect pv (Enable h) s = snd (section_stl_group_enable pv h s)"
| "stl_call_effect pv (Disable h) s = snd (section_stl_group_disable pv h s)"
| "stl_call_effect pv (Pause h) s = snd (section_stl_group_pause pv h s)"
| "stl_call_effect pv (Revoke h) s = snd (section_stl_group_revoke pv h s)"
| "stl_call_effect pv (Acquire h) s = snd (section_stl_group_acquire pv h s)"
| "stl_call_effect pv (Release h) s = snd (section_stl_group_release pv h s)"
| "stl_call_effect pv (Quiescent h) s = snd (section_stl_group_quiescent pv h s)"
| "stl_call_effect pv (Forget h) s = snd (section_stl_group_forget pv h s)"
| "stl_call_effect pv (Tick now) s = snd (section_stl_tick pv now s)"
| "stl_call_effect pv Yield s = snd (section_stl_yield pv s)"
| "stl_call_effect pv Request_native s = snd (section_stl_request_native pv s)"

theorem call_sound: "sound lk s (stl_call_effect pv c s)"
  by (cases c)
    (simp_all add: init_sound register_sound initialize_begin_sound initialize_end_sound enable_sound disable_sound pause_sound
      revoke_sound acquire_sound release_sound quiescent_sound forget_sound tick_sound yield_sound request_native_sound)

end
