(* ===== verification/Stl_System.thy ===== *)
theory Stl_System
  imports Stl_Groups
begin

text \<open>
  The managed runtime as a system: calls of the application and of interrupts, the two exception vectors, the running task and its
  completion, in any order; the invariant of all reachable states.
\<close>

section \<open>What a switch does to suspended tasks and closed handles\<close>

definition executing :: "stl \<Rightarrow> nat \<Rightarrow> bool" where
  "executing s t \<longleftrightarrow> p_current s = Some t \<and> st s t = TASK_RUNNING"

definition closing :: "stl \<Rightarrow> stl \<Rightarrow> bool" where
  "closing s s' \<longleftrightarrow> (\<forall>h. dead s h \<longrightarrow> dead s' h)"

lemma closing_trans: "closing s s1 \<Longrightarrow> closing s1 s2 \<Longrightarrow> closing s s2"
  by (simp add: closing_def)

lemma closing_calm: "calm s s' \<Longrightarrow> closing s s'"
  by (simp add: calm_def closing_def)

lemma closing_frame: "generation s' = generation s \<Longrightarrow> group_list s' = group_list s \<Longrightarrow> groups s' = groups s \<Longrightarrow> closing s s'"
  by (simp add: closing_def dead_def)

lemma suspended_frame:
  "records (suspended t frame n quantum offset gap front s) = records (snapshot_store t frame n offset gap s)"
  "pool (suspended t frame n quantum offset gap front s) = pool (snapshot_store t frame n offset gap s)"
  "groups (suspended t frame n quantum offset gap front s) = groups s"
  "group_list (suspended t frame n quantum offset gap front s) = group_list s"
  "generation (suspended t frame n quantum offset gap front s) = generation s"
  by (simp_all add: suspended_def Let_def)

lemma suspended_own_words:
  "snapshot_words (suspended t frame n quantum offset gap front s) t = map frame [0..<n]"
  by (simp add: snapshot_words_def suspended_tasks suspended_frame copy_words_def)

lemma suspended_other_words:
  assumes "stl_inv lk {} {} s" "placement n offset gap s" "0 < n" "u \<noteq> t"
    and "st (suspended t frame n quantum offset gap front s) u = TASK_OLD" (is "st ?s u = _")
  shows "st s u = TASK_OLD \<and> own ?s u = own s u \<and> snapshot_words ?s u = snapshot_words s u"
proof -
  have tk: "tasks ?s u = tasks s u" using assms(4) by (simp add: suspended_tasks)
  then have o: "st s u = TASK_OLD" using assms(5) by simp
  obtain i where i: "i \<in> set (record_slots s)" "rt_record (tasks s u) = Some i" using old_record [OF assms(1) o] by metis
  have p: "pool_inv s" using assms(1) by (simp add: stl_inv_def)
  have "i \<noteq> record_tail s" using record_tail_fresh [OF p] i(1) assms(2) by (auto simp: placement_def)
  moreover have "pool (snapshot_store t frame n offset gap s) (sr_offset (records s i) + k) = pool s (sr_offset (records s i) + k)"
    if "k < sr_words (records s i)" for k
    by (rule snapshot_store_keeps [OF p assms(2,3) i(1)]) (use that in simp_all)
  ultimately show ?thesis using o i(2) by (simp add: tk snapshot_words_def suspended_frame del: snapshot_store_simps(3))
qed

text \<open>Only the executing task becomes suspended, with the words from its stack pointer up.\<close>

definition saves :: "stl_link \<Rightarrow> u32 \<Rightarrow> stl \<Rightarrow> stl \<Rightarrow> bool" where
  "saves lk sp s s' \<longleftrightarrow> (\<forall>u. st s' u = TASK_OLD \<longrightarrow> st s u = TASK_OLD \<and> own s' u = own s u \<and> snapshot_words s' u = snapshot_words s u
     \<or> executing s u \<and> own s' u = own s u
       \<and> (\<exists>n. frame_words lk sp s = (n, s) \<and> 0 < n \<and> snapshot_words s' u = map (saved_frame lk s sp) [0..<n]))"

lemma saves_kept: "kept s s' \<Longrightarrow> saves lk sp s s'"
  by (simp add: kept_def saves_def)

lemma saves_trans:
  assumes "saves lk sp s s1" "kept s1 s2"
  shows "saves lk sp s s2"
  unfolding saves_def
proof (intro allI impI)
  fix u assume "st s2 u = TASK_OLD"
  then have "st s1 u = TASK_OLD" "own s2 u = own s1 u" "snapshot_words s2 u = snapshot_words s1 u" using assms(2) by (simp_all add: kept_def)
  then show "st s u = TASK_OLD \<and> own s2 u = own s u \<and> snapshot_words s2 u = snapshot_words s u
     \<or> executing s u \<and> own s2 u = own s u
       \<and> (\<exists>n. frame_words lk sp s = (n, s) \<and> 0 < n \<and> snapshot_words s2 u = map (saved_frame lk s sp) [0..<n])"
    using assms(1) unfolding saves_def by metis
qed

lemma depart_effect:
  assumes "stl_inv lk {} {} s" "stat_fault s = SECTION_STL_OK" "switch_depart pv lk elapsed sp s = Inr s1"
  shows "closing s s1" and "saves lk sp s s1"
proof -
  have "closing s s1 \<and> saves lk sp s s1"
    using assms(1,2)
  proof (cases rule: switch_depart_cases [where pv = pv and lk = lk and elapsed = elapsed and sp = sp])
    case idle
    then show ?thesis using assms(3) saves_kept [OF kept_refl] by (simp add: closing_def)
  next
    case (revoked t g)
    let ?s = "(task_set (\<lambda>x. x\<lparr>rt_state := TASK_SLEEPING\<rparr>) t s)\<lparr>p_current := None\<rparr>"
    have e: "s1 = group_cancel g ?s" using revoked(6) assms(3) by simp
    have "st s t \<noteq> TASK_OLD" "st s t \<noteq> TASK_FREE" using assms(1) revoked(1) by (simp_all add: stl_inv_def sched_inv_def current_ok_def)
    moreover have "st s t \<noteq> TASK_NEW"
      using assms(1) revoked(2,4,5) by (auto simp: stl_inv_def sched_inv_def admit_ok_def state_order)
    ultimately have "st s t = TASK_RUNNING \<or> st s t = TASK_SLEEPING" by (cases "st s t") simp_all
    then have i: "stl_inv lk {} {} ?s" by (rule stop_current_inv [OF assms(1) revoked(1)])
    then have i': "stl_inv lk (insert (hnd ?s g) {}) {} ?s" using stl_inv_mono [OF i] by simp
    have k: "kept s ?s" by (rule kept_frame) (auto split: if_splits)
    have "kept s s1" unfolding e
      by (rule kept_trans [OF k kept_cancel [OF cancel_pass_inv [OF i']]]) (use revoked(2) in simp)
    moreover have "closing s ?s" by (rule closing_frame) simp_all
    then have "closing s s1" unfolding e using closing_trans closing_calm calm_cancel by blast
    ultimately show ?thesis using saves_kept by blast
  next
    case (suspends t n quantum offset gap front)
    let ?r = "records_reap s" and ?s = "suspended t (saved_frame lk s sp) n quantum offset gap front (records_reap s)"
    have r: "stl_inv lk {} {} ?r" "kept s ?r" "closing s ?r"
      using stl_inv_reap(1) kept_reap closing_calm calm_reap assms(1) by blast+
    have e: "s1 = ?s" using suspends(9) assms(3) by simp
    have "closing ?r ?s" by (rule closing_frame) (simp_all add: suspended_frame)
    then have "closing s s1" using r(3) closing_trans e by blast
    moreover have "saves lk sp s s1"
      unfolding saves_def
    proof (intro allI impI)
      fix u assume u: "st s1 u = TASK_OLD"
      show "st s u = TASK_OLD \<and> own s1 u = own s u \<and> snapshot_words s1 u = snapshot_words s u
        \<or> executing s u \<and> own s1 u = own s u
          \<and> (\<exists>n. frame_words lk sp s = (n, s) \<and> 0 < n \<and> snapshot_words s1 u = map (saved_frame lk s sp) [0..<n])"
      proof (cases "u = t")
        case True
        then show ?thesis using suspends(1-4) suspended_own_words by (auto simp: e executing_def suspended_tasks)
      next
        case False
        then show ?thesis
          using suspended_other_words [OF r(1) suspends(5,4) False u [unfolded e]] r(2) by (auto simp: e kept_def)
      qed
    qed
    ultimately show ?thesis by blast
  next
    case (completed t)
    have k: "kept s (s\<lparr>p_current := None\<rparr>)" by (rule kept_frame) simp_all
    have "closing s (s\<lparr>p_current := None\<rparr>)" by (rule closing_frame) simp_all
    then show ?thesis using saves_kept [OF k] completed(3) assms(3) by simp
  qed (use assms(3) in simp_all)
  then show "closing s s1" "saves lk sp s s1" by simp_all
qed

section \<open>A whole switch\<close>

lemma popped_effect:
  assumes "stl_inv lk {} {} s" "ready_is s (t # xs)"
  shows "closing s (snd (ready_pop s))" and "kept s (snd (ready_pop s))"
proof -
  have "tasks (snd (ready_pop s)) = (tasks s)(t := (tasks s t)\<lparr>rt_queued := False\<rparr>)" using pop_inv [OF assms] by metis
  then show "closing s (snd (ready_pop s))" "kept s (snd (ready_pop s))"
    by (intro closing_frame kept_frame; auto split: if_splits)+
qed

lemma running_now_effect: "closing s (running_now t s)" "kept s (running_now t s)"
  by (intro closing_frame kept_frame; auto simp: running_now_def split: if_splits)+

lemma prepared_effect: "closing s (prepared t stack s)" "kept s (prepared t stack s)"
  by (intro closing_frame kept_frame; auto simp: prepared_def split: if_splits)+

lemma unpacked_kept:
  assumes "stl_inv lk {} {t} s" "st s t = TASK_OLD" "i \<in> set (record_slots s)" "rt_record (tasks s t) = Some i" "sr_task_index (records s i) = t"
  shows "kept s (running_now t (unpacked t i s))"
  unfolding kept_def
proof (intro allI impI)
  fix u assume "st (running_now t (unpacked t i s)) u = TASK_OLD"
  then have u: "u \<noteq> t" "st s u = TASK_OLD" by (auto simp: running_now_def unpacked_def Let_def split: if_splits)
  then obtain j where j: "rt_record (tasks s u) = Some j" "sr_task_index (records s j) = u" using old_record [OF assms(1)] by metis
  then have "j \<noteq> i" using u(1) assms(5) by auto
  then show "st s u = TASK_OLD \<and> own (running_now t (unpacked t i s)) u = own s u
     \<and> snapshot_words (running_now t (unpacked t i s)) u = snapshot_words s u"
    using u j(1) by (simp add: running_now_def unpacked_def Let_def snapshot_words_def)
qed

lemma arrive_effect:
  assumes "stl_inv lk {} {t} s" "stat_fault s = SECTION_STL_OK" "st s t = TASK_NEW \<or> st s t = TASK_OLD" "\<not> rt_queued (tasks s t)"
    and "p_current s = None" "dispatch_active s" "switch_arrive pv lk t s = (q, s1)"
  obtains (failed) "q = 0" "stat_fault s1 \<noteq> SECTION_STL_OK" "p_current s1 = None"
      "\<not> link_ok lk \<or> \<not> guard_ok s \<or> \<not> pv_owner_commit pv (own s t)"
  | (runs) "q \<noteq> 0" "stat_fault s1 = SECTION_STL_OK" "stl_inv lk {} {} s1" "executing s1 t" "closing s s1" "kept s s1"
      "own s1 t = own s t" "groups s1 = groups s" "group_list s1 = group_list s" "dispatch_active s1"
      "pv_owner_commit pv (own s t)"
proof -
  have idle: "\<forall>u. st s u \<noteq> TASK_RUNNING" using idle_no_running [of "{}" "{t}" s] assms(1,5) by (simp add: stl_inv_def)
  consider (failed) z where "switch_arrive pv lk t s = (0, z)" "stat_fault z \<noteq> SECTION_STL_OK" "p_current z = None"
      "\<not> link_ok lk \<or> \<not> guard_ok s \<or> \<not> pv_owner_commit pv (own s t)"
    | (fresh) sp stack where "st s t = TASK_NEW" "sp \<noteq> 0" "pv_owner_commit pv (own s t)"
      "switch_arrive pv lk t s = (sp, running_now t (prepared t stack s))"
    | (resumed) i sp where "st s t = TASK_OLD" "i \<in> set (record_slots s)" "rt_record (tasks s t) = Some i"
      "sr_task_index (records s i) = t" "sp \<noteq> 0" "pv_owner_commit pv (own s t)"
      "switch_arrive pv lk t s = (sp, running_now t (records_reap (unpacked t i s)))"
      "stat_fault (records_reap (unpacked t i s)) = SECTION_STL_OK"
    by (rule switch_arrive_cases [OF assms(1-3,5), of pv]) blast+
  then show thesis
  proof cases
    case (failed z)
    then show thesis using assms(7) that(1) by simp
  next
    case (fresh sp stack)
    let ?p = "prepared t stack s"
    have e: "q = sp" "s1 = running_now t ?p" using fresh(4) assms(7) by simp_all
    have "stl_inv lk {} {t} ?p \<longleftrightarrow> stl_inv lk {} {t} s" by (rule stl_inv_cong) (simp_all add: prepared_def)
    then have "stl_inv lk {} {} s1"
      unfolding e using assms(1,4,6) fresh(1) idle by (intro running_now_fresh) (simp_all add: prepared_def)
    moreover have "closing s s1" "kept s s1"
      unfolding e using running_now_effect prepared_effect closing_trans kept_trans by blast+
    ultimately show thesis using that(2) fresh(2,3) assms(2,6) e by (simp add: executing_def running_now_def prepared_def)
  next
    case (resumed i sp)
    let ?u = "running_now t (unpacked t i s)"
    have e: "q = sp" "s1 = records_reap ?u" using resumed(7) assms(7) by (simp_all add: records_reap_running)
    have u: "stl_inv lk {} {} ?u"
      using running_now_resumed [OF assms(1) resumed(1) assms(4) idle assms(6) resumed(2-4)] .
    then have "stl_inv lk {} {} s1" "kept ?u s1" "closing ?u s1" unfolding e using stl_inv_reap(1) kept_reap closing_calm calm_reap by blast+
    moreover have "closing s ?u" by (rule closing_frame) (simp_all add: running_now_def unpacked_def Let_def)
    moreover have "kept s ?u" by (rule unpacked_kept [OF assms(1) resumed(1-4)])
    ultimately have "stl_inv lk {} {} s1" "closing s s1" "kept s s1" using closing_trans kept_trans by blast+
    moreover have "stat_fault s1 = SECTION_STL_OK" using resumed(8) by (simp add: e records_reap_running) (simp add: running_now_def)
    ultimately show thesis
      using that(2) resumed(5,6) assms(6) e by (simp add: executing_def running_now_def unpacked_def Let_def)
  qed
qed

text \<open>May a task be started or resumed: its group is loaded and admits it.\<close>

definition admitted :: "stl \<Rightarrow> nat \<Rightarrow> bool" where
  "admitted s t \<longleftrightarrow> (\<exists>g \<in> set (group_list s). hnd s g = own s t \<and> gst s g < SECTION_STL_PAUSED)"

lemma admitted_live: "admitted s t \<Longrightarrow> \<not> dead s (own s t)"
  by (auto simp: admitted_def dead_def state_order)

lemma native_effect:
  assumes "stl_inv lk {} {} s" "stat_fault s = SECTION_STL_OK"
  shows "stl_inv lk {} {} (snd (return_native pv s))" "closing s (snd (return_native pv s))" "kept s (snd (return_native pv s))"
    and "stat_fault (snd (return_native pv s)) = SECTION_STL_OK \<or> \<not> pv_owner_commit pv handle_none"
  using assms return_native_inv closing_frame [of "snd (return_native pv s)" s] kept_frame [of "snd (return_native pv s)" s]
  by (simp_all add: return_native_fault)

lemma activation_effect:
  assumes "stl_inv lk {} {} s" "stat_fault s = SECTION_STL_OK"
  shows "closing s (records_reap (activate_due s))" and "kept s (records_reap (activate_due s))"
proof -
  have "sound lk s (records_reap (activate_due s))" using sound_trans sound_activate sound_reap by blast
  then show "closing s (records_reap (activate_due s))" "kept s (records_reap (activate_due s))"
    using assms closing_calm by (auto simp: sound_def)
qed

lemma switch_effect:
  assumes "stl_inv lk {} {} s" "stat_fault s = SECTION_STL_OK" "dispatch_active s" "sp = 0 \<longrightarrow> p_current s = None"
    and "section_stl_switch pv lk sp s = (q, s1)"
  obtains (failed) "stat_fault s1 \<noteq> SECTION_STL_OK" "p_current s1 = None" "q = 0"
      "\<not> link_ok lk \<or> \<not> guard_ok s \<or> (\<exists>h. \<not> pv_owner_commit pv h) \<or> (\<exists>t. executing s t \<and> fst (frame_words lk sp s) = 0)"
  | (good) "stat_fault s1 = SECTION_STL_OK" "stl_inv lk {} {} s1" "closing s s1" "saves lk sp s s1" "q = 0 \<Longrightarrow> p_current s1 = None"
      "dispatch_active s1" "\<And>t. executing s1 t \<Longrightarrow> executing s t \<and> own s1 t = own s t \<or> admitted s1 t \<and> pv_owner_commit pv (own s1 t)"
proof -
  have to_native: thesis if z: "stl_inv lk {} {} z" "stat_fault z = SECTION_STL_OK" "closing s z" "saves lk sp s z" "p_current z = None"
      "dispatch_active z" "section_stl_switch pv lk sp s = return_native pv z" for z
  proof -
    have e: "q = 0" "s1 = snd (return_native pv z)" using z(7) assms(5) return_native_null [of pv z] by (metis fst_conv, metis snd_conv)
    note n = native_effect [OF z(1,2), of pv]
    show thesis
    proof (cases "stat_fault s1 = SECTION_STL_OK")
      case True
      show thesis
        by (rule good [OF True]) (use n z closing_trans saves_trans in \<open>auto simp: e executing_def\<close>)
    next
      case False
      then show thesis using failed n(4) e z(5) by auto
    qed
  qed
  show thesis
  proof (cases "pv_host_switch_allowed pv")
    case False
    then have "q = sp" "s1 = s" using assms(2,5) by (simp_all add: section_stl_switch_def)
    then show thesis using good assms saves_kept [OF kept_refl] by (auto simp: closing_def)
  next
    case allowed: True
    show thesis
      using assms(1,2) allowed
    proof (cases rule: switch_cases [where sp = sp])
      case (bad_frame t)
      then have e: "q = 0" "s1 = snd (return_native pv ((corrupt s)\<lparr>p_current := None\<rparr>))"
        using assms(5) return_native_null by (metis fst_conv, metis snd_conv)
      have "fst (frame_words lk sp s) = 0" using bad_frame(3) by simp
      then show thesis
        using failed bad_frame(1,2) e by (auto simp: return_native_fault corrupt_def executing_def)
    next
      case (pool_full t n)
      let ?r = "records_reap s"
      have e: "q = sp" "s1 = ?r\<lparr>stat_pool_full := stat_pool_full s + 1\<rparr>" using pool_full(5) assms(5) by simp_all
      have r: "stl_inv lk {} {} ?r" "stat_fault ?r = SECTION_STL_OK" "closing s ?r" "kept s ?r"
        using stl_inv_reap [OF assms(1)] kept_reap [OF assms(1)] closing_calm [OF calm_reap] assms(2) by simp_all
      have "stl_inv lk {} {} s1 \<longleftrightarrow> stl_inv lk {} {} ?r" unfolding e by (rule stl_inv_cong) simp_all
      moreover have "closing ?r s1" "kept ?r s1" unfolding e by (rule closing_frame kept_frame; simp)+
      ultimately show thesis
        using good r closing_trans kept_trans saves_kept pool_full(1,2) assms(3,4) by (auto simp: e executing_def)
    next
      case (native z)
      have "closing s z" "saves lk sp s z" by (rule depart_effect [OF assms(1,2) native(1)])+
      moreover have "stl_inv lk {} {} z" "stat_fault z = SECTION_STL_OK" "p_current z = None" "dispatch_active z"
        using departed_inv [OF assms(1,2) native(1)] assms(3) by simp_all
      ultimately show thesis using to_native native(3) by blast
    next
      case (idle z s2)
      have d: "closing s z" "saves lk sp s z" by (rule depart_effect [OF assms(1,2) idle(1)])+
      have z: "stl_inv lk {} {} z" "stat_fault z = SECTION_STL_OK" "dispatch_active z" using departed_inv [OF assms(1,2) idle(1)] assms(3) by simp_all
      have "closing s s2" "saves lk sp s s2" "dispatch_active s2"
        unfolding idle(2) using activation_effect [OF z(1,2)] closing_trans [OF d(1)] saves_trans [OF d(2)] z(3) by simp_all
      then show thesis using to_native idle by blast
    next
      case (switch z s2 t xs s3)
      have d: "closing s z" "saves lk sp s z" by (rule depart_effect [OF assms(1,2) switch(1)])+
      have z: "stl_inv lk {} {} z" "stat_fault z = SECTION_STL_OK" "dispatch_active z" "runtime_stack z = runtime_stack s"
        using departed_inv [OF assms(1,2) switch(1)] assms(3) by simp_all
      have "closing s s2" "saves lk sp s s2" "dispatch_active s2" "runtime_stack s2 = runtime_stack s"
        unfolding switch(2) using activation_effect [OF z(1,2)] closing_trans [OF d(1)] saves_trans [OF d(2)] z(3,4) by simp_all
      then have s3: "closing s s3" "saves lk sp s s3" "dispatch_active s3" "guard_ok s3 \<longleftrightarrow> guard_ok s" "p_current s3 = None"
          "stat_fault s3 = SECTION_STL_OK"
        unfolding switch(7) using popped_effect [OF switch(3,6)] closing_trans saves_trans switch(4,5) by (auto simp: guard_ok_def)
      have nq: "\<not> rt_queued (tasks s3 t)" by (simp add: switch(9))
      have e: "switch_arrive pv lk t s3 = (q, s1)" using switch(12) assms(5) by simp
      obtain g where g: "g \<in> set (group_list s3)" "hnd s3 g = own s3 t" "gst s3 g < SECTION_STL_PAUSED"
        using queued_group [OF switch(10,11)] by metis
      show thesis
        using switch(10) s3(6) switch(11) nq s3(5,3) e
      proof (cases rule: arrive_effect)
        case failed
        then show thesis using that(1) s3(4) by blast
      next
        case runs
        have c: "closing s s1" "saves lk sp s s1" using closing_trans [OF s3(1) runs(5)] saves_trans [OF s3(2) runs(6)] by simp_all
        have "admitted s1 t" using g runs(7-9) by (auto simp: admitted_def)
        moreover have "u = t" if "executing s1 u" for u using that runs(4) by (simp add: executing_def)
        ultimately show thesis
          by (intro that(2) [OF runs(2,3) c _ runs(10)]) (use runs(1,7,11) in auto)
      qed
    qed
  qed
qed

section \<open>A completion\<close>

lemma activates_any: "activates s (activate_due s)"
proof -
  have ts: "activates s (foldl (\<lambda>s t. activate_task t s) s ts)" for ts s
    using activate_task_activates activates_trans by (induction ts arbitrary: s) (simp, simp, blast)
  have g: "activates s (activate_group g s)" for g s by (simp add: activate_group_def ts)
  have "activates s (foldl (\<lambda>s g. activate_group g s) s gs)" for gs s
    using g activates_trans by (induction gs arbitrary: s) (simp, simp, blast)
  then show ?thesis by (simp add: activate_due_def)
qed

lemma retire_effect:
  assumes "stl_inv lk {} {} s" "st s t = TASK_RUNNING"
  shows "closing s (entry_retire outcome t s)" and "kept s (entry_retire outcome t s)"
proof -
  define m where "m = (let p_group = group_find (own s t) s; s1 = task_set (\<lambda>x. x\<lparr>rt_state := TASK_SLEEPING\<rparr>) t s
      in if p_group \<noteq> None \<and> gst s1 (the p_group) = SECTION_STL_ENABLED \<and> outcome = SECTION_TASK_RUNNING
         then ready_push t (task_set (\<lambda>x. x\<lparr>rt_state := TASK_NEW\<rparr>) t s1) else s1)"
  have e: "entry_retire outcome t s = activate_due m" by (simp add: entry_retire_def m_def Let_def)
  have m: "closing s m" "kept s m"
    by (intro closing_frame kept_frame; auto simp: m_def Let_def split: if_splits)+
  show "closing s (entry_retire outcome t s)" unfolding e using closing_trans [OF m(1) closing_calm [OF calm_activate]] .
  have "st m u = TASK_OLD \<and> own (activate_due m) u = own m u \<and> rt_record (tasks (activate_due m) u) = rt_record (tasks m u)"
    if "st (activate_due m) u = TASK_OLD" for u
    using that activates_any [of m] unfolding activates_def by (metis stl_task_state.distinct)
  then have "kept m (activate_due m)" by (intro kept_frame) simp_all
  then show "kept s (entry_retire outcome t s)" unfolding e using kept_trans m(2) by blast
qed

lemma complete_effect:
  assumes "stl_inv lk {} {} s" "executing s t" "stat_fault s = SECTION_STL_OK" "entry_complete pv inline_ok outcome s = (b, s1)"
  shows "closing s s1" and "kept s s1" and "executing s1 u \<Longrightarrow> admitted s1 u \<and> pv_owner_commit pv (own s1 u)"
proof -
  have ex: "p_current s = Some t" "st s t = TASK_RUNNING" using assms(2) by (simp_all add: executing_def)
  let ?z = "entry_retire outcome t s"
  have z: "stl_inv lk {} {} ?z" "\<And>u. st ?z u \<noteq> TASK_RUNNING" "\<And>u. own ?z u = own s u" by (rule entry_retire_inv [OF assms(1) ex(2)])+
  have zz: "closing s ?z" "kept s ?z" by (rule retire_effect [OF assms(1) ex(2)])+
  consider (stay) "s1 = request_switch ?z" | (refused) "s1 = request_switch (corrupt ?z)"
    | (inline) nx xs where "ready_is ?z (nx # xs)" "st ?z nx = TASK_NEW" "pv_owner_commit pv (own s nx)"
        "s1 = entry_inline nx (group_find (own s t) s) ?z"
    by (rule entry_complete_cases [OF assms(1) ex, of pv inline_ok outcome]) (use assms(4) in auto)
  then have "closing s s1 \<and> kept s s1 \<and> (executing s1 u \<longrightarrow> admitted s1 u \<and> pv_owner_commit pv (own s1 u))"
  proof cases
    case stay
    have "closing ?z s1" "kept ?z s1" unfolding stay by (rule closing_frame kept_frame; simp)+
    then show ?thesis using zz closing_trans kept_trans z(2) stay by (auto simp: executing_def)
  next
    case refused
    have "closing ?z s1" "kept ?z s1" unfolding refused by (rule closing_frame kept_frame; simp add: corrupt_def)+
    then show ?thesis using zz closing_trans kept_trans z(2) refused by (auto simp: executing_def corrupt_def)
  next
    case (inline nx xs)
    let ?p = "snd (ready_pop ?z)" and ?pg = "group_find (own s t) s"
    define r where "r = running_now nx (task_set (\<lambda>x. x\<lparr>rt_quantum_left := SECTION_STL_SLICE_TICKS\<rparr>) nx ?p)"
    have e: "s1 = (if ?pg \<noteq> None \<and> gst r (the ?pg) = SECTION_STL_REVOKING then group_cancel (the ?pg) r else r)"
      by (simp only: inline(4) entry_inline_running Let_def r_def)
    have dz: "dispatch_active ?z" using assms(1) ex(1) by (simp add: entry_retire_frame stl_inv_def sched_inv_def current_ok_def)
    have r: "stl_inv lk {} {} r"
      unfolding r_def by (rule entry_inline_running_inv [OF z(1) inline(1,2)]) (use z(2) dz in simp_all)
    have tp: "tasks ?p = (tasks ?z)(nx := (tasks ?z nx)\<lparr>rt_queued := False\<rparr>)" using pop_inv [OF z(1) inline(1)] by metis
    have "closing ?p r" "kept ?p r"
      unfolding r_def by (intro closing_frame kept_frame; auto simp: running_now_def split: if_splits)+
    then have rk: "closing s r" "kept s r"
      using popped_effect [OF z(1) inline(1)] zz closing_trans kept_trans by blast+
    obtain g where g: "g \<in> set (group_list ?z)" "hnd ?z g = own ?z nx" "gst ?z g = SECTION_STL_ENABLED"
      using queued_group [OF z(1), of nx] inline(2) by metis
    have rf: "group_list r = group_list ?z" "groups r = groups ?z" "own r nx = own ?z nx" "p_current r = Some nx"
      by (simp_all add: r_def running_now_def tp)
    have c: "closing r (group_cancel k r) \<and> kept r (group_cancel k r) \<and> own (group_cancel k r) v = own r v
        \<and> p_current (group_cancel k r) = p_current r
        \<and> (gst r k = SECTION_STL_REVOKING \<longrightarrow> hnd (group_cancel k r) g = hnd r g \<and> gst (group_cancel k r) g = gst r g)" if k: "k \<in> set (group_list r)" for k v
    proof -
      have "stl_inv lk (insert (hnd r k) {}) {} r" using stl_inv_mono [OF r] by simp
      then have "stl_inv lk {} {} (cancel_pass k r)" by (rule cancel_pass_inv) (rule k)
      then have "kept r (group_cancel k r)" by (rule kept_cancel)
      moreover have "own (group_cancel k r) v = own r v"
        using group_cancel_tasks [of "{}" r k v] r by (simp add: stl_inv_def Let_def)
      ultimately show ?thesis using closing_calm [OF calm_cancel] g(3) rf(2) by (auto simp: group_cancel_groups)
    qed
    have pg: "k \<in> set (group_list r)" if "?pg = Some k" for k using group_find_Some [OF that] by (simp add: rf(1) entry_retire_frame)
    have "closing s s1 \<and> kept s s1 \<and> own s1 nx = own r nx \<and> p_current s1 = Some nx \<and> hnd s1 g = hnd r g \<and> gst s1 g = gst r g \<and> group_list s1 = group_list r"
    proof (cases "?pg \<noteq> None \<and> gst r (the ?pg) = SECTION_STL_REVOKING")
      case True
      then obtain k where k: "?pg = Some k" "gst r k = SECTION_STL_REVOKING" by auto
      have e': "s1 = group_cancel k r" using e k by simp
      show ?thesis using c [OF pg [OF k(1)], of nx] k(2) rk closing_trans kept_trans rf(4) unfolding e' by auto
    next
      case False
      then have "s1 = r" using e by auto
      then show ?thesis using rk rf(4) by simp
    qed
    then show ?thesis
      using g inline(3) z(3) rf by (auto simp: executing_def admitted_def state_order)
  qed
  then show "closing s s1" "kept s s1" "executing s1 u \<Longrightarrow> admitted s1 u \<and> pv_owner_commit pv (own s1 u)" by simp_all
qed

section \<open>The system\<close>

text \<open>
  One step of the system: a call, from whatever context the hardware reports; the running task, which may write anywhere on the shared
  stack; its completion, where a plain callback is done; and the two exceptions.  PendSV only switches a dispatch that asked
  for it, and the stack pointer it saves is never NULL.
\<close>

inductive stl_step :: "stl_link \<Rightarrow> stl \<Rightarrow> stl \<Rightarrow> bool" for lk where
  step_call: "stl_step lk s (stl_call_effect pv c s)"
| step_execute: "executing s t \<Longrightarrow> stl_step lk s (s\<lparr>runtime_stack := stack\<rparr>)"
| step_complete: "executing s t \<Longrightarrow> rt_func (tasks s t) \<noteq> 0 \<longrightarrow> outcome = SECTION_TASK_DONE
    \<Longrightarrow> stl_step lk s (snd (entry_complete pv inline_ok outcome s))"
| step_svc: "section_stl_run_admit pv s = None \<Longrightarrow> \<not> dispatch_active s \<Longrightarrow> stl_step lk s (section_stl_port_svc pv lk s)"
| step_pendsv: "dispatch_active s \<Longrightarrow> switch_pending s \<Longrightarrow> sp \<noteq> 0 \<Longrightarrow> stl_step lk s (section_stl_port_pendsv pv lk sp s)"

definition stl_reachable :: "stl_link \<Rightarrow> stl \<Rightarrow> bool" where
  "stl_reachable lk s \<longleftrightarrow> (stl_step lk)\<^sup>*\<^sup>* stl_cold s"

definition stl_system_inv :: "stl_link \<Rightarrow> stl \<Rightarrow> bool" where
  "stl_system_inv lk s \<longleftrightarrow> (stat_fault s = SECTION_STL_OK \<longrightarrow> stl_inv lk {} {} s) \<and> (stat_fault s \<noteq> SECTION_STL_OK \<longrightarrow> (\<forall>t. \<not> executing s t))"

lemma cold_inv: "stl_inv lk {} {} stl_cold"
proof -
  have slots: "record_slots stl_cold = []" by (simp add: record_slots_def stl_cold_def)
  have "groups_inv stl_cold" by (simp add: groups_inv_def stl_cold_def group_zero_def handle_none_def)
  moreover have "tasks_inv stl_cold" by (simp add: tasks_inv_def stl_cold_def task_zero_def)
  moreover have "ready_is stl_cold []" by (simp add: ready_is_def stl_cold_def list_at_def task_zero_def)
  then have "sched_inv {} {} stl_cold"
    unfolding sched_inv_def by (auto simp: current_ok_def run_ok_def stl_cold_def task_zero_def)
  moreover have "pool_inv stl_cold" using slots by (simp add: pool_inv_def recs_def) (simp add: stl_cold_def)
  moreover have "snap_inv lk {} stl_cold" using slots by (simp add: snap_inv_def) (simp add: stl_cold_def task_zero_def)
  ultimately show ?thesis by (simp add: stl_inv_def)
qed

text \<open>A dispatch that begins or ends.\<close>

lemma dispatch_inv:
  assumes "stl_inv lk X Y s" "p_current s = None"
  shows "stl_inv lk X Y (s\<lparr>dispatch_active := b\<rparr>)"
proof -
  let ?s = "s\<lparr>dispatch_active := b\<rparr>"
  have a: "sched_inv X Y s" using assms(1) by (simp add: stl_inv_def)
  have "ready_is ?s xs \<longleftrightarrow> ready_is s xs" for xs by (rule ready_is_cong) simp_all
  moreover have "admit_ok ?s g \<longleftrightarrow> admit_ok s g" "run_ok ?s \<longleftrightarrow> run_ok s" for g by (simp_all add: admit_ok_def run_ok_def)
  moreover have "current_ok ?s" using a assms(2) by (simp add: sched_inv_def current_ok_def)
  ultimately have "sched_inv X Y ?s" using a by (simp add: sched_inv_def)
  then show ?thesis by (rule stl_inv_schedule [OF assms(1)]) simp_all
qed

lemma pending_inv [simp]: "stl_inv lk X Y (s\<lparr>switch_pending := b\<rparr>) \<longleftrightarrow> stl_inv lk X Y s"
  by (rule stl_inv_cong) simp_all

lemma native_restore_frame [simp]:
  "tasks (native_restore s) = tasks s" "groups (native_restore s) = groups s" "group_list (native_restore s) = group_list s"
  "generation (native_restore s) = generation s" "records (native_restore s) = records s" "pool (native_restore s) = pool s"
  "p_current (native_restore s) = p_current s" "stat_fault (native_restore s) = stat_fault s"
  by (simp_all add: native_restore_def)

lemma native_restore_inv: "stl_inv lk X Y s \<Longrightarrow> p_current s = None \<Longrightarrow> stl_inv lk X Y (native_restore s)"
  using dispatch_inv [of lk X Y s False] by (simp add: native_restore_def)

lemma kept_restore: "kept s (native_restore s)" and closing_restore: "closing s (native_restore s)"
  by (intro kept_frame closing_frame; simp)+

text \<open>What a step guarantees, from a state in which the invariant holds.\<close>

definition advances :: "stl_link \<Rightarrow> stl \<Rightarrow> stl \<Rightarrow> bool" where
  "advances lk s s' \<longleftrightarrow> stl_inv lk {} {} s' \<and> closing s s' \<and> (\<exists>sp. saves lk sp s s')
     \<and> (\<forall>t. executing s' t \<longrightarrow> executing s t \<and> own s' t = own s t \<or> admitted s' t)"

lemma advances_kept: "stl_inv lk {} {} s' \<Longrightarrow> closing s s' \<Longrightarrow> kept s s' \<Longrightarrow> \<forall>t. executing s' t \<longrightarrow> executing s t \<and> own s' t = own s t \<or> admitted s' t
    \<Longrightarrow> advances lk s s'"
  unfolding advances_def using saves_kept by blast

lemma vector_effect:
  assumes "stl_inv lk {} {} s" "stat_fault s = SECTION_STL_OK" "dispatch_active s" "sp = 0 \<longrightarrow> p_current s = None"
    and "section_stl_switch pv lk sp s = (q, z)" "s1 = (if q = 0 then native_restore z else z)"
  shows "stat_fault s1 = SECTION_STL_OK \<Longrightarrow> advances lk s s1"
    and "stat_fault s1 \<noteq> SECTION_STL_OK \<Longrightarrow> \<not> executing s1 t"
proof -
  have f: "stat_fault s1 = stat_fault z" "p_current s1 = p_current z" "tasks s1 = tasks z" "groups s1 = groups z" "group_list s1 = group_list z"
    by (simp_all add: assms(6))
  have "(stat_fault s1 = SECTION_STL_OK \<longrightarrow> advances lk s s1) \<and> (stat_fault s1 \<noteq> SECTION_STL_OK \<longrightarrow> \<not> executing s1 t)"
  proof (rule switch_effect [OF assms(1-5)])
    assume "stat_fault z \<noteq> SECTION_STL_OK" "p_current z = None"
    then show ?thesis using f by (simp add: executing_def)
  next
    assume good: "stat_fault z = SECTION_STL_OK" "stl_inv lk {} {} z" "closing s z" "saves lk sp s z" "q = 0 \<Longrightarrow> p_current z = None"
      "\<And>t. executing z t \<Longrightarrow> executing s t \<and> own z t = own s t \<or> admitted z t \<and> pv_owner_commit pv (own z t)"
    have i: "stl_inv lk {} {} s1" using good(2,5) native_restore_inv by (simp add: assms(6))
    have c: "closing s s1" "saves lk sp s s1"
      using good(3,4) closing_trans [OF good(3) closing_restore] saves_trans [OF good(4) kept_restore] by (simp_all add: assms(6))
    have "executing s u \<and> own s1 u = own s u \<or> admitted s1 u" if "executing s1 u" for u
    proof -
      have "executing z u" using that f by (simp add: executing_def)
      then show ?thesis using good(6) f by (auto simp: admitted_def)
    qed
    then show ?thesis using i c good(1) f(1) unfolding advances_def by auto
  qed
  then show "stat_fault s1 = SECTION_STL_OK \<Longrightarrow> advances lk s s1" "stat_fault s1 \<noteq> SECTION_STL_OK \<Longrightarrow> \<not> executing s1 t" by simp_all
qed

lemma advances_from:
  assumes "advances lk s0 s'" "stl_inv lk {} {} s" "tasks s0 = tasks s" "groups s0 = groups s" "group_list s0 = group_list s" "generation s0 = generation s"
    and "records s0 = records s" "pool s0 = pool s" "p_current s0 = p_current s" "runtime_stack s0 = runtime_stack s" "stat_fault s0 = stat_fault s"
  shows "advances lk s s'"
proof -
  have fw: "frame_words lk sp s0 = (n, s0) \<longleftrightarrow> frame_words lk sp s = (n, s)" if "0 < n" for sp n
    using that assms(10) by (auto simp: frame_words_def Let_def split: if_splits)
  have "saves lk sp s s'" if "saves lk sp s0 s'" for sp
    unfolding saves_def
  proof (intro allI impI)
    fix u assume "st s' u = TASK_OLD"
    then consider "st s0 u = TASK_OLD \<and> own s' u = own s0 u \<and> snapshot_words s' u = snapshot_words s0 u"
      | n where "executing s0 u" "own s' u = own s0 u" "frame_words lk sp s0 = (n, s0)" "0 < n" "snapshot_words s' u = map (saved_frame lk s0 sp) [0..<n]"
      using \<open>saves lk sp s0 s'\<close> unfolding saves_def by blast
    then show "st s u = TASK_OLD \<and> own s' u = own s u \<and> snapshot_words s' u = snapshot_words s u
     \<or> executing s u \<and> own s' u = own s u
       \<and> (\<exists>n. frame_words lk sp s = (n, s) \<and> 0 < n \<and> snapshot_words s' u = map (saved_frame lk s sp) [0..<n])"
    proof cases
      case 1
      moreover have "snapshot_words s0 u = snapshot_words s u" using assms(3,7,8) by (simp add: snapshot_words_def split: option.split)
      ultimately show ?thesis using assms(3) by simp
    next
      case (2 n)
      then have "frame_words lk sp s = (n, s)" "saved_frame lk s0 sp = saved_frame lk s sp" using fw assms(10) by (simp_all add: saved_frame_def)
      then show ?thesis using 2 assms(3,9) by (auto simp: executing_def)
    qed
  qed
  then show ?thesis
    using assms by (auto simp: advances_def closing_def dead_def executing_def)
qed

theorem step_advances:
  assumes "stl_system_inv lk s" "stl_step lk s s'"
  shows "stat_fault s' = SECTION_STL_OK \<Longrightarrow> stat_fault s = SECTION_STL_OK \<and> advances lk s s'"
    and "stat_fault s' \<noteq> SECTION_STL_OK \<Longrightarrow> \<not> executing s' t"
proof -
  have "(stat_fault s' = SECTION_STL_OK \<longrightarrow> stat_fault s = SECTION_STL_OK \<and> advances lk s s') \<and> (stat_fault s' \<noteq> SECTION_STL_OK \<longrightarrow> \<not> executing s' t)"
    using assms(2)
  proof (cases rule: stl_step.cases)
    case (step_call pv c)
    have so: "sound lk s s'" unfolding step_call(1) by (rule call_sound)
    show ?thesis
    proof (cases "stat_fault s = SECTION_STL_OK")
      case True
      then have i: "stl_inv lk {} {} s" using assms(1) by (simp add: stl_system_inv_def)
      then have "stl_inv lk {} {} s'" "stat_fault s' = SECTION_STL_OK" "kept s s'" "calm s s'" using so True by (simp_all add: sound_def)
      then show ?thesis using True closing_calm advances_kept by (auto simp: calm_def executing_def)
    next
      case False
      then have "calm s s'" using so by (simp add: sound_def)
      then show ?thesis using False assms(1) by (auto simp: calm_def stl_system_inv_def executing_def)
    qed
  next
    case (step_execute t stack)
    then have ok: "stat_fault s = SECTION_STL_OK" "stl_inv lk {} {} s" using assms(1) by (auto simp: stl_system_inv_def)
    have "stl_inv lk {} {} s' \<longleftrightarrow> stl_inv lk {} {} s" unfolding step_execute by (rule stl_inv_cong) simp_all
    moreover have "closing s s'" "kept s s'" unfolding step_execute by (intro closing_frame kept_frame; simp)+
    ultimately have "advances lk s s'" using ok(2) by (intro advances_kept) (simp_all add: step_execute executing_def)
    then show ?thesis using ok(1) by (simp add: step_execute)
  next
    case (step_complete t outcome pv inline_ok)
    then have ok: "stat_fault s = SECTION_STL_OK" "stl_inv lk {} {} s" using assms(1) by (auto simp: stl_system_inv_def)
    have ex: "p_current s = Some t" "st s t = TASK_RUNNING" using step_complete(2) by (simp_all add: executing_def)
    have e: "entry_complete pv inline_ok outcome s = (fst (entry_complete pv inline_ok outcome s), s')" using step_complete(1) by simp
    have "advances lk s s'"
      using entry_complete_inv(1) [OF ok(2) ex ok(1) e] complete_effect [OF ok(2) step_complete(2) ok(1) e] by (intro advances_kept) auto
    then show ?thesis using entry_complete_inv(2) [OF ok(2) ex ok(1) e] ok(1) by (auto simp: executing_def)
  next
    case (step_svc pv)
    have ok: "stat_fault s = SECTION_STL_OK" using step_svc(2) by (simp add: section_stl_run_admit_def split: if_splits)
    then have i: "stl_inv lk {} {} s" using assms(1) by (simp add: stl_system_inv_def)
    then have pc: "p_current s = None" using step_svc(3) by (cases "p_current s") (auto simp: stl_inv_def sched_inv_def current_ok_def)
    let ?s0 = "s\<lparr>dispatch_active := True\<rparr>"
    obtain q z where z: "section_stl_switch pv lk 0 ?s0 = (q, z)" by fastforce
    have e: "s' = (if q = 0 then native_restore z else z)" using step_svc(1) z by (simp add: section_stl_port_svc_def)
    have "stl_inv lk {} {} ?s0" by (rule dispatch_inv [OF i pc])
    then show ?thesis
      using vector_effect [OF _ _ _ _ z e] advances_from [OF _ i, of ?s0 s'] ok pc by auto
  next
    case (step_pendsv sp pv)
    let ?s0 = "s\<lparr>switch_pending := False\<rparr>"
    obtain q z where z: "section_stl_switch pv lk sp ?s0 = (q, z)" by fastforce
    have e: "s' = (if q = 0 then native_restore z else z)" using step_pendsv(1) z by (simp add: section_stl_port_pendsv_def)
    show ?thesis
    proof (cases "stat_fault s = SECTION_STL_OK")
      case True
      then have i: "stl_inv lk {} {} s" using assms(1) by (simp add: stl_system_inv_def)
      then show ?thesis
        using vector_effect [OF _ _ _ _ z e] advances_from [OF _ i, of ?s0 s'] True step_pendsv by auto
    next
      case False
      then have "section_stl_switch pv lk sp ?s0 = return_native pv (?s0\<lparr>p_current := None\<rparr>)" by (simp add: section_stl_switch_def Let_def)
      then have "z = snd (return_native pv (?s0\<lparr>p_current := None\<rparr>))" using z by (metis snd_conv)
      then show ?thesis using False by (simp add: e return_native_fault executing_def)
    qed
  qed
  then show "stat_fault s' = SECTION_STL_OK \<Longrightarrow> stat_fault s = SECTION_STL_OK \<and> advances lk s s'"
    and "stat_fault s' \<noteq> SECTION_STL_OK \<Longrightarrow> \<not> executing s' t" by simp_all
qed

lemma step_inv: "stl_system_inv lk s \<Longrightarrow> stl_step lk s s' \<Longrightarrow> stl_system_inv lk s'"
  unfolding stl_system_inv_def [of lk s'] using step_advances [of lk s s'] advances_def [of lk s s'] by metis

lemma steps_inv: "(stl_step lk)\<^sup>*\<^sup>* s s' \<Longrightarrow> stl_system_inv lk s \<Longrightarrow> stl_system_inv lk s'"
  by (induction rule: rtranclp_induct) (auto intro: step_inv)

lemma reachable_inv: "stl_reachable lk s \<Longrightarrow> stl_system_inv lk s"
  using steps_inv [of lk stl_cold s] cold_inv by (simp add: stl_reachable_def stl_system_inv_def) (simp add: stl_cold_def executing_def)

end
