(* ===== verification/Stl_Resume.thy ===== *)
theory Stl_Resume
  imports Stl_System
begin

text \<open>
  The way of a preempted task through the managed runtime: saved by a switch, kept by every step while it waits, and restored at the
  same address with the same words.
\<close>

section \<open>Resuming a suspended task\<close>

lemma aligned_distance:
  fixes u a w n :: nat
  assumes "u mod 4 = 0" "a mod 4 = 0" "n = (a + 4 * w - u) div 4" "u < a + 4 * w"
  shows "u + 4 * n = a + 4 * w"
proof -
  define u' a' where "u' = u div 4" and "a' = a div 4"
  then have e: "u = 4 * u'" "a = 4 * a'" using assms(1,2) by auto
  then have "a + 4 * w - u = 4 * (a' + w - u')" by (simp add: diff_mult_distrib2)
  then have "n = a' + w - u'" using assms(3) by simp
  then show ?thesis using assms(4) e by simp
qed

lemma stack_pointer_words:
  assumes "link_ok lk" "stack_address lk STL_GUARD_WORDS \<le> sp" "sp < stack_address lk SECTION_STL_STACK_WORDS" "sp mod 4 = 0"
    and "n = unat ((stack_address lk SECTION_STL_STACK_WORDS - sp) div 4)"
  shows "stack_address lk (SECTION_STL_STACK_WORDS - n) = sp" and "stack_index lk sp = SECTION_STL_STACK_WORDS - n" and "n \<le> SECTION_STL_STACK_WORDS"
proof -
  let ?a = "unat (lk_stack lk)" and ?W = SECTION_STL_STACK_WORDS
  have top: "unat (stack_address lk ?W) = ?a + 4 * ?W" "unat (stack_address lk STL_GUARD_WORDS) = ?a + 4 * STL_GUARD_WORDS"
    using stack_unat [OF assms(1)] by (simp_all add: STL_GUARD_WORDS_def SECTION_STL_STACK_WORDS_def)
  have b: "?a \<le> unat sp" "unat sp < ?a + 4 * ?W" using assms(2,3) top by (simp_all add: word_le_nat_alt word_less_nat_alt)
  have "unat sp mod 4 = 0" using arg_cong [OF assms(4), of unat] by (simp add: unat_mod)
  moreover have "?a mod 8 = 0" using assms(1) by (simp add: link_ok_def)
  then have "?a mod 4 = 0" by presburger
  moreover have "n = (?a + 4 * ?W - unat sp) div 4" using assms(3,5) top(1) by (simp add: unat_div unat_sub)
  ultimately have n: "unat sp + 4 * n = ?a + 4 * ?W" using b by (intro aligned_distance) simp_all
  then show le: "n \<le> ?W" using b by linarith
  have u: "unat (stack_address lk (?W - n)) = ?a + 4 * (?W - n)" using stack_unat [OF assms(1)] by simp
  then have "unat (stack_address lk (?W - n)) = unat sp" using n le by simp
  then show e: "stack_address lk (?W - n) = sp" by (simp add: word_unat_eq_iff)
  show "stack_index lk sp = ?W - n" using stack_index_address [OF assms(1), of "?W - n"] e by simp
qed

lemma depart_old:
  assumes "stl_inv lk {} {} s" "stat_fault s = SECTION_STL_OK" "switch_depart pv lk elapsed sp s = Inr s1" "st s t = TASK_OLD"
  shows "st s1 t = TASK_OLD \<or> dead s (own s t)"
  using assms(1,2)
proof (cases rule: switch_depart_cases [where pv = pv and lk = lk and elapsed = elapsed and sp = sp])
  case (revoked u g)
  let ?s = "(task_set (\<lambda>x. x\<lparr>rt_state := TASK_SLEEPING\<rparr>) u s)\<lparr>p_current := None\<rparr>"
  have e: "s1 = group_cancel g ?s" using revoked(6) assms(3) by simp
  show ?thesis
  proof (cases "own s t = hnd s g")
    case True
    have "groups_inv s" using assms(1) by (simp add: stl_inv_def)
    then have "k = g" if "k \<in> set (group_list s)" "hnd s k = hnd s g" for k using hnd_inject that revoked(2) by blast
    moreover have "unat (sh_generation (hnd s g)) \<le> unat (generation s)" using \<open>groups_inv s\<close> revoked(2) by (simp add: groups_inv_def)
    ultimately have "dead s (own s t)" using True revoked(5) by (auto simp: dead_def)
    then show ?thesis ..
  next
    case False
    have ne: "t \<noteq> u" using assms(1,4) revoked(1) by (auto simp: stl_inv_def sched_inv_def current_ok_def)
    have "st s u \<noteq> TASK_OLD" "st s u \<noteq> TASK_FREE" using assms(1) revoked(1) by (simp_all add: stl_inv_def sched_inv_def current_ok_def)
    moreover have "st s u \<noteq> TASK_NEW"
      using assms(1) revoked(2,4,5) by (auto simp: stl_inv_def sched_inv_def admit_ok_def state_order)
    ultimately have "st s u = TASK_RUNNING \<or> st s u = TASK_SLEEPING" by (cases "st s u") simp_all
    then have "sched_inv {} {} ?s" using stop_current_inv [OF assms(1) revoked(1)] by (simp add: stl_inv_def)
    then have "st s1 t = st s t" unfolding e using False ne by (simp add: group_cancel_tasks Let_def)
    then show ?thesis using assms(4) by simp
  qed
qed (use assms(3,4) in \<open>auto simp: suspended_tasks\<close>)

lemma depart_owner:
  assumes "stl_inv lk {} {} s" "stat_fault s = SECTION_STL_OK" "switch_depart pv lk elapsed sp s = Inr s1"
  shows "own s1 t = own s t"
  using assms(1,2)
proof (cases rule: switch_depart_cases [where pv = pv and lk = lk and elapsed = elapsed and sp = sp])
  case (revoked u g)
  let ?s = "(task_set (\<lambda>x. x\<lparr>rt_state := TASK_SLEEPING\<rparr>) u s)\<lparr>p_current := None\<rparr>"
  have "own (cancel_pass g ?s) t = own ?s t" by (simp add: cancel_pass_tasks)
  then show ?thesis using revoked(6) assms(3) by (auto simp: group_cancel_pass Let_def)
qed (use assms(3) in \<open>auto simp: suspended_tasks\<close>)

text \<open>A switch that ends in a suspended task: its words lie on the stack again, and the address is theirs.\<close>

lemma arrive_resumes:
  assumes "stl_inv lk {} {t} s" "stat_fault s = SECTION_STL_OK" "st s t = TASK_OLD" "p_current s = None"
    and "switch_arrive pv lk t s = (q, s1)" "stat_fault s1 = SECTION_STL_OK"
  shows "q = stack_address lk (SECTION_STL_STACK_WORDS - length (snapshot_words s t))"
    and "k < length (snapshot_words s t) \<Longrightarrow>
      runtime_stack s1 (SECTION_STL_STACK_WORDS - length (snapshot_words s t) + k) = snapshot_words s t ! k"
proof -
  let ?W = SECTION_STL_STACK_WORDS
  have "\<exists>i. rt_record (tasks s t) = Some i \<and> q = stack_address lk (?W - sr_words (records s i)) \<and> s1 = running_now t (records_reap (unpacked t i s))"
    by (rule switch_arrive_cases [OF assms(1,2) _ assms(4), of pv]) (use assms(3,5,6) in auto)
  then obtain i where i: "rt_record (tasks s t) = Some i" "q = stack_address lk (?W - sr_words (records s i))"
      "s1 = running_now t (records_reap (unpacked t i s))" by blast
  have w: "snapshot_words s t = map (\<lambda>k. pool s (sr_offset (records s i) + k)) [0..<sr_words (records s i)]"
    using i(1) by (simp add: snapshot_words_def)
  show "q = stack_address lk (?W - length (snapshot_words s t))" using i(2) by (simp add: w)
  have "runtime_stack s1 = runtime_stack (unpacked t i s)" by (simp add: i(3) running_now_def)
  then show "k < length (snapshot_words s t) \<Longrightarrow> runtime_stack s1 (?W - length (snapshot_words s t) + k) = snapshot_words s t ! k"
    by (simp add: unpacked_stack copy_words_def w)
qed

lemma switch_resumes:
  assumes "stl_inv lk {} {} s" "stat_fault s = SECTION_STL_OK" "dispatch_active s" "sp = 0 \<longrightarrow> p_current s = None"
    and "section_stl_switch pv lk sp s = (q, s1)" "executing s1 t" "st s t = TASK_OLD"
  obtains z where "st z t = TASK_OLD" "snapshot_words z t = snapshot_words s t" "stl_inv lk {} {t} z" "stat_fault z = SECTION_STL_OK"
    "p_current z = None" "switch_arrive pv lk t z = (q, s1)" "stat_fault s1 = SECTION_STL_OK"
proof (cases "pv_host_switch_allowed pv")
  case False
  then have "s1 = s" using assms(2,5) by (simp add: section_stl_switch_def)
  then show ?thesis using assms(6,7) by (simp add: executing_def)
next
  case True
  show ?thesis
    using assms(1,2) True
  proof (cases rule: switch_cases [where sp = sp])
    case (bad_frame u)
    then have "s1 = snd (return_native pv ((corrupt s)\<lparr>p_current := None\<rparr>))" using assms(5) by (metis snd_conv)
    then have "p_current s1 = None" by simp
    then show ?thesis using assms(6) by (simp add: executing_def)
  next
    case (pool_full u n)
    then have "tasks s1 = tasks s" using assms(5) by auto
    then show ?thesis using assms(6,7) by (simp add: executing_def)
  next
    case (native z)
    then have "s1 = snd (return_native pv z)" using assms(5) by (metis snd_conv)
    then have "p_current s1 = p_current z" by simp
    then show ?thesis using assms(6) departed_inv [OF assms(1,2) native(1)] by (simp add: executing_def)
  next
    case (idle z s2)
    then have "s1 = snd (return_native pv s2)" using assms(5) by (metis snd_conv)
    then have "p_current s1 = p_current s2" by simp
    then show ?thesis using assms(6) idle(5) by (simp add: executing_def)
  next
    case (switch z s2 u xs s3)
    note d = departed_inv [OF assms(1,2) switch(1)]
    have e: "switch_arrive pv lk u s3 = (q, s1)" using switch(12) assms(5) by simp
    have s3: "stat_fault s3 = SECTION_STL_OK" "p_current s3 = None" "dispatch_active s3" "\<not> rt_queued (tasks s3 u)" "own s3 t = own s2 t" "st s3 t = st s2 t"
      using switch(2,4,5,7,9) d assms(3) by auto
    have run: "executing s1 u" "stat_fault s1 = SECTION_STL_OK" "closing s3 s1" "own s1 u = own s3 u" "groups s1 = groups s3" "group_list s1 = group_list s3"
      by (rule arrive_effect [OF switch(10) s3(1) switch(11) s3(4,2,3) e]; use assms(6) in \<open>simp add: executing_def\<close>)+
    then have u: "u = t" using assms(6) by (simp add: executing_def)
    have act: "activates z (activate_due z)" by (rule activates_any)
    have own: "own s3 t = own s t"
      using depart_owner [OF assms(1,2) switch(1)] act by (simp add: s3(5) switch(2) activates_def)
    have "\<not> dead s (own s t)"
    proof
      assume "dead s (own s t)"
      moreover have "closing s z" by (rule depart_effect [OF assms(1,2) switch(1)])
      moreover have "closing z s2" unfolding switch(2) using activation_effect d by blast
      moreover have "closing s2 s3" unfolding switch(7) by (rule popped_effect [OF switch(3,6)])
      ultimately have "dead s3 (own s3 t)" by (simp add: closing_def own)
      moreover obtain g where "g \<in> set (group_list s3)" "hnd s3 g = own s3 t" "gst s3 g < SECTION_STL_PAUSED"
        using queued_group [OF switch(10,11)] u by metis
      ultimately show False by (auto simp: dead_def state_order)
    qed
    then have zo: "st z t = TASK_OLD" using depart_old [OF assms(1,2) switch(1) assms(7)] by simp
    then have "st s3 t = TASK_OLD" using act by (simp add: s3(6) switch(2)) (metis activates_def stl_task_state.distinct)
    moreover have "snapshot_words s3 t = snapshot_words s t"
    proof -
      have "kept z s2" unfolding switch(2) using activation_effect d by blast
      moreover have "kept s2 s3" unfolding switch(7) by (rule popped_effect [OF switch(3,6)])
      moreover have "saves lk sp s z" by (rule depart_effect [OF assms(1,2) switch(1)])
      ultimately have "saves lk sp s s3" using saves_trans by blast
      then show ?thesis using \<open>st s3 t = TASK_OLD\<close> assms(7) by (auto simp: saves_def executing_def)
    qed
    ultimately show ?thesis using that switch(10) s3(1,2) e run(2) u by blast
  qed
qed

text \<open>Steps during which the task \<open>t\<close> stays suspended.\<close>

definition waits :: "stl_link \<Rightarrow> nat \<Rightarrow> stl \<Rightarrow> stl \<Rightarrow> bool" where
  "waits lk t a b \<longleftrightarrow> stl_step lk a b \<and> st b t = TASK_OLD"

lemma waits_words:
  assumes "(waits lk t)\<^sup>*\<^sup>* s1 s2" "stl_system_inv lk s1" "st s1 t = TASK_OLD" "stat_fault s2 = SECTION_STL_OK"
  shows "stat_fault s1 = SECTION_STL_OK \<and> stl_system_inv lk s2 \<and> st s2 t = TASK_OLD \<and> snapshot_words s2 t = snapshot_words s1 t"
  using assms(1,4)
proof (induction rule: rtranclp_induct)
  case (step b c)
  have step: "stl_step lk b c" "st c t = TASK_OLD" using step.hyps(2) by (simp_all add: waits_def)
  have b: "stl_system_inv lk b" using step.hyps(1) assms(2)
  proof (induction rule: rtranclp_induct)
    case (step y z)
    then show ?case using step_inv [of lk y z] by (simp add: waits_def)
  qed
  have adv: "stat_fault b = SECTION_STL_OK" "advances lk b c" using step_advances(1) [OF b step(1) step.prems] by simp_all
  then have ih: "stat_fault s1 = SECTION_STL_OK" "st b t = TASK_OLD" "snapshot_words b t = snapshot_words s1 t" using step.IH by simp_all
  then have "\<not> executing b t" by (simp add: executing_def)
  then have "snapshot_words c t = snapshot_words b t" using adv(2) step(2) unfolding advances_def saves_def by metis
  then show ?case using ih step(2) step_inv [OF b step(1)] by simp
qed (use assms(2,3) in simp)

lemma pendsv_saves:
  assumes "stl_system_inv lk s0" "dispatch_active s0" "sp \<noteq> 0" "executing s0 t" "stat_fault (section_stl_port_pendsv pv lk sp s0) = SECTION_STL_OK"
    and "st (section_stl_port_pendsv pv lk sp s0) t = TASK_OLD"
  obtains n where "frame_words lk sp s0 = (n, s0)" "0 < n"
    "snapshot_words (section_stl_port_pendsv pv lk sp s0) t = map (saved_frame lk s0 sp) [0..<n]"
proof -
  let ?s = "s0\<lparr>switch_pending := False\<rparr>"
  obtain q z where z: "section_stl_switch pv lk sp ?s = (q, z)" by fastforce
  have e: "section_stl_port_pendsv pv lk sp s0 = (if q = 0 then native_restore z else z)" using z by (simp add: section_stl_port_pendsv_def)
  have ok: "stat_fault s0 = SECTION_STL_OK" "stl_inv lk {} {} s0" using assms(1,4) by (auto simp: stl_system_inv_def)
  have st: "st z t = TASK_OLD" "stat_fault z = SECTION_STL_OK" using assms(5,6) by (auto simp: e split: if_splits)
  have "saves lk sp ?s z" by (rule switch_effect [OF _ _ _ _ z]) (use ok assms(2,3) st(2) in auto)
  moreover have "st ?s t \<noteq> TASK_OLD" using assms(4) by (simp add: executing_def)
  ultimately obtain n where n: "frame_words lk sp ?s = (n, ?s)" "0 < n" "snapshot_words z t = map (saved_frame lk ?s sp) [0..<n]"
    using st(1) unfolding saves_def by blast
  have "snapshot_words (section_stl_port_pendsv pv lk sp s0) t = snapshot_words z t"
    by (simp add: e snapshot_words_def split: option.split)
  moreover have "saved_frame lk ?s sp = saved_frame lk s0 sp" by (simp add: saved_frame_def)
  moreover have "frame_words lk sp s0 = (n, s0)" using n(1,2) by (auto simp: frame_words_def Let_def split: if_splits)
  ultimately show thesis using that n(2,3) by simp
qed

text \<open>The whole round.\<close>

lemma resume_round:
  assumes "link_ok lk" "stl_reachable lk s0" "dispatch_active s0" "sp \<noteq> 0" "executing s0 t"
    and "s1 = section_stl_port_pendsv pv lk sp s0" "switch_pending s0" "st s1 t = TASK_OLD" "(waits lk t)\<^sup>*\<^sup>* s1 s2"
    and "sp' = 0 \<and> p_current s2 = None \<or> sp' \<noteq> 0 \<and> dispatch_active s2"
    and "section_stl_switch pv' lk sp' (s2\<lparr>dispatch_active := True, switch_pending := False\<rparr>) = (q, s3)" "executing s3 t"
  shows "q = sp" and "stack_index lk sp \<le> i \<Longrightarrow> i < SECTION_STL_STACK_WORDS \<Longrightarrow> runtime_stack s3 i = runtime_stack s0 i"
proof -
  let ?s2 = "s2\<lparr>dispatch_active := True, switch_pending := False\<rparr>"
  have s0: "stl_system_inv lk s0" by (rule reachable_inv [OF assms(2)])
  have step: "stl_step lk s0 s1" unfolding assms(6) by (rule step_pendsv [OF assms(3,7,4)])
  then have s1: "stl_system_inv lk s1" using step_inv s0 by blast
  have f2: "stat_fault s2 = SECTION_STL_OK"
  proof (rule ccontr)
    assume "stat_fault s2 \<noteq> SECTION_STL_OK"
    then have "section_stl_switch pv' lk sp' ?s2 = return_native pv' (?s2\<lparr>p_current := None\<rparr>)" by (simp add: section_stl_switch_def Let_def)
    then have "s3 = snd (return_native pv' (?s2\<lparr>p_current := None\<rparr>))" using assms(11) by (metis snd_conv)
    then show False using assms(12) by (simp add: executing_def)
  qed
  have w: "stat_fault s1 = SECTION_STL_OK" "stl_system_inv lk s2" "st s2 t = TASK_OLD" "snapshot_words s2 t = snapshot_words s1 t"
    using waits_words [OF assms(9) s1 assms(8) f2] by simp_all
  obtain n where n: "frame_words lk sp s0 = (n, s0)" "0 < n" "snapshot_words s1 t = map (saved_frame lk s0 sp) [0..<n]"
    using pendsv_saves [OF s0 assms(3,4,5), of pv] w(1) assms(6,8) by metis
  have sp: "stack_address lk (SECTION_STL_STACK_WORDS - n) = sp" "stack_index lk sp = SECTION_STL_STACK_WORDS - n" "n \<le> SECTION_STL_STACK_WORDS"
    using n(1,2) by (cases rule: frame_words_cases [of lk sp s0]; use stack_pointer_words [OF assms(1), of sp n] in auto)+
  have i2: "stl_inv lk {} {} s2" using w(2) f2 by (simp add: stl_system_inv_def)
  have inv: "stl_inv lk {} {} ?s2"
  proof (cases "dispatch_active s2")
    case True
    then have "s2\<lparr>dispatch_active := True\<rparr> = s2" by (cases s2) simp
    then show ?thesis using i2 by (simp add: pending_inv del: stl.update_convs)
  next
    case False
    then show ?thesis using dispatch_inv [OF i2, of True] assms(10) by (simp add: pending_inv)
  qed
  have sw: "snapshot_words ?s2 t = map (saved_frame lk s0 sp) [0..<n]" proof -
    have "snapshot_words ?s2 t = snapshot_words s2 t" by (simp add: snapshot_words_def split: option.split)
    then show ?thesis using w(4) n(3) by simp
  qed
  obtain z where z: "snapshot_words z t = snapshot_words ?s2 t" "st z t = TASK_OLD" "stl_inv lk {} {t} z" "stat_fault z = SECTION_STL_OK"
      "p_current z = None" "switch_arrive pv' lk t z = (q, s3)" "stat_fault s3 = SECTION_STL_OK"
    by (rule switch_resumes [OF inv _ _ _ assms(11,12)]) (use f2 w(3) assms(10) in auto)
  have len: "length (snapshot_words z t) = n" using z(1) sw by simp
  note r = arrive_resumes [OF z(3,4,2,5,6,7), unfolded len]
  show "q = sp" using r(1) sp(1) by simp
  assume i: "stack_index lk sp \<le> i" "i < SECTION_STL_STACK_WORDS"
  define k where "k = i - stack_index lk sp"
  have k: "k < n" "i = SECTION_STL_STACK_WORDS - n + k" using i sp(2,3) by (auto simp: k_def)
  then show "runtime_stack s3 i = runtime_stack s0 i" using r(2) [OF k(1)] z(1) sw sp(2) by (simp add: saved_frame_def)
qed

end
