(* ===== verification/Stl_Queue.thy ===== *)
theory Stl_Queue
  imports Stl_Resume
begin

text \<open>
  What the managed runtime promises about time and order: which tasks an activation makes ready and with which phase, the
  round robin of preempted tasks, a full pool, and a revoked group.
\<close>

section \<open>A dispatch runs only in a started core\<close>

lemma forget_fold_started [simp]: "stl_initialized (foldl (\<lambda>s t. task_clear t s) s ts) = stl_initialized s"
  by (induction ts arbitrary: s) (simp_all add: task_clear_def)

lemma register_task_started [simp]: "stl_initialized (register_task g x s) = stl_initialized s"
  by (simp add: register_task_def Let_def split: option.split)

lemma register_fold_started [simp]:
  "stl_initialized (foldl (\<lambda>s e. if fst e = STL_SECTION_TASK then register_task g (f e) s else s) s es) = stl_initialized s"
  by (induction es arbitrary: s) simp_all

lemma enable_fold_started [simp]: "stl_initialized (foldl (\<lambda>s t. task_set (f s) t s) s ts) = stl_initialized s"
  by (induction ts arbitrary: s) simp_all

lemma call_started: "stl_initialized s \<Longrightarrow> stl_initialized (stl_call_effect pv c s)"
proof (cases c)
  case (Register obj i es n has)
  assume "stl_initialized s"
  then show ?thesis unfolding Register by (simp add: section_stl_group_register_def Let_def split: prod.split)
next
  case (Initialize_begin obj h es n)
  assume "stl_initialized s"
  then show ?thesis unfolding Initialize_begin by (simp add: group_initialize_begin_def Let_def split: option.split)
qed (simp_all add: section_stl_init_def group_initialize_end_def section_stl_group_enable_def section_stl_group_disable_def
    section_stl_group_pause_def section_stl_group_revoke_def section_stl_group_acquire_def section_stl_group_release_def
    section_stl_group_quiescent_def section_stl_group_forget_def section_stl_tick_def section_stl_yield_def
    section_stl_request_native_def Let_def split: option.split)

lemma host_commit_started [simp]: "stl_initialized (snd (host_commit pv h s)) = stl_initialized s"
  "dispatch_active (snd (host_commit pv h s)) = dispatch_active s"
  by (simp_all add: host_commit_def corrupt_def)

lemma inline_started [simp]: "stl_initialized (entry_inline t k s) = stl_initialized s"
  "dispatch_active (entry_inline t k s) = dispatch_active s"
  by (simp_all add: entry_inline_def Let_def)

lemma complete_started:
  "stl_initialized (snd (entry_complete pv inline_ok outcome s)) = stl_initialized s"
  "dispatch_active (snd (entry_complete pv inline_ok outcome s)) = dispatch_active s"
proof -
  have "stl_initialized z = stl_initialized x" "dispatch_active z = dispatch_active x"
    if "host_commit pv h x = (b, z)" for h x b z
    using that host_commit_started [of pv h x] by simp_all
  then show "stl_initialized (snd (entry_complete pv inline_ok outcome s)) = stl_initialized s"
    "dispatch_active (snd (entry_complete pv inline_ok outcome s)) = dispatch_active s"
    by (simp_all add: entry_complete_def Let_def entry_retire_frame split: option.split prod.split bool.split)
qed

lemma prepare_started [simp]: "stl_initialized (snd (section_stl_port_prepare lk s)) = stl_initialized s"
  "dispatch_active (snd (section_stl_port_prepare lk s)) = dispatch_active s"
  by (simp_all add: section_stl_port_prepare_def Let_def)

lemma frame_words_started [simp]: "stl_initialized (snd (frame_words lk sp s)) = stl_initialized s"
  "dispatch_active (snd (frame_words lk sp s)) = dispatch_active s"
  by (simp_all add: frame_words_def Let_def corrupt_def)

lemma restore_started [simp]: "stl_initialized (snd (snapshot_restore lk t s)) = stl_initialized s"
  "dispatch_active (snd (snapshot_restore lk t s)) = dispatch_active s"
  by (simp_all add: snapshot_restore_def Let_def corrupt_def split: option.split)

lemma save_started [simp]: "stl_initialized (snd (snapshot_save t frame n s)) = stl_initialized s"
  "dispatch_active (snd (snapshot_save t frame n s)) = dispatch_active s"
  by (simp_all add: snapshot_save_def pool_is_full_def Let_def)

definition flags :: "stl \<Rightarrow> bool \<times> bool" where
  "flags s = (stl_initialized s, dispatch_active s)"

lemma depart_flags: "(case switch_depart pv lk elapsed sp s of Inl r \<Rightarrow> flags (snd r) | Inr z \<Rightarrow> flags z) = flags s"
proof -
  have f: "flags z = flags s" if "frame_words lk sp s = (n, z)" for n z
    using that frame_words_started [of lk sp s] by (simp add: flags_def)
  have g: "flags z = flags x" if "snapshot_save t frame n x = (b, z)" for t frame n x b z
    using that save_started [of t frame n x] by (simp add: flags_def)
  show ?thesis
    using f g by (simp add: switch_depart_def Let_def flags_def split: option.split prod.split bool.split)
qed

lemma arrive_flags: "flags (snd (switch_arrive pv lk t s)) = flags s"
proof -
  have f: "stl_initialized z = stl_initialized x \<and> dispatch_active z = dispatch_active x" if "frame_words lk sp x = (n, z)" for sp n x z
    using that frame_words_started [of lk sp x] by simp
  have g: "stl_initialized z = stl_initialized x \<and> dispatch_active z = dispatch_active x" if "host_commit pv h x = (b, z)" for h b x z
    using that host_commit_started [of pv h x] by simp
  obtain p z where p: "(if st s t = TASK_OLD then snapshot_restore lk t s
       else section_stl_port_prepare lk (task_set (\<lambda>x. x\<lparr>rt_quantum_left := SECTION_STL_SLICE_TICKS\<rparr>) t s)) = (p, z)" by fastforce
  from arg_cong [OF p, of snd, symmetric]
  have z: "z = snd (if st s t = TASK_OLD then snapshot_restore lk t s
       else section_stl_port_prepare lk (task_set (\<lambda>x. x\<lparr>rt_quantum_left := SECTION_STL_SLICE_TICKS\<rparr>) t s))"
    unfolding snd_conv .
  have z: "stl_initialized z = stl_initialized s" "dispatch_active z = dispatch_active s"
    unfolding z by (cases "st s t = TASK_OLD"; simp)+
  show ?thesis
  proof (cases "stat_fault z \<noteq> SECTION_STL_OK \<or> p = 0")
    case True
    then show ?thesis by (simp add: switch_arrive_def p flags_def corrupt_def z Let_def)
  next
    case False
    obtain n s2 where w: "frame_words lk p z = (n, s2)" by fastforce
    obtain b s3 where h: "host_commit pv (own s2 t) s2 = (b, s3)" by fastforce
    have "stl_initialized s2 = stl_initialized s" "dispatch_active s2 = dispatch_active s" using f [OF w] z by simp_all
    then show ?thesis using False w h g [OF h]
      by (cases b; cases "n = 0") (simp_all add: switch_arrive_def p flags_def corrupt_def)
  qed
qed

lemma select_flags: "flags (snd (switch_select n pv lk s)) = flags s"
proof (induction n arbitrary: s)
  case (Suc n)
  obtain q z where q: "ready_pop s = (q, z)" by fastforce
  then have z: "z = snd (ready_pop s)" by simp
  have z: "flags z = flags s" by (simp add: z flags_def)
  show ?case using q z Suc.IH arrive_flags by (simp add: Let_def flags_def split: option.split)
qed (simp add: flags_def)

lemma switch_flags: "flags (snd (section_stl_switch pv lk sp s)) = flags s"
proof (cases "switch_depart pv lk (tick_now s - slice_start s) sp s")
  case (Inl r)
  then have "flags (snd r) = flags s" using depart_flags [of pv lk "tick_now s - slice_start s" sp s] by simp
  then show ?thesis using Inl by (simp add: section_stl_switch_def Let_def flags_def)
next
  case (Inr z)
  then have z: "flags z = flags s" using depart_flags [of pv lk "tick_now s - slice_start s" sp s] by simp
  have "flags (snd (switch_select (Suc SECTION_STL_MAX_TASKS) pv lk (records_reap (activate_due z)))) = flags z"
    unfolding select_flags by (simp add: flags_def)
  then show ?thesis using Inr z by (simp add: section_stl_switch_def Let_def flags_def del: switch_select.simps)
qed

lemma step_started:
  assumes "stl_step lk s s'" "stl_system_inv lk s" "dispatch_active s \<longrightarrow> stl_initialized s"
  shows "dispatch_active s' \<longrightarrow> stl_initialized s'"
  using assms(1)
proof (cases rule: stl_step.cases)
  case (step_call pv c)
  have "dispatch_active s' = dispatch_active s"
    using call_sound [of lk s pv c] assms(2) unfolding step_call(1)
    by (cases "stat_fault s = SECTION_STL_OK") (simp_all add: sound_def calm_def stl_system_inv_def)
  then show ?thesis using assms(3) call_started step_call by simp
next
  case (step_complete t outcome pv inline_ok)
  then show ?thesis using assms(3) complete_started by simp
next
  case (step_svc pv)
  then have "stl_initialized s" by (simp add: section_stl_run_admit_def split: if_splits)
  then show ?thesis using switch_flags [of pv lk 0 "s\<lparr>dispatch_active := True\<rparr>"] step_svc
    by (auto simp: section_stl_port_svc_def native_restore_def flags_def split: prod.split)
next
  case (step_pendsv sp pv)
  then show ?thesis using switch_flags [of pv lk sp "s\<lparr>switch_pending := False\<rparr>"] assms(3)
    by (auto simp: section_stl_port_pendsv_def native_restore_def flags_def split: prod.split)
qed (use assms(3) in simp)

lemma reachable_started: "stl_reachable lk s \<Longrightarrow> dispatch_active s \<Longrightarrow> stl_initialized s"
proof -
  assume r: "stl_reachable lk s"
  then have "dispatch_active s \<longrightarrow> stl_initialized s" unfolding stl_reachable_def
  proof (induction rule: rtranclp_induct)
    case (step y z)
    have "stl_system_inv lk y" using reachable_inv step.hyps(1) by (simp add: stl_reachable_def)
    then show ?case using step_started step.hyps(2) step.IH by blast
  qed (simp add: stl_cold_def)
  then show "dispatch_active s \<Longrightarrow> stl_initialized s" by simp
qed

section \<open>Activation\<close>

definition stl_due :: "stl \<Rightarrow> nat \<Rightarrow> bool" where
  "stl_due s t \<longleftrightarrow> st s t = TASK_SLEEPING \<and> tick_now s - rt_last (tasks s t) \<ge> rt_period (tasks s t)"

definition activated :: "stl \<Rightarrow> nat \<Rightarrow> resident_task" where
  "activated s t = (tasks s t)\<lparr>rt_last := rt_last (tasks s t)
     + ((tick_now s - rt_last (tasks s t)) div rt_period (tasks s t)) * rt_period (tasks s t), rt_state := TASK_NEW, rt_queued := True\<rparr>"

lemma activate_task_due: "tasks (activate_task t s) u = (if u = t \<and> stl_due s t then activated s t else tasks s u)"
  by (simp add: activate_task_tasks stl_due_def activated_def)

lemma activate_tasks_due:
  "tasks (foldl (\<lambda>s t. activate_task t s) s ts) u = (if u \<in> set ts \<and> stl_due s u then activated s u else tasks s u)"
proof (induction ts arbitrary: s)
  case (Cons t ts)
  let ?s = "activate_task t s"
  have d: "stl_due ?s u \<longleftrightarrow> stl_due s u \<and> u \<noteq> t" by (auto simp: stl_due_def activate_task_tasks)
  have a: "activated ?s u = activated s u" if "u \<noteq> t" using that by (simp add: activated_def activate_task_tasks)
  show ?case
  proof (cases "u = t")
    case True
    then show ?thesis using Cons.IH [of ?s] d by (simp add: activate_task_due)
  next
    case False
    then show ?thesis using Cons.IH [of ?s] d a [OF False] by (simp add: activate_task_due)
  qed
qed simp

lemma activate_group_tick [simp]: "tick_now (activate_group g s) = tick_now s" "groups (activate_group g s) = groups s"
  using arg_cong [OF activate_group_rest, of tick_now g s] arg_cong [OF activate_group_rest, of groups g s] by simp_all

lemma activate_groups_due:
  "tasks (foldl (\<lambda>s g. activate_group g s) s gs) u =
     (if stl_due s u \<and> (\<exists>g \<in> set gs. gst s g = SECTION_STL_ENABLED \<and> u \<in> set (gtasks s g)) then activated s u else tasks s u)"
proof (induction gs arbitrary: s)
  case (Cons g gs)
  let ?s = "activate_group g s" and ?e = "gst s g = SECTION_STL_ENABLED \<and> u \<in> set (gtasks s g)"
  have t: "tasks ?s u = (if stl_due s u \<and> ?e then activated s u else tasks s u)"
    by (simp add: activate_group_def activate_tasks_due)
  have d: "stl_due ?s u \<longleftrightarrow> stl_due s u \<and> \<not> ?e" by (auto simp: stl_due_def t activated_def)
  have a: "activated ?s u = activated s u" if "\<not> ?e" using that t by (auto simp: activated_def)
  show ?case using Cons.IH [of ?s] t d a by auto
qed simp

lemma activate_due_tasks:
  "tasks (activate_due s) u =
     (if stl_due s u \<and> (\<exists>g \<in> set (group_list s). gst s g = SECTION_STL_ENABLED \<and> u \<in> set (gtasks s g)) then activated s u else tasks s u)"
  by (simp add: activate_due_def activate_groups_due)

text \<open>The new activation time lies less than a period back: whole periods are skipped, the phase stays.\<close>

lemma activated_phase: "tick_now s - rt_last (activated s t) = (tick_now s - rt_last (tasks s t)) mod rt_period (tasks s t)"
proof -
  let ?e = "tick_now s - rt_last (tasks s t)" and ?p = "rt_period (tasks s t)"
  have "?e = (?e div ?p) * ?p + ?e mod ?p" by (simp only: div_mult_mod_eq)
  then show ?thesis by (simp add: activated_def algebra_simps)
qed

section \<open>Round robin\<close>

lemma activate_task_appends:
  assumes "stl_inv lk {} {} s" "g \<in> set (group_list s)" "t \<in> set (gtasks s g)" "ready_is s xs"
  obtains zs where "ready_is (activate_task t s) (xs @ zs)"
proof (cases "stl_due s t")
  case True
  let ?s = "task_set (\<lambda>x. x\<lparr>rt_last := rt_last x + ((tick_now s - rt_last (tasks s t)) div rt_period x) * rt_period x, rt_state := TASK_NEW\<rparr>) t s"
  have e: "activate_task t s = ready_push t ?s" using True by (simp add: activate_task_def stl_due_def Let_def)
  have "ready_is ?s xs" using assms(4) ready_is_cong [of ?s s] by simp
  moreover have "\<not> rt_queued (tasks s t)" using assms(1) True by (simp add: stl_inv_def sched_inv_def stl_due_def)
  then have "t \<notin> set xs" using assms(4) by (simp add: ready_is_def)
  moreover have "t < SECTION_STL_MAX_TASKS" using task_group [of s t] assms(1) True by (auto simp: stl_inv_def stl_due_def)
  ultimately show ?thesis using that [of "[t]"] ready_push_is e by simp
next
  case False
  then have "activate_task t s = s" by (auto simp: activate_task_def stl_due_def Let_def)
  then show ?thesis using that [of "[]"] assms(4) by simp
qed

lemma activate_tasks_append:
  assumes "stl_inv lk {} {} s" "g \<in> set (group_list s)" "gst s g = SECTION_STL_ENABLED" "set ts \<subseteq> set (gtasks s g)" "ready_is s xs"
  shows "\<exists>zs. ready_is (foldl (\<lambda>s t. activate_task t s) s ts) (xs @ zs)"
  using assms
proof (induction ts arbitrary: s xs)
  case (Cons t ts)
  then obtain zs where zs: "ready_is (activate_task t s) (xs @ zs)" using activate_task_appends [of lk s g t xs] by auto
  have "stl_inv lk {} {} (activate_task t s)" using Cons.prems by (intro activate_task_inv) auto
  then obtain ws where "ready_is (foldl (\<lambda>s t. activate_task t s) (activate_task t s) ts) ((xs @ zs) @ ws)"
    using Cons.IH [of "activate_task t s" "xs @ zs"] Cons.prems zs by auto
  then show ?case by auto
qed (auto intro: exI [of _ "[]"])

lemma activate_groups_append:
  assumes "stl_inv lk {} {} s" "set gs \<subseteq> set (group_list s)" "ready_is s xs"
  shows "\<exists>zs. ready_is (foldl (\<lambda>s g. activate_group g s) s gs) (xs @ zs)"
  using assms
proof (induction gs arbitrary: s xs)
  case (Cons g gs)
  have i: "stl_inv lk {} {} (activate_group g s)" using activate_group_inv [of lk "{}" s g] Cons.prems by simp
  have gl: "group_list (activate_group g s) = group_list s" using arg_cong [OF activate_group_rest, of group_list g s] by simp
  have "\<exists>zs. ready_is (activate_group g s) (xs @ zs)"
  proof (cases "gst s g = SECTION_STL_ENABLED")
    case True
    then show ?thesis using activate_tasks_append [of lk s g "gtasks s g" xs] Cons.prems by (simp add: activate_group_def)
  next
    case False
    then show ?thesis using Cons.prems by (simp add: activate_group_def exI [of _ "[]"])
  qed
  then obtain zs where zs: "ready_is (activate_group g s) (xs @ zs)" by blast
  then obtain ws where "ready_is (foldl (\<lambda>s g. activate_group g s) (activate_group g s) gs) ((xs @ zs) @ ws)"
    using Cons.IH [OF i, of "xs @ zs"] Cons.prems gl by auto
  then show ?case by auto
qed (auto intro: exI [of _ "[]"])

lemma activate_due_append: "stl_inv lk {} {} s \<Longrightarrow> ready_is s xs \<Longrightarrow> \<exists>zs. ready_is (activate_due s) (xs @ zs)"
  unfolding activate_due_def by (rule activate_groups_append) simp_all

lemma running_now_ready: "ready_is (running_now t s) xs \<longleftrightarrow> ready_is s xs"
  using ready_is_cong [of "running_now t s" s xs] by (simp add: running_now_def)

lemma arrive_ready:
  assumes "stl_inv lk {} {t} s" "stat_fault s = SECTION_STL_OK" "st s t = TASK_NEW \<or> st s t = TASK_OLD" "p_current s = None"
    and "switch_arrive pv lk t s = (q, s1)" "stat_fault s1 = SECTION_STL_OK" "ready_is s xs"
  shows "ready_is s1 xs \<and> executing s1 t"
proof -
  have p: "ready_is (prepared t stack s) xs" for stack using assms(7) ready_is_cong [of "prepared t stack s" s xs] by (simp add: prepared_def)
  have u: "ready_is (records_reap (unpacked t i s)) xs" for i
    using assms(7) ready_is_cong [of "records_reap (unpacked t i s)" s xs] by (simp add: unpacked_def Let_def)
  have "(\<exists>stack. s1 = running_now t (prepared t stack s)) \<or> (\<exists>i. s1 = running_now t (records_reap (unpacked t i s)))"
    by (rule switch_arrive_cases [OF assms(1-4), of pv]) (use assms(5,6) in auto)
  then show ?thesis using p u by (auto simp: running_now_ready executing_def) (auto simp: running_now_def)
qed

lemma suspended_ready:
  assumes "stl_inv lk {} {} s" "st s t = TASK_RUNNING" "ready_is s xs"
  shows "ready_is (suspended t frame n quantum offset gap False s) (xs @ [t])"
proof -
  define z where "z = task_set (\<lambda>x. x\<lparr>rt_quantum_left := quantum\<rparr>) t (task_set (\<lambda>x. x\<lparr>rt_state := TASK_OLD\<rparr>) t (snapshot_store t frame n offset gap s))"
  have "\<not> rt_queued (tasks s t)" using assms(1,2) by (simp add: stl_inv_def sched_inv_def)
  then have "t \<notin> set xs" "ready_is z xs" using assms(3) ready_is_cong [of z s] by (auto simp: ready_is_def z_def)
  moreover have "t < SECTION_STL_MAX_TASKS" using task_group [of s t] assms(1,2) by (auto simp: stl_inv_def)
  ultimately have "ready_is (ready_push t z) (xs @ [t])" by (intro ready_push_is)
  then show ?thesis by (simp add: suspended_def Let_def z_def)
qed

text \<open>A preempted task goes behind everybody who waits, and the one that waits longest runs.\<close>

lemma depart_suspended:
  assumes "stl_inv lk {} {} s" "stat_fault s = SECTION_STL_OK" "executing s t" "\<not> native_pending s" "ready_is s xs"
    and "switch_depart pv lk elapsed sp s = Inr z" "st z t = TASK_OLD"
  shows "ready_is z (xs @ [t])"
  using assms(1,2)
proof (cases rule: switch_depart_cases [where pv = pv and lk = lk and elapsed = elapsed and sp = sp])
  case (revoked u g)
  let ?s = "(task_set (\<lambda>x. x\<lparr>rt_state := TASK_SLEEPING\<rparr>) u s)\<lparr>p_current := None\<rparr>"
  have u: "u = t" "st s u = TASK_RUNNING" using revoked(1) assms(3) by (simp_all add: executing_def)
  have e: "z = group_cancel g ?s" using revoked(6) assms(6) by simp
  have i: "stl_inv lk {} {} ?s" by (rule stop_current_inv [OF assms(1) revoked(1)]) (use u(2) in simp)
  then have i': "stl_inv lk (insert (hnd ?s g) {}) {} ?s" using stl_inv_mono [OF i] by simp
  have "kept ?s z" unfolding e by (rule kept_cancel [OF cancel_pass_inv [OF i']]) (use revoked(2) in simp)
  then have "st ?s t = TASK_OLD" using assms(7) by (simp add: kept_def)
  then show ?thesis by (simp add: u)
next
  case (suspends u n quantum offset gap front)
  have u: "u = t" "\<not> front" using suspends(1,7) assms(3,4) by (simp_all add: executing_def)
  have r: "stl_inv lk {} {} (records_reap s)" "st (records_reap s) t = TASK_RUNNING"
    using stl_inv_reap [OF assms(1)] assms(3) by (simp_all add: executing_def)
  have "ready_is (records_reap s) xs" using assms(5) ready_is_cong [of "records_reap s" s xs] by simp
  then show ?thesis using suspended_ready [OF r] suspends(9) assms(6) u by simp
qed (use assms in \<open>auto simp: executing_def\<close>)

text \<open>A preempted task goes behind everybody who waits, and the one that waits longest runs.\<close>

lemma round_robin:
  assumes "stl_inv lk {} {} s" "stat_fault s = SECTION_STL_OK" "dispatch_active s" "executing s t" "\<not> native_pending s"
    and "ready_is s (u # xs)" "section_stl_switch pv lk sp s = (q, s1)" "stat_fault s1 = SECTION_STL_OK" "st s1 t = TASK_OLD"
    and "stl_initialized s"
  shows "executing s1 u \<and> (\<exists>zs. ready_is s1 (xs @ t # zs))"
proof -
  have ex: "p_current s = Some t" "st s t = TASK_RUNNING" using assms(4) by (simp_all add: executing_def)
  have old: "st s t \<noteq> TASK_OLD" by (simp add: ex)
  have allowed: "pv_host_switch_allowed pv"
  proof (rule ccontr)
    assume "\<not> pv_host_switch_allowed pv"
    then have "s1 = s" using assms(2,7) by (simp add: section_stl_switch_def)
    then show False using assms(9) old by simp
  qed
  show ?thesis
    using assms(1,2) allowed
  proof (cases rule: switch_cases [where sp = sp])
    case (bad_frame v)
    then have "s1 = snd (return_native pv ((corrupt s)\<lparr>p_current := None\<rparr>))" using assms(7) by (metis snd_conv)
    then show ?thesis using assms(9) old by (simp add: corrupt_def)
  next
    case (pool_full v n)
    then have "tasks s1 = tasks s" using assms(7) by auto
    then show ?thesis using assms(9) old by simp
  next
    case (native z)
    then show ?thesis using native(2) assms(5,10) by simp
  next
    case (idle z s2)
    note d = departed_inv [OF assms(1,2) idle(1)]
    have s1: "s1 = snd (return_native pv s2)" using idle(7) assms(7) by (metis snd_conv)
    have "kept z s2" unfolding idle(2) using activation_effect d by blast
    then have "st z t = TASK_OLD" using assms(9) by (simp add: s1 kept_def)
    then have "ready_is z ((u # xs) @ [t])" by (rule depart_suspended [OF assms(1,2,4,5,6) idle(1)])
    then obtain zs where "ready_is (activate_due z) (((u # xs) @ [t]) @ zs)" using activate_due_append d by blast
    then have "ready_is s2 (((u # xs) @ [t]) @ zs)"
      using ready_is_cong [of s2 "activate_due z"] by (simp add: idle(2))
    then show ?thesis using idle(6) ready_is_unique by fastforce
  next
    case (switch z s2 v ys s3)
    note d = departed_inv [OF assms(1,2) switch(1)]
    have e: "switch_arrive pv lk v s3 = (q, s1)" using switch(12) assms(7) by simp
    have s3: "stat_fault s3 = SECTION_STL_OK" "p_current s3 = None" "dispatch_active s3" "\<not> rt_queued (tasks s3 v)"
      using switch(2,4,5,7,9) d assms(3) by auto
    have k: "kept z s2" unfolding switch(2) using activation_effect d by blast
    moreover have "kept s2 s3" unfolding switch(7) by (rule popped_effect [OF switch(3,6)])
    moreover have "kept s3 s1"
      by (rule arrive_effect [OF switch(10) s3(1) switch(11) s3(4,2,3) e]) (use assms(8) in simp_all)
    ultimately have "st z t = TASK_OLD" using assms(9) by (simp add: kept_def)
    then have "ready_is z ((u # xs) @ [t])" by (rule depart_suspended [OF assms(1,2,4,5,6) switch(1)])
    then obtain zs where "ready_is (activate_due z) (((u # xs) @ [t]) @ zs)" using activate_due_append d by blast
    then have "ready_is s2 (u # xs @ t # zs)"
      using ready_is_cong [of s2 "activate_due z"] by (simp add: switch(2))
    then have v: "v = u" "ys = xs @ t # zs" using switch(6) ready_is_unique by blast+
    have "ready_is s1 ys \<and> executing s1 v" by (rule arrive_ready [OF switch(10) s3(1) _ s3(2) e assms(8) switch(8)]) (use switch(11) in blast)
    then show ?thesis using v by blast
  qed
qed

end
