(* ===== verification/Stl_Props.thy ===== *)
theory Stl_Props
  imports Stl_Queue
begin

text \<open>
  The properties of the managed runtime (code/section/srtos_stl): a preempted task resumes on the words it left,
  and a revoked group never runs again.
\<close>

section \<open>Revoking\<close>

lemma revoke_dead:
  assumes "stl_inv lk {} {} s" "section_stl_group_revoke pv h s = (r, s1)" "r = SECTION_STL_OK \<or> r = SECTION_STL_BUSY"
  shows "dead s1 h" and "r = SECTION_STL_OK \<Longrightarrow> executing s1 t \<Longrightarrow> own s1 t \<noteq> h"
proof -
  obtain g where g: "group_find h s = Some g" "pv_api_allowed pv"
    using assms(2,3) by (auto simp: section_stl_group_revoke_def split: if_splits option.splits)
  have gl: "g \<in> set (group_list s)" "hnd s g = h" using group_find_Some [OF g(1)] by simp_all
  let ?z = "group_set (\<lambda>x. x\<lparr>rg_state := SECTION_STL_REVOKING\<rparr>) g s"
  let ?c = "group_cancel g ?z"
  have c: "groups s1 = groups ?c" "group_list s1 = group_list s" "generation s1 = generation s" "p_current s1 = p_current s"
    "tasks s1 = tasks ?c"
    using assms(2) g by (auto simp: section_stl_group_revoke_def Let_def request_switch_def split: if_splits option.splits)
  have i: "groups_inv s" using assms(1) by (simp add: stl_inv_def)
  have u: "k = g" if "k \<in> set (group_list s)" "hnd s k = h" for k using hnd_inject [OF i that(1) gl(1)] that(2) gl(2) by simp
  have hc: "hnd s1 k = hnd s k" for k by (simp add: c(1) group_cancel_groups)
  have "gst s1 g \<ge> SECTION_STL_REVOKING" by (simp add: c(1) group_cancel_groups state_order)
  moreover have "unat (sh_generation h) \<le> unat (generation s)" using i gl by (auto simp: groups_inv_def)
  ultimately show "dead s1 h" using u hc by (auto simp: dead_def c(2,3))
  assume r: "r = SECTION_STL_OK" "executing s1 t"
  then have "\<not> group_executing g ?c" using assms(2) g by (auto simp: section_stl_group_revoke_def Let_def split: if_splits)
  moreover have "p_current ?c = Some t" using r(2) c(4) by (simp add: executing_def)
  moreover have "hnd ?c g = h" using gl(2) by (simp add: group_cancel_groups)
  ultimately show "own s1 t \<noteq> h" by (auto simp: group_executing_def c(5))
qed

lemma fault_stays:
  assumes "(stl_step lk)\<^sup>*\<^sup>* s s'" "stl_system_inv lk s" "stat_fault s' = SECTION_STL_OK"
  shows "stat_fault s = SECTION_STL_OK"
  using assms(1,3)
proof (induction rule: rtranclp_induct)
  case (step y z)
  then show ?case using step_advances(1) [OF steps_inv [OF step.hyps(1) assms(2)] step.hyps(2)] by simp
qed

lemma dead_stays:
  assumes "(stl_step lk)\<^sup>*\<^sup>* s s'" "stl_system_inv lk s" "dead s h" "stat_fault s' = SECTION_STL_OK"
  shows "dead s' h \<and> (\<forall>t. executing s' t \<and> own s' t = h \<longrightarrow> executing s t \<and> own s t = h)"
  using assms(1,4)
proof (induction rule: rtranclp_induct)
  case (step y z)
  have y: "stl_system_inv lk y" by (rule steps_inv [OF step.hyps(1) assms(2)])
  note a = step_advances(1) [OF y step.hyps(2) step.prems]
  then have ih: "dead y h" "\<forall>t. executing y t \<and> own y t = h \<longrightarrow> executing s t \<and> own s t = h" using step.IH by simp_all
  have d: "dead z h" using a ih(1) by (simp add: advances_def closing_def)
  have "executing y t \<and> own y t = h" if "executing z t" "own z t = h" for t
    using a that admitted_live [of z t] d by (auto simp: advances_def)
  then show ?case using d ih(2) by blast
qed (use assms(3) in simp)

text \<open>C38: once group_revoke has taken a group of the managed runtime out of service, its handle is out for good.  Whatever
  calls, ticks, switches and completions follow, in whatever order, no task of the handle is ever started or resumed: the
  only one that may still execute is the one that executed when the call came (the call then answered BUSY), and only until it
  is switched out; after the answer OK none executes at all.  And no later registration returns the same handle again.\<close>

theorem stl_revoked_never_runs:
  assumes "stl_reachable lk s" "section_stl_group_revoke pv h s = (r, s1)" "r = SECTION_STL_OK \<or> r = SECTION_STL_BUSY"
    and "(stl_step lk)\<^sup>*\<^sup>* s1 s2" "stl_step lk s2 s3"
  shows "(\<forall>t. executing s3 t \<and> own s3 t = h \<longrightarrow>
        executing s2 t \<and> own s2 t = h \<and> executing s1 t \<and> own s1 t = h \<and> r = SECTION_STL_BUSY)
    \<and> (\<forall>pv' obj i es n has h' s'. section_stl_group_register pv' obj i es n has s2 = (SECTION_STL_OK, Some h', s') \<longrightarrow> h' \<noteq> h)"
proof -
  have s0: "stl_system_inv lk s" by (rule reachable_inv [OF assms(1)])
  have "stl_step lk s (stl_call_effect pv (Revoke h) s)" by (rule step_call)
  then have first: "stl_step lk s s1" using assms(2) by simp
  have s1: "stl_system_inv lk s1" by (rule step_inv [OF s0 first])
  have s2: "stl_system_inv lk s2" by (rule steps_inv [OF assms(4) s1])
  have d1: "dead s1 h" "r = SECTION_STL_OK \<Longrightarrow> executing s1 t \<Longrightarrow> own s1 t \<noteq> h" if "stat_fault s1 = SECTION_STL_OK" for t
    using revoke_dead [OF _ assms(2,3)] step_advances(1) [OF s0 first that] s0 by (simp_all add: stl_system_inv_def)
  have d2: "dead s2 h \<and> (\<forall>t. executing s2 t \<and> own s2 t = h \<longrightarrow> executing s1 t \<and> own s1 t = h) \<and> stat_fault s1 = SECTION_STL_OK"
    if "stat_fault s2 = SECTION_STL_OK"
    using fault_stays [OF assms(4) s1 that] dead_stays [OF assms(4) s1 d1(1) that] by simp
  have "executing s2 t \<and> own s2 t = h \<and> executing s1 t \<and> own s1 t = h \<and> r = SECTION_STL_BUSY" if "executing s3 t" "own s3 t = h" for t
  proof -
    have "stat_fault s3 = SECTION_STL_OK" using step_advances(2) [OF s2 assms(5)] that(1) by blast
    from step_advances(1) [OF s2 assms(5) this] have f: "stat_fault s2 = SECTION_STL_OK" "advances lk s2 s3" by simp_all
    then have "dead s3 h" using d2 by (simp add: advances_def closing_def)
    then have "executing s2 t \<and> own s2 t = h" using f(2) that admitted_live [of s3 t] by (auto simp: advances_def)
    then show ?thesis using d2 [OF f(1)] d1(2) [of t] assms(3) by blast
  qed
  moreover have "h' \<noteq> h" if "section_stl_group_register pv' obj i es n has s2 = (SECTION_STL_OK, Some h', s')" for pv' obj i es n has h' s'
  proof (rule register_cases [of pv' obj i es n has s2])
    fix g k xs
    assume k: "section_stl_group_register pv' obj i es n has s2 = (SECTION_STL_OK, Some k, register_fold obj g xs (group_opened g k s2))"
      "k = \<lparr>sh_group_id = i, sh_generation = generation s2 + 1\<rparr>" "generation s2 \<noteq> - 1" "stat_fault s2 = SECTION_STL_OK"
    have "unat (generation s2 + 1) = Suc (unat (generation s2))" by (rule generation_next [OF k(3)])
    moreover have "unat (sh_generation h) \<le> unat (generation s2)" using d2 [OF k(4)] by (simp add: dead_def)
    ultimately show "h' \<noteq> h" using k(1,2) that by auto
  qed (use that in simp)
  ultimately show ?thesis by blast
qed

section \<open>Preemption\<close>

text \<open>C37: a preempted task of the managed runtime resumes exactly where it was cut off.  When PendSV takes the shared stack from
  the executing task and the task stays suspended, then whatever happens while it waits (other tasks use the same stack, further
  snapshots come and go, groups are loaded and revoked), the switch that executes it again returns the stack pointer it was
  preempted with, and every word of the stack from there to the top is the word that it left.\<close>

theorem stl_resume_exact:
  assumes "link_ok lk" "stl_reachable lk s0" "dispatch_active s0" "sp \<noteq> 0" "executing s0 t"
    and "s1 = section_stl_port_pendsv pv lk sp s0" "switch_pending s0" "st s1 t = TASK_OLD" "(waits lk t)\<^sup>*\<^sup>* s1 s2"
    and "sp' = 0 \<and> p_current s2 = None \<or> sp' \<noteq> 0 \<and> dispatch_active s2"
    and "section_stl_switch pv' lk sp' (s2\<lparr>dispatch_active := True, switch_pending := False\<rparr>) = (q, s3)" "executing s3 t"
  shows "q = sp \<and> (\<forall>i. stack_index lk sp \<le> i \<and> i < SECTION_STL_STACK_WORDS \<longrightarrow> runtime_stack s3 i = runtime_stack s0 i)"
  using resume_round [OF assms] by blast

section \<open>A sample run\<close>

text \<open>Two tasks of one group share the stack: the first is preempted, the second writes over the same words and is
  preempted in turn.  The lemmas for the evaluation keep maps and copies unapplied and divide words instead of naturals.\<close>

lemma copy_words_apply [code]: "copy_words dst off src n i = (if off \<le> i \<and> i < off + n then src (i - off) else dst i)"
  by (simp add: copy_words_def)

lemma update_apply [code]: "fun_upd f a b x = (if x = a then b else f x)"
  by (rule fun_upd_apply)

lemma stack_index_word [code]: "stack_index lk p_sp = unat ((p_sp - lk_stack lk) div 4)"
  by (simp add: stack_index_def unat_div)

definition sample_lk :: stl_link where
  "sample_lk = \<lparr>lk_stack = 0x20000000, lk_pool = 0x20001000, lk_entry = 0x08000101, lk_exc_basic = 0xFFFFFFFD,
     lk_exc_fp = 0xFFFFFFED, lk_fp = False, lk_low_align_mask = 3\<rparr>"

definition sample_pv :: port_view where
  "sample_pv = \<lparr>pv_api_allowed = True, pv_in_handler = False, pv_switch_active = False, pv_host_switch_allowed = True,
     pv_owner_commit = (\<lambda>_. True)\<rparr>"

definition sample_objects :: stl_image_objects where
  "sample_objects = \<lparr>task_object = (\<lambda>k. Some \<lparr>st_period = 10, st_func = 0x100 + of_nat k, st_step_func = 0, st_ctx = 0\<rparr>),
     init_object = (\<lambda>_. None)\<rparr>"

definition sample_handle :: stl_handle where
  "sample_handle = \<lparr>sh_group_id = 5, sh_generation = 1\<rparr>"

definition stl_sample_calls :: "stl_call list" where
  "stl_sample_calls = [Start_core 0, Register sample_objects 5 (Some [(1, Some 0), (1, Some 1)]) 2 True,
     Initialize_begin sample_objects sample_handle (Some []) 0, Initialize_end 7, Enable sample_handle, Tick 10]"

definition sample_loaded :: stl where
  "sample_loaded = foldl (\<lambda>s c. stl_call_effect sample_pv c s) stl_cold stl_sample_calls"

definition sample_started :: stl where
  "sample_started = section_stl_port_svc sample_pv sample_lk sample_loaded"

definition stl_sample_frame :: "u32 \<Rightarrow> (nat \<Rightarrow> u32) \<Rightarrow> nat \<Rightarrow> u32" where
  "stl_sample_frame mark stack = stack(492 := mark, 500 := 0xFFFFFFFD, 507 := 0x08000200, 508 := 0x01000000)"

definition stl_sample_running :: stl where
  "stl_sample_running = stl_call_effect sample_pv (Tick 20)
     (sample_started\<lparr>runtime_stack := stl_sample_frame 0xAAAAAAAA (runtime_stack sample_started)\<rparr>)"

definition sample_preempted :: stl where
  "sample_preempted = section_stl_port_pendsv sample_pv sample_lk 0x200007B0 stl_sample_running"

definition sample_overwritten :: stl where
  "sample_overwritten = sample_preempted\<lparr>runtime_stack := stl_sample_frame 0xBBBBBBBB (runtime_stack sample_preempted)\<rparr>"

definition sample_other :: stl where
  "sample_other = stl_call_effect sample_pv (Tick 30) sample_overwritten"

lemma sample_run:
  "section_stl_run_admit sample_pv sample_loaded = None \<and> \<not> dispatch_active sample_loaded"
  "executing sample_started 0"
  "dispatch_active stl_sample_running \<and> switch_pending stl_sample_running \<and> executing stl_sample_running 0"
  "executing sample_preempted 1 \<and> st sample_preempted 0 = TASK_OLD"
  "dispatch_active sample_other \<and> st sample_overwritten 0 = TASK_OLD \<and> st sample_other 0 = TASK_OLD"
  by code_simp+

lemma sample_resumed:
  "executing (snd (section_stl_switch sample_pv sample_lk 0x200007B0 (sample_other\<lparr>dispatch_active := True, switch_pending := False\<rparr>))) 0"
  by code_simp

lemma reachable_calls: "stl_reachable lk s \<Longrightarrow> stl_reachable lk (foldl (\<lambda>s c. stl_call_effect pv c s) s cs)"
proof (induction cs arbitrary: s)
  case (Cons c cs)
  have "stl_reachable lk (stl_call_effect pv c s)"
    using Cons.prems step_call unfolding stl_reachable_def by (rule rtranclp.rtrancl_into_rtrancl)
  then show ?case using Cons.IH by simp
qed simp

lemma sample_loaded_reachable: "stl_reachable lk sample_loaded"
  unfolding sample_loaded_def by (rule reachable_calls) (simp add: stl_reachable_def)

lemma sample_reachable: "stl_reachable sample_lk stl_sample_running"
proof -
  note sample_loaded_reachable [of sample_lk]
  then have "stl_reachable sample_lk sample_started"
    using step_svc [OF sample_run(1) [THEN conjunct1] sample_run(1) [THEN conjunct2]]
    unfolding sample_started_def stl_reachable_def by (rule rtranclp.rtrancl_into_rtrancl)
  then have "stl_reachable sample_lk (sample_started\<lparr>runtime_stack := stl_sample_frame 0xAAAAAAAA (runtime_stack sample_started)\<rparr>)"
    using step_execute [OF sample_run(2)] unfolding stl_reachable_def by (rule rtranclp.rtrancl_into_rtrancl)
  then show ?thesis
    using step_call unfolding stl_sample_running_def stl_reachable_def by (rule rtranclp.rtrancl_into_rtrancl)
qed

theorem stl_resume_exact_witness:
  "\<exists>s3. section_stl_switch sample_pv sample_lk 0x200007B0 (sample_other\<lparr>dispatch_active := True, switch_pending := False\<rparr>)
      = (0x200007B0, s3) \<and> executing s3 0 \<and> runtime_stack s3 492 = runtime_stack stl_sample_running 492"
proof -
  let ?w = "sample_other\<lparr>dispatch_active := True, switch_pending := False\<rparr>"
  obtain q s3 where q: "section_stl_switch sample_pv sample_lk 0x200007B0 ?w = (q, s3)" by fastforce
  then have e: "executing s3 0" using sample_resumed by simp
  have "waits sample_lk 0 sample_preempted sample_overwritten"
    using step_execute [of sample_preempted 1] sample_run(4,5) by (simp add: waits_def sample_overwritten_def)
  moreover have "waits sample_lk 0 sample_overwritten sample_other"
    using step_call [of sample_lk sample_overwritten] sample_run(5) by (simp add: waits_def sample_other_def del: stl_call_effect.simps)
  ultimately have w: "(waits sample_lk 0)\<^sup>*\<^sup>* sample_preempted sample_other" by (meson converse_rtranclp_into_rtranclp r_into_rtranclp)
  have l: "link_ok sample_lk" by (simp add: link_ok_def sample_lk_def SECTION_STL_STACK_WORDS_def SECTION_STL_POOL_WORDS_def)
  have sp: "(0x200007B0 :: u32) = 0 \<and> p_current sample_other = None \<or> (0x200007B0 :: u32) \<noteq> 0 \<and> dispatch_active sample_other"
    using sample_run(5) by simp
  have "q = 0x200007B0 \<and> (\<forall>i. stack_index sample_lk 0x200007B0 \<le> i \<and> i < SECTION_STL_STACK_WORDS
      \<longrightarrow> runtime_stack s3 i = runtime_stack stl_sample_running i)"
    by (rule stl_resume_exact [OF l sample_reachable _ _ _ sample_preempted_def _ _ w sp q e])
      (use sample_run(3,4) in simp_all)
  moreover have "stack_index sample_lk 0x200007B0 = 492" by code_simp
  ultimately show ?thesis using q e by (auto simp: SECTION_STL_STACK_WORDS_def)
qed

lemma sample_revoked:
  "fst (section_stl_group_revoke sample_pv sample_handle sample_loaded) = SECTION_STL_OK"
  "section_stl_run_admit sample_pv (snd (section_stl_group_revoke sample_pv sample_handle sample_loaded)) = None
    \<and> \<not> dispatch_active (snd (section_stl_group_revoke sample_pv sample_handle sample_loaded))"
  "stat_ready_count sample_loaded = 2 \<and> own sample_loaded 0 = sample_handle"
  by code_simp+

theorem stl_revoked_never_runs_witness:
  "\<exists>s1. section_stl_group_revoke sample_pv sample_handle sample_loaded = (SECTION_STL_OK, s1)
    \<and> stat_ready_count sample_loaded = 2 \<and> own sample_loaded 0 = sample_handle
    \<and> (\<forall>t. executing (section_stl_port_svc sample_pv sample_lk s1) t
          \<longrightarrow> own (section_stl_port_svc sample_pv sample_lk s1) t \<noteq> sample_handle)"
proof -
  obtain s1 where s1: "section_stl_group_revoke sample_pv sample_handle sample_loaded = (SECTION_STL_OK, s1)"
    using sample_revoked(1) by (metis prod.collapse)
  then have "stl_step sample_lk s1 (section_stl_port_svc sample_pv sample_lk s1)"
    using sample_revoked(2) by (intro step_svc) simp_all
  from stl_revoked_never_runs [OF sample_loaded_reachable s1 _ rtranclp.rtrancl_refl this] s1 sample_revoked(3)
  show ?thesis by auto
qed

end
