(* ===== verification/Spec2Isabelle.thy ===== *)
theory Spec2Isabelle
  imports Codec_RLE Codec_LZSS Codec_Dict Codec_Zero Record_Dict Flash_Integrity
    Comm_Base Comm_Crc Comm_Registry Comm_V1_Send Comm_V1 Comm_V1_Link
    Byte_Machine Comm_Frame Comm_Frame_Link Fal_Core Fal_Props
    Boot_Metadata Boot_Core Boot_Props Boot_Protocol Iap_Update Hc32_Flash Hc32_W25q64 Hc32_Boot Hc32_Props Hc32_System
    Section_Runtime Section_Props Stl_Core Stl_Props
begin

text \<open>
  A verification development for ATOMAN, an embedded framework for digital power converters
  (src/code) with board support packages below it (src/platform).

  \<^bold>\<open>The program.\<close>  Board images consist of a section table of registered tasks, links,
  commands and routes (code/section), a communication stack that parses frames from serial links and
  calls the registered commands (code/data_source/comm), compression codecs and containers
  (code/lib), a flash abstraction layer over the board's flash drivers (code/lib/fal), the bootloader
  with its protocol and its metadata (code/app/bootloader), control algorithms in floating point
  (code/ctrl), and debug services (code/dbg).  The development follows the path that an update takes
  through the program: bytes on a link, frames, the upgrade commands, the boot state machine, the
  flash service, the flash drivers of one board (the HC32F334), and back to the boot decision at the
  next reset.

  \<^bold>\<open>Conventions.\<close>  Theory Prelude holds the shared vocabulary: C integers are words of
  their width where the code lets them wrap, and nat for lengths and indexes that the code has bounded;
  pointers that may be NULL are options; memory is a list of bytes; a C function with side effects is
  a HOL function that returns the new state beside its result.  A loop is structural recursion or a
  function with a termination proof; a polling loop with a bound carries the bound of the code
  (SPI_TIMEOUT, RESET_DELAY, the loops of the flash controller), and the loops of the managed runtime carry the size of
  the table they walk (its invariant shows that no queue or ring holds a slot twice), so no fuel is invented; a walk over a
  linked list, which never ends on a cyclic one, is a partial function into option, and is proved to end on the
  lists that the program builds.
  Callbacks and vendor libraries are arguments: functions on an abstract state type.

  \<^bold>\<open>Theories and sources.\<close>

  \<^item> Codecs, code/lib/codec_rle.c, codec_lzss.c, codec_dict.c, codec_zero.c: theories Codec_Base (the
  locale \<open>block_codec\<close>, what the frame sender relies on), Codec_Literal (the literal-run loop
  that LZSS and the dictionary codec share, a locale too), Codec_RLE, Codec_LZSS, Codec_Dict and Codec_Zero.
  Each codec is proved to be a \<open>block_codec\<close>: whatever it encodes it decodes, within the
  limit it was given.
  \<^item> Linked_List: the intrusive lists of the registries, over an explicit store of next pointers.
  \<^item> Containers, code/lib/record_dict.c and flash_integrity.c: Record_Dict, Flash_Integrity.
  \<^item> Check sums: Byte_Sum (the locale \<open>detecting_sum\<close>), interpreted on the CRC-16 of
  comm.c (Comm_Crc) and on the rotating sum of the retained upgrade request (Iap_Update).
  \<^item> Communication, code/data_source/comm: Comm_Base (frames, links, routes), Comm_Registry (the
  registration lists with move-to-front lookup, over an explicit store of next pointers),
  Comm_V1_Send, Comm_V1 and Comm_V1_Link (the 0xE9 protocol with compression), Comm_Frame and
  Comm_Frame_Link (the 0xE8 protocol), Byte_Machine (the contract under which the block entry of a parser equals
  its byte entry, interpreted on both parsers).
  \<^item> Flash abstraction layer, code/lib/fal/fal_core.c: Fal_Core (configuration, requests and the
  polled state machine), Fal_Layout (the layout that the configuration check decides), Fal_Transfer
  and Fal_Machine (invariant and measure), Fal_Completion (runs and completion), Fal_Props.
  \<^item> Bootloader, code/app/bootloader: Boot_Metadata (bootloader_metadata.c), Boot_Core
  (bootloader_core.c), Boot_Safety, Boot_Download and Boot_Progress (invariants and progress over all
  its runs), Boot_Props, Boot_Protocol (bootloader_protocol.c), Iap_Update (iap_update_service.c and
  the retained request of bootloader_update_request.h).
  \<^item> One board, platform/hc32f334: Hc32_Flash (bsp_efm_flash.c, the internal flash), Hc32_W25q64
  (bsp_w25q64.c, the serial flash), Hc32_Boot (fal_cfg.c, hc32_boot_platform.c and
  bootloader_fal_adapter.c), Hc32_Props, and Hc32_System, which composes the state machine, the adapter and the
  flash service and lifts the power-fail protection to the calls of the flash drivers.

  \<^item> Bare-metal section runtime, code/section/baremetal/section.c: Section_Runtime (the section table, the
  runtime lists, the scheduler, interrupts, links and state machines), Insertion (stable sorting by insertion) and
  Section_Props (what start-up builds, one round of the scheduler, and rounds over time).
  \<^item> Managed preemptive runtime, code/section/srtos_stl (core/section.c, and of m/port.c the frames and the effect
  of the two vectors): Stl_Core (the resident state and every operation), Stl_Pool (the snapshot ring), Stl_Ready (the
  ready queue), Stl_Inv (the invariant), Stl_Switch, Stl_Link, Stl_Dispatch and Stl_Entry (one switch, its addresses, and
  the trampoline), Stl_Calls and Stl_Groups (the application's calls), Stl_System (all steps in any order), Stl_Resume,
  Stl_Queue and Stl_Props (what the runtime promises).

  \<^bold>\<open>State.\<close>  The records \<open>fal\<close> and \<open>boot\<close> are the C structs of the
  flash service and the state machine, the parser states of Comm_V1 and Comm_Frame those of the
  parsers.  A bootloader works on a \<open>world\<close>: the two buffers of the caller, a platform state
  and a ghost log of what it asked for and was told, in which its safety is stated.  On the HC32 the platform state is
  the flash service with the drivers below it, each over a hardware state that belongs to the vendor library.  The record
  \<open>stl\<close> is the static state of the managed runtime; a step of its system is one call, one exception, the
  completion of a callback, or any store of the running task to the shared stack.

  \<^bold>\<open>What the lemmas show.\<close>

  \<^item> Codecs: round trips, capacity bounds, and that the bit-level encoder of Codec_Zero stores the
  bit string of its specification.
  \<^item> Communication: a frame that one side builds reaches exactly the registered command on the
  other side, byte by byte or in blocks; whatever arrives, a command runs only on a frame
  that arrived with a valid sum; buffers are never overrun; lookups move items to the front without ever
  changing what is found.
  \<^item> Flash layer: the driver is called within the zone of the request and nowhere else, every
  accepted request completes when the driver answers, errors and stops end a request.
  \<^item> Bootloader: the installed image is only touched while a redundant record says so, whatever
  instant the power fails at; the jump happens only after every check; a download accepts exactly the
  programmed bytes; start-up resumes what a power failure interrupted.
  \<^item> Hand-over: a reset at any instant of the request leaves the old or the new request, never a
  mixture, and a single damaged byte is detected.
  \<^item> HC32: the composed system, boot state machine and flash service polled in any order, programs and
  erases the internal flash only in the application partition and under a confirmed record; the flash layout is valid, no write or erase request reaches the bootloader's own
  sectors, the internal flash driver programs exactly the words asked for or reports failure, and the serial
  flash driver never sends a page program or erase before the chip has answered ready and, to a second status read, write
  enabled.

  \<^item> Section runtime: start-up ends with every registered item in its list, in priority order and stably; a round
  runs exactly the due tasks; rounds that come often enough lose no activation; a link hands its bytes on in order.
  \<^item> Managed runtime: the tables, the queue, the ring and the saved frames agree in every reachable state; a preempted
  task resumes with the stack it left; a revoked group never runs again; a preempted task goes behind everybody who waits
  (\<open>round_robin\<close>), and an activation keeps the phase of its task (\<open>activate_due_tasks\<close>,
  \<open>activated_phase\<close>).

  \<^bold>\<open>Hypotheses.\<close>  They describe code that is not in the repository or that the board supplies:
  \<open>responsive\<close> and \<open>prompt\<close> (a flash driver answers), \<open>copy_respecting\<close> (a
  flash service changes a caller's buffer only while a read into it is in progress),
  \<open>efm_honest\<close> (the vendor's program and erase commands change the addressed word or sector
  alone), \<open>link_ok\<close> (the linker places the stack and the pool of the managed runtime in the address space,
  aligned as its port requires).  Check sums are the ones of the code, never parameters with assumed strength.  Every property with a
  hypothesis is followed by a witness that applies it to a concrete state.

  \<^bold>\<open>Not modelled.\<close>  The other board packages and vendor SDKs (register access), the
  control algorithms (floating point), the debug services, the other preemptive
  runtimes of code/section (srtos\_m, srtos\_a9, srtos\_riscv), the simulation glue, and the applications.  Of the modelled files: the performance hooks
  and the race probe of the bare-metal runtime, the assembly and the register checks of the managed runtime's port and
  the copy of its statistics, the busy-flag pools around the transmit buffers of the two senders, which protect against
  re-entrance from an interrupt, and the quiescing of the peripherals before the jump.
\<close>

end
